(* ===== verification/Mqtt_Prelude.thy ===== *)
theory Mqtt_Prelude
  imports Main "HOL-Library.Word" "HOL-Library.Monad_Syntax"
begin

unbundle bit_operations_syntax

text \<open>
  Shared vocabulary of the development: the C++ integer types as words, byte buffers with
  explicit out-of-bounds behaviour, and the word and list lemmas the component theories use.

  Memory. A pointer of type \<^verbatim>\<open>uint8_t *\<close> is modelled by the list of bytes from the
  address it holds to the end of the allocation it points into. Reading or writing past that
  list is undefined behaviour in C++; the access functions below return \<^const>\<open>None\<close> there, and
  every operation built on them is in the option monad, so that "the code never leaves its
  buffer" is the statement that the result is not \<^const>\<open>None\<close>.

  Collections of facts: \<open>mem_simps\<close> (byte buffer accesses), \<open>pkt_simps\<close> (packet cursor),
  \<open>msg_defs\<close> (operations of the message classes), \<open>wp_rules\<close> (partial correctness of operations).
\<close>

named_theorems mem_simps "evaluation of byte buffer accesses"
named_theorems pkt_simps "behaviour of the packet cursor on well-formed packets"
named_theorems msg_defs "definitions of the message codecs"

named_theorems wp_rules "what operations guarantee when they return"

subsection \<open>C++ scalar types\<close>

type_synonym u8 = "8 word"
type_synonym u16 = "16 word"
type_synonym u32 = "32 word"
type_synonym u64 = "64 word"

type_synonym bytes = "u8 list"

text \<open>A \<^verbatim>\<open>std::string\<close> is a sequence of bytes; literals are given by their characters.\<close>

type_synonym cstring = "u8 list"

definition cstr :: "string \<Rightarrow> cstring" where
  "cstr s = map of_char s"

text \<open>A conversion of an unsigned 32 bit value to \<^verbatim>\<open>int\<close> reads it as two's complement.\<close>

definition to_int :: "u32 \<Rightarrow> int" where
  "to_int w = sint w"

subsection \<open>Byte buffers\<close>

definition mem_get :: "bytes \<Rightarrow> nat \<Rightarrow> u8 option" where
  "mem_get buf i = (if i < length buf then Some (buf ! i) else None)"

definition mem_put :: "bytes \<Rightarrow> nat \<Rightarrow> u8 \<Rightarrow> bytes option" where
  "mem_put buf i v = (if i < length buf then Some (buf[i := v]) else None)"

definition mem_read :: "bytes \<Rightarrow> nat \<Rightarrow> nat \<Rightarrow> bytes option" where
  "mem_read buf i n = (if i + n \<le> length buf then Some (take n (drop i buf)) else None)"

definition mem_copy :: "bytes \<Rightarrow> nat \<Rightarrow> bytes \<Rightarrow> bytes option" where
  "mem_copy buf i vs =
     (if i + length vs \<le> length buf then Some (take i buf @ vs @ drop (i + length vs) buf) else None)"

lemma mem_get_Some [mem_simps]: "i < length buf \<Longrightarrow> mem_get buf i = Some (buf ! i)"
  by (simp add: mem_get_def)

lemma mem_get_None [mem_simps]: "length buf \<le> i \<Longrightarrow> mem_get buf i = None"
  by (simp add: mem_get_def)

lemma mem_put_Some [mem_simps]: "i < length buf \<Longrightarrow> mem_put buf i v = Some (buf[i := v])"
  by (simp add: mem_put_def)

lemma mem_read_Some [mem_simps]:
  "i + n \<le> length buf \<Longrightarrow> mem_read buf i n = Some (take n (drop i buf))"
  by (simp add: mem_read_def)

lemma mem_copy_Some [mem_simps]:
  "i + length vs \<le> length buf \<Longrightarrow>
     mem_copy buf i vs = Some (take i buf @ vs @ drop (i + length vs) buf)"
  by (simp add: mem_copy_def)

lemma mem_put_length: "mem_put buf i v = Some buf' \<Longrightarrow> length buf' = length buf"
  by (auto simp: mem_put_def split: if_splits)

lemma mem_copy_length: "mem_copy buf i vs = Some buf' \<Longrightarrow> length buf' = length buf"
  by (auto simp: mem_copy_def split: if_splits)

lemma list_update_as_take: "i < length buf \<Longrightarrow> buf[i := v] = take i buf @ [v] @ drop (i + 1) buf"
  by (simp add: upd_conv_take_nth_drop)

lemma take_Suc_update: "i < length buf \<Longrightarrow> take (Suc i) (buf[i := v]) = take i buf @ [v]"
  by (simp add: take_Suc_conv_app_nth)

lemma two_bytes: "\<not> length xs < 2 \<Longrightarrow> \<exists>h l bs. xs = h # l # bs"
  by (cases xs; cases "tl xs") auto

subsection \<open>Words\<close>

text \<open>Unsigned values are read as naturals throughout.\<close>

declare of_nat_unat [simp del]

lemma unat_lt_2p32: "unat (w :: u32) < 4294967296"
  using unsigned_less [of w] by simp

lemma unat_lt_2p16: "unat (w :: u16) < 65536"
  using unsigned_less [of w] by simp

lemma unat_lt_2p8: "unat (w :: u8) < 256"
  using unsigned_less [of w] by simp

lemma unat_of_nat_u32 [simp]: "n < 4294967296 \<Longrightarrow> unat (of_nat n :: u32) = n"
  by (simp add: unat_of_nat)

lemma unat_of_nat_u16 [simp]: "n < 65536 \<Longrightarrow> unat (of_nat n :: u16) = n"
  by (simp add: unat_of_nat)

lemma unat_of_nat_u8 [simp]: "n < 256 \<Longrightarrow> unat (of_nat n :: u8) = n"
  by (simp add: unat_of_nat)

lemma unat_add_u32:
  "unat (a :: u32) + unat b < 4294967296 \<Longrightarrow> unat (a + b) = unat a + unat b"
  by (simp add: unat_word_ariths)

lemma unat_sub_u32: "unat (b :: u32) \<le> unat a \<Longrightarrow> unat (a - b) = unat a - unat b"
  by (simp add: unat_sub word_le_nat_alt)

lemma to_int_small: "unat w < 2147483648 \<Longrightarrow> to_int w = int (unat w)"
proof -
  assume "unat w < 2147483648"
  then have u: "uint w < 2147483648" by (simp only: uint_nat)
  have "signed_take_bit 31 (uint w) = uint w"
    by (rule signed_take_bit_int_eq_self)
      (use u in \<open>simp_all add: order_trans [OF _ unsigned_greater_eq]\<close>)
  then show ?thesis by (simp add: to_int_def sint_uint uint_nat)
qed

lemma to_int_large: "2147483648 \<le> unat w \<Longrightarrow> to_int w = int (unat w) - 4294967296"
proof -
  assume "2147483648 \<le> unat w"
  then have u: "2147483648 \<le> uint w" by (simp only: uint_nat)
  have "(uint w + 2147483648) mod 4294967296 = uint w - 2147483648"
    using u unsigned_less [of w, where ?'a = int]
    by (subst minus_mod_self2 [symmetric]) (simp del: minus_mod_self2)
  then have "sint w = uint w - 4294967296"
    by (simp add: sint_uint signed_take_bit_eq_take_bit_shift take_bit_eq_mod)
  then show ?thesis by (simp add: to_int_def uint_nat)
qed

text \<open>Two bytes of a big-endian short, written and read back.\<close>

definition hi_byte :: "u16 \<Rightarrow> u8" where
  "hi_byte v = ucast (drop_bit 8 v AND 0xFF)"

definition lo_byte :: "u16 \<Rightarrow> u8" where
  "lo_byte v = ucast (v AND 0xFF)"

definition be16 :: "u8 \<Rightarrow> u8 \<Rightarrow> u16" where
  "be16 h l = push_bit 8 (ucast h) OR (ucast l AND 0xFF)"

lemma ff_mask: "(0xFF :: 'a :: len word) = mask 8"
  by (simp add: mask_eq_exp_minus_1)

lemma be16_bytes [simp]: "be16 (hi_byte v) (lo_byte v) = v"
  unfolding be16_def hi_byte_def lo_byte_def
  by (rule bit_word_eqI) (auto simp: bit_simps ff_mask)

lemma hi_byte_be16 [simp]: "hi_byte (be16 h l) = h"
  unfolding be16_def hi_byte_def
  by (rule bit_word_eqI) (auto simp: bit_simps ff_mask)

lemma lo_byte_be16 [simp]: "lo_byte (be16 h l) = l"
  unfolding be16_def lo_byte_def
  by (rule bit_word_eqI) (auto simp: bit_simps ff_mask)

text \<open>The continuation bit and the seven value bits of a length byte.\<close>

lemma mask7: "(0x7F :: u8) = mask 7"
  by (simp add: mask_eq_exp_minus_1)

lemma unat_and_7F: "unat (d AND 0x7F :: u8) = unat d mod 128"
  by (simp add: mask7 take_bit_eq_mask [symmetric] unsigned_take_bit_eq take_bit_eq_mod unat_mod)

lemma bit7_iff: "bit (d :: u8) 7 \<longleftrightarrow> 128 \<le> unat d"
proof -
  have "bit d 7 \<longleftrightarrow> bit (unat d) 7"
    by (simp add: bit_unsigned_iff)
  also have "\<dots> \<longleftrightarrow> odd (unat d div 128)"
    by (simp add: bit_iff_odd)
  also have "\<dots> \<longleftrightarrow> 128 \<le> unat d"
  proof (cases "128 \<le> unat d")
    case True
    then have "unat d div 128 = 1"
      using unat_lt_2p8 [of d] by (intro div_nat_eqI) simp_all
    with True show ?thesis by simp
  next
    case False
    then show ?thesis by simp
  qed
  finally show ?thesis .
qed

lemma and_80_zero: "(d AND 0x80 :: u8) = 0 \<longleftrightarrow> unat d < 128"
  using and_exp_eq_0_iff_not_bit [of d 7] bit7_iff [of d] by (simp add: not_le)

lemma or_80_and_7F: "(d OR 0x80 :: u8) AND 0x7F = d AND 0x7F"
  by (simp add: bit.conj_disj_distrib2)

lemma or_80_bit: "\<not> unat (d OR 0x80 :: u8) < 128"
  using and_80_zero [of "d OR 0x80"] by (simp add: bit.conj_disj_distrib2)

lemma unat_ucast_u8 [simp]: "unat (ucast (d :: u8) :: u32) = unat d"
  using unat_lt_2p8 [of d] by (simp add: unsigned_ucast_eq take_bit_nat_eq_self_iff)

lemma unat_push7: "unat (push_bit 7 (ucast (d :: u8)) :: u32) = 128 * unat d"
proof -
  have "unat (push_bit 7 (ucast d) :: u32) = take_bit 32 (push_bit 7 (unat d))"
    by (subst unsigned_push_bit_eq) simp
  also have "\<dots> = push_bit 7 (unat d)"
    using unat_lt_2p8 [of d] by (simp add: take_bit_nat_eq_self_iff push_bit_eq_mult)
  finally show ?thesis by (simp add: push_bit_eq_mult)
qed

lemma push7_or_add:
  assumes "unat (v :: u32) < 128"
  shows "unat (push_bit 7 (ucast (d::u8)) OR v) = 128 * unat d + unat v"
proof -
  have "take_bit 7 (unat v) = unat v" using assms by (simp add: take_bit_nat_eq_self_iff)
  then have *: "take_bit 7 v = v"
    by (metis unsigned_take_bit_eq word_eq_iff_unsigned)
  have "push_bit 7 (ucast d) AND v = 0"
    by (subst * [symmetric], rule bit_word_eqI) (auto simp: bit_simps)
  then have "push_bit 7 (ucast d) OR v = push_bit 7 (ucast d) + v"
    by (simp add: disjunctive_add_eq_or)
  then show ?thesis
    using assms unat_lt_2p8 [of d] by (subst \<open>_ OR _ = _\<close>, subst unat_add_u32) (simp_all add: unat_push7)
qed

lemma push7_or_bound:
  assumes "unat (v :: u32) < 16384" "unat (d :: u8) < 128"
  shows "unat (push_bit 7 (ucast d) OR v) < 16384"
proof -
  have "take_bit 14 (unat (push_bit 7 (ucast d) OR v)) = unat (push_bit 7 (ucast d) OR v)"
    using assms by (simp add: unsigned_or_eq unat_push7 take_bit_nat_eq_self)
  then show ?thesis by (simp add: take_bit_nat_eq_self_iff)
qed

lemma digit_of: "ucast (n mod 128 :: u32) = (of_nat (unat n mod 128) :: u8)"
  by (simp add: word_eq_iff_unsigned [where ?'a = nat] unsigned_ucast_eq unat_mod unat_of_nat take_bit_eq_mod)


subsection \<open>Operations that may fault\<close>

text \<open>\<open>wp m Q\<close>: if \<open>m\<close> returns, its result satisfies \<open>Q\<close>.\<close>

definition wp :: "'a option \<Rightarrow> ('a \<Rightarrow> bool) \<Rightarrow> bool" where
  "wp m Q \<longleftrightarrow> (\<forall>x. m = Some x \<longrightarrow> Q x)"

lemma wp_simps [simp]: "wp (Some x) Q \<longleftrightarrow> Q x" "wp None Q" "wp (m \<bind> f) Q \<longleftrightarrow> wp m (\<lambda>x. wp (f x) Q)"
  by (auto simp: wp_def bind_eq_Some_conv)

lemma wp_if [simp]: "wp (if b then m else n) Q \<longleftrightarrow> (b \<longrightarrow> wp m Q) \<and> (\<not> b \<longrightarrow> wp n Q)"
  by simp

lemma wpI: "(\<And>x. m = Some x \<Longrightarrow> Q x) \<Longrightarrow> wp m Q"
  by (simp add: wp_def)

lemma wpD: "wp m Q \<Longrightarrow> m = Some x \<Longrightarrow> Q x"
  by (simp add: wp_def)

subsection \<open>Byte order\<close>

text \<open>The bytes of a number in memory, least significant byte first, and in network order.\<close>

fun le_bytes :: "nat \<Rightarrow> nat \<Rightarrow> bytes" where
  "le_bytes 0 n = []"
| "le_bytes (Suc k) n = of_nat (n mod 256) # le_bytes k (n div 256)"

fun le_val :: "bytes \<Rightarrow> nat" where
  "le_val [] = 0"
| "le_val (b # bs) = unat b + 256 * le_val bs"

definition be_bytes :: "nat \<Rightarrow> nat \<Rightarrow> bytes" where
  "be_bytes k n = rev (le_bytes k n)"

definition be_val :: "bytes \<Rightarrow> nat" where
  "be_val bs = le_val (rev bs)"

lemma length_le_bytes [simp]: "length (le_bytes k n) = k"
  by (induction k arbitrary: n) auto

lemma length_be_bytes [simp]: "length (be_bytes k n) = k"
  by (simp add: be_bytes_def)

lemma le_val_le_bytes: "n < 256 ^ k \<Longrightarrow> le_val (le_bytes k n) = n"
proof (induction k arbitrary: n)
  case (Suc k)
  then have "n div 256 < 256 ^ k" by (simp add: less_mult_imp_div_less mult.commute)
  with Suc.IH show ?case by simp
qed simp

lemma be_val_be_bytes: "n < 256 ^ k \<Longrightarrow> be_val (be_bytes k n) = n"
  by (simp add: be_val_def be_bytes_def le_val_le_bytes)

lemma le_val_bound: "le_val bs < 256 ^ length bs"
proof (induction bs)
  case (Cons b bs)
  have "unat b + 256 * le_val bs < 256 * (1 + le_val bs)" using unat_lt_2p8 [of b] by simp
  also have "\<dots> \<le> 256 * 256 ^ length bs" using Cons by (intro mult_le_mono) auto
  finally show ?case by simp
qed simp

end
