(* ===== verification/Mqtt_Pkt.thy ===== *)
theory Mqtt_Pkt
  imports Mqtt_Prelude
begin

text \<open>
  The packet cursor \<^verbatim>\<open>CMqttPkt\<close> of \<^verbatim>\<open>src/mqttc++/mqtt_pkt.cpp\<close>: a window of
  \<^verbatim>\<open>m_max_size\<close> bytes over a buffer, an offset, the reads a decoder makes and the writes an
  encoder makes, and the free function \<^verbatim>\<open>remain_length\<close> that splits the byte stream.

  An operation returns the C++ return code, its reference results and the updated cursor, or
  \<^const>\<open>None\<close> where it would touch memory outside the allocation. The field \<open>m_buf\<close> holds the
  bytes from \<^verbatim>\<open>m_buf_ptr\<close> to the end of the allocation, which may be longer than the window.
  The members \<^verbatim>\<open>m_remain_length_value\<close> and \<^verbatim>\<open>m_remain_length_bytes\<close> of the class are set to 0 by
  its constructor and used nowhere else, so the record leaves them out.

  The second half of the theory relates the cursor to plain byte lists: \<open>pkt_rest\<close> is what a
  reader has still to consume, \<open>pkt_written\<close> what a writer has produced, and the locale
  \<open>pkt_field\<close> is the contract of one field of a packet, interpreted for bytes, shorts, strings
  and payloads.
\<close>

subsection \<open>Return codes\<close>

definition NEED_MORE_DATA :: int where "NEED_MORE_DATA = -2"

definition FAILTURE :: int where "FAILTURE = -1"

definition SUCCESS :: int where "SUCCESS = 0"

lemmas ret_defs = NEED_MORE_DATA_def FAILTURE_def SUCCESS_def

subsection \<open>The length of the next packet\<close>

definition MAX_REMAIN_LENGTH_BYTES :: nat where "MAX_REMAIN_LENGTH_BYTES = 4"

text \<open>
  The loop of \<^verbatim>\<open>remain_length\<close>: result flag \<^verbatim>\<open>last_byte_found\<close>, final \<^verbatim>\<open>offset\<close> and
  \<^verbatim>\<open>remain_length_value\<close>. The buffer is indexed from the fixed header, so the length
  bytes start at index 1. No test against the number of received bytes is made here.
\<close>

function remain_length_loop :: "bytes \<Rightarrow> nat \<Rightarrow> u32 \<Rightarrow> (bool \<times> nat \<times> u32) option" where
  "remain_length_loop buf offset value =
     (if offset < MAX_REMAIN_LENGTH_BYTES then
        (case mem_get buf (1 + offset) of
           None \<Rightarrow> None
         | Some b \<Rightarrow>
             (let value' = (if offset = 0 then ucast (b AND 0x7F)
                            else push_bit 7 (ucast (b AND 0x7F)) OR value)
              in if b AND 0x80 = 0 then Some (True, offset, value')
                 else remain_length_loop buf (offset + 1) value'))
      else Some (False, offset, value))"
  by pat_completeness auto
termination
  by (relation "measure (\<lambda>(buf, offset, value). MAX_REMAIN_LENGTH_BYTES - offset)")
    (auto simp: MAX_REMAIN_LENGTH_BYTES_def)

declare remain_length_loop.simps [simp del]

text \<open>Result: return code, \<^verbatim>\<open>remain_length_value\<close>, \<^verbatim>\<open>remain_length_bytes\<close>.\<close>

definition remain_length :: "bytes \<Rightarrow> u32 \<Rightarrow> (int \<times> u32 \<times> u8) option" where
  "remain_length pkt_buf len =
     do {
       (last_byte_found, offset, value) \<leftarrow> remain_length_loop pkt_buf 0 0;
       if \<not> last_byte_found
       then Some (if offset \<ge> MAX_REMAIN_LENGTH_BYTES then FAILTURE else NEED_MORE_DATA, value, 0)
       else
         (let nbytes = of_nat (offset + 1) :: u8;
              pkt_total_len = value + ucast nbytes + 1
          in if pkt_total_len > len then Some (NEED_MORE_DATA, value, nbytes)
             else Some (to_int value, value, nbytes))
     }"

subsection \<open>The cursor\<close>

record cmqtt_pkt =
  m_offset :: u32
  m_max_size :: u32
  m_buf :: bytes

definition CMqttPkt :: "bytes \<Rightarrow> u32 \<Rightarrow> cmqtt_pkt" where
  "CMqttPkt buf len = \<lparr>m_offset = 0, m_max_size = len, m_buf = buf\<rparr>"

definition pkt_length :: "cmqtt_pkt \<Rightarrow> u32" where
  "pkt_length p = m_offset p"

definition left_size :: "cmqtt_pkt \<Rightarrow> int" where
  "left_size p = to_int (m_max_size p - m_offset p)"

definition pkt_skip :: "u32 \<Rightarrow> cmqtt_pkt \<Rightarrow> cmqtt_pkt" where
  "pkt_skip n p = p\<lparr>m_offset := m_offset p + n\<rparr>"

text \<open>
  \<^verbatim>\<open>read_remain_length\<close> returns its code, the two reference results and the cursor.
  On failure of the size test the references keep the caller's values, given as arguments.
\<close>

definition read_remain_length ::
  "u32 \<Rightarrow> u8 \<Rightarrow> cmqtt_pkt \<Rightarrow> (int \<times> u32 \<times> u8 \<times> cmqtt_pkt) option" where
  "read_remain_length value0 bytes0 p =
     (if left_size p < 2 then Some (FAILTURE, value0, bytes0, p)
      else do {
        (res, value, nbytes) \<leftarrow> remain_length (m_buf p) (m_max_size p);
        if res < 0 then Some (res, value, nbytes, p)
        else Some (SUCCESS, value, nbytes, pkt_skip (ucast nbytes) p)
      })"

definition read_byte :: "u8 \<Rightarrow> cmqtt_pkt \<Rightarrow> (int \<times> u8 \<times> cmqtt_pkt) option" where
  "read_byte value0 p =
     (if left_size p < 1 then Some (FAILTURE, value0, p)
      else do {
        v \<leftarrow> mem_get (m_buf p) (unat (m_offset p));
        Some (SUCCESS, v, pkt_skip 1 p)
      })"

text \<open>The overload that appends \<^verbatim>\<open>len\<close> bytes to a vector; a negative \<^verbatim>\<open>len\<close> reads nothing
  and moves the offset back.\<close>

definition read_bytes :: "bytes \<Rightarrow> int \<Rightarrow> cmqtt_pkt \<Rightarrow> (int \<times> bytes \<times> cmqtt_pkt) option" where
  "read_bytes payload len p =
     (if left_size p < len then Some (FAILTURE, payload, p)
      else do {
        vs \<leftarrow> mem_read (m_buf p) (unat (m_offset p)) (nat len);
        Some (SUCCESS, payload @ vs, pkt_skip (of_int len) p)
      })"

definition read_short :: "u16 \<Rightarrow> cmqtt_pkt \<Rightarrow> (int \<times> u16 \<times> cmqtt_pkt) option" where
  "read_short value0 p =
     (if left_size p < 2 then Some (FAILTURE, value0, p)
      else do {
        h \<leftarrow> mem_get (m_buf p) (unat (m_offset p));
        l \<leftarrow> mem_get (m_buf p) (unat (m_offset p + 1));
        Some (SUCCESS, be16 h l, pkt_skip 2 p)
      })"

text \<open>The local \<^verbatim>\<open>str_len\<close> is not initialised in the source; it is only read after
  \<^verbatim>\<open>read_short\<close> has set it, apart from a log line.\<close>

definition read_string :: "cstring \<Rightarrow> cmqtt_pkt \<Rightarrow> (int \<times> cstring \<times> cmqtt_pkt) option" where
  "read_string str0 p =
     do {
       (res, str_len, p1) \<leftarrow> read_short 0 p;
       if res = FAILTURE \<or> left_size p1 < int (unat str_len) then Some (FAILTURE, str0, p1)
       else do {
         s \<leftarrow> mem_read (m_buf p1) (unat (m_offset p1)) (unat str_len);
         Some (SUCCESS, s, pkt_skip (ucast str_len) p1)
       }
     }"

subsection \<open>Writing\<close>

text \<open>The do-while loop of \<^verbatim>\<open>write_remain_length\<close>; it does not test the window.\<close>

function write_remain_length_loop :: "bytes \<Rightarrow> u32 \<Rightarrow> u32 \<Rightarrow> u8 \<Rightarrow> (bytes \<times> u8) option" where
  "write_remain_length_loop buf off n k =
     (let digit = ucast (n mod 128) :: u8;
          n' = n div 128;
          b = (if n' > 0 then digit OR 0x80 else digit AND 0x7F)
      in case mem_put buf (unat (off + ucast k)) b of
           None \<Rightarrow> None
         | Some buf' \<Rightarrow> (if n' > 0 then write_remain_length_loop buf' off n' (k + 1)
                         else Some (buf', k + 1)))"
  by pat_completeness auto
termination
proof (relation "measure (\<lambda>(buf, off, n, k). unat n)", goal_cases)
  case (2 buf off n k x xa xb x2)
  then show ?case
    by (simp add: word_less_nat_alt unat_div)
qed simp

declare write_remain_length_loop.simps [simp del]

definition write_remain_length :: "u32 \<Rightarrow> cmqtt_pkt \<Rightarrow> (int \<times> u8 \<times> cmqtt_pkt) option" where
  "write_remain_length n p =
     do {
       (buf, nbytes) \<leftarrow> write_remain_length_loop (m_buf p) (m_offset p) n 0;
       Some (SUCCESS, nbytes, pkt_skip (ucast nbytes) (p\<lparr>m_buf := buf\<rparr>))
     }"

definition write_byte :: "u8 \<Rightarrow> cmqtt_pkt \<Rightarrow> (int \<times> cmqtt_pkt) option" where
  "write_byte value p =
     (if left_size p < 1 then Some (FAILTURE, p)
      else do {
        buf \<leftarrow> mem_put (m_buf p) (unat (m_offset p)) value;
        Some (SUCCESS, pkt_skip 1 (p\<lparr>m_buf := buf\<rparr>))
      })"

text \<open>The overload that copies a block; callers pass the block's own size.\<close>

definition write_bytes :: "bytes \<Rightarrow> cmqtt_pkt \<Rightarrow> (int \<times> cmqtt_pkt) option" where
  "write_bytes vs p =
     (if left_size p < int (length vs) then Some (FAILTURE, p)
      else do {
        buf \<leftarrow> mem_copy (m_buf p) (unat (m_offset p)) vs;
        Some (SUCCESS, pkt_skip (of_nat (length vs)) (p\<lparr>m_buf := buf\<rparr>))
      })"

definition write_short :: "u16 \<Rightarrow> cmqtt_pkt \<Rightarrow> (int \<times> cmqtt_pkt) option" where
  "write_short value p =
     (if left_size p < 2 then Some (FAILTURE, p)
      else do {
        buf1 \<leftarrow> mem_put (m_buf p) (unat (m_offset p)) (hi_byte value);
        buf2 \<leftarrow> mem_put buf1 (unat (m_offset p + 1)) (lo_byte value);
        Some (SUCCESS, pkt_skip 2 (p\<lparr>m_buf := buf2\<rparr>))
      })"

text \<open>The length prefix is the size converted to \<^verbatim>\<open>uint16_t\<close>.\<close>

definition write_string :: "cstring \<Rightarrow> cmqtt_pkt \<Rightarrow> (int \<times> cmqtt_pkt) option" where
  "write_string s p =
     do {
       (res, p1) \<leftarrow> write_short (of_nat (length s)) p;
       if res = FAILTURE then Some (FAILTURE, p1) else write_bytes s p1
     }"

subsection \<open>The cursor and the bytes it stands for\<close>

definition pkt_wf :: "cmqtt_pkt \<Rightarrow> bool" where
  "pkt_wf p \<longleftrightarrow> unat (m_offset p) \<le> unat (m_max_size p) \<and> unat (m_max_size p) \<le> length (m_buf p)
     \<and> unat (m_max_size p) < 2147483648"

definition pkt_room :: "cmqtt_pkt \<Rightarrow> nat" where
  "pkt_room p = unat (m_max_size p) - unat (m_offset p)"

definition pkt_rest :: "cmqtt_pkt \<Rightarrow> bytes" where
  "pkt_rest p = take (pkt_room p) (drop (unat (m_offset p)) (m_buf p))"

definition pkt_written :: "cmqtt_pkt \<Rightarrow> bytes" where
  "pkt_written p = take (unat (m_offset p)) (m_buf p)"

definition pkt_emit :: "bytes \<Rightarrow> cmqtt_pkt \<Rightarrow> cmqtt_pkt" where
  "pkt_emit bs p = p\<lparr>m_offset := m_offset p + of_nat (length bs),
     m_buf := take (unat (m_offset p)) (m_buf p) @ bs @ drop (unat (m_offset p) + length bs) (m_buf p)\<rparr>"

lemma left_size_wf [pkt_simps]: "pkt_wf p \<Longrightarrow> left_size p = int (pkt_room p)"
  unfolding left_size_def pkt_room_def
  by (subst to_int_small) (auto simp: pkt_wf_def unat_sub_u32 simp del: of_nat_diff)

lemma length_pkt_rest [pkt_simps]: "pkt_wf p \<Longrightarrow> length (pkt_rest p) = pkt_room p"
  by (auto simp: pkt_wf_def pkt_rest_def pkt_room_def)

lemma pkt_wf_CMqttPkt [pkt_simps]:
  "unat len \<le> length buf \<Longrightarrow> unat len < 2147483648 \<Longrightarrow> pkt_wf (CMqttPkt buf len)"
  by (simp add: pkt_wf_def CMqttPkt_def)

lemma pkt_room_CMqttPkt [pkt_simps]: "pkt_room (CMqttPkt buf len) = unat len"
  by (simp add: pkt_room_def CMqttPkt_def)

lemma pkt_rest_CMqttPkt [pkt_simps]: "pkt_rest (CMqttPkt buf len) = take (unat len) buf"
  by (simp add: pkt_rest_def pkt_room_def CMqttPkt_def)

lemma unat_skip:
  "pkt_wf p \<Longrightarrow> n \<le> pkt_room p \<Longrightarrow> unat (m_offset p + of_nat n) = unat (m_offset p) + n"
  by (subst unat_add_u32) (auto simp: pkt_wf_def pkt_room_def)

lemma pkt_skip_wf [pkt_simps]: "pkt_wf p \<Longrightarrow> n \<le> pkt_room p \<Longrightarrow> pkt_wf (pkt_skip (of_nat n) p)"
  using unat_skip [of p n] by (auto simp: pkt_wf_def pkt_skip_def pkt_room_def)

lemma pkt_skip_room [pkt_simps]:
  "pkt_wf p \<Longrightarrow> n \<le> pkt_room p \<Longrightarrow> pkt_room (pkt_skip (of_nat n) p) = pkt_room p - n"
  using unat_skip [of p n] by (auto simp: pkt_skip_def pkt_room_def)

lemma pkt_skip_rest [pkt_simps]:
  assumes "pkt_wf p" "n \<le> pkt_room p"
  shows "pkt_rest (pkt_skip (of_nat n) p) = drop n (pkt_rest p)"
proof -
  have "pkt_rest (pkt_skip (of_nat n) p)
      = take (pkt_room p - n) (drop (unat (m_offset p) + n) (m_buf p))"
    unfolding pkt_rest_def pkt_skip_room [OF assms] by (simp add: pkt_skip_def unat_skip [OF assms])
  then show ?thesis by (simp add: pkt_rest_def drop_take add.commute)
qed

lemma pkt_skip_fields [simp]:
  "m_buf (pkt_skip n p) = m_buf p" "m_max_size (pkt_skip n p) = m_max_size p"
  "m_offset (pkt_skip n p) = m_offset p + n"
  by (simp_all add: pkt_skip_def)

lemma pkt_rest_nth:
  "pkt_wf p \<Longrightarrow> i < pkt_room p \<Longrightarrow> pkt_rest p ! i = m_buf p ! (unat (m_offset p) + i)"
  by (simp add: pkt_rest_def pkt_wf_def pkt_room_def)

text \<open>Emitting bytes: the cursor stays well-formed, its room shrinks, runs of emissions join.\<close>

lemma pkt_emit_wf [pkt_simps]:
  "pkt_wf p \<Longrightarrow> length bs \<le> pkt_room p \<Longrightarrow> pkt_wf (pkt_emit bs p)"
  using unat_skip [of p "length bs"] by (auto simp: pkt_wf_def pkt_emit_def pkt_room_def)

lemma pkt_emit_room [pkt_simps]:
  "pkt_wf p \<Longrightarrow> length bs \<le> pkt_room p \<Longrightarrow> pkt_room (pkt_emit bs p) = pkt_room p - length bs"
  using unat_skip [of p "length bs"] by (auto simp: pkt_emit_def pkt_room_def)

lemma pkt_emit_fields [simp]:
  "m_max_size (pkt_emit bs p) = m_max_size p"
  "m_offset (pkt_emit bs p) = m_offset p + of_nat (length bs)"
  by (simp_all add: pkt_emit_def)

lemma pkt_emit_written [pkt_simps]:
  "pkt_wf p \<Longrightarrow> length bs \<le> pkt_room p \<Longrightarrow> pkt_written (pkt_emit bs p) = pkt_written p @ bs"
  using unat_skip [of p "length bs"]
  by (auto simp: pkt_emit_def pkt_written_def pkt_wf_def pkt_room_def)

lemma pkt_emit_Nil [simp]: "pkt_emit [] p = p"
  by (simp add: pkt_emit_def)

lemma pkt_emit_append [pkt_simps]:
  assumes "pkt_wf p" "length xs + length ys \<le> pkt_room p"
  shows "pkt_emit ys (pkt_emit xs p) = pkt_emit (xs @ ys) p"
proof -
  have off: "unat (m_offset p + of_nat (length xs)) = unat (m_offset p) + length xs"
    using assms by (intro unat_skip) auto
  have "unat (m_offset p) + length xs \<le> length (m_buf p)"
    using assms by (auto simp: pkt_wf_def pkt_room_def)
  then show ?thesis by (simp add: pkt_emit_def off add.assoc add.commute add.left_commute)
qed

subsection \<open>Reads and writes on well-formed cursors\<close>

lemma pkt_bounds:
  "pkt_wf p \<Longrightarrow> n \<le> pkt_room p \<Longrightarrow> unat (m_offset p) + n \<le> length (m_buf p)"
  by (auto simp: pkt_wf_def pkt_room_def)

lemma pkt_rest_ConsD:
  assumes "pkt_wf p" "pkt_rest p = b # bs"
  shows "1 \<le> pkt_room p" "m_buf p ! unat (m_offset p) = b" "unat (m_offset p) < length (m_buf p)"
proof -
  show r: "1 \<le> pkt_room p"
    using length_pkt_rest [OF assms(1)] assms(2) by simp
  show "m_buf p ! unat (m_offset p) = b"
    using pkt_rest_nth [OF assms(1), of 0] r assms(2) by simp
  show "unat (m_offset p) < length (m_buf p)"
    using pkt_bounds [OF assms(1) r] by simp
qed

lemma read_byte_Cons [pkt_simps]:
  assumes "pkt_wf p" "pkt_rest p = b # bs"
  shows "read_byte d p = Some (SUCCESS, b, pkt_skip 1 p)"
  using pkt_rest_ConsD [OF assms] assms(1)
  by (simp add: read_byte_def left_size_wf mem_get_Some)

lemma read_byte_Nil [pkt_simps]:
  "pkt_wf p \<Longrightarrow> pkt_rest p = [] \<Longrightarrow> read_byte d p = Some (FAILTURE, d, p)"
  using length_pkt_rest [of p] by (simp add: read_byte_def left_size_wf)

lemma read_short_Cons [pkt_simps]:
  assumes "pkt_wf p" "pkt_rest p = h # l # bs"
  shows "read_short d p = Some (SUCCESS, be16 h l, pkt_skip 2 p)"
proof -
  have r: "2 \<le> pkt_room p"
    using length_pkt_rest [OF assms(1)] assms(2) by simp
  have o: "unat (m_offset p + 1) = unat (m_offset p) + 1"
    using unat_skip [OF assms(1), of 1] r by simp
  have "m_buf p ! unat (m_offset p) = h" "m_buf p ! (unat (m_offset p) + 1) = l"
    using pkt_rest_nth [OF assms(1), of 0] pkt_rest_nth [OF assms(1), of 1] r assms(2) by simp_all
  then show ?thesis
    using r o pkt_bounds [OF assms(1) r] assms(1)
    by (simp add: read_short_def left_size_wf mem_get_Some)
qed

lemma read_short_fail [pkt_simps]:
  "pkt_wf p \<Longrightarrow> length (pkt_rest p) < 2 \<Longrightarrow> read_short d p = Some (FAILTURE, d, p)"
  using length_pkt_rest [of p] by (simp add: read_short_def left_size_wf)

text \<open>A read of a string is a read of its length followed by that many bytes.\<close>

lemma read_string_Cons [pkt_simps]:
  assumes wf: "pkt_wf p" and rest: "pkt_rest p = h # l # bs"
  shows "read_string d p =
    (if length bs < unat (be16 h l) then Some (FAILTURE, d, pkt_skip 2 p)
     else Some (SUCCESS, take (unat (be16 h l)) bs, pkt_skip (2 + ucast (be16 h l)) p))"
proof -
  have r: "2 \<le> pkt_room p"
    using length_pkt_rest [OF wf] rest by simp
  have wf2: "pkt_wf (pkt_skip 2 p)" and room2: "pkt_room (pkt_skip 2 p) = pkt_room p - 2"
    and rest2: "pkt_rest (pkt_skip 2 p) = bs"
    using pkt_skip_wf [OF wf r] pkt_skip_room [OF wf r] pkt_skip_rest [OF wf r] rest by simp_all
  have len: "length bs = pkt_room (pkt_skip 2 p)"
    using length_pkt_rest [OF wf2] rest2 by simp
  show ?thesis
  proof (cases "length bs < unat (be16 h l)")
    case True
    then show ?thesis
      using wf2 len by (simp add: read_string_def read_short_Cons [OF wf rest] left_size_wf ret_defs)
  next
    case False
    let ?n = "unat (be16 h l)"
    have "unat (m_offset p + 2) + ?n \<le> length (m_buf p)"
      using False len pkt_bounds [OF wf2, of ?n] by simp
    moreover have "take ?n bs = take ?n (drop (unat (m_offset p + 2)) (m_buf p))"
      using False len by (simp add: rest2 [symmetric] pkt_rest_def min_absorb1)
    ultimately have "mem_read (m_buf p) (unat (m_offset p + 2)) ?n = Some (take ?n bs)"
      by (simp add: mem_read_Some)
    then show ?thesis
      using False wf2 len
      by (simp add: read_string_def read_short_Cons [OF wf rest] left_size_wf ret_defs pkt_skip_def add.assoc)
  qed
qed

lemma read_string_fail [pkt_simps]:
  "pkt_wf p \<Longrightarrow> length (pkt_rest p) < 2 \<Longrightarrow> read_string d p = Some (FAILTURE, d, p)"
  by (simp add: read_string_def read_short_fail)

lemma read_bytes_all [pkt_simps]:
  assumes wf: "pkt_wf p"
  shows "read_bytes d (left_size p) p = Some (SUCCESS, d @ pkt_rest p, pkt_skip (of_nat (pkt_room p)) p)"
  using pkt_bounds [OF wf order_refl]
  by (simp add: read_bytes_def left_size_wf [OF wf] mem_read_Some pkt_rest_def)

lemma write_byte_emit [pkt_simps]:
  assumes "pkt_wf p" "1 \<le> pkt_room p"
  shows "write_byte b p = Some (SUCCESS, pkt_emit [b] p)"
  using assms pkt_bounds [OF assms]
  by (simp add: write_byte_def left_size_wf mem_put_Some pkt_emit_def pkt_skip_def list_update_as_take)

lemma write_byte_full [pkt_simps]:
  "pkt_wf p \<Longrightarrow> pkt_room p = 0 \<Longrightarrow> write_byte b p = Some (FAILTURE, p)"
  by (simp add: write_byte_def left_size_wf)

lemma write_bytes_emit [pkt_simps]:
  assumes "pkt_wf p" "length vs \<le> pkt_room p"
  shows "write_bytes vs p = Some (SUCCESS, pkt_emit vs p)"
  using assms pkt_bounds [OF assms]
  by (simp add: write_bytes_def left_size_wf mem_copy_Some pkt_emit_def pkt_skip_def)

lemma write_bytes_full [pkt_simps]:
  "pkt_wf p \<Longrightarrow> pkt_room p < length vs \<Longrightarrow> write_bytes vs p = Some (FAILTURE, p)"
  by (simp add: write_bytes_def left_size_wf)

lemma write_short_emit [pkt_simps]:
  assumes "pkt_wf p" "2 \<le> pkt_room p"
  shows "write_short v p = Some (SUCCESS, pkt_emit [hi_byte v, lo_byte v] p)"
proof -
  have o: "unat (m_offset p + 1) = unat (m_offset p) + 1"
    using unat_skip [OF assms(1), of 1] assms(2) by simp
  have "(m_buf p)[unat (m_offset p) := hi_byte v, unat (m_offset p) + 1 := lo_byte v]
      = take (unat (m_offset p)) (m_buf p) @ [hi_byte v, lo_byte v] @ drop (unat (m_offset p) + 2) (m_buf p)"
    using pkt_bounds [OF assms]
    by (simp add: list_update_as_take take_Suc_conv_app_nth)
  then show ?thesis
    using assms o pkt_bounds [OF assms]
    by (simp add: write_short_def left_size_wf mem_put_Some pkt_emit_def pkt_skip_def)
qed

lemma write_short_full [pkt_simps]:
  "pkt_wf p \<Longrightarrow> pkt_room p < 2 \<Longrightarrow> write_short v p = Some (FAILTURE, p)"
  by (simp add: write_short_def left_size_wf)

definition string_enc :: "cstring \<Rightarrow> bytes" where
  "string_enc s = hi_byte (of_nat (length s)) # lo_byte (of_nat (length s)) # s"

lemma length_string_enc [simp]: "length (string_enc s) = 2 + length s"
  by (simp add: string_enc_def)

lemma write_string_emit [pkt_simps]:
  assumes "pkt_wf p" "2 + length s \<le> pkt_room p"
  shows "write_string s p = Some (SUCCESS, pkt_emit (string_enc s) p)"
proof -
  have "pkt_wf (pkt_emit [hi_byte (of_nat (length s)), lo_byte (of_nat (length s))] p)"
    and "pkt_room (pkt_emit [hi_byte (of_nat (length s)), lo_byte (of_nat (length s))] p) = pkt_room p - 2"
    using assms by (simp_all add: pkt_emit_wf pkt_emit_room)
  then show ?thesis
    using assms
    by (simp add: write_string_def write_short_emit write_bytes_emit pkt_emit_append string_enc_def ret_defs)
qed

subsection \<open>The remaining length field\<close>

text \<open>The encoding of the field: base 128 digits, low digit first, high bit set on all but the last.\<close>

fun rl_enc :: "nat \<Rightarrow> bytes" where
  "rl_enc n = (if n < 128 then [of_nat n] else (of_nat (n mod 128) OR 0x80) # rl_enc (n div 128))"

declare rl_enc.simps [simp del]

lemma rl_enc_one: "n < 128 \<Longrightarrow> rl_enc n = [of_nat n]"
  by (simp add: rl_enc.simps)

lemma rl_enc_more: "128 \<le> n \<Longrightarrow> rl_enc n = (of_nat (n mod 128) OR 0x80) # rl_enc (n div 128)"
  by (simp add: rl_enc.simps [of n])

lemma rl_enc_length_pos: "0 < length (rl_enc n)"
  by (simp add: rl_enc.simps [of n])

lemma rl_enc_length: "n < 128 ^ Suc k \<Longrightarrow> length (rl_enc n) \<le> Suc k"
proof (induction k arbitrary: n)
  case 0
  then show ?case by (simp add: rl_enc_one)
next
  case (Suc k)
  then have "n div 128 < 128 ^ Suc k" by (simp add: less_mult_imp_div_less mult.commute)
  then have "length (rl_enc (n div 128)) \<le> Suc k" by (rule Suc.IH)
  then show ?case by (cases "n < 128") (simp_all add: rl_enc_one rl_enc_more)
qed

lemma rl_enc_length_u32: "length (rl_enc (unat (n :: u32))) \<le> 5"
  using rl_enc_length [of "unat n" 4] order_less_trans [OF unat_lt_2p32 [of n]] by simp

lemma write_remain_length_loop_emit:
  assumes "unat off + unat k + length (rl_enc (unat n)) \<le> length buf"
    and "unat off + unat k + length (rl_enc (unat n)) < 4294967296"
    and "unat k + length (rl_enc (unat n)) < 256"
  shows "write_remain_length_loop buf off n k =
    Some (take (unat off + unat k) buf @ rl_enc (unat n) @ drop (unat off + unat k + length (rl_enc (unat n))) buf,
          k + of_nat (length (rl_enc (unat n))))"
  using assms
proof (induction buf off n k rule: write_remain_length_loop.induct)
  case (1 buf off n k)
  let ?i = "unat off + unat k"
  have uk: "unat (ucast k :: u32) = unat k"
    by simp
  have i: "unat (off + ucast k) = ?i"
    using "1.prems"(2) by (subst unat_add_u32) (auto simp: uk)
  have ilt: "?i < length buf"
    using "1.prems"(1) rl_enc_length_pos [of "unat n"] by linarith
  have n': "n div 128 > 0 \<longleftrightarrow> 128 \<le> unat n"
    by (simp add: word_less_nat_alt unat_div div_greater_zero_iff)
  show ?case
  proof (cases "unat n < 128")
    case True
    have "(of_nat (unat n) :: u8) AND 0x7F = of_nat (unat n)"
      using True by (simp add: word_eq_iff_unsigned [where ?'a = nat] unat_and_7F)
    then show ?thesis
      using True ilt n'
      by (simp add: write_remain_length_loop.simps [of buf] i mem_put_Some digit_of rl_enc_one list_update_as_take)
  next
    case False
    let ?b = "of_nat (unat n mod 128) OR 0x80 :: u8"
    have enc: "rl_enc (unat n) = ?b # rl_enc (unat (n div 128))"
      using False by (simp add: rl_enc_more unat_div)
    have k1: "unat (k + 1) = unat k + 1"
      using "1.prems"(3) enc by (simp add: unat_word_ariths)
    have "write_remain_length_loop (buf[?i := ?b]) off (n div 128) (k + 1) =
      Some (take (?i + 1) (buf[?i := ?b]) @ rl_enc (unat (n div 128))
              @ drop (?i + 1 + length (rl_enc (unat (n div 128)))) (buf[?i := ?b]),
            k + 1 + of_nat (length (rl_enc (unat (n div 128)))))"
      using "1.IH" [OF refl refl refl, of "buf[?i := ?b]"] "1.prems" False n' ilt enc
      by (simp add: i mem_put_Some digit_of k1)
    then show ?thesis
      using False ilt n' enc
      by (simp add: write_remain_length_loop.simps [of buf] i mem_put_Some digit_of take_Suc_update
          add.assoc)
  qed
qed

lemma write_remain_length_emit [pkt_simps]:
  assumes "pkt_wf p" "unat (m_offset p) + length (rl_enc (unat n)) \<le> length (m_buf p)"
  shows "write_remain_length n p =
    Some (SUCCESS, of_nat (length (rl_enc (unat n))), pkt_emit (rl_enc (unat n)) p)"
proof -
  have "write_remain_length_loop (m_buf p) (m_offset p) n 0 =
    Some (take (unat (m_offset p)) (m_buf p) @ rl_enc (unat n)
            @ drop (unat (m_offset p) + length (rl_enc (unat n))) (m_buf p),
          of_nat (length (rl_enc (unat n))))"
    using write_remain_length_loop_emit [of "m_offset p" 0 n "m_buf p"] assms rl_enc_length_u32 [of n]
    by (auto simp: pkt_wf_def)
  moreover have "ucast (of_nat (length (rl_enc (unat n))) :: u8) = (of_nat (length (rl_enc (unat n))) :: u32)"
    using rl_enc_length_u32 [of n]
    by (simp add: word_eq_iff_unsigned [where ?'a = nat] unsigned_ucast_eq take_bit_nat_eq_self)
  ultimately show ?thesis
    by (simp add: write_remain_length_def pkt_emit_def pkt_skip_def)
qed

text \<open>The loop of the decoder, one byte at a time.\<close>

lemma remain_length_loop_last:
  assumes "mem_get buf (1 + i) = Some b" "unat b < 128" "i < 4"
  shows "remain_length_loop buf i v =
    Some (True, i, if i = 0 then ucast (b AND 0x7F) else push_bit 7 (ucast (b AND 0x7F)) OR v)"
  using assms
  by (simp add: remain_length_loop.simps [of buf i] MAX_REMAIN_LENGTH_BYTES_def and_80_zero)

lemma remain_length_loop_cont:
  assumes "mem_get buf (1 + i) = Some b" "128 \<le> unat b" "i < 4"
  shows "remain_length_loop buf i v =
    remain_length_loop buf (i + 1)
      (if i = 0 then ucast (b AND 0x7F) else push_bit 7 (ucast (b AND 0x7F)) OR v)"
  using assms
  by (simp add: remain_length_loop.simps [of buf i] MAX_REMAIN_LENGTH_BYTES_def and_80_zero Let_def)

lemma remain_length_loop_end: "remain_length_loop buf 4 v = Some (False, 4, v)"
  by (simp add: remain_length_loop.simps MAX_REMAIN_LENGTH_BYTES_def)

lemma unat_value_bits: "unat (ucast (b AND 0x7F :: u8) :: u32) = unat b mod 128"
  by (simp add: unat_and_7F)

text \<open>Whatever bytes arrive, the decoded value has at most 14 bits.\<close>

lemma remain_length_loop_bound:
  "unat v < 16384 \<Longrightarrow> remain_length_loop buf i v = Some (f, k, v') \<Longrightarrow>
     unat v' < 16384 \<and> (f \<longrightarrow> k < 4) \<and> (\<not> f \<longrightarrow> 4 \<le> k)"
proof (induction buf i v rule: remain_length_loop.induct)
  case (1 buf i v)
  show ?case
  proof (cases "i < 4")
    case False
    with 1 show ?thesis
      by (simp add: remain_length_loop.simps [of buf i] MAX_REMAIN_LENGTH_BYTES_def)
  next
    case True
    then obtain b where b: "mem_get buf (1 + i) = Some b"
      using "1.prems"(2)
      by (auto simp: remain_length_loop.simps [of buf i] MAX_REMAIN_LENGTH_BYTES_def split: option.splits)
    let ?v = "if i = 0 then ucast (b AND 0x7F) else push_bit 7 (ucast (b AND 0x7F)) OR v"
    have "unat (b AND 0x7F) < 128" by (simp add: unat_and_7F)
    then have v: "unat ?v < 16384"
      using push7_or_bound [OF "1.prems"(1), of "b AND 0x7F"] by simp
    show ?thesis
    proof (cases "unat b < 128")
      case T: True
      show ?thesis
        using "1.prems"(2) v True unfolding remain_length_loop_last [OF b T True] by (simp split: if_splits)
    next
      case F: False
      show ?thesis
        using "1.IH" [OF _ b refl _ v] "1.prems"(2) True F
        by (simp add: remain_length_loop_cont [OF b] MAX_REMAIN_LENGTH_BYTES_def and_80_zero)
    qed
  qed
qed

lemma remain_length_loop_safe: "5 \<le> length buf \<Longrightarrow> \<exists>r. remain_length_loop buf i v = Some r"
proof (induction buf i v rule: remain_length_loop.induct)
  case (1 buf i v)
  show ?case
  proof (cases "i < 4")
    case False
    then have "remain_length_loop buf i v = Some (False, i, v)"
      by (simp add: remain_length_loop.simps [of buf i] MAX_REMAIN_LENGTH_BYTES_def)
    then show ?thesis by blast
  next
    case True
    then have b: "mem_get buf (1 + i) = Some (buf ! (1 + i))"
      using "1.prems" by (simp add: mem_get_Some)
    show ?thesis
    proof (cases "unat (buf ! (1 + i)) < 128")
      case T: True
      show ?thesis unfolding remain_length_loop_last [OF b T True] by blast
    next
      case F: False
      then show ?thesis
        using "1.IH" [OF _ b refl] "1.prems" True
        by (simp add: remain_length_loop_cont [OF b] MAX_REMAIN_LENGTH_BYTES_def and_80_zero)
    qed
  qed
qed

lemma remain_length_safe: "5 \<le> length buf \<Longrightarrow> \<exists>r. remain_length buf len = Some r"
  using remain_length_loop_safe [of buf 0 0] by (auto simp: remain_length_def Let_def)

text \<open>A non-negative result is the value itself, and the whole packet lies inside the received bytes.\<close>

lemma remain_length_fits:
  assumes "remain_length buf len = Some (r, v, k)" "0 \<le> r"
  shows "r = int (unat v) \<and> unat v < 16384 \<and> 1 \<le> unat k \<and> unat k \<le> 4 \<and>
    unat v + unat k + 1 \<le> unat len"
proof -
  obtain f i w where loop: "remain_length_loop buf 0 0 = Some (f, i, w)"
    using assms(1) by (auto simp: remain_length_def split: Option.bind_splits)
  have w: "unat w < 16384" "f \<Longrightarrow> i < 4"
    using remain_length_loop_bound [OF _ loop] by auto
  have f: f
    using assms loop by (auto simp: remain_length_def ret_defs split: if_splits)
  have r: "r = to_int v" "v = w" "k = of_nat (i + 1)" "\<not> len < w + ucast k + 1"
    using assms loop f by (auto simp: remain_length_def ret_defs Let_def split: if_splits)
  have uk: "unat k = i + 1"
    using r(3) w(2) [OF f] unat_of_nat_u8 [of "i + 1"] by (simp del: of_nat_add of_nat_Suc)
  have "unat (w + ucast k + 1) = unat w + unat k + 1"
    using w(1) uk w(2) [OF f] by (simp add: unat_word_ariths)
  then show ?thesis
    using r w uk w(2) [OF f] by (simp add: to_int_small word_less_nat_alt)
qed

text \<open>Decoding what the encoder wrote.\<close>

lemma mem_get_Cons_Suc [simp]: "mem_get (x # xs) (Suc i) = mem_get xs i"
  by (simp add: mem_get_def)

lemma mem_get_Cons_0 [simp]: "mem_get (x # xs) 0 = Some x"
  by (simp add: mem_get_def)

lemma mem_get_append [simp]: "i < length xs \<Longrightarrow> mem_get (xs @ ys) i = Some (xs ! i)"
  by (simp add: mem_get_def nth_append)

lemma remain_length_loop_small:
  assumes "n < 16384"
  shows "remain_length_loop (h # rl_enc n @ r) 0 0 = Some (True, length (rl_enc n) - 1, of_nat n)"
proof (cases "n < 128")
  case True
  have "ucast (of_nat n AND 0x7F :: u8) = (of_nat n :: u32)"
    using True by (simp add: word_eq_iff_unsigned [where ?'a = nat] unat_and_7F)
  then show ?thesis
    using True remain_length_loop_last [of "h # rl_enc n @ r" 0 "of_nat n" 0]
    by (simp add: rl_enc_one)
next
  case False
  let ?d0 = "of_nat (n mod 128) OR 0x80 :: u8" and ?d1 = "of_nat (n div 128) :: u8"
  let ?buf = "h # rl_enc n @ r"
  have n1: "n div 128 < 128" using assms by (simp add: less_mult_imp_div_less)
  have enc: "rl_enc n = [?d0, ?d1]"
    using False n1 by (simp add: rl_enc_more rl_enc_one)
  have v0: "unat (ucast (?d0 AND 0x7F) :: u32) = n mod 128"
    by (simp add: or_80_and_7F unat_and_7F)
  have "unat (?d1 AND 0x7F) = n div 128"
    using n1 by (simp add: unat_and_7F)
  then have v1: "unat (push_bit 7 (ucast (?d1 AND 0x7F)) OR (ucast (?d0 AND 0x7F) :: u32)) = n"
    using push7_or_add [of "ucast (?d0 AND 0x7F)" "?d1 AND 0x7F"] v0 by simp
  then have v: "push_bit 7 (ucast (?d1 AND 0x7F)) OR (ucast (?d0 AND 0x7F)) = (of_nat n :: u32)"
    using assms by (simp add: word_eq_iff_unsigned [where ?'a = nat])
  have "remain_length_loop ?buf 0 0 = remain_length_loop ?buf 1 (ucast (?d0 AND 0x7F))"
    using remain_length_loop_cont [of ?buf 0 ?d0 0] or_80_bit [of "of_nat (n mod 128)"] enc by simp
  also have "\<dots> = Some (True, 1, of_nat n)"
    using remain_length_loop_last [of ?buf 1 ?d1 "ucast (?d0 AND 0x7F)"] n1 enc v
    by (simp add: numeral_2_eq_2)
  finally show ?thesis using enc by simp
qed

lemma remain_length_small:
  assumes "n < 16384" "1 + length (rl_enc n) + n \<le> unat len"
  shows "remain_length (h # rl_enc n @ r) len = Some (int n, of_nat n, of_nat (length (rl_enc n)))"
proof -
  obtain m where m: "length (rl_enc n) = Suc m" "m < 2"
    using rl_enc_length [of n 1] assms(1) rl_enc_length_pos [of n]
    by (cases "length (rl_enc n)") auto
  have "unat (of_nat n + ucast (of_nat (Suc m) :: u8) + 1 :: u32) = n + Suc m + 1"
    using m(2) assms(1) unat_of_nat_u8 [of "Suc m"] by (simp add: unat_word_ariths del: of_nat_Suc)
  then show ?thesis
    using assms m
    by (simp add: remain_length_def remain_length_loop_small Let_def word_less_nat_alt to_int_small
        del: of_nat_add of_nat_Suc)
qed

subsection \<open>The contract of a packet field\<close>

text \<open>
  A field of a packet is read and written through the cursor. The contract: on a well-formed
  cursor a read of the encoding returns the value and moves past it, a read never leaves the
  window, a write that fits emits exactly the encoding, and any write keeps the cursor sound.
\<close>

lemma pkt_emit_reread:
  assumes "pkt_wf p" "length bs \<le> pkt_room p"
  shows "pkt_rest ((pkt_emit bs p)\<lparr>m_offset := m_offset p\<rparr>) = bs @ drop (length bs) (pkt_rest p)"
    and "pkt_wf ((pkt_emit bs p)\<lparr>m_offset := m_offset p\<rparr>)"
  using assms pkt_bounds [OF assms]
  by (auto simp: pkt_rest_def pkt_room_def pkt_wf_def pkt_emit_def min_def drop_take add.commute)

locale pkt_field =
  fixes rd :: "'a \<Rightarrow> cmqtt_pkt \<Rightarrow> (int \<times> 'a \<times> cmqtt_pkt) option"
    and wr :: "'a \<Rightarrow> cmqtt_pkt \<Rightarrow> (int \<times> cmqtt_pkt) option"
    and enc :: "'a \<Rightarrow> bytes"
    and ok :: "'a \<Rightarrow> bool"
  assumes rd_enc: "pkt_wf p \<Longrightarrow> ok v \<Longrightarrow> pkt_rest p = enc v @ bs \<Longrightarrow>
      rd d p = Some (SUCCESS, v, pkt_skip (of_nat (length (enc v))) p)"
    and rd_total: "pkt_wf p \<Longrightarrow>
      \<exists>r v n. rd d p = Some (r, v, pkt_skip (of_nat n) p) \<and> n \<le> pkt_room p \<and> (r = SUCCESS \<or> r = FAILTURE)"
    and wr_enc: "pkt_wf p \<Longrightarrow> length (enc v) \<le> pkt_room p \<Longrightarrow>
      wr v p = Some (SUCCESS, pkt_emit (enc v) p)"
    and wr_total: "pkt_wf p \<Longrightarrow>
      \<exists>r bs. wr v p = Some (r, pkt_emit bs p) \<and> length bs \<le> pkt_room p"
begin

lemma rd_safe:
  assumes "pkt_wf p"
  shows "\<exists>r v q. rd d p = Some (r, v, q) \<and> pkt_wf q \<and> pkt_room q \<le> pkt_room p \<and> m_buf q = m_buf p"
  using rd_total [OF assms, of d] assms by (fastforce simp: pkt_skip_wf pkt_skip_room)

lemma wr_safe:
  assumes "pkt_wf p"
  shows "\<exists>r q. wr v p = Some (r, q) \<and> pkt_wf q \<and> m_max_size q = m_max_size p \<and>
    length (m_buf q) = length (m_buf p) \<and> take (unat (m_offset p)) (m_buf q) = pkt_written p"
proof -
  obtain r bs where w: "wr v p = Some (r, pkt_emit bs p)" "length bs \<le> pkt_room p"
    using wr_total [OF assms, of v] by blast
  have "pkt_wf (pkt_emit bs p)"
    using assms w(2) by (rule pkt_emit_wf)
  then show ?thesis
    using w(1) pkt_bounds [OF assms w(2)] by (auto simp: pkt_written_def pkt_emit_def)
qed

lemma write_then_read:
  assumes "pkt_wf p" "ok v" "length (enc v) \<le> pkt_room p"
  shows "\<exists>q. wr v p = Some (SUCCESS, q) \<and> rd d (q\<lparr>m_offset := m_offset p\<rparr>) = Some (SUCCESS, v, q)"
proof -
  let ?q = "pkt_emit (enc v) p"
  have "rd d (?q\<lparr>m_offset := m_offset p\<rparr>)
      = Some (SUCCESS, v, pkt_skip (of_nat (length (enc v))) (?q\<lparr>m_offset := m_offset p\<rparr>))"
    using pkt_emit_reread [OF assms(1,3)] assms(2) by (intro rd_enc) auto
  moreover have "pkt_skip (of_nat (length (enc v))) (?q\<lparr>m_offset := m_offset p\<rparr>) = ?q"
    by (simp add: pkt_skip_def pkt_emit_def)
  ultimately show ?thesis using wr_enc [OF assms(1,3)] by simp
qed

end

lemma read_byte_total:
  assumes wf: "pkt_wf p"
  shows "\<exists>r v n. read_byte d p = Some (r, v, pkt_skip (of_nat n) p) \<and> n \<le> pkt_room p \<and> (r = SUCCESS \<or> r = FAILTURE)"
proof (cases "pkt_rest p")
  case Nil
  then show ?thesis using wf by (auto simp: read_byte_Nil pkt_skip_def intro!: exI [of _ 0])
next
  case (Cons b bs)
  then show ?thesis
    using wf pkt_rest_ConsD(1) [OF wf Cons] by (auto simp: read_byte_Cons intro!: exI [of _ 1])
qed

lemma write_byte_total:
  "pkt_wf p \<Longrightarrow> \<exists>r bs. write_byte v p = Some (r, pkt_emit bs p) \<and> length bs \<le> pkt_room p"
  by (cases "pkt_room p = 0")
    (auto simp: write_byte_full write_byte_emit intro: exI [of _ "[]"] exI [of _ "[v]"])

interpretation byte_field: pkt_field read_byte write_byte "\<lambda>b. [b]" "\<lambda>_. True"
  by unfold_locales
    (auto simp: read_byte_Cons write_byte_emit dest: read_byte_total write_byte_total)

lemma read_short_total:
  assumes wf: "pkt_wf p"
  shows "\<exists>r v n. read_short d p = Some (r, v, pkt_skip (of_nat n) p) \<and> n \<le> pkt_room p \<and> (r = SUCCESS \<or> r = FAILTURE)"
proof (cases "length (pkt_rest p) < 2")
  case True
  then show ?thesis using wf by (auto simp: read_short_fail pkt_skip_def intro!: exI [of _ 0])
next
  case False
  then obtain h l bs where rest: "pkt_rest p = h # l # bs" using two_bytes by blast
  then show ?thesis
    using wf False length_pkt_rest [OF wf] by (auto simp: read_short_Cons intro!: exI [of _ 2])
qed

lemma write_short_total:
  assumes "pkt_wf p"
  shows "\<exists>r bs. write_short v p = Some (r, pkt_emit bs p) \<and> length bs \<le> pkt_room p"
proof (cases "pkt_room p < 2")
  case True
  then have "write_short v p = Some (FAILTURE, pkt_emit [] p)"
    using assms by (simp add: write_short_full)
  then show ?thesis by fastforce
next
  case False
  then have "write_short v p = Some (SUCCESS, pkt_emit [hi_byte v, lo_byte v] p)"
    using assms by (simp add: write_short_emit)
  then show ?thesis using False by fastforce
qed

interpretation short_field: pkt_field read_short write_short "\<lambda>v. [hi_byte v, lo_byte v]" "\<lambda>_. True"
  by unfold_locales
    (auto simp: read_short_Cons write_short_emit dest: read_short_total write_short_total)

lemma read_string_enc:
  assumes "pkt_wf p" "length v < 65536" "pkt_rest p = string_enc v @ bs"
  shows "read_string d p = Some (SUCCESS, v, pkt_skip (of_nat (length (string_enc v))) p)"
proof -
  have "ucast (of_nat (length v) :: u16) = (of_nat (length v) :: u32)"
    using assms(2) by (simp add: word_eq_iff_unsigned [where ?'a = nat] unsigned_ucast_eq take_bit_nat_eq_self)
  then show ?thesis
    using assms(2) read_string_Cons [OF assms(1), of _ _ "v @ bs" d] assms(3) by (simp add: string_enc_def)
qed

lemma read_string_total:
  assumes wf: "pkt_wf p"
  shows "\<exists>r v n. read_string d p = Some (r, v, pkt_skip (of_nat n) p) \<and> n \<le> pkt_room p \<and> (r = SUCCESS \<or> r = FAILTURE)"
proof (cases "length (pkt_rest p) < 2")
  case True
  then show ?thesis using wf by (auto simp: read_string_fail pkt_skip_def intro!: exI [of _ 0])
next
  case False
  then obtain h l bs where rest: "pkt_rest p = h # l # bs" using two_bytes by blast
  let ?n = "unat (be16 h l)"
  have room: "pkt_room p = 2 + length bs"
    using length_pkt_rest [OF wf] rest by simp
  have u: "(2 + ucast (be16 h l) :: u32) = of_nat (2 + ?n)"
    by (simp add: of_nat_unat)
  show ?thesis
  proof (cases "length bs < ?n")
    case True
    then have "read_string d p = Some (FAILTURE, d, pkt_skip (of_nat 2) p)"
      using read_string_Cons [OF wf rest, of d] by simp
    then show ?thesis using room by (intro exI conjI) (assumption | simp)+
  next
    case F: False
    then have "read_string d p = Some (SUCCESS, take ?n bs, pkt_skip (of_nat (2 + ?n)) p)"
      using read_string_Cons [OF wf rest, of d] u by simp
    then show ?thesis using room F by (intro exI conjI) (assumption | simp)+
  qed
qed

lemma write_string_total:
  assumes wf: "pkt_wf p"
  shows "\<exists>r bs. write_string v p = Some (r, pkt_emit bs p) \<and> length bs \<le> pkt_room p"
proof (cases "2 + length v \<le> pkt_room p")
  case True
  then show ?thesis using write_string_emit [OF wf True] by fastforce
next
  case False
  show ?thesis
  proof (cases "pkt_room p < 2")
    case True
    have "write_string v p = Some (FAILTURE, pkt_emit [] p)"
      using wf True by (simp add: write_string_def write_short_full)
    then show ?thesis by fastforce
  next
    case T: False
    let ?hd = "[hi_byte (of_nat (length v)), lo_byte (of_nat (length v))]"
    have "pkt_wf (pkt_emit ?hd p)" "pkt_room (pkt_emit ?hd p) < length v"
      using wf T False by (simp_all add: pkt_emit_wf pkt_emit_room)
    then have "write_string v p = Some (FAILTURE, pkt_emit ?hd p)"
      using wf T by (simp add: write_string_def write_short_emit write_bytes_full ret_defs)
    then show ?thesis using T by fastforce
  qed
qed

interpretation string_field: pkt_field read_string write_string string_enc "\<lambda>s. length s < 65536"
  by unfold_locales
    (auto simp: read_string_enc write_string_emit dest: read_string_total write_string_total)

subsection \<open>Properties\<close>

lemma remain_length_loop_enc:
  assumes "i + length (rl_enc n) \<le> 4" "drop (1 + i) buf = rl_enc n @ r"
  shows "\<exists>v'. remain_length_loop buf i v = Some (True, i + length (rl_enc n) - 1, v')"
  using assms
proof (induction n arbitrary: i v rule: rl_enc.induct)
  case (1 n)
  obtain b bs where enc: "rl_enc n = b # bs"
    using rl_enc_length_pos [of n] by (cases "rl_enc n") auto
  have b: "mem_get buf (1 + i) = Some b"
    using "1.prems"(2) enc
    by (metis append_Cons drop_eq_Nil2 list.distinct(1) mem_get_Some not_le_imp_less nth_via_drop)
  show ?case
  proof (cases "n < 128")
    case True
    then have "unat b < 128" "length (rl_enc n) = 1" using enc by (auto simp: rl_enc_one)
    then show ?thesis using remain_length_loop_last [OF b] "1.prems"(1) by fastforce
  next
    case False
    then have bs: "bs = rl_enc (n div 128)" and "128 \<le> unat b"
      using enc or_80_bit [of "of_nat (n mod 128)"] by (auto simp: rl_enc_more)
    moreover have "drop (1 + (i + 1)) buf = rl_enc (n div 128) @ r"
      using "1.prems"(2) enc bs by (metis add.assoc append_Cons drop_drop drop_Suc_Cons drop0 One_nat_def add.commute)
    ultimately show ?thesis
      using remain_length_loop_cont [OF b, of v] "1.IH" [OF False, of "i + 1"] "1.prems"(1) enc by simp
  qed
qed

text \<open>
  C28. A remaining length below 16384 that \<^verbatim>\<open>write_remain_length\<close> puts behind the fixed header is
  returned unchanged by \<^verbatim>\<open>remain_length\<close>, with the number of bytes that were written, whenever
  the window holds the whole packet.
\<close>

theorem remain_length_roundtrip:
  assumes "pkt_wf p" "m_offset p = 1" "unat n < 16384"
    and "1 + length (rl_enc (unat n)) + unat n \<le> unat (m_max_size p)"
  shows "\<exists>k q. write_remain_length n p = Some (SUCCESS, k, q) \<and>
    remain_length (m_buf q) (m_max_size q) = Some (int (unat n), n, k)"
proof -
  let ?q = "pkt_emit (rl_enc (unat n)) p"
  have "unat (m_offset p) + length (rl_enc (unat n)) \<le> length (m_buf p)"
    using assms by (simp add: pkt_wf_def)
  then have w: "write_remain_length n p = Some (SUCCESS, of_nat (length (rl_enc (unat n))), ?q)"
    using assms(1) by (rule write_remain_length_emit [rotated])
  obtain h r where "m_buf p = h # r"
    using assms by (cases "m_buf p") (auto simp: pkt_wf_def)
  then have "m_buf ?q = h # rl_enc (unat n) @ drop (length (rl_enc (unat n))) r"
    using assms(2) by (simp add: pkt_emit_def)
  then have "remain_length (m_buf ?q) (m_max_size ?q)
      = Some (int (unat n), of_nat (unat n), of_nat (length (rl_enc (unat n))))"
    using assms(3,4) by (simp add: remain_length_small)
  then show ?thesis using w by (auto simp: of_nat_unat)
qed

theorem remain_length_roundtrip_witness:
  "\<exists>k q. write_remain_length 300 \<lparr>m_offset = 1, m_max_size = 303, m_buf = replicate 303 0\<rparr>
       = Some (SUCCESS, k, q) \<and>
     remain_length (m_buf q) (m_max_size q) = Some (300, 300, k)"
  using remain_length_roundtrip [of "\<lparr>m_offset = 1, m_max_size = 303, m_buf = replicate 303 0\<rparr>" 300]
  by (simp add: pkt_wf_def rl_enc.simps)

text \<open>
  For every length the protocol allows (four bytes, up to 268435455), \<^verbatim>\<open>remain_length\<close> reads
  the encoding without leaving it, and the value it returns is the encoded one exactly when that
  is below 16384: from the third byte on each byte is shifted by seven bits only.
\<close>

theorem remain_length_value_iff:
  assumes "n < 268435456"
  shows "\<exists>res v k. remain_length (h # rl_enc n @ r) len = Some (res, v, k) \<and> (unat v = n \<longleftrightarrow> n < 16384)"
proof -
  have "length (rl_enc n) \<le> 4" using rl_enc_length [of n 3] assms by simp
  then obtain v where loop:
    "remain_length_loop (h # rl_enc n @ r) 0 0 = Some (True, length (rl_enc n) - 1, v)"
    using remain_length_loop_enc [of 0 n "h # rl_enc n @ r" r 0] by auto
  then have "unat v < 16384"
    using remain_length_loop_bound [OF _ loop] by simp
  moreover have "unat v = n" if "n < 16384"
    using remain_length_loop_small [OF that, of h r] loop that by simp
  ultimately show ?thesis
    using loop by (auto simp: remain_length_def Let_def)
qed

theorem remain_length_value_iff_witness:
  "\<exists>res v k. remain_length (0x30 # rl_enc 16384 @ []) 20000 = Some (res, v, k) \<and> (unat v = 16384 \<longleftrightarrow> (16384::nat) < 16384)"
  by (rule remain_length_value_iff) simp

text \<open>
  C27. Whatever the bytes are, \<^verbatim>\<open>remain_length\<close> answers "more data", "malformed", or a length such
  that fixed header, length bytes and body lie within the \<^verbatim>\<open>len\<close> received bytes, the body being
  shorter than 16384 bytes; with five readable bytes it always answers.
\<close>

theorem remain_length_framing:
  "case remain_length buf len of
     None \<Rightarrow> length buf < 5
   | Some (r, v, k) \<Rightarrow> r = NEED_MORE_DATA \<or> r = FAILTURE \<or>
       (r = int (unat v) \<and> r < 16384 \<and> unat k \<in> {1..4} \<and> 1 + unat k + nat r \<le> unat len)"
proof (cases "remain_length buf len")
  case None
  then show ?thesis using remain_length_safe [of buf len] by (cases "5 \<le> length buf") auto
next
  case (Some t)
  obtain r v k where t: "t = (r, v, k)" by (cases t)
  show ?thesis
  proof (cases "0 \<le> r")
    case True
    then show ?thesis using remain_length_fits [of buf len r v k] Some t by simp
  next
    case False
    obtain f i w where loop: "remain_length_loop buf 0 0 = Some (f, i, w)"
      using Some by (auto simp: remain_length_def split: Option.bind_splits)
    then have "unat w < 16384" using remain_length_loop_bound [OF _ loop] by simp
    then have "0 \<le> to_int w" by (simp add: to_int_small)
    then show ?thesis
      using Some t loop False by (auto simp: remain_length_def ret_defs Let_def split: if_splits)
  qed
qed

lemma remain_length_loop_overread:
  assumes "length buf < 5" "i < length buf" "\<And>j. i < j \<Longrightarrow> j < length buf \<Longrightarrow> 128 \<le> unat (buf ! j)"
  shows "remain_length_loop buf i v = None"
  using assms
proof (induction "length buf - i" arbitrary: i v)
  case 0
  then show ?case by simp
next
  case (Suc n)
  have i: "i < 4" using Suc.prems by simp
  show ?case
  proof (cases "1 + i < length buf")
    case False
    then show ?thesis
      using i by (simp add: remain_length_loop.simps [of buf i] MAX_REMAIN_LENGTH_BYTES_def mem_get_None)
  next
    case True
    have "remain_length_loop buf (i + 1) w = None" for w
      using Suc.hyps(2) Suc.prems True by (intro Suc.hyps(1)) auto
    then show ?thesis
      using remain_length_loop_cont [of buf i "buf ! (1 + i)" v] True i Suc.prems(3) [of "1 + i"]
      by (simp add: mem_get_Some)
  qed
qed

text \<open>
  The length loop does not look at \<^verbatim>\<open>len\<close>: when fewer than four length bytes are readable
  and each of them has its continuation bit set, the next read is outside the buffer.
\<close>

theorem remain_length_overread:
  assumes "buf \<noteq> []" "length buf < 5" "\<forall>j. 0 < j \<and> j < length buf \<longrightarrow> 128 \<le> unat (buf ! j)"
  shows "remain_length buf len = None"
  using remain_length_loop_overread [of buf 0 0] assms by (simp add: remain_length_def)

theorem remain_length_overread_witness: "remain_length [0x30, 0x80] 2 = None"
  by (rule remain_length_overread) (auto simp: less_Suc_eq)

text \<open>
  Every read of the cursor on a well-formed window returns, leaves the buffer alone and a
  well-formed cursor behind: no input makes a decoder built from these reads leave its packet.
\<close>

theorem pkt_reads_stay_inside:
  assumes "pkt_wf p"
  shows "(\<exists>r v q. read_byte d1 p = Some (r, v, q) \<and> pkt_wf q \<and> m_buf q = m_buf p) \<and>
    (\<exists>r v q. read_short d2 p = Some (r, v, q) \<and> pkt_wf q \<and> m_buf q = m_buf p) \<and>
    (\<exists>r v q. read_string d3 p = Some (r, v, q) \<and> pkt_wf q \<and> m_buf q = m_buf p) \<and>
    (\<exists>r v q. read_bytes d4 (left_size p) p = Some (r, v, q) \<and> pkt_wf q \<and> m_buf q = m_buf p)"
  using byte_field.rd_safe [OF assms] short_field.rd_safe [OF assms] string_field.rd_safe [OF assms]
    read_bytes_all [OF assms] pkt_skip_wf [OF assms order_refl]
  by (intro conjI) fastforce+

theorem pkt_reads_stay_inside_witness:
  "\<exists>r v q. read_string [] (CMqttPkt [0, 9, 1] 3) = Some (r, v, q) \<and> pkt_wf q \<and> m_buf q = [0, 9, 1]"
  using pkt_reads_stay_inside [of "CMqttPkt [0, 9, 1] 3" 0 0 "[]" "[]"]
  by (simp add: pkt_wf_def CMqttPkt_def)

text \<open>
  A string of at most 65535 bytes written by \<^verbatim>\<open>write_string\<close> where it fits is read back by
  \<^verbatim>\<open>read_string\<close> from the place it was written at, and the reader ends where the writer did.
\<close>

theorem string_roundtrip:
  assumes "pkt_wf p" "length s < 65536" "2 + length s \<le> pkt_room p"
  shows "\<exists>q. write_string s p = Some (SUCCESS, q) \<and>
    read_string d (q\<lparr>m_offset := m_offset p\<rparr>) = Some (SUCCESS, s, q)"
  using assms by (intro string_field.write_then_read) simp_all

theorem string_roundtrip_witness:
  "\<exists>q. write_string [77, 81] (CMqttPkt (replicate 8 0) 8) = Some (SUCCESS, q) \<and>
    read_string [] (q\<lparr>m_offset := 0\<rparr>) = Some (SUCCESS, [77, 81], q)"
  using string_roundtrip [of "CMqttPkt (replicate 8 0) 8" "[77, 81]" "[]"]
  by (simp add: pkt_wf_def CMqttPkt_def pkt_room_def)

end
