(* ===== verification/Mqtt_Msg.thy ===== *)
theory Mqtt_Msg
  imports Mqtt_Pkt
begin

unbundle bit_operations_syntax

text \<open>
  The control packets of \<^verbatim>\<open>include/mqttc++/mqtt_msg.hpp\<close> and \<^verbatim>\<open>src/mqttc++/mqtt_msg.cpp\<close>. Each
  class is a record extending \<open>cmqtt_msg\<close> as the C++ class derives from \<^verbatim>\<open>CMqttMsg\<close>; \<open>encode\<close>
  and \<open>decode\<close> take the object and return the C++ return code with the updated object, or
  \<^const>\<open>None\<close> on an access outside the buffer. Members a constructor leaves uninitialised start
  at 0 or empty; no operation reads one before it is written. The print methods only log.

  Results: the fixed header round trip, the exact bytes of every packet the server sends, the
  round trips of CONNECT, PUBLISH, PUBACK and SUBSCRIBE, and memory safety of every decoder.
\<close>

subsection \<open>Message types and flag bytes\<close>

datatype MqttType =
  RESERVED1 | CONNECT | CONNACK | PUBLISH | PUBACK | PUBREC | PUBREL | PUBCOMP
| SUBSCRIBE | SUBACK | UNSUBSCRIBE | UNSUBACK | PINGREQ | PINGRESP | DISCONNECT | RESERVED2

primrec MqttType_val :: "MqttType \<Rightarrow> u8" where
  "MqttType_val RESERVED1 = 0"
| "MqttType_val CONNECT = 1"
| "MqttType_val CONNACK = 2"
| "MqttType_val PUBLISH = 3"
| "MqttType_val PUBACK = 4"
| "MqttType_val PUBREC = 5"
| "MqttType_val PUBREL = 6"
| "MqttType_val PUBCOMP = 7"
| "MqttType_val SUBSCRIBE = 8"
| "MqttType_val SUBACK = 9"
| "MqttType_val UNSUBSCRIBE = 10"
| "MqttType_val UNSUBACK = 11"
| "MqttType_val PINGREQ = 12"
| "MqttType_val PINGRESP = 13"
| "MqttType_val DISCONNECT = 14"
| "MqttType_val RESERVED2 = 15"

definition mqtt_types :: "MqttType list" where
  "mqtt_types = [RESERVED1, CONNECT, CONNACK, PUBLISH, PUBACK, PUBREC, PUBREL, PUBCOMP,
     SUBSCRIBE, SUBACK, UNSUBSCRIBE, UNSUBACK, PINGREQ, PINGRESP, DISCONNECT, RESERVED2]"

text \<open>The cast of a four bit field to the enumeration.\<close>

definition to_MqttType :: "u8 \<Rightarrow> MqttType" where
  "to_MqttType v = mqtt_types ! (unat v mod 16)"

text \<open>The bit fields of the unions \<^verbatim>\<open>FixHeaderFlag\<close> and \<^verbatim>\<open>ConnectFlag\<close>, allocated from the
  least significant bit up.\<close>

definition fix_retain :: "u8 \<Rightarrow> bool" where "fix_retain b = bit b 0"

definition fix_qos :: "u8 \<Rightarrow> u8" where "fix_qos b = drop_bit 1 b AND 3"

definition fix_dup :: "u8 \<Rightarrow> bool" where "fix_dup b = bit b 3"

definition fix_msg_type :: "u8 \<Rightarrow> u8" where "fix_msg_type b = drop_bit 4 b"

definition con_clean_session :: "u8 \<Rightarrow> bool" where "con_clean_session b = bit b 1"

definition con_will :: "u8 \<Rightarrow> bool" where "con_will b = bit b 2"

definition con_will_qos :: "u8 \<Rightarrow> u8" where "con_will_qos b = drop_bit 3 b AND 3"

definition con_will_retail :: "u8 \<Rightarrow> bool" where "con_will_retail b = bit b 5"

definition con_password :: "u8 \<Rightarrow> bool" where "con_password b = bit b 6"

definition con_username :: "u8 \<Rightarrow> bool" where "con_username b = bit b 7"

subsection \<open>Fixed header\<close>

record cmqtt_fixed_header =
  m_msg_type :: MqttType
  m_dup_flag :: bool
  m_qos :: u8
  m_retain_flag :: bool

definition CMqttFixedHeader :: "MqttType \<Rightarrow> cmqtt_fixed_header" where
  "CMqttFixedHeader t = \<lparr>m_msg_type = t, m_dup_flag = False, m_qos = 0, m_retain_flag = False\<rparr>"

definition fixed_header_decode :: "u8 \<Rightarrow> cmqtt_fixed_header" where
  "fixed_header_decode value =
     \<lparr>m_msg_type = to_MqttType (fix_msg_type value), m_dup_flag = fix_dup value,
      m_qos = fix_qos value, m_retain_flag = fix_retain value\<rparr>"

definition fixed_header_encode :: "cmqtt_fixed_header \<Rightarrow> u8" where
  "fixed_header_encode h =
     of_bool (m_retain_flag h) OR push_bit 1 (m_qos h AND 3) OR push_bit 3 (of_bool (m_dup_flag h))
       OR push_bit 4 (MqttType_val (m_msg_type h))"

subsection \<open>The base class\<close>

record cmqtt_msg =
  m_fixed_header :: cmqtt_fixed_header
  m_remain_length_value :: u32
  m_remain_length_bytes :: u8
  m_mqtt_pkt :: cmqtt_pkt

definition CMqttMsg_decode :: "'a cmqtt_msg_scheme \<Rightarrow> (int \<times> 'a cmqtt_msg_scheme) option" where
  "CMqttMsg_decode m =
     do {
       (r, b, p) \<leftarrow> read_byte 0 (m_mqtt_pkt m);
       if r < 0 then Some (-1, m\<lparr>m_mqtt_pkt := p\<rparr>)
       else do {
         (r, v, k, p) \<leftarrow> read_remain_length (m_remain_length_value m) (m_remain_length_bytes m) p;
         let m' = m\<lparr>m_fixed_header := fixed_header_decode b, m_remain_length_value := v,
                    m_remain_length_bytes := k, m_mqtt_pkt := p\<rparr>;
         Some (if r < 0 then -1 else 0, m')
       }
     }"

definition CMqttMsg_encode :: "'a cmqtt_msg_scheme \<Rightarrow> (int \<times> 'a cmqtt_msg_scheme) option" where
  "CMqttMsg_encode m =
     do {
       (_, p) \<leftarrow> write_byte (fixed_header_encode (m_fixed_header m)) (m_mqtt_pkt m);
       Some (0, m\<lparr>m_mqtt_pkt := p\<rparr>)
     }"

text \<open>
  The idiom \<^verbatim>\<open>if (m_mqtt_pkt.read_x(v) < 0) return -1;\<close> of the decoders: the continuation gets
  the value read and the object; a failed read leaves the target of the reference unchanged.
\<close>

definition try_base :: "'a cmqtt_msg_scheme \<Rightarrow> ('a cmqtt_msg_scheme \<Rightarrow> (int \<times> 'a cmqtt_msg_scheme) option)
    \<Rightarrow> (int \<times> 'a cmqtt_msg_scheme) option" where
  "try_base m k = do { (r, m) \<leftarrow> CMqttMsg_decode m; if r < 0 then Some (-1, m) else k m }"

definition try_byte :: "'a cmqtt_msg_scheme \<Rightarrow> (u8 \<Rightarrow> 'a cmqtt_msg_scheme \<Rightarrow> (int \<times> 'a cmqtt_msg_scheme) option)
    \<Rightarrow> (int \<times> 'a cmqtt_msg_scheme) option" where
  "try_byte m k = do { (r, v, p) \<leftarrow> read_byte 0 (m_mqtt_pkt m);
     if r < 0 then Some (-1, m\<lparr>m_mqtt_pkt := p\<rparr>) else k v (m\<lparr>m_mqtt_pkt := p\<rparr>) }"

definition try_short :: "'a cmqtt_msg_scheme \<Rightarrow> (u16 \<Rightarrow> 'a cmqtt_msg_scheme \<Rightarrow> (int \<times> 'a cmqtt_msg_scheme) option)
    \<Rightarrow> (int \<times> 'a cmqtt_msg_scheme) option" where
  "try_short m k = do { (r, v, p) \<leftarrow> read_short 0 (m_mqtt_pkt m);
     if r < 0 then Some (-1, m\<lparr>m_mqtt_pkt := p\<rparr>) else k v (m\<lparr>m_mqtt_pkt := p\<rparr>) }"

definition try_string :: "'a cmqtt_msg_scheme \<Rightarrow> (cstring \<Rightarrow> 'a cmqtt_msg_scheme \<Rightarrow> (int \<times> 'a cmqtt_msg_scheme) option)
    \<Rightarrow> (int \<times> 'a cmqtt_msg_scheme) option" where
  "try_string m k = do { (r, v, p) \<leftarrow> read_string [] (m_mqtt_pkt m);
     if r < 0 then Some (-1, m\<lparr>m_mqtt_pkt := p\<rparr>) else k v (m\<lparr>m_mqtt_pkt := p\<rparr>) }"

text \<open>The writes of the encoders, whose return codes the source ignores.\<close>

definition put_byte :: "u8 \<Rightarrow> 'a cmqtt_msg_scheme \<Rightarrow> 'a cmqtt_msg_scheme option" where
  "put_byte v m = do { (_, p) \<leftarrow> write_byte v (m_mqtt_pkt m); Some (m\<lparr>m_mqtt_pkt := p\<rparr>) }"

definition put_bytes :: "bytes \<Rightarrow> 'a cmqtt_msg_scheme \<Rightarrow> 'a cmqtt_msg_scheme option" where
  "put_bytes v m = do { (_, p) \<leftarrow> write_bytes v (m_mqtt_pkt m); Some (m\<lparr>m_mqtt_pkt := p\<rparr>) }"

definition put_short :: "u16 \<Rightarrow> 'a cmqtt_msg_scheme \<Rightarrow> 'a cmqtt_msg_scheme option" where
  "put_short v m = do { (_, p) \<leftarrow> write_short v (m_mqtt_pkt m); Some (m\<lparr>m_mqtt_pkt := p\<rparr>) }"

definition put_string :: "cstring \<Rightarrow> 'a cmqtt_msg_scheme \<Rightarrow> 'a cmqtt_msg_scheme option" where
  "put_string v m = do { (_, p) \<leftarrow> write_string v (m_mqtt_pkt m); Some (m\<lparr>m_mqtt_pkt := p\<rparr>) }"

definition put_remain_length :: "u32 \<Rightarrow> 'a cmqtt_msg_scheme \<Rightarrow> 'a cmqtt_msg_scheme option" where
  "put_remain_length n m = do { (_, k, p) \<leftarrow> write_remain_length n (m_mqtt_pkt m);
     Some (m\<lparr>m_remain_length_value := n, m_remain_length_bytes := k, m_mqtt_pkt := p\<rparr>) }"

text \<open>The final test of the encoders: the length written against the length expected.\<close>

definition check_encoded :: "u32 \<Rightarrow> 'a cmqtt_msg_scheme \<Rightarrow> (int \<times> 'a cmqtt_msg_scheme) option" where
  "check_encoded pkt_len m =
     (if pkt_length (m_mqtt_pkt m) \<noteq> pkt_len then Some (-1, m)
      else Some (to_int (pkt_length (m_mqtt_pkt m)), m))"

definition full_length :: "'a cmqtt_msg_scheme \<Rightarrow> u32" where
  "full_length m = m_remain_length_value m + ucast (m_remain_length_bytes m) + 1"

subsection \<open>CONNECT\<close>

record cmqtt_connect = cmqtt_msg +
  m_str_proto_name :: cstring
  m_proto_version :: u8
  m_has_user_name :: bool
  m_has_password :: bool
  m_has_will_retain :: bool
  m_will_qos :: u8
  m_has_will :: bool
  m_clean_session :: bool
  m_keep_alive :: u16
  m_str_client_id :: cstring
  m_str_will_topic :: cstring
  m_str_will_message :: cstring
  m_str_user_name :: cstring
  m_str_password :: cstring

definition CMqttConnect :: "bytes \<Rightarrow> u32 \<Rightarrow> cmqtt_connect" where
  "CMqttConnect buf len =
     \<lparr>m_fixed_header = CMqttFixedHeader CONNECT, m_remain_length_value = 0, m_remain_length_bytes = 0,
      m_mqtt_pkt = CMqttPkt buf len, m_str_proto_name = [], m_proto_version = 0,
      m_has_user_name = False, m_has_password = False, m_has_will_retain = False, m_will_qos = 0,
      m_has_will = False, m_clean_session = False, m_keep_alive = 0, m_str_client_id = [],
      m_str_will_topic = [], m_str_will_message = [], m_str_user_name = [], m_str_password = []\<rparr>"

definition connect_decode_flags :: "u8 \<Rightarrow> cmqtt_connect \<Rightarrow> (int \<times> cmqtt_connect) option" where
  "connect_decode_flags flag m =
     Some (0, m\<lparr>m_has_user_name := con_username flag, m_has_password := con_password flag,
                m_has_will_retain := con_will_retail flag, m_will_qos := con_will_qos flag,
                m_has_will := con_will flag, m_clean_session := con_clean_session flag\<rparr>)"

definition connect_decode_password :: "u8 \<Rightarrow> cmqtt_connect \<Rightarrow> (int \<times> cmqtt_connect) option" where
  "connect_decode_password flag m =
     (if con_password flag
      then try_string m (\<lambda>s m. connect_decode_flags flag (m\<lparr>m_str_password := s\<rparr>))
      else connect_decode_flags flag m)"

definition connect_decode_username :: "u8 \<Rightarrow> cmqtt_connect \<Rightarrow> (int \<times> cmqtt_connect) option" where
  "connect_decode_username flag m =
     (if con_username flag
      then try_string m (\<lambda>s m. connect_decode_password flag (m\<lparr>m_str_user_name := s\<rparr>))
      else connect_decode_password flag m)"

definition connect_decode_will :: "u8 \<Rightarrow> cmqtt_connect \<Rightarrow> (int \<times> cmqtt_connect) option" where
  "connect_decode_will flag m =
     (if con_will flag
      then try_string m (\<lambda>s m. let m = m\<lparr>m_str_will_topic := s\<rparr> in
           try_string m (\<lambda>s m. connect_decode_username flag (m\<lparr>m_str_will_message := s\<rparr>)))
      else connect_decode_username flag m)"

definition CMqttConnect_decode :: "cmqtt_connect \<Rightarrow> (int \<times> cmqtt_connect) option" where
  "CMqttConnect_decode m =
     try_base m (\<lambda>m.
       if m_msg_type (m_fixed_header m) \<noteq> CONNECT then Some (-1, m)
       else
         try_string m (\<lambda>s m. let m = m\<lparr>m_str_proto_name := s\<rparr> in
         try_byte m (\<lambda>v m. let m = m\<lparr>m_proto_version := v\<rparr> in
         try_byte m (\<lambda>flag m.
         try_short m (\<lambda>v m. let m = m\<lparr>m_keep_alive := v\<rparr> in
         try_string m (\<lambda>s m. connect_decode_will flag (m\<lparr>m_str_client_id := s\<rparr>)))))))"

definition MQIsdp :: cstring where "MQIsdp = cstr ''MQIsdp''"

definition CMqttConnect_encode :: "cmqtt_connect \<Rightarrow> (int \<times> cmqtt_connect) option" where
  "CMqttConnect_encode m =
     do {
       (_, m) \<leftarrow> CMqttMsg_encode m;
       let m = m\<lparr>m_str_proto_name := MQIsdp, m_proto_version := 3\<rparr>;
       let rlv = of_nat (2 + length MQIsdp + 1) + 1 + 2 + of_nat (2 + length (m_str_client_id m));
       let flag = (push_bit 1 (of_bool (m_clean_session m)) :: u8);
       let m = m\<lparr>m_keep_alive := 60\<rparr>;
       m \<leftarrow> put_remain_length rlv m;
       m \<leftarrow> put_string (m_str_proto_name m) m;
       m \<leftarrow> put_byte (m_proto_version m) m;
       m \<leftarrow> put_byte flag m;
       m \<leftarrow> put_short (m_keep_alive m) m;
       m \<leftarrow> put_string (m_str_client_id m) m;
       Some (to_int (pkt_length (m_mqtt_pkt m)), m)
     }"

subsection \<open>CONNACK\<close>

text \<open>A byte without an enumerator keeps its value when it is cast to \<^verbatim>\<open>enum class Code\<close>.\<close>

datatype Code = ACCEPTED | BAD_VERSION | BAD_ID | SERVER_UNAVAILABLE | BAD_USER_OR_PWD | NO_AUTH
  | Code_unnamed u8

primrec Code_val :: "Code \<Rightarrow> u8" where
  "Code_val ACCEPTED = 0"
| "Code_val BAD_VERSION = 1"
| "Code_val BAD_ID = 2"
| "Code_val SERVER_UNAVAILABLE = 3"
| "Code_val BAD_USER_OR_PWD = 4"
| "Code_val NO_AUTH = 5"
| "Code_val (Code_unnamed v) = v"

definition to_Code :: "u8 \<Rightarrow> Code" where
  "to_Code v = (if v = 0 then ACCEPTED else if v = 1 then BAD_VERSION else if v = 2 then BAD_ID
     else if v = 3 then SERVER_UNAVAILABLE else if v = 4 then BAD_USER_OR_PWD
     else if v = 5 then NO_AUTH else Code_unnamed v)"

record cmqtt_connack = cmqtt_msg +
  m_reserved :: u8
  m_code :: Code

definition CMqttConnAck :: "bytes \<Rightarrow> u32 \<Rightarrow> Code \<Rightarrow> cmqtt_connack" where
  "CMqttConnAck buf len code =
     \<lparr>m_fixed_header = CMqttFixedHeader CONNACK, m_remain_length_value = 0, m_remain_length_bytes = 0,
      m_mqtt_pkt = CMqttPkt buf len, m_reserved = 0, m_code = code\<rparr>"

definition CMqttConnAck_decode :: "cmqtt_connack \<Rightarrow> (int \<times> cmqtt_connack) option" where
  "CMqttConnAck_decode m =
     try_base m (\<lambda>m.
       if m_msg_type (m_fixed_header m) \<noteq> CONNACK then Some (-1, m)
       else
         try_byte m (\<lambda>v m. let m = m\<lparr>m_reserved := v\<rparr> in
         try_byte m (\<lambda>code m. Some (0, m\<lparr>m_code := to_Code code\<rparr>))))"

definition CMqttConnAck_encode :: "cmqtt_connack \<Rightarrow> (int \<times> cmqtt_connack) option" where
  "CMqttConnAck_encode m =
     do {
       (_, m) \<leftarrow> CMqttMsg_encode m;
       m \<leftarrow> put_remain_length 2 m;
       let m = m\<lparr>m_reserved := 0\<rparr>;
       m \<leftarrow> put_byte (m_reserved m) m;
       m \<leftarrow> put_byte (Code_val (m_code m)) m;
       check_encoded 4 m
     }"

subsection \<open>SUBSCRIBE and SUBACK\<close>

record ctopic =
  m_topic_name :: cstring
  m_topic_qos :: u8

definition CTopic :: "cstring \<Rightarrow> u8 \<Rightarrow> ctopic" where
  "CTopic name q = \<lparr>m_topic_name = name, m_topic_qos = q\<rparr>"

record cmqtt_subscribe = cmqtt_msg +
  m_sub_msg_id :: u16
  m_sub_topics :: "ctopic list"

definition CMqttSubscribe :: "bytes \<Rightarrow> u32 \<Rightarrow> cmqtt_subscribe" where
  "CMqttSubscribe buf len =
     \<lparr>m_fixed_header = CMqttFixedHeader RESERVED1, m_remain_length_value = 0, m_remain_length_bytes = 0,
      m_mqtt_pkt = CMqttPkt buf len, m_sub_msg_id = 0, m_sub_topics = []\<rparr>"

definition CMqttSubscribe_hdr ::
  "bytes \<Rightarrow> u32 \<Rightarrow> cmqtt_fixed_header \<Rightarrow> u16 \<Rightarrow> ctopic list \<Rightarrow> cmqtt_subscribe" where
  "CMqttSubscribe_hdr buf len hdr msg_id topics =
     (CMqttSubscribe buf len)\<lparr>m_fixed_header := hdr, m_sub_msg_id := msg_id, m_sub_topics := topics\<rparr>"

fun put_topics :: "ctopic list \<Rightarrow> 'a cmqtt_msg_scheme \<Rightarrow> 'a cmqtt_msg_scheme option" where
  "put_topics [] m = Some m"
| "put_topics (t # ts) m =
     do {
       m \<leftarrow> put_string (m_topic_name t) m;
       m \<leftarrow> put_byte (m_topic_qos t) m;
       put_topics ts m
     }"

definition topics_len :: "ctopic list \<Rightarrow> u32" where
  "topics_len ts = fold (\<lambda>t n. n + of_nat (length (m_topic_name t) + 2 + 1)) ts 0"

definition CMqttSubscribe_encode :: "cmqtt_subscribe \<Rightarrow> (int \<times> cmqtt_subscribe) option" where
  "CMqttSubscribe_encode m =
     do {
       (_, m) \<leftarrow> CMqttMsg_encode m;
       if m_sub_topics m = [] then Some (-1, m)
       else do {
         m \<leftarrow> put_remain_length (topics_len (m_sub_topics m) + 2) m;
         m \<leftarrow> put_short (m_sub_msg_id m) m;
         m \<leftarrow> put_topics (m_sub_topics m) m;
         check_encoded (full_length m) m
       }
     }"

definition sub_topics_name :: "cmqtt_subscribe \<Rightarrow> cstring list" where
  "sub_topics_name m = map m_topic_name (m_sub_topics m)"

definition sub_topics_qos :: "cmqtt_subscribe \<Rightarrow> u8 list" where
  "sub_topics_qos m = map m_topic_qos (m_sub_topics m)"

text \<open>Every successful read of a string takes at least its two length bytes, so the loops that
  collect topics end.\<close>

lemma left_size_skip:
  assumes "int n \<le> left_size p"
  shows "left_size (pkt_skip (of_nat n) p) = left_size p - int n"
proof -
  let ?w = "m_max_size p - m_offset p"
  have "unat ?w < 2147483648"
    using assms to_int_large [of ?w] unat_lt_2p32 [of ?w] by (fastforce simp: left_size_def)
  then have w: "to_int ?w = int (unat ?w)" "n \<le> unat ?w" "n < 4294967296"
    using assms to_int_small [of ?w] by (auto simp: left_size_def)
  have "unat (?w - of_nat n) = unat ?w - n"
    using w by (subst unat_sub_u32) simp_all
  then have "to_int (?w - of_nat n) = to_int ?w - int n"
    using w \<open>unat ?w < 2147483648\<close> by (subst to_int_small) simp_all
  then show ?thesis by (simp add: left_size_def pkt_skip_def diff_diff_eq)
qed

lemma read_byte_left: "read_byte d p = Some (r, v, q) \<Longrightarrow> left_size q \<le> left_size p"
  using left_size_skip [of 1 p] by (auto simp: read_byte_def split: if_splits Option.bind_splits)

lemma read_string_left:
  assumes "read_string d p = Some (r, v, q)" "r \<noteq> FAILTURE"
  shows "left_size q < left_size p \<and> 0 < left_size p"
proof -
  obtain r1 n p1 where sh: "read_short 0 p = Some (r1, n, p1)"
    using assms by (auto simp: read_string_def split: Option.bind_splits)
  then have ok: "\<not> left_size p < 2" "p1 = pkt_skip (of_nat 2) p"
    using assms by (auto simp: read_string_def read_short_def split: if_splits Option.bind_splits)
  then have l1: "left_size p1 = left_size p - 2"
    using left_size_skip [of 2 p] by simp
  have "int (unat n) \<le> left_size p1" "q = pkt_skip (of_nat (unat n)) p1"
    using assms sh by (auto simp: read_string_def of_nat_unat split: if_splits Option.bind_splits)
  then have "left_size q = left_size p1 - int (unat n)"
    using left_size_skip by simp
  then show ?thesis using l1 ok(1) by simp
qed

function subscribe_decode_loop :: "cmqtt_pkt \<Rightarrow> ctopic list \<Rightarrow> (ctopic list \<times> cmqtt_pkt) option" where
  "subscribe_decode_loop p topics =
     (case read_string [] p of
        None \<Rightarrow> None
      | Some (r, name, p1) \<Rightarrow>
          if r = FAILTURE then Some (topics, p1)
          else (case read_byte 0 p1 of
                  None \<Rightarrow> None
                | Some (r2, topic_qos, p2) \<Rightarrow>
                    if r2 < 0 then Some (topics, p2)
                    else subscribe_decode_loop p2 (topics @ [CTopic name topic_qos])))"
  by pat_completeness auto
termination
proof (relation "measure (\<lambda>(p, ts). nat (left_size p))", goal_cases)
  case (2 p topics x a b name p1 xa c d topic_qos p2)
  then show ?case using read_string_left [of "[]" p] read_byte_left [of 0 p1] by fastforce
qed simp

declare subscribe_decode_loop.simps [simp del]

definition CMqttSubscribe_decode :: "cmqtt_subscribe \<Rightarrow> (int \<times> cmqtt_subscribe) option" where
  "CMqttSubscribe_decode m =
     try_base m (\<lambda>m.
       if m_msg_type (m_fixed_header m) \<noteq> SUBSCRIBE then Some (-1, m)
       else
         try_short m (\<lambda>v m. do {
           (topics, p) \<leftarrow> subscribe_decode_loop (m_mqtt_pkt m) (m_sub_topics m);
           Some (0, m\<lparr>m_sub_msg_id := v, m_sub_topics := topics, m_mqtt_pkt := p\<rparr>) }))"

record cmqtt_suback = cmqtt_msg +
  m_suback_msg_id :: u16
  m_sub_qos :: "u8 list"

definition CMqttSubAck :: "bytes \<Rightarrow> u32 \<Rightarrow> u16 \<Rightarrow> u8 list \<Rightarrow> cmqtt_suback" where
  "CMqttSubAck buf len msg_id sub_qos =
     \<lparr>m_fixed_header = CMqttFixedHeader SUBACK, m_remain_length_value = 0, m_remain_length_bytes = 0,
      m_mqtt_pkt = CMqttPkt buf len, m_suback_msg_id = msg_id, m_sub_qos = sub_qos\<rparr>"

text \<open>The loop counter and its bound are \<^verbatim>\<open>uint8_t\<close>; a failed read repeats the previous value.\<close>

fun suback_decode_loop :: "nat \<Rightarrow> u8 \<Rightarrow> cmqtt_pkt \<Rightarrow> u8 list \<Rightarrow> (u8 list \<times> cmqtt_pkt) option" where
  "suback_decode_loop 0 q p qs = Some (qs, p)"
| "suback_decode_loop (Suc n) q p qs =
     do {
       (_, q, p) \<leftarrow> read_byte q p;
       suback_decode_loop n q p (qs @ [q])
     }"

definition CMqttSubAck_decode :: "cmqtt_suback \<Rightarrow> (int \<times> cmqtt_suback) option" where
  "CMqttSubAck_decode m =
     try_base m (\<lambda>m.
       if m_msg_type (m_fixed_header m) \<noteq> SUBACK then Some (-1, m)
       else
         let n = unat (of_int (left_size (m_mqtt_pkt m)) :: u8) in do {
           (qs, p) \<leftarrow> suback_decode_loop n 0 (m_mqtt_pkt m) (m_sub_qos m);
           Some (0, m\<lparr>m_sub_qos := qs, m_mqtt_pkt := p\<rparr>) })"

fun put_qos_list :: "u8 list \<Rightarrow> 'a cmqtt_msg_scheme \<Rightarrow> 'a cmqtt_msg_scheme option" where
  "put_qos_list [] m = Some m"
| "put_qos_list (q # qs) m = do { m \<leftarrow> put_byte q m; put_qos_list qs m }"

definition CMqttSubAck_encode :: "cmqtt_suback \<Rightarrow> (int \<times> cmqtt_suback) option" where
  "CMqttSubAck_encode m =
     do {
       (_, m) \<leftarrow> CMqttMsg_encode m;
       m \<leftarrow> put_remain_length (of_nat (length (m_sub_qos m)) + 2) m;
       m \<leftarrow> put_short (m_suback_msg_id m) m;
       m \<leftarrow> put_qos_list (m_sub_qos m) m;
       check_encoded (full_length m) m
     }"

subsection \<open>UNSUBSCRIBE and UNSUBACK\<close>

record cmqtt_unsubscribe = cmqtt_msg +
  m_unsub_msg_id :: u16
  m_str_topics :: "cstring list"

definition CMqttUnsubscribe :: "bytes \<Rightarrow> u32 \<Rightarrow> cmqtt_unsubscribe" where
  "CMqttUnsubscribe buf len =
     \<lparr>m_fixed_header = CMqttFixedHeader RESERVED1, m_remain_length_value = 0, m_remain_length_bytes = 0,
      m_mqtt_pkt = CMqttPkt buf len, m_unsub_msg_id = 0, m_str_topics = []\<rparr>"

function unsubscribe_decode_loop :: "cmqtt_pkt \<Rightarrow> cstring list \<Rightarrow> (cstring list \<times> cmqtt_pkt) option" where
  "unsubscribe_decode_loop p topics =
     (case read_string [] p of
        None \<Rightarrow> None
      | Some (r, name, p1) \<Rightarrow>
          if r = FAILTURE then Some (topics, p1)
          else unsubscribe_decode_loop p1 (topics @ [name]))"
  by pat_completeness auto
termination
proof (relation "measure (\<lambda>(p, ts). nat (left_size p))", goal_cases)
  case (2 p topics x a b name p1)
  then show ?case using read_string_left [of "[]" p] by fastforce
qed simp

declare unsubscribe_decode_loop.simps [simp del]

definition CMqttUnsubscribe_decode :: "cmqtt_unsubscribe \<Rightarrow> (int \<times> cmqtt_unsubscribe) option" where
  "CMqttUnsubscribe_decode m =
     try_base m (\<lambda>m.
       if m_msg_type (m_fixed_header m) \<noteq> UNSUBSCRIBE then Some (-1, m)
       else
         try_short m (\<lambda>v m. do {
           (topics, p) \<leftarrow> unsubscribe_decode_loop (m_mqtt_pkt m) (m_str_topics m);
           Some (0, m\<lparr>m_unsub_msg_id := v, m_str_topics := topics, m_mqtt_pkt := p\<rparr>) }))"

record cmqtt_unsuback = cmqtt_msg +
  m_unsuback_msg_id :: u16

definition CMqttUnsubAck :: "bytes \<Rightarrow> u32 \<Rightarrow> u16 \<Rightarrow> cmqtt_unsuback" where
  "CMqttUnsubAck buf len msg_id =
     \<lparr>m_fixed_header = CMqttFixedHeader UNSUBACK, m_remain_length_value = 0, m_remain_length_bytes = 0,
      m_mqtt_pkt = CMqttPkt buf len, m_unsuback_msg_id = msg_id\<rparr>"

definition CMqttUnsubAck_encode :: "cmqtt_unsuback \<Rightarrow> (int \<times> cmqtt_unsuback) option" where
  "CMqttUnsubAck_encode m =
     do {
       (_, m) \<leftarrow> CMqttMsg_encode m;
       m \<leftarrow> put_remain_length 2 m;
       m \<leftarrow> put_short (m_unsuback_msg_id m) m;
       check_encoded 4 m
     }"

subsection \<open>PUBLISH and PUBACK\<close>

record cmqtt_publish = cmqtt_msg +
  m_str_topic_name :: cstring
  m_payload :: bytes
  m_pub_msg_id :: u16
  m_offset_msg_id :: u32

definition CMqttPublish :: "bytes \<Rightarrow> u32 \<Rightarrow> cmqtt_publish" where
  "CMqttPublish buf len =
     \<lparr>m_fixed_header = CMqttFixedHeader RESERVED1, m_remain_length_value = 0, m_remain_length_bytes = 0,
      m_mqtt_pkt = CMqttPkt buf len, m_str_topic_name = [], m_payload = [], m_pub_msg_id = 0,
      m_offset_msg_id = 0\<rparr>"

definition CMqttPublish_hdr :: "bytes \<Rightarrow> u32 \<Rightarrow> cmqtt_fixed_header \<Rightarrow> cmqtt_publish" where
  "CMqttPublish_hdr buf len hdr = (CMqttPublish buf len)\<lparr>m_fixed_header := hdr\<rparr>"

definition CMqttPublish_decode :: "cmqtt_publish \<Rightarrow> (int \<times> cmqtt_publish) option" where
  "CMqttPublish_decode m =
     try_base m (\<lambda>m.
     try_string m (\<lambda>s m.
       let m = m\<lparr>m_str_topic_name := s, m_offset_msg_id := pkt_length (m_mqtt_pkt m)\<rparr> in
     try_short m (\<lambda>v m.
       let m = m\<lparr>m_pub_msg_id := v\<rparr> in do {
         (r, payload, p) \<leftarrow> read_bytes (m_payload m) (left_size (m_mqtt_pkt m)) (m_mqtt_pkt m);
         Some (if r < 0 then -1 else 0, m\<lparr>m_payload := payload, m_mqtt_pkt := p\<rparr>) })))"

definition CMqttPublish_encode :: "cmqtt_publish \<Rightarrow> (int \<times> cmqtt_publish) option" where
  "CMqttPublish_encode m =
     do {
       (_, m) \<leftarrow> CMqttMsg_encode m;
       m \<leftarrow> put_remain_length (of_nat (length (m_str_topic_name m) + 2) + 2 + of_nat (length (m_payload m))) m;
       m \<leftarrow> put_string (m_str_topic_name m) m;
       m \<leftarrow> put_short (m_pub_msg_id m) m;
       m \<leftarrow> put_bytes (m_payload m) m;
       check_encoded (full_length m) m
     }"

record cmqtt_puback = cmqtt_msg +
  m_puback_msg_id :: u16

definition CMqttPublishAck :: "bytes \<Rightarrow> u32 \<Rightarrow> u16 \<Rightarrow> cmqtt_puback" where
  "CMqttPublishAck buf len msg_id =
     \<lparr>m_fixed_header = CMqttFixedHeader PUBACK, m_remain_length_value = 0, m_remain_length_bytes = 0,
      m_mqtt_pkt = CMqttPkt buf len, m_puback_msg_id = msg_id\<rparr>"

definition CMqttPublishAck_encode :: "cmqtt_puback \<Rightarrow> (int \<times> cmqtt_puback) option" where
  "CMqttPublishAck_encode m =
     do {
       (_, m) \<leftarrow> CMqttMsg_encode m;
       m \<leftarrow> put_remain_length 2 m;
       m \<leftarrow> put_short (m_puback_msg_id m) m;
       check_encoded 4 m
     }"

definition CMqttPublishAck_decode :: "cmqtt_puback \<Rightarrow> (int \<times> cmqtt_puback) option" where
  "CMqttPublishAck_decode m =
     try_base m (\<lambda>m.
       if m_msg_type (m_fixed_header m) \<noteq> PUBACK then Some (-1, m)
       else try_short m (\<lambda>v m. Some (0, m\<lparr>m_puback_msg_id := v\<rparr>)))"

subsection \<open>DISCONNECT, PINGREQ and PINGRESP\<close>

definition CMqttMsg :: "bytes \<Rightarrow> u32 \<Rightarrow> MqttType \<Rightarrow> cmqtt_msg" where
  "CMqttMsg buf len t =
     \<lparr>m_fixed_header = CMqttFixedHeader t, m_remain_length_value = 0, m_remain_length_bytes = 0,
      m_mqtt_pkt = CMqttPkt buf len\<rparr>"

definition CMqttPingReq_encode :: "cmqtt_msg \<Rightarrow> (int \<times> cmqtt_msg) option" where
  "CMqttPingReq_encode m =
     do { (_, m) \<leftarrow> CMqttMsg_encode m; m \<leftarrow> put_remain_length 0 m; check_encoded 2 m }"

definition CMqttDisconnect_encode :: "cmqtt_msg \<Rightarrow> (int \<times> cmqtt_msg) option" where
  "CMqttDisconnect_encode m =
     do { (_, m) \<leftarrow> CMqttMsg_encode m; m \<leftarrow> put_remain_length 0 m; check_encoded 2 m }"

definition CMqttPingResp_encode :: "cmqtt_msg \<Rightarrow> (int \<times> cmqtt_msg) option" where
  "CMqttPingResp_encode m =
     do { (_, m) \<leftarrow> CMqttMsg_encode m; m \<leftarrow> put_remain_length 0 m; check_encoded 2 m }"

subsection \<open>Fixed header round trip\<close>

lemma fix_msg_type_lt: "unat (fix_msg_type b) < 16"
  using unat_lt_2p8 [of b]
  by (simp add: fix_msg_type_def drop_bit_eq_div unat_div less_mult_imp_div_less)

lemma MqttType_val_cast:
  assumes "n < 16"
  shows "MqttType_val (mqtt_types ! n) = of_nat n"
proof -
  have "\<forall>i\<in>set [0..<16]. MqttType_val (mqtt_types ! i) = of_nat i"
    by (simp add: mqtt_types_def upt_rec)
  then show ?thesis using assms by simp
qed

lemma to_MqttType_val [simp]: "to_MqttType (MqttType_val t) = t"
  by (cases t) (simp_all add: to_MqttType_def mqtt_types_def)

lemma MqttType_val_to [simp]: "unat v < 16 \<Longrightarrow> MqttType_val (to_MqttType v) = v"
  by (simp add: to_MqttType_def MqttType_val_cast of_nat_unat)

lemma MqttType_val_lt: "unat (MqttType_val t) < 16"
  by (cases t) simp_all

lemma lt16_bits: "unat (v :: u8) < 16 \<Longrightarrow> take_bit 4 v = v"
  by (simp add: word_eq_iff_unsigned [where ?'a = nat] unsigned_take_bit_eq take_bit_nat_eq_self_iff)

lemma three_mask: "(3 :: u8) = mask 2"
  by (simp add: mask_eq_exp_minus_1)

lemma bit_fixed_header_encode:
  "i < 8 \<Longrightarrow> bit (fixed_header_encode h) i =
     (if i = 0 then m_retain_flag h else if i < 3 then bit (m_qos h) (i - 1)
      else if i = 3 then m_dup_flag h else bit (MqttType_val (m_msg_type h)) (i - 4))"
  unfolding fixed_header_encode_def bit_or_iff bit_push_bit_iff bit_and_iff three_mask bit_mask_iff
    bit_of_bool_iff
  by (auto simp: not_less)

lemma fixed_header_encode_bits:
  fixes h :: cmqtt_fixed_header
  shows "fix_retain (fixed_header_encode h) = m_retain_flag h"
    and "fix_qos (fixed_header_encode h) = m_qos h AND 3"
    and "fix_dup (fixed_header_encode h) = m_dup_flag h"
    and "fix_msg_type (fixed_header_encode h) = MqttType_val (m_msg_type h)"
proof -
  show "fix_retain (fixed_header_encode h) = m_retain_flag h" "fix_dup (fixed_header_encode h) = m_dup_flag h"
    by (simp_all add: fix_retain_def fix_dup_def bit_fixed_header_encode)
  show "fix_qos (fixed_header_encode h) = m_qos h AND 3"
    unfolding fix_qos_def three_mask
    by (rule bit_word_eqI) (auto simp: bit_and_iff bit_drop_bit_eq bit_mask_iff bit_fixed_header_encode)
  have t: "bit (MqttType_val (m_msg_type h)) n \<Longrightarrow> n < 4" for n
    using lt16_bits [OF MqttType_val_lt, of "m_msg_type h"] by (metis bit_take_bit_iff)
  show "fix_msg_type (fixed_header_encode h) = MqttType_val (m_msg_type h)"
    unfolding fix_msg_type_def
  proof (rule bit_word_eqI)
    fix n assume "n < LENGTH(8)"
    show "bit (drop_bit 4 (fixed_header_encode h)) n = bit (MqttType_val (m_msg_type h)) n"
    proof (cases "n < 4")
      case True
      then show ?thesis by (simp add: bit_drop_bit_eq bit_fixed_header_encode)
    next
      case False
      then show ?thesis using t [of n] by (auto simp: bit_drop_bit_eq dest: bit_imp_le_length)
    qed
  qed
qed

text \<open>The encoder inverts the decoder on every byte, the decoder the encoder up to two bits of QoS.\<close>

lemma fixed_header_decode_encode [simp]:
  "fixed_header_decode (fixed_header_encode h) = h\<lparr>m_qos := m_qos h AND 3\<rparr>"
  by (simp add: fixed_header_decode_def fixed_header_encode_bits)

lemma fixed_header_encode_decode [simp]: "fixed_header_encode (fixed_header_decode b) = b"
proof (rule bit_word_eqI)
  fix i assume i: "i < LENGTH(8)"
  have "bit (fix_msg_type b) (i - 4) = bit b i" if "4 \<le> i"
    using that by (simp add: fix_msg_type_def bit_drop_bit_eq)
  then show "bit (fixed_header_encode (fixed_header_decode b)) i = bit b i"
    using i by (simp add: bit_fixed_header_encode)
      (auto simp: fixed_header_decode_def fix_retain_def fix_qos_def fix_dup_def fix_msg_type_lt
        three_mask bit_and_iff bit_mask_iff bit_drop_bit_eq not_less)
qed

lemma msg_type_decode_encode [simp]: "m_msg_type (fixed_header_decode (fixed_header_encode h)) = m_msg_type h"
  by simp

subsection \<open>Encoding: the bytes emitted\<close>

text \<open>A packet on the wire: fixed header byte, length of the body, body.\<close>

definition frame :: "u8 \<Rightarrow> bytes \<Rightarrow> bytes" where
  "frame h body = h # rl_enc (length body) @ body"

lemma length_frame: "length (frame h body) = 1 + length (rl_enc (length body)) + length body"
  by (simp add: frame_def)

text \<open>The writes of the encoders where they fit, as emissions of the cursor.\<close>

lemma put_byte_emit [pkt_simps]:
  "pkt_wf (m_mqtt_pkt m) \<Longrightarrow> 1 \<le> pkt_room (m_mqtt_pkt m) \<Longrightarrow>
     put_byte v m = Some (m\<lparr>m_mqtt_pkt := pkt_emit [v] (m_mqtt_pkt m)\<rparr>)"
  by (simp add: put_byte_def write_byte_emit)

lemma put_bytes_emit [pkt_simps]:
  "pkt_wf (m_mqtt_pkt m) \<Longrightarrow> length v \<le> pkt_room (m_mqtt_pkt m) \<Longrightarrow>
     put_bytes v m = Some (m\<lparr>m_mqtt_pkt := pkt_emit v (m_mqtt_pkt m)\<rparr>)"
  by (simp add: put_bytes_def write_bytes_emit)

lemma put_short_emit [pkt_simps]:
  "pkt_wf (m_mqtt_pkt m) \<Longrightarrow> 2 \<le> pkt_room (m_mqtt_pkt m) \<Longrightarrow>
     put_short v m = Some (m\<lparr>m_mqtt_pkt := pkt_emit [hi_byte v, lo_byte v] (m_mqtt_pkt m)\<rparr>)"
  by (simp add: put_short_def write_short_emit)

lemma put_string_emit [pkt_simps]:
  "pkt_wf (m_mqtt_pkt m) \<Longrightarrow> 2 + length v \<le> pkt_room (m_mqtt_pkt m) \<Longrightarrow>
     put_string v m = Some (m\<lparr>m_mqtt_pkt := pkt_emit (string_enc v) (m_mqtt_pkt m)\<rparr>)"
  by (simp add: put_string_def write_string_emit)

lemma put_remain_length_emit [pkt_simps]:
  "pkt_wf (m_mqtt_pkt m) \<Longrightarrow> length (rl_enc (unat n)) \<le> pkt_room (m_mqtt_pkt m) \<Longrightarrow>
     put_remain_length n m =
       Some (m\<lparr>m_remain_length_value := n, m_remain_length_bytes := of_nat (length (rl_enc (unat n))),
               m_mqtt_pkt := pkt_emit (rl_enc (unat n)) (m_mqtt_pkt m)\<rparr>)"
  using pkt_bounds [of "m_mqtt_pkt m" "length (rl_enc (unat n))"]
  by (simp add: put_remain_length_def write_remain_length_emit)

lemma CMqttMsg_encode_emit [pkt_simps]:
  "pkt_wf (m_mqtt_pkt m) \<Longrightarrow> 1 \<le> pkt_room (m_mqtt_pkt m) \<Longrightarrow>
     CMqttMsg_encode m = Some (0, m\<lparr>m_mqtt_pkt :=
        pkt_emit [fixed_header_encode (m_fixed_header m)] (m_mqtt_pkt m)\<rparr>)"
  by (simp add: CMqttMsg_encode_def write_byte_emit)

lemma rl_enc_2 [simp]: "rl_enc 2 = [2]" and rl_enc_0 [simp]: "rl_enc 0 = [0]"
  by (simp_all add: rl_enc_one)

text \<open>An encoder has succeeded on \<open>bs\<close> when it returns the length of \<open>bs\<close> and has written \<open>bs\<close>.\<close>

definition encoded :: "bytes \<Rightarrow> (int \<times> 'a cmqtt_msg_scheme) option \<Rightarrow> bool" where
  "encoded bs res = (case res of
     None \<Rightarrow> False
   | Some (r, m) \<Rightarrow> r = int (length bs) \<and> pkt_wf (m_mqtt_pkt m) \<and> pkt_written (m_mqtt_pkt m) = bs)"

lemma pkt_length_emit:
  "pkt_length (pkt_emit bs (CMqttPkt buf len)) = of_nat (length bs)"
  by (simp add: pkt_length_def CMqttPkt_def)

lemma pkt_written_emit_start:
  "unat len \<le> length buf \<Longrightarrow> unat len < 2147483648 \<Longrightarrow> length bs \<le> unat len \<Longrightarrow>
     pkt_wf (pkt_emit bs (CMqttPkt buf len)) \<and> pkt_written (pkt_emit bs (CMqttPkt buf len)) = bs"
  by (simp add: pkt_simps) (simp add: pkt_written_def CMqttPkt_def)

lemma encoded_start:
  assumes "unat len \<le> length buf" "unat len < 2147483648" "length bs \<le> unat len"
    and "m_mqtt_pkt m = pkt_emit bs (CMqttPkt buf len)"
  shows "encoded bs (Some (int (length bs), m))"
  using assms pkt_written_emit_start [OF assms(1-3)] by (simp add: encoded_def)

lemma check_encoded_start:
  assumes "unat len \<le> length buf" "unat len < 2147483648" "length bs \<le> unat len"
    and "m_mqtt_pkt m = pkt_emit bs (CMqttPkt buf len)" "n = of_nat (length bs)"
  shows "encoded bs (check_encoded n m)"
proof -
  have "to_int (of_nat (length bs)) = int (length bs)"
    using assms(2,3) by (subst to_int_small) simp_all
  then show ?thesis
    using encoded_start [OF assms(1-4)] assms(4,5) by (simp add: check_encoded_def pkt_length_emit)
qed

lemma fixed_header_byte [simp]:
  "fixed_header_encode (CMqttFixedHeader t) = push_bit 4 (MqttType_val t)"
  by (simp add: fixed_header_encode_def CMqttFixedHeader_def)

text \<open>Packets with a body of two bytes, and those without a body.\<close>

lemmas encode_start_simps = CMqttPublishAck_def CMqttConnAck_def CMqttUnsubAck_def CMqttMsg_def

lemma CMqttPublishAck_encoded:
  assumes "unat len \<le> length buf" "unat len < 2147483648" "4 \<le> unat len"
  shows "encoded [0x40, 2, hi_byte i, lo_byte i] (CMqttPublishAck_encode (CMqttPublishAck buf len i))"
  using assms pkt_wf_CMqttPkt [OF assms(1,2)]
  by (simp add: CMqttPublishAck_encode_def CMqttPublishAck_def pkt_simps) (rule check_encoded_start, simp_all)

lemma CMqttUnsubAck_encoded:
  assumes "unat len \<le> length buf" "unat len < 2147483648" "4 \<le> unat len"
  shows "encoded [0xB0, 2, hi_byte i, lo_byte i] (CMqttUnsubAck_encode (CMqttUnsubAck buf len i))"
  using assms pkt_wf_CMqttPkt [OF assms(1,2)]
  by (simp add: CMqttUnsubAck_encode_def CMqttUnsubAck_def pkt_simps) (rule check_encoded_start, simp_all)

lemma CMqttConnAck_encoded:
  assumes "unat len \<le> length buf" "unat len < 2147483648" "4 \<le> unat len"
  shows "encoded [0x20, 2, 0, Code_val c] (CMqttConnAck_encode (CMqttConnAck buf len c))"
  using assms pkt_wf_CMqttPkt [OF assms(1,2)]
  by (simp add: CMqttConnAck_encode_def CMqttConnAck_def pkt_simps) (rule check_encoded_start, simp_all)

lemma CMqttPing_encoded:
  assumes "unat len \<le> length buf" "unat len < 2147483648" "2 \<le> unat len"
  shows "encoded [0xC0, 0] (CMqttPingReq_encode (CMqttMsg buf len PINGREQ))"
    and "encoded [0xD0, 0] (CMqttPingResp_encode (CMqttMsg buf len PINGRESP))"
    and "encoded [0xE0, 0] (CMqttDisconnect_encode (CMqttMsg buf len DISCONNECT))"
  using assms pkt_wf_CMqttPkt [OF assms(1,2)]
  by (simp_all add: CMqttPingReq_encode_def CMqttPingResp_encode_def CMqttDisconnect_encode_def
      CMqttMsg_def pkt_simps) (rule check_encoded_start, simp_all)+

text \<open>Packets of variable length.\<close>

lemma ucast_rl_length:
  "n < 4294967296 \<Longrightarrow> ucast (of_nat (length (rl_enc n)) :: u8) = (of_nat (length (rl_enc n)) :: u32)"
  using rl_enc_length_u32 [of "of_nat n"]
  by (simp add: word_eq_iff_unsigned [where ?'a = nat] unsigned_ucast_eq take_bit_nat_eq_self)

lemma put_qos_list_emit [pkt_simps]:
  "pkt_wf (m_mqtt_pkt m) \<Longrightarrow> length qs \<le> pkt_room (m_mqtt_pkt m) \<Longrightarrow>
     put_qos_list qs m = Some (m\<lparr>m_mqtt_pkt := pkt_emit qs (m_mqtt_pkt m)\<rparr>)"
  by (induction qs arbitrary: m) (auto simp: pkt_simps)

lemma CMqttSubAck_encoded:
  assumes "unat len \<le> length buf" "unat len < 2147483648"
    and "length (frame 0x90 (hi_byte i # lo_byte i # qs)) \<le> unat len"
  shows "encoded (frame 0x90 (hi_byte i # lo_byte i # qs)) (CMqttSubAck_encode (CMqttSubAck buf len i qs))"
proof -
  have n: "length qs < 4294967294" using assms(2,3) by (simp add: length_frame)
  then have u: "unat (of_nat (length qs) + 2 :: u32) = length qs + 2"
    by (subst unat_add_u32) simp_all
  show ?thesis
    using assms pkt_wf_CMqttPkt [OF assms(1,2)]
    by (simp add: CMqttSubAck_encode_def CMqttSubAck_def pkt_simps u length_frame)
      (rule check_encoded_start, simp_all add: frame_def full_length_def ucast_rl_length)
qed

definition topics_enc :: "ctopic list \<Rightarrow> bytes" where
  "topics_enc ts = concat (map (\<lambda>t. string_enc (m_topic_name t) @ [m_topic_qos t]) ts)"

lemma topics_enc_simps [simp]:
  "topics_enc [] = []"
  "topics_enc (t # ts) = string_enc (m_topic_name t) @ m_topic_qos t # topics_enc ts"
  by (simp_all add: topics_enc_def)

lemma put_topics_emit [pkt_simps]:
  "pkt_wf (m_mqtt_pkt m) \<Longrightarrow> length (topics_enc ts) \<le> pkt_room (m_mqtt_pkt m) \<Longrightarrow>
     put_topics ts m = Some (m\<lparr>m_mqtt_pkt := pkt_emit (topics_enc ts) (m_mqtt_pkt m)\<rparr>)"
  by (induction ts arbitrary: m) (auto simp: pkt_simps)

lemma topics_len_enc: "topics_len ts = of_nat (length (topics_enc ts))"
proof -
  have "fold (\<lambda>t n. n + of_nat (length (m_topic_name t) + 2 + 1)) ts a = a + of_nat (length (topics_enc ts))"
    for a :: u32
    by (induction ts arbitrary: a) (simp_all add: algebra_simps)
  then show ?thesis by (simp add: topics_len_def)
qed

lemma CMqttSubscribe_encoded:
  assumes "unat len \<le> length buf" "unat len < 2147483648" "ts \<noteq> []"
    and "length (frame (fixed_header_encode hdr) (hi_byte i # lo_byte i # topics_enc ts)) \<le> unat len"
  shows "encoded (frame (fixed_header_encode hdr) (hi_byte i # lo_byte i # topics_enc ts))
    (CMqttSubscribe_encode (CMqttSubscribe_hdr buf len hdr i ts))"
proof -
  let ?n = "of_nat (length (topics_enc ts)) + 2 :: u32"
  have n: "length (topics_enc ts) < 4294967294" using assms(2,4) by (simp add: length_frame)
  then have u: "unat ?n = length (topics_enc ts) + 2"
    by (subst unat_add_u32) simp_all
  show ?thesis
    using assms pkt_wf_CMqttPkt [OF assms(1,2)]
    by (simp add: CMqttSubscribe_encode_def CMqttSubscribe_hdr_def CMqttSubscribe_def pkt_simps
        topics_len_enc u length_frame)
      (rule check_encoded_start, simp_all add: frame_def full_length_def ucast_rl_length)
qed

definition publish_body :: "cstring \<Rightarrow> u16 \<Rightarrow> bytes \<Rightarrow> bytes" where
  "publish_body topic i payload = string_enc topic @ hi_byte i # lo_byte i # payload"

lemma CMqttPublish_encoded:
  assumes "unat len \<le> length buf" "unat len < 2147483648"
    and "length (frame (fixed_header_encode hdr) (publish_body topic i payload)) \<le> unat len"
  shows "encoded (frame (fixed_header_encode hdr) (publish_body topic i payload))
    (CMqttPublish_encode ((CMqttPublish_hdr buf len hdr)
       \<lparr>m_str_topic_name := topic, m_pub_msg_id := i, m_payload := payload\<rparr>))"
proof -
  let ?n = "4 + of_nat (length topic) + of_nat (length payload) :: u32"
  have n: "length topic + 4 + length payload < 2147483648"
    using assms(2,3) by (simp add: length_frame publish_body_def)
  then have u: "unat ?n = Suc (Suc (Suc (Suc (length topic + length payload))))"
    by (simp add: unat_word_ariths)
  show ?thesis
    using assms pkt_wf_CMqttPkt [OF assms(1,2)]
    by (simp add: CMqttPublish_encode_def CMqttPublish_hdr_def CMqttPublish_def pkt_simps
        u length_frame publish_body_def)
      (rule check_encoded_start,
        simp_all add: frame_def full_length_def publish_body_def ucast_rl_length)
qed

definition connect_flag :: "bool \<Rightarrow> u8" where
  "connect_flag clean = (if clean then 2 else 0)"

lemma CMqttConnect_encoded:
  assumes "unat len \<le> length buf" "unat len < 2147483648"
    and "length (frame 0x10 (string_enc MQIsdp @ [3, connect_flag clean, 0, 60] @ string_enc cid)) \<le> unat len"
  shows "encoded (frame 0x10 (string_enc MQIsdp @ [3, connect_flag clean, 0, 60] @ string_enc cid))
    (CMqttConnect_encode ((CMqttConnect buf len)\<lparr>m_clean_session := clean, m_str_client_id := cid\<rparr>))"
proof -
  let ?n = "14 + of_nat (length cid) :: u32"
  let ?f = "frame 0x10 (string_enc MQIsdp @ [3, connect_flag clean, 0, 60] @ string_enc cid)"
  have mq: "length MQIsdp = 6" by (simp add: MQIsdp_def cstr_def)
  then have n: "length cid + 14 < 2147483648"
    using assms(2,3) by (simp add: length_frame)
  then have u: "unat ?n = 14 + length cid"
    by (simp add: unat_word_ariths)
  have bytes: "hi_byte 60 = 0" "lo_byte 60 = 60"
    by (simp_all add: hi_byte_def lo_byte_def)
  have len: "to_int (of_nat (length ?f)) = int (length ?f)"
    using assms(2,3) by (subst to_int_small) simp_all
  have "CMqttConnect_encode ((CMqttConnect buf len)\<lparr>m_clean_session := clean, m_str_client_id := cid\<rparr>) =
     Some (to_int (of_nat (length ?f)),
       (CMqttConnect buf len)\<lparr>m_clean_session := clean, m_str_client_id := cid,
          m_str_proto_name := MQIsdp, m_proto_version := 3, m_keep_alive := 60,
          m_remain_length_value := ?n, m_remain_length_bytes := of_nat (length (rl_enc (14 + length cid))),
          m_mqtt_pkt := pkt_emit ?f (CMqttPkt buf len)\<rparr>)"
    using assms pkt_wf_CMqttPkt [OF assms(1,2)]
    by (cases clean; simp add: CMqttConnect_encode_def CMqttConnect_def pkt_simps mq u length_frame bytes
        pkt_length_emit connect_flag_def frame_def)
  then show ?thesis
    unfolding len by (elim ssubst) (rule encoded_start [OF assms], simp)
qed

subsection \<open>Decoding: every decoder stays inside its packet\<close>

text \<open>A decoder is sound on a buffer when it returns 0 or -1, leaves the buffer as it was and its
  cursor inside the window.\<close>

definition sound_on :: "bytes \<Rightarrow> (int \<times> 'a cmqtt_msg_scheme) option \<Rightarrow> bool" where
  "sound_on buf res = (case res of
     None \<Rightarrow> False
   | Some (r, m) \<Rightarrow> (r = 0 \<or> r = -1) \<and> pkt_wf (m_mqtt_pkt m) \<and> m_buf (m_mqtt_pkt m) = buf)"

lemma sound_on_Some [simp]:
  "sound_on buf (Some (r, m)) \<longleftrightarrow> (r = 0 \<or> r = -1) \<and> pkt_wf (m_mqtt_pkt m) \<and> m_buf (m_mqtt_pkt m) = buf"
  by (simp add: sound_on_def)

lemma read_remain_length_sound:
  assumes "pkt_wf p" "m_offset p = 1" "5 \<le> length (m_buf p)"
  shows "\<exists>r v k q. read_remain_length v0 k0 p = Some (r, v, k, q) \<and> pkt_wf q \<and> m_buf q = m_buf p"
proof (cases "left_size p < 2")
  case True
  then show ?thesis using assms(1) by (simp add: read_remain_length_def)
next
  case False
  obtain r v k where rl: "remain_length (m_buf p) (m_max_size p) = Some (r, v, k)"
    using remain_length_safe [OF assms(3)] by fastforce
  have "pkt_wf (pkt_skip (ucast k) p)" if "0 \<le> r"
    using remain_length_fits [OF rl that] pkt_skip_wf [OF assms(1), of "unat k"] assms(2)
    by (auto simp: pkt_room_def of_nat_unat)
  then show ?thesis using False rl assms(1) by (auto simp: read_remain_length_def)
qed

lemma try_base_sound:
  assumes "pkt_wf (m_mqtt_pkt m)" "m_offset (m_mqtt_pkt m) = 0" "5 \<le> length (m_buf (m_mqtt_pkt m))"
    and "\<And>h v n p. pkt_wf p \<Longrightarrow> m_buf p = m_buf (m_mqtt_pkt m) \<Longrightarrow>
      sound_on (m_buf (m_mqtt_pkt m)) (k (m\<lparr>m_fixed_header := h, m_remain_length_value := v,
        m_remain_length_bytes := n, m_mqtt_pkt := p\<rparr>))"
  shows "sound_on (m_buf (m_mqtt_pkt m)) (try_base m k)"
proof (cases "pkt_rest (m_mqtt_pkt m)")
  case Nil
  then show ?thesis
    using assms(1) by (simp add: try_base_def CMqttMsg_decode_def read_byte_Nil ret_defs)
next
  case (Cons b bs)
  let ?p = "pkt_skip 1 (m_mqtt_pkt m)"
  have rd: "read_byte 0 (m_mqtt_pkt m) = Some (SUCCESS, b, ?p)"
    using assms(1) Cons by (rule read_byte_Cons)
  have "pkt_wf ?p"
    using pkt_skip_wf [OF assms(1), of 1] pkt_rest_ConsD(1) [OF assms(1) Cons] by simp
  then obtain r v n q where
    "read_remain_length (m_remain_length_value m) (m_remain_length_bytes m) ?p = Some (r, v, n, q)"
    "pkt_wf q" "m_buf q = m_buf (m_mqtt_pkt m)"
    using read_remain_length_sound [of ?p "m_remain_length_value m" "m_remain_length_bytes m"] assms(2,3)
    by auto
  then show ?thesis
    using assms(4) by (auto simp: try_base_def CMqttMsg_decode_def rd ret_defs)
qed

lemma try_byte_sound:
  assumes "pkt_wf (m_mqtt_pkt m)" "m_buf (m_mqtt_pkt m) = buf"
    and "\<And>v p. pkt_wf p \<Longrightarrow> m_buf p = buf \<Longrightarrow> sound_on buf (k v (m\<lparr>m_mqtt_pkt := p\<rparr>))"
  shows "sound_on buf (try_byte m k)"
  using byte_field.rd_safe [OF assms(1), of 0] assms(2,3) by (auto simp: try_byte_def)

lemma try_short_sound:
  assumes "pkt_wf (m_mqtt_pkt m)" "m_buf (m_mqtt_pkt m) = buf"
    and "\<And>v p. pkt_wf p \<Longrightarrow> m_buf p = buf \<Longrightarrow> sound_on buf (k v (m\<lparr>m_mqtt_pkt := p\<rparr>))"
  shows "sound_on buf (try_short m k)"
  using short_field.rd_safe [OF assms(1), of 0] assms(2,3) by (auto simp: try_short_def)

lemma try_string_sound:
  assumes "pkt_wf (m_mqtt_pkt m)" "m_buf (m_mqtt_pkt m) = buf"
    and "\<And>v p. pkt_wf p \<Longrightarrow> m_buf p = buf \<Longrightarrow> sound_on buf (k v (m\<lparr>m_mqtt_pkt := p\<rparr>))"
  shows "sound_on buf (try_string m k)"
  using string_field.rd_safe [OF assms(1), of "[]"] assms(2,3) by (auto simp: try_string_def)

lemmas try_sound = try_byte_sound try_short_sound try_string_sound

lemma connect_decode_flags_sound:
  "pkt_wf (m_mqtt_pkt m) \<Longrightarrow> m_buf (m_mqtt_pkt m) = buf \<Longrightarrow> sound_on buf (connect_decode_flags flag m)"
  by (simp add: connect_decode_flags_def)

lemma connect_decode_password_sound:
  "pkt_wf (m_mqtt_pkt m) \<Longrightarrow> m_buf (m_mqtt_pkt m) = buf \<Longrightarrow> sound_on buf (connect_decode_password flag m)"
  by (auto simp: connect_decode_password_def intro!: try_sound connect_decode_flags_sound)

lemma connect_decode_username_sound:
  "pkt_wf (m_mqtt_pkt m) \<Longrightarrow> m_buf (m_mqtt_pkt m) = buf \<Longrightarrow> sound_on buf (connect_decode_username flag m)"
  by (auto simp: connect_decode_username_def intro!: try_sound connect_decode_password_sound)

lemma connect_decode_will_sound:
  "pkt_wf (m_mqtt_pkt m) \<Longrightarrow> m_buf (m_mqtt_pkt m) = buf \<Longrightarrow> sound_on buf (connect_decode_will flag m)"
  by (auto simp: connect_decode_will_def Let_def intro!: try_sound connect_decode_username_sound)

text \<open>The loops over topics and granted QoS values.\<close>

lemma subscribe_decode_loop_sound:
  "pkt_wf p \<Longrightarrow> \<exists>ts q. subscribe_decode_loop p topics = Some (ts, q) \<and> pkt_wf q \<and> m_buf q = m_buf p"
proof (induction p topics rule: subscribe_decode_loop.induct)
  case (1 p topics)
  obtain r name p1 where s: "read_string [] p = Some (r, name, p1)" "pkt_wf p1" "m_buf p1 = m_buf p"
    using string_field.rd_safe [OF "1.prems", of "[]"] by blast
  obtain r2 q p2 where b: "read_byte 0 p1 = Some (r2, q, p2)" "pkt_wf p2" "m_buf p2 = m_buf p1"
    using byte_field.rd_safe [OF s(2), of 0] by blast
  show ?case
    using s b "1.IH" [OF s(1) refl refl _ b(1) refl refl]
    by (auto simp: subscribe_decode_loop.simps [of p])
qed

lemma unsubscribe_decode_loop_sound:
  "pkt_wf p \<Longrightarrow> \<exists>ts q. unsubscribe_decode_loop p topics = Some (ts, q) \<and> pkt_wf q \<and> m_buf q = m_buf p"
proof (induction p topics rule: unsubscribe_decode_loop.induct)
  case (1 p topics)
  obtain r name p1 where s: "read_string [] p = Some (r, name, p1)" "pkt_wf p1" "m_buf p1 = m_buf p"
    using string_field.rd_safe [OF "1.prems", of "[]"] by blast
  show ?case
    using s "1.IH" [OF s(1) refl refl] by (auto simp: unsubscribe_decode_loop.simps [of p])
qed

lemma suback_decode_loop_sound:
  "pkt_wf p \<Longrightarrow> \<exists>rs p'. suback_decode_loop n q p qs = Some (rs, p') \<and> pkt_wf p' \<and> m_buf p' = m_buf p"
proof (induction n arbitrary: q p qs)
  case (Suc n)
  obtain r v p1 where "read_byte q p = Some (r, v, p1)" "pkt_wf p1" "m_buf p1 = m_buf p"
    using byte_field.rd_safe [OF Suc.prems, of q] by blast
  then show ?case using Suc.IH [of p1 v "qs @ [v]"] by auto
qed simp

text \<open>All seven decoders, from the constructor's state.\<close>

lemma try_base_start:
  assumes "unat len \<le> length buf" "unat len < 2147483648" "5 \<le> length buf"
    and "m_mqtt_pkt m = CMqttPkt buf len"
    and "\<And>h v n p. pkt_wf p \<Longrightarrow> m_buf p = buf \<Longrightarrow>
      sound_on buf (k (m\<lparr>m_fixed_header := h, m_remain_length_value := v,
        m_remain_length_bytes := n, m_mqtt_pkt := p\<rparr>))"
  shows "sound_on buf (try_base m k)"
  using try_base_sound [of m k] assms pkt_wf_CMqttPkt [OF assms(1,2)] by (simp add: CMqttPkt_def)

lemma CMqttConnect_decode_sound:
  assumes "unat len \<le> length buf" "unat len < 2147483648" "5 \<le> length buf"
  shows "sound_on buf (CMqttConnect_decode (CMqttConnect buf len))"
  unfolding CMqttConnect_decode_def
  by (rule try_base_start [OF assms])
    (auto simp: CMqttConnect_def Let_def intro!: try_sound connect_decode_will_sound)

lemma CMqttConnAck_decode_sound:
  assumes "unat len \<le> length buf" "unat len < 2147483648" "5 \<le> length buf"
  shows "sound_on buf (CMqttConnAck_decode (CMqttConnAck buf len c))"
  unfolding CMqttConnAck_decode_def
  by (rule try_base_start [OF assms]) (auto simp: CMqttConnAck_def Let_def intro!: try_sound)

lemma CMqttSubscribe_decode_sound:
  assumes "unat len \<le> length buf" "unat len < 2147483648" "5 \<le> length buf"
  shows "sound_on buf (CMqttSubscribe_decode (CMqttSubscribe buf len))"
proof -
  have "sound_on buf (do { (topics, q) \<leftarrow> subscribe_decode_loop p ts; Some (0, f topics q) })"
    if "pkt_wf p" "m_buf p = buf" "\<And>topics q. m_mqtt_pkt (f topics q) = q" for p ts and f :: "_ \<Rightarrow> _ \<Rightarrow> cmqtt_subscribe"
    using subscribe_decode_loop_sound [of p ts] that by auto
  then show ?thesis
    unfolding CMqttSubscribe_decode_def
    by (intro try_base_start [OF assms]) (auto simp: CMqttSubscribe_def intro!: try_sound)
qed

lemma CMqttSubAck_decode_sound:
  assumes "unat len \<le> length buf" "unat len < 2147483648" "5 \<le> length buf"
  shows "sound_on buf (CMqttSubAck_decode (CMqttSubAck buf len i qs))"
proof -
  have "sound_on buf (do { (rs, q) \<leftarrow> suback_decode_loop n d p ts; Some (0, f rs q) })"
    if "pkt_wf p" "m_buf p = buf" "\<And>rs q. m_mqtt_pkt (f rs q) = q" for n d p ts and f :: "_ \<Rightarrow> _ \<Rightarrow> cmqtt_suback"
    using suback_decode_loop_sound [of p n d ts] that by auto
  then show ?thesis
    unfolding CMqttSubAck_decode_def
    by (intro try_base_start [OF assms]) (auto simp: CMqttSubAck_def Let_def)
qed

lemma CMqttUnsubscribe_decode_sound:
  assumes "unat len \<le> length buf" "unat len < 2147483648" "5 \<le> length buf"
  shows "sound_on buf (CMqttUnsubscribe_decode (CMqttUnsubscribe buf len))"
proof -
  have "sound_on buf (do { (topics, q) \<leftarrow> unsubscribe_decode_loop p ts; Some (0, f topics q) })"
    if "pkt_wf p" "m_buf p = buf" "\<And>topics q. m_mqtt_pkt (f topics q) = q" for p ts and f :: "_ \<Rightarrow> _ \<Rightarrow> cmqtt_unsubscribe"
    using unsubscribe_decode_loop_sound [of p ts] that by auto
  then show ?thesis
    unfolding CMqttUnsubscribe_decode_def
    by (intro try_base_start [OF assms]) (auto simp: CMqttUnsubscribe_def intro!: try_sound)
qed

lemma CMqttPublish_decode_sound:
  assumes "unat len \<le> length buf" "unat len < 2147483648" "5 \<le> length buf"
  shows "sound_on buf (CMqttPublish_decode (CMqttPublish buf len))"
proof -
  have "sound_on buf (do { (r, payload, q) \<leftarrow> read_bytes d (left_size p) p;
      Some (if r < 0 then -1 else 0, f payload q) })"
    if "pkt_wf p" "m_buf p = buf" "\<And>payload q. m_mqtt_pkt (f payload q) = q" for d p and f :: "_ \<Rightarrow> _ \<Rightarrow> cmqtt_publish"
    using that pkt_skip_wf [OF that(1) order_refl] by (simp add: read_bytes_all ret_defs)
  then show ?thesis
    unfolding CMqttPublish_decode_def
    by (intro try_base_start [OF assms]) (auto simp: CMqttPublish_def Let_def intro!: try_sound)
qed

lemma CMqttPublishAck_decode_sound:
  assumes "unat len \<le> length buf" "unat len < 2147483648" "5 \<le> length buf"
  shows "sound_on buf (CMqttPublishAck_decode (CMqttPublishAck buf len i))"
  unfolding CMqttPublishAck_decode_def
  by (rule try_base_start [OF assms]) (auto simp: CMqttPublishAck_def intro!: try_sound)

subsection \<open>Decoding: the values read\<close>

text \<open>The packet \<open>frame h body\<close> at the start of a buffer, with nothing said of what follows it.\<close>

lemma pkt_skip_rest_add:
  assumes "pkt_wf p" "pkt_rest p = xs @ ys"
  shows "pkt_wf (pkt_skip (of_nat (length xs)) p)" "pkt_rest (pkt_skip (of_nat (length xs)) p) = ys"
proof -
  have "length xs \<le> pkt_room p" using length_pkt_rest [OF assms(1)] assms(2) by simp
  then show "pkt_wf (pkt_skip (of_nat (length xs)) p)" "pkt_rest (pkt_skip (of_nat (length xs)) p) = ys"
    using assms by (simp_all add: pkt_simps)
qed

text \<open>A decoder has read an object with property \<open>P\<close>.\<close>

definition decoded :: "('a cmqtt_msg_scheme \<Rightarrow> bool) \<Rightarrow> (int \<times> 'a cmqtt_msg_scheme) option \<Rightarrow> bool" where
  "decoded P res = (case res of None \<Rightarrow> False | Some (r, m) \<Rightarrow> r = 0 \<and> P m)"

lemma decoded_Some [simp]: "decoded P (Some (r, m)) \<longleftrightarrow> r = 0 \<and> P m"
  by (simp add: decoded_def)

lemma try_base_frame:
  assumes start: "m_mqtt_pkt m = CMqttPkt (frame h body @ r) len" "unat len = length (frame h body)"
    and len: "0 < length body" "length body < 16384"
    and k: "\<And>v n p. pkt_wf p \<Longrightarrow> pkt_rest p = body \<Longrightarrow>
      decoded P (k (m\<lparr>m_fixed_header := fixed_header_decode h, m_remain_length_value := v,
        m_remain_length_bytes := n, m_mqtt_pkt := p\<rparr>))"
  shows "decoded P (try_base m k)"
proof -
  let ?p = "CMqttPkt (frame h body @ r) len" and ?rl = "rl_enc (length body)"
  have rl: "length ?rl \<le> 2" using rl_enc_length [of "length body" 1] len(2) by simp
  have wf: "pkt_wf ?p" "pkt_rest ?p = [h] @ ?rl @ body"
    using start(2) rl len(2) by (simp_all add: pkt_simps length_frame) (simp add: frame_def)
  have p1: "pkt_wf (pkt_skip 1 ?p)" "pkt_rest (pkt_skip 1 ?p) = ?rl @ body"
    using pkt_skip_rest_add [OF wf] by simp_all
  have "left_size (pkt_skip 1 ?p) = int (length ?rl + length body)"
    using length_pkt_rest [OF p1(1)] p1 by (simp add: left_size_wf)
  then have "\<not> left_size (pkt_skip 1 ?p) < 2"
    using len(1) rl_enc_length_pos [of "length body"] by linarith
  moreover have "remain_length (frame h body @ r) len = Some (int (length body), of_nat (length body), of_nat (length ?rl))"
    using remain_length_small [OF len(2), of len h "body @ r"] start(2) by (simp add: frame_def)
  moreover have "ucast (of_nat (length ?rl) :: u8) = (of_nat (length ?rl) :: u32)"
    using len(2) by (intro ucast_rl_length) simp
  ultimately have "CMqttMsg_decode m = Some (0, m\<lparr>m_fixed_header := fixed_header_decode h,
      m_remain_length_value := of_nat (length body), m_remain_length_bytes := of_nat (length ?rl),
      m_mqtt_pkt := pkt_skip (of_nat (length ?rl)) (pkt_skip 1 ?p)\<rparr>)"
    using wf start(1)
    by (simp add: CMqttMsg_decode_def read_byte_Cons read_remain_length_def ret_defs)
      (simp add: CMqttPkt_def ret_defs)
  then show ?thesis
    using k [OF pkt_skip_rest_add [OF p1]] by (simp add: try_base_def)
qed

lemma try_byte_Cons:
  assumes "pkt_wf (m_mqtt_pkt m)" "pkt_rest (m_mqtt_pkt m) = b # bs"
    and "\<And>p. pkt_wf p \<Longrightarrow> pkt_rest p = bs \<Longrightarrow> decoded P (k b (m\<lparr>m_mqtt_pkt := p\<rparr>))"
  shows "decoded P (try_byte m k)"
  using assms(3) [OF pkt_skip_rest_add [of _ "[b]"]] assms(1,2)
  by (simp add: try_byte_def read_byte_Cons ret_defs)

lemma try_short_Cons:
  assumes "pkt_wf (m_mqtt_pkt m)" "pkt_rest (m_mqtt_pkt m) = hi_byte v # lo_byte v # bs"
    and "\<And>p. pkt_wf p \<Longrightarrow> pkt_rest p = bs \<Longrightarrow> decoded P (k v (m\<lparr>m_mqtt_pkt := p\<rparr>))"
  shows "decoded P (try_short m k)"
  using assms(3) [OF pkt_skip_rest_add [of _ "[hi_byte v, lo_byte v]"]] assms(1,2)
  by (simp add: try_short_def read_short_Cons ret_defs)

lemma try_string_enc:
  assumes "pkt_wf (m_mqtt_pkt m)" "pkt_rest (m_mqtt_pkt m) = string_enc s @ bs" "length s < 65536"
    and "\<And>p. pkt_wf p \<Longrightarrow> pkt_rest p = bs \<Longrightarrow> decoded P (k s (m\<lparr>m_mqtt_pkt := p\<rparr>))"
  shows "decoded P (try_string m k)"
  using assms(4) [OF pkt_skip_rest_add [of _ "string_enc s"]] assms(1-3)
  by (simp add: try_string_def string_field.rd_enc [OF assms(1,3,2)] ret_defs)

lemma CMqttPublish_decoded:
  assumes "unat len = length (frame h (publish_body topic i payload))"
    and "length (publish_body topic i payload) < 16384"
  shows "decoded (\<lambda>m. m_fixed_header m = fixed_header_decode h \<and> m_str_topic_name m = topic \<and>
      m_pub_msg_id m = i \<and> m_payload m = payload)
    (CMqttPublish_decode (CMqttPublish (frame h (publish_body topic i payload) @ r) len))"
proof -
  have t: "length topic < 65536" using assms(2) by (simp add: publish_body_def)
  show ?thesis
    unfolding CMqttPublish_decode_def Let_def
    by (rule try_base_frame [OF _ assms(1) _ assms(2), where r = r])
      (auto simp: CMqttPublish_def publish_body_def read_bytes_all ret_defs
        intro!: try_string_enc [OF _ _ t] try_short_Cons)
qed

lemma CMqttPublishAck_decoded:
  assumes "unat len = 4" "m_msg_type (fixed_header_decode h) = PUBACK"
  shows "decoded (\<lambda>m. m_puback_msg_id m = i)
    (CMqttPublishAck_decode (CMqttPublishAck (frame h [hi_byte i, lo_byte i] @ r) len j))"
  unfolding CMqttPublishAck_decode_def
  by (rule try_base_frame [where r = r and h = h and body = "[hi_byte i, lo_byte i]" and len = len])
    (use assms in \<open>auto simp: CMqttPublishAck_def length_frame rl_enc_one intro!: try_short_Cons\<close>)

text \<open>The topic lists of SUBSCRIBE and UNSUBSCRIBE are read to the end of the packet.\<close>

lemma subscribe_decode_loop_enc:
  "pkt_wf p \<Longrightarrow> pkt_rest p = topics_enc ts \<Longrightarrow> \<forall>t\<in>set ts. length (m_topic_name t) < 65536 \<Longrightarrow>
     \<exists>q. subscribe_decode_loop p acc = Some (acc @ ts, q)"
proof (induction ts arbitrary: p acc)
  case Nil
  then show ?case by (simp add: subscribe_decode_loop.simps read_string_fail)
next
  case (Cons t ts)
  let ?n = "m_topic_name t" and ?q = "m_topic_qos t"
  let ?p1 = "pkt_skip (of_nat (length (string_enc ?n))) p"
  have p1: "pkt_wf ?p1" "pkt_rest ?p1 = [?q] @ topics_enc ts"
    using pkt_skip_rest_add [OF Cons.prems(1), of "string_enc ?n"] Cons.prems(2) by simp_all
  have "read_string [] p = Some (SUCCESS, ?n, ?p1)"
    using Cons.prems by (intro string_field.rd_enc) auto
  moreover have "read_byte 0 ?p1 = Some (SUCCESS, ?q, pkt_skip 1 ?p1)"
    using p1 by (intro read_byte_Cons) simp_all
  ultimately have "subscribe_decode_loop p acc = subscribe_decode_loop (pkt_skip 1 ?p1) (acc @ [CTopic ?n ?q])"
    by (simp add: subscribe_decode_loop.simps [of p] ret_defs)
  moreover have "\<exists>q. subscribe_decode_loop (pkt_skip 1 ?p1) (acc @ [CTopic ?n ?q]) = Some ((acc @ [CTopic ?n ?q]) @ ts, q)"
    using pkt_skip_rest_add [OF p1] Cons.prems(3) by (intro Cons.IH) simp_all
  moreover have "CTopic ?n ?q = t" by (simp add: CTopic_def)
  ultimately show ?case by simp
qed

lemma CMqttSubscribe_decoded:
  assumes "unat len = length (frame h (hi_byte i # lo_byte i # topics_enc ts))"
    and "length (topics_enc ts) < 16382" "m_msg_type (fixed_header_decode h) = SUBSCRIBE"
  shows "decoded (\<lambda>m. m_sub_msg_id m = i \<and> m_sub_topics m = ts)
    (CMqttSubscribe_decode (CMqttSubscribe (frame h (hi_byte i # lo_byte i # topics_enc ts) @ r) len))"
proof -
  have "length (m_topic_name t) \<le> length (topics_enc ts)" if "t \<in> set ts" for t
    using that by (induction ts) auto
  then have "\<forall>t\<in>set ts. length (m_topic_name t) < 65536" using assms(2) by fastforce
  then have *: "decoded P (do { (topics, q) \<leftarrow> subscribe_decode_loop p []; Some (0, f topics q) })"
    if "pkt_wf p" "pkt_rest p = topics_enc ts" "\<And>q. P (f ts q)" for p P and f :: "_ \<Rightarrow> _ \<Rightarrow> cmqtt_subscribe"
    using subscribe_decode_loop_enc [OF that(1,2), of "[]"] that(3) by auto
  show ?thesis
    unfolding CMqttSubscribe_decode_def
    by (rule try_base_frame [OF _ assms(1), where r = r])
      (use assms(2,3) in \<open>auto simp: CMqttSubscribe_def intro!: try_short_Cons *\<close>)
qed

lemma unsubscribe_decode_loop_enc:
  "pkt_wf p \<Longrightarrow> pkt_rest p = concat (map string_enc ts) \<Longrightarrow> \<forall>t\<in>set ts. length t < 65536 \<Longrightarrow>
     \<exists>q. unsubscribe_decode_loop p acc = Some (acc @ ts, q)"
proof (induction ts arbitrary: p acc)
  case Nil
  then show ?case by (simp add: unsubscribe_decode_loop.simps read_string_fail)
next
  case (Cons t ts)
  let ?p1 = "pkt_skip (of_nat (length (string_enc t))) p"
  have "read_string [] p = Some (SUCCESS, t, ?p1)"
    using Cons.prems by (intro string_field.rd_enc) auto
  then have "unsubscribe_decode_loop p acc = unsubscribe_decode_loop ?p1 (acc @ [t])"
    by (simp add: unsubscribe_decode_loop.simps [of p] ret_defs)
  moreover have "\<exists>q. unsubscribe_decode_loop ?p1 (acc @ [t]) = Some ((acc @ [t]) @ ts, q)"
    using pkt_skip_rest_add [OF Cons.prems(1), of "string_enc t"] Cons.prems(2,3) by (intro Cons.IH) simp_all
  ultimately show ?case by simp
qed

lemma CMqttUnsubscribe_decoded:
  assumes "unat len = length (frame h (hi_byte i # lo_byte i # concat (map string_enc ts)))"
    and "length (concat (map string_enc ts)) < 16382" "m_msg_type (fixed_header_decode h) = UNSUBSCRIBE"
  shows "decoded (\<lambda>m. m_unsub_msg_id m = i \<and> m_str_topics m = ts)
    (CMqttUnsubscribe_decode (CMqttUnsubscribe (frame h (hi_byte i # lo_byte i # concat (map string_enc ts)) @ r) len))"
proof -
  have "length t \<le> length (concat (map string_enc ts))" if "t \<in> set ts" for t
    using that by (induction ts) auto
  then have "\<forall>t\<in>set ts. length t < 65536" using assms(2) by fastforce
  then have *: "decoded P (do { (topics, q) \<leftarrow> unsubscribe_decode_loop p []; Some (0, f topics q) })"
    if "pkt_wf p" "pkt_rest p = concat (map string_enc ts)" "\<And>q. P (f ts q)"
    for p P and f :: "_ \<Rightarrow> _ \<Rightarrow> cmqtt_unsubscribe"
    using unsubscribe_decode_loop_enc [OF that(1,2), of "[]"] that(3) by auto
  show ?thesis
    unfolding CMqttUnsubscribe_decode_def
    by (rule try_base_frame [OF _ assms(1), where r = r])
      (use assms(2,3) in \<open>auto simp: CMqttUnsubscribe_def intro!: try_short_Cons *\<close>)
qed

text \<open>The body of a CONNECT packet: the flags say which of the optional strings follow.\<close>

definition connect_opt :: "bool \<Rightarrow> cstring \<Rightarrow> bytes" where
  "connect_opt b s = (if b then string_enc s else [])"

definition connect_body :: "cmqtt_connect \<Rightarrow> u8 \<Rightarrow> bytes" where
  "connect_body c flag =
     string_enc (m_str_proto_name c) @
     [m_proto_version c, flag, hi_byte (m_keep_alive c), lo_byte (m_keep_alive c)] @
     string_enc (m_str_client_id c) @
     connect_opt (con_will flag) (m_str_will_topic c) @ connect_opt (con_will flag) (m_str_will_message c) @
     connect_opt (con_username flag) (m_str_user_name c) @ connect_opt (con_password flag) (m_str_password c)"

text \<open>The fields of a CONNECT object after decoding such a body.\<close>

definition connect_fields :: "cmqtt_connect \<Rightarrow> u8 \<Rightarrow> cmqtt_connect \<Rightarrow> bool" where
  "connect_fields c flag m \<longleftrightarrow>
     m_str_proto_name m = m_str_proto_name c \<and> m_proto_version m = m_proto_version c \<and>
     m_keep_alive m = m_keep_alive c \<and> m_str_client_id m = m_str_client_id c \<and>
     m_str_will_topic m = (if con_will flag then m_str_will_topic c else []) \<and>
     m_str_will_message m = (if con_will flag then m_str_will_message c else []) \<and>
     m_str_user_name m = (if con_username flag then m_str_user_name c else []) \<and>
     m_str_password m = (if con_password flag then m_str_password c else []) \<and>
     m_has_will m = con_will flag \<and> m_has_user_name m = con_username flag \<and>
     m_has_password m = con_password flag \<and> m_has_will_retain m = con_will_retail flag \<and>
     m_will_qos m = con_will_qos flag \<and> m_clean_session m = con_clean_session flag"

lemma connect_decode_password_decoded:
  assumes "pkt_wf (m_mqtt_pkt m)" "pkt_rest (m_mqtt_pkt m) = connect_opt (con_password flag) pw" "length pw < 65536"
    and "\<And>p. decoded P (connect_decode_flags flag (m\<lparr>m_mqtt_pkt := p,
           m_str_password := (if con_password flag then pw else m_str_password m)\<rparr>))"
  shows "decoded P (connect_decode_password flag m)"
  using assms(1-3) assms(4) [of "m_mqtt_pkt m"] assms(4)
  by (auto simp: connect_decode_password_def connect_opt_def intro!: try_string_enc [of _ pw "[]"] split: if_splits)

lemma connect_decode_username_decoded:
  assumes "pkt_wf (m_mqtt_pkt m)" "pkt_rest (m_mqtt_pkt m) = connect_opt (con_username flag) un @ bs" "length un < 65536"
    and "\<And>p. pkt_wf p \<Longrightarrow> pkt_rest p = bs \<Longrightarrow> decoded P (connect_decode_password flag (m\<lparr>m_mqtt_pkt := p,
           m_str_user_name := (if con_username flag then un else m_str_user_name m)\<rparr>))"
  shows "decoded P (connect_decode_username flag m)"
  using assms(1-3) assms(4) [of "m_mqtt_pkt m"] assms(4)
  by (auto simp: connect_decode_username_def connect_opt_def intro!: try_string_enc [of _ un bs] split: if_splits)

lemma connect_decode_will_decoded:
  assumes "pkt_wf (m_mqtt_pkt m)"
    and "pkt_rest (m_mqtt_pkt m) = connect_opt (con_will flag) wt @ connect_opt (con_will flag) wm @ bs"
    and "length wt < 65536" "length wm < 65536"
    and "\<And>p. pkt_wf p \<Longrightarrow> pkt_rest p = bs \<Longrightarrow> decoded P (connect_decode_username flag (m\<lparr>m_mqtt_pkt := p,
           m_str_will_topic := (if con_will flag then wt else m_str_will_topic m),
           m_str_will_message := (if con_will flag then wm else m_str_will_message m)\<rparr>))"
  shows "decoded P (connect_decode_will flag m)"
proof (cases "con_will flag")
  case True
  show ?thesis
    unfolding connect_decode_will_def Let_def if_P [OF True]
    by (rule try_string_enc [of _ wt "string_enc wm @ bs"], use assms True in \<open>simp_all add: connect_opt_def\<close>)
      (rule try_string_enc [of _ wm bs], use assms True in \<open>(cases m, simp add: connect_opt_def)+\<close>)
next
  case False
  then show ?thesis
    using assms(1,2) assms(5) [of "m_mqtt_pkt m"] by (simp add: connect_decode_will_def connect_opt_def)
qed

lemma CMqttConnect_decoded:
  assumes "unat len = length (frame h (connect_body c flag))"
    and "length (connect_body c flag) < 16384" "m_msg_type (fixed_header_decode h) = CONNECT"
    and "\<forall>s\<in>{m_str_will_topic c, m_str_will_message c, m_str_user_name c, m_str_password c}. length s < 65536"
  shows "decoded (connect_fields c flag)
    (CMqttConnect_decode (CMqttConnect (frame h (connect_body c flag) @ r) len))"
proof -
  have l: "length (m_str_proto_name c) < 65536" "length (m_str_client_id c) < 65536"
    using assms(2) by (simp_all add: connect_body_def)
  show ?thesis
    unfolding CMqttConnect_decode_def Let_def
    by (rule try_base_frame [OF _ assms(1) _ assms(2), where r = r],
        simp add: CMqttConnect_def, simp add: connect_body_def, subst if_not_P, simp add: assms(3),
        rule try_string_enc [OF _ _ l(1)], simp, simp add: connect_body_def,
        rule try_byte_Cons, simp, simp, rule try_byte_Cons, simp, simp, rule try_short_Cons, simp, simp,
        rule try_string_enc [OF _ _ l(2)], simp, simp,
        rule connect_decode_will_decoded, simp, simp, (use assms(4) in simp), (use assms(4) in simp),
        rule connect_decode_username_decoded, simp, simp, (use assms(4) in simp),
        rule connect_decode_password_decoded, simp, simp, (use assms(4) in simp))
      (simp add: CMqttConnect_def connect_fields_def connect_decode_flags_def)
qed

lemma suback_decode_loop_enc:
  "pkt_wf p \<Longrightarrow> pkt_rest p = qs \<Longrightarrow> \<exists>q. suback_decode_loop (length qs) d p acc = Some (acc @ qs, q)"
proof (induction qs arbitrary: p d acc)
  case (Cons b qs)
  have "read_byte d p = Some (SUCCESS, b, pkt_skip 1 p)"
    using Cons.prems by (rule read_byte_Cons)
  then show ?case
    using Cons.IH [of "pkt_skip 1 p" b "acc @ [b]"] pkt_skip_rest_add [OF Cons.prems(1), of "[b]" qs] Cons.prems(2)
    by simp
qed simp

lemma CMqttSubAck_decoded:
  assumes "unat len = length (frame h (hi_byte i # lo_byte i # qs))"
    and "length qs < 254" "m_msg_type (fixed_header_decode h) = SUBACK"
  shows "decoded (\<lambda>m. m_suback_msg_id m = j \<and> m_sub_qos m = hi_byte i # lo_byte i # qs)
    (CMqttSubAck_decode (CMqttSubAck (frame h (hi_byte i # lo_byte i # qs) @ r) len j []))"
proof -
  let ?b = "hi_byte i # lo_byte i # qs"
  have *: "decoded P (do { (rs, q) \<leftarrow> suback_decode_loop (unat (of_int (left_size p) :: u8)) d p []; Some (0, f rs q) })"
    if "pkt_wf p" "pkt_rest p = ?b" "\<And>q. P (f ?b q)" for d p P and f :: "_ \<Rightarrow> _ \<Rightarrow> cmqtt_suback"
  proof -
    have "pkt_room p = length ?b" using length_pkt_rest [OF that(1)] that(2) by simp
    then have "unat (of_int (left_size p) :: u8) = length ?b"
      using left_size_wf [OF that(1)] assms(2) unat_of_nat_u8 [of "length ?b"] by simp
    then show ?thesis
      using suback_decode_loop_enc [OF that(1,2), of d "[]"] that(3)
      by (auto simp del: suback_decode_loop.simps list.size)
  qed
  show ?thesis
    unfolding CMqttSubAck_decode_def Let_def
    by (rule try_base_frame [OF _ assms(1), where r = r])
      (use assms(2,3) in \<open>auto simp: CMqttSubAck_def intro!: *\<close>)
qed

text \<open>What an encoder has written stands at the start of its buffer.\<close>

lemma encodedD:
  assumes "encoded bs res"
  shows "\<exists>m r. res = Some (int (length bs), m) \<and> m_buf (m_mqtt_pkt m) = bs @ r \<and>
    unat (of_nat (length bs) :: u32) = length bs"
proof -
  obtain m where m: "res = Some (int (length bs), m)" "pkt_wf (m_mqtt_pkt m)" "pkt_written (m_mqtt_pkt m) = bs"
    using assms by (auto simp: encoded_def split: option.splits)
  let ?p = "m_mqtt_pkt m"
  have l: "length bs = unat (m_offset ?p)"
    using m(2,3) by (auto simp: pkt_written_def pkt_wf_def)
  have "m_buf ?p = bs @ drop (unat (m_offset ?p)) (m_buf ?p)"
    using m(3) append_take_drop_id [of "unat (m_offset ?p)" "m_buf ?p"] by (simp add: pkt_written_def)
  then show ?thesis using m(1) l by (metis of_nat_unat ucast_id)
qed

lemma decodedD: "decoded P res \<Longrightarrow> \<exists>m. res = Some (0, m) \<and> P m"
  by (auto simp: decoded_def split: option.splits)

lemma fixed_header_qos_id:
  assumes "unat (m_qos h) < 4"
  shows "fixed_header_decode (fixed_header_encode h) = h"
proof -
  have "m_qos h AND 3 = m_qos h"
    using assms unfolding three_mask take_bit_eq_mask [symmetric]
    by (simp add: word_eq_iff_unsigned [where ?'a = nat] unsigned_take_bit_eq take_bit_nat_eq_self_iff)
  then show ?thesis by simp
qed

lemma con_flag_bits:
  "\<not> con_will (connect_flag b)" "\<not> con_username (connect_flag b)" "\<not> con_password (connect_flag b)"
  "con_clean_session (connect_flag b) = b"
  by (simp_all add: connect_flag_def con_will_def con_username_def con_password_def con_clean_session_def bit_simps)

subsection \<open>Properties\<close>

text \<open>
  The fixed header codec: decoding an encoded header gives it back when its QoS fits the two
  bits of the field, and encoding a decoded byte gives back the byte, all 256 of them.
\<close>

theorem fixed_header_roundtrip:
  "(unat (m_qos h) < 4 \<longrightarrow> fixed_header_decode (fixed_header_encode h) = h) \<and>
   fixed_header_encode (fixed_header_decode b) = b"
  using fixed_header_qos_id [of h] by simp

theorem fixed_header_roundtrip_witness:
  "fixed_header_decode (fixed_header_encode \<lparr>m_msg_type = PUBLISH, m_dup_flag = True, m_qos = 2, m_retain_flag = True\<rparr>)
     = \<lparr>m_msg_type = PUBLISH, m_dup_flag = True, m_qos = 2, m_retain_flag = True\<rparr>"
  using fixed_header_roundtrip [of "\<lparr>m_msg_type = PUBLISH, m_dup_flag = True, m_qos = 2, m_retain_flag = True\<rparr>" 0]
  by simp

text \<open>
  C24. The CONNECT decoder reads a packet of the protocol's shape whose body is shorter than 16384 bytes: protocol name,
  version, flag byte, keep alive, client id and, where their flag bits are set, will topic and message,
  user name and password, each field getting its value and absent ones staying empty. (The strings have
  less than 65536 bytes; a longer body has a length of three bytes, which the code decodes wrongly.)
\<close>

theorem connect_decode_correct:
  assumes "unat len = length (frame h (connect_body c flag))" "length (connect_body c flag) < 16384"
    and "m_msg_type (fixed_header_decode h) = CONNECT"
    and "\<forall>s\<in>{m_str_will_topic c, m_str_will_message c, m_str_user_name c, m_str_password c}. length s < 65536"
  shows "\<exists>m. CMqttConnect_decode (CMqttConnect (frame h (connect_body c flag) @ r) len) = Some (0, m) \<and>
    connect_fields c flag m"
  using decodedD [OF CMqttConnect_decoded [OF assms, of r]] .

theorem connect_decode_correct_witness:
  "\<exists>m. CMqttConnect_decode (CMqttConnect (frame 0x10 (connect_body
        ((CMqttConnect [] 0)\<lparr>m_str_proto_name := [77], m_str_client_id := [65], m_str_user_name := [66]\<rparr>) 0x80) @ []) 15)
      = Some (0, m) \<and>
    connect_fields ((CMqttConnect [] 0)\<lparr>m_str_proto_name := [77], m_str_client_id := [65], m_str_user_name := [66]\<rparr>) 0x80 m"
  by (rule connect_decode_correct)
    (simp_all add: CMqttConnect_def connect_body_def connect_opt_def con_will_def con_username_def con_password_def
      length_frame rl_enc_one fixed_header_decode_def fix_msg_type_def to_MqttType_def mqtt_types_def bit_simps)

text \<open>
  C25. A PUBLISH packet with a body shorter than 16384 bytes and a quality below 4, encoded into a buffer where it
  fits, returns its length, and the decoder run on those bytes gets back header, topic, message id and payload. (A longer
  body has a length of three bytes, which the code decodes wrongly; the quality has two bits in the header.)
\<close>

theorem publish_roundtrip:
  assumes "unat len \<le> length buf" "unat len < 2147483648" "unat (m_qos hdr) < 4"
    and "length (frame (fixed_header_encode hdr) (publish_body topic i payload)) \<le> unat len"
    and "length (publish_body topic i payload) < 16384"
  shows "\<exists>n m d. CMqttPublish_encode ((CMqttPublish_hdr buf len hdr)
        \<lparr>m_str_topic_name := topic, m_pub_msg_id := i, m_payload := payload\<rparr>) = Some (int n, m) \<and>
      CMqttPublish_decode (CMqttPublish (m_buf (m_mqtt_pkt m)) (of_nat n)) = Some (0, d) \<and>
      m_fixed_header d = hdr \<and> m_str_topic_name d = topic \<and> m_pub_msg_id d = i \<and> m_payload d = payload"
proof -
  let ?bs = "frame (fixed_header_encode hdr) (publish_body topic i payload)"
  obtain m r where "CMqttPublish_encode ((CMqttPublish_hdr buf len hdr)
        \<lparr>m_str_topic_name := topic, m_pub_msg_id := i, m_payload := payload\<rparr>) = Some (int (length ?bs), m)"
      "m_buf (m_mqtt_pkt m) = ?bs @ r" "unat (of_nat (length ?bs) :: u32) = length ?bs"
    using encodedD [OF CMqttPublish_encoded [OF assms(1,2,4)]] by blast
  with decodedD [OF CMqttPublish_decoded [OF this(3) assms(5), of r]] fixed_header_qos_id [OF assms(3)]
  show ?thesis by metis
qed

theorem publish_roundtrip_witness:
  "\<exists>n m d. CMqttPublish_encode ((CMqttPublish_hdr (replicate 20 0) 20 (CMqttFixedHeader PUBLISH))
        \<lparr>m_str_topic_name := [97, 98], m_pub_msg_id := 7, m_payload := [1, 2, 3]\<rparr>) = Some (int n, m) \<and>
      CMqttPublish_decode (CMqttPublish (m_buf (m_mqtt_pkt m)) (of_nat n)) = Some (0, d) \<and>
      m_fixed_header d = CMqttFixedHeader PUBLISH \<and> m_str_topic_name d = [97, 98] \<and> m_pub_msg_id d = 7 \<and>
      m_payload d = [1, 2, 3]"
  by (rule publish_roundtrip)
    (simp_all add: CMqttFixedHeader_def length_frame publish_body_def rl_enc_one)

text \<open>
  The CONNECT packet the client side encodes (protocol name \<^verbatim>\<open>MQIsdp\<close>, version 3, keep alive
  60) is decoded by the server to that name and version, the client id and the clean session flag,
  with no will, user name or password.
\<close>

theorem connect_roundtrip:
  assumes "unat len \<le> length buf" "unat len < 2147483648" "length cid < 16370"
    and "length (frame 0x10 (string_enc MQIsdp @ [3, connect_flag clean, 0, 60] @ string_enc cid)) \<le> unat len"
  shows "\<exists>n m d. CMqttConnect_encode ((CMqttConnect buf len)\<lparr>m_clean_session := clean, m_str_client_id := cid\<rparr>)
        = Some (int n, m) \<and>
      CMqttConnect_decode (CMqttConnect (m_buf (m_mqtt_pkt m)) (of_nat n)) = Some (0, d) \<and>
      m_str_proto_name d = MQIsdp \<and> m_proto_version d = 3 \<and> m_keep_alive d = 60 \<and> m_str_client_id d = cid \<and>
      m_clean_session d = clean \<and> \<not> m_has_will d \<and> \<not> m_has_user_name d \<and> \<not> m_has_password d"
proof -
  let ?body = "string_enc MQIsdp @ [3, connect_flag clean, 0, 60] @ string_enc cid"
  let ?c = "(CMqttConnect [] 0)\<lparr>m_str_proto_name := MQIsdp, m_proto_version := 3, m_keep_alive := 60, m_str_client_id := cid\<rparr>"
  have body: "?body = connect_body ?c (connect_flag clean)"
    by (simp add: connect_body_def connect_opt_def con_flag_bits CMqttConnect_def hi_byte_def lo_byte_def)
  have len: "length ?body < 16384" using assms(3) by (simp add: MQIsdp_def cstr_def)
  obtain m r where m: "CMqttConnect_encode ((CMqttConnect buf len)\<lparr>m_clean_session := clean, m_str_client_id := cid\<rparr>)
        = Some (int (length (frame 0x10 ?body)), m)"
      "m_buf (m_mqtt_pkt m) = frame 0x10 ?body @ r" "unat (of_nat (length (frame 0x10 ?body)) :: u32) = length (frame 0x10 ?body)"
    using encodedD [OF CMqttConnect_encoded [OF assms(1,2,4)]] by blast
  have t: "m_msg_type (fixed_header_decode 0x10) = CONNECT"
    by (simp add: fixed_header_decode_def fix_msg_type_def to_MqttType_def mqtt_types_def)
  obtain d where d: "CMqttConnect_decode (CMqttConnect (frame 0x10 ?body @ r) (of_nat (length (frame 0x10 ?body)))) = Some (0, d)"
      "connect_fields ?c (connect_flag clean) d"
    using decodedD [OF CMqttConnect_decoded [OF m(3) [unfolded body] len [unfolded body] t]]
    unfolding body by (auto simp: CMqttConnect_def)
  show ?thesis
    using m(1) d(1) unfolding m(2) [symmetric]
    by (rule_tac exI, rule_tac exI, rule_tac exI, intro conjI)
      (assumption, assumption, use d(2) in \<open>simp_all add: connect_fields_def con_flag_bits CMqttConnect_def\<close>)
qed

theorem connect_roundtrip_witness:
  "\<exists>n m d. CMqttConnect_encode ((CMqttConnect (replicate 40 0) 40)\<lparr>m_clean_session := True, m_str_client_id := [65, 66]\<rparr>)
        = Some (int n, m) \<and>
      CMqttConnect_decode (CMqttConnect (m_buf (m_mqtt_pkt m)) (of_nat n)) = Some (0, d) \<and>
      m_str_proto_name d = MQIsdp \<and> m_proto_version d = 3 \<and> m_keep_alive d = 60 \<and> m_str_client_id d = [65, 66] \<and>
      m_clean_session d = True \<and> \<not> m_has_will d \<and> \<not> m_has_user_name d \<and> \<not> m_has_password d"
  by (rule connect_roundtrip) (simp_all add: length_frame rl_enc_one MQIsdp_def cstr_def)

text \<open>
  A SUBSCRIBE packet with at least one topic is decoded to the message id and the topics with
  their QoS, in order; the loop of the decoder ends at the end of the packet.
\<close>

theorem subscribe_roundtrip:
  assumes "unat len \<le> length buf" "unat len < 2147483648" "ts \<noteq> []" "length (topics_enc ts) < 16382"
    and "m_msg_type hdr = SUBSCRIBE"
    and "length (frame (fixed_header_encode hdr) (hi_byte i # lo_byte i # topics_enc ts)) \<le> unat len"
  shows "\<exists>n m d. CMqttSubscribe_encode (CMqttSubscribe_hdr buf len hdr i ts) = Some (int n, m) \<and>
      CMqttSubscribe_decode (CMqttSubscribe (m_buf (m_mqtt_pkt m)) (of_nat n)) = Some (0, d) \<and>
      m_sub_msg_id d = i \<and> sub_topics_name d = map m_topic_name ts \<and> sub_topics_qos d = map m_topic_qos ts"
proof -
  let ?bs = "frame (fixed_header_encode hdr) (hi_byte i # lo_byte i # topics_enc ts)"
  obtain m r where "CMqttSubscribe_encode (CMqttSubscribe_hdr buf len hdr i ts) = Some (int (length ?bs), m)"
      "m_buf (m_mqtt_pkt m) = ?bs @ r" "unat (of_nat (length ?bs) :: u32) = length ?bs"
    using encodedD [OF CMqttSubscribe_encoded [OF assms(1,2,3,6)]] by blast
  with decodedD [OF CMqttSubscribe_decoded [OF this(3) assms(4), of r]] assms(5)
  show ?thesis by (metis sub_topics_name_def sub_topics_qos_def msg_type_decode_encode)
qed

theorem subscribe_roundtrip_witness:
  "\<exists>n m d. CMqttSubscribe_encode (CMqttSubscribe_hdr (replicate 30 0) 30 (CMqttFixedHeader SUBSCRIBE) 9 [CTopic [97] 1, CTopic [98, 99] 0])
        = Some (int n, m) \<and>
      CMqttSubscribe_decode (CMqttSubscribe (m_buf (m_mqtt_pkt m)) (of_nat n)) = Some (0, d) \<and>
      m_sub_msg_id d = 9 \<and> sub_topics_name d = map m_topic_name [CTopic [97] 1, CTopic [98, 99] 0] \<and>
      sub_topics_qos d = map m_topic_qos [CTopic [97] 1, CTopic [98, 99] 0]"
  by (rule subscribe_roundtrip) (simp_all add: CTopic_def CMqttFixedHeader_def length_frame rl_enc_one)

text \<open>
  The packets the server answers with, byte for byte: CONNACK, PUBACK, SUBACK, UNSUBACK and
  PINGRESP written into a buffer of sufficient size, each with its length returned.
\<close>

theorem answers_on_the_wire:
  assumes "unat len \<le> length buf" "unat len < 2147483648" "4 \<le> unat len"
    and "length (frame 0x90 (hi_byte i # lo_byte i # qs)) \<le> unat len"
  shows "encoded [0x20, 2, 0, Code_val c] (CMqttConnAck_encode (CMqttConnAck buf len c)) \<and>
    encoded [0x40, 2, hi_byte i, lo_byte i] (CMqttPublishAck_encode (CMqttPublishAck buf len i)) \<and>
    encoded (frame 0x90 (hi_byte i # lo_byte i # qs)) (CMqttSubAck_encode (CMqttSubAck buf len i qs)) \<and>
    encoded [0xB0, 2, hi_byte i, lo_byte i] (CMqttUnsubAck_encode (CMqttUnsubAck buf len i)) \<and>
    encoded [0xD0, 0] (CMqttPingResp_encode (CMqttMsg buf len PINGRESP))"
  using assms CMqttConnAck_encoded CMqttPublishAck_encoded CMqttSubAck_encoded CMqttUnsubAck_encoded
    CMqttPing_encoded(2) by simp

theorem answers_on_the_wire_witness:
  "encoded [0x20, 2, 0, 5] (CMqttConnAck_encode (CMqttConnAck (replicate 8 0) 8 NO_AUTH))"
  using answers_on_the_wire [of 8 "replicate 8 0" 0 "[1]" NO_AUTH] by (simp add: length_frame rl_enc_one)

text \<open>
  C26. No input makes a decoder read outside the memory of its buffer, if that has at least five bytes: for every packet
  class, on any bytes and any declared length inside the buffer, decoding ends with 0 or -1, the buffer unchanged and the
  cursor not behind the declared length. The length loop looks at up to five bytes whatever the declared length is, so it
  can read behind the packet; these five bytes have to be in the buffer.
\<close>

theorem decoders_stay_inside:
  assumes "unat len \<le> length buf" "unat len < 2147483648" "5 \<le> length buf"
  shows "sound_on buf (CMqttConnect_decode (CMqttConnect buf len)) \<and>
    sound_on buf (CMqttConnAck_decode (CMqttConnAck buf len c)) \<and>
    sound_on buf (CMqttSubscribe_decode (CMqttSubscribe buf len)) \<and>
    sound_on buf (CMqttSubAck_decode (CMqttSubAck buf len i qs)) \<and>
    sound_on buf (CMqttUnsubscribe_decode (CMqttUnsubscribe buf len)) \<and>
    sound_on buf (CMqttPublish_decode (CMqttPublish buf len)) \<and>
    sound_on buf (CMqttPublishAck_decode (CMqttPublishAck buf len i))"
  using assms CMqttConnect_decode_sound CMqttConnAck_decode_sound CMqttSubscribe_decode_sound CMqttSubAck_decode_sound
    CMqttUnsubscribe_decode_sound CMqttPublish_decode_sound CMqttPublishAck_decode_sound by simp

theorem decoders_stay_inside_witness:
  "sound_on [0x10, 0xFF, 0xFF, 0xFF, 0xFF] (CMqttConnect_decode (CMqttConnect [0x10, 0xFF, 0xFF, 0xFF, 0xFF] 5))"
  using decoders_stay_inside [of 5 "[0x10, 0xFF, 0xFF, 0xFF, 0xFF]" ACCEPTED 0 "[]"] by simp

text \<open>
  The SUBACK decoder never reads the message id: the object keeps the one it was built with,
  and the two id bytes come out as the first two granted QoS values.
\<close>

theorem suback_decode_skips_id:
  assumes "unat len = length (frame h (hi_byte i # lo_byte i # qs))" "length qs < 254"
    and "m_msg_type (fixed_header_decode h) = SUBACK"
  shows "\<exists>m. CMqttSubAck_decode (CMqttSubAck (frame h (hi_byte i # lo_byte i # qs) @ r) len j []) = Some (0, m) \<and>
    m_suback_msg_id m = j \<and> m_sub_qos m = hi_byte i # lo_byte i # qs"
  using decodedD [OF CMqttSubAck_decoded [OF assms, of j r]] .

theorem suback_decode_skips_id_witness:
  "\<exists>m. CMqttSubAck_decode (CMqttSubAck (frame 0x90 (hi_byte 5 # lo_byte 5 # [1]) @ []) 5 0 []) = Some (0, m) \<and>
    m_suback_msg_id m = 0 \<and> m_sub_qos m = hi_byte 5 # lo_byte 5 # [1]"
  by (rule suback_decode_skips_id)
    (simp_all add: length_frame rl_enc_one fixed_header_decode_def fix_msg_type_def to_MqttType_def mqtt_types_def)

text \<open>
  UNSUBSCRIBE and PUBACK packets are decoded to their message id and, for UNSUBSCRIBE, to all
  the topic names of the packet in order.
\<close>

theorem unsubscribe_puback_decode:
  assumes "unat ulen = length (frame uh (hi_byte i # lo_byte i # concat (map string_enc ts)))"
    and "length (concat (map string_enc ts)) < 16382" "m_msg_type (fixed_header_decode uh) = UNSUBSCRIBE"
    and "unat plen = 4" "m_msg_type (fixed_header_decode ph) = PUBACK"
  shows "(\<exists>m. CMqttUnsubscribe_decode (CMqttUnsubscribe (frame uh (hi_byte i # lo_byte i # concat (map string_enc ts)) @ r) ulen)
        = Some (0, m) \<and> m_unsub_msg_id m = i \<and> m_str_topics m = ts) \<and>
    (\<exists>m. CMqttPublishAck_decode (CMqttPublishAck (frame ph [hi_byte i, lo_byte i] @ r) plen j) = Some (0, m) \<and>
       m_puback_msg_id m = i)"
  using decodedD [OF CMqttUnsubscribe_decoded [OF assms(1-3), of r]]
    decodedD [OF CMqttPublishAck_decoded [OF assms(4,5), of i r j]] by blast

theorem unsubscribe_puback_decode_witness:
  "\<exists>m. CMqttUnsubscribe_decode (CMqttUnsubscribe (frame 0xA2 (hi_byte 3 # lo_byte 3 # concat (map string_enc [[97], [98]])) @ []) 10)
     = Some (0, m) \<and> m_unsub_msg_id m = 3 \<and> m_str_topics m = [[97], [98]]"
  by (rule unsubscribe_puback_decode [where plen = 4 and ph = "0x40", THEN conjunct1])
    (simp_all add: length_frame rl_enc_one fixed_header_decode_def fix_msg_type_def to_MqttType_def mqtt_types_def)

end
