(* ===== verification/Mbuf.thy ===== *)
theory Mbuf
  imports Mqtt_Prelude
begin

unbundle bit_operations_syntax

text \<open>
  Message buffers and their index: \<^verbatim>\<open>src/common/mbuf.cpp\<close>, \<^verbatim>\<open>src/common/msg_mem_store.cpp\<close> and
  \<^verbatim>\<open>include/common/mem_pool.hpp\<close>.

  A \<^verbatim>\<open>CMbuf\<close> is a block of \<^verbatim>\<open>m_data.size\<close> bytes with a read and a write position. Positions are
  32 bit words and the tests of the source are made in that arithmetic, wrap-around included. The
  locale \<open>byte_queue\<close> is the contract the connections rely on: bytes appended at the write
  position come out at the read position in order.

  \<^verbatim>\<open>CMsgMemStore\<close> maps message ids to raw pointers to buffers that are owned elsewhere; a buffer
  enters itself in \<^verbatim>\<open>regist_mem_store\<close> and removes itself in its destructor. The step relation
  \<open>store_step\<close> is the life of the buffers of published messages, and its invariant says that the
  store never holds a pointer to a destroyed buffer. The clock is an argument.
\<close>

subsection \<open>CMbuf\<close>

definition MAX_DEFAULT_BUF_SIZE :: u32 where "MAX_DEFAULT_BUF_SIZE = 512"

definition MSG_DATA :: u32 where "MSG_DATA = 1"

definition MSG_PUBLISH :: u32 where "MSG_PUBLISH = 2"

text \<open>\<open>m_mem_db\<close> tells whether the buffer holds a pointer to the store, of which there is one.
  The contents of fresh memory are a parameter: \<open>data0\<close> has the requested size.\<close>

record cmbuf =
  m_data :: bytes
  m_data_size :: u32
  m_mbuf_msg_type :: u32
  m_read_pos :: u32
  m_write_pos :: u32
  m_mbuf_msg_id :: u64
  m_time :: u32
  m_mem_db :: bool

definition CMbuf :: "bytes \<Rightarrow> u32 \<Rightarrow> cmbuf" where
  "CMbuf data0 now =
     \<lparr>m_data = data0, m_data_size = of_nat (length data0), m_mbuf_msg_type = MSG_DATA, m_read_pos = 0,
      m_write_pos = 0, m_mbuf_msg_id = 0, m_time = now, m_mem_db = False\<rparr>"

definition CMbuf_default :: "(u32 \<Rightarrow> bytes) \<Rightarrow> u32 \<Rightarrow> cmbuf" where
  "CMbuf_default alloc now = CMbuf (alloc MAX_DEFAULT_BUF_SIZE) now"

text \<open>A pointer into the block is the bytes from there to its end.\<close>

definition read_ptr :: "cmbuf \<Rightarrow> bytes" where
  "read_ptr b = drop (unat (m_read_pos b)) (m_data b)"

definition read_ptr_skip :: "u32 \<Rightarrow> cmbuf \<Rightarrow> cmbuf" where
  "read_ptr_skip n b =
     (if m_read_pos b + n > m_data_size b then b else b\<lparr>m_read_pos := m_read_pos b + n\<rparr>)"

definition write_ptr :: "cmbuf \<Rightarrow> bytes" where
  "write_ptr b = drop (unat (m_write_pos b)) (m_data b)"

definition write_ptr_skip :: "u32 \<Rightarrow> cmbuf \<Rightarrow> cmbuf" where
  "write_ptr_skip n b =
     (if m_write_pos b + n > m_data_size b then b else b\<lparr>m_write_pos := m_write_pos b + n\<rparr>)"

text \<open>The sum is formed in unsigned arithmetic; \<^verbatim>\<open>memcpy\<close> reads \<open>len\<close> bytes of the source, which is
  outside it for a negative or too large length.\<close>

definition mbuf_copy :: "bytes \<Rightarrow> int \<Rightarrow> cmbuf \<Rightarrow> (int \<times> cmbuf) option" where
  "mbuf_copy src len b =
     (if m_write_pos b + of_int len > m_data_size b then Some (-1, b)
      else if len < 0 then None
      else do {
        vs \<leftarrow> mem_read src 0 (nat len);
        d \<leftarrow> mem_copy (m_data b) (unat (m_write_pos b)) vs;
        Some (0, b\<lparr>m_data := d, m_write_pos := m_write_pos b + of_int len\<rparr>)
      })"

definition base_ptr :: "cmbuf \<Rightarrow> bytes" where
  "base_ptr b = m_data b"

definition end_ptr :: "cmbuf \<Rightarrow> bytes" where
  "end_ptr b = drop (unat (m_data_size b)) (m_data b)"

definition mbuf_length :: "cmbuf \<Rightarrow> u32" where
  "mbuf_length b = m_write_pos b - m_read_pos b"

definition mbuf_reset :: "cmbuf \<Rightarrow> cmbuf" where
  "mbuf_reset b = b\<lparr>m_read_pos := 0, m_write_pos := 0\<rparr>"

definition available_buf :: "cmbuf \<Rightarrow> u32" where
  "available_buf b = m_data_size b - m_write_pos b"

definition mbuf_max_size :: "cmbuf \<Rightarrow> u32" where
  "mbuf_max_size b = m_data_size b"

definition set_msg_id :: "u64 \<Rightarrow> cmbuf \<Rightarrow> cmbuf" where
  "set_msg_id i b = b\<lparr>m_mbuf_msg_id := i\<rparr>"

definition set_msg_type :: "u32 \<Rightarrow> cmbuf \<Rightarrow> cmbuf" where
  "set_msg_type t b = b\<lparr>m_mbuf_msg_type := t\<rparr>"

subsection \<open>The buffer as a byte queue\<close>

definition mbuf_wf :: "cmbuf \<Rightarrow> bool" where
  "mbuf_wf b \<longleftrightarrow> length (m_data b) = unat (m_data_size b) \<and> m_read_pos b \<le> m_write_pos b \<and>
     m_write_pos b \<le> m_data_size b \<and> unat (m_data_size b) < 2147483648"

definition mbuf_contents :: "cmbuf \<Rightarrow> bytes" where
  "mbuf_contents b = take (unat (m_write_pos b) - unat (m_read_pos b)) (drop (unat (m_read_pos b)) (m_data b))"

definition mbuf_space :: "cmbuf \<Rightarrow> nat" where
  "mbuf_space b = unat (m_data_size b) - unat (m_write_pos b)"

lemmas mbuf_word = word_le_nat_alt word_less_nat_alt

lemma length_mbuf_contents:
  "mbuf_wf b \<Longrightarrow> length (mbuf_contents b) = unat (m_write_pos b) - unat (m_read_pos b)"
  by (auto simp: mbuf_wf_def mbuf_contents_def mbuf_word)

lemma mbuf_length_contents: "mbuf_wf b \<Longrightarrow> unat (mbuf_length b) = length (mbuf_contents b)"
  unfolding length_mbuf_contents mbuf_length_def
  by (subst unat_sub_u32) (simp_all add: mbuf_wf_def mbuf_word)

lemma available_buf_space: "mbuf_wf b \<Longrightarrow> unat (available_buf b) = mbuf_space b"
  unfolding available_buf_def mbuf_space_def
  by (subst unat_sub_u32) (simp_all add: mbuf_wf_def mbuf_word)

lemma CMbuf_wf:
  assumes "length d < 2147483648"
  shows "mbuf_wf (CMbuf d t)" "mbuf_contents (CMbuf d t) = []" "mbuf_space (CMbuf d t) = length d"
  using assms by (simp_all add: mbuf_wf_def CMbuf_def mbuf_contents_def mbuf_space_def)

lemma mbuf_reset_wf:
  assumes "mbuf_wf b"
  shows "mbuf_wf (mbuf_reset b)" "mbuf_contents (mbuf_reset b) = []" "mbuf_space (mbuf_reset b) = length (m_data b)"
  using assms by (simp_all add: mbuf_wf_def mbuf_reset_def mbuf_contents_def mbuf_space_def)

lemma read_ptr_contents: "mbuf_wf b \<Longrightarrow> take (unat (mbuf_length b)) (read_ptr b) = mbuf_contents b"
  by (simp add: mbuf_length_contents length_mbuf_contents) (simp add: read_ptr_def mbuf_contents_def)

text \<open>Appending bytes that fit, and the refusal of bytes that do not.\<close>

lemma unat_write_add:
  assumes "mbuf_wf b" "n < 2147483648"
  shows "unat (m_write_pos b + of_nat n) = unat (m_write_pos b) + n"
  using assms by (subst unat_add_u32) (auto simp: mbuf_wf_def mbuf_word)

lemma mbuf_copy_fits:
  assumes "mbuf_wf b" "length bs \<le> mbuf_space b"
  shows "\<exists>b'. mbuf_copy bs (int (length bs)) b = Some (0, b') \<and> mbuf_wf b' \<and>
    mbuf_contents b' = mbuf_contents b @ bs \<and> mbuf_space b' = mbuf_space b - length bs"
proof -
  let ?w = "unat (m_write_pos b)" and ?r = "unat (m_read_pos b)"
  have n: "?w + length bs \<le> length (m_data b)" "length bs < 2147483648" "?r \<le> ?w"
    "unat (m_data_size b) = length (m_data b)" "length (m_data b) < 2147483648"
    using assms by (auto simp: mbuf_wf_def mbuf_space_def mbuf_word)
  have u: "unat (m_write_pos b + of_nat (length bs)) = ?w + length bs"
    using assms(1) n(2) by (rule unat_write_add)
  let ?d = "take ?w (m_data b) @ bs @ drop (?w + length bs) (m_data b)"
  have "take (?w + length bs - ?r) (drop ?r ?d) = take (?w - ?r) (drop ?r (m_data b)) @ bs"
    using n by (simp add: drop_take take_add)
  then have "mbuf_contents (b\<lparr>m_data := ?d, m_write_pos := m_write_pos b + of_nat (length bs)\<rparr>) = mbuf_contents b @ bs"
    by (simp add: mbuf_contents_def u)
  then show ?thesis
    using n by (simp add: mbuf_copy_def mbuf_word u mem_read_Some mem_copy_Some mbuf_wf_def mbuf_space_def)
qed

lemma mbuf_copy_full:
  assumes "mbuf_wf b" "mbuf_space b < length bs" "length bs < 2147483648"
  shows "mbuf_copy bs (int (length bs)) b = Some (-1, b)"
proof -
  have "unat (m_data_size b) < unat (m_write_pos b) + length bs"
    using assms(1,2) by (auto simp: mbuf_space_def)
  then show ?thesis using unat_write_add [OF assms(1,3)] by (simp add: mbuf_copy_def mbuf_word)
qed

lemma read_ptr_skip_drop:
  assumes "mbuf_wf b" "n \<le> length (mbuf_contents b)"
  shows "mbuf_wf (read_ptr_skip (of_nat n) b)"
    and "mbuf_contents (read_ptr_skip (of_nat n) b) = drop n (mbuf_contents b)"
    and "mbuf_space (read_ptr_skip (of_nat n) b) = mbuf_space b"
proof -
  let ?w = "unat (m_write_pos b)" and ?r = "unat (m_read_pos b)"
  have n: "?r + n \<le> ?w" "?w \<le> unat (m_data_size b)" "length (m_data b) = unat (m_data_size b)"
    "unat (m_data_size b) < 2147483648"
    using assms length_mbuf_contents [OF assms(1)] by (auto simp: mbuf_wf_def mbuf_word)
  have u: "unat (m_read_pos b + of_nat n) = ?r + n"
    using n by (subst unat_add_u32) simp_all
  have skip: "read_ptr_skip (of_nat n) b = b\<lparr>m_read_pos := m_read_pos b + of_nat n\<rparr>"
    using n u by (simp add: read_ptr_skip_def mbuf_word)
  show "mbuf_wf (read_ptr_skip (of_nat n) b)"
    using n assms(1) by (simp add: skip mbuf_wf_def mbuf_word u)
  show "mbuf_contents (read_ptr_skip (of_nat n) b) = drop n (mbuf_contents b)"
    by (simp add: skip mbuf_contents_def u drop_take add.commute)
  show "mbuf_space (read_ptr_skip (of_nat n) b) = mbuf_space b"
    by (simp add: skip mbuf_space_def)
qed

text \<open>The contract of a bounded byte queue, and what its clients get from it.\<close>

fun feed :: "(bytes \<Rightarrow> 'b \<Rightarrow> (int \<times> 'b) option) \<Rightarrow> bytes list \<Rightarrow> 'b \<Rightarrow> 'b option" where
  "feed put [] b = Some b"
| "feed put (x # xs) b = do { (r, b) \<leftarrow> put x b; feed put xs b }"

locale byte_queue =
  fixes wf :: "'b \<Rightarrow> bool"
    and contents :: "'b \<Rightarrow> bytes"
    and space :: "'b \<Rightarrow> nat"
    and put :: "bytes \<Rightarrow> 'b \<Rightarrow> (int \<times> 'b) option"
    and skip :: "nat \<Rightarrow> 'b \<Rightarrow> 'b"
  assumes put_fits: "wf b \<Longrightarrow> length bs \<le> space b \<Longrightarrow>
      \<exists>b'. put bs b = Some (0, b') \<and> wf b' \<and> contents b' = contents b @ bs \<and> space b' = space b - length bs"
    and put_full: "wf b \<Longrightarrow> space b < length bs \<Longrightarrow> length bs < 2147483648 \<Longrightarrow> put bs b = Some (-1, b)"
    and skip_wf: "wf b \<Longrightarrow> n \<le> length (contents b) \<Longrightarrow> wf (skip n b)"
    and skip_contents: "wf b \<Longrightarrow> n \<le> length (contents b) \<Longrightarrow> contents (skip n b) = drop n (contents b)"
    and skip_space: "wf b \<Longrightarrow> n \<le> length (contents b) \<Longrightarrow> space (skip n b) = space b"
begin

lemma feed_concat:
  "wf b \<Longrightarrow> length (concat xs) \<le> space b \<Longrightarrow>
     \<exists>b'. feed put xs b = Some b' \<and> wf b' \<and> contents b' = contents b @ concat xs \<and>
       space b' = space b - length (concat xs)"
proof (induction xs arbitrary: b)
  case (Cons x xs)
  obtain b1 where "put x b = Some (0, b1)" "wf b1" "contents b1 = contents b @ x" "space b1 = space b - length x"
    using put_fits [OF Cons.prems(1), of x] Cons.prems(2) by auto
  then show ?case using Cons.IH [of b1] Cons.prems(2) by auto
qed simp

lemma put_returns:
  "wf b \<Longrightarrow> length bs < 2147483648 \<Longrightarrow>
     \<exists>r b'. put bs b = Some (r, b') \<and> wf b' \<and> (r = 0 \<and> contents b' = contents b @ bs \<or> r = -1 \<and> b' = b)"
  using put_fits [of b bs] put_full [of b bs] by (cases "length bs \<le> space b") auto

text \<open>Consuming in two steps is consuming at once; after \<open>n\<close> bytes the reader sees what was put behind them.\<close>

lemma skip_skip:
  "wf b \<Longrightarrow> n + m \<le> length (contents b) \<Longrightarrow> contents (skip m (skip n b)) = drop (n + m) (contents b)"
  by (simp add: skip_wf skip_contents add.commute)

lemma fifo:
  assumes "wf b" "length xs + length ys \<le> space b" "contents b = []"
  shows "\<exists>b'. feed put [xs, ys] b = Some b' \<and> contents (skip (length xs) b') = ys"
  using feed_concat [of b "[xs, ys]"] assms by (auto simp: skip_contents)

end

interpretation mbuf: byte_queue mbuf_wf mbuf_contents mbuf_space
  "\<lambda>bs. mbuf_copy bs (int (length bs))" "\<lambda>n. read_ptr_skip (of_nat n)"
  by unfold_locales (simp_all add: mbuf_copy_fits mbuf_copy_full read_ptr_skip_drop)

subsection \<open>CMsgMemStore\<close>

type_synonym addr = nat

record cmsg_mem_store =
  m_last_msg_id :: u64
  m_msg_db :: "u64 \<rightharpoonup> addr"
  m_last_update_time :: u32

definition CMsgMemStore :: "u64 \<Rightarrow> cmsg_mem_store" where
  "CMsgMemStore msg_id_start = \<lparr>m_last_msg_id = msg_id_start, m_msg_db = Map.empty, m_last_update_time = 0\<rparr>"

definition next_msg_id :: "cmsg_mem_store \<Rightarrow> u64 \<times> cmsg_mem_store" where
  "next_msg_id s = (m_last_msg_id s + 1, s\<lparr>m_last_msg_id := m_last_msg_id s + 1\<rparr>)"

definition set_last_msg_id :: "u64 \<Rightarrow> cmsg_mem_store \<Rightarrow> cmsg_mem_store" where
  "set_last_msg_id i s = s\<lparr>m_last_msg_id := i\<rparr>"

definition del_msg :: "u64 \<Rightarrow> cmsg_mem_store \<Rightarrow> cmsg_mem_store" where
  "del_msg i s = (if i \<in> dom (m_msg_db s) then s\<lparr>m_msg_db := (m_msg_db s)(i := None)\<rparr> else s)"

text \<open>The pointer may be null, then only the time is updated.\<close>

definition add_msg :: "u32 \<Rightarrow> u64 \<Rightarrow> addr option \<Rightarrow> cmsg_mem_store \<Rightarrow> cmsg_mem_store" where
  "add_msg now i buf s =
     (let s = s\<lparr>m_last_update_time := now\<rparr> in
      case buf of None \<Rightarrow> s | Some a \<Rightarrow> s\<lparr>m_msg_db := (m_msg_db s)(i \<mapsto> a)\<rparr>)"

text \<open>The allocated buffers with the store they register in.\<close>

record mbuf_world =
  w_heap :: "addr \<rightharpoonup> cmbuf"
  w_store :: cmsg_mem_store

definition regist_mem_store :: "u32 \<Rightarrow> bool \<Rightarrow> addr \<Rightarrow> mbuf_world \<Rightarrow> mbuf_world option" where
  "regist_mem_store now mem_store a w =
     (case w_heap w a of
        None \<Rightarrow> None
      | Some b \<Rightarrow>
          let w = w\<lparr>w_heap := (w_heap w)(a \<mapsto> b\<lparr>m_mem_db := mem_store\<rparr>)\<rparr> in
          Some (if m_mbuf_msg_id b \<noteq> 0 \<and> mem_store
                then w\<lparr>w_store := add_msg now (m_mbuf_msg_id b) (Some a) (w_store w)\<rparr> else w))"

definition CMbuf_destroy :: "addr \<Rightarrow> mbuf_world \<Rightarrow> mbuf_world option" where
  "CMbuf_destroy a w =
     (case w_heap w a of
        None \<Rightarrow> None
      | Some b \<Rightarrow>
          let w = w\<lparr>w_heap := (w_heap w)(a := None)\<rparr> in
          Some (if m_mbuf_msg_id b \<noteq> 0 \<and> m_mem_db b
                then w\<lparr>w_store := del_msg (m_mbuf_msg_id b) (w_store w)\<rparr> else w))"

text \<open>
  The life of buffers: allocation, writes that leave id and registration alone, publication (the
  next message id is assigned and the buffer registered), reload from the database file under an
  id that is not in use, and destruction.
\<close>

definition publish_buf :: "u32 \<Rightarrow> addr \<Rightarrow> mbuf_world \<Rightarrow> mbuf_world option" where
  "publish_buf now a w =
     (case w_heap w a of
        None \<Rightarrow> None
      | Some b \<Rightarrow>
          let (i, st) = next_msg_id (w_store w);
              b' = set_msg_id i (set_msg_type MSG_PUBLISH b)
          in regist_mem_store now True a (w\<lparr>w_heap := (w_heap w)(a \<mapsto> b'), w_store := st\<rparr>))"

inductive store_step :: "mbuf_world \<Rightarrow> mbuf_world \<Rightarrow> bool" where
  alloc: "w_heap w a = None \<Longrightarrow> store_step w (w\<lparr>w_heap := (w_heap w)(a \<mapsto> CMbuf d t)\<rparr>)"
| fill: "w_heap w a = Some b \<Longrightarrow> m_mbuf_msg_id b' = m_mbuf_msg_id b \<Longrightarrow> m_mem_db b' = m_mem_db b \<Longrightarrow>
    store_step w (w\<lparr>w_heap := (w_heap w)(a \<mapsto> b')\<rparr>)"
| publish: "w_heap w a = Some b \<Longrightarrow> \<not> m_mem_db b \<Longrightarrow> m_last_msg_id (w_store w) + 1 \<noteq> 0 \<Longrightarrow>
    publish_buf now a w = Some w' \<Longrightarrow> store_step w w'"
| reload: "w_heap w a = None \<Longrightarrow> \<not> m_mem_db b \<Longrightarrow> m_mbuf_msg_id b \<notin> dom (m_msg_db (w_store w)) \<Longrightarrow>
    m_mbuf_msg_id b \<le> m_last_msg_id (w_store w) \<Longrightarrow>
    regist_mem_store now True a (w\<lparr>w_heap := (w_heap w)(a \<mapsto> b)\<rparr>) = Some w' \<Longrightarrow> store_step w w'"
| destroy: "CMbuf_destroy a w = Some w' \<Longrightarrow> store_step w w'"

text \<open>The store holds exactly the registered live buffers under their ids, and ids in use have been
  given out.\<close>

definition registered :: "cmbuf \<Rightarrow> bool" where
  "registered b \<longleftrightarrow> m_mem_db b \<and> m_mbuf_msg_id b \<noteq> 0"

definition store_ok :: "(addr \<rightharpoonup> cmbuf) \<Rightarrow> (u64 \<rightharpoonup> addr) \<Rightarrow> u64 \<Rightarrow> bool" where
  "store_ok h db l \<longleftrightarrow>
     (\<forall>a b. h a = Some b \<and> registered b \<longrightarrow> db (m_mbuf_msg_id b) = Some a) \<and>
     (\<forall>i a. db i = Some a \<longrightarrow> (\<exists>b. h a = Some b \<and> registered b \<and> m_mbuf_msg_id b = i)) \<and>
     (\<forall>i a. db i = Some a \<longrightarrow> i \<le> l)"

definition store_inv :: "mbuf_world \<Rightarrow> bool" where
  "store_inv w \<longleftrightarrow> store_ok (w_heap w) (m_msg_db (w_store w)) (m_last_msg_id (w_store w))"

lemma store_inv_init: "store_inv \<lparr>w_heap = Map.empty, w_store = CMsgMemStore i\<rparr>"
  by (simp add: store_inv_def store_ok_def CMsgMemStore_def)

lemma store_ok_find: "store_ok h db l \<Longrightarrow> h a = Some b \<Longrightarrow> registered b \<Longrightarrow> db (m_mbuf_msg_id b) = Some a"
  unfolding store_ok_def by blast

lemma store_ok_live:
  "store_ok h db l \<Longrightarrow> db i = Some a \<Longrightarrow> \<exists>b. h a = Some b \<and> registered b \<and> m_mbuf_msg_id b = i"
  unfolding store_ok_def by blast

lemma store_ok_used: "store_ok h db l \<Longrightarrow> db i = Some a \<Longrightarrow> i \<le> l"
  unfolding store_ok_def by blast

lemma store_okI:
  assumes "\<And>a b. h a = Some b \<Longrightarrow> registered b \<Longrightarrow> db (m_mbuf_msg_id b) = Some a"
    and "\<And>i a. db i = Some a \<Longrightarrow> \<exists>b. h a = Some b \<and> registered b \<and> m_mbuf_msg_id b = i"
    and "\<And>i a. db i = Some a \<Longrightarrow> i \<le> l"
  shows "store_ok h db l"
  using assms unfolding store_ok_def by blast

text \<open>Putting a buffer under an id that is not in use at an address that holds no registered one.\<close>

lemma store_ok_enter:
  assumes ok: "store_ok h db l" and a: "\<And>c. h a = Some c \<Longrightarrow> \<not> registered c"
    and b: "m_mbuf_msg_id b \<notin> dom db" and l: "l \<le> l'" "m_mbuf_msg_id b \<le> l'"
  shows "store_ok (h(a \<mapsto> b)) (if registered b then db(m_mbuf_msg_id b \<mapsto> a) else db) l'"
proof (rule store_okI)
  have na: "db i \<noteq> Some a" for i using store_ok_live [OF ok] a by blast
  fix c d assume "(h(a \<mapsto> b)) c = Some d" "registered d"
  then show "(if registered b then db(m_mbuf_msg_id b \<mapsto> a) else db) (m_mbuf_msg_id d) = Some c"
    using store_ok_find [OF ok, of c d] b by (auto split: if_splits)
next
  have na: "db i \<noteq> Some a" for i using store_ok_live [OF ok] a by blast
  fix i c assume "(if registered b then db(m_mbuf_msg_id b \<mapsto> a) else db) i = Some c"
  then show "\<exists>d. (h(a \<mapsto> b)) c = Some d \<and> registered d \<and> m_mbuf_msg_id d = i"
    using store_ok_live [OF ok, of i c] na by (auto split: if_splits)
next
  fix i c assume "(if registered b then db(m_mbuf_msg_id b \<mapsto> a) else db) i = Some c"
  then show "i \<le> l'"
    using store_ok_used [OF ok, of i c] l by (auto split: if_splits intro: order_trans)
qed

text \<open>Removing a live buffer with its entry.\<close>

lemma store_ok_remove:
  assumes ok: "store_ok h db l" and a: "h a = Some b"
  shows "store_ok (h(a := None)) (if registered b then db(m_mbuf_msg_id b := None) else db) l"
proof (rule store_okI)
  fix c d assume cd: "(h(a := None)) c = Some d" "registered d"
  then have d: "db (m_mbuf_msg_id d) = Some c" "c \<noteq> a"
    using store_ok_find [OF ok, of c d] by (auto split: if_splits)
  then show "(if registered b then db(m_mbuf_msg_id b := None) else db) (m_mbuf_msg_id d) = Some c"
    using store_ok_find [OF ok a] by auto
next
  fix i c assume *: "(if registered b then db(m_mbuf_msg_id b := None) else db) i = Some c"
  then obtain d where d: "h c = Some d" "registered d" "m_mbuf_msg_id d = i"
    using store_ok_live [OF ok, of i c] by (auto split: if_splits)
  have "c \<noteq> a" using * d a by (auto split: if_splits)
  then show "\<exists>d. (h(a := None)) c = Some d \<and> registered d \<and> m_mbuf_msg_id d = i"
    using d by auto
next
  fix i c assume "(if registered b then db(m_mbuf_msg_id b := None) else db) i = Some c"
  then show "i \<le> l" using store_ok_used [OF ok, of i c] by (auto split: if_splits)
qed

lemma store_ok_keep:
  assumes ok: "store_ok h db l" and a: "h a = Some b"
    and b: "m_mbuf_msg_id b' = m_mbuf_msg_id b" "m_mem_db b' = m_mem_db b"
  shows "store_ok (h(a \<mapsto> b')) db l"
proof (rule store_okI)
  fix c d assume "(h(a \<mapsto> b')) c = Some d" "registered d"
  then show "db (m_mbuf_msg_id d) = Some c"
    using store_ok_find [OF ok, of c d] store_ok_find [OF ok a] b by (auto simp: registered_def split: if_splits)
next
  fix i c assume "db i = Some c"
  then show "\<exists>d. (h(a \<mapsto> b')) c = Some d \<and> registered d \<and> m_mbuf_msg_id d = i"
    using store_ok_live [OF ok, of i c] a b by (auto simp: registered_def)
qed (rule store_ok_used [OF ok])

lemma del_msg_upd: "del_msg i s = s\<lparr>m_msg_db := (m_msg_db s)(i := None)\<rparr>"
  by (cases "i \<in> dom (m_msg_db s)") (auto simp: del_msg_def domIff fun_upd_idem)

lemma store_step_inv: "store_step w w' \<Longrightarrow> store_inv w \<Longrightarrow> store_inv w'"
proof (induction rule: store_step.induct)
  case (alloc w a d t)
  then show ?case
    using store_ok_enter [of "w_heap w" "m_msg_db (w_store w)" "m_last_msg_id (w_store w)" a "CMbuf d t"]
      store_ok_live [of "w_heap w" "m_msg_db (w_store w)" "m_last_msg_id (w_store w)" 0]
    by (auto simp: store_inv_def CMbuf_def registered_def)
next
  case (fill w a b b')
  then show ?case by (simp add: store_inv_def store_ok_keep)
next
  case (publish w a b now w')
  let ?i = "m_last_msg_id (w_store w) + 1"
  have lt: "m_last_msg_id (w_store w) < ?i"
    using unatSuc [of "m_last_msg_id (w_store w)"] publish.hyps(3)
    by (simp add: word_less_nat_alt add.commute)
  have "?i \<notin> dom (m_msg_db (w_store w))"
    using store_ok_used [OF publish.prems [unfolded store_inv_def]] lt by (fastforce simp: dom_def)
  then show ?case
    using store_ok_enter [OF publish.prems [unfolded store_inv_def], of a
        "(set_msg_id ?i (set_msg_type MSG_PUBLISH b))\<lparr>m_mem_db := True\<rparr>" ?i] lt publish.hyps
    by (auto simp: store_inv_def publish_buf_def next_msg_id_def regist_mem_store_def set_msg_id_def
        set_msg_type_def add_msg_def Let_def registered_def)
next
  case (reload w a b now w')
  then show ?case
    using store_ok_enter [OF reload.prems [unfolded store_inv_def], of a "b\<lparr>m_mem_db := True\<rparr>"
        "m_last_msg_id (w_store w)"]
    by (auto simp: store_inv_def regist_mem_store_def add_msg_def registered_def Let_def split: if_splits)
next
  case (destroy a w w')
  then obtain b where b: "w_heap w a = Some b"
    by (auto simp: CMbuf_destroy_def split: option.splits)
  then show ?case
    using store_ok_remove [OF destroy.prems [unfolded store_inv_def] b] destroy.hyps
    by (auto simp: store_inv_def CMbuf_destroy_def Let_def del_msg_upd registered_def split: if_splits)
qed

subsection \<open>CMsgStat and CMsgStatMgr\<close>

record cmsg_stat =
  st_msg_id :: u64
  st_pub_start :: int
  st_pub_end :: int
  st_pub_online_num :: u32
  st_pub_offline_num :: u32
  st_min_delay :: u32
  st_max_delay :: u32
  st_ack_client :: u32

definition start_stat :: "int \<Rightarrow> cmsg_stat \<Rightarrow> cmsg_stat" where
  "start_stat now s = s\<lparr>st_msg_id := 0, st_pub_end := 0, st_pub_online_num := 0, st_pub_offline_num := 0,
     st_min_delay := 0, st_max_delay := 0, st_ack_client := 0, st_pub_start := now\<rparr>"

definition end_stat :: "int \<Rightarrow> cmsg_stat \<Rightarrow> cmsg_stat" where
  "end_stat now s = s\<lparr>st_pub_end := now\<rparr>"

definition inc_ack_client :: "cmsg_stat \<Rightarrow> cmsg_stat" where
  "inc_ack_client s = s\<lparr>st_ack_client := st_ack_client s + 1\<rparr>"

definition MAX_STAT_MSG :: nat where "MAX_STAT_MSG = 65536"

definition stat_idx :: "u64 \<Rightarrow> u16" where
  "stat_idx msg_id = ucast (msg_id AND 0xFFFF)"

text \<open>The table has \<^verbatim>\<open>MAX_STAT_MSG\<close> entries; \<open>msg_stat\<close> returns the updated table with the index of
  the entry it gives out a reference to.\<close>

definition msg_stat :: "u64 \<Rightarrow> cmsg_stat list \<Rightarrow> nat \<times> cmsg_stat list" where
  "msg_stat msg_id tab =
     (let i = unat (stat_idx msg_id) in (i, tab[i := (tab ! i)\<lparr>st_msg_id := msg_id\<rparr>]))"

text \<open>A line of the statistics file before it is formatted: id, start and end of publishing, time of
  the line, clients on line, clients off line, acknowledgements.\<close>

type_synonym stat_line = "u64 \<times> int \<times> int \<times> int \<times> u32 \<times> u32 \<times> u32"

definition stat_due :: "int \<Rightarrow> cmsg_stat \<Rightarrow> bool" where
  "stat_due now s \<longleftrightarrow> st_msg_id s > 0 \<and> now - st_pub_start s > 2 * 60"

definition stat_record :: "int \<Rightarrow> cmsg_stat \<Rightarrow> stat_line" where
  "stat_record now s = (st_msg_id s, st_pub_start s, st_pub_end s, now, st_pub_online_num s,
     st_pub_offline_num s, st_ack_client s)"

fun stat_flush :: "int \<Rightarrow> cmsg_stat list \<Rightarrow> stat_line list \<times> cmsg_stat list" where
  "stat_flush now [] = ([], [])"
| "stat_flush now (s # tab) =
     (let (ls, tab') = stat_flush now tab in
      if stat_due now s then (stat_record now s # ls, start_stat now s # tab') else (ls, s # tab'))"

lemma stat_flush_eq:
  "stat_flush now tab = (map (stat_record now) (filter (stat_due now) tab),
     map (\<lambda>s. if stat_due now s then start_stat now s else s) tab)"
  by (induction tab) auto

lemma stat_idx_unat: "unat (stat_idx i) = unat i mod 65536"
proof -
  have m: "(0xFFFF :: u64) = mask 16" by (simp add: mask_eq_exp_minus_1)
  show ?thesis
    unfolding stat_idx_def m take_bit_eq_mask [symmetric]
    by (simp add: unsigned_ucast_eq unsigned_take_bit_eq take_bit_eq_mod unat_mod)
qed

subsection \<open>CMemPool\<close>

text \<open>The pool of default sized buffers; \<open>fresh\<close> is the buffer \<^verbatim>\<open>make_shared\<close> would create.\<close>

definition CMemPool :: "nat \<Rightarrow> cmbuf \<Rightarrow> cmbuf list" where
  "CMemPool n fresh = replicate n fresh"

definition mem_pool_get :: "cmbuf \<Rightarrow> cmbuf list \<Rightarrow> cmbuf \<times> cmbuf list" where
  "mem_pool_get fresh pool = (case pool of [] \<Rightarrow> (fresh, []) | b # bs \<Rightarrow> (b, bs))"

definition mem_pool_unget :: "cmbuf \<Rightarrow> cmbuf list \<Rightarrow> cmbuf list" where
  "mem_pool_unget b pool = pool @ [mbuf_reset b]"

definition pool_ok :: "cmbuf list \<Rightarrow> bool" where
  "pool_ok pool \<longleftrightarrow> (\<forall>b\<in>set pool. mbuf_wf b \<and> mbuf_contents b = [])"

subsection \<open>Properties\<close>

text \<open>
  C32. A \<^verbatim>\<open>CMbuf\<close> is a bounded byte queue: \<^verbatim>\<open>copy\<close> appends the bytes when they fit into
  \<^verbatim>\<open>available_buf()\<close> and otherwise returns -1 and changes nothing; \<^verbatim>\<open>read_ptr(n)\<close> drops the first
  \<open>n\<close> unread bytes; \<^verbatim>\<open>length()\<close> counts the unread ones; no access leaves the block.
\<close>

theorem mbuf_is_a_byte_queue:
  assumes "mbuf_wf b" "length bs < 2147483648" "n \<le> length (mbuf_contents b)"
  shows "(\<exists>r b'. mbuf_copy bs (int (length bs)) b = Some (r, b') \<and> mbuf_wf b' \<and>
      (if length bs \<le> unat (available_buf b) then r = 0 \<and> mbuf_contents b' = mbuf_contents b @ bs
       else r = -1 \<and> b' = b)) \<and>
    mbuf_wf (read_ptr_skip (of_nat n) b) \<and>
    mbuf_contents (read_ptr_skip (of_nat n) b) = drop n (mbuf_contents b) \<and>
    unat (mbuf_length b) = length (mbuf_contents b)"
proof -
  have "\<exists>r b'. mbuf_copy bs (int (length bs)) b = Some (r, b') \<and> mbuf_wf b' \<and>
      (if length bs \<le> mbuf_space b then r = 0 \<and> mbuf_contents b' = mbuf_contents b @ bs else r = -1 \<and> b' = b)"
    using mbuf.put_fits [OF assms(1), of bs] mbuf.put_full [OF assms(1) _ assms(2)] assms(1)
    by (cases "length bs \<le> mbuf_space b") auto
  then show ?thesis
    using assms by (simp add: available_buf_space mbuf_length_contents read_ptr_skip_drop)
qed

theorem mbuf_is_a_byte_queue_witness:
  "mbuf_contents (read_ptr_skip 1 ((CMbuf [7, 8, 9] 0)\<lparr>m_write_pos := 2\<rparr>)) = [8]"
  using mbuf_is_a_byte_queue [of "(CMbuf [7, 8, 9] 0)\<lparr>m_write_pos := 2\<rparr>" "[]" 1]
  by (simp add: mbuf_wf_def CMbuf_def mbuf_contents_def)

text \<open>
  Whatever sequence of chunks is copied into an empty buffer of sufficient size, the reader
  gets their concatenation, and after skipping the first chunks it is at the next one.
\<close>

theorem mbuf_fifo:
  assumes "length d < 2147483648" "length (concat (xs @ ys)) \<le> length d"
  shows "\<exists>b. feed (\<lambda>bs. mbuf_copy bs (int (length bs))) (xs @ ys) (CMbuf d t) = Some b \<and>
    mbuf_contents b = concat (xs @ ys) \<and>
    mbuf_contents (read_ptr_skip (of_nat (length (concat xs))) b) = concat ys"
  using mbuf.feed_concat [OF CMbuf_wf(1) [OF assms(1)], of "xs @ ys" t] assms CMbuf_wf [OF assms(1)]
  by (auto simp: mbuf.skip_contents)

theorem mbuf_fifo_witness:
  "\<exists>b. feed (\<lambda>bs. mbuf_copy bs (int (length bs))) ([[1, 2]] @ [[3]]) (CMbuf (replicate 4 0) 0) = Some b \<and>
    mbuf_contents b = concat ([[1, 2]] @ [[3]]) \<and>
    mbuf_contents (read_ptr_skip (of_nat (length (concat [[1, 2 :: u8]]))) b) = concat [[3]]"
  by (rule mbuf_fifo) simp_all

text \<open>
  C8. In every state the buffers and the message store can reach, the store maps an id to a buffer
  exactly when that buffer is live, registered and carries the id: a destroyed buffer leaves no
  pointer behind, and the next id handed out is in use by no message.
\<close>

theorem store_never_dangles:
  assumes "store_step\<^sup>*\<^sup>* \<lparr>w_heap = Map.empty, w_store = CMsgMemStore start\<rparr> w"
  shows "(m_msg_db (w_store w) i = Some a \<longleftrightarrow>
      (\<exists>b. w_heap w a = Some b \<and> m_mem_db b \<and> m_mbuf_msg_id b = i \<and> i \<noteq> 0)) \<and>
    (m_last_msg_id (w_store w) + 1 \<noteq> 0 \<longrightarrow> fst (next_msg_id (w_store w)) \<notin> dom (m_msg_db (w_store w)))"
proof -
  have "store_inv w"
    using assms by (induction rule: rtranclp_induct) (auto simp: store_inv_init store_step_inv)
  then have ok: "store_ok (w_heap w) (m_msg_db (w_store w)) (m_last_msg_id (w_store w))"
    by (simp add: store_inv_def)
  have "i \<le> m_last_msg_id (w_store w)" if "i \<in> dom (m_msg_db (w_store w))" for i
    using store_ok_used [OF ok] that by blast
  then have "fst (next_msg_id (w_store w)) \<notin> dom (m_msg_db (w_store w))" if "m_last_msg_id (w_store w) + 1 \<noteq> 0"
    using that unatSuc [of "m_last_msg_id (w_store w)"]
    by (fastforce simp: next_msg_id_def word_le_nat_alt add.commute)
  then show ?thesis
    using store_ok_find [OF ok, of a] store_ok_live [OF ok, of i a] by (auto simp: registered_def)
qed

theorem store_never_dangles_witness:
  "m_msg_db (w_store (the (publish_buf 9 0 \<lparr>w_heap = [0 \<mapsto> CMbuf [1] 3], w_store = CMsgMemStore 4\<rparr>))) 5 = Some 0"
proof -
  let ?w = "\<lparr>w_heap = [0 \<mapsto> CMbuf [1] 3], w_store = CMsgMemStore 4\<rparr>"
  obtain w2 where w2: "publish_buf 9 0 ?w = Some w2"
    "w_heap w2 = [0 \<mapsto> (CMbuf [1] 3)\<lparr>m_mbuf_msg_type := 2, m_mbuf_msg_id := 5, m_mem_db := True\<rparr>]"
    by (auto simp: publish_buf_def next_msg_id_def regist_mem_store_def set_msg_id_def set_msg_type_def
        CMsgMemStore_def CMbuf_def MSG_PUBLISH_def)
  have "store_step \<lparr>w_heap = Map.empty, w_store = CMsgMemStore 4\<rparr> ?w"
    using store_step.alloc [of "\<lparr>w_heap = Map.empty, w_store = CMsgMemStore 4\<rparr>" 0 "[1]" 3] by simp
  moreover have "store_step ?w w2"
    by (rule store_step.publish [OF _ _ _ w2(1), where b = "CMbuf [1] 3"]) (simp_all add: CMbuf_def CMsgMemStore_def)
  ultimately have "store_step\<^sup>*\<^sup>* \<lparr>w_heap = Map.empty, w_store = CMsgMemStore 4\<rparr> w2" by auto
  then show ?thesis
    using store_never_dangles [of 4 w2 5 0] w2 by (simp add: CMbuf_def)
qed

text \<open>
  The statistics flush writes one line for each entry with a message id whose publication
  started more than two minutes ago, in table order, and clears exactly those entries; an entry
  just started has id 0 and is never written. Ids that agree modulo 65536 share an entry.
\<close>

theorem stat_flush_correct:
  "fst (stat_flush now tab) = map (stat_record now) (filter (stat_due now) tab) \<and>
   length (snd (stat_flush now tab)) = length tab \<and>
   (i < length tab \<longrightarrow> snd (stat_flush now tab) ! i = (if stat_due now (tab ! i) then start_stat now (tab ! i) else tab ! i)) \<and>
   \<not> stat_due later (start_stat now s) \<and>
   (fst (msg_stat m tab) = fst (msg_stat k tab) \<longleftrightarrow> unat m mod 65536 = unat k mod 65536)"
  by (simp add: stat_flush_eq stat_due_def start_stat_def msg_stat_def Let_def stat_idx_unat)

theorem stat_flush_correct_witness:
  "snd (stat_flush 200 [\<lparr>st_msg_id = 3, st_pub_start = 10, st_pub_end = 11, st_pub_online_num = 1,
     st_pub_offline_num = 0, st_min_delay = 0, st_max_delay = 0, st_ack_client = 1\<rparr>]) ! 0 =
   \<lparr>st_msg_id = 0, st_pub_start = 200, st_pub_end = 0, st_pub_online_num = 0, st_pub_offline_num = 0,
     st_min_delay = 0, st_max_delay = 0, st_ack_client = 0\<rparr>"
  using stat_flush_correct [of 200 "[\<lparr>st_msg_id = 3, st_pub_start = 10, st_pub_end = 11, st_pub_online_num = 1,
     st_pub_offline_num = 0, st_min_delay = 0, st_max_delay = 0, st_ack_client = 1\<rparr>]" 0]
  by (simp add: stat_due_def start_stat_def word_less_nat_alt)

end
