(* ===== verification/Event_Handler.thy ===== *)
theory Event_Handler
  imports Mbuf
begin

unbundle bit_operations_syntax

text \<open>
  The socket side of the reactor: \<^verbatim>\<open>src/reactor/event_handler.cpp\<close>, \<^verbatim>\<open>src/reactor/poller_epoll.cpp\<close>,
  \<^verbatim>\<open>include/reactor/sock_base.hpp\<close> and the forwarding functions of \<^verbatim>\<open>src/reactor/reactor.cpp\<close>.

  Handlers are heap objects named by numbers; \<open>m_handlers\<close> holds the live ones, so a use of a
  deleted handler is \<^const>\<open>None\<close>. Message buffers are shared objects of the heap of \<open>Mbuf\<close>, named by
  their addresses, because a partial write moves the read position of a buffer that other send
  queues may hold too. Virtual functions are arguments: \<open>hc\<close> is \<^verbatim>\<open>handle_close\<close> of the object's
  class, \<open>hi\<close> its \<^verbatim>\<open>handle_input\<close>. The world is an extensible record, which the broker extends.

  The kernel: \<open>w_writes\<close> gives the outcome of the successive \<^verbatim>\<open>write\<close> calls (a number of bytes, of
  which at most the requested are taken, or an error), \<open>w_sent\<close> the bytes taken per handler,
  \<open>m_epoll\<close> the interest list. \<open>w_errno\<close> is the global \<^verbatim>\<open>errno\<close>, which a successful call leaves
  alone. Logging is not modelled.

  The locale \<open>closing_handler\<close> is the contract between the send path and the class whose
  \<^verbatim>\<open>handle_close\<close> it calls; it is interpreted here for \<^verbatim>\<open>CEventHandler\<close> and in the broker for
  \<^verbatim>\<open>CMqttConnection\<close>.
\<close>

subsection \<open>Handlers and the world\<close>

type_synonym hid = nat

text \<open>A socket address is an IP address and a port (\<^verbatim>\<open>include/reactor/sock_address.hpp\<close>).\<close>

type_synonym csock_address = "cstring \<times> u16"

record cevent_handler =
  m_sock_handle :: int
  m_reactor_ptr :: bool
  m_current_event_mask :: u32
  m_recv_bytes :: u64
  m_recv_times :: u64
  m_send_bytes :: u64
  m_send_times :: u64
  m_schedule_write_times :: u64
  m_cancel_schedule_write_times :: u64
  m_max_msg_in_buffer :: u32
  m_send_msg_queue :: "addr list"
  m_str_peer_addr :: cstring
  m_accept_time :: u32

datatype write_res = Wrote nat | Write_error int

record ev_world =
  m_mem :: mbuf_world
  m_handlers :: "hid \<rightharpoonup> cevent_handler"
  m_map_event_handlers :: "(int \<times> hid) list"
  m_running_flag :: bool
  m_notify_writer :: "hid option"
  m_notify_deque :: "addr list"
  m_epoll :: "int \<rightharpoonup> (u32 \<times> hid)"
  w_errno :: int
  w_writes :: "nat \<Rightarrow> write_res"
  w_calls :: nat
  w_sent :: "hid \<Rightarrow> bytes"

definition INVALID_SOCKET :: int where "INVALID_SOCKET = -1"

text \<open>\<open>m_current_event_mask\<close> is not set by the constructor, so its first value is an argument.\<close>

definition CEventHandler :: "u32 \<Rightarrow> bool \<Rightarrow> u32 \<Rightarrow> cevent_handler" where
  "CEventHandler mask0 reactor now =
     \<lparr>m_sock_handle = INVALID_SOCKET, m_reactor_ptr = reactor, m_current_event_mask = mask0, m_recv_bytes = 0,
      m_recv_times = 0, m_send_bytes = 0, m_send_times = 0, m_schedule_write_times = 0,
      m_cancel_schedule_write_times = 0, m_max_msg_in_buffer = 50, m_send_msg_queue = [], m_str_peer_addr = [],
      m_accept_time = now\<rparr>"

definition upd_handler :: "hid \<Rightarrow> (cevent_handler \<Rightarrow> cevent_handler) \<Rightarrow> 'a ev_world_scheme \<Rightarrow> 'a ev_world_scheme" where
  "upd_handler h f w = w\<lparr>m_handlers := (m_handlers w)(h := map_option f (m_handlers w h))\<rparr>"

definition heap :: "'a ev_world_scheme \<Rightarrow> addr \<rightharpoonup> cmbuf" where
  "heap w = w_heap (m_mem w)"

definition upd_mbuf :: "addr \<Rightarrow> (cmbuf \<Rightarrow> cmbuf) \<Rightarrow> 'a ev_world_scheme \<Rightarrow> 'a ev_world_scheme" where
  "upd_mbuf a f w =
     w\<lparr>m_mem := (m_mem w)\<lparr>w_heap := (w_heap (m_mem w))(a := map_option f (w_heap (m_mem w) a))\<rparr>\<rparr>"

subsection \<open>The kernel\<close>

definition EINTR :: int where "EINTR = 4"

definition EAGAIN :: int where "EAGAIN = 11"

definition EWOULDBLOCK :: int where "EWOULDBLOCK = 11"

definition ENOENT :: int where "ENOENT = 2"

definition EBADF :: int where "EBADF = 9"

definition EEXIST :: int where "EEXIST = 17"

lemmas errno_defs = EINTR_def EAGAIN_def EWOULDBLOCK_def ENOENT_def EBADF_def EEXIST_def

definition blocking :: "int \<Rightarrow> bool" where
  "blocking e \<longleftrightarrow> e = EWOULDBLOCK \<or> e = EAGAIN \<or> e = EINTR"

definition os_write :: "int \<Rightarrow> hid \<Rightarrow> bytes \<Rightarrow> 'a ev_world_scheme \<Rightarrow> int \<times> 'a ev_world_scheme" where
  "os_write fd h bs w =
     (if fd < 0 then (-1, w\<lparr>w_errno := EBADF\<rparr>)
      else let r = w_writes w (w_calls w); w = w\<lparr>w_calls := Suc (w_calls w)\<rparr> in
        case r of
          Wrote k \<Rightarrow> (int (min k (length bs)), w\<lparr>w_sent := (w_sent w)(h := w_sent w h @ take k bs)\<rparr>)
        | Write_error e \<Rightarrow> (-1, w\<lparr>w_errno := e\<rparr>))"

datatype epoll_op = EPOLL_CTL_ADD | EPOLL_CTL_MOD | EPOLL_CTL_DEL

definition epoll_ctl :: "epoll_op \<Rightarrow> int \<Rightarrow> u32 \<times> hid \<Rightarrow> 'a ev_world_scheme \<Rightarrow> int \<times> 'a ev_world_scheme" where
  "epoll_ctl op fd ev w =
     (if fd < 0 then (-1, w\<lparr>w_errno := EBADF\<rparr>)
      else if op = EPOLL_CTL_ADD \<and> m_epoll w fd \<noteq> None then (-1, w\<lparr>w_errno := EEXIST\<rparr>)
      else if op \<noteq> EPOLL_CTL_ADD \<and> m_epoll w fd = None then (-1, w\<lparr>w_errno := ENOENT\<rparr>)
      else (0, w\<lparr>m_epoll := (m_epoll w)(fd := if op = EPOLL_CTL_DEL then None else Some ev)\<rparr>))"

text \<open>Closing a descriptor takes it off the interest list.\<close>

definition os_close :: "int \<Rightarrow> 'a ev_world_scheme \<Rightarrow> 'a ev_world_scheme" where
  "os_close fd w = w\<lparr>m_epoll := (m_epoll w)(fd := None)\<rparr>"

subsection \<open>CPollerEpoll: registration\<close>

definition EVENT_READ :: u32 where "EVENT_READ = 2"

definition EVENT_WRITE :: u32 where "EVENT_WRITE = 4"

definition EVENT_ERROR :: u32 where "EVENT_ERROR = 16"

definition EPOLLIN :: u32 where "EPOLLIN = 1"

definition EPOLLOUT :: u32 where "EPOLLOUT = 4"

definition EPOLLERR :: u32 where "EPOLLERR = 8"

definition EPOLLHUP :: u32 where "EPOLLHUP = 16"

lemmas event_defs = EVENT_READ_def EVENT_WRITE_def EVENT_ERROR_def EPOLLIN_def EPOLLOUT_def EPOLLERR_def EPOLLHUP_def

definition convert_event_mask :: "u32 \<Rightarrow> u32" where
  "convert_event_mask e =
     (let op = 0;
          op = (if e AND EVENT_READ \<noteq> 0 then op OR EPOLLIN else op);
          op = (if e AND EVENT_WRITE \<noteq> 0 then op OR EPOLLOUT else op)
      in if e AND EVENT_ERROR \<noteq> 0 then op OR EPOLLERR else op)"

definition add_event :: "hid \<Rightarrow> u32 \<Rightarrow> 'a ev_world_scheme \<Rightarrow> (int \<times> 'a ev_world_scheme) option" where
  "add_event h event_mask w =
     do {
       hd \<leftarrow> m_handlers w h;
       let socket_id = m_sock_handle hd;
       let (res, w) = epoll_ctl EPOLL_CTL_ADD socket_id (convert_event_mask event_mask, h) w;
       if res < 0 then Some (-1, w)
       else (case map_of (m_map_event_handlers w) socket_id of
           None \<Rightarrow> Some (0, upd_handler h (m_current_event_mask_update (\<lambda>_. event_mask))
                      (w\<lparr>m_map_event_handlers := m_map_event_handlers w @ [(socket_id, h)]\<rparr>))
         | Some h' \<Rightarrow> if h' = h then Some (0, w)
                      else Some (0, upd_handler h (m_current_event_mask_update (\<lambda>_. event_mask)) w))
     }"

definition del_event :: "hid \<Rightarrow> 'a ev_world_scheme \<Rightarrow> (int \<times> 'a ev_world_scheme) option" where
  "del_event h w =
     do {
       hd \<leftarrow> m_handlers w h;
       let socket_id = m_sock_handle hd;
       let (result, w) = epoll_ctl EPOLL_CTL_DEL socket_id (0, h) w;
       if result < 0 then Some (-1, w)
       else Some (0, (upd_handler h (m_current_event_mask_update (\<lambda>_. 0)) w)
              \<lparr>m_map_event_handlers := filter (\<lambda>(s, _). s \<noteq> socket_id) (m_map_event_handlers w)\<rparr>)
     }"

definition mod_event :: "hid \<Rightarrow> u32 \<Rightarrow> 'a ev_world_scheme \<Rightarrow> (int \<times> 'a ev_world_scheme) option" where
  "mod_event h event_mask w =
     do {
       hd \<leftarrow> m_handlers w h;
       let (res, w) = epoll_ctl EPOLL_CTL_MOD (m_sock_handle hd) (convert_event_mask event_mask, h) w;
       if res < 0 then Some (-1, w)
       else Some (0, upd_handler h (m_current_event_mask_update (\<lambda>_. event_mask)) w)
     }"

subsection \<open>CEventHandler: life cycle\<close>

text \<open>\<open>peer\<close> is what \<^verbatim>\<open>getpeername\<close> and \<^verbatim>\<open>inet_ntop\<close> give for the socket.\<close>

definition CEventHandler_open :: "cstring \<Rightarrow> hid \<Rightarrow> 'a ev_world_scheme \<Rightarrow> (int \<times> 'a ev_world_scheme) option" where
  "CEventHandler_open peer h w =
     do {
       hd \<leftarrow> m_handlers w h;
       if \<not> m_reactor_ptr hd then Some (-1, w)
       else add_event h EVENT_READ (upd_handler h (m_str_peer_addr_update (\<lambda>_. peer)) w)
     }"

definition CSockBase_close :: "hid \<Rightarrow> 'a ev_world_scheme \<Rightarrow> (int \<times> 'a ev_world_scheme) option" where
  "CSockBase_close h w =
     do {
       hd \<leftarrow> m_handlers w h;
       if m_sock_handle hd \<noteq> INVALID_SOCKET
       then Some (0, upd_handler h (m_sock_handle_update (\<lambda>_. INVALID_SOCKET)) (os_close (m_sock_handle hd) w))
       else Some (0, w)
     }"

definition CEventHandler_close :: "hid \<Rightarrow> 'a ev_world_scheme \<Rightarrow> (int \<times> 'a ev_world_scheme) option" where
  "CEventHandler_close h w =
     do {
       hd \<leftarrow> m_handlers w h;
       (_, w) \<leftarrow> (if m_reactor_ptr hd then del_event h w else None);
       (_, w) \<leftarrow> CSockBase_close h w;
       Some (0, w)
     }"

definition delete_handler :: "hid \<Rightarrow> 'a ev_world_scheme \<Rightarrow> 'a ev_world_scheme" where
  "delete_handler h w = w\<lparr>m_handlers := (m_handlers w)(h := None)\<rparr>"

definition CEventHandler_handle_close :: "hid \<Rightarrow> 'a ev_world_scheme \<Rightarrow> (int \<times> 'a ev_world_scheme) option" where
  "CEventHandler_handle_close h w =
     do {
       (_, w) \<leftarrow> CEventHandler_close h w;
       Some (0, delete_handler h w)
     }"

subsection \<open>CEventHandler: sending\<close>

definition schedule_write :: "hid \<Rightarrow> 'a ev_world_scheme \<Rightarrow> (int \<times> 'a ev_world_scheme) option" where
  "schedule_write h w =
     do {
       hd \<leftarrow> m_handlers w h;
       let w = upd_handler h (\<lambda>x. x\<lparr>m_schedule_write_times := m_schedule_write_times x + 1\<rparr>) w;
       if m_current_event_mask hd AND EVENT_WRITE > 0 then Some (0, w)
       else mod_event h (m_current_event_mask hd OR EVENT_WRITE) w
     }"

definition cancel_schedule_write :: "hid \<Rightarrow> 'a ev_world_scheme \<Rightarrow> (int \<times> 'a ev_world_scheme) option" where
  "cancel_schedule_write h w =
     do {
       hd \<leftarrow> m_handlers w h;
       let w = upd_handler h (\<lambda>x. x\<lparr>m_cancel_schedule_write_times := m_cancel_schedule_write_times x + 1\<rparr>) w;
       mod_event h (m_current_event_mask hd XOR EVENT_WRITE) w
     }"

text \<open>Result: return value, \<^verbatim>\<open>my_errno\<close>.\<close>

definition send :: "hid \<Rightarrow> addr \<Rightarrow> 'a ev_world_scheme \<Rightarrow> (int \<times> int \<times> 'a ev_world_scheme) option" where
  "send h a w =
     do {
       hd \<leftarrow> m_handlers w h;
       b \<leftarrow> heap w a;
       let len = mbuf_length b;
       bs \<leftarrow> mem_read (read_ptr b) 0 (unat len);
       let (n, w) = os_write (m_sock_handle hd) h bs w;
       let my_errno = w_errno w;
       if n \<le> 0 then
         if blocking my_errno then Some (0, my_errno, w) else Some (n, my_errno, w)
       else
         let w = upd_handler h (\<lambda>x. x\<lparr>m_send_times := m_send_times x + 1, m_send_bytes := m_send_bytes x + of_int n\<rparr>) w in
         if n < int (unat len) then Some (n, EWOULDBLOCK, upd_mbuf a (read_ptr_skip (of_int n)) w)
         else Some (n, my_errno, w\<lparr>w_errno := 0\<rparr>)
     }"

definition nonblk_send ::
  "(hid \<Rightarrow> 'a ev_world_scheme \<Rightarrow> (int \<times> 'a ev_world_scheme) option) \<Rightarrow> hid \<Rightarrow> addr \<Rightarrow>
    'a ev_world_scheme \<Rightarrow> (int \<times> 'a ev_world_scheme) option" where
  "nonblk_send hc h a w =
     do {
       (n, my_errno, w) \<leftarrow> send h a w;
       if n = -1 then do { (_, w) \<leftarrow> hc h w; Some (-1, w) }
       else if blocking my_errno then do {
         (_, w) \<leftarrow> schedule_write h (upd_handler h (\<lambda>x. x\<lparr>m_send_msg_queue := a # m_send_msg_queue x\<rparr>) w);
         Some (0, w)
       }
       else Some (n, w)
     }"

definition put ::
  "(hid \<Rightarrow> 'a ev_world_scheme \<Rightarrow> (int \<times> 'a ev_world_scheme) option) \<Rightarrow> hid \<Rightarrow> addr \<Rightarrow>
    'a ev_world_scheme \<Rightarrow> (int \<times> 'a ev_world_scheme) option" where
  "put hc h a w =
     do {
       hd \<leftarrow> m_handlers w h;
       _ \<leftarrow> heap w a;
       if m_send_msg_queue hd = [] then nonblk_send hc h a w
       else if (of_nat (length (m_send_msg_queue hd)) :: u32) \<ge> m_max_msg_in_buffer hd then Some (-1, w)
       else do {
         (_, w) \<leftarrow> schedule_write h (upd_handler h (\<lambda>x. x\<lparr>m_send_msg_queue := m_send_msg_queue x @ [a]\<rparr>) w);
         Some (0, w)
       }
     }"

definition handle_output ::
  "(hid \<Rightarrow> 'a ev_world_scheme \<Rightarrow> (int \<times> 'a ev_world_scheme) option) \<Rightarrow> hid \<Rightarrow>
    'a ev_world_scheme \<Rightarrow> (int \<times> 'a ev_world_scheme) option" where
  "handle_output hc h w =
     do {
       hd \<leftarrow> m_handlers w h;
       case m_send_msg_queue hd of
         [] \<Rightarrow> do { (_, w) \<leftarrow> cancel_schedule_write h w; Some (0, w) }
       | a # q \<Rightarrow> do {
           (_, w) \<leftarrow> nonblk_send hc h a (upd_handler h (m_send_msg_queue_update (\<lambda>_. q)) w);
           hd \<leftarrow> m_handlers w h;
           if m_send_msg_queue hd = [] then do { (_, w) \<leftarrow> cancel_schedule_write h w; Some (0, w) }
           else Some (0, w)
         }
     }"

text \<open>
  \<^verbatim>\<open>write_n\<close>, in this class and as a function of \<^verbatim>\<open>mqtt_connection.cpp\<close>: it goes on as long as the
  socket blocks and may not return, which is \<^const>\<open>None\<close>. The pointer is not advanced.
\<close>

partial_function (option) write_n_loop ::
  "int \<Rightarrow> hid \<Rightarrow> bytes \<Rightarrow> nat \<Rightarrow> 'a ev_world_scheme \<Rightarrow> (bool \<times> 'a ev_world_scheme) option" where
  "write_n_loop fd h buf len w =
     (if len = 0 then Some (True, w)
      else
        let (res, w) = os_write fd h (take len buf) w in
        if res = 0 then write_n_loop fd h buf len w
        else if res < 0 then if blocking (w_errno w) then write_n_loop fd h buf len w else Some (False, w)
        else write_n_loop fd h buf (len - nat res) w)"

definition write_n :: "hid \<Rightarrow> bytes \<Rightarrow> nat \<Rightarrow> 'a ev_world_scheme \<Rightarrow> (int \<times> 'a ev_world_scheme) option" where
  "write_n h buf len w =
     do {
       hd \<leftarrow> m_handlers w h;
       _ \<leftarrow> mem_read buf 0 len;
       (ok, w) \<leftarrow> write_n_loop (m_sock_handle hd) h buf len w;
       Some (if ok then int len else -1, w)
     }"

lemma write_n_loop_whole:
  assumes "0 \<le> fd" "w_writes w (w_calls w) = Wrote k" "length bs \<le> k" "bs \<noteq> []"
  shows "write_n_loop fd h (bs @ r) (length bs) w =
    Some (True, w\<lparr>w_calls := Suc (w_calls w), w_sent := (w_sent w)(h := w_sent w h @ bs)\<rparr>)"
    "write_n_loop fd h bs (length bs) w = Some (True, w\<lparr>w_calls := Suc (w_calls w), w_sent := (w_sent w)(h := w_sent w h @ bs)\<rparr>)"
proof -
  have "os_write fd h bs w = (int (length bs), w\<lparr>w_calls := Suc (w_calls w), w_sent := (w_sent w)(h := w_sent w h @ bs)\<rparr>)"
    using assms by (simp add: os_write_def Let_def min_def)
  then show "write_n_loop fd h (bs @ r) (length bs) w =
      Some (True, w\<lparr>w_calls := Suc (w_calls w), w_sent := (w_sent w)(h := w_sent w h @ bs)\<rparr>)" for r
    using assms(4) by (subst write_n_loop.simps) (simp add: write_n_loop.simps [of _ _ _ 0])
  from this [of "[]"] show "write_n_loop fd h bs (length bs) w = Some (True, w\<lparr>w_calls := Suc (w_calls w), w_sent := (w_sent w)(h := w_sent w h @ bs)\<rparr>)"
    by simp
qed

lemma os_write_frame: "os_write fd h bs w = (res, w') \<Longrightarrow> ev_world.more w' = ev_world.more w \<and> m_mem w' = m_mem w"
  by (auto simp: os_write_def Let_def split: if_splits write_res.splits)

lemma write_n_loop_frame:
  assumes "write_n_loop fd h buf len w = Some (ok, w')"
  shows "ev_world.more w' = ev_world.more w"
proof -
  have "ev_world.more (snd y) = ev_world.more w" if "write_n_loop fd h buf len w = Some y" for y
  proof (rule write_n_loop.raw_induct [where P = "\<lambda>fd h buf len w y. ev_world.more (snd y) = ev_world.more w", OF _ that], goal_cases)
    case (1 f fd h buf len w y)
    obtain res w1 where o: "os_write fd h (take len buf) w = (res, w1)" by fastforce
    then show ?case using 1 os_write_frame [OF o] by (auto split: if_splits)
  qed
  from this [OF assms] show ?thesis by simp
qed

subsection \<open>CPollerEpoll: the event loop\<close>

text \<open>An event of \<^verbatim>\<open>epoll_wait\<close>: its mask, the pointer registered with the descriptor and what a
  \<^verbatim>\<open>read\<close> of the descriptor will return. A result of \<^verbatim>\<open>epoll_wait\<close> is an error number or events.\<close>

datatype read_res = Read bytes | Read_error int

type_synonym poll_event = "u32 \<times> hid option \<times> read_res"

text \<open>
  The treatment of one event, on any state: \<open>live\<close> tells whether the handler object exists, and \<open>hi\<close>, \<open>ho\<close> and
  \<open>hc\<close> are the virtual functions \<^verbatim>\<open>handle_input\<close>, \<^verbatim>\<open>handle_output\<close> and \<^verbatim>\<open>handle_close\<close>.
\<close>

definition dispatch ::
  "('s \<Rightarrow> hid \<Rightarrow> bool) \<Rightarrow> (read_res \<Rightarrow> hid \<Rightarrow> 's \<Rightarrow> (int \<times> 's) option) \<Rightarrow> (hid \<Rightarrow> 's \<Rightarrow> (int \<times> 's) option) \<Rightarrow>
   (hid \<Rightarrow> 's \<Rightarrow> (int \<times> 's) option) \<Rightarrow> poll_event \<Rightarrow> 's \<Rightarrow> 's option" where
  "dispatch live hi ho hc e w =
     (case e of (event, ptr, rd) \<Rightarrow> (case ptr of
        None \<Rightarrow> Some w
      | Some h \<Rightarrow>
          if \<not> live w h then None
          else if event AND (EPOLLHUP OR EPOLLERR) \<noteq> 0 then do { (_, w) \<leftarrow> hc h w; Some w }
          else do {
            (r, w) \<leftarrow> (if event AND EPOLLIN \<noteq> 0 then hi rd h w else Some (0, w));
            if r < 0 then do { (_, w) \<leftarrow> hc h w; Some w }
            else if event AND EPOLLOUT \<noteq> 0 then do {
              (r, w) \<leftarrow> ho h w;
              if r < 0 then do { (_, w) \<leftarrow> hc h w; Some w } else Some w
            }
            else Some w
          }))"

text \<open>The same on a world whose handlers are all of one class, with \<^verbatim>\<open>handle_output\<close> of the base class.\<close>

definition poll_dispatch ::
  "(read_res \<Rightarrow> hid \<Rightarrow> 'a ev_world_scheme \<Rightarrow> (int \<times> 'a ev_world_scheme) option) \<Rightarrow>
   (hid \<Rightarrow> 'a ev_world_scheme \<Rightarrow> (int \<times> 'a ev_world_scheme) option) \<Rightarrow>
   poll_event \<Rightarrow> 'a ev_world_scheme \<Rightarrow> 'a ev_world_scheme option" where
  "poll_dispatch hi hc = dispatch (\<lambda>w h. m_handlers w h \<noteq> None) hi (handle_output hc) hc"

lemmas poll_dispatch_defs = poll_dispatch_def dispatch_def

fun poll_events :: "(poll_event \<Rightarrow> 's \<Rightarrow> 's option) \<Rightarrow> poll_event list \<Rightarrow> 's \<Rightarrow> 's option" where
  "poll_events step [] w = Some w"
| "poll_events step (e # es) w = do { w \<leftarrow> step e w; poll_events step es w }"

text \<open>One round: \<open>running\<close> reads \<^verbatim>\<open>m_running_flag\<close>, \<open>set_errno\<close> is the effect of a failing \<^verbatim>\<open>epoll_wait\<close>.\<close>

definition poller_run ::
  "('s \<Rightarrow> bool) \<Rightarrow> (int \<Rightarrow> 's \<Rightarrow> 's) \<Rightarrow> (poll_event \<Rightarrow> 's \<Rightarrow> 's option) \<Rightarrow> int + poll_event list \<Rightarrow> 's \<Rightarrow> (bool \<times> 's) option" where
  "poller_run running set_errno step result w =
     (if \<not> running w then Some (False, w)
      else case result of
          Inl e \<Rightarrow> Some (e = EINTR, set_errno e w)
        | Inr events \<Rightarrow> do { w \<leftarrow> poll_events step events w; Some (True, w) })"

definition poller_stop :: "'a ev_world_scheme \<Rightarrow> 'a ev_world_scheme" where
  "poller_stop w = w\<lparr>m_running_flag := False\<rparr>"

text \<open>The destructor's loop over the registered handlers: it ends when the map is empty.\<close>

partial_function (option) poller_close ::
  "(hid \<Rightarrow> 'a ev_world_scheme \<Rightarrow> (int \<times> 'a ev_world_scheme) option) \<Rightarrow> 'a ev_world_scheme \<Rightarrow> 'a ev_world_scheme option" where
  "poller_close hc w =
     (case m_map_event_handlers w of
        [] \<Rightarrow> Some w
      | (_, h) # _ \<Rightarrow> (case hc h w of None \<Rightarrow> None | Some (_, w) \<Rightarrow> poller_close hc w))"

subsection \<open>CPollerEpoll: notifications\<close>

definition regist_notify :: "hid \<Rightarrow> 'a ev_world_scheme \<Rightarrow> 'a ev_world_scheme" where
  "regist_notify h w = w\<lparr>m_notify_writer := Some h\<rparr>"

definition unregist_notify :: "'a ev_world_scheme \<Rightarrow> 'a ev_world_scheme" where
  "unregist_notify w = w\<lparr>m_notify_writer := None\<rparr>"

text \<open>\<open>ntf\<close> is the virtual \<^verbatim>\<open>notify()\<close> of the registered handler.\<close>

definition poller_notify ::
  "(hid \<Rightarrow> 'a ev_world_scheme \<Rightarrow> (int \<times> 'a ev_world_scheme) option) \<Rightarrow> addr \<Rightarrow>
    'a ev_world_scheme \<Rightarrow> (int \<times> 'a ev_world_scheme) option" where
  "poller_notify ntf a w =
     (case m_notify_writer w of
        None \<Rightarrow> Some (-1, w)
      | Some h \<Rightarrow> ntf h (w\<lparr>m_notify_deque := m_notify_deque w @ [a]\<rparr>))"

definition pop_front :: "'a ev_world_scheme \<Rightarrow> int \<times> addr option \<times> 'a ev_world_scheme" where
  "pop_front w =
     (case m_notify_deque w of [] \<Rightarrow> (-1, None, w) | a # q \<Rightarrow> (0, Some a, w\<lparr>m_notify_deque := q\<rparr>))"

definition push_back :: "addr \<Rightarrow> 'a ev_world_scheme \<Rightarrow> int \<times> 'a ev_world_scheme" where
  "push_back a w = (0, w\<lparr>m_notify_deque := m_notify_deque w @ [a]\<rparr>)"

subsection \<open>What registration leaves alone\<close>

text \<open>Changes of the interest mask touch neither buffers nor sent bytes nor queues, and do not make
  \<^verbatim>\<open>errno\<close> look like that of a blocking call.\<close>

definition send_view :: "cevent_handler \<Rightarrow> addr list \<times> int \<times> u32" where
  "send_view x = (m_send_msg_queue x, m_sock_handle x, m_max_msg_in_buffer x)"

definition quiet :: "hid \<Rightarrow> 'a ev_world_scheme \<Rightarrow> 'a ev_world_scheme \<Rightarrow> bool" where
  "quiet h w w' \<longleftrightarrow> m_mem w' = m_mem w \<and> w_sent w' = w_sent w \<and> w_writes w' = w_writes w \<and> w_calls w' = w_calls w \<and>
     ev_world.more w' = ev_world.more w \<and>
     (blocking (w_errno w') \<longrightarrow> blocking (w_errno w)) \<and> (\<forall>k. k \<noteq> h \<longrightarrow> m_handlers w' k = m_handlers w k) \<and>
     map_option send_view (m_handlers w' h) = map_option send_view (m_handlers w h)"

lemma quiet_trans: "quiet h w w' \<Longrightarrow> quiet h w' w'' \<Longrightarrow> quiet h w w''"
  by (simp add: quiet_def)

lemma upd_handler_simps [simp]:
  "m_mem (upd_handler h f w) = m_mem w" "w_sent (upd_handler h f w) = w_sent w" "w_errno (upd_handler h f w) = w_errno w"
  "w_writes (upd_handler h f w) = w_writes w" "w_calls (upd_handler h f w) = w_calls w" "heap (upd_handler h f w) = heap w"
  "m_handlers (upd_handler h f w) k = (if k = h then map_option f (m_handlers w h) else m_handlers w k)"
  "ev_world.more (upd_handler h f w) = ev_world.more w"
  by (auto simp: upd_handler_def heap_def)

lemma quiet_upd: "(\<And>x. send_view (f x) = send_view x) \<Longrightarrow> quiet h w (upd_handler h f w)"
  by (cases "m_handlers w h") (simp_all add: quiet_def)

lemma epoll_ctl_quiet: "epoll_ctl op fd ev w = (r, w') \<Longrightarrow> quiet h w w'"
  by (auto simp: epoll_ctl_def quiet_def blocking_def errno_defs split: if_splits)

lemma mod_event_quiet:
  assumes "m_handlers w h = Some x"
  shows "\<exists>r w'. mod_event h m w = Some (r, w') \<and> quiet h w w'"
proof -
  obtain r w1 where e: "epoll_ctl EPOLL_CTL_MOD (m_sock_handle x) (convert_event_mask m, h) w = (r, w1)"
    by fastforce
  note q = epoll_ctl_quiet [OF e, of h]
  have "quiet h w (upd_handler h (m_current_event_mask_update (\<lambda>_. m)) w1)"
    by (rule quiet_trans [OF q], rule quiet_upd) (simp add: send_view_def)
  then show ?thesis using assms e q by (simp add: mod_event_def)
qed

lemma schedule_write_quiet:
  assumes "m_handlers w h = Some x"
  shows "\<exists>r w'. schedule_write h w = Some (r, w') \<and> quiet h w w'"
proof -
  let ?f = "\<lambda>x. x\<lparr>m_schedule_write_times := m_schedule_write_times x + 1\<rparr>"
  let ?w = "upd_handler h ?f w"
  have q: "quiet h w ?w" by (rule quiet_upd) (simp add: send_view_def)
  moreover obtain r w' where "mod_event h (m_current_event_mask x OR EVENT_WRITE) ?w = Some (r, w')" "quiet h ?w w'"
    using mod_event_quiet [of ?w h "?f x" "m_current_event_mask x OR EVENT_WRITE"] assms by auto
  ultimately show ?thesis
    using assms quiet_trans [OF q] by (cases "m_current_event_mask x AND EVENT_WRITE > 0") (auto simp: schedule_write_def Let_def)
qed

lemma cancel_schedule_write_quiet:
  assumes "m_handlers w h = Some x"
  shows "\<exists>r w'. cancel_schedule_write h w = Some (r, w') \<and> quiet h w w'"
proof -
  let ?f = "\<lambda>x. x\<lparr>m_cancel_schedule_write_times := m_cancel_schedule_write_times x + 1\<rparr>"
  let ?w = "upd_handler h ?f w"
  have q: "quiet h w ?w" by (rule quiet_upd) (simp add: send_view_def)
  moreover obtain r w' where "mod_event h (m_current_event_mask x XOR EVENT_WRITE) ?w = Some (r, w')" "quiet h ?w w'"
    using mod_event_quiet [of ?w h "?f x" "m_current_event_mask x XOR EVENT_WRITE"] assms by auto
  ultimately show ?thesis using assms quiet_trans [OF q] by (auto simp: cancel_schedule_write_def Let_def)
qed

subsection \<open>The send queue as a byte stream\<close>

text \<open>\<open>pending\<close> is what is queued for the peer of a handler. A handler is
  \<open>sending q\<close> when it is live with send queue \<open>q\<close> of distinct, readable, non-empty buffers.\<close>

definition contents :: "'a ev_world_scheme \<Rightarrow> addr \<Rightarrow> bytes" where
  "contents w a = (case heap w a of None \<Rightarrow> [] | Some b \<Rightarrow> mbuf_contents b)"

definition pending :: "'a ev_world_scheme \<Rightarrow> addr list \<Rightarrow> bytes" where
  "pending w q = concat (map (contents w) q)"

definition readable :: "'a ev_world_scheme \<Rightarrow> addr \<Rightarrow> bool" where
  "readable w a \<longleftrightarrow> (\<exists>b. heap w a = Some b \<and> mbuf_wf b \<and> mbuf_contents b \<noteq> [])"

definition sending :: "hid \<Rightarrow> addr list \<Rightarrow> 'a ev_world_scheme \<Rightarrow> bool" where
  "sending h q w \<longleftrightarrow> distinct q \<and> (\<forall>a\<in>set q. readable w a) \<and> \<not> blocking (w_errno w) \<and>
     (\<exists>x. m_handlers w h = Some x \<and> m_send_msg_queue x = q \<and> 0 \<le> m_sock_handle x \<and> m_max_msg_in_buffer x = 50)"

lemma sendingE:
  assumes "sending h q w"
  obtains x where "m_handlers w h = Some x" "m_send_msg_queue x = q" "0 \<le> m_sock_handle x" "m_max_msg_in_buffer x = 50"
    "distinct q" "\<forall>a\<in>set q. readable w a" "\<not> blocking (w_errno w)"
  using assms by (auto simp: sending_def)

lemma stream_cong:
  "heap w' = heap w \<Longrightarrow> contents w' = contents w \<and> pending w' = pending w \<and> readable w' = readable w"
  unfolding contents_def [abs_def] pending_def [abs_def] readable_def [abs_def] by simp

lemma quiet_heap: "quiet h w w' \<Longrightarrow> heap w' = heap w"
  by (simp add: quiet_def heap_def)

lemma quiet_sending: "quiet h w w' \<Longrightarrow> sending h q w \<Longrightarrow> sending h q w'"
  using stream_cong [OF quiet_heap [of h w w']] by (auto simp: quiet_def sending_def send_view_def)

lemma upd_handler_stream [simp]:
  "contents (upd_handler h f w) = contents w" "pending (upd_handler h f w) = pending w" "readable (upd_handler h f w) = readable w"
  using stream_cong [of "upd_handler h f w" w] by simp_all

lemma upd_mbuf_simps [simp]:
  "m_handlers (upd_mbuf a f w) = m_handlers w" "w_sent (upd_mbuf a f w) = w_sent w" "w_errno (upd_mbuf a f w) = w_errno w"
  "w_writes (upd_mbuf a f w) = w_writes w" "w_calls (upd_mbuf a f w) = w_calls w"
  "heap (upd_mbuf a f w) c = (if c = a then map_option f (heap w a) else heap w c)"
  by (simp_all add: upd_mbuf_def heap_def)

lemma contents_cong: "(\<And>a. a \<in> set q \<Longrightarrow> heap w' a = heap w a) \<Longrightarrow> pending w' q = pending w q"
  by (simp add: pending_def contents_def cong: map_cong)

text \<open>One \<^verbatim>\<open>write\<close> that takes at least one byte: the whole message is gone, or its tail stays in the buffer.\<close>

lemma send_wrote:
  assumes x: "m_handlers w h = Some x" "0 \<le> m_sock_handle x" and b: "heap w a = Some b" "mbuf_wf b" "mbuf_contents b \<noteq> []"
    and k: "w_writes w (w_calls w) = Wrote k" "0 < k"
  obtains (all) n w' where "send h a w = Some (int n, w_errno w, w')" "0 < n \<and> length (mbuf_contents b) \<le> k" "w_sent w' = (w_sent w)(h := w_sent w h @ mbuf_contents b)"
      "heap w' = heap w" "w_errno w' = 0" "w_writes w' = w_writes w \<and> w_calls w' = Suc (w_calls w) \<and> ev_world.more w' = ev_world.more w"
      "\<exists>y. m_handlers w' = (m_handlers w)(h \<mapsto> y) \<and> send_view y = send_view x"
    | (part) n w' where "send h a w = Some (int n, EWOULDBLOCK, w')" "0 < n" "n = k \<and> k < length (mbuf_contents b)"
      "w_sent w' = (w_sent w)(h := w_sent w h @ take n (mbuf_contents b))"
      "heap w' = (heap w)(a \<mapsto> read_ptr_skip (of_nat n) b)" "w_errno w' = w_errno w" "w_writes w' = w_writes w \<and> w_calls w' = Suc (w_calls w) \<and> ev_world.more w' = ev_world.more w"
      "\<exists>y. m_handlers w' = (m_handlers w)(h \<mapsto> y) \<and> send_view y = send_view x"
proof -
  let ?c = "mbuf_contents b" and ?n = "min k (length (mbuf_contents b))"
  have len: "unat (mbuf_length b) = length ?c" by (rule mbuf_length_contents [OF b(2)])
  have "length ?c \<le> length (read_ptr b)"
    using arg_cong [OF read_ptr_contents [OF b(2)], of length] len by simp
  then have rd: "mem_read (read_ptr b) 0 (unat (mbuf_length b)) = Some ?c"
    using read_ptr_contents [OF b(2)] len by (simp add: mem_read_def)
  have n: "0 < ?n" using k b(3) by simp
  let ?w = "w\<lparr>w_calls := Suc (w_calls w), w_sent := (w_sent w)(h := w_sent w h @ take k ?c)\<rparr>"
  have wr: "os_write (m_sock_handle x) h ?c w = (int ?n, ?w)"
    using x(2) k by (simp add: os_write_def Let_def)
  have hf: "m_handlers (upd_handler h f ?w) = (m_handlers w)(h \<mapsto> f x)" for f
    using x(1) by (auto simp: upd_handler_def)
  show thesis
  proof (cases "k < length ?c")
    case True
    then show thesis
      using x b rd wr n len part
      by (simp add: send_def hf fun_eq_iff heap_def upd_handler_def upd_mbuf_def send_view_def)
  next
    case False
    then show thesis
      using x b rd wr n len all
      by (simp add: send_def hf fun_eq_iff heap_def upd_handler_def send_view_def)
  qed
qed

text \<open>A message handed to \<^verbatim>\<open>nonblk_send\<close> joins the stream in front of the queue.\<close>

lemma nonblk_send_stream:
  assumes S: "sending h q w" and a: "readable w a" "a \<notin> set q" and k: "w_writes w (w_calls w) = Wrote k" "0 < k"
  shows "\<exists>r w' q'. nonblk_send hc h a w = Some (r, w') \<and> 0 \<le> r \<and> sending h q' w' \<and> (q' = q \<or> q' = a # q) \<and>
    w_sent w' h @ pending w' q' = w_sent w h @ contents w a @ pending w q \<and> w_writes w' = w_writes w \<and>
    (\<forall>c. c \<noteq> a \<longrightarrow> heap w' c = heap w c) \<and> (\<forall>k. k \<noteq> h \<longrightarrow> m_handlers w' k = m_handlers w k \<and> w_sent w' k = w_sent w k)"
proof -
  obtain x where x: "m_handlers w h = Some x" "m_send_msg_queue x = q" "0 \<le> m_sock_handle x" "m_max_msg_in_buffer x = 50"
    "distinct q" "\<forall>a\<in>set q. readable w a" "\<not> blocking (w_errno w)" using S by (rule sendingE)
  obtain b where b: "heap w a = Some b" "mbuf_wf b" "mbuf_contents b \<noteq> []" using a(1) by (auto simp: readable_def)
  have c: "contents w a = mbuf_contents b" using b(1) by (simp add: contents_def)
  from x(1,3) b k show ?thesis
  proof (cases rule: send_wrote)
    case (all n w')
    then obtain y where y: "m_handlers w' = (m_handlers w)(h \<mapsto> y)" "send_view y = send_view x" by blast
    have "sending h q w'"
      using all y x stream_cong [OF all(4)] by (auto simp: sending_def send_view_def blocking_def errno_defs)
    then show ?thesis
      using all x(7) y c stream_cong [OF all(4)]
      by (intro exI [of _ "int n"] exI [of _ w'] exI [of _ q]) (simp add: nonblk_send_def)
  next
    case (part n w')
    then obtain y where y: "m_handlers w' = (m_handlers w)(h \<mapsto> y)" "send_view y = send_view x" by blast
    let ?u = "upd_handler h (\<lambda>x. x\<lparr>m_send_msg_queue := a # m_send_msg_queue x\<rparr>) w'"
    note skip = read_ptr_skip_drop [OF b(2), of k]
    have pe: "pending w' q = pending w q" using part(5) a(2) by (intro contents_cong) auto
    have ra: "readable w' a" using part(3,5) skip by (simp add: readable_def)
    have rq: "\<forall>c\<in>set q. readable w' c" using part(5) a(2) x(6) by (auto simp: readable_def)
    have "sending h (a # q) ?u"
      using y part(6) x a(2) ra rq by (auto simp: sending_def send_view_def)
    moreover obtain r2 w2 where w2: "schedule_write h ?u = Some (r2, w2)" "quiet h ?u w2"
      using schedule_write_quiet [of ?u h] y(1) by auto
    ultimately have "sending h (a # q) w2" using quiet_sending by blast
    moreover have "contents w' a = drop n (mbuf_contents b)"
      using part(3,5) skip by (simp add: contents_def)
    then have "w_sent w2 h @ pending w2 (a # q) = w_sent w h @ contents w a @ pending w q"
      using stream_cong [OF quiet_heap [OF w2(2)]] w2(2) part(4) pe c by (simp add: quiet_def pending_def)
    moreover have "w_sent w2 k = w_sent w k \<and> m_handlers w2 k = m_handlers w k" if "k \<noteq> h" for k
      using that w2(2) y(1) part(4) by (simp add: quiet_def)
    ultimately show ?thesis
      using part w2 quiet_heap [OF w2(2)]
      by (intro exI [of _ 0] exI [of _ w2] exI [of _ "a # q"]) (simp add: nonblk_send_def blocking_def quiet_def)
  qed
qed

text \<open>A message that the kernel takes as a whole leaves an empty queue empty.\<close>

lemma put_whole:
  assumes S: "sending h [] w" and a: "readable w a" and k: "w_writes w (w_calls w) = Wrote k" "length (contents w a) \<le> k"
  shows "\<exists>r w'. put hc h a w = Some (r, w') \<and> 0 < r \<and> sending h [] w' \<and> heap w' = heap w \<and> w_writes w' = w_writes w \<and>
    w_sent w' = (w_sent w)(h := w_sent w h @ contents w a) \<and> ev_world.more w' = ev_world.more w \<and>
    \<not> blocking (w_errno w') \<and> (\<forall>k. k \<noteq> h \<longrightarrow> m_handlers w' k = m_handlers w k)"
proof -
  obtain x where x: "m_handlers w h = Some x" "m_send_msg_queue x = []" "0 \<le> m_sock_handle x" "m_max_msg_in_buffer x = 50"
    "\<not> blocking (w_errno w)" using S by (rule sendingE)
  obtain b where b: "heap w a = Some b" "mbuf_wf b" "mbuf_contents b \<noteq> []" using a by (auto simp: readable_def)
  have c: "contents w a = mbuf_contents b" using b(1) by (simp add: contents_def)
  have "0 < k" using k(2) b(3) c by (cases k) auto
  with x(1,3) b k(1) show ?thesis
  proof (cases rule: send_wrote)
    case (all n w')
    then obtain y where y: "m_handlers w' = (m_handlers w)(h \<mapsto> y)" "send_view y = send_view x" by blast
    have e: "\<not> blocking (w_errno w')" using all by (simp add: blocking_def errno_defs)
    then have "sending h [] w'" using y x by (simp add: sending_def send_view_def)
    then show ?thesis using all x y b(1) c e by (simp add: put_def nonblk_send_def)
  next
    case (part n w')
    then show ?thesis using k(2) c by simp
  qed
qed

lemma put_stream:
  assumes S: "sending h q w" and a: "readable w a" "a \<notin> set q" and k: "w_writes w (w_calls w) = Wrote k" "0 < k"
    and room: "length q < 50"
  shows "\<exists>r w' q'. put hc h a w = Some (r, w') \<and> 0 \<le> r \<and> sending h q' w' \<and> set q' \<subseteq> insert a (set q) \<and> length q' \<le> length q + 1 \<and>
    w_sent w' h @ pending w' q' = w_sent w h @ pending w q @ contents w a \<and> w_writes w' = w_writes w \<and>
    (\<forall>c. c \<notin> set (a # q) \<longrightarrow> heap w' c = heap w c)"
proof -
  obtain x where x: "m_handlers w h = Some x" "m_send_msg_queue x = q" "0 \<le> m_sock_handle x" "m_max_msg_in_buffer x = 50"
    "distinct q" "\<forall>a\<in>set q. readable w a" "\<not> blocking (w_errno w)" using S by (rule sendingE)
  obtain b where b: "heap w a = Some b" using a(1) by (auto simp: readable_def)
  show ?thesis
  proof (cases "q = []")
    case True
    obtain r w' q' where "nonblk_send hc h a w = Some (r, w')" "0 \<le> r" "sending h q' w'" "q' = q \<or> q' = a # q"
      "w_sent w' h @ pending w' q' = w_sent w h @ contents w a @ pending w q" "w_writes w' = w_writes w"
      "\<forall>c. c \<noteq> a \<longrightarrow> heap w' c = heap w c"
      using nonblk_send_stream [OF S a k, of hc] by blast
    then show ?thesis
      using True x b by (intro exI [of _ r] exI [of _ w'] exI [of _ q']) (auto simp: put_def pending_def)
  next
    case False
    have "\<not> (of_nat (length q) :: u32) \<ge> 50"
      using room by (simp add: word_le_nat_alt)
    moreover let ?u = "upd_handler h (\<lambda>x. x\<lparr>m_send_msg_queue := m_send_msg_queue x @ [a]\<rparr>) w"
    have "sending h (q @ [a]) ?u" using x a by (auto simp: sending_def)
    moreover obtain r2 w2 where w2: "schedule_write h ?u = Some (r2, w2)" "quiet h ?u w2"
      using schedule_write_quiet [of ?u h] x(1) by auto
    ultimately show ?thesis
      using False x b quiet_sending [OF w2(2)] stream_cong [OF quiet_heap [OF w2(2)]] quiet_heap [OF w2(2)]
      by (intro exI [of _ 0] exI [of _ w2] exI [of _ "q @ [a]"]) (simp add: put_def quiet_def pending_def)
  qed
qed

lemma handle_output_stream:
  assumes S: "sending h q w" and k: "w_writes w (w_calls w) = Wrote k" "0 < k"
  shows "\<exists>w' q'. handle_output hc h w = Some (0, w') \<and> sending h q' w' \<and> set q' \<subseteq> set q \<and> length q' \<le> length q \<and>
    w_sent w' h @ pending w' q' = w_sent w h @ pending w q \<and> w_writes w' = w_writes w \<and>
    (\<forall>c. c \<notin> set q \<longrightarrow> heap w' c = heap w c)"
proof -
  obtain x where x: "m_handlers w h = Some x" "m_send_msg_queue x = q" "0 \<le> m_sock_handle x" "m_max_msg_in_buffer x = 50"
    "distinct q" "\<forall>a\<in>set q. readable w a" "\<not> blocking (w_errno w)" using S by (rule sendingE)
  have cancel: "\<exists>r w'. cancel_schedule_write h u = Some (r, w') \<and> sending h q' w' \<and>
      w_sent w' = w_sent u \<and> heap w' = heap u \<and> pending w' = pending u \<and> w_writes w' = w_writes u"
    if Su: "sending h q' u" for u :: "'a ev_world_scheme" and q'
  proof -
    obtain y where "m_handlers u h = Some y" using Su by (rule sendingE)
    then obtain r w' where c: "cancel_schedule_write h u = Some (r, w')" "quiet h u w'"
      using cancel_schedule_write_quiet by blast
    then show ?thesis
      using quiet_sending [OF c(2) Su] quiet_heap [OF c(2)] stream_cong [OF quiet_heap [OF c(2)]] by (simp add: quiet_def)
  qed
  show ?thesis
  proof (cases q)
    case Nil
    obtain r w' where "cancel_schedule_write h w = Some (r, w')" "sending h q w'" "w_sent w' = w_sent w" "heap w' = heap w"
      "pending w' = pending w" "w_writes w' = w_writes w" using cancel [OF S] by blast
    then show ?thesis using Nil x by (intro exI [of _ w'] exI [of _ q]) (simp add: handle_output_def)
  next
    case (Cons a q2)
    let ?u = "upd_handler h (m_send_msg_queue_update (\<lambda>_. q2)) w"
    have "sending h q2 ?u" using x Cons by (simp add: sending_def)
    then obtain r w' q' where n: "nonblk_send hc h a ?u = Some (r, w')" "0 \<le> r" "sending h q' w'" "q' = q2 \<or> q' = a # q2"
      "w_sent w' h @ pending w' q' = w_sent w h @ contents w a @ pending w q2" "w_writes w' = w_writes w"
      "\<forall>c. c \<noteq> a \<longrightarrow> heap w' c = heap w c"
      using nonblk_send_stream [of h q2 ?u a k hc] x Cons k by auto
    obtain y where y: "m_handlers w' h = Some y" "m_send_msg_queue y = q'" using n(3) by (rule sendingE)
    obtain r2 w2 where w2: "cancel_schedule_write h w' = Some (r2, w2)" "sending h q' w2" "w_sent w2 = w_sent w'" "heap w2 = heap w'"
      "pending w2 = pending w'" "w_writes w2 = w_writes w'" using cancel [OF n(3)] by blast
    have "handle_output hc h w = Some (0, if q' = [] then w2 else w')"
      using n(1) y x Cons w2(1) by (simp add: handle_output_def)
    then show ?thesis
      using n w2 Cons by (intro exI [of _ "if q' = [] then w2 else w'"] exI [of _ q']) (auto simp: pending_def)
  qed
qed

text \<open>The operations on a connection's send queue, in the order the reactor and the broker make them.\<close>

datatype send_op = Put_op addr | Output_op

fun run_ops ::
  "(hid \<Rightarrow> 'a ev_world_scheme \<Rightarrow> (int \<times> 'a ev_world_scheme) option) \<Rightarrow> hid \<Rightarrow> send_op list \<Rightarrow>
    'a ev_world_scheme \<Rightarrow> 'a ev_world_scheme option" where
  "run_ops hc h [] w = Some w"
| "run_ops hc h (Put_op a # ops) w = do { (_, w) \<leftarrow> put hc h a w; run_ops hc h ops w }"
| "run_ops hc h (Output_op # ops) w = do { (_, w) \<leftarrow> handle_output hc h w; run_ops hc h ops w }"

fun puts :: "send_op list \<Rightarrow> addr list" where
  "puts [] = []"
| "puts (Put_op a # ops) = a # puts ops"
| "puts (Output_op # ops) = puts ops"

lemma heap_cong:
  assumes "\<And>a. a \<in> A \<Longrightarrow> heap w' a = heap w a" "a \<in> A"
  shows "readable w' a = readable w a" "contents w' a = contents w a"
  using assms by (simp_all add: readable_def contents_def)

lemma run_ops_stream:
  assumes "sending h q w" "\<forall>a\<in>set (puts ops). readable w a" "distinct (q @ puts ops)"
    and "length q + length (puts ops) \<le> 50" "\<And>n. \<exists>k>0. w_writes w n = Wrote k"
  shows "\<exists>w' q'. run_ops hc h ops w = Some w' \<and> sending h q' w' \<and>
    w_sent w' h @ pending w' q' = w_sent w h @ pending w q @ concat (map (contents w) (puts ops))"
  using assms
proof (induction ops arbitrary: q w)
  case (Cons op ops)
  obtain k where k: "w_writes w (w_calls w) = Wrote k" "0 < k" using Cons.prems(5) by blast
  show ?case
  proof (cases op)
    case (Put_op a)
    with Cons.prems obtain r w1 q1 where 1: "put hc h a w = Some (r, w1)" "sending h q1 w1" "set q1 \<subseteq> insert a (set q)"
      "length q1 \<le> length q + 1" "w_sent w1 h @ pending w1 q1 = w_sent w h @ pending w q @ contents w a"
      "w_writes w1 = w_writes w" "\<forall>c. c \<notin> set (a # q) \<longrightarrow> heap w1 c = heap w c"
      using put_stream [OF Cons.prems(1) _ _ k, of a hc] by auto
    have same: "heap w1 c = heap w c" if "c \<in> set (puts ops)" for c using 1(7) Cons.prems(3) Put_op that by auto
    have "distinct q1" using 1(2) by (simp add: sending_def)
    then have "\<exists>w' q'. run_ops hc h ops w1 = Some w' \<and> sending h q' w' \<and>
        w_sent w' h @ pending w' q' = w_sent w1 h @ pending w1 q1 @ concat (map (contents w1) (puts ops))"
      using Cons.prems Put_op 1 heap_cong(1) [OF same] by (intro Cons.IH) auto
    moreover have "map (contents w1) (puts ops) = map (contents w) (puts ops)"
      using heap_cong(2) [OF same] by simp
    ultimately show ?thesis using 1 Put_op by (auto simp flip: append_assoc)
  next
    case Output_op
    with Cons.prems obtain w1 q1 where 1: "handle_output hc h w = Some (0, w1)" "sending h q1 w1" "set q1 \<subseteq> set q"
      "length q1 \<le> length q" "w_sent w1 h @ pending w1 q1 = w_sent w h @ pending w q"
      "w_writes w1 = w_writes w" "\<forall>c. c \<notin> set q \<longrightarrow> heap w1 c = heap w c"
      using handle_output_stream [OF Cons.prems(1) k, of hc] by auto
    have same: "heap w1 c = heap w c" if "c \<in> set (puts ops)" for c using 1(7) Cons.prems(3) Output_op that by auto
    have "distinct q1" using 1(2) by (simp add: sending_def)
    then have "\<exists>w' q'. run_ops hc h ops w1 = Some w' \<and> sending h q' w' \<and>
        w_sent w' h @ pending w' q' = w_sent w1 h @ pending w1 q1 @ concat (map (contents w1) (puts ops))"
      using Cons.prems Output_op 1 heap_cong(1) [OF same] by (intro Cons.IH) auto
    moreover have "map (contents w1) (puts ops) = map (contents w) (puts ops)"
      using heap_cong(2) [OF same] by simp
    ultimately show ?thesis using 1 Output_op by (auto simp flip: append_assoc)
  qed
qed auto

subsection \<open>Closing from inside the send path\<close>

text \<open>
  What the send path relies on in the \<^verbatim>\<open>handle_close\<close> it calls: the handler is deleted when it
  returns, and calling it again is a use of a deleted object. A write error in the send path
  therefore leaves the caller with a dangling pointer.
\<close>

locale closing_handler =
  fixes hc :: "hid \<Rightarrow> 'a ev_world_scheme \<Rightarrow> (int \<times> 'a ev_world_scheme) option"
  assumes close_deletes: "hc h w = Some (r, w') \<Longrightarrow> m_handlers w' h = None"
    and close_deleted: "m_handlers w h = None \<Longrightarrow> hc h w = None"
begin

lemma send_error:
  assumes "m_handlers w h = Some x" "readable w a" "w_writes w (w_calls w) = Write_error e" "\<not> blocking e" "0 \<le> m_sock_handle x"
  shows "\<exists>w'. send h a w = Some (-1, e, w') \<and> m_handlers w' = m_handlers w"
proof -
  obtain b where b: "heap w a = Some b" "mbuf_wf b" using assms(2) by (auto simp: readable_def)
  have "length (mbuf_contents b) \<le> length (read_ptr b)"
    using arg_cong [OF read_ptr_contents [OF b(2)], of length] mbuf_length_contents [OF b(2)] by simp
  then show ?thesis
    using assms b mbuf_length_contents [OF b(2)] by (simp add: send_def os_write_def Let_def mem_read_def)
qed

lemma nonblk_send_error:
  assumes "m_handlers w h = Some x" "readable w a" "w_writes w (w_calls w) = Write_error e" "\<not> blocking e" "0 \<le> m_sock_handle x"
    and "nonblk_send hc h a w = Some (r, w')"
  shows "r = -1 \<and> m_handlers w' h = None"
  using send_error [OF assms(1-5)] assms(6) close_deletes by (auto simp: nonblk_send_def bind_eq_Some_conv)

lemma put_error:
  assumes "m_handlers w h = Some x" "m_send_msg_queue x = []" "readable w a" "w_writes w (w_calls w) = Write_error e"
    "\<not> blocking e" "0 \<le> m_sock_handle x" "put hc h a w = Some (r, w')"
  shows "r = -1 \<and> m_handlers w' h = None"
  using nonblk_send_error [OF assms(1,3-6)] assms by (auto simp: put_def bind_eq_Some_conv)

lemma handle_output_error:
  assumes "m_handlers w h = Some x" "m_send_msg_queue x = a # q" "readable w a" "w_writes w (w_calls w) = Write_error e"
    "\<not> blocking e" "0 \<le> m_sock_handle x"
  shows "handle_output hc h w = None"
proof -
  let ?u = "upd_handler h (m_send_msg_queue_update (\<lambda>_. q)) w"
  have "r = -1 \<and> m_handlers w' h = None" if "nonblk_send hc h a ?u = Some (r, w')" for r w'
    using nonblk_send_error [of ?u h "x\<lparr>m_send_msg_queue := q\<rparr>" a e r w'] assms that by simp
  then show ?thesis
    using assms(1,2) by (cases "nonblk_send hc h a ?u") (auto simp: handle_output_def)
qed

lemma dispatch_after_close:
  assumes "event AND (EPOLLHUP OR EPOLLERR) = 0" "event AND EPOLLIN \<noteq> 0"
    and "\<And>r w'. hi rd h w = Some (r, w') \<Longrightarrow> r < 0 \<and> m_handlers w' h = None"
  shows "poll_dispatch hi hc (event, Some h, rd) w = None"
  using assms close_deleted
  by (cases "m_handlers w h"; cases "hi rd h w") (auto simp: poll_dispatch_defs)

end

lemma CSockBase_close_handlers:
  "CSockBase_close h w = Some (r, w') \<Longrightarrow> (\<exists>x. m_handlers w h = Some x) \<and> (\<exists>y. m_handlers w' h = Some y)"
  by (auto simp: CSockBase_close_def os_close_def bind_eq_Some_conv split: if_splits)

interpretation base: closing_handler CEventHandler_handle_close
proof unfold_locales
  show "m_handlers w' h = None" if "CEventHandler_handle_close h w = Some (r, w')" for h r and w w' :: "'a ev_world_scheme"
    using that by (auto simp: CEventHandler_handle_close_def delete_handler_def bind_eq_Some_conv)
  show "CEventHandler_handle_close h w = None" if "m_handlers w h = None" for h and w :: "'a ev_world_scheme"
    using that by (simp add: CEventHandler_handle_close_def CEventHandler_close_def)
qed

subsection \<open>Properties\<close>

text \<open>
  C9. The send queue of a connection is a byte stream while no write fails: if every write takes at least one byte, however
  short it is, a sequence of \<^verbatim>\<open>put\<close> calls and of writable events sends the messages in the order of the calls, every byte
  once, with the unsent rest in the queue. It is assumed that no write would block or reports an error, that \<^verbatim>\<open>errno\<close> is
  not left over from a call that would have blocked (else a message is sent twice), that the messages are different,
  non-empty buffers, and that at most 50 of them, the limit of the queue, are put or waiting in all (others are
  dropped).
\<close>

theorem send_queue_stream:
  assumes "sending h q w" "\<forall>a\<in>set (puts ops). readable w a" "distinct (q @ puts ops)"
    and "length q + length (puts ops) \<le> 50" "\<And>n. \<exists>k>0. w_writes w n = Wrote k"
  shows "\<exists>w' q'. run_ops hc h ops w = Some w' \<and> sending h q' w' \<and>
    w_sent w' h @ pending w' q' = w_sent w h @ pending w q @ concat (map (contents w) (puts ops))"
  using assms by (rule run_ops_stream)

definition demo_handler :: cevent_handler where
  "demo_handler = (CEventHandler 2 True 0)\<lparr>m_sock_handle := 5\<rparr>"

definition demo_world :: "(nat \<Rightarrow> write_res) \<Rightarrow> int \<Rightarrow> ev_world" where
  "demo_world writes e =
     \<lparr>m_mem = \<lparr>w_heap = [0 \<mapsto> (CMbuf [1, 2, 3] 0)\<lparr>m_write_pos := 3\<rparr>, 2 \<mapsto> (CMbuf [4, 5] 0)\<lparr>m_write_pos := 2\<rparr>],
        w_store = CMsgMemStore 0\<rparr>,
      m_handlers = [7 \<mapsto> demo_handler], m_map_event_handlers = [(5, 7)], m_running_flag = True, m_notify_writer = None,
      m_notify_deque = [], m_epoll = [5 \<mapsto> (1, 7)], w_errno = e, w_writes = writes, w_calls = 0, w_sent = (\<lambda>_. [])\<rparr>"

lemma demo_sending:
  "\<not> blocking e \<Longrightarrow> sending 7 [] (demo_world f e)" "readable (demo_world f e) 0" "readable (demo_world f e) 2"
  "contents (demo_world f e) 0 = [1, 2, 3]" "contents (demo_world f e) 2 = [4, 5]" "w_errno (demo_world f e) = e"
  "w_writes (demo_world f e) = f" "w_sent (demo_world f e) k = []" "m_handlers (demo_world f e) 7 = Some demo_handler"
  "heap (demo_world f e) 0 = Some ((CMbuf [1, 2, 3] 0)\<lparr>m_write_pos := 3\<rparr>)"
  by (simp_all add: sending_def demo_world_def demo_handler_def CEventHandler_def readable_def heap_def mbuf_wf_def
      CMbuf_def mbuf_contents_def contents_def)

theorem send_queue_stream_witness:
  "\<exists>w' q'. run_ops CEventHandler_handle_close 7 [Put_op 0, Put_op 2, Output_op] (demo_world (\<lambda>_. Wrote 2) 0) = Some w' \<and>
    sending 7 q' w' \<and> w_sent w' 7 @ pending w' q' = [1, 2, 3, 4, 5]"
  using send_queue_stream [of 7 "[]" "demo_world (\<lambda>_. Wrote 2) 0" "[Put_op 0, Put_op 2, Output_op]" CEventHandler_handle_close]
  by (simp add: demo_sending blocking_def errno_defs pending_def)

text \<open>
  \<^verbatim>\<open>send\<close> reads \<^verbatim>\<open>errno\<close> after a successful \<^verbatim>\<open>write\<close>. When an earlier call left
  \<^verbatim>\<open>EAGAIN\<close>, \<^verbatim>\<open>EWOULDBLOCK\<close> or \<^verbatim>\<open>EINTR\<close> there, a message that was sent completely is put in front of the queue
  again, unchanged, and its peer will get it twice.
\<close>

theorem stale_errno_repeats:
  assumes "m_handlers w h = Some x" "0 \<le> m_sock_handle x" "readable w a" "blocking (w_errno w)"
    and "w_writes w (w_calls w) = Wrote k" "length (contents w a) \<le> k"
  shows "\<exists>w' y. nonblk_send hc h a w = Some (0, w') \<and> w_sent w' h = w_sent w h @ contents w a \<and>
    m_handlers w' h = Some y \<and> m_send_msg_queue y = a # m_send_msg_queue x \<and> contents w' a = contents w a"
proof -
  obtain b where b: "heap w a = Some b" "mbuf_wf b" "mbuf_contents b \<noteq> []" using assms(3) by (auto simp: readable_def)
  have c: "contents w a = mbuf_contents b" using b(1) by (simp add: contents_def)
  have k: "0 < k" using assms(6) b(3) c by (cases k) auto
  from assms(1,2) b assms(5) k show ?thesis
  proof (cases rule: send_wrote)
    case (all n w')
    then obtain y where y: "m_handlers w' = (m_handlers w)(h \<mapsto> y)" "send_view y = send_view x" by blast
    let ?u = "upd_handler h (\<lambda>x. x\<lparr>m_send_msg_queue := a # m_send_msg_queue x\<rparr>) w'"
    obtain r2 w2 where w2: "schedule_write h ?u = Some (r2, w2)" "quiet h ?u w2"
      using schedule_write_quiet [of ?u h] y(1) by auto
    have "nonblk_send hc h a w = Some (0, w2)"
      using all w2 assms(4) by (simp add: nonblk_send_def)
    then show ?thesis
      using all(3,4) w2(2) y c stream_cong [OF quiet_heap [OF w2(2)]] stream_cong [OF all(4)]
      by (auto simp: quiet_def send_view_def)
  next
    case (part n w')
    then show ?thesis using assms(6) c by simp
  qed
qed

theorem stale_errno_repeats_witness:
  "\<exists>w' y. nonblk_send CEventHandler_handle_close 7 0 (demo_world (\<lambda>_. Wrote 9) EAGAIN) = Some (0, w') \<and> w_sent w' 7 = [1, 2, 3] \<and>
    m_handlers w' 7 = Some y \<and> m_send_msg_queue y = [0] \<and> contents w' 0 = [1, 2, 3]"
  using stale_errno_repeats [of "demo_world (\<lambda>_. Wrote 9) EAGAIN" 7 demo_handler 0 9 CEventHandler_handle_close]
  by (simp add: demo_sending blocking_def demo_handler_def CEventHandler_def)

text \<open>
  Buffers are shared: a short write of a message to one connection moves the read position of
  the buffer, and a second connection that is sent the same buffer gets only the rest of the
  message. (\<^verbatim>\<open>CSubscriberMgr::publish\<close> hands one buffer to all subscribers.)
\<close>

theorem short_write_truncates_other_clients:
  assumes "sending h [] w" "sending k [] w" "h \<noteq> k" "readable w a"
    and "w_writes w (w_calls w) = Wrote n" "0 < n" "n < length (contents w a)"
    and "w_writes w (Suc (w_calls w)) = Wrote m" "length (contents w a) \<le> m"
  shows "\<exists>r w1 r' w2. put hc h a w = Some (r, w1) \<and> put hc k a w1 = Some (r', w2) \<and>
    w_sent w2 h = w_sent w h @ take n (contents w a) \<and> w_sent w2 k = w_sent w k @ drop n (contents w a)"
proof -
  obtain x where x: "m_handlers w h = Some x" "m_send_msg_queue x = []" "0 \<le> m_sock_handle x" using assms(1) by (rule sendingE)
  obtain y where y: "m_handlers w k = Some y" "m_send_msg_queue y = []" "0 \<le> m_sock_handle y" "\<not> blocking (w_errno w)"
    using assms(2) by (rule sendingE)
  obtain b where b: "heap w a = Some b" "mbuf_wf b" "mbuf_contents b \<noteq> []" using assms(4) by (auto simp: readable_def)
  have c: "contents w a = mbuf_contents b" using b(1) by (simp add: contents_def)
  obtain w' where s: "send h a w = Some (int n, EWOULDBLOCK, w')" "w_sent w' = (w_sent w)(h := w_sent w h @ take n (mbuf_contents b))"
    "heap w' = (heap w)(a \<mapsto> read_ptr_skip (of_nat n) b)" "w_errno w' = w_errno w" "w_writes w' = w_writes w"
    "w_calls w' = Suc (w_calls w)" "\<exists>z. m_handlers w' = (m_handlers w)(h \<mapsto> z)"
    by (rule send_wrote [OF x(1,3) b assms(5,6)]) (use assms(7) c in auto)
  let ?u = "upd_handler h (\<lambda>x. x\<lparr>m_send_msg_queue := a # m_send_msg_queue x\<rparr>) w'"
  obtain r1 w1 where w1: "schedule_write h ?u = Some (r1, w1)" "quiet h ?u w1"
    using schedule_write_quiet [of ?u h] s(7) by auto
  have p1: "put hc h a w = Some (0, w1)"
    using x b(1) s(1) w1(1) by (simp add: put_def nonblk_send_def blocking_def)
  note skip = read_ptr_skip_drop [OF b(2), of n]
  have b1: "heap w1 a = Some (read_ptr_skip (of_nat n) b)" "m_handlers w1 k = Some y" "\<not> blocking (w_errno w1)"
    "w_writes w1 (w_calls w1) = Wrote m" "w_sent w1 = w_sent w'"
    using quiet_heap [OF w1(2)] w1(2) s assms(3,8) y by (auto simp: quiet_def)
  have m: "0 < m" "\<not> m < length (mbuf_contents (read_ptr_skip (of_nat n) b))"
    using assms(7,9) c skip by auto
  obtain w2 j where w2: "send k a w1 = Some (int j, w_errno w1, w2)" "0 < j" "w_sent w2 = (w_sent w1)(k := w_sent w1 k @ drop n (mbuf_contents b))"
    by (rule send_wrote [OF b1(2) y(3) b1(1) _ _ b1(4) m(1)]) (use skip assms(7) c m(2) in auto)
  have "put hc k a w1 = Some (int j, w2)"
    using y(2) b1 w2(1,2) by (simp add: put_def nonblk_send_def)
  then show ?thesis using p1 w2(3) b1(5) s(2) assms(3) c by simp
qed

definition two_clients :: ev_world where
  "two_clients = (demo_world (\<lambda>n. if n = 0 then Wrote 2 else Wrote 9) 0)
     \<lparr>m_handlers := [7 \<mapsto> demo_handler, 8 \<mapsto> demo_handler\<lparr>m_sock_handle := 6\<rparr>]\<rparr>"

theorem short_write_truncates_other_clients_witness:
  "\<exists>r w1 r' w2. put CEventHandler_handle_close 7 0 two_clients = Some (r, w1) \<and> put CEventHandler_handle_close 8 0 w1 = Some (r', w2) \<and>
    w_sent w2 7 = [1, 2] \<and> w_sent w2 8 = [3]"
proof -
  have "sending 7 [] two_clients" "sending 8 [] two_clients" "readable two_clients 0" "contents two_clients 0 = [1, 2, 3]"
    by (simp_all add: two_clients_def demo_world_def sending_def demo_handler_def CEventHandler_def blocking_def errno_defs
        readable_def heap_def mbuf_wf_def CMbuf_def mbuf_contents_def contents_def)
  moreover have "w_writes two_clients (w_calls two_clients) = Wrote 2" "w_writes two_clients (Suc (w_calls two_clients)) = Wrote 9"
    "w_sent two_clients = (\<lambda>_. [])"
    by (simp_all add: two_clients_def demo_world_def)
  ultimately show ?thesis
    using short_write_truncates_other_clients [of 7 two_clients 8 0 2 9 CEventHandler_handle_close] by simp
qed

end
