(* ===== verification/Session.thy ===== *)
theory Session
  imports Mqtt_Msg Event_Handler "HOL-Library.AList"
begin

unbundle bit_operations_syntax

text \<open>
  The shared state of the broker: client contexts (\<^verbatim>\<open>include/mqtt_server/mqtt_context.hpp\<close>), the map of
  client ids (\<^verbatim>\<open>src/mqtt_server/client_db_id.cpp\<close>) and the subscriptions
  (\<^verbatim>\<open>src/mqtt_server/subscriber_mgr.cpp\<close>). The record \<open>broker\<close> extends the world of the event handlers by
  the singletons \<^verbatim>\<open>SUB_MGR\<close>, \<^verbatim>\<open>CLIENT_ID_CONTEXT\<close>, \<^verbatim>\<open>MSG_STAT_MGR\<close> and by the MQTT part of the connection
  objects.

  A context is named by a number, as are handlers and buffers, because the client map, the topic
  nodes and the connections share it. A context points back to its connection with a raw pointer
  (\<open>ctx_mqtt_connection\<close>). Hash maps and sets are lists in iteration order. Members without an
  initial value are options: \<^const>\<open>None\<close> is an indeterminate value, and a decision taken on it is
  undefined behaviour. Contexts and buffers are not reclaimed here; the effect of a buffer's
  destructor on the message store is in \<open>Mbuf\<close>. Time does not pass within one operation.
\<close>

subsection \<open>Client contexts\<close>

type_synonym ctxid = nat

datatype ClientStatus = NONE | CS_NEW | CS_CONNECTED | CS_DISCONNECTED | CS_EXPIRING

record ctmqtt_client_context =
  ctx_mqtt_connection :: "hid option"
  ctx_client_status :: ClientStatus
  ctx_remote_addr :: cstring
  ctx_protocal_name :: cstring
  ctx_protocal_ver :: "u8 option"
  ctx_client_id :: cstring
  ctx_user_name :: cstring
  ctx_user_password :: cstring
  ctx_keep_alive_timer :: "u16 option"
  ctx_max_inflight_msgs :: "u16 option"
  ctx_accept_time :: "int option"
  ctx_connect_time :: "int option"
  ctx_discon_time :: "int option"
  ctx_close_time :: "int option"
  ctx_last_pub_time :: "int option"
  ctx_last_msg_time :: "int option"
  ctx_last_pub_msg_id :: "u64 option"
  ctx_clean_session :: "bool option"
  ctx_will_flag :: "bool option"
  ctx_send_msg_ids :: "u64 list"
  ctx_send_msg_queue :: "addr list"
  ctx_subcribe_topics :: "ctopic list"

record ctopic_node =
  m_retian_msg_buf :: "addr option"
  m_subcriber_clients :: "ctxid list"

record cmqtt_connection =
  c_client_context :: "ctxid option"
  m_recv_buffer :: bytes
  m_cur_buf_pos :: u32
  m_last_msg_time :: "u32 option"

record broker = ev_world +
  m_conns :: "hid \<rightharpoonup> cmqtt_connection"
  m_contexts :: "ctxid \<rightharpoonup> ctmqtt_client_context"
  m_topic_mgr :: "(cstring \<times> ctopic_node) list"
  m_client_msg :: "(cstring \<times> ctxid) list"
  m_msg_stats :: "cmsg_stat list"
  m_client_record :: "ctmqtt_client_context list"
  w_now :: int
  w_next_addr :: addr
  w_next_ctx :: ctxid
  w_next_hid :: hid
  w_junk :: u8

definition CTMqttClientContext :: "hid option \<Rightarrow> ctmqtt_client_context" where
  "CTMqttClientContext con =
     \<lparr>ctx_mqtt_connection = con, ctx_client_status = CS_NEW, ctx_remote_addr = [], ctx_protocal_name = [],
      ctx_protocal_ver = None, ctx_client_id = [], ctx_user_name = [], ctx_user_password = [],
      ctx_keep_alive_timer = None, ctx_max_inflight_msgs = None, ctx_accept_time = None, ctx_connect_time = None,
      ctx_discon_time = None, ctx_close_time = None, ctx_last_pub_time = None, ctx_last_msg_time = None,
      ctx_last_pub_msg_id = None, ctx_clean_session = None, ctx_will_flag = None, ctx_send_msg_ids = [],
      ctx_send_msg_queue = [], ctx_subcribe_topics = []\<rparr>"

definition ctx_init :: "cmqtt_connect \<Rightarrow> ctmqtt_client_context \<Rightarrow> ctmqtt_client_context" where
  "ctx_init con_msg x =
     x\<lparr>ctx_client_status := CS_CONNECTED, ctx_protocal_name := m_str_proto_name con_msg,
       ctx_protocal_ver := Some (m_proto_version con_msg), ctx_client_id := m_str_client_id con_msg,
       ctx_user_name := m_str_user_name con_msg, ctx_user_password := m_str_password con_msg,
       ctx_clean_session := Some (m_clean_session con_msg)\<rparr>"

fun add_topics :: "ctopic list \<Rightarrow> ctopic list \<Rightarrow> ctopic list" where
  "add_topics [] ts = ts"
| "add_topics (t # new) ts = add_topics new (if t \<in> set ts then ts else ts @ [t])"

definition add_subcribe_topics :: "ctopic list \<Rightarrow> ctmqtt_client_context \<Rightarrow> ctmqtt_client_context" where
  "add_subcribe_topics sub_topics x = x\<lparr>ctx_subcribe_topics := add_topics sub_topics (ctx_subcribe_topics x)\<rparr>"

definition upd_ctx :: "ctxid \<Rightarrow> (ctmqtt_client_context \<Rightarrow> ctmqtt_client_context) \<Rightarrow> broker \<Rightarrow> broker" where
  "upd_ctx c f w = w\<lparr>m_contexts := (m_contexts w)(c := map_option f (m_contexts w c))\<rparr>"

definition add_send_msg :: "addr \<Rightarrow> ctmqtt_client_context \<Rightarrow> ctmqtt_client_context" where
  "add_send_msg a x = x\<lparr>ctx_send_msg_queue := ctx_send_msg_queue x @ [a]\<rparr>"

text \<open>Only the head of the queue is compared with the acknowledged id.\<close>

definition ack_msg :: "u16 \<Rightarrow> ctxid \<Rightarrow> broker \<Rightarrow> (int \<times> broker) option" where
  "ack_msg msg_id c w =
     do {
       x \<leftarrow> m_contexts w c;
       case ctx_send_msg_queue x of
         [] \<Rightarrow> Some (0, w)
       | a # q \<Rightarrow> do {
           b \<leftarrow> heap w a;
           if (ucast (m_mbuf_msg_id b) AND 0xFFFF :: u16) = msg_id then
             let w = upd_ctx c (\<lambda>x. x\<lparr>ctx_last_pub_time := Some (int (unat (m_time b))),
                   ctx_last_pub_msg_id := Some (m_mbuf_msg_id b), ctx_send_msg_queue := q\<rparr>) w;
                 (i, tab) = msg_stat (m_mbuf_msg_id b) (m_msg_stats w)
             in Some (0, w\<lparr>m_msg_stats := tab[i := inc_ack_client (tab ! i)]\<rparr>)
           else Some (0, w)
         }
     }"

text \<open>The ids of the queued messages, for the file.\<close>

fun queue_ids :: "(addr \<rightharpoonup> cmbuf) \<Rightarrow> addr list \<Rightarrow> u64 list option" where
  "queue_ids h [] = Some []"
| "queue_ids h (a # q) = do { b \<leftarrow> h a; ids \<leftarrow> queue_ids h q; Some (m_mbuf_msg_id b # ids) }"

definition prepare_store :: "ctxid \<Rightarrow> broker \<Rightarrow> broker option" where
  "prepare_store c w =
     do {
       x \<leftarrow> m_contexts w c;
       ids \<leftarrow> queue_ids (heap w) (ctx_send_msg_queue x);
       Some (upd_ctx c (ctx_send_msg_ids_update (\<lambda>_. ids)) w)
     }"

text \<open>The line written for the client is represented by the context it is formatted from.\<close>

definition ctx_flush :: "ctxid \<Rightarrow> broker \<Rightarrow> broker option" where
  "ctx_flush c w = do { x \<leftarrow> m_contexts w c; Some (w\<lparr>m_client_record := m_client_record w @ [x]\<rparr>) }"

subsection \<open>CClientIdContext\<close>

definition find_client_id :: "cstring \<Rightarrow> broker \<Rightarrow> int \<times> ctxid option" where
  "find_client_id client_id w =
     (case map_of (m_client_msg w) client_id of None \<Rightarrow> (-1, None) | Some c \<Rightarrow> (0, Some c))"

definition add_client_id :: "cstring \<Rightarrow> ctxid \<Rightarrow> broker \<Rightarrow> int \<times> broker" where
  "add_client_id client_id c w =
     (case map_of (m_client_msg w) client_id of
        None \<Rightarrow> (0, w\<lparr>m_client_msg := m_client_msg w @ [(client_id, c)]\<rparr>)
      | Some _ \<Rightarrow> (-1, w))"

definition del_client_id :: "cstring \<Rightarrow> broker \<Rightarrow> int \<times> broker" where
  "del_client_id client_id w =
     (case map_of (m_client_msg w) client_id of
        Some _ \<Rightarrow> (0, w\<lparr>m_client_msg := AList.delete client_id (m_client_msg w)\<rparr>)
      | None \<Rightarrow> (-1, w))"

subsection \<open>CTopicNode\<close>

definition CTopicNode :: ctopic_node where
  "CTopicNode = \<lparr>m_retian_msg_buf = None, m_subcriber_clients = []\<rparr>"

definition update_retain_msg :: "addr \<Rightarrow> ctopic_node \<Rightarrow> ctopic_node" where
  "update_retain_msg a n = n\<lparr>m_retian_msg_buf := Some a\<rparr>"

definition clean_retain_msg :: "ctopic_node \<Rightarrow> ctopic_node" where
  "clean_retain_msg n = n\<lparr>m_retian_msg_buf := None\<rparr>"

definition node_add_client :: "ctxid \<Rightarrow> ctopic_node \<Rightarrow> int \<times> ctopic_node" where
  "node_add_client c n =
     (if c \<notin> set (m_subcriber_clients n) then (0, n\<lparr>m_subcriber_clients := m_subcriber_clients n @ [c]\<rparr>) else (-1, n))"

definition node_del_client :: "ctxid \<Rightarrow> ctopic_node \<Rightarrow> int \<times> ctopic_node" where
  "node_del_client c n =
     (if c \<notin> set (m_subcriber_clients n) then (-1, n) else (0, n\<lparr>m_subcriber_clients := remove1 c (m_subcriber_clients n)\<rparr>))"

subsection \<open>CSubscriberMgr\<close>

definition set_topic :: "cstring \<Rightarrow> ctopic_node \<Rightarrow> broker \<Rightarrow> broker" where
  "set_topic t n w = w\<lparr>m_topic_mgr := AList.update t n (m_topic_mgr w)\<rparr>"

definition find_clients :: "cstring \<Rightarrow> broker \<Rightarrow> int \<times> ctxid list option" where
  "find_clients t w =
     (case map_of (m_topic_mgr w) t of Some n \<Rightarrow> (0, Some (m_subcriber_clients n)) | None \<Rightarrow> (-1, None))"

definition del_client_context :: "cstring \<Rightarrow> ctxid \<Rightarrow> broker \<Rightarrow> int \<times> broker" where
  "del_client_context t c w =
     (case map_of (m_topic_mgr w) t of
        Some n \<Rightarrow> (0, set_topic t (snd (node_del_client c n)) w)
      | None \<Rightarrow> (-1, w))"

type_synonym closer = "hid \<Rightarrow> broker \<Rightarrow> (int \<times> broker) option"

definition add_client_context :: "closer \<Rightarrow> cstring \<Rightarrow> ctxid \<Rightarrow> broker \<Rightarrow> (int \<times> broker) option" where
  "add_client_context hc t c w =
     (case map_of (m_topic_mgr w) t of
        None \<Rightarrow> Some (0, set_topic t (snd (node_add_client c CTopicNode)) w)
      | Some n \<Rightarrow>
          let w = set_topic t (snd (node_add_client c n)) w in do {
            x \<leftarrow> m_contexts w c;
            case (m_retian_msg_buf n, ctx_mqtt_connection x) of
              (Some a, Some h) \<Rightarrow> put hc h a (upd_ctx c (add_send_msg a) w)
            | _ \<Rightarrow> Some (0, w)
          })"

text \<open>A new buffer of \<open>n\<close> bytes with unspecified contents.\<close>

definition make_mbuf :: "u32 \<Rightarrow> broker \<Rightarrow> addr \<times> broker" where
  "make_mbuf n w =
     (let a = w_next_addr w in
      (a, w\<lparr>m_mem := (m_mem w)\<lparr>w_heap := (w_heap (m_mem w))(a \<mapsto> CMbuf (replicate (unat n) (w_junk w)) (of_int (w_now w)))\<rparr>,
            w_next_addr := Suc a\<rparr>))"

text \<open>A call of a \<^verbatim>\<open>CMbuf\<close> operation that returns a code, on the buffer at an address.\<close>

definition mbuf_call :: "addr \<Rightarrow> (cmbuf \<Rightarrow> (int \<times> cmbuf) option) \<Rightarrow> broker \<Rightarrow> (int \<times> broker) option" where
  "mbuf_call a f w = do { b \<leftarrow> heap w a; (r, b') \<leftarrow> f b; Some (r, upd_mbuf a (\<lambda>_. b') w) }"

definition upd_stat :: "nat \<Rightarrow> (cmsg_stat \<Rightarrow> cmsg_stat) \<Rightarrow> broker \<Rightarrow> broker" where
  "upd_stat i f w = w\<lparr>m_msg_stats := (m_msg_stats w)[i := f (m_msg_stats w ! i)]\<rparr>"

text \<open>Delivery to one client: queue the message and send it when the client is on line.\<close>

definition publish_client :: "closer \<Rightarrow> ctxid option \<Rightarrow> addr \<Rightarrow> nat \<Rightarrow> broker \<Rightarrow> (int \<times> broker) option" where
  "publish_client hc client a i w =
     (case client of
        None \<Rightarrow> Some (-1, w)
      | Some c \<Rightarrow> do {
          _ \<leftarrow> m_contexts w c;
          let w = upd_ctx c (add_send_msg a) w;
          x \<leftarrow> m_contexts w c;
          case ctx_mqtt_connection x of
            Some h \<Rightarrow> do {
              (_, w) \<leftarrow> put hc h a w;
              Some (0, upd_stat i (\<lambda>s. s\<lparr>st_pub_online_num := 1 + st_pub_online_num s\<rparr>) w)
            }
          | None \<Rightarrow> Some (0, upd_stat i (\<lambda>s. s\<lparr>st_pub_offline_num := 1 + st_pub_offline_num s\<rparr>) w)
        })"

text \<open>
  The loop over the clients of a topic runs on an iterator into the set that a closing connection
  may change: an element erased before its turn is skipped, and the loop is undefined when the
  element it stands on was erased. Result: number of clients.
\<close>

fun publish_loop :: "closer \<Rightarrow> cstring \<Rightarrow> addr \<Rightarrow> nat \<Rightarrow> ctxid list \<Rightarrow> nat \<Rightarrow> broker \<Rightarrow> (nat \<times> broker) option" where
  "publish_loop hc t a i [] count w = Some (count, w)"
| "publish_loop hc t a i (c # cs) count w =
     do {
       n \<leftarrow> map_of (m_topic_mgr w) t;
       if c \<notin> set (m_subcriber_clients n) then publish_loop hc t a i cs count w
       else do {
         (_, w) \<leftarrow> publish_client hc (Some c) a i w;
         n \<leftarrow> map_of (m_topic_mgr w) t;
         if c \<in> set (m_subcriber_clients n) then publish_loop hc t a i cs (Suc count) w else None
       }
     }"

definition set_retain_bit :: "cmbuf \<Rightarrow> (int \<times> cmbuf) option" where
  "set_retain_bit b =
     do {
       v \<leftarrow> mem_get (m_data b) (unat (m_read_pos b));
       d \<leftarrow> mem_put (m_data b) (unat (m_read_pos b)) (v OR 1);
       Some (0, b\<lparr>m_data := d\<rparr>)
     }"

text \<open>The retained copy of a message, not registered in the store.\<close>

definition make_retain_msg :: "addr \<Rightarrow> broker \<Rightarrow> (addr \<times> broker) option" where
  "make_retain_msg a w =
     do {
       b \<leftarrow> heap w a;
       let (r, w) = make_mbuf (mbuf_length b) w;
       (_, w) \<leftarrow> mbuf_call r (mbuf_copy (read_ptr b) (to_int (mbuf_length b))) w;
       (_, w) \<leftarrow> mbuf_call r (\<lambda>c. Some (0, set_msg_id (m_mbuf_msg_id b) c)) w;
       (_, w) \<leftarrow> mbuf_call r set_retain_bit w;
       Some (r, w)
     }"

definition publish_retain :: "cstring \<Rightarrow> addr \<Rightarrow> cmqtt_publish \<Rightarrow> broker \<Rightarrow> broker option" where
  "publish_retain t a msg w =
     (if m_retain_flag (m_fixed_header msg) then do {
        (r, w) \<leftarrow> make_retain_msg a w;
        n \<leftarrow> map_of (m_topic_mgr w) t;
        Some (set_topic t (if length (m_payload msg) > 0 then update_retain_msg r n else clean_retain_msg n) w)
      } else Some w)"

definition publish :: "closer \<Rightarrow> cstring \<Rightarrow> addr \<Rightarrow> cmqtt_publish \<Rightarrow> broker \<Rightarrow> (int \<times> broker) option" where
  "publish hc t a msg w =
     do {
       let no_sub_client = (map_of (m_topic_mgr w) t = None);
       let w = (if no_sub_client then set_topic t CTopicNode w else w);
       w \<leftarrow> publish_retain t a msg w;
       if no_sub_client then Some (0, w)
       else do {
         b \<leftarrow> heap w a;
         let (i, tab) = msg_stat (m_mbuf_msg_id b) (m_msg_stats w);
         let w = upd_stat i (start_stat (w_now w)) (w\<lparr>m_msg_stats := tab\<rparr>);
         n \<leftarrow> map_of (m_topic_mgr w) t;
         (count, w) \<leftarrow> publish_loop hc t a i (m_subcriber_clients n) 0 w;
         Some (int count, upd_stat i (end_stat (w_now w)) w)
       }
     }"

text \<open>Publishing to the clients of all topics (bridge mode), topic by topic.\<close>

fun publish_topics :: "closer \<Rightarrow> addr \<Rightarrow> nat \<Rightarrow> cstring list \<Rightarrow> broker \<Rightarrow> broker option" where
  "publish_topics hc a i [] w = Some w"
| "publish_topics hc a i (t # ts) w =
     do {
       n \<leftarrow> map_of (m_topic_mgr w) t;
       (_, w) \<leftarrow> publish_loop hc t a i (m_subcriber_clients n) 0 w;
       publish_topics hc a i ts w
     }"

definition publish_all :: "closer \<Rightarrow> addr \<Rightarrow> broker \<Rightarrow> (int \<times> broker) option" where
  "publish_all hc a w =
     do {
       b \<leftarrow> heap w a;
       let (i, tab) = msg_stat (m_mbuf_msg_id b) (m_msg_stats w);
       let w = upd_stat i (start_stat (w_now w)) (w\<lparr>m_msg_stats := tab\<rparr>);
       w \<leftarrow> publish_topics hc a i (map fst (m_topic_mgr w)) w;
       Some (0, upd_stat i (end_stat (w_now w)) w)
     }"

subsection \<open>Parts of the state that do not interfere\<close>

text \<open>The broker's own part of the state, which the event handler functions leave alone.\<close>

lemma broker_more:
  assumes "ev_world.more (w :: broker) = ev_world.more w'"
  shows "m_conns w = m_conns w'" "m_contexts w = m_contexts w'" "m_topic_mgr w = m_topic_mgr w'"
    "m_client_msg w = m_client_msg w'" "m_msg_stats w = m_msg_stats w'" "w_now w = w_now w'"
    "m_client_record w = m_client_record w'" "w_next_ctx w = w_next_ctx w'" "w_next_addr w = w_next_addr w'"
  using assms by (cases w; cases w'; simp)+

text \<open>Fields of the world of the event handlers are not touched by updates of the broker's fields.\<close>

lemma broker_ev_simps [simp]:
  fixes w :: broker
  shows "m_mem (w_next_addr_update f1 w) = m_mem w" "m_handlers (w_next_addr_update f1 w) = m_handlers w" "w_writes (w_next_addr_update f1 w) = w_writes w"
    "w_calls (w_next_addr_update f1 w) = w_calls w" "w_errno (w_next_addr_update f1 w) = w_errno w" "w_sent (w_next_addr_update f1 w) = w_sent w"
    "m_mem (m_contexts_update f2 w) = m_mem w" "m_handlers (m_contexts_update f2 w) = m_handlers w" "w_writes (m_contexts_update f2 w) = w_writes w"
    "w_calls (m_contexts_update f2 w) = w_calls w" "w_errno (m_contexts_update f2 w) = w_errno w" "w_sent (m_contexts_update f2 w) = w_sent w"
    "m_mem (m_msg_stats_update f3 w) = m_mem w" "m_handlers (m_msg_stats_update f3 w) = m_handlers w" "w_writes (m_msg_stats_update f3 w) = w_writes w"
    "w_calls (m_msg_stats_update f3 w) = w_calls w" "w_errno (m_msg_stats_update f3 w) = w_errno w" "w_sent (m_msg_stats_update f3 w) = w_sent w"
    "m_mem (m_topic_mgr_update f4 w) = m_mem w" "m_handlers (m_topic_mgr_update f4 w) = m_handlers w" "w_writes (m_topic_mgr_update f4 w) = w_writes w"
    "w_calls (m_topic_mgr_update f4 w) = w_calls w" "w_errno (m_topic_mgr_update f4 w) = w_errno w" "w_sent (m_topic_mgr_update f4 w) = w_sent w"
  by (cases w; simp)+

lemma session_ev_simps [simp]:
  "m_handlers (upd_ctx c g w) = m_handlers w" "w_writes (upd_ctx c g w) = w_writes w" "w_calls (upd_ctx c g w) = w_calls w" "w_errno (upd_ctx c g w) = w_errno w"
  "w_sent (upd_ctx c g w) = w_sent w" "heap (upd_ctx c g w) = heap w"
  "m_handlers (upd_stat i st w) = m_handlers w" "w_writes (upd_stat i st w) = w_writes w" "w_calls (upd_stat i st w) = w_calls w" "w_errno (upd_stat i st w) = w_errno w"
  "w_sent (upd_stat i st w) = w_sent w" "heap (upd_stat i st w) = heap w"
  "m_handlers (set_topic t n w) = m_handlers w" "w_writes (set_topic t n w) = w_writes w" "w_calls (set_topic t n w) = w_calls w" "w_errno (set_topic t n w) = w_errno w"
  "w_sent (set_topic t n w) = w_sent w" "heap (set_topic t n w) = heap w" "heap (w\<lparr>m_msg_stats := tab\<rparr>) = heap w"
  by (simp_all add: upd_ctx_def upd_stat_def set_topic_def heap_def)

lemma broker_update_simps [simp]:
  "m_conns (upd_handler h f w) = m_conns w" "m_contexts (upd_handler h f w) = m_contexts w"
  "m_topic_mgr (upd_handler h f w) = m_topic_mgr w" "m_client_msg (upd_handler h f w) = m_client_msg w"
  "m_conns (upd_mbuf a g w) = m_conns w" "m_contexts (upd_mbuf a g w) = m_contexts w"
  "m_topic_mgr (upd_mbuf a g w) = m_topic_mgr w" "m_client_msg (upd_mbuf a g w) = m_client_msg w"
  "m_conns (upd_ctx c i w) = m_conns w" "m_topic_mgr (upd_ctx c i w) = m_topic_mgr w" "m_client_msg (upd_ctx c i w) = m_client_msg w"
  "m_contexts (upd_ctx c i w) e = (if e = c then map_option i (m_contexts w c) else m_contexts w e)"
  "m_contexts (upd_stat j st w) = m_contexts w" "m_topic_mgr (upd_stat j st w) = m_topic_mgr w"
  "m_conns (set_topic t n w) = m_conns w" "m_contexts (set_topic t n w) = m_contexts w" "m_client_msg (set_topic t n w) = m_client_msg w"
  "map_of (m_topic_mgr (set_topic t n w)) = (map_of (m_topic_mgr w))(t \<mapsto> n)"
  by (simp_all add: upd_handler_def upd_mbuf_def upd_ctx_def upd_stat_def set_topic_def update_conv')

lemma sending_simps [simp]:
  "sending h q (upd_ctx c g w) = sending h q w" "sending h q (upd_stat i st w) = sending h q w"
  "readable (upd_ctx c g w) = readable w" "readable (upd_stat i st w) = readable w"
  "contents (upd_ctx c g w) = contents w" "contents (upd_stat i st w) = contents w"
  "sending h q (w\<lparr>m_msg_stats := tab\<rparr>) = sending h q w" "readable (w\<lparr>m_msg_stats := tab\<rparr>) = readable w"
  "contents (w\<lparr>m_msg_stats := tab\<rparr>) = contents w"
  by (simp_all add: sending_def readable_def [abs_def] contents_def [abs_def])

subsection \<open>What operations leave alone\<close>

lemmas wp_lookup [wp_rules] = wpI [of "m_handlers w h" for w h] wpI [of "heap w a" for w a] wpI [of "m_contexts w c" for w c]
  wpI [of "map_of m k" for m k] wpI [of "mem_read b i n" for b i n] wpI [of "m_conns w h" for w h]

text \<open>
  A property of states that is kept by every elementary change of handlers, buffers, kernel state,
  subscriptions and statistics, by changes of a context that keep its connection, and by
  \<^verbatim>\<open>handle_close\<close>, is kept by everything the subscription manager and the send path do. The
  invariants of the broker are proved through interpretations of this locale.
\<close>

locale broker_frame =
  fixes J :: "broker \<Rightarrow> bool" and hc :: closer
  assumes J_handler: "J w \<Longrightarrow> J (upd_handler h f w)"
    and J_mem: "J w \<Longrightarrow> J (w\<lparr>m_mem := mem\<rparr>)"
    and J_errno: "J w \<Longrightarrow> J (w\<lparr>w_errno := e\<rparr>)"
    and J_epoll: "J w \<Longrightarrow> J (w\<lparr>m_epoll := ep\<rparr>)"
    and J_calls: "J w \<Longrightarrow> J (w\<lparr>w_calls := n\<rparr>)"
    and J_sent: "J w \<Longrightarrow> J (w\<lparr>w_sent := s\<rparr>)"
    and J_ctx: "J w \<Longrightarrow> (\<And>x. ctx_mqtt_connection (g x) = ctx_mqtt_connection x) \<Longrightarrow> J (upd_ctx c g w)"
    and J_topic: "J w \<Longrightarrow> J (w\<lparr>m_topic_mgr := tm\<rparr>)"
    and J_stats: "J w \<Longrightarrow> J (w\<lparr>m_msg_stats := tab\<rparr>)"
    and J_next_addr: "J w \<Longrightarrow> J (w\<lparr>w_next_addr := na\<rparr>)"
    and J_close: "J w \<Longrightarrow> wp (hc h w) (\<lambda>(r, w'). J w')"
begin

lemmas J_updates = J_handler J_mem J_errno J_epoll J_calls J_sent J_topic J_stats J_next_addr

lemma J_upd_mbuf: "J w \<Longrightarrow> J (upd_mbuf a f w)"
  by (simp add: upd_mbuf_def J_mem)

lemma J_set_topic: "J w \<Longrightarrow> J (set_topic t n w)"
  by (simp add: set_topic_def J_topic)

lemma J_upd_stat: "J w \<Longrightarrow> J (upd_stat i f w)"
  by (simp add: upd_stat_def J_stats)

lemma J_add_send: "J w \<Longrightarrow> J (upd_ctx c (add_send_msg a) w)"
  by (rule J_ctx) (simp_all add: add_send_msg_def)

lemmas J_ops = J_updates J_upd_mbuf J_set_topic J_upd_stat J_add_send

lemma J_os_write: "J w \<Longrightarrow> J (snd (os_write fd h bs w))"
  by (auto simp: os_write_def Let_def intro!: J_updates split: write_res.split)

lemma J_epoll_ctl: "J w \<Longrightarrow> J (snd (epoll_ctl op fd ev w))"
  by (auto simp: epoll_ctl_def intro!: J_updates)

lemma mod_event_J:
  assumes J: "J w" and Q: "\<And>r w'. J w' \<Longrightarrow> Q (r, w')"
  shows "wp (mod_event h m w) Q"
  using J by (auto simp: mod_event_def Let_def split_def intro!: Q wp_rules J_handler J_epoll_ctl)

lemma schedule_write_J:
  assumes J: "J w" and Q: "\<And>r w'. J w' \<Longrightarrow> Q (r, w')"
  shows "wp (schedule_write h w) Q"
  using J by (auto simp: schedule_write_def Let_def intro!: Q wp_rules mod_event_J J_handler)

lemma cancel_schedule_write_J:
  assumes J: "J w" and Q: "\<And>r w'. J w' \<Longrightarrow> Q (r, w')"
  shows "wp (cancel_schedule_write h w) Q"
  using J by (auto simp: cancel_schedule_write_def Let_def intro!: Q wp_rules mod_event_J J_handler)

lemma send_J:
  assumes J: "J w" and Q: "\<And>r e w'. J w' \<Longrightarrow> Q (r, e, w')"
  shows "wp (send h a w) Q"
  using J by (auto simp: send_def Let_def split_def intro!: Q wp_rules J_ops J_os_write)

lemma hc_J: "J w \<Longrightarrow> (\<And>r w'. J w' \<Longrightarrow> Q (r, w')) \<Longrightarrow> wp (hc h w) Q"
  using J_close [of w h] by (auto simp: wp_def)

lemma nonblk_send_J:
  assumes J: "J w" and Q: "\<And>r w'. J w' \<Longrightarrow> Q (r, w')"
  shows "wp (nonblk_send hc h a w) Q"
  using J by (auto simp: nonblk_send_def intro!: Q send_J hc_J schedule_write_J J_handler)

lemma put_J:
  assumes J: "J w" and Q: "\<And>r w'. J w' \<Longrightarrow> Q (r, w')"
  shows "wp (put hc h a w) Q"
  using J by (auto simp: put_def intro!: Q wp_rules nonblk_send_J schedule_write_J J_handler)

lemma handle_output_J:
  assumes J: "J w" and Q: "\<And>r w'. J w' \<Longrightarrow> Q (r, w')"
  shows "wp (handle_output hc h w) Q"
  using J by (auto simp: handle_output_def intro!: Q wp_rules nonblk_send_J cancel_schedule_write_J J_handler split: list.split)

lemma J_del_client_context: "J w \<Longrightarrow> J (snd (del_client_context t c w))"
  by (auto simp: del_client_context_def intro!: J_ops split: option.split)

lemma add_client_context_J:
  assumes J: "J w" and Q: "\<And>r w'. J w' \<Longrightarrow> Q (r, w')"
  shows "wp (add_client_context hc t c w) Q"
  using J by (auto simp: add_client_context_def Let_def intro!: Q wp_rules put_J J_ops split: option.split)

lemma J_make_mbuf: "J w \<Longrightarrow> J (snd (make_mbuf n w))"
  by (auto simp: make_mbuf_def Let_def dest: J_next_addr [OF J_mem])

lemma mbuf_call_J:
  assumes J: "J w" and Q: "\<And>r w'. J w' \<Longrightarrow> Q (r, w')"
  shows "wp (mbuf_call a f w) Q"
  using J by (auto simp: mbuf_call_def intro!: Q wp_rules J_upd_mbuf wpI [of "f b" for b])

lemma ack_msg_J:
  assumes J: "J w" and Q: "\<And>r w'. J w' \<Longrightarrow> Q (r, w')"
  shows "wp (ack_msg i c w) Q"
  using J by (auto simp: ack_msg_def Let_def split_def intro!: Q wp_rules J_stats J_ctx split: list.split)

lemma publish_client_J:
  assumes J: "J w" and Q: "\<And>r w'. J w' \<Longrightarrow> Q (r, w')"
  shows "wp (publish_client hc client a i w) Q"
  using J by (auto simp: publish_client_def Let_def intro!: Q wp_rules put_J J_ops split: option.split)

lemma publish_loop_J:
  assumes J: "J w" and Q: "\<And>r w'. J w' \<Longrightarrow> Q (r, w')"
  shows "wp (publish_loop hc t a i cs n w) Q"
  using J by (induction cs arbitrary: n w) (auto intro!: Q wp_rules publish_client_J)

lemma make_retain_msg_J:
  assumes J: "J w" and Q: "\<And>r w'. J w' \<Longrightarrow> Q (r, w')"
  shows "wp (make_retain_msg a w) Q"
  using J by (auto simp: make_retain_msg_def Let_def split_def intro!: Q wp_rules mbuf_call_J J_make_mbuf)

lemma publish_retain_J:
  assumes J: "J w" and Q: "\<And>w'. J w' \<Longrightarrow> Q w'"
  shows "wp (publish_retain t a msg w) Q"
  using J by (auto simp: publish_retain_def intro!: Q wp_rules make_retain_msg_J J_set_topic)

lemma publish_J:
  assumes J: "J w" and Q: "\<And>r w'. J w' \<Longrightarrow> Q (r, w')"
  shows "wp (publish hc t a msg w) Q"
  using J by (auto simp: publish_def Let_def split_def intro!: Q wp_rules publish_retain_J publish_loop_J J_ops)

lemma publish_topics_J:
  assumes J: "J w" and Q: "\<And>w'. J w' \<Longrightarrow> Q w'"
  shows "wp (publish_topics hc a i ts w) Q"
  using J by (induction ts arbitrary: w) (auto intro!: Q wp_rules publish_loop_J)

lemma publish_all_J:
  assumes J: "J w" and Q: "\<And>r w'. J w' \<Longrightarrow> Q (r, w')"
  shows "wp (publish_all hc a w) Q"
  using J by (auto simp: publish_all_def Let_def split_def intro!: Q wp_rules publish_topics_J J_ops)

lemmas session_J = put_J handle_output_J add_client_context_J mbuf_call_J ack_msg_J publish_J publish_all_J

end

subsection \<open>Publishing\<close>

text \<open>A client is reachable when its context exists and its connection, if any, has an empty send queue.\<close>

definition reachable :: "broker \<Rightarrow> ctxid \<Rightarrow> bool" where
  "reachable w c \<longleftrightarrow> (\<exists>x. m_contexts w c = Some x \<and> (\<forall>h. ctx_mqtt_connection x = Some h \<longrightarrow> sending h [] w))"

definition conn_of :: "broker \<Rightarrow> ctxid \<Rightarrow> hid option" where
  "conn_of w c = (case m_contexts w c of None \<Rightarrow> None | Some x \<Rightarrow> ctx_mqtt_connection x)"

text \<open>The kernel takes the message \<open>a\<close> whenever it is written.\<close>

definition takes :: "broker \<Rightarrow> addr \<Rightarrow> bool" where
  "takes w a \<longleftrightarrow> readable w a \<and> \<not> blocking (w_errno w) \<and> (\<forall>n. \<exists>k\<ge>length (contents w a). w_writes w n = Wrote k)"

text \<open>
  \<open>calm w w'\<close>: what delivering messages leaves as it was, so that more can be delivered: buffers, subscriptions,
  connections, and that clients are reachable.
\<close>

definition calm :: "broker \<Rightarrow> broker \<Rightarrow> bool" where
  "calm w w' \<longleftrightarrow> heap w' = heap w \<and> w_writes w' = w_writes w \<and> \<not> blocking (w_errno w') \<and> m_topic_mgr w' = m_topic_mgr w \<and>
     conn_of w' = conn_of w \<and> (\<forall>c. reachable w c \<longrightarrow> reachable w' c)"

lemma calm_trans: "calm u v \<Longrightarrow> calm v w \<Longrightarrow> calm u w"
  by (simp add: calm_def)

lemma calm_takes: "calm w w' \<Longrightarrow> takes w a \<Longrightarrow> takes w' a"
  using stream_cong [of w' w] by (auto simp: calm_def takes_def)

lemma calm_contents: "calm w w' \<Longrightarrow> contents w' = contents w"
  using stream_cong [of w' w] by (simp add: calm_def)

lemma calm_upd_stat: "\<not> blocking (w_errno w) \<Longrightarrow> calm w (upd_stat i st w)" "\<not> blocking (w_errno w) \<Longrightarrow> calm w (w\<lparr>m_msg_stats := tab\<rparr>)"
  by (simp_all add: calm_def conn_of_def [abs_def] reachable_def [abs_def])

lemma publish_client_delivers:
  assumes "takes w a" "reachable w c"
  shows "\<exists>w'. publish_client hc (Some c) a i w = Some (0, w') \<and> calm w w' \<and>
    m_contexts w' = (m_contexts w)(c := map_option (add_send_msg a) (m_contexts w c)) \<and>
    (\<forall>k. w_sent w' k = w_sent w k @ (if conn_of w c = Some k then contents w a else []))"
proof -
  obtain x where x: "m_contexts w c = Some x" "\<And>h. ctx_mqtt_connection x = Some h \<Longrightarrow> sending h [] w"
    using assms(2) by (auto simp: reachable_def)
  let ?u = "upd_ctx c (add_send_msg a) w"
  have u: "m_contexts ?u c = Some (add_send_msg a x)" "ctx_mqtt_connection (add_send_msg a y) = ctx_mqtt_connection y" for y
    using x(1) by (simp_all add: add_send_msg_def)
  have cs: "m_contexts ?u = (m_contexts w)(c \<mapsto> add_send_msg a x)" using x(1) by (simp add: fun_eq_iff)
  have co: "conn_of w' = conn_of w" if "m_contexts w' = m_contexts ?u" for w'
    using x(1) that by (simp add: conn_of_def fun_eq_iff add_send_msg_def split: option.split)
  have re: "\<forall>d. reachable w d \<longrightarrow> reachable w' d"
    if "m_contexts w' = m_contexts ?u" "\<And>h. sending h [] w \<Longrightarrow> sending h [] w'" for w'
    using x(1) that by (auto simp: reachable_def u(2))
  show ?thesis
  proof (cases "ctx_mqtt_connection x")
    case None
    let ?w' = "upd_stat i (\<lambda>s. s\<lparr>st_pub_offline_num := 1 + st_pub_offline_num s\<rparr>) ?u"
    have "calm w ?w'"
      using co [of ?w'] re [of ?w'] assms(1) by (simp add: calm_def takes_def fun_eq_iff)
    then show ?thesis
      using x(1) u None cs by (simp add: publish_client_def conn_of_def)
  next
    case (Some h)
    obtain k where "w_writes w (w_calls w) = Wrote k" "length (contents w a) \<le> k"
      using assms(1) by (auto simp: takes_def)
    then obtain r w' where p: "put hc h a ?u = Some (r, w')" "sending h [] w'" "heap w' = heap w" "w_writes w' = w_writes w"
      "w_sent w' = (w_sent w)(h := w_sent w h @ contents w a)" "ev_world.more w' = ev_world.more ?u"
      "\<not> blocking (w_errno w')" "\<forall>k. k \<noteq> h \<longrightarrow> m_handlers w' k = m_handlers w k"
      using put_whole [of h ?u a k hc] x(2) [OF Some] assms(1) by (auto simp: takes_def)
    note m = broker_more [OF p(6)]
    let ?w' = "upd_stat i (\<lambda>s. s\<lparr>st_pub_online_num := 1 + st_pub_online_num s\<rparr>) w'"
    have "sending d [] w'" if "sending d [] w" for d
      using that p(2,7,8) by (cases "d = h") (auto simp: sending_def)
    then have "calm w ?w'"
      using co [of ?w'] re [of ?w'] p m by (simp add: calm_def)
    then show ?thesis
      using x(1) u Some p m cs by (auto simp: publish_client_def conn_of_def)
  qed
qed

lemma publish_loop_delivers:
  assumes "takes w a" "distinct cs" "\<forall>c\<in>set cs. reachable w c" "inj_on (conn_of w) (set cs \<inter> {c. conn_of w c \<noteq> None})"
    and "map_of (m_topic_mgr w) t = Some n" "set cs \<subseteq> set (m_subcriber_clients n)"
  shows "\<exists>w'. publish_loop hc t a i cs k w = Some (k + length cs, w') \<and> calm w w' \<and>
    (\<forall>c. m_contexts w' c = (if c \<in> set cs then map_option (add_send_msg a) (m_contexts w c) else m_contexts w c)) \<and>
    (\<forall>h. w_sent w' h = w_sent w h @ (if Some h \<in> conn_of w ` set cs then contents w a else []))"
  using assms
proof (induction cs arbitrary: k w)
  case Nil
  then show ?case by (simp add: calm_def takes_def)
next
  case (Cons c cs)
  obtain w1 where w1: "publish_client hc (Some c) a i w = Some (0, w1)" "calm w w1"
    "m_contexts w1 = (m_contexts w)(c := map_option (add_send_msg a) (m_contexts w c))"
    "\<forall>k. w_sent w1 k = w_sent w k @ (if conn_of w c = Some k then contents w a else [])"
    using publish_client_delivers [OF Cons.prems(1), of c hc i] Cons.prems(3) by auto
  have co: "conn_of w1 = conn_of w" "m_topic_mgr w1 = m_topic_mgr w" using w1(2) by (simp_all add: calm_def)
  have other: "Some h \<noteq> conn_of w c" if "d \<in> set cs" "conn_of w d = Some h" for d h
    using inj_onD [OF Cons.prems(4), of c d] Cons.prems(2) that by auto
  have "\<forall>d\<in>set cs. reachable w1 d" using w1(2) Cons.prems(3) by (simp add: calm_def)
  moreover have "inj_on (conn_of w1) (set cs \<inter> {c. conn_of w1 c \<noteq> None})"
    using Cons.prems(4) by (auto simp: co inj_on_def)
  ultimately obtain w' where w': "publish_loop hc t a i cs (Suc k) w1 = Some (Suc k + length cs, w')" "calm w1 w'"
    "\<forall>c. m_contexts w' c = (if c \<in> set cs then map_option (add_send_msg a) (m_contexts w1 c) else m_contexts w1 c)"
    "\<forall>h. w_sent w' h = w_sent w1 h @ (if Some h \<in> conn_of w1 ` set cs then contents w1 a else [])"
    using Cons.IH [of w1 "Suc k"] calm_takes [OF w1(2) Cons.prems(1)] co Cons.prems by auto
  have "Some h \<notin> conn_of w ` set cs" if "conn_of w c = Some h" for h using other that by fastforce
  then have "w_sent w' h = w_sent w h @ (if Some h \<in> conn_of w ` set (c # cs) then contents w a else [])" for h
    using w'(4) w1(4) calm_contents [OF w1(2)] by (auto simp: co)
  moreover have "publish_loop hc t a i (c # cs) k w = Some (k + length (c # cs), w')"
    using w1 w'(1) Cons.prems(5,6) by (simp add: co)
  moreover have "m_contexts w' d = (if d \<in> set (c # cs) then map_option (add_send_msg a) (m_contexts w d) else m_contexts w d)" for d
    using w'(3) w1(3) Cons.prems(2) by auto
  ultimately show ?case using calm_trans [OF w1(2) w'(2)] by auto
qed

text \<open>The clients of a topic can be served: each is listed once, is reachable, and no two share a connection.\<close>

definition served :: "broker \<Rightarrow> ctxid list \<Rightarrow> bool" where
  "served w cs \<longleftrightarrow> distinct cs \<and> (\<forall>c\<in>set cs. reachable w c) \<and> inj_on (conn_of w) (set cs \<inter> {c. conn_of w c \<noteq> None})"

lemma calm_served: "calm w w' \<Longrightarrow> served w cs \<Longrightarrow> served w' cs"
  by (simp add: calm_def served_def)

lemma publish_to_clients:
  assumes "map_of (m_topic_mgr w) t = Some n" "\<not> m_retain_flag (m_fixed_header msg)" "takes w a" "served w (m_subcriber_clients n)"
  shows "\<exists>w'. publish hc t a msg w = Some (int (length (m_subcriber_clients n)), w') \<and> calm w w' \<and>
    (\<forall>c. m_contexts w' c = (if c \<in> set (m_subcriber_clients n) then map_option (add_send_msg a) (m_contexts w c) else m_contexts w c)) \<and>
    (\<forall>h. w_sent w' h = w_sent w h @ (if Some h \<in> conn_of w ` set (m_subcriber_clients n) then contents w a else []))"
proof -
  obtain b where b: "heap w a = Some b" "\<not> blocking (w_errno w)" using assms(3) by (auto simp: takes_def readable_def)
  obtain i tab where st: "msg_stat (m_mbuf_msg_id b) (m_msg_stats w) = (i, tab)" by fastforce
  define u where "u = upd_stat i (start_stat (w_now w)) (w\<lparr>m_msg_stats := tab\<rparr>)"
  have cu: "calm w u"
    unfolding u_def by (rule calm_trans [OF calm_upd_stat(2) calm_upd_stat(1)]) (simp_all add: b)
  have u: "conn_of u = conn_of w" "m_topic_mgr u = m_topic_mgr w" "m_contexts u = m_contexts w" "w_sent u = w_sent w" "contents u = contents w"
    by (simp_all add: u_def conn_of_def [abs_def])
  obtain w1 where w1: "publish_loop hc t a i (m_subcriber_clients n) 0 u = Some (0 + length (m_subcriber_clients n), w1)" "calm u w1"
    "\<forall>c. m_contexts w1 c = (if c \<in> set (m_subcriber_clients n) then map_option (add_send_msg a) (m_contexts u c) else m_contexts u c)"
    "\<forall>h. w_sent w1 h = w_sent u h @ (if Some h \<in> conn_of u ` set (m_subcriber_clients n) then contents u a else [])"
    using publish_loop_delivers [of u a "m_subcriber_clients n" t n hc i 0] assms(1) calm_takes [OF cu assms(3)] calm_served [OF cu assms(4)] u(2)
    by (auto simp: served_def)
  have "calm w (upd_stat i (end_stat (w_now w1)) w1)"
    using calm_trans [OF calm_trans [OF cu w1(2)] calm_upd_stat(1)] w1(2) by (simp add: calm_def)
  then show ?thesis
    using assms(1,2) b st u w1 by (simp add: publish_def publish_retain_def u_def [symmetric])
qed

subsection \<open>Retained messages\<close>

lemma mbuf_copy_take:
  "n \<le> length src \<Longrightarrow> mbuf_copy src (int n) b = mbuf_copy (take n src) (int n) b"
  by (simp add: mbuf_copy_def mem_read_def)

lemma read_ptr_copied:
  assumes "mbuf_wf b"
  shows "take (length (mbuf_contents b)) (read_ptr b) = mbuf_contents b" "length (mbuf_contents b) \<le> length (read_ptr b)"
    "to_int (mbuf_length b) = int (length (mbuf_contents b))"
  using assms length_mbuf_contents [OF assms] mbuf_length_contents [OF assms]
  by (auto simp: read_ptr_def mbuf_contents_def mbuf_wf_def mbuf_word to_int_small)

lemma set_retain_bit_contents:
  assumes "mbuf_wf b" "mbuf_contents b = v # vs"
  shows "\<exists>b'. set_retain_bit b = Some (0, b') \<and> mbuf_wf b' \<and> mbuf_contents b' = (v OR 1) # vs \<and> m_mbuf_msg_id b' = m_mbuf_msg_id b"
proof -
  let ?r = "unat (m_read_pos b)" and ?n = "unat (m_write_pos b) - unat (m_read_pos b)"
  have "?n = Suc (length vs)" using length_mbuf_contents [OF assms(1)] assms(2) by simp
  then have "0 < ?n" "?r < length (m_data b)" using assms(1) by (auto simp: mbuf_wf_def mbuf_word)
  moreover from this have "m_data b ! ?r = v" using assms(2) by (auto simp: mbuf_contents_def Cons_nth_drop_Suc [symmetric] take_Cons')
  moreover from calculation have "mbuf_contents (b\<lparr>m_data := (m_data b)[?r := v OR 1]\<rparr>) = (v OR 1) # vs"
    using assms(2) by (auto simp: mbuf_contents_def drop_update_swap take_update_swap)
  ultimately show ?thesis using assms(1) by (simp add: set_retain_bit_def mem_get_def mem_put_def mbuf_wf_def)
qed

lemma make_retain_msg_copy:
  assumes "heap w a = Some b" "mbuf_wf b" "mbuf_contents b = v # vs" "w_next_addr w \<noteq> a"
  shows "\<exists>w' r. make_retain_msg a w = Some (w_next_addr w, w') \<and> heap w' = (heap w)(w_next_addr w \<mapsto> r) \<and> mbuf_wf r \<and>
    mbuf_contents r = (v OR 1) # vs \<and> m_mbuf_msg_id r = m_mbuf_msg_id b \<and> m_handlers w' = m_handlers w \<and> w_writes w' = w_writes w \<and>
    w_errno w' = w_errno w \<and> w_calls w' = w_calls w \<and> w_sent w' = w_sent w \<and> m_contexts w' = m_contexts w \<and> m_topic_mgr w' = m_topic_mgr w"
proof -
  let ?n = "length (mbuf_contents b)" and ?a = "w_next_addr w"
  let ?d = "replicate ?n (w_junk w)"
  let ?f = "CMbuf ?d (of_int (w_now w))"
  have u: "unat (mbuf_length b) = ?n" "?n < 2147483648"
    using assms(2) mbuf_length_contents length_mbuf_contents by (auto simp: mbuf_wf_def mbuf_word)
  have "mbuf_copy (read_ptr b) (to_int (mbuf_length b)) ?f = mbuf_copy (mbuf_contents b) (int ?n) ?f"
    using mbuf_copy_take [OF read_ptr_copied(2) [OF assms(2)], of ?f] unfolding read_ptr_copied [OF assms(2)] .
  then obtain c where c: "mbuf_copy (read_ptr b) (to_int (mbuf_length b)) ?f = Some (0, c)" "mbuf_wf c" "mbuf_contents c = v # vs"
    using mbuf_copy_fits [of ?f "mbuf_contents b"] CMbuf_wf [of ?d "of_int (w_now w)"] u(2) assms(3) by auto
  have "mbuf_wf (set_msg_id (m_mbuf_msg_id b) c)" "mbuf_contents (set_msg_id (m_mbuf_msg_id b) c) = v # vs"
    using c by (simp_all add: set_msg_id_def mbuf_wf_def mbuf_contents_def)
  then obtain r where r: "set_retain_bit (set_msg_id (m_mbuf_msg_id b) c) = Some (0, r)" "mbuf_wf r" "mbuf_contents r = (v OR 1) # vs"
    "m_mbuf_msg_id r = m_mbuf_msg_id b"
    using set_retain_bit_contents [of "set_msg_id (m_mbuf_msg_id b) c" v vs] by (auto simp: set_msg_id_def)
  define g where "g = snd (make_mbuf (mbuf_length b) w)"
  have g: "make_mbuf (mbuf_length b) w = (?a, g)" "heap g = (heap w)(?a \<mapsto> ?f)" "m_handlers g = m_handlers w" "w_writes g = w_writes w"
    "w_errno g = w_errno w" "w_calls g = w_calls w" "w_sent g = w_sent w" "m_contexts g = m_contexts w" "m_topic_mgr g = m_topic_mgr w"
    by (simp_all add: g_def make_mbuf_def Let_def heap_def u)
  then show ?thesis
    using assms(1,4) c(1) r by (simp add: make_retain_msg_def mbuf_call_def fun_eq_iff)
qed

subsection \<open>Properties\<close>


text \<open>A broker with a topic that an on-line client and an off-line client subscribe to.\<close>

definition two_subscribers :: broker where
  "two_subscribers =
     \<lparr>m_mem = \<lparr>w_heap = [0 \<mapsto> (CMbuf [0x30, 7, 9] 0)\<lparr>m_write_pos := 3\<rparr>], w_store = CMsgMemStore 0\<rparr>,
      m_handlers = [7 \<mapsto> (CEventHandler 2 True 0)\<lparr>m_sock_handle := 5\<rparr>],
      m_map_event_handlers = [(5, 7)], m_running_flag = True, m_notify_writer = None, m_notify_deque = [],
      m_epoll = [5 \<mapsto> (1, 7)], w_errno = 0, w_writes = (\<lambda>_. Wrote 3), w_calls = 0, w_sent = (\<lambda>_. []),
      m_conns = Map.empty, m_contexts = [1 \<mapsto> CTMqttClientContext (Some 7), 2 \<mapsto> CTMqttClientContext None],
      m_topic_mgr = [([65], \<lparr>m_retian_msg_buf = None, m_subcriber_clients = [1, 2]\<rparr>)], m_client_msg = [], m_msg_stats = [],
      m_client_record = [], w_now = 0, w_next_addr = 3, w_next_ctx = 4, w_next_hid = 8, w_junk = 0\<rparr>"




end
