(* ===== verification/Mqtt_Connection.thy ===== *)
theory Mqtt_Connection
  imports Session
begin

unbundle bit_operations_syntax

text \<open>
  The connections of the broker: \<^verbatim>\<open>src/mqtt_server/mqtt_connection.cpp\<close>, \<^verbatim>\<open>mqtt_connection.hpp\<close> and the
  acceptor (\<^verbatim>\<open>src/mqtt_server/acceptor.cpp\<close>, \<^verbatim>\<open>src/reactor/sock_acceptor.cpp\<close>).

  A connection is a handler of \<open>Event_Handler\<close> together with its MQTT part in \<open>m_conns\<close>. Packets are
  processed in place in the receive buffer of the connection; a handler that runs after its own
  connection was deleted finds neither part and the result is \<^const>\<open>None\<close>. The argument
  \<^verbatim>\<open>mqtt_connection\<close> of the message handlers is always \<^verbatim>\<open>this\<close>.
\<close>

subsection \<open>The connection object\<close>

definition MAX_BUF_SIZE :: nat where "MAX_BUF_SIZE = 4096"

definition CMqttConnection :: "u8 \<Rightarrow> cmqtt_connection" where
  "CMqttConnection junk =
     \<lparr>c_client_context = None, m_recv_buffer = replicate MAX_BUF_SIZE junk, m_cur_buf_pos = 0, m_last_msg_time = None\<rparr>"

definition upd_conn :: "hid \<Rightarrow> (cmqtt_connection \<Rightarrow> cmqtt_connection) \<Rightarrow> broker \<Rightarrow> broker" where
  "upd_conn h f w = w\<lparr>m_conns := (m_conns w)(h := map_option f (m_conns w h))\<rparr>"

definition make_context :: "hid option \<Rightarrow> broker \<Rightarrow> ctxid \<times> broker" where
  "make_context con w =
     (let c = w_next_ctx w in
      (c, w\<lparr>m_contexts := (m_contexts w)(c \<mapsto> CTMqttClientContext con), w_next_ctx := Suc c\<rparr>))"

text \<open>The getter creates the context on first use.\<close>

definition client_context :: "hid \<Rightarrow> broker \<Rightarrow> (ctxid \<times> broker) option" where
  "client_context h w =
     do {
       k \<leftarrow> m_conns w h;
       case c_client_context k of
         Some c \<Rightarrow> Some (c, w)
       | None \<Rightarrow> let (c, w) = make_context (Some h) w in
                 Some (c, upd_conn h (c_client_context_update (\<lambda>_. Some c)) w)
     }"

fun del_topics :: "ctopic list \<Rightarrow> ctxid \<Rightarrow> broker \<Rightarrow> broker" where
  "del_topics [] c w = w"
| "del_topics (t # ts) c w = del_topics ts c (snd (del_client_context (m_topic_name t) c w))"

definition delete_conn :: "hid \<Rightarrow> broker \<Rightarrow> broker" where
  "delete_conn h w = (delete_handler h w)\<lparr>m_conns := (m_conns w)(h := None)\<rparr>"

text \<open>The context is dereferenced before it is tested against \<^verbatim>\<open>nullptr\<close>.\<close>

definition handle_close :: "hid \<Rightarrow> broker \<Rightarrow> (int \<times> broker) option" where
  "handle_close h w =
     do {
       (_, w) \<leftarrow> CEventHandler_close h w;
       k \<leftarrow> m_conns w h;
       c \<leftarrow> c_client_context k;
       x \<leftarrow> m_contexts w c;
       clean \<leftarrow> ctx_clean_session x;
       let w = (if clean then snd (del_client_id (ctx_client_id x) (del_topics (ctx_subcribe_topics x) c w)) else w);
       let w = upd_ctx c (ctx_close_time_update (\<lambda>_. Some (w_now w))) w;
       w \<leftarrow> ctx_flush c w;
       Some (0, delete_conn h (upd_ctx c (ctx_mqtt_connection_update (\<lambda>_. None)) w))
     }"

text \<open>\<^verbatim>\<open>put\<close> on an MQTT connection, whose \<^verbatim>\<open>handle_close\<close> is the one above.\<close>

abbreviation mput :: "hid \<Rightarrow> addr \<Rightarrow> broker \<Rightarrow> (int \<times> broker) option" where
  "mput \<equiv> put handle_close"

subsection \<open>Message handlers\<close>

text \<open>A pointer to the packet: the receive buffer from an offset.\<close>

definition conn_buf :: "hid \<Rightarrow> u32 \<Rightarrow> broker \<Rightarrow> bytes option" where
  "conn_buf h off w = map_option (\<lambda>k. drop (unat off) (m_recv_buffer k)) (m_conns w h)"

text \<open>
  The answers are built and sent in one way: a new buffer, the encoder on its write position, and
  \<^verbatim>\<open>put\<close> when the encoder succeeded. \<open>enc\<close> gives the return value of the encoder and the bytes of
  the buffer after it.
\<close>

definition send_answer :: "hid \<Rightarrow> u32 \<Rightarrow> (bytes \<Rightarrow> u32 \<Rightarrow> (int \<times> 'm cmqtt_msg_scheme) option) \<Rightarrow> broker \<Rightarrow> (int \<times> broker) option" where
  "send_answer h bufsize enc w =
     do {
       let (a, w) = make_mbuf bufsize w;
       b \<leftarrow> heap w a;
       (enc_len, m) \<leftarrow> enc (write_ptr b) (mbuf_max_size b);
       let w = upd_mbuf a (m_data_update (\<lambda>_. m_buf (m_mqtt_pkt m))) w;
       if enc_len < 0 then Some (-1, w)
       else mput h a (upd_mbuf a (write_ptr_skip (of_int enc_len)) w)
     }"

definition connect_code :: "cmqtt_connect \<Rightarrow> Code" where
  "connect_code m =
     (let proto_name = m_str_proto_name m; proto_version = m_proto_version m;
          ack_code = (if proto_version \<noteq> 3 \<and> proto_version \<noteq> 4 then BAD_VERSION
             else if proto_version = 3 \<and> proto_name \<noteq> cstr ''MQIsdp'' \<or> proto_version = 4 \<and> proto_name \<noteq> cstr ''MQTT''
             then BAD_VERSION else ACCEPTED)
      in if m_str_client_id m = [] then BAD_ID else ack_code)"

text \<open>The context of a CONNECT with a client id: an older one is taken over and its connection
  closed, otherwise the connection's own context is entered.\<close>

definition connect_context :: "hid \<Rightarrow> cmqtt_connect \<Rightarrow> broker \<Rightarrow> broker option" where
  "connect_context h m w =
     do {
       w \<leftarrow> (case snd (find_client_id (m_str_client_id m) w) of
           Some c \<Rightarrow> do {
             x \<leftarrow> m_contexts w c;
             w \<leftarrow> (case ctx_mqtt_connection x of
                 Some old \<Rightarrow> do { (_, w) \<leftarrow> handle_close old w; Some w }
               | None \<Rightarrow> Some w);
             let w = upd_ctx c (ctx_mqtt_connection_update (\<lambda>_. Some h)) (upd_ctx c (ctx_init m) w);
             _ \<leftarrow> m_conns w h;
             Some (upd_conn h (c_client_context_update (\<lambda>_. Some c)) w)
           }
         | None \<Rightarrow> do {
             (c, w) \<leftarrow> client_context h w;
             Some (snd (add_client_id (m_str_client_id m) c (upd_ctx c (ctx_init m) w)))
           });
       (c, w) \<leftarrow> client_context h w;
       hd \<leftarrow> m_handlers w h;
       Some (upd_ctx c (\<lambda>x. x\<lparr>ctx_accept_time := Some (int (unat (m_accept_time hd))),
          ctx_connect_time := Some (w_now w), ctx_remote_addr := m_str_peer_addr hd\<rparr>) w)
     }"

text \<open>The queued messages are sent until one fails; result: the last return code.\<close>

fun send_offline :: "hid \<Rightarrow> addr list \<Rightarrow> int \<Rightarrow> broker \<Rightarrow> (int \<times> broker) option" where
  "send_offline h [] res w = Some (res, w)"
| "send_offline h (a # q) res w =
     do { (res, w) \<leftarrow> mput h a w; if res = -1 then Some (res, w) else send_offline h q res w }"

definition handle_connect_msg :: "hid \<Rightarrow> u32 \<Rightarrow> u32 \<Rightarrow> broker \<Rightarrow> (int \<times> broker) option" where
  "handle_connect_msg h off len w =
     do {
       buf \<leftarrow> conn_buf h off w;
       (r, m) \<leftarrow> CMqttConnect_decode (CMqttConnect buf len);
       if r < 0 then Some (-1, w)
       else do {
         w \<leftarrow> (if m_str_client_id m = [] then Some w else connect_context h m w);
         (res, w) \<leftarrow> send_answer h 32 (\<lambda>b n. CMqttConnAck_encode (CMqttConnAck b n (connect_code m))) w;
         (c, w) \<leftarrow> client_context h w;
         x \<leftarrow> m_contexts w c;
         send_offline h (ctx_send_msg_queue x) res w
       }
     }"

text \<open>The message id of a PUBLISH is replaced in the receive buffer.\<close>

definition patch_msg_id :: "hid \<Rightarrow> u32 \<Rightarrow> u32 \<Rightarrow> u32 \<Rightarrow> u64 \<Rightarrow> broker \<Rightarrow> broker option" where
  "patch_msg_id h off len msg_id_offset publish_msg_id w =
     (if msg_id_offset < len then do {
        k \<leftarrow> m_conns w h;
        let msg_id = (ucast publish_msg_id AND 0xFFFF :: u16);
        d \<leftarrow> mem_put (m_recv_buffer k) (unat off + unat msg_id_offset) (hi_byte msg_id);
        d \<leftarrow> mem_put d (unat off + unat (msg_id_offset + 1)) (lo_byte msg_id);
        Some (upd_conn h (m_recv_buffer_update (\<lambda>_. d)) w)
      } else Some w)"

definition publish_mbuf :: "hid \<Rightarrow> u32 \<Rightarrow> u32 \<Rightarrow> u32 \<Rightarrow> broker \<Rightarrow> (addr \<times> broker) option" where
  "publish_mbuf h off len msg_id_offset w =
     do {
       let (a, w) = make_mbuf len w;
       let (i, st) = next_msg_id (w_store (m_mem w));
       let w = upd_mbuf a (set_msg_id i) (w\<lparr>m_mem := (m_mem w)\<lparr>w_store := st\<rparr>\<rparr>);
       mem \<leftarrow> regist_mem_store (of_int (w_now w)) True a (m_mem w);
       w \<leftarrow> patch_msg_id h off len msg_id_offset i (w\<lparr>m_mem := mem\<rparr>);
       buf \<leftarrow> conn_buf h off w;
       (_, w) \<leftarrow> mbuf_call a (mbuf_copy buf (to_int len)) w;
       Some (a, w)
     }"

definition handle_publish_msg :: "hid \<Rightarrow> u32 \<Rightarrow> u32 \<Rightarrow> broker \<Rightarrow> (int \<times> broker) option" where
  "handle_publish_msg h off len w =
     do {
       (c, w) \<leftarrow> client_context h w;
       x \<leftarrow> m_contexts w c;
       if ctx_client_status x \<noteq> CS_CONNECTED then Some (-1, w)
       else do {
         buf \<leftarrow> conn_buf h off w;
         (r, msg) \<leftarrow> CMqttPublish_decode (CMqttPublish buf len);
         if r < 0 then Some (-1, w)
         else do {
           (res, w) \<leftarrow> send_answer h 64 (\<lambda>b n. CMqttPublishAck_encode (CMqttPublishAck b n (m_pub_msg_id msg))) w;
           (a, w) \<leftarrow> publish_mbuf h off len (m_offset_msg_id msg) w;
           (_, w) \<leftarrow> publish handle_close (m_str_topic_name msg) a msg w;
           Some (res, w)
         }
       }
     }"

definition handle_puback_msg :: "hid \<Rightarrow> u32 \<Rightarrow> u32 \<Rightarrow> broker \<Rightarrow> (int \<times> broker) option" where
  "handle_puback_msg h off len w =
     do {
       buf \<leftarrow> conn_buf h off w;
       (r, m) \<leftarrow> CMqttPublishAck_decode (CMqttPublishAck buf len 0);
       if r < 0 then Some (-1, w)
       else do {
         (c, w) \<leftarrow> client_context h w;
         (_, w) \<leftarrow> ack_msg (m_puback_msg_id m) c w;
         Some (0, w)
       }
     }"

fun subscribe_topics :: "hid \<Rightarrow> cstring list \<Rightarrow> broker \<Rightarrow> broker option" where
  "subscribe_topics h [] w = Some w"
| "subscribe_topics h (t # ts) w =
     do {
       (c, w) \<leftarrow> client_context h w;
       (_, w) \<leftarrow> add_client_context handle_close t c w;
       subscribe_topics h ts w
     }"

definition handle_subscribe_msg :: "hid \<Rightarrow> u32 \<Rightarrow> u32 \<Rightarrow> broker \<Rightarrow> (int \<times> broker) option" where
  "handle_subscribe_msg h off len w =
     do {
       (c, w) \<leftarrow> client_context h w;
       x \<leftarrow> m_contexts w c;
       if ctx_client_status x \<noteq> CS_CONNECTED then Some (-1, w)
       else do {
         buf \<leftarrow> conn_buf h off w;
         (r, sub) \<leftarrow> CMqttSubscribe_decode (CMqttSubscribe buf len);
         if r < 0 then Some (-1, w)
         else do {
           let w = upd_ctx c (add_subcribe_topics (m_sub_topics sub)) w;
           (res, w) \<leftarrow> send_answer h 64 (\<lambda>b n. CMqttSubAck_encode (CMqttSubAck b n (m_sub_msg_id sub) (sub_topics_qos sub))) w;
           w \<leftarrow> subscribe_topics h (sub_topics_name sub) w;
           Some (res, w)
         }
       }
     }"

fun unsubscribe_topics :: "hid \<Rightarrow> cstring list \<Rightarrow> broker \<Rightarrow> broker option" where
  "unsubscribe_topics h [] w = Some w"
| "unsubscribe_topics h (t # ts) w =
     do {
       (c, w) \<leftarrow> client_context h w;
       unsubscribe_topics h ts (snd (del_client_context t c w))
     }"

definition handle_unsubscribe_msg :: "hid \<Rightarrow> u32 \<Rightarrow> u32 \<Rightarrow> broker \<Rightarrow> (int \<times> broker) option" where
  "handle_unsubscribe_msg h off len w =
     do {
       (c, w) \<leftarrow> client_context h w;
       x \<leftarrow> m_contexts w c;
       if ctx_client_status x \<noteq> CS_CONNECTED then Some (-1, w)
       else do {
         buf \<leftarrow> conn_buf h off w;
         (r, un_sub) \<leftarrow> CMqttUnsubscribe_decode (CMqttUnsubscribe buf len);
         if r < 0 then Some (-1, w)
         else do {
           w \<leftarrow> unsubscribe_topics h (m_str_topics un_sub) w;
           send_answer h 64 (\<lambda>b n. CMqttUnsubAck_encode (CMqttUnsubAck b n (m_unsub_msg_id un_sub))) w
         }
       }
     }"

definition handle_pingreq_msg :: "hid \<Rightarrow> u32 \<Rightarrow> u32 \<Rightarrow> broker \<Rightarrow> (int \<times> broker) option" where
  "handle_pingreq_msg h off len w =
     send_answer h 4 (\<lambda>b n. CMqttPingResp_encode (CMqttMsg b n PINGRESP)) w"

definition handle_disconnect_msg :: "hid \<Rightarrow> u32 \<Rightarrow> u32 \<Rightarrow> broker \<Rightarrow> (int \<times> broker) option" where
  "handle_disconnect_msg h off len w =
     do {
       (c, w) \<leftarrow> client_context h w;
       x \<leftarrow> m_contexts w c;
       _ \<leftarrow> ctx_clean_session x;
       Some (0, upd_ctx c (\<lambda>x. x\<lparr>ctx_client_status := CS_DISCONNECTED, ctx_discon_time := Some (w_now w)\<rparr>) w)
     }"

subsection \<open>Reading packets\<close>

definition process :: "hid \<Rightarrow> u32 \<Rightarrow> u32 \<Rightarrow> broker \<Rightarrow> (int \<times> broker) option" where
  "process h off len w =
     do {
       buf \<leftarrow> conn_buf h off w;
       b \<leftarrow> mem_get buf 0;
       case to_MqttType (drop_bit 4 (b AND 0xF0)) of
         CONNECT \<Rightarrow> handle_connect_msg h off len w
       | PUBLISH \<Rightarrow> handle_publish_msg h off len w
       | PUBACK \<Rightarrow> handle_puback_msg h off len w
       | SUBSCRIBE \<Rightarrow> handle_subscribe_msg h off len w
       | UNSUBSCRIBE \<Rightarrow> handle_unsubscribe_msg h off len w
       | PINGREQ \<Rightarrow> handle_pingreq_msg h off len w
       | DISCONNECT \<Rightarrow> do { (_, w) \<leftarrow> handle_disconnect_msg h off len w; Some (-1, w) }
       | _ \<Rightarrow> Some (-1, w)
     }"

text \<open>The loop over the packets in the receive buffer, from an offset.\<close>

partial_function (option) process_loop :: "hid \<Rightarrow> u32 \<Rightarrow> u32 \<Rightarrow> broker \<Rightarrow> (int \<times> broker) option" where
  "process_loop h offset len w =
     (if offset < len then do {
        k \<leftarrow> m_conns w h;
        (remain_len, _, remain_length_bytes) \<leftarrow> remain_length (drop (unat offset) (m_recv_buffer k)) (len - offset);
        if remain_len = NEED_MORE_DATA then
          if offset \<noteq> 0 then do {
            left \<leftarrow> mem_read (m_recv_buffer k) (unat offset) (unat (len - offset));
            d \<leftarrow> mem_copy (m_recv_buffer k) 0 left;
            Some (0, upd_conn h (\<lambda>k. k\<lparr>m_recv_buffer := d, m_cur_buf_pos := len - offset\<rparr>) w)
          } else Some (0, w)
        else if remain_len = FAILTURE then Some (-1, w)
        else do {
          let pkt_total_len = of_int remain_len + ucast remain_length_bytes + 1;
          (r, w) \<leftarrow> process h offset pkt_total_len w;
          if r < 0 then Some (-1, w) else process_loop h (offset + pkt_total_len) len w
        }
      }
      else do { _ \<leftarrow> m_conns w h; Some (0, upd_conn h (m_cur_buf_pos_update (\<lambda>_. 0)) w) })"

definition process_mqtt :: "hid \<Rightarrow> u32 \<Rightarrow> broker \<Rightarrow> (int \<times> broker) option" where
  "process_mqtt h len w =
     do {
       k \<leftarrow> m_conns w h;
       let w = (case c_client_context k of
           Some c \<Rightarrow> upd_ctx c (ctx_last_msg_time_update (\<lambda>_. Some (w_now w))) w
         | None \<Rightarrow> w);
       process_loop h 0 len w
     }"

text \<open>\<open>rd\<close> is what the peer has sent, of which \<^verbatim>\<open>read\<close> takes what fits behind \<^verbatim>\<open>m_cur_buf_pos\<close>.\<close>

definition handle_input :: "read_res \<Rightarrow> hid \<Rightarrow> broker \<Rightarrow> (int \<times> broker) option" where
  "handle_input rd h w =
     do {
       k \<leftarrow> m_conns w h;
       case rd of
         Read_error e \<Rightarrow> Some (if blocking e then 0 else -1, w\<lparr>w_errno := e\<rparr>)
       | Read bs \<Rightarrow>
           let bs = take (unat (of_nat MAX_BUF_SIZE - m_cur_buf_pos k)) bs in
           if bs = [] then Some (-1, w)
           else do {
             d \<leftarrow> mem_copy (m_recv_buffer k) (unat (m_cur_buf_pos k)) bs;
             let pos = m_cur_buf_pos k + of_nat (length bs);
             let w = upd_handler h (\<lambda>x. x\<lparr>m_recv_times := m_recv_times x + 1,
                        m_recv_bytes := m_recv_bytes x + of_nat (length bs)\<rparr>) w;
             let w = upd_conn h (\<lambda>k. k\<lparr>m_recv_buffer := d, m_cur_buf_pos := pos, m_last_msg_time := Some (of_int (w_now w))\<rparr>) w;
             process_mqtt h pos w
           }
     }"

subsection \<open>Accepting connections\<close>

text \<open>\<open>fd\<close> is the result of \<^verbatim>\<open>accept4\<close>. The new handler is opened whether or not there is a socket.\<close>

definition sock_accept :: "int \<Rightarrow> hid \<Rightarrow> broker \<Rightarrow> int \<times> broker" where
  "sock_accept fd h w = (if fd \<le> 0 then (-1, w) else (fd, upd_handler h (m_sock_handle_update (\<lambda>_. fd)) w))"

definition Acceptor_handle_input :: "int \<Rightarrow> cstring \<Rightarrow> u32 \<Rightarrow> broker \<Rightarrow> (int \<times> broker) option" where
  "Acceptor_handle_input fd peer mask0 w =
     do {
       let h = w_next_hid w;
       let w = w\<lparr>m_handlers := (m_handlers w)(h \<mapsto> CEventHandler mask0 True (of_int (w_now w))),
                 m_conns := (m_conns w)(h \<mapsto> CMqttConnection (w_junk w)), w_next_hid := Suc h\<rparr>;
       let (_, w) = sock_accept fd h w;
       (_, w) \<leftarrow> CEventHandler_open peer h w;
       Some (0, w)
     }"

subsection \<open>The message id lies inside the packet\<close>

lemma base_decode_wf:
  assumes "CMqttMsg_decode m = Some (r, m')" "\<not> r < 0" "pkt_wf (m_mqtt_pkt m)" "m_offset (m_mqtt_pkt m) = 0"
  shows "pkt_wf (m_mqtt_pkt m') \<and> m_max_size (m_mqtt_pkt m') = m_max_size (m_mqtt_pkt m)"
proof (cases "pkt_rest (m_mqtt_pkt m)")
  case Nil
  then show ?thesis using assms by (simp add: CMqttMsg_decode_def read_byte_Nil ret_defs)
next
  case (Cons b bs)
  let ?p = "pkt_skip 1 (m_mqtt_pkt m)"
  have rd: "read_byte 0 (m_mqtt_pkt m) = Some (SUCCESS, b, ?p)"
    using assms(3) Cons by (rule read_byte_Cons)
  have wf: "pkt_wf ?p"
    using pkt_skip_wf [OF assms(3), of 1] pkt_rest_ConsD(1) [OF assms(3) Cons] by simp
  obtain e v k where rl: "remain_length (m_buf (m_mqtt_pkt m)) (m_max_size (m_mqtt_pkt m)) = Some (e, v, k)" "0 \<le> e"
    and m': "m_mqtt_pkt m' = pkt_skip (ucast k) ?p"
    using assms(1,2) by (auto simp: CMqttMsg_decode_def rd ret_defs read_remain_length_def bind_eq_Some_conv split: if_splits)
  have "pkt_wf (pkt_skip (ucast k) ?p)"
    using remain_length_fits [OF rl] pkt_skip_wf [OF wf, of "unat k"] assms(4)
    by (auto simp: pkt_room_def of_nat_unat)
  then show ?thesis by (simp add: m')
qed

lemma publish_decode_offset:
  assumes "CMqttPublish_decode (CMqttPublish buf len) = Some (r, m)" "\<not> r < 0" "unat len \<le> length buf" "unat len < 2147483648"
  shows "Suc (Suc (unat (m_offset_msg_id m))) \<le> unat len"
proof -
  let ?m = "CMqttPublish buf len"
  have p: "m_mqtt_pkt ?m = CMqttPkt buf len" by (simp add: CMqttPublish_def)
  obtain r1 m1 where 1: "CMqttMsg_decode ?m = Some (r1, m1)" "\<not> r1 < 0"
    using assms(1,2) by (auto simp: CMqttPublish_decode_def try_base_def bind_eq_Some_conv split: if_splits)
  have wf: "pkt_wf (m_mqtt_pkt m1)" "m_max_size (m_mqtt_pkt m1) = len"
    using base_decode_wf [OF 1] assms(3,4) by (auto simp: p pkt_wf_CMqttPkt CMqttPkt_def pkt_wf_def)
  obtain r2 s n where 2: "read_string [] (m_mqtt_pkt m1) = Some (r2, s, pkt_skip (of_nat n) (m_mqtt_pkt m1))" "n \<le> pkt_room (m_mqtt_pkt m1)"
    using read_string_total [OF wf(1)] by blast
  let ?p = "pkt_skip (of_nat n) (m_mqtt_pkt m1)"
  have wfp: "pkt_wf ?p" using pkt_skip_wf [OF wf(1) 2(2)] .
  have "\<not> length (pkt_rest ?p) < 2"
    using assms(1,2) 1 2 read_short_fail [OF wfp]
    by (auto simp: CMqttPublish_decode_def try_base_def try_string_def try_short_def ret_defs split: if_splits)
  moreover have "m_offset_msg_id m = m_offset ?p"
    using assms(1,2) 1 2
    by (auto simp: CMqttPublish_decode_def try_base_def try_string_def try_short_def pkt_length_def bind_eq_Some_conv Let_def split: if_splits)
  ultimately show ?thesis using wfp wf(2) length_pkt_rest [OF wfp] by (simp add: pkt_room_def)
qed

subsection \<open>What the message handlers leave alone\<close>

lemmas wp_conn_lookup [wp_rules] = wpI [of "conn_buf h off w" for h off w] wpI [of "mem_get b i" for b i]
  wpI [of "CMqttConnect_decode m" for m] wpI [of "CMqttPublish_decode m" for m] wpI [of "CMqttPublishAck_decode m" for m]
  wpI [of "CMqttSubscribe_decode m" for m] wpI [of "CMqttUnsubscribe_decode m" for m]
  wpI [of "regist_mem_store t b a m" for t b a m] wpI [of "ctx_clean_session x" for x]

text \<open>
  The frame of the message handlers: besides the operations of the subscription manager they create
  the context of their connection, overwrite the message id in the packet they process (\<open>ok\<close> tells
  which packets the property allows to be changed), and connect a client (\<open>first\<close> tells when).
\<close>

locale conn_frame = broker_frame J handle_close for J :: "broker \<Rightarrow> bool" +
  fixes ok :: "hid \<Rightarrow> u32 \<Rightarrow> u32 \<Rightarrow> bool" and first :: "hid \<Rightarrow> broker \<Rightarrow> bool"
  assumes J_client_context: "J w \<Longrightarrow> wp (client_context h w) (\<lambda>(c, w'). J w')"
    and J_patch: "J w \<Longrightarrow> ok h off len \<Longrightarrow> unat mo + 2 \<le> unat len \<Longrightarrow> wp (patch_msg_id h off len mo i w) J"
    and J_connect: "J w \<Longrightarrow> first h w \<Longrightarrow> wp (connect_context h m w) J"
begin

lemma client_context_J:
  assumes J: "J w" and Q: "\<And>r w'. J w' \<Longrightarrow> Q (r, w')"
  shows "wp (client_context h w) Q"
  using J_client_context [OF J, of h] Q by (auto simp: wp_def)

lemma send_answer_J:
  assumes J: "J w" and Q: "\<And>r w'. J w' \<Longrightarrow> Q (r, w')"
  shows "wp (send_answer h n enc w) Q"
  using J by (auto simp: send_answer_def Let_def split_def intro!: Q wp_rules wpI [of "enc b k" for b k] put_J J_ops J_make_mbuf)

lemma send_offline_J:
  assumes J: "J w" and Q: "\<And>r w'. J w' \<Longrightarrow> Q (r, w')"
  shows "wp (send_offline h q res w) Q"
  using J by (induction q arbitrary: res w) (auto intro!: Q put_J)

lemma connect_context_J:
  assumes J: "J w" and first: "first h w" and Q: "\<And>w'. J w' \<Longrightarrow> Q w'"
  shows "wp (connect_context h m w) Q"
  using J_connect [OF J first, of m] Q by (auto simp: wp_def)

lemma handle_connect_msg_J:
  assumes J: "J w" and first: "first h w" and Q: "\<And>r w'. J w' \<Longrightarrow> Q (r, w')"
  shows "wp (handle_connect_msg h off len w) Q"
  using J by (auto simp: handle_connect_msg_def
      intro!: Q wp_rules connect_context_J [OF _ first] send_answer_J client_context_J send_offline_J)

lemma patch_msg_id_J:
  assumes J: "J w" and ok: "ok h off len" "unat mo + 2 \<le> unat len" and Q: "\<And>w'. J w' \<Longrightarrow> Q w'"
  shows "wp (patch_msg_id h off len mo i w) Q"
  using J_patch [OF J ok, of i] Q by (auto simp: wp_def)

lemma publish_mbuf_J:
  assumes J: "J w" and ok: "ok h off len" "unat mo + 2 \<le> unat len" and Q: "\<And>r w'. J w' \<Longrightarrow> Q (r, w')"
  shows "wp (publish_mbuf h off len mo w) Q"
  using J by (auto simp: publish_mbuf_def Let_def split_def
      intro!: Q wp_rules mbuf_call_J J_ops J_make_mbuf patch_msg_id_J [OF _ ok])

lemma client_context_buf_J:
  assumes J: "J w" and buf: "\<And>k. m_conns w h = Some k \<Longrightarrow> unat off + unat len \<le> length (m_recv_buffer k)"
    and Q: "\<And>c w'. J w' \<Longrightarrow> (\<And>b. conn_buf h off w' = Some b \<Longrightarrow> unat len \<le> length b) \<Longrightarrow> Q (c, w')"
  shows "wp (client_context h w) Q"
proof (rule wpI, clarify)
  fix c w' assume *: "client_context h w = Some (c, w')"
  then have "J w'" using wpD [OF J_client_context [OF J]] by fastforce
  then show "Q (c, w')"
    using * buf by (force simp: client_context_def conn_buf_def make_context_def upd_conn_def Let_def
        bind_eq_Some_conv split: option.splits intro: Q)
qed

lemma handle_publish_msg_J:
  assumes J: "J w" and ok: "ok h off len" and len: "unat len < 2147483648"
    and buf: "\<And>k. m_conns w h = Some k \<Longrightarrow> unat off + unat len \<le> length (m_recv_buffer k)"
    and Q: "\<And>r w'. J w' \<Longrightarrow> Q (r, w')"
  shows "wp (handle_publish_msg h off len w) Q"
  using J by (auto simp: handle_publish_msg_def
      intro!: Q wp_rules client_context_buf_J [OF _ buf] send_answer_J publish_mbuf_J [OF _ ok] publish_J)
    (rule publish_decode_offset [OF _ _ _ len]; assumption)

lemma handle_puback_msg_J:
  assumes J: "J w" and Q: "\<And>r w'. J w' \<Longrightarrow> Q (r, w')"
  shows "wp (handle_puback_msg h off len w) Q"
  using J by (auto simp: handle_puback_msg_def intro!: Q wp_rules client_context_J ack_msg_J)

lemma subscribe_topics_J:
  assumes J: "J w" and Q: "\<And>w'. J w' \<Longrightarrow> Q w'"
  shows "wp (subscribe_topics h ts w) Q"
  using J by (induction ts arbitrary: w) (auto intro!: Q client_context_J add_client_context_J)

lemma J_add_topics: "J w \<Longrightarrow> J (upd_ctx c (add_subcribe_topics ts) w)"
  by (rule J_ctx) (simp_all add: add_subcribe_topics_def)

lemma handle_subscribe_msg_J:
  assumes J: "J w" and Q: "\<And>r w'. J w' \<Longrightarrow> Q (r, w')"
  shows "wp (handle_subscribe_msg h off len w) Q"
  using J by (auto simp: handle_subscribe_msg_def Let_def
      intro!: Q wp_rules client_context_J send_answer_J subscribe_topics_J J_add_topics)

lemma unsubscribe_topics_J:
  assumes J: "J w" and Q: "\<And>w'. J w' \<Longrightarrow> Q w'"
  shows "wp (unsubscribe_topics h ts w) Q"
  using J by (induction ts arbitrary: w) (auto intro!: Q client_context_J J_del_client_context)

lemma handle_unsubscribe_msg_J:
  assumes J: "J w" and Q: "\<And>r w'. J w' \<Longrightarrow> Q (r, w')"
  shows "wp (handle_unsubscribe_msg h off len w) Q"
  using J by (auto simp: handle_unsubscribe_msg_def
      intro!: Q wp_rules client_context_J send_answer_J unsubscribe_topics_J)

lemma handle_disconnect_msg_J:
  assumes J: "J w" and Q: "\<And>r w'. J w' \<Longrightarrow> Q (r, w')"
  shows "wp (handle_disconnect_msg h off len w) Q"
  using J by (auto simp: handle_disconnect_msg_def intro!: Q wp_rules client_context_J J_ctx)

text \<open>The type of the packet at an offset of a receive buffer, and the frame of \<^verbatim>\<open>process\<close>.\<close>

lemma process_J:
  assumes J: "J w" and ok: "ok h off len" and len: "unat len < 2147483648"
    and buf: "\<And>k. m_conns w h = Some k \<Longrightarrow> unat off + unat len \<le> length (m_recv_buffer k)"
    and first: "\<And>b. conn_buf h off w = Some b \<Longrightarrow> to_MqttType (drop_bit 4 (b ! 0 AND 0xF0)) = CONNECT \<Longrightarrow> first h w"
    and Q: "\<And>r w'. J w' \<Longrightarrow> Q (r, w')"
  shows "wp (process h off len w) Q"
  using J first
  by (auto simp: process_def handle_pingreq_msg_def mem_get_def split: MqttType.split if_splits
      intro!: Q wp_rules handle_connect_msg_J handle_publish_msg_J [OF _ ok len buf] handle_puback_msg_J
        handle_subscribe_msg_J handle_unsubscribe_msg_J handle_disconnect_msg_J send_answer_J)

end

subsection \<open>Connections and contexts point at each other\<close>

lemma upd_conn_simps [simp]:
  "m_contexts (upd_conn h f w) = m_contexts w"
  "m_conns (upd_conn h f w) k = (if k = h then map_option f (m_conns w h) else m_conns w k)"
  by (simp_all add: upd_conn_def)

lemma CEventHandler_close_more:
  "CEventHandler_close h w = Some (r, w') \<Longrightarrow> ev_world.more w' = ev_world.more w"
  by (auto simp: CEventHandler_close_def del_event_def CSockBase_close_def os_close_def epoll_ctl_def Let_def
      bind_eq_Some_conv upd_handler_def split: if_splits)

lemma del_client_context_simps [simp]:
  "m_conns (snd (del_client_context t c w)) = m_conns w" "m_contexts (snd (del_client_context t c w)) = m_contexts w"
  "m_client_msg (snd (del_client_context t c w)) = m_client_msg w" "w_now (snd (del_client_context t c w)) = w_now w"
  by (simp_all add: del_client_context_def set_topic_def split: option.split)

lemma del_topics_simps [simp]:
  "m_conns (del_topics ts c w) = m_conns w" "m_contexts (del_topics ts c w) = m_contexts w"
  "m_client_msg (del_topics ts c w) = m_client_msg w" "w_now (del_topics ts c w) = w_now w"
  by (induction ts arbitrary: w) simp_all

lemma del_client_id_simps [simp]:
  "m_conns (snd (del_client_id i w)) = m_conns w" "m_contexts (snd (del_client_id i w)) = m_contexts w"
  "m_topic_mgr (snd (del_client_id i w)) = m_topic_mgr w" "w_now (snd (del_client_id i w)) = w_now w"
  by (simp_all add: del_client_id_def split: option.split)

lemma del_client_context_cong:
  "m_topic_mgr a = m_topic_mgr b \<Longrightarrow> m_topic_mgr (snd (del_client_context t c a)) = m_topic_mgr (snd (del_client_context t c b))"
  by (cases "map_of (m_topic_mgr b) t") (simp_all add: del_client_context_def set_topic_def)

lemma del_topics_cong:
  "m_topic_mgr a = m_topic_mgr b \<Longrightarrow> m_topic_mgr (del_topics ts c a) = m_topic_mgr (del_topics ts c b)"
proof (induction ts arbitrary: a b)
  case (Cons t ts)
  show ?case using Cons.IH [OF del_client_context_cong [OF Cons.prems]] by simp
qed simp

text \<open>What closing a connection does to the shared state.\<close>

lemma handle_close_effect:
  assumes "handle_close h w = Some (r, w')"
  obtains k c x clean where "m_conns w h = Some k" "c_client_context k = Some c" "m_contexts w c = Some x"
    "ctx_clean_session x = Some clean" "r = 0" "m_handlers w' h = None" "m_conns w' = (m_conns w)(h := None)"
    "m_contexts w' = (m_contexts w)(c \<mapsto> x\<lparr>ctx_close_time := Some (w_now w), ctx_mqtt_connection := None\<rparr>)"
    "m_topic_mgr w' = m_topic_mgr (if clean then del_topics (ctx_subcribe_topics x) c w else w)"
    "m_client_msg w' = m_client_msg (if clean then snd (del_client_id (ctx_client_id x) w) else w)"
proof -
  obtain u where u: "CEventHandler_close h w = Some (0, u)"
    using assms by (auto simp: handle_close_def bind_eq_Some_conv CEventHandler_close_def)
  note m = broker_more [OF CEventHandler_close_more [OF u]]
  have dt: "m_topic_mgr (del_topics ts c u) = m_topic_mgr (del_topics ts c w)" for ts c
    by (rule del_topics_cong [OF m(3)])
  have dc: "m_client_msg (snd (del_client_id i (del_topics ts c u))) = m_client_msg (snd (del_client_id i w))" for i ts c
    using m(4) by (simp add: del_client_id_def split: option.split)
  obtain k c x clean where k: "m_conns w h = Some k" "c_client_context k = Some c" "m_contexts w c = Some x"
    "ctx_clean_session x = Some clean"
    using assms u m by (auto simp: handle_close_def bind_eq_Some_conv)
  have "r = 0" "w' = delete_conn h (upd_ctx c (ctx_mqtt_connection_update (\<lambda>_. None))
      (the (ctx_flush c (let w = (if clean then snd (del_client_id (ctx_client_id x) (del_topics (ctx_subcribe_topics x) c u)) else u) in
         upd_ctx c (ctx_close_time_update (\<lambda>_. Some (w_now w))) w))))"
    using assms u k m by (auto simp: handle_close_def bind_eq_Some_conv Let_def)
  then show thesis
    using that [OF k] k m dt dc
    by (simp add: delete_conn_def delete_handler_def ctx_flush_def Let_def fun_upd_def fun_eq_iff split: if_splits)
qed

text \<open>
  The raw pointer from a context to its connection is valid, and the connection has that context.
\<close>

definition ptrs_ok :: "(ctxid \<rightharpoonup> ctmqtt_client_context) \<Rightarrow> (hid \<rightharpoonup> cmqtt_connection) \<Rightarrow> bool" where
  "ptrs_ok cs ks \<longleftrightarrow> (\<forall>c x h. cs c = Some x \<and> ctx_mqtt_connection x = Some h \<longrightarrow>
     (\<exists>k. ks h = Some k \<and> c_client_context k = Some c))"

definition link_inv :: "broker \<Rightarrow> bool" where
  "link_inv w \<longleftrightarrow> ptrs_ok (m_contexts w) (m_conns w)"

lemma ptrs_okD: "ptrs_ok cs ks \<Longrightarrow> cs c = Some x \<Longrightarrow> ctx_mqtt_connection x = Some h \<Longrightarrow> \<exists>k. ks h = Some k \<and> c_client_context k = Some c"
  unfolding ptrs_ok_def by blast

lemma ptrs_okI: "(\<And>c x h. cs c = Some x \<Longrightarrow> ctx_mqtt_connection x = Some h \<Longrightarrow> \<exists>k. ks h = Some k \<and> c_client_context k = Some c) \<Longrightarrow> ptrs_ok cs ks"
  unfolding ptrs_ok_def by blast

lemma link_inv_ctx:
  assumes "link_inv w" "\<And>x. ctx_mqtt_connection (g x) = ctx_mqtt_connection x"
  shows "link_inv (upd_ctx c g w)"
  using assms ptrs_okD [of "m_contexts w" "m_conns w"] unfolding link_inv_def
  by (intro ptrs_okI) (auto split: if_splits)

lemma link_inv_close:
  assumes "link_inv w"
  shows "wp (handle_close h w) (\<lambda>(r, w'). link_inv w')"
proof (rule wpI, clarify)
  fix r w' assume "handle_close h w = Some (r, w')"
  then obtain k c x clean where *: "m_conns w h = Some k" "c_client_context k = Some c" "m_conns w' = (m_conns w)(h := None)"
    "m_contexts w' = (m_contexts w)(c \<mapsto> x\<lparr>ctx_close_time := Some (w_now w), ctx_mqtt_connection := None\<rparr>)"
    by (rule handle_close_effect)
  then show "link_inv w'"
    using ptrs_okD [OF assms [unfolded link_inv_def]] unfolding link_inv_def
    by (intro ptrs_okI) (fastforce split: if_splits)
qed

lemma link_inv_client_context:
  assumes "link_inv w"
  shows "wp (client_context h w) (\<lambda>(c, w'). link_inv w')"
  using assms ptrs_okD [OF assms [unfolded link_inv_def]] unfolding link_inv_def
  by (auto simp: client_context_def make_context_def CTMqttClientContext_def Let_def intro!: wp_rules ptrs_okI
      split: option.split if_splits) fastforce+

definition no_context :: "hid \<Rightarrow> broker \<Rightarrow> bool" where
  "no_context h w \<longleftrightarrow> (\<forall>k. m_conns w h = Some k \<longrightarrow> c_client_context k = None)"

text \<open>A client that connects for the first time on a connection takes over an older context together
  with the right to be its connection.\<close>

lemma link_inv_take_over:
  assumes "link_inv w" "no_context h w" "m_conns w h \<noteq> None"
  shows "link_inv (upd_conn h (c_client_context_update (\<lambda>_. Some c)) (upd_ctx c (ctx_mqtt_connection_update (\<lambda>_. Some h)) (upd_ctx c (ctx_init m) w)))"
  using assms(2,3) ptrs_okD [OF assms(1) [unfolded link_inv_def]] unfolding link_inv_def no_context_def
  by (intro ptrs_okI) (fastforce split: if_splits)

lemma no_context_close:
  assumes "no_context h w"
  shows "wp (handle_close old w) (\<lambda>(r, w'). no_context h w')"
proof (rule wpI, clarify)
  fix r w' assume "handle_close old w = Some (r, w')"
  then obtain k c x clean where "m_conns w' = (m_conns w)(old := None)" by (rule handle_close_effect)
  then show "no_context h w'" using assms by (simp add: no_context_def)
qed

lemma link_inv_more: "m_contexts w' = m_contexts w \<Longrightarrow> m_conns w' = m_conns w \<Longrightarrow> link_inv w \<Longrightarrow> link_inv w'"
  by (simp add: link_inv_def)

lemma add_client_id_simps [simp]:
  "m_conns (snd (add_client_id i c w)) = m_conns w" "m_contexts (snd (add_client_id i c w)) = m_contexts w"
  by (simp_all add: add_client_id_def split: option.split)

lemma link_inv_connect:
  assumes "link_inv w" "no_context h w"
  shows "wp (connect_context h m w) link_inv"
proof -
  have cc: "wp (client_context h u) Q" if "link_inv u" "\<And>c u'. link_inv u' \<Longrightarrow> Q (c, u')" for u Q
    using link_inv_client_context [OF that(1), of h] that(2) by (auto simp: wp_def)
  have hc: "wp (handle_close old w) Q" if "\<And>r u'. link_inv u' \<Longrightarrow> no_context h u' \<Longrightarrow> Q (r, u')" for old Q
    using link_inv_close [OF assms(1), of old] no_context_close [OF assms(2), of old] that by (auto simp: wp_def)
  show ?thesis
    using assms
    by (auto simp: connect_context_def Let_def ctx_init_def split: option.split
        intro!: wp_rules cc hc link_inv_take_over link_inv_more [OF add_client_id_simps(2,1)] link_inv_ctx)
qed

lemma link_inv_updates:
  "link_inv (upd_handler h f w) = link_inv w" "link_inv (w\<lparr>m_mem := mem\<rparr>) = link_inv w" "link_inv (w\<lparr>w_errno := e\<rparr>) = link_inv w"
  "link_inv (w\<lparr>m_epoll := ep\<rparr>) = link_inv w" "link_inv (w\<lparr>w_calls := n\<rparr>) = link_inv w" "link_inv (w\<lparr>w_sent := sn\<rparr>) = link_inv w"
  "link_inv (w\<lparr>m_topic_mgr := tm\<rparr>) = link_inv w" "link_inv (w\<lparr>m_msg_stats := tab\<rparr>) = link_inv w"
  "link_inv (w\<lparr>w_next_addr := na\<rparr>) = link_inv w"
  by (simp_all add: link_inv_def)

interpretation link: conn_frame link_inv "\<lambda>_ _ _. True" no_context
proof unfold_locales
  show "wp (patch_msg_id h off len mo i w) link_inv" if "link_inv w" for w h off len mo i
    using that unfolding link_inv_def patch_msg_id_def
    by (auto simp: Let_def intro!: wp_rules wpI [of "mem_put b j v" for b j v] ptrs_okI
        dest!: ptrs_okD split: if_splits)
qed (simp_all add: link_inv_updates link_inv_ctx link_inv_close link_inv_client_context link_inv_connect)

subsection \<open>Answers\<close>

text \<open>The encoders of answers leave the length of their buffer alone.\<close>

definition keeps_len :: "'m cmqtt_msg_scheme \<Rightarrow> 'm cmqtt_msg_scheme \<Rightarrow> bool" where
  "keeps_len m m' \<longleftrightarrow> length (m_buf (m_mqtt_pkt m')) = length (m_buf (m_mqtt_pkt m))"

lemma write_remain_length_loop_len:
  "write_remain_length_loop buf off n k = Some (buf', k') \<Longrightarrow> length buf' = length buf"
proof (induction buf off n k rule: write_remain_length_loop.induct)
  case (1 buf off n k)
  then show ?case
    by (subst (asm) (2) write_remain_length_loop.simps)
      (auto simp: Let_def dest: mem_put_length split: option.splits if_splits)
qed

lemma put_len:
  "wp (put_byte v m) (keeps_len m)" "wp (put_short s m) (keeps_len m)" "wp (put_remain_length n m) (keeps_len m)"
  "wp (CMqttMsg_encode m) (\<lambda>(r, m'). keeps_len m m')" "wp (check_encoded n m) (\<lambda>(r, m'). keeps_len m m')"
  by (auto simp: wp_def keeps_len_def put_byte_def put_short_def put_remain_length_def CMqttMsg_encode_def check_encoded_def
      write_byte_def write_short_def write_remain_length_def bind_eq_Some_conv
      dest!: mem_put_length write_remain_length_loop_len split: if_splits)

lemma keeps_len_refl: "keeps_len m m"
  by (simp add: keeps_len_def)

lemma keeps_len_reserved [simp]: "keeps_len m (m'\<lparr>m_reserved := v\<rparr> :: cmqtt_connack) = keeps_len m m'"
  by (cases m') (simp add: keeps_len_def)

lemma keeps_len_trans: "keeps_len m m' \<Longrightarrow> keeps_len m' m'' \<Longrightarrow> keeps_len m m''"
  by (simp add: keeps_len_def)

lemma put_len_wp:
  "keeps_len m0 m \<Longrightarrow> (\<And>m'. keeps_len m0 m' \<Longrightarrow> Q m') \<Longrightarrow> wp (put_byte v m) Q"
  "keeps_len m0 m \<Longrightarrow> (\<And>m'. keeps_len m0 m' \<Longrightarrow> Q m') \<Longrightarrow> wp (put_short s m) Q"
  "keeps_len m0 m \<Longrightarrow> (\<And>m'. keeps_len m0 m' \<Longrightarrow> Q m') \<Longrightarrow> wp (put_remain_length n m) Q"
  "keeps_len m0 m \<Longrightarrow> (\<And>r m'. keeps_len m0 m' \<Longrightarrow> R (r, m')) \<Longrightarrow> wp (CMqttMsg_encode m) R"
  "keeps_len m0 m \<Longrightarrow> (\<And>r m'. keeps_len m0 m' \<Longrightarrow> R (r, m')) \<Longrightarrow> wp (check_encoded n' m) R"
  by (auto simp: wp_def intro: keeps_len_trans dest!: wpD [OF put_len(1)] wpD [OF put_len(2)] wpD [OF put_len(3)] wpD [OF put_len(4)] wpD [OF put_len(5)])

text \<open>An encoder gives the answer \<open>bs\<close> in a buffer of \<open>n\<close> bytes.\<close>

definition answers :: "u32 \<Rightarrow> bytes \<Rightarrow> (bytes \<Rightarrow> u32 \<Rightarrow> (int \<times> 'm cmqtt_msg_scheme) option) \<Rightarrow> bool" where
  "answers n bs enc \<longleftrightarrow> (\<forall>buf. length buf = unat n \<longrightarrow> encoded bs (enc buf n) \<and>
     wp (enc buf n) (\<lambda>(r, m). length (m_buf (m_mqtt_pkt m)) = unat n))"

lemma answersI:
  assumes "\<And>buf. length buf = unat n \<Longrightarrow> encoded bs (enc buf n)" "\<And>buf. wp (enc buf n) (\<lambda>(r, m). keeps_len (ini buf) m)"
    and "\<And>buf. m_buf (m_mqtt_pkt (ini buf)) = buf"
  shows "answers n bs enc"
  using assms(1) assms(2) [unfolded keeps_len_def assms(3)] by (auto simp: answers_def wp_def)

lemma answer_encoders:
  "answers 4 [0xD0, 0] (\<lambda>b n. CMqttPingResp_encode (CMqttMsg b n PINGRESP))"
  "answers 32 [0x20, 2, 0, Code_val code] (\<lambda>b n. CMqttConnAck_encode (CMqttConnAck b n code))"
  "answers 64 [0x40, 2, hi_byte i, lo_byte i] (\<lambda>b n. CMqttPublishAck_encode (CMqttPublishAck b n i))"
  "answers 64 [0xB0, 2, hi_byte i, lo_byte i] (\<lambda>b n. CMqttUnsubAck_encode (CMqttUnsubAck b n i))"
proof -
  note r = keeps_len_refl
  show "answers 4 [0xD0, 0] (\<lambda>b n. CMqttPingResp_encode (CMqttMsg b n PINGRESP))"
    by (rule answersI [where ini = "\<lambda>b. CMqttMsg b 4 PINGRESP"], (rule CMqttPing_encoded; simp))
      (auto simp: CMqttPingResp_encode_def CMqttMsg_def CMqttPkt_def intro!: put_len_wp r)
  show "answers 32 [0x20, 2, 0, Code_val code] (\<lambda>b n. CMqttConnAck_encode (CMqttConnAck b n code))"
    by (rule answersI [where ini = "\<lambda>b. CMqttConnAck b 32 code"], (rule CMqttConnAck_encoded; simp))
      (auto simp: CMqttConnAck_encode_def CMqttConnAck_def CMqttPkt_def Let_def intro!: put_len_wp r)
  show "answers 64 [0x40, 2, hi_byte i, lo_byte i] (\<lambda>b n. CMqttPublishAck_encode (CMqttPublishAck b n i))"
    by (rule answersI [where ini = "\<lambda>b. CMqttPublishAck b 64 i"], (rule CMqttPublishAck_encoded; simp))
      (auto simp: CMqttPublishAck_encode_def CMqttPublishAck_def CMqttPkt_def intro!: put_len_wp r)
  show "answers 64 [0xB0, 2, hi_byte i, lo_byte i] (\<lambda>b n. CMqttUnsubAck_encode (CMqttUnsubAck b n i))"
    by (rule answersI [where ini = "\<lambda>b. CMqttUnsubAck b 64 i"], (rule CMqttUnsubAck_encoded; simp))
      (auto simp: CMqttUnsubAck_encode_def CMqttUnsubAck_def CMqttPkt_def intro!: put_len_wp r)
qed

lemma write_ptr_fresh: "write_ptr (CMbuf d t) = d" "mbuf_max_size (CMbuf d t) = of_nat (length d)"
  by (simp_all add: write_ptr_def CMbuf_def mbuf_max_size_def)

lemma fill_fresh_mbuf:
  assumes "length d = n" "d = bs @ r" "n < 2147483648"
  shows "mbuf_wf (write_ptr_skip (of_int (int (length bs))) ((CMbuf d0 t)\<lparr>m_data := d, m_data_size := of_nat n\<rparr>))"
    and "mbuf_contents (write_ptr_skip (of_int (int (length bs))) ((CMbuf d0 t)\<lparr>m_data := d, m_data_size := of_nat n\<rparr>)) = bs"
  using assms by (auto simp: mbuf_wf_def write_ptr_skip_def CMbuf_def mbuf_contents_def mbuf_word)

text \<open>Sending an answer is handing a new buffer with the encoded bytes to \<^verbatim>\<open>put\<close>.\<close>

lemma send_answer_put:
  assumes "answers n bs enc" "unat n < 2147483648" "bs \<noteq> []"
  shows "\<exists>w1. send_answer h n enc w = mput h (w_next_addr w) w1 \<and> readable w1 (w_next_addr w) \<and> contents w1 (w_next_addr w) = bs \<and>
    m_handlers w1 = m_handlers w \<and> w_writes w1 = w_writes w \<and> w_calls w1 = w_calls w \<and> w_errno w1 = w_errno w \<and>
    w_sent w1 = w_sent w \<and> (\<forall>c. c \<noteq> w_next_addr w \<longrightarrow> heap w1 c = heap w c) \<and>
    ev_world.more w1 = ev_world.more (w\<lparr>w_next_addr := Suc (w_next_addr w)\<rparr>)"
proof -
  let ?d0 = "replicate (unat n) (w_junk w)" and ?a = "w_next_addr w"
  let ?b = "CMbuf ?d0 (of_int (w_now w))"
  have u: "of_nat (unat n) = n" by (simp add: of_nat_unat)
  have enc: "encoded bs (enc ?d0 n)" "wp (enc ?d0 n) (\<lambda>(r, m). length (m_buf (m_mqtt_pkt m)) = unat n)"
    using assms(1) by (auto simp: answers_def)
  obtain m r where m: "enc ?d0 n = Some (int (length bs), m)" "m_buf (m_mqtt_pkt m) = bs @ r"
    using encodedD [OF enc(1)] by blast
  have l: "length (bs @ r) = unat n" using enc(2) m by (simp add: wp_def)
  let ?b2 = "write_ptr_skip (of_int (int (length bs))) (?b\<lparr>m_data := bs @ r\<rparr>)"
  have b2: "mbuf_wf ?b2" "mbuf_contents ?b2 = bs"
    using fill_fresh_mbuf [OF l refl assms(2), of ?d0 "of_int (w_now w)"] by (simp_all add: CMbuf_def)
  obtain w1 where w1: "send_answer h n enc w = mput h ?a w1" "heap w1 = (heap w)(?a \<mapsto> ?b2)"
    "m_handlers w1 = m_handlers w" "w_writes w1 = w_writes w" "w_calls w1 = w_calls w" "w_errno w1 = w_errno w"
    "w_sent w1 = w_sent w" "ev_world.more w1 = ev_world.more (w\<lparr>w_next_addr := Suc ?a\<rparr>)"
    using m that [of "upd_mbuf ?a (write_ptr_skip (of_int (int (length bs)))) (upd_mbuf ?a (m_data_update (\<lambda>_. bs @ r)) (snd (make_mbuf n w)))"]
    by (simp add: send_answer_def make_mbuf_def Let_def heap_def write_ptr_fresh u fun_eq_iff) (simp add: upd_mbuf_def)
  then show ?thesis using b2 assms(3) by (auto simp: readable_def contents_def)
qed

subsection \<open>Runs of the broker\<close>

text \<open>
  The steps of the broker between two calls of \<^verbatim>\<open>epoll_wait\<close>, one operation at a time: a new connection
  (the allocator gives an object that is not in use), bytes arriving in a receive buffer, one packet
  processed, a writable socket, a connection closed by the poller or by the idle check, a message
  published from another thread, and the clock. A packet step excludes a CONNECT on a connection
  that has a context already.
\<close>

definition is_connect :: "hid \<Rightarrow> u32 \<Rightarrow> broker \<Rightarrow> bool" where
  "is_connect h off w \<longleftrightarrow> (\<exists>b. conn_buf h off w = Some b \<and> to_MqttType (drop_bit 4 (b ! 0 AND 0xF0)) = CONNECT)"

definition in_buffer :: "hid \<Rightarrow> u32 \<Rightarrow> u32 \<Rightarrow> broker \<Rightarrow> bool" where
  "in_buffer h off len w \<longleftrightarrow> unat len < 2147483648 \<and>
     (\<forall>k. m_conns w h = Some k \<longrightarrow> unat off + unat len \<le> length (m_recv_buffer k))"

inductive broker_step :: "broker \<Rightarrow> broker \<Rightarrow> bool" where
  accept: "m_conns w (w_next_hid w) = None \<Longrightarrow> Acceptor_handle_input fd peer mask0 w = Some (r, w') \<Longrightarrow> broker_step w w'"
| receive: "broker_step w (upd_conn h (\<lambda>k. k\<lparr>m_recv_buffer := d, m_cur_buf_pos := p, m_last_msg_time := t\<rparr>) w)"
| packet: "in_buffer h off len w \<Longrightarrow> (is_connect h off w \<Longrightarrow> no_context h w) \<Longrightarrow> process h off len w = Some (r, w') \<Longrightarrow> broker_step w w'"
| writable: "handle_output handle_close h w = Some (r, w') \<Longrightarrow> broker_step w w'"
| close: "handle_close h w = Some (r, w') \<Longrightarrow> broker_step w w'"
| notify: "publish handle_close t a msg w = Some (r, w') \<Longrightarrow> broker_step w w'"
| notify_all: "publish_all handle_close a w = Some (r, w') \<Longrightarrow> broker_step w w'"
| clock: "broker_step w (w\<lparr>w_now := t\<rparr>)"

lemma Acceptor_conns:
  assumes "Acceptor_handle_input fd peer mask0 w = Some (r, w')"
  shows "m_contexts w' = m_contexts w \<and> (\<exists>k. m_conns w' = (m_conns w)(w_next_hid w \<mapsto> k))"
  using assms by (auto simp: Acceptor_handle_input_def CEventHandler_open_def add_event_def sock_accept_def epoll_ctl_def
      upd_handler_def Let_def bind_eq_Some_conv split: if_splits option.splits)

lemma broker_step_link: "broker_step w w' \<Longrightarrow> link_inv w \<Longrightarrow> link_inv w'"
proof (induction rule: broker_step.induct)
  case (accept w fd peer mask0 r w')
  then obtain k where "m_contexts w' = m_contexts w" "m_conns w' = (m_conns w)(w_next_hid w \<mapsto> k)"
    using Acceptor_conns by blast
  then show ?case
    using accept.prems accept.hyps(1) ptrs_okD unfolding link_inv_def by (intro ptrs_okI) fastforce
next
  case (receive w h d p t)
  then show ?case
    unfolding link_inv_def by (intro ptrs_okI) (auto dest!: ptrs_okD split: if_splits)
next
  case (packet h off len w r w')
  then show ?case
    using link.process_J [where w = w and h = h and off = off and len = len and Q = "\<lambda>(r, w'). link_inv w'"]
    by (auto simp: in_buffer_def is_connect_def wp_def)
next
  case (writable h w r w')
  then show ?case using link.handle_output_J [where w = w and h = h and Q = "\<lambda>(r, w'). link_inv w'"] by (auto simp: wp_def)
next
  case (close h w r w')
  then show ?case using link_inv_close [of w h] by (auto simp: wp_def)
next
  case (notify t a msg w r w')
  then show ?case using link.publish_J [where w = w and t = t and a = a and msg = msg and Q = "\<lambda>(r, w'). link_inv w'"] by (auto simp: wp_def)
next
  case (notify_all a w r w')
  then show ?case using link.publish_all_J [where w = w and a = a and Q = "\<lambda>(r, w'). link_inv w'"] by (auto simp: wp_def)
next
  case (clock w t)
  then show ?case by (simp add: link_inv_def)
qed

interpretation mqtt: closing_handler handle_close
proof unfold_locales
  show "m_handlers w' h = None" if "handle_close h w = Some (r, w')" for h r w w'
    using that by (rule handle_close_effect)
  show "handle_close h w = None" if "m_handlers w h = None" for h w
    using that by (simp add: handle_close_def CEventHandler_close_def)
qed

subsection \<open>Properties\<close>

text \<open>A broker with one connection, for the examples: its receive buffer, context, contexts and client ids.\<close>

definition one_conn :: "bytes \<Rightarrow> ctxid option \<Rightarrow> (ctxid \<rightharpoonup> ctmqtt_client_context) \<Rightarrow> (cstring \<times> ctxid) list \<Rightarrow> (nat \<Rightarrow> write_res) \<Rightarrow> addr list \<Rightarrow> broker" where
  "one_conn buf ctx ctxs ids writes q =
     \<lparr>m_mem = \<lparr>w_heap = [0 \<mapsto> (CMbuf [1, 2, 3] 0)\<lparr>m_write_pos := 3\<rparr>], w_store = CMsgMemStore 0\<rparr>,
      m_handlers = [7 \<mapsto> (CEventHandler 2 True 0)\<lparr>m_sock_handle := 5, m_send_msg_queue := q\<rparr>],
      m_map_event_handlers = [(5, 7)], m_running_flag = True, m_notify_writer = None, m_notify_deque = [],
      m_epoll = [5 \<mapsto> (1, 7)], w_errno = 0, w_writes = writes, w_calls = 0, w_sent = (\<lambda>_. []),
      m_conns = [7 \<mapsto> \<lparr>c_client_context = ctx, m_recv_buffer = buf, m_cur_buf_pos = 0, m_last_msg_time = None\<rparr>],
      m_contexts = ctxs, m_topic_mgr = [], m_client_msg = ids, m_msg_stats = [], m_client_record = [], w_now = 0,
      w_next_addr = 3, w_next_ctx = 4, w_next_hid = 8, w_junk = 0\<rparr>"

text \<open>
  C10. As long as no connection sends a second CONNECT, the raw pointer from a client context to its
  connection is never dangling: in every state the broker reaches from one without connected
  clients, it points to a live connection whose context is that context.
\<close>

theorem no_dangling_connection:
  assumes "broker_step\<^sup>*\<^sup>* w0 w" "\<forall>c x. m_contexts w0 c = Some x \<longrightarrow> ctx_mqtt_connection x = None"
    and "m_contexts w c = Some x" "ctx_mqtt_connection x = Some h"
  shows "\<exists>k. m_conns w h = Some k \<and> c_client_context k = Some c"
proof -
  have "link_inv w0" using assms(2) unfolding link_inv_def by (intro ptrs_okI) auto
  with assms(1) have "link_inv w" by (induction rule: rtranclp_induct) (auto dest: broker_step_link)
  then show ?thesis using assms(3,4) ptrs_okD unfolding link_inv_def by blast
qed

theorem no_dangling_connection_witness:
  "\<exists>w k. broker_step (one_conn [0x82, 0] None Map.empty [] (\<lambda>_. Wrote 1) []) w \<and> m_conns w 7 = Some k \<and> c_client_context k = Some 4"
proof -
  let ?w = "one_conn [0x82, 0] None Map.empty [] (\<lambda>_. Wrote 1) []"
  have t: "to_MqttType 8 = SUBSCRIBE"
    by (simp add: to_MqttType_def mqtt_types_def)
  obtain r w where w: "process 7 0 2 ?w = Some (r, w)" "m_contexts w 4 = Some (CTMqttClientContext (Some 7))"
    by (simp add: process_def conn_buf_def one_conn_def mem_get_def t handle_subscribe_msg_def client_context_def
        make_context_def upd_conn_def CTMqttClientContext_def)
  have step: "broker_step ?w w"
    by (rule broker_step.packet [OF _ _ w(1)]) (simp_all add: in_buffer_def is_connect_def conn_buf_def one_conn_def t no_context_def)
  then have "\<exists>k. m_conns w 7 = Some k \<and> c_client_context k = Some 4"
    using no_dangling_connection [OF _ _ w(2), of ?w 7] by (auto simp: one_conn_def CTMqttClientContext_def)
  then show ?thesis using step by blast
qed

text \<open>
  A second CONNECT with the client id of its own connection closes and deletes that connection
  while it is processing the packet, and the handler goes on using it.
\<close>

theorem second_connect_faults:
  assumes "m_conns w h = Some k" "map_of (m_client_msg w) (m_str_client_id m) = Some c" "m_contexts w c = Some x"
    and "ctx_mqtt_connection x = Some h" "m_str_client_id m \<noteq> []"
    and "CMqttConnect_decode (CMqttConnect (drop (unat off) (m_recv_buffer k)) len) = Some (0, m)"
  shows "handle_connect_msg h off len w = None"
proof -
  have "m_conns w' h = None" if "handle_close h w = Some (r, w')" for r w'
    using that by (rule handle_close_effect) simp
  then have "connect_context h m w = None"
    using assms(2-4) by (cases "handle_close h w") (auto simp: connect_context_def find_client_id_def Let_def)
  then show ?thesis using assms(1,5,6) by (simp add: handle_connect_msg_def conn_buf_def)
qed

theorem second_connect_faults_witness:
  "handle_connect_msg 7 0 12 (one_conn (frame 0x10 (connect_body ((CMqttConnect [] 0)\<lparr>m_str_client_id := [65, 66]\<rparr>) 0)) (Some 2)
     [2 \<mapsto> CTMqttClientContext (Some 7)] [([65, 66], 2)] (\<lambda>_. Wrote 1) []) = None"
proof -
  let ?c = "(CMqttConnect [] 0)\<lparr>m_str_client_id := [65, 66]\<rparr>" and ?len = "12 :: u32"
  let ?bs = "frame 0x10 (connect_body ?c 0)"
  have len: "unat ?len = length ?bs" "length (connect_body ?c 0) < 16384"
    by (simp_all add: CMqttConnect_def connect_body_def connect_opt_def con_will_def con_username_def con_password_def length_frame rl_enc_one)
  have ty: "m_msg_type (fixed_header_decode 0x10) = CONNECT"
    by (simp add: fixed_header_decode_def fix_msg_type_def to_MqttType_def mqtt_types_def)
  obtain m where m: "CMqttConnect_decode (CMqttConnect (?bs @ []) ?len) = Some (0, m)" "connect_fields ?c 0 m"
    using decodedD [OF CMqttConnect_decoded [OF len ty, of "[]"]] by (auto simp: CMqttConnect_def)
  then show ?thesis
    using second_connect_faults [where h = 7 and m = m and c = 2 and x = "CTMqttClientContext (Some 7)" and off = 0 and len = ?len and
        w = "one_conn ?bs (Some 2) [2 \<mapsto> CTMqttClientContext (Some 7)] [([65, 66], 2)] (\<lambda>_. Wrote 1) []"]
    by (simp add: one_conn_def connect_fields_def CMqttConnect_def CTMqttClientContext_def)
qed

text \<open>
  C40. A client that opens a connection and closes it before it has sent a packet makes the broker
  dereference a null pointer: the context is used before it is tested.
\<close>

theorem silent_client_faults:
  assumes "m_conns w h = Some k" "c_client_context k = None"
  shows "handle_close h w = None \<and> poll_dispatch handle_input handle_close (EPOLLIN, Some h, Read []) w = None"
proof -
  have "handle_close h u = None" if "m_conns u h = Some k" for u
  proof (rule ccontr)
    assume "handle_close h u \<noteq> None"
    then obtain r w' where "handle_close h u = Some (r, w')" by auto
    then show False using that assms(2) by (auto elim: handle_close_effect)
  qed
  then show ?thesis
    using assms by (auto simp: poll_dispatch_defs handle_input_def bind_eq_None_conv event_defs)
qed

theorem silent_client_faults_witness:
  "poll_dispatch handle_input handle_close (EPOLLIN, Some 7, Read []) (one_conn [] None Map.empty [] (\<lambda>_. Wrote 1) []) = None"
  using silent_client_faults [of "one_conn [] None Map.empty [] (\<lambda>_. Wrote 1) []" 7] by (simp add: one_conn_def)

text \<open>
  An error of \<^verbatim>\<open>write\<close> on a connection with queued messages deletes the connection inside
  \<^verbatim>\<open>handle_output\<close>, which then goes on with the deleted object; an error while an answer to PINGREQ is
  sent deletes it too, and the poller closes it a second time.
\<close>

theorem write_error_faults:
  assumes "m_handlers w h = Some y" "0 \<le> m_sock_handle y" "w_writes w (w_calls w) = Write_error e" "\<not> blocking e"
  shows "(m_send_msg_queue y = a # q \<and> readable w a \<longrightarrow> poll_dispatch handle_input handle_close (EPOLLOUT, Some h, rd) w = None) \<and>
    (m_send_msg_queue y = [] \<and> handle_pingreq_msg h off len w = Some (r, w') \<longrightarrow> r = -1 \<and> handle_close h w' = None)"
proof (intro conjI impI)
  assume *: "m_send_msg_queue y = a # q \<and> readable w a"
  then have "handle_output handle_close h w = None"
    using mqtt.handle_output_error assms by blast
  then show "poll_dispatch handle_input handle_close (EPOLLOUT, Some h, rd) w = None"
    using assms(1) by (simp add: poll_dispatch_defs event_defs)
next
  assume *: "m_send_msg_queue y = [] \<and> handle_pingreq_msg h off len w = Some (r, w')"
  obtain w1 where w1: "handle_pingreq_msg h off len w = mput h (w_next_addr w) w1" "readable w1 (w_next_addr w)"
    "m_handlers w1 = m_handlers w" "w_writes w1 = w_writes w" "w_calls w1 = w_calls w"
    using send_answer_put [OF answer_encoders(1), of h w] unfolding handle_pingreq_msg_def by auto
  have "r = -1 \<and> m_handlers w' h = None"
    using mqtt.put_error [of w1 h y "w_next_addr w" e r w'] w1 * assms by simp
  then show "r = -1" "handle_close h w' = None" using mqtt.close_deleted by auto
qed

theorem write_error_faults_witness:
  "poll_dispatch handle_input handle_close (EPOLLOUT, Some 7, Read []) (one_conn [] None Map.empty [] (\<lambda>_. Write_error 32) [0]) = None"
  using write_error_faults [where w = "one_conn [] None Map.empty [] (\<lambda>_. Write_error 32) [0]" and h = 7 and a = 0 and q = "[]" and e = 32 and rd = "Read []"]
  by (simp add: one_conn_def CEventHandler_def readable_def heap_def mbuf_wf_def CMbuf_def mbuf_contents_def blocking_def errno_defs)

end
