(* ===== verification/Chunk_File.thy ===== *)
theory Chunk_File
  imports Mqtt_Connection
begin

text \<open>
  The database file of the broker, as far as \<^verbatim>\<open>src/mqtt_server/persist_msg_pack.cpp\<close> and its predecessor
  \<^verbatim>\<open>src/mqtt_server/persist.cpp\<close> have it in common: opening, writing, the framing of chunks, and the loop that
  reads them back and hands each to a function of its type.

  The record \<open>persist_world\<close> has the members of the class with the file system and the broker. An open
  \<^verbatim>\<open>FILE\<close> is its position. What is written is in the buffer of the standard library first: \<^verbatim>\<open>fwrite\<close> is short only if
  the bytes it has to hand to the disk do not fit there, and bytes that are still in the buffer when the file is closed
  are lost on a full disk, without a trace, since the results of \<^verbatim>\<open>fflush\<close> and \<^verbatim>\<open>fclose\<close> are not looked at. The loop
  reads from the bytes that are left of the file, so that it ends on any file. The chunk is read into a
  static buffer of one megabyte, which keeps the bytes of the chunks before it.
\<close>

text \<open>
  The disk: the number of bytes it takes for the file, and how much the library keeps in its buffer, as a function of the
  length the file has for the program (a number for every length, so that any way of buffering is covered).
\<close>

type_synonym disk = "nat \<times> (nat \<Rightarrow> nat)"

record persist_world =
  m_file_name :: cstring
  m_db_file :: "nat option"
  m_tmp_msg_db :: "(u64 \<times> addr) list"
  last_db_update_time :: u32
  w_chunk_buf :: bytes
  w_files :: "cstring \<rightharpoonup> bytes"
  w_fopen_ok :: bool
  w_disk :: disk
  cfg_max_idle_timeout :: u32
  w_broker :: broker

abbreviation w_room :: "persist_world \<Rightarrow> nat" where
  "w_room p \<equiv> fst (w_disk p)"

abbreviation w_stdio :: "persist_world \<Rightarrow> nat \<Rightarrow> nat" where
  "w_stdio p \<equiv> snd (w_disk p)"

definition CPersist :: "cstring \<Rightarrow> (cstring \<rightharpoonup> bytes) \<Rightarrow> disk \<Rightarrow> u32 \<Rightarrow> broker \<Rightarrow> persist_world" where
  "CPersist file_name files room idle w =
     \<lparr>m_file_name = file_name, m_db_file = None, m_tmp_msg_db = [], last_db_update_time = 0,
      w_chunk_buf = replicate 1048576 0, w_files = files, w_fopen_ok = True, w_disk = room,
      cfg_max_idle_timeout = idle, w_broker = w\<rparr>"

text \<open>The macro \<^verbatim>\<open>ERROR_RETURN(a, -1)\<close>.\<close>

definition error_return :: "(int \<times> 's) option \<Rightarrow> ('s \<Rightarrow> (int \<times> 's) option) \<Rightarrow> (int \<times> 's) option" where
  "error_return a k = do { (r, s) \<leftarrow> a; if r < 0 then Some (-1, s) else k s }"

subsection \<open>Writing\<close>

definition open_rb :: "persist_world \<Rightarrow> int \<times> persist_world" where
  "open_rb p =
     (if w_fopen_ok p \<and> m_file_name p \<in> dom (w_files p) then (0, p\<lparr>m_db_file := Some 0\<rparr>) else (-1, p\<lparr>m_db_file := None\<rparr>))"

definition open_wb :: "persist_world \<Rightarrow> int \<times> persist_world" where
  "open_wb p =
     (if w_fopen_ok p then (0, p\<lparr>m_db_file := Some 0, w_files := (w_files p)(m_file_name p \<mapsto> [])\<rparr>) else (-1, p\<lparr>m_db_file := None\<rparr>))"

text \<open>The contents of the file for the program, with the bytes that are in the buffer.\<close>

definition file_of :: "persist_world \<Rightarrow> bytes" where
  "file_of p = (case w_files p (m_file_name p) of None \<Rightarrow> [] | Some f \<Rightarrow> f)"

definition set_file :: "bytes \<Rightarrow> persist_world \<Rightarrow> persist_world" where
  "set_file f p = p\<lparr>w_files := (w_files p)(m_file_name p \<mapsto> f)\<rparr>"

text \<open>
  A null \<^verbatim>\<open>FILE *\<close> is undefined behaviour. A write inside the file replaces what is there. If the bytes that have to leave
  the buffer do not fit, the disk takes what it has room for.
\<close>

definition persist_write :: "bytes \<Rightarrow> persist_world \<Rightarrow> (int \<times> persist_world) option" where
  "persist_write buf p =
     do {
       pos \<leftarrow> m_db_file p;
       let f = take pos (file_of p) @ buf @ drop (pos + length buf) (file_of p);
       let p = p\<lparr>m_db_file := Some (pos + length buf)\<rparr>;
       if buf \<noteq> [] \<and> w_room p < length f - w_stdio p (length f) then Some (-1, set_file (take (w_room p) f) p)
       else Some (0, set_file f p)
     }"

text \<open>The calls of \<^verbatim>\<open>fflush\<close> and \<^verbatim>\<open>fclose\<close> behind the last write.\<close>

definition persist_close :: "persist_world \<Rightarrow> persist_world" where
  "persist_close p = (set_file (take (w_room p) (file_of p)) p)\<lparr>m_db_file := None\<rparr>"

definition write_chunk_info :: "u8 \<Rightarrow> u32 \<Rightarrow> persist_world \<Rightarrow> (int \<times> persist_world) option" where
  "write_chunk_info chunk_type chunk_len p =
     error_return (persist_write [0xEE] p) (\<lambda>p.
     error_return (persist_write [chunk_type] p) (\<lambda>p.
     error_return (persist_write (le_bytes 4 (unat chunk_len)) p) (\<lambda>p. Some (0, p))))"

text \<open>A chunk whose body is in memory.\<close>

definition write_chunk :: "u8 \<Rightarrow> bytes \<Rightarrow> persist_world \<Rightarrow> (int \<times> persist_world) option" where
  "write_chunk chunk_type body p =
     (let chunk_len = of_nat (length body) :: u32 in
      error_return (write_chunk_info chunk_type chunk_len p) (\<lambda>p.
      error_return (persist_write (take (unat chunk_len) body) p) (\<lambda>p. Some (0, p))))"

subsection \<open>Reading\<close>

type_synonym chunk_handler = "u8 \<Rightarrow> nat \<Rightarrow> bytes \<Rightarrow> persist_world \<Rightarrow> (int \<times> persist_world) option"

function restore_loop :: "chunk_handler \<Rightarrow> bytes \<Rightarrow> int \<Rightarrow> persist_world \<Rightarrow> (int \<times> persist_world) option" where
  "restore_loop h [] res p = Some (res, p)"
| "restore_loop h [tag] res p = Some (-1, p)"
| "restore_loop h (tag # chunk_type # rest) res p =
     (if tag \<noteq> 0xEE \<or> length rest < 4 then Some (-1, p)
      else
        let chunk_len = le_val (take 4 rest); body = take chunk_len (drop 4 rest) in
        if chunk_len > 1048576 then Some (-1, p)
        else
          let p = p\<lparr>w_chunk_buf := body @ drop (length body) (w_chunk_buf p)\<rparr> in
          if length body \<noteq> chunk_len then Some (-1, p)
          else do {
            (res, p) \<leftarrow> h chunk_type chunk_len (w_chunk_buf p) p;
            if res = -1 then Some (res, p) else restore_loop h (drop chunk_len (drop 4 rest)) res p
          })"
  by pat_completeness auto
termination by (relation "measure (\<lambda>(h, rest, res, p). length rest)") auto

subsection \<open>Shared buffers\<close>

text \<open>
  A buffer lives as long as something holds it: the queue of a client context that is reachable, a
  retained message, or a send queue. The last reference to go runs the destructor.
\<close>

definition live_contexts :: "broker \<Rightarrow> ctxid list" where
  "live_contexts w =
     map snd (m_client_msg w) @ concat (map (m_subcriber_clients \<circ> snd) (m_topic_mgr w)) @
     List.map_filter (\<lambda>h. Option.bind (m_conns w h) c_client_context) [0..<w_next_hid w]"

definition buf_owned :: "addr \<Rightarrow> broker \<Rightarrow> bool" where
  "buf_owned a w \<longleftrightarrow>
     (\<exists>c \<in> set (live_contexts w). case m_contexts w c of None \<Rightarrow> False | Some x \<Rightarrow> a \<in> set (ctx_send_msg_queue x)) \<or>
     (\<exists>tn \<in> set (m_topic_mgr w). m_retian_msg_buf (snd tn) = Some a) \<or>
     (\<exists>h \<in> set [0..<w_next_hid w]. case m_handlers w h of None \<Rightarrow> False | Some e \<Rightarrow> a \<in> set (m_send_msg_queue e))"

definition release_buf :: "addr \<Rightarrow> broker \<Rightarrow> broker option" where
  "release_buf a w =
     (if buf_owned a w then Some w else do { mem \<leftarrow> CMbuf_destroy a (m_mem w); Some (w\<lparr>m_mem := mem\<rparr>) })"

fun release_bufs :: "addr list \<Rightarrow> broker \<Rightarrow> broker option" where
  "release_bufs [] w = Some w"
| "release_bufs (a # as) w = do { w \<leftarrow> release_buf a w; release_bufs as w }"

definition tmp_clear :: "persist_world \<Rightarrow> persist_world option" where
  "tmp_clear p = do { w \<leftarrow> release_bufs (map snd (m_tmp_msg_db p)) (w_broker p); Some (p\<lparr>m_tmp_msg_db := [], w_broker := w\<rparr>) }"

definition tmp_put :: "u64 \<Rightarrow> addr \<Rightarrow> persist_world \<Rightarrow> persist_world option" where
  "tmp_put i a p =
     do {
       w \<leftarrow> (case map_of (m_tmp_msg_db p) i of None \<Rightarrow> Some (w_broker p) | Some old \<Rightarrow> release_buf old (w_broker p));
       Some (p\<lparr>m_tmp_msg_db := AList.update i a (m_tmp_msg_db p), w_broker := w\<rparr>)
     }"

text \<open>The function \<^verbatim>\<open>restore\<close> of either class, with the functions for the chunks as an argument. A file of size
  zero stays open.\<close>

definition restore_with :: "chunk_handler \<Rightarrow> persist_world \<Rightarrow> (int \<times> persist_world) option" where
  "restore_with h p =
     (if m_file_name p \<notin> dom (w_files p) then Some (0, p)
      else
        let (r, p) = open_rb p in
        if r < 0 then Some (-1, p)
        else if file_of p = [] then Some (0, p)
        else do {
          (res, p) \<leftarrow> restore_loop h (file_of p) 0 p;
          p \<leftarrow> tmp_clear p;
          Some (res, p\<lparr>m_db_file := None\<rparr>)
        })"

subsection \<open>What writing does\<close>

definition chunk :: "u8 \<Rightarrow> bytes \<Rightarrow> bytes" where
  "chunk ty body = 0xEE # ty # le_bytes 4 (length body) @ body"

definition at_end :: "persist_world \<Rightarrow> bool" where
  "at_end p \<longleftrightarrow> m_db_file p = Some (length (file_of p)) \<and> m_file_name p \<in> dom (w_files p)"

text \<open>Members that writing leaves alone.\<close>

definition only_written :: "persist_world \<Rightarrow> persist_world \<Rightarrow> bool" where
  "only_written p p' \<longleftrightarrow> m_file_name p' = m_file_name p \<and> m_tmp_msg_db p' = m_tmp_msg_db p \<and> w_chunk_buf p' = w_chunk_buf p \<and>
     last_db_update_time p' = last_db_update_time p \<and> w_fopen_ok p' = w_fopen_ok p \<and> w_disk p' = w_disk p \<and> cfg_max_idle_timeout p' = cfg_max_idle_timeout p \<and>
     (\<forall>n. n \<noteq> m_file_name p \<longrightarrow> w_files p' n = w_files p n)"

text \<open>
  \<open>stores P bs p m\<close>: the operation \<open>m\<close>, started in \<open>p\<close>, appends \<open>bs\<close> to the file and returns 0, with the broker
  in a state with \<open>P\<close>; or the disk has no room for \<open>bs\<close>, then what fits is written and the result is -1. It is 0 if the
  disk always has room for the bytes that leave the buffer, and -1 if it has none for those that have left it at the end.
\<close>

definition fits_between :: "persist_world \<Rightarrow> nat \<Rightarrow> nat \<Rightarrow> bool" where
  "fits_between p a b \<longleftrightarrow> (\<forall>n. a < n \<and> n \<le> b \<longrightarrow> n - w_stdio p n \<le> w_room p)"

definition stores :: "(broker \<Rightarrow> bool) \<Rightarrow> bytes \<Rightarrow> persist_world \<Rightarrow> (int \<times> persist_world) option \<Rightarrow> bool" where
  "stores P bs p m \<longleftrightarrow>
     (\<exists>r p'. m = Some (r, p') \<and> only_written p p' \<and>
        (r = 0 \<and> at_end p' \<and> file_of p' = file_of p @ bs \<and> P (w_broker p') \<or>
         r = -1 \<and> w_room p < length (file_of p @ bs) \<and> w_files p' (m_file_name p) = Some (take (w_room p) (file_of p @ bs))) \<and>
        (fits_between p (length (file_of p)) (length (file_of p @ bs)) \<longrightarrow> r = 0) \<and>
        (bs \<noteq> [] \<and> w_room p < length (file_of p @ bs) - w_stdio p (length (file_of p @ bs)) \<longrightarrow> r = -1))"

lemma file_of_upd [simp]:
  "file_of (set_file f p) = f" "file_of (p\<lparr>w_files := (w_files p)(m_file_name p \<mapsto> f), m_db_file := d\<rparr>) = f"
  "file_of (w_broker_update g p) = file_of p" "file_of (m_db_file_update g2 p) = file_of p"
  "file_of (w_chunk_buf_update g3 p) = file_of p" "file_of (m_tmp_msg_db_update g4 p) = file_of p"
  by (simp_all add: file_of_def set_file_def)

lemma set_file_simps [simp]:
  "m_file_name (set_file f p) = m_file_name p" "m_db_file (set_file f p) = m_db_file p" "w_broker (set_file f p) = w_broker p"
  "w_disk (set_file f p) = w_disk p" "w_files (set_file f p) = (w_files p)(m_file_name p \<mapsto> f)" "only_written p (set_file f p)"
  by (simp_all add: set_file_def only_written_def)

lemma fits_between_last: "fits_between p a b \<Longrightarrow> a < b \<Longrightarrow> b - w_stdio p b \<le> w_room p"
  by (simp add: fits_between_def)

lemma stores_write:
  assumes "at_end p" "P (w_broker p)"
  shows "stores P bs p (persist_write bs p)"
  using assms by (auto simp: stores_def persist_write_def at_end_def only_written_def set_file_def file_of_def Let_def dest: fits_between_last)

lemma stores_broker: "stores P bs (p\<lparr>w_broker := w\<rparr>) m = stores P bs p m"
  by (simp add: stores_def only_written_def fits_between_def)

lemma stores_return: "at_end p \<Longrightarrow> P (w_broker p) \<Longrightarrow> stores P [] p (Some (0, p))"
  by (simp add: stores_def only_written_def)

lemma stores_seq:
  assumes "stores P b1 p m" "\<And>q. at_end q \<Longrightarrow> only_written p q \<Longrightarrow> P (w_broker q) \<Longrightarrow> stores Q b2 q (k q)"
  shows "stores Q (b1 @ b2) p (error_return m k)"
proof -
  obtain r q where q: "m = Some (r, q)" "only_written p q"
      "r = 0 \<and> at_end q \<and> file_of q = file_of p @ b1 \<and> P (w_broker q) \<or>
       r = -1 \<and> w_room p < length (file_of p @ b1) \<and> w_files q (m_file_name p) = Some (take (w_room p) (file_of p @ b1))"
      "fits_between p (length (file_of p)) (length (file_of p @ b1)) \<longrightarrow> r = 0"
      "b1 \<noteq> [] \<and> w_room p < length (file_of p @ b1) - w_stdio p (length (file_of p @ b1)) \<longrightarrow> r = -1"
    using assms(1) unfolding stores_def by blast
  from q(3) show ?thesis
  proof (elim disjE)
    assume r: "r = 0 \<and> at_end q \<and> file_of q = file_of p @ b1 \<and> P (w_broker q)"
    have d: "w_disk q = w_disk p" "m_file_name q = m_file_name p" using q(2) by (auto simp: only_written_def)
    have f: "fits_between p (length (file_of p)) (length (file_of p @ b1 @ b2)) \<Longrightarrow> fits_between q (length (file_of q)) (length (file_of q @ b2))"
      using r by (auto simp: fits_between_def d)
    obtain r' q' where q': "k q = Some (r', q')" "only_written q q'"
        "r' = 0 \<and> at_end q' \<and> file_of q' = file_of q @ b2 \<and> Q (w_broker q') \<or>
         r' = -1 \<and> w_room q < length (file_of q @ b2) \<and> w_files q' (m_file_name q) = Some (take (w_room q) (file_of q @ b2))"
        "fits_between q (length (file_of q)) (length (file_of q @ b2)) \<longrightarrow> r' = 0"
        "b2 \<noteq> [] \<and> w_room q < length (file_of q @ b2) - w_stdio q (length (file_of q @ b2)) \<longrightarrow> r' = -1"
      using assms(2) [of q] r q(2) unfolding stores_def by blast
    have "error_return m k = Some (r', q')" "only_written p q'" using q(1,2) q'(1-3) r by (auto simp: error_return_def only_written_def)
    then show ?thesis
      unfolding stores_def using q' q(5) r f by (intro exI [of _ r'] exI [of _ q']) (cases "b2 = []"; auto simp: d)
  next
    assume r: "r = -1 \<and> w_room p < length (file_of p @ b1) \<and> w_files q (m_file_name p) = Some (take (w_room p) (file_of p @ b1))"
    then have "\<not> fits_between p (length (file_of p)) (length (file_of p @ b1 @ b2))" using q(4) by (auto simp: fits_between_def)
    then show ?thesis using q(1,2) r unfolding stores_def by (intro exI [of _ "-1"] exI [of _ q]) (auto simp: error_return_def)
  qed
qed

lemma stores_chunk:
  assumes "at_end p" "P (w_broker p)" "length body < 2 ^ 32"
  shows "stores P (chunk ty body) p (write_chunk ty body p)"
proof -
  have info: "stores P ([0xEE] @ [ty] @ le_bytes 4 (length body) @ []) p (write_chunk_info ty (of_nat (length body)) p)"
    using assms unfolding write_chunk_info_def
    by (intro stores_seq [of P] stores_return) (auto intro: stores_write)
  have "stores P (([0xEE] @ [ty] @ le_bytes 4 (length body) @ []) @ body @ []) p (write_chunk ty body p)"
    unfolding write_chunk_def Let_def
    by (intro stores_seq [of P] stores_return, rule info) (use assms(3) in \<open>auto intro: stores_write\<close>)
  then show ?thesis by (simp add: chunk_def)
qed

subsection \<open>What reading does\<close>

lemma length_chunk [simp]: "length (chunk ty body) = length body + 6"
  by (simp add: chunk_def)

lemma restore_loop_chunk:
  assumes "length body \<le> 1048576"
  shows "restore_loop h (chunk ty body @ rest) res p =
    (let p = p\<lparr>w_chunk_buf := body @ drop (length body) (w_chunk_buf p)\<rparr> in
     do { (res, p) \<leftarrow> h ty (length body) (w_chunk_buf p) p; if res = -1 then Some (res, p) else restore_loop h rest res p })"
  using assms by (simp add: chunk_def le_val_le_bytes Let_def cong: if_cong)

text \<open>The loop goes on behind a part of the file that it reads without an error.\<close>

lemma restore_loop_append:
  "restore_loop h xs res p = Some (r, q) \<Longrightarrow> r \<noteq> -1 \<Longrightarrow> restore_loop h (xs @ ys) res p = restore_loop h ys r q"
proof (induction h xs res p rule: restore_loop.induct)
  case (3 h tag chunk_type rest res p)
  let ?n = "le_val (take 4 rest)" let ?body = "take ?n (drop 4 rest)"
  let ?p = "p\<lparr>w_chunk_buf := ?body @ drop (length ?body) (w_chunk_buf p)\<rparr>"
  have ok: "tag = 0xEE" "\<not> length rest < 4" "\<not> ?n > 1048576" "length ?body = ?n"
    using "3.prems" by (auto simp: Let_def split: if_splits)
  have same: "take 4 (rest @ ys) = take 4 rest" "take ?n (drop 4 (rest @ ys)) = ?body" "drop ?n (drop 4 (rest @ ys)) = drop ?n (drop 4 rest) @ ys"
    using ok(2,4) by auto
  obtain r1 q1 where h: "h chunk_type ?n (w_chunk_buf ?p) ?p = Some (r1, q1)"
    using "3.prems" ok by (auto simp: Let_def split: bind_splits)
  then have r1: "r1 \<noteq> -1" "restore_loop h (drop ?n (drop 4 rest)) r1 q1 = Some (r, q)"
    using "3.prems" ok by (auto simp: Let_def split: if_splits)
  then have "restore_loop h (drop ?n (drop 4 rest) @ ys) r1 q1 = restore_loop h ys r q"
    using "3.IH" [of ?n ?body ?p "(r1, q1)" r1 q1] ok h "3.prems"(2) by simp
  then show ?case
    using ok h r1(1) unfolding append_Cons restore_loop.simps Let_def same by simp
qed auto

text \<open>A chunk that is cut off: the loop ends with an error, and its function is not called.\<close>

lemma restore_loop_cut:
  assumes "length body \<le> 1048576" "0 < n" "n < length (chunk ty body)"
  shows "\<exists>buf. restore_loop h (take n (chunk ty body)) res p = Some (-1, p\<lparr>w_chunk_buf := buf\<rparr>)"
proof -
  have "n = 1 \<or> 1 < n \<and> n < 6 \<or> 6 \<le> n" using assms(2) by linarith
  then consider "n = 1" | k where "n = Suc (Suc k)" "k < 4" | k where "n = Suc (Suc (4 + k))" "k < length body"
  proof (elim disjE)
    assume "1 < n \<and> n < 6"
    then have "n = Suc (Suc (n - 2))" "n - 2 < 4" by arith+
    then show thesis by (rule that(2))
  next
    assume "6 \<le> n"
    then show thesis using that(3) [of "n - 6"] assms(3) by simp
  qed simp
  then show ?thesis
  proof cases
    case 1
    then show ?thesis by (auto simp: chunk_def intro!: exI [of _ "w_chunk_buf p"])
  next
    case 2
    then show ?thesis by (auto simp: chunk_def intro!: exI [of _ "w_chunk_buf p"])
  next
    case 3
    then have "take n (chunk ty body) = 0xEE # ty # le_bytes 4 (length body) @ take k body" by (simp only: chunk_def take_Suc_Cons) simp
    then show ?thesis using assms(1) 3 by (auto simp: le_val_le_bytes Let_def)
  qed
qed

text \<open>
  The contract between the loop and the functions for the chunks: a file is a list of items, each with a
  type and a body, and the function for the type turns the body into a change of state. It may look at
  the buffer up to the length of the chunk only. The clients of the contract are the two classes.
\<close>

locale chunk_reader =
  fixes h :: chunk_handler
    and item_type :: "'i \<Rightarrow> u8"
    and item_body :: "'i \<Rightarrow> bytes"
    and ok :: "'i \<Rightarrow> persist_world \<Rightarrow> bool"
    and apply_item :: "'i \<Rightarrow> persist_world \<Rightarrow> persist_world"
  assumes handles: "ok it p \<Longrightarrow> h (item_type it) (length (item_body it)) (item_body it @ old) p = Some (0, apply_item it p)"
    and ok_size: "ok it p \<Longrightarrow> length (item_body it) \<le> 1048576"
    and ok_buf: "ok it p \<Longrightarrow> ok it (p\<lparr>w_chunk_buf := buf\<rparr>)"
    and apply_buf: "apply_item it (p\<lparr>w_chunk_buf := buf\<rparr>) = (apply_item it p)\<lparr>w_chunk_buf := buf\<rparr>"
begin

definition item_chunk :: "'i \<Rightarrow> bytes" where
  "item_chunk it = chunk (item_type it) (item_body it)"

primrec all_ok :: "'i list \<Rightarrow> persist_world \<Rightarrow> bool" where
  "all_ok [] p = True"
| "all_ok (it # its) p = (ok it p \<and> all_ok its (apply_item it p))"

lemma all_ok_append: "all_ok (xs @ ys) p \<longleftrightarrow> all_ok xs p \<and> all_ok ys (fold apply_item xs p)"
  by (induction xs arbitrary: p) auto

lemma all_ok_buf: "all_ok its p \<Longrightarrow> all_ok its (p\<lparr>w_chunk_buf := buf\<rparr>)"
  by (induction its arbitrary: p) (auto simp: ok_buf apply_buf)

lemma fold_apply_buf: "fold apply_item its (p\<lparr>w_chunk_buf := buf\<rparr>) = (fold apply_item its p)\<lparr>w_chunk_buf := buf\<rparr>"
  by (induction its arbitrary: p) (auto simp: apply_buf)

lemma reads_items:
  "all_ok its p \<Longrightarrow> \<exists>buf. restore_loop h (concat (map item_chunk its) @ rest) res p =
     restore_loop h rest (if its = [] then res else 0) ((fold apply_item its p)\<lparr>w_chunk_buf := buf\<rparr>)"
proof (induction its arbitrary: p res)
  case Nil
  then show ?case by (auto intro!: exI [of _ "w_chunk_buf p"])
next
  case (Cons it its)
  let ?body = "item_body it"
  let ?p = "p\<lparr>w_chunk_buf := ?body @ drop (length ?body) (w_chunk_buf p)\<rparr>"
  have ok: "ok it p" "ok it ?p" using Cons.prems ok_buf by auto
  have "restore_loop h (concat (map item_chunk (it # its)) @ rest) res p =
      restore_loop h (concat (map item_chunk its) @ rest) 0 (apply_item it ?p)"
    using ok_size [OF ok(1)] handles [OF ok(2)] by (simp add: item_chunk_def restore_loop_chunk Let_def)
  moreover have "all_ok its (apply_item it ?p)" using Cons.prems by (simp add: apply_buf all_ok_buf)
  ultimately show ?case
    using Cons.IH [of "apply_item it ?p" 0] by (auto simp: apply_buf fold_apply_buf)
qed

text \<open>A whole file, and a file that was cut off inside an item: the items before it are restored, and the result is -1.\<close>

lemma reads_file:
  "all_ok its p \<Longrightarrow> \<exists>buf. restore_loop h (concat (map item_chunk its)) 0 p = Some (0, (fold apply_item its p)\<lparr>w_chunk_buf := buf\<rparr>)"
  using reads_items [of its p "[]" 0] by auto

lemma reads_cut:
  assumes "all_ok its p" "ok it (fold apply_item its p)" "0 < n" "n < length (item_chunk it)"
  shows "\<exists>buf. restore_loop h (concat (map item_chunk its) @ take n (item_chunk it)) 0 p =
    Some (-1, (fold apply_item its p)\<lparr>w_chunk_buf := buf\<rparr>)"
  using reads_items [OF assms(1), of "take n (item_chunk it)" 0]
    restore_loop_cut [OF ok_size [OF assms(2)] assms(3,4) [unfolded item_chunk_def], of h 0 "(fold apply_item its p)\<lparr>w_chunk_buf := buf\<rparr>" for buf]
  by (fastforce simp: item_chunk_def)

end

end
