(* ===== verification/Msgpack.thy ===== *)
theory Msgpack
  imports Mqtt_Prelude
begin

unbundle bit_operations_syntax

text \<open>
  The part of the bundled MessagePack library (\<^verbatim>\<open>include/msgpack/msgpack\<close>) that the database file is
  written and read with: the packer (\<^verbatim>\<open>pack.hpp\<close>), the unpacking state machine (\<^verbatim>\<open>unpack.hpp\<close>,
  class \<^verbatim>\<open>context\<close>) and the conversions of objects to members (\<^verbatim>\<open>adaptor/\<close>).

  A packer appends to a growing buffer; each operation is the list of bytes it appends. The state
  machine keeps its members: the state, the number of bytes that follow, the stack of open
  containers with the innermost one first, and the position in the data. The size limits of
  \<^verbatim>\<open>unpack_limit\<close> are \<^verbatim>\<open>0xffffffff\<close> and are not reached by the chunks of a database file. An exception
  is \<^const>\<open>None\<close>: nothing on the way to \<^verbatim>\<open>main\<close> catches one. A 32 bit float stays apart from a 64 bit one,
  because the widening is not modelled; the broker stores neither.
\<close>

subsection \<open>Objects\<close>

datatype mp_object =
    mp_NIL
  | mp_BOOLEAN bool
  | mp_POSITIVE_INTEGER u64
  | mp_NEGATIVE_INTEGER u64
  | mp_FLOAT "u32 + u64"
  | mp_STR bytes
  | mp_BIN bytes
  | mp_EXT bytes
  | mp_ARRAY "mp_object list"
  | mp_MAP "(mp_object \<times> mp_object) list"

subsection \<open>The packer\<close>

definition pack_imp_uint8 :: "u8 \<Rightarrow> bytes" where
  "pack_imp_uint8 d = (if unat d < 2 ^ 7 then [d] else [0xCC, d])"

definition pack_imp_uint16 :: "u16 \<Rightarrow> bytes" where
  "pack_imp_uint16 d =
     (if unat d < 2 ^ 7 then [ucast d] else if unat d < 2 ^ 8 then [0xCC, ucast d] else 0xCD # be_bytes 2 (unat d))"

definition pack_imp_uint32 :: "u32 \<Rightarrow> bytes" where
  "pack_imp_uint32 d =
     (if unat d < 2 ^ 8 then if unat d < 2 ^ 7 then [ucast d] else [0xCC, ucast d]
      else if unat d < 2 ^ 16 then 0xCD # be_bytes 2 (unat d) else 0xCE # be_bytes 4 (unat d))"

definition pack_imp_uint64 :: "u64 \<Rightarrow> bytes" where
  "pack_imp_uint64 d =
     (if unat d < 2 ^ 8 then if unat d < 2 ^ 7 then [ucast d] else [0xCC, ucast d]
      else if unat d < 2 ^ 16 then 0xCD # be_bytes 2 (unat d)
      else if unat d < 2 ^ 32 then 0xCE # be_bytes 4 (unat d) else 0xCF # be_bytes 8 (unat d))"

text \<open>The bytes of a signed value are those of its two's complement.\<close>

definition pack_imp_int64 :: "u64 \<Rightarrow> bytes" where
  "pack_imp_int64 d =
     (if sint d < - (2 ^ 5) then
        if sint d < - (2 ^ 15) then
          if sint d < - (2 ^ 31) then 0xD3 # be_bytes 8 (unat d) else 0xD2 # be_bytes 4 (unat (ucast d :: u32))
        else if sint d < - (2 ^ 7) then 0xD1 # be_bytes 2 (unat (ucast d :: u16)) else [0xD0, ucast d]
      else if sint d < 2 ^ 7 then [ucast d]
      else if sint d < 2 ^ 16 then if sint d < 2 ^ 8 then [0xCC, ucast d] else 0xCD # be_bytes 2 (unat (ucast d :: u16))
      else if sint d < 2 ^ 32 then 0xCE # be_bytes 4 (unat (ucast d :: u32)) else 0xCF # be_bytes 8 (unat d))"

definition pack_float :: "u32 \<Rightarrow> bytes" where
  "pack_float i = 0xCA # be_bytes 4 (unat i)"

definition pack_double :: "u64 \<Rightarrow> bytes" where
  "pack_double i = 0xCB # be_bytes 8 (unat i)"

definition pack_nil :: bytes where "pack_nil = [0xC0]"

definition pack_true :: bytes where "pack_true = [0xC3]"

definition pack_false :: bytes where "pack_false = [0xC2]"

definition pack_array :: "u32 \<Rightarrow> bytes" where
  "pack_array n =
     (if unat n < 16 then [0x90 OR ucast n]
      else if unat n < 65536 then 0xDC # be_bytes 2 (unat n) else 0xDD # be_bytes 4 (unat n))"

definition pack_map :: "u32 \<Rightarrow> bytes" where
  "pack_map n =
     (if unat n < 16 then [0x80 OR ucast n]
      else if unat n < 65536 then 0xDE # be_bytes 2 (unat n) else 0xDF # be_bytes 4 (unat n))"

definition pack_str :: "u32 \<Rightarrow> bytes" where
  "pack_str l =
     (if unat l < 32 then [0xA0 OR ucast l]
      else if unat l < 256 then [0xD9, ucast l]
      else if unat l < 65536 then 0xDA # be_bytes 2 (unat l) else 0xDB # be_bytes 4 (unat l))"

definition pack_bin :: "u32 \<Rightarrow> bytes" where
  "pack_bin l =
     (if unat l < 256 then [0xC4, ucast l]
      else if unat l < 65536 then 0xC5 # be_bytes 2 (unat l) else 0xC6 # be_bytes 4 (unat l))"

definition pack_ext :: "u32 \<Rightarrow> u8 \<Rightarrow> bytes" where
  "pack_ext l type =
     (if l = 1 then [0xD4, type] else if l = 2 then [0xD5, type] else if l = 4 then [0xD6, type]
      else if l = 8 then [0xD7, type] else if l = 16 then [0xD8, type]
      else if unat l < 256 then [0xC7, ucast l, type]
      else if unat l < 65536 then 0xC8 # be_bytes 2 (unat l) @ [type] else 0xC9 # be_bytes 4 (unat l) @ [type])"

subsection \<open>The unpacking state machine\<close>

datatype msgpack_unpack_state =
    CS_HEADER | CS_UNUSED
  | CS_BIN_8 | CS_BIN_16 | CS_BIN_32 | CS_EXT_8 | CS_EXT_16 | CS_EXT_32 | CS_FLOAT | CS_DOUBLE
  | CS_UINT_8 | CS_UINT_16 | CS_UINT_32 | CS_UINT_64 | CS_INT_8 | CS_INT_16 | CS_INT_32 | CS_INT_64
  | CS_FIXEXT_1 | CS_FIXEXT_2 | CS_FIXEXT_4 | CS_FIXEXT_8 | CS_FIXEXT_16
  | CS_STR_8 | CS_STR_16 | CS_STR_32 | CS_ARRAY_16 | CS_ARRAY_32 | CS_MAP_16 | CS_MAP_32
  | ACS_STR_VALUE | ACS_BIN_VALUE | ACS_EXT_VALUE

definition unpack_states :: "msgpack_unpack_state list" where
  "unpack_states =
     [CS_HEADER, CS_UNUSED, CS_UNUSED, CS_UNUSED,
      CS_BIN_8, CS_BIN_16, CS_BIN_32, CS_EXT_8, CS_EXT_16, CS_EXT_32, CS_FLOAT, CS_DOUBLE,
      CS_UINT_8, CS_UINT_16, CS_UINT_32, CS_UINT_64, CS_INT_8, CS_INT_16, CS_INT_32, CS_INT_64,
      CS_FIXEXT_1, CS_FIXEXT_2, CS_FIXEXT_4, CS_FIXEXT_8, CS_FIXEXT_16,
      CS_STR_8, CS_STR_16, CS_STR_32, CS_ARRAY_16, CS_ARRAY_32, CS_MAP_16, CS_MAP_32]"

definition next_cs :: "u8 \<Rightarrow> msgpack_unpack_state" where
  "next_cs b = unpack_states ! unat (b AND 0x1F)"

definition trail_sizes :: "nat list" where
  "trail_sizes = [1, 2, 4, 1, 2, 4, 4, 8, 1, 2, 4, 8, 1, 2, 4, 8, 2, 3, 5, 9, 17, 1, 2, 4, 2, 4, 2, 4]"

datatype msgpack_container_type = CT_ARRAY_ITEM | CT_MAP_KEY | CT_MAP_VALUE

record unpack_stack =
  us_obj :: mp_object
  us_count :: nat
  us_container_type :: msgpack_container_type
  us_map_key :: mp_object

definition new_frame :: unpack_stack where
  "new_frame = \<lparr>us_obj = mp_NIL, us_count = 0, us_container_type = CT_ARRAY_ITEM, us_map_key = mp_NIL\<rparr>"

record mp_context =
  mp_current :: nat
  mp_trail :: nat
  mp_cs :: msgpack_unpack_state
  mp_stack :: "unpack_stack list"

definition context_init :: mp_context where
  "context_init = \<lparr>mp_current = 0, mp_trail = 0, mp_cs = CS_HEADER, mp_stack = [new_frame]\<rparr>"

fun unpack_array_item :: "mp_object \<Rightarrow> mp_object \<Rightarrow> mp_object" where
  "unpack_array_item (mp_ARRAY xs) v = mp_ARRAY (xs @ [v])"
| "unpack_array_item c v = c"

fun unpack_map_item :: "mp_object \<Rightarrow> mp_object \<Rightarrow> mp_object \<Rightarrow> mp_object" where
  "unpack_map_item (mp_MAP xs) k v = mp_MAP (xs @ [(k, v)])"
| "unpack_map_item c k v = c"

text \<open>A finished object is entered into the innermost open container, and so on while containers
  become complete. Result 1: the outermost object is finished.\<close>

fun push_item :: "mp_object \<Rightarrow> unpack_stack list \<Rightarrow> int \<times> mp_object \<times> unpack_stack list" where
  "push_item obj (fr # sp # st) =
     (case us_container_type sp of
        CT_ARRAY_ITEM \<Rightarrow>
          let sp = sp\<lparr>us_obj := unpack_array_item (us_obj sp) obj, us_count := us_count sp - 1\<rparr> in
          if us_count sp = 0 then push_item (us_obj sp) (sp # st) else (0, obj, fr # sp # st)
      | CT_MAP_KEY \<Rightarrow> (0, obj, fr # sp\<lparr>us_map_key := obj, us_container_type := CT_MAP_VALUE\<rparr> # st)
      | CT_MAP_VALUE \<Rightarrow>
          let sp = sp\<lparr>us_obj := unpack_map_item (us_obj sp) (us_map_key sp) obj, us_count := us_count sp - 1\<rparr> in
          if us_count sp = 0 then push_item (us_obj sp) (sp # st)
          else (0, obj, fr # sp\<lparr>us_container_type := CT_MAP_KEY\<rparr> # st))"
| "push_item obj st = (1, obj, st)"

definition push_proc :: "mp_object \<Rightarrow> mp_context \<Rightarrow> int \<times> mp_context" where
  "push_proc obj c =
     (let (ret, obj, st) = push_item obj (mp_stack c) in
      if ret > 0 then (ret, c\<lparr>mp_stack := map (us_obj_update (\<lambda>_. obj)) st, mp_current := mp_current c + 1\<rparr>)
      else if ret < 0 then (ret, c\<lparr>mp_stack := st\<rparr>)
      else (ret, c\<lparr>mp_stack := st, mp_cs := CS_HEADER, mp_current := mp_current c + 1\<rparr>))"

definition push_aggregate :: "mp_object \<Rightarrow> msgpack_container_type \<Rightarrow> nat \<Rightarrow> mp_context \<Rightarrow> int \<times> mp_context" where
  "push_aggregate o0 container_type n c =
     (if n = 0 then push_proc o0 c
      else (0, c\<lparr>mp_stack := new_frame # (hd (mp_stack c))\<lparr>us_obj := o0, us_container_type := container_type, us_count := n\<rparr> # tl (mp_stack c),
                 mp_cs := CS_HEADER, mp_current := mp_current c + 1\<rparr>))"

definition unpack_int :: "int \<Rightarrow> mp_object" where
  "unpack_int d = (if d \<ge> 0 then mp_POSITIVE_INTEGER (of_int d) else mp_NEGATIVE_INTEGER (of_int d))"

definition signed_val :: "bytes \<Rightarrow> int" where
  "signed_val bs = (let n = int (be_val bs); k = 8 * length bs in if n < 2 ^ (k - 1) then n else n - 2 ^ k)"

text \<open>
  One round of the loop in \<^verbatim>\<open>execute\<close> in two parts. The first looks at a header byte and returns
  the result of \<^verbatim>\<open>push_proc\<close> or \<^verbatim>\<open>push_aggregate\<close>, or \<^const>\<open>None\<close> when the value is in the bytes that
  follow (\<^verbatim>\<open>fixed_trail_again\<close>); the second takes these bytes.
\<close>

definition exec_header :: "bytes \<Rightarrow> mp_context \<Rightarrow> (int \<times> mp_context) option \<times> mp_context" where
  "exec_header data c =
     (let selector = data ! mp_current c; s = unat selector in
      if s \<le> 0x7F then (Some (push_proc (mp_POSITIVE_INTEGER (ucast selector)) c), c)
      else if 0xE0 \<le> s then (Some (push_proc (unpack_int (signed_val [selector])) c), c)
      else if 0xC4 \<le> s \<and> s \<le> 0xDF then (None, c\<lparr>mp_trail := trail_sizes ! (s - 0xC4), mp_cs := next_cs selector\<rparr>)
      else if 0xA0 \<le> s \<and> s \<le> 0xBF then
        let n = unat (selector AND 0x1F) in
        if n = 0 then (Some (push_proc (mp_STR []) (c\<lparr>mp_trail := n\<rparr>)), c)
        else (None, c\<lparr>mp_trail := n, mp_cs := ACS_STR_VALUE\<rparr>)
      else if 0x90 \<le> s \<and> s \<le> 0x9F then (Some (push_aggregate (mp_ARRAY []) CT_ARRAY_ITEM (unat (selector AND 0x0F)) c), c)
      else if 0x80 \<le> s \<and> s \<le> 0x8F then (Some (push_aggregate (mp_MAP []) CT_MAP_KEY (unat (selector AND 0x0F)) c), c)
      else if s = 0xC2 then (Some (push_proc (mp_BOOLEAN False) c), c)
      else if s = 0xC3 then (Some (push_proc (mp_BOOLEAN True) c), c)
      else if s = 0xC0 then (Some (push_proc mp_NIL c), c)
      else (Some (-1, c), c))"

text \<open>Strings, binaries and extensions with an explicit length: the length is the next trail, and the
  position stays on its last byte.\<close>

definition exec_length :: "nat \<Rightarrow> msgpack_unpack_state \<Rightarrow> mp_object \<Rightarrow> mp_context \<Rightarrow> (int \<times> mp_context) + mp_context" where
  "exec_length n acs o0 c =
     (let c = c\<lparr>mp_trail := n\<rparr> in if n = 0 then Inl (push_proc o0 c) else Inr (c\<lparr>mp_cs := acs\<rparr>))"

definition exec_value :: "bytes \<Rightarrow> mp_context \<Rightarrow> (int \<times> mp_context) + mp_context" where
  "exec_value data c =
     (let n = take (mp_trail c) (drop (mp_current c) data);
          c = c\<lparr>mp_current := mp_current c + (mp_trail c - 1)\<rparr>;
          len = be_val n
      in case mp_cs c of
        CS_FLOAT \<Rightarrow> Inl (push_proc (mp_FLOAT (Inl (of_nat len))) c)
      | CS_DOUBLE \<Rightarrow> Inl (push_proc (mp_FLOAT (Inr (of_nat len))) c)
      | CS_UINT_8 \<Rightarrow> Inl (push_proc (mp_POSITIVE_INTEGER (of_nat len)) c)
      | CS_UINT_16 \<Rightarrow> Inl (push_proc (mp_POSITIVE_INTEGER (of_nat len)) c)
      | CS_UINT_32 \<Rightarrow> Inl (push_proc (mp_POSITIVE_INTEGER (of_nat len)) c)
      | CS_UINT_64 \<Rightarrow> Inl (push_proc (mp_POSITIVE_INTEGER (of_nat len)) c)
      | CS_INT_8 \<Rightarrow> Inl (push_proc (unpack_int (signed_val n)) c)
      | CS_INT_16 \<Rightarrow> Inl (push_proc (unpack_int (signed_val n)) c)
      | CS_INT_32 \<Rightarrow> Inl (push_proc (unpack_int (signed_val n)) c)
      | CS_INT_64 \<Rightarrow> Inl (push_proc (unpack_int (signed_val n)) c)
      | CS_FIXEXT_1 \<Rightarrow> Inl (push_proc (mp_EXT n) c)
      | CS_FIXEXT_2 \<Rightarrow> Inl (push_proc (mp_EXT n) c)
      | CS_FIXEXT_4 \<Rightarrow> Inl (push_proc (mp_EXT n) c)
      | CS_FIXEXT_8 \<Rightarrow> Inl (push_proc (mp_EXT n) c)
      | CS_FIXEXT_16 \<Rightarrow> Inl (push_proc (mp_EXT n) c)
      | CS_STR_8 \<Rightarrow> exec_length len ACS_STR_VALUE (mp_STR []) c
      | CS_STR_16 \<Rightarrow> exec_length len ACS_STR_VALUE (mp_STR []) c
      | CS_STR_32 \<Rightarrow> exec_length len ACS_STR_VALUE (mp_STR []) c
      | CS_BIN_8 \<Rightarrow> exec_length len ACS_BIN_VALUE (mp_BIN []) c
      | CS_BIN_16 \<Rightarrow> exec_length len ACS_BIN_VALUE (mp_BIN []) c
      | CS_BIN_32 \<Rightarrow> exec_length len ACS_BIN_VALUE (mp_BIN []) c
      | CS_EXT_8 \<Rightarrow> exec_length (len + 1) ACS_EXT_VALUE (mp_EXT []) c
      | CS_EXT_16 \<Rightarrow> exec_length (len + 1) ACS_EXT_VALUE (mp_EXT []) c
      | CS_EXT_32 \<Rightarrow> exec_length (len + 1) ACS_EXT_VALUE (mp_EXT []) c
      | ACS_STR_VALUE \<Rightarrow> Inl (push_proc (mp_STR n) c)
      | ACS_BIN_VALUE \<Rightarrow> Inl (push_proc (mp_BIN n) c)
      | ACS_EXT_VALUE \<Rightarrow> Inl (push_proc (mp_EXT n) c)
      | CS_ARRAY_16 \<Rightarrow> Inl (push_aggregate (mp_ARRAY []) CT_ARRAY_ITEM len c)
      | CS_ARRAY_32 \<Rightarrow> Inl (push_aggregate (mp_ARRAY []) CT_ARRAY_ITEM len c)
      | CS_MAP_16 \<Rightarrow> Inl (push_aggregate (mp_MAP []) CT_MAP_KEY len c)
      | CS_MAP_32 \<Rightarrow> Inl (push_aggregate (mp_MAP []) CT_MAP_KEY len c)
      | _ \<Rightarrow> Inl (-1, c))"

text \<open>
  The loop. A call starts at a header, so the second part is reached with \<^verbatim>\<open>fixed_trail_again\<close> set only:
  the position is on the last byte before the value. \<^const>\<open>Inl\<close> leaves the loop.
\<close>

definition exec_finish :: "int \<times> mp_context \<Rightarrow> (int \<times> mp_context) + mp_context" where
  "exec_finish rc = (if fst rc \<noteq> 0 then Inl rc else Inr (snd rc))"

definition exec_round :: "bytes \<Rightarrow> mp_context \<Rightarrow> (int \<times> mp_context) + mp_context" where
  "exec_round data c =
     (case (if mp_cs c = CS_HEADER then exec_header data c else (None, c)) of
        (Some rc, _) \<Rightarrow> exec_finish rc
      | (None, c) \<Rightarrow>
          let c = c\<lparr>mp_current := mp_current c + 1\<rparr> in
          if length data - mp_current c < mp_trail c then Inl (0, c)
          else (case exec_value data c of Inl rc \<Rightarrow> exec_finish rc | Inr c \<Rightarrow> Inr c))"

partial_function (option) execute_loop :: "bytes \<Rightarrow> mp_context \<Rightarrow> (int \<times> mp_context) option" where
  "execute_loop data c =
     (case exec_round data c of
        Inl rc \<Rightarrow> Some rc
      | Inr c \<Rightarrow> if mp_current c \<noteq> length data then execute_loop data c else Some (0, c))"

definition execute :: "bytes \<Rightarrow> (int \<times> mp_context) option" where
  "execute data = (if data = [] then Some (0, context_init) else execute_loop data context_init)"

text \<open>Bytes behind the object are accepted (\<^verbatim>\<open>UNPACK_EXTRA_BYTES\<close>); anything else throws.\<close>

definition unpack :: "bytes \<Rightarrow> mp_object option" where
  "unpack data =
     (if data = [] then None
      else do { (e, c) \<leftarrow> execute data; if e > 0 then Some (us_obj (hd (mp_stack c))) else None })"

subsection \<open>Packing and converting members\<close>

text \<open>
  The adaptors for the types of the members. A value that does not fit its type is a \<^verbatim>\<open>type_error\<close>, a
  container with more than \<^verbatim>\<open>0xffffffff\<close> elements a \<^verbatim>\<open>container_size_overflow\<close>.
\<close>

definition checked_get_container_size :: "nat \<Rightarrow> u32 option" where
  "checked_get_container_size n = (if n > 0xFFFFFFFF then None else Some (of_nat n))"

definition pack_string :: "cstring \<Rightarrow> bytes option" where
  "pack_string v = do { n \<leftarrow> checked_get_container_size (length v); Some (pack_str n @ v) }"

definition pack_bool :: "bool \<Rightarrow> bytes" where
  "pack_bool v = (if v then pack_true else pack_false)"

definition pack_raw :: "bytes \<Rightarrow> u32 \<Rightarrow> bytes option" where
  "pack_raw ptr n = do { body \<leftarrow> mem_read ptr 0 (unat n); Some (pack_bin n @ body) }"

definition pack_vector :: "('a \<Rightarrow> bytes option) \<Rightarrow> 'a list \<Rightarrow> bytes option" where
  "pack_vector f v = do { n \<leftarrow> checked_get_container_size (length v); bs \<leftarrow> those (map f v); Some (pack_array n @ concat bs) }"

text \<open>A number is two's complement in 64 bits.\<close>

fun convert_unsigned :: "mp_object \<Rightarrow> ('a :: len) word option" where
  "convert_unsigned (mp_POSITIVE_INTEGER d) = (if unat d > unat (- 1 :: 'a word) then None else Some (ucast d))"
| "convert_unsigned _ = None"

fun convert_long :: "mp_object \<Rightarrow> int option" where
  "convert_long (mp_POSITIVE_INTEGER d) = (if unat d > 2 ^ 63 - 1 then None else Some (uint d))"
| "convert_long (mp_NEGATIVE_INTEGER d) = Some (sint d)"
| "convert_long _ = None"

fun convert_bool :: "mp_object \<Rightarrow> bool option" where
  "convert_bool (mp_BOOLEAN b) = Some b"
| "convert_bool _ = None"

fun convert_string :: "mp_object \<Rightarrow> cstring option" where
  "convert_string (mp_BIN bs) = Some bs"
| "convert_string (mp_STR bs) = Some bs"
| "convert_string _ = None"

fun convert_raw :: "mp_object \<Rightarrow> bytes option" where
  "convert_raw (mp_BIN bs) = Some bs"
| "convert_raw _ = None"

fun convert_vector :: "(mp_object \<Rightarrow> 'a option) \<Rightarrow> mp_object \<Rightarrow> 'a list option" where
  "convert_vector f (mp_ARRAY xs) = those (map f xs)"
| "convert_vector f _ = None"

text \<open>\<^verbatim>\<open>MSGPACK_DEFINE\<close>: the members are an array, in the order they are listed. An array that is too short
  leaves the last members as they are, and elements too many are ignored.\<close>

definition define_array_pack :: "bytes option list \<Rightarrow> bytes option" where
  "define_array_pack ms = do { bs \<leftarrow> those ms; Some (pack_array (of_nat (length ms)) @ concat bs) }"

fun unpack_members :: "(mp_object \<Rightarrow> 's \<Rightarrow> 's option) list \<Rightarrow> mp_object list \<Rightarrow> 's \<Rightarrow> 's option" where
  "unpack_members (f # fs) (x # xs) s = do { s \<leftarrow> f x s; unpack_members fs xs s }"
| "unpack_members fs xs s = Some s"

fun define_array_unpack :: "(mp_object \<Rightarrow> 's \<Rightarrow> 's option) list \<Rightarrow> mp_object \<Rightarrow> 's \<Rightarrow> 's option" where
  "define_array_unpack fs (mp_ARRAY xs) s = unpack_members fs xs s"
| "define_array_unpack fs _ s = None"

subsection \<open>What is packed is unpacked\<close>

text \<open>The bytes of an object, and the objects the packer is used on: sizes are 32 bit, a negative
  number is negative, and an extension has its type byte.\<close>

function mp_bytes :: "mp_object \<Rightarrow> bytes" where
  "mp_bytes mp_NIL = pack_nil"
| "mp_bytes (mp_BOOLEAN b) = (if b then pack_true else pack_false)"
| "mp_bytes (mp_POSITIVE_INTEGER d) = pack_imp_uint64 d"
| "mp_bytes (mp_NEGATIVE_INTEGER d) = pack_imp_int64 d"
| "mp_bytes (mp_FLOAT f) = (case f of Inl i \<Rightarrow> pack_float i | Inr i \<Rightarrow> pack_double i)"
| "mp_bytes (mp_STR bs) = pack_str (of_nat (length bs)) @ bs"
| "mp_bytes (mp_BIN bs) = pack_bin (of_nat (length bs)) @ bs"
| "mp_bytes (mp_EXT bs) = pack_ext (of_nat (length bs - 1)) (hd bs) @ tl bs"
| "mp_bytes (mp_ARRAY xs) = pack_array (of_nat (length xs)) @ concat (map mp_bytes xs)"
| "mp_bytes (mp_MAP kvs) = pack_map (of_nat (length kvs)) @ concat (map (\<lambda>kv. mp_bytes (fst kv) @ mp_bytes (snd kv)) kvs)"
  by pat_completeness auto
termination
proof (relation "measure size")
  fix kvs :: "(mp_object \<times> mp_object) list" and kv
  assume kv: "kv \<in> set kvs"
  obtain k v where [simp]: "kv = (k, v)" by fastforce
  have "size k + size v < size_list (size_prod size size) kvs"
    using kv by (induction kvs) auto
  then show "(fst kv, mp_MAP kvs) \<in> measure size" "(snd kv, mp_MAP kvs) \<in> measure size" by auto
next
  fix xs :: "mp_object list" and x assume "x \<in> set xs"
  then show "(x, mp_ARRAY xs) \<in> measure size" by (simp add: size_list_estimation' less_Suc_eq_le)
qed simp

inductive mp_ok :: "mp_object \<Rightarrow> bool" where
  "mp_ok mp_NIL" | "mp_ok (mp_BOOLEAN b)" | "mp_ok (mp_POSITIVE_INTEGER d)" | "mp_ok (mp_FLOAT f)"
| "sint d < 0 \<Longrightarrow> mp_ok (mp_NEGATIVE_INTEGER d)"
| "length bs < 2 ^ 32 \<Longrightarrow> mp_ok (mp_STR bs)"
| "length bs < 2 ^ 32 \<Longrightarrow> mp_ok (mp_BIN bs)"
| "bs \<noteq> [] \<Longrightarrow> length bs \<le> 2 ^ 32 \<Longrightarrow> mp_ok (mp_EXT bs)"
| "length xs < 2 ^ 32 \<Longrightarrow> (\<And>x. x \<in> set xs \<Longrightarrow> mp_ok x) \<Longrightarrow> mp_ok (mp_ARRAY xs)"
| "length kvs < 2 ^ 32 \<Longrightarrow> (\<And>k v. (k, v) \<in> set kvs \<Longrightarrow> mp_ok k \<and> mp_ok v) \<Longrightarrow> mp_ok (mp_MAP kvs)"

definition exec_cont :: "bytes \<Rightarrow> int \<times> mp_context \<Rightarrow> (int \<times> mp_context) option" where
  "exec_cont data rc =
     (case exec_finish rc of
        Inl rc \<Rightarrow> Some rc
      | Inr c \<Rightarrow> if mp_current c \<noteq> length data then execute_loop data c else Some (0, c))"

text \<open>At a header with the bytes \<open>bs\<close> of the object \<open>ob\<close> ahead, the machine comes to the point where it
  enters \<open>ob\<close> into the innermost container, with its position on the last of these bytes.\<close>

definition at_header :: "bytes \<Rightarrow> mp_context \<Rightarrow> bytes \<Rightarrow> bool" where
  "at_header data c bs \<longleftrightarrow> mp_cs c = CS_HEADER \<and> mp_stack c \<noteq> [] \<and> (\<exists>rest. drop (mp_current c) data = bs @ rest)"

definition reads :: "bytes \<Rightarrow> mp_context \<Rightarrow> bytes \<Rightarrow> mp_object \<Rightarrow> bool" where
  "reads data c bs ob \<longleftrightarrow> (\<exists>c'. mp_current c' + 1 = mp_current c + length bs \<and> mp_stack c' \<noteq> [] \<and>
     tl (mp_stack c') = tl (mp_stack c) \<and> execute_loop data c = exec_cont data (push_proc ob c'))"

lemma header_byte: "drop i data = b # rest \<Longrightarrow> data ! i = b \<and> drop (Suc i) data = rest"
  by (metis hd_drop_conv_nth drop_Suc drop_eq_Nil list.sel(1,3) list.simps(3) not_le_imp_less tl_drop)

lemma reads_now:
  assumes "at_header data c [b]" "\<And>c. data ! mp_current c = b \<Longrightarrow> exec_header data c = (Some (push_proc ob (c\<lparr>mp_trail := f (mp_trail c)\<rparr>)), c)"
  shows "reads data c [b] ob"
proof -
  have "exec_header data c = (Some (push_proc ob (c\<lparr>mp_trail := f (mp_trail c)\<rparr>)), c)"
    using assms(1) by (intro assms(2)) (auto simp: at_header_def dest: header_byte)
  then have "execute_loop data c = exec_cont data (push_proc ob (c\<lparr>mp_trail := f (mp_trail c)\<rparr>))"
    using assms(1) by (subst execute_loop.simps) (simp add: at_header_def exec_round_def exec_cont_def)
  then show ?thesis
    using assms(1) unfolding reads_def by (intro exI [of _ "c\<lparr>mp_trail := f (mp_trail c)\<rparr>"]) (simp add: at_header_def)
qed

text \<open>A header byte that announces \<open>n\<close>.\<close>

definition in_value :: "mp_context \<Rightarrow> u8 \<Rightarrow> bytes \<Rightarrow> mp_context" where
  "in_value c b n = c\<lparr>mp_trail := length n, mp_cs := next_cs b, mp_current := mp_current c + 1\<rparr>"

lemma round_value:
  assumes "at_header data c (b # n)" "0xC4 \<le> unat b" "unat b \<le> 0xDF" "trail_sizes ! (unat b - 0xC4) = length n"
  shows "exec_round data c = (case exec_value data (in_value c b n) of Inl rc \<Rightarrow> exec_finish rc | Inr c \<Rightarrow> Inr c)"
proof -
  obtain rest where d: "drop (mp_current c) data = b # n @ rest" "mp_cs c = CS_HEADER"
    using assms(1) by (auto simp: at_header_def)
  then have l: "length data - Suc (mp_current c) = length n + length rest"
    by (metis drop_Suc length_append length_drop list.sel(3) tl_drop)
  have "exec_header data c = (None, c\<lparr>mp_trail := length n, mp_cs := next_cs b\<rparr>)"
    using header_byte [OF d(1)] assms(2-4) by (simp add: exec_header_def Let_def)
  then show ?thesis using d l by (simp add: exec_round_def in_value_def)
qed

lemma reads_value:
  assumes "at_header data c (b # n)" "0xC4 \<le> unat b" "unat b \<le> 0xDF" "trail_sizes ! (unat b - 0xC4) = length n" "n \<noteq> []"
    and "exec_value data (in_value c b n) = Inl (push_proc ob ((in_value c b n)\<lparr>mp_current := length n + mp_current c\<rparr>))"
  shows "reads data c (b # n) ob"
  unfolding reads_def
proof (intro exI conjI)
  show "execute_loop data c = exec_cont data (push_proc ob ((in_value c b n)\<lparr>mp_current := length n + mp_current c\<rparr>))"
    by (subst execute_loop.simps) (simp add: round_value [OF assms(1-4)] assms(6) exec_cont_def)
qed (use assms(1,5) in \<open>auto simp: in_value_def at_header_def\<close>)

lemma value_bytes: "at_header data c (b # n) \<Longrightarrow> take (length n) (drop (Suc (mp_current c)) data) = n"
  using header_byte by (fastforce simp: at_header_def)

lemma next_cs_simps [simp]:
  "next_cs 0xC4 = CS_BIN_8" "next_cs 0xC5 = CS_BIN_16" "next_cs 0xC6 = CS_BIN_32"
  "next_cs 0xC7 = CS_EXT_8" "next_cs 0xC8 = CS_EXT_16" "next_cs 0xC9 = CS_EXT_32" "next_cs 0xCA = CS_FLOAT" "next_cs 0xCB = CS_DOUBLE"
  "next_cs 0xCC = CS_UINT_8" "next_cs 0xCD = CS_UINT_16" "next_cs 0xCE = CS_UINT_32" "next_cs 0xCF = CS_UINT_64"
  "next_cs 0xD0 = CS_INT_8" "next_cs 0xD1 = CS_INT_16" "next_cs 0xD2 = CS_INT_32" "next_cs 0xD3 = CS_INT_64"
  "next_cs 0xD4 = CS_FIXEXT_1" "next_cs 0xD5 = CS_FIXEXT_2" "next_cs 0xD6 = CS_FIXEXT_4" "next_cs 0xD7 = CS_FIXEXT_8" "next_cs 0xD8 = CS_FIXEXT_16"
  "next_cs 0xD9 = CS_STR_8" "next_cs 0xDA = CS_STR_16" "next_cs 0xDB = CS_STR_32" "next_cs 0xDC = CS_ARRAY_16" "next_cs 0xDD = CS_ARRAY_32"
  "next_cs 0xDE = CS_MAP_16" "next_cs 0xDF = CS_MAP_32"
  by (simp_all add: next_cs_def unpack_states_def)

lemma three_add: "3 + k = Suc (Suc (Suc k))"
  by simp

lemmas value_defs = exec_value_def in_value_def trail_sizes_def Let_def

lemma reads_number:
  assumes "at_header data c (b # n)"
  shows "b = 0xCC \<Longrightarrow> length n = 1 \<Longrightarrow> reads data c (b # n) (mp_POSITIVE_INTEGER (of_nat (be_val n)))"
    and "b = 0xCD \<Longrightarrow> length n = 2 \<Longrightarrow> reads data c (b # n) (mp_POSITIVE_INTEGER (of_nat (be_val n)))"
    and "b = 0xCE \<Longrightarrow> length n = 4 \<Longrightarrow> reads data c (b # n) (mp_POSITIVE_INTEGER (of_nat (be_val n)))"
    and "b = 0xCF \<Longrightarrow> length n = 8 \<Longrightarrow> reads data c (b # n) (mp_POSITIVE_INTEGER (of_nat (be_val n)))"
    and "b = 0xD0 \<Longrightarrow> length n = 1 \<Longrightarrow> reads data c (b # n) (unpack_int (signed_val n))"
    and "b = 0xD1 \<Longrightarrow> length n = 2 \<Longrightarrow> reads data c (b # n) (unpack_int (signed_val n))"
    and "b = 0xD2 \<Longrightarrow> length n = 4 \<Longrightarrow> reads data c (b # n) (unpack_int (signed_val n))"
    and "b = 0xD3 \<Longrightarrow> length n = 8 \<Longrightarrow> reads data c (b # n) (unpack_int (signed_val n))"
    and "b = 0xCA \<Longrightarrow> length n = 4 \<Longrightarrow> reads data c (b # n) (mp_FLOAT (Inl (of_nat (be_val n))))"
    and "b = 0xCB \<Longrightarrow> length n = 8 \<Longrightarrow> reads data c (b # n) (mp_FLOAT (Inr (of_nat (be_val n))))"
    and "b = 0xD4 \<Longrightarrow> length n = 2 \<Longrightarrow> reads data c (b # n) (mp_EXT n)"
    and "b = 0xD5 \<Longrightarrow> length n = 3 \<Longrightarrow> reads data c (b # n) (mp_EXT n)"
    and "b = 0xD6 \<Longrightarrow> length n = 5 \<Longrightarrow> reads data c (b # n) (mp_EXT n)"
    and "b = 0xD7 \<Longrightarrow> length n = 9 \<Longrightarrow> reads data c (b # n) (mp_EXT n)"
    and "b = 0xD8 \<Longrightarrow> length n = 17 \<Longrightarrow> reads data c (b # n) (mp_EXT n)"
  using value_bytes [OF assms] by (intro reads_value [OF assms]; auto simp: value_defs three_add)+

lemma be_val_1 [simp]: "be_val [b] = unat b"
  by (simp add: be_val_def)

lemma reads_uint64:
  assumes "at_header data c (pack_imp_uint64 d)"
  shows "reads data c (pack_imp_uint64 d) (mp_POSITIVE_INTEGER d)"
proof -
  have u: "unat (ucast d :: u8) = unat d" if "unat d < 256"
    using that by (simp add: unsigned_ucast_eq take_bit_nat_eq_self_iff)
  have dd: "of_nat (unat d) = d" by (simp add: of_nat_unat)
  consider "unat d < 2 ^ 7" | "2 ^ 7 \<le> unat d" "unat d < 2 ^ 8" | "2 ^ 8 \<le> unat d" "unat d < 2 ^ 16"
    | "2 ^ 16 \<le> unat d" "unat d < 2 ^ 32" | "2 ^ 32 \<le> unat d" by linarith
  then show ?thesis
  proof cases
    case 1
    then have p: "pack_imp_uint64 d = [ucast d]" by (simp add: pack_imp_uint64_def)
    have "ucast (ucast d :: u8) = d"
      using of_nat_unat [of "ucast d :: u8", where ?'a = "64 word", symmetric] u 1 dd by simp
    then show ?thesis
      using 1 u assms unfolding p by (intro reads_now [where f = id]) (simp_all add: exec_header_def)
  next
    case 2
    then have p: "pack_imp_uint64 d = [0xCC, ucast d]" by (simp add: pack_imp_uint64_def)
    show ?thesis using reads_number(1) [of data c "0xCC" "[ucast d]"] assms 2 u dd unfolding p by simp
  next
    case 3
    then have p: "pack_imp_uint64 d = 0xCD # be_bytes 2 (unat d)" by (simp add: pack_imp_uint64_def)
    show ?thesis using reads_number(2) [of data c "0xCD" "be_bytes 2 (unat d)"] assms 3 dd unfolding p by (simp add: be_val_be_bytes)
  next
    case 4
    then have p: "pack_imp_uint64 d = 0xCE # be_bytes 4 (unat d)" by (simp add: pack_imp_uint64_def)
    show ?thesis using reads_number(3) [of data c "0xCE" "be_bytes 4 (unat d)"] assms 4 dd unfolding p by (simp add: be_val_be_bytes)
  next
    case 5
    then have p: "pack_imp_uint64 d = 0xCF # be_bytes 8 (unat d)" by (simp add: pack_imp_uint64_def)
    have "unat d < 256 ^ 8" using unsigned_less [of d] by simp
    then show ?thesis using reads_number(4) [of data c "0xCF" "be_bytes 8 (unat d)"] assms dd unfolding p by (simp add: be_val_be_bytes)
  qed
qed

lemma neg_ucast:
  assumes "sint (d :: u64) < 0" "- (2 ^ LENGTH('b)) \<le> sint d" "LENGTH('b) \<le> 64"
  shows "int (unat (ucast d :: 'b :: len word)) = sint d + 2 ^ LENGTH('b)"
proof -
  have "int (unat (ucast d :: 'b word)) = int (unat d) mod 2 ^ LENGTH('b)"
    by (simp add: unsigned_ucast_eq take_bit_eq_mod zmod_int)
  also have "int (unat d) = sint d mod 2 ^ 64"
    using uint_sint [of d] by (simp add: take_bit_eq_mod uint_nat)
  also have "sint d mod 2 ^ 64 mod 2 ^ LENGTH('b) = sint d mod 2 ^ LENGTH('b)"
    using assms(3) by (intro mod_mod_cancel le_imp_power_dvd)
  also have "\<dots> = sint d + 2 ^ LENGTH('b)"
    using assms(1,2) mod_pos_pos_trivial [of "sint d + 2 ^ LENGTH('b)" "2 ^ LENGTH('b)"] by simp
  finally show ?thesis .
qed

lemmas neg_ucasts = neg_ucast [where ?'b = 8, simplified] neg_ucast [where ?'b = 16, simplified] neg_ucast [where ?'b = 32, simplified]
  neg_ucast [where ?'b = 64, simplified]

lemma signed_val_be:
  assumes "int n = s + 2 ^ (8 * k)" "s < 0" "- (2 ^ (8 * k - 1)) \<le> s" "0 < k"
  shows "signed_val (be_bytes k n) = s"
proof -
  have p: "(2 :: int) ^ (8 * k) = 2 * 2 ^ (8 * k - 1)"
    using assms(4) by (cases k) (simp_all add: numeral_eq_Suc)
  have "n < 256 ^ k" using assms(1,2) by (simp add: power_mult zless_nat_eq_int_zless [symmetric] nat_power_eq flip: of_nat_less_iff [where ?'a = int])
  then show ?thesis using assms p by (simp add: signed_val_def be_val_be_bytes)
qed

lemma reads_int64:
  assumes "at_header data c (pack_imp_int64 d)" "sint d < 0"
  shows "reads data c (pack_imp_int64 d) (mp_NEGATIVE_INTEGER d)"
proof -
  have neg: "unpack_int (sint d) = mp_NEGATIVE_INTEGER d" using assms(2) by (simp add: unpack_int_def)
  have one: "be_bytes 1 (unat b) = [b]" for b :: u8 using unat_lt_2p8 [of b] by (simp add: be_bytes_def of_nat_unat)
  consider "- (2 ^ 5) \<le> sint d" | "sint d < - (2 ^ 5)" "- (2 ^ 7) \<le> sint d" | "sint d < - (2 ^ 7)" "- (2 ^ 15) \<le> sint d"
    | "sint d < - (2 ^ 15)" "- (2 ^ 31) \<le> sint d" | "sint d < - (2 ^ 31)" by linarith
  then show ?thesis
  proof cases
    case 1
    then have p: "pack_imp_int64 d = [ucast d]" using assms(2) by (simp add: pack_imp_int64_def)
    have u: "int (unat (ucast d :: u8)) = sint d + 256" using neg_ucasts(1) assms(2) 1 by simp
    then have "signed_val [ucast d] = sint d" using signed_val_be [of "unat (ucast d :: u8)" "sint d" 1] assms(2) 1 one by simp
    then show ?thesis
      using 1 u assms neg unfolding p by (intro reads_now [where f = id]) (simp_all add: exec_header_def)
  next
    case 2
    then have p: "pack_imp_int64 d = [0xD0, ucast d]" by (simp add: pack_imp_int64_def)
    have "signed_val [ucast d] = sint d"
      using signed_val_be [of "unat (ucast d :: u8)" "sint d" 1] neg_ucasts(1) assms(2) 2 one by simp
    then show ?thesis using reads_number(5) [of data c "0xD0" "[ucast d]"] assms neg unfolding p by simp
  next
    case 3
    then have p: "pack_imp_int64 d = 0xD1 # be_bytes 2 (unat (ucast d :: u16))" by (simp add: pack_imp_int64_def)
    have "signed_val (be_bytes 2 (unat (ucast d :: u16))) = sint d"
      using neg_ucasts(2) assms(2) 3 by (intro signed_val_be) simp_all
    then show ?thesis using reads_number(6) [of data c "0xD1" "be_bytes 2 (unat (ucast d :: u16))"] assms neg unfolding p by simp
  next
    case 4
    then have p: "pack_imp_int64 d = 0xD2 # be_bytes 4 (unat (ucast d :: u32))" by (simp add: pack_imp_int64_def)
    have "signed_val (be_bytes 4 (unat (ucast d :: u32))) = sint d"
      using neg_ucasts(3) assms(2) 4 by (intro signed_val_be) simp_all
    then show ?thesis using reads_number(7) [of data c "0xD2" "be_bytes 4 (unat (ucast d :: u32))"] assms neg unfolding p by simp
  next
    case 5
    then have p: "pack_imp_int64 d = 0xD3 # be_bytes 8 (unat d)" by (simp add: pack_imp_int64_def)
    have "signed_val (be_bytes 8 (unat d)) = sint d"
      using neg_ucasts(4) [of d] assms(2) sint_ge [of d] by (intro signed_val_be) simp_all
    then show ?thesis using reads_number(8) [of data c "0xD3" "be_bytes 8 (unat d)"] assms neg unfolding p by simp
  qed
qed

text \<open>The bytes of a string, binary or extension.\<close>

fun acs_obj :: "msgpack_unpack_state \<Rightarrow> bytes \<Rightarrow> mp_object" where
  "acs_obj ACS_STR_VALUE b = mp_STR b"
| "acs_obj ACS_BIN_VALUE b = mp_BIN b"
| "acs_obj _ b = mp_EXT b"

definition is_acs :: "msgpack_unpack_state \<Rightarrow> bool" where
  "is_acs s \<longleftrightarrow> s = ACS_STR_VALUE \<or> s = ACS_BIN_VALUE \<or> s = ACS_EXT_VALUE"

lemma exec_value_acs:
  assumes "is_acs (mp_cs c)" "drop (mp_current c) data = body @ rest" "mp_trail c = length body"
  shows "exec_value data c = Inl (push_proc (acs_obj (mp_cs c) body) (c\<lparr>mp_current := mp_current c + (length body - 1)\<rparr>))"
  using assms by (auto simp: is_acs_def exec_value_def Let_def)

lemma drop_length: "drop i data = bs @ rest \<Longrightarrow> length data - i = length bs + length rest"
  by (metis length_append length_drop)

lemma reads_fixstr:
  assumes "at_header data c (b # body)" "unat b = 0xA0 + length body" "length body < 32" "unat (b AND 0x1F) = length body"
  shows "reads data c (b # body) (mp_STR body)"
proof (cases "body = []")
  case True
  then show ?thesis
    using assms by (simp, intro reads_now [where f = "\<lambda>_. 0"]) (auto simp: exec_header_def)
next
  case False
  obtain rest where d: "drop (mp_current c) data = b # body @ rest" "mp_cs c = CS_HEADER" "mp_stack c \<noteq> []"
    using assms(1) by (auto simp: at_header_def)
  let ?c = "c\<lparr>mp_trail := length body, mp_cs := ACS_STR_VALUE, mp_current := Suc (mp_current c)\<rparr>"
  let ?c' = "?c\<lparr>mp_current := mp_current c + length body\<rparr>"
  have "exec_header data c = (None, c\<lparr>mp_trail := length body, mp_cs := ACS_STR_VALUE\<rparr>)"
    using header_byte [OF d(1)] assms False by (simp add: exec_header_def Let_def)
  moreover have "exec_value data ?c = Inl (push_proc (mp_STR body) ?c')"
    using exec_value_acs [of ?c data body rest] header_byte [OF d(1)] False by (cases body) (simp_all add: is_acs_def)
  ultimately have "execute_loop data c = exec_cont data (push_proc (mp_STR body) ?c')"
    using d(2) drop_length [of "Suc (mp_current c)" data body rest] header_byte [OF d(1)]
    by (subst execute_loop.simps) (simp add: exec_round_def exec_cont_def)
  then show ?thesis using d(3) unfolding reads_def by (intro exI [of _ ?c']) simp
qed

lemma reads_body:
  assumes "at_header data c (b # n @ body)" "0xC4 \<le> unat b" "unat b \<le> 0xDF" "trail_sizes ! (unat b - 0xC4) = length n" "n \<noteq> []"
    and "is_acs acs" "exec_value data (in_value c b n) = exec_length (length body) acs (acs_obj acs []) ((in_value c b n)\<lparr>mp_current := length n + mp_current c\<rparr>)"
  shows "reads data c (b # n @ body) (acs_obj acs body)"
proof (cases "body = []")
  case True
  then have "execute_loop data c = exec_cont data (push_proc (acs_obj acs []) ((in_value c b n)\<lparr>mp_current := length n + mp_current c, mp_trail := 0\<rparr>))"
    using round_value [OF _ assms(2-4), of data c] assms(1,7) by (subst execute_loop.simps) (simp add: exec_length_def exec_cont_def)
  then show ?thesis
    using True assms(1,5) unfolding reads_def
    by (intro exI [of _ "(in_value c b n)\<lparr>mp_current := length n + mp_current c, mp_trail := 0\<rparr>"]) (auto simp: in_value_def at_header_def)
next
  case False
  obtain rest where d: "drop (mp_current c) data = b # n @ body @ rest" "mp_stack c \<noteq> []"
    using assms(1) by (auto simp: at_header_def)
  have at: "at_header data c (b # n)" using assms(1) by (auto simp: at_header_def)
  let ?c = "(in_value c b n)\<lparr>mp_current := length n + mp_current c, mp_trail := length body, mp_cs := acs\<rparr>"
  let ?c' = "?c\<lparr>mp_current := length n + mp_current c + length body\<rparr>"
  have 1: "exec_round data c = Inr ?c"
    using round_value [OF at assms(2-4)] assms(7) False by (simp add: exec_length_def Let_def)
  have dr: "drop (Suc (length n + mp_current c)) data = body @ rest"
    using header_byte [OF d(1)] by (metis add.commute add_Suc_right append_eq_conv_conj drop_drop)
  have 2: "exec_round data ?c = exec_finish (push_proc (acs_obj acs body) ?c')"
    using exec_value_acs [of "?c\<lparr>mp_current := Suc (length n + mp_current c)\<rparr>" data body rest] dr drop_length [OF dr] assms(6) False
    by (cases body) (auto simp: exec_round_def is_acs_def)
  have "length n + mp_current c \<noteq> length data" using dr False by (metis append_is_Nil_conv drop_all le_SucI le_refl)
  then have "execute_loop data c = exec_cont data (push_proc (acs_obj acs body) ?c')"
    by (subst execute_loop.simps, simp add: 1, subst execute_loop.simps) (simp add: 2 exec_cont_def)
  then show ?thesis
    using d(2) unfolding reads_def by (intro exI [of _ ?c']) (simp add: in_value_def)
qed

lemma low_bits:
  "n < 32 \<Longrightarrow> unat (0xA0 OR of_nat n :: u8) = 0xA0 + n \<and> unat ((0xA0 OR of_nat n) AND 0x1F :: u8) = n"
  "n < 16 \<Longrightarrow> unat (0x90 OR of_nat n :: u8) = 0x90 + n \<and> unat ((0x90 OR of_nat n) AND 0x0F :: u8) = n"
  "n < 16 \<Longrightarrow> unat (0x80 OR of_nat n :: u8) = 0x80 + n \<and> unat ((0x80 OR of_nat n) AND 0x0F :: u8) = n"
proof -
  have "list_all (\<lambda>n. unat (0xA0 OR of_nat n :: u8) = 0xA0 + n \<and> unat ((0xA0 OR of_nat n) AND 0x1F :: u8) = n) [0..<32]"
    by code_simp
  then show "n < 32 \<Longrightarrow> unat (0xA0 OR of_nat n :: u8) = 0xA0 + n \<and> unat ((0xA0 OR of_nat n) AND 0x1F :: u8) = n"
    by (simp add: list_all_iff)
  have "list_all (\<lambda>n. unat (0x90 OR of_nat n :: u8) = 0x90 + n \<and> unat ((0x90 OR of_nat n) AND 0x0F :: u8) = n) [0..<16]"
    by code_simp
  then show "n < 16 \<Longrightarrow> unat (0x90 OR of_nat n :: u8) = 0x90 + n \<and> unat ((0x90 OR of_nat n) AND 0x0F :: u8) = n"
    by (simp add: list_all_iff)
  have "list_all (\<lambda>n. unat (0x80 OR of_nat n :: u8) = 0x80 + n \<and> unat ((0x80 OR of_nat n) AND 0x0F :: u8) = n) [0..<16]"
    by code_simp
  then show "n < 16 \<Longrightarrow> unat (0x80 OR of_nat n :: u8) = 0x80 + n \<and> unat ((0x80 OR of_nat n) AND 0x0F :: u8) = n"
    by (simp add: list_all_iff)
qed

lemma ucast_size [simp]: "n < 2 ^ 32 \<Longrightarrow> ucast (of_nat n :: u32) = (of_nat n :: u8)"
  using of_nat_unat [of "of_nat n :: u32", where ?'a = "8 word"] by simp

lemma reads_sized:
  assumes "at_header data c (b # n @ body)"
  shows "b = 0xD9 \<Longrightarrow> length n = 1 \<Longrightarrow> be_val n = length body \<Longrightarrow> reads data c (b # n @ body) (mp_STR body)"
    and "b = 0xDA \<Longrightarrow> length n = 2 \<Longrightarrow> be_val n = length body \<Longrightarrow> reads data c (b # n @ body) (mp_STR body)"
    and "b = 0xDB \<Longrightarrow> length n = 4 \<Longrightarrow> be_val n = length body \<Longrightarrow> reads data c (b # n @ body) (mp_STR body)"
    and "b = 0xC4 \<Longrightarrow> length n = 1 \<Longrightarrow> be_val n = length body \<Longrightarrow> reads data c (b # n @ body) (mp_BIN body)"
    and "b = 0xC5 \<Longrightarrow> length n = 2 \<Longrightarrow> be_val n = length body \<Longrightarrow> reads data c (b # n @ body) (mp_BIN body)"
    and "b = 0xC6 \<Longrightarrow> length n = 4 \<Longrightarrow> be_val n = length body \<Longrightarrow> reads data c (b # n @ body) (mp_BIN body)"
    and "b = 0xC7 \<Longrightarrow> length n = 1 \<Longrightarrow> Suc (be_val n) = length body \<Longrightarrow> reads data c (b # n @ body) (mp_EXT body)"
    and "b = 0xC8 \<Longrightarrow> length n = 2 \<Longrightarrow> Suc (be_val n) = length body \<Longrightarrow> reads data c (b # n @ body) (mp_EXT body)"
    and "b = 0xC9 \<Longrightarrow> length n = 4 \<Longrightarrow> Suc (be_val n) = length body \<Longrightarrow> reads data c (b # n @ body) (mp_EXT body)"
proof -
  have "at_header data c (b # n)" using assms by (auto simp: at_header_def)
  then have tk: "take (length n) (drop (Suc (mp_current c)) data) = n" by (rule value_bytes)
  note st = reads_body [OF assms, of ACS_STR_VALUE, simplified acs_obj.simps]
    and bn = reads_body [OF assms, of ACS_BIN_VALUE, simplified acs_obj.simps]
    and ex = reads_body [OF assms, of ACS_EXT_VALUE, simplified acs_obj.simps]
  show "b = 0xD9 \<Longrightarrow> length n = 1 \<Longrightarrow> be_val n = length body \<Longrightarrow> reads data c (b # n @ body) (mp_STR body)"
    "b = 0xDA \<Longrightarrow> length n = 2 \<Longrightarrow> be_val n = length body \<Longrightarrow> reads data c (b # n @ body) (mp_STR body)"
    "b = 0xDB \<Longrightarrow> length n = 4 \<Longrightarrow> be_val n = length body \<Longrightarrow> reads data c (b # n @ body) (mp_STR body)"
    using tk by (intro st; auto simp: value_defs is_acs_def)+
  show "b = 0xC4 \<Longrightarrow> length n = 1 \<Longrightarrow> be_val n = length body \<Longrightarrow> reads data c (b # n @ body) (mp_BIN body)"
    "b = 0xC5 \<Longrightarrow> length n = 2 \<Longrightarrow> be_val n = length body \<Longrightarrow> reads data c (b # n @ body) (mp_BIN body)"
    "b = 0xC6 \<Longrightarrow> length n = 4 \<Longrightarrow> be_val n = length body \<Longrightarrow> reads data c (b # n @ body) (mp_BIN body)"
    using tk by (intro bn; auto simp: value_defs is_acs_def)+
  show "b = 0xC7 \<Longrightarrow> length n = 1 \<Longrightarrow> Suc (be_val n) = length body \<Longrightarrow> reads data c (b # n @ body) (mp_EXT body)"
    "b = 0xC8 \<Longrightarrow> length n = 2 \<Longrightarrow> Suc (be_val n) = length body \<Longrightarrow> reads data c (b # n @ body) (mp_EXT body)"
    "b = 0xC9 \<Longrightarrow> length n = 4 \<Longrightarrow> Suc (be_val n) = length body \<Longrightarrow> reads data c (b # n @ body) (mp_EXT body)"
    using tk by (intro ex; auto simp: value_defs is_acs_def)+
qed

lemma reads_str:
  assumes "at_header data c (pack_str (of_nat (length bs)) @ bs)" "length bs < 2 ^ 32"
  shows "reads data c (pack_str (of_nat (length bs)) @ bs) (mp_STR bs)"
  using assms reads_fixstr [of data c "0xA0 OR of_nat (length bs)" bs] low_bits(1) [of "length bs"]
    reads_sized(1-3) [of data c _ "be_bytes 2 (length bs)" bs] reads_sized(1) [of data c _ "[of_nat (length bs)]" bs]
    reads_sized(3) [of data c _ "be_bytes 4 (length bs)" bs]
  by (auto simp: pack_str_def be_val_be_bytes split: if_splits)

lemma reads_bin:
  assumes "at_header data c (pack_bin (of_nat (length bs)) @ bs)" "length bs < 2 ^ 32"
  shows "reads data c (pack_bin (of_nat (length bs)) @ bs) (mp_BIN bs)"
  using assms reads_sized(4) [of data c _ "[of_nat (length bs)]" bs]
    reads_sized(5) [of data c _ "be_bytes 2 (length bs)" bs] reads_sized(6) [of data c _ "be_bytes 4 (length bs)" bs]
  by (auto simp: pack_bin_def be_val_be_bytes split: if_splits)

lemma reads_ext:
  assumes "at_header data c (pack_ext (of_nat (length bs - 1)) (hd bs) @ tl bs)" "bs \<noteq> []" "length bs \<le> 2 ^ 32"
  shows "reads data c (pack_ext (of_nat (length bs - 1)) (hd bs) @ tl bs) (mp_EXT bs)"
proof -
  obtain t d where bs: "bs = t # d" using assms(2) by (cases bs) auto
  have n: "length d < 2 ^ 32" "unat (of_nat (length d) :: u32) = length d" using assms(3) bs by simp_all
  have eq: "of_nat (length d) = (of_nat k :: u32) \<longleftrightarrow> length d = k" if "k < 2 ^ 32" for k
    using arg_cong [of "of_nat (length d)" "of_nat k :: u32" unat] n(2) that by auto
  note e = eq [of 1, simplified] eq [of 2, simplified] eq [of 4, simplified] eq [of 8, simplified] eq [of 16, simplified]
  show ?thesis
    using assms(1) n
      reads_number(11-15) [of data c _ "t # d"] reads_sized(7) [of data c _ "[of_nat (length d)]" "t # d"]
      reads_sized(8) [of data c _ "be_bytes 2 (length d)" "t # d"] reads_sized(9) [of data c _ "be_bytes 4 (length d)" "t # d"]
    by (auto simp: bs pack_ext_def e be_val_be_bytes split: if_splits)
qed

subsection \<open>Containers\<close>

definition opens :: "bytes \<Rightarrow> mp_context \<Rightarrow> bytes \<Rightarrow> mp_object \<Rightarrow> msgpack_container_type \<Rightarrow> nat \<Rightarrow> bool" where
  "opens data c bs o0 ct n \<longleftrightarrow> (\<exists>c'. mp_current c' + 1 = mp_current c + length bs \<and> mp_stack c' \<noteq> [] \<and>
     tl (mp_stack c') = tl (mp_stack c) \<and> execute_loop data c = exec_cont data (push_aggregate o0 ct n c'))"

lemma opens_value:
  assumes "at_header data c (b # n)" "0xC4 \<le> unat b" "unat b \<le> 0xDF" "trail_sizes ! (unat b - 0xC4) = length n" "n \<noteq> []"
    and "exec_value data (in_value c b n) = Inl (push_aggregate o0 ct k ((in_value c b n)\<lparr>mp_current := length n + mp_current c\<rparr>))"
  shows "opens data c (b # n) o0 ct k"
  unfolding opens_def
proof (intro exI conjI)
  show "execute_loop data c = exec_cont data (push_aggregate o0 ct k ((in_value c b n)\<lparr>mp_current := length n + mp_current c\<rparr>))"
    by (subst execute_loop.simps) (simp add: round_value [OF assms(1-4)] assms(6) exec_cont_def)
qed (use assms(1,5) in \<open>auto simp: in_value_def at_header_def\<close>)

lemma opens_now:
  assumes "at_header data c [b]" "exec_header data c = (Some (push_aggregate o0 ct k c), c)"
  shows "opens data c [b] o0 ct k"
  using assms unfolding opens_def
  by (intro exI [of _ c], subst execute_loop.simps) (auto simp: at_header_def exec_round_def exec_cont_def)

lemma at_headerD: "at_header data c (b # n) \<Longrightarrow> data ! mp_current c = b"
  using header_byte by (fastforce simp: at_header_def)

lemma opens_sized:
  assumes "at_header data c (b # n)"
  shows "b = 0xDC \<Longrightarrow> length n = 2 \<Longrightarrow> opens data c (b # n) (mp_ARRAY []) CT_ARRAY_ITEM (be_val n)"
    and "b = 0xDD \<Longrightarrow> length n = 4 \<Longrightarrow> opens data c (b # n) (mp_ARRAY []) CT_ARRAY_ITEM (be_val n)"
    and "b = 0xDE \<Longrightarrow> length n = 2 \<Longrightarrow> opens data c (b # n) (mp_MAP []) CT_MAP_KEY (be_val n)"
    and "b = 0xDF \<Longrightarrow> length n = 4 \<Longrightarrow> opens data c (b # n) (mp_MAP []) CT_MAP_KEY (be_val n)"
  using value_bytes [OF assms] by (intro opens_value [OF assms]; auto simp: value_defs)+

lemma opens_array:
  assumes "at_header data c (pack_array (of_nat n))" "n < 2 ^ 32"
  shows "opens data c (pack_array (of_nat n)) (mp_ARRAY []) CT_ARRAY_ITEM n"
proof (cases "n < 16")
  case True
  then have p: "pack_array (of_nat n) = [0x90 OR of_nat n]" by (simp add: pack_array_def)
  show ?thesis
    using assms(1) low_bits(2) [OF True] True at_headerD [of data c] unfolding p by (intro opens_now) (auto simp: exec_header_def Let_def)
next
  case False
  then show ?thesis
    using assms opens_sized(1) [of data c _ "be_bytes 2 n"] opens_sized(2) [of data c _ "be_bytes 4 n"]
    by (auto simp: pack_array_def be_val_be_bytes split: if_splits)
qed

lemma opens_map:
  assumes "at_header data c (pack_map (of_nat n))" "n < 2 ^ 32"
  shows "opens data c (pack_map (of_nat n)) (mp_MAP []) CT_MAP_KEY n"
proof (cases "n < 16")
  case True
  then have p: "pack_map (of_nat n) = [0x80 OR of_nat n]" by (simp add: pack_map_def)
  show ?thesis
    using assms(1) low_bits(3) [OF True] True at_headerD [of data c] unfolding p by (intro opens_now) (auto simp: exec_header_def Let_def)
next
  case False
  then show ?thesis
    using assms opens_sized(3) [of data c _ "be_bytes 2 n"] opens_sized(4) [of data c _ "be_bytes 4 n"]
    by (auto simp: pack_map_def be_val_be_bytes split: if_splits)
qed

text \<open>An object is entered into the container below the innermost frame.\<close>

lemma push_proc_last:
  assumes "mp_stack c = fr # sp # st" "us_count sp = 1"
  shows "us_container_type sp = CT_ARRAY_ITEM \<Longrightarrow> us_obj sp = mp_ARRAY ys \<Longrightarrow>
      push_proc v c = push_proc (mp_ARRAY (ys @ [v])) (c\<lparr>mp_stack := sp\<lparr>us_obj := mp_ARRAY (ys @ [v]), us_count := 0\<rparr> # st\<rparr>)"
    and "us_container_type sp = CT_MAP_VALUE \<Longrightarrow> us_obj sp = mp_MAP kvs \<Longrightarrow>
      push_proc v c = push_proc (mp_MAP (kvs @ [(us_map_key sp, v)])) (c\<lparr>mp_stack := sp\<lparr>us_obj := mp_MAP (kvs @ [(us_map_key sp, v)]), us_count := 0\<rparr> # st\<rparr>)"
  using assms by (simp_all add: push_proc_def Let_def split_def)

lemma push_proc_more:
  assumes "mp_stack c = fr # sp # st" "1 < us_count sp"
  shows "us_container_type sp = CT_ARRAY_ITEM \<Longrightarrow> us_obj sp = mp_ARRAY ys \<Longrightarrow>
      push_proc v c = (0, c\<lparr>mp_stack := fr # sp\<lparr>us_obj := mp_ARRAY (ys @ [v]), us_count := us_count sp - 1\<rparr> # st, mp_cs := CS_HEADER, mp_current := mp_current c + 1\<rparr>)"
    and "us_container_type sp = CT_MAP_VALUE \<Longrightarrow> us_obj sp = mp_MAP kvs \<Longrightarrow>
      push_proc v c = (0, c\<lparr>mp_stack := fr # sp\<lparr>us_obj := mp_MAP (kvs @ [(us_map_key sp, v)]), us_count := us_count sp - 1, us_container_type := CT_MAP_KEY\<rparr> # st,
        mp_cs := CS_HEADER, mp_current := mp_current c + 1\<rparr>)"
  using assms by (simp_all add: push_proc_def Let_def split_def)

lemma push_proc_key:
  assumes "mp_stack c = fr # sp # st" "us_container_type sp = CT_MAP_KEY"
  shows "push_proc k c = (0, c\<lparr>mp_stack := fr # sp\<lparr>us_map_key := k, us_container_type := CT_MAP_VALUE\<rparr> # st, mp_cs := CS_HEADER, mp_current := mp_current c + 1\<rparr>)"
  using assms by (simp add: push_proc_def Let_def split_def)

lemma exec_cont_more: "drop (mp_current c) data = bs @ rest \<Longrightarrow> bs \<noteq> [] \<Longrightarrow> exec_cont data (0, c) = execute_loop data c"
  by (auto simp: exec_cont_def exec_finish_def)

lemma mp_bytes_nonempty: "mp_bytes x \<noteq> []"
  by (cases x) (auto simp: pack_nil_def pack_true_def pack_false_def pack_imp_uint64_def pack_imp_int64_def pack_float_def pack_double_def
      pack_str_def pack_bin_def pack_ext_def pack_array_def pack_map_def split: sum.split)

lemma drop_more: "drop i data = bs @ rest \<Longrightarrow> j = i + length bs \<Longrightarrow> drop j data = rest"
  using drop_drop [of "length bs" i data] by (simp add: add.commute)

text \<open>The items of an array, one after the other.\<close>

lemma exec_items:
  assumes "\<And>x c. x \<in> set xs \<Longrightarrow> at_header data c (mp_bytes x) \<Longrightarrow> reads data c (mp_bytes x) x"
    and "at_header data c (concat (map mp_bytes xs))" "mp_stack c = fr # sp # st" "us_container_type sp = CT_ARRAY_ITEM"
    and "us_obj sp = mp_ARRAY ys" "us_count sp = length xs" "xs \<noteq> []"
  shows "\<exists>c'. mp_current c' + 1 = mp_current c + length (concat (map mp_bytes xs)) \<and> mp_stack c' \<noteq> [] \<and> tl (mp_stack c') = st \<and>
    execute_loop data c = exec_cont data (push_proc (mp_ARRAY (ys @ xs)) c')"
  using assms
proof (induction xs arbitrary: c fr sp ys)
  case (Cons x xs)
  have at: "at_header data c (mp_bytes x)" using Cons.prems(2) by (auto simp: at_header_def)
  obtain c1 where c1: "mp_current c1 + 1 = mp_current c + length (mp_bytes x)" "mp_stack c1 \<noteq> []" "tl (mp_stack c1) = sp # st"
    "execute_loop data c = exec_cont data (push_proc x c1)"
    using Cons.prems(1) [OF _ at] Cons.prems(3) by (auto simp: reads_def)
  then obtain fr1 where s1: "mp_stack c1 = fr1 # sp # st" by (cases "mp_stack c1") auto
  show ?case
  proof (cases "xs = []")
    case True
    then show ?thesis
      using c1 push_proc_last(1) [OF s1, of ys x] Cons.prems(4-6)
      by (intro exI [of _ "c1\<lparr>mp_stack := sp\<lparr>us_obj := mp_ARRAY (ys @ [x]), us_count := 0\<rparr> # st\<rparr>"]) simp
  next
    case False
    let ?sp = "sp\<lparr>us_obj := mp_ARRAY (ys @ [x]), us_count := us_count sp - 1\<rparr>"
    let ?c2 = "c1\<lparr>mp_stack := fr1 # ?sp # st, mp_cs := CS_HEADER, mp_current := mp_current c1 + 1\<rparr>"
    have p: "push_proc x c1 = (0, ?c2)" using push_proc_more(1) [OF s1, of ys x] Cons.prems(4-6) False by simp
    obtain rest where "drop (mp_current c) data = mp_bytes x @ concat (map mp_bytes xs) @ rest"
      using Cons.prems(2) by (auto simp: at_header_def)
    then have d: "drop (mp_current ?c2) data = concat (map mp_bytes xs) @ rest"
      using c1(1) by (elim drop_more) simp
    then have "execute_loop data c = execute_loop data ?c2"
      using c1(4) p exec_cont_more [OF d] False mp_bytes_nonempty by (cases xs) auto
    moreover obtain c' where "mp_current c' + 1 = mp_current ?c2 + length (concat (map mp_bytes xs))" "mp_stack c' \<noteq> []"
      "tl (mp_stack c') = st" "execute_loop data ?c2 = exec_cont data (push_proc (mp_ARRAY ((ys @ [x]) @ xs)) c')"
      using Cons.IH [of ?c2 fr1 ?sp "ys @ [x]"] Cons.prems(1,4,6) False d by (auto simp: at_header_def)
    ultimately show ?thesis using c1(1) by (intro exI [of _ c']) simp
  qed
qed simp

lemma exec_pairs:
  assumes "\<And>k v c. (k, v) \<in> set kvs \<Longrightarrow> at_header data c (mp_bytes k) \<Longrightarrow> reads data c (mp_bytes k) k"
    and "\<And>k v c. (k, v) \<in> set kvs \<Longrightarrow> at_header data c (mp_bytes v) \<Longrightarrow> reads data c (mp_bytes v) v"
    and "at_header data c (concat (map (\<lambda>kv. mp_bytes (fst kv) @ mp_bytes (snd kv)) kvs))" "mp_stack c = fr # sp # st"
    and "us_container_type sp = CT_MAP_KEY" "us_obj sp = mp_MAP ys" "us_count sp = length kvs" "kvs \<noteq> []"
  shows "\<exists>c'. mp_current c' + 1 = mp_current c + length (concat (map (\<lambda>kv. mp_bytes (fst kv) @ mp_bytes (snd kv)) kvs)) \<and>
    mp_stack c' \<noteq> [] \<and> tl (mp_stack c') = st \<and> execute_loop data c = exec_cont data (push_proc (mp_MAP (ys @ kvs)) c')"
  using assms
proof (induction kvs arbitrary: c fr sp ys)
  case (Cons kv kvs)
  obtain k v where kv: "kv = (k, v)" by fastforce
  let ?cat = "concat (map (\<lambda>kv. mp_bytes (fst kv) @ mp_bytes (snd kv)) kvs)"
  obtain rest where d0: "drop (mp_current c) data = mp_bytes k @ mp_bytes v @ ?cat @ rest" "mp_cs c = CS_HEADER"
    using Cons.prems(3) kv by (auto simp: at_header_def)
  obtain c1 where c1: "mp_current c1 + 1 = mp_current c + length (mp_bytes k)" "mp_stack c1 \<noteq> []" "tl (mp_stack c1) = sp # st"
    "execute_loop data c = exec_cont data (push_proc k c1)"
    using Cons.prems(1) [of k v c] Cons.prems(4) kv d0 by (auto simp: reads_def at_header_def)
  then obtain fr1 where s1: "mp_stack c1 = fr1 # sp # st" by (cases "mp_stack c1") auto
  let ?sp1 = "sp\<lparr>us_map_key := k, us_container_type := CT_MAP_VALUE\<rparr>"
  let ?c2 = "c1\<lparr>mp_stack := fr1 # ?sp1 # st, mp_cs := CS_HEADER, mp_current := mp_current c1 + 1\<rparr>"
  have d1: "drop (mp_current ?c2) data = mp_bytes v @ ?cat @ rest"
    using d0(1) c1(1) by (elim drop_more) simp
  have 1: "execute_loop data c = execute_loop data ?c2"
    using c1(4) push_proc_key [OF s1 Cons.prems(5), of k] exec_cont_more [OF d1] mp_bytes_nonempty by simp
  obtain c3 where c3: "mp_current c3 + 1 = mp_current ?c2 + length (mp_bytes v)" "mp_stack c3 \<noteq> []" "tl (mp_stack c3) = ?sp1 # st"
    "execute_loop data ?c2 = exec_cont data (push_proc v c3)"
    using Cons.prems(2) [of k v ?c2] kv d1 by (auto simp: reads_def at_header_def)
  then obtain fr3 where s3: "mp_stack c3 = fr3 # ?sp1 # st" by (cases "mp_stack c3") auto
  show ?case
  proof (cases "kvs = []")
    case True
    then show ?thesis
      using 1 c1(1) c3 push_proc_last(2) [OF s3, of ys v] Cons.prems(6,7) kv
      by (intro exI [of _ "c3\<lparr>mp_stack := ?sp1\<lparr>us_obj := mp_MAP (ys @ [(k, v)]), us_count := 0\<rparr> # st\<rparr>"]) simp
  next
    case False
    let ?sp = "?sp1\<lparr>us_obj := mp_MAP (ys @ [(k, v)]), us_count := us_count sp - 1, us_container_type := CT_MAP_KEY\<rparr>"
    let ?c4 = "c3\<lparr>mp_stack := fr3 # ?sp # st, mp_cs := CS_HEADER, mp_current := mp_current c3 + 1\<rparr>"
    have p: "push_proc v c3 = (0, ?c4)" using push_proc_more(2) [OF s3, of ys v] Cons.prems(6,7) False by simp
    have d: "drop (mp_current ?c4) data = ?cat @ rest"
      using c3(1) by (intro drop_more [OF d1]) simp
    then have 2: "execute_loop data c = execute_loop data ?c4"
      using 1 c3(4) p exec_cont_more [OF d] False mp_bytes_nonempty by (cases kvs) auto
    have pk: "reads data c (mp_bytes k) k" if "(k, v) \<in> set kvs" "at_header data c (mp_bytes k)" for k v c
      using Cons.prems(1) [of k v c] that by simp
    have pv: "reads data c (mp_bytes v) v" if "(k, v) \<in> set kvs" "at_header data c (mp_bytes v)" for k v c
      using Cons.prems(2) [of k v c] that by simp
    have at4: "at_header data ?c4 ?cat" using d by (simp add: at_header_def)
    obtain c' where "mp_current c' + 1 = mp_current ?c4 + length ?cat" "mp_stack c' \<noteq> []"
      "tl (mp_stack c') = st" "execute_loop data ?c4 = exec_cont data (push_proc (mp_MAP ((ys @ [(k, v)]) @ kvs)) c')"
      using Cons.IH [of ?c4 fr3 ?sp "ys @ [(k, v)]"] pk pv at4 Cons.prems(7) False by auto
    then show ?thesis using 2 c1(1) c3(1) kv by (intro exI [of _ c']) simp
  qed
qed simp

lemma reads_object: "mp_ok ob \<Longrightarrow> at_header data c (mp_bytes ob) \<Longrightarrow> reads data c (mp_bytes ob) ob"
proof (induction arbitrary: c rule: mp_ok.induct)
  case 1
  then show ?case
    by (simp add: pack_nil_def, intro reads_now [where f = id]) (simp_all add: exec_header_def Let_def)
next
  case (2 b)
  then show ?case
    by (auto simp: pack_true_def pack_false_def intro!: reads_now [where f = id] simp: exec_header_def Let_def)
next
  case (4 f)
  show ?case
  proof (cases f)
    case (Inl i)
    then show ?thesis
      using 4 reads_number(9) [of data c _ "be_bytes 4 (unat i)"] unat_lt_2p32 [of i] by (simp add: pack_float_def be_val_be_bytes of_nat_unat)
  next
    case (Inr i)
    then show ?thesis
      using 4 reads_number(10) [of data c _ "be_bytes 8 (unat i)"] unsigned_less [of i, where ?'a = nat] by (simp add: pack_double_def be_val_be_bytes of_nat_unat)
  qed
next
  case (9 xs)
  let ?h = "pack_array (of_nat (length xs))" and ?cat = "concat (map mp_bytes xs)"
  have "at_header data c ?h" using "9.prems" by (auto simp: at_header_def)
  then obtain c1 where c1: "mp_current c1 + 1 = mp_current c + length ?h" "mp_stack c1 \<noteq> []" "tl (mp_stack c1) = tl (mp_stack c)"
    "execute_loop data c = exec_cont data (push_aggregate (mp_ARRAY []) CT_ARRAY_ITEM (length xs) c1)"
    using opens_array "9.hyps"(1) unfolding opens_def by blast
  show ?case
  proof (cases "xs = []")
    case True
    then show ?thesis using c1 unfolding reads_def by (intro exI [of _ c1]) (simp add: push_aggregate_def)
  next
    case False
    let ?sp = "(hd (mp_stack c1))\<lparr>us_obj := mp_ARRAY [], us_container_type := CT_ARRAY_ITEM, us_count := length xs\<rparr>"
    let ?c2 = "c1\<lparr>mp_stack := new_frame # ?sp # tl (mp_stack c1), mp_cs := CS_HEADER, mp_current := mp_current c1 + 1\<rparr>"
    obtain rest where "drop (mp_current c) data = ?h @ ?cat @ rest" using "9.prems" by (auto simp: at_header_def)
    then have d: "drop (mp_current ?c2) data = ?cat @ rest" using c1(1) by (elim drop_more) simp
    then have 1: "execute_loop data c = execute_loop data ?c2"
      using c1(4) exec_cont_more [OF d] False mp_bytes_nonempty by (cases xs) (auto simp: push_aggregate_def)
    obtain c' where "mp_current c' + 1 = mp_current ?c2 + length ?cat" "mp_stack c' \<noteq> []" "tl (mp_stack c') = tl (mp_stack c1)"
      "execute_loop data ?c2 = exec_cont data (push_proc (mp_ARRAY ([] @ xs)) c')"
      using exec_items [of xs data ?c2 new_frame ?sp "tl (mp_stack c1)" "[]"] "9.IH" False d by (auto simp: at_header_def)
    then show ?thesis using 1 c1 unfolding reads_def by (intro exI [of _ c']) simp
  qed
next
  case (10 kvs)
  let ?h = "pack_map (of_nat (length kvs))" and ?cat = "concat (map (\<lambda>kv. mp_bytes (fst kv) @ mp_bytes (snd kv)) kvs)"
  have "at_header data c ?h" using "10.prems" by (auto simp: at_header_def)
  then obtain c1 where c1: "mp_current c1 + 1 = mp_current c + length ?h" "mp_stack c1 \<noteq> []" "tl (mp_stack c1) = tl (mp_stack c)"
    "execute_loop data c = exec_cont data (push_aggregate (mp_MAP []) CT_MAP_KEY (length kvs) c1)"
    using opens_map "10.hyps"(1) unfolding opens_def by blast
  show ?case
  proof (cases "kvs = []")
    case True
    then show ?thesis using c1 unfolding reads_def by (intro exI [of _ c1]) (simp add: push_aggregate_def)
  next
    case False
    let ?sp = "(hd (mp_stack c1))\<lparr>us_obj := mp_MAP [], us_container_type := CT_MAP_KEY, us_count := length kvs\<rparr>"
    let ?c2 = "c1\<lparr>mp_stack := new_frame # ?sp # tl (mp_stack c1), mp_cs := CS_HEADER, mp_current := mp_current c1 + 1\<rparr>"
    obtain rest where "drop (mp_current c) data = ?h @ ?cat @ rest" using "10.prems" by (auto simp: at_header_def)
    then have d: "drop (mp_current ?c2) data = ?cat @ rest" using c1(1) by (elim drop_more) simp
    then have 1: "execute_loop data c = execute_loop data ?c2"
      using c1(4) exec_cont_more [OF d] False mp_bytes_nonempty by (cases kvs) (auto simp: push_aggregate_def)
    obtain c' where "mp_current c' + 1 = mp_current ?c2 + length ?cat" "mp_stack c' \<noteq> []" "tl (mp_stack c') = tl (mp_stack c1)"
      "execute_loop data ?c2 = exec_cont data (push_proc (mp_MAP ([] @ kvs)) c')"
      using exec_pairs [of kvs data ?c2 new_frame ?sp "tl (mp_stack c1)" "[]"] "10.IH" False d by (auto simp: at_header_def)
    then show ?thesis using 1 c1 unfolding reads_def by (intro exI [of _ c']) simp
  qed
next
  case (8 bs)
  then show ?case using reads_ext [of data c bs] by simp
qed (simp_all add: reads_uint64 reads_int64 reads_str reads_bin)

lemma unpack_bytes:
  assumes "mp_ok ob"
  shows "unpack (mp_bytes ob @ rest) = Some ob"
proof -
  let ?d = "mp_bytes ob @ rest"
  have "at_header ?d context_init (mp_bytes ob)" by (simp add: at_header_def context_init_def)
  then obtain c' where c': "mp_stack c' \<noteq> []" "tl (mp_stack c') = []" "execute_loop ?d context_init = exec_cont ?d (push_proc ob c')"
    using reads_object [OF assms, of ?d context_init] by (auto simp: reads_def context_init_def)
  then obtain fr where "mp_stack c' = [fr]" by (cases "mp_stack c'") auto
  then show ?thesis
    using c'(3) mp_bytes_nonempty [of ob] by (simp add: unpack_def execute_def push_proc_def exec_cont_def exec_finish_def)
qed

text \<open>The machine moves forward in every round, so that it stops on any data.\<close>

lemma push_item_ret: "push_item ob st = (r, x) \<Longrightarrow> 0 \<le> r"
  by (induction ob st rule: push_item.induct) (auto simp: Let_def split: msgpack_container_type.splits if_splits)

lemma push_moves:
  "mp_current (snd (push_proc ob c)) = mp_current c + 1"
  "mp_current (snd (push_aggregate ob ct n c)) = mp_current c + 1"
proof -
  show 1: "mp_current (snd (push_proc ob c)) = mp_current c + 1" for ob c
    using push_item_ret [of ob "mp_stack c"] by (auto simp: push_proc_def Let_def split: prod.splits)
  show "mp_current (snd (push_aggregate ob ct n c)) = mp_current c + 1"
    using 1 by (simp add: push_aggregate_def)
qed

lemma push_cs:
  "fst (push_proc ob c) = 0 \<Longrightarrow> mp_cs (snd (push_proc ob c)) = CS_HEADER"
  "fst (push_aggregate ob ct n c) = 0 \<Longrightarrow> mp_cs (snd (push_aggregate ob ct n c)) = CS_HEADER"
  by (auto simp: push_proc_def push_aggregate_def Let_def split: prod.splits if_splits)

lemma trail_sizes_pos: "i < 28 \<Longrightarrow> 0 < trail_sizes ! i"
proof -
  have "list_all (\<lambda>n. 0 < n) trail_sizes" "length trail_sizes = 28" by (simp_all add: trail_sizes_def)
  then show "i < 28 \<Longrightarrow> 0 < trail_sizes ! i" by (simp add: list_all_length)
qed

definition on_course :: "bytes \<Rightarrow> mp_context \<Rightarrow> bool" where
  "on_course data c \<longleftrightarrow> mp_current c \<le> length data \<and> (mp_cs c = CS_HEADER \<or> 0 < mp_trail c)"

lemma on_course_push:
  assumes "exec_finish rc = Inr c'" "rc = push_proc ob c \<or> rc = push_aggregate ob ct n c" "mp_current c < length data"
  shows "on_course data c' \<and> mp_current c' = mp_current c + 1"
  using assms push_cs push_moves by (auto simp: exec_finish_def on_course_def split: if_splits)

lemma exec_header_course:
  assumes "mp_current c < length data"
  shows "exec_header data c = (Some rc, d) \<Longrightarrow> exec_finish rc = Inr c' \<Longrightarrow> on_course data c' \<and> mp_current c < mp_current c'"
    and "exec_header data c = (None, d) \<Longrightarrow> 0 < mp_trail d \<and> mp_current d = mp_current c"
  using assms trail_sizes_pos [of "unat (data ! mp_current c) - 0xC4"]
  by (auto simp: exec_header_def Let_def split: if_splits dest!: on_course_push [OF _ disjI1 [OF refl]] on_course_push [OF _ disjI2 [OF refl]])
    (auto simp: exec_finish_def)

lemma finish_error [simp]: "exec_finish (- 1, c) = Inl (- 1, c)"
  by (simp add: exec_finish_def)

lemma exec_value_course:
  assumes "mp_current c + mp_trail c \<le> length data" "0 < mp_trail c"
  shows "exec_value data c = Inl rc \<Longrightarrow> exec_finish rc = Inr c' \<Longrightarrow> on_course data c' \<and> mp_current c \<le> mp_current c'"
    and "exec_value data c = Inr c' \<Longrightarrow> on_course data c' \<and> mp_current c \<le> mp_current c'"
proof -
  let ?c = "c\<lparr>mp_current := mp_current c + (mp_trail c - 1)\<rparr>"
  have cur: "mp_current ?c < length data" using assms by simp
  have "on_course data c' \<and> mp_current c' = mp_current ?c + 1" if "exec_finish (push_proc ob (?c\<lparr>mp_trail := n\<rparr>)) = Inr c'" for ob n
    using on_course_push [OF that, of ob "?c\<lparr>mp_trail := n\<rparr>" CT_ARRAY_ITEM n data] cur by simp
  note pushed = this on_course_push [where c = ?c, OF _ disjI1 [OF refl] cur] on_course_push [where c = ?c, OF _ disjI2 [OF refl] cur]
  show "exec_value data c = Inl rc \<Longrightarrow> exec_finish rc = Inr c' \<Longrightarrow> on_course data c' \<and> mp_current c \<le> mp_current c'"
    using cur by (cases "mp_cs c") (auto simp: exec_value_def exec_length_def Let_def split: if_splits dest!: pushed [unfolded One_nat_def])
  show "exec_value data c = Inr c' \<Longrightarrow> on_course data c' \<and> mp_current c \<le> mp_current c'"
    using cur by (cases "mp_cs c") (auto simp: exec_value_def exec_length_def Let_def on_course_def split: if_splits)
qed

lemma exec_round_course:
  assumes "exec_round data c = Inr c'" "on_course data c" "mp_current c < length data"
  shows "on_course data c' \<and> mp_current c < mp_current c'"
proof -
  obtain h d where h: "(if mp_cs c = CS_HEADER then exec_header data c else (None, c)) = (h, d)" by fastforce
  show ?thesis
  proof (cases h)
    case (Some rc)
    then show ?thesis
      using assms h exec_header_course(1) [OF assms(3)] by (simp add: exec_round_def split: if_splits)
  next
    case None
    then have d: "0 < mp_trail d" "mp_current d = mp_current c"
      using h assms(2) exec_header_course(2) [OF assms(3)] by (auto simp: on_course_def split: if_splits)
    let ?d = "d\<lparr>mp_current := mp_current d + 1\<rparr>"
    have "mp_current ?d + mp_trail ?d \<le> length data"
      using assms(1,3) h None d by (simp add: exec_round_def Let_def split: if_splits)
    then have "on_course data c' \<and> mp_current ?d \<le> mp_current c'"
      using exec_value_course [of ?d data] d assms(1) h None
      by (cases "exec_value data ?d") (auto simp: exec_round_def Let_def split: if_splits)
    then show ?thesis using d by simp
  qed
qed

lemma execute_loop_returns: "on_course data c \<Longrightarrow> mp_current c < length data \<Longrightarrow> \<exists>r. execute_loop data c = Some r"
proof (induction "length data - mp_current c" arbitrary: c rule: less_induct)
  case less
  show ?case
  proof (cases "exec_round data c")
    case (Inr c')
    then show ?thesis
      using exec_round_course [OF Inr less.prems] less.prems less.hyps [of c']
      by (subst execute_loop.simps) (auto simp: on_course_def)
  qed (subst execute_loop.simps, simp)
qed

text \<open>C30. The unpacking machine stops on any data: \<^verbatim>\<open>execute\<close> returns, whatever bytes a database file has.\<close>

theorem execute_returns: "\<exists>r. execute data = Some r"
  using execute_loop_returns [of data context_init] by (auto simp: execute_def on_course_def context_init_def)



subsection \<open>Members as objects\<close>

text \<open>What the adaptors write is the bytes of an object, and the conversion of that object gives the value back.\<close>

lemma pack_unsigned_object:
  "pack_imp_uint8 d8 = mp_bytes (mp_POSITIVE_INTEGER (ucast d8))" "pack_imp_uint16 d16 = mp_bytes (mp_POSITIVE_INTEGER (ucast d16))"
  "pack_imp_uint32 d32 = mp_bytes (mp_POSITIVE_INTEGER (ucast d32))" "pack_imp_uint64 d64 = mp_bytes (mp_POSITIVE_INTEGER d64)"
proof -
  have u: "unat (ucast d8 :: u64) = unat d8" "unat (ucast d16 :: u64) = unat d16" "unat (ucast d32 :: u64) = unat d32"
    by (simp_all add: unsigned_ucast_eq take_bit_nat_eq_self_iff order.strict_trans [OF unsigned_less])
  have c: "ucast (ucast d8 :: u64) = d8" "ucast (ucast d16 :: u64) = (ucast d16 :: u8)" "ucast (ucast d32 :: u64) = (ucast d32 :: u8)"
    by (rule bit_word_eqI, simp add: bit_simps)+
  have b: "unat d8 < 256" "unat d16 < 65536" "unat d32 < 4294967296"
    by (rule unat_lt_2p8 unat_lt_2p16 unat_lt_2p32)+
  show "pack_imp_uint8 d8 = mp_bytes (mp_POSITIVE_INTEGER (ucast d8))" "pack_imp_uint16 d16 = mp_bytes (mp_POSITIVE_INTEGER (ucast d16))"
    "pack_imp_uint32 d32 = mp_bytes (mp_POSITIVE_INTEGER (ucast d32))" "pack_imp_uint64 d64 = mp_bytes (mp_POSITIVE_INTEGER d64)"
    using b c by (simp_all add: pack_imp_uint8_def pack_imp_uint16_def pack_imp_uint32_def pack_imp_uint64_def u)
qed

definition int_object :: "u64 \<Rightarrow> mp_object" where
  "int_object d = (if 0 \<le> sint d then mp_POSITIVE_INTEGER d else mp_NEGATIVE_INTEGER d)"

lemma sint_unat: "0 \<le> sint (d :: u64) \<Longrightarrow> sint d = int (unat d)"
  using uint_sint [of d] sint_less [of d] by (simp add: take_bit_eq_mod flip: uint_nat)

lemma pack_long_object: "pack_imp_int64 d = mp_bytes (int_object d)"
proof (cases "0 \<le> sint d")
  case True
  have "unat (ucast d :: u16) = unat d" if "unat d < 2 ^ 16"
    using that by (simp add: unsigned_ucast_eq take_bit_nat_eq_self_iff)
  moreover have "unat (ucast d :: u32) = unat d" if "unat d < 2 ^ 32"
    using that by (simp add: unsigned_ucast_eq take_bit_nat_eq_self_iff)
  ultimately show ?thesis using True by (simp add: int_object_def pack_imp_int64_def pack_imp_uint64_def sint_unat)
qed (simp add: int_object_def)

definition packs :: "bytes option \<Rightarrow> mp_object \<Rightarrow> bool" where
  "packs b ob \<longleftrightarrow> b = Some (mp_bytes ob) \<and> mp_ok ob"

lemma packs_simple:
  "packs (Some (pack_imp_uint8 d8)) (mp_POSITIVE_INTEGER (ucast d8))" "packs (Some (pack_imp_uint16 d16)) (mp_POSITIVE_INTEGER (ucast d16))"
  "packs (Some (pack_imp_uint32 d32)) (mp_POSITIVE_INTEGER (ucast d32))" "packs (Some (pack_imp_uint64 d64)) (mp_POSITIVE_INTEGER d64)"
  "packs (Some (pack_imp_int64 d64)) (int_object d64)" "packs (Some (pack_bool b)) (mp_BOOLEAN b)"
  by (simp_all only: packs_def pack_unsigned_object pack_long_object) (auto simp: int_object_def pack_bool_def intro: mp_ok.intros)

lemma packs_string: "length v \<le> 0xFFFFFFFF \<Longrightarrow> packs (pack_string v) (mp_STR v)"
  by (auto simp: packs_def pack_string_def checked_get_container_size_def intro: mp_ok.intros)

lemma packs_raw: "length d = unat n \<Longrightarrow> packs (pack_raw d n) (mp_BIN d)"
  using unat_lt_2p32 [of n] by (auto simp: packs_def pack_raw_def mem_read_Some of_nat_unat intro: mp_ok.intros)

lemma packs_those: "list_all2 packs ms os \<Longrightarrow> those ms = Some (map mp_bytes os) \<and> (\<forall>x \<in> set os. mp_ok x)"
  by (induction rule: list_all2_induct) (auto simp: packs_def)

lemma packs_vector:
  assumes "list_all2 packs (map f v) os" "length v \<le> 0xFFFFFFFF"
  shows "packs (pack_vector f v) (mp_ARRAY os)"
  using packs_those [OF assms(1)] list_all2_lengthD [OF assms(1)] assms(2)
  by (auto simp: packs_def pack_vector_def checked_get_container_size_def intro: mp_ok.intros)

lemma packs_define_array:
  assumes "list_all2 packs ms os" "length ms \<le> 0xFFFFFFFF"
  shows "packs (define_array_pack ms) (mp_ARRAY os)"
  using packs_those [OF assms(1)] list_all2_lengthD [OF assms(1)] assms(2)
  by (auto simp: packs_def define_array_pack_def intro: mp_ok.intros)

lemma convert_unsigned_object [simp]:
  "convert_unsigned (mp_POSITIVE_INTEGER (ucast d8)) = Some (d8 :: u8)" "convert_unsigned (mp_POSITIVE_INTEGER (ucast d16)) = Some (d16 :: u16)"
  "convert_unsigned (mp_POSITIVE_INTEGER (ucast d32)) = Some (d32 :: u32)" "convert_unsigned (mp_POSITIVE_INTEGER d64) = Some (d64 :: u64)"
proof -
  have u: "unat (ucast d8 :: u64) = unat d8" "unat (ucast d16 :: u64) = unat d16" "unat (ucast d32 :: u64) = unat d32"
    by (simp_all add: unsigned_ucast_eq take_bit_nat_eq_self_iff order.strict_trans [OF unsigned_less])
  have c: "ucast (ucast d8 :: u64) = d8" "ucast (ucast d16 :: u64) = d16" "ucast (ucast d32 :: u64) = d32"
    by (rule bit_word_eqI, simp add: bit_simps)+
  show "convert_unsigned (mp_POSITIVE_INTEGER (ucast d8)) = Some d8" "convert_unsigned (mp_POSITIVE_INTEGER (ucast d16)) = Some d16"
    "convert_unsigned (mp_POSITIVE_INTEGER (ucast d32)) = Some d32" "convert_unsigned (mp_POSITIVE_INTEGER d64) = Some d64"
    by (simp_all add: u c not_less flip: word_le_nat_alt)
qed

declare convert_unsigned.simps(1) [simp del]

lemma convert_long_object [simp]:
  assumes "- (2 ^ 63) \<le> i" "i < 2 ^ 63"
  shows "convert_long (int_object (of_int i)) = Some i"
proof -
  have s: "sint (of_int i :: u64) = i"
    using assms by (simp add: signed_of_int signed_take_bit_int_eq_self)
  then show ?thesis
    using sint_unat [of "of_int i"] assms by (auto simp: int_object_def uint_nat)
qed

text \<open>The packers of the shorter unsigned types, and the packer of signed values on one that is not
  negative, write the same bytes as the 64 bit packer: an integer has one encoding, whatever its C++ type.\<close>

theorem integer_packers_agree:
  "pack_imp_uint8 d8 = pack_imp_uint64 (ucast d8) \<and> pack_imp_uint16 d16 = pack_imp_uint64 (ucast d16) \<and>
   pack_imp_uint32 d32 = pack_imp_uint64 (ucast d32) \<and> (0 \<le> sint d64 \<longrightarrow> pack_imp_int64 d64 = pack_imp_uint64 d64)"
  unfolding pack_unsigned_object(1-3) pack_long_object int_object_def by simp

theorem integer_packers_agree_witness: "0 \<le> sint (70000 :: u64) \<and> pack_imp_int64 70000 = [0xCE, 0, 1, 0x11, 0x70]"
proof -
  have s: "0 \<le> sint (70000 :: u64)" by simp
  have "pack_imp_int64 70000 = pack_imp_uint64 70000" using integer_packers_agree [of 0 0 0 70000] s by blast
  also have "\<dots> = 0xCE # be_bytes (Suc 3) 70000" by (simp add: pack_imp_uint64_def)
  also have "\<dots> = [0xCE, 0, 1, 0x11, 0x70]" by (simp add: be_bytes_def numeral_3_eq_3)
  finally show ?thesis using s by simp
qed

end
