(* ===== verification/Persist_Msg_Pack.thy ===== *)
theory Persist_Msg_Pack
  imports Chunk_File Msgpack "HOL-Library.List_Lexorder"
begin

text \<open>
  Saving and restoring the sessions: \<^verbatim>\<open>src/mqtt_server/persist_msg_pack.cpp\<close> with the \<^verbatim>\<open>MSGPACK_DEFINE\<close> lists of
  the classes it stores. The broker restores once before its loop, stores on a timer and when it ends.

  The members of a context that were never assigned are stored with whatever value is in memory
  (\<open>w_junk\<close>). A hash map is iterated in an order that is an argument (\<open>ord\<close>) where the model has no list for
  it. Buffers that are not registered in the message store are not reclaimed, as in \<open>Session\<close>; the ones
  of the temporary table are, because their destructor changes the store. Lines of the statistics file
  are not kept.
\<close>

subsection \<open>Members in the file\<close>

definition pack_mem_store :: "cmsg_mem_store \<Rightarrow> bytes option" where
  "pack_mem_store s = define_array_pack [Some (pack_imp_uint64 (m_last_msg_id s)), Some (pack_imp_uint32 (m_last_update_time s))]"

definition unpack_mem_store :: "mp_object \<Rightarrow> cmsg_mem_store \<Rightarrow> cmsg_mem_store option" where
  "unpack_mem_store = define_array_unpack
     [\<lambda>o0 s. map_option (\<lambda>v. s\<lparr>m_last_msg_id := v\<rparr>) (convert_unsigned o0),
      \<lambda>o0 s. map_option (\<lambda>v. s\<lparr>m_last_update_time := v\<rparr>) (convert_unsigned o0)]"

definition pack_mbuf :: "cmbuf \<Rightarrow> bytes option" where
  "pack_mbuf b = define_array_pack
     [pack_raw (m_data b) (m_data_size b), Some (pack_imp_uint32 (m_mbuf_msg_type b)), Some (pack_imp_uint32 (m_read_pos b)),
      Some (pack_imp_uint32 (m_write_pos b)), Some (pack_imp_uint64 (m_mbuf_msg_id b)), Some (pack_imp_uint32 (m_time b))]"

text \<open>The temporary object a buffer is read into. Its numbers have no initial value.\<close>

record cmbuf_tmp =
  t_data :: bytes
  t_msg_type :: "u32 option"
  t_read_pos :: "u32 option"
  t_write_pos :: "u32 option"
  t_msg_id :: "u64 option"
  t_time :: "u32 option"

definition CMbuf_tmp :: cmbuf_tmp where
  "CMbuf_tmp = \<lparr>t_data = [], t_msg_type = None, t_read_pos = None, t_write_pos = None, t_msg_id = None, t_time = None\<rparr>"

definition unpack_mbuf_tmp :: "mp_object \<Rightarrow> cmbuf_tmp \<Rightarrow> cmbuf_tmp option" where
  "unpack_mbuf_tmp = define_array_unpack
     [\<lambda>o0 t. map_option (\<lambda>v. t\<lparr>t_data := v\<rparr>) (convert_raw o0),
      \<lambda>o0 t. map_option (\<lambda>v. t\<lparr>t_msg_type := Some v\<rparr>) (convert_unsigned o0),
      \<lambda>o0 t. map_option (\<lambda>v. t\<lparr>t_read_pos := Some v\<rparr>) (convert_unsigned o0),
      \<lambda>o0 t. map_option (\<lambda>v. t\<lparr>t_write_pos := Some v\<rparr>) (convert_unsigned o0),
      \<lambda>o0 t. map_option (\<lambda>v. t\<lparr>t_msg_id := Some v\<rparr>) (convert_unsigned o0),
      \<lambda>o0 t. map_option (\<lambda>v. t\<lparr>t_time := Some v\<rparr>) (convert_unsigned o0)]"

definition pack_topic :: "ctopic \<Rightarrow> bytes option" where
  "pack_topic t = define_array_pack [pack_string (m_topic_name t), Some (pack_imp_uint8 (m_topic_qos t))]"

definition unpack_topic :: "mp_object \<Rightarrow> ctopic \<Rightarrow> ctopic option" where
  "unpack_topic = define_array_unpack
     [\<lambda>o0 t. map_option (\<lambda>v. t\<lparr>m_topic_name := v\<rparr>) (convert_string o0),
      \<lambda>o0 t. map_option (\<lambda>v. t\<lparr>m_topic_qos := v\<rparr>) (convert_unsigned o0)]"

definition stored_word :: "u8 \<Rightarrow> 'a :: len word option \<Rightarrow> 'a word" where
  "stored_word junk v = (case v of None \<Rightarrow> ucast junk | Some x \<Rightarrow> x)"

definition stored_time :: "u8 \<Rightarrow> int option \<Rightarrow> int" where
  "stored_time junk v = (case v of None \<Rightarrow> uint junk | Some x \<Rightarrow> x)"

definition stored_bool :: "u8 \<Rightarrow> bool option \<Rightarrow> bool" where
  "stored_bool junk v = (case v of None \<Rightarrow> junk \<noteq> 0 | Some x \<Rightarrow> x)"

definition pack_context :: "u8 \<Rightarrow> ctmqtt_client_context \<Rightarrow> bytes option" where
  "pack_context junk x =
     (let time = (\<lambda>f. Some (pack_imp_int64 (of_int (stored_time junk (f x))))) in
      define_array_pack
        [pack_string (ctx_remote_addr x), pack_string (ctx_protocal_name x),
         Some (pack_imp_uint8 (stored_word junk (ctx_protocal_ver x))),
         pack_string (ctx_client_id x), pack_string (ctx_user_name x), pack_string (ctx_user_password x),
         Some (pack_imp_uint16 (stored_word junk (ctx_keep_alive_timer x))),
         Some (pack_imp_uint16 (stored_word junk (ctx_max_inflight_msgs x))),
         time ctx_accept_time, time ctx_connect_time, time ctx_last_pub_time, time ctx_last_msg_time,
         Some (pack_imp_uint64 (stored_word junk (ctx_last_pub_msg_id x))),
         Some (pack_bool (stored_bool junk (ctx_clean_session x))), Some (pack_bool (stored_bool junk (ctx_will_flag x))),
         pack_vector (\<lambda>i. Some (pack_imp_uint64 i)) (ctx_send_msg_ids x), pack_vector pack_topic (ctx_subcribe_topics x)])"

definition unpack_context :: "mp_object \<Rightarrow> ctmqtt_client_context \<Rightarrow> ctmqtt_client_context option" where
  "unpack_context = define_array_unpack
     [\<lambda>o0 x. map_option (\<lambda>v. x\<lparr>ctx_remote_addr := v\<rparr>) (convert_string o0),
      \<lambda>o0 x. map_option (\<lambda>v. x\<lparr>ctx_protocal_name := v\<rparr>) (convert_string o0),
      \<lambda>o0 x. map_option (\<lambda>v. x\<lparr>ctx_protocal_ver := Some v\<rparr>) (convert_unsigned o0),
      \<lambda>o0 x. map_option (\<lambda>v. x\<lparr>ctx_client_id := v\<rparr>) (convert_string o0),
      \<lambda>o0 x. map_option (\<lambda>v. x\<lparr>ctx_user_name := v\<rparr>) (convert_string o0),
      \<lambda>o0 x. map_option (\<lambda>v. x\<lparr>ctx_user_password := v\<rparr>) (convert_string o0),
      \<lambda>o0 x. map_option (\<lambda>v. x\<lparr>ctx_keep_alive_timer := Some v\<rparr>) (convert_unsigned o0),
      \<lambda>o0 x. map_option (\<lambda>v. x\<lparr>ctx_max_inflight_msgs := Some v\<rparr>) (convert_unsigned o0),
      \<lambda>o0 x. map_option (\<lambda>v. x\<lparr>ctx_accept_time := Some v\<rparr>) (convert_long o0),
      \<lambda>o0 x. map_option (\<lambda>v. x\<lparr>ctx_connect_time := Some v\<rparr>) (convert_long o0),
      \<lambda>o0 x. map_option (\<lambda>v. x\<lparr>ctx_last_pub_time := Some v\<rparr>) (convert_long o0),
      \<lambda>o0 x. map_option (\<lambda>v. x\<lparr>ctx_last_msg_time := Some v\<rparr>) (convert_long o0),
      \<lambda>o0 x. map_option (\<lambda>v. x\<lparr>ctx_last_pub_msg_id := Some v\<rparr>) (convert_unsigned o0),
      \<lambda>o0 x. map_option (\<lambda>v. x\<lparr>ctx_clean_session := Some v\<rparr>) (convert_bool o0),
      \<lambda>o0 x. map_option (\<lambda>v. x\<lparr>ctx_will_flag := Some v\<rparr>) (convert_bool o0),
      \<lambda>o0 x. map_option (\<lambda>v. x\<lparr>ctx_send_msg_ids := v\<rparr>) (convert_vector convert_unsigned o0),
      \<lambda>o0 x. map_option (\<lambda>v. x\<lparr>ctx_subcribe_topics := v\<rparr>) (convert_vector (\<lambda>o1. unpack_topic o1 (CTopic [] 0)) o0)]"

subsection \<open>Storing\<close>

abbreviation mem_store :: "persist_world \<Rightarrow> cmsg_mem_store" where
  "mem_store p \<equiv> w_store (m_mem (w_broker p))"

definition store_db_info :: "persist_world \<Rightarrow> (int \<times> persist_world) option" where
  "store_db_info p = do { body \<leftarrow> pack_mem_store (mem_store p); write_chunk 1 body p }"

fun store_msgs :: "addr list \<Rightarrow> persist_world \<Rightarrow> (int \<times> persist_world) option" where
  "store_msgs [] p = Some (0, p)"
| "store_msgs (a # as) p =
     do {
       b \<leftarrow> heap (w_broker p) a;
       body \<leftarrow> pack_mbuf b;
       error_return (write_chunk 2 body p) (store_msgs as)
     }"

definition store_db_msg :: "u64 list \<Rightarrow> persist_world \<Rightarrow> (int \<times> persist_world) option" where
  "store_db_msg ord p = store_msgs (List.map_filter (m_msg_db (mem_store p)) ord) p"

text \<open>A client that has been silent for too long is closed first.\<close>

definition close_idle :: "persist_world \<Rightarrow> ctxid \<Rightarrow> broker \<Rightarrow> broker option" where
  "close_idle p c w =
     do {
       x \<leftarrow> m_contexts w c;
       case ctx_mqtt_connection x of
         None \<Rightarrow> Some w
       | Some h \<Rightarrow> do {
           k \<leftarrow> m_conns w h;
           last_msg_in \<leftarrow> m_last_msg_time k;
           if w_now w - uint last_msg_in > uint (cfg_max_idle_timeout p) then do { (_, w) \<leftarrow> handle_close h w; Some w }
           else Some w
         }
     }"

fun store_clients :: "(cstring \<times> ctxid) list \<Rightarrow> persist_world \<Rightarrow> (int \<times> persist_world) option" where
  "store_clients [] p = Some (0, p)"
| "store_clients ((client_id, c) # cs) p =
     do {
       w \<leftarrow> close_idle p c (w_broker p);
       x \<leftarrow> m_contexts w c;
       clean \<leftarrow> ctx_clean_session x;
       if clean then store_clients cs (p\<lparr>w_broker := w\<rparr>)
       else do {
         w \<leftarrow> prepare_store c w;
         x \<leftarrow> m_contexts w c;
         body \<leftarrow> pack_context (w_junk w) x;
         error_return (write_chunk 3 body (p\<lparr>w_broker := w\<rparr>)) (store_clients cs)
       }
     }"

definition store_client_info :: "persist_world \<Rightarrow> (int \<times> persist_world) option" where
  "store_client_info p = store_clients (m_client_msg (w_broker p)) p"

text \<open>The retained messages, in the order of the topic names (\<^verbatim>\<open>std::map\<close>).\<close>

fun retained_bufs :: "(addr \<rightharpoonup> cmbuf) \<Rightarrow> (cstring \<times> ctopic_node) list \<Rightarrow> (cstring \<times> cmbuf) list option" where
  "retained_bufs h [] = Some []"
| "retained_bufs h ((t, n) # tm) =
     (case m_retian_msg_buf n of
        None \<Rightarrow> retained_bufs h tm
      | Some a \<Rightarrow> do {
          b \<leftarrow> h a;
          bs \<leftarrow> retained_bufs h tm;
          Some (if mbuf_length b \<le> 0 then bs else (t, b) # bs)
        })"

definition pack_retained :: "(cstring \<times> cmbuf) list \<Rightarrow> bytes option" where
  "pack_retained tbs =
     do {
       kvs \<leftarrow> those (map (\<lambda>(t, b). do { k \<leftarrow> pack_string t; v \<leftarrow> pack_mbuf b; Some (k @ v) }) tbs);
       Some (pack_map (of_nat (length tbs)) @ concat kvs)
     }"

definition store_retain_msg :: "persist_world \<Rightarrow> (int \<times> persist_world) option" where
  "store_retain_msg p =
     do {
       tbs \<leftarrow> retained_bufs (heap (w_broker p)) (m_topic_mgr (w_broker p));
       if tbs = [] then Some (0, p)
       else do { body \<leftarrow> pack_retained (sort_key fst tbs); write_chunk 4 body p }
     }"

definition store_file :: "u64 list \<Rightarrow> persist_world \<Rightarrow> (int \<times> persist_world) option" where
  "store_file ord p =
     (let (r, p) = open_wb p in
      if r = -1 then Some (-1, p)
      else
        error_return (store_db_info p) (\<lambda>p.
        error_return (store_db_msg ord p) (\<lambda>p.
        error_return (store_client_info p) (\<lambda>p.
        error_return (store_retain_msg p) (\<lambda>p. Some (0, persist_close p))))))"

definition store :: "u64 list \<Rightarrow> bool \<Rightarrow> persist_world \<Rightarrow> (int \<times> persist_world) option" where
  "store ord force_flush p =
     (let w = w_broker p;
          p = p\<lparr>w_broker := w\<lparr>m_msg_stats := snd (stat_flush (w_now w) (m_msg_stats w))\<rparr>\<rparr>;
          db_update_time = m_last_update_time (mem_store p)
      in if \<not> force_flush \<and> db_update_time \<le> last_db_update_time p then Some (0, p)
         else store_file ord (if force_flush then p else p\<lparr>last_db_update_time := db_update_time\<rparr>))"

subsection \<open>Restoring\<close>

definition restore_db_info :: "bytes \<Rightarrow> persist_world \<Rightarrow> (int \<times> persist_world) option" where
  "restore_db_info buf p =
     do {
       o0 \<leftarrow> unpack buf;
       s \<leftarrow> unpack_mem_store o0 (mem_store p);
       let w = w_broker p;
       Some (0, p\<lparr>w_broker := w\<lparr>m_mem := (m_mem w)\<lparr>w_store := s\<rparr>\<rparr>\<rparr>)
     }"

definition restore_mbuf :: "mp_object \<Rightarrow> broker \<Rightarrow> (addr \<times> broker) option" where
  "restore_mbuf o0 w =
     do {
       tmp \<leftarrow> unpack_mbuf_tmp o0 CMbuf_tmp;
       write_pos \<leftarrow> t_write_pos tmp;
       read_pos \<leftarrow> t_read_pos tmp;
       msg_id \<leftarrow> t_msg_id tmp;
       let buf_len = to_int (write_pos - read_pos);
       let (a, w) = make_mbuf (of_int buf_len) w;
       (_, w) \<leftarrow> mbuf_call a (mbuf_copy (drop (unat read_pos) (t_data tmp)) buf_len) (upd_mbuf a (set_msg_id msg_id) w);
       Some (a, w)
     }"

definition restore_db_msg :: "bytes \<Rightarrow> persist_world \<Rightarrow> (int \<times> persist_world) option" where
  "restore_db_msg buf p =
     do {
       o0 \<leftarrow> unpack buf;
       (a, w) \<leftarrow> restore_mbuf o0 (w_broker p);
       b \<leftarrow> heap w a;
       let msg_id = m_mbuf_msg_id b;
       if msg_id \<noteq> 0 then do {
         mem \<leftarrow> regist_mem_store (of_int (w_now w)) True a (m_mem w);
         p \<leftarrow> tmp_put msg_id a (p\<lparr>w_broker := w\<lparr>m_mem := mem\<rparr>\<rparr>);
         Some (0, p)
       } else Some (0, p\<lparr>w_broker := w\<rparr>)
     }"

fun restore_topics :: "ctopic list \<Rightarrow> ctxid \<Rightarrow> broker \<Rightarrow> broker option" where
  "restore_topics [] c w = Some w"
| "restore_topics (t # ts) c w = do { (_, w) \<leftarrow> add_client_context handle_close (m_topic_name t) c w; restore_topics ts c w }"

fun restore_queue :: "(u64 \<rightharpoonup> addr) \<Rightarrow> u64 list \<Rightarrow> ctxid \<Rightarrow> broker \<Rightarrow> broker" where
  "restore_queue tmp [] c w = w"
| "restore_queue tmp (i # is) c w =
     (case tmp i of None \<Rightarrow> restore_queue tmp is c w | Some a \<Rightarrow> restore_queue tmp is c (upd_ctx c (add_send_msg a) w))"

definition restore_client_info :: "bytes \<Rightarrow> persist_world \<Rightarrow> (int \<times> persist_world) option" where
  "restore_client_info buf p =
     do {
       o0 \<leftarrow> unpack buf;
       let (c, w) = make_context None (w_broker p);
       x \<leftarrow> m_contexts w c;
       x \<leftarrow> unpack_context o0 x;
       let w = upd_ctx c (\<lambda>_. x) w;
       let (_, w) = add_client_id (ctx_client_id x) c w;
       w \<leftarrow> restore_topics (ctx_subcribe_topics x) c w;
       Some (0, p\<lparr>w_broker := restore_queue (map_of (m_tmp_msg_db p)) (ctx_send_msg_ids x) c w\<rparr>)
     }"

fun restore_retains :: "(mp_object \<times> mp_object) list \<Rightarrow> broker \<Rightarrow> broker option" where
  "restore_retains [] w = Some w"
| "restore_retains ((pk, pv) # kvs) w =
     do {
       t \<leftarrow> convert_string pk;
       (a, w) \<leftarrow> restore_mbuf pv w;
       restore_retains kvs (case map_of (m_topic_mgr w) t of None \<Rightarrow> w | Some n \<Rightarrow> set_topic t (update_retain_msg a n) w)
     }"

text \<open>The object is taken for a map without a look at its type.\<close>

definition restore_retain_msg :: "bytes \<Rightarrow> persist_world \<Rightarrow> (int \<times> persist_world) option" where
  "restore_retain_msg buf p =
     do {
       o0 \<leftarrow> unpack buf;
       case o0 of
         mp_MAP kvs \<Rightarrow> do { w \<leftarrow> restore_retains kvs (w_broker p); Some (0, p\<lparr>w_broker := w\<rparr>) }
       | _ \<Rightarrow> None
     }"

definition restore_chunk :: chunk_handler where
  "restore_chunk chunk_type chunk_len buf p =
     (if chunk_type = 1 then restore_db_info (take chunk_len buf) p
      else if chunk_type = 2 then restore_db_msg (take chunk_len buf) p
      else if chunk_type = 3 then restore_client_info (take chunk_len buf) p
      else if chunk_type = 4 then restore_retain_msg (take chunk_len buf) p
      else Some (-1, p))"

definition restore :: "persist_world \<Rightarrow> (int \<times> persist_world) option" where
  "restore = restore_with restore_chunk"

subsection \<open>What is stored is read back\<close>

lemma packs_array_some:
  assumes "define_array_pack ms = Some body" "list_all2 (\<lambda>m ob. m \<noteq> None \<longrightarrow> packs m ob) ms os" "length ms \<le> 0xFFFFFFFF"
  shows "packs (Some body) (mp_ARRAY os)"
proof -
  have "those ms \<noteq> None" using assms(1) by (auto simp: define_array_pack_def split: bind_splits)
  then have "\<forall>m \<in> set ms. m \<noteq> None" by (induction ms) (auto split: option.splits)
  then have "list_all2 packs ms os" using assms(2) by (auto simp: list_all2_conv_all_nth)
  then show ?thesis using packs_define_array assms(1,3) by fastforce
qed

lemma packs_string_some: "pack_string v \<noteq> None \<longrightarrow> packs (pack_string v) (mp_STR v)"
  by (cases "length v \<le> 0xFFFFFFFF") (auto simp: packs_string, simp add: pack_string_def checked_get_container_size_def)

lemma packs_vector_some:
  assumes "\<And>y. y \<in> set v \<Longrightarrow> f y \<noteq> None \<longrightarrow> packs (f y) (g y)"
  shows "pack_vector f v \<noteq> None \<longrightarrow> packs (pack_vector f v) (mp_ARRAY (map g v))"
proof
  assume s: "pack_vector f v \<noteq> None"
  then have "those (map f v) \<noteq> None" "length v \<le> 0xFFFFFFFF"
    by (auto simp: pack_vector_def checked_get_container_size_def split: if_splits bind_splits)
  moreover from this(1) have "\<forall>y \<in> set v. f y \<noteq> None" by (induction v) (auto split: option.splits)
  ultimately show "packs (pack_vector f v) (mp_ARRAY (map g v))"
    using assms by (intro packs_vector) (auto simp: list_all2_map1 list_all2_map2 list_all2_same)
qed

definition mem_store_object :: "cmsg_mem_store \<Rightarrow> mp_object" where
  "mem_store_object s = mp_ARRAY [mp_POSITIVE_INTEGER (m_last_msg_id s), mp_POSITIVE_INTEGER (ucast (m_last_update_time s))]"

definition mbuf_object :: "cmbuf \<Rightarrow> mp_object" where
  "mbuf_object b = mp_ARRAY [mp_BIN (m_data b), mp_POSITIVE_INTEGER (ucast (m_mbuf_msg_type b)), mp_POSITIVE_INTEGER (ucast (m_read_pos b)),
     mp_POSITIVE_INTEGER (ucast (m_write_pos b)), mp_POSITIVE_INTEGER (m_mbuf_msg_id b), mp_POSITIVE_INTEGER (ucast (m_time b))]"

definition topic_object :: "ctopic \<Rightarrow> mp_object" where
  "topic_object t = mp_ARRAY [mp_STR (m_topic_name t), mp_POSITIVE_INTEGER (ucast (m_topic_qos t))]"

definition context_object :: "u8 \<Rightarrow> ctmqtt_client_context \<Rightarrow> mp_object" where
  "context_object junk x =
     (let time = (\<lambda>f. int_object (of_int (stored_time junk (f x)))) in
      mp_ARRAY
        [mp_STR (ctx_remote_addr x), mp_STR (ctx_protocal_name x),
         mp_POSITIVE_INTEGER (ucast (stored_word junk (ctx_protocal_ver x))),
         mp_STR (ctx_client_id x), mp_STR (ctx_user_name x), mp_STR (ctx_user_password x),
         mp_POSITIVE_INTEGER (ucast (stored_word junk (ctx_keep_alive_timer x))),
         mp_POSITIVE_INTEGER (ucast (stored_word junk (ctx_max_inflight_msgs x))),
         time ctx_accept_time, time ctx_connect_time, time ctx_last_pub_time, time ctx_last_msg_time,
         mp_POSITIVE_INTEGER (stored_word junk (ctx_last_pub_msg_id x)),
         mp_BOOLEAN (stored_bool junk (ctx_clean_session x)), mp_BOOLEAN (stored_bool junk (ctx_will_flag x)),
         mp_ARRAY (map mp_POSITIVE_INTEGER (ctx_send_msg_ids x)), mp_ARRAY (map topic_object (ctx_subcribe_topics x))])"

lemma packs_mem_store: "packs (pack_mem_store s) (mem_store_object s)"
  unfolding pack_mem_store_def mem_store_object_def by (rule packs_define_array) (simp_all add: packs_simple)

lemma packs_mbuf: "mbuf_wf b \<Longrightarrow> packs (pack_mbuf b) (mbuf_object b)"
  unfolding pack_mbuf_def mbuf_object_def by (rule packs_define_array) (simp_all add: packs_simple packs_raw mbuf_wf_def)

lemma packs_topic_some: "pack_topic t \<noteq> None \<longrightarrow> packs (pack_topic t) (topic_object t)"
proof
  assume "pack_topic t \<noteq> None"
  then obtain body where b: "pack_topic t = Some body" by auto
  have "packs (Some body) (topic_object t)"
    using b unfolding pack_topic_def topic_object_def
    by (rule packs_array_some) (use packs_string_some in \<open>simp_all add: packs_simple\<close>)
  then show "packs (pack_topic t) (topic_object t)" using b by simp
qed

lemma packs_context:
  assumes "pack_context junk x = Some body"
  shows "packs (Some body) (context_object junk x)"
  using assms unfolding pack_context_def context_object_def Let_def
  by (rule packs_array_some)
    (use packs_string_some packs_vector_some [of _ pack_topic topic_object] packs_topic_some
      packs_vector_some [of _ "\<lambda>i. Some (pack_imp_uint64 i)" mp_POSITIVE_INTEGER] in \<open>simp_all add: packs_simple\<close>)

text \<open>The context that comes back: what is stored, with no connection and an empty queue.\<close>

definition restored_context :: "u8 \<Rightarrow> ctmqtt_client_context \<Rightarrow> ctmqtt_client_context" where
  "restored_context junk x =
     (CTMqttClientContext None)\<lparr>ctx_remote_addr := ctx_remote_addr x, ctx_protocal_name := ctx_protocal_name x,
       ctx_protocal_ver := Some (stored_word junk (ctx_protocal_ver x)), ctx_client_id := ctx_client_id x,
       ctx_user_name := ctx_user_name x, ctx_user_password := ctx_user_password x,
       ctx_keep_alive_timer := Some (stored_word junk (ctx_keep_alive_timer x)),
       ctx_max_inflight_msgs := Some (stored_word junk (ctx_max_inflight_msgs x)),
       ctx_accept_time := Some (stored_time junk (ctx_accept_time x)), ctx_connect_time := Some (stored_time junk (ctx_connect_time x)),
       ctx_last_pub_time := Some (stored_time junk (ctx_last_pub_time x)), ctx_last_msg_time := Some (stored_time junk (ctx_last_msg_time x)),
       ctx_last_pub_msg_id := Some (stored_word junk (ctx_last_pub_msg_id x)),
       ctx_clean_session := Some (stored_bool junk (ctx_clean_session x)), ctx_will_flag := Some (stored_bool junk (ctx_will_flag x)),
       ctx_send_msg_ids := ctx_send_msg_ids x, ctx_subcribe_topics := ctx_subcribe_topics x\<rparr>"

definition times_ok :: "ctmqtt_client_context \<Rightarrow> bool" where
  "times_ok x \<longleftrightarrow> list_all (\<lambda>t. case t of None \<Rightarrow> True | Some i \<Rightarrow> - (2 ^ 63) \<le> i \<and> i < 2 ^ 63)
     [ctx_accept_time x, ctx_connect_time x, ctx_last_pub_time x, ctx_last_msg_time x]"

lemma stored_time_range:
  assumes "case t of None \<Rightarrow> True | Some i \<Rightarrow> - (2 ^ 63) \<le> i \<and> i < 2 ^ 63"
  shows "- (2 ^ 63) \<le> stored_time junk t" "stored_time junk t < 2 ^ 63"
  using assms unsigned_less [of junk, where ?'a = int] by (auto simp: stored_time_def split: option.splits intro: order_trans [OF _ unsigned_greater_eq])

lemma unpack_topic_object: "unpack_topic (topic_object t) t0 = Some t"
  by (simp add: unpack_topic_def topic_object_def)

lemma those_map_Some: "(\<And>y. y \<in> set ys \<Longrightarrow> f (g y) = Some y) \<Longrightarrow> those (map f (map g ys)) = Some ys"
  by (induction ys) auto

lemma unpack_context_object:
  assumes "times_ok x"
  shows "unpack_context (context_object junk x) (CTMqttClientContext None) = Some (restored_context junk x)"
proof -
  have t: "convert_long (int_object (of_int (stored_time junk t))) = Some (stored_time junk t)"
    if "t \<in> {ctx_accept_time x, ctx_connect_time x, ctx_last_pub_time x, ctx_last_msg_time x}" for t
    using assms that stored_time_range [of t junk] by (intro convert_long_object) (auto simp: times_ok_def)
  have "those (map (\<lambda>o1. unpack_topic o1 (CTopic [] 0)) (map topic_object (ctx_subcribe_topics x))) = Some (ctx_subcribe_topics x)"
    "those (map convert_unsigned (map mp_POSITIVE_INTEGER (ctx_send_msg_ids x))) = Some (ctx_send_msg_ids x)"
    by (intro those_map_Some; simp add: unpack_topic_object)+
  then show ?thesis
    by (simp add: unpack_context_def context_object_def Let_def t restored_context_def)
qed

subsection \<open>Reading back one chunk\<close>

text \<open>The buffer that comes back: the unread bytes of the one that was stored, and its id.\<close>

definition restored_mbuf :: "int \<Rightarrow> cmbuf \<Rightarrow> cmbuf" where
  "restored_mbuf now b =
     \<lparr>m_data = mbuf_contents b, m_data_size = of_nat (length (mbuf_contents b)), m_mbuf_msg_type = MSG_DATA, m_read_pos = 0,
      m_write_pos = of_nat (length (mbuf_contents b)), m_mbuf_msg_id = m_mbuf_msg_id b, m_time = of_int now, m_mem_db = False\<rparr>"

definition add_buf :: "cmbuf \<Rightarrow> broker \<Rightarrow> broker" where
  "add_buf b w = w\<lparr>m_mem := (m_mem w)\<lparr>w_heap := (w_heap (m_mem w))(w_next_addr w \<mapsto> b)\<rparr>, w_next_addr := Suc (w_next_addr w)\<rparr>"

lemma wf_contents_less: "mbuf_wf b \<Longrightarrow> length (mbuf_contents b) < 2147483648"
  using length_mbuf_contents [of b] by (auto simp: mbuf_wf_def mbuf_word)

lemma unpack_mbuf_object:
  "unpack_mbuf_tmp (mbuf_object b) CMbuf_tmp =
     Some \<lparr>t_data = m_data b, t_msg_type = Some (m_mbuf_msg_type b), t_read_pos = Some (m_read_pos b), t_write_pos = Some (m_write_pos b),
           t_msg_id = Some (m_mbuf_msg_id b), t_time = Some (m_time b)\<rparr>"
  by (simp add: unpack_mbuf_tmp_def mbuf_object_def CMbuf_tmp_def)

lemma restore_mbuf_object:
  assumes "mbuf_wf b"
  shows "restore_mbuf (mbuf_object b) w = Some (w_next_addr w, add_buf (restored_mbuf (w_now w) b) w)"
proof -
  let ?n = "length (mbuf_contents b)"
  have n: "?n < 2147483648" "unat (m_write_pos b - m_read_pos b) = ?n"
    using wf_contents_less [OF assms] mbuf_length_contents [OF assms] by (simp_all add: mbuf_length_def)
  then have len: "to_int (m_write_pos b - m_read_pos b) = int ?n" by (simp add: to_int_small)
  have c: "take ?n (drop (unat (m_read_pos b)) (m_data b)) = mbuf_contents b"
    by (simp add: length_mbuf_contents [OF assms]) (simp add: mbuf_contents_def)
  have l: "?n \<le> length (m_data b) - unat (m_read_pos b)" using length_mbuf_contents [OF assms] assms by (auto simp: mbuf_wf_def mbuf_word)
  have "mbuf_copy (drop (unat (m_read_pos b)) (m_data b)) (int ?n) (set_msg_id (m_mbuf_msg_id b) (CMbuf (replicate ?n (w_junk w)) (of_int (w_now w)))) =
      Some (0, restored_mbuf (w_now w) b)"
    using n(1) c l by (simp add: mbuf_copy_def set_msg_id_def CMbuf_def mem_read_def mem_copy_def restored_mbuf_def)
  then show ?thesis
    using n(1) by (simp add: restore_mbuf_def unpack_mbuf_object len make_mbuf_def mbuf_call_def heap_def upd_mbuf_def add_buf_def Let_def)
qed

text \<open>A context without a connection is entered for its topics and nothing is sent.\<close>

definition subscribe_all :: "cstring list \<Rightarrow> ctxid \<Rightarrow> broker \<Rightarrow> broker" where
  "subscribe_all ts c = fold (\<lambda>t w. set_topic t (snd (node_add_client c (case map_of (m_topic_mgr w) t of None \<Rightarrow> CTopicNode | Some n \<Rightarrow> n))) w) ts"

lemma restore_topics_all:
  "m_contexts w c = Some x \<Longrightarrow> ctx_mqtt_connection x = None \<Longrightarrow>
     restore_topics ts c w = Some (subscribe_all (map m_topic_name ts) c w)"
proof (induction ts arbitrary: w)
  case (Cons t ts)
  then show ?case by (auto simp: add_client_context_def subscribe_all_def Let_def split: option.splits)
qed (simp add: subscribe_all_def)

definition apply_client :: "u8 \<Rightarrow> ctmqtt_client_context \<Rightarrow> persist_world \<Rightarrow> persist_world" where
  "apply_client junk x p =
     (let w = w_broker p; c = w_next_ctx w;
          w = w\<lparr>w_next_ctx := Suc c, m_contexts := (m_contexts w)(c \<mapsto> restored_context junk x)\<rparr>;
          w = subscribe_all (map m_topic_name (ctx_subcribe_topics x)) c (snd (add_client_id (ctx_client_id x) c w))
      in p\<lparr>w_broker := restore_queue (map_of (m_tmp_msg_db p)) (ctx_send_msg_ids x) c w\<rparr>)"

definition apply_msg :: "cmbuf \<Rightarrow> persist_world \<Rightarrow> persist_world" where
  "apply_msg b p =
     (let w = w_broker p; a = w_next_addr w; i = m_mbuf_msg_id b in
      if i = 0 then p\<lparr>w_broker := add_buf (restored_mbuf (w_now w) b) w\<rparr>
      else
        let w' = add_buf ((restored_mbuf (w_now w) b)\<lparr>m_mem_db := True\<rparr>) w in
        p\<lparr>w_broker := w'\<lparr>m_mem := (m_mem w')\<lparr>w_store := add_msg (of_int (w_now w)) i (Some a) (w_store (m_mem w'))\<rparr>\<rparr>,
          m_tmp_msg_db := AList.update i a (m_tmp_msg_db p)\<rparr>)"

definition apply_retain :: "cstring \<Rightarrow> cmbuf \<Rightarrow> broker \<Rightarrow> broker" where
  "apply_retain t b w =
     (let a = w_next_addr w; w = add_buf (restored_mbuf (w_now w) b) w in
      case map_of (m_topic_mgr w) t of None \<Rightarrow> w | Some n \<Rightarrow> set_topic t (update_retain_msg a n) w)"

definition apply_info :: "cmsg_mem_store \<Rightarrow> persist_world \<Rightarrow> persist_world" where
  "apply_info s p =
     (let w = w_broker p in
      p\<lparr>w_broker := w\<lparr>m_mem := (m_mem w)\<lparr>w_store := (w_store (m_mem w))\<lparr>m_last_msg_id := m_last_msg_id s, m_last_update_time := m_last_update_time s\<rparr>\<rparr>\<rparr>\<rparr>)"

datatype saved =
    Saved_info cmsg_mem_store
  | Saved_msg cmbuf
  | Saved_client u8 ctmqtt_client_context
  | Saved_retain "(cstring \<times> cmbuf) list"

definition retain_object :: "(cstring \<times> cmbuf) list \<Rightarrow> mp_object" where
  "retain_object tbs = mp_MAP (map (\<lambda>(t, b). (mp_STR t, mbuf_object b)) tbs)"

fun saved_object :: "saved \<Rightarrow> mp_object" where
  "saved_object (Saved_info s) = mem_store_object s"
| "saved_object (Saved_msg b) = mbuf_object b"
| "saved_object (Saved_client junk x) = context_object junk x"
| "saved_object (Saved_retain tbs) = retain_object tbs"

fun saved_type :: "saved \<Rightarrow> u8" where
  "saved_type (Saved_info s) = 1"
| "saved_type (Saved_msg b) = 2"
| "saved_type (Saved_client junk x) = 3"
| "saved_type (Saved_retain tbs) = 4"

definition saved_body :: "saved \<Rightarrow> bytes" where
  "saved_body it = mp_bytes (saved_object it)"

fun saved_valid :: "saved \<Rightarrow> persist_world \<Rightarrow> bool" where
  "saved_valid (Saved_info s) p = True"
| "saved_valid (Saved_msg b) p = (mbuf_wf b \<and> map_of (m_tmp_msg_db p) (m_mbuf_msg_id b) = None)"
| "saved_valid (Saved_client junk x) p = times_ok x"
| "saved_valid (Saved_retain tbs) p = (\<forall>(t, b) \<in> set tbs. mbuf_wf b)"

definition saved_ok :: "saved \<Rightarrow> persist_world \<Rightarrow> bool" where
  "saved_ok it p \<longleftrightarrow> saved_valid it p \<and> mp_ok (saved_object it) \<and> length (saved_body it) \<le> 1048576"

fun apply_saved :: "saved \<Rightarrow> persist_world \<Rightarrow> persist_world" where
  "apply_saved (Saved_info s) p = apply_info s p"
| "apply_saved (Saved_msg b) p = apply_msg b p"
| "apply_saved (Saved_client junk x) p = apply_client junk x p"
| "apply_saved (Saved_retain tbs) p = p\<lparr>w_broker := fold (\<lambda>(t, b). apply_retain t b) tbs (w_broker p)\<rparr>"

lemma restore_retains_all:
  "\<forall>(t, b) \<in> set tbs. mbuf_wf b \<Longrightarrow>
     restore_retains (map (\<lambda>(t, b). (mp_STR t, mbuf_object b)) tbs) w = Some (fold (\<lambda>(t, b). apply_retain t b) tbs w)"
  by (induction tbs arbitrary: w) (auto simp: restore_mbuf_object apply_retain_def Let_def)

lemma unpack_saved [simp]: "saved_ok it p \<Longrightarrow> unpack (saved_body it) = Some (saved_object it)"
  using unpack_bytes [of "saved_object it" "[]"] by (simp add: saved_ok_def saved_body_def)

lemma restore_client_saved:
  assumes "saved_ok (Saved_client junk x) p"
  shows "restore_client_info (saved_body (Saved_client junk x)) p = Some (0, apply_client junk x p)"
proof -
  let ?w = "w_broker p" let ?c = "w_next_ctx ?w" let ?x = "restored_context junk x"
  let ?w1 = "?w\<lparr>w_next_ctx := Suc ?c, m_contexts := (m_contexts ?w)(?c \<mapsto> ?x)\<rparr>"
  have u: "unpack_context (context_object junk x) (CTMqttClientContext None) = Some ?x"
    using assms by (intro unpack_context_object) (simp add: saved_ok_def)
  have x: "ctx_subcribe_topics ?x = ctx_subcribe_topics x" "ctx_client_id ?x = ctx_client_id x" "ctx_send_msg_ids ?x = ctx_send_msg_ids x"
    "ctx_mqtt_connection ?x = None" by (simp_all add: restored_context_def CTMqttClientContext_def)
  have "m_contexts (snd (add_client_id i ?c ?w1)) ?c = Some ?x" for i by (simp add: add_client_id_def split: option.split)
  then have "restore_topics ts ?c (snd (add_client_id i ?c ?w1)) = Some (subscribe_all (map m_topic_name ts) ?c (snd (add_client_id i ?c ?w1)))" for i ts
    using x(4) by (rule restore_topics_all)
  then show ?thesis
    using assms u x by (simp add: restore_client_info_def make_context_def upd_ctx_def apply_client_def Let_def split_def)
qed

lemma restore_msg_saved:
  assumes "saved_ok (Saved_msg b) p"
  shows "restore_db_msg (saved_body (Saved_msg b)) p = Some (0, apply_msg b p)"
proof -
  have b: "mbuf_wf b" "map_of (m_tmp_msg_db p) (m_mbuf_msg_id b) = None" using assms by (simp_all add: saved_ok_def)
  show ?thesis
    using assms restore_mbuf_object [OF b(1)] b(2)
    by (simp add: restore_db_msg_def add_buf_def heap_def restored_mbuf_def apply_msg_def regist_mem_store_def tmp_put_def Let_def)
qed

lemma restore_chunk_saved:
  assumes "saved_ok it p"
  shows "restore_chunk (saved_type it) (length (saved_body it)) (saved_body it @ old) p = Some (0, apply_saved it p)"
proof (cases it)
  case (Saved_info s)
  then show ?thesis using assms by (simp add: restore_chunk_def restore_db_info_def unpack_mem_store_def mem_store_object_def apply_info_def Let_def)
next
  case (Saved_msg b)
  then show ?thesis using assms restore_msg_saved by (simp add: restore_chunk_def)
next
  case (Saved_client junk x)
  then show ?thesis using assms restore_client_saved by (simp add: restore_chunk_def)
next
  case (Saved_retain tbs)
  then show ?thesis using assms restore_retains_all [of tbs]
    by (simp add: restore_chunk_def restore_retain_msg_def retain_object_def saved_ok_def)
qed

interpretation packed: chunk_reader restore_chunk saved_type saved_body saved_ok apply_saved
proof
  show "saved_ok it p \<Longrightarrow> restore_chunk (saved_type it) (length (saved_body it)) (saved_body it @ old) p = Some (0, apply_saved it p)" for it p old
    by (rule restore_chunk_saved)
  show "saved_ok it p \<Longrightarrow> length (saved_body it) \<le> 1048576" for it p by (simp add: saved_ok_def)
  show "saved_ok it p \<Longrightarrow> saved_ok it (p\<lparr>w_chunk_buf := buf\<rparr>)" for it p buf by (cases it) (simp_all add: saved_ok_def)
  show "apply_saved it (p\<lparr>w_chunk_buf := buf\<rparr>) = (apply_saved it p)\<lparr>w_chunk_buf := buf\<rparr>" for it p buf
    by (cases it) (simp_all add: apply_info_def apply_msg_def apply_client_def Let_def)
qed

subsection \<open>The file that is written\<close>

text \<open>
  What a broker saves, as a list of items: the last message id, the registered messages in the order of
  the hash map, the sessions that are not clean, with the ids of their queues, and the retained messages.
\<close>

definition stored_context :: "broker \<Rightarrow> ctmqtt_client_context \<Rightarrow> ctmqtt_client_context" where
  "stored_context w x = x\<lparr>ctx_send_msg_ids := map (\<lambda>a. m_mbuf_msg_id (the (heap w a))) (ctx_send_msg_queue x)\<rparr>"

definition persistent :: "broker \<Rightarrow> cstring \<times> ctxid \<Rightarrow> bool" where
  "persistent w ic \<longleftrightarrow> ctx_clean_session (the (m_contexts w (snd ic))) = Some False"

definition saved_client :: "broker \<Rightarrow> cstring \<times> ctxid \<Rightarrow> saved" where
  "saved_client w ic = Saved_client (w_junk w) (stored_context w (the (m_contexts w (snd ic))))"

definition saved_msgs :: "u64 list \<Rightarrow> broker \<Rightarrow> cmbuf list" where
  "saved_msgs ord w = map (\<lambda>a. the (heap w a)) (List.map_filter (m_msg_db (w_store (m_mem w))) ord)"

definition saved_retained :: "broker \<Rightarrow> saved list" where
  "saved_retained w =
     (let tbs = the (retained_bufs (heap w) (m_topic_mgr w)) in if tbs = [] then [] else [Saved_retain (sort_key fst tbs)])"

definition snapshot :: "u64 list \<Rightarrow> broker \<Rightarrow> saved list" where
  "snapshot ord w = Saved_info (w_store (m_mem w)) # map Saved_msg (saved_msgs ord w) @
     map (saved_client w) (filter (persistent w) (m_client_msg w)) @ saved_retained w"

definition db_image :: "saved list \<Rightarrow> bytes" where
  "db_image its = concat (map (\<lambda>it. chunk (saved_type it) (saved_body it)) its)"

text \<open>A broker whose state can be stored: pointers are live, buffers are well-formed, no client is idle for
  too long, no name is longer than 32 bits can say, and no chunk has more than the megabyte that can be
  read back.\<close>

definition not_idle :: "persist_world \<Rightarrow> broker \<Rightarrow> ctmqtt_client_context \<Rightarrow> bool" where
  "not_idle p w x \<longleftrightarrow>
     (case ctx_mqtt_connection x of
        None \<Rightarrow> True
      | Some h \<Rightarrow> (case Option.bind (m_conns w h) m_last_msg_time of
          None \<Rightarrow> False
        | Some t \<Rightarrow> w_now w - uint t \<le> uint (cfg_max_idle_timeout p)))"

definition storable_client :: "persist_world \<Rightarrow> broker \<Rightarrow> cstring \<times> ctxid \<Rightarrow> bool" where
  "storable_client p w ic \<longleftrightarrow>
     (case m_contexts w (snd ic) of
        None \<Rightarrow> False
      | Some x \<Rightarrow> not_idle p w x \<and> ctx_clean_session x \<noteq> None \<and> list_all (\<lambda>a. heap w a \<noteq> None) (ctx_send_msg_queue x) \<and>
          (ctx_clean_session x = Some False \<longrightarrow> pack_context (w_junk w) (stored_context w x) \<noteq> None))"

definition storable :: "u64 list \<Rightarrow> persist_world \<Rightarrow> bool" where
  "storable ord p \<longleftrightarrow>
     (let w = w_broker p in
      list_all (\<lambda>a. case heap w a of None \<Rightarrow> False | Some b \<Rightarrow> mbuf_wf b) (List.map_filter (m_msg_db (w_store (m_mem w))) ord) \<and>
      list_all (storable_client p w) (m_client_msg w) \<and>
      (case retained_bufs (heap w) (m_topic_mgr w) of
         None \<Rightarrow> False
       | Some tbs \<Rightarrow> list_all (mbuf_wf \<circ> snd) tbs \<and> list_all (\<lambda>tb. pack_string (fst tb) \<noteq> None) tbs \<and> length tbs \<le> 0xFFFFFFFF) \<and>
      list_all (\<lambda>it. length (saved_body it) \<le> 1048576) (snapshot ord w))"

lemma db_image_Nil [simp]: "db_image [] = []"
  by (simp add: db_image_def)

lemma db_image_Cons: "db_image (it # its) = chunk (saved_type it) (saved_body it) @ db_image its"
  by (simp add: db_image_def)

lemma db_image_append: "db_image (xs @ ys) = db_image xs @ db_image ys"
  by (simp add: db_image_def)

lemma stores_db_info:
  assumes "at_end p" "w_broker p = w" "length (saved_body (Saved_info (w_store (m_mem w)))) \<le> 1048576"
  shows "stores (\<lambda>w'. w' = w) (chunk 1 (saved_body (Saved_info (w_store (m_mem w))))) p (store_db_info p)"
proof -
  have "pack_mem_store (w_store (m_mem w)) = Some (saved_body (Saved_info (w_store (m_mem w))))"
    using packs_mem_store [of "w_store (m_mem w)"] by (simp add: packs_def saved_body_def)
  then show ?thesis using assms stores_chunk by (simp add: store_db_info_def)
qed

lemma stores_msgs:
  assumes "at_end p" "w_broker p = w"
    and "\<And>a. a \<in> set as \<Longrightarrow> \<exists>b. heap w a = Some b \<and> mbuf_wf b \<and> length (saved_body (Saved_msg b)) \<le> 1048576"
  shows "stores (\<lambda>w'. w' = w) (db_image (map (\<lambda>a. Saved_msg (the (heap w a))) as)) p (store_msgs as p)"
  using assms
proof (induction as arbitrary: p)
  case Nil
  then show ?case by (simp add: stores_return)
next
  case (Cons a as)
  obtain b where b: "heap w a = Some b" "mbuf_wf b" "length (saved_body (Saved_msg b)) \<le> 1048576" using Cons.prems(3) [of a] by auto
  then have pk: "pack_mbuf b = Some (saved_body (Saved_msg b))" using packs_mbuf by (simp add: packs_def saved_body_def)
  have "stores (\<lambda>w'. w' = w) (chunk 2 (saved_body (Saved_msg b)) @ db_image (map (\<lambda>a. Saved_msg (the (heap w a))) as)) p
      (error_return (write_chunk 2 (saved_body (Saved_msg b)) p) (store_msgs as))"
    using b(3) Cons.prems by (intro stores_seq [OF stores_chunk] Cons.IH) auto
  then show ?case using b(1) pk Cons.prems(2) by (simp add: db_image_Cons)
qed

text \<open>While the clients are stored, only the lists of ids in the contexts change.\<close>

definition ids_changed :: "broker \<Rightarrow> broker \<Rightarrow> bool" where
  "ids_changed w w' \<longleftrightarrow> (\<exists>f. w' = w\<lparr>m_contexts := \<lambda>c. map_option (\<lambda>x. x\<lparr>ctx_send_msg_ids := f c x\<rparr>) (m_contexts w c)\<rparr>)"

lemma ids_changed_refl: "ids_changed w w"
proof -
  have "w = w\<lparr>m_contexts := \<lambda>c. map_option (\<lambda>x. x\<lparr>ctx_send_msg_ids := ctx_send_msg_ids x\<rparr>) (m_contexts w c)\<rparr>"
    by (simp add: option.map_ident)
  then show ?thesis unfolding ids_changed_def by (rule exI [of _ "\<lambda>c x. ctx_send_msg_ids x"])
qed

lemma queue_ids_map: "\<forall>a \<in> set q. h a \<noteq> None \<Longrightarrow> queue_ids h q = Some (map (\<lambda>a. m_mbuf_msg_id (the (h a))) q)"
  by (induction q) auto

lemma ids_changed_prepare:
  assumes "ids_changed w w'" "m_contexts w c = Some x" "\<forall>a \<in> set (ctx_send_msg_queue x). heap w a \<noteq> None"
  shows "\<exists>w''. prepare_store c w' = Some w'' \<and> ids_changed w w'' \<and> m_contexts w'' c = Some (stored_context w x)"
proof -
  obtain f where f: "w' = w\<lparr>m_contexts := \<lambda>c. map_option (\<lambda>x. x\<lparr>ctx_send_msg_ids := f c x\<rparr>) (m_contexts w c)\<rparr>"
    using assms(1) by (auto simp: ids_changed_def)
  let ?ids = "map (\<lambda>a. m_mbuf_msg_id (the (heap w a))) (ctx_send_msg_queue x)"
  let ?w = "upd_ctx c (ctx_send_msg_ids_update (\<lambda>_. ?ids)) w'"
  have h: "heap w' = heap w" by (simp add: f heap_def)
  have "prepare_store c w' = Some ?w"
    using assms(2,3) queue_ids_map [of "ctx_send_msg_queue x" "heap w"] by (simp add: prepare_store_def h) (simp add: f)
  moreover have "?w = w\<lparr>m_contexts := \<lambda>d. map_option (\<lambda>x. x\<lparr>ctx_send_msg_ids := (if d = c then ?ids else f d x)\<rparr>) (m_contexts w d)\<rparr>"
    by (auto simp: f upd_ctx_def fun_eq_iff option.map_comp o_def intro!: arg_cong [of _ _ "\<lambda>g. w\<lparr>m_contexts := g\<rparr>"])
  then have "ids_changed w ?w" unfolding ids_changed_def by (rule exI [of _ "\<lambda>d x. if d = c then ?ids else f d x"])
  moreover have "m_contexts ?w c = Some (stored_context w x)" using assms(2) by (simp add: f stored_context_def)
  ultimately show ?thesis by blast
qed

lemma close_idle_keeps:
  assumes "ids_changed w w'" "m_contexts w c = Some x" "not_idle p w x"
  shows "close_idle p c w' = Some w'"
  using assms by (auto simp: ids_changed_def close_idle_def not_idle_def split: option.splits bind_splits)

lemma stores_clients:
  assumes "at_end p" "cfg_max_idle_timeout p = cfg_max_idle_timeout p0" "ids_changed w (w_broker p)"
    and "\<And>ic. ic \<in> set cs \<Longrightarrow> storable_client p0 w ic"
    and "\<And>ic. ic \<in> set cs \<Longrightarrow> persistent w ic \<Longrightarrow> length (saved_body (saved_client w ic)) \<le> 1048576"
  shows "stores (ids_changed w) (db_image (map (saved_client w) (filter (persistent w) cs))) p (store_clients cs p)"
  using assms
proof (induction cs arbitrary: p)
  case Nil
  then show ?case by (simp add: stores_return)
next
  case (Cons ic cs)
  obtain i c where ic: "ic = (i, c)" by fastforce
  have "storable_client p0 w ic" using Cons.prems(4) by simp
  then obtain x where x: "m_contexts w c = Some x" "not_idle p0 w x" "ctx_clean_session x \<noteq> None"
    "\<forall>a \<in> set (ctx_send_msg_queue x). heap w a \<noteq> None"
    "ctx_clean_session x = Some False \<longrightarrow> pack_context (w_junk w) (stored_context w x) \<noteq> None"
    by (auto simp: storable_client_def ic list_all_iff split: option.splits)
  have "not_idle p w x" using x(2) by (simp add: not_idle_def Cons.prems(2) cong: option.case_cong)
  then have idle: "close_idle p c (w_broker p) = Some (w_broker p)" by (rule close_idle_keeps [OF Cons.prems(3) x(1)])
  obtain f where f: "w_broker p = w\<lparr>m_contexts := \<lambda>c. map_option (\<lambda>x. x\<lparr>ctx_send_msg_ids := f c x\<rparr>) (m_contexts w c)\<rparr>"
    using Cons.prems(3) by (auto simp: ids_changed_def)
  obtain y where y: "m_contexts (w_broker p) c = Some y" "ctx_clean_session y = ctx_clean_session x" using x(1) by (simp add: f)
  have IH: "stores (ids_changed w) (db_image (map (saved_client w) (filter (persistent w) cs))) q (store_clients cs q)"
    if "at_end q" "cfg_max_idle_timeout q = cfg_max_idle_timeout p" "ids_changed w (w_broker q)" for q
    using that Cons.prems by (intro Cons.IH) auto
  show ?case
  proof (cases "ctx_clean_session x = Some True")
    case True
    then have "store_clients (ic # cs) p = store_clients cs p" by (simp add: ic idle y)
    moreover have "\<not> persistent w ic" using True x(1) by (simp add: persistent_def ic)
    ultimately show ?thesis using IH [of p] Cons.prems(1,3) by simp
  next
    case False
    then have clean: "ctx_clean_session x = Some False" using x(3) by auto
    obtain w2 where w2: "prepare_store c (w_broker p) = Some w2" "ids_changed w w2" "m_contexts w2 c = Some (stored_context w x)"
      using ids_changed_prepare [OF Cons.prems(3) x(1,4)] by blast
    have junk: "w_junk w2 = w_junk w" using w2(2) by (auto simp: ids_changed_def)
    have pers: "persistent w ic" "saved_client w ic = Saved_client (w_junk w) (stored_context w x)"
      using clean x(1) by (simp_all add: persistent_def saved_client_def ic)
    let ?body = "saved_body (saved_client w ic)"
    have body: "pack_context (w_junk w) (stored_context w x) = Some ?body"
      using x(5) clean packs_context [of "w_junk w" "stored_context w x"] by (auto simp: pers packs_def saved_body_def)
    have "length ?body \<le> 1048576" using Cons.prems(5) [of ic] pers(1) by simp
    then have "stores (ids_changed w) (chunk 3 ?body @ db_image (map (saved_client w) (filter (persistent w) cs))) (p\<lparr>w_broker := w2\<rparr>)
        (error_return (write_chunk 3 ?body (p\<lparr>w_broker := w2\<rparr>)) (store_clients cs))"
      using Cons.prems(1) w2(2) by (intro stores_seq [OF stores_chunk [of _ "ids_changed w"]] IH) (auto simp: at_end_def only_written_def)
    then have "stores (ids_changed w) (chunk 3 ?body @ db_image (map (saved_client w) (filter (persistent w) cs))) p
        (error_return (write_chunk 3 ?body (p\<lparr>w_broker := w2\<rparr>)) (store_clients cs))"
      by (simp only: stores_broker)
    moreover have "store_clients (ic # cs) p = error_return (write_chunk 3 ?body (p\<lparr>w_broker := w2\<rparr>)) (store_clients cs)"
      using w2 junk body clean y by (simp add: ic idle)
    ultimately show ?thesis using pers by (simp add: db_image_Cons)
  qed
qed

lemma packs_retained:
  assumes "list_all (mbuf_wf \<circ> snd) tbs" "list_all (\<lambda>tb. pack_string (fst tb) \<noteq> None) tbs" "length tbs \<le> 0xFFFFFFFF"
  shows "packs (pack_retained tbs) (retain_object tbs)"
proof -
  have e: "packs (pack_string t) (mp_STR t)" "packs (pack_mbuf b) (mbuf_object b)" if "(t, b) \<in> set tbs" for t b
    using assms(1,2) that packs_string_some [of t] packs_mbuf [of b] by (auto simp: list_all_iff)
  have f: "(case tb of (t, b) \<Rightarrow> do { k \<leftarrow> pack_string t; v \<leftarrow> pack_mbuf b; Some (k @ v) }) =
      Some (case tb of (t, b) \<Rightarrow> mp_bytes (mp_STR t) @ mp_bytes (mbuf_object b))" if "tb \<in> set tbs" for tb
    using e that by (cases tb) (simp add: packs_def del: mp_bytes.simps)
  have "those (map (\<lambda>(t, b). do { k \<leftarrow> pack_string t; v \<leftarrow> pack_mbuf b; Some (k @ v) }) tbs) =
      Some (map (\<lambda>(t, b). mp_bytes (mp_STR t) @ mp_bytes (mbuf_object b)) tbs)"
    using f by (induction tbs) (simp_all del: mp_bytes.simps)
  moreover have "mp_ok (retain_object tbs)"
    using e assms(3) by (auto simp: retain_object_def packs_def intro!: mp_ok.intros(10))
  ultimately show ?thesis
    by (simp add: packs_def pack_retained_def retain_object_def split_def o_def del: mp_bytes.simps(6))
qed

lemma stores_retain:
  assumes "at_end p" "ids_changed w (w_broker p)" "retained_bufs (heap w) (m_topic_mgr w) = Some tbs"
    and "list_all (mbuf_wf \<circ> snd) tbs" "list_all (\<lambda>tb. pack_string (fst tb) \<noteq> None) tbs" "length tbs \<le> 0xFFFFFFFF"
    and "\<And>it. it \<in> set (saved_retained w) \<Longrightarrow> length (saved_body it) \<le> 1048576"
  shows "stores (ids_changed w) (db_image (saved_retained w)) p (store_retain_msg p)"
proof -
  have same: "heap (w_broker p) = heap w" "m_topic_mgr (w_broker p) = m_topic_mgr w" using assms(2) by (auto simp: ids_changed_def heap_def)
  show ?thesis
  proof (cases "tbs = []")
    case True
    then show ?thesis using assms(1-3) by (simp add: saved_retained_def store_retain_msg_def same stores_return)
  next
    case False
    let ?tbs = "sort_key fst tbs"
    have "packs (pack_retained ?tbs) (retain_object ?tbs)"
      using assms(4-6) by (intro packs_retained) (auto simp: list_all_iff)
    moreover have "length (saved_body (Saved_retain ?tbs)) \<le> 1048576" using assms(3,7) False by (simp add: saved_retained_def)
    ultimately show ?thesis
      using assms(1-3) False stores_chunk [of p "ids_changed w" "saved_body (Saved_retain ?tbs)" 4]
      by (simp add: saved_retained_def store_retain_msg_def same db_image_Cons packs_def saved_body_def)
  qed
qed

lemma error_return_assoc: "error_return m (\<lambda>q. error_return (k q) k2) = error_return (error_return m k) k2"
  by (cases m) (auto simp: error_return_def)

lemma stores_close:
  assumes "stores P bs p m"
  shows "\<exists>r p'. error_return m (\<lambda>q. Some (0, persist_close q)) = Some (r, p') \<and> (r = 0 \<or> r = -1) \<and>
    w_files p' (m_file_name p) = Some (take (w_room p) (file_of p @ bs)) \<and> only_written p p' \<and>
    (fits_between p (length (file_of p)) (length (file_of p @ bs)) \<longrightarrow> r = 0) \<and>
    (bs \<noteq> [] \<and> w_room p < length (file_of p @ bs) - w_stdio p (length (file_of p @ bs)) \<longrightarrow> r = -1)"
proof -
  obtain r q where q: "m = Some (r, q)" "only_written p q"
      "r = 0 \<and> at_end q \<and> file_of q = file_of p @ bs \<and> P (w_broker q) \<or>
       r = -1 \<and> w_room p < length (file_of p @ bs) \<and> w_files q (m_file_name p) = Some (take (w_room p) (file_of p @ bs))"
      "fits_between p (length (file_of p)) (length (file_of p @ bs)) \<longrightarrow> r = 0"
      "bs \<noteq> [] \<and> w_room p < length (file_of p @ bs) - w_stdio p (length (file_of p @ bs)) \<longrightarrow> r = -1"
    using assms unfolding stores_def by blast
  have "only_written p (persist_close q)" "w_disk q = w_disk p" "m_file_name q = m_file_name p"
    using q(2) by (auto simp: only_written_def persist_close_def set_file_def)
  then show ?thesis using q by (auto simp: error_return_def persist_close_def)
qed

text \<open>The values that \<^verbatim>\<open>store\<close> can return for a database of length \<open>len\<close>.\<close>

definition store_result :: "persist_world \<Rightarrow> nat \<Rightarrow> int \<Rightarrow> bool" where
  "store_result p len r \<longleftrightarrow> (r = 0 \<or> r = -1) \<and> (fits_between p 0 len \<longrightarrow> r = 0) \<and> (w_room p < len - w_stdio p len \<longrightarrow> r = -1)"

lemma store_file_writes:
  assumes st: "storable ord p" and "w_fopen_ok p"
  shows "\<exists>r p'. store_file ord p = Some (r, p') \<and> store_result p (length (db_image (snapshot ord (w_broker p)))) r \<and>
    w_files p' (m_file_name p) = Some (take (w_room p) (db_image (snapshot ord (w_broker p)))) \<and> m_file_name p' = m_file_name p"
proof -
  let ?w = "w_broker p"
  let ?p = "p\<lparr>m_db_file := Some 0, w_files := (w_files p)(m_file_name p \<mapsto> [])\<rparr>"
  have e: "at_end ?p" "file_of ?p = []" "w_broker ?p = ?w" by (simp_all add: at_end_def file_of_def)
  have sz: "length (saved_body it) \<le> 1048576" if "it \<in> set (snapshot ord ?w)" for it
    using st that by (simp add: storable_def Let_def list_all_iff)
  obtain tbs where tbs: "retained_bufs (heap ?w) (m_topic_mgr ?w) = Some tbs" "list_all (mbuf_wf \<circ> snd) tbs"
    "list_all (\<lambda>tb. pack_string (fst tb) \<noteq> None) tbs" "length tbs \<le> 0xFFFFFFFF"
    using st by (auto simp: storable_def Let_def split: option.splits)
  have msgs: "\<exists>b. heap ?w a = Some b \<and> mbuf_wf b \<and> length (saved_body (Saved_msg b)) \<le> 1048576"
    if "a \<in> set (List.map_filter (m_msg_db (w_store (m_mem ?w))) ord)" for a
  proof -
    have "case heap ?w a of None \<Rightarrow> False | Some b \<Rightarrow> mbuf_wf b" using st that by (simp add: storable_def Let_def list_all_iff)
    moreover have "Saved_msg (the (heap ?w a)) \<in> set (snapshot ord ?w)" using that by (auto simp: snapshot_def saved_msgs_def)
    ultimately show ?thesis using sz by (cases "heap ?w a") auto
  qed
  have clients: "storable_client p ?w ic" if "ic \<in> set (m_client_msg ?w)" for ic
    using st that by (simp add: storable_def Let_def list_all_iff)
  have "stores (ids_changed ?w)
      (chunk 1 (saved_body (Saved_info (w_store (m_mem ?w)))) @ db_image (map (\<lambda>a. Saved_msg (the (heap ?w a))) (List.map_filter (m_msg_db (w_store (m_mem ?w))) ord)) @
       db_image (map (saved_client ?w) (filter (persistent ?w) (m_client_msg ?w))) @ db_image (saved_retained ?w)) ?p
      (error_return (store_db_info ?p) (\<lambda>p. error_return (store_db_msg ord p) (\<lambda>p. error_return (store_client_info p) store_retain_msg)))"
  proof (intro stores_seq [OF stores_db_info])
    fix q assume q: "at_end q" "only_written ?p q" "w_broker q = ?w"
    show "stores (ids_changed ?w) (db_image (map (\<lambda>a. Saved_msg (the (heap ?w a))) (List.map_filter (m_msg_db (w_store (m_mem ?w))) ord)) @
       db_image (map (saved_client ?w) (filter (persistent ?w) (m_client_msg ?w))) @ db_image (saved_retained ?w)) q
       (error_return (store_db_msg ord q) (\<lambda>p. error_return (store_client_info p) store_retain_msg))"
      unfolding store_db_msg_def q(3)
    proof (intro stores_seq [OF stores_msgs] stores_seq [where P = "ids_changed ?w"])
      fix s assume s: "at_end s" "only_written q s" "w_broker s = ?w"
      show "stores (ids_changed ?w) (db_image (map (saved_client ?w) (filter (persistent ?w) (m_client_msg ?w)))) s (store_client_info s)"
        unfolding store_client_info_def s(3)
        using q(2) s clients sz by (intro stores_clients [of _ p]) (auto simp: only_written_def ids_changed_refl snapshot_def)
    next
      fix s assume "at_end s" "ids_changed ?w (w_broker s)"
      then show "stores (ids_changed ?w) (db_image (saved_retained ?w)) s (store_retain_msg s)"
        using sz by (intro stores_retain [OF _ _ tbs]) (auto simp: snapshot_def)
    qed (use q msgs in auto)
  qed (use e sz in \<open>auto simp: snapshot_def\<close>)
  note written = this
  have img: "chunk 1 (saved_body (Saved_info (w_store (m_mem ?w)))) @ db_image (map (\<lambda>a. Saved_msg (the (heap ?w a))) (List.map_filter (m_msg_db (w_store (m_mem ?w))) ord)) @
       db_image (map (saved_client ?w) (filter (persistent ?w) (m_client_msg ?w))) @ db_image (saved_retained ?w) = db_image (snapshot ord ?w)"
    by (simp add: snapshot_def db_image_Cons db_image_append saved_msgs_def o_def)
  have sf: "store_file ord p = error_return (error_return (store_db_info ?p) (\<lambda>p. error_return (store_db_msg ord p)
      (\<lambda>p. error_return (store_client_info p) store_retain_msg))) (\<lambda>q. Some (0, persist_close q))"
    using assms(2) by (simp add: store_file_def open_wb_def error_return_assoc)
  show ?thesis
    unfolding sf using stores_close [OF written [unfolded img]] e(2)
    by (elim exE conjE) (intro exI conjI, assumption, simp_all add: only_written_def store_result_def fits_between_def snapshot_def db_image_Cons chunk_def)
qed

end
