(* ===== verification/Restart.thy ===== *)
theory Restart
  imports Persist_Msg_Pack
begin

text \<open>
  What a restart of the broker keeps: the file that \<open>store\<close> writes is followed through \<open>restore\<close>, chunk by
  chunk, into a broker without clients. The theorem at the end is the contract of the persistence: the
  sessions that are not clean come back with their subscriptions and the messages they wait for.
\<close>

subsection \<open>The state that is restored\<close>

lemma update_append: "map_of al k = None \<Longrightarrow> AList.update k v al = al @ [(k, v)]"
  by (induction al) (auto split: if_splits)

definition same_sessions :: "broker \<Rightarrow> broker \<Rightarrow> bool" where
  "same_sessions w w' \<longleftrightarrow> m_contexts w' = m_contexts w \<and> m_client_msg w' = m_client_msg w \<and> w_next_ctx w' = w_next_ctx w \<and>
     w_now w' = w_now w"

lemma add_buf_simps [simp]:
  "heap (add_buf b w) = (heap w)(w_next_addr w \<mapsto> b)" "w_next_addr (add_buf b w) = Suc (w_next_addr w)"
  "m_topic_mgr (add_buf b w) = m_topic_mgr w" "same_sessions w (add_buf b w)" "w_store (m_mem (add_buf b w)) = w_store (m_mem w)"
  by (simp_all add: add_buf_def heap_def same_sessions_def)

text \<open>Messages. Each gets a new buffer, is registered in the store, and stands in the temporary table.\<close>

definition tmp_inv :: "persist_world \<Rightarrow> bool" where
  "tmp_inv p \<longleftrightarrow> distinct (map fst (m_tmp_msg_db p)) \<and> distinct (map snd (m_tmp_msg_db p)) \<and>
     (\<forall>ia \<in> set (m_tmp_msg_db p). snd ia < w_next_addr (w_broker p) \<and> heap (w_broker p) (snd ia) \<noteq> None)"

definition msg_restored :: "cmbuf \<Rightarrow> persist_world \<Rightarrow> bool" where
  "msg_restored b p \<longleftrightarrow>
     (\<exists>a b'. map_of (m_tmp_msg_db p) (m_mbuf_msg_id b) = Some a \<and> a < w_next_addr (w_broker p) \<and>
        heap (w_broker p) a = Some b' \<and> mbuf_contents b' = mbuf_contents b \<and> m_mbuf_msg_id b' = m_mbuf_msg_id b)"

lemma whole_contents: "m_read_pos b = 0 \<Longrightarrow> unat (m_write_pos b) = length (m_data b) \<Longrightarrow> mbuf_contents b = m_data b"
  by (simp add: mbuf_contents_def)

lemma restored_contents: "mbuf_wf b \<Longrightarrow> mbuf_contents (restored_mbuf now b) = mbuf_contents b"
  using wf_contents_less [of b] whole_contents [of "restored_mbuf now b"] by (simp add: restored_mbuf_def)

lemma apply_msg_step:
  assumes "mbuf_wf b" "m_mbuf_msg_id b \<noteq> 0" "map_of (m_tmp_msg_db p) (m_mbuf_msg_id b) = None"
  shows "m_tmp_msg_db (apply_msg b p) = m_tmp_msg_db p @ [(m_mbuf_msg_id b, w_next_addr (w_broker p))]"
    and "heap (w_broker (apply_msg b p)) = (heap (w_broker p))(w_next_addr (w_broker p) \<mapsto> (restored_mbuf (w_now (w_broker p)) b)\<lparr>m_mem_db := True\<rparr>)"
    and "w_next_addr (w_broker (apply_msg b p)) = Suc (w_next_addr (w_broker p))"
    and "same_sessions (w_broker p) (w_broker (apply_msg b p))" "m_topic_mgr (w_broker (apply_msg b p)) = m_topic_mgr (w_broker p)"
    and "m_last_msg_id (mem_store (apply_msg b p)) = m_last_msg_id (mem_store p)"
  using assms by (simp_all add: apply_msg_def Let_def update_append same_sessions_def) (simp_all add: heap_def add_buf_def add_msg_def)

lemma apply_msg_inv:
  assumes "tmp_inv p" "mbuf_wf b" "m_mbuf_msg_id b \<noteq> 0" "map_of (m_tmp_msg_db p) (m_mbuf_msg_id b) = None"
  shows "tmp_inv (apply_msg b p)" "msg_restored b (apply_msg b p)" "msg_restored b2 p \<Longrightarrow> msg_restored b2 (apply_msg b p)"
proof -
  note step = apply_msg_step [OF assms(2-4)]
  show "tmp_inv (apply_msg b p)"
    using assms(1,4) by (fastforce simp: tmp_inv_def step map_of_eq_None_iff)
  have "mbuf_contents ((restored_mbuf now b)\<lparr>m_mem_db := True\<rparr>) = mbuf_contents b" for now
    using restored_contents [OF assms(2)] by (simp add: mbuf_contents_def)
  then show "msg_restored b (apply_msg b p)"
    using assms(4) unfolding msg_restored_def step
    by (intro exI [of _ "w_next_addr (w_broker p)"]) (simp add: map_add_def, simp add: restored_mbuf_def)
  show "msg_restored b2 p \<Longrightarrow> msg_restored b2 (apply_msg b p)"
  proof -
    assume "msg_restored b2 p"
    then obtain a b' where "map_of (m_tmp_msg_db p) (m_mbuf_msg_id b2) = Some a" "a < w_next_addr (w_broker p)"
      "heap (w_broker p) a = Some b'" "mbuf_contents b' = mbuf_contents b2" "m_mbuf_msg_id b' = m_mbuf_msg_id b2"
      by (auto simp: msg_restored_def)
    then show ?thesis unfolding msg_restored_def step by (intro exI [of _ a] exI [of _ b']) auto
  qed
qed

lemma msgs_fold:
  assumes "tmp_inv p" "\<forall>b \<in> set bs. mbuf_wf b \<and> m_mbuf_msg_id b \<noteq> 0"
    and "distinct (map m_mbuf_msg_id bs)" "\<forall>b \<in> set bs. map_of (m_tmp_msg_db p) (m_mbuf_msg_id b) = None"
  shows "let q = fold apply_msg bs p in
    tmp_inv q \<and> (\<forall>b \<in> set bs. msg_restored b q) \<and> same_sessions (w_broker p) (w_broker q) \<and>
    m_topic_mgr (w_broker q) = m_topic_mgr (w_broker p) \<and> m_last_msg_id (mem_store q) = m_last_msg_id (mem_store p) \<and>
    (\<forall>b. msg_restored b p \<longrightarrow> msg_restored b q) \<and> map fst (m_tmp_msg_db q) = map fst (m_tmp_msg_db p) @ map m_mbuf_msg_id bs"
  using assms
proof (induction bs arbitrary: p)
  case Nil
  then show ?case by (simp add: same_sessions_def)
next
  case (Cons b bs)
  have b: "mbuf_wf b" "m_mbuf_msg_id b \<noteq> 0" "map_of (m_tmp_msg_db p) (m_mbuf_msg_id b) = None" using Cons.prems by auto
  note step = apply_msg_step [OF b] and inv = apply_msg_inv [OF Cons.prems(1) b]
  have "\<forall>d \<in> set bs. map_of (m_tmp_msg_db (apply_msg b p)) (m_mbuf_msg_id d) = None"
    using Cons.prems(3,4) by (auto simp: step map_add_def rev_image_eqI split: option.splits)
  then show ?case
    using Cons.IH [of "apply_msg b p"] Cons.prems inv step by (auto simp: Let_def same_sessions_def)
qed

lemma msgs_phase:
  assumes "tmp_inv p" "\<forall>b \<in> set bs. mbuf_wf b \<and> m_mbuf_msg_id b \<noteq> 0 \<and> mp_ok (mbuf_object b) \<and> length (saved_body (Saved_msg b)) \<le> 1048576"
    and "distinct (map m_mbuf_msg_id bs)" "\<forall>b \<in> set bs. map_of (m_tmp_msg_db p) (m_mbuf_msg_id b) = None"
  shows "packed.all_ok (map Saved_msg bs) p"
  using assms
proof (induction bs arbitrary: p)
  case (Cons b bs)
  have b: "mbuf_wf b" "m_mbuf_msg_id b \<noteq> 0" "map_of (m_tmp_msg_db p) (m_mbuf_msg_id b) = None" "saved_ok (Saved_msg b) p"
    using Cons.prems by (auto simp: saved_ok_def)
  have "\<forall>d \<in> set bs. map_of (m_tmp_msg_db (apply_msg b p)) (m_mbuf_msg_id d) = None"
    using Cons.prems(3,4) by (auto simp: apply_msg_step [OF b(1-3)] map_add_def rev_image_eqI split: option.splits)
  then show ?case
    using Cons.IH [of "apply_msg b p"] Cons.prems apply_msg_inv [OF Cons.prems(1) b(1-3)] b(4) by auto
qed simp

lemma fold_saved_msgs: "fold apply_saved (map Saved_msg bs) p = fold apply_msg bs p"
  by (induction bs arbitrary: p) simp_all

text \<open>Sessions. Each is entered under its client id and for its topics, and waits for the messages that are
  in the temporary table.\<close>

definition subscribed :: "broker \<Rightarrow> cstring \<Rightarrow> ctxid \<Rightarrow> bool" where
  "subscribed w t c \<longleftrightarrow> (\<exists>n. map_of (m_topic_mgr w) t = Some n \<and> c \<in> set (m_subcriber_clients n))"

definition client_restored :: "(u64 \<rightharpoonup> addr) \<Rightarrow> u8 \<Rightarrow> ctmqtt_client_context \<Rightarrow> broker \<Rightarrow> bool" where
  "client_restored tmp junk x w \<longleftrightarrow>
     (\<exists>c. map_of (m_client_msg w) (ctx_client_id x) = Some c \<and> c < w_next_ctx w \<and>
        m_contexts w c = Some ((restored_context junk x)\<lparr>ctx_send_msg_queue := List.map_filter tmp (ctx_send_msg_ids x)\<rparr>) \<and>
        (\<forall>t \<in> set (ctx_subcribe_topics x). subscribed w (m_topic_name t) c))"

lemma upd_ctx_comp: "upd_ctx c f (upd_ctx c g w) = upd_ctx c (f \<circ> g) w"
  by (simp add: upd_ctx_def option.map_comp)

lemma upd_ctx_id: "upd_ctx c (\<lambda>x. x) w = w"
  by (simp add: upd_ctx_def option.map_ident)

lemma restore_queue_eq:
  "restore_queue tmp ids c w = upd_ctx c (\<lambda>x. x\<lparr>ctx_send_msg_queue := ctx_send_msg_queue x @ List.map_filter tmp ids\<rparr>) w"
  by (induction tmp ids c w rule: restore_queue.induct)
    (auto simp: upd_ctx_id upd_ctx_comp add_send_msg_def o_def split: option.splits)

lemma subscribe_all_keeps: "\<exists>tm. subscribe_all ts c w = w\<lparr>m_topic_mgr := tm\<rparr>"
proof (induction ts arbitrary: w)
  case Nil
  then show ?case by (auto simp: subscribe_all_def intro: exI [of _ "m_topic_mgr w"])
next
  case (Cons t ts)
  let ?n = "snd (node_add_client c (case map_of (m_topic_mgr w) t of None \<Rightarrow> CTopicNode | Some n \<Rightarrow> n))"
  obtain tm where "subscribe_all ts c (set_topic t ?n w) = (set_topic t ?n w)\<lparr>m_topic_mgr := tm\<rparr>" using Cons by blast
  then have "subscribe_all (t # ts) c w = w\<lparr>m_topic_mgr := tm\<rparr>" by (simp add: subscribe_all_def) (simp add: set_topic_def)
  then show ?case ..
qed

lemma subscribe_step:
  "subscribed w t' c' \<Longrightarrow> subscribed (set_topic t (snd (node_add_client c (case map_of (m_topic_mgr w) t of None \<Rightarrow> CTopicNode | Some n \<Rightarrow> n))) w) t' c'"
  "subscribed (set_topic t (snd (node_add_client c (case map_of (m_topic_mgr w) t of None \<Rightarrow> CTopicNode | Some n \<Rightarrow> n))) w) t c"
  by (auto simp: subscribed_def node_add_client_def split: option.splits)

lemma subscribe_all_grows: "subscribed w t' c' \<Longrightarrow> subscribed (subscribe_all ts c w) t' c'"
  by (induction ts arbitrary: w) (simp_all add: subscribe_all_def subscribe_step(1))

lemma subscribe_all_enters: "t \<in> set ts \<Longrightarrow> subscribed (subscribe_all ts c w) t c"
proof (induction ts arbitrary: w)
  case (Cons s ts)
  then show ?case
    using subscribe_all_grows [OF subscribe_step(2) [of s c w], of ts c] by (auto simp: subscribe_all_def)
qed simp

lemma broker_mem_simps [simp]:
  fixes w :: broker
  shows "m_mem (w_next_ctx_update f1 w) = m_mem w" "m_mem (m_client_msg_update f2 w) = m_mem w"
  by (cases w; simp)+

lemma apply_client_step:
  assumes "map_of (m_client_msg (w_broker p)) (ctx_client_id x) = None"
  defines "c \<equiv> w_next_ctx (w_broker p)"
  shows "m_tmp_msg_db (apply_client junk x p) = m_tmp_msg_db p" "m_mem (w_broker (apply_client junk x p)) = m_mem (w_broker p)"
    and "w_next_addr (w_broker (apply_client junk x p)) = w_next_addr (w_broker p)" "w_now (w_broker (apply_client junk x p)) = w_now (w_broker p)"
    and "w_next_ctx (w_broker (apply_client junk x p)) = Suc c"
    and "m_client_msg (w_broker (apply_client junk x p)) = m_client_msg (w_broker p) @ [(ctx_client_id x, c)]"
    and "m_contexts (w_broker (apply_client junk x p)) = (m_contexts (w_broker p))
      (c \<mapsto> (restored_context junk x)\<lparr>ctx_send_msg_queue := List.map_filter (map_of (m_tmp_msg_db p)) (ctx_send_msg_ids x)\<rparr>)"
    and "subscribed (w_broker p) t' c' \<Longrightarrow> subscribed (w_broker (apply_client junk x p)) t' c'"
    and "t \<in> set (ctx_subcribe_topics x) \<Longrightarrow> subscribed (w_broker (apply_client junk x p)) (m_topic_name t) c"
proof -
  let ?w = "w_broker p" let ?ts = "map m_topic_name (ctx_subcribe_topics x)"
  let ?w1 = "?w\<lparr>w_next_ctx := Suc c, m_contexts := (m_contexts ?w)(c \<mapsto> restored_context junk x)\<rparr>"
  let ?w2 = "?w1\<lparr>m_client_msg := m_client_msg ?w @ [(ctx_client_id x, c)]\<rparr>"
  let ?f = "\<lambda>x0. x0\<lparr>ctx_send_msg_queue := ctx_send_msg_queue x0 @ List.map_filter (map_of (m_tmp_msg_db p)) (ctx_send_msg_ids x)\<rparr>"
  obtain tm where tm: "subscribe_all ?ts c ?w2 = ?w2\<lparr>m_topic_mgr := tm\<rparr>" using subscribe_all_keeps by blast
  have q: "apply_client junk x p = p\<lparr>w_broker := upd_ctx c ?f (subscribe_all ?ts c ?w2)\<rparr>"
    using assms(1) by (simp add: apply_client_def Let_def restore_queue_eq add_client_id_def c_def)
  have e: "ctx_send_msg_queue (restored_context junk x) = []" by (simp add: restored_context_def CTMqttClientContext_def)
  show "m_tmp_msg_db (apply_client junk x p) = m_tmp_msg_db p" "m_mem (w_broker (apply_client junk x p)) = m_mem ?w"
    "w_next_addr (w_broker (apply_client junk x p)) = w_next_addr ?w" "w_now (w_broker (apply_client junk x p)) = w_now ?w"
    "w_next_ctx (w_broker (apply_client junk x p)) = Suc c"
    "m_client_msg (w_broker (apply_client junk x p)) = m_client_msg ?w @ [(ctx_client_id x, c)]"
    "m_contexts (w_broker (apply_client junk x p)) = (m_contexts ?w)
      (c \<mapsto> (restored_context junk x)\<lparr>ctx_send_msg_queue := List.map_filter (map_of (m_tmp_msg_db p)) (ctx_send_msg_ids x)\<rparr>)"
    by (simp_all add: q tm upd_ctx_def e)
  have s: "subscribed (w_broker (apply_client junk x p)) = subscribed (subscribe_all ?ts c ?w2)"
    by (simp add: q subscribed_def [abs_def])
  show "subscribed ?w t' c' \<Longrightarrow> subscribed (w_broker (apply_client junk x p)) t' c'"
    unfolding s by (rule subscribe_all_grows) (simp add: subscribed_def)
  show "t \<in> set (ctx_subcribe_topics x) \<Longrightarrow> subscribed (w_broker (apply_client junk x p)) (m_topic_name t) c"
    unfolding s by (rule subscribe_all_enters) simp
qed

lemma clients_phase:
  assumes "\<forall>x \<in> set xs. times_ok x \<and> mp_ok (context_object junk x) \<and> length (saved_body (Saved_client junk x)) \<le> 1048576"
    and "distinct (map ctx_client_id xs)" "\<forall>x \<in> set xs. map_of (m_client_msg (w_broker p)) (ctx_client_id x) = None"
  shows "let q = fold apply_saved (map (Saved_client junk) xs) p in
    packed.all_ok (map (Saved_client junk) xs) p \<and> m_tmp_msg_db q = m_tmp_msg_db p \<and> m_mem (w_broker q) = m_mem (w_broker p) \<and>
    w_next_addr (w_broker q) = w_next_addr (w_broker p) \<and> w_now (w_broker q) = w_now (w_broker p) \<and>
    (\<forall>x \<in> set xs. client_restored (map_of (m_tmp_msg_db p)) junk x (w_broker q)) \<and>
    (\<forall>x. client_restored (map_of (m_tmp_msg_db p)) junk x (w_broker p) \<longrightarrow> client_restored (map_of (m_tmp_msg_db p)) junk x (w_broker q)) \<and>
    fst ` set (m_client_msg (w_broker q)) = fst ` set (m_client_msg (w_broker p)) \<union> ctx_client_id ` set xs"
  using assms
proof (induction xs arbitrary: p)
  case Nil
  then show ?case by simp
next
  case (Cons x xs)
  let ?p = "apply_client junk x p" let ?tmp = "map_of (m_tmp_msg_db p)"
  have x: "map_of (m_client_msg (w_broker p)) (ctx_client_id x) = None" "saved_ok (Saved_client junk x) p"
    using Cons.prems by (auto simp: saved_ok_def)
  note step = apply_client_step [OF x(1), where junk = junk]
  have "client_restored ?tmp junk x (w_broker ?p)"
    using x(1) unfolding client_restored_def step
    by (intro exI [of _ "w_next_ctx (w_broker p)"]) (auto simp: map_add_def step(9))
  moreover have "client_restored ?tmp junk y (w_broker ?p)" if y: "client_restored ?tmp junk y (w_broker p)" for y
  proof -
    obtain c where c: "map_of (m_client_msg (w_broker p)) (ctx_client_id y) = Some c" "c < w_next_ctx (w_broker p)"
      "m_contexts (w_broker p) c = Some ((restored_context junk y)\<lparr>ctx_send_msg_queue := List.map_filter ?tmp (ctx_send_msg_ids y)\<rparr>)"
      "\<forall>t \<in> set (ctx_subcribe_topics y). subscribed (w_broker p) (m_topic_name t) c"
      using y by (auto simp: client_restored_def)
    then show ?thesis unfolding client_restored_def step by (intro exI [of _ c]) (auto simp: step(8))
  qed
  moreover have "\<forall>y \<in> set xs. map_of (m_client_msg (w_broker ?p)) (ctx_client_id y) = None"
    using Cons.prems(2,3) by (auto simp: step map_add_def rev_image_eqI split: option.splits)
  ultimately show ?case
    using Cons.IH [of ?p] Cons.prems x(2) by (auto simp: Let_def step)
qed

text \<open>Retained messages, for the topics that a restored session has subscribed to.\<close>

definition retained_as :: "cstring \<Rightarrow> cmbuf \<Rightarrow> broker \<Rightarrow> bool" where
  "retained_as t b w \<longleftrightarrow>
     (\<exists>n a b'. map_of (m_topic_mgr w) t = Some n \<and> m_retian_msg_buf n = Some a \<and> a < w_next_addr w \<and> heap w a = Some b' \<and>
        mbuf_contents b' = mbuf_contents b)"

lemma apply_retain_step:
  assumes "mbuf_wf b"
  shows "same_sessions w (apply_retain t b w)" "subscribed (apply_retain t b w) = subscribed w"
    and "w_next_addr (apply_retain t b w) = Suc (w_next_addr w)" "w_store (m_mem (apply_retain t b w)) = w_store (m_mem w)"
    and "a < w_next_addr w \<Longrightarrow> heap (apply_retain t b w) a = heap w a"
    and "map_of (m_topic_mgr w) t \<noteq> None \<Longrightarrow> retained_as t b (apply_retain t b w)"
    and "t' \<noteq> t \<Longrightarrow> retained_as t' b' w \<Longrightarrow> retained_as t' b' (apply_retain t b w)"
    and "(map_of (m_topic_mgr (apply_retain t b w)) t' = None) = (map_of (m_topic_mgr w) t' = None)"
proof -
  show "same_sessions w (apply_retain t b w)" "w_next_addr (apply_retain t b w) = Suc (w_next_addr w)"
    "w_store (m_mem (apply_retain t b w)) = w_store (m_mem w)"
    by (simp_all add: apply_retain_def Let_def same_sessions_def set_topic_def add_buf_def split: option.split)
  have h: "heap (apply_retain t b w) = (heap w)(w_next_addr w \<mapsto> restored_mbuf (w_now w) b)"
    by (simp add: apply_retain_def Let_def split: option.split)
  then show "a < w_next_addr w \<Longrightarrow> heap (apply_retain t b w) a = heap w a" by simp
  have tm: "map_of (m_topic_mgr (apply_retain t b w)) =
      (case map_of (m_topic_mgr w) t of None \<Rightarrow> map_of (m_topic_mgr w) | Some n \<Rightarrow> (map_of (m_topic_mgr w))(t \<mapsto> update_retain_msg (w_next_addr w) n))"
    by (simp add: apply_retain_def Let_def split: option.split)
  then show "subscribed (apply_retain t b w) = subscribed w" "(map_of (m_topic_mgr (apply_retain t b w)) t' = None) = (map_of (m_topic_mgr w) t' = None)"
    by (auto simp: subscribed_def fun_eq_iff update_retain_msg_def split: option.splits)
  have n: "w_next_addr (apply_retain t b w) = Suc (w_next_addr w)"
    by (simp add: apply_retain_def Let_def set_topic_def split: option.split)
  show "map_of (m_topic_mgr w) t \<noteq> None \<Longrightarrow> retained_as t b (apply_retain t b w)"
    using restored_contents [OF assms] by (auto simp: retained_as_def tm h n update_retain_msg_def)
  show "retained_as t' b' (apply_retain t b w)" if ne: "t' \<noteq> t" and r: "retained_as t' b' w"
  proof -
    obtain m a d where "map_of (m_topic_mgr w) t' = Some m" "m_retian_msg_buf m = Some a" "a < w_next_addr w" "heap w a = Some d"
      "mbuf_contents d = mbuf_contents b'"
      using r by (auto simp: retained_as_def)
    then show ?thesis using ne unfolding retained_as_def tm h n by (intro exI [of _ m] exI [of _ a] exI [of _ d]) (auto split: option.split)
  qed
qed

lemma retains_phase:
  assumes "\<forall>(t, b) \<in> set tbs. mbuf_wf b" "distinct (map fst tbs)"
  shows "let w' = fold (\<lambda>(t, b). apply_retain t b) tbs w in
    same_sessions w w' \<and> subscribed w' = subscribed w \<and> w_store (m_mem w') = w_store (m_mem w) \<and> w_next_addr w \<le> w_next_addr w' \<and>
    (\<forall>a < w_next_addr w. heap w' a = heap w a) \<and>
    (\<forall>(t, b) \<in> set tbs. map_of (m_topic_mgr w) t \<noteq> None \<longrightarrow> retained_as t b w') \<and>
    (\<forall>t b. t \<notin> fst ` set tbs \<longrightarrow> retained_as t b w \<longrightarrow> retained_as t b w')"
  using assms
proof (induction tbs arbitrary: w)
  case Nil
  then show ?case by (simp add: same_sessions_def)
next
  case (Cons tb tbs)
  obtain t b where tb: "tb = (t, b)" by fastforce
  then have "mbuf_wf b" using Cons.prems by auto
  note step = apply_retain_step [OF this]
  have "retained_as t b (fold (\<lambda>(t, b). apply_retain t b) tbs (apply_retain t b w))" if "map_of (m_topic_mgr w) t \<noteq> None"
    using Cons.IH [of "apply_retain t b w"] Cons.prems step(6) [OF that] by (auto simp: Let_def tb)
  then show ?case
    using Cons.IH [of "apply_retain t b w"] Cons.prems step(1-5,7,8) [where w = w and t = t]
    by (auto simp: Let_def tb same_sessions_def)
qed

text \<open>When the temporary table is cleared, the messages that no session waits for are destroyed; the others stay.\<close>

lemma buf_owned_mem: "buf_owned a (w\<lparr>m_mem := mem\<rparr>) = buf_owned a w"
  by (simp add: buf_owned_def live_contexts_def)

lemma release_bufs_phase:
  assumes "distinct as" "\<forall>a \<in> set as. heap w a \<noteq> None"
  shows "\<exists>mem. release_bufs as w = Some (w\<lparr>m_mem := mem\<rparr>) \<and> m_last_msg_id (w_store mem) = m_last_msg_id (w_store (m_mem w)) \<and>
    (\<forall>a. a \<notin> set as \<or> buf_owned a w \<longrightarrow> w_heap mem a = heap w a)"
  using assms
proof (induction as arbitrary: w)
  case Nil
  then show ?case by (auto simp: heap_def intro!: exI [of _ "m_mem w"])
next
  case (Cons a as)
  obtain b where b: "w_heap (m_mem w) a = Some b" using Cons.prems by (auto simp: heap_def)
  obtain mem where mem: "release_buf a w = Some (w\<lparr>m_mem := mem\<rparr>)" "m_last_msg_id (w_store mem) = m_last_msg_id (w_store (m_mem w))"
    "\<forall>d. d \<noteq> a \<or> buf_owned d w \<longrightarrow> w_heap mem d = heap w d"
  proof (cases "buf_owned a w")
    case True
    then show ?thesis using that [of "m_mem w"] by (simp add: release_buf_def heap_def)
  next
    case False
    obtain mem where m: "CMbuf_destroy a (m_mem w) = Some mem" using b by (simp add: CMbuf_destroy_def Let_def)
    then have "m_last_msg_id (w_store mem) = m_last_msg_id (w_store (m_mem w))" "w_heap mem = (w_heap (m_mem w))(a := None)"
      using b by (auto simp: CMbuf_destroy_def del_msg_def Let_def)
    then show ?thesis using that [of mem] m False by (auto simp: release_buf_def heap_def)
  qed
  let ?w = "w\<lparr>m_mem := mem\<rparr>"
  have h: "heap ?w = w_heap mem" by (simp add: heap_def)
  have "\<forall>d \<in> set as. heap ?w d \<noteq> None" using Cons.prems mem(3) by (auto simp: h)
  then obtain mem2 where "release_bufs as ?w = Some (?w\<lparr>m_mem := mem2\<rparr>)" "m_last_msg_id (w_store mem2) = m_last_msg_id (w_store mem)"
    "\<forall>d. d \<notin> set as \<or> buf_owned d w \<longrightarrow> w_heap mem2 d = w_heap mem d"
    using Cons.IH [of ?w] Cons.prems(1) h by (auto simp: buf_owned_mem)
  then show ?case using mem by (auto intro!: exI [of _ mem2])
qed

text \<open>All of it: the state after a file with the given items was restored into a broker without clients.\<close>

definition retain_item :: "(cstring \<times> cmbuf) list \<Rightarrow> saved list" where
  "retain_item tbs = (if tbs = [] then [] else [Saved_retain tbs])"

definition items :: "cmsg_mem_store \<Rightarrow> cmbuf list \<Rightarrow> u8 \<Rightarrow> ctmqtt_client_context list \<Rightarrow> (cstring \<times> cmbuf) list \<Rightarrow> saved list" where
  "items s bs junk xs tbs = Saved_info s # map Saved_msg bs @ map (Saved_client junk) xs @ retain_item tbs"

definition items_ok :: "cmsg_mem_store \<Rightarrow> cmbuf list \<Rightarrow> u8 \<Rightarrow> ctmqtt_client_context list \<Rightarrow> (cstring \<times> cmbuf) list \<Rightarrow> bool" where
  "items_ok s bs junk xs tbs \<longleftrightarrow>
     (\<forall>it \<in> set (items s bs junk xs tbs). mp_ok (saved_object it) \<and> length (saved_body it) \<le> 1048576) \<and>
     (\<forall>b \<in> set bs. mbuf_wf b \<and> m_mbuf_msg_id b \<noteq> 0) \<and> distinct (map m_mbuf_msg_id bs) \<and>
     (\<forall>x \<in> set xs. times_ok x) \<and> distinct (map ctx_client_id xs) \<and> (\<forall>(t, b) \<in> set tbs. mbuf_wf b) \<and> distinct (map fst tbs)"

definition session_back :: "u8 \<Rightarrow> ctmqtt_client_context \<Rightarrow> cmbuf list \<Rightarrow> broker \<Rightarrow> bool" where
  "session_back junk x qs w \<longleftrightarrow>
     (\<exists>c q. map_of (m_client_msg w) (ctx_client_id x) = Some c \<and>
        m_contexts w c = Some ((restored_context junk x)\<lparr>ctx_send_msg_queue := q\<rparr>) \<and>
        map (contents w) q = map mbuf_contents qs \<and> (\<forall>t \<in> set (ctx_subcribe_topics x). subscribed w (m_topic_name t) c))"

definition no_clients :: "broker \<Rightarrow> bool" where
  "no_clients w \<longleftrightarrow> m_client_msg w = []"

lemma retained_as_mem:
  assumes "retained_as t b w" "\<And>a. buf_owned a w \<Longrightarrow> w_heap mem a = heap w a"
  shows "retained_as t b (w\<lparr>m_mem := mem\<rparr>)"
proof -
  obtain n a b' where r: "map_of (m_topic_mgr w) t = Some n" "m_retian_msg_buf n = Some a" "a < w_next_addr w" "heap w a = Some b'"
    "mbuf_contents b' = mbuf_contents b"
    using assms(1) by (auto simp: retained_as_def)
  then have "buf_owned a w" by (force simp: buf_owned_def dest: map_of_SomeD)
  then have "heap (w\<lparr>m_mem := mem\<rparr>) a = Some b'" using assms(2) r(4) by (simp add: heap_def)
  then show ?thesis using r unfolding retained_as_def by (intro exI [of _ n] exI [of _ a] exI [of _ b']) simp
qed

lemma map_filter_total: "(\<And>i. i \<in> set is \<Longrightarrow> f i \<noteq> None) \<Longrightarrow> List.map_filter f is = map (the \<circ> f) is"
  by (induction "is") (auto split: option.split)

lemma session_backI:
  assumes "client_restored (map_of (m_tmp_msg_db q)) junk x (w_broker q)" "\<forall>b \<in> set qs. msg_restored b q"
    and "\<And>a. buf_owned a (w_broker q) \<Longrightarrow> w_heap mem a = heap (w_broker q) a" "map m_mbuf_msg_id qs = ctx_send_msg_ids x"
  shows "session_back junk x qs ((w_broker q)\<lparr>m_mem := mem\<rparr>)"
proof -
  let ?w = "w_broker q" let ?tmp = "map_of (m_tmp_msg_db q)"
  obtain c where c: "map_of (m_client_msg ?w) (ctx_client_id x) = Some c"
    "m_contexts ?w c = Some ((restored_context junk x)\<lparr>ctx_send_msg_queue := List.map_filter ?tmp (ctx_send_msg_ids x)\<rparr>)"
    "\<forall>t \<in> set (ctx_subcribe_topics x). subscribed ?w (m_topic_name t) c"
    using assms(1) by (auto simp: client_restored_def)
  have "?tmp i \<noteq> None" if "i \<in> set (ctx_send_msg_ids x)" for i
    using that assms(2) unfolding assms(4) [symmetric] by (auto simp: msg_restored_def)
  then have mf: "List.map_filter ?tmp (ctx_send_msg_ids x) = map (\<lambda>b. the (?tmp (m_mbuf_msg_id b))) qs"
    using map_filter_total [of "ctx_send_msg_ids x" ?tmp] by (simp add: o_def flip: assms(4))
  have lc: "c \<in> set (live_contexts ?w)" using map_of_SomeD [OF c(1)] by (auto simp: live_contexts_def intro: rev_image_eqI)
  have own: "buf_owned a ?w" if "a \<in> set (List.map_filter ?tmp (ctx_send_msg_ids x))" for a
    unfolding buf_owned_def using that c(2) by (intro disjI1 bexI [OF _ lc]) simp
  have "contents (?w\<lparr>m_mem := mem\<rparr>) (the (?tmp (m_mbuf_msg_id b))) = mbuf_contents b" if b: "b \<in> set qs" for b
  proof -
    obtain a b' where a: "?tmp (m_mbuf_msg_id b) = Some a" "heap ?w a = Some b'" "mbuf_contents b' = mbuf_contents b"
      using assms(2) b by (auto simp: msg_restored_def)
    have "a \<in> set (List.map_filter ?tmp (ctx_send_msg_ids x))" using b a(1) unfolding mf by force
    then have "w_heap mem a = Some b'" using own assms(3) a(2) by simp
    then show ?thesis using a by (simp add: contents_def heap_def)
  qed
  then show ?thesis
    using c unfolding session_back_def mf
    by (intro exI [of _ c] exI [of _ "map (\<lambda>b. the (?tmp (m_mbuf_msg_id b))) qs"]) (simp add: subscribed_def)
qed

lemma folded_items:
  assumes ok: "items_ok s bs junk xs tbs" and p: "no_clients (w_broker p)" "m_tmp_msg_db p = []"
  shows "\<exists>q. fold apply_saved (items s bs junk xs tbs) p = q \<and> packed.all_ok (items s bs junk xs tbs) p \<and> tmp_inv q \<and>
    (\<forall>b \<in> set bs. msg_restored b q) \<and> (\<forall>x \<in> set xs. client_restored (map_of (m_tmp_msg_db q)) junk x (w_broker q)) \<and>
    fst ` set (m_client_msg (w_broker q)) = ctx_client_id ` set xs \<and> m_last_msg_id (mem_store q) = m_last_msg_id s \<and>
    (\<forall>(t, b) \<in> set tbs. (\<exists>x \<in> set xs. t \<in> m_topic_name ` set (ctx_subcribe_topics x)) \<longrightarrow> retained_as t b (w_broker q))"
proof -
  define p1 where "p1 = apply_info s p"
  define q1 where "q1 = fold apply_saved (map Saved_msg bs) p1"
  define q2 where "q2 = fold apply_saved (map (Saved_client junk) xs) q1"
  define q3 where "q3 = fold apply_saved (retain_item tbs) q2"
  have each: "mp_ok (saved_object it) \<and> length (saved_body it) \<le> 1048576" if "it \<in> set (items s bs junk xs tbs)" for it
    using ok that by (simp add: items_ok_def)
  have P1: "tmp_inv p1" "m_tmp_msg_db p1 = []" "m_client_msg (w_broker p1) = []" "saved_ok (Saved_info s) p" "m_last_msg_id (mem_store p1) = m_last_msg_id s"
    using p each [of "Saved_info s"] by (simp_all add: p1_def apply_info_def Let_def tmp_inv_def no_clients_def saved_ok_def items_def)
  have ms: "\<forall>b \<in> set bs. mbuf_wf b \<and> m_mbuf_msg_id b \<noteq> 0 \<and> mp_ok (mbuf_object b) \<and> length (saved_body (Saved_msg b)) \<le> 1048576"
  proof
    fix b assume "b \<in> set bs"
    then show "mbuf_wf b \<and> m_mbuf_msg_id b \<noteq> 0 \<and> mp_ok (mbuf_object b) \<and> length (saved_body (Saved_msg b)) \<le> 1048576"
      using ok each [of "Saved_msg b"] by (simp add: items_ok_def items_def)
  qed
  have Q1: "packed.all_ok (map Saved_msg bs) p1" "tmp_inv q1" "\<forall>b \<in> set bs. msg_restored b q1" "m_client_msg (w_broker q1) = []"
    "m_last_msg_id (mem_store q1) = m_last_msg_id s"
    using msgs_phase [OF P1(1) ms] msgs_fold [OF P1(1), of bs] ok P1
    by (simp_all add: q1_def fold_saved_msgs items_ok_def Let_def same_sessions_def)
  have cl: "\<forall>x \<in> set xs. times_ok x \<and> mp_ok (context_object junk x) \<and> length (saved_body (Saved_client junk x)) \<le> 1048576"
  proof
    fix x assume "x \<in> set xs"
    then show "times_ok x \<and> mp_ok (context_object junk x) \<and> length (saved_body (Saved_client junk x)) \<le> 1048576"
      using ok each [of "Saved_client junk x"] by (simp add: items_ok_def items_def)
  qed
  have Q2: "packed.all_ok (map (Saved_client junk) xs) q1" "m_tmp_msg_db q2 = m_tmp_msg_db q1" "m_mem (w_broker q2) = m_mem (w_broker q1)"
    "w_next_addr (w_broker q2) = w_next_addr (w_broker q1)" "\<forall>x \<in> set xs. client_restored (map_of (m_tmp_msg_db q1)) junk x (w_broker q2)"
    "fst ` set (m_client_msg (w_broker q2)) = ctx_client_id ` set xs"
    using clients_phase [OF cl, of q1] ok Q1(4) by (simp_all add: q2_def items_ok_def Let_def)
  let ?w2 = "w_broker q2" let ?w3 = "w_broker q3"
  have rw: "q3 = q2\<lparr>w_broker := fold (\<lambda>(t, b). apply_retain t b) tbs ?w2\<rparr>" by (simp add: q3_def retain_item_def)
  have Q3: "same_sessions ?w2 ?w3" "subscribed ?w3 = subscribed ?w2" "w_store (m_mem ?w3) = w_store (m_mem ?w2)" "w_next_addr ?w2 \<le> w_next_addr ?w3"
    "\<forall>a < w_next_addr ?w2. heap ?w3 a = heap ?w2 a" "\<forall>(t, b) \<in> set tbs. map_of (m_topic_mgr ?w2) t \<noteq> None \<longrightarrow> retained_as t b ?w3"
    using retains_phase [of tbs ?w2] ok by (simp_all add: rw items_ok_def Let_def)
  have tmp: "m_tmp_msg_db q3 = m_tmp_msg_db q1" using Q2(2) rw by simp
  have hp: "heap ?w3 a = heap (w_broker q1) a" if "a < w_next_addr (w_broker q1)" for a
    using Q3(5) that Q2(3,4) by (simp add: heap_def)
  have "packed.all_ok (items s bs junk xs tbs) p"
    using P1(4) Q1(1) Q2(1) ok each [of "Saved_retain tbs"] by (auto simp: items_def packed.all_ok_append retain_item_def items_ok_def saved_ok_def p1_def q1_def q2_def)
  moreover have "tmp_inv q3"
    using Q1(2) hp Q2(4) Q3(4) by (fastforce simp: tmp_inv_def tmp)
  moreover have "msg_restored b q3" if "b \<in> set bs" for b
    using Q1(3) that hp Q2(4) Q3(4) by (fastforce simp: msg_restored_def tmp)
  moreover have "client_restored (map_of (m_tmp_msg_db q3)) junk x ?w3" if "x \<in> set xs" for x
    using Q2(5) that Q3(1,2) by (simp add: client_restored_def tmp same_sessions_def)
  moreover have "retained_as t b ?w3" if "(t, b) \<in> set tbs" "x \<in> set xs" "t \<in> m_topic_name ` set (ctx_subcribe_topics x)" for t b x
  proof -
    have "map_of (m_topic_mgr ?w2) t \<noteq> None" using Q2(5) that(2,3) by (auto simp: client_restored_def subscribed_def)
    then show ?thesis using Q3(6) that(1) by auto
  qed
  ultimately show ?thesis
    using Q2(6) Q3(1,3) Q2(3) Q1(5) by (intro exI [of _ q3]) (auto simp: items_def same_sessions_def p1_def q1_def q2_def q3_def)
qed

lemma restore_clears:
  assumes "w_files p (m_file_name p) = Some f" "f \<noteq> []" "w_fopen_ok p" "restore_loop h f 0 (p\<lparr>m_db_file := Some 0\<rparr>) = Some (r, q)" "tmp_inv q"
  shows "\<exists>p' mem. restore_with h p = Some (r, p') \<and> w_broker p' = (w_broker q)\<lparr>m_mem := mem\<rparr> \<and>
    m_last_msg_id (w_store mem) = m_last_msg_id (mem_store q) \<and> (\<forall>a. buf_owned a (w_broker q) \<longrightarrow> w_heap mem a = heap (w_broker q) a)"
proof -
  let ?w = "w_broker q"
  obtain mem where mem: "release_bufs (map snd (m_tmp_msg_db q)) ?w = Some (?w\<lparr>m_mem := mem\<rparr>)"
    "m_last_msg_id (w_store mem) = m_last_msg_id (w_store (m_mem ?w))"
    "\<forall>a. a \<notin> set (map snd (m_tmp_msg_db q)) \<or> buf_owned a ?w \<longrightarrow> w_heap mem a = heap ?w a"
    using release_bufs_phase [of "map snd (m_tmp_msg_db q)" ?w] assms(5) by (auto simp: tmp_inv_def)
  have "restore_with h p = Some (r, q\<lparr>m_tmp_msg_db := [], w_broker := ?w\<lparr>m_mem := mem\<rparr>, m_db_file := None\<rparr>)"
    using assms(1-4) mem(1) by (auto simp: restore_with_def open_rb_def tmp_clear_def file_of_def dom_def)
  then show ?thesis using mem(2,3) by auto
qed

lemma restore_items:
  assumes ok: "items_ok s bs junk xs tbs" and p: "no_clients (w_broker p)" "m_tmp_msg_db p = []" "w_fopen_ok p"
    and db: "w_files p (m_file_name p) = Some (db_image (items s bs junk xs tbs))"
  shows "\<exists>p'. restore p = Some (0, p') \<and> m_last_msg_id (mem_store p') = m_last_msg_id s \<and>
    fst ` set (m_client_msg (w_broker p')) = ctx_client_id ` set xs \<and>
    (\<forall>x \<in> set xs. \<forall>qs. set qs \<subseteq> set bs \<longrightarrow> map m_mbuf_msg_id qs = ctx_send_msg_ids x \<longrightarrow> session_back junk x qs (w_broker p')) \<and>
    (\<forall>(t, b) \<in> set tbs. (\<exists>x \<in> set xs. t \<in> m_topic_name ` set (ctx_subcribe_topics x)) \<longrightarrow> retained_as t b (w_broker p'))"
proof -
  let ?its = "items s bs junk xs tbs" let ?p0 = "p\<lparr>m_db_file := Some 0\<rparr>"
  obtain q where q: "fold apply_saved ?its ?p0 = q" "packed.all_ok ?its ?p0" "tmp_inv q" "\<forall>b \<in> set bs. msg_restored b q"
    "\<forall>x \<in> set xs. client_restored (map_of (m_tmp_msg_db q)) junk x (w_broker q)" "fst ` set (m_client_msg (w_broker q)) = ctx_client_id ` set xs"
    "m_last_msg_id (mem_store q) = m_last_msg_id s"
    "\<forall>(t, b) \<in> set tbs. (\<exists>x \<in> set xs. t \<in> m_topic_name ` set (ctx_subcribe_topics x)) \<longrightarrow> retained_as t b (w_broker q)"
    using folded_items [OF ok, of ?p0] p by auto
  have img: "concat (map packed.item_chunk ?its) = db_image ?its" by (simp add: packed.item_chunk_def [abs_def] db_image_def)
  obtain buf where loop: "restore_loop restore_chunk (db_image ?its) 0 ?p0 = Some (0, q\<lparr>w_chunk_buf := buf\<rparr>)"
    using packed.reads_file [OF q(2)] q(1) img by auto
  have ne: "db_image ?its \<noteq> []" by (simp add: items_def db_image_Cons chunk_def)
  let ?w = "w_broker q"
  obtain p' mem where mem: "restore p = Some (0, p')" "w_broker p' = ?w\<lparr>m_mem := mem\<rparr>" "m_last_msg_id (w_store mem) = m_last_msg_id (mem_store q)"
    "\<forall>a. buf_owned a ?w \<longrightarrow> w_heap mem a = heap ?w a"
    using restore_clears [OF db ne p(3) loop] q(3) unfolding restore_def by (auto simp: tmp_inv_def)
  let ?w' = "?w\<lparr>m_mem := mem\<rparr>"
  note mem(1)
  moreover have "session_back junk x qs ?w'" if x: "x \<in> set xs" "set qs \<subseteq> set bs" "map m_mbuf_msg_id qs = ctx_send_msg_ids x" for x qs
    by (rule session_backI [OF _ _ _ x(3)]) (use q x mem in auto)
  moreover have "retained_as t b ?w'" if "retained_as t b ?w" for t b
    by (rule retained_as_mem [OF that]) (use mem in auto)
  then have "\<forall>(t, b) \<in> set tbs. (\<exists>x \<in> set xs. t \<in> m_topic_name ` set (ctx_subcribe_topics x)) \<longrightarrow> retained_as t b ?w'"
    using q(8) by blast
  ultimately show ?thesis using q(6,7) mem(2,3) by (intro exI [of _ p']) simp
qed

subsection \<open>A restart keeps the sessions\<close>

text \<open>
  The state the broker keeps while it runs: the message store is consistent, ids name clients and topics
  uniquely, a context knows its own client id, and a client waits for registered messages only.
\<close>

definition sound_client :: "u64 list \<Rightarrow> broker \<Rightarrow> cstring \<times> ctxid \<Rightarrow> bool" where
  "sound_client ord w ic \<longleftrightarrow>
     (case m_contexts w (snd ic) of
        None \<Rightarrow> False
      | Some x \<Rightarrow> ctx_client_id x = fst ic \<and> times_ok x \<and>
          list_all (\<lambda>a. case heap w a of None \<Rightarrow> False | Some b \<Rightarrow> registered b \<and> m_mbuf_msg_id b \<in> set ord) (ctx_send_msg_queue x))"

definition sound_sessions :: "u64 list \<Rightarrow> broker \<Rightarrow> bool" where
  "sound_sessions ord w \<longleftrightarrow> store_inv (m_mem w) \<and> distinct ord \<and> distinct (map fst (m_client_msg w)) \<and> distinct (map fst (m_topic_mgr w)) \<and>
     list_all (sound_client ord w) (m_client_msg w)"

definition session_kept :: "broker \<Rightarrow> ctmqtt_client_context \<Rightarrow> broker \<Rightarrow> bool" where
  "session_kept w x w' \<longleftrightarrow>
     (\<exists>c y. map_of (m_client_msg w') (ctx_client_id x) = Some c \<and> m_contexts w' c = Some y \<and>
        ctx_client_id y = ctx_client_id x \<and> ctx_user_name y = ctx_user_name x \<and> ctx_clean_session y = Some False \<and>
        ctx_mqtt_connection y = None \<and> ctx_subcribe_topics y = ctx_subcribe_topics x \<and>
        map (contents w') (ctx_send_msg_queue y) = map (contents w) (ctx_send_msg_queue x) \<and>
        (\<forall>t \<in> set (ctx_subcribe_topics x). subscribed w' (m_topic_name t) c))"

definition retained_kept :: "broker \<Rightarrow> cstring \<Rightarrow> broker \<Rightarrow> bool" where
  "retained_kept w t w' \<longleftrightarrow>
     (\<forall>n a. map_of (m_topic_mgr w) t = Some n \<longrightarrow> m_retian_msg_buf n = Some a \<longrightarrow> contents w a \<noteq> [] \<longrightarrow>
        (\<exists>n' a'. map_of (m_topic_mgr w') t = Some n' \<and> m_retian_msg_buf n' = Some a' \<and> contents w' a' = contents w a))"

definition session_contexts :: "broker \<Rightarrow> ctmqtt_client_context list" where
  "session_contexts w = map (\<lambda>ic. the (m_contexts w (snd ic))) (filter (persistent w) (m_client_msg w))"

lemma retained_bufs_mem:
  assumes "retained_bufs h tm = Some tbs" "(t, n) \<in> set tm" "m_retian_msg_buf n = Some a" "h a = Some b" "mbuf_length b \<noteq> 0"
  shows "(t, b) \<in> set tbs"
  using assms by (induction h tm arbitrary: tbs rule: retained_bufs.induct) (auto split: option.splits bind_splits if_splits)

lemma retained_bufs_sub: "retained_bufs h tm = Some tbs \<Longrightarrow> fst ` set tbs \<subseteq> fst ` set tm"
proof (induction h tm arbitrary: tbs rule: retained_bufs.induct)
  case (2 h t n tm)
  show ?case
  proof (cases "m_retian_msg_buf n")
    case None
    then show ?thesis using 2 by auto
  next
    case (Some a)
    then obtain b bs where "h a = Some b" "retained_bufs h tm = Some bs" "tbs = (if mbuf_length b \<le> 0 then bs else (t, b) # bs)"
      using 2(3) by (auto split: bind_splits)
    then show ?thesis using 2(2) [OF Some] by (auto split: if_splits)
  qed
qed simp

lemma retained_bufs_keys: "retained_bufs h tm = Some tbs \<Longrightarrow> distinct (map fst tm) \<Longrightarrow> distinct (map fst tbs)"
proof (induction h tm arbitrary: tbs rule: retained_bufs.induct)
  case (2 h t n tm)
  show ?case
  proof (cases "m_retian_msg_buf n")
    case None
    then show ?thesis using 2 by auto
  next
    case (Some a)
    then obtain b bs where bs: "h a = Some b" "retained_bufs h tm = Some bs" "tbs = (if mbuf_length b \<le> 0 then bs else (t, b) # bs)"
      using 2(3) by (auto split: bind_splits)
    then have "distinct (map fst bs)" "t \<notin> fst ` set bs" using 2(2) [OF Some] 2(4) retained_bufs_sub [OF bs(2)] by auto
    then show ?thesis using bs(3) by simp
  qed
qed simp

lemma saved_msgs_ids:
  assumes "store_inv (m_mem w)" "distinct ord"
  shows "distinct (map m_mbuf_msg_id (saved_msgs ord w))" "\<forall>b \<in> set (saved_msgs ord w). m_mbuf_msg_id b \<noteq> 0"
    and "heap w a = Some b \<Longrightarrow> registered b \<Longrightarrow> m_mbuf_msg_id b \<in> set ord \<Longrightarrow> b \<in> set (saved_msgs ord w)"
proof -
  let ?db = "m_msg_db (w_store (m_mem w))"
  have ok: "store_ok (heap w) ?db (m_last_msg_id (w_store (m_mem w)))" using assms(1) by (simp add: store_inv_def heap_def)
  have live: "\<exists>b. heap w a = Some b \<and> registered b \<and> m_mbuf_msg_id b = i" if "?db i = Some a" for i a
    using store_ok_live [OF ok that] .
  have ids: "map m_mbuf_msg_id (saved_msgs is w) = filter (\<lambda>i. ?db i \<noteq> None) is" for "is"
    using live by (induction "is") (fastforce simp: saved_msgs_def split: option.splits)+
  show "distinct (map m_mbuf_msg_id (saved_msgs ord w))" using assms(2) by (simp add: ids)
  show "\<forall>b \<in> set (saved_msgs ord w). m_mbuf_msg_id b \<noteq> 0"
    using live by (fastforce simp: saved_msgs_def registered_def List.map_filter_def)
  show "heap w a = Some b \<Longrightarrow> registered b \<Longrightarrow> m_mbuf_msg_id b \<in> set ord \<Longrightarrow> b \<in> set (saved_msgs ord w)"
    using store_ok_find [OF ok, of a b] by (force simp: saved_msgs_def List.map_filter_def)
qed

definition retained_list :: "broker \<Rightarrow> (cstring \<times> cmbuf) list" where
  "retained_list w = sort_key fst (the (retained_bufs (heap w) (m_topic_mgr w)))"

lemma snapshot_items:
  "snapshot ord w = items (w_store (m_mem w)) (saved_msgs ord w) (w_junk w) (map (stored_context w) (session_contexts w)) (retained_list w)"
  by (simp add: snapshot_def items_def saved_client_def [abs_def] session_contexts_def saved_retained_def retain_item_def retained_list_def Let_def)
    (metis length_0_conv length_sort)

lemma snapshot_ok:
  assumes st: "storable ord p" and so: "sound_sessions ord (w_broker p)"
  shows "items_ok (w_store (m_mem (w_broker p))) (saved_msgs ord (w_broker p)) (w_junk (w_broker p))
    (map (stored_context (w_broker p)) (session_contexts (w_broker p))) (retained_list (w_broker p))"
proof -
  let ?w = "w_broker p"
  obtain tbs where tbs: "retained_bufs (heap ?w) (m_topic_mgr ?w) = Some tbs" "list_all (mbuf_wf \<circ> snd) tbs"
    "list_all (\<lambda>tb. pack_string (fst tb) \<noteq> None) tbs" "length tbs \<le> 0xFFFFFFFF"
    using st by (auto simp: storable_def Let_def split: option.splits)
  have sz: "length (saved_body it) \<le> 1048576" if "it \<in> set (snapshot ord ?w)" for it
    using st that by (simp add: storable_def Let_def list_all_iff)
  have wf: "mbuf_wf b" if "b \<in> set (saved_msgs ord ?w)" for b
    using st that by (fastforce simp: storable_def Let_def list_all_iff saved_msgs_def split: option.splits)
  have cl: "pack_context (w_junk ?w) (stored_context ?w x) \<noteq> None" "times_ok x" if x: "x \<in> set (session_contexts ?w)" for x
  proof -
    obtain i c where ic: "(i, c) \<in> set (m_client_msg ?w)" "persistent ?w (i, c)" "x = the (m_contexts ?w c)"
      using x by (auto simp: session_contexts_def)
    then have "storable_client p ?w (i, c)" "sound_client ord ?w (i, c)"
      using st so by (auto simp: storable_def sound_sessions_def Let_def list_all_iff)
    then show "pack_context (w_junk ?w) (stored_context ?w x) \<noteq> None" "times_ok x"
      using ic(2,3) by (auto simp: storable_client_def sound_client_def persistent_def split: option.splits)
  qed
  have ok: "mp_ok (saved_object it)" if it: "it \<in> set (snapshot ord ?w)" for it
  proof -
    consider "it = Saved_info (w_store (m_mem ?w))" | b where "it = Saved_msg b" "b \<in> set (saved_msgs ord ?w)"
      | x where "it = Saved_client (w_junk ?w) (stored_context ?w x)" "x \<in> set (session_contexts ?w)"
      | "it = Saved_retain (retained_list ?w)"
      using it unfolding snapshot_items by (auto simp: items_def retain_item_def split: if_splits)
    then show ?thesis
    proof cases
      case 1
      then show ?thesis using packs_mem_store by (simp add: packs_def)
    next
      case 2
      then show ?thesis using packs_mbuf wf by (simp add: packs_def)
    next
      case 3
      then show ?thesis using packs_context cl(1) by (fastforce simp: packs_def)
    next
      case 4
      then show ?thesis using packs_retained [of "retained_list ?w"] tbs by (simp add: packs_def retained_list_def list_all_iff)
    qed
  qed
  have ids: "ctx_client_id (the (m_contexts ?w (snd ic))) = fst ic" if "ic \<in> set (m_client_msg ?w)" for ic
    using so that by (fastforce simp: sound_sessions_def list_all_iff sound_client_def split: option.splits)
  have "map (ctx_client_id \<circ> stored_context ?w) (session_contexts ?w) = map fst (filter (persistent ?w) (m_client_msg ?w))"
    using ids by (auto simp: session_contexts_def stored_context_def)
  then have "distinct (map (ctx_client_id \<circ> stored_context ?w) (session_contexts ?w))"
    using so by (simp add: sound_sessions_def distinct_map_filter)
  moreover have "times_ok (stored_context ?w x) = times_ok x" for x by (simp add: times_ok_def stored_context_def)
  moreover have "\<forall>(t, b) \<in> set (retained_list ?w). mbuf_wf b" using tbs by (auto simp: retained_list_def list_all_iff)
  moreover have "distinct (map fst (retained_list ?w))"
  proof -
    have "distinct (map fst tbs)" using retained_bufs_keys [OF tbs(1)] so by (simp add: sound_sessions_def)
    then show ?thesis by (simp add: retained_list_def tbs(1) distinct_map)
  qed
  ultimately show ?thesis
    using ok sz wf cl(2) saved_msgs_ids [of ?w ord] so
    unfolding items_ok_def snapshot_items by (auto simp: sound_sessions_def)
qed

lemma session_keptI:
  assumes so: "sound_sessions ord w" and x: "x \<in> set (session_contexts w)"
    and bk: "\<And>qs. set qs \<subseteq> set (saved_msgs ord w) \<Longrightarrow> map m_mbuf_msg_id qs = ctx_send_msg_ids (stored_context w x) \<Longrightarrow>
      session_back junk (stored_context w x) qs w'"
  shows "session_kept w x w'"
proof -
  obtain i c where ic: "(i, c) \<in> set (m_client_msg w)" "persistent w (i, c)" "x = the (m_contexts w c)"
    using x by (auto simp: session_contexts_def)
  have "sound_client ord w (i, c)" using so ic(1) by (auto simp: sound_sessions_def list_all_iff)
  then have clean: "ctx_clean_session x = Some False"
    and queue: "\<And>a. a \<in> set (ctx_send_msg_queue x) \<Longrightarrow> \<exists>b. heap w a = Some b \<and> registered b \<and> m_mbuf_msg_id b \<in> set ord"
    using ic(2,3) by (auto simp: sound_client_def persistent_def list_all_iff split: option.splits)
  let ?qs = "map (\<lambda>a. the (heap w a)) (ctx_send_msg_queue x)"
  have "set ?qs \<subseteq> set (saved_msgs ord w)"
    using queue saved_msgs_ids(3) [of w ord] so by (fastforce simp: sound_sessions_def)
  then have "session_back junk (stored_context w x) ?qs w'" by (intro bk) (simp_all add: stored_context_def)
  then obtain d q where d: "map_of (m_client_msg w') (ctx_client_id x) = Some d"
    "m_contexts w' d = Some ((restored_context junk (stored_context w x))\<lparr>ctx_send_msg_queue := q\<rparr>)"
    "map (contents w') q = map mbuf_contents ?qs" "\<forall>t \<in> set (ctx_subcribe_topics x). subscribed w' (m_topic_name t) d"
    by (auto simp: session_back_def stored_context_def)
  have "map mbuf_contents ?qs = map (contents w) (ctx_send_msg_queue x)" using queue by (force simp: contents_def)
  then show ?thesis
    using d clean unfolding session_kept_def
    by (intro exI [of _ d] exI [of _ "(restored_context junk (stored_context w x))\<lparr>ctx_send_msg_queue := q\<rparr>"])
      (simp add: restored_context_def CTMqttClientContext_def stored_context_def stored_bool_def)
qed

lemma retained_keptI:
  assumes tbs: "retained_bufs (heap w) (m_topic_mgr w) = Some tbs" and ret: "\<And>b. (t, b) \<in> set tbs \<Longrightarrow> retained_as t b w'"
  shows "retained_kept w t w'"
  unfolding retained_kept_def
proof (intro allI impI)
  fix n a assume n: "map_of (m_topic_mgr w) t = Some n" "m_retian_msg_buf n = Some a" "contents w a \<noteq> []"
  obtain b where b: "heap w a = Some b" "mbuf_contents b \<noteq> []" using n(3) by (auto simp: contents_def split: option.splits)
  have "mbuf_length b \<noteq> 0" using b(2) by (auto simp: mbuf_length_def mbuf_contents_def)
  then have "(t, b) \<in> set tbs"
    using retained_bufs_mem [OF tbs map_of_SomeD [OF n(1)] n(2) b(1)] by simp
  from ret [OF this] show "\<exists>n' a'. map_of (m_topic_mgr w') t = Some n' \<and> m_retian_msg_buf n' = Some a' \<and> contents w' a' = contents w a"
    using b(1) by (auto simp: retained_as_def contents_def)
qed

lemma stats_irrelevant:
  "snapshot ord (w\<lparr>m_msg_stats := st\<rparr>) = snapshot ord w"
  "storable ord (p\<lparr>w_broker := (w_broker p)\<lparr>m_msg_stats := st\<rparr>\<rparr>) = storable ord p"
proof -
  have s: "stored_context (w\<lparr>m_msg_stats := st\<rparr>) = stored_context w" for w by (simp add: stored_context_def fun_eq_iff)
  show 1: "snapshot ord (w\<lparr>m_msg_stats := st\<rparr>) = snapshot ord w" for w
    by (simp add: snapshot_def saved_msgs_def saved_client_def [abs_def] saved_retained_def persistent_def [abs_def] s)
  have c: "storable_client (p\<lparr>w_broker := v\<rparr>) (w\<lparr>m_msg_stats := st\<rparr>) = storable_client p w" for v w
    by (auto simp: storable_client_def fun_eq_iff not_idle_def s split: option.split)
  show "storable ord (p\<lparr>w_broker := (w_broker p)\<lparr>m_msg_stats := st\<rparr>\<rparr>) = storable ord p"
    by (simp add: storable_def Let_def 1 c)
qed

text \<open>
  C2. Persistent sessions survive a restart. The broker stores its state, ends, and a new one without clients restores it
  from the file: every session that is not clean is there again under its client id, off line, with its
  subscriptions, registered for each of its topics, and with the messages it waits for in the same order
  with the same contents; there are no other clients; the message ids continue where they ended; and the
  topics that one of these sessions has subscribed have their retained messages.

  What the theorem does not promise is lost: the retained message of a topic without such a subscriber is in the file but
  not taken over. It assumes that the waiting messages are registered in the message store (\<open>sound_sessions\<close>): those that the
  bridge client hands over are not, and a session loses them. Further, no client is idle beyond the
  limit, the buffers are live, strings and chunks have storable sizes (\<open>storable\<close>: no chunk above one megabyte), and the
  whole file fits on the disk.
\<close>

theorem sessions_survive_restart:
  assumes "storable ord p" "sound_sessions ord (w_broker p)" "w_fopen_ok p"
    and "length (db_image (snapshot ord (w_broker p))) \<le> w_room p" "no_clients w0"
  shows "\<exists>p1 p2. store ord True p = Some (0, p1) \<and>
    restore (CPersist (m_file_name p) (w_files p1) room idle w0) = Some (0, p2) \<and>
    (\<forall>x \<in> set (session_contexts (w_broker p)). session_kept (w_broker p) x (w_broker p2) \<and>
       (\<forall>t \<in> set (ctx_subcribe_topics x). retained_kept (w_broker p) (m_topic_name t) (w_broker p2))) \<and>
    fst ` set (m_client_msg (w_broker p2)) = ctx_client_id ` set (session_contexts (w_broker p)) \<and>
    m_last_msg_id (mem_store p2) = m_last_msg_id (mem_store p)"
proof -
  let ?w = "w_broker p"
  define st where "st = snd (stat_flush (w_now ?w) (m_msg_stats ?w))"
  let ?p = "p\<lparr>w_broker := ?w\<lparr>m_msg_stats := st\<rparr>\<rparr>"
  let ?xs = "map (stored_context ?w) (session_contexts ?w)"
  obtain p1 where p1: "store ord True p = Some (0, p1)" "w_files p1 (m_file_name p) = Some (db_image (snapshot ord ?w))"
    using store_file_writes [of ord ?p] assms(1,3,4) by (auto simp: store_def st_def Let_def stats_irrelevant store_result_def fits_between_def)
  let ?r = "CPersist (m_file_name p) (w_files p1) room idle w0"
  obtain p2 where p2: "restore ?r = Some (0, p2)" "m_last_msg_id (mem_store p2) = m_last_msg_id (mem_store p)"
    "fst ` set (m_client_msg (w_broker p2)) = ctx_client_id ` set ?xs"
    "\<forall>x \<in> set ?xs. \<forall>qs. set qs \<subseteq> set (saved_msgs ord ?w) \<longrightarrow> map m_mbuf_msg_id qs = ctx_send_msg_ids x \<longrightarrow> session_back (w_junk ?w) x qs (w_broker p2)"
    "\<forall>(t, b) \<in> set (retained_list ?w). (\<exists>x \<in> set ?xs. t \<in> m_topic_name ` set (ctx_subcribe_topics x)) \<longrightarrow> retained_as t b (w_broker p2)"
    using restore_items [OF snapshot_ok [OF assms(1,2)], of ?r] p1(2) assms(5) unfolding snapshot_items by (auto simp: CPersist_def)
  have kept: "session_kept ?w x (w_broker p2)" if "x \<in> set (session_contexts ?w)" for x
    by (rule session_keptI [OF assms(2) that, of "w_junk ?w"]) (use p2(4) that in simp)
  have ret: "retained_kept ?w (m_topic_name t) (w_broker p2)" if "x \<in> set (session_contexts ?w)" "t \<in> set (ctx_subcribe_topics x)" for x t
  proof (rule retained_keptI)
    show "retained_bufs (heap ?w) (m_topic_mgr ?w) = Some (the (retained_bufs (heap ?w) (m_topic_mgr ?w)))"
      using assms(1) by (auto simp: storable_def Let_def split: option.splits)
    show "retained_as (m_topic_name t) b (w_broker p2)" if "(m_topic_name t, b) \<in> set (the (retained_bufs (heap ?w) (m_topic_mgr ?w)))" for b
      using p2(5) that \<open>x \<in> _\<close> \<open>t \<in> _\<close> by (fastforce simp: stored_context_def retained_list_def)
  qed
  have "ctx_client_id ` set ?xs = ctx_client_id ` set (session_contexts ?w)" by (simp add: image_image stored_context_def)
  then show ?thesis using p1(1) p2(1,2,3) kept ret by (intro exI [of _ p1] exI [of _ p2]) auto
qed

definition demo_msg :: cmbuf where
  "demo_msg = (CMbuf [0x32, 1, 2] 5)\<lparr>m_write_pos := 3, m_mbuf_msg_id := 7, m_mem_db := True\<rparr>"

definition demo_retained :: cmbuf where
  "demo_retained = (CMbuf [0x33, 9] 5)\<lparr>m_write_pos := 2\<rparr>"

definition demo_context :: ctmqtt_client_context where
  "demo_context = (CTMqttClientContext None)\<lparr>ctx_client_id := cstr ''c'', ctx_clean_session := Some False,
     ctx_send_msg_queue := [1], ctx_subcribe_topics := [CTopic (cstr ''t'') 1]\<rparr>"

definition demo_broker :: broker where
  "demo_broker = two_subscribers\<lparr>m_mem := \<lparr>w_heap = [1 \<mapsto> demo_msg, 2 \<mapsto> demo_retained],
       w_store = \<lparr>m_last_msg_id = 9, m_msg_db = [7 \<mapsto> 1], m_last_update_time = 5\<rparr>\<rparr>,
     m_contexts := [0 \<mapsto> demo_context], m_client_msg := [(cstr ''c'', 0)],
     m_topic_mgr := [(cstr ''t'', \<lparr>m_retian_msg_buf = Some 2, m_subcriber_clients = [0]\<rparr>)], w_junk := 0\<rparr>"

definition demo_persist :: persist_world where
  "demo_persist = CPersist (cstr ''db'') Map.empty (10000, \<lambda>n. n mod 4096) 300 demo_broker"

lemmas demo_defs = demo_broker_def demo_msg_def demo_retained_def demo_context_def heap_def two_subscribers_def CTMqttClientContext_def CMbuf_def

lemmas pack_defs = pack_str_def pack_bin_def pack_array_def pack_map_def pack_imp_uint64_def pack_imp_int64_def pack_imp_uint8_def
  pack_imp_uint16_def pack_imp_uint32_def pack_true_def pack_false_def

definition demo_stored :: ctmqtt_client_context where
  "demo_stored = demo_context\<lparr>ctx_send_msg_ids := [7]\<rparr>"

lemma demo_parts:
  "heap demo_broker = [1 \<mapsto> demo_msg, 2 \<mapsto> demo_retained]" "m_msg_db (w_store (m_mem demo_broker)) = [7 \<mapsto> 1]"
  "m_contexts demo_broker = [0 \<mapsto> demo_context]" "m_client_msg demo_broker = [(cstr ''c'', 0)]" "w_junk demo_broker = 0"
  "m_topic_mgr demo_broker = [(cstr ''t'', \<lparr>m_retian_msg_buf = Some 2, m_subcriber_clients = [0]\<rparr>)]"
  "retained_bufs (heap demo_broker) (m_topic_mgr demo_broker) = Some [(cstr ''t'', demo_retained)]"
  "stored_context demo_broker demo_context = demo_stored" "persistent demo_broker (cstr ''c'', 0)"
  "mbuf_wf demo_msg" "mbuf_wf demo_retained" "registered demo_msg" "m_mbuf_msg_id demo_msg = 7"
  by (simp_all add: demo_defs stored_context_def demo_stored_def persistent_def mbuf_wf_def registered_def mbuf_length_def)

lemma demo_snapshot:
  "snapshot [7] demo_broker = [Saved_info (w_store (m_mem demo_broker)), Saved_msg demo_msg, Saved_client 0 demo_stored,
     Saved_retain [(cstr ''t'', demo_retained)]]"
proof -
  have "mbuf_length demo_retained \<noteq> 0" by (simp add: demo_retained_def CMbuf_def mbuf_length_def)
  then show ?thesis by (simp add: snapshot_def saved_msgs_def saved_retained_def saved_client_def demo_parts)
qed

lemma demo_pack: "pack_context 0 demo_stored \<noteq> None"
  by (simp add: demo_stored_def demo_context_def CTMqttClientContext_def pack_context_def define_array_pack_def pack_string_def pack_vector_def
      pack_topic_def checked_get_container_size_def cstr_def CTopic_def)

lemma demo_sizes: "list_all (\<lambda>it. length (saved_body it) \<le> 500) (snapshot [7] demo_broker)"
  unfolding demo_snapshot
  by (simp add: saved_body_def mem_store_object_def mbuf_object_def retain_object_def context_object_def Let_def topic_object_def
      demo_stored_def demo_defs cstr_def CTopic_def int_object_def stored_time_def stored_word_def stored_bool_def pack_defs)

lemma demo_storable:
  "storable [7] demo_persist" "sound_sessions [7] (w_broker demo_persist)" "length (db_image (snapshot [7] demo_broker)) \<le> 4000"
proof -
  have w: "w_broker demo_persist = demo_broker" by (simp add: demo_persist_def CPersist_def)
  have "list_all (\<lambda>it. length (saved_body it) \<le> 1048576) (snapshot [7] demo_broker)"
    using demo_sizes by (auto simp: list_all_iff)
  then show "storable [7] demo_persist"
    using demo_pack exI [of Not False] by (simp add: storable_def w demo_parts storable_client_def pack_string_def checked_get_container_size_def cstr_def)
      (auto simp: not_idle_def demo_context_def CTMqttClientContext_def demo_parts)
  show "sound_sessions [7] (w_broker demo_persist)"
  proof -
    have "\<not> registered demo_retained" "m_last_msg_id (w_store (m_mem demo_broker)) = 9" by (simp_all add: demo_defs registered_def)
    moreover have "w_heap (m_mem demo_broker) = [1 \<mapsto> demo_msg, 2 \<mapsto> demo_retained]" using demo_parts(1) by (simp add: heap_def)
    ultimately have "store_inv (m_mem demo_broker)"
      using demo_parts by (auto simp: store_inv_def store_ok_def split: if_splits)
    then show ?thesis
      by (simp add: w sound_sessions_def demo_parts sound_client_def demo_context_def CTMqttClientContext_def times_ok_def)
  qed
  show "length (db_image (snapshot [7] demo_broker)) \<le> 4000"
    using demo_sizes by (simp add: demo_snapshot db_image_def)
qed

theorem sessions_survive_restart_witness:
  "\<exists>p1 p2. store [7] True demo_persist = Some (0, p1) \<and>
    restore (CPersist (cstr ''db'') (w_files p1) (0, \<lambda>_. 0) 300 (demo_broker\<lparr>m_client_msg := [], m_topic_mgr := []\<rparr>)) = Some (0, p2) \<and>
    session_kept demo_broker demo_context (w_broker p2) \<and> retained_kept demo_broker (cstr ''t'') (w_broker p2)"
proof -
  have w: "w_broker demo_persist = demo_broker" "w_fopen_ok demo_persist" "w_room demo_persist = 10000" "m_file_name demo_persist = cstr ''db''"
    by (simp_all add: demo_persist_def CPersist_def)
  have "no_clients (demo_broker\<lparr>m_client_msg := [], m_topic_mgr := []\<rparr>)" by (simp add: no_clients_def)
  moreover have "session_contexts demo_broker = [demo_context]" by (simp add: session_contexts_def demo_parts)
  moreover have "map m_topic_name (ctx_subcribe_topics demo_context) = [cstr ''t'']" by (simp add: demo_context_def CTopic_def)
  ultimately show ?thesis
    using sessions_survive_restart [OF demo_storable(1,2), of "demo_broker\<lparr>m_client_msg := [], m_topic_mgr := []\<rparr>" "(0, \<lambda>_. 0)" 300] demo_storable(3)
    by (auto simp: w)
qed

subsection \<open>Failures\<close>

lemma store_forced:
  assumes "storable ord p" "w_fopen_ok p"
  shows "\<exists>r p1. store ord True p = Some (r, p1) \<and> store_result p (length (db_image (snapshot ord (w_broker p)))) r \<and>
    w_files p1 (m_file_name p) = Some (take (w_room p) (db_image (snapshot ord (w_broker p))))"
proof -
  let ?w = "w_broker p"
  define st where "st = snd (stat_flush (w_now ?w) (m_msg_stats ?w))"
  show ?thesis
    using store_file_writes [of ord "p\<lparr>w_broker := ?w\<lparr>m_msg_stats := st\<rparr>\<rparr>"] assms
    by (auto simp: store_def st_def Let_def stats_irrelevant store_result_def fits_between_def)
qed

text \<open>
  C38. A store on a disk that can take \<open>w_room\<close> bytes. The file holds the part of the new database that fits: the one
  before it is gone, since the file is truncated first. The result is -1 only if the disk had no room for bytes that left
  the buffer of the library: it is 0 if the bytes forced out by each write fit, even when the last ones, which leave the
  buffer with \<^verbatim>\<open>fflush\<close>, do not and the database is cut; and it is -1 if the disk has no room for what has left the
  buffer behind the last write.
\<close>

theorem store_on_full_disk:
  assumes "storable ord p" "w_fopen_ok p"
  defines "img \<equiv> db_image (snapshot ord (w_broker p))"
  shows "\<exists>r p1. store ord True p = Some (r, p1) \<and> w_files p1 (m_file_name p) = Some (take (w_room p) img) \<and> (r = 0 \<or> r = -1) \<and>
    ((\<forall>n. 0 < n \<and> n \<le> length img \<longrightarrow> n - w_stdio p n \<le> w_room p) \<longrightarrow> r = 0) \<and>
    (w_room p < length img - w_stdio p (length img) \<longrightarrow> r = -1)"
  using store_forced [OF assms(1,2)] by (auto simp: img_def store_result_def fits_between_def)

lemma storable_client_same: "storable_client (p\<lparr>w_disk := r, w_files := f\<rparr>) = storable_client p"
  by (auto simp: storable_client_def not_idle_def fun_eq_iff split: option.split)

text \<open>The disk takes three bytes. With a buffer of 4096 bytes the result is 0, without a buffer it is -1.\<close>

theorem store_on_full_disk_witness:
  "(\<exists>p1. store [7] True (demo_persist\<lparr>w_disk := (3, \<lambda>n. n mod 4096), w_files := [cstr ''db'' \<mapsto> [1, 2, 3, 4]]\<rparr>) = Some (0, p1) \<and>
      w_files p1 (cstr ''db'') = Some [0xEE, 1, 3]) \<and>
   (\<exists>p1. store [7] True (demo_persist\<lparr>w_disk := (3, \<lambda>_. 0), w_files := [cstr ''db'' \<mapsto> [1, 2, 3, 4]]\<rparr>) = Some (-1, p1) \<and>
      w_files p1 (cstr ''db'') = Some [0xEE, 1, 3])"
proof -
  let ?p = "\<lambda>d. demo_persist\<lparr>w_disk := d, w_files := [cstr ''db'' \<mapsto> [1, 2, 3, 4]]\<rparr>"
  have e: "storable [7] (?p d) = storable [7] demo_persist" "w_fopen_ok (?p d)" "w_broker (?p d) = demo_broker" "m_file_name (?p d) = cstr ''db''" for d
    by (simp add: storable_def Let_def storable_client_same) (simp_all add: demo_persist_def CPersist_def)
  have "saved_body (Saved_info (w_store (m_mem demo_broker))) = [0x92, 9, 5]"
    by (simp add: saved_body_def mem_store_object_def demo_broker_def pack_defs)
  then obtain rest where img: "db_image (snapshot [7] demo_broker) = [0xEE, 1, 3] @ rest" "rest \<noteq> []"
    using le_bytes.simps(2) [of 3 3] by (auto simp: demo_snapshot db_image_Cons chunk_def numeral_3_eq_3 [symmetric])
  have small: "length rest \<le> 4000" using demo_storable(3) by (simp add: img)
  have "n - n mod 4096 \<le> 3" if "n \<le> Suc (Suc (Suc (length rest)))" for n using that small by simp
  then show ?thesis
    using store_on_full_disk [of "[7]" "?p (3, \<lambda>n. n mod 4096)"] store_on_full_disk [of "[7]" "?p (3, \<lambda>_. 0)"] demo_storable(1) e img by auto
qed

text \<open>
  C36. A database that ends inside a chunk, as after a store on a full disk: the loop over the chunks ends
  with -1, in the state it reached after the chunks in front of the cut; the function for the chunk that
  is cut is not called.
\<close>

theorem restore_cut_file:
  assumes "restore_loop restore_chunk db 0 p = Some (0, q)" "length body \<le> 1048576" "0 < n" "n < length (chunk ty body)"
  shows "\<exists>buf. restore_loop restore_chunk (db @ take n (chunk ty body)) 0 p = Some (-1, q\<lparr>w_chunk_buf := buf\<rparr>)"
  using restore_loop_append [OF assms(1)] restore_loop_cut [OF assms(2-4)] by simp

theorem restore_cut_file_witness:
  "\<exists>q buf. restore_loop restore_chunk (db_image [Saved_info (CMsgMemStore 4)]) 0 demo_persist = Some (0, q) \<and>
     restore_loop restore_chunk (db_image [Saved_info (CMsgMemStore 4)] @ take 5 (chunk 2 [7])) 0 demo_persist = Some (-1, q\<lparr>w_chunk_buf := buf\<rparr>)"
proof -
  have "mp_ok (mem_store_object (CMsgMemStore 4))" using packs_mem_store by (simp add: packs_def)
  then have "packed.all_ok [Saved_info (CMsgMemStore 4)] demo_persist"
    by (simp add: saved_ok_def saved_body_def mem_store_object_def CMsgMemStore_def pack_defs)
  then obtain q where "restore_loop restore_chunk (db_image [Saved_info (CMsgMemStore 4)]) 0 demo_persist = Some (0, q)"
    using packed.reads_file by (fastforce simp: db_image_def packed.item_chunk_def)
  then show ?thesis using restore_cut_file [of _ demo_persist q "[7]" 5 2] by auto
qed

end
