(* ===== verification/Notify.thy ===== *)
theory Notify
  imports Mqtt_Connection
begin

text \<open>
  Notifications from other threads: \<^verbatim>\<open>src/mqtt_server/poller_notify.cpp\<close>. A thread hands a message to the
  broker by \<^verbatim>\<open>notify\<close>, which appends it to the queue of the poller and writes to an event descriptor; the broker's
  thread reads the descriptor and publishes what is queued. Handlers of the two threads
  run one after the other here: \<^verbatim>\<open>notify\<close> takes the lock of the queue but \<^verbatim>\<open>pop_front\<close> does not, and what a data
  race between them does has no value in the language.

  The reader and writer over a socket pair (\<^verbatim>\<open>CPollerNotify\<close>) are the predecessor of the event descriptor, which
  the broker does not create any more.
\<close>

subsection \<open>CPollerNotifyFd\<close>

text \<open>The eight bytes of the counter increment.\<close>

definition CPollerNotifyFd_notify :: "hid \<Rightarrow> broker \<Rightarrow> (int \<times> broker) option" where
  "CPollerNotifyFd_notify h w =
     do {
       hd \<leftarrow> m_handlers w h;
       Some (os_write (m_sock_handle hd) h (le_bytes 8 1) w)
     }"

text \<open>\<open>efd\<close> is the result of \<^verbatim>\<open>eventfd\<close>.\<close>

definition CPollerNotifyFd_open :: "int \<Rightarrow> cstring \<Rightarrow> hid \<Rightarrow> broker \<Rightarrow> (int \<times> broker) option" where
  "CPollerNotifyFd_open efd peer h w =
     do {
       hd \<leftarrow> m_handlers w h;
       (_, w) \<leftarrow> CEventHandler_open peer h (upd_handler h (m_sock_handle_update (\<lambda>_. efd)) w);
       Some (0, if m_reactor_ptr hd then regist_notify h w else w)
     }"

text \<open>\<^verbatim>\<open>handle_close\<close> of the base class ends with \<^verbatim>\<open>delete this\<close>, which runs the destructor of this class.\<close>

definition CPollerNotifyFd_handle_close :: "hid \<Rightarrow> broker \<Rightarrow> (int \<times> broker) option" where
  "CPollerNotifyFd_handle_close h w =
     do {
       (_, w) \<leftarrow> CEventHandler_close h w;
       hd \<leftarrow> m_handlers w h;
       Some (0, delete_handler h (if m_reactor_ptr hd then unregist_notify w else w))
     }"

text \<open>
  The loop over the queue. \<open>bridge\<close> is the configured mode; a message that is not a publish message is skipped.
\<close>

definition deal_msg :: "int \<Rightarrow> addr \<Rightarrow> broker \<Rightarrow> (int \<times> broker) option" where
  "deal_msg bridge a w =
     do {
       b \<leftarrow> heap w a;
       if m_mbuf_msg_type b = MSG_PUBLISH then do {
         (r, msg) \<leftarrow> CMqttPublish_decode (CMqttPublish (read_ptr b) (mbuf_length b));
         if r < 0 then Some (-1, w)
         else do {
           (_, w) \<leftarrow> (if bridge \<le> 0 then publish handle_close (m_str_topic_name msg) a msg w
                      else publish_all handle_close a w);
           Some (0, w)
         }
       }
       else Some (0, w)
     }"

partial_function (option) notify_loop :: "int \<Rightarrow> broker \<Rightarrow> (int \<times> broker) option" where
  "notify_loop bridge w =
     (case pop_front w of (res, mbuf, w) \<Rightarrow>
        if res = -1 then Some (0, w)
        else do {
          a \<leftarrow> mbuf;
          (r, w) \<leftarrow> deal_msg bridge a w;
          if r < 0 then Some (-1, w) else notify_loop bridge w
        })"

text \<open>What is read from the descriptor is not looked at.\<close>

definition CPollerNotifyFd_handle_input :: "int \<Rightarrow> read_res \<Rightarrow> hid \<Rightarrow> broker \<Rightarrow> (int \<times> broker) option" where
  "CPollerNotifyFd_handle_input bridge rd h w =
     do { _ \<leftarrow> m_handlers w h; notify_loop bridge (case rd of Read _ \<Rightarrow> w | Read_error e \<Rightarrow> w\<lparr>w_errno := e\<rparr>) }"

subsection \<open>CPollerNotify: the socket pair\<close>

text \<open>The buffer position of the reader has no initial value, so the first read is undefined.\<close>

record cpoller_notify_reader =
  nr_recv_buffer :: bytes
  nr_cur_buf_pos :: "u32 option"

definition CPollerNotifyReader :: "u8 \<Rightarrow> cpoller_notify_reader" where
  "CPollerNotifyReader junk = \<lparr>nr_recv_buffer = replicate MAX_BUF_SIZE junk, nr_cur_buf_pos = None\<rparr>"

definition CPollerNotifyReader_handle_input ::
  "read_res \<Rightarrow> hid \<Rightarrow> cpoller_notify_reader \<Rightarrow> broker \<Rightarrow> (int \<times> cpoller_notify_reader \<times> broker) option" where
  "CPollerNotifyReader_handle_input rd h k w =
     do {
       _ \<leftarrow> m_handlers w h;
       pos \<leftarrow> nr_cur_buf_pos k;
       case rd of
         Read_error e \<Rightarrow> Some (-1, k, w\<lparr>w_errno := e\<rparr>)
       | Read bs \<Rightarrow>
           let bs = take (unat (of_nat MAX_BUF_SIZE - pos)) bs in
           if bs = [] then Some (-1, k, w)
           else do {
             d \<leftarrow> mem_copy (nr_recv_buffer k) (unat pos) bs;
             Some (0, k\<lparr>nr_recv_buffer := d, nr_cur_buf_pos := Some 0\<rparr>,
               upd_handler h (\<lambda>x. x\<lparr>m_recv_times := m_recv_times x + 1, m_recv_bytes := m_recv_bytes x + of_nat (length bs)\<rparr>) w)
           }
     }"

definition CPollerNotifyWriter_open :: "cstring \<Rightarrow> hid \<Rightarrow> broker \<Rightarrow> (int \<times> broker) option" where
  "CPollerNotifyWriter_open peer h w =
     do {
       hd \<leftarrow> m_handlers w h;
       (_, w) \<leftarrow> CEventHandler_open peer h w;
       Some (0, if m_reactor_ptr hd then regist_notify h w else w)
     }"

text \<open>\<open>fds\<close> is what \<^verbatim>\<open>socketpair\<close> gives, if it succeeds.\<close>

definition CPollerNotify_open :: "(int \<times> int) option \<Rightarrow> cstring \<Rightarrow> u32 \<Rightarrow> broker \<Rightarrow> (int \<times> broker) option" where
  "CPollerNotify_open fds peer mask0 w =
     (case fds of
        None \<Rightarrow> Some (-1, w)
      | Some (fd0, fd1) \<Rightarrow>
          let rd = w_next_hid w; wr = Suc rd;
              new = (\<lambda>fd. (CEventHandler mask0 True (of_int (w_now w)))\<lparr>m_sock_handle := fd\<rparr>);
              w = w\<lparr>m_handlers := (m_handlers w)(rd \<mapsto> new fd0, wr \<mapsto> new fd1), w_next_hid := Suc wr\<rparr>
          in do {
            (_, w) \<leftarrow> CEventHandler_open peer rd w;
            (_, w) \<leftarrow> CPollerNotifyWriter_open peer wr w;
            Some (0, w)
          })"

subsection \<open>Publishing does not queue\<close>

lemma deque_simps [simp]:
  fixes w :: broker
  shows "m_notify_deque (w\<lparr>m_topic_mgr := tm\<rparr>) = m_notify_deque w" "m_notify_deque (w\<lparr>m_msg_stats := st\<rparr>) = m_notify_deque w"
    "m_notify_deque (w\<lparr>w_next_addr := na\<rparr>) = m_notify_deque w" "m_notify_deque (w\<lparr>m_contexts := cs\<rparr>) = m_notify_deque w"
    "m_notify_deque (w\<lparr>m_client_msg := cm\<rparr>) = m_notify_deque w" "m_notify_deque (w\<lparr>m_client_record := cr\<rparr>) = m_notify_deque w"
    "m_notify_deque (w\<lparr>m_conns := cn\<rparr>) = m_notify_deque w"
  by (cases w; simp)+

lemma deque_ops [simp]:
  "m_notify_deque (upd_handler h f w) = m_notify_deque w" "m_notify_deque (upd_ctx c g w) = m_notify_deque w"
  by (simp_all add: upd_handler_def upd_ctx_def)

lemma del_topics_deque [simp]: "m_notify_deque (del_topics ts c w) = m_notify_deque w"
  by (induction ts arbitrary: w) (simp_all add: del_client_context_def set_topic_def split: option.split)

lemma handle_close_deque: "wp (handle_close h w) (\<lambda>(r, w'). m_notify_deque w' = m_notify_deque w)"
  by (auto simp: handle_close_def CEventHandler_close_def del_event_def CSockBase_close_def epoll_ctl_def os_close_def Let_def
      del_client_id_def ctx_flush_def delete_conn_def delete_handler_def
      intro!: wp_rules wpI [of "c_client_context k" for k] split: option.split)

interpretation queued: broker_frame "\<lambda>w. m_notify_deque w = q" handle_close
  by unfold_locales (use handle_close_deque in auto)

lemma deal_msg_deque: "deal_msg bridge a w = Some (r, w') \<Longrightarrow> m_notify_deque w' = m_notify_deque w"
proof -
  have "wp (deal_msg bridge a w) (\<lambda>(r, w'). m_notify_deque w' = m_notify_deque w)"
    by (auto simp: deal_msg_def intro!: wp_rules wpI [of "CMqttPublish_decode m" for m] queued.publish_J queued.publish_all_J)
  then show "deal_msg bridge a w = Some (r, w') \<Longrightarrow> m_notify_deque w' = m_notify_deque w" by (auto dest: wpD)
qed

subsection \<open>Delivery of what is queued\<close>

text \<open>The clients of a topic, and the messages in the buffers.\<close>

definition clients_of :: "broker \<Rightarrow> cstring \<Rightarrow> ctxid list" where
  "clients_of w t = (case map_of (m_topic_mgr w) t of None \<Rightarrow> [] | Some n \<Rightarrow> m_subcriber_clients n)"

definition publishes :: "broker \<Rightarrow> addr \<Rightarrow> cstring \<Rightarrow> bool" where
  "publishes w a t \<longleftrightarrow> (\<exists>b d. heap w a = Some b \<and> m_mbuf_msg_type b = MSG_PUBLISH \<and>
     CMqttPublish_decode (CMqttPublish (read_ptr b) (mbuf_length b)) = Some (0, d) \<and> m_str_topic_name d = t \<and>
     \<not> m_retain_flag (m_fixed_header d))"

definition listens :: "broker \<Rightarrow> hid \<Rightarrow> cstring \<Rightarrow> bool" where
  "listens w h t \<longleftrightarrow> Some h \<in> conn_of w ` set (clients_of w t)"

text \<open>
  The topics whose clients are sent a message to the topic \<open>t\<close>: this one, and in the bridge modes all topics of the
  broker. A client of several of them is sent a copy for each: \<open>copies\<close> is their number for a connection.
\<close>

definition audience :: "int \<Rightarrow> broker \<Rightarrow> cstring \<Rightarrow> cstring list" where
  "audience bridge w t = (if bridge \<le> 0 then [t] else map fst (m_topic_mgr w))"

definition copies :: "int \<Rightarrow> broker \<Rightarrow> hid \<Rightarrow> cstring \<Rightarrow> nat" where
  "copies bridge w h t = length (filter (listens w h) (audience bridge w t))"

text \<open>\<open>reaches bridge w t\<close>: the topics of the audience are known to the broker, and their clients can be served;
  \<open>deliverable bridge w a t\<close>: the buffer \<open>a\<close> holds a message to the topic \<open>t\<close> for such an audience.\<close>

definition reaches :: "int \<Rightarrow> broker \<Rightarrow> cstring \<Rightarrow> bool" where
  "reaches bridge w t \<longleftrightarrow> (\<forall>u\<in>set (audience bridge w t). u \<in> fst ` set (m_topic_mgr w) \<and> served w (clients_of w u))"

definition deliverable :: "int \<Rightarrow> broker \<Rightarrow> addr \<Rightarrow> cstring \<Rightarrow> bool" where
  "deliverable bridge w a t \<longleftrightarrow> publishes w a t \<and> takes w a \<and> reaches bridge w t"

lemma calm_views: "calm w w' \<Longrightarrow> clients_of w' = clients_of w \<and> listens w' = listens w \<and> publishes w' = publishes w"
  by (simp add: calm_def clients_of_def [abs_def] listens_def [abs_def] publishes_def [abs_def])

lemma calm_audience: "calm w w' \<Longrightarrow> audience bridge w' = audience bridge w" "calm w w' \<Longrightarrow> copies bridge w' = copies bridge w"
  using calm_views [of w w'] by (simp_all add: calm_def audience_def [abs_def] copies_def [abs_def] cong: if_cong)

lemma calm_deliverable: "calm w w' \<Longrightarrow> deliverable bridge w a t \<Longrightarrow> deliverable bridge w' a t"
  using calm_views [of w w'] calm_takes [of w w' a] calm_served [of w w'] calm_audience(1) [of w w' bridge]
  by (auto simp: deliverable_def reaches_def calm_def)

lemma calm_deque [simp]: "calm (w\<lparr>m_notify_deque := q\<rparr>) w' = calm w w'"
proof -
  have "reachable (w\<lparr>m_notify_deque := q\<rparr>) = reachable w" "conn_of (w\<lparr>m_notify_deque := q\<rparr>) = conn_of w"
    "m_topic_mgr (w\<lparr>m_notify_deque := q\<rparr>) = m_topic_mgr w" "heap (w\<lparr>m_notify_deque := q\<rparr>) = heap w"
    by (simp_all add: reachable_def [abs_def] conn_of_def [abs_def] sending_def readable_def heap_def)
  then show ?thesis by (simp add: calm_def)
qed

lemma deliverable_deque [simp]: "deliverable bridge (w\<lparr>m_notify_deque := q\<rparr>) a t = deliverable bridge w a t" "w_sent (w\<lparr>m_notify_deque := q\<rparr>) = w_sent w"
  "listens (w\<lparr>m_notify_deque := q\<rparr>) = listens w" "contents (w\<lparr>m_notify_deque := q\<rparr>) = contents w"
  "copies bridge (w\<lparr>m_notify_deque := q\<rparr>) = copies bridge w"
  by (auto simp: deliverable_def reaches_def copies_def [abs_def] audience_def [abs_def] publishes_def takes_def readable_def contents_def [abs_def] heap_def served_def clients_of_def
      listens_def [abs_def] reachable_def conn_of_def [abs_def] sending_def cong: if_cong)

text \<open>In the bridge modes the topics are served one after the other.\<close>

lemma publish_topics_delivers:
  assumes "takes w a" "\<forall>t\<in>set ts. t \<in> fst ` set (m_topic_mgr w) \<and> served w (clients_of w t)"
  shows "\<exists>w'. publish_topics hc a i ts w = Some w' \<and> calm w w' \<and>
    (\<forall>h. w_sent w' h = w_sent w h @ concat (replicate (length (filter (listens w h) ts)) (contents w a)))"
  using assms
proof (induction ts arbitrary: w)
  case Nil
  then show ?case by (simp add: calm_def takes_def)
next
  case (Cons t ts)
  obtain n where n: "map_of (m_topic_mgr w) t = Some n" using Cons.prems(2) by (cases "map_of (m_topic_mgr w) t") (auto simp: map_of_eq_None_iff)
  then have c: "clients_of w t = m_subcriber_clients n" by (simp add: clients_of_def)
  obtain w1 where w1: "publish_loop hc t a i (m_subcriber_clients n) 0 w = Some (0 + length (m_subcriber_clients n), w1)" "calm w w1"
      "\<forall>h. w_sent w1 h = w_sent w h @ (if listens w h t then contents w a else [])"
    using publish_loop_delivers [OF Cons.prems(1) _ _ _ n subset_refl, of hc i 0] Cons.prems(2) c by (auto simp: served_def listens_def)
  have "\<forall>t\<in>set ts. t \<in> fst ` set (m_topic_mgr w1) \<and> served w1 (clients_of w1 t)"
    using Cons.prems(2) calm_served [OF w1(2)] calm_views [OF w1(2)] w1(2) by (auto simp: calm_def)
  then obtain w' where w': "publish_topics hc a i ts w1 = Some w'" "calm w1 w'"
      "\<forall>h. w_sent w' h = w_sent w1 h @ concat (replicate (length (filter (listens w1 h) ts)) (contents w1 a))"
    using Cons.IH [OF calm_takes [OF w1(2) Cons.prems(1)]] by blast
  then show ?case
    using n w1 calm_trans [OF w1(2) w'(2)] calm_contents [OF w1(2)] calm_views [OF w1(2)] by auto
qed

lemma publish_all_delivers:
  assumes "takes w a" "\<forall>t\<in>fst ` set (m_topic_mgr w). served w (clients_of w t)"
  shows "\<exists>w'. publish_all hc a w = Some (0, w') \<and> calm w w' \<and>
    (\<forall>h. w_sent w' h = w_sent w h @ concat (replicate (length (filter (listens w h) (map fst (m_topic_mgr w)))) (contents w a)))"
proof -
  obtain b where b: "heap w a = Some b" "\<not> blocking (w_errno w)" using assms(1) by (auto simp: takes_def readable_def)
  obtain i tab where st: "msg_stat (m_mbuf_msg_id b) (m_msg_stats w) = (i, tab)" by fastforce
  define u where "u = upd_stat i (start_stat (w_now w)) (w\<lparr>m_msg_stats := tab\<rparr>)"
  have cu: "calm w u"
    unfolding u_def by (rule calm_trans [OF calm_upd_stat(2) calm_upd_stat(1)]) (simp_all add: b)
  have u: "m_topic_mgr u = m_topic_mgr w" "w_sent u = w_sent w" by (simp_all add: u_def)
  obtain w1 where w1: "publish_topics hc a i (map fst (m_topic_mgr u)) u = Some w1" "calm u w1"
      "\<forall>h. w_sent w1 h = w_sent u h @ concat (replicate (length (filter (listens u h) (map fst (m_topic_mgr u)))) (contents u a))"
    using publish_topics_delivers [OF calm_takes [OF cu assms(1)], of "map fst (m_topic_mgr u)" hc i] assms(2) calm_served [OF cu] calm_views [OF cu] u(1) by auto
  have "calm w (upd_stat i (end_stat (w_now w1)) w1)"
    using calm_trans [OF calm_trans [OF cu w1(2)] calm_upd_stat(1)] w1(2) by (simp add: calm_def)
  then show ?thesis
    using b st u w1 calm_contents [OF cu] calm_views [OF cu] by (simp add: publish_all_def u_def [symmetric])
qed

lemma deal_msg_delivers:
  assumes "deliverable bridge w a t"
  shows "\<exists>w'. deal_msg bridge a w = Some (0, w') \<and> calm w w' \<and> m_notify_deque w' = m_notify_deque w \<and>
    (\<forall>h. w_sent w' h = w_sent w h @ concat (replicate (copies bridge w h t) (contents w a)))"
proof -
  obtain b d where b: "heap w a = Some b" "m_mbuf_msg_type b = MSG_PUBLISH" "m_str_topic_name d = t"
      "CMqttPublish_decode (CMqttPublish (read_ptr b) (mbuf_length b)) = Some (0, d)" "\<not> m_retain_flag (m_fixed_header d)"
    using assms by (auto simp: deliverable_def publishes_def)
  have "\<exists>r w'. (if bridge \<le> 0 then publish handle_close t a d w else publish_all handle_close a w) = Some (r, w') \<and> calm w w' \<and>
      (\<forall>h. w_sent w' h = w_sent w h @ concat (replicate (copies bridge w h t) (contents w a)))"
  proof (cases "bridge \<le> 0")
    case True
    have k: "t \<in> fst ` set (m_topic_mgr w)" "served w (clients_of w t)" "takes w a" using assms True by (simp_all add: deliverable_def reaches_def audience_def)
    then obtain n where n: "map_of (m_topic_mgr w) t = Some n" by (cases "map_of (m_topic_mgr w) t") (auto simp: map_of_eq_None_iff)
    then show ?thesis
      using publish_to_clients [OF n b(5), of a handle_close] k(2,3) True by (auto simp: copies_def audience_def listens_def clients_of_def)
  next
    case False
    then show ?thesis
      using publish_all_delivers [of w a handle_close] assms by (auto simp: deliverable_def reaches_def copies_def audience_def)
  qed
  then obtain r w' where w': "(if bridge \<le> 0 then publish handle_close t a d w else publish_all handle_close a w) = Some (r, w')" "calm w w'"
      "\<forall>h. w_sent w' h = w_sent w h @ concat (replicate (copies bridge w h t) (contents w a))"
    by blast
  have "deal_msg bridge a w = Some (0, w')" using b w'(1) by (simp add: deal_msg_def split: if_splits)
  then show ?thesis using w' deal_msg_deque by blast
qed

lemma notify_loop_step:
  assumes "m_notify_deque w = a # q"
  shows "notify_loop bridge w = do { (r, w) \<leftarrow> deal_msg bridge a (w\<lparr>m_notify_deque := q\<rparr>); if r < 0 then Some (-1, w) else notify_loop bridge w }"
  by (subst notify_loop.simps) (simp add: pop_front_def assms)

text \<open>What a queue of messages puts on the wire of a connection.\<close>

definition sent_of :: "int \<Rightarrow> broker \<Rightarrow> hid \<Rightarrow> (addr \<times> cstring) list \<Rightarrow> bytes" where
  "sent_of bridge w h q = concat (map (\<lambda>(a, t). concat (replicate (copies bridge w h t) (contents w a))) q)"

lemma sent_of_simps [simp]:
  "sent_of bridge w h [] = []"
  "sent_of bridge w h ((a, t) # q) = concat (replicate (copies bridge w h t) (contents w a)) @ sent_of bridge w h q"
  by (simp_all add: sent_of_def)

lemma calm_sent_of: "calm w w' \<Longrightarrow> sent_of bridge w' h q = sent_of bridge w h q"
  using calm_audience(2) [of w w' bridge] calm_contents [of w w'] by (simp add: sent_of_def)

lemma notify_loop_delivers:
  assumes "m_notify_deque w = map fst q" "\<forall>(a, t)\<in>set q. deliverable bridge w a t"
  shows "\<exists>w'. notify_loop bridge w = Some (0, w') \<and> m_notify_deque w' = [] \<and> (\<forall>h. w_sent w' h = w_sent w h @ sent_of bridge w h q)"
  using assms
proof (induction q arbitrary: w)
  case Nil
  then show ?case by (subst notify_loop.simps) (simp add: pop_front_def)
next
  case (Cons p q)
  obtain a t where p: "p = (a, t)" by (cases p)
  let ?u = "w\<lparr>m_notify_deque := map fst q\<rparr>"
  obtain w1 where w1: "deal_msg bridge a ?u = Some (0, w1)" "calm w w1" "m_notify_deque w1 = map fst q"
    "\<forall>h. w_sent w1 h = w_sent w h @ concat (replicate (copies bridge w h t) (contents w a))"
    using deal_msg_delivers [of bridge ?u a t] Cons.prems(2) p by auto
  have "\<forall>(a, t)\<in>set q. deliverable bridge w1 a t" using Cons.prems(2) calm_deliverable [OF w1(2)] by fastforce
  then obtain w' where "notify_loop bridge w1 = Some (0, w')" "m_notify_deque w' = []"
    "\<forall>h. w_sent w' h = w_sent w1 h @ sent_of bridge w1 h q"
    using Cons.IH [OF w1(3)] by blast
  then show ?case
    using notify_loop_step [of w a "map fst q" bridge] Cons.prems(1) p w1 calm_sent_of [OF w1(2)] by auto
qed

subsection \<open>Messages from other threads\<close>

text \<open>Fields of the broker that the other threads do not touch.\<close>

definition untouched :: "broker \<Rightarrow> broker \<Rightarrow> bool" where
  "untouched w w' \<longleftrightarrow> m_handlers w' = m_handlers w \<and> w_writes w' = w_writes w \<and> m_topic_mgr w' = m_topic_mgr w \<and> m_contexts w' = m_contexts w \<and>
     m_notify_writer w' = m_notify_writer w"

lemma untouched_upd:
  "untouched w (w\<lparr>m_mem := mem\<rparr>)" "untouched w (w\<lparr>w_next_addr := na\<rparr>)" "untouched w (w\<lparr>m_notify_deque := q\<rparr>)" "untouched w (w\<lparr>w_errno := e\<rparr>)"
  "untouched w (w\<lparr>w_calls := n\<rparr>)" "untouched w (w\<lparr>w_sent := sn\<rparr>)" "untouched w (upd_mbuf a f w)"
  by (cases w; simp add: untouched_def upd_mbuf_def)+

lemma untouched_trans: "untouched u v \<Longrightarrow> untouched v w \<Longrightarrow> untouched u w"
  by (simp add: untouched_def)

lemma untouched_views:
  assumes "untouched w w'" "w_errno w' = w_errno w"
  shows "reaches bridge w' = reaches bridge w" "copies bridge w' = copies bridge w" "listens w' = listens w" "m_topic_mgr w' = m_topic_mgr w"
proof -
  have v: "conn_of w' = conn_of w" "clients_of w' = clients_of w" "reachable w' = reachable w" "m_topic_mgr w' = m_topic_mgr w"
    using assms by (auto simp: untouched_def conn_of_def [abs_def] clients_of_def [abs_def] reachable_def [abs_def] sending_def)
  show "listens w' = listens w" by (simp add: listens_def [abs_def] v)
  then show "reaches bridge w' = reaches bridge w" "copies bridge w' = copies bridge w" "m_topic_mgr w' = m_topic_mgr w"
    by (simp_all add: v reaches_def [abs_def] copies_def [abs_def] audience_def served_def cong: if_cong)
qed

text \<open>\<open>carries b bs\<close>: the buffer holds the packet \<open>bs\<close> for the broker.\<close>

definition carries :: "cmbuf \<Rightarrow> bytes \<Rightarrow> bool" where
  "carries b bs \<longleftrightarrow> mbuf_wf b \<and> mbuf_contents b = bs \<and> m_mbuf_msg_type b = MSG_PUBLISH \<and> (\<exists>r. read_ptr b = bs @ r)"

lemma carries_publish:
  assumes "heap w a = Some b" "carries b (frame h (publish_body t i m))" "length (publish_body t i m) < 16384"
    and "\<not> m_retain_flag (fixed_header_decode h)"
  shows "publishes w a t" "readable w a" "contents w a = frame h (publish_body t i m)"
proof -
  let ?bs = "frame h (publish_body t i m)"
  obtain r where r: "read_ptr b = ?bs @ r" "mbuf_wf b" "mbuf_contents b = ?bs" "m_mbuf_msg_type b = MSG_PUBLISH"
    using assms(2) by (auto simp: carries_def)
  have "unat (mbuf_length b) = length ?bs" using mbuf_length_contents [OF r(2)] r(3) by simp
  then obtain d where "CMqttPublish_decode (CMqttPublish (read_ptr b) (mbuf_length b)) = Some (0, d)"
      "m_fixed_header d = fixed_header_decode h" "m_str_topic_name d = t"
    using decodedD [OF CMqttPublish_decoded [OF _ assms(3), of "mbuf_length b" h r]] r(1) by auto
  then show "publishes w a t"
    using assms(1,4) r(4) by (auto simp: publishes_def)
  show "readable w a" "contents w a = ?bs"
    using assms(1) r(2,3) by (auto simp: readable_def contents_def frame_def)
qed

text \<open>A notifier of which the kernel takes the counter increment.\<close>

definition notifier :: "hid \<Rightarrow> broker \<Rightarrow> bool" where
  "notifier n w \<longleftrightarrow> m_notify_writer w = Some n \<and> (\<exists>x. m_handlers w n = Some x \<and> 0 \<le> m_sock_handle x) \<and> (\<forall>i. \<exists>k. w_writes w i = Wrote k)"

lemma poller_notify_effect:
  assumes "notifier n w"
  shows "\<exists>r w'. poller_notify CPollerNotifyFd_notify a w = Some (r, w') \<and> untouched w w' \<and> m_mem w' = m_mem w \<and> w_next_addr w' = w_next_addr w \<and>
    m_notify_deque w' = m_notify_deque w @ [a] \<and> w_errno w' = w_errno w \<and> (\<forall>h. h \<noteq> n \<longrightarrow> w_sent w' h = w_sent w h)"
proof -
  obtain x k where "m_handlers w n = Some x" "0 \<le> m_sock_handle x" "w_writes w (w_calls w) = Wrote k" "m_notify_writer w = Some n"
    using assms unfolding notifier_def by blast
  then show ?thesis
    by (cases w) (auto simp: poller_notify_def CPollerNotifyFd_notify_def os_write_def Let_def untouched_def)
qed

subsection \<open>Properties\<close>

text \<open>
  C11. When the broker's thread handles the event descriptor and every queued message can be delivered, the messages are all
  published, in the order in which they were queued: afterwards the queue is empty, and every connection has been sent the
  messages in this order. In the bridge mode 0 a message goes once to every client of its topic; in the other modes it
  goes to the clients of all topics, whatever its own topic is, and to a client of several topics once for each. The
  condition \<open>deliverable\<close> says of every message that it decodes as a publish message (one that does not ends the
  notifications, see below), that it is not a retained one, that its topic, or in the other modes every topic, is known
  with clients whose connections have nothing queued, and that the kernel takes it as a whole.
\<close>

theorem notified_in_order:
  assumes "m_handlers w n \<noteq> None" "m_notify_deque w = map fst q" "\<forall>(a, t)\<in>set q. deliverable bridge w a t"
  shows "\<exists>w'. CPollerNotifyFd_handle_input bridge (Read bs) n w = Some (0, w') \<and> m_notify_deque w' = [] \<and>
    (\<forall>h. w_sent w' h = w_sent w h @ concat (map (\<lambda>(a, t). concat (replicate (length (filter (listens w h)
       (if bridge \<le> 0 then [t] else map fst (m_topic_mgr w)))) (contents w a))) q))"
  using notify_loop_delivers [OF assms(2,3)] assms(1) by (auto simp: CPollerNotifyFd_handle_input_def sent_of_def copies_def audience_def)

text \<open>Two messages are queued: to the topic of the two clients, and to one without clients.\<close>

definition queued_messages :: broker where
  "queued_messages = two_subscribers
     \<lparr>m_mem := \<lparr>w_heap = [0 \<mapsto> (CMbuf [0x30, 6, 0, 1, 65, 0, 1, 9] 0)\<lparr>m_write_pos := 8, m_mbuf_msg_type := MSG_PUBLISH\<rparr>,
                  2 \<mapsto> (CMbuf [0x30, 5, 0, 1, 66, 0, 2] 0)\<lparr>m_write_pos := 7, m_mbuf_msg_type := MSG_PUBLISH\<rparr>], w_store = CMsgMemStore 2\<rparr>,
      w_writes := (\<lambda>_. Wrote 8), m_notify_deque := [2, 0], m_topic_mgr := ([66], CTopicNode) # m_topic_mgr two_subscribers,
      m_handlers := (m_handlers two_subscribers)(6 \<mapsto> (CEventHandler 2 True 0)\<lparr>m_sock_handle := 4\<rparr>)\<rparr>"

lemma queued_messages_decode:
  "CMqttPublish_decode (CMqttPublish [0x30, 6, 0, 1, 65, 0, 1, 9] 8) = Some (0, d) \<Longrightarrow> m_str_topic_name d = [65] \<and> \<not> m_retain_flag (m_fixed_header d)"
  "\<exists>d. CMqttPublish_decode (CMqttPublish [0x30, 6, 0, 1, 65, 0, 1, 9] 8) = Some (0, d)"
  "CMqttPublish_decode (CMqttPublish [0x30, 5, 0, 1, 66, 0, 2] 7) = Some (0, e) \<Longrightarrow> m_str_topic_name e = [66] \<and> \<not> m_retain_flag (m_fixed_header e)"
  "\<exists>e. CMqttPublish_decode (CMqttPublish [0x30, 5, 0, 1, 66, 0, 2] 7) = Some (0, e)"
proof -
  have 1: "frame 0x30 (publish_body [65] 1 [9]) @ [] = [0x30, 6, 0, 1, 65, 0, 1, 9]" "frame 0x30 (publish_body [66] 2 []) @ [] = [0x30, 5, 0, 1, 66, 0, 2]"
    by (simp_all add: frame_def publish_body_def rl_enc_one string_enc_def hi_byte_def lo_byte_def)
  note d = decodedD [OF CMqttPublish_decoded [of 8 "0x30" "[65]" 1 "[9]" "[]"]] decodedD [OF CMqttPublish_decoded [of 7 "0x30" "[66]" 2 "[]" "[]"]]
  show "CMqttPublish_decode (CMqttPublish [0x30, 6, 0, 1, 65, 0, 1, 9] 8) = Some (0, d) \<Longrightarrow> m_str_topic_name d = [65] \<and> \<not> m_retain_flag (m_fixed_header d)"
    "\<exists>d. CMqttPublish_decode (CMqttPublish [0x30, 6, 0, 1, 65, 0, 1, 9] 8) = Some (0, d)"
    "CMqttPublish_decode (CMqttPublish [0x30, 5, 0, 1, 66, 0, 2] 7) = Some (0, e) \<Longrightarrow> m_str_topic_name e = [66] \<and> \<not> m_retain_flag (m_fixed_header e)"
    "\<exists>e. CMqttPublish_decode (CMqttPublish [0x30, 5, 0, 1, 66, 0, 2] 7) = Some (0, e)"
    using d unfolding 1 by (auto simp: fixed_header_decode_def fix_retain_def publish_body_def frame_def rl_enc_one string_enc_def)
qed

theorem notified_in_order_witness:
  "(\<exists>w'. CPollerNotifyFd_handle_input 0 (Read (le_bytes 8 2)) 6 queued_messages = Some (0, w') \<and> m_notify_deque w' = [] \<and>
     w_sent w' 7 = [0x30, 6, 0, 1, 65, 0, 1, 9] \<and> w_sent w' 8 = []) \<and>
   (\<exists>w'. CPollerNotifyFd_handle_input 2 (Read (le_bytes 8 2)) 6 queued_messages = Some (0, w') \<and> m_notify_deque w' = [] \<and>
     w_sent w' 7 = [0x30, 5, 0, 1, 66, 0, 2] @ [0x30, 6, 0, 1, 65, 0, 1, 9])"
proof -
  let ?w = queued_messages
  have v: "conn_of ?w 1 = Some 7" "conn_of ?w 2 = None" "clients_of ?w [65] = [1, 2]" "clients_of ?w [66] = []"
    "contents ?w 0 = [0x30, 6, 0, 1, 65, 0, 1, 9]" "w_sent ?w = (\<lambda>_. [])" "m_notify_deque ?w = [2, 0]" "m_handlers ?w 6 \<noteq> None"
    "fst ` set (m_topic_mgr ?w) = {[66], [65]}"
    by (auto simp: queued_messages_def two_subscribers_def conn_of_def clients_of_def contents_def heap_def CTMqttClientContext_def CTopicNode_def
        CMbuf_def mbuf_contents_def)
  have "takes ?w 0" "takes ?w 2" "reachable ?w 1" "reachable ?w 2"
    by (simp_all add: takes_def reachable_def sending_def readable_def contents_def heap_def queued_messages_def two_subscribers_def CMbuf_def
        mbuf_wf_def mbuf_contents_def blocking_def errno_defs CTMqttClientContext_def CEventHandler_def)
  moreover have "publishes ?w 0 [65]" "publishes ?w 2 [66]"
    using queued_messages_decode by (auto simp: publishes_def queued_messages_def heap_def CMbuf_def read_ptr_def mbuf_length_def)
  ultimately have d: "deliverable bridge ?w 0 [65]" "deliverable bridge ?w 2 [66]" for bridge
    by (auto simp: deliverable_def reaches_def audience_def v served_def inj_on_def)
  have l: "listens ?w 7 [65]" "\<not> listens ?w 7 [66]" "\<not> listens ?w 8 [65]" "\<not> listens ?w 8 [66]"
    using v(1) by (auto simp: listens_def v)
  have "map fst (m_topic_mgr ?w) = [[66], [65]]" "contents ?w 2 = [0x30, 5, 0, 1, 66, 0, 2]"
    by (simp_all add: queued_messages_def two_subscribers_def contents_def heap_def CMbuf_def mbuf_contents_def)
  then show ?thesis
    using notified_in_order [of ?w 6 "[(2, [66]), (0, [65])]" 0 "le_bytes 8 2"] notified_in_order [of ?w 6 "[(2, [66]), (0, [65])]" 2 "le_bytes 8 2"] l d
    by (auto simp: v)
qed

text \<open>
  C37. A queued publish message that cannot be decoded ends notifications for good: the handler returns -1 with the
  rest of the queue unpublished, the poller therefore deletes the notifier, and from then on a message handed over by
  another thread is dropped.
\<close>

theorem bad_message_ends_notifications:
  assumes "m_handlers w n = Some x" "m_reactor_ptr x" "0 \<le> m_sock_handle x" "m_epoll w (m_sock_handle x) \<noteq> None"
    and "m_notify_deque w = a # q" "heap w a = Some b" "m_mbuf_msg_type b = MSG_PUBLISH"
    and "CMqttPublish_decode (CMqttPublish (read_ptr b) (mbuf_length b)) = Some (r, d)" "r < 0"
  shows "\<exists>w'. poll_dispatch (CPollerNotifyFd_handle_input bridge) CPollerNotifyFd_handle_close (EPOLLIN, Some n, Read bs) w = Some w' \<and>
    m_handlers w' n = None \<and> m_notify_deque w' = q \<and> w_sent w' = w_sent w \<and>
    (\<forall>c. poller_notify CPollerNotifyFd_notify c w' = Some (-1, w'))"
proof -
  have hp: "heap (w\<lparr>m_notify_deque := q\<rparr>) = heap w" by (simp add: heap_def)
  have "CPollerNotifyFd_handle_input bridge (Read bs) n w = Some (-1, w\<lparr>m_notify_deque := q\<rparr>)"
    using assms notify_loop_step [OF assms(5), of bridge] by (simp add: CPollerNotifyFd_handle_input_def deal_msg_def hp)
  then show ?thesis
    using assms by (auto simp: poll_dispatch_defs event_defs CPollerNotifyFd_handle_close_def CEventHandler_close_def del_event_def
        CSockBase_close_def epoll_ctl_def os_close_def unregist_notify_def delete_handler_def upd_handler_def poller_notify_def Let_def INVALID_SOCKET_def)
qed

theorem bad_message_ends_notifications_witness:
  "\<exists>w'. poll_dispatch (CPollerNotifyFd_handle_input 0) CPollerNotifyFd_handle_close (EPOLLIN, Some 6, Read [1])
      (queued_messages\<lparr>m_mem := \<lparr>w_heap = [2 \<mapsto> (CMbuf [0x30, 0] 0)\<lparr>m_write_pos := 2, m_mbuf_msg_type := MSG_PUBLISH\<rparr>], w_store = CMsgMemStore 2\<rparr>,
         m_epoll := [4 \<mapsto> (1, 6)]\<rparr>) = Some w' \<and>
    m_notify_deque w' = [0] \<and> (\<forall>c. poller_notify CPollerNotifyFd_notify c w' = Some (-1, w'))"
proof -
  let ?b = "(CMbuf [0x30, 0] 0)\<lparr>m_write_pos := 2, m_mbuf_msg_type := MSG_PUBLISH\<rparr>"
  let ?w = "queued_messages\<lparr>m_mem := \<lparr>w_heap = [2 \<mapsto> ?b], w_store = CMsgMemStore 2\<rparr>, m_epoll := [4 \<mapsto> (1, 6)]\<rparr>"
  have "m_handlers ?w 6 = Some ((CEventHandler 2 True 0)\<lparr>m_sock_handle := 4\<rparr>)" "m_notify_deque ?w = 2 # [0]" "heap ?w 2 = Some ?b"
    by (simp_all add: queued_messages_def heap_def)
  moreover have "\<not> (case CMqttPublish_decode (CMqttPublish [0x30, 0] 2) of None \<Rightarrow> True | Some (r, d) \<Rightarrow> 0 \<le> r)" by code_simp
  then obtain r d where "CMqttPublish_decode (CMqttPublish [0x30, 0] 2) = Some (r, d)" "r < 0"
    by (auto split: option.splits)
  ultimately show ?thesis
    using bad_message_ends_notifications [of ?w 6 "(CEventHandler 2 True 0)\<lparr>m_sock_handle := 4\<rparr>" 2 "[0]" ?b r d 0 "[1]"]
    by (auto simp: CEventHandler_def read_ptr_def mbuf_length_def CMbuf_def)
qed

text \<open>The broker with two clients of a topic and a notifier, for examples in other theories.\<close>

definition notified_broker :: broker where
  "notified_broker = queued_messages\<lparr>m_notify_deque := [], m_notify_writer := Some 6, w_writes := (\<lambda>_. Wrote 100)\<rparr>"

lemma notified_broker_ok:
  "notifier 6 notified_broker" "m_notify_deque notified_broker = []" "\<not> blocking (w_errno notified_broker)" "w_writes notified_broker = (\<lambda>_. Wrote 100)"
  "[65] \<in> fst ` set (m_topic_mgr notified_broker)" "served notified_broker (clients_of notified_broker [65])" "listens notified_broker 7 [65]"
  "w_sent notified_broker = (\<lambda>_. [])" "m_last_msg_id (w_store (m_mem notified_broker)) = 2"
  "reaches bridge notified_broker [65]" "copies 0 notified_broker 7 [65] = 1" "copies 2 notified_broker 7 [65] = 1"
proof -
  have c: "clients_of notified_broker [65] = [1, 2]" "conn_of notified_broker 1 = Some 7" "conn_of notified_broker 2 = None"
    by (simp_all add: clients_of_def conn_of_def notified_broker_def queued_messages_def two_subscribers_def CTMqttClientContext_def CTopicNode_def)
  moreover have "reachable notified_broker 1" "reachable notified_broker 2"
    by (simp_all add: reachable_def sending_def notified_broker_def queued_messages_def two_subscribers_def CTMqttClientContext_def CEventHandler_def
        blocking_def errno_defs)
  ultimately show sv: "served notified_broker (clients_of notified_broker [65])" by (auto simp: served_def inj_on_def)
  have "map fst (m_topic_mgr notified_broker) = [[66], [65]]" "clients_of notified_broker [66] = []"
    by (simp_all add: clients_of_def notified_broker_def queued_messages_def two_subscribers_def CTopicNode_def)
  then show "reaches bridge notified_broker [65]" "copies 0 notified_broker 7 [65] = 1" "copies 2 notified_broker 7 [65] = 1"
    using sv c(2)
    by (auto simp: reaches_def audience_def copies_def listens_def c(1) served_def image_iff simp flip: set_map)
  show "listens notified_broker 7 [65]" using c(2) by (simp add: listens_def c)
qed (auto simp: notifier_def notified_broker_def queued_messages_def two_subscribers_def CEventHandler_def blocking_def errno_defs CMsgMemStore_def)

end
