(* ===== verification/Str_Tools.thy ===== *)
theory Str_Tools
  imports Mqtt_Prelude
begin

text \<open>
  String functions: \<^verbatim>\<open>src/common/str_tools.cpp\<close> and the functions of the C library that the HTTP server uses on
  strings (\<^verbatim>\<open>isspace\<close>, \<^verbatim>\<open>atoi\<close>, \<^verbatim>\<open>strtok_r\<close>, \<^verbatim>\<open>snprintf\<close> and the conversion \<^verbatim>\<open>%d\<close>).

  \<^verbatim>\<open>strtok_r\<close> works in place: it overwrites the delimiter behind a token with a zero byte, which the model keeps,
  because the HTTP server parses its receive buffer again when more data arrives. The templates \<^verbatim>\<open>to_string\<close> and
  \<^verbatim>\<open>convert\<close> are not used by the program; \<^verbatim>\<open>format_time\<close> is a call of \<^verbatim>\<open>strftime\<close>.
\<close>

subsection \<open>Searching and splitting\<close>

text \<open>\<^verbatim>\<open>std::string::find_first_of\<close>, with \<^const>\<open>None\<close> for \<^verbatim>\<open>npos\<close>.\<close>

primrec find_first_of :: "cstring \<Rightarrow> cstring \<Rightarrow> nat option" where
  "find_first_of sep [] = None"
| "find_first_of sep (c # s) = (if c \<in> set sep then Some 0 else map_option Suc (find_first_of sep s))"

lemma find_first_of_None: "find_first_of sep s = None \<longleftrightarrow> set s \<inter> set sep = {}"
  by (induction s) auto

lemma find_first_of_Some:
  "find_first_of sep s = Some k \<longleftrightarrow> k < length s \<and> s ! k \<in> set sep \<and> set (take k s) \<inter> set sep = {}"
proof (induction s arbitrary: k)
  case (Cons c s)
  then show ?case by (cases k) auto
qed simp

lemma find_first_of_app: "set s \<inter> set sep = {} \<Longrightarrow> d \<in> set sep \<Longrightarrow> find_first_of sep (s @ d # t) = Some (length s)"
  by (simp add: find_first_of_Some nth_append)

function split_loop :: "cstring \<Rightarrow> int \<Rightarrow> int \<Rightarrow> cstring \<Rightarrow> cstring list \<Rightarrow> cstring \<times> cstring list" where
  "split_loop sep mx i str results =
     (case find_first_of sep str of
        None \<Rightarrow> (str, results)
      | Some found \<Rightarrow>
          let results = (if found > 0 then results @ [take found str] else results);
              str = drop (found + 1) str
          in if mx > -1 \<and> i + 1 = mx then (str, results)
             else split_loop sep mx (if mx > -1 then i + 1 else i) str results)"
  by pat_completeness auto
termination
  by (relation "measure (\<lambda>(_, _, _, str, _). length str)") (auto simp: find_first_of_Some)

declare split_loop.simps [simp del]

definition str_split :: "cstring \<Rightarrow> cstring \<Rightarrow> int \<Rightarrow> cstring list \<Rightarrow> cstring list" where
  "str_split str sep mx results =
     (let (str, results) = split_loop sep mx 0 str results in if length str > 0 then results @ [str] else results)"

subsection \<open>White space\<close>

text \<open>\<^verbatim>\<open>isspace\<close> in the C locale; bytes from 128 on are no space.\<close>

definition isspace :: "u8 \<Rightarrow> bool" where
  "isspace c \<longleftrightarrow> c = 32 \<or> 9 \<le> c \<and> c \<le> 13"

definition str_trim :: "cstring \<Rightarrow> cstring" where
  "str_trim s = rev (dropWhile isspace (rev (dropWhile isspace s)))"

text \<open>A string of blanks only would give iterators before the beginning.\<close>

definition remove_space :: "cstring \<Rightarrow> cstring option" where
  "remove_space s =
     (if set s \<subseteq> {32} then None else Some (rev (dropWhile (\<lambda>c. c = 32) (rev (dropWhile (\<lambda>c. c = 32) s)))))"

subsection \<open>Numbers\<close>

definition is_digit :: "u8 \<Rightarrow> bool" where
  "is_digit c \<longleftrightarrow> 48 \<le> c \<and> c \<le> 57"

primrec digits_val :: "nat \<Rightarrow> cstring \<Rightarrow> nat" where
  "digits_val v [] = v"
| "digits_val v (c # s) = (if is_digit c then digits_val (10 * v + (unat c - 48)) s else v)"

text \<open>A value that \<^verbatim>\<open>int\<close> cannot hold makes \<^verbatim>\<open>atoi\<close> undefined.\<close>

definition atoi :: "cstring \<Rightarrow> int option" where
  "atoi s =
     (let s = dropWhile isspace s;
          v = (case s of
                 c # t \<Rightarrow> if c = 45 then - int (digits_val 0 t) else if c = 43 then int (digits_val 0 t) else int (digits_val 0 s)
               | [] \<Rightarrow> 0)
      in if - 2147483648 \<le> v \<and> v < 2147483648 then Some v else None)"

fun decimal :: "nat \<Rightarrow> cstring" where
  "decimal n = (if n < 10 then [48 + of_nat n] else decimal (n div 10) @ [48 + of_nat (n mod 10)])"

declare decimal.simps [simp del]

definition print_int :: "int \<Rightarrow> cstring" where
  "print_int v = (if v < 0 then 45 # decimal (nat (- v)) else decimal (nat v))"

text \<open>\<^verbatim>\<open>snprintf\<close> into a buffer of \<open>n\<close> bytes, read back as a string.\<close>

definition snprintf :: "nat \<Rightarrow> cstring \<Rightarrow> cstring" where
  "snprintf n text = take (n - 1) text"

subsection \<open>Tokens in place\<close>

text \<open>
  The string at position \<open>i\<close> of a buffer ends at the first zero byte; without one the search leaves the buffer.
  Result of \<^verbatim>\<open>strtok_r\<close>: the token, the buffer with the delimiter behind it overwritten, and the saved position.
\<close>

definition strtok_r :: "cstring \<Rightarrow> bytes \<Rightarrow> nat \<Rightarrow> (cstring option \<times> bytes \<times> nat) option" where
  "strtok_r delim buf i =
     (if 0 \<notin> set (drop i buf) then None
      else let s = takeWhile (\<lambda>c. c \<noteq> 0) (drop i buf);
               t = dropWhile (\<lambda>c. c \<in> set delim) s;
               tok = takeWhile (\<lambda>c. c \<notin> set delim) t;
               j = i + (length s - length t) + length tok
           in if t = [] then Some (None, buf, i + length s)
              else if length tok < length t then Some (Some tok, buf[j := 0], j + 1)
              else Some (Some tok, buf, j))"

lemma strtok_r_progress:
  assumes "strtok_r delim buf i = Some (Some tok, buf', i')"
  shows "length buf' = length buf" "i < i'" "i' \<le> length buf"
proof -
  let ?s = "takeWhile (\<lambda>c. c \<noteq> 0) (drop i buf)"
  let ?t = "dropWhile (\<lambda>c. c \<in> set delim) ?s"
  let ?k = "takeWhile (\<lambda>c. c \<notin> set delim) ?t"
  have t: "?t \<noteq> []" "i' = i + (length ?s - length ?t) + length ?k \<or> length ?k < length ?t \<and> i' = i + (length ?s - length ?t) + length ?k + 1"
    and b: "length buf' = length buf"
    using assms by (auto simp: strtok_r_def Let_def split: if_splits)
  have "?k \<noteq> []"
    using t(1) hd_dropWhile [OF t(1)] by (cases ?t) auto
  then have "1 \<le> length ?k" by (simp only: length_greater_0_conv [symmetric] One_nat_def Suc_le_eq)
  moreover have "length ?k \<le> length ?t" "length ?t \<le> length ?s" "length ?s \<le> length buf - i"
    using length_takeWhile_le [of _ "drop i buf"] by (auto simp: length_takeWhile_le length_dropWhile_le)
  moreover obtain S T K where "length ?s = S" "length ?t = T" "length ?k = K" by blast
  ultimately show "i < i'" "i' \<le> length buf" "length buf' = length buf" using t(2) b by auto
qed

lemma strtok_r_less: "strtok_r delim buf i = Some (Some tok, buf', i') \<Longrightarrow> length buf' - i' < length buf - i"
  using strtok_r_progress by fastforce

lemma takeWhile_zero: "0 \<in> set s \<Longrightarrow> s = takeWhile (\<lambda>c. c \<noteq> 0) s @ 0 # drop (Suc (length (takeWhile (\<lambda>c. c \<noteq> 0) s))) (s :: bytes)"
  by (induction s) auto

text \<open>On a buffer with a terminator it returns, and the rest is a terminated string again.\<close>

lemma strtok_r_total:
  assumes "0 \<in> set (drop i buf)"
  shows "\<exists>r buf' i'. strtok_r delim buf i = Some (r, buf', i') \<and> 0 \<in> set (drop i' buf') \<and> i \<le> i' \<and>
    take i buf' = take i buf \<and> length buf' = length buf"
proof -
  define s where "s = takeWhile (\<lambda>c. c \<noteq> 0) (drop i buf)"
  define t where "t = dropWhile (\<lambda>c. c \<in> set delim) s"
  define tok where "tok = takeWhile (\<lambda>c. c \<notin> set delim) t"
  define j where "j = i + (length s - length t) + length tok"
  have z: "drop i buf = s @ 0 # drop (Suc (length s)) (drop i buf)" unfolding s_def by (rule takeWhile_zero [OF assms])
  have zi: "0 \<in> set (drop k buf)" if k: "i \<le> k" "k \<le> i + length s" for k
  proof -
    have "drop k buf = drop (k - i) (drop i buf)" using k by simp
    also have "\<dots> = drop (k - i) s @ 0 # drop (Suc (length s)) (drop i buf)" using k by (subst z) simp
    finally show ?thesis by simp
  qed
  have len: "length tok \<le> length t" "length t \<le> length s"
    by (simp_all add: tok_def t_def length_takeWhile_le length_dropWhile_le)
  have "0 \<in> set (drop (Suc j) (buf[j := 0]))" if "length tok < length t"
    using zi [of "Suc j"] len that by (simp add: j_def)
  moreover have "0 \<in> set (drop j buf)" "i \<le> j" using zi [of j] len by (simp_all add: j_def)
  ultimately show ?thesis
    using assms zi [of "i + length s"] unfolding strtok_r_def s_def [symmetric] t_def [symmetric] tok_def [symmetric] Let_def j_def [symmetric]
    by auto
qed

lemma strtok_r_line:
  assumes "set line \<inter> {0, 10} = {}" "line \<noteq> []" "d = 10 \<and> 0 \<in> set tail \<or> d = 0"
  shows "strtok_r (cstr [CHR 0x0A]) (line @ d # tail) 0 =
    Some (Some line, line @ 0 # tail, length line + (if d = 10 then 1 else 0))"
proof -
  have l: "takeWhile (\<lambda>c. c \<noteq> 0) (line @ xs) = line @ takeWhile (\<lambda>c. c \<noteq> 0) xs"
    "takeWhile (\<lambda>c. c \<noteq> 10) (line @ xs) = line @ takeWhile (\<lambda>c. c \<noteq> 10) xs" for xs
    using assms(1) by (induction line) auto
  obtain c cs where c: "line = c # cs" "c \<noteq> 10" "c \<noteq> 0" using assms(1,2) by (cases line) auto
  then have dw: "dropWhile (\<lambda>c. c = 10) (line @ xs) = line @ xs" "dropWhile (\<lambda>c. c = 10) line = line" for xs by simp_all
  have nl: "set (cstr [CHR 0x0A]) = {10}" by (simp add: cstr_def of_char_def)
  show ?thesis
  proof (cases "d = 10")
    case True
    then have "0 \<in> set tail" using assms(3) by simp
    then show ?thesis using True assms(2) by (simp add: strtok_r_def nl l dw Let_def del: dropWhile_eq_Nil_conv)
  next
    case False
    then show ?thesis
      using assms(2,3) l(2) [of "[]"] by (simp add: strtok_r_def nl l dw Let_def del: dropWhile_eq_Nil_conv takeWhile_eq_all_conv)
  qed
qed

lemma isspace_set: "isspace c \<Longrightarrow> c \<in> {9, 10, 11, 12, 13, 32}"
proof -
  assume "isspace c"
  then have "c = 32 \<or> unat c = 9 \<or> unat c = 10 \<or> unat c = 11 \<or> unat c = 12 \<or> unat c = 13"
    by (auto simp: isspace_def word_le_nat_alt)
  moreover have "c = of_nat (unat c)" by (simp add: of_nat_unat)
  ultimately show ?thesis by (metis insertCI of_nat_numeral)
qed

lemma str_trim_end:
  assumes "s \<noteq> []" "\<not> isspace (hd s)" "\<not> isspace (last s)" "\<forall>c\<in>set e. isspace c"
  shows "str_trim (s @ e) = s"
proof -
  have "dropWhile isspace (s @ e) = s @ e" using assms(1,2) by (cases s) auto
  moreover have "dropWhile isspace (rev s) = rev s" using assms(1,3) by (cases s rule: rev_cases) auto
  moreover have "dropWhile isspace (rev e @ rev s) = dropWhile isspace (rev s)" using assms(4) by (intro dropWhile_append2) simp
  ultimately show ?thesis by (simp add: str_trim_def)
qed

lemma length_decimal: "n < 10 ^ k \<Longrightarrow> 0 < k \<Longrightarrow> length (decimal n) \<le> k"
proof (induction n arbitrary: k rule: decimal.induct)
  case (1 n)
  show ?case
  proof (cases "n < 10")
    case True
    then show ?thesis using 1(3) by (simp add: decimal.simps)
  next
    case False
    then obtain l where k: "k = Suc (Suc l)" using 1(2,3) by (cases k; cases "k - 1") auto
    then have "n div 10 < 10 ^ Suc l" using 1(2) by (simp add: less_mult_imp_div_less mult.commute)
    then show ?thesis using 1(1) [OF False, of "Suc l"] False k by (simp add: decimal.simps [of n])
  qed
qed

lemma digit_char: "n < 10 \<Longrightarrow> is_digit (48 + of_nat n) \<and> unat (48 + of_nat n :: u8) = 48 + n"
  by (simp add: is_digit_def word_le_nat_alt unat_word_ariths unat_of_nat)

lemma decimal_digits: "\<forall>c\<in>set (decimal n). is_digit c"
proof (induction n rule: decimal.induct)
  case (1 n)
  then show ?case
    using digit_char [of n] digit_char [of "n mod 10"] by (subst decimal.simps) auto
qed

lemma digits_val_append: "\<forall>c\<in>set a. is_digit c \<Longrightarrow> digits_val v (a @ b) = digits_val (digits_val v a) b"
  by (induction a arbitrary: v) simp_all

lemma digits_val_decimal: "digits_val 0 (decimal n) = n"
proof (induction n rule: decimal.induct)
  case (1 n)
  show ?case
  proof (cases "n < 10")
    case True
    then show ?thesis using digit_char [of n] by (simp add: decimal.simps)
  next
    case False
    then show ?thesis
      using 1 digit_char [of "n mod 10"] decimal_digits by (simp add: decimal.simps [of n] digits_val_append)
  qed
qed

text \<open>\<^verbatim>\<open>atoi\<close> reads what \<^verbatim>\<open>%d\<close> writes.\<close>

lemma atoi_print_int:
  assumes "- 2147483648 \<le> v" "v < 2147483648"
  shows "atoi (print_int v) = Some v"
proof -
  have d: "\<exists>c t. decimal n = c # t \<and> is_digit c" for n using decimal_digits [of n] by (cases "decimal n") (auto simp: decimal.simps [of n] split: if_splits)
  have s: "\<not> isspace c \<and> c \<noteq> 45 \<and> c \<noteq> 43" if "is_digit c" for c
    using that by (auto simp: is_digit_def isspace_def word_le_nat_alt)
  show ?thesis
  proof (cases "v < 0")
    case True
    then show ?thesis using assms digits_val_decimal by (simp add: print_int_def atoi_def isspace_def)
  next
    case False
    obtain c t where "decimal (nat v) = c # t" "is_digit c" using d by blast
    then show ?thesis using s [of c] assms False digits_val_decimal [of "nat v"] by (simp add: print_int_def atoi_def)
  qed
qed

lemma length_print_int: "length (print_int (to_int x)) \<le> 11"
proof -
  have "nat \<bar>to_int x\<bar> < 10 ^ 10" using sint_ge [of x] sint_lt [of x] by (simp add: to_int_def)
  then show ?thesis
    using length_decimal [of "nat \<bar>to_int x\<bar>" 10] by (auto simp: print_int_def)
qed

subsection \<open>Splitting against its specification\<close>

text \<open>The parts of a string between separators, empty ones included.\<close>

primrec segments :: "cstring \<Rightarrow> cstring \<Rightarrow> cstring list" where
  "segments sep [] = [[]]"
| "segments sep (c # s) = (if c \<in> set sep then [] # segments sep s else (c # hd (segments sep s)) # tl (segments sep s))"

fun join :: "u8 \<Rightarrow> cstring list \<Rightarrow> cstring" where
  "join d [] = []"
| "join d [s] = s"
| "join d (s # t # ss) = s @ d # join d (t # ss)"

lemma segments_plain: "set s \<inter> set sep = {} \<Longrightarrow> segments sep s = [s]"
  by (induction s) auto

lemma segments_app: "set s \<inter> set sep = {} \<Longrightarrow> d \<in> set sep \<Longrightarrow> segments sep (s @ d # t) = s # segments sep t"
  by (induction s) auto

lemma find_first_of_cases:
  obtains "find_first_of sep s = None" "set s \<inter> set sep = {}"
  | p d t where "find_first_of sep s = Some (length p)" "s = p @ d # t" "set p \<inter> set sep = {}" "d \<in> set sep"
proof (cases "find_first_of sep s")
  case None
  then show ?thesis using that(1) by (simp add: find_first_of_None)
next
  case (Some k)
  then have "k < length s" "s ! k \<in> set sep" "set (take k s) \<inter> set sep = {}" by (simp_all add: find_first_of_Some)
  then show ?thesis
    using Some that(2) [of "take k s" "s ! k" "drop (Suc k) s"] by (simp add: id_take_nth_drop)
qed

definition nonempty :: "cstring list \<Rightarrow> cstring list" where
  "nonempty = filter (\<lambda>p. p \<noteq> [])"

lemma nonempty_simps [simp]: "nonempty [] = []" "nonempty (p # ps) = (if p = [] then nonempty ps else p # nonempty ps)"
  "nonempty (ps @ qs) = nonempty ps @ nonempty qs"
  by (simp_all add: nonempty_def)

lemma split_loop_plain: "set s \<inter> set sep = {} \<Longrightarrow> split_loop sep mx i s res = (s, res)"
  by (subst split_loop.simps) (simp add: find_first_of_None [THEN iffD2])

lemma split_loop_app:
  assumes "set p \<inter> set sep = {}" "d \<in> set sep"
  shows "split_loop sep mx i (p @ d # t) res =
    (if mx > -1 \<and> i + 1 = mx then (t, res @ nonempty [p])
     else split_loop sep mx (if mx > -1 then i + 1 else i) t (res @ nonempty [p]))"
  by (subst split_loop.simps) (simp add: find_first_of_app [OF assms])

lemma str_split_plain: "set s \<inter> set sep = {} \<Longrightarrow> str_split s sep mx res = res @ nonempty [s]"
  by (simp add: str_split_def split_loop_plain)

lemma split_loop_unbounded:
  "split_loop sep (-1) i s res = (t, res') \<Longrightarrow> res' @ nonempty [t] = res @ nonempty (segments sep s)"
proof (induction "length s" arbitrary: s res rule: less_induct)
  case less
  show ?case
  proof (cases rule: find_first_of_cases [of sep s])
    case 1
    then show ?thesis using less.prems by (simp add: split_loop_plain segments_plain)
  next
    case (2 p d u)
    then have "split_loop sep (-1) i u (res @ nonempty [p]) = (t, res')" using less.prems by (simp add: split_loop_app)
    from less.hyps [OF _ this] show ?thesis using 2 by (simp add: segments_app)
  qed
qed

lemma str_split_all: "str_split s sep (-1) res = res @ nonempty (segments sep s)"
  using split_loop_unbounded [of sep 0 s res] by (auto simp: str_split_def split: prod.split)

lemma segments_join:
  "d \<in> set sep \<Longrightarrow> \<forall>p\<in>set ps. set p \<inter> set sep = {} \<Longrightarrow> ps \<noteq> [] \<Longrightarrow> segments sep (join d ps) = ps"
  by (induction d ps rule: join.induct) (auto simp: segments_plain segments_app)

text \<open>The request line has three parts, which two separators divide.\<close>

lemma str_split_three:
  assumes "set a \<inter> set sep = {}" "set b \<inter> set sep = {}" "set c \<inter> set sep = {}" "d \<in> set sep" "a \<noteq> []" "b \<noteq> []" "c \<noteq> []"
  shows "str_split (a @ d # b @ d # c) sep 3 [] = [a, b, c]"
  using assms by (simp add: str_split_def split_loop_app split_loop_plain)

text \<open>
  C34. Without a bound \<^verbatim>\<open>split\<close> computes exactly the non-empty parts between separator characters, in order,
  behind what the vector held; so the parts that were joined with a separator are found again.
\<close>

theorem split_is_segments:
  "str_split s sep (-1) res = res @ filter (\<lambda>p. p \<noteq> []) (segments sep s) \<and>
   (d \<in> set sep \<and> (\<forall>p\<in>set ps. p \<noteq> [] \<and> set p \<inter> set sep = {}) \<longrightarrow> str_split (join d ps) sep (-1) [] = ps)"
proof -
  have "filter (\<lambda>p. p \<noteq> []) ps = ps" if "\<forall>p\<in>set ps. p \<noteq> [] \<and> set p \<inter> set sep = {}"
    using that by (simp add: filter_id_conv)
  then show ?thesis
    using segments_join [of d sep ps] by (cases "ps = []") (auto simp: str_split_all nonempty_def segments_plain)
qed

theorem split_is_segments_witness:
  "str_split (cstr ''&a=1&&b'') (cstr ''&'') (-1) [] = [cstr ''a=1'', cstr ''b''] \<and>
   str_split (join 61 [cstr ''qos'', cstr ''1'']) (cstr ''='') (-1) [] = [cstr ''qos'', cstr ''1'']"
  using split_is_segments [of "cstr ''&a=1&&b''" "cstr ''&''" "[]" 61 "[]"]
    split_is_segments [of "[]" "cstr ''=''" "[]" 61 "[cstr ''qos'', cstr ''1'']"]
  by (simp add: cstr_def of_char_def)

end
