(* ===== verification/Http.thy ===== *)
theory Http
  imports Notify Str_Tools
begin

text \<open>
  The HTTP entry to the broker: \<^verbatim>\<open>src/http_server/http_connection.cpp\<close>, \<^verbatim>\<open>http_connection.hpp\<close>,
  \<^verbatim>\<open>http_acceptor.cpp\<close> and \<^verbatim>\<open>http_server.cpp\<close>. A request for \<^verbatim>\<open>/publish\<close> with the parameters \<^verbatim>\<open>client\<close>,
  \<^verbatim>\<open>topic\<close> and \<^verbatim>\<open>msg\<close> becomes a PUBLISH packet that is handed to the broker through its notifier.

  The HTTP server runs in a thread of its own with its own reactor, so it has a world of its own (\<open>http_world\<close>, an
  extension of the world of event handlers); what it shares with the broker is the message store and the
  notification queue, which are in the state of the broker. An operation of a connection takes and returns both.
  Maps from strings to strings are HOL maps, as the code only looks up and enters.
\<close>

subsection \<open>Requests, responses, connections\<close>

record http_request =
  req_method :: cstring
  req_path :: cstring
  req_params :: cstring
  req_headers :: "cstring \<rightharpoonup> cstring"
  req_query :: "cstring \<rightharpoonup> cstring"
  req_cookies :: "cstring \<rightharpoonup> cstring"

definition HTTPRequest :: http_request where
  "HTTPRequest = \<lparr>req_method = [], req_path = [], req_params = [], req_headers = Map.empty, req_query = Map.empty, req_cookies = Map.empty\<rparr>"

text \<open>The value is left as it was when there is no such parameter.\<close>

definition query_param :: "http_request \<Rightarrow> cstring \<Rightarrow> cstring \<Rightarrow> int \<times> cstring" where
  "query_param req name value = (case req_query req name of Some v \<Rightarrow> (0, v) | None \<Rightarrow> (-1, value))"

record http_response =
  res_code :: int
  res_phrase :: cstring
  res_type :: cstring
  res_date :: cstring
  res_body :: cstring

definition HTTPResponse :: "cstring \<Rightarrow> http_response" where
  "HTTPResponse date = \<lparr>res_code = 200, res_phrase = cstr ''OK'', res_type = cstr ''text/html'', res_date = date, res_body = []\<rparr>"

definition res_append :: "cstring \<Rightarrow> http_response \<Rightarrow> http_response" where
  "res_append str res = res\<lparr>res_body := res_body res @ str\<rparr>"

record http_connection =
  h_recv_buffer :: bytes
  h_cur_buf_pos :: u32
  h_last_msg_time :: "int option"
  h_http_response :: http_response
  h_notify_reactor :: bool

definition HTTP_MAX_BUF_SIZE :: nat where "HTTP_MAX_BUF_SIZE = 4096"

definition HttpConnection :: "u8 \<Rightarrow> cstring \<Rightarrow> bool \<Rightarrow> http_connection" where
  "HttpConnection junk date notify_reactor =
     \<lparr>h_recv_buffer = replicate HTTP_MAX_BUF_SIZE junk, h_cur_buf_pos = 0, h_last_msg_time = None, h_http_response = HTTPResponse date,
      h_notify_reactor = notify_reactor\<rparr>"

record http_world = ev_world +
  m_http_conns :: "hid \<rightharpoonup> http_connection"
  h_now :: int
  h_next_hid :: hid
  h_junk :: u8

definition upd_http :: "hid \<Rightarrow> (http_connection \<Rightarrow> http_connection) \<Rightarrow> http_world \<Rightarrow> http_world" where
  "upd_http h f hw = hw\<lparr>m_http_conns := (m_http_conns hw)(h := map_option f (m_http_conns hw h))\<rparr>"

subsection \<open>Parsing a request\<close>

text \<open>Parameters of a GET request: an entry that is not of the form name=value is left out.\<close>

fun get_params :: "cstring list \<Rightarrow> (cstring \<rightharpoonup> cstring) \<Rightarrow> cstring \<rightharpoonup> cstring" where
  "get_params [] query = query"
| "get_params (p # ps) query =
     (let Q2 = str_split p (cstr ''='') (-1) [] in get_params ps (if length Q2 = 2 then query(Q2 ! 0 \<mapsto> Q2 ! 1) else query))"

text \<open>Parameters of a POST request: both parts are accessed without a test.\<close>

fun post_params :: "cstring list \<Rightarrow> (cstring \<rightharpoonup> cstring) \<Rightarrow> (cstring \<rightharpoonup> cstring) option" where
  "post_params [] query = Some query"
| "post_params (p # ps) query =
     (let data = str_split p (cstr ''='') 2 [] in if length data < 2 then None else post_params ps (query(data ! 0 \<mapsto> data ! 1)))"

definition request_line :: "cstring \<Rightarrow> http_request \<Rightarrow> (int \<times> http_request) option" where
  "request_line line req =
     (let R = str_split line (cstr '' '') 3 [] in
      if length R \<noteq> 3 then Some (-1, req)
      else
        let req = req\<lparr>req_method := R ! 0, req_path := R ! 1\<rparr> in
        case find_first_of (cstr ''?'') (req_path req) of
          Some pos \<Rightarrow>
            let Q1 = str_split (drop (pos + 1) (req_path req)) (cstr ''&'') (-1) [];
                req = req\<lparr>req_query := get_params Q1 (req_query req)\<rparr>
            in Some (0, req\<lparr>req_path := take pos (req_path req)\<rparr>)
        | None \<Rightarrow>
            if req_method req = cstr ''POST'' then do { p \<leftarrow> remove_space (req_path req); Some (0, req\<lparr>req_path := p\<rparr>) }
            else Some (0, req))"

definition header_line :: "cstring \<Rightarrow> http_request \<Rightarrow> http_request option" where
  "header_line line req =
     (let R = str_split line (cstr '': '') 2 [] in
      if length R = 2 then Some (req\<lparr>req_headers := (req_headers req)(R ! 0 \<mapsto> R ! 1)\<rparr>)
      else if req_method req = cstr ''POST''
      then do { q \<leftarrow> post_params (str_split line (cstr ''&'') 3 []) (req_query req); Some (req\<lparr>req_query := q\<rparr>) }
      else Some req)"

text \<open>The loop over the lines; \<open>i\<close> counts the lines that are not blank. Result: return value, request, buffer.\<close>

function parse_loop :: "nat \<Rightarrow> bytes \<Rightarrow> nat \<Rightarrow> http_request \<Rightarrow> (int \<times> http_request \<times> bytes) option" where
  "parse_loop i buf pos req =
     (case strtok_r (cstr [CHR 0x0A]) buf pos of
        None \<Rightarrow> None
      | Some (pch, buf', pos') \<Rightarrow> (case pch of
          None \<Rightarrow> Some (0, req, buf')
        | Some pch \<Rightarrow>
            let line = str_trim pch in
            if line = [] then parse_loop i buf' pos' req
            else if i = 0 then (case request_line line req of
                None \<Rightarrow> None
              | Some (r, req) \<Rightarrow> if r = -1 then Some (-1, req, buf') else parse_loop (i + 1) buf' pos' req)
            else (case header_line line req of
                None \<Rightarrow> None
              | Some req \<Rightarrow> parse_loop (i + 1) buf' pos' req)))"
  by pat_completeness auto
termination
  by (relation "measure (\<lambda>(i, buf, pos, req). length buf - pos)")
    (auto intro: strtok_r_less)

declare parse_loop.simps [simp del]

definition parse_headers :: "bytes \<Rightarrow> http_request \<Rightarrow> (int \<times> http_request \<times> bytes) option" where
  "parse_headers buf req = parse_loop 0 buf 0 req"

subsection \<open>Publishing\<close>

text \<open>The buffer for the message, entered in the store. Result: its address and the id.\<close>

definition http_mbuf :: "u32 \<Rightarrow> broker \<Rightarrow> (addr \<times> u64 \<times> broker) option" where
  "http_mbuf buf_len w =
     do {
       let (a, w) = make_mbuf buf_len w;
       let w = upd_mbuf a (set_msg_type MSG_PUBLISH) w;
       let (i, st) = next_msg_id (w_store (m_mem w));
       let w = upd_mbuf a (set_msg_id i) (w\<lparr>m_mem := (m_mem w)\<lparr>w_store := st\<rparr>\<rparr>);
       mem \<leftarrow> regist_mem_store (of_int (w_now w)) True a (m_mem w);
       Some (a, i, w\<lparr>m_mem := mem\<rparr>)
     }"

text \<open>\<^verbatim>\<open>atoi\<close> of the parameter, stored in a \<^verbatim>\<open>uint8_t\<close> and limited to 1.\<close>

definition small_param :: "cstring \<Rightarrow> u8 option" where
  "small_param s = do { v \<leftarrow> atoi s; let q = (of_int v :: u8); Some (if q > 1 then 1 else q) }"

text \<open>The flag \<^verbatim>\<open>retain\<close> is evaluated when the parameter is missing. The message is queued even if \<^verbatim>\<open>error\<close>
  is not empty. Result: return value, the error text, the broker.\<close>

definition notify_mqtt_publish :: "bool \<Rightarrow> http_request \<Rightarrow> broker \<Rightarrow> (int \<times> cstring \<times> broker) option" where
  "notify_mqtt_publish notify_reactor req w =
     do {
       let (r, str_client_id) = query_param req (cstr ''client'') [];
       let error = (if r = -1 then cstr ''client param missed. '' else []);
       let (r, str_topic_name) = query_param req (cstr ''topic'') [];
       let error = error @ (if r = -1 then cstr ''topic param missed. '' else []);
       let (r, str_msg) = query_param req (cstr ''msg'') [];
       let error = error @ (if r = -1 then cstr ''msg param missed'' else []);
       let (r, str_qos) = query_param req (cstr ''qos'') [];
       qos \<leftarrow> (if r \<noteq> -1 then small_param str_qos else Some 1);
       let (r, str_retain_flag) = query_param req (cstr ''retain'') [];
       retain \<leftarrow> (if r = -1 then small_param str_retain_flag else Some 0);
       let fixed_header = (CMqttFixedHeader PUBLISH)\<lparr>m_retain_flag := (retain \<noteq> 0), m_qos := qos\<rparr>;
       let buf_len = of_nat (length str_msg + length str_topic_name + 8);
       (a, publish_msg_id, w) \<leftarrow> http_mbuf buf_len w;
       b \<leftarrow> heap w a;
       (pkt_len, m) \<leftarrow> CMqttPublish_encode ((CMqttPublish_hdr (read_ptr b) buf_len fixed_header)
          \<lparr>m_str_topic_name := str_topic_name, m_pub_msg_id := ucast (publish_msg_id AND 0xFFFF), m_payload := str_msg\<rparr>);
       let w = upd_mbuf a (m_data_update (\<lambda>_. m_buf (m_mqtt_pkt m))) w;
       if pkt_len = -1 then Some (-1, error @ cstr ''publish msg encode failed'', w)
       else do {
         let w = upd_mbuf a (write_ptr_skip (of_int pkt_len)) w;
         (_, w) \<leftarrow> (if notify_reactor then poller_notify CPollerNotifyFd_notify a w else Some (0, w));
         Some (if error \<noteq> [] then -1 else 0, error, w)
       }
     }"

subsection \<open>Answering\<close>

definition CRLF :: cstring where "CRLF = [13, 10]"

definition response_header :: "http_response \<Rightarrow> cstring" where
  "response_header res =
     cstr ''HTTP/1.0 '' @ print_int (res_code res) @ cstr '' '' @ res_phrase res @ CRLF @
     cstr ''Server: HttpServer 1.0'' @ CRLF @ cstr ''Date: '' @ res_date res @ CRLF @
     cstr ''Content-Type: '' @ res_type res @ CRLF @
     cstr ''Content-Length: '' @ print_int (to_int (of_nat (length (res_body res)))) @ CRLF"

text \<open>\<^verbatim>\<open>strcat\<close> leaves the header buffer when less than three bytes are left.\<close>

definition http_send :: "hid \<Rightarrow> http_response \<Rightarrow> http_world \<Rightarrow> (int \<times> http_world) option" where
  "http_send h res hw =
     (let header_buffer = snprintf 1024 (response_header res) in
      if length header_buffer + 2 \<ge> 1024 then None
      else let response_data = header_buffer @ CRLF @ res_body res in write_n h response_data (length response_data) hw)"

definition json_error :: "cstring \<Rightarrow> cstring \<Rightarrow> cstring \<Rightarrow> cstring" where
  "json_error error code request =
     snprintf 1024 (cstr ''{'' @ [10] @ [34] @ cstr ''error'' @ [34] @ cstr '':'' @ [34] @ error @ [34] @ cstr '','' @ [10] @
       [34] @ cstr ''error_code'' @ [34] @ cstr '':'' @ code @ cstr '','' @ [10] @
       [34] @ cstr ''request'' @ [34] @ cstr '':'' @ [34] @ request @ [34] @ [10] @ cstr ''}'' @ [10])"

definition succeed_text :: cstring where
  "succeed_text = cstr ''{'' @ [34] @ cstr ''msg'' @ [34] @ cstr '':'' @ [34] @ cstr ''succeed'' @ [34] @ cstr ''}''"

definition http_process :: "hid \<Rightarrow> http_world \<Rightarrow> broker \<Rightarrow> (int \<times> http_world \<times> broker) option" where
  "http_process h hw w =
     do {
       k \<leftarrow> m_http_conns hw h;
       (res, req, buf) \<leftarrow> parse_headers (h_recv_buffer k) HTTPRequest;
       let hw = upd_http h (h_recv_buffer_update (\<lambda>_. buf)) hw;
       if req_path req = cstr ''/favicon.ico'' then Some (-1, hw, w)
       else do {
         let resp = (h_http_response k)\<lparr>res_type := cstr ''text/json''\<rparr>;
         (resp, w) \<leftarrow> (if res = -1 \<or> req_path req \<noteq> cstr ''/publish''
           then Some (res_append (json_error (cstr ''not found'') (cstr ''400'') (req_path req))
                  (resp\<lparr>res_code := 404, res_phrase := cstr ''Not Found''\<rparr>), w)
           else do {
             (r, error, w) \<leftarrow> notify_mqtt_publish (h_notify_reactor k) req w;
             if r = -1
             then Some (res_append (json_error error (cstr ''400'') (req_path req)) (resp\<lparr>res_code := 400\<rparr>), w)
             else Some (res_append succeed_text (resp\<lparr>res_code := 200\<rparr>), w)
           });
         (_, hw) \<leftarrow> http_send h resp (upd_http h (h_http_response_update (\<lambda>_. resp)) hw);
         Some (0, hw, w)
       }
     }"

text \<open>The byte behind what was received is set to zero, also when the buffer is full.\<close>

definition http_handle_input :: "read_res \<Rightarrow> hid \<Rightarrow> http_world \<Rightarrow> broker \<Rightarrow> (int \<times> http_world \<times> broker) option" where
  "http_handle_input rd h hw w =
     do {
       k \<leftarrow> m_http_conns hw h;
       case rd of
         Read_error e \<Rightarrow> Some (if blocking e then 0 else -1, hw\<lparr>w_errno := e\<rparr>, w)
       | Read bs \<Rightarrow>
           let bs = take (unat (of_nat HTTP_MAX_BUF_SIZE - h_cur_buf_pos k)) bs in
           if bs = [] then Some (-1, hw, w)
           else do {
             d \<leftarrow> mem_copy (h_recv_buffer k) (unat (h_cur_buf_pos k)) bs;
             let pos = h_cur_buf_pos k + of_nat (length bs);
             d \<leftarrow> mem_put d (unat pos) 0;
             let hw = upd_handler h (\<lambda>x. x\<lparr>m_recv_times := m_recv_times x + 1,
                        m_recv_bytes := m_recv_bytes x + of_nat (length bs)\<rparr>) hw;
             http_process h (upd_http h (\<lambda>k. k\<lparr>h_recv_buffer := d, h_cur_buf_pos := pos, h_last_msg_time := Some (h_now hw)\<rparr>) hw) w
           }
     }"

subsection \<open>Accepting connections\<close>

text \<open>\<open>fd\<close> is the result of \<^verbatim>\<open>accept4\<close>, \<open>date\<close> the formatted time.\<close>

definition HttpAcceptor_handle_input :: "int \<Rightarrow> cstring \<Rightarrow> cstring \<Rightarrow> u32 \<Rightarrow> bool \<Rightarrow> http_world \<Rightarrow> (int \<times> http_world) option" where
  "HttpAcceptor_handle_input fd peer date mask0 notify_reactor hw =
     do {
       let h = h_next_hid hw;
       let hw = hw\<lparr>m_handlers := (m_handlers hw)(h \<mapsto> CEventHandler mask0 True (of_int (h_now hw))),
                   m_http_conns := (m_http_conns hw)(h \<mapsto> HttpConnection (h_junk hw) date notify_reactor), h_next_hid := Suc h\<rparr>;
       let hw = (if fd \<le> 0 then hw else upd_handler h (m_sock_handle_update (\<lambda>_. fd)) hw);
       (_, hw) \<leftarrow> CEventHandler_open peer h hw;
       Some (0, hw)
     }"

subsection \<open>What a GET request is parsed to\<close>

text \<open>A word that contains nothing with a meaning in a request line.\<close>

definition plain :: "cstring \<Rightarrow> bool" where
  "plain s \<longleftrightarrow> s \<noteq> [] \<and> set s \<inter> {0, 9, 10, 11, 12, 13, 32, 38, 61, 63} = {}"

lemma plain_not_space: "plain s \<Longrightarrow> c \<in> set s \<Longrightarrow> \<not> isspace c"
  using isspace_set [of c] by (auto simp: plain_def)

definition query_text :: "(cstring \<times> cstring) list \<Rightarrow> cstring" where
  "query_text ps = join 38 (map (\<lambda>(k, v). join 61 [k, v]) ps)"

definition get_line :: "cstring \<Rightarrow> (cstring \<times> cstring) list \<Rightarrow> cstring \<Rightarrow> cstring" where
  "get_line path ps version = cstr ''GET'' @ 32 # (path @ 63 # query_text ps) @ 32 # version"

definition plain_params :: "(cstring \<times> cstring) list \<Rightarrow> bool" where
  "plain_params ps \<longleftrightarrow> ps \<noteq> [] \<and> (\<forall>(k, v)\<in>set ps. plain k \<and> plain v)"

definition get_request :: "cstring \<Rightarrow> (cstring \<times> cstring) list \<Rightarrow> http_request" where
  "get_request path ps = HTTPRequest\<lparr>req_method := cstr ''GET'', req_path := path, req_query := map_of (rev ps)\<rparr>"

lemma sep_sets: "set (cstr ''='') = {61}" "set (cstr ''&'') = {38}" "set (cstr '' '') = {32}" "set (cstr ''?'') = {63}"
  "set (cstr ''GET'') = {71, 69, 84}" "cstr ''GET'' = [71, 69, 84]" "cstr ''GET'' \<noteq> cstr ''POST''"
  by (auto simp: cstr_def of_char_def)

lemma length_cstr [simp]: "length (cstr s) = length s"
  by (simp add: cstr_def)

lemma get_request_simps [simp]: "req_method (get_request path ps) \<noteq> cstr ''POST''" "req_path (get_request path ps) = path"
  "req_query (get_request path ps) = map_of (rev ps)"
  using sep_sets(7) by (simp_all add: get_request_def)

lemma get_params_pairs:
  "\<forall>(k, v)\<in>set ps. plain k \<and> plain v \<Longrightarrow> get_params (map (\<lambda>(k, v). join 61 [k, v]) ps) q = q ++ map_of (rev ps)"
proof (induction ps arbitrary: q)
  case (Cons p ps)
  obtain k v where p: "p = (k, v)" "plain k" "plain v" using Cons.prems by (cases p) auto
  then have "nonempty (segments (cstr ''='') (join 61 [k, v])) = [k, v]"
    using segments_join [of 61 "cstr ''=''" "[k, v]"] by (auto simp: sep_sets plain_def)
  then show ?case using Cons p by (simp add: str_split_all map_add_assoc [symmetric] fun_eq_iff map_add_def split: option.split)
qed simp

lemma set_join: "set (join d ps) \<subseteq> insert d (\<Union>p\<in>set ps. set p)"
  by (induction d ps rule: join.induct) auto

lemma set_query_text: "plain_params ps \<Longrightarrow> set (query_text ps) \<inter> {0, 9, 10, 11, 12, 13, 32, 63} = {}"
  using set_join [of 38 "map (\<lambda>(k, v). join 61 [k, v]) ps"] by (fastforce simp: query_text_def plain_params_def plain_def)

lemma query_text_parts:
  assumes "plain_params ps"
  shows "nonempty (segments (cstr ''&'') (query_text ps)) = map (\<lambda>(k, v). join 61 [k, v]) ps"
proof -
  have "segments (cstr ''&'') (query_text ps) = map (\<lambda>(k, v). join 61 [k, v]) ps"
    unfolding query_text_def using assms
    by (intro segments_join) (fastforce simp: sep_sets plain_params_def plain_def)+
  then show ?thesis by (auto simp: nonempty_def filter_id_conv)
qed

lemma request_line_get:
  assumes "plain path" "plain_params ps" "plain version"
  shows "request_line (get_line path ps version) HTTPRequest = Some (0, get_request path ps)"
proof -
  have "set (path @ 63 # query_text ps) \<inter> set (cstr '' '') = {}" "set version \<inter> set (cstr '' '') = {}"
    using assms set_query_text [OF assms(2)] by (auto simp: sep_sets plain_def)
  then have "str_split (get_line path ps version) (cstr '' '') 3 [] = [cstr ''GET'', path @ 63 # query_text ps, version]"
    unfolding get_line_def using assms(3) by (intro str_split_three) (auto simp: sep_sets plain_def)
  moreover have "find_first_of (cstr ''?'') (path @ 63 # query_text ps) = Some (length path)"
    using assms(1) by (intro find_first_of_app) (auto simp: sep_sets plain_def)
  ultimately show ?thesis
    using assms(2) get_params_pairs [of ps Map.empty]
    by (simp add: request_line_def Let_def str_split_all query_text_parts get_request_def HTTPRequest_def plain_params_def)
qed

text \<open>The lines behind the request line do not change what a GET request asks for.\<close>

lemma header_line_get:
  "req_method req \<noteq> cstr ''POST'' \<Longrightarrow> \<exists>hs. header_line line req = Some (req\<lparr>req_headers := hs\<rparr>)"
proof -
  have "req = req\<lparr>req_headers := req_headers req\<rparr>" by simp
  then show "req_method req \<noteq> cstr ''POST'' \<Longrightarrow> \<exists>hs. header_line line req = Some (req\<lparr>req_headers := hs\<rparr>)"
    unfolding header_line_def Let_def by metis
qed

lemma parse_rest:
  assumes "0 \<in> set (drop pos buf)" "req_method req \<noteq> cstr ''POST''" "0 < i"
  shows "\<exists>hs buf'. parse_loop i buf pos req = Some (0, req\<lparr>req_headers := hs\<rparr>, buf') \<and> take pos buf' = take pos buf \<and> length buf' = length buf"
  using assms
proof (induction "length buf - pos" arbitrary: i buf pos req rule: less_induct)
  case less
  obtain r buf1 pos1 where st: "strtok_r (cstr [CHR 0x0A]) buf pos = Some (r, buf1, pos1)" "0 \<in> set (drop pos1 buf1)" "pos \<le> pos1"
    "take pos buf1 = take pos buf" "length buf1 = length buf"
    using strtok_r_total [OF less.prems(1)] by blast
  show ?case
  proof (cases r)
    case None
    then show ?thesis using st by (subst parse_loop.simps) (auto intro!: exI [of _ "req_headers req"])
  next
    case (Some pch)
    have lt: "length buf1 - pos1 < length buf - pos" using strtok_r_less st(1) Some by blast
    have tk: "take pos buf' = take pos buf" if "take pos1 buf' = take pos1 buf1" for buf'
      using arg_cong [OF that, of "take pos"] st(3,4) by (simp add: min_def)
    obtain hs where hs: "header_line (str_trim pch) req = Some (req\<lparr>req_headers := hs\<rparr>)"
      using header_line_get [OF less.prems(2)] by blast
    obtain h1 b1 where 1: "parse_loop i buf1 pos1 req = Some (0, req\<lparr>req_headers := h1\<rparr>, b1)" "take pos1 b1 = take pos1 buf1" "length b1 = length buf1"
      using less.hyps [OF lt st(2) less.prems(2,3)] by blast
    obtain h2 b2 where 2: "parse_loop (i + 1) buf1 pos1 (req\<lparr>req_headers := hs\<rparr>) = Some (0, req\<lparr>req_headers := h2\<rparr>, b2)"
        "take pos1 b2 = take pos1 buf1" "length b2 = length buf1"
      using less.hyps [OF lt st(2), of "req\<lparr>req_headers := hs\<rparr>" "i + 1"] less.prems(2) by auto
    show ?thesis
      using Some st 1 2 hs tk less.prems(3)
      by (cases "str_trim pch = []") (subst parse_loop.simps, force)+
  qed
qed

text \<open>A buffer that starts with the request line, ended by a line feed or, when it was parsed before, by zero.\<close>

lemma parse_get:
  assumes "plain path" "plain_params ps" "plain version" "d = 10 \<and> 0 \<in> set tail \<or> d = 0"
  shows "\<exists>hs tail'. parse_headers (get_line path ps version @ 13 # d # tail) HTTPRequest =
    Some (0, (get_request path ps)\<lparr>req_headers := hs\<rparr>, get_line path ps version @ 13 # 0 # tail') \<and> length tail' = length tail"
proof -
  let ?l = "get_line path ps version"
  let ?buf = "(?l @ [13]) @ 0 # tail" and ?pos = "length (?l @ [13]) + (if d = 10 then 1 else 0)"
  have l: "set (?l @ [13]) \<inter> {0, 10} = {}"
    using assms(1,3) set_query_text [OF assms(2)] by (auto simp: get_line_def sep_sets plain_def)
  have "last ?l \<in> set version" using assms(3) by (simp add: get_line_def plain_def)
  then have tr: "str_trim (?l @ [13]) = ?l"
    using assms(3) plain_not_space [OF assms(3)] by (intro str_trim_end) (auto simp: get_line_def sep_sets isspace_def plain_def)
  have st: "strtok_r (cstr [CHR 0x0A]) ((?l @ [13]) @ d # tail) 0 = Some (Some (?l @ [13]), ?buf, ?pos)"
    by (rule strtok_r_line [OF l _ assms(4)]) simp
  have ne: "?l \<noteq> []" by (simp add: get_line_def sep_sets)
  have go: "parse_headers ((?l @ [13]) @ d # tail) HTTPRequest = parse_loop 1 ?buf ?pos (get_request path ps)"
    unfolding parse_headers_def
    by (subst parse_loop.simps) (simp add: st tr ne request_line_get [OF assms(1-3)] del: append_assoc)
  show ?thesis
  proof (cases "d = 10")
    case True
    then obtain hs buf' where p: "parse_loop 1 ?buf ?pos (get_request path ps) = Some (0, (get_request path ps)\<lparr>req_headers := hs\<rparr>, buf')"
        "take ?pos buf' = take ?pos ?buf" "length buf' = length ?buf"
      using parse_rest [of ?pos ?buf "get_request path ps" 1] assms(4) by auto
    moreover have "take ?pos buf' = ?l @ [13, 0]" using True p(2) by simp
    then have "buf' = (?l @ [13, 0]) @ drop ?pos buf'" by (metis append_take_drop_id)
    ultimately show ?thesis using go True by (intro exI [of _ hs] exI [of _ "drop ?pos buf'"]) simp
  next
    case False
    then have "strtok_r (cstr [CHR 0x0A]) ?buf ?pos = Some (None, ?buf, ?pos)" by (simp add: strtok_r_def)
    then have "parse_loop 1 ?buf ?pos (get_request path ps) = Some (0, get_request path ps, ?buf)"
      by (subst parse_loop.simps) simp
    then show ?thesis using go by (intro exI [of _ "req_headers (get_request path ps)"] exI [of _ tail]) simp
  qed
qed

subsection \<open>What is handed to the broker\<close>

lemma put_string_bytes_len: "wp (put_string v m) (keeps_len m)" "wp (put_bytes bs m) (keeps_len m)"
  by (auto simp: wp_def keeps_len_def put_string_def put_bytes_def write_string_def write_short_def write_bytes_def bind_eq_Some_conv
      dest!: mem_put_length mem_copy_length split: if_splits)

lemma put_string_bytes_len_wp:
  "keeps_len m0 m \<Longrightarrow> (\<And>m'. keeps_len m0 m' \<Longrightarrow> Q m') \<Longrightarrow> wp (put_string v m) Q"
  "keeps_len m0 m \<Longrightarrow> (\<And>m'. keeps_len m0 m' \<Longrightarrow> Q m') \<Longrightarrow> wp (put_bytes bs m) Q"
  by (auto simp: wp_def intro: keeps_len_trans dest!: wpD [OF put_string_bytes_len(1)] wpD [OF put_string_bytes_len(2)])

lemma publish_encode_len: "wp (CMqttPublish_encode m) (\<lambda>(r, m'). keeps_len m m')"
  by (auto simp: CMqttPublish_encode_def intro!: put_len_wp [of m] put_string_bytes_len_wp [of m] keeps_len_refl)

definition param :: "http_request \<Rightarrow> cstring \<Rightarrow> cstring" where
  "param req name = (case req_query req name of None \<Rightarrow> [] | Some v \<Rightarrow> v)"

definition http_qos :: "http_request \<Rightarrow> u8 option" where
  "http_qos req = (case req_query req (cstr ''qos'') of None \<Rightarrow> Some 1 | Some s \<Rightarrow> small_param s)"

definition http_error :: "http_request \<Rightarrow> cstring" where
  "http_error req =
     (if req_query req (cstr ''client'') = None then cstr ''client param missed. '' else []) @
     (if req_query req (cstr ''topic'') = None then cstr ''topic param missed. '' else []) @
     (if req_query req (cstr ''msg'') = None then cstr ''msg param missed'' else [])"

text \<open>The packet of a request that is given the message id \<open>i\<close>: without the retain flag.\<close>

definition http_packet :: "http_request \<Rightarrow> u8 \<Rightarrow> u64 \<Rightarrow> bytes" where
  "http_packet req qos i = frame (fixed_header_encode ((CMqttFixedHeader PUBLISH)\<lparr>m_qos := qos\<rparr>))
     (publish_body (param req (cstr ''topic'')) (ucast (i AND 0xFFFF)) (param req (cstr ''msg'')))"

lemma query_param_eq: "query_param req name [] = (if req_query req name = None then -1 else 0, param req name)"
  by (simp add: query_param_def param_def split: option.split)

lemma small_param_le: "small_param s = Some q \<Longrightarrow> unat q \<le> 1"
  by (auto simp: small_param_def Let_def word_less_nat_alt bind_eq_Some_conv split: if_splits)

lemma http_qos_le: "http_qos req = Some q \<Longrightarrow> unat q \<le> 1"
  using small_param_le by (auto simp: http_qos_def split: option.splits)

lemma http_mbuf_effect:
  assumes "http_mbuf n w = r"
  shows "\<exists>w' b. r = Some (w_next_addr w, m_last_msg_id (w_store (m_mem w)) + 1, w') \<and> untouched w w' \<and>
    heap w' = (heap w)(w_next_addr w \<mapsto> b) \<and> m_data b = replicate (unat n) (w_junk w) \<and> m_data_size b = n \<and> m_read_pos b = 0 \<and> m_write_pos b = 0 \<and>
    m_mbuf_msg_type b = MSG_PUBLISH \<and> m_notify_deque w' = m_notify_deque w \<and> w_errno w' = w_errno w \<and> w_calls w' = w_calls w \<and> w_sent w' = w_sent w \<and>
    m_last_msg_id (w_store (m_mem w')) = m_last_msg_id (w_store (m_mem w)) + 1 \<and> w_next_addr w' = Suc (w_next_addr w)"
  using assms
  by (cases w) (auto simp: http_mbuf_def make_mbuf_def Let_def upd_mbuf_def next_msg_id_def regist_mem_store_def set_msg_type_def set_msg_id_def
      CMbuf_def heap_def untouched_def add_msg_def fun_eq_iff of_nat_unat split: if_splits)

lemma length_http_packet:
  assumes "length (param req (cstr ''topic'')) + length (param req (cstr ''msg'')) < 4096"
  shows "length (http_packet req q i) \<le> length (param req (cstr ''msg'')) + length (param req (cstr ''topic'')) + 8"
    "length (publish_body (param req (cstr ''topic'')) j (param req (cstr ''msg''))) < 16384"
proof -
  show l: "length (publish_body (param req (cstr ''topic'')) j (param req (cstr ''msg''))) < 16384" for j
    using assms by (simp add: publish_body_def)
  then have "length (rl_enc (length (publish_body (param req (cstr ''topic'')) j (param req (cstr ''msg''))))) \<le> 2" for j
    using rl_enc_length [of "length (publish_body (param req (cstr ''topic'')) j (param req (cstr ''msg'')))" 1] l [of j] by simp
  then show "length (http_packet req q i) \<le> length (param req (cstr ''msg'')) + length (param req (cstr ''topic'')) + 8"
    by (fastforce simp: http_packet_def length_frame publish_body_def)
qed

lemma encode_into:
  assumes "m_data b = replicate (unat n) v" "m_data_size b = n" "m_read_pos b = 0" "m_write_pos b = 0" "m_mbuf_msg_type b = MSG_PUBLISH"
    and "unat n < 2147483648" "length (frame (fixed_header_encode hdr) (publish_body topic i payload)) \<le> unat n"
  shows "\<exists>k m. CMqttPublish_encode ((CMqttPublish_hdr (read_ptr b) n hdr)\<lparr>m_str_topic_name := topic, m_pub_msg_id := i, m_payload := payload\<rparr>) = Some (k, m) \<and>
    k \<noteq> -1 \<and> carries (write_ptr_skip (of_int k) (b\<lparr>m_data := m_buf (m_mqtt_pkt m)\<rparr>)) (frame (fixed_header_encode hdr) (publish_body topic i payload))"
proof -
  let ?bs = "frame (fixed_header_encode hdr) (publish_body topic i payload)"
  let ?m = "(CMqttPublish_hdr (read_ptr b) n hdr)\<lparr>m_str_topic_name := topic, m_pub_msg_id := i, m_payload := payload\<rparr>"
  have rp: "read_ptr b = m_data b" "length (m_data b) = unat n" using assms(1,3) by (simp_all add: read_ptr_def)
  obtain m r where m: "CMqttPublish_encode ?m = Some (int (length ?bs), m)" "m_buf (m_mqtt_pkt m) = ?bs @ r"
    using encodedD [OF CMqttPublish_encoded [OF _ assms(6,7), of "read_ptr b"]] rp by auto
  then have "length (?bs @ r) = unat n"
    using wpD [OF publish_encode_len m(1)] rp by (simp add: keeps_len_def CMqttPublish_hdr_def CMqttPublish_def CMqttPkt_def)
  moreover have "unat (of_nat (length ?bs) :: u32) = length ?bs" using assms(6,7) by simp
  ultimately have "carries (write_ptr_skip (of_int (int (length ?bs))) (b\<lparr>m_data := ?bs @ r\<rparr>)) ?bs"
    using assms(2-7) by (auto simp: carries_def write_ptr_skip_def mbuf_wf_def mbuf_contents_def read_ptr_def word_le_nat_alt word_less_nat_alt)
  then show ?thesis using m by auto
qed

lemma notify_effect:
  assumes "http_qos req = Some q" "length (param req (cstr ''topic'')) + length (param req (cstr ''msg'')) < 4096" "notifier n w"
  shows "\<exists>w' b. notify_mqtt_publish True req w = Some (if http_error req = [] then 0 else -1, http_error req, w') \<and> untouched w w' \<and>
    heap w' = (heap w)(w_next_addr w \<mapsto> b) \<and> carries b (http_packet req q (m_last_msg_id (w_store (m_mem w)) + 1)) \<and>
    m_notify_deque w' = m_notify_deque w @ [w_next_addr w] \<and> w_errno w' = w_errno w \<and> (\<forall>h. h \<noteq> n \<longrightarrow> w_sent w' h = w_sent w h) \<and>
    m_last_msg_id (w_store (m_mem w')) = m_last_msg_id (w_store (m_mem w)) + 1 \<and> w_next_addr w' = Suc (w_next_addr w)"
proof -
  let ?t = "param req (cstr ''topic'')" and ?p = "param req (cstr ''msg'')" and ?a = "w_next_addr w" and ?i = "m_last_msg_id (w_store (m_mem w)) + 1"
  let ?n = "of_nat (length ?p + length ?t + 8) :: u32" and ?hdr = "(CMqttFixedHeader PUBLISH)\<lparr>m_qos := q\<rparr>"
  obtain w1 b where w1: "http_mbuf ?n w = Some (?a, ?i, w1)" "untouched w w1" "heap w1 = (heap w)(?a \<mapsto> b)"
      "m_notify_deque w1 = m_notify_deque w" "w_errno w1 = w_errno w" "w_sent w1 = w_sent w"
      "m_last_msg_id (w_store (m_mem w1)) = ?i" "w_next_addr w1 = Suc ?a"
    and b: "m_data b = replicate (unat ?n) (w_junk w)" "m_data_size b = ?n" "m_read_pos b = 0" "m_write_pos b = 0" "m_mbuf_msg_type b = MSG_PUBLISH"
    using http_mbuf_effect [OF refl, of ?n w] by blast
  have n: "unat ?n = length ?p + length ?t + 8" using assms(2) by (intro unat_of_nat_u32) simp
  obtain k m where e: "CMqttPublish_encode ((CMqttPublish_hdr (read_ptr b) ?n ?hdr)
       \<lparr>m_str_topic_name := ?t, m_pub_msg_id := ucast (?i AND 0xFFFF), m_payload := ?p\<rparr>) = Some (k, m)" "k \<noteq> -1"
      "carries (write_ptr_skip (of_int k) (b\<lparr>m_data := m_buf (m_mqtt_pkt m)\<rparr>)) (http_packet req q ?i)"
    using encode_into [OF b, of ?hdr ?t "ucast (?i AND 0xFFFF)" ?p] n assms(2) length_http_packet(1) [OF assms(2), of q ?i]
    by (auto simp: http_packet_def)
  define w2 where "w2 = upd_mbuf ?a (write_ptr_skip (of_int k)) (upd_mbuf ?a (m_data_update (\<lambda>_. m_buf (m_mqtt_pkt m))) w1)"
  have w2: "untouched w w2" "heap w2 = (heap w)(?a \<mapsto> write_ptr_skip (of_int k) (b\<lparr>m_data := m_buf (m_mqtt_pkt m)\<rparr>))"
      "w_errno w2 = w_errno w" "w_sent w2 = w_sent w" "m_notify_deque w2 = m_notify_deque w"
      "m_last_msg_id (w_store (m_mem w2)) = ?i" "w_next_addr w2 = Suc ?a"
    using w1 untouched_trans [OF w1(2) untouched_trans [OF untouched_upd(7) untouched_upd(7)]]
    by (simp_all add: w2_def fun_eq_iff) (simp_all add: upd_mbuf_def)
  have "notifier n w2" using assms(3) w2(1) by (simp add: notifier_def untouched_def)
  then obtain r w' where w': "poller_notify CPollerNotifyFd_notify ?a w2 = Some (r, w')" "untouched w2 w'" "m_mem w' = m_mem w2" "w_next_addr w' = w_next_addr w2"
      "m_notify_deque w' = m_notify_deque w2 @ [?a]" "w_errno w' = w_errno w2" "\<forall>h. h \<noteq> n \<longrightarrow> w_sent w' h = w_sent w2 h"
    using poller_notify_effect by blast
  have hdr: "(CMqttFixedHeader PUBLISH)\<lparr>m_retain_flag := False, m_qos := q\<rparr> = ?hdr" by (simp add: CMqttFixedHeader_def)
  have neg: "((if c then -1 else 0) = (-1 :: int)) = c" for c by simp
  have ret: "(if req_query req (cstr ''retain'') = None then small_param (param req (cstr ''retain'')) else Some 0) = Some 0"
    by (simp add: param_def small_param_def atoi_def)
  have qos: "(if req_query req (cstr ''qos'') \<noteq> None then small_param (param req (cstr ''qos'')) else Some 1) = Some q"
    using assms(1) by (auto simp: http_qos_def param_def split: option.splits)
  have "notify_mqtt_publish True req w = Some (if http_error req = [] then 0 else -1, http_error req, w')"
    unfolding notify_mqtt_publish_def query_param_eq Let_def prod.case neg ret qos
    using w1(3) e(2) w'(1) by (simp add: w1(1) [simplified] hdr e(1) [simplified] http_error_def w2_def [symmetric] split del: if_split) auto
  then show ?thesis
    using w2 w' e(3) untouched_trans [OF w2(1) w'(2)] by (auto simp: heap_def)
qed

subsection \<open>What the HTTP client is answered\<close>

lemma http_world_simps [simp]:
  "m_handlers (upd_http h f hw) = m_handlers hw" "w_writes (upd_http h f hw) = w_writes hw" "w_calls (upd_http h f hw) = w_calls hw"
  "w_sent (upd_http h f hw) = w_sent hw" "m_http_conns (upd_http h f hw) k = (if k = h then map_option f (m_http_conns hw h) else m_http_conns hw k)"
  "h_now (upd_http h f hw) = h_now hw" "m_http_conns (upd_handler h g hw) = m_http_conns hw" "h_now (upd_handler h g hw) = h_now hw"
  by (cases hw; simp add: upd_http_def upd_handler_def)+

definition http_answer :: "http_response \<Rightarrow> bytes" where
  "http_answer resp = snprintf 1024 (response_header resp) @ CRLF @ res_body resp"

text \<open>\<open>header_fits\<close>: the header stays in its buffer, as it does for the phrases the server uses.\<close>

definition header_fits :: "http_response \<Rightarrow> bool" where
  "header_fits resp \<longleftrightarrow> length (res_phrase resp) \<le> 9 \<and> length (res_date resp) \<le> 99"

lemma length_print_code: "0 \<le> c \<Longrightarrow> c < 1000 \<Longrightarrow> length (print_int c) \<le> 3"
  using length_decimal [of "nat c" 3] by (simp add: print_int_def nat_less_iff)

lemma length_response_header:
  assumes "header_fits resp" "res_type resp = cstr ''text/json''" "0 \<le> res_code resp" "res_code resp < 1000"
  shows "length (response_header resp) \<le> 1000"
  using assms(1) length_print_code [OF assms(3,4)] length_print_int [of "of_nat (length (res_body resp))"]
  by (simp add: response_header_def header_fits_def assms(2) CRLF_def)

text \<open>The kernel takes an answer of up to \<open>n\<close> bytes in one piece.\<close>

definition answers_whole :: "hid \<Rightarrow> nat \<Rightarrow> http_world \<Rightarrow> bool" where
  "answers_whole h n hw \<longleftrightarrow> (\<exists>x. m_handlers hw h = Some x \<and> 0 \<le> m_sock_handle x) \<and> (\<forall>i. \<exists>k\<ge>n. w_writes hw i = Wrote k)"

lemma write_n_whole:
  assumes "answers_whole h n hw" "length bs \<le> n" "bs \<noteq> []"
  shows "\<exists>hw'. write_n h bs (length bs) hw = Some (int (length bs), hw') \<and> w_sent hw' = (w_sent hw)(h := w_sent hw h @ bs) \<and>
    m_handlers hw' = m_handlers hw \<and> w_writes hw' = w_writes hw \<and> m_http_conns hw' = m_http_conns hw"
proof -
  obtain x k where x: "m_handlers hw h = Some x" "0 \<le> m_sock_handle x" "w_writes hw (w_calls hw) = Wrote k" "n \<le> k"
    using assms(1) unfolding answers_whole_def by blast
  show ?thesis
    using write_n_loop_whole [OF x(2,3) _ assms(3)] x(1,4) assms(2) by (cases hw) (auto simp: write_n_def mem_read_def)
qed

lemma http_send_effect:
  assumes "answers_whole h n hw" "length (http_answer resp) \<le> n" "header_fits resp" "res_type resp = cstr ''text/json''"
    "0 \<le> res_code resp" "res_code resp < 1000"
  shows "\<exists>r hw'. http_send h resp hw = Some (r, hw') \<and> w_sent hw' = (w_sent hw)(h := w_sent hw h @ http_answer resp) \<and>
    m_handlers hw' = m_handlers hw \<and> w_writes hw' = w_writes hw \<and> m_http_conns hw' = m_http_conns hw"
proof -
  have "http_answer resp \<noteq> []" by (simp add: http_answer_def CRLF_def)
  then show ?thesis
    using write_n_whole [OF assms(1,2)] length_response_header [OF assms(3-6)]
    by (auto simp: http_send_def http_answer_def snprintf_def Let_def)
qed

subsection \<open>A GET request for publishing\<close>


definition http_result :: "http_request \<Rightarrow> http_response \<Rightarrow> http_response" where
  "http_result req resp =
     (if http_error req = [] then res_append succeed_text (resp\<lparr>res_type := cstr ''text/json'', res_code := 200\<rparr>)
      else res_append (json_error (http_error req) (cstr ''400'') (req_path req)) (resp\<lparr>res_type := cstr ''text/json'', res_code := 400\<rparr>))"

lemma http_result_simps [simp]:
  "res_type (http_result req resp) = cstr ''text/json''" "0 \<le> res_code (http_result req resp)" "res_code (http_result req resp) < 1000"
  "header_fits (http_result req resp) = header_fits resp"
  by (simp_all add: http_result_def res_append_def header_fits_def)

lemma length_snprintf: "length (snprintf n s) \<le> n - 1"
  by (simp add: snprintf_def)

lemma length_http_body: "length (res_body (http_result req resp)) \<le> length (res_body resp) + 1023"
proof -
  have "length (json_error e c p) \<le> 1023" for e c p
    unfolding json_error_def by (rule order.trans [OF length_snprintf]) simp
  then show ?thesis by (simp add: http_result_def res_append_def succeed_text_def)
qed

lemma length_http_answer:
  assumes "header_fits resp"
  shows "length (http_answer (http_result req resp)) \<le> 2025 + length (res_body resp)"
proof -
  have "length (response_header (http_result req resp)) \<le> 1000" by (rule length_response_header) (use assms in simp_all)
  then show ?thesis using length_http_body [of req resp] by (simp add: http_answer_def snprintf_def CRLF_def)
qed

definition publish_path :: cstring where "publish_path = cstr ''/publish''"

text \<open>A request with these parameters can be published.\<close>

definition good_get :: "(cstring \<times> cstring) list \<Rightarrow> cstring \<Rightarrow> u8 \<Rightarrow> bool" where
  "good_get ps version q \<longleftrightarrow> plain_params ps \<and> plain version \<and> http_qos (get_request publish_path ps) = Some q \<and>
     length (param (get_request publish_path ps) (cstr ''topic'')) + length (param (get_request publish_path ps) (cstr ''msg'')) < 4096"

definition http_ready :: "hid \<Rightarrow> nat \<Rightarrow> http_connection \<Rightarrow> http_world \<Rightarrow> bool" where
  "http_ready h n k hw \<longleftrightarrow> m_http_conns hw h = Some k \<and> answers_whole h n hw \<and> length (h_recv_buffer k) = 4096 \<and> h_notify_reactor k \<and>
     header_fits (h_http_response k)"

text \<open>What the operations of the HTTP connection do to the broker: one more message \<open>a\<close> is queued, with the packet \<open>bs\<close>.\<close>

definition handed_over :: "hid \<Rightarrow> bytes \<Rightarrow> broker \<Rightarrow> broker \<Rightarrow> bool" where
  "handed_over n bs w w' \<longleftrightarrow> untouched w w' \<and> (\<exists>b. heap w' = (heap w)(w_next_addr w \<mapsto> b) \<and> carries b bs) \<and>
     m_notify_deque w' = m_notify_deque w @ [w_next_addr w] \<and> w_errno w' = w_errno w \<and> (\<forall>h. h \<noteq> n \<longrightarrow> w_sent w' h = w_sent w h) \<and>
     m_last_msg_id (w_store (m_mem w')) = m_last_msg_id (w_store (m_mem w)) + 1 \<and> w_next_addr w' = Suc (w_next_addr w)"

lemma request_views:
  "param (req\<lparr>req_headers := hs\<rparr>) = param req" "http_qos (req\<lparr>req_headers := hs\<rparr>) = http_qos req" "http_error (req\<lparr>req_headers := hs\<rparr>) = http_error req"
  "http_packet (req\<lparr>req_headers := hs\<rparr>) q i = http_packet req q i"
  by (simp_all add: param_def [abs_def] http_qos_def http_error_def http_packet_def)

lemma http_process_get:
  assumes "good_get ps version q" "http_ready h n k hw" "notifier nt w" "d = 10 \<and> 0 \<in> set tail \<or> d = 0"
    and "h_recv_buffer k = get_line publish_path ps version @ 13 # d # tail"
    and "length (http_answer (http_result (get_request publish_path ps) (h_http_response k))) \<le> n"
  shows "\<exists>hw' w' tail'. http_process h hw w = Some (0, hw', w') \<and>
    http_ready h n (k\<lparr>h_recv_buffer := get_line publish_path ps version @ 13 # 0 # tail', h_http_response := http_result (get_request publish_path ps) (h_http_response k)\<rparr>) hw' \<and>
    w_sent hw' = (w_sent hw)(h := w_sent hw h @ http_answer (http_result (get_request publish_path ps) (h_http_response k))) \<and>
    handed_over nt (http_packet (get_request publish_path ps) q (m_last_msg_id (w_store (m_mem w)) + 1)) w w'"
proof -
  let ?req = "get_request publish_path ps" and ?resp = "http_result (get_request publish_path ps) (h_http_response k)"
  have pp: "plain publish_path" "publish_path \<noteq> cstr ''/favicon.ico''" "publish_path = cstr ''/publish''"
    by (auto simp: plain_def publish_path_def cstr_def of_char_def)
  obtain hs tail' where p: "parse_headers (h_recv_buffer k) HTTPRequest = Some (0, ?req\<lparr>req_headers := hs\<rparr>, get_line publish_path ps version @ 13 # 0 # tail')"
      "length tail' = length tail"
    using parse_get [OF pp(1), of ps version d tail] assms(1,4,5) by (auto simp: good_get_def)
  obtain w' b where w': "notify_mqtt_publish True (?req\<lparr>req_headers := hs\<rparr>) w = Some (if http_error ?req = [] then 0 else -1, http_error ?req, w')" "untouched w w'"
      "heap w' = (heap w)(w_next_addr w \<mapsto> b)" "carries b (http_packet ?req q (m_last_msg_id (w_store (m_mem w)) + 1))"
      "m_notify_deque w' = m_notify_deque w @ [w_next_addr w]" "w_errno w' = w_errno w" "\<forall>h. h \<noteq> nt \<longrightarrow> w_sent w' h = w_sent w h"
      "m_last_msg_id (w_store (m_mem w')) = m_last_msg_id (w_store (m_mem w)) + 1" "w_next_addr w' = Suc (w_next_addr w)"
    using notify_effect [of "?req\<lparr>req_headers := hs\<rparr>" q nt w] assms(1,3) by (auto simp: good_get_def request_views)
  define hw1 where "hw1 = upd_http h (h_http_response_update (\<lambda>_. ?resp)) (upd_http h (h_recv_buffer_update (\<lambda>_. get_line publish_path ps version @ 13 # 0 # tail')) hw)"
  have hw1: "answers_whole h n hw1" "w_sent hw1 = w_sent hw"
      "m_http_conns hw1 h = Some (k\<lparr>h_recv_buffer := get_line publish_path ps version @ 13 # 0 # tail', h_http_response := ?resp\<rparr>)"
    using assms(2) by (simp_all add: hw1_def http_ready_def answers_whole_def)
  obtain r hw' where hw': "http_send h ?resp hw1 = Some (r, hw')" "w_sent hw' = (w_sent hw1)(h := w_sent hw1 h @ http_answer ?resp)"
      "m_handlers hw' = m_handlers hw1" "w_writes hw' = w_writes hw1" "m_http_conns hw' = m_http_conns hw1"
    using http_send_effect [OF hw1(1) assms(6)] assms(2) by (auto simp: http_ready_def)
  have "http_process h hw w = Some (0, hw', w')"
    using p(1) w'(1) hw'(1) assms(2) pp(2) pp(3) [symmetric] unfolding hw1_def
    by (simp add: http_process_def http_ready_def http_result_def split: if_splits)
  moreover have "http_ready h n (k\<lparr>h_recv_buffer := get_line publish_path ps version @ 13 # 0 # tail', h_http_response := ?resp\<rparr>) hw'"
    using hw1 hw' p(2) assms(2,5) by (simp add: http_ready_def answers_whole_def)
  ultimately show ?thesis using w' hw'(2) hw1(2) by (fastforce simp: handed_over_def)
qed

lemma http_input_get:
  assumes "good_get ps version q" "http_ready h n k hw" "notifier nt w" "bs \<noteq> []" "unat (h_cur_buf_pos k) + length bs < 4096"
    and "(take (unat (h_cur_buf_pos k)) (h_recv_buffer k) @ bs @ drop (unat (h_cur_buf_pos k) + length bs) (h_recv_buffer k))[unat (h_cur_buf_pos k) + length bs := 0] =
           get_line publish_path ps version @ 13 # d # tail" "d = 10 \<and> 0 \<in> set tail \<or> d = 0"
    and "length (http_answer (http_result (get_request publish_path ps) (h_http_response k))) \<le> n"
  shows "\<exists>hw' w' k' tail'. http_handle_input (Read bs) h hw w = Some (0, hw', w') \<and> http_ready h n k' hw' \<and>
    h_recv_buffer k' = get_line publish_path ps version @ 13 # 0 # tail' \<and> unat (h_cur_buf_pos k') = unat (h_cur_buf_pos k) + length bs \<and>
    h_http_response k' = http_result (get_request publish_path ps) (h_http_response k) \<and>
    w_sent hw' = (w_sent hw)(h := w_sent hw h @ http_answer (http_result (get_request publish_path ps) (h_http_response k))) \<and>
    handed_over nt (http_packet (get_request publish_path ps) q (m_last_msg_id (w_store (m_mem w)) + 1)) w w'"
proof -
  let ?p = "h_cur_buf_pos k" and ?b = "h_recv_buffer k" and ?g = "get_line publish_path ps version @ 13 # d # tail"
  have p: "unat (?p + of_nat (length bs)) = unat ?p + length bs" "unat (4096 - ?p) = 4096 - unat ?p" "length ?b = 4096" "m_http_conns hw h = Some k"
    using assms(2,5) by (simp_all add: http_ready_def unat_add_u32 unat_sub_u32)
  define k1 where "k1 = k\<lparr>h_recv_buffer := ?g, h_cur_buf_pos := ?p + of_nat (length bs), h_last_msg_time := Some (h_now hw)\<rparr>"
  define hw1 where "hw1 = upd_http h (\<lambda>k. k\<lparr>h_recv_buffer := ?g, h_cur_buf_pos := ?p + of_nat (length bs), h_last_msg_time := Some (h_now hw)\<rparr>)
    (upd_handler h (\<lambda>x. x\<lparr>m_recv_times := m_recv_times x + 1, m_recv_bytes := m_recv_bytes x + of_nat (length bs)\<rparr>) hw)"
  have len: "length ?g = 4096" using arg_cong [OF assms(6), of length] p(3) assms(5) by simp
  have sent: "w_sent hw1 = w_sent hw" by (simp add: hw1_def)
  have ready: "http_ready h n k1 hw1"
    using assms(2) len by (auto simp: http_ready_def hw1_def k1_def answers_whole_def)
  have "http_handle_input (Read bs) h hw w = http_process h hw1 w"
    using p assms(4-6)
    by (simp add: http_handle_input_def HTTP_MAX_BUF_SIZE_def mem_copy_def mem_put_def hw1_def)
  moreover obtain hw' w' tail' where "http_process h hw1 w = Some (0, hw', w')"
    "http_ready h n (k1\<lparr>h_recv_buffer := get_line publish_path ps version @ 13 # 0 # tail', h_http_response := http_result (get_request publish_path ps) (h_http_response k1)\<rparr>) hw'"
    "w_sent hw' = (w_sent hw1)(h := w_sent hw1 h @ http_answer (http_result (get_request publish_path ps) (h_http_response k1)))"
    "handed_over nt (http_packet (get_request publish_path ps) q (m_last_msg_id (w_store (m_mem w)) + 1)) w w'"
    using http_process_get [OF assms(1) ready assms(3,7)] assms(8) by (auto simp: k1_def)
  ultimately show ?thesis
    using p(1) sent
    by (intro exI [of _ hw'] exI [of _ w'] exI [of _ tail']
        exI [of _ "k1\<lparr>h_recv_buffer := get_line publish_path ps version @ 13 # 0 # tail', h_http_response := http_result (get_request publish_path ps) (h_http_response k1)\<rparr>"])
      (auto simp: k1_def)
qed

lemma http_first_input:
  assumes "good_get ps version q" "http_ready h n k hw" "notifier nt w" "h_cur_buf_pos k = 0"
    and "length (get_line publish_path ps version @ 13 # 10 # rest) < 4096"
    and "length (http_answer (http_result (get_request publish_path ps) (h_http_response k))) \<le> n"
  shows "\<exists>hw' w' k' tail'. http_handle_input (Read (get_line publish_path ps version @ 13 # 10 # rest)) h hw w = Some (0, hw', w') \<and> http_ready h n k' hw' \<and>
    h_recv_buffer k' = get_line publish_path ps version @ 13 # 0 # tail' \<and> unat (h_cur_buf_pos k') = length (get_line publish_path ps version @ 13 # 10 # rest) \<and>
    h_http_response k' = http_result (get_request publish_path ps) (h_http_response k) \<and>
    w_sent hw' = (w_sent hw)(h := w_sent hw h @ http_answer (http_result (get_request publish_path ps) (h_http_response k))) \<and>
    handed_over nt (http_packet (get_request publish_path ps) q (m_last_msg_id (w_store (m_mem w)) + 1)) w w'"
proof -
  let ?bs = "get_line publish_path ps version @ 13 # 10 # rest"
  obtain c cs where "drop (length ?bs) (h_recv_buffer k) = c # cs"
    using assms(2,5) by (cases "drop (length ?bs) (h_recv_buffer k)") (auto simp: http_ready_def)
  then have "(take 0 (h_recv_buffer k) @ ?bs @ drop (0 + length ?bs) (h_recv_buffer k))[0 + length ?bs := 0] =
      get_line publish_path ps version @ 13 # 10 # (rest @ 0 # cs)"
    by (simp add: list_update_append)
  then show ?thesis
    using http_input_get [OF assms(1-3), of ?bs 10 "rest @ 0 # cs"] assms(4-6) by simp
qed

text \<open>More data on the same connection: the request line is still there, ended by zero.\<close>

lemma http_next_input:
  assumes "good_get ps version q" "http_ready h n k hw" "notifier nt w" "h_recv_buffer k = get_line publish_path ps version @ 13 # 0 # tail"
    and "length (get_line publish_path ps version) + 2 \<le> unat (h_cur_buf_pos k)" "bs \<noteq> []" "unat (h_cur_buf_pos k) + length bs < 4096"
    and "length (http_answer (http_result (get_request publish_path ps) (h_http_response k))) \<le> n"
  shows "\<exists>hw' w'. http_handle_input (Read bs) h hw w = Some (0, hw', w') \<and>
    w_sent hw' = (w_sent hw)(h := w_sent hw h @ http_answer (http_result (get_request publish_path ps) (h_http_response k))) \<and>
    handed_over nt (http_packet (get_request publish_path ps) q (m_last_msg_id (w_store (m_mem w)) + 1)) w w'"
proof -
  let ?g = "get_line publish_path ps version @ [13, 0]" and ?p = "unat (h_cur_buf_pos k)"
  let ?d = "take ?p (h_recv_buffer k) @ bs @ drop (?p + length bs) (h_recv_buffer k)"
  have "take ?p (h_recv_buffer k) = ?g @ take (?p - length ?g) tail"
    unfolding assms(4) using assms(5) by (simp add: take_Cons')
  moreover define Y where "Y = take (?p - length ?g) tail @ bs @ drop (?p + length bs) (h_recv_buffer k)"
  ultimately have "?d = ?g @ Y" by simp
  moreover have "(?g @ Y)[?p + length bs := 0] = ?g @ Y[?p + length bs - length ?g := 0]"
    using assms(5) by (subst list_update_append) simp
  ultimately have "?d[?p + length bs := 0] = get_line publish_path ps version @ 13 # 0 # Y[?p + length bs - length ?g := 0]" by simp
  from http_input_get [OF assms(1-3,6,7) this _ assms(8)] show ?thesis by blast
qed

subsection \<open>From the HTTP client to the subscribers\<close>

lemma carries_publishes:
  assumes "heap w a = Some b" "carries b (http_packet req q i)" "unat q \<le> 1"
    and "length (param req (cstr ''topic'')) + length (param req (cstr ''msg'')) < 4096"
  shows "publishes w a (param req (cstr ''topic''))" "readable w a" "contents w a = http_packet req q i"
proof -
  let ?hdr = "(CMqttFixedHeader PUBLISH)\<lparr>m_qos := q\<rparr>"
  have "\<not> m_retain_flag (fixed_header_decode (fixed_header_encode ?hdr))"
    using fixed_header_qos_id [of ?hdr] assms(3) by (simp add: CMqttFixedHeader_def)
  note c = carries_publish [OF assms(1) assms(2) [unfolded http_packet_def] length_http_packet(2) [OF assms(4)] this]
  show "publishes w a (param req (cstr ''topic''))" "readable w a" "contents w a = http_packet req q i"
    using c by (simp_all add: http_packet_def)
qed

lemma handed_over_deliverable:
  assumes "handed_over n (http_packet req q i) w w'" "unat q \<le> 1" "param req (cstr ''topic'') = t"
    and "length t + length (param req (cstr ''msg'')) < 4096" "\<not> blocking (w_errno w)"
    and "\<forall>j. \<exists>k\<ge>length t + length (param req (cstr ''msg'')) + 8. w_writes w j = Wrote k"
    and "reaches bridge w t"
  shows "deliverable bridge w' (w_next_addr w) t" "contents w' (w_next_addr w) = http_packet req q i" "copies bridge w' = copies bridge w"
proof -
  obtain b where b: "heap w' (w_next_addr w) = Some b" "carries b (http_packet req q i)" and u: "untouched w w'" "w_errno w' = w_errno w"
    using assms(1) by (auto simp: handed_over_def)
  note c = carries_publishes [OF b assms(2), unfolded assms(3), OF assms(4)]
  have le: "length (http_packet req q i) \<le> length t + length (param req (cstr ''msg'')) + 8"
    using length_http_packet(1) [of req q i] assms(3,4) by simp
  have "takes w' (w_next_addr w)"
    unfolding takes_def
  proof (intro conjI allI)
    fix j
    obtain k where "length t + length (param req (cstr ''msg'')) + 8 \<le> k" "w_writes w j = Wrote k" using assms(6) by blast
    then show "\<exists>k\<ge>length (contents w' (w_next_addr w)). w_writes w' j = Wrote k"
      using c(3) le u(1) by (intro exI [of _ k]) (simp add: untouched_def)
  qed (use assms(5) c(2) u(2) in simp_all)
  then show "deliverable bridge w' (w_next_addr w) t"
    using c(1) assms(7) untouched_views(1) [OF u] by (simp add: deliverable_def)
  show "contents w' (w_next_addr w) = http_packet req q i" by (rule c(3))
  show "copies bridge w' = copies bridge w" by (rule untouched_views(2) [OF u])
qed

text \<open>
  A GET request for \<^verbatim>\<open>/publish\<close> with the parameters \<^verbatim>\<open>client\<close>, \<^verbatim>\<open>topic\<close> and \<^verbatim>\<open>msg\<close>, in any order and with any further
  headers, that arrives in one piece on a new connection is answered with status 200; and when the broker's thread
  then handles the notification, every connection is sent its number of copies of a PUBLISH packet with QoS 1, this
  topic, the next message id and the message as payload.
\<close>

lemma http_get_delivered:
  assumes "plain_params ps" "plain version" "map_of (rev ps) (cstr ''client'') \<noteq> None" "map_of (rev ps) (cstr ''topic'') = Some t"
    and "map_of (rev ps) (cstr ''msg'') = Some m" "map_of (rev ps) (cstr ''qos'') = None" "length t + length m < 4096"
    and "m_http_conns hw h = Some (HttpConnection junk date True)" "length date \<le> 99" "answers_whole h 4096 hw"
    and "bs = get_line publish_path ps version @ [13, 10] @ rest" "length bs < 4096"
    and "notifier n w" "m_notify_deque w = []" "\<not> blocking (w_errno w)" "\<forall>j. \<exists>k\<ge>length t + length m + 8. w_writes w j = Wrote k"
    and "reaches bridge w t"
  shows "\<exists>hw' w1 w2. http_handle_input (Read bs) h hw w = Some (0, hw', w1) \<and>
    w_sent hw' h = w_sent hw h @ http_answer (res_append succeed_text ((HTTPResponse date)\<lparr>res_type := cstr ''text/json''\<rparr>)) \<and>
    CPollerNotifyFd_handle_input bridge (Read ev) n w1 = Some (0, w2) \<and> m_notify_deque w2 = [] \<and>
    (\<forall>c. c \<noteq> n \<longrightarrow> w_sent w2 c = w_sent w c @
      concat (replicate (copies bridge w c t) (frame 0x32 (publish_body t (ucast ((m_last_msg_id (w_store (m_mem w)) + 1) AND 0xFFFF)) m))))"
proof -
  let ?req = "get_request publish_path ps" and ?i = "m_last_msg_id (w_store (m_mem w)) + 1" and ?k = "HttpConnection junk date True"
  have pt: "param ?req (cstr ''topic'') = t" "param ?req (cstr ''msg'') = m" "http_qos ?req = Some 1" "http_error ?req = []"
    using assms(3-6) by (auto simp: param_def http_qos_def http_error_def)
  have res: "http_result ?req (h_http_response ?k) = res_append succeed_text ((HTTPResponse date)\<lparr>res_type := cstr ''text/json''\<rparr>)"
    by (simp add: http_result_def pt HttpConnection_def HTTPResponse_def)
  have pk: "http_packet ?req 1 ?i = frame 0x32 (publish_body t (ucast (?i AND 0xFFFF)) m)"
    by (simp add: http_packet_def pt fixed_header_encode_def CMqttFixedHeader_def MqttType_val_def)
  have ok: "good_get ps version 1" "http_ready h 4096 ?k hw" "h_cur_buf_pos ?k = 0"
    using assms(1,2,7-10) by (simp_all add: good_get_def pt http_ready_def HttpConnection_def HTTP_MAX_BUF_SIZE_def header_fits_def HTTPResponse_def)
  have an: "length (http_answer (http_result ?req (h_http_response ?k))) \<le> 4096"
    using length_http_answer [of "h_http_response ?k" ?req] ok(2) by (simp add: http_ready_def HttpConnection_def HTTPResponse_def)
  obtain hw' w1 where 1: "http_handle_input (Read bs) h hw w = Some (0, hw', w1)" "handed_over n (http_packet ?req 1 ?i) w w1"
      "w_sent hw' = (w_sent hw)(h := w_sent hw h @ http_answer (http_result ?req (h_http_response ?k)))"
    using http_first_input [OF ok(1,2) assms(13) ok(3) _ an, of rest] assms(11,12) by auto
  note d = handed_over_deliverable [OF 1(2) _ pt(1), unfolded pt(2), OF _ assms(7,15,16,17), simplified]
  have "m_handlers w1 n \<noteq> None" "m_notify_deque w1 = map fst [(w_next_addr w, t)]" "\<forall>c. c \<noteq> n \<longrightarrow> w_sent w1 c = w_sent w c"
    using 1(2) assms(13,14) by (auto simp: handed_over_def notifier_def untouched_def)
  then show ?thesis
    using notify_loop_delivers [of w1 "[(w_next_addr w, t)]" bridge] d 1 res pk
    by (auto simp: CPollerNotifyFd_handle_input_def)
qed

subsection \<open>Properties\<close>

text \<open>A connection of the HTTP server.\<close>

definition demo_http :: http_world where
  "demo_http =
     \<lparr>m_mem = \<lparr>w_heap = Map.empty, w_store = CMsgMemStore 0\<rparr>, m_handlers = [3 \<mapsto> (CEventHandler 2 True 0)\<lparr>m_sock_handle := 9\<rparr>],
      m_map_event_handlers = [(9, 3)], m_running_flag = True, m_notify_writer = None, m_notify_deque = [], m_epoll = [9 \<mapsto> (1, 3)], w_errno = 0,
      w_writes = (\<lambda>_. Wrote 8192), w_calls = 0, w_sent = (\<lambda>_. []), m_http_conns = [3 \<mapsto> HttpConnection 0 [] True], h_now = 0, h_next_hid = 4, h_junk = 0\<rparr>"

definition demo_params :: "(cstring \<times> cstring) list" where
  "demo_params = [(cstr ''client'', cstr ''c''), (cstr ''topic'', [65]), (cstr ''msg'', cstr ''hi'')]"

lemma demo_params_ok:
  "plain_params demo_params" "plain (cstr ''HTTP/1.1'')" "map_of (rev demo_params) (cstr ''client'') = Some (cstr ''c'')"
  "map_of (rev demo_params) (cstr ''topic'') = Some [65]" "map_of (rev demo_params) (cstr ''msg'') = Some (cstr ''hi'')"
  "map_of (rev demo_params) (cstr ''qos'') = None" "length (get_line publish_path demo_params (cstr ''HTTP/1.1'')) = 45"
  by (simp_all add: demo_params_def plain_params_def plain_def get_line_def query_text_def publish_path_def cstr_def of_char_def)

lemma demo_http_ok: "m_http_conns demo_http 3 = Some (HttpConnection 0 [] True)" "answers_whole 3 4096 demo_http" "answers_whole 3 8192 demo_http"
  "w_sent demo_http 3 = []"
  by (simp_all add: demo_http_def answers_whole_def CEventHandler_def)

text \<open>
  Whatever the parameters of a request are, a message is handed to the broker: a missing parameter makes the
  function return -1 with a text that names it, so that the client is answered with status 400, but the packet, with
  the missing part empty, is queued all the same. Its retain flag is never set, also if the request has \<^verbatim>\<open>retain=1\<close>.
\<close>

theorem http_error_still_publishes:
  assumes "http_qos req = Some q" "notifier n w"
    and "length (param req (cstr ''topic'')) + length (param req (cstr ''msg'')) < 4096"
  shows "\<exists>w'. notify_mqtt_publish True req w = Some (if http_error req = [] then 0 else -1, http_error req, w') \<and>
    m_notify_deque w' = m_notify_deque w @ [w_next_addr w] \<and> publishes w' (w_next_addr w) (param req (cstr ''topic'')) \<and>
    contents w' (w_next_addr w) = frame (if q = 0 then 0x30 else 0x32)
      (publish_body (param req (cstr ''topic'')) (ucast ((m_last_msg_id (w_store (m_mem w)) + 1) AND 0xFFFF)) (param req (cstr ''msg'')))"
proof -
  obtain w' b where w': "notify_mqtt_publish True req w = Some (if http_error req = [] then 0 else -1, http_error req, w')"
      "heap w' (w_next_addr w) = Some b" "carries b (http_packet req q (m_last_msg_id (w_store (m_mem w)) + 1))"
      "m_notify_deque w' = m_notify_deque w @ [w_next_addr w]"
    using notify_effect [OF assms(1,3,2)] by auto
  have "q = 0 \<or> q = 1"
    using http_qos_le [OF assms(1)] by (auto simp: word_eq_iff_unsigned [where ?'a = nat] le_Suc_eq)
  then have "http_packet req q i = frame (if q = 0 then 0x30 else 0x32) (publish_body (param req (cstr ''topic'')) (ucast (i AND 0xFFFF)) (param req (cstr ''msg'')))" for i
    by (auto simp: http_packet_def fixed_header_encode_def CMqttFixedHeader_def MqttType_val_def)
  then show ?thesis
    using w' carries_publishes [OF w'(2,3) http_qos_le [OF assms(1)] assms(3)] by auto
qed

theorem http_error_still_publishes_witness:
  "\<exists>w'. notify_mqtt_publish True (HTTPRequest\<lparr>req_query := [cstr ''topic'' \<mapsto> [65], cstr ''retain'' \<mapsto> cstr ''1'']\<rparr>) notified_broker =
       Some (-1, cstr ''client param missed. '' @ cstr ''msg param missed'', w') \<and>
     contents w' (w_next_addr notified_broker) = [0x32, 5, 0, 1, 65, 0, 3] \<and> m_notify_deque w' = [w_next_addr notified_broker]"
proof -
  let ?req = "HTTPRequest\<lparr>req_query := [cstr ''topic'' \<mapsto> [65], cstr ''retain'' \<mapsto> cstr ''1'']\<rparr>"
  have ne: "cstr ''client'' \<noteq> cstr ''topic''" "cstr ''client'' \<noteq> cstr ''retain''" "cstr ''msg'' \<noteq> cstr ''topic''" "cstr ''msg'' \<noteq> cstr ''retain''"
    "cstr ''qos'' \<noteq> cstr ''topic''" "cstr ''qos'' \<noteq> cstr ''retain''" "cstr ''retain'' \<noteq> cstr ''topic''"
    by (simp_all add: cstr_def of_char_def)
  have p: "http_qos ?req = Some 1" "param ?req (cstr ''topic'') = [65]" "param ?req (cstr ''msg'') = []"
    "http_error ?req = cstr ''client param missed. '' @ cstr ''msg param missed''"
    using ne by (simp_all add: http_qos_def param_def http_error_def HTTPRequest_def)
  moreover have "cstr ''client param missed. '' \<noteq> []" by (simp add: cstr_def)
  moreover have "frame 0x32 (publish_body [65] (ucast (((2 :: u64) + 1) AND 0xFFFF)) []) = [0x32, 5, 0, 1, 65, 0, 3]"
    by (simp add: frame_def publish_body_def rl_enc_one string_enc_def hi_byte_def lo_byte_def)
  ultimately show ?thesis
    using http_error_still_publishes [of ?req 1 6 notified_broker] notified_broker_ok by auto
qed

text \<open>
  A request is published again with every further piece of data on its connection: the receive buffer is never
  reset, the first parse has overwritten the end of the request line with zero, and so the next parse sees the request
  line alone, whatever was received behind it. A request of which the header comes in two segments is thus published
  twice.
\<close>

theorem http_second_segment_repeats:
  assumes "good_get ps version q" "http_ready h 8192 k hw" "notifier n w" "h_cur_buf_pos k = 0" "res_body (h_http_response k) = []"
    and "bs = get_line publish_path ps version @ [13, 10] @ rest" "seg \<noteq> []" "length bs + length seg < 4096"
  shows "\<exists>hw1 w1 hw2 w2. http_handle_input (Read bs) h hw w = Some (0, hw1, w1) \<and> http_handle_input (Read seg) h hw1 w1 = Some (0, hw2, w2) \<and>
    m_notify_deque w2 = m_notify_deque w @ [w_next_addr w, Suc (w_next_addr w)] \<and>
    contents w2 (w_next_addr w) = http_packet (get_request publish_path ps) q (m_last_msg_id (w_store (m_mem w)) + 1) \<and>
    contents w2 (Suc (w_next_addr w)) = http_packet (get_request publish_path ps) q (m_last_msg_id (w_store (m_mem w)) + 2)"
proof -
  let ?req = "get_request publish_path ps" and ?i = "m_last_msg_id (w_store (m_mem w))" and ?a = "w_next_addr w"
  have fits: "header_fits (h_http_response k)" using assms(2) by (simp add: http_ready_def)
  obtain hw1 w1 k1 tail where 1: "http_handle_input (Read bs) h hw w = Some (0, hw1, w1)" "http_ready h 8192 k1 hw1"
      "h_recv_buffer k1 = get_line publish_path ps version @ 13 # 0 # tail" "unat (h_cur_buf_pos k1) = length bs"
      "h_http_response k1 = http_result ?req (h_http_response k)" "handed_over n (http_packet ?req q (?i + 1)) w w1"
    using http_first_input [OF assms(1-4), of rest] length_http_answer [OF fits, of ?req] assms(5,6,8) by auto
  have "notifier n w1" using assms(3) 1(6) by (auto simp: notifier_def handed_over_def untouched_def)
  moreover have "length (http_answer (http_result ?req (h_http_response k1))) \<le> 8192"
    using length_http_answer [of "h_http_response k1" ?req] length_http_body [of ?req "h_http_response k"] fits 1(5) assms(5) by simp
  ultimately obtain hw2 w2 where 2: "http_handle_input (Read seg) h hw1 w1 = Some (0, hw2, w2)"
      "handed_over n (http_packet ?req q (m_last_msg_id (w_store (m_mem w1)) + 1)) w1 w2"
    using http_next_input [OF assms(1) 1(2) _ 1(3), of n w1 seg] assms(6-8) 1(4) by auto
  have "m_last_msg_id (w_store (m_mem w1)) + 1 = ?i + 2" "w_next_addr w1 = Suc ?a" using 1(6) by (simp_all add: handed_over_def)
  then show ?thesis
    using 1(1,6) 2 by (auto simp: handed_over_def carries_def contents_def add.commute)
qed

theorem http_second_segment_repeats_witness:
  "\<exists>hw1 w1 hw2 w2. http_handle_input (Read (get_line publish_path demo_params (cstr ''HTTP/1.1'') @ [13, 10] @ [])) 3 demo_http notified_broker = Some (0, hw1, w1) \<and>
     http_handle_input (Read (cstr ''Host: a'')) 3 hw1 w1 = Some (0, hw2, w2) \<and> length (m_notify_deque w2) = 2"
proof -
  have "good_get demo_params (cstr ''HTTP/1.1'') 1"
    using demo_params_ok by (simp add: good_get_def param_def http_qos_def)
  moreover have "http_ready 3 8192 (HttpConnection 0 [] True) demo_http"
    using demo_http_ok by (simp add: http_ready_def HttpConnection_def HTTP_MAX_BUF_SIZE_def header_fits_def HTTPResponse_def)
  ultimately show ?thesis
    using http_second_segment_repeats [of demo_params "cstr ''HTTP/1.1''" 1 3 "HttpConnection 0 [] True" demo_http 6 notified_broker _ "[]" "cstr ''Host: a''", OF _ _ _ _ _ refl]
      notified_broker_ok demo_params_ok(7) by (fastforce simp: HttpConnection_def HTTPResponse_def cstr_def)
qed

text \<open>
  When as much is received as fits in the buffer, the terminating zero is written behind it: the operation leaves
  the array of 4096 bytes.
\<close>

theorem http_full_buffer_overflows:
  assumes "m_http_conns hw h = Some k" "length (h_recv_buffer k) = 4096" "unat (h_cur_buf_pos k) < 4096"
    and "4096 \<le> unat (h_cur_buf_pos k) + length bs"
  shows "http_handle_input (Read bs) h hw w = None"
proof -
  let ?r = "take (unat (4096 - h_cur_buf_pos k)) bs"
  have "unat (4096 - h_cur_buf_pos k) = 4096 - unat (h_cur_buf_pos k)" using assms(3) by (simp add: unat_sub_u32)
  then have "?r \<noteq> []" "unat (h_cur_buf_pos k) + length ?r = 4096" using assms(3,4) by auto
  moreover from this have "unat (h_cur_buf_pos k + of_nat (length ?r)) = 4096" by (simp add: unat_add_u32)
  ultimately show ?thesis
    using assms(1,2) by (simp add: http_handle_input_def HTTP_MAX_BUF_SIZE_def mem_copy_def mem_put_def)
qed

theorem http_full_buffer_overflows_witness: "http_handle_input (Read (replicate 5000 65)) 3 demo_http notified_broker = None"
  using http_full_buffer_overflows [OF demo_http_ok(1), of "replicate 5000 65" notified_broker]
  by (simp add: HttpConnection_def HTTP_MAX_BUF_SIZE_def)

end
