(* ===== verification/Itimer.thy ===== *)
theory Itimer
  imports Mqtt_Prelude
begin

unbundle bit_operations_syntax

text \<open>
  The timer wheel of \<^verbatim>\<open>src/reactor/itimer.cpp\<close>: the core with its five levels of slots, the
  timer nodes, and the tick. The intrusive doubly linked lists of the source are lists of node
  ids: \<open>lists\<close> gives the contents of every list head, the slots \<open>Slot level index\<close> and the local
  queue \<open>Queued\<close> of the tick that is running, from which callbacks may still remove nodes.
  Removing a node from the list it is linked in is removing it everywhere; the invariant says
  that it is linked at most once.

  Jiffies and expiry times are 32 bit words and all differences wrap. A failed \<^verbatim>\<open>assert\<close>, a
  dereference of a null \<^verbatim>\<open>core\<close> pointer and a loop that does not end are the value \<^const>\<open>None\<close>.

  The invariant \<open>wheel_inv\<close> ties the slot of a node to its expiry time; the central result is that
  a tick at time \<open>j\<close> collects exactly the pending nodes whose time has come.
\<close>

type_synonym nid = nat

subsection \<open>Nodes, lists and the core\<close>

datatype place = Slot nat nat | Queued

definition ITIMER_NODE_STATE_OK :: u32 where "ITIMER_NODE_STATE_OK = 0x1981"

definition ITIMER_NODE_STATE_BAD :: u32 where "ITIMER_NODE_STATE_BAD = 0x2014"

record itimer_node =
  expires :: u32
  node_state :: u32
  has_callback :: bool
  has_core :: bool

record itimer_core =
  timer_jiffies :: u32
  nodes :: "nid \<rightharpoonup> itimer_node"
  lists :: "place \<Rightarrow> nid list"

definition ITVR_SIZE :: nat where "ITVR_SIZE = 256"

definition ITVN_SIZE :: nat where "ITVN_SIZE = 64"

definition places :: "place list" where
  "places = Queued # map (Slot 0) [0..<ITVR_SIZE] @ concat (map (\<lambda>l. map (Slot l) [0..<ITVN_SIZE]) [1, 2, 3, 4])"

definition itimer_node_pending :: "'a itimer_core_scheme \<Rightarrow> nid \<Rightarrow> bool" where
  "itimer_node_pending c n \<longleftrightarrow> (\<exists>p\<in>set places. n \<in> set (lists c p))"

definition upd_node :: "nid \<Rightarrow> (itimer_node \<Rightarrow> itimer_node) \<Rightarrow> 'a itimer_core_scheme \<Rightarrow> 'a itimer_core_scheme" where
  "upd_node n f c = c\<lparr>nodes := (nodes c)(n := map_option f (nodes c n))\<rparr>"

text \<open>\<^verbatim>\<open>iqueue_del_init\<close> and \<^verbatim>\<open>iqueue_add_tail\<close>.\<close>

definition iqueue_del_init :: "nid \<Rightarrow> 'a itimer_core_scheme \<Rightarrow> 'a itimer_core_scheme" where
  "iqueue_del_init n c = c\<lparr>lists := \<lambda>p. removeAll n (lists c p)\<rparr>"

definition iqueue_add_tail :: "nid \<Rightarrow> place \<Rightarrow> 'a itimer_core_scheme \<Rightarrow> 'a itimer_core_scheme" where
  "iqueue_add_tail n p c = c\<lparr>lists := (lists c)(p := lists c p @ [n])\<rparr>"

text \<open>\<^verbatim>\<open>iqueue_splice_init\<close> onto an empty list.\<close>

definition iqueue_splice_init :: "place \<Rightarrow> place \<Rightarrow> 'a itimer_core_scheme \<Rightarrow> 'a itimer_core_scheme" where
  "iqueue_splice_init p q c = c\<lparr>lists := (lists c)(q := lists c p @ lists c q, p := [])\<rparr>"

definition itimer_core_init :: "u32 \<Rightarrow> 'a itimer_core_scheme \<Rightarrow> 'a itimer_core_scheme" where
  "itimer_core_init jiffies c = c\<lparr>timer_jiffies := jiffies, lists := \<lambda>_. []\<rparr>"

definition itimer_core_destroy :: "'a itimer_core_scheme \<Rightarrow> 'a itimer_core_scheme" where
  "itimer_core_destroy c =
     c\<lparr>lists := (\<lambda>p. if p = Queued then lists c p else []),
       nodes := (\<lambda>n. if \<exists>p\<in>set (tl places). n \<in> set (lists c p)
                     then map_option (\<lambda>x. x\<lparr>has_core := False\<rparr>) (nodes c n) else nodes c n)\<rparr>"

subsection \<open>Node operations\<close>

definition itimer_node_init :: "nid \<Rightarrow> bool \<Rightarrow> 'a itimer_core_scheme \<Rightarrow> 'a itimer_core_scheme" where
  "itimer_node_init n fn c = c\<lparr>nodes := (nodes c)(n \<mapsto>
     \<lparr>expires = 0, node_state = ITIMER_NODE_STATE_OK, has_callback = fn, has_core = False\<rparr>)\<rparr>"

text \<open>The guard common to the operations on nodes: the assertion on the state.\<close>

definition assert_ok :: "nid \<Rightarrow> 'a itimer_core_scheme \<Rightarrow> itimer_node option" where
  "assert_ok n c = do { x \<leftarrow> nodes c n; if node_state x = ITIMER_NODE_STATE_OK then Some x else None }"

definition unlink :: "nid \<Rightarrow> 'a itimer_core_scheme \<Rightarrow> 'a itimer_core_scheme" where
  "unlink n c = (if itimer_node_pending c n
     then upd_node n (has_core_update (\<lambda>_. False)) (iqueue_del_init n c) else c)"

definition itimer_node_destroy :: "nid \<Rightarrow> 'a itimer_core_scheme \<Rightarrow> 'a itimer_core_scheme option" where
  "itimer_node_destroy n c =
     do {
       _ \<leftarrow> assert_ok n c;
       Some (upd_node n (\<lambda>x. \<lparr>expires = 0, node_state = ITIMER_NODE_STATE_BAD, has_callback = False,
                                has_core = False\<rparr>) (unlink n c))
     }"

text \<open>The list a node is put into: level by the unsigned distance, late nodes into the current slot.\<close>

definition add_place :: "u32 \<Rightarrow> u32 \<Rightarrow> place" where
  "add_place jiffies e =
     (let idx = e - jiffies in
      if idx < 256 then Slot 0 (unat (e AND 255))
      else if idx < 0x4000 then Slot 1 (unat (drop_bit 8 e AND 63))
      else if idx < 0x100000 then Slot 2 (unat (drop_bit 14 e AND 63))
      else if idx < 0x4000000 then Slot 3 (unat (drop_bit 20 e AND 63))
      else if to_int idx < 0 then Slot 0 (unat (jiffies AND 255))
      else Slot 4 (unat (drop_bit 26 e AND 63)))"

definition itimer_internal_add :: "nid \<Rightarrow> 'a itimer_core_scheme \<Rightarrow> 'a itimer_core_scheme option" where
  "itimer_internal_add n c =
     do {
       x \<leftarrow> nodes c n;
       Some (upd_node n (has_core_update (\<lambda>_. True))
         (iqueue_add_tail n (add_place (timer_jiffies c) (expires x)) c))
     }"

definition itimer_node_add :: "nid \<Rightarrow> u32 \<Rightarrow> 'a itimer_core_scheme \<Rightarrow> 'a itimer_core_scheme option" where
  "itimer_node_add n e c =
     do {
       _ \<leftarrow> assert_ok n c;
       itimer_internal_add n (upd_node n (expires_update (\<lambda>_. e)) (unlink n c))
     }"

definition itimer_node_del :: "nid \<Rightarrow> 'a itimer_core_scheme \<Rightarrow> (int \<times> 'a itimer_core_scheme) option" where
  "itimer_node_del n c =
     do {
       x \<leftarrow> assert_ok n c;
       if itimer_node_pending c n
       then (if has_core x then Some (1, unlink n c) else None)
       else Some (0, c)
     }"

definition itimer_node_mod :: "nid \<Rightarrow> u32 \<Rightarrow> 'a itimer_core_scheme \<Rightarrow> (int \<times> 'a itimer_core_scheme) option" where
  "itimer_node_mod n e c =
     do {
       (ret, c) \<leftarrow> itimer_node_del n c;
       c \<leftarrow> itimer_node_add n e c;
       Some (ret, c)
     }"

subsection \<open>The tick\<close>

fun cascade_nodes :: "nid list \<Rightarrow> 'a itimer_core_scheme \<Rightarrow> 'a itimer_core_scheme option" where
  "cascade_nodes [] c = Some c"
| "cascade_nodes (n # ns) c =
     do {
       x \<leftarrow> nodes c n;
       if has_core x then do { c \<leftarrow> itimer_internal_add n c; cascade_nodes ns c } else None
     }"

definition itimer_internal_cascade :: "nat \<Rightarrow> nat \<Rightarrow> 'a itimer_core_scheme \<Rightarrow> 'a itimer_core_scheme option" where
  "itimer_internal_cascade l index c =
     cascade_nodes (lists c (Slot l index)) (c\<lparr>lists := (lists c)(Slot l index := [])\<rparr>)"

definition ITIMER_INDEX :: "u32 \<Rightarrow> nat \<Rightarrow> nat" where
  "ITIMER_INDEX jiffies n = unat (drop_bit (8 + n * 6) jiffies AND 63)"

definition cascades :: "'a itimer_core_scheme \<Rightarrow> 'a itimer_core_scheme option" where
  "cascades c =
     (let j = timer_jiffies c in
      if j AND 255 \<noteq> 0 then Some c
      else do {
        c \<leftarrow> itimer_internal_cascade 1 (ITIMER_INDEX j 0) c;
        if ITIMER_INDEX j 0 \<noteq> 0 then Some c else do {
        c \<leftarrow> itimer_internal_cascade 2 (ITIMER_INDEX j 1) c;
        if ITIMER_INDEX j 1 \<noteq> 0 then Some c else do {
        c \<leftarrow> itimer_internal_cascade 3 (ITIMER_INDEX j 2) c;
        if ITIMER_INDEX j 2 \<noteq> 0 then Some c else
        itimer_internal_cascade 4 (ITIMER_INDEX j 3) c }}})"

text \<open>First half of an iteration of the update loop: cascade, advance the clock, take the slot.\<close>

definition tick_collect :: "'a itimer_core_scheme \<Rightarrow> 'a itimer_core_scheme option" where
  "tick_collect c =
     do {
       c' \<leftarrow> cascades c;
       Some (iqueue_splice_init (Slot 0 (unat (timer_jiffies c AND 255))) Queued
         (c'\<lparr>timer_jiffies := timer_jiffies c + 1\<rparr>))
     }"

text \<open>Second half: run the callbacks of the collected nodes. A callback gets the node it was set
  for and the whole state.\<close>

definition detach :: "nid \<Rightarrow> 'a itimer_core_scheme \<Rightarrow> 'a itimer_core_scheme" where
  "detach n c = upd_node n (has_core_update (\<lambda>_. False)) (iqueue_del_init n c)"

partial_function (option) run_queued ::
  "(nid \<Rightarrow> 'a itimer_core_scheme \<Rightarrow> 'a itimer_core_scheme option) \<Rightarrow>
     'a itimer_core_scheme \<Rightarrow> 'a itimer_core_scheme option" where
  "run_queued cb c =
     (case lists c Queued of
        [] \<Rightarrow> Some c
      | n # _ \<Rightarrow> do {
          x \<leftarrow> nodes c n;
          c \<leftarrow> (if has_callback x then cb n (detach n c) else Some (detach n c));
          run_queued cb c
        })"

definition itimer_tick :: "(nid \<Rightarrow> 'a itimer_core_scheme \<Rightarrow> 'a itimer_core_scheme option) \<Rightarrow>
    'a itimer_core_scheme \<Rightarrow> 'a itimer_core_scheme option" where
  "itimer_tick cb c = do { c \<leftarrow> tick_collect c; run_queued cb c }"

partial_function (option) itimer_core_run ::
  "(nid \<Rightarrow> 'a itimer_core_scheme \<Rightarrow> 'a itimer_core_scheme option) \<Rightarrow> u32 \<Rightarrow>
     'a itimer_core_scheme \<Rightarrow> 'a itimer_core_scheme option" where
  "itimer_core_run cb jiffies c =
     (if to_int (jiffies - timer_jiffies c) \<ge> 0
      then do { c \<leftarrow> itimer_tick cb c; itimer_core_run cb jiffies c }
      else Some c)"

declare run_queued.simps [code] itimer_core_run.simps [code]

subsection \<open>Where a node belongs\<close>

text \<open>Level \<open>l\<close> from 1 to 4 looks at the six bits above \<open>lvl_shift l\<close>; a node of that level is moved
  down when the clock reaches its expiry time rounded down to a multiple of that power of two.\<close>

definition lvl_shift :: "nat \<Rightarrow> nat" where "lvl_shift l = 2 + 6 * l"

definition slot_time :: "nat \<Rightarrow> u32 \<Rightarrow> u32" where
  "slot_time s e = push_bit s (drop_bit s e)"

definition slot_index :: "nat \<Rightarrow> u32 \<Rightarrow> nat" where
  "slot_index s e = unat (drop_bit s e AND 63)"

definition late :: "u32 \<Rightarrow> u32 \<Rightarrow> bool" where
  "late j e \<longleftrightarrow> 2147483648 \<le> unat (e - j)"

text \<open>The condition of the source for running a node at time \<open>j\<close>: the signed distance is not positive.\<close>

definition due :: "u32 \<Rightarrow> u32 \<Rightarrow> bool" where
  "due j e \<longleftrightarrow> to_int (e - j) \<le> 0"

fun place_ok :: "u32 \<Rightarrow> u32 \<Rightarrow> place \<Rightarrow> bool" where
  "place_ok j e Queued = False"
| "place_ok j e (Slot l i) =
     (if l = 0
      then unat (e - j) < 256 \<and> i = unat (e AND 255) \<or> late j e \<and> i = unat (j AND 255)
      else l \<le> 4 \<and> i = slot_index (lvl_shift l) e \<and> \<not> late j e \<and>
        unat (slot_time (lvl_shift l) e - j) < min (2 ^ (lvl_shift l + 6)) 2147483648)"

lemma late_to_int: "to_int (e - j) < 0 \<longleftrightarrow> late j e"
  using to_int_small [of "e - j"] to_int_large [of "e - j"] unat_lt_2p32 [of "e - j"]
  by (cases "unat (e - j) < 2147483648") (auto simp: late_def)

lemma due_iff: "due j e \<longleftrightarrow> e = j \<or> late j e"
proof (cases "late j e")
  case True
  then show ?thesis using late_to_int [of e j] by (simp add: due_def)
next
  case False
  then have "to_int (e - j) = int (unat (e - j))" by (simp add: late_def to_int_small)
  then show ?thesis using False by (simp add: due_def unat_eq_0)
qed

lemma unat_take_bit_u32: "unat (take_bit s (e :: u32)) = unat e mod 2 ^ s"
  by (subst unsigned_take_bit_eq) (simp add: take_bit_eq_mod)

lemma slot_time_diff: "slot_time s e = e - take_bit s e"
  using bits_ident [of s e] by (simp add: slot_time_def algebra_simps)

lemma slot_time_distance:
  assumes "2 ^ s \<le> unat (e - j)"
  shows "unat (slot_time s e - j) = unat (e - j) - unat e mod 2 ^ s"
proof -
  have lt: "unat e mod 2 ^ s < 2 ^ s" by simp
  then have "unat (take_bit s e) \<le> unat (e - j)" using assms by (simp only: unat_take_bit_u32)
  then have "unat ((e - j) - take_bit s e) = unat (e - j) - unat (take_bit s e)"
    by (rule unat_sub_u32)
  moreover have "slot_time s e - j = (e - j) - take_bit s e" by (simp add: slot_time_diff)
  ultimately show ?thesis by (simp only: unat_take_bit_u32)
qed

lemma slot_time_aligned: "take_bit s (slot_time s e) = 0"
  unfolding slot_time_def by (rule bit_word_eqI) (auto simp: bit_take_bit_iff bit_push_bit_iff)

lemma slot_index_slot_time: "slot_index s (slot_time s e) = slot_index s e"
proof -
  have "drop_bit s (push_bit s (drop_bit s e)) = drop_bit s e"
    by (rule bit_word_eqI) (auto simp: bit_drop_bit_eq bit_push_bit_iff dest: bit_imp_le_length)
  then show ?thesis by (simp add: slot_index_def slot_time_def)
qed

text \<open>The lower bits of the clock are zero up to a level when all lower slot indices are.\<close>

lemma sixty_three_mask: "(63 :: u32) = mask 6"
  by (simp add: mask_eq_exp_minus_1)

lemma take_bit_up:
  "take_bit (s + 6) (j :: u32) = 0 \<longleftrightarrow> take_bit s j = 0 \<and> slot_index s j = 0"
proof -
  have "drop_bit s j AND 63 = drop_bit s (take_bit (s + 6) j)"
    unfolding sixty_three_mask take_bit_eq_mask [symmetric]
    by (rule bit_word_eqI) (auto simp: bit_take_bit_iff bit_drop_bit_eq)
  then have idx: "slot_index s j = 0 \<longleftrightarrow> drop_bit s (take_bit (s + 6) j) = 0"
    by (simp add: slot_index_def unat_eq_0)
  have tk: "take_bit s (take_bit (s + 6) j) = take_bit s j"
    by simp
  show ?thesis
    using bits_ident [of s "take_bit (s + 6) j"] idx tk by auto
qed

lemma take_bit_8: "take_bit 8 (j :: u32) = 0 \<longleftrightarrow> j AND 255 = 0"
  by (simp add: take_bit_eq_mask mask_eq_exp_minus_1)

lemma take_bit_sub_zero:
  assumes "take_bit n (a :: u32) = take_bit n b" "n \<le> 32"
  shows "unat (a - b) mod 2 ^ n = 0"
proof -
  have u: "uint (take_bit n x) = uint x mod 2 ^ n" for x :: u32
    by (subst unsigned_take_bit_eq) (simp add: take_bit_eq_mod)
  have "uint a mod 2 ^ n = uint b mod 2 ^ n"
    using u [of a] u [of b] assms(1) by simp
  then have "(uint a - uint b) mod 2 ^ n = 0" by (simp add: mod_eq_dvd_iff)
  moreover have "(2 :: int) ^ n dvd 2 ^ 32" using assms(2) by (rule le_imp_power_dvd)
  ultimately have "((uint a - uint b) mod 2 ^ 32) mod 2 ^ n = 0"
    using mod_mod_cancel [of "2 ^ n" "2 ^ 32 :: int"] by metis
  then have "uint (a - b) mod 2 ^ n = 0" by (simp add: uint_word_ariths)
  then have "int (unat (a - b) mod 2 ^ n) = 0" by (simp only: zmod_int uint_nat of_nat_power of_nat_numeral)
  then show ?thesis by (simp only: of_nat_eq_0_iff)
qed

text \<open>A node is put where it belongs, with its slot time still to come.\<close>

definition ahead :: "u32 \<Rightarrow> u32 \<Rightarrow> place \<Rightarrow> bool" where
  "ahead j e p \<longleftrightarrow> (\<forall>l i. p = Slot l i \<longrightarrow> 0 < l \<longrightarrow> slot_time (lvl_shift l) e \<noteq> j)"

lemma level_place:
  assumes "0 < l" "l \<le> 4" "2 ^ lvl_shift l \<le> unat (e - j)" "unat (e - j) < min (2 ^ (lvl_shift l + 6)) 2147483648"
  shows "place_ok j e (Slot l (slot_index (lvl_shift l) e)) \<and> ahead j e (Slot l (slot_index (lvl_shift l) e))"
proof -
  have d: "unat (slot_time (lvl_shift l) e - j) = unat (e - j) - unat e mod 2 ^ lvl_shift l"
    using assms(3) by (rule slot_time_distance)
  have "unat e mod 2 ^ lvl_shift l < 2 ^ lvl_shift l" by simp
  then have "0 < unat (slot_time (lvl_shift l) e - j)" using d assms(3) by linarith
  then show ?thesis using assms d by (auto simp: late_def ahead_def)
qed

lemma add_place_ok: "place_ok j e (add_place j e) \<and> ahead j e (add_place j e)"
proof -
  let ?d = "unat (e - j)"
  have sh: "lvl_shift (Suc 0) = 8" "lvl_shift 2 = 14" "lvl_shift 3 = 20" "lvl_shift 4 = 26"
    by (simp_all add: lvl_shift_def)
  consider "?d < 256" | "256 \<le> ?d" "?d < 16384" | "16384 \<le> ?d" "?d < 1048576" | "1048576 \<le> ?d" "?d < 67108864"
    | "67108864 \<le> ?d" "?d < 2147483648" | "2147483648 \<le> ?d" by linarith
  then show ?thesis
  proof cases
    case 1
    then show ?thesis by (simp add: add_place_def Let_def word_less_nat_alt ahead_def)
  next
    case 2
    then show ?thesis using level_place [of 1 e j]
      by (simp add: add_place_def Let_def word_less_nat_alt sh slot_index_def)
  next
    case 3
    then show ?thesis using level_place [of 2 e j]
      by (simp add: add_place_def Let_def word_less_nat_alt sh slot_index_def)
  next
    case 4
    then show ?thesis using level_place [of 3 e j]
      by (simp add: add_place_def Let_def word_less_nat_alt sh slot_index_def)
  next
    case 5
    then show ?thesis using level_place [of 4 e j]
      by (simp add: add_place_def Let_def word_less_nat_alt sh slot_index_def late_to_int late_def)
  next
    case 6
    then show ?thesis
      by (simp add: add_place_def Let_def word_less_nat_alt late_to_int late_def ahead_def)
  qed
qed

text \<open>The clock moves on: nodes stay where they belong, except those of the slot just reached.\<close>

lemma unat_minus_next: "a \<noteq> j \<Longrightarrow> unat (a - (j + 1) :: u32) = unat (a - j) - 1"
proof -
  assume "a \<noteq> j"
  then have "1 \<le> unat (a - j)" by (simp add: Suc_leI unat_gt_0)
  then have "unat ((a - j) - 1) = unat (a - j) - 1" by (subst unat_sub_u32) simp_all
  then show ?thesis by (simp add: diff_diff_eq)
qed

lemma root_slot_due:
  assumes "place_ok j e (Slot 0 i)"
  shows "i = unat (j AND 255) \<longleftrightarrow> due j e"
proof (cases "late j e")
  case True
  then have "\<not> unat (e - j) < 256" by (simp add: late_def)
  then show ?thesis using assms True by (simp add: due_iff)
next
  case False
  then have d: "unat (e - j) < 256" "i = unat (e AND 255)" using assms by simp_all
  have "e = j" if "e AND 255 = j AND 255"
  proof -
    have m: "(255 :: u32) = mask 8" by (simp add: mask_eq_exp_minus_1)
    have "take_bit 8 e = take_bit 8 j" using that by (simp add: m take_bit_eq_mask)
    then have "unat (e - j) mod 2 ^ 8 = 0" by (intro take_bit_sub_zero) simp_all
    then show ?thesis using d(1) by (simp add: unat_eq_0)
  qed
  then show ?thesis using d False by (auto simp: due_iff dest: unsigned_word_eqI)
qed

lemma root_slot_next:
  assumes "place_ok j e (Slot 0 i)" "\<not> due j e"
  shows "place_ok (j + 1) e (Slot 0 i)"
  using assms unat_minus_next [of e j] by (auto simp: due_iff)

lemma level_slot_next:
  assumes "place_ok j e (Slot l i)" "0 < l" "slot_time (lvl_shift l) e \<noteq> j"
  shows "place_ok (j + 1) e (Slot l i) \<and> \<not> due j e"
proof -
  let ?s = "lvl_shift l"
  have l: "l \<le> 4" "\<not> late j e" "unat (slot_time ?s e - j) < min (2 ^ (?s + 6)) 2147483648" "i = slot_index ?s e"
    using assms(1,2) by auto
  have ne: "e \<noteq> j"
  proof
    assume "e = j"
    then have t: "slot_time ?s e - j = - take_bit ?s j" by (simp add: slot_time_diff)
    then have nz: "take_bit ?s j \<noteq> 0" using assms(3) by auto
    have "unat (take_bit ?s j) < 2 ^ ?s" by (simp add: unat_take_bit_u32)
    moreover have "(2 :: nat) ^ ?s \<le> 2 ^ 26" using l(1) by (intro power_increasing) (simp_all add: lvl_shift_def)
    moreover have "unat (- take_bit ?s j) < 2147483648" using l(3) t by simp
    ultimately have "unat (- take_bit ?s j + take_bit ?s j) = unat (- take_bit ?s j) + unat (take_bit ?s j)"
      by (intro unat_add_u32) simp
    then show False using nz by (simp add: unat_eq_0)
  qed
  have "unat (slot_time ?s e - (j + 1)) = unat (slot_time ?s e - j) - 1"
    using assms(3) by (rule unat_minus_next)
  moreover have "unat (e - (j + 1)) = unat (e - j) - 1" using ne by (rule unat_minus_next)
  ultimately show ?thesis
    using l ne assms(2) by (auto simp: late_def due_iff)
qed

lemma place_next:
  assumes "place_ok j e p" "ahead j e p"
  shows "if due j e then p = Slot 0 (unat (j AND 255)) else p \<noteq> Slot 0 (unat (j AND 255)) \<and> place_ok (j + 1) e p"
proof (cases p)
  case (Slot l i)
  then show ?thesis
    using assms root_slot_due [of j e i] root_slot_next [of j e i] level_slot_next [of j e l i]
    by (cases "l = 0") (auto simp: ahead_def simp del: place_ok.simps)
qed (use assms in simp)

subsection \<open>The invariant of the wheel\<close>

definition links :: "'a itimer_core_scheme \<Rightarrow> bool" where
  "links c \<longleftrightarrow> (\<forall>p. distinct (lists c p)) \<and>
     (\<forall>p q n. n \<in> set (lists c p) \<longrightarrow> n \<in> set (lists c q) \<longrightarrow> p = q)"

definition placed :: "(u32 \<Rightarrow> place \<Rightarrow> bool) \<Rightarrow> 'a itimer_core_scheme \<Rightarrow> bool" where
  "placed Q c \<longleftrightarrow> (\<forall>p n. n \<in> set (lists c p) \<longrightarrow>
     (\<exists>x. nodes c n = Some x \<and> node_state x = ITIMER_NODE_STATE_OK \<and> has_core x \<and> Q (expires x) p))"

definition wheel_inv :: "'a itimer_core_scheme \<Rightarrow> bool" where
  "wheel_inv c \<longleftrightarrow> links c \<and> placed (\<lambda>e p. p = Queued \<or> place_ok (timer_jiffies c) e p) c"

definition linked :: "'a itimer_core_scheme \<Rightarrow> nid set" where
  "linked c = {n. \<exists>p. n \<in> set (lists c p)}"

lemma placed_mono: "placed Q c \<Longrightarrow> (\<And>e p. Q e p \<Longrightarrow> R e p) \<Longrightarrow> placed R c"
  unfolding placed_def by blast

lemma placedD:
  "placed Q c \<Longrightarrow> n \<in> set (lists c p) \<Longrightarrow>
     \<exists>x. nodes c n = Some x \<and> node_state x = ITIMER_NODE_STATE_OK \<and> has_core x \<and> Q (expires x) p"
  unfolding placed_def by blast

text \<open>The node records a cascade reads are the ones it leaves, so it only moves list entries.\<close>

definition node_place :: "'a itimer_core_scheme \<Rightarrow> nid \<Rightarrow> place" where
  "node_place c n = add_place (timer_jiffies c) (expires (the (nodes c n)))"

lemma node_place_lists [simp]: "node_place (c\<lparr>lists := f\<rparr>) = node_place c"
  by (rule ext) (simp add: node_place_def)

lemma linkedI: "n \<in> set (lists c p) \<Longrightarrow> n \<in> linked c"
  unfolding linked_def by blast

lemma linkedE: "n \<in> linked c \<Longrightarrow> (\<And>p. n \<in> set (lists c p) \<Longrightarrow> P) \<Longrightarrow> P"
  unfolding linked_def by blast

lemma cascade_nodes_eq:
  "\<forall>n\<in>set ns. \<exists>x. nodes c n = Some x \<and> has_core x \<Longrightarrow>
     cascade_nodes ns c = Some (c\<lparr>lists := \<lambda>p. lists c p @ filter (\<lambda>n. node_place c n = p) ns\<rparr>)"
proof (induction ns arbitrary: c)
  case (Cons n ns)
  then obtain x where x: "nodes c n = Some x" "has_core x" by auto
  let ?c = "c\<lparr>lists := (lists c)(node_place c n := lists c (node_place c n) @ [n])\<rparr>"
  have same: "(nodes c)(n \<mapsto> x\<lparr>has_core := True\<rparr>) = nodes c" using x by (simp add: fun_upd_idem)
  have add: "itimer_internal_add n c = Some ?c"
    using x same by (simp add: itimer_internal_add_def upd_node_def iqueue_add_tail_def node_place_def)
  have "cascade_nodes ns ?c = Some (?c\<lparr>lists := \<lambda>p. lists ?c p @ filter (\<lambda>n. node_place ?c n = p) ns\<rparr>)"
    using Cons.prems by (intro Cons.IH) simp
  then show ?case
    using x add by (auto intro!: arg_cong [where f = "\<lambda>f. c\<lparr>lists := f\<rparr>"])
qed simp

lemma cascade_eq:
  assumes "placed Q c"
  shows "itimer_internal_cascade l i c = Some (c\<lparr>lists := \<lambda>p.
    (if p = Slot l i then [] else lists c p) @ filter (\<lambda>n. node_place c n = p) (lists c (Slot l i))\<rparr>)"
proof -
  let ?c = "c\<lparr>lists := (lists c)(Slot l i := [])\<rparr>"
  have "\<forall>n\<in>set (lists c (Slot l i)). \<exists>x. nodes ?c n = Some x \<and> has_core x"
    using placedD [OF assms] by fastforce
  then show ?thesis
    by (simp add: itimer_internal_cascade_def cascade_nodes_eq fun_upd_def)
qed

lemma cascade_links:
  assumes "links c"
  shows "links (c\<lparr>lists := \<lambda>p. (if p = Slot l i then [] else lists c p) @
     filter (\<lambda>n. f n = p) (lists c (Slot l i))\<rparr>)"
  using assms unfolding links_def by (auto split: if_splits)

lemma cascade_step:
  assumes "links c" "placed Q c"
    and "\<And>e p. p \<noteq> Slot l i \<Longrightarrow> Q e p \<Longrightarrow> R e p" "\<And>e. Q e (Slot l i) \<Longrightarrow> R e (add_place (timer_jiffies c) e)"
  shows "\<exists>f. itimer_internal_cascade l i c = Some (c\<lparr>lists := f\<rparr>) \<and> links (c\<lparr>lists := f\<rparr>) \<and>
    placed R (c\<lparr>lists := f\<rparr>) \<and> linked (c\<lparr>lists := f\<rparr>) = linked c"
proof -
  let ?f = "\<lambda>p. (if p = Slot l i then [] else lists c p) @ filter (\<lambda>n. node_place c n = p) (lists c (Slot l i))"
  have "placed R (c\<lparr>lists := ?f\<rparr>)"
    unfolding placed_def
  proof (intro allI impI)
    fix p n assume "n \<in> set (lists (c\<lparr>lists := ?f\<rparr>) p)"
    then consider "p \<noteq> Slot l i" "n \<in> set (lists c p)" | "n \<in> set (lists c (Slot l i))" "node_place c n = p"
      by (auto split: if_splits)
    then show "\<exists>x. nodes (c\<lparr>lists := ?f\<rparr>) n = Some x \<and> node_state x = ITIMER_NODE_STATE_OK \<and> has_core x \<and> R (expires x) p"
    proof cases
      case 1
      then show ?thesis using placedD [OF assms(2), of n p] assms(3) by auto
    next
      case 2
      then show ?thesis using placedD [OF assms(2), of n "Slot l i"] assms(4) by (auto simp: node_place_def)
    qed
  qed
  moreover have "linked (c\<lparr>lists := ?f\<rparr>) = linked c"
  proof -
    have "n \<in> linked (c\<lparr>lists := ?f\<rparr>)" if "n \<in> set (lists c p)" for n p
      using that linkedI [of n "c\<lparr>lists := ?f\<rparr>" p] linkedI [of n "c\<lparr>lists := ?f\<rparr>" "node_place c n"]
      by (cases "p = Slot l i") auto
    moreover have "n \<in> linked c" if "n \<in> set (lists (c\<lparr>lists := ?f\<rparr>) p)" for n p
      using that by (auto intro: linkedI split: if_splits)
    ultimately show ?thesis by (blast elim: linkedE)
  qed
  ultimately show ?thesis
    using cascade_eq [OF assms(2)] cascade_links [OF assms(1)] by (intro exI [of _ ?f]) simp
qed

text \<open>The cascades of a tick, level by level: below the level reached no slot time equals the clock.\<close>

definition ahead_upto :: "nat \<Rightarrow> u32 \<Rightarrow> u32 \<Rightarrow> place \<Rightarrow> bool" where
  "ahead_upto k j e p \<longleftrightarrow> place_ok j e p \<and>
     (\<forall>l i. p = Slot l i \<longrightarrow> 0 < l \<longrightarrow> l \<le> k \<longrightarrow> slot_time (lvl_shift l) e \<noteq> j)"

lemma level_cascade:
  assumes "links c" "placed (ahead_upto k (timer_jiffies c)) c"
  shows "\<exists>f. itimer_internal_cascade (Suc k) (slot_index (lvl_shift (Suc k)) (timer_jiffies c)) c = Some (c\<lparr>lists := f\<rparr>) \<and>
    links (c\<lparr>lists := f\<rparr>) \<and> placed (ahead_upto (Suc k) (timer_jiffies c)) (c\<lparr>lists := f\<rparr>) \<and>
    linked (c\<lparr>lists := f\<rparr>) = linked c"
proof (rule cascade_step [OF assms])
  let ?j = "timer_jiffies c" and ?s = "lvl_shift (Suc k)"
  fix e p assume p: "p \<noteq> Slot (Suc k) (slot_index ?s ?j)" "ahead_upto k ?j e p"
  have "slot_time ?s e \<noteq> ?j" if "p = Slot (Suc k) i" for i
    using p that slot_index_slot_time [of ?s e] by (auto simp: ahead_upto_def)
  then show "ahead_upto (Suc k) ?j e p"
    using p(2) by (auto simp: ahead_upto_def le_Suc_eq simp del: place_ok.simps)
next
  fix e
  show "ahead_upto (Suc k) (timer_jiffies c) e (add_place (timer_jiffies c) e)"
    using add_place_ok by (simp add: ahead_upto_def ahead_def)
qed

lemma ahead_rest:
  assumes "take_bit (lvl_shift (Suc k)) j \<noteq> 0" "ahead_upto k j e p"
  shows "place_ok j e p \<and> ahead j e p"
proof -
  have "slot_time (lvl_shift l) e \<noteq> j" if "k < l" for l
  proof
    assume "slot_time (lvl_shift l) e = j"
    then have "take_bit (lvl_shift l) j = 0" using slot_time_aligned by blast
    moreover have "min (lvl_shift (Suc k)) (lvl_shift l) = lvl_shift (Suc k)"
      using that by (simp add: lvl_shift_def)
    ultimately show False using assms(1) by (metis take_bit_take_bit take_bit_of_0)
  qed
  then show ?thesis using assms(2) not_le unfolding ahead_upto_def ahead_def by metis
qed

lemma ahead_all: "ahead_upto 4 j e p \<Longrightarrow> place_ok j e p \<and> ahead j e p"
  by (cases p) (auto simp: ahead_upto_def ahead_def split: if_splits)

text \<open>Moving nodes between lists: what a cascade and any sequence of them does to the state.\<close>

definition moved :: "'a itimer_core_scheme \<Rightarrow> 'a itimer_core_scheme option \<Rightarrow> bool" where
  "moved c res \<longleftrightarrow> (\<exists>f. res = Some (c\<lparr>lists := f\<rparr>) \<and> links (c\<lparr>lists := f\<rparr>) \<and>
     placed (\<lambda>e p. place_ok (timer_jiffies c) e p \<and> ahead (timer_jiffies c) e p) (c\<lparr>lists := f\<rparr>) \<and>
     linked (c\<lparr>lists := f\<rparr>) = linked c)"

lemma ITIMER_INDEX_slot: "ITIMER_INDEX j n = slot_index (lvl_shift (Suc n)) j"
  by (simp add: ITIMER_INDEX_def slot_index_def lvl_shift_def algebra_simps)

lemma take_bit_level:
  "take_bit (lvl_shift (Suc (Suc n))) j = 0 \<longleftrightarrow> take_bit (lvl_shift (Suc n)) j = 0 \<and> ITIMER_INDEX j n = 0"
  using take_bit_up [of "lvl_shift (Suc n)" j] by (simp add: ITIMER_INDEX_slot lvl_shift_def)

lemma moved_stop:
  assumes "links c" "placed (ahead_upto k (timer_jiffies c)) c" "take_bit (lvl_shift (Suc k)) (timer_jiffies c) \<noteq> 0"
  shows "moved c (Some c)"
  using assms(1) placed_mono [OF assms(2) ahead_rest [OF assms(3)]]
  by (auto simp: moved_def intro!: exI [of _ "lists c"])

lemma moved_trans: "moved (c\<lparr>lists := f\<rparr>) res \<Longrightarrow> linked (c\<lparr>lists := f\<rparr>) = linked c \<Longrightarrow> moved c res"
  unfolding moved_def by auto

lemma cascade_chain:
  assumes "links c" "placed (ahead_upto k (timer_jiffies c)) c" "take_bit (lvl_shift (Suc k)) (timer_jiffies c) = 0"
    and rest: "\<And>d. timer_jiffies d = timer_jiffies c \<Longrightarrow> links d \<Longrightarrow> placed (ahead_upto (Suc k) (timer_jiffies d)) d \<Longrightarrow>
      take_bit (lvl_shift (Suc (Suc k))) (timer_jiffies d) = 0 \<Longrightarrow> moved d (rest d)"
  shows "moved c (do { d \<leftarrow> itimer_internal_cascade (Suc k) (ITIMER_INDEX (timer_jiffies c) k) c;
    if ITIMER_INDEX (timer_jiffies c) k \<noteq> 0 then Some d else rest d })"
proof -
  obtain f where f: "itimer_internal_cascade (Suc k) (ITIMER_INDEX (timer_jiffies c) k) c = Some (c\<lparr>lists := f\<rparr>)"
    "links (c\<lparr>lists := f\<rparr>)" "placed (ahead_upto (Suc k) (timer_jiffies c)) (c\<lparr>lists := f\<rparr>)"
    "linked (c\<lparr>lists := f\<rparr>) = linked c"
    using level_cascade [OF assms(1,2)] by (auto simp: ITIMER_INDEX_slot)
  have "moved (c\<lparr>lists := f\<rparr>) (if ITIMER_INDEX (timer_jiffies c) k \<noteq> 0 then Some (c\<lparr>lists := f\<rparr>) else rest (c\<lparr>lists := f\<rparr>))"
    using moved_stop [of "c\<lparr>lists := f\<rparr>" "Suc k"] rest [of "c\<lparr>lists := f\<rparr>"] f assms(3)
    by (simp add: take_bit_level)
  then show ?thesis using f(1) moved_trans [OF _ f(4)] by simp
qed

lemma cascade_last:
  assumes "links c" "placed (ahead_upto 3 (timer_jiffies c)) c"
  shows "moved c (itimer_internal_cascade 4 (ITIMER_INDEX (timer_jiffies c) 3) c)"
proof -
  obtain f where f: "itimer_internal_cascade 4 (ITIMER_INDEX (timer_jiffies c) 3) c = Some (c\<lparr>lists := f\<rparr>)"
    "links (c\<lparr>lists := f\<rparr>)" "placed (ahead_upto 4 (timer_jiffies c)) (c\<lparr>lists := f\<rparr>)"
    "linked (c\<lparr>lists := f\<rparr>) = linked c"
    using level_cascade [OF assms] by (auto simp: ITIMER_INDEX_slot eval_nat_numeral)
  then show ?thesis
    using placed_mono [OF f(3) ahead_all] by (auto simp: moved_def)
qed

lemma cascades_ok:
  assumes "links c" "placed (place_ok (timer_jiffies c)) c"
  shows "moved c (cascades c)"
proof -
  let ?j = "timer_jiffies c"
  have p0: "placed (ahead_upto 0 ?j) c" using assms(2) by (rule placed_mono) (simp add: ahead_upto_def)
  have one: "take_bit (lvl_shift (Suc 0)) ?j = 0 \<longleftrightarrow> ?j AND 255 = 0"
    using take_bit_8 by (simp add: lvl_shift_def)
  have r3: "moved d (itimer_internal_cascade 4 (ITIMER_INDEX ?j 3) d)"
    if "timer_jiffies d = ?j" "links d" "placed (ahead_upto 3 ?j) d" for d :: "'a itimer_core_scheme"
    using cascade_last [of d] that by simp
  have r2: "moved d (do { d \<leftarrow> itimer_internal_cascade 3 (ITIMER_INDEX ?j 2) d;
      if ITIMER_INDEX ?j 2 \<noteq> 0 then Some d else itimer_internal_cascade 4 (ITIMER_INDEX ?j 3) d })"
    if "timer_jiffies d = ?j" "links d" "placed (ahead_upto 2 ?j) d" "take_bit (lvl_shift 3) ?j = 0" for d :: "'a itimer_core_scheme"
    using cascade_chain [of d 2 "itimer_internal_cascade 4 (ITIMER_INDEX ?j 3)"] that r3 by simp
  have r1: "moved d (do { d \<leftarrow> itimer_internal_cascade 2 (ITIMER_INDEX ?j 1) d;
      if ITIMER_INDEX ?j 1 \<noteq> 0 then Some d else do { d \<leftarrow> itimer_internal_cascade 3 (ITIMER_INDEX ?j 2) d;
      if ITIMER_INDEX ?j 2 \<noteq> 0 then Some d else itimer_internal_cascade 4 (ITIMER_INDEX ?j 3) d } })"
    if "timer_jiffies d = ?j" "links d" "placed (ahead_upto 1 ?j) d" "take_bit (lvl_shift 2) ?j = 0" for d :: "'a itimer_core_scheme"
    using cascade_chain [of d 1 "\<lambda>d. do { d \<leftarrow> itimer_internal_cascade 3 (ITIMER_INDEX ?j 2) d;
      if ITIMER_INDEX ?j 2 \<noteq> 0 then Some d else itimer_internal_cascade 4 (ITIMER_INDEX ?j 3) d }"] that r2
    by (simp add: numeral_2_eq_2 numeral_3_eq_3)
  show ?thesis
  proof (cases "?j AND 255 = 0")
    case False
    then show ?thesis using moved_stop [OF assms(1) p0] one by (simp add: cascades_def Let_def)
  next
    case True
    show ?thesis
      unfolding cascades_def Let_def
      using cascade_chain [OF assms(1) p0, of "\<lambda>d. do { d \<leftarrow> itimer_internal_cascade 2 (ITIMER_INDEX ?j 1) d;
      if ITIMER_INDEX ?j 1 \<noteq> 0 then Some d else do { d \<leftarrow> itimer_internal_cascade 3 (ITIMER_INDEX ?j 2) d;
      if ITIMER_INDEX ?j 2 \<noteq> 0 then Some d else itimer_internal_cascade 4 (ITIMER_INDEX ?j 3) d } }"] r1 True one
      by (simp add: numeral_2_eq_2)
  qed
qed

text \<open>Collecting: the local queue gets the due nodes, everything else stays linked and in place.\<close>

lemma wheel_inv_stable:
  "wheel_inv c \<Longrightarrow> lists c Queued = [] \<Longrightarrow> links c \<and> placed (place_ok (timer_jiffies c)) c"
  unfolding wheel_inv_def placed_def by (metis empty_iff list.set(1))

lemma splice_linked:
  assumes "g Queued = []" "q \<noteq> Queued" "lists c = g" "lists d = g(Queued := g q, q := [])"
  shows "linked d = linked c"
proof (intro equalityI subsetI)
  fix n assume "n \<in> linked d"
  then obtain p where "n \<in> set (lists d p)" by (rule linkedE)
  then show "n \<in> linked c" using assms by (auto intro: linkedI [of n c] split: if_splits)
next
  fix n assume "n \<in> linked c"
  then obtain p where "n \<in> set (g p)" using assms(3) by (auto elim: linkedE)
  then show "n \<in> linked d"
    using linkedI [of n d p] linkedI [of n d Queued] assms by (cases "p = q"; cases "p = Queued") auto
qed

definition is_due :: "'a itimer_core_scheme \<Rightarrow> nid \<Rightarrow> bool" where
  "is_due c n \<longleftrightarrow> due (timer_jiffies c) (expires (the (nodes c n)))"

lemma tick_collect_ok:
  assumes inv: "wheel_inv c" "lists c Queued = []"
  shows "\<exists>f. let d = c\<lparr>timer_jiffies := timer_jiffies c + 1, lists := f\<rparr> in
    tick_collect c = Some d \<and> wheel_inv d \<and> linked d = linked c \<and>
    set (lists d Queued) = {n \<in> linked c. is_due c n}"
proof -
  let ?j = "timer_jiffies c" and ?q = "Slot 0 (unat (timer_jiffies c AND 255))"
  obtain g where g: "cascades c = Some (c\<lparr>lists := g\<rparr>)" "links (c\<lparr>lists := g\<rparr>)"
    "placed (\<lambda>e p. place_ok ?j e p \<and> ahead ?j e p) (c\<lparr>lists := g\<rparr>)" "linked (c\<lparr>lists := g\<rparr>) = linked c"
    using cascades_ok wheel_inv_stable [OF inv] unfolding moved_def by blast
  have at: "\<exists>x. nodes c n = Some x \<and> node_state x = ITIMER_NODE_STATE_OK \<and> has_core x \<and>
      (if due ?j (expires x) then p = ?q else p \<noteq> ?q \<and> place_ok (?j + 1) (expires x) p)"
    if "n \<in> set (g p)" for n p
    using placedD [OF g(3), of n p] that place_next [of ?j _ p] by fastforce
  have gq: "g Queued = []" using placedD [OF g(3), of _ Queued] by (cases "g Queued") auto
  let ?f = "g(Queued := g ?q, ?q := [])"
  let ?d = "c\<lparr>timer_jiffies := ?j + 1, lists := ?f\<rparr>"
  have "links ?d" using g(2) gq unfolding links_def by auto
  moreover have "placed (\<lambda>e p. p = Queued \<or> place_ok (?j + 1) e p) ?d"
    unfolding placed_def
  proof (intro allI impI)
    fix p n assume "n \<in> set (lists ?d p)"
    then show "\<exists>x. nodes ?d n = Some x \<and> node_state x = ITIMER_NODE_STATE_OK \<and> has_core x \<and>
        (p = Queued \<or> place_ok (?j + 1) (expires x) p)"
      using at [of n p] at [of n ?q] by (auto split: if_splits)
  qed
  moreover have "linked ?d = linked c"
    unfolding g(4) [symmetric] using gq by (intro splice_linked [where g = g and q = ?q]) simp_all
  moreover have "set (g ?q) = {n \<in> linked c. is_due c n}"
  proof -
    have "n \<in> set (g ?q) \<longleftrightarrow> is_due c n" if "n \<in> set (g p)" for n p
      using at [OF that] that at [of n ?q] by (auto simp: is_due_def split: if_splits)
    moreover have "linked c = {n. \<exists>p. n \<in> set (g p)}" using g(4) by (simp add: linked_def)
    ultimately show ?thesis by blast
  qed
  ultimately show ?thesis
    using g(1) gq by (intro exI [of _ ?f]) (simp add: Let_def tick_collect_def iqueue_splice_init_def wheel_inv_def)
qed

subsection \<open>Operations on nodes keep the invariant\<close>

lemma index_bounds: "unat (e AND 255 :: u32) < 256" "slot_index s e < 64"
proof -
  have "unat (take_bit 8 e) < 256" "unat (take_bit 6 (drop_bit s e)) < 64"
    by (simp_all add: unat_take_bit_u32)
  then show "unat (e AND 255 :: u32) < 256" "slot_index s e < 64"
    by (simp_all add: take_bit_eq_mask mask_eq_exp_minus_1 slot_index_def)
qed

lemma place_ok_places:
  assumes "place_ok j e p"
  shows "p \<in> set places"
proof (cases p)
  case (Slot l i)
  show ?thesis
  proof (cases "l = 0")
    case True
    then have "i < 256" using assms Slot index_bounds(1) by auto
    then show ?thesis using True Slot by (simp add: places_def ITVR_SIZE_def)
  next
    case False
    then have "l \<le> 4" "i < 64" using assms Slot index_bounds(2) by auto
    then have "l \<in> {1, 2, 3, 4}" using False by auto
    then show ?thesis using \<open>i < 64\<close> Slot by (auto simp: places_def ITVN_SIZE_def)
  qed
qed (use assms in simp)

lemma pending_linked: "wheel_inv c \<Longrightarrow> itimer_node_pending c n \<longleftrightarrow> n \<in> linked c"
proof -
  assume "wheel_inv c"
  then have "p \<in> set places" if "n \<in> set (lists c p)" for p
    using that place_ok_places unfolding wheel_inv_def placed_def
    by (metis list.set_intros(1) places_def)
  then show ?thesis unfolding itimer_node_pending_def linked_def by blast
qed

lemma linked_node:
  "wheel_inv c \<Longrightarrow> n \<in> linked c \<Longrightarrow>
     \<exists>x. nodes c n = Some x \<and> node_state x = ITIMER_NODE_STATE_OK \<and> has_core x"
  unfolding wheel_inv_def placed_def linked_def by blast

lemma del_linked: "linked (iqueue_del_init n c) = linked c - {n}"
  by (auto simp: linked_def iqueue_del_init_def)

lemma iqueue_del_init_fields [simp]:
  "lists (iqueue_del_init n c) p = removeAll n (lists c p)" "nodes (iqueue_del_init n c) = nodes c"
  "timer_jiffies (iqueue_del_init n c) = timer_jiffies c"
  by (simp_all add: iqueue_del_init_def)

lemma upd_node_fields [simp]:
  "lists (upd_node n f c) = lists c" "timer_jiffies (upd_node n f c) = timer_jiffies c"
  "nodes (upd_node n f c) = (nodes c)(n := map_option f (nodes c n))"
  "linked (upd_node n f c) = linked c" "links (upd_node n f c) = links c"
  by (simp_all add: upd_node_def linked_def links_def)

lemma wheel_inv_upd: "wheel_inv c \<Longrightarrow> n \<notin> linked c \<Longrightarrow> wheel_inv (upd_node n f c)"
  unfolding wheel_inv_def placed_def by (auto intro: linkedI)

lemma wheel_inv_del: "wheel_inv c \<Longrightarrow> wheel_inv (iqueue_del_init n c)"
  unfolding wheel_inv_def placed_def links_def iqueue_del_init_def by (auto simp: distinct_removeAll)

lemma wheel_inv_detach:
  "wheel_inv c \<Longrightarrow> wheel_inv (upd_node n f (iqueue_del_init n c))"
  by (intro wheel_inv_upd wheel_inv_del) (simp_all add: del_linked)

lemma wheel_inv_nodes:
  "wheel_inv c \<Longrightarrow> n \<notin> linked c \<Longrightarrow> wheel_inv (c\<lparr>nodes := (nodes c)(n := v)\<rparr>)"
  unfolding wheel_inv_def placed_def links_def by (auto intro: linkedI)

lemma unlink_inv:
  assumes "wheel_inv c"
  shows "wheel_inv (unlink n c)" "linked (unlink n c) = linked c - {n}" "timer_jiffies (unlink n c) = timer_jiffies c"
    and "length (lists (unlink n c) Queued) \<le> length (lists c Queued)"
    and "nodes (unlink n c) m = (if m = n \<and> n \<in> linked c then map_option (has_core_update (\<lambda>_. False)) (nodes c n) else nodes c m)"
  using assms wheel_inv_detach [OF assms]
  by (auto simp: unlink_def pending_linked del_linked)

lemma add_tail_linked: "linked (iqueue_add_tail n p c) = insert n (linked c)"
proof -
  let ?d = "iqueue_add_tail n p c"
  have "n \<in> set (lists ?d p)" "m \<in> set (lists c q) \<Longrightarrow> m \<in> set (lists ?d q)"
    "m \<in> set (lists ?d q) \<Longrightarrow> m = n \<or> m \<in> set (lists c q)" for m q
    by (auto simp: iqueue_add_tail_def split: if_splits)
  then show ?thesis unfolding linked_def by blast
qed

text \<open>Linking a node that is not linked, with its expiry time.\<close>

lemma internal_add_inv:
  assumes inv: "wheel_inv c" and n: "n \<notin> linked c" "nodes c n = Some x" "node_state x = ITIMER_NODE_STATE_OK"
  shows "\<exists>d. itimer_internal_add n c = Some d \<and> wheel_inv d \<and> linked d = insert n (linked c) \<and>
    timer_jiffies d = timer_jiffies c \<and> lists d Queued = lists c Queued \<and>
    nodes d = (nodes c)(n \<mapsto> x\<lparr>has_core := True\<rparr>)"
proof -
  let ?p = "add_place (timer_jiffies c) (expires x)"
  let ?d = "upd_node n (has_core_update (\<lambda>_. True)) (iqueue_add_tail n ?p c)"
  have p: "place_ok (timer_jiffies c) (expires x) ?p" using add_place_ok by blast
  then have pq: "?p \<noteq> Queued" by (auto simp: add_place_def Let_def)
  have nl: "n \<notin> set (lists c q)" for q using n(1) by (auto intro: linkedI)
  have "links ?d"
    using inv nl unfolding wheel_inv_def links_def by (auto simp: iqueue_add_tail_def split: if_splits)
  moreover have "placed (\<lambda>e p. p = Queued \<or> place_ok (timer_jiffies c) e p) ?d"
    using inv nl p n(2,3) unfolding wheel_inv_def placed_def
    by (auto simp: iqueue_add_tail_def simp del: place_ok.simps split: if_splits)
  moreover have "linked ?d = insert n (linked c)" by (simp add: add_tail_linked)
  ultimately show ?thesis
    using n(2) pq by (simp add: itimer_internal_add_def wheel_inv_def) (simp add: iqueue_add_tail_def)
qed

text \<open>What the three operations of the interface do to the set of pending nodes.\<close>

lemma node_add_ok:
  assumes inv: "wheel_inv c" and n: "nodes c n = Some x" "node_state x = ITIMER_NODE_STATE_OK"
  shows "\<exists>d. itimer_node_add n e c = Some d \<and> wheel_inv d \<and> linked d = insert n (linked c) \<and>
    timer_jiffies d = timer_jiffies c \<and> length (lists d Queued) \<le> length (lists c Queued) \<and>
    nodes d = (nodes c)(n \<mapsto> x\<lparr>expires := e, has_core := True\<rparr>)"
proof -
  let ?u = "unlink n c" and ?c = "upd_node n (expires_update (\<lambda>_. e)) (unlink n c)"
  define y where "y = (if n \<in> linked c then x\<lparr>has_core := False\<rparr> else x)"
  have y: "nodes ?u n = Some y" "node_state y = ITIMER_NODE_STATE_OK"
      "y\<lparr>expires := e, has_core := True\<rparr> = x\<lparr>expires := e, has_core := True\<rparr>"
    using n by (simp_all add: unlink_inv(5) [OF inv] y_def)
  have same: "(nodes ?u)(n \<mapsto> y\<lparr>expires := e, has_core := True\<rparr>) = (nodes c)(n \<mapsto> x\<lparr>expires := e, has_core := True\<rparr>)"
    using y(3) by (auto simp: unlink_inv(5) [OF inv])
  have "wheel_inv ?c" using unlink_inv(1,2) [OF inv] by (intro wheel_inv_upd) auto
  moreover have "n \<notin> linked ?c" using unlink_inv(2) [OF inv] by simp
  ultimately show ?thesis
    using internal_add_inv [of ?c n "y\<lparr>expires := e\<rparr>"] y n unlink_inv [OF inv, of n] same
    by (fastforce simp: itimer_node_add_def assert_ok_def)
qed

lemma node_del_ok:
  assumes inv: "wheel_inv c" and n: "nodes c n = Some x" "node_state x = ITIMER_NODE_STATE_OK"
  shows "\<exists>d. itimer_node_del n c = Some (if n \<in> linked c then 1 else 0, d) \<and> wheel_inv d \<and>
    linked d = linked c - {n} \<and> timer_jiffies d = timer_jiffies c \<and>
    length (lists d Queued) \<le> length (lists c Queued) \<and>
    nodes d = (nodes c)(n \<mapsto> (if n \<in> linked c then x\<lparr>has_core := False\<rparr> else x))"
proof (cases "n \<in> linked c")
  case True
  then have "has_core x" using linked_node [OF inv True] n by auto
  moreover have "nodes (unlink n c) = (nodes c)(n \<mapsto> x\<lparr>has_core := False\<rparr>)"
    using n True by (auto simp: unlink_inv(5) [OF inv])
  ultimately show ?thesis
    using True n unlink_inv [OF inv, of n] by (auto simp: itimer_node_del_def assert_ok_def pending_linked [OF inv])
next
  case False
  then show ?thesis
    using inv n by (auto simp: itimer_node_del_def assert_ok_def pending_linked)
qed

lemma node_destroy_ok:
  assumes inv: "wheel_inv c" and n: "nodes c n = Some x" "node_state x = ITIMER_NODE_STATE_OK"
  shows "\<exists>d. itimer_node_destroy n c = Some d \<and> wheel_inv d \<and> linked d = linked c - {n} \<and>
    timer_jiffies d = timer_jiffies c \<and> length (lists d Queued) \<le> length (lists c Queued) \<and>
    nodes d = (nodes c)(n \<mapsto> \<lparr>expires = 0, node_state = ITIMER_NODE_STATE_BAD, has_callback = False, has_core = False\<rparr>)"
proof -
  let ?bad = "\<lparr>expires = 0, node_state = ITIMER_NODE_STATE_BAD, has_callback = False, has_core = False\<rparr>"
  have "wheel_inv (upd_node n (\<lambda>_. ?bad) (unlink n c))"
    using unlink_inv(1,2) [OF inv] by (intro wheel_inv_upd) auto
  moreover have "nodes (upd_node n (\<lambda>_. ?bad) (unlink n c)) = (nodes c)(n \<mapsto> ?bad)"
    using n by (auto simp: unlink_inv(5) [OF inv])
  ultimately show ?thesis
    using n unlink_inv [OF inv, of n] by (simp add: itimer_node_destroy_def assert_ok_def del: upd_node_fields(3))
qed

subsection \<open>Callbacks\<close>

text \<open>
  What the wheel asks of the callbacks: called for a node just taken from the queue of the running
  tick, a callback returns, keeps the invariant, leaves the clock alone and puts nothing into that
  queue. \<open>I\<close> is the client's own invariant, which may speak of the set of linked nodes; the wheel's
  own steps keep it.
\<close>

lemma detach_inv:
  assumes "wheel_inv c" "n \<in> set (lists c Queued)"
  shows "wheel_inv (detach n c)" "linked (detach n c) = linked c - {n}"
    "timer_jiffies (detach n c) = timer_jiffies c"
    "length (lists (detach n c) Queued) < length (lists c Queued)"
  using assms wheel_inv_detach [OF assms(1)] length_removeAll_less [OF assms(2)]
  by (simp_all add: detach_def del_linked)

locale timer_callback =
  fixes cb :: "nid \<Rightarrow> 'a itimer_core_scheme \<Rightarrow> 'a itimer_core_scheme option"
    and I :: "'a itimer_core_scheme \<Rightarrow> bool"
  assumes cb_ok: "wheel_inv c \<Longrightarrow> I c \<Longrightarrow> n \<in> set (lists c Queued) \<Longrightarrow>
      \<exists>d. cb n (detach n c) = Some d \<and> wheel_inv d \<and> I d \<and> timer_jiffies d = timer_jiffies c \<and>
        length (lists d Queued) < length (lists c Queued)"
    and I_lists: "I c \<Longrightarrow> linked (c\<lparr>timer_jiffies := j, lists := f\<rparr>) = linked c \<Longrightarrow>
      I (c\<lparr>timer_jiffies := j, lists := f\<rparr>)"
    and I_detach: "I c \<Longrightarrow> I (detach n c)"
begin

lemma run_queued_returns:
  "wheel_inv c \<Longrightarrow> I c \<Longrightarrow> \<exists>d. run_queued cb c = Some d \<and> wheel_inv d \<and> I d \<and>
     lists d Queued = [] \<and> timer_jiffies d = timer_jiffies c"
proof (induction "length (lists c Queued)" arbitrary: c rule: less_induct)
  case less
  show ?case
  proof (cases "lists c Queued")
    case Nil
    then show ?thesis using less.prems by (simp add: run_queued.simps [of cb c])
  next
    case (Cons n ns)
    then have n: "n \<in> set (lists c Queued)" by simp
    obtain x where x: "nodes c n = Some x"
      using linked_node [OF less.prems(1) linkedI [OF n]] by blast
    obtain d where d: "(if has_callback x then cb n (detach n c) else Some (detach n c)) = Some d" "wheel_inv d" "I d"
      "timer_jiffies d = timer_jiffies c" "length (lists d Queued) < length (lists c Queued)"
      using that [of "detach n c"] cb_ok [OF less.prems n] detach_inv [OF less.prems(1) n] I_detach [OF less.prems(2)]
      by (cases "has_callback x") auto
    have "run_queued cb c = run_queued cb d"
      using Cons x d(1) by (simp add: run_queued.simps [of cb c])
    then show ?thesis using less.hyps [of d] d by simp
  qed
qed

lemma tick_returns:
  assumes "wheel_inv c" "I c" "lists c Queued = []"
  shows "\<exists>d. itimer_tick cb c = Some d \<and> wheel_inv d \<and> I d \<and> lists d Queued = [] \<and>
    timer_jiffies d = timer_jiffies c + 1"
proof -
  obtain f where f: "tick_collect c = Some (c\<lparr>timer_jiffies := timer_jiffies c + 1, lists := f\<rparr>)"
    "wheel_inv (c\<lparr>timer_jiffies := timer_jiffies c + 1, lists := f\<rparr>)"
    "linked (c\<lparr>timer_jiffies := timer_jiffies c + 1, lists := f\<rparr>) = linked c"
    using tick_collect_ok [OF assms(1,3)] by (auto simp: Let_def)
  moreover have "I (c\<lparr>timer_jiffies := timer_jiffies c + 1, lists := f\<rparr>)"
    using assms(2) f(3) by (rule I_lists)
  ultimately show ?thesis
    using run_queued_returns [of "c\<lparr>timer_jiffies := timer_jiffies c + 1, lists := f\<rparr>"]
    by (auto simp: itimer_tick_def)
qed

lemma core_run_returns:
  assumes "wheel_inv c" "I c" "lists c Queued = []"
  shows "\<exists>d. itimer_core_run cb jiffies c = Some d \<and> wheel_inv d \<and> I d \<and> lists d Queued = [] \<and>
    (timer_jiffies d = (if 0 \<le> to_int (jiffies - timer_jiffies c) then jiffies + 1 else timer_jiffies c))"
  using assms
proof (induction "nat (to_int (jiffies - timer_jiffies c) + 1)" arbitrary: c rule: less_induct)
  case less
  show ?case
  proof (cases "0 \<le> to_int (jiffies - timer_jiffies c)")
    case False
    then show ?thesis using less.prems by (simp add: itimer_core_run.simps [of cb jiffies c])
  next
    case True
    obtain d where d: "itimer_tick cb c = Some d" "wheel_inv d" "I d" "lists d Queued = []"
      "timer_jiffies d = timer_jiffies c + 1"
      using tick_returns [OF less.prems] by blast
    have run: "itimer_core_run cb jiffies c = itimer_core_run cb jiffies d"
      using True d(1) by (simp add: itimer_core_run.simps [of cb jiffies c])
    show ?thesis
    proof (cases "jiffies = timer_jiffies c")
      case eq: True
      have "to_int (jiffies - timer_jiffies d) < 0" using eq d(5) by (simp add: to_int_def)
      then have "itimer_core_run cb jiffies d = Some d" by (simp add: itimer_core_run.simps [of cb jiffies d])
      then show ?thesis using run d eq True by simp
    next
      case False
      have "unat (jiffies - timer_jiffies c) < 2147483648"
        using True to_int_large [of "jiffies - timer_jiffies c"] unat_lt_2p32 [of "jiffies - timer_jiffies c"] by force
      then have "to_int (jiffies - timer_jiffies d) = to_int (jiffies - timer_jiffies c) - 1"
        "0 \<le> to_int (jiffies - timer_jiffies c) - 1"
        using unat_minus_next [OF False] False
        by (simp_all add: d(5) to_int_small Suc_leI unat_gt_0)
      then show ?thesis using less.hyps [of d] d run True by simp
    qed
  qed
qed

end

subsection \<open>Properties\<close>

text \<open>
  C6. A tick of the wheel collects exactly the pending nodes whose signed distance from the clock
  is not positive, each once; all other nodes stay pending in the slot that belongs to their
  expiry time, whatever level they are on, and the clock advances by one.
\<close>

theorem tick_collects_due_nodes:
  assumes "wheel_inv c" "lists c Queued = []"
  shows "\<exists>d. tick_collect c = Some d \<and> wheel_inv d \<and> timer_jiffies d = timer_jiffies c + 1 \<and>
    nodes d = nodes c \<and> distinct (lists d Queued) \<and>
    set (lists d Queued) = {n \<in> linked c. to_int (expires (the (nodes c n)) - timer_jiffies c) \<le> 0} \<and>
    (\<forall>n. itimer_node_pending d n \<longleftrightarrow> itimer_node_pending c n)"
proof -
  obtain f where f: "tick_collect c = Some (c\<lparr>timer_jiffies := timer_jiffies c + 1, lists := f\<rparr>)"
    "wheel_inv (c\<lparr>timer_jiffies := timer_jiffies c + 1, lists := f\<rparr>)"
    "linked (c\<lparr>timer_jiffies := timer_jiffies c + 1, lists := f\<rparr>) = linked c" "set (f Queued) = {n \<in> linked c. is_due c n}"
    using tick_collect_ok [OF assms] by (auto simp: Let_def)
  moreover have "distinct (f Queued)" using f(2) by (simp add: wheel_inv_def links_def)
  ultimately show ?thesis
    using pending_linked [OF f(2)] pending_linked [OF assms(1)] by (simp add: is_due_def due_def)
qed

definition demo_wheel :: itimer_core where
  "demo_wheel = \<lparr>timer_jiffies = 0xFFFFFFFE,
     nodes = [7 \<mapsto> \<lparr>expires = 0xFFFFFFFE, node_state = ITIMER_NODE_STATE_OK, has_callback = True, has_core = True\<rparr>,
              8 \<mapsto> \<lparr>expires = 3, node_state = ITIMER_NODE_STATE_OK, has_callback = True, has_core = True\<rparr>],
     lists = (\<lambda>_. [])(Slot 0 254 := [7], Slot 0 3 := [8])\<rparr>"

lemma demo_wheel_inv: "wheel_inv demo_wheel"
  by (auto simp: wheel_inv_def links_def placed_def demo_wheel_def split: if_splits)

theorem tick_collects_due_nodes_witness:
  "\<exists>d. tick_collect demo_wheel = Some d \<and> wheel_inv d \<and> timer_jiffies d = 0xFFFFFFFF \<and>
    set (lists d Queued) = {n \<in> linked demo_wheel. to_int (expires (the (nodes demo_wheel n)) - 0xFFFFFFFE) \<le> 0}"
  using tick_collects_due_nodes [OF demo_wheel_inv] by (auto simp: demo_wheel_def)

text \<open>
  The wheel finds every node: a node goes into a slot of its level that belongs to its expiry
  time, where it stays valid as the clock advances until the clock reaches the node's slot time,
  and a node that is due is always in the root slot of the clock.
\<close>

theorem add_place_correct:
  "place_ok j e (add_place j e) \<and>
   (due j e \<longrightarrow> add_place j e = Slot 0 (unat (j AND 255))) \<and>
   (\<not> due j e \<longrightarrow> place_ok (j + 1) e (add_place j e))"
  using add_place_ok [of j e] place_next [of j e "add_place j e"] by (auto split: if_splits)

theorem add_place_correct_witness:
  "add_place 1000 990 = Slot 0 (unat (1000 AND 255 :: u32)) \<and> place_ok 1001 9000 (add_place 1000 9000)"
proof -
  have "due 1000 990" "\<not> due 1000 9000" by (simp_all add: due_iff late_def)
  then show ?thesis using add_place_correct [of 1000 990] add_place_correct [of 1000 9000] by simp
qed

text \<open>
  Adding a node makes exactly that node pending with the new expiry time, deleting it reports
  whether it was pending and leaves it not pending, and both keep the wheel in order.
\<close>

theorem node_operations_correct:
  assumes "wheel_inv c" "nodes c n = Some x" "node_state x = ITIMER_NODE_STATE_OK"
  shows "(\<exists>d y. itimer_node_add n e c = Some d \<and> wheel_inv d \<and> nodes d n = Some y \<and> expires y = e \<and>
      (\<forall>m. itimer_node_pending d m \<longleftrightarrow> m = n \<or> itimer_node_pending c m)) \<and>
    (\<exists>r d. itimer_node_del n c = Some (r, d) \<and> wheel_inv d \<and> (r = 1 \<longleftrightarrow> itimer_node_pending c n) \<and>
      (\<forall>m. itimer_node_pending d m \<longleftrightarrow> m \<noteq> n \<and> itimer_node_pending c m))"
proof -
  obtain d where d: "itimer_node_add n e c = Some d" "wheel_inv d" "linked d = insert n (linked c)"
    "nodes d = (nodes c)(n \<mapsto> x\<lparr>expires := e, has_core := True\<rparr>)"
    using node_add_ok [OF assms, of e] by blast
  obtain d' where d': "itimer_node_del n c = Some (if n \<in> linked c then 1 else 0, d')" "wheel_inv d'"
    "linked d' = linked c - {n}"
    using node_del_ok [OF assms] by blast
  show ?thesis
    using d d' pending_linked [OF d(2)] pending_linked [OF d'(2)] pending_linked [OF assms(1)] by auto
qed

theorem node_operations_correct_witness:
  "\<exists>d y. itimer_node_add 8 9 demo_wheel = Some d \<and> wheel_inv d \<and> nodes d 8 = Some y \<and> expires y = 9 \<and>
     (\<forall>m. itimer_node_pending d m \<longleftrightarrow> m = 8 \<or> itimer_node_pending demo_wheel m)"
  by (rule node_operations_correct [where
        x = "\<lparr>expires = 3, node_state = ITIMER_NODE_STATE_OK, has_callback = True, has_core = True\<rparr>",
        OF demo_wheel_inv, THEN conjunct1])
    (simp_all add: demo_wheel_def)

end
