(* ===== verification/Timer_Mgr.thy ===== *)
theory Timer_Mgr
  imports Itimer
begin

text \<open>
  The timer manager and timer events of \<^verbatim>\<open>src/reactor/itimer.cpp\<close> (\<^verbatim>\<open>itimer_mgr\<close>, \<^verbatim>\<open>itimer_evt\<close>)
  and \<^verbatim>\<open>CTimerWheelMgr\<close> of \<^verbatim>\<open>src/reactor/timer_wheel_mgr.cpp\<close> on top of the wheel.

  The manager is the core extended by its own fields and by the events, which carry the id of the
  node embedded in them. The user callback of an event is \<^verbatim>\<open>evt_timer_cb\<close>, which calls
  \<^verbatim>\<open>handle_timeout\<close> of a handler; no handler of the program touches timers there, so a call is
  recorded in the trace \<open>fired\<close>. The event callback of the wheel is an instance of the contract
  \<open>timer_callback\<close>, which gives termination of the manager's loops where the code has it.
\<close>

subsection \<open>Events and manager\<close>

record itimer_evt =
  evt_period :: u32
  evt_slap :: u32
  evt_repeat :: int
  evt_running :: bool
  evt_callback :: bool
  evt_mgr :: bool

record itimer_mgr = itimer_core +
  interval :: u32
  current :: u32
  millisec :: u32
  jiffies :: u32
  evts :: "nid \<rightharpoonup> itimer_evt"
  fired :: "nid list"

definition set_evt :: "nid \<Rightarrow> itimer_evt \<Rightarrow> itimer_mgr \<Rightarrow> itimer_mgr" where
  "set_evt n e m = m\<lparr>evts := (evts m)(n \<mapsto> e)\<rparr>"

definition itimer_mgr_init :: "u32 \<Rightarrow> u32 \<Rightarrow> itimer_mgr" where
  "itimer_mgr_init ms iv =
     itimer_core_init 0 \<lparr>timer_jiffies = 0, nodes = Map.empty, lists = (\<lambda>_. []),
       interval = (if iv < 1 then 1 else iv), current = ms, millisec = 0, jiffies = 0,
       evts = Map.empty, fired = []\<rparr>"

definition itimer_mgr_destroy :: "itimer_mgr \<Rightarrow> itimer_mgr" where
  "itimer_mgr_destroy m = itimer_core_destroy m"

definition itimer_evt_init :: "nid \<Rightarrow> bool \<Rightarrow> itimer_mgr \<Rightarrow> itimer_mgr" where
  "itimer_evt_init n fn m =
     set_evt n \<lparr>evt_period = 0, evt_slap = 0, evt_repeat = 0, evt_running = False, evt_callback = fn,
       evt_mgr = False\<rparr> (itimer_node_init n True m)"

definition itimer_evt_destroy :: "nid \<Rightarrow> itimer_mgr \<Rightarrow> itimer_mgr option" where
  "itimer_evt_destroy n m =
     do {
       _ \<leftarrow> evts m n;
       m \<leftarrow> itimer_node_destroy n m;
       Some (set_evt n \<lparr>evt_period = 0, evt_slap = 0, evt_repeat = 0, evt_running = False,
         evt_callback = False, evt_mgr = False\<rparr> m)
     }"

definition itimer_evt_stop :: "nid \<Rightarrow> itimer_mgr \<Rightarrow> itimer_mgr option" where
  "itimer_evt_stop n m =
     do {
       e \<leftarrow> evts m n;
       if evt_mgr e
       then do { (_, m) \<leftarrow> itimer_node_del n m; Some (set_evt n (e\<lparr>evt_mgr := False, evt_running := False\<rparr>) m) }
       else Some (set_evt n (e\<lparr>evt_running := False\<rparr>) m)
     }"

text \<open>Jiffies until a distance in milliseconds has passed, rounded up and capped.\<close>

definition evt_ticks :: "u32 \<Rightarrow> u32 \<Rightarrow> u32" where
  "evt_ticks d iv = (let e = (d + iv - 1) div iv in if e \<ge> 0x70000000 then 0x70000000 else e)"

definition itimer_evt_start :: "nid \<Rightarrow> u32 \<Rightarrow> int \<Rightarrow> itimer_mgr \<Rightarrow> itimer_mgr option" where
  "itimer_evt_start n period repeat m =
     do {
       e0 \<leftarrow> evts m n;
       m \<leftarrow> (if evt_mgr e0 then itimer_evt_stop n m else Some m);
       e \<leftarrow> evts m n;
       let slap = current m + period;
       let e = e\<lparr>evt_period := period, evt_repeat := repeat, evt_slap := slap, evt_mgr := True\<rparr>;
       m \<leftarrow> itimer_node_add n (jiffies m + evt_ticks (slap - current m) (interval m)) (set_evt n e m);
       Some (set_evt n (e\<lparr>evt_running := False\<rparr>) m)
     }"

text \<open>The loop of \<^verbatim>\<open>itimer_evt_cb\<close> that catches up with the time passed: number of calls due and whether
  the event has run for the last time.\<close>

partial_function (option) evt_catch_up :: "u32 \<Rightarrow> itimer_evt \<Rightarrow> nat \<Rightarrow> (bool \<times> nat \<times> itimer_evt) option" where
  "evt_catch_up cur e count =
     (if cur \<ge> evt_slap e
      then (let e = e\<lparr>evt_slap := evt_slap e + evt_period e\<rparr> in
            if evt_repeat e = 1 then Some (True, count + 1, e)
            else evt_catch_up cur (if evt_repeat e > 1 then e\<lparr>evt_repeat := evt_repeat e - 1\<rparr> else e) (count + 1))
      else Some (False, count, e))"

text \<open>The loop that calls the user callback; the callback leaves \<^verbatim>\<open>running\<close> alone.\<close>

fun evt_fire :: "nid \<Rightarrow> nat \<Rightarrow> itimer_mgr \<Rightarrow> itimer_mgr option" where
  "evt_fire n 0 m = Some m"
| "evt_fire n (Suc k) m =
     do {
       e \<leftarrow> evts m n;
       if evt_callback e \<and> evt_running e then evt_fire n k (m\<lparr>fired := fired m @ [n]\<rparr>) else Some m
     }"

definition itimer_evt_cb :: "nid \<Rightarrow> itimer_mgr \<Rightarrow> itimer_mgr option" where
  "itimer_evt_cb n m =
     do {
       e \<leftarrow> evts m n;
       if \<not> evt_mgr e then None
       else do {
         (stop, count, e) \<leftarrow> evt_catch_up (current m) e 0;
         let m = set_evt n e m;
         m \<leftarrow> (if stop then itimer_evt_stop n m
               else itimer_node_add n (jiffies m + evt_ticks (evt_slap e - current m) (interval m)) m);
         e \<leftarrow> evts m n;
         m \<leftarrow> evt_fire n count (set_evt n (e\<lparr>evt_running := True\<rparr>) m);
         e \<leftarrow> evts m n;
         Some (set_evt n (e\<lparr>evt_running := False\<rparr>) m)
       }
     }"

definition ITIMER_MGR_LIMIT :: int where "ITIMER_MGR_LIMIT = 300000"

partial_function (option) itimer_mgr_loop :: "u32 \<Rightarrow> itimer_mgr \<Rightarrow> itimer_mgr option" where
  "itimer_mgr_loop ms m =
     (if to_int (ms - millisec m) \<ge> 0
      then do {
        m \<leftarrow> itimer_core_run itimer_evt_cb (jiffies m) m;
        itimer_mgr_loop ms (m\<lparr>jiffies := jiffies m + 1, current := current m + interval m,
          millisec := millisec m + interval m\<rparr>)
      }
      else Some m)"

definition itimer_mgr_run :: "u32 \<Rightarrow> itimer_mgr \<Rightarrow> itimer_mgr option" where
  "itimer_mgr_run ms m =
     (let limit = to_int (interval m) * 64;
          diff = to_int (ms - millisec m);
          m = (if diff > ITIMER_MGR_LIMIT + limit \<or> diff < - ITIMER_MGR_LIMIT - limit
               then m\<lparr>millisec := ms\<rparr> else m)
      in itimer_mgr_loop ms m)"

subsection \<open>CTimerWheelMgr\<close>

record ctimer_wheel_mgr =
  m_timer_mgr :: itimer_mgr
  m_timer_evt_map :: "u32 \<rightharpoonup> nid"
  m_last_timer_id :: int

definition CTimerWheelMgr :: "u32 \<Rightarrow> ctimer_wheel_mgr" where
  "CTimerWheelMgr now = \<lparr>m_timer_mgr = itimer_mgr_init (now * 1000) 1, m_timer_evt_map = Map.empty, m_last_timer_id = 0\<rparr>"

text \<open>The node id of the new event is the address \<^verbatim>\<open>new\<close> returned. Incrementing the largest
  \<^verbatim>\<open>int32_t\<close> is undefined, and the test behind the increment can never hold for that type.
  \<^verbatim>\<open>insert\<close> keeps an existing entry.\<close>

definition add_timer :: "nid \<Rightarrow> int \<Rightarrow> int \<Rightarrow> ctimer_wheel_mgr \<Rightarrow> (int \<times> ctimer_wheel_mgr) option" where
  "add_timer n period repeat w =
     do {
       m \<leftarrow> itimer_evt_start n (of_int (period * 1000)) repeat (itimer_evt_init n True (m_timer_mgr w));
       i \<leftarrow> (if m_last_timer_id w = 0x7FFFFFFF then None else Some (m_last_timer_id w + 1));
       Some (i, w\<lparr>m_timer_mgr := m, m_last_timer_id := i,
         m_timer_evt_map := (case m_timer_evt_map w (of_int i) of
            None \<Rightarrow> (m_timer_evt_map w)(of_int i \<mapsto> n) | Some _ \<Rightarrow> m_timer_evt_map w)\<rparr>)
     }"

definition del_timer :: "int \<Rightarrow> ctimer_wheel_mgr \<Rightarrow> (int \<times> ctimer_wheel_mgr) option" where
  "del_timer timer_id w =
     (case m_timer_evt_map w (of_int timer_id) of
        None \<Rightarrow> Some (-1, w)
      | Some n \<Rightarrow> do {
          m \<leftarrow> itimer_evt_stop n (m_timer_mgr w);
          m \<leftarrow> itimer_evt_destroy n m;
          Some (0, w\<lparr>m_timer_mgr := m\<rparr>)
        })"

definition update_timer :: "u32 \<Rightarrow> ctimer_wheel_mgr \<Rightarrow> (int \<times> ctimer_wheel_mgr) option" where
  "update_timer now w =
     do { m \<leftarrow> itimer_mgr_run (now * 1000) (m_timer_mgr w); Some (0, w\<lparr>m_timer_mgr := m\<rparr>) }"

text \<open>The destructor destroys the events of the map, in the order \<open>ids\<close> the map is iterated in.\<close>

fun destroy_evts :: "nid list \<Rightarrow> itimer_mgr \<Rightarrow> itimer_mgr option" where
  "destroy_evts [] m = Some m"
| "destroy_evts (n # ns) m = do { m \<leftarrow> itimer_evt_destroy n m; destroy_evts ns m }"

definition CTimerWheelMgr_destroy :: "u32 list \<Rightarrow> ctimer_wheel_mgr \<Rightarrow> itimer_mgr option" where
  "CTimerWheelMgr_destroy ids w =
     destroy_evts (List.map_filter (m_timer_evt_map w) ids) (itimer_mgr_destroy (m_timer_mgr w))"

subsection \<open>Catching up\<close>

text \<open>The loop ends for an event with a repeat count, and for an endless one if its period is positive
  and the 32 bit time does not wrap within the next period.\<close>

definition catchable :: "u32 \<Rightarrow> itimer_evt \<Rightarrow> bool" where
  "catchable cur e \<longleftrightarrow> 1 \<le> evt_repeat e \<or> 0 < evt_period e \<and> unat cur + unat (evt_period e) < 4294967296"

definition evt_next :: "itimer_evt \<Rightarrow> itimer_evt" where
  "evt_next e = e\<lparr>evt_slap := evt_slap e + evt_period e,
     evt_repeat := (if evt_repeat e > 1 then evt_repeat e - 1 else evt_repeat e)\<rparr>"

lemma evt_catch_up_unfold:
  "evt_catch_up cur e k =
     (if cur \<ge> evt_slap e
      then if evt_repeat e = 1 then Some (True, k + 1, evt_next e) else evt_catch_up cur (evt_next e) (k + 1)
      else Some (False, k, e))"
  by (subst evt_catch_up.simps, cases e) (simp add: evt_next_def Let_def)

definition caught_up :: "u32 \<Rightarrow> itimer_evt \<Rightarrow> (bool \<times> nat \<times> itimer_evt) option \<Rightarrow> bool" where
  "caught_up cur e res \<longleftrightarrow> (\<exists>stop k e'. res = Some (stop, k, e') \<and> evt_mgr e' = evt_mgr e \<and>
     evt_period e' = evt_period e \<and> evt_callback e' = evt_callback e \<and>
     (1 \<le> evt_repeat e \<longleftrightarrow> 1 \<le> evt_repeat e') \<and> (stop \<or> cur < evt_slap e'))"

lemma caught_upI:
  "res = Some (stop, k, e') \<Longrightarrow> evt_mgr e' = evt_mgr e \<Longrightarrow> evt_period e' = evt_period e \<Longrightarrow>
     evt_callback e' = evt_callback e \<Longrightarrow> (1 \<le> evt_repeat e \<longleftrightarrow> 1 \<le> evt_repeat e') \<Longrightarrow>
     stop \<or> cur < evt_slap e' \<Longrightarrow> caught_up cur e res"
  unfolding caught_up_def by blast

lemma caught_up_next: "caught_up cur (evt_next e) res \<Longrightarrow> caught_up cur e res"
  unfolding caught_up_def evt_next_def by (auto split: if_splits)

lemma catch_up_counted: "1 \<le> evt_repeat e \<Longrightarrow> caught_up cur e (evt_catch_up cur e k)"
proof (induction "nat (evt_repeat e)" arbitrary: e k rule: less_induct)
  case less
  show ?case
  proof (cases "evt_slap e \<le> cur \<and> evt_repeat e \<noteq> 1")
    case True
    then have "caught_up cur (evt_next e) (evt_catch_up cur (evt_next e) (k + 1))"
      using less.prems by (intro less.hyps) (auto simp: evt_next_def)
    then show ?thesis using True caught_up_next by (simp add: evt_catch_up_unfold [of cur e])
  next
    case False
    then show ?thesis
      using less.prems by (auto simp: evt_catch_up_unfold [of cur e] caught_up_def evt_next_def not_le)
  qed
qed

text \<open>The exact number of periods that have begun, for an endless event.\<close>

lemma catch_up_endless:
  assumes "evt_repeat e \<le> 0" "0 < unat (evt_period e)" "unat cur + unat (evt_period e) < 4294967296"
    and "evt_slap e \<le> cur"
  shows "evt_catch_up cur e k = Some (False, k + 1 + (unat cur - unat (evt_slap e)) div unat (evt_period e),
    e\<lparr>evt_slap := of_nat (unat (evt_slap e) + (1 + (unat cur - unat (evt_slap e)) div unat (evt_period e)) * unat (evt_period e))\<rparr>)"
  using assms
proof (induction "unat cur - unat (evt_slap e)" arbitrary: e k rule: less_induct)
  case less
  let ?p = "unat (evt_period e)" and ?s = "unat (evt_slap e)"
  have le: "?s \<le> unat cur" using less.prems(4) by (simp add: word_le_nat_alt)
  have slap: "unat (evt_slap (evt_next e)) = ?s + ?p"
    using le less.prems(3) by (simp add: evt_next_def unat_add_u32)
  have step: "evt_catch_up cur e k = evt_catch_up cur (evt_next e) (k + 1)"
    using less.prems by (simp add: evt_catch_up_unfold [of cur e])
  have nx: "evt_next e = e\<lparr>evt_slap := of_nat (?s + ?p)\<rparr>"
    using less.prems(1) by (simp add: evt_next_def of_nat_unat)
  show ?case
  proof (cases "?s + ?p \<le> unat cur")
    case True
    then have "(unat cur - ?s) div ?p = Suc ((unat cur - (?s + ?p)) div ?p)"
      using less.prems(2) le_div_geq [of ?p "unat cur - ?s"] by simp
    then show ?thesis
      using less.hyps [of "evt_next e" "k + 1"] less.prems True slap step
      by (simp add: word_le_nat_alt) (simp add: evt_next_def add.assoc add.left_commute)
  next
    case False
    then have d0: "(unat cur - ?s) div ?p = 0" using le by (intro div_less) linarith
    have "evt_catch_up cur (evt_next e) (k + 1) = Some (False, k + 1, evt_next e)"
      using False slap by (simp add: evt_catch_up_unfold [of cur "evt_next e"] word_le_nat_alt)
    then show ?thesis using step d0 nx by simp
  qed
qed

lemma catch_up_returns:
  assumes "catchable tmax e" "cur \<le> tmax"
  shows "caught_up cur e (evt_catch_up cur e k)"
proof (cases "1 \<le> evt_repeat e")
  case True
  then show ?thesis by (rule catch_up_counted)
next
  case False
  let ?p = "unat (evt_period e)" and ?s = "unat (evt_slap e)"
  have p: "0 < ?p" "unat cur + ?p < 4294967296"
    using False assms by (auto simp: catchable_def word_less_nat_alt word_le_nat_alt)
  show ?thesis
  proof (cases "evt_slap e \<le> cur")
    case s: True
    let ?n = "?s + (1 + (unat cur - ?s) div ?p) * ?p"
    have sc: "?s \<le> unat cur" using s by (simp add: word_le_nat_alt)
    define q where "q = (unat cur - ?s) div ?p * ?p"
    have "q \<le> unat cur - ?s" "unat cur - ?s < q + ?p"
      unfolding q_def using p(1) div_mult_mod_eq [of "unat cur - ?s" ?p] mod_less_divisor [OF p(1), of "unat cur - ?s"] by linarith+
    moreover have "?n = ?s + ?p + q" by (simp add: q_def algebra_simps)
    ultimately have "unat cur < ?n" "?n < 4294967296" using sc p(2) by linarith+
    moreover define N where "N = ?n"
    ultimately have "cur < of_nat N" using unat_of_nat_u32 [of N] by (simp only: word_less_nat_alt)
    moreover have "evt_catch_up cur e k = Some (False, k + 1 + (unat cur - ?s) div ?p, e\<lparr>evt_slap := of_nat N\<rparr>)"
      unfolding N_def using catch_up_endless [of e cur k] False p s by simp
    ultimately show ?thesis by (intro caught_upI [of _ False _ "e\<lparr>evt_slap := of_nat N\<rparr>"]) simp_all
  next
    case False
    then show ?thesis by (intro caught_upI [of _ False k e]) (simp_all add: evt_catch_up_unfold [of cur e k])
  qed
qed

subsection \<open>The event callback meets the contract of the wheel\<close>

definition evt_inv :: "u32 \<Rightarrow> itimer_mgr \<Rightarrow> bool" where
  "evt_inv tmax m \<longleftrightarrow> current m \<le> tmax \<and>
     (\<forall>n\<in>linked m. \<exists>e. evts m n = Some e \<and> evt_mgr e \<and> catchable tmax e)"

text \<open>The core operations leave the fields of the manager alone.\<close>

lemma mgr_fields_eq:
  fixes d m :: itimer_mgr
  assumes "itimer_core.more d = itimer_core.more m"
  shows "evts d = evts m" "current d = current m" "interval d = interval m" "jiffies d = jiffies m"
    "millisec d = millisec m" "fired d = fired m"
  using assms by (cases d; cases m; simp)+

lemma core_more [simp]:
  "itimer_core.more (upd_node n f c) = itimer_core.more c"
  "itimer_core.more (iqueue_del_init n c) = itimer_core.more c"
  "itimer_core.more (iqueue_add_tail n p c) = itimer_core.more c"
  "itimer_core.more (detach n c) = itimer_core.more c"
  "itimer_core.more (unlink n c) = itimer_core.more c"
  by (simp_all add: upd_node_def iqueue_del_init_def iqueue_add_tail_def detach_def unlink_def)

lemma node_ops_more:
  "itimer_node_add n e c = Some d \<Longrightarrow> itimer_core.more d = itimer_core.more c"
  "itimer_node_del n c = Some (r, d') \<Longrightarrow> itimer_core.more d' = itimer_core.more c"
  "itimer_node_destroy n c = Some d'' \<Longrightarrow> itimer_core.more d'' = itimer_core.more c"
  by (auto simp: itimer_node_add_def itimer_node_del_def itimer_node_destroy_def itimer_internal_add_def
      split: Option.bind_splits if_splits)

lemmas node_ops_mgr = mgr_fields_eq [OF node_ops_more(1)] mgr_fields_eq [OF node_ops_more(2)]
  mgr_fields_eq [OF node_ops_more(3)]

lemma set_evt_core [simp]:
  "lists (set_evt n e m) = lists m" "nodes (set_evt n e m) = nodes m" "timer_jiffies (set_evt n e m) = timer_jiffies m"
  "linked (set_evt n e m) = linked m" "wheel_inv (set_evt n e m) = wheel_inv m"
  "evts (set_evt n e m) = (evts m)(n \<mapsto> e)" "current (set_evt n e m) = current m" "interval (set_evt n e m) = interval m"
  "jiffies (set_evt n e m) = jiffies m" "millisec (set_evt n e m) = millisec m" "fired (set_evt n e m) = fired m"
  by (simp_all add: set_evt_def linked_def wheel_inv_def links_def placed_def)

lemma evt_fire_trace:
  "evts m n = Some e \<Longrightarrow> evt_callback e \<Longrightarrow> evt_running e \<Longrightarrow>
     evt_fire n k m = Some (m\<lparr>fired := fired m @ replicate k n\<rparr>)"
  by (induction k arbitrary: m) (simp_all add: replicate_append_same)

lemma evt_fire_any:
  "evts m n = Some e \<Longrightarrow> \<exists>tr. evt_fire n k m = Some (m\<lparr>fired := tr\<rparr>)"
proof (induction k arbitrary: m)
  case 0
  have "m = m\<lparr>fired := fired m\<rparr>" by simp
  then show ?case by (metis evt_fire.simps(1))
next
  case (Suc k)
  have "m = m\<lparr>fired := fired m\<rparr>" by simp
  then have "\<exists>tr. Some m = Some (m\<lparr>fired := tr\<rparr>)" by metis
  then show ?case
    using Suc.IH [of "m\<lparr>fired := fired m @ [n]\<rparr>"] Suc.prems by (cases "evt_callback e \<and> evt_running e") auto
qed

lemma fired_core [simp]:
  "lists (m\<lparr>fired := t\<rparr>) = lists m" "linked (m\<lparr>fired := t\<rparr>) = linked m" "wheel_inv (m\<lparr>fired := t\<rparr>) = wheel_inv m"
  for m :: itimer_mgr
  by (simp_all add: linked_def wheel_inv_def links_def placed_def)

lemma evt_stop_ok:
  assumes "wheel_inv m" "evts m n = Some e" "evt_mgr e" "nodes m n = Some x" "node_state x = ITIMER_NODE_STATE_OK"
  shows "\<exists>d. itimer_evt_stop n m = Some d \<and> wheel_inv d \<and> linked d = linked m - {n} \<and>
    timer_jiffies d = timer_jiffies m \<and> length (lists d Queued) \<le> length (lists m Queued) \<and>
    evts d = (evts m)(n \<mapsto> e\<lparr>evt_mgr := False, evt_running := False\<rparr>) \<and> current d = current m \<and>
    interval d = interval m \<and> jiffies d = jiffies m \<and> millisec d = millisec m \<and> fired d = fired m \<and>
    nodes d = (nodes m)(n \<mapsto> (if n \<in> linked m then x\<lparr>has_core := False\<rparr> else x))"
  using node_del_ok [OF assms(1,4,5)] assms(2,3) node_ops_mgr(7-12) by (fastforce simp: itimer_evt_stop_def)

lemma evt_cb_ok:
  assumes inv: "wheel_inv c" "evt_inv tmax c" and n: "n \<in> set (lists c Queued)"
  shows "\<exists>d. itimer_evt_cb n (detach n c) = Some d \<and> wheel_inv d \<and> evt_inv tmax d \<and>
    timer_jiffies d = timer_jiffies c \<and> length (lists d Queued) < length (lists c Queued) \<and>
    interval d = interval c \<and> current d = current c \<and> jiffies d = jiffies c \<and> millisec d = millisec c"
proof -
  let ?c = "detach n c"
  have c: "wheel_inv ?c" "linked ?c = linked c - {n}" "timer_jiffies ?c = timer_jiffies c"
    "length (lists ?c Queued) < length (lists c Queued)"
    using detach_inv [OF inv(1) n] by auto
  have more: "evts ?c = evts c" "current ?c = current c" "interval ?c = interval c" "jiffies ?c = jiffies c"
    "millisec ?c = millisec c"
    by (auto intro!: mgr_fields_eq)
  obtain e where e: "evts c n = Some e" "evt_mgr e" "catchable tmax e" "current c \<le> tmax"
    using inv(2) linkedI [OF n] unfolding evt_inv_def by blast
  obtain x where x: "nodes ?c n = Some x" "node_state x = ITIMER_NODE_STATE_OK"
    using linked_node [OF inv(1) linkedI [OF n]] by (auto simp: detach_def)
  obtain stop k e' where cu: "evt_catch_up (current c) e 0 = Some (stop, k, e')" "evt_mgr e'"
    "evt_period e' = evt_period e" "1 \<le> evt_repeat e \<longleftrightarrow> 1 \<le> evt_repeat e'"
    using catch_up_returns [OF e(3,4), of 0] e(2) unfolding caught_up_def by auto
  let ?m = "set_evt n e' ?c"
  let ?a = "jiffies c + evt_ticks (evt_slap e' - current c) (interval c)"
  have cat: "catchable tmax e'" using e(3) cu(3,4) by (simp add: catchable_def)
  obtain d where d: "(if stop then itimer_evt_stop n ?m else itimer_node_add n ?a ?m) = Some d" "wheel_inv d"
    "linked d = (if stop then linked c - {n} else insert n (linked c))" "timer_jiffies d = timer_jiffies c"
    "length (lists d Queued) < length (lists c Queued)" "current d = current c" "interval d = interval c"
    "jiffies d = jiffies c" "millisec d = millisec c"
    "evts d = (evts c)(n \<mapsto> (if stop then e'\<lparr>evt_mgr := False, evt_running := False\<rparr> else e'))"
  proof (cases stop)
    case True
    obtain d where "itimer_evt_stop n ?m = Some d \<and> wheel_inv d \<and> linked d = linked ?m - {n} \<and>
      timer_jiffies d = timer_jiffies ?m \<and> length (lists d Queued) \<le> length (lists ?m Queued) \<and>
      evts d = (evts ?m)(n \<mapsto> e'\<lparr>evt_mgr := False, evt_running := False\<rparr>) \<and> current d = current ?m \<and>
      interval d = interval ?m \<and> jiffies d = jiffies ?m \<and> millisec d = millisec ?m"
      using evt_stop_ok [of ?m n e' x] c(1) x cu(2) by auto
    then show ?thesis using that [of d] True c more by simp
  next
    case False
    obtain d where d: "itimer_node_add n ?a ?m = Some d" "wheel_inv d" "linked d = insert n (linked ?m)"
      "timer_jiffies d = timer_jiffies ?m" "length (lists d Queued) \<le> length (lists ?m Queued)"
      using node_add_ok [of ?m n x ?a] c(1) x by auto
    then show ?thesis using that [of d] False c more node_ops_mgr(1-6) [OF d(1)] by auto
  qed
  obtain e2 where e2: "evts d n = Some e2" "evts d = (evts c)(n \<mapsto> e2)" "\<not> stop \<Longrightarrow> evt_mgr e2 \<and> catchable tmax e2"
    using d(10) cu(2) cat by (cases stop) auto
  let ?d = "set_evt n (e2\<lparr>evt_running := True\<rparr>) d"
  obtain tr where tr: "evt_fire n k ?d = Some (?d\<lparr>fired := tr\<rparr>)"
    using evt_fire_any [of ?d n] by fastforce
  let ?r = "set_evt n (e2\<lparr>evt_running := False\<rparr>) (?d\<lparr>fired := tr\<rparr>)"
  have "itimer_evt_cb n ?c = Some ?r"
    using e cu(1) d(1) e2(1) tr by (cases stop) (simp_all add: itimer_evt_cb_def more)
  moreover have "evt_inv tmax ?r"
    using inv(2) d(3,6) e2 unfolding evt_inv_def by (auto simp: catchable_def split: if_splits)
  ultimately show ?thesis using d by simp
qed

text \<open>The callback leaves the clocks of the manager alone, so they can be part of the invariant.\<close>

definition mgr_clocks :: "itimer_mgr \<Rightarrow> u32 \<times> u32 \<times> u32 \<times> u32" where
  "mgr_clocks m = (interval m, current m, jiffies m, millisec m)"

interpretation evt: timer_callback itimer_evt_cb "\<lambda>m. evt_inv tmax m \<and> mgr_clocks m = fr"
proof unfold_locales
  fix c :: itimer_mgr and n
  assume "wheel_inv c" "evt_inv tmax c \<and> mgr_clocks c = fr" "n \<in> set (lists c Queued)"
  then show "\<exists>d. itimer_evt_cb n (detach n c) = Some d \<and> wheel_inv d \<and> (evt_inv tmax d \<and> mgr_clocks d = fr) \<and>
      timer_jiffies d = timer_jiffies c \<and> length (lists d Queued) < length (lists c Queued)"
    using evt_cb_ok [of c tmax n] unfolding mgr_clocks_def by auto
next
  fix c :: itimer_mgr and j f
  assume "evt_inv tmax c \<and> mgr_clocks c = fr" "linked (c\<lparr>timer_jiffies := j, lists := f\<rparr>) = linked c"
  then show "evt_inv tmax (c\<lparr>timer_jiffies := j, lists := f\<rparr>) \<and> mgr_clocks (c\<lparr>timer_jiffies := j, lists := f\<rparr>) = fr"
    by (simp add: evt_inv_def mgr_clocks_def)
next
  fix c :: itimer_mgr and n assume "evt_inv tmax c \<and> mgr_clocks c = fr"
  then show "evt_inv tmax (detach n c) \<and> mgr_clocks (detach n c) = fr"
    using mgr_fields_eq [of "detach n c" c] by (auto simp: evt_inv_def mgr_clocks_def detach_def del_linked)
qed

subsection \<open>The manager\<close>

text \<open>Between calls: the wheel in order, no tick running, the clocks of core and manager equal.\<close>

definition mgr_inv :: "itimer_mgr \<Rightarrow> bool" where
  "mgr_inv m \<longleftrightarrow> wheel_inv m \<and> lists m Queued = [] \<and> timer_jiffies m = jiffies m \<and>
     0 < unat (interval m) \<and> unat (interval m) < 2147483648"

lemma mgr_init_inv: "unat iv < 2147483648 \<Longrightarrow> mgr_inv (itimer_mgr_init ms iv) \<and> evt_inv tmax (itimer_mgr_init tmax iv)"
  by (auto simp: mgr_inv_def itimer_mgr_init_def itimer_core_init_def wheel_inv_def links_def placed_def
      evt_inv_def linked_def word_less_nat_alt)

lemma to_int_sub:
  assumes "unat a < 2147483648" "unat b < 2147483648"
  shows "to_int (a - b) = int (unat a) - int (unat b)"
proof (cases "unat b \<le> unat a")
  case True
  then have "unat (a - b) = unat a - unat b" by (rule unat_sub_u32)
  then show ?thesis using True assms by (simp add: to_int_small)
next
  case False
  have "unat (a - b) = 4294967296 + unat a - unat b"
    using False unat_lt_2p32 [of b] by (simp add: unat_sub_if_size word_size word_le_nat_alt)
  then show ?thesis using False assms by (simp add: to_int_large)
qed

lemma to_int_nonneg: "0 \<le> to_int a \<Longrightarrow> unat a < 2147483648 \<and> to_int a = int (unat a)"
  using to_int_large [of a] to_int_small [of a] unat_lt_2p32 [of a]
  by (cases "unat a < 2147483648") auto

text \<open>
  What a run amounts to: ticks of the wheel, each with the clocks advanced by one interval. \<open>ticks_to_do\<close> is their number
  up to the time \<open>ms\<close>. A clock that is farther away than the limit is set to \<open>ms\<close> first.
\<close>

definition mgr_tick :: "itimer_mgr \<Rightarrow> itimer_mgr option" where
  "mgr_tick m =
     do {
       m \<leftarrow> itimer_tick itimer_evt_cb m;
       Some (m\<lparr>jiffies := jiffies m + 1, current := current m + interval m, millisec := millisec m + interval m\<rparr>)
     }"

primrec mgr_ticks :: "nat \<Rightarrow> itimer_mgr \<Rightarrow> itimer_mgr option" where
  "mgr_ticks 0 m = Some m"
| "mgr_ticks (Suc k) m = do { m \<leftarrow> mgr_tick m; mgr_ticks k m }"

definition ticks_to_do :: "u32 \<Rightarrow> itimer_mgr \<Rightarrow> nat" where
  "ticks_to_do ms m = (if to_int (ms - millisec m) < 0 then 0 else nat (to_int (ms - millisec m)) div unat (interval m) + 1)"

definition too_far :: "u32 \<Rightarrow> itimer_mgr \<Rightarrow> bool" where
  "too_far ms m \<longleftrightarrow> ITIMER_MGR_LIMIT + 64 * int (unat (interval m)) < \<bar>to_int (ms - millisec m)\<bar>"

lemma mgr_loop_step:
  assumes "mgr_inv m" "evt_inv tmax m" "0 \<le> to_int (ms - millisec m)"
    and "unat (current m) + unat (interval m) \<le> unat tmax"
  shows "\<exists>c. itimer_mgr_loop ms m = itimer_mgr_loop ms c \<and> mgr_tick m = Some c \<and> mgr_inv c \<and> evt_inv tmax c \<and>
    to_int (ms - millisec c) = to_int (ms - millisec m) - int (unat (interval m)) \<and>
    unat (current c) = unat (current m) + unat (interval m) \<and> interval c = interval m \<and>
    jiffies c = jiffies m + 1 \<and> millisec c = millisec m + interval m"
proof -
  note inv = assms(1) [unfolded mgr_inv_def]
  obtain c where c: "itimer_tick itimer_evt_cb m = Some c" "wheel_inv c" "evt_inv tmax c"
    "mgr_clocks c = mgr_clocks m" "lists c Queued = []" "timer_jiffies c = jiffies m + 1"
    using evt.tick_returns [of m tmax "mgr_clocks m"] inv assms(2) by auto
  have run: "itimer_core_run itimer_evt_cb (jiffies m) m = Some c"
    using c(1,6) inv by (simp add: itimer_core_run.simps [of _ "jiffies m" m] itimer_core_run.simps [of _ "jiffies m" c] to_int_def)
  let ?c = "c\<lparr>jiffies := jiffies c + 1, current := current c + interval c, millisec := millisec c + interval c\<rparr>"
  have cl: "interval c = interval m" "current c = current m" "jiffies c = jiffies m" "millisec c = millisec m"
    using c(4) by (simp_all add: mgr_clocks_def)
  have "ms - millisec ?c = (ms - millisec m) - interval m" using cl by simp
  then have d: "to_int (ms - millisec ?c) = to_int (ms - millisec m) - int (unat (interval m))"
    using to_int_nonneg [OF assms(3)] inv by (simp only: to_int_sub)
  have cur: "unat (current ?c) = unat (current m) + unat (interval m)"
    using assms(4) unat_lt_2p32 [of tmax] cl by (simp add: unat_add_u32)
  then have "current ?c \<le> tmax" using assms(4) by (simp add: word_le_nat_alt)
  then have "evt_inv tmax ?c" using c(3) by (auto simp: evt_inv_def linked_def)
  moreover have "mgr_inv ?c" using c inv cl by (simp add: mgr_inv_def wheel_inv_def links_def placed_def)
  moreover have "itimer_mgr_loop ms m = itimer_mgr_loop ms ?c"
    using assms(3) run by (simp add: itimer_mgr_loop.simps [of ms m])
  ultimately show ?thesis using c(1) d cur cl by (intro exI [of _ ?c]) (simp add: mgr_tick_def)
qed

lemma ticks_to_do_Suc:
  assumes "0 \<le> to_int (ms - millisec m)" "0 < unat (interval m)"
    and "to_int (ms - millisec c) = to_int (ms - millisec m) - int (unat (interval m))" "interval c = interval m"
  shows "ticks_to_do ms m = Suc (ticks_to_do ms c)"
proof (cases "to_int (ms - millisec c) < 0")
  case True
  then have "nat (to_int (ms - millisec m)) < unat (interval m)" using assms(1,3) by linarith
  then show ?thesis using True assms(1) by (simp add: ticks_to_do_def)
next
  case False
  then have "nat (to_int (ms - millisec m)) = nat (to_int (ms - millisec c)) + unat (interval m)" using assms(3) by linarith
  then show ?thesis using False assms(1,2,4) div_add_self2 [of "unat (interval m)" "nat (to_int (ms - millisec c))"] by (simp add: ticks_to_do_def)
qed

lemma mgr_loop_returns:
  assumes "mgr_inv m" "evt_inv tmax m"
    and "0 \<le> to_int (ms - millisec m) \<Longrightarrow>
      unat (current m) + nat (to_int (ms - millisec m)) + unat (interval m) \<le> unat tmax"
  shows "\<exists>d. itimer_mgr_loop ms m = Some d \<and> mgr_inv d \<and> evt_inv tmax d \<and> to_int (ms - millisec d) < 0 \<and>
    mgr_ticks (ticks_to_do ms m) m = Some d \<and> jiffies d = jiffies m + of_nat (ticks_to_do ms m) \<and>
    millisec d = millisec m + of_nat (ticks_to_do ms m) * interval m"
  using assms
proof (induction "nat (to_int (ms - millisec m) + 1)" arbitrary: m rule: less_induct)
  case less
  show ?case
  proof (cases "0 \<le> to_int (ms - millisec m)")
    case False
    then show ?thesis using less.prems by (simp add: itimer_mgr_loop.simps [of ms m] ticks_to_do_def)
  next
    case True
    obtain c where c: "itimer_mgr_loop ms m = itimer_mgr_loop ms c" "mgr_inv c" "evt_inv tmax c"
      "to_int (ms - millisec c) = to_int (ms - millisec m) - int (unat (interval m))"
      "unat (current c) = unat (current m) + unat (interval m)" "interval c = interval m" "mgr_tick m = Some c"
      "jiffies c = jiffies m + 1" "millisec c = millisec m + interval m"
      using mgr_loop_step [OF less.prems(1,2) True] less.prems(3) [OF True] by auto
    have iv: "0 < unat (interval m)" using less.prems(1) by (simp add: mgr_inv_def)
    then have k: "ticks_to_do ms m = Suc (ticks_to_do ms c)" by (rule ticks_to_do_Suc [OF True _ c(4,6)])
    have cur: "unat (current c) + nat (to_int (ms - millisec c)) + unat (interval c) \<le> unat tmax" if "0 \<le> to_int (ms - millisec c)"
      using c(4-6) less.prems(3) [OF True] True that by auto
    obtain d where "itimer_mgr_loop ms c = Some d" "mgr_inv d" "evt_inv tmax d" "to_int (ms - millisec d) < 0"
        "mgr_ticks (ticks_to_do ms c) c = Some d" "jiffies d = jiffies c + of_nat (ticks_to_do ms c)"
        "millisec d = millisec c + of_nat (ticks_to_do ms c) * interval c"
      using less.hyps [OF _ c(2,3) cur] c(4) iv True by auto
    then show ?thesis unfolding k using c(1,6-9) by (intro exI [of _ d]) (simp add: algebra_simps)
  qed
qed

lemma mgr_run_total:
  fixes ms :: u32
  assumes "mgr_inv m" "evt_inv tmax m" "unat (interval m) < 1000000"
    and "unat (current m) + 300000 + 65 * unat (interval m) \<le> unat tmax"
  defines "start \<equiv> if too_far ms m then m\<lparr>millisec := ms\<rparr> else m"
  shows "\<exists>d. itimer_mgr_run ms m = Some d \<and> mgr_inv d \<and> evt_inv tmax d \<and> to_int (ms - millisec d) < 0 \<and>
    mgr_ticks (ticks_to_do ms start) start = Some d \<and> jiffies d = jiffies m + of_nat (ticks_to_do ms start) \<and>
    millisec d = millisec start + of_nat (ticks_to_do ms start) * interval m"
proof -
  have lim: "to_int (interval m) = int (unat (interval m))" using assms(3) by (simp add: to_int_small)
  have run: "itimer_mgr_run ms m = itimer_mgr_loop ms start"
    unfolding itimer_mgr_run_def Let_def start_def too_far_def lim by (rule arg_cong [where f = "itimer_mgr_loop ms"]) auto
  have c: "mgr_inv (m\<lparr>millisec := ms\<rparr>)" "evt_inv tmax (m\<lparr>millisec := ms\<rparr>)"
    using assms(1,2) by (auto simp: mgr_inv_def evt_inv_def wheel_inv_def links_def placed_def linked_def)
  show ?thesis
  proof (cases "too_far ms m")
    case True
    then show ?thesis using mgr_loop_returns [OF c, of ms] assms(4) unfolding run start_def by (simp add: to_int_def)
  next
    case False
    then have "unat (current m) + nat (to_int (ms - millisec m)) + unat (interval m) \<le> unat tmax"
      using assms(4) unfolding ITIMER_MGR_LIMIT_def too_far_def by linarith
    then show ?thesis using mgr_loop_returns [OF assms(1,2), of ms] False unfolding run start_def by simp
  qed
qed

subsection \<open>Properties\<close>

text \<open>
  C33. A run of the manager with the time stamp \<open>ms\<close> ends, and it does exactly the ticks that are due: one for every
  interval from the manager's clock up to \<open>ms\<close>, \<open>ms\<close> included, each of them a tick of the wheel with its callbacks, after
  which the clocks are one interval further; then the clock is past \<open>ms\<close> and the wheel is in order. If the clock is more
  than \<^verbatim>\<open>ITIMER_MGR_LIMIT\<close> and 64 intervals away from \<open>ms\<close>, on either side, it is set to \<open>ms\<close> first: the ticks in between
  are skipped and one is done. The theorem assumes an interval below 1000 seconds and, with the invariant \<open>evt_inv\<close>, that
  every pending event is counted, or endless with a positive period, and that the 32 bit time does not wrap during the run.
\<close>

theorem mgr_run_returns:
  fixes ms :: u32
  assumes "mgr_inv m" "evt_inv tmax m" "unat (interval m) < 1000000"
    and "unat (current m) + 300000 + 65 * unat (interval m) \<le> unat tmax"
  defines "start \<equiv> if too_far ms m then m\<lparr>millisec := ms\<rparr> else m"
  shows "\<exists>d. itimer_mgr_run ms m = Some d \<and> mgr_inv d \<and> evt_inv tmax d \<and> to_int (ms - millisec d) < 0 \<and>
    mgr_ticks (ticks_to_do ms start) start = Some d \<and> jiffies d = jiffies m + of_nat (ticks_to_do ms start) \<and>
    millisec d = millisec start + of_nat (ticks_to_do ms start) * interval m"
  unfolding start_def using assms(1-4) by (rule mgr_run_total)

text \<open>A new manager is run at time 50 and at time 400000: 51 ticks, and one.\<close>

theorem mgr_run_returns_witness:
  "(\<exists>d. itimer_mgr_run 50 (itimer_mgr_init 400000 1) = Some d \<and> mgr_ticks 51 (itimer_mgr_init 400000 1) = Some d \<and> millisec d = 51) \<and>
   (\<exists>d. itimer_mgr_run 400000 (itimer_mgr_init 400000 1) = Some d \<and> jiffies d = 1 \<and> millisec d = 400001)"
proof -
  let ?m = "itimer_mgr_init 400000 1"
  have m: "mgr_inv ?m" "evt_inv 0x7FFFFFFF ?m" "unat (interval ?m) < 1000000" "unat (current ?m) + 300000 + 65 * unat (interval ?m) \<le> unat (0x7FFFFFFF :: u32)"
    by (auto simp: mgr_inv_def evt_inv_def itimer_mgr_init_def itimer_core_init_def wheel_inv_def links_def placed_def linked_def)
  have "millisec ?m = 0" "interval ?m = 1" "jiffies ?m = 0" by (simp_all add: itimer_mgr_init_def itimer_core_init_def)
  then show ?thesis
    using mgr_run_returns [OF m, of 50] mgr_run_returns [OF m, of 400000]
    by (auto simp: too_far_def ticks_to_do_def ITIMER_MGR_LIMIT_def to_int_def)
qed

lemma evt_ticks_ceil:
  assumes "0 < unat iv" "unat p + unat iv < 4294967296"
  shows "unat (evt_ticks p iv) = min ((unat p + unat iv - 1) div unat iv) 0x70000000"
proof -
  have "unat (p + iv - 1) = unat p + unat iv - 1"
    using assms unat_add_u32 [of p iv] unat_sub_u32 [of 1 "p + iv"] by simp
  then show ?thesis by (auto simp: evt_ticks_def Let_def word_le_nat_alt unat_div)
qed

text \<open>
  Starting an event makes it pending and puts its expiry the period, rounded up to whole
  intervals and capped at 0x70000000, after the manager's clock; other timers are not touched.
\<close>

theorem evt_start_schedules:
  assumes "mgr_inv m" "evts m n = Some e" "\<not> evt_mgr e" "nodes m n = Some x" "node_state x = ITIMER_NODE_STATE_OK"
    and "unat p + unat (interval m) < 4294967296"
  shows "\<exists>d y e'. itimer_evt_start n p r m = Some d \<and> wheel_inv d \<and> nodes d n = Some y \<and> evts d n = Some e' \<and>
    unat (expires y - jiffies m) = min ((unat p + unat (interval m) - 1) div unat (interval m)) 0x70000000 \<and>
    evt_slap e' = current m + p \<and> evt_repeat e' = r \<and> evt_mgr e' \<and>
    (\<forall>k. itimer_node_pending d k \<longleftrightarrow> k = n \<or> itimer_node_pending m k)"
proof -
  let ?e = "e\<lparr>evt_period := p, evt_repeat := r, evt_slap := current m + p, evt_mgr := True\<rparr>"
  let ?m = "set_evt n ?e m" and ?a = "jiffies m + evt_ticks p (interval m)"
  have inv: "wheel_inv m" "0 < unat (interval m)" using assms(1) by (simp_all add: mgr_inv_def)
  obtain d where d: "itimer_node_add n ?a ?m = Some d" "wheel_inv d" "linked d = insert n (linked m)"
    "nodes d = (nodes m)(n \<mapsto> x\<lparr>expires := ?a, has_core := True\<rparr>)"
    using node_add_ok [of ?m n x ?a] inv(1) assms(4,5) by auto
  let ?d = "set_evt n (?e\<lparr>evt_running := False\<rparr>) d"
  have "itimer_evt_start n p r m = Some ?d"
    using assms(2,3) d(1) by (simp add: itimer_evt_start_def Let_def)
  then show ?thesis
    using d pending_linked [of ?d] pending_linked [OF inv(1)] evt_ticks_ceil [OF inv(2) assms(6)]
    by (intro exI [of _ ?d]) simp
qed

theorem evt_start_schedules_witness:
  "\<exists>d y e'. itimer_evt_start 4 1500 1 (itimer_evt_init 4 True (itimer_mgr_init 7000 10)) = Some d \<and>
     nodes d 4 = Some y \<and> evts d 4 = Some e' \<and> unat (expires y) = 150 \<and> evt_slap e' = 8500"
  using evt_start_schedules [of "itimer_evt_init 4 True (itimer_mgr_init 7000 10)" 4
      "\<lparr>evt_period = 0, evt_slap = 0, evt_repeat = 0, evt_running = False, evt_callback = True, evt_mgr = False\<rparr>"
      "\<lparr>expires = 0, node_state = ITIMER_NODE_STATE_OK, has_callback = True, has_core = False\<rparr>" 1500 1]
  by (fastforce simp: mgr_inv_def itimer_evt_init_def itimer_node_init_def itimer_mgr_init_def itimer_core_init_def
      wheel_inv_def links_def placed_def set_evt_def)

text \<open>
  When a one-shot event comes up at or after its time, its handler is called exactly once and
  the event is no longer pending.
\<close>

theorem evt_cb_fires:
  assumes "wheel_inv c" "n \<in> set (lists c Queued)" "evts c n = Some e" "evt_mgr e" "evt_callback e"
    and "evt_slap e \<le> current c" "evt_repeat e = 1"
  shows "\<exists>d. itimer_evt_cb n (detach n c) = Some d \<and> fired d = fired c @ [n] \<and> wheel_inv d \<and>
    linked d = linked c - {n}"
proof -
  let ?c = "detach n c" and ?e = "e\<lparr>evt_slap := evt_slap e + evt_period e\<rparr>"
  have c: "wheel_inv ?c" "linked ?c = linked c - {n}" using detach_inv [OF assms(1,2)] by auto
  have more: "evts ?c = evts c" "current ?c = current c" "fired ?c = fired c"
    by (auto intro!: mgr_fields_eq)
  have cu: "evt_catch_up (current c) e 0 = Some (True, 1, ?e)"
    using assms(6,7) by (subst evt_catch_up.simps) (simp add: Let_def)
  obtain x where x: "nodes ?c n = Some x" "node_state x = ITIMER_NODE_STATE_OK"
    using linked_node [OF assms(1) linkedI [OF assms(2)]] by (auto simp: detach_def)
  obtain d where d: "itimer_evt_stop n (set_evt n ?e ?c) = Some d" "wheel_inv d" "linked d = linked ?c - {n}"
    "evts d = (evts c)(n \<mapsto> ?e\<lparr>evt_mgr := False, evt_running := False\<rparr>)" "fired d = fired c"
    using evt_stop_ok [of "set_evt n ?e ?c" n ?e x] c(1) x assms(4) more by auto
  have "itimer_evt_cb n ?c = Some (set_evt n (?e\<lparr>evt_mgr := False, evt_running := False\<rparr>)
      ((set_evt n (?e\<lparr>evt_mgr := False, evt_running := True\<rparr>) d)\<lparr>fired := fired c @ [n]\<rparr>))"
    using assms(3-5) cu d by (simp add: itimer_evt_cb_def more)
  then show ?thesis using d c(2) by simp
qed

definition demo_evt :: itimer_evt where
  "demo_evt = \<lparr>evt_period = 10, evt_slap = 40, evt_repeat = 1, evt_running = False, evt_callback = True, evt_mgr = True\<rparr>"

definition demo_mgr :: itimer_mgr where
  "demo_mgr = \<lparr>timer_jiffies = 5,
     nodes = [3 \<mapsto> \<lparr>expires = 4, node_state = ITIMER_NODE_STATE_OK, has_callback = True, has_core = True\<rparr>],
     lists = (\<lambda>_. [])(Queued := [3]), interval = 1, current = 42, millisec = 0, jiffies = 5,
     evts = [3 \<mapsto> demo_evt], fired = []\<rparr>"

theorem evt_cb_fires_witness:
  "\<exists>d. itimer_evt_cb 3 (detach 3 demo_mgr) = Some d \<and> fired d = [3] \<and> wheel_inv d \<and> linked d = linked demo_mgr - {3}"
  using evt_cb_fires [of demo_mgr 3 demo_evt]
  by (simp add: demo_mgr_def demo_evt_def wheel_inv_def links_def placed_def)

text \<open>
  Catching up with an endless event of positive period: the number of calls is one for every
  period begun since its time, and the next time is the first one in the future. With period 0
  (an interval timer of 0 seconds) and its time come, the loop never ends.
\<close>

theorem endless_catch_up:
  assumes "evt_repeat e \<le> 0" "evt_slap e \<le> cur"
  shows "(0 < unat (evt_period e) \<and> unat cur + unat (evt_period e) < 4294967296 \<longrightarrow>
      (\<exists>e'. evt_catch_up cur e 0 = Some (False, 1 + (unat cur - unat (evt_slap e)) div unat (evt_period e), e') \<and>
        cur < evt_slap e' \<and> unat (evt_slap e') \<le> unat cur + unat (evt_period e))) \<and>
    (evt_period e = 0 \<longrightarrow> evt_catch_up cur e k = None)"
proof (intro conjI impI)
  let ?p = "unat (evt_period e)" and ?s = "unat (evt_slap e)"
  assume p: "0 < ?p \<and> unat cur + ?p < 4294967296"
  define q where "q = (unat cur - ?s) div ?p * ?p"
  have q: "q \<le> unat cur - ?s" "unat cur - ?s < q + ?p"
    unfolding q_def using p div_mult_mod_eq [of "unat cur - ?s" ?p] mod_less_divisor [of ?p "unat cur - ?s"] by linarith+
  have sc: "?s \<le> unat cur" using assms(2) by (simp add: word_le_nat_alt)
  have "?s + ?p + q < 4294967296" using q p sc by linarith
  then have N: "unat (of_nat (?s + ?p + q) :: u32) = ?s + ?p + q" by (rule unat_of_nat_u32)
  have "evt_catch_up cur e 0 = Some (False, 1 + (unat cur - ?s) div ?p, e\<lparr>evt_slap := of_nat (?s + ?p + q)\<rparr>)"
    using catch_up_endless [of e cur 0] assms p by (simp add: q_def add.assoc)
  then show "\<exists>e'. evt_catch_up cur e 0 = Some (False, 1 + (unat cur - ?s) div ?p, e') \<and>
      cur < evt_slap e' \<and> unat (evt_slap e') \<le> unat cur + ?p"
    using N q sc by (simp add: word_less_nat_alt del: of_nat_add) linarith
next
  assume "evt_period e = 0"
  have "\<not> (evt_period x = 0 \<and> evt_repeat x \<le> 0 \<and> evt_slap x \<le> cur)" if "evt_catch_up cur x j = Some y" for x j y
  proof (rule evt_catch_up.raw_induct [where P = "\<lambda>c x j y. \<not> (evt_period x = 0 \<and> evt_repeat x \<le> 0 \<and> evt_slap x \<le> c)", OF _ that])
    fix f c and x :: itimer_evt and j y
    assume IH: "\<And>c x j y. f c x j = Some y \<Longrightarrow> \<not> (evt_period x = 0 \<and> evt_repeat x \<le> 0 \<and> evt_slap x \<le> c)"
      and body: "(if c \<ge> evt_slap x
        then (let e = x\<lparr>evt_slap := evt_slap x + evt_period x\<rparr> in
              if evt_repeat e = 1 then Some (True, j + 1, e)
              else f c (if evt_repeat e > 1 then e\<lparr>evt_repeat := evt_repeat e - 1\<rparr> else e) (j + 1))
        else Some (False, j, x)) = Some y"
    show "\<not> (evt_period x = 0 \<and> evt_repeat x \<le> 0 \<and> evt_slap x \<le> c)"
      using body IH [of c x "j + 1" y] by (auto simp: Let_def split: if_splits)
  qed
  then show "evt_catch_up cur e k = None"
    using \<open>evt_period e = 0\<close> assms by (cases "evt_catch_up cur e k") auto
qed

theorem endless_catch_up_witness:
  "(\<exists>e'. evt_catch_up 95 (demo_evt\<lparr>evt_repeat := 0\<rparr>) 0 = Some (False, 6, e') \<and> 95 < evt_slap e' \<and> unat (evt_slap e') \<le> 105) \<and>
   evt_catch_up 95 (demo_evt\<lparr>evt_repeat := 0, evt_period := 0\<rparr>) 0 = None"
  using endless_catch_up [of "demo_evt\<lparr>evt_repeat := 0\<rparr>" 95 0]
    endless_catch_up [of "demo_evt\<lparr>evt_repeat := 0, evt_period := 0\<rparr>" 95 0]
  by (simp add: demo_evt_def)

lemma node_destroy_bad: "nodes m n = Some x \<Longrightarrow> node_state x = ITIMER_NODE_STATE_BAD \<Longrightarrow> itimer_node_destroy n m = None"
  by (simp add: itimer_node_destroy_def assert_ok_def ITIMER_NODE_STATE_OK_def ITIMER_NODE_STATE_BAD_def)

lemma del_timer_state:
  assumes "wheel_inv (m_timer_mgr w)" "m_timer_evt_map w (of_int i) = Some n" "evts (m_timer_mgr w) n = Some e"
    and "nodes (m_timer_mgr w) n = Some x" "node_state x = ITIMER_NODE_STATE_OK"
  shows "\<exists>w'. del_timer i w = Some (0, w') \<and> wheel_inv (m_timer_mgr w') \<and> n \<notin> linked (m_timer_mgr w') \<and>
    m_timer_evt_map w' = m_timer_evt_map w \<and> (\<exists>y. nodes (m_timer_mgr w') n = Some y \<and> node_state y = ITIMER_NODE_STATE_BAD) \<and>
    (\<exists>e'. evts (m_timer_mgr w') n = Some e' \<and> \<not> evt_mgr e')"
proof -
  let ?m = "m_timer_mgr w"
  obtain d z e2 where d: "itimer_evt_stop n ?m = Some d" "wheel_inv d" "nodes d n = Some z"
    "node_state z = ITIMER_NODE_STATE_OK" "evts d n = Some e2"
  proof (cases "evt_mgr e")
    case True
    then show ?thesis using that evt_stop_ok [OF assms(1,3) True assms(4,5)] assms(5) by fastforce
  next
    case False
    then show ?thesis using that [of "set_evt n (e\<lparr>evt_running := False\<rparr>) ?m"] assms by (simp add: itimer_evt_stop_def)
  qed
  obtain r where "itimer_node_destroy n d = Some r" "wheel_inv r" "linked r = linked d - {n}"
    "nodes r = (nodes d)(n \<mapsto> \<lparr>expires = 0, node_state = ITIMER_NODE_STATE_BAD, has_callback = False, has_core = False\<rparr>)"
    using node_destroy_ok [OF d(2-4)] by blast
  then show ?thesis using assms(2) d(1,5) by (auto simp: del_timer_def itimer_evt_destroy_def)
qed

text \<open>
  A timer deleted once is still in the map of the timer manager, marked bad: deleting it again
  fails the assertion in \<^verbatim>\<open>itimer_node_destroy\<close>, and so does the destructor of the manager, which
  destroys the events of the whole map.
\<close>

theorem del_timer_twice:
  assumes "wheel_inv (m_timer_mgr w)" "m_timer_evt_map w (of_int i) = Some n" "evts (m_timer_mgr w) n = Some e"
    and "nodes (m_timer_mgr w) n = Some x" "node_state x = ITIMER_NODE_STATE_OK"
  shows "\<exists>w'. del_timer i w = Some (0, w') \<and> \<not> itimer_node_pending (m_timer_mgr w') n \<and>
    del_timer i w' = None \<and> CTimerWheelMgr_destroy [of_int i] w' = None"
proof -
  obtain w' y e' where w': "del_timer i w = Some (0, w')" "wheel_inv (m_timer_mgr w')" "n \<notin> linked (m_timer_mgr w')"
    "m_timer_evt_map w' (of_int i) = Some n" "nodes (m_timer_mgr w') n = Some y" "node_state y = ITIMER_NODE_STATE_BAD"
    "evts (m_timer_mgr w') n = Some e'" "\<not> evt_mgr e'"
    using del_timer_state [OF assms] assms(2) by auto
  let ?m = "m_timer_mgr w'" and ?k = "itimer_mgr_destroy (m_timer_mgr w')"
  have "nodes ?k n = Some y \<or> nodes ?k n = Some (y\<lparr>has_core := False\<rparr>)" "evts ?k n = Some e'"
    using w'(5,7) by (auto simp: itimer_mgr_destroy_def itimer_core_destroy_def)
  then have "itimer_node_destroy n ?k = None" using node_destroy_bad [of ?k n] w'(6) by auto
  moreover have "itimer_node_destroy n (set_evt n (e'\<lparr>evt_running := False\<rparr>) ?m) = None"
    using node_destroy_bad [of "set_evt n (e'\<lparr>evt_running := False\<rparr>) ?m" n] w'(5,6) by simp
  ultimately have "del_timer i w' = None" "CTimerWheelMgr_destroy [of_int i] w' = None"
    using w'(4,7,8) \<open>evts ?k n = Some e'\<close>
    by (simp_all add: del_timer_def itimer_evt_stop_def itimer_evt_destroy_def CTimerWheelMgr_destroy_def map_filter_def)
  then show ?thesis using w' pending_linked [OF w'(2)] by blast
qed

theorem del_timer_twice_witness:
  "\<exists>w'. del_timer 1 \<lparr>m_timer_mgr = demo_mgr, m_timer_evt_map = [1 \<mapsto> 3], m_last_timer_id = 1\<rparr> = Some (0, w') \<and>
    \<not> itimer_node_pending (m_timer_mgr w') 3 \<and> del_timer 1 w' = None \<and> CTimerWheelMgr_destroy [of_int 1] w' = None"
  by (rule del_timer_twice [where e = demo_evt and
      x = "\<lparr>expires = 4, node_state = ITIMER_NODE_STATE_OK, has_callback = True, has_core = True\<rparr>"])
    (simp_all add: demo_mgr_def wheel_inv_def links_def placed_def)

end
