(* ===== verification/Server.thy ===== *)
theory Server
  imports Restart Http Timer_Mgr
begin

text \<open>
  The broker as a whole: \<^verbatim>\<open>src/mqtt_server/tcp_server.cpp\<close>, the event loop of \<^verbatim>\<open>src/reactor/reactor.cpp\<close>, the
  handlers for signals (\<^verbatim>\<open>src/reactor/sig_handler.cpp\<close>) and for the periodic timer
  (\<^verbatim>\<open>src/mqtt_server/timer_handler.cpp\<close>), and the addresses of \<^verbatim>\<open>include/reactor/sock_address.hpp\<close>.

  The state of the server is the persistence object with the broker it saves, the timer wheel, and the class of
  every handler object, by which the virtual functions are resolved. The environment of the loop is a sequence of
  results of \<^verbatim>\<open>epoll_wait\<close>, each with the time of day; the iteration order of the message map when the database
  is written is \<open>s_order\<close>, the results of \<^verbatim>\<open>accept4\<close> are \<open>s_accepts\<close>.

  The locale \<open>any_frame\<close> extends the frame of the message handlers to whole inputs of arbitrary bytes. It is
  interpreted for the property that the loop has been told to end, which no handler takes back.
\<close>

subsection \<open>Signal and timer handlers\<close>

text \<open>\<open>mask_ok\<close> and \<open>sfd\<close> are the results of \<^verbatim>\<open>sigprocmask\<close> and \<^verbatim>\<open>signalfd\<close>. The handler's set is \<open>signal_set\<close>.\<close>

definition CSigHandler_open :: "bool \<Rightarrow> int \<Rightarrow> cstring \<Rightarrow> hid \<Rightarrow> broker \<Rightarrow> (int \<times> broker) option" where
  "CSigHandler_open mask_ok sfd peer h w =
     (if \<not> mask_ok then Some (-1, w)
      else do {
        _ \<leftarrow> m_handlers w h;
        let w = upd_handler h (m_sock_handle_update (\<lambda>_. sfd)) w;
        if sfd = -1 then Some (-1, w) else CEventHandler_open peer h w
      })"

text \<open>The signal number is the first member of the structure that is read.\<close>

definition CSigHandler_handle_input :: "int set \<Rightarrow> read_res \<Rightarrow> hid \<Rightarrow> broker \<Rightarrow> (int \<times> broker) option" where
  "CSigHandler_handle_input signal_set rd h w =
     do {
       hd \<leftarrow> m_handlers w h;
       case rd of
         Read_error e \<Rightarrow> Some (0, w\<lparr>w_errno := e\<rparr>)
       | Read bs \<Rightarrow>
           if bs \<noteq> [] \<and> int (le_val (take 4 bs)) \<in> signal_set \<and> m_reactor_ptr hd then Some (0, poller_stop w) else Some (0, w)
     }"

definition CTimerHandler_handle_input :: "u64 list \<Rightarrow> read_res \<Rightarrow> hid \<Rightarrow> persist_world \<Rightarrow> (int \<times> persist_world) option" where
  "CTimerHandler_handle_input ord rd h p =
     do {
       _ \<leftarrow> m_handlers (w_broker p) h;
       case rd of
         Read_error e \<Rightarrow> Some (0, p\<lparr>w_broker := (w_broker p)\<lparr>w_errno := e\<rparr>\<rparr>)
       | Read bs \<Rightarrow> if bs \<noteq> [] then do { (_, p) \<leftarrow> store ord False p; Some (0, p) } else Some (0, p)
     }"

text \<open>The address of a port on all interfaces; without a port the members of the object are not set.\<close>

definition CSockAddress_port :: "u16 \<Rightarrow> csock_address option" where
  "CSockAddress_port port = (if port = 0 then None else Some (cstr ''0.0.0.0'', port))"

text \<open>\<open>lfd\<close> is the listening socket, if it could be opened.\<close>

definition Acceptor_open :: "int option \<Rightarrow> cstring \<Rightarrow> hid \<Rightarrow> broker \<Rightarrow> (int \<times> broker) option" where
  "Acceptor_open lfd peer h w =
     (case lfd of
        None \<Rightarrow> Some (-1, w)
      | Some fd \<Rightarrow> CEventHandler_open peer h (upd_handler h (m_sock_handle_update (\<lambda>_. fd)) w))"

subsection \<open>The server\<close>

text \<open>
  \<open>s_server_address\<close> is the member \<^verbatim>\<open>m_server_address\<close>, \<open>s_timer\<close> the members \<^verbatim>\<open>m_start_second\<close> and \<^verbatim>\<open>m_interval_second\<close> of
  the timer handler, which are set when it is opened.
\<close>

datatype handler_class = MQTT_CONNECTION | ACCEPTOR | NOTIFY_FD | SIG_HANDLER | TIMER_HANDLER

record server =
  s_persist :: persist_world
  s_timers :: ctimer_wheel_mgr
  s_class :: "hid \<Rightarrow> handler_class"
  s_signal_set :: "int set"
  s_server_address :: "csock_address option"
  s_timer :: "(u32 \<times> u32) option"
  s_bridge :: int
  s_order :: "u64 list"
  s_accepts :: "nat \<Rightarrow> int \<times> cstring \<times> u32"
  s_accepted :: nat

abbreviation the_broker :: "server \<Rightarrow> broker" where
  "the_broker s \<equiv> w_broker (s_persist s)"

definition set_broker :: "broker \<Rightarrow> server \<Rightarrow> server" where
  "set_broker w s = s\<lparr>s_persist := (s_persist s)\<lparr>w_broker := w\<rparr>\<rparr>"

definition on_broker :: "(broker \<Rightarrow> (int \<times> broker) option) \<Rightarrow> server \<Rightarrow> (int \<times> server) option" where
  "on_broker f s = do { (r, w) \<leftarrow> f (the_broker s); Some (r, set_broker w s) }"

text \<open>\<open>tfd\<close> is the result of \<^verbatim>\<open>timerfd_create\<close>, \<open>set_ok\<close> tells for the two times whether \<^verbatim>\<open>timerfd_settime\<close> accepts them.\<close>

definition CTimerHandler_open :: "int \<Rightarrow> (u32 \<Rightarrow> u32 \<Rightarrow> bool) \<Rightarrow> cstring \<Rightarrow> u32 \<Rightarrow> u32 \<Rightarrow> hid \<Rightarrow> server \<Rightarrow> (int \<times> server) option" where
  "CTimerHandler_open tfd set_ok peer start_second interval_second h s =
     do {
       let s = s\<lparr>s_timer := Some (start_second, interval_second)\<rparr>;
       _ \<leftarrow> m_handlers (the_broker s) h;
       let s = set_broker (upd_handler h (m_sock_handle_update (\<lambda>_. tfd)) (the_broker s)) s;
       if tfd < 0 \<or> \<not> set_ok start_second interval_second then Some (-1, s) else on_broker (CEventHandler_open peer h) s
     }"

text \<open>The virtual functions. A connection that the acceptor creates is of class \<open>MQTT_CONNECTION\<close>.\<close>

definition class_handle_close :: "handler_class \<Rightarrow> hid \<Rightarrow> broker \<Rightarrow> (int \<times> broker) option" where
  "class_handle_close cls =
     (case cls of
        MQTT_CONNECTION \<Rightarrow> handle_close
      | NOTIFY_FD \<Rightarrow> CPollerNotifyFd_handle_close
      | _ \<Rightarrow> CEventHandler_handle_close)"

definition server_handle_input :: "read_res \<Rightarrow> hid \<Rightarrow> server \<Rightarrow> (int \<times> server) option" where
  "server_handle_input rd h s =
     (case s_class s h of
        MQTT_CONNECTION \<Rightarrow> on_broker (handle_input rd h) s
      | ACCEPTOR \<Rightarrow>
          (case s_accepts s (s_accepted s) of (fd, peer, mask0) \<Rightarrow>
             on_broker (Acceptor_handle_input fd peer mask0)
               (s\<lparr>s_accepted := Suc (s_accepted s), s_class := (s_class s)(w_next_hid (the_broker s) := MQTT_CONNECTION)\<rparr>))
      | NOTIFY_FD \<Rightarrow> on_broker (CPollerNotifyFd_handle_input (s_bridge s) rd h) s
      | SIG_HANDLER \<Rightarrow> on_broker (CSigHandler_handle_input (s_signal_set s) rd h) s
      | TIMER_HANDLER \<Rightarrow> do { (r, p) \<leftarrow> CTimerHandler_handle_input (s_order s) rd h (s_persist s); Some (r, s\<lparr>s_persist := p\<rparr>) })"

definition server_handle_output :: "hid \<Rightarrow> server \<Rightarrow> (int \<times> server) option" where
  "server_handle_output h s = on_broker (handle_output (class_handle_close (s_class s h)) h) s"

definition server_handle_close :: "hid \<Rightarrow> server \<Rightarrow> (int \<times> server) option" where
  "server_handle_close h s = on_broker (class_handle_close (s_class s h) h) s"

definition server_dispatch :: "poll_event \<Rightarrow> server \<Rightarrow> server option" where
  "server_dispatch = dispatch (\<lambda>s h. m_handlers (the_broker s) h \<noteq> None) server_handle_input server_handle_output server_handle_close"

definition server_poll :: "int + poll_event list \<Rightarrow> server \<Rightarrow> (bool \<times> server) option" where
  "server_poll = poller_run (\<lambda>s. m_running_flag (the_broker s)) (\<lambda>e s. set_broker ((the_broker s)\<lparr>w_errno := e\<rparr>) s) server_dispatch"

subsection \<open>The event loop\<close>

text \<open>The environment gives for every round the time and the result of \<^verbatim>\<open>epoll_wait\<close>.\<close>

type_synonym loop_env = "nat \<Rightarrow> int \<times> (int + poll_event list)"

definition set_now :: "int \<Rightarrow> server \<Rightarrow> server" where
  "set_now t s = set_broker ((the_broker s)\<lparr>w_now := t\<rparr>) s"

text \<open>One round, as the function \<^verbatim>\<open>run_event_loop_once\<close>, and the loop over the rounds.\<close>

definition run_event_loop_once :: "int \<times> (int + poll_event list) \<Rightarrow> server \<Rightarrow> (bool \<times> server) option" where
  "run_event_loop_once e s =
     do {
       (ok, s) \<leftarrow> server_poll (snd e) (set_now (fst e) s);
       if ok then do { (_, t) \<leftarrow> update_timer (of_int (fst e)) (s_timers s); Some (True, s\<lparr>s_timers := t\<rparr>) }
       else Some (False, s)
     }"

partial_function (option) run_event_loop :: "loop_env \<Rightarrow> nat \<Rightarrow> server \<Rightarrow> (bool \<times> server) option" where
  "run_event_loop env n s =
     do {
       (ok, s) \<leftarrow> run_event_loop_once (env n) s;
       if ok then run_event_loop env (Suc n) s else Some (True, s)
     }"

subsection \<open>TCPServer\<close>

text \<open>The handlers of the server: acceptor, signals, timer, notifier.\<close>

record server_handlers =
  m_acceptor :: hid
  m_sig_handler :: hid
  m_timer_handler :: hid
  m_notify_fd :: hid

definition TCPServer :: "u32 \<Rightarrow> persist_world \<Rightarrow> ctimer_wheel_mgr \<Rightarrow> int \<Rightarrow> u64 list \<Rightarrow> (nat \<Rightarrow> int \<times> cstring \<times> u32) \<Rightarrow> server_handlers \<times> server" where
  "TCPServer mask0 p timers bridge ord accepts =
     (let w = w_broker p; h = w_next_hid w; new = CEventHandler mask0 True (of_int (w_now w));
          hs = \<lparr>m_acceptor = h, m_sig_handler = h + 1, m_timer_handler = h + 2, m_notify_fd = h + 3\<rparr>;
          w = w\<lparr>m_handlers := (m_handlers w)(h \<mapsto> new, h + 1 \<mapsto> new, h + 2 \<mapsto> new, h + 3 \<mapsto> new), w_next_hid := h + 4\<rparr>
      in (hs, \<lparr>s_persist = p\<lparr>w_broker := w\<rparr>, s_timers = timers,
               s_class = (\<lambda>_. MQTT_CONNECTION)(h := ACCEPTOR, h + 1 := SIG_HANDLER, h + 2 := TIMER_HANDLER, h + 3 := NOTIFY_FD),
               s_signal_set = {}, s_server_address = CSockAddress_port 5050, s_timer = None, s_bridge = bridge, s_order = ord, s_accepts = accepts, s_accepted = 0\<rparr>))"

text \<open>What the system calls of \<^verbatim>\<open>open\<close> return: \<open>e_listen\<close> is the socket that listens at an address.\<close>

record open_env =
  e_listen :: "csock_address \<Rightarrow> int option"
  e_eventfd :: int
  e_mask_ok :: bool
  e_signalfd :: int
  e_timerfd :: int
  e_settime_ok :: "u32 \<Rightarrow> u32 \<Rightarrow> bool"
  e_peer :: cstring

definition SIGHUP :: int where "SIGHUP = 1"

definition SIGINT :: int where "SIGINT = 2"

definition SIGTERM :: int where "SIGTERM = 15"

text \<open>\<open>time_flush\<close> is the flush interval of the configuration.\<close>

definition TCPServer_open :: "open_env \<Rightarrow> csock_address \<Rightarrow> u32 \<Rightarrow> server_handlers \<Rightarrow> server \<Rightarrow> (int \<times> server) option" where
  "TCPServer_open e server_addr time_flush hs s =
     do {
       let s = s\<lparr>s_server_address := Some server_addr\<rparr>;
       (r, p) \<leftarrow> restore (s_persist s);
       let s = s\<lparr>s_persist := p\<rparr>;
       if r = -1 then Some (-1, s)
       else do {
         (r, s) \<leftarrow> on_broker (Acceptor_open (e_listen e server_addr) (e_peer e) (m_acceptor hs)) s;
         if r = -1 then Some (-1, s)
         else do {
           (r, s) \<leftarrow> on_broker (CPollerNotifyFd_open (e_eventfd e) (e_peer e) (m_notify_fd hs)) s;
           if r < 0 then Some (-1, s)
           else do {
             let s = s\<lparr>s_signal_set := {SIGINT, SIGTERM, SIGHUP}\<rparr>;
             (_, s) \<leftarrow> on_broker (CSigHandler_open (e_mask_ok e) (e_signalfd e) (e_peer e) (m_sig_handler hs)) s;
             (_, s) \<leftarrow> CTimerHandler_open (e_timerfd e) (e_settime_ok e) (e_peer e) time_flush time_flush (m_timer_handler hs) s;
             Some (0, s)
           }
         }
       }
     }"

definition TCPServer_loop :: "loop_env \<Rightarrow> server \<Rightarrow> (int \<times> server) option" where
  "TCPServer_loop env s =
     do {
       (_, s) \<leftarrow> run_event_loop env 0 s;
       (_, p) \<leftarrow> store (s_order s) True (s_persist s);
       Some (0, s\<lparr>s_persist := p\<rparr>)
     }"

text \<open>Opening sets the address and the timer, and keeps the names and values the server was made with.\<close>

definition same_db :: "persist_world \<Rightarrow> persist_world \<Rightarrow> bool" where
  "same_db p p' \<longleftrightarrow> m_file_name p' = m_file_name p \<and> cfg_max_idle_timeout p' = cfg_max_idle_timeout p"

lemma same_db_simps [simp]:
  "same_db p (p'\<lparr>w_broker := w\<rparr>) = same_db p p'" "same_db p (p'\<lparr>m_tmp_msg_db := t\<rparr>) = same_db p p'"
  "same_db p (p'\<lparr>w_chunk_buf := b\<rparr>) = same_db p p'" "same_db p (p'\<lparr>m_db_file := f\<rparr>) = same_db p p'" "same_db p p"
  by (simp_all add: same_db_def)

lemma restore_chunk_keeps: "same_db q p \<Longrightarrow> wp (restore_chunk ty len buf p) (\<lambda>(r, p'). same_db q p')"
  by (auto simp: restore_chunk_def restore_db_info_def restore_db_msg_def restore_client_info_def restore_retain_msg_def tmp_put_def Let_def split_def
      intro!: wpI [of "unpack b" for b] wpI [of "restore_mbuf b w" for b w] wpI [of "m_contexts w c" for w c] wpI [of "unpack_context b w" for b w]
        wpI [of "unpack_mem_store b w" for b w] wpI [of "regist_mem_store b c d e" for b c d e]
        wpI [of "restore_topics b c w" for b c w] wpI [of "release_buf b w" for b w] wpI [of "heap b w" for b w] wpI [of "restore_retains b w" for b w]
      split: mp_object.split option.split)

lemma restore_loop_keeps: "h = restore_chunk \<Longrightarrow> same_db q p \<Longrightarrow> wp (restore_loop h bs res p) (\<lambda>(r, p'). same_db q p')"
proof (induction h bs res p rule: restore_loop.induct)
  case (3 h tag chunk_type rest res p)
  let ?n = "le_val (take 4 rest)" let ?body = "take ?n (drop 4 rest)" let ?p = "p\<lparr>w_chunk_buf := ?body @ drop (length ?body) (w_chunk_buf p)\<rparr>"
  have "wp (restore_loop h (drop ?n (drop 4 rest)) r p') (\<lambda>(r, p'). same_db q p')"
    if "\<not> (tag \<noteq> 0xEE \<or> length rest < 4)" "\<not> ?n > 1048576" "\<not> length ?body \<noteq> ?n" "r \<noteq> -1" "h chunk_type ?n (w_chunk_buf ?p) ?p = Some (r, p')" for r p'
    using "3.IH" [OF that(1) refl refl that(2) refl that(3,5) refl that(4)] wpD [OF restore_chunk_keeps that(5) [unfolded "3.prems"(1)], of q] "3.prems" by simp
  then have "wp (h chunk_type ?n (w_chunk_buf ?p) ?p) (\<lambda>(r, p'). wp (if r = -1 then Some (r, p') else restore_loop h (drop ?n (drop 4 rest)) r p') (\<lambda>(r, p'). same_db q p'))"
    if "\<not> (tag \<noteq> 0xEE \<or> length rest < 4)" "\<not> ?n > 1048576" "\<not> length ?body \<noteq> ?n"
    using that "3.prems" restore_chunk_keeps [of q ?p] by (auto simp: wp_def)
  then show ?case using "3.prems"(2) by (auto simp: Let_def split_def cong: if_cong)
qed simp_all

lemma restore_keeps: "restore p = Some (r, p') \<Longrightarrow> same_db p p'"
  using restore_loop_keeps [OF refl, of p "p\<lparr>m_db_file := Some 0\<rparr>" _ 0]
  by (auto simp: restore_def restore_with_def open_rb_def tmp_clear_def Let_def bind_eq_Some_conv wp_def split: if_splits)

lemma on_broker_keeps:
  assumes "on_broker f s = Some (r, s')"
  shows "s_server_address s' = s_server_address s" "s_bridge s' = s_bridge s" "s_timer s' = s_timer s"
    "m_file_name (s_persist s') = m_file_name (s_persist s)" "cfg_max_idle_timeout (s_persist s') = cfg_max_idle_timeout (s_persist s)"
  using assms by (auto simp: on_broker_def set_broker_def bind_eq_Some_conv)

lemma timer_open_keeps:
  assumes "CTimerHandler_open tfd ok peer a b h s = Some (r, s')"
  shows "s_server_address s' = s_server_address s" "s_bridge s' = s_bridge s" "s_timer s' = Some (a, b)"
    "m_file_name (s_persist s') = m_file_name (s_persist s)" "cfg_max_idle_timeout (s_persist s') = cfg_max_idle_timeout (s_persist s)"
  using assms by (auto simp: CTimerHandler_open_def set_broker_def Let_def bind_eq_Some_conv dest: on_broker_keeps split: if_splits)

lemma TCPServer_open_values:
  assumes "TCPServer_open e addr flush hs s = Some (r, s')"
  shows "s_server_address s' = Some addr \<and> s_bridge s' = s_bridge s \<and> (r = 0 \<longrightarrow> s_timer s' = Some (flush, flush)) \<and>
    m_file_name (s_persist s') = m_file_name (s_persist s) \<and> cfg_max_idle_timeout (s_persist s') = cfg_max_idle_timeout (s_persist s)"
proof -
  let ?V = "\<lambda>s'. s_server_address s' = Some addr \<and> s_bridge s' = s_bridge s \<and>
    m_file_name (s_persist s') = m_file_name (s_persist s) \<and> cfg_max_idle_timeout (s_persist s') = cfg_max_idle_timeout (s_persist s)"
  have b: "wp (on_broker f u) Q" if "?V u" "\<And>r u'. ?V u' \<Longrightarrow> Q (r, u')" for f u Q
  proof (rule wpI)
    fix x assume "on_broker f u = Some x"
    then obtain r u' where "on_broker f u = Some (r, u')" "x = (r, u')" by (cases x) auto
    then show "Q x" using that on_broker_keeps [of f u r u'] by simp
  qed
  have t: "wp (CTimerHandler_open (e_timerfd e) (e_settime_ok e) (e_peer e) flush flush (m_timer_handler hs) u) Q"
    if "?V u" "\<And>r u'. ?V u' \<Longrightarrow> s_timer u' = Some (flush, flush) \<Longrightarrow> Q (r, u')" for u Q
  proof (rule wpI)
    fix x assume "CTimerHandler_open (e_timerfd e) (e_settime_ok e) (e_peer e) flush flush (m_timer_handler hs) u = Some x"
    moreover obtain r u' where "x = (r, u')" by (cases x)
    ultimately show "Q x" using that timer_open_keeps [of _ _ _ flush flush _ u r u'] by simp
  qed
  have "wp (TCPServer_open e addr flush hs s) (\<lambda>(r, s'). ?V s' \<and> (r = 0 \<longrightarrow> s_timer s' = Some (flush, flush)))"
    unfolding TCPServer_open_def
    by (auto simp: Let_def same_db_def intro!: b t wpI [of "restore p" for p] dest!: restore_keeps)
  then show ?thesis using assms by (auto simp: wp_def)
qed

subsection \<open>Properties that no input can break\<close>

locale any_frame = conn_frame J "\<lambda>_ _ _. True" "\<lambda>_ _. True" for J :: "broker \<Rightarrow> bool" +
  assumes J_patch_any: "J w \<Longrightarrow> wp (patch_msg_id h off len mo i w) J"
    and J_conn: "J w \<Longrightarrow> J (upd_conn h f w)"
begin

lemma patch_any:
  assumes J: "J w" and Q: "\<And>w'. J w' \<Longrightarrow> Q w'"
  shows "wp (patch_msg_id h off len mo i w) Q"
  using J_patch_any [OF J, of h off len mo i] Q by (auto simp: wp_def)

lemma publish_mbuf_any:
  assumes J: "J w" and Q: "\<And>r w'. J w' \<Longrightarrow> Q (r, w')"
  shows "wp (publish_mbuf h off len mo w) Q"
  using J by (auto simp: publish_mbuf_def Let_def split_def intro!: Q wp_rules mbuf_call_J J_ops J_make_mbuf patch_any)

lemma handle_publish_any:
  assumes J: "J w" and Q: "\<And>r w'. J w' \<Longrightarrow> Q (r, w')"
  shows "wp (handle_publish_msg h off len w) Q"
  using J by (auto simp: handle_publish_msg_def intro!: Q wp_rules client_context_J send_answer_J publish_mbuf_any publish_J)

lemma process_any:
  assumes J: "J w" and Q: "\<And>r w'. J w' \<Longrightarrow> Q (r, w')"
  shows "wp (process h off len w) Q"
  using J
  by (auto simp: process_def handle_pingreq_msg_def split: MqttType.split
      intro!: Q wp_rules handle_connect_msg_J handle_publish_any handle_puback_msg_J handle_subscribe_msg_J handle_unsubscribe_msg_J
        handle_disconnect_msg_J send_answer_J)

lemma process_loop_any:
  assumes "process_loop h off len w = Some y"
  shows "J w \<longrightarrow> J (snd y)"
proof (rule process_loop.raw_induct [where P = "\<lambda>h off len w y. J w \<longrightarrow> J (snd y)", OF _ assms], goal_cases)
  case (1 pl h off len w y)
  have pl: "wp (pl h off len w) Q" if "J w" "\<And>r w'. J w' \<Longrightarrow> Q (r, w')" for h off len w Q
    using 1(1) that by (fastforce simp: wp_def)
  show ?case
    by (rule impI, rule wpD [where Q = "\<lambda>y. J (snd y)", OF _ 1(2)])
      (auto simp: Let_def intro!: wp_rules wpI [of "remain_length b n" for b n] wpI [of "mem_copy b i v" for b i v] process_any pl J_conn)
qed

lemma handle_input_any:
  assumes J: "J w" and Q: "\<And>r w'. J w' \<Longrightarrow> Q (r, w')"
  shows "wp (handle_input rd h w) Q"
proof -
  have loop: "wp (process_loop h off len u) Q" if "J u" for off len u
    using process_loop_any [of h off len u] that Q by (auto simp: wp_def)
  show ?thesis
    using J by (auto simp: handle_input_def process_mqtt_def Let_def split: read_res.split option.split
        intro!: Q loop wp_rules wpI [of "mem_copy b i v" for b i v] J_conn J_updates J_ctx)
qed

lemma deal_msg_any:
  assumes J: "J w" and Q: "\<And>r w'. J w' \<Longrightarrow> Q (r, w')"
  shows "wp (deal_msg bridge a w) Q"
  using J by (auto simp: deal_msg_def intro!: Q wp_rules publish_J publish_all_J)

lemma close_any: "J w \<Longrightarrow> (\<And>r w'. J w' \<Longrightarrow> Q (r, w')) \<Longrightarrow> wp (handle_close h w) Q"
  by (rule hc_J)

end

text \<open>The loop has been told to end.\<close>

definition told_to_end :: "broker \<Rightarrow> bool" where
  "told_to_end w \<longleftrightarrow> \<not> m_running_flag w"

lemma told_simps [simp]:
  fixes w :: broker
  shows "told_to_end (w\<lparr>m_topic_mgr := tm\<rparr>) = told_to_end w" "told_to_end (w\<lparr>m_msg_stats := st\<rparr>) = told_to_end w"
    "told_to_end (w\<lparr>w_next_addr := na\<rparr>) = told_to_end w" "told_to_end (w\<lparr>m_contexts := cs\<rparr>) = told_to_end w"
    "told_to_end (w\<lparr>m_client_msg := cm\<rparr>) = told_to_end w" "told_to_end (w\<lparr>m_client_record := cr\<rparr>) = told_to_end w"
    "told_to_end (w\<lparr>m_conns := cn\<rparr>) = told_to_end w" "told_to_end (w\<lparr>w_next_ctx := nc\<rparr>) = told_to_end w"
    "told_to_end (w\<lparr>w_next_hid := nh\<rparr>) = told_to_end w" "told_to_end (w\<lparr>w_now := t\<rparr>) = told_to_end w"
    "told_to_end (w\<lparr>m_mem := mem\<rparr>) = told_to_end w" "told_to_end (w\<lparr>w_errno := e\<rparr>) = told_to_end w"
    "told_to_end (w\<lparr>m_epoll := ep\<rparr>) = told_to_end w" "told_to_end (w\<lparr>w_calls := n\<rparr>) = told_to_end w"
    "told_to_end (w\<lparr>w_sent := sn\<rparr>) = told_to_end w" "told_to_end (w\<lparr>m_handlers := hs\<rparr>) = told_to_end w"
    "told_to_end (w\<lparr>m_map_event_handlers := me\<rparr>) = told_to_end w" "told_to_end (w\<lparr>m_notify_deque := q\<rparr>) = told_to_end w"
    "told_to_end (w\<lparr>m_notify_writer := nw\<rparr>) = told_to_end w"
  by (cases w; simp add: told_to_end_def)+

lemma told_ops [simp]:
  "told_to_end (upd_handler h f w) = told_to_end w" "told_to_end (upd_ctx c g w) = told_to_end w" "told_to_end (upd_conn h k w) = told_to_end w"
  "told_to_end (del_topics ts c w) = told_to_end w" "told_to_end (poller_stop w)"
  by (simp_all add: upd_handler_def upd_ctx_def upd_conn_def poller_stop_def told_to_end_def [of "w\<lparr>m_running_flag := False\<rparr>"])
    (induction ts arbitrary: w; simp add: del_client_context_def set_topic_def split: option.split)

lemma handle_close_told: "told_to_end w \<Longrightarrow> wp (handle_close h w) (\<lambda>(r, w'). told_to_end w')"
  by (auto simp: handle_close_def CEventHandler_close_def del_event_def CSockBase_close_def epoll_ctl_def os_close_def Let_def
      del_client_id_def ctx_flush_def delete_conn_def delete_handler_def
      intro!: wp_rules wpI [of "c_client_context k" for k] split: option.split)

lemma client_context_told: "told_to_end w \<Longrightarrow> wp (client_context h w) (\<lambda>(c, w'). told_to_end w')"
  by (auto simp: client_context_def make_context_def Let_def intro!: wp_rules split: option.split)

lemma patch_told: "told_to_end w \<Longrightarrow> wp (patch_msg_id h off len mo i w) told_to_end"
  by (auto simp: patch_msg_id_def Let_def intro!: wp_rules wpI [of "mem_put b j v" for b j v])

lemma connect_context_told: "told_to_end w \<Longrightarrow> wp (connect_context h m w) told_to_end"
proof -
  have cc: "wp (client_context h u) Q" if "told_to_end u" "\<And>c u'. told_to_end u' \<Longrightarrow> Q (c, u')" for u Q
    using client_context_told [OF that(1), of h] that(2) by (auto simp: wp_def)
  have hc: "wp (handle_close old u) Q" if "told_to_end u" "\<And>r u'. told_to_end u' \<Longrightarrow> Q (r, u')" for old u Q
    using handle_close_told [OF that(1), of old] that(2) by (auto simp: wp_def)
  show "told_to_end w \<Longrightarrow> wp (connect_context h m w) told_to_end"
    by (auto simp: connect_context_def add_client_id_def Let_def intro!: wp_rules cc hc split: option.split)
qed

interpretation ending: any_frame told_to_end
  by unfold_locales (use handle_close_told client_context_told patch_told connect_context_told in auto)

subsection \<open>Once told, the loop ends\<close>

lemma notify_loop_told:
  assumes "notify_loop bridge w = Some y"
  shows "told_to_end w \<longrightarrow> told_to_end (snd y)"
proof (rule notify_loop.raw_induct [where P = "\<lambda>bridge w y. told_to_end w \<longrightarrow> told_to_end (snd y)", OF _ assms], goal_cases)
  case (1 nl bridge w y)
  have nl: "wp (nl bridge w) Q" if "told_to_end w" "\<And>r w'. told_to_end w' \<Longrightarrow> Q (r, w')" for bridge w Q
    using 1(1) that by (fastforce simp: wp_def)
  show ?case
    by (rule impI, rule wpD [where Q = "\<lambda>y. told_to_end (snd y)", OF _ 1(2)])
      (auto simp: pop_front_def intro!: ending.deal_msg_any nl split: list.split)
qed

text \<open>Writing to the file does not touch the broker; storing changes it by closing idle clients.\<close>

definition saves :: "(int \<times> persist_world) option \<Rightarrow> bool" where
  "saves m \<longleftrightarrow> wp m (\<lambda>(r, p). told_to_end (w_broker p))"

lemma error_return_saves: "saves m \<Longrightarrow> (\<And>p. told_to_end (w_broker p) \<Longrightarrow> saves (k p)) \<Longrightarrow> saves (error_return m k)"
  by (auto simp: saves_def error_return_def wp_def bind_eq_Some_conv split: if_splits)

lemma persist_write_saves: "told_to_end (w_broker p) \<Longrightarrow> saves (persist_write bs p)"
  by (auto simp: saves_def persist_write_def Let_def intro!: wpI [of "m_db_file p"])

lemma close_saves [simp]: "w_broker (persist_close p) = w_broker p"
  by (simp add: persist_close_def)

lemma saves_return [simp]: "saves (Some (r, p)) = told_to_end (w_broker p)" "saves None" "saves (m \<bind> f) = wp m (\<lambda>x. saves (f x))"
  by (simp_all add: saves_def)

lemma write_chunk_saves: "told_to_end (w_broker p) \<Longrightarrow> saves (write_chunk ty body p)"
  by (auto simp: write_chunk_def write_chunk_info_def Let_def intro!: error_return_saves persist_write_saves)

lemma store_msgs_saves: "told_to_end (w_broker p) \<Longrightarrow> saves (store_msgs as p)"
  by (induction as arbitrary: p) (auto intro!: wp_rules wpI [of "pack_mbuf b" for b] error_return_saves write_chunk_saves)

lemma store_clients_saves: "told_to_end (w_broker p) \<Longrightarrow> saves (store_clients cs p)"
proof (induction cs arbitrary: p)
  case (Cons e cs)
  obtain i c where e: "e = (i, c)" by (cases e)
  have idle: "wp (close_idle p c (w_broker p)) told_to_end"
    using Cons.prems by (auto simp: close_idle_def intro!: wp_rules wpI [of "m_last_msg_time k" for k] ending.close_any split: option.split)
  have "wp (prepare_store c w) told_to_end" if "told_to_end w" for w
    using that by (auto simp: prepare_store_def intro!: wp_rules wpI [of "queue_ids f q" for f q])
  then have prep: "wp (prepare_store c w) Q" if "told_to_end w" "\<And>w'. told_to_end w' \<Longrightarrow> Q w'" for w Q
    using that by (auto simp: wp_def)
  have "saves (store_clients ((i, c) # cs) p)"
    unfolding store_clients.simps saves_return
    using idle Cons.IH by (auto simp: wp_def [of "close_idle p c (w_broker p)"]
        intro!: wp_rules prep wpI [of "pack_context j x" for j x] error_return_saves write_chunk_saves)
  then show ?case by (simp only: e)
qed simp

lemma store_saves:
  assumes "told_to_end (w_broker p)"
  shows "saves (store ord force p)"
proof -
  have "saves (store_file ord q)" if "told_to_end (w_broker q)" for q
    using that by (auto simp: store_file_def open_wb_def store_db_info_def store_db_msg_def store_client_info_def store_retain_msg_def Let_def
        intro!: error_return_saves wp_rules store_msgs_saves store_clients_saves write_chunk_saves
          wpI [of "pack_mem_store x" for x] wpI [of "retained_bufs f x" for f x] wpI [of "pack_retained x" for x])
  then show ?thesis using assms by (simp add: store_def Let_def)
qed

text \<open>The virtual functions and the treatment of an event.\<close>

lemma class_handle_close_told: "told_to_end w \<Longrightarrow> wp (class_handle_close cls h w) (\<lambda>(r, w'). told_to_end w')"
  using handle_close_told
  by (auto simp: class_handle_close_def CEventHandler_handle_close_def CPollerNotifyFd_handle_close_def CEventHandler_close_def del_event_def
      CSockBase_close_def epoll_ctl_def os_close_def unregist_notify_def delete_handler_def Let_def intro!: wp_rules split: handler_class.split)

interpretation ending_class: broker_frame told_to_end "class_handle_close cls"
  by unfold_locales (use class_handle_close_told in auto)

lemma acceptor_told: "told_to_end w \<Longrightarrow> wp (Acceptor_handle_input fd peer mask0 w) (\<lambda>(r, w'). told_to_end w')"
  by (auto simp: Acceptor_handle_input_def sock_accept_def CEventHandler_open_def add_event_def epoll_ctl_def Let_def
      intro!: wp_rules split: option.split)

definition ends :: "(int \<times> server) option \<Rightarrow> bool" where
  "ends m \<longleftrightarrow> wp m (\<lambda>(r, s). told_to_end (the_broker s))"

lemma on_broker_ends: "wp (f (the_broker s)) (\<lambda>(r, w). told_to_end w) \<Longrightarrow> ends (on_broker f s)"
  by (auto simp: ends_def on_broker_def set_broker_def wp_def bind_eq_Some_conv)

lemma server_handlers_end:
  assumes "told_to_end (the_broker s)"
  shows "ends (server_handle_input rd h s)" "ends (server_handle_output h s)" "ends (server_handle_close h s)"
proof -
  have m: "wp (handle_input rd h (the_broker s)) (\<lambda>(r, w). told_to_end w)" by (rule ending.handle_input_any [OF assms]) simp
  have n: "wp (CPollerNotifyFd_handle_input b rd h (the_broker s)) (\<lambda>(r, w). told_to_end w)" for b
    using assms notify_loop_told [of b] by (fastforce simp: CPollerNotifyFd_handle_input_def intro!: wp_rules wpI [of "notify_loop b u" for b u] split: read_res.split)
  have g: "wp (CSigHandler_handle_input st rd h (the_broker s)) (\<lambda>(r, w). told_to_end w)" for st
    using assms by (auto simp: CSigHandler_handle_input_def intro!: wp_rules split: read_res.split)
  have t: "wp (CTimerHandler_handle_input ord rd h (s_persist s)) (\<lambda>(r, p). told_to_end (w_broker p))" for ord
    using assms store_saves [OF assms, of ord False] by (auto simp: CTimerHandler_handle_input_def saves_def wp_def bind_eq_Some_conv split: read_res.split)
  have a: "wp (Acceptor_handle_input fd peer mask0 (the_broker s)) (\<lambda>(r, w). told_to_end w)" for fd peer mask0
    by (rule acceptor_told [OF assms])
  show "ends (server_handle_input rd h s)"
  proof (cases "s_class s h")
    case TIMER_HANDLER
    then show ?thesis using t [of "s_order s"] by (auto simp: server_handle_input_def ends_def wp_def bind_eq_Some_conv)
  next
    case ACCEPTOR
    obtain fd peer mask0 where "s_accepts s (s_accepted s) = (fd, peer, mask0)" by (cases "s_accepts s (s_accepted s)")
    then show ?thesis using ACCEPTOR a by (auto simp: server_handle_input_def intro!: on_broker_ends)
  qed (use m n g in \<open>auto simp: server_handle_input_def intro!: on_broker_ends\<close>)
  show "ends (server_handle_output h s)" unfolding server_handle_output_def
    by (intro on_broker_ends ending_class.handle_output_J [OF assms]) simp
  show "ends (server_handle_close h s)" unfolding server_handle_close_def
    by (intro on_broker_ends class_handle_close_told [OF assms])
qed

lemma ends_wp: "ends m \<Longrightarrow> (\<And>r s. told_to_end (the_broker s) \<Longrightarrow> Q (r, s)) \<Longrightarrow> wp m Q"
  by (auto simp: ends_def wp_def)

lemma server_dispatch_ends:
  assumes "told_to_end (the_broker s)" "server_dispatch e s = Some s'"
  shows "told_to_end (the_broker s')"
proof -
  obtain event ptr rd where e: "e = (event, ptr, rd)" by (cases e)
  have "wp (server_dispatch e s) (\<lambda>s'. told_to_end (the_broker s'))"
    unfolding e using assms(1) by (auto simp: server_dispatch_def dispatch_def intro!: ends_wp [OF server_handlers_end(1)] ends_wp [OF server_handlers_end(2)]
        ends_wp [OF server_handlers_end(3)] split: option.split)
  then show ?thesis using assms(2) by (rule wpD)
qed

lemma poll_events_end: "told_to_end (the_broker s) \<Longrightarrow> poll_events server_dispatch es s = Some s' \<Longrightarrow> told_to_end (the_broker s')"
  by (induction es arbitrary: s) (auto simp: bind_eq_Some_conv dest: server_dispatch_ends)

lemma poll_events_append: "poll_events step (xs @ ys) s = do { s \<leftarrow> poll_events step xs s; poll_events step ys s }"
proof (induction xs arbitrary: s)
  case (Cons x xs)
  then show ?case by (cases "step x s") auto
qed simp

lemma set_now_flag: "m_running_flag (the_broker (set_now t s)) = m_running_flag (the_broker s)"
  by (cases "the_broker s") (simp add: set_now_def set_broker_def)

lemma signal_dispatch:
  assumes "s_class s sg = SIG_HANDLER" "m_handlers (the_broker s) sg = Some x" "m_reactor_ptr x" "si \<noteq> []"
    and "int (le_val (take 4 si)) \<in> s_signal_set s"
  shows "server_dispatch (EPOLLIN, Some sg, Read si) s = Some (set_broker (poller_stop (the_broker s)) s)"
  using assms by (simp add: server_dispatch_def dispatch_def event_defs server_handle_input_def on_broker_def CSigHandler_handle_input_def)

subsection \<open>Properties\<close>

text \<open>
  C4. The broker stops and saves when it is told to: when SIGINT, SIGTERM or SIGHUP is read from the signal descriptor
  in a round of the event loop, then, if the events before and after it in this round are handled without a fault,
  the loop ends with the next round whatever the environment does later, and \<^verbatim>\<open>TCPServer::loop\<close> returns 0 with the
  sessions in the database file, as far as the disk has room.
\<close>

theorem signal_stops_and_saves:
  assumes "m_running_flag (the_broker s)" "env 0 = (t, Inr (pre @ (EPOLLIN, Some sg, Read si) # post))"
    and "poll_events server_dispatch pre (set_now t s) = Some s1"
    and "s_class s1 sg = SIG_HANDLER" "m_handlers (the_broker s1) sg = Some x" "m_reactor_ptr x" "si \<noteq> []" "int (le_val (take 4 si)) \<in> s_signal_set s1"
    and "poll_events server_dispatch post (set_broker (poller_stop (the_broker s1)) s1) = Some s2"
    and "mgr_inv (m_timer_mgr (s_timers s2))" "evt_inv tmax (m_timer_mgr (s_timers s2))" "unat (interval (m_timer_mgr (s_timers s2))) < 1000000"
    and "unat (current (m_timer_mgr (s_timers s2))) + 300000 + 65 * unat (interval (m_timer_mgr (s_timers s2))) \<le> unat tmax"
    and "storable (s_order s2) (s_persist (set_now (fst (env 1)) s2))" "w_fopen_ok (s_persist s2)"
  shows "\<exists>s'. TCPServer_loop env s = Some (0, s') \<and> w_files (s_persist s') (m_file_name (s_persist s2)) =
    Some (take (w_room (s_persist s2)) (db_image (snapshot (s_order s2) (the_broker (set_now (fst (env 1)) s2)))))"
proof -
  let ?b = "pre @ (EPOLLIN, Some sg, Read si) # post"
  have "poll_events server_dispatch ?b (set_now t s) = Some s2"
    using assms(3,9) signal_dispatch [OF assms(4-8)] by (simp add: poll_events_append)
  moreover obtain d where "itimer_mgr_run (of_int t * 1000) (m_timer_mgr (s_timers s2)) = Some d"
    using mgr_run_total [OF assms(10-13), of "of_int t * 1000"] by blast
  moreover define s3 where "s3 = s2\<lparr>s_timers := (s_timers s2)\<lparr>m_timer_mgr := d\<rparr>\<rparr>"
  moreover have "m_running_flag (the_broker (set_now t s))" using assms(1) by (simp add: set_now_flag)
  ultimately have r1: "run_event_loop_once (env 0) s = Some (True, s3)"
    using assms(2) by (simp add: run_event_loop_once_def server_poll_def poller_run_def update_timer_def)
  have "told_to_end (the_broker s2)" by (rule poll_events_end [OF _ assms(9)]) (simp add: set_broker_def)
  then have "\<not> m_running_flag (the_broker (set_now (fst (env 1)) s3))"
    by (simp add: told_to_end_def set_now_flag s3_def)
  then have "run_event_loop_once (env 1) s3 = Some (False, set_now (fst (env 1)) s3)"
    by (simp add: run_event_loop_once_def server_poll_def poller_run_def)
  then have loop: "run_event_loop env 0 s = Some (True, set_now (fst (env 1)) s3)"
    by (subst run_event_loop.simps, subst run_event_loop.simps) (simp add: r1)
  have p: "s_persist (set_now u s3) = s_persist (set_now u s2)" "s_order (set_now u s3) = s_order s2"
    "w_fopen_ok (s_persist (set_now u s2)) = w_fopen_ok (s_persist s2)" "w_room (s_persist (set_now u s2)) = w_room (s_persist s2)"
    "m_file_name (s_persist (set_now u s2)) = m_file_name (s_persist s2)" for u
    by (simp_all add: s3_def set_now_def set_broker_def)
  show ?thesis
    using store_forced [OF assms(14)] assms(15) loop by (auto simp: TCPServer_loop_def p)
qed

text \<open>A server with one stored session, which receives SIGTERM in its first round.\<close>

definition demo_server :: server where
  "demo_server =
     \<lparr>s_persist = demo_persist\<lparr>w_broker := demo_broker\<lparr>m_handlers := [9 \<mapsto> CEventHandler 2 True 0]\<rparr>\<rparr>, s_timers = CTimerWheelMgr 400,
      s_class = (\<lambda>_. SIG_HANDLER), s_signal_set = {SIGINT, SIGTERM, SIGHUP}, s_server_address = CSockAddress_port 5050,
      s_timer = Some (60, 60), s_bridge = 0, s_order = [7], s_accepts = (\<lambda>_. (-1, [], 0)), s_accepted = 0\<rparr>"

lemma storable_demo_server: "storable [7] (s_persist (set_now t (set_broker (poller_stop (the_broker s)) s))) = storable [7] demo_persist"
  if "s = set_now u demo_server"
proof -
  let ?p = "s_persist (set_now t (set_broker (poller_stop (the_broker s)) s))" and ?w = "the_broker (set_now t (set_broker (poller_stop (the_broker s)) s))"
  have w: "heap ?w = heap demo_broker" "m_mem ?w = m_mem demo_broker" "m_contexts ?w = m_contexts demo_broker" "m_client_msg ?w = m_client_msg demo_broker"
      "m_topic_mgr ?w = m_topic_mgr demo_broker" "w_junk ?w = w_junk demo_broker" "w_broker demo_persist = demo_broker"
    by (simp_all add: that set_now_def set_broker_def poller_stop_def demo_server_def heap_def demo_persist_def CPersist_def demo_broker_def two_subscribers_def)
  have sc: "stored_context ?w = stored_context demo_broker" by (simp add: stored_context_def fun_eq_iff w)
  have sn: "snapshot [7] ?w = snapshot [7] demo_broker"
    by (simp add: snapshot_def saved_msgs_def saved_client_def [abs_def] saved_retained_def persistent_def [abs_def] w sc)
  have "storable_client ?p ?w (i, 0) = storable_client demo_persist demo_broker (i, 0)" for i
    by (simp add: storable_client_def w sc not_idle_def demo_parts demo_context_def CTMqttClientContext_def)
  then show ?thesis by (simp add: storable_def Let_def w sn demo_parts)
qed

theorem signal_stops_and_saves_witness:
  "\<exists>s'. TCPServer_loop (\<lambda>_. (1, Inr [(EPOLLIN, Some 9, Read (le_bytes 4 15))])) demo_server = Some (0, s') \<and>
     w_files (s_persist s') (cstr ''db'') \<noteq> None"
proof -
  let ?env = "(\<lambda>_. (1, Inr ([] @ (EPOLLIN, Some 9, Read (le_bytes 4 15)) # []))) :: loop_env"
  let ?s1 = "set_now 1 demo_server"
  let ?s2 = "set_broker (poller_stop (the_broker ?s1)) ?s1"
  have t: "m_timer_mgr (s_timers ?s2) = itimer_mgr_init 400000 1"
    by (simp add: demo_server_def set_now_def set_broker_def CTimerWheelMgr_def)
  have c: "current (itimer_mgr_init 400000 1) = 400000" "interval (itimer_mgr_init 400000 1) = 1"
    by (simp_all add: itimer_mgr_init_def itimer_core_init_def)
  have i: "mgr_inv (itimer_mgr_init 400000 1)" "evt_inv 0x7FFFFFFF (itimer_mgr_init 400000 1)"
    using mgr_init_inv [of 1 400000] by (auto simp: evt_inv_def itimer_mgr_init_def itimer_core_init_def linked_def word_le_nat_alt)
  have d: "m_running_flag (the_broker demo_server)" "s_class ?s1 9 = SIG_HANDLER" "m_handlers (the_broker ?s1) 9 = Some (CEventHandler 2 True 0)"
    "s_signal_set ?s1 = {SIGINT, SIGTERM, SIGHUP}" "s_order ?s2 = [7]" "m_file_name (s_persist ?s2) = cstr ''db''" "w_fopen_ok (s_persist ?s2)"
    by (simp_all add: demo_server_def set_now_def set_broker_def demo_broker_def two_subscribers_def demo_persist_def CPersist_def)
  have v: "le_val (le_bytes 4 15) = 15" "length (le_bytes 4 15) = 4" by (simp_all add: le_val_le_bytes)
  have st: "storable (s_order ?s2) (s_persist (set_now (fst (?env 1)) ?s2))"
    using storable_demo_server [OF refl, of 1 1] demo_storable(1) by (simp add: d(5))
  have "\<exists>s'. TCPServer_loop ?env demo_server = Some (0, s') \<and> w_files (s_persist s') (m_file_name (s_persist ?s2)) =
      Some (take (w_room (s_persist ?s2)) (db_image (snapshot (s_order ?s2) (the_broker (set_now (fst (?env 1)) ?s2)))))"
  proof (rule signal_stops_and_saves [of demo_server ?env 1 "[]" 9 "le_bytes 4 15" "[]" ?s1 "CEventHandler 2 True 0" ?s2 "0x7FFFFFFF"])
    show "m_reactor_ptr (CEventHandler 2 True 0)" by (simp add: CEventHandler_def)
    show "le_bytes 4 15 \<noteq> []" using v(2) by (metis list.size(3) zero_neq_numeral)
    show "int (le_val (take 4 (le_bytes 4 15))) \<in> s_signal_set ?s1" using v by (simp add: d(4) SIGTERM_def)
    show "mgr_inv (m_timer_mgr (s_timers ?s2))" "evt_inv 0x7FFFFFFF (m_timer_mgr (s_timers ?s2))" using i by (simp_all only: t)
    show "unat (interval (m_timer_mgr (s_timers ?s2))) < 1000000"
      "unat (current (m_timer_mgr (s_timers ?s2))) + 300000 + 65 * unat (interval (m_timer_mgr (s_timers ?s2))) \<le> unat (0x7FFFFFFF :: u32)"
      by (simp_all add: t c)
  qed (rule refl d(1-3,7) st | simp)+
  then show ?thesis by (force simp: d(6))
qed

end
