(* ===== verification/Http_Server.thy ===== *)
theory Http_Server
  imports Server
begin

text \<open>
  The thread of the HTTP server: \<^verbatim>\<open>src/http_server/http_server.cpp\<close> and \<^verbatim>\<open>HttpAcceptor::open\<close>. It has a reactor of its own,
  whose handlers are the acceptor and the connections; they hand messages to the broker, which is the second
  component of the state. The listening socket is a function of the address, the constructor's port on all interfaces. The
  environment gives for every round of \<^verbatim>\<open>svc\<close> the value of \<^verbatim>\<open>m_running_flag\<close>, which another
  thread clears, the time, and the result of \<^verbatim>\<open>epoll_wait\<close>.
\<close>

record http_server =
  hs_http :: http_world
  hs_broker :: broker
  hs_timers :: ctimer_wheel_mgr
  hs_acceptor :: hid
  hs_server_address :: "csock_address option"
  hs_accepts :: "nat \<Rightarrow> int \<times> cstring \<times> cstring \<times> u32"
  hs_accepted :: nat

subsection \<open>Opening\<close>

definition HttpServer :: "u16 \<Rightarrow> u32 \<Rightarrow> (nat \<Rightarrow> int \<times> cstring \<times> cstring \<times> u32) \<Rightarrow> ctimer_wheel_mgr \<Rightarrow> http_world \<Rightarrow> broker \<Rightarrow> http_server" where
  "HttpServer port mask0 accepts timers hw w =
     (let h = h_next_hid hw
      in \<lparr>hs_http = hw\<lparr>m_handlers := (m_handlers hw)(h \<mapsto> CEventHandler mask0 True (of_int (h_now hw))), h_next_hid := Suc h\<rparr>, hs_broker = w,
          hs_timers = timers, hs_acceptor = h, hs_server_address = CSockAddress_port port, hs_accepts = accepts, hs_accepted = 0\<rparr>)"

text \<open>\<open>lfd\<close> is the listening socket, or \<^const>\<open>None\<close> if it cannot be opened.\<close>

definition HttpAcceptor_open :: "int option \<Rightarrow> cstring \<Rightarrow> hid \<Rightarrow> http_world \<Rightarrow> (int \<times> http_world) option" where
  "HttpAcceptor_open lfd peer h hw =
     (case lfd of
        None \<Rightarrow> Some (-1, hw)
      | Some fd \<Rightarrow> CEventHandler_open peer h (upd_handler h (m_sock_handle_update (\<lambda>_. fd)) hw))"

text \<open>\<open>listen\<close> gives the socket that listens at an address. To listen at an address that is not set is undefined.\<close>

definition HttpServer_open :: "(csock_address \<Rightarrow> int option) \<Rightarrow> cstring \<Rightarrow> http_server \<Rightarrow> (int \<times> http_server) option" where
  "HttpServer_open listen peer s =
     do {
       server_addr \<leftarrow> hs_server_address s;
       (r, hw) \<leftarrow> HttpAcceptor_open (listen server_addr) peer (hs_acceptor s) (hs_http s);
       Some (if r = -1 then -1 else 0, s\<lparr>hs_http := hw\<rparr>)
     }"

subsection \<open>The event loop\<close>

definition http_input :: "read_res \<Rightarrow> hid \<Rightarrow> http_server \<Rightarrow> (int \<times> http_server) option" where
  "http_input rd h s =
     (if h = hs_acceptor s then
        case hs_accepts s (hs_accepted s) of (fd, peer, date, mask0) \<Rightarrow> do {
          (r, hw) \<leftarrow> HttpAcceptor_handle_input fd peer date mask0 True (hs_http s);
          Some (r, s\<lparr>hs_http := hw, hs_accepted := Suc (hs_accepted s)\<rparr>)
        }
      else do {
        (r, hw, w) \<leftarrow> http_handle_input rd h (hs_http s) (hs_broker s);
        Some (r, s\<lparr>hs_http := hw, hs_broker := w\<rparr>)
      })"

text \<open>A connection has the \<^verbatim>\<open>handle_close\<close> and the \<^verbatim>\<open>handle_output\<close> of the base class.\<close>

definition http_close :: "hid \<Rightarrow> http_world \<Rightarrow> (int \<times> http_world) option" where
  "http_close h hw = do { (r, hw) \<leftarrow> CEventHandler_handle_close h hw; Some (r, hw\<lparr>m_http_conns := (m_http_conns hw)(h := None)\<rparr>) }"

definition on_http :: "(http_world \<Rightarrow> (int \<times> http_world) option) \<Rightarrow> http_server \<Rightarrow> (int \<times> http_server) option" where
  "on_http f s = do { (r, hw) \<leftarrow> f (hs_http s); Some (r, s\<lparr>hs_http := hw\<rparr>) }"

definition http_dispatch :: "poll_event \<Rightarrow> http_server \<Rightarrow> http_server option" where
  "http_dispatch = dispatch (\<lambda>s h. m_handlers (hs_http s) h \<noteq> None) http_input (\<lambda>h. on_http (handle_output http_close h)) (\<lambda>h. on_http (http_close h))"

definition http_poll :: "int + poll_event list \<Rightarrow> http_server \<Rightarrow> (bool \<times> http_server) option" where
  "http_poll = poller_run (\<lambda>s. m_running_flag (hs_http s)) (\<lambda>e s. s\<lparr>hs_http := (hs_http s)\<lparr>w_errno := e\<rparr>\<rparr>) http_dispatch"

definition http_loop_once :: "int \<times> (int + poll_event list) \<Rightarrow> http_server \<Rightarrow> (bool \<times> http_server) option" where
  "http_loop_once e s =
     do {
       (ok, s) \<leftarrow> http_poll (snd e) (s\<lparr>hs_http := (hs_http s)\<lparr>h_now := fst e\<rparr>\<rparr>);
       if ok then do { (_, t) \<leftarrow> update_timer (of_int (fst e)) (hs_timers s); Some (True, s\<lparr>hs_timers := t\<rparr>) }
       else Some (False, s)
     }"

partial_function (option) HttpServer_svc :: "(nat \<Rightarrow> bool \<times> int \<times> (int + poll_event list)) \<Rightarrow> nat \<Rightarrow> http_server \<Rightarrow> http_server option" where
  "HttpServer_svc env n s =
     (if \<not> fst (env n) then Some s
      else do {
        (_, s) \<leftarrow> http_loop_once (snd (env n)) s;
        HttpServer_svc env (Suc n) s
      })"

subsection \<open>Properties\<close>

lemma http_accepted:
  assumes "0 < fd" "m_epoll hw fd = None" "map_of (m_map_event_handlers hw) fd = None" "\<forall>i. \<exists>k\<ge>n. w_writes hw i = Wrote k"
  shows "\<exists>hw'. HttpAcceptor_handle_input fd peer date mask0 nr hw = Some (0, hw') \<and> m_http_conns hw' (h_next_hid hw) = Some (HttpConnection (h_junk hw) date nr) \<and>
    answers_whole (h_next_hid hw) n hw' \<and> w_sent hw' = w_sent hw \<and> m_running_flag hw' = m_running_flag hw"
proof -
  let ?h = "h_next_hid hw"
  let ?hw1 = "hw\<lparr>m_handlers := (m_handlers hw)(?h \<mapsto> CEventHandler mask0 True (of_int (h_now hw))),
      m_http_conns := (m_http_conns hw)(?h \<mapsto> HttpConnection (h_junk hw) date nr), h_next_hid := Suc ?h\<rparr>"
  obtain hw' where hw': "CEventHandler_open peer ?h (upd_handler ?h (m_sock_handle_update (\<lambda>_. fd)) ?hw1) = Some (0, hw')"
      "m_http_conns hw' = m_http_conns ?hw1" "w_sent hw' = w_sent hw" "w_writes hw' = w_writes hw" "m_running_flag hw' = m_running_flag hw"
      "\<exists>x. m_handlers hw' ?h = Some x \<and> m_sock_handle x = fd"
    using assms(1-3) by (cases hw) (auto simp: CEventHandler_open_def add_event_def epoll_ctl_def CEventHandler_def upd_handler_def Let_def)
  have "HttpAcceptor_handle_input fd peer date mask0 nr hw = Some (0, hw')"
    using hw'(1) assms(1) by (simp add: HttpAcceptor_handle_input_def Let_def)
  then show ?thesis using hw'(2-6) assms(1,4) by (auto simp: answers_whole_def)
qed

lemma http_poll_one:
  assumes "m_running_flag (hs_http s)" "m_handlers (hs_http s) h \<noteq> None" "http_input rd h s = Some (0, s')"
  shows "http_poll (Inr [(EPOLLIN, Some h, rd)]) s = Some (True, s')"
  using assms by (simp add: http_poll_def poller_run_def http_dispatch_def dispatch_def event_defs)

text \<open>
  C1. The HTTP thread serves a client from its connection on. The broker has it in the bridge modes from 1 on, and
  so is the mode here. When the listening socket is ready, the round of the event loop creates a connection for the new
  socket; when its request for \<^verbatim>\<open>/publish\<close> arrives, the next round answers it with status 200, and then the broker's
  thread sends the message as a publish packet of quality 1 with the next message id to every client on line, whatever its
  topics: a copy for each of the broker's topics that the client has subscribed, and nothing to the others.

  The request has the parameters \<^verbatim>\<open>client\<close>, \<^verbatim>\<open>topic\<close> and \<^verbatim>\<open>msg\<close> and not \<^verbatim>\<open>qos\<close>, and arrives in one segment of less than 4096 bytes;
  topic and message are below 4096 bytes too. The answer and the copies are taken by the kernel as a whole, no message is
  waiting for the broker, and the clients of all topics can be served.
\<close>

theorem http_server_serves:
  assumes "m_running_flag (hs_http s)" "m_handlers (hs_http s) (hs_acceptor s) \<noteq> None" "hs_acceptor s \<noteq> h" "h_next_hid (hs_http s) = h"
    and "hs_accepts s (hs_accepted s) = (fd, peer, date, mask0)" "0 < fd" "m_epoll (hs_http s) fd = None"
    and "map_of (m_map_event_handlers (hs_http s)) fd = None" "\<forall>i. \<exists>k\<ge>4096. w_writes (hs_http s) i = Wrote k" "length date \<le> 99"
    and "plain_params ps" "plain version" "map_of (rev ps) (cstr ''client'') \<noteq> None" "map_of (rev ps) (cstr ''topic'') = Some t"
    and "map_of (rev ps) (cstr ''msg'') = Some m" "map_of (rev ps) (cstr ''qos'') = None" "length t + length m < 4096"
    and "length (get_line publish_path ps version @ [13, 10] @ rest) < 4096"
    and "notifier n (hs_broker s)" "m_notify_deque (hs_broker s) = []" "\<not> blocking (w_errno (hs_broker s))"
    and "\<forall>j. \<exists>k\<ge>length t + length m + 8. w_writes (hs_broker s) j = Wrote k"
    and "1 \<le> bridge" "\<forall>u\<in>fst ` set (m_topic_mgr (hs_broker s)). served (hs_broker s) (clients_of (hs_broker s) u)"
  shows "\<exists>s1 s2 w2. http_poll (Inr [(EPOLLIN, Some (hs_acceptor s), rd)]) s = Some (True, s1) \<and>
    http_poll (Inr [(EPOLLIN, Some h, Read (get_line publish_path ps version @ [13, 10] @ rest))]) s1 = Some (True, s2) \<and>
    w_sent (hs_http s2) h = w_sent (hs_http s) h @ http_answer (res_append succeed_text ((HTTPResponse date)\<lparr>res_type := cstr ''text/json''\<rparr>)) \<and>
    CPollerNotifyFd_handle_input bridge (Read ev) n (hs_broker s2) = Some (0, w2) \<and> m_notify_deque w2 = [] \<and>
    (\<forall>c. c \<noteq> n \<longrightarrow> w_sent w2 c = w_sent (hs_broker s) c @
      concat (replicate (length (filter (listens (hs_broker s) c) (map fst (m_topic_mgr (hs_broker s)))))
        (frame 0x32 (publish_body t (ucast ((m_last_msg_id (w_store (m_mem (hs_broker s))) + 1) AND 0xFFFF)) m))))"
proof -
  let ?bs = "get_line publish_path ps version @ [13, 10] @ rest" and ?w = "hs_broker s"
  obtain hw1 where 1: "HttpAcceptor_handle_input fd peer date mask0 True (hs_http s) = Some (0, hw1)"
      "m_http_conns hw1 h = Some (HttpConnection (h_junk (hs_http s)) date True)" "answers_whole h 4096 hw1" "w_sent hw1 = w_sent (hs_http s)"
      "m_running_flag hw1"
    using http_accepted [OF assms(6-9), of peer date mask0 True] assms(1,4) by auto
  define s1 where "s1 = s\<lparr>hs_http := hw1, hs_accepted := Suc (hs_accepted s)\<rparr>"
  have a: "http_poll (Inr [(EPOLLIN, Some (hs_acceptor s), rd)]) s = Some (True, s1)"
    using http_poll_one [OF assms(1,2)] 1(1) assms(5) by (simp add: http_input_def s1_def)
  have everyone: "reaches bridge ?w t" using assms(23,24) by (auto simp: reaches_def audience_def)
  obtain hw2 w1 w2 where 2: "http_handle_input (Read ?bs) h hw1 ?w = Some (0, hw2, w1)"
      "w_sent hw2 h = w_sent hw1 h @ http_answer (res_append succeed_text ((HTTPResponse date)\<lparr>res_type := cstr ''text/json''\<rparr>))"
      "CPollerNotifyFd_handle_input bridge (Read ev) n w1 = Some (0, w2)" "m_notify_deque w2 = []"
      "\<forall>c. c \<noteq> n \<longrightarrow> w_sent w2 c = w_sent ?w c @
        concat (replicate (copies bridge ?w c t) (frame 0x32 (publish_body t (ucast ((m_last_msg_id (w_store (m_mem ?w)) + 1) AND 0xFFFF)) m)))"
    using http_get_delivered [OF assms(11-17) 1(2) assms(10) 1(3) refl assms(18-22) everyone, of ev] by blast
  have copies: "copies bridge ?w c t = length (filter (listens ?w c) (map fst (m_topic_mgr ?w)))" for c
    using assms(23) by (simp add: copies_def audience_def)
  have "m_handlers (hs_http s1) h \<noteq> None" "http_input (Read ?bs) h s1 = Some (0, s1\<lparr>hs_http := hw2, hs_broker := w1\<rparr>)"
    using 1(3) 2(1) assms(3) by (auto simp: http_input_def s1_def answers_whole_def)
  then have b: "http_poll (Inr [(EPOLLIN, Some h, Read ?bs)]) s1 = Some (True, s1\<lparr>hs_http := hw2, hs_broker := w1\<rparr>)"
    using http_poll_one [of s1 h "Read ?bs"] 1(5) by (simp add: s1_def)
  show ?thesis
    using a b 2 [unfolded copies] 1(4) by (intro exI [of _ s1] exI [of _ "s1\<lparr>hs_http := hw2, hs_broker := w1\<rparr>"] exI [of _ w2]) simp
qed

text \<open>A server that has just been opened.\<close>

definition fresh_http :: http_world where
  "fresh_http = demo_http\<lparr>m_handlers := Map.empty, m_map_event_handlers := [], m_epoll := Map.empty, m_http_conns := Map.empty\<rparr>"

definition demo_http_server :: http_server where
  "demo_http_server = HttpServer 8080 2 (\<lambda>_. (11, [], [], 2)) (CTimerWheelMgr 400) fresh_http notified_broker"

lemma demo_http_server_opens:
  "\<exists>s. HttpServer_open (\<lambda>_. Some 10) [] demo_http_server = Some (0, s) \<and> m_running_flag (hs_http s) \<and> hs_acceptor s = 4 \<and>
     m_handlers (hs_http s) 4 \<noteq> None \<and> h_next_hid (hs_http s) = 5 \<and> hs_accepts s (hs_accepted s) = (11, [], [], 2) \<and> m_epoll (hs_http s) 11 = None \<and>
     map_of (m_map_event_handlers (hs_http s)) 11 = None \<and> w_writes (hs_http s) = (\<lambda>_. Wrote 8192) \<and> hs_broker s = notified_broker"
  by (simp add: HttpServer_open_def HttpAcceptor_open_def CSockAddress_port_def demo_http_server_def HttpServer_def fresh_http_def demo_http_def CEventHandler_open_def
        CEventHandler_def upd_handler_def add_event_def epoll_ctl_def Let_def)

theorem http_server_serves_witness:
  "\<exists>s s1 s2 w2. HttpServer_open (\<lambda>_. Some 10) [] demo_http_server = Some (0, s) \<and>
     http_poll (Inr [(EPOLLIN, Some 4, Read [])]) s = Some (True, s1) \<and>
     http_poll (Inr [(EPOLLIN, Some 5, Read (get_line publish_path demo_params (cstr ''HTTP/1.1'') @ [13, 10] @ cstr ''Host: a'' @ [13, 10, 13, 10]))]) s1 = Some (True, s2) \<and>
     CPollerNotifyFd_handle_input 2 (Read [1]) 6 (hs_broker s2) = Some (0, w2) \<and> w_sent w2 7 = [0x32, 7, 0, 1, 65, 0, 3, 104, 105]"
proof -
  have p: "frame 0x32 (publish_body [65] (ucast (((2 :: u64) + 1) AND 0xFFFF)) (cstr ''hi'')) = [0x32, 7, 0, 1, 65, 0, 3, 104, 105]"
    by (simp add: frame_def publish_body_def rl_enc_one string_enc_def hi_byte_def lo_byte_def cstr_def of_char_def)
  obtain s where s: "HttpServer_open (\<lambda>_. Some 10) [] demo_http_server = Some (0, s)" "m_running_flag (hs_http s)" "hs_acceptor s = 4"
      "m_handlers (hs_http s) 4 \<noteq> None" "h_next_hid (hs_http s) = 5" "hs_accepts s (hs_accepted s) = (11, [], [], 2)" "m_epoll (hs_http s) 11 = None"
      "map_of (m_map_event_handlers (hs_http s)) 11 = None" "w_writes (hs_http s) = (\<lambda>_. Wrote 8192)" "hs_broker s = notified_broker"
    using demo_http_server_opens by blast
  have w: "\<forall>i. \<exists>k\<ge>4096. w_writes (hs_http s) i = Wrote k" unfolding s(9) by auto
  have l: "length (get_line publish_path demo_params (cstr ''HTTP/1.1'') @ [13, 10] @ cstr ''Host: a'' @ [13, 10, 13, 10]) < 4096"
    "length [65 :: u8] + length (cstr ''hi'') < 4096" "map_of (rev demo_params) (cstr ''client'') \<noteq> None" "length ([] :: cstring) \<le> 99"
    using demo_params_ok by simp_all
  have k: "\<forall>j. \<exists>k\<ge>length [65 :: u8] + length (cstr ''hi'') + 8. w_writes notified_broker j = Wrote k" using notified_broker_ok(4) by auto
  have all: "\<forall>u\<in>fst ` set (m_topic_mgr notified_broker). served notified_broker (clients_of notified_broker u)"
      "length (filter (listens notified_broker 7) (map fst (m_topic_mgr notified_broker))) = 1"
    using notified_broker_ok(10) [of 2] notified_broker_ok(12) by (auto simp: reaches_def copies_def audience_def)
  obtain s1 s2 w2 where "http_poll (Inr [(EPOLLIN, Some 4, Read [])]) s = Some (True, s1)"
      "http_poll (Inr [(EPOLLIN, Some 5, Read (get_line publish_path demo_params (cstr ''HTTP/1.1'') @ [13, 10] @ cstr ''Host: a'' @ [13, 10, 13, 10]))]) s1 = Some (True, s2)"
      "CPollerNotifyFd_handle_input 2 (Read [1]) 6 (hs_broker s2) = Some (0, w2)" "w_sent w2 7 = [0x32, 7, 0, 1, 65, 0, 3, 104, 105]"
    using http_server_serves [OF s(2) _ _ s(5,6) _ s(7,8) w l(4) demo_params_ok(1,2) l(3) demo_params_ok(4-6) l(2,1), of 6 2 "Read []" "[1]"]
      s(3,4) notified_broker_ok(1-3,8,9) all k p unfolding s(10) by auto
  then show ?thesis using s(1) by blast
qed

end
