(* ===== verification/Packet_Stream.thy ===== *)
theory Packet_Stream
  imports Mqtt_Connection
begin

text \<open>
  Packets in a byte stream. \<^verbatim>\<open>CMqttConnection::process_mqtt\<close> and \<^verbatim>\<open>TCPClient::process\<close> have the same loop: it
  takes the packets that are complete from the receive buffer, hands each to a function of the class and moves what
  is left to the front. The locale \<open>packet_loop\<close> has this loop as its contract; inside it, the loop is shown to
  handle exactly the packets of the stream, in order, whatever the function does to them. It is interpreted for the
  connections of the broker here, and for the bridge client in its theory.
\<close>

subsection \<open>Packets and parts of packets\<close>

definition packet :: "bytes \<Rightarrow> bool" where
  "packet p \<longleftrightarrow> (\<exists>h body. p = frame h body \<and> length body < 16384)"

text \<open>What may be left of the stream: nothing, or the beginning of a packet with all bytes of its length.\<close>

definition partial_packet :: "bytes \<Rightarrow> bool" where
  "partial_packet r \<longleftrightarrow> r = [] \<or> (\<exists>h n body. r = h # rl_enc n @ body \<and> n < 16384 \<and> length body < n)"

lemma packet_frame: "length body < 16384 \<Longrightarrow> packet (frame h body)"
  by (auto simp: packet_def)

lemma packet_nonempty: "packet p \<Longrightarrow> p \<noteq> []"
  by (auto simp: packet_def frame_def)

lemma packet_length: "packet p \<Longrightarrow> 2 \<le> length p \<and> length p \<le> 16386"
  using rl_enc_length_pos rl_enc_length [of "length body" 1 for body]
  by (fastforce simp: packet_def length_frame Suc_le_eq)

lemma remain_length_packet:
  assumes "packet p" "length p \<le> unat len"
  shows "\<exists>v k. remain_length (p @ r) len = Some (int (unat v), v, k) \<and> of_int (int (unat v)) + ucast k + 1 = (of_nat (length p) :: u32)"
proof -
  obtain h body where p: "p = frame h body" "length body < 16384" using assms(1) by (auto simp: packet_def)
  have n: "length (rl_enc (length body)) \<le> 2" using rl_enc_length [of "length body" 1] p(2) by simp
  have "remain_length (p @ r) len = Some (int (length body), of_nat (length body), of_nat (length (rl_enc (length body))))"
    using remain_length_small [OF p(2), of len h "body @ r"] assms(2) p(1) by (simp add: frame_def)
  moreover have "unat (of_nat (length body) :: u32) = length body" using p(2) by simp
  moreover have "ucast (of_nat (length (rl_enc (length body))) :: u8) = (of_nat (length (rl_enc (length body))) :: u32)"
    using n by (simp add: word_eq_iff_unsigned [where ?'a = nat])
  ultimately show ?thesis
    by (intro exI [of _ "of_nat (length body)"] exI [of _ "of_nat (length (rl_enc (length body)))"])
      (simp add: p(1) length_frame)
qed

lemma remain_length_partial:
  assumes "partial_packet r" "r \<noteq> []" "unat len = length r"
  shows "\<exists>v k. remain_length (r @ junk) len = Some (NEED_MORE_DATA, v, k)"
proof -
  obtain h n body where r: "r = h # rl_enc n @ body" "n < 16384" "length body < n" using assms(1,2) by (auto simp: partial_packet_def)
  obtain m where m: "length (rl_enc n) = Suc m" "m < 2"
    using rl_enc_length [of n 1] r(2) rl_enc_length_pos [of n] by (cases "length (rl_enc n)") auto
  have "unat (of_nat n + ucast (of_nat (Suc m) :: u8) + 1 :: u32) = n + Suc m + 1"
    using m(2) r(2) unat_of_nat_u8 [of "Suc m"] by (simp add: unat_word_ariths del: of_nat_Suc)
  then show ?thesis
    using r m assms(3) remain_length_loop_small [OF r(2), of h "body @ junk"]
    by (simp add: remain_length_def Let_def word_less_nat_alt del: of_nat_add of_nat_Suc)
qed

subsection \<open>The contract of the loop\<close>

text \<open>
  \<open>handled_packets f bf off ps s s'\<close>: the function \<open>f\<close> handles the packets \<open>ps\<close>, which stand in the buffer \<open>bf s\<close>
  from \<open>off\<close> on, one after the other, without an error and without touching the buffer behind the packet it handles.
\<close>

fun handled_packets ::
  "(u32 \<Rightarrow> u32 \<Rightarrow> 's \<Rightarrow> (int \<times> 's) option) \<Rightarrow> ('s \<Rightarrow> bytes option) \<Rightarrow> nat \<Rightarrow> bytes list \<Rightarrow> 's \<Rightarrow> 's \<Rightarrow> bool" where
  "handled_packets f bf off [] s s' \<longleftrightarrow> s' = s"
| "handled_packets f bf off (p # ps) s s' \<longleftrightarrow>
     (\<exists>r s1 b b'. f (of_nat off) (of_nat (length p)) s = Some (r, s1) \<and> 0 \<le> r \<and> bf s = Some b \<and> bf s1 = Some b' \<and>
        length b' = length b \<and> drop (off + length p) b' = drop (off + length p) b \<and> handled_packets f bf (off + length p) ps s1 s')"

locale packet_loop =
  fixes process_all :: "u32 \<Rightarrow> u32 \<Rightarrow> 's \<Rightarrow> (int \<times> 's) option"
    and process_one :: "u32 \<Rightarrow> u32 \<Rightarrow> 's \<Rightarrow> (int \<times> 's) option"
    and buffer :: "'s \<Rightarrow> bytes option"
    and set_rest :: "bytes \<Rightarrow> u32 \<Rightarrow> 's \<Rightarrow> 's"
    and reset :: "'s \<Rightarrow> 's"
  assumes unfold: "process_all off len s =
    do {
      buf \<leftarrow> buffer s;
      if off < len then do {
        (remain_len, _, nbytes) \<leftarrow> remain_length (drop (unat off) buf) (len - off);
        if remain_len = NEED_MORE_DATA then
          if off \<noteq> 0 then do {
            left \<leftarrow> mem_read buf (unat off) (unat (len - off));
            d \<leftarrow> mem_copy buf 0 left;
            Some (0, set_rest d (len - off) s)
          } else Some (0, s)
        else if remain_len = FAILTURE then Some (-1, s)
        else do {
          let n = of_int remain_len + ucast nbytes + 1;
          (r, s) \<leftarrow> process_one off n s;
          if r < 0 then Some (-1, s) else process_all (off + n) len s
        }
      } else Some (0, reset s)
    }"
begin

lemma process_packet:
  assumes "buffer s = Some buf" "drop off buf = p @ rst" "packet p" "off + length p \<le> len" "len < 2147483648"
    and "process_one (of_nat off) (of_nat (length p)) s = Some (r, s1)" "0 \<le> r"
  shows "process_all (of_nat off) (of_nat len) s = process_all (of_nat (off + length p)) (of_nat len) s1"
proof -
  have l: "2 \<le> length p" using packet_length [OF assms(3)] by simp
  have le: "length p \<le> len - off" using assms(4) by linarith
  have u: "unat (of_nat off :: u32) = off" "unat (of_nat len - of_nat off :: u32) = len - off" "(of_nat off :: u32) < of_nat len"
    using assms(4,5) l by (simp_all add: unat_sub_u32 word_less_nat_alt)
  obtain v k where v: "remain_length (p @ rst) (of_nat len - of_nat off) = Some (int (unat v), v, k)"
      "of_int (int (unat v)) + ucast k + 1 = (of_nat (length p) :: u32)"
    using remain_length_packet [OF assms(3), of "of_nat len - of_nat off" rst] u(2) le by auto
  show ?thesis
    using v assms(1,2,6,7) u by (subst unfold) (simp add: ret_defs)
qed

text \<open>All complete packets are handled, and the rest is moved to the front.\<close>

lemma process_packets:
  assumes "handled_packets process_one buffer off ps s s'" "buffer s = Some buf" "drop off buf = concat ps @ rest @ junk"
    and "\<forall>p\<in>set ps. packet p" "partial_packet rest" "length buf < 2147483648" "off \<le> length buf"
  shows "\<exists>buf'. buffer s' = Some buf' \<and> length buf' = length buf \<and> drop (off + length (concat ps)) buf' = rest @ junk \<and>
    process_all (of_nat off) (of_nat (off + length (concat ps @ rest))) s =
      Some (0, if rest = [] then reset s' else if off + length (concat ps) = 0 then s'
               else set_rest (rest @ drop (length rest) buf') (of_nat (length rest)) s')"
  using assms
proof (induction ps arbitrary: off s buf)
  case Nil
  then have s: "s' = s" and d: "drop off buf = rest @ junk" by simp_all
  have ln: "off + length rest \<le> length buf" using arg_cong [OF d, of length] Nil.prems(7) by simp
  have u: "unat (of_nat off :: u32) = off" "unat (of_nat (off + length rest) - of_nat off :: u32) = length rest"
      "of_nat (off + length rest) - of_nat off = (of_nat (length rest) :: u32)" "((of_nat off :: u32) = 0) = (off = 0)"
    using ln Nil.prems(6) by (simp_all add: unat_eq_zero [symmetric] word_unat_eq_iff)
  show ?case
  proof (cases "rest = []")
    case True
    then show ?thesis using s d Nil.prems(2) by (subst unfold) simp
  next
    case False
    then have lt: "(of_nat off :: u32) < of_nat (off + length rest)" using ln Nil.prems(6) by (simp add: word_less_nat_alt del: of_nat_add)
    obtain v k where "remain_length (rest @ junk) (of_nat (length rest)) = Some (NEED_MORE_DATA, v, k)"
      using remain_length_partial [OF Nil.prems(5) False, of "of_nat (length rest)" junk] u(2) ln Nil.prems(6) by auto
    moreover have "mem_read buf off (length rest) = Some rest" using d ln by (simp add: mem_read_def)
    moreover have "mem_copy buf 0 rest = Some (rest @ drop (length rest) buf)" using ln by (simp add: mem_copy_def)
    ultimately show ?thesis
      using False s d u lt Nil.prems(2) ln Nil.prems(6) by (subst unfold) (simp add: u(3))
  qed
next
  case (Cons p ps)
  obtain r s1 b' where s1: "process_one (of_nat off) (of_nat (length p)) s = Some (r, s1)" "0 \<le> r" "buffer s1 = Some b'"
      "length b' = length buf" "drop (off + length p) b' = drop (off + length p) buf"
      "handled_packets process_one buffer (off + length p) ps s1 s'"
    using Cons.prems(1,2) by auto
  have d: "drop off buf = p @ concat ps @ rest @ junk" using Cons.prems(3) by simp
  have ln: "off + length p + length (concat ps @ rest) \<le> length buf" using arg_cong [OF d, of length] Cons.prems(7) by simp
  have d1: "drop (off + length p) b' = concat ps @ rest @ junk"
    unfolding s1(5) using arg_cong [OF d, of "drop (length p)"] by (simp add: add.commute)
  have step: "process_all (of_nat off) (of_nat (off + length p + length (concat ps @ rest))) s =
      process_all (of_nat (off + length p)) (of_nat (off + length p + length (concat ps @ rest))) s1"
    by (rule process_packet [OF Cons.prems(2) d _ _ _ s1(1,2)]) (use ln Cons.prems(4,6) in simp_all)
  have eqs: "off + length (concat (p # ps) @ rest) = off + length p + length (concat ps @ rest)"
    "off + length (concat (p # ps)) = off + length p + length (concat ps)" "length buf = length b'"
    using s1(4) by simp_all
  show ?case
    unfolding eqs step by (rule Cons.IH [OF s1(6,3) d1 _ Cons.prems(5)]) (use Cons.prems(4,6) s1(4) ln in simp_all)
qed

end

subsection \<open>The connections of the broker\<close>

definition conn_buffer :: "hid \<Rightarrow> broker \<Rightarrow> bytes option" where
  "conn_buffer h w = map_option m_recv_buffer (m_conns w h)"

interpretation conn: packet_loop "process_loop h" "process h" "conn_buffer h"
  "\<lambda>d n. upd_conn h (\<lambda>k. k\<lparr>m_recv_buffer := d, m_cur_buf_pos := n\<rparr>)" "upd_conn h (m_cur_buf_pos_update (\<lambda>_. 0))"
proof
  show "process_loop h off len s = do {
      buf \<leftarrow> conn_buffer h s;
      if off < len then do {
        (remain_len, _, nbytes) \<leftarrow> remain_length (drop (unat off) buf) (len - off);
        if remain_len = NEED_MORE_DATA then
          if off \<noteq> 0 then do {
            left \<leftarrow> mem_read buf (unat off) (unat (len - off));
            d \<leftarrow> mem_copy buf 0 left;
            Some (0, upd_conn h (\<lambda>k. k\<lparr>m_recv_buffer := d, m_cur_buf_pos := len - off\<rparr>) s)
          } else Some (0, s)
        else if remain_len = FAILTURE then Some (-1, s)
        else do {
          let n = of_int remain_len + ucast nbytes + 1;
          (r, s) \<leftarrow> process h off n s;
          if r < 0 then Some (-1, s) else process_loop h (off + n) len s
        }
      } else Some (0, upd_conn h (m_cur_buf_pos_update (\<lambda>_. 0)) s)
    }" for off len s
    by (subst process_loop.simps, cases "m_conns s h") (simp_all add: conn_buffer_def)
qed

text \<open>The state in which the packets are processed: the bytes are in the buffer and the times are set.\<close>

definition arrived :: "hid \<Rightarrow> bytes \<Rightarrow> broker \<Rightarrow> broker" where
  "arrived h bs w =
     (case m_conns w h of
        None \<Rightarrow> w
      | Some k \<Rightarrow>
          let p = unat (m_cur_buf_pos k); d = take p (m_recv_buffer k) @ bs @ drop (p + length bs) (m_recv_buffer k);
              pos = m_cur_buf_pos k + of_nat (length bs);
              w = upd_conn h (\<lambda>k. k\<lparr>m_recv_buffer := d, m_cur_buf_pos := pos, m_last_msg_time := Some (of_int (w_now w))\<rparr>)
                    (upd_handler h (\<lambda>x. x\<lparr>m_recv_times := m_recv_times x + 1, m_recv_bytes := m_recv_bytes x + of_nat (length bs)\<rparr>) w)
          in (case c_client_context k of
                Some c \<Rightarrow> upd_ctx c (ctx_last_msg_time_update (\<lambda>_. Some (w_now w))) w
              | None \<Rightarrow> w))"

lemma handle_input_arrived:
  assumes "m_conns w h = Some k" "length (m_recv_buffer k) = 4096" "bs \<noteq> []" "unat (m_cur_buf_pos k) + length bs \<le> 4096"
  shows "handle_input (Read bs) h w = process_loop h 0 (of_nat (unat (m_cur_buf_pos k) + length bs)) (arrived h bs w) \<and>
    conn_buffer h (arrived h bs w) =
      Some (take (unat (m_cur_buf_pos k)) (m_recv_buffer k) @ bs @ drop (unat (m_cur_buf_pos k) + length bs) (m_recv_buffer k))"
proof -
  let ?p = "m_cur_buf_pos k"
  have u: "unat (4096 - ?p) = 4096 - unat ?p" "take (4096 - unat ?p) bs = bs" "unat ?p < 4096"
    using assms(3,4) by (simp_all add: unat_sub_u32 Suc_le_eq [symmetric] neq_Nil_conv) auto
  have n: "of_nat (unat ?p + length bs) = ?p + of_nat (length bs)" by (simp add: of_nat_unat)
  have c: "m_conns (upd_ctx c f w) = m_conns w" "m_conns (upd_handler h g w) = m_conns w" "w_now (upd_handler h g w) = w_now w"
      "w_now (upd_conn h j w) = w_now w" for c f g j and w :: broker
    by (simp_all add: upd_ctx_def upd_handler_def upd_conn_def)
  show ?thesis
    using assms u unfolding n
    by (auto simp: handle_input_def process_mqtt_def arrived_def MAX_BUF_SIZE_def mem_copy_def conn_buffer_def c Let_def split: option.split)
qed

lemma arrived_pos:
  "m_conns w h = Some k \<Longrightarrow> \<exists>k1. m_conns (arrived h bs w) h = Some k1 \<and> m_cur_buf_pos k1 = m_cur_buf_pos k + of_nat (length bs)"
  by (auto simp: arrived_def upd_conn_def upd_handler_def upd_ctx_def Let_def split: option.split)

subsection \<open>Properties\<close>

text \<open>
  C5. One call of \<^verbatim>\<open>handle_input\<close> handles exactly the packets that are complete: when the bytes kept in the receive buffer
  and the new ones together are a number of packets, none or more, and the beginning of another one, each of the
  packets is handled once, in order, \<^verbatim>\<open>handle_input\<close> returns 0, and the beginning is kept at the front of the buffer, as the
  next call finds it. It is assumed that all these bytes fit in the buffer of 4096 bytes, that every packet has
  a body below 16384 bytes, that the length field of the beginning has arrived (a cut inside a fixed header is not
  covered), and that the function for each packet succeeds and leaves the bytes behind its packet alone
  (\<open>handled_packets\<close>).
\<close>

theorem packets_of_the_stream:
  assumes "m_conns w h = Some k" "length (m_recv_buffer k) = 4096" "bs \<noteq> []" "unat (m_cur_buf_pos k) + length bs \<le> 4096"
    and "take (unat (m_cur_buf_pos k)) (m_recv_buffer k) @ bs = concat ps @ rest" "\<forall>p\<in>set ps. packet p" "partial_packet rest"
    and "handled_packets (process h) (conn_buffer h) 0 ps (arrived h bs w) w1"
  shows "\<exists>w' k'. handle_input (Read bs) h w = Some (0, w') \<and> m_conns w' h = Some k' \<and> length (m_recv_buffer k') = 4096 \<and>
    unat (m_cur_buf_pos k') = length rest \<and> take (length rest) (m_recv_buffer k') = rest \<and> m_contexts w' = m_contexts w1 \<and>
    m_topic_mgr w' = m_topic_mgr w1 \<and> w_sent w' = w_sent w1 \<and> m_handlers w' = m_handlers w1"
proof -
  let ?p = "unat (m_cur_buf_pos k)" and ?junk = "drop (unat (m_cur_buf_pos k) + length bs) (m_recv_buffer k)"
  have len: "?p + length bs = length (concat ps @ rest)" "length (concat ps @ rest) \<le> 4096"
    using arg_cong [OF assms(5), of length] assms(2,4) by simp_all
  note in1 = handle_input_arrived [OF assms(1-4)]
  have d: "drop 0 (take ?p (m_recv_buffer k) @ bs @ ?junk) = concat ps @ rest @ ?junk" using assms(5) by (metis append.assoc drop_0)
  have "length (take ?p (m_recv_buffer k) @ bs @ ?junk) = 4096" using assms(2,4) by simp
  then obtain buf' where b: "conn_buffer h w1 = Some buf'" "length buf' = 4096" "drop (length (concat ps)) buf' = rest @ ?junk"
      "process_loop h 0 (of_nat (length (concat ps @ rest))) (arrived h bs w) =
        Some (0, if rest = [] then upd_conn h (m_cur_buf_pos_update (\<lambda>_. 0)) w1 else if length (concat ps) = 0 then w1
          else upd_conn h (\<lambda>k. k\<lparr>m_recv_buffer := rest @ drop (length rest) buf', m_cur_buf_pos := of_nat (length rest)\<rparr>) w1)"
    using conn.process_packets [OF assms(8) conjunct2 [OF in1] d assms(6,7)] by auto
  obtain k1 where k1: "m_conns w1 h = Some k1" "m_recv_buffer k1 = buf'" using b(1) by (auto simp: conn_buffer_def)
  have f: "m_topic_mgr (upd_conn h g w1) = m_topic_mgr w1" "w_sent (upd_conn h g w1) = w_sent w1" "m_handlers (upd_conn h g w1) = m_handlers w1" for g
    by (simp_all add: upd_conn_def)
  have l: "length rest \<le> 4096" "unat (of_nat (length rest) :: u32) = length rest" using len(2) by simp_all
  show ?thesis
  proof (cases "ps = []")
    case True
    then have r: "rest \<noteq> []" "w1 = arrived h bs w" "?p + length bs = length rest" using assms(3,5,8) len(1) by auto
    obtain k2 where "m_conns w1 h = Some k2" "m_cur_buf_pos k2 = m_cur_buf_pos k + of_nat (length bs)"
      using arrived_pos [of w h k bs] assms(1) r(2) by auto
    moreover have "m_cur_buf_pos k + of_nat (length bs) = of_nat (length rest)" using arg_cong [OF r(3), of "of_nat :: nat \<Rightarrow> u32"] by (simp add: of_nat_unat)
    ultimately show ?thesis using True b k1 l r in1 unfolding len(1) by simp
  next
    case False
    then have ne: "length (concat ps) \<noteq> 0" using assms(6) packet_nonempty by (cases ps) auto
    show ?thesis
      using b(1-3) ne k1 l in1 b(4) [unfolded if_not_P [OF ne]] unfolding len(1) by (cases "rest = []") (simp_all add: f)
  qed
qed

text \<open>A connected client whose acknowledgement arrives together with the beginning of the next one.\<close>

definition acking_client :: broker where
  "acking_client = one_conn (replicate 4096 0) (Some 2) [2 \<mapsto> (CTMqttClientContext (Some 7))\<lparr>ctx_client_status := CS_CONNECTED\<rparr>] [] (\<lambda>_. Wrote 1) []"

theorem packets_of_the_stream_witness:
  "\<exists>w' k'. handle_input (Read [0x40, 2, 0, 9, 0x40, 2]) 7 acking_client = Some (0, w') \<and> m_conns w' 7 = Some k' \<and>
     unat (m_cur_buf_pos k') = 2 \<and> take 2 (m_recv_buffer k') = [0x40, 2]"
proof -
  let ?bs = "[0x40, 2, 0, 9, 0x40, 2] :: bytes"
  define w where "w = arrived 7 ?bs acking_client"
  have k: "m_conns acking_client 7 = Some \<lparr>c_client_context = Some 2, m_recv_buffer = replicate 4096 0, m_cur_buf_pos = 0, m_last_msg_time = None\<rparr>"
    by (simp add: acking_client_def one_conn_def)
  have b: "conn_buffer 7 w = Some (?bs @ replicate 4090 0)"
    using handle_input_arrived [OF k, of ?bs] unfolding w_def by simp
  then obtain k1 where k1: "m_conns w 7 = Some k1" "m_recv_buffer k1 = ?bs @ replicate 4090 0" "c_client_context k1 = Some 2"
    by (auto simp: conn_buffer_def w_def arrived_def k upd_conn_def upd_ctx_def upd_handler_def Let_def)
  have x: "\<exists>x. m_contexts w 2 = Some x \<and> ctx_send_msg_queue x = []"
    by (simp add: w_def arrived_def k Let_def upd_ctx_def acking_client_def one_conn_def upd_conn_def upd_handler_def CTMqttClientContext_def)
  have f: "frame 0x40 [hi_byte 9, lo_byte 9] = [0x40, 2, 0, 9]" by (simp add: frame_def rl_enc_one hi_byte_def lo_byte_def)
  obtain m where m: "CMqttPublishAck_decode (CMqttPublishAck ([0x40, 2, 0, 9] @ [0x40, 2] @ replicate 4090 0) 4 0) = Some (0, m)"
    using decodedD [OF CMqttPublishAck_decoded [of 4 "0x40" 9 "[0x40, 2] @ replicate 4090 0" 0]]
    unfolding f by (auto simp: fixed_header_decode_def fix_msg_type_def to_MqttType_def mqtt_types_def)
  have t: "to_MqttType 4 = PUBACK" by (simp add: to_MqttType_def mqtt_types_def)
  obtain r w1 where p: "process 7 0 4 w = Some (r, w1)" "0 \<le> r" "conn_buffer 7 w1 = conn_buffer 7 w"
    using k1 x m
    by (auto simp: process_def conn_buf_def mem_get_def t handle_puback_msg_def client_context_def conn_buffer_def ack_msg_def)
  have "packet [0x40, 2, 0, 9]" using packet_frame [of "[hi_byte 9, lo_byte 9]" "0x40"] unfolding f by simp
  moreover have "partial_packet [0x40, 2]"
    by (auto simp: partial_packet_def rl_enc_one intro!: exI [of _ "2 :: nat"])
  moreover have "handled_packets (process 7) (conn_buffer 7) 0 [[0x40, 2, 0, 9]] w w1" using p b by simp
  ultimately show ?thesis
    using packets_of_the_stream [OF k, of ?bs "[[0x40, 2, 0, 9]]" "[0x40, 2]" w1] by (auto simp: w_def numeral_2_eq_2)
qed

end
