(* ===== verification/Bridge_Client.thy ===== *)
theory Bridge_Client
  imports Notify Packet_Stream
begin

text \<open>
  The bridge to a parent broker: \<^verbatim>\<open>src/mqtt_server/tcp_client.cpp\<close>. A thread of its own connects to the parent as an
  MQTT client, subscribes to a topic and hands every message it receives to the broker through the notifier.

  The thread has its own socket and its own \<^verbatim>\<open>errno\<close>, so its state extends the world of the kernel calls; the broker,
  whose heap and notification queue it uses, is a second component of the state. \<open>tc_session\<close> counts the sockets that
  were created: what is written to the current one is \<open>w_sent\<close> of this number. The environment answers the other
  calls (\<open>client_env\<close>): each answer depends on the number \<open>tc_tick\<close> of calls before it. The flag \<^verbatim>\<open>m_running_flag\<close>
  is written by another thread, so reading it asks the environment too. \<open>tc_slept\<close> records the arguments of \<^verbatim>\<open>sleep\<close>.

  The packet loop is an instance of \<open>packet_loop\<close>; together with the notifier this gives the way of a message
  from the byte stream of the parent to the subscribers.
\<close>

subsection \<open>The client object and its environment\<close>

record client_world = ev_world +
  tc_recv_buffer :: bytes
  tc_cur_buf_pos :: u32
  tc_client_socket :: int
  tc_server_addr :: "csock_address option"
  tc_str_client_id :: cstring
  tc_str_topic_name :: cstring
  tc_topic_qos :: u8
  tc_junk :: u8
  tc_session :: hid
  tc_slept :: "u32 list"
  tc_tick :: nat

record client_env =
  e_socket :: "nat \<Rightarrow> int"
  e_connect :: "csock_address option \<Rightarrow> nat \<Rightarrow> bool"
  e_running :: "nat \<Rightarrow> bool"
  e_time :: "nat \<Rightarrow> u32"
  e_read :: "nat \<Rightarrow> read_res"

definition ask :: "(nat \<Rightarrow> 'v) \<Rightarrow> client_world \<Rightarrow> 'v \<times> client_world" where
  "ask f c = (f (tc_tick c), c\<lparr>tc_tick := Suc (tc_tick c)\<rparr>)"

type_synonym bridge = "client_world \<times> broker"

subsection \<open>Sending\<close>

definition tc_write_n :: "bytes \<Rightarrow> nat \<Rightarrow> client_world \<Rightarrow> (int \<times> client_world) option" where
  "tc_write_n buf len c =
     do {
       _ \<leftarrow> mem_read buf 0 len;
       (ok, c) \<leftarrow> write_n_loop (tc_client_socket c) (tc_session c) buf len c;
       Some (if ok then 0 else -1, c)
     }"

text \<open>The end of every \<^verbatim>\<open>send\<close> function: the packet is written if it could be encoded.\<close>

definition send_encoded :: "(int \<times> 'm cmqtt_msg_scheme) option \<Rightarrow> client_world \<Rightarrow> (int \<times> client_world) option" where
  "send_encoded res c =
     do {
       (pkt_len, m) \<leftarrow> res;
       if pkt_len \<le> 0 then Some (-1, c) else tc_write_n (m_buf (m_mqtt_pkt m)) (nat pkt_len) c
     }"

definition stack_buf :: "nat \<Rightarrow> client_world \<Rightarrow> bytes" where
  "stack_buf n c = replicate n (tc_junk c)"

definition send_connect_msg :: "client_world \<Rightarrow> (int \<times> client_world) option" where
  "send_connect_msg c =
     send_encoded (CMqttConnect_encode ((CMqttConnect (stack_buf 256 c) 256)\<lparr>m_clean_session := False, m_str_client_id := tc_str_client_id c\<rparr>)) c"

definition send_pingreq_msg :: "client_world \<Rightarrow> (int \<times> client_world) option" where
  "send_pingreq_msg c = send_encoded (CMqttPingReq_encode (CMqttMsg (stack_buf 16 c) 16 PINGREQ)) c"

definition send_disconnect_msg :: "client_world \<Rightarrow> (int \<times> client_world) option" where
  "send_disconnect_msg c = send_encoded (CMqttDisconnect_encode (CMqttMsg (stack_buf 16 c) 16 DISCONNECT)) c"

definition CMqttSubscribe_topic :: "bytes \<Rightarrow> u32 \<Rightarrow> u16 \<Rightarrow> cstring \<Rightarrow> u8 \<Rightarrow> cmqtt_subscribe" where
  "CMqttSubscribe_topic buf len msg_id topic_name qos =
     CMqttSubscribe_hdr buf len (CMqttFixedHeader SUBSCRIBE) msg_id [CTopic topic_name qos]"

definition send_subscribe_msg :: "u16 \<Rightarrow> client_world \<Rightarrow> (int \<times> client_world) option" where
  "send_subscribe_msg msg_id c =
     (let c = c\<lparr>tc_topic_qos := 1\<rparr>
      in send_encoded (CMqttSubscribe_encode (CMqttSubscribe_topic (stack_buf 256 c) 256 msg_id (tc_str_topic_name c) (tc_topic_qos c))) c)"

definition send_pub_ack_msg :: "u16 \<Rightarrow> client_world \<Rightarrow> (int \<times> client_world) option" where
  "send_pub_ack_msg msg_id c = send_encoded (CMqttPublishAck_encode (CMqttPublishAck (stack_buf 16 c) 16 msg_id)) c"

subsection \<open>Connecting\<close>

partial_function (option) connect_loop :: "client_env \<Rightarrow> u32 \<Rightarrow> client_world \<Rightarrow> (bool \<times> client_world) option" where
  "connect_loop env timeout c =
     (let (connected, c) = ask (e_connect env (tc_server_addr c)) c in
      if connected then Some (True, c)
      else let (running, c) = ask (e_running env) c in
        if \<not> running then Some (False, c)
        else let c = c\<lparr>tc_slept := tc_slept c @ [timeout]\<rparr>; timeout = timeout * 2
          in connect_loop env (if timeout \<ge> 32 then 1 else timeout) c)"

definition TCPClient_connect :: "client_env \<Rightarrow> client_world \<Rightarrow> (int \<times> client_world) option" where
  "TCPClient_connect env c =
     do {
       c \<leftarrow> (if tc_client_socket c \<noteq> INVALID_SOCKET then do {
                (_, c) \<leftarrow> send_disconnect_msg c;
                Some (c\<lparr>tc_client_socket := INVALID_SOCKET\<rparr>)
              } else Some c);
       let (fd, c) = ask (e_socket env) c;
       let c = c\<lparr>tc_client_socket := fd, tc_session := Suc (tc_session c)\<rparr>;
       if fd < 0 then Some (-1, c)
       else do {
         (connected, c) \<leftarrow> connect_loop env 1 c;
         if \<not> connected then Some (-1, c)
         else do {
           (_, c) \<leftarrow> send_connect_msg c;
           Some (0, c\<lparr>tc_cur_buf_pos := 0\<rparr>)
         }
       }
     }"

subsection \<open>Receiving\<close>

text \<open>A message of the parent becomes a buffer of the broker, which is not entered in the message store.\<close>

definition bridge_mbuf :: "bytes \<Rightarrow> u32 \<Rightarrow> u16 \<Rightarrow> broker \<Rightarrow> (addr \<times> broker) option" where
  "bridge_mbuf buf len msg_id w =
     do {
       let (a, w) = make_mbuf len w;
       (_, w) \<leftarrow> mbuf_call a (mbuf_copy buf (to_int len)) w;
       Some (a, upd_mbuf a (set_msg_type MSG_PUBLISH) (upd_mbuf a (set_msg_id (ucast msg_id)) w))
     }"

definition tc_process_mqtt :: "bytes \<Rightarrow> u32 \<Rightarrow> bridge \<Rightarrow> (int \<times> bridge) option" where
  "tc_process_mqtt buf len s =
     (case s of (c, w) \<Rightarrow> do {
       b \<leftarrow> mem_get buf 0;
       case to_MqttType (drop_bit 4 (b AND 0xF0)) of
         CONNACK \<Rightarrow> do { (_, c) \<leftarrow> send_subscribe_msg 1 c; Some (0, c, w) }
       | PUBLISH \<Rightarrow> do {
           (r, m) \<leftarrow> CMqttPublish_decode (CMqttPublish buf len);
           if r < 0 then Some (-1, c, w)
           else do {
             (a, w) \<leftarrow> bridge_mbuf buf len (m_pub_msg_id m) w;
             (_, w) \<leftarrow> poller_notify CPollerNotifyFd_notify a w;
             (_, c) \<leftarrow> send_pub_ack_msg (m_pub_msg_id m) c;
             Some (0, c, w)
           }
         }
       | SUBACK \<Rightarrow> Some (0, c, w)
       | PINGRESP \<Rightarrow> Some (0, c, w)
       | _ \<Rightarrow> Some (-1, c, w)
     })"

definition tc_process_at :: "u32 \<Rightarrow> u32 \<Rightarrow> bridge \<Rightarrow> (int \<times> bridge) option" where
  "tc_process_at off len s = tc_process_mqtt (drop (unat off) (tc_recv_buffer (fst s))) len s"

partial_function (option) tc_process_loop :: "u32 \<Rightarrow> u32 \<Rightarrow> bridge \<Rightarrow> (int \<times> bridge) option" where
  "tc_process_loop off len s =
     (let buf = tc_recv_buffer (fst s) in
      if off < len then do {
        (remain_len, _, remain_length_bytes) \<leftarrow> remain_length (drop (unat off) buf) (len - off);
        if remain_len = NEED_MORE_DATA then
          if off \<noteq> 0 then do {
            left \<leftarrow> mem_read buf (unat off) (unat (len - off));
            d \<leftarrow> mem_copy buf 0 left;
            Some (0, (fst s)\<lparr>tc_recv_buffer := d, tc_cur_buf_pos := len - off\<rparr>, snd s)
          } else Some (0, s)
        else if remain_len = FAILTURE then Some (-1, s)
        else do {
          let pkt_total_len = of_int remain_len + ucast remain_length_bytes + 1;
          (r, s) \<leftarrow> tc_process_at off pkt_total_len s;
          if r < 0 then Some (-1, s) else tc_process_loop (off + pkt_total_len) len s
        }
      }
      else Some (0, (fst s)\<lparr>tc_cur_buf_pos := 0\<rparr>, snd s))"

definition tc_process :: "u32 \<Rightarrow> bridge \<Rightarrow> (int \<times> bridge) option" where
  "tc_process len s = tc_process_loop 0 len s"

text \<open>
  \<^verbatim>\<open>read\<close> with a timeout, which the thread does not use (its socket has \<^verbatim>\<open>SO_RCVTIMEO\<close>): \<^verbatim>\<open>select\<close> and the read that
  follows are answered by \<open>sel\<close> and \<open>rd\<close>. A set of descriptors has 1024 places.
\<close>

datatype select_res = Select_error int | Select_timeout | Select_ready

definition TCPClient_read :: "select_res \<Rightarrow> read_res \<Rightarrow> bytes \<Rightarrow> u32 \<Rightarrow> client_world \<Rightarrow> (int \<times> bytes \<times> client_world) option" where
  "TCPClient_read sel rd buf len c =
     (if tc_client_socket c < 0 \<or> 1024 \<le> tc_client_socket c then None
      else case sel of
        Select_error e \<Rightarrow> Some (-1, buf, c\<lparr>w_errno := e\<rparr>)
      | Select_timeout \<Rightarrow> Some (0, buf, c)
      | Select_ready \<Rightarrow>
          (case rd of
             Read_error e \<Rightarrow> Some (if blocking e then 0 else -1, buf, c\<lparr>w_errno := e\<rparr>)
           | Read bs \<Rightarrow> do {
               let bs = take (unat len) bs;
               d \<leftarrow> mem_copy buf 0 bs;
               Some (if bs = [] then if blocking (w_errno c) then 0 else -1 else int (length bs), d, c)
             }))"

subsection \<open>The thread\<close>

text \<open>
  One round of the loop of \<^verbatim>\<open>svc\<close>, with its local variables \<^verbatim>\<open>last_msg_time\<close> and \<^verbatim>\<open>send_ping_req_time\<close>. Result: whether
  the loop goes on, the variables and the state. A descriptor that is not open cannot be read.
\<close>

definition on_connect :: "client_env \<Rightarrow> bridge \<Rightarrow> (bool \<times> bridge) option" where
  "on_connect env s = do { (r, c) \<leftarrow> TCPClient_connect env (fst s); Some (\<not> r < 0, c, snd s) }"

definition tc_read :: "client_env \<Rightarrow> client_world \<Rightarrow> bytes option \<times> client_world" where
  "tc_read env c =
     (let (rd, c) = ask (e_read env) c in
      if tc_client_socket c < 0 then (None, c\<lparr>w_errno := EBADF\<rparr>)
      else case rd of
        Read_error e \<Rightarrow> (None, c\<lparr>w_errno := e\<rparr>)
      | Read bs \<Rightarrow> (Some (take (unat (of_nat MAX_BUF_SIZE - tc_cur_buf_pos c)) bs), c))"

definition svc_input :: "client_env \<Rightarrow> u32 \<Rightarrow> u32 \<Rightarrow> bridge \<Rightarrow> (bool \<times> u32 \<times> u32 \<times> bridge) option" where
  "svc_input env last_msg_time send_ping_req_time s =
     (if of_nat MAX_BUF_SIZE \<le> tc_cur_buf_pos (fst s) then Some (False, last_msg_time, send_ping_req_time, s)
      else let (rd, c) = tc_read env (fst s); s = (c, snd s) in
        case rd of
          Some (x # xs) \<Rightarrow>
            let bs = x # xs; (last_msg_time, c) = ask (e_time env) c in do {
              d \<leftarrow> mem_copy (tc_recv_buffer c) (unat (tc_cur_buf_pos c)) bs;
              let pos = tc_cur_buf_pos c + of_nat (length bs);
              (res, s) \<leftarrow> tc_process pos (c\<lparr>tc_recv_buffer := d, tc_cur_buf_pos := pos\<rparr>, snd s);
              if res = -1 then do { (go, s) \<leftarrow> on_connect env s; Some (go, last_msg_time, 0, s) }
              else Some (True, last_msg_time, 0, s)
            }
        | _ \<Rightarrow>
            if blocking (w_errno c) then do {
              (_, c) \<leftarrow> send_pingreq_msg c;
              Some (True, last_msg_time, send_ping_req_time + 1, c, snd s)
            }
            else do { (go, s) \<leftarrow> on_connect env s; Some (go, last_msg_time, send_ping_req_time, s) })"

definition svc_round :: "client_env \<Rightarrow> u32 \<Rightarrow> u32 \<Rightarrow> bridge \<Rightarrow> (bool \<times> u32 \<times> u32 \<times> bridge) option" where
  "svc_round env last_msg_time send_ping_req_time s =
     (let (running, c) = ask (e_running env) (fst s) in
      if \<not> running then Some (False, last_msg_time, send_ping_req_time, c, snd s)
      else let (cur_time, c) = ask (e_time env) c; s = (c, snd s) in
        if send_ping_req_time > 5 \<or> cur_time - last_msg_time > 5 * 60 then do {
          (go, s) \<leftarrow> on_connect env s;
          if \<not> go then Some (False, last_msg_time, 0, s) else svc_input env last_msg_time 0 s
        }
        else svc_input env last_msg_time send_ping_req_time s)"

partial_function (option) svc_loop :: "client_env \<Rightarrow> u32 \<Rightarrow> u32 \<Rightarrow> bridge \<Rightarrow> bridge option" where
  "svc_loop env last_msg_time send_ping_req_time s =
     do {
       (go, last_msg_time, send_ping_req_time, s) \<leftarrow> svc_round env last_msg_time send_ping_req_time s;
       if go then svc_loop env last_msg_time send_ping_req_time s else Some s
     }"

text \<open>The constructor sets the names and leaves the address without a value; \<^verbatim>\<open>open\<close> sets it and starts the thread.\<close>

definition TCPClient :: "cstring \<Rightarrow> cstring \<Rightarrow> client_world \<Rightarrow> client_world" where
  "TCPClient topic_name client_id c = c\<lparr>tc_server_addr := None, tc_str_client_id := client_id, tc_str_topic_name := topic_name\<rparr>"

definition TCPClient_open :: "csock_address \<Rightarrow> client_world \<Rightarrow> client_world" where
  "TCPClient_open addr c = c\<lparr>tc_client_socket := INVALID_SOCKET, tc_server_addr := Some addr\<rparr>"

definition TCPClient_svc :: "client_env \<Rightarrow> bridge \<Rightarrow> bridge option" where
  "TCPClient_svc env s =
     do {
       (_, s) \<leftarrow> on_connect env s;
       let (last_msg_time, c) = ask (e_time env) (fst s);
       s \<leftarrow> svc_loop env last_msg_time 0 (c\<lparr>tc_cur_buf_pos := 0\<rparr>, snd s);
       (_, c) \<leftarrow> send_disconnect_msg (fst s);
       Some (c, snd s)
     }"

interpretation parent: packet_loop tc_process_loop tc_process_at "\<lambda>s. Some (tc_recv_buffer (fst s))"
  "\<lambda>d n s. ((fst s)\<lparr>tc_recv_buffer := d, tc_cur_buf_pos := n\<rparr>, snd s)" "\<lambda>s. ((fst s)\<lparr>tc_cur_buf_pos := 0\<rparr>, snd s)"
  by unfold_locales (subst tc_process_loop.simps, simp add: Let_def)

subsection \<open>What is sent to the parent\<close>

text \<open>The parent takes up to \<open>n\<close> bytes at a time.\<close>

definition uplink :: "nat \<Rightarrow> client_world \<Rightarrow> bool" where
  "uplink n c \<longleftrightarrow> 0 \<le> tc_client_socket c \<and> (\<forall>i. \<exists>k\<ge>n. w_writes c i = Wrote k)"

text \<open>\<open>answered bs c c'\<close>: the bytes \<open>bs\<close> were sent, and all else that matters is as it was.\<close>

definition answered :: "bytes \<Rightarrow> client_world \<Rightarrow> client_world \<Rightarrow> bool" where
  "answered bs c c' \<longleftrightarrow> w_sent c' = (w_sent c)(tc_session c := w_sent c (tc_session c) @ bs) \<and> tc_session c' = tc_session c \<and>
     tc_client_socket c' = tc_client_socket c \<and> w_writes c' = w_writes c \<and> w_errno c' = w_errno c \<and> tc_recv_buffer c' = tc_recv_buffer c \<and>
     tc_cur_buf_pos c' = tc_cur_buf_pos c \<and> tc_str_topic_name c' = tc_str_topic_name c \<and> tc_str_client_id c' = tc_str_client_id c \<and>
     tc_junk c' = tc_junk c \<and> tc_tick c' = tc_tick c \<and> tc_slept c' = tc_slept c \<and> tc_server_addr c' = tc_server_addr c"

lemma answered_nil: "answered [] c c"
  by (simp add: answered_def)

lemma answered_trans: "answered a c1 c2 \<Longrightarrow> answered b c2 c3 \<Longrightarrow> answered (a @ b) c1 c3"
  by (simp add: answered_def)

lemma answered_uplink: "answered bs c c' \<Longrightarrow> uplink n c' = uplink n c"
  by (simp add: answered_def uplink_def)

lemma send_encoded_whole:
  assumes "encoded bs res" "bs \<noteq> []" "length bs \<le> n" "uplink n c"
  shows "\<exists>c'. send_encoded res c = Some (0, c') \<and> answered bs c c'"
proof -
  obtain m r where m: "res = Some (int (length bs), m)" "m_buf (m_mqtt_pkt m) = bs @ r" using encodedD [OF assms(1)] by blast
  obtain k where k: "0 \<le> tc_client_socket c" "w_writes c (w_calls c) = Wrote k" "length bs \<le> k"
    using assms(3,4) unfolding uplink_def by (meson order.trans)
  let ?c = "c\<lparr>w_calls := Suc (w_calls c), w_sent := (w_sent c)(tc_session c := w_sent c (tc_session c) @ bs)\<rparr>"
  have "send_encoded res c = Some (0, ?c)"
    using write_n_loop_whole(1) [OF k assms(2), of "tc_session c" r] m assms(2) by (simp add: send_encoded_def tc_write_n_def mem_read_def)
  moreover have "answered bs c ?c" by (cases c) (simp add: answered_def)
  ultimately show ?thesis by blast
qed

definition subscribe_packet :: "cstring \<Rightarrow> bytes" where
  "subscribe_packet topic = frame 0x80 (0 # 1 # topics_enc [CTopic topic 1])"

definition connect_packet :: "cstring \<Rightarrow> bytes" where
  "connect_packet cid = frame 0x10 (string_enc MQIsdp @ [3, connect_flag False, 0, 60] @ string_enc cid)"

lemma length_subscribe_packet: "length topic < 200 \<Longrightarrow> length (subscribe_packet topic) \<le> 220"
  using rl_enc_length [of "length (0 # 1 # topics_enc [CTopic topic 1])" 1]
  by (simp add: subscribe_packet_def length_frame topics_enc_def CTopic_def)

lemma length_connect_packet: "length cid < 200 \<Longrightarrow> length (connect_packet cid) \<le> 220"
  using rl_enc_length [of "length (string_enc MQIsdp @ [3, connect_flag False, 0, 60] @ string_enc cid)" 1]
  by (simp add: connect_packet_def length_frame MQIsdp_def cstr_def)

lemma send_msgs_whole:
  assumes "uplink 220 c"
  shows "\<exists>c'. send_pub_ack_msg i c = Some (0, c') \<and> answered [0x40, 2, hi_byte i, lo_byte i] c c'"
    and "\<exists>c'. send_pingreq_msg c = Some (0, c') \<and> answered [0xC0, 0] c c'"
    and "\<exists>c'. send_disconnect_msg c = Some (0, c') \<and> answered [0xE0, 0] c c'"
    and "length (tc_str_topic_name c) < 200 \<Longrightarrow> \<exists>c'. send_subscribe_msg 1 c = Some (0, c') \<and> answered (subscribe_packet (tc_str_topic_name c)) c c'"
    and "length (tc_str_client_id c) < 200 \<Longrightarrow> \<exists>c'. send_connect_msg c = Some (0, c') \<and> answered (connect_packet (tc_str_client_id c)) c c'"
proof -
  show "\<exists>c'. send_pub_ack_msg i c = Some (0, c') \<and> answered [0x40, 2, hi_byte i, lo_byte i] c c'"
    unfolding send_pub_ack_msg_def
    by (rule send_encoded_whole [OF CMqttPublishAck_encoded _ _ assms]) (simp_all add: stack_buf_def)
  show "\<exists>c'. send_pingreq_msg c = Some (0, c') \<and> answered [0xC0, 0] c c'" "\<exists>c'. send_disconnect_msg c = Some (0, c') \<and> answered [0xE0, 0] c c'"
    unfolding send_pingreq_msg_def send_disconnect_msg_def
    by (rule send_encoded_whole [OF CMqttPing_encoded(1) _ _ assms] send_encoded_whole [OF CMqttPing_encoded(3) _ _ assms]; simp add: stack_buf_def)+
  show "\<exists>c'. send_connect_msg c = Some (0, c') \<and> answered (connect_packet (tc_str_client_id c)) c c'" if t: "length (tc_str_client_id c) < 200"
  proof -
    have "encoded (connect_packet (tc_str_client_id c))
        (CMqttConnect_encode ((CMqttConnect (stack_buf 256 c) 256)\<lparr>m_clean_session := False, m_str_client_id := tc_str_client_id c\<rparr>))"
      unfolding connect_packet_def
      by (rule CMqttConnect_encoded) (use length_connect_packet [OF t] in \<open>simp_all add: stack_buf_def connect_packet_def\<close>)
    moreover have "connect_packet (tc_str_client_id c) \<noteq> []" by (simp add: connect_packet_def frame_def)
    ultimately show ?thesis
      unfolding send_connect_msg_def by (rule send_encoded_whole [OF _ _ length_connect_packet [OF t] assms])
  qed
  show "\<exists>c'. send_subscribe_msg 1 c = Some (0, c') \<and> answered (subscribe_packet (tc_str_topic_name c)) c c'" if t: "length (tc_str_topic_name c) < 200"
  proof -
    let ?c = "c\<lparr>tc_topic_qos := 1\<rparr>"
    have f: "subscribe_packet (tc_str_topic_name c) =
        frame (fixed_header_encode (CMqttFixedHeader SUBSCRIBE)) (hi_byte 1 # lo_byte 1 # topics_enc [CTopic (tc_str_topic_name c) 1])"
      by (simp add: subscribe_packet_def hi_byte_def lo_byte_def MqttType_val_def)
    have l: "length (frame (fixed_header_encode (CMqttFixedHeader SUBSCRIBE)) (hi_byte 1 # lo_byte 1 # topics_enc [CTopic (tc_str_topic_name c) 1])) \<le> unat (256 :: u32)"
      using length_subscribe_packet [OF t] unfolding f by simp
    have "encoded (subscribe_packet (tc_str_topic_name c)) (CMqttSubscribe_encode (CMqttSubscribe_topic (stack_buf 256 ?c) 256 1 (tc_str_topic_name c) 1))"
      unfolding f CMqttSubscribe_topic_def
      by (rule CMqttSubscribe_encoded [OF _ _ _ l]) (simp_all add: stack_buf_def)
    moreover have "uplink 220 ?c" using assms by (simp add: uplink_def)
    moreover have "subscribe_packet (tc_str_topic_name c) \<noteq> []" by (simp add: subscribe_packet_def frame_def)
    ultimately obtain c' where "send_encoded (CMqttSubscribe_encode (CMqttSubscribe_topic (stack_buf 256 ?c) 256 1 (tc_str_topic_name c) 1)) ?c = Some (0, c')"
        "answered (subscribe_packet (tc_str_topic_name c)) ?c c'"
      using send_encoded_whole [OF _ _ length_subscribe_packet [OF t], of _ ?c] by blast
    then have "send_subscribe_msg 1 c = Some (0, c') \<and> answered (subscribe_packet (tc_str_topic_name c)) ?c c'"
      by (simp add: send_subscribe_msg_def Let_def)
    then show ?thesis by (auto simp: answered_def)
  qed
qed

subsection \<open>Messages of the parent\<close>

datatype parent_msg = Connack u8 u8 | Message u8 cstring u16 bytes | Suback bytes | Pingresp

fun wire :: "parent_msg \<Rightarrow> bytes" where
  "wire (Connack a b) = frame 0x20 [a, b]"
| "wire (Message h t i m) = frame h (publish_body t i m)"
| "wire (Suback qs) = frame 0x90 qs"
| "wire Pingresp = frame 0xD0 []"

fun wire_ok :: "parent_msg \<Rightarrow> bool" where
  "wire_ok (Connack a b) = True"
| "wire_ok (Message h t i m) = (m_msg_type (fixed_header_decode h) = PUBLISH \<and> length (publish_body t i m) < 16384)"
| "wire_ok (Suback qs) = (length qs < 16384)"
| "wire_ok Pingresp = True"

text \<open>What the client answers, and what it hands to the broker.\<close>

fun reply :: "cstring \<Rightarrow> parent_msg \<Rightarrow> bytes" where
  "reply topic (Connack a b) = subscribe_packet topic"
| "reply topic (Message h t i m) = [0x40, 2, hi_byte i, lo_byte i]"
| "reply topic _ = []"

fun forwarded :: "parent_msg \<Rightarrow> bytes list" where
  "forwarded (Message h t i m) = [wire (Message h t i m)]"
| "forwarded _ = []"

lemma wire_packet: "wire_ok m \<Longrightarrow> packet (wire m)"
  by (cases m) (simp_all add: packet_frame)

lemma length_wire: "wire_ok m \<Longrightarrow> length (wire m) \<le> 16386" "wire m \<noteq> []"
  using packet_length [OF wire_packet] by (simp, cases m) (auto simp: frame_def)

text \<open>\<open>passed_on n ms w w'\<close>: the broker has got the packets \<open>ms\<close> in new buffers at the end of its queue.\<close>

definition passed_on :: "hid \<Rightarrow> bytes list \<Rightarrow> broker \<Rightarrow> broker \<Rightarrow> bool" where
  "passed_on n ms w w' \<longleftrightarrow> untouched w w' \<and> m_notify_deque w' = m_notify_deque w @ [w_next_addr w..<w_next_addr w + length ms] \<and>
     w_next_addr w' = w_next_addr w + length ms \<and> (\<forall>a<w_next_addr w. heap w' a = heap w a) \<and>
     (\<forall>j<length ms. \<exists>b. heap w' (w_next_addr w + j) = Some b \<and> carries b (ms ! j)) \<and> w_errno w' = w_errno w \<and>
     (\<forall>h. h \<noteq> n \<longrightarrow> w_sent w' h = w_sent w h)"

lemma passed_on_nil: "passed_on n [] w w"
  by (simp add: passed_on_def untouched_def)

lemma passed_on_trans:
  assumes "passed_on n ms w1 w2" "passed_on n ms' w2 w3"
  shows "passed_on n (ms @ ms') w1 w3"
  unfolding passed_on_def
proof (intro conjI allI impI)
  note a = assms [unfolded passed_on_def]
  show "untouched w1 w3" using untouched_trans a by blast
  show "m_notify_deque w3 = m_notify_deque w1 @ [w_next_addr w1..<w_next_addr w1 + length (ms @ ms')]"
    "w_next_addr w3 = w_next_addr w1 + length (ms @ ms')" "w_errno w3 = w_errno w1"
    using a upt_add_eq_append [of "w_next_addr w1" "w_next_addr w1 + length ms" "length ms'"] by (simp_all add: add.assoc)
  show "heap w3 a = heap w1 a" if "a < w_next_addr w1" for a using that a by simp
  show "w_sent w3 h = w_sent w1 h" if "h \<noteq> n" for h using that a by simp
  show "\<exists>b. heap w3 (w_next_addr w1 + j) = Some b \<and> carries b ((ms @ ms') ! j)" if j: "j < length (ms @ ms')" for j
  proof (cases "j < length ms")
    case True
    then show ?thesis using a by (simp add: nth_append)
  next
    case False
    then obtain i where "j = length ms + i" "i < length ms'" using j by (metis add_less_cancel_left length_append le_Suc_ex not_less)
    then show ?thesis using a by (simp add: add.assoc)
  qed
qed

lemma passed_on_notifier: "passed_on n ms w w' \<Longrightarrow> notifier n w' = notifier n w"
  by (simp add: passed_on_def untouched_def notifier_def)

lemma bridge_mbuf_effect:
  assumes "length bs \<le> 16386"
  shows "\<exists>w' b. bridge_mbuf (bs @ r) (of_nat (length bs)) i w = Some (w_next_addr w, w') \<and> untouched w w' \<and>
    heap w' = (heap w)(w_next_addr w \<mapsto> b) \<and> carries b bs \<and> m_notify_deque w' = m_notify_deque w \<and> w_errno w' = w_errno w \<and>
    w_sent w' = w_sent w \<and> w_next_addr w' = Suc (w_next_addr w) \<and> w_calls w' = w_calls w"
proof -
  let ?n = "of_nat (length bs) :: u32" and ?a = "w_next_addr w"
  let ?b0 = "CMbuf (replicate (length bs) (w_junk w)) (of_int (w_now w))"
  have u: "unat ?n = length bs" "to_int ?n = int (length bs)" using assms by (simp_all add: to_int_small)
  have cp: "mbuf_copy (bs @ r) (int (length bs)) ?b0 = Some (0, ?b0\<lparr>m_data := bs, m_write_pos := ?n\<rparr>)"
    using u(1) by (simp add: mbuf_copy_def CMbuf_def mem_read_def mem_copy_def)
  let ?b = "set_msg_type MSG_PUBLISH (set_msg_id (ucast i) (?b0\<lparr>m_data := bs, m_write_pos := ?n\<rparr>))"
  have "carries ?b bs"
    using u(1) assms by (auto simp: carries_def set_msg_type_def set_msg_id_def CMbuf_def mbuf_wf_def mbuf_contents_def read_ptr_def)
  moreover have "\<exists>w'. bridge_mbuf (bs @ r) ?n i w = Some (?a, w') \<and> untouched w w' \<and> heap w' = (heap w)(?a \<mapsto> ?b) \<and>
      m_notify_deque w' = m_notify_deque w \<and> w_errno w' = w_errno w \<and> w_sent w' = w_sent w \<and> w_next_addr w' = Suc ?a \<and> w_calls w' = w_calls w"
    using cp u by (cases w) (auto simp: bridge_mbuf_def make_mbuf_def Let_def mbuf_call_def heap_def upd_mbuf_def untouched_def fun_eq_iff)
  ultimately show ?thesis by blast
qed

lemma high_nibble: "drop_bit 4 (h AND 0xF0 :: u8) = drop_bit 4 h"
proof -
  have "unat (drop_bit 4 h) < 16"
    using unsigned_less [of h, where ?'a = nat] by (simp add: drop_bit_eq_div unat_div less_mult_imp_div_less)
  then have "take_bit 4 (drop_bit 4 h) = drop_bit 4 h"
    by (simp add: word_eq_iff_unsigned [where ?'a = nat] unsigned_take_bit_eq take_bit_nat_eq_self)
  moreover have "drop_bit 4 (h AND 0xF0) = take_bit 4 (drop_bit 4 h)"
    by (simp add: take_bit_eq_mask mask_eq_exp_minus_1)
  ultimately show ?thesis by simp
qed

lemma tc_process_msg:
  assumes "wire_ok m" "tc_recv_buffer c = pre @ wire m @ r" "length pre + length (wire m) < 2147483648"
    and "uplink 220 c" "length (tc_str_topic_name c) < 200" "notifier n w"
  shows "\<exists>c' w'. tc_process_at (of_nat (length pre)) (of_nat (length (wire m))) (c, w) = Some (0, c', w') \<and>
    answered (reply (tc_str_topic_name c) m) c c' \<and> passed_on n (forwarded m) w w'"
proof -
  let ?len = "of_nat (length (wire m)) :: u32"
  have d: "tc_process_at (of_nat (length pre)) ?len (c, w) = tc_process_mqtt (wire m @ r) ?len (c, w)"
    using assms(2,3) by (simp add: tc_process_at_def)
  note ty = to_MqttType_def mqtt_types_def
  show ?thesis
  proof (cases m)
    case (Connack a b)
    then show ?thesis
      using send_msgs_whole(4) [OF assms(4,5)] passed_on_nil unfolding d
      by (fastforce simp: tc_process_mqtt_def frame_def mem_get_def ty)
  next
    case (Suback qs)
    then show ?thesis
      unfolding d using answered_nil passed_on_nil by (fastforce simp: tc_process_mqtt_def frame_def mem_get_def ty)
  next
    case Pingresp
    then show ?thesis
      unfolding d using answered_nil passed_on_nil by (fastforce simp: tc_process_mqtt_def frame_def mem_get_def ty)
  next
    case (Message h t i p)
    have ok: "to_MqttType (drop_bit 4 (h AND 0xF0)) = PUBLISH" "length (publish_body t i p) < 16384"
      using assms(1) Message by (simp_all only: high_nibble wire_ok.simps fixed_header_decode_def fix_msg_type_def cmqtt_fixed_header.simps)
    have u: "unat ?len = length (wire m)" using length_wire(1) [OF assms(1)] by simp
    obtain q where q: "CMqttPublish_decode (CMqttPublish (wire m @ r) ?len) = Some (0, q)" "m_pub_msg_id q = i"
      using decodedD [OF CMqttPublish_decoded [OF _ ok(2), of ?len h r]] u Message by auto
    obtain w1 b where w1: "bridge_mbuf (wire m @ r) ?len i w = Some (w_next_addr w, w1)" "untouched w w1"
        "heap w1 = (heap w)(w_next_addr w \<mapsto> b)" "carries b (wire m)" "m_notify_deque w1 = m_notify_deque w" "w_errno w1 = w_errno w"
        "w_sent w1 = w_sent w" "w_next_addr w1 = Suc (w_next_addr w)"
      using bridge_mbuf_effect [OF length_wire(1) [OF assms(1)]] by blast
    have "notifier n w1" using assms(6) w1(2) by (simp add: notifier_def untouched_def)
    then obtain x w2 where w2: "poller_notify CPollerNotifyFd_notify (w_next_addr w) w1 = Some (x, w2)" "untouched w1 w2" "m_mem w2 = m_mem w1"
        "w_next_addr w2 = w_next_addr w1" "m_notify_deque w2 = m_notify_deque w1 @ [w_next_addr w]" "w_errno w2 = w_errno w1"
        "\<forall>h. h \<noteq> n \<longrightarrow> w_sent w2 h = w_sent w1 h"
      using poller_notify_effect by blast
    obtain c' where c': "send_pub_ack_msg i c = Some (0, c')" "answered [0x40, 2, hi_byte i, lo_byte i] c c'"
      using send_msgs_whole(1) [OF assms(4)] by blast
    have "tc_process_mqtt (wire m @ r) ?len (c, w) = Some (0, c', w2)"
      using q w1(1) w2(1) c'(1) ok(1) Message by (simp add: tc_process_mqtt_def frame_def mem_get_def)
    moreover have "heap w2 = (heap w)(w_next_addr w \<mapsto> b)" using w1(3) w2(3) by (simp add: heap_def)
    then have "passed_on n (forwarded m) w w2"
      using w1 w2 untouched_trans [OF w1(2) w2(2)] Message by (auto simp: passed_on_def)
    ultimately show ?thesis unfolding d using c'(2) Message by auto
  qed
qed

lemma tc_process_msgs:
  assumes "\<forall>m\<in>set ms. wire_ok m" "tc_recv_buffer c = pre @ concat (map wire ms) @ r" "length (tc_recv_buffer c) < 2147483648"
    and "uplink 220 c" "length (tc_str_topic_name c) < 200" "notifier n w"
  shows "\<exists>c' w'. handled_packets tc_process_at (\<lambda>s. Some (tc_recv_buffer (fst s))) (length pre) (map wire ms) (c, w) (c', w') \<and>
    answered (concat (map (reply (tc_str_topic_name c)) ms)) c c' \<and> passed_on n (concat (map forwarded ms)) w w'"
  using assms
proof (induction ms arbitrary: pre c w)
  case Nil
  then show ?case using answered_nil passed_on_nil by auto
next
  case (Cons m ms)
  have "tc_recv_buffer c = pre @ wire m @ concat (map wire ms) @ r" using Cons.prems(2) by simp
  then obtain c1 w1 where 1: "tc_process_at (of_nat (length pre)) (of_nat (length (wire m))) (c, w) = Some (0, c1, w1)"
      "answered (reply (tc_str_topic_name c) m) c c1" "passed_on n (forwarded m) w w1"
    using tc_process_msg [OF _ _ _ Cons.prems(4-6), of m pre "concat (map wire ms) @ r"] Cons.prems(1-3) by auto
  have c1: "tc_recv_buffer c1 = (pre @ wire m) @ concat (map wire ms) @ r" "tc_str_topic_name c1 = tc_str_topic_name c" "tc_recv_buffer c1 = tc_recv_buffer c"
    using 1(2) Cons.prems(2) by (simp_all add: answered_def)
  obtain c' w' where 2: "handled_packets tc_process_at (\<lambda>s. Some (tc_recv_buffer (fst s))) (length (pre @ wire m)) (map wire ms) (c1, w1) (c', w')"
      "answered (concat (map (reply (tc_str_topic_name c)) ms)) c1 c'" "passed_on n (concat (map forwarded ms)) w1 w'"
    using Cons.IH [OF _ c1(1), of w1] Cons.prems(1,3-6) c1(2,3) answered_uplink [OF 1(2)] passed_on_notifier [OF 1(3)] by auto
  show ?case
    using 1 2 c1(3) answered_trans [OF 1(2) 2(2)] passed_on_trans [OF 1(3) 2(3)] by auto
qed

subsection \<open>Rounds of the loop\<close>

text \<open>The first \<open>n\<close> rounds of the loop of \<^verbatim>\<open>svc\<close>.\<close>

fun svc_rounds :: "client_env \<Rightarrow> nat \<Rightarrow> u32 \<Rightarrow> u32 \<Rightarrow> bridge \<Rightarrow> (bool \<times> u32 \<times> u32 \<times> bridge) option" where
  "svc_rounds env 0 lt pt s = Some (True, lt, pt, s)"
| "svc_rounds env (Suc n) lt pt s =
     do {
       (go, lt, pt, s) \<leftarrow> svc_round env lt pt s;
       if go then svc_rounds env n lt pt s else Some (False, lt, pt, s)
     }"

lemma svc_loop_rounds:
  assumes "svc_rounds env n lt pt s = Some (True, lt', pt', s')"
  shows "svc_loop env lt pt s = svc_loop env lt' pt' s'"
  using assms
proof (induction n arbitrary: lt pt s)
  case (Suc n)
  then show ?case by (subst svc_loop.simps) (auto simp: bind_eq_Some_conv split: if_splits)
qed simp

lemma svc_rounds_add:
  assumes "svc_rounds env n lt pt s = Some (True, lt', pt', s')"
  shows "svc_rounds env (n + m) lt pt s = svc_rounds env m lt' pt' s'"
  using assms
proof (induction n arbitrary: lt pt s)
  case (Suc n)
  then show ?case by (auto simp: bind_eq_Some_conv split: if_splits)
qed simp

text \<open>The environment lets the client run and gives it the segments \<open>ss\<close> to read, never with a pause of five minutes.\<close>

fun feeds :: "client_env \<Rightarrow> nat \<Rightarrow> u32 \<Rightarrow> bytes list \<Rightarrow> bool" where
  "feeds env i lt [] = True"
| "feeds env i lt (s # ss) \<longleftrightarrow> e_running env i \<and> e_time env (i + 1) - lt \<le> 300 \<and> e_read env (i + 2) = Read s \<and>
     feeds env (i + 4) (e_time env (i + 3)) ss"

text \<open>\<open>cuts l es\<close>: each entry of \<open>es\<close> has a segment of the stream, the messages it completes and what is then left; \<open>l\<close>
  is left at the beginning.\<close>

fun cuts :: "bytes \<Rightarrow> (bytes \<times> parent_msg list \<times> bytes) list \<Rightarrow> bool" where
  "cuts l [] = True"
| "cuts l ((bs, ms, l') # es) \<longleftrightarrow> bs \<noteq> [] \<and> length (l @ bs) \<le> 4096 \<and> l @ bs = concat (map wire ms) @ l' \<and> (\<forall>m\<in>set ms. wire_ok m) \<and>
     partial_packet l' \<and> length l' < 4096 \<and> cuts l' es"

text \<open>\<open>connected n l c\<close>: the client is connected, \<open>l\<close> is in its buffer, and the parent takes what it sends.\<close>

definition connected :: "bytes \<Rightarrow> client_world \<Rightarrow> bool" where
  "connected l c \<longleftrightarrow> uplink 220 c \<and> length (tc_recv_buffer c) = 4096 \<and> unat (tc_cur_buf_pos c) = length l \<and> length l < 4096 \<and>
     take (length l) (tc_recv_buffer c) = l \<and> length (tc_str_topic_name c) < 200"

lemma svc_input_segment:
  assumes "connected l c" "notifier n w" "e_read env (tc_tick c) = Read bs" "cuts l ((bs, ms, l') # es)"
  shows "\<exists>c' w'. svc_input env lt pt (c, w) = Some (True, e_time env (tc_tick c + 1), 0, c', w') \<and> connected l' c' \<and>
    tc_tick c' = tc_tick c + 2 \<and> tc_session c' = tc_session c \<and> tc_str_topic_name c' = tc_str_topic_name c \<and> tc_slept c' = tc_slept c \<and>
    w_sent c' = (w_sent c)(tc_session c := w_sent c (tc_session c) @ concat (map (reply (tc_str_topic_name c)) ms)) \<and>
    passed_on n (concat (map forwarded ms)) w w'"
proof -
  note cut = assms(4) [simplified]
  note con = assms(1) [unfolded connected_def]
  let ?p = "tc_cur_buf_pos c" and ?junk = "drop (length l + length bs) (tc_recv_buffer c)"
  let ?c1 = "c\<lparr>tc_tick := tc_tick c + 2, tc_recv_buffer := l @ bs @ ?junk, tc_cur_buf_pos := ?p + of_nat (length bs)\<rparr>"
  have len: "length l + length bs = length (concat (map wire ms) @ l')" using cut by (metis length_append)
  have pos: "unat (?p + of_nat (length bs)) = length l + length bs" "unat (4096 - ?p) = 4096 - length l" "\<not> 4096 \<le> ?p"
    using con cut by (simp_all add: unat_add_u32 unat_sub_u32 word_le_nat_alt)
  have "(l @ bs) @ ?junk = (concat (map wire ms) @ l') @ ?junk" using cut by presburger
  then have buf: "tc_recv_buffer ?c1 = [] @ concat (map wire ms) @ l' @ ?junk" "length (tc_recv_buffer ?c1) = 4096"
    using cut con by simp_all
  have "uplink 220 ?c1" using con by (simp add: uplink_def)
  then obtain c2 w2 where 2: "handled_packets tc_process_at (\<lambda>s. Some (tc_recv_buffer (fst s))) 0 (map wire ms) (?c1, w) (c2, w2)"
      "answered (concat (map (reply (tc_str_topic_name c)) ms)) ?c1 c2" "passed_on n (concat (map forwarded ms)) w w2"
    using tc_process_msgs [OF _ buf(1) _ _ _ assms(2)] cut con buf(2) by auto
  have d: "drop 0 (tc_recv_buffer (fst (?c1, w))) = concat (map wire ms) @ l' @ ?junk" using buf(1) by simp
  have c2: "tc_recv_buffer c2 = tc_recv_buffer ?c1" using 2(2) by (simp add: answered_def)
  define c3 where "c3 = (if l' = [] then c2\<lparr>tc_cur_buf_pos := 0\<rparr> else if length (concat (map wire ms)) = 0 then c2
      else c2\<lparr>tc_recv_buffer := l' @ drop (length l') (tc_recv_buffer c2), tc_cur_buf_pos := of_nat (length l')\<rparr>)"
  have "tc_process_loop 0 (of_nat (length (concat (map wire ms) @ l'))) (?c1, w) = Some (0, c3, w2)"
    using parent.process_packets [OF 2(1) refl d] cut buf(2) wire_packet c2 by (auto simp: c3_def)
  moreover have "of_nat (length (concat (map wire ms) @ l')) = ?p + of_nat (length bs)"
    unfolding len [symmetric] using con by (simp add: word_unat_eq_iff) (metis of_nat_unat ucast_id)
  ultimately have pr: "tc_process (?p + of_nat (length bs)) (?c1, w) = Some (0, c3, w2)" by (simp add: tc_process_def)
  obtain x xs where bs: "bs = x # xs" using cut by (cases bs) auto
  have fits: "length bs \<le> 4096 - length l" using cut by linarith
  have rd: "tc_read env c = (Some bs, c\<lparr>tc_tick := Suc (tc_tick c)\<rparr>)"
    using con assms(3) pos(2) fits by (simp add: tc_read_def ask_def uplink_def MAX_BUF_SIZE_def)
  have cp: "mem_copy (tc_recv_buffer c) (unat ?p) bs = Some (l @ bs @ ?junk)"
    using con cut by (simp add: mem_copy_def)
  have "svc_input env lt pt (c, w) = Some (True, e_time env (tc_tick c + 1), 0, c3, w2)"
    using rd cp pr pos(3) bs by (simp add: svc_input_def ask_def MAX_BUF_SIZE_def)
  moreover have "connected l' c3"
  proof (cases "ms = []")
    case True
    then have l: "l' = l @ bs" and "c3 = c2" using cut by (auto simp: c3_def)
    then show ?thesis
      using con cut c2 buf pos(1) 2(2) answered_uplink [OF 2(2)] True unfolding l
      by (auto simp: connected_def answered_def uplink_def)
  next
    case False
    then have "length (concat (map wire ms)) \<noteq> 0" using length_wire(2) by (cases ms) auto
    then show ?thesis
      using con cut c2 buf(2) 2(2) answered_uplink [OF 2(2)] by (auto simp: connected_def c3_def answered_def uplink_def)
  qed
  ultimately show ?thesis using 2 by (fastforce simp: c3_def answered_def)
qed

text \<open>All messages that the segments of \<open>es\<close> complete.\<close>

definition msgs_of :: "(bytes \<times> parent_msg list \<times> bytes) list \<Rightarrow> parent_msg list" where
  "msgs_of es = concat (map (fst \<circ> snd) es)"

lemma cuts_ok: "cuts l es \<Longrightarrow> \<forall>m\<in>set (msgs_of es). wire_ok m"
  by (induction l es rule: cuts.induct) (auto simp: msgs_of_def)

lemma svc_rounds_segments:
  assumes "connected l c" "notifier n w" "feeds env (tc_tick c) lt (map fst es)" "cuts l es" "pt \<le> 5"
  shows "\<exists>lt' pt' c' w' l'. svc_rounds env (length es) lt pt (c, w) = Some (True, lt', pt', c', w') \<and> connected l' c' \<and>
    tc_session c' = tc_session c \<and>
    w_sent c' (tc_session c) = w_sent c (tc_session c) @ concat (map (reply (tc_str_topic_name c)) (msgs_of es)) \<and>
    passed_on n (concat (map forwarded (msgs_of es))) w w'"
  using assms
proof (induction es arbitrary: l c w lt pt)
  case Nil
  then show ?case using passed_on_nil by (auto simp: msgs_of_def)
next
  case (Cons e es)
  obtain bs ms l1 where e: "e = (bs, ms, l1)" by (cases e)
  let ?i = "tc_tick c" and ?c0 = "c\<lparr>tc_tick := tc_tick c + 2\<rparr>"
  have f: "e_running env ?i" "e_time env (?i + 1) - lt \<le> 300" "e_read env (tc_tick ?c0) = Read bs" "feeds env (?i + 4) (e_time env (?i + 3)) (map fst es)"
    using Cons.prems(3) e by simp_all
  have tick: "?i + 3 = Suc (Suc (Suc ?i))" "?i + 4 = Suc (Suc (Suc (Suc ?i)))" by simp_all
  have "connected l ?c0" using Cons.prems(1) by (simp add: connected_def uplink_def)
  then obtain c1 w1 where 1: "svc_input env lt pt (?c0, w) = Some (True, e_time env (?i + 3), 0, c1, w1)" "connected l1 c1"
      "tc_tick c1 = ?i + 4" "tc_session c1 = tc_session c" "tc_str_topic_name c1 = tc_str_topic_name c"
      "w_sent c1 (tc_session c) = w_sent c (tc_session c) @ concat (map (reply (tc_str_topic_name c)) ms)"
      "passed_on n (concat (map forwarded ms)) w w1"
    using svc_input_segment [OF _ Cons.prems(2) f(3), of l ms l1 es lt pt] Cons.prems(4) e tick by (auto simp: add.commute)
  have "svc_round env lt pt (c, w) = svc_input env lt pt (?c0, w)"
    using f(1,2) Cons.prems(5) by (simp add: svc_round_def ask_def not_less [symmetric])
  moreover have "cuts l1 es" using Cons.prems(4) e by simp
  ultimately show ?case
    using Cons.IH [OF 1(2) _ _ \<open>cuts l1 es\<close>, of w1 "e_time env (?i + 3)" 0] 1 f(4) passed_on_notifier [OF 1(7)] Cons.prems(2) e
      passed_on_trans [OF 1(7)]
    by (fastforce simp: msgs_of_def)
qed

subsection \<open>From the parent to the subscribers\<close>

fun topic_of :: "parent_msg \<Rightarrow> cstring" where
  "topic_of (Message h t i m) = t"
| "topic_of _ = []"

fun is_message :: "parent_msg \<Rightarrow> bool" where
  "is_message (Message h t i m) = True"
| "is_message _ = False"

text \<open>The broker can deliver the message in the bridge mode: it is not a retained one, and its audience is reached.\<close>

fun can_deliver :: "int \<Rightarrow> broker \<Rightarrow> parent_msg \<Rightarrow> bool" where
  "can_deliver bridge w (Message h t i m) \<longleftrightarrow> \<not> m_retain_flag (fixed_header_decode h) \<and> reaches bridge w t \<and>
     (\<forall>j. \<exists>k\<ge>length (wire (Message h t i m)). w_writes w j = Wrote k)"
| "can_deliver bridge w _ = True"

lemma forwarded_filter: "concat (map forwarded ms) = map wire (filter is_message ms)"
proof (induction ms)
  case (Cons m ms)
  then show ?case by (cases m) simp_all
qed simp

lemma passed_on_deliverable:
  assumes "passed_on n (map wire ms) w w'" "\<forall>m\<in>set ms. is_message m \<and> wire_ok m \<and> can_deliver bridge w m" "\<not> blocking (w_errno w)" "j < length ms"
  shows "deliverable bridge w' (w_next_addr w + j) (topic_of (ms ! j))" "contents w' (w_next_addr w + j) = wire (ms ! j)"
proof -
  obtain h t i p where m: "ms ! j = Message h t i p" "wire_ok (Message h t i p)" "can_deliver bridge w (Message h t i p)"
    using assms(2,4) by (metis is_message.elims(2) nth_mem)
  obtain b where b: "heap w' (w_next_addr w + j) = Some b" "carries b (frame h (publish_body t i p))" "untouched w w'" "w_errno w' = w_errno w"
    using assms(1,4) m(1) by (force simp: passed_on_def)
  note c = carries_publish [OF b(1,2)]
  have "takes w' (w_next_addr w + j)"
    using c m b assms(3) by (simp add: takes_def untouched_def)
  then show "deliverable bridge w' (w_next_addr w + j) (topic_of (ms ! j))"
    using c(1) m untouched_views(1) [OF b(3,4)] by (simp add: deliverable_def)
  show "contents w' (w_next_addr w + j) = wire (ms ! j)" using c(3) m by simp
qed

subsection \<open>Properties\<close>

text \<open>
  C3. From the parent broker to the clients: a connected client that receives the byte stream of its parent in segments
  of at most 4096 bytes with what is left of the one before, cut anywhere but inside a fixed header, answers every
  message as the protocol wants it (SUBSCRIBE to CONNACK, PUBACK with its id to PUBLISH) and hands every PUBLISH packet
  to the broker, each once and in order. When the broker's thread then handles the notification, every connection is
  sent these packets byte for byte and in the order of the parent: in the mode 0 those to the topics of its client,
  in the mode 3 each of them, whatever its topic, once for every topic its client subscribes to. It is assumed that the
  packets have bodies below 16384 bytes, that the parent and the clients take whole packets, that no message is a retained
  one, that its topic, in the mode 3 every topic, is known to the broker with clients that can be served, that nothing
  else is queued for the notifier, and that the broker is notified only when all segments are read.
\<close>

theorem bridge_delivers_in_order:
  assumes "connected l c" "feeds env (tc_tick c) lt (map fst es)" "cuts l es" "pt \<le> 5"
    and "notifier n w" "m_notify_deque w = []" "\<not> blocking (w_errno w)" "\<forall>m\<in>set (msgs_of es). can_deliver bridge w m"
  shows "\<exists>lt' pt' c' w1 w2. svc_rounds env (length es) lt pt (c, w) = Some (True, lt', pt', c', w1) \<and>
    w_sent c' (tc_session c) = w_sent c (tc_session c) @ concat (map (reply (tc_str_topic_name c)) (msgs_of es)) \<and>
    CPollerNotifyFd_handle_input bridge (Read ev) n w1 = Some (0, w2) \<and> m_notify_deque w2 = [] \<and>
    (\<forall>h. h \<noteq> n \<longrightarrow> w_sent w2 h = w_sent w h @
       concat (map (\<lambda>m. concat (replicate (copies bridge w h (topic_of m)) (wire m))) (filter is_message (msgs_of es))))"
proof -
  let ?ms = "filter is_message (msgs_of es)" and ?a = "w_next_addr w"
  have ok: "\<forall>m\<in>set (msgs_of es). wire_ok m" using assms(3) by (rule cuts_ok)
  obtain lt' pt' c' w1 where 1: "svc_rounds env (length es) lt pt (c, w) = Some (True, lt', pt', c', w1)"
      "w_sent c' (tc_session c) = w_sent c (tc_session c) @ concat (map (reply (tc_str_topic_name c)) (msgs_of es))"
      "passed_on n (map wire ?ms) w w1"
    using svc_rounds_segments [OF assms(1,5,2,3,4)] by (auto simp: forwarded_filter)
  have ms: "\<forall>m\<in>set ?ms. is_message m \<and> wire_ok m \<and> can_deliver bridge w m" using ok assms(8) by auto
  note d = passed_on_deliverable [OF 1(3) ms assms(7)]
  let ?q = "zip [?a..<?a + length ?ms] (map topic_of ?ms)"
  have q: "m_notify_deque w1 = map fst ?q" using 1(3) assms(6) by (simp add: passed_on_def)
  have "\<forall>(a, t)\<in>set ?q. deliverable bridge w1 a t" using d(1) by (auto simp: in_set_zip)
  then obtain w2 where 2: "notify_loop bridge w1 = Some (0, w2)" "m_notify_deque w2 = []" "\<forall>h. w_sent w2 h = w_sent w1 h @ sent_of bridge w1 h ?q"
    using notify_loop_delivers [OF q, of bridge] by auto
  have u: "untouched w w1" "w_errno w1 = w_errno w" "m_handlers w1 n \<noteq> None" "\<forall>h. h \<noteq> n \<longrightarrow> w_sent w1 h = w_sent w h"
    using 1(3) assms(5) by (auto simp: passed_on_def untouched_def notifier_def)
  have "map (\<lambda>(a, t). concat (replicate (copies bridge w1 h t) (contents w1 a))) ?q =
      map (\<lambda>m. concat (replicate (copies bridge w h (topic_of m)) (wire m))) ?ms" for h
    by (rule nth_equalityI) (use d(2) untouched_views(2) [OF u(1,2)] in \<open>simp_all\<close>)
  then have "sent_of bridge w1 h ?q = concat (map (\<lambda>m. concat (replicate (copies bridge w h (topic_of m)) (wire m))) ?ms)" for h
    by (simp add: sent_of_def)
  then show ?thesis
    using 1(1,2) 2 u by (auto simp: CPollerNotifyFd_handle_input_def)
qed

text \<open>A parent that accepts the connection and sends a message, whose packet arrives in two pieces.\<close>

definition demo_client :: client_world where
  "demo_client =
     \<lparr>m_mem = \<lparr>w_heap = Map.empty, w_store = CMsgMemStore 0\<rparr>, m_handlers = Map.empty, m_map_event_handlers = [], m_running_flag = True,
      m_notify_writer = None, m_notify_deque = [], m_epoll = Map.empty, w_errno = 0, w_writes = (\<lambda>_. Wrote 300), w_calls = 0, w_sent = (\<lambda>_. []),
      tc_recv_buffer = replicate 4096 0, tc_cur_buf_pos = 0, tc_client_socket = 9, tc_server_addr = Some (cstr ''10.0.0.1'', 1883), tc_str_client_id = [66], tc_str_topic_name = [65],
      tc_topic_qos = 0, tc_junk = 0, tc_session = 1, tc_slept = [], tc_tick = 0\<rparr>"

definition demo_env :: "(nat \<Rightarrow> read_res) \<Rightarrow> client_env" where
  "demo_env rd = \<lparr>e_socket = (\<lambda>_. 9), e_connect = (\<lambda>_ _. True), e_running = (\<lambda>_. True), e_time = (\<lambda>_. 0), e_read = rd\<rparr>"

lemma demo_client_ok: "connected [] demo_client" "tc_tick demo_client = 0" "tc_session demo_client = 1" "w_sent demo_client = (\<lambda>_. [])"
  "tc_str_topic_name demo_client = [65]"
  by (simp_all add: connected_def demo_client_def uplink_def)

definition demo_cuts :: "(bytes \<times> parent_msg list \<times> bytes) list" where
  "demo_cuts = [([0x20, 2, 0, 0, 0x30, 6, 0], [Connack 0 0], [0x30, 6, 0]), ([1, 65, 0, 7, 9], [Message 0x30 [65] 7 [9]], [])]"

theorem bridge_delivers_in_order_witness:
  "\<exists>lt' pt' c' w1 w2. svc_rounds (demo_env (\<lambda>i. if i = 2 then Read [0x20, 2, 0, 0, 0x30, 6, 0] else Read [1, 65, 0, 7, 9])) 2 0 0 (demo_client, notified_broker) =
      Some (True, lt', pt', c', w1) \<and> w_sent c' 1 = subscribe_packet [65] @ [0x40, 2, 0, 7] \<and>
    CPollerNotifyFd_handle_input 2 (Read [1]) 6 w1 = Some (0, w2) \<and> w_sent w2 7 = [0x30, 6, 0, 1, 65, 0, 7, 9]"
proof -
  let ?env = "demo_env (\<lambda>i. if i = 2 then Read [0x20, 2, 0, 0, 0x30, 6, 0] else Read [1, 65, 0, 7, 9])"
  have w: "wire (Message 0x30 [65] 7 [9]) = [0x30, 6, 0, 1, 65, 0, 7, 9]" "wire (Connack 0 0) = [0x20, 2, 0, 0]"
    by (simp_all add: frame_def publish_body_def rl_enc_one string_enc_def hi_byte_def lo_byte_def)
  have p: "partial_packet [0x30, 6, 0]" "partial_packet []" by (auto simp: partial_packet_def rl_enc_one intro!: exI [of _ "6 :: nat"])
  have "wire_ok (Message 0x30 [65] 7 [9])"
    by (simp add: fixed_header_decode_def fix_msg_type_def to_MqttType_def mqtt_types_def publish_body_def)
  then have cuts: "cuts [] demo_cuts" using w p by (simp add: demo_cuts_def)
  have feeds: "feeds ?env 0 0 (map fst demo_cuts)" by (simp add: demo_cuts_def demo_env_def)
  have m: "msgs_of demo_cuts = [Connack 0 0, Message 0x30 [65] 7 [9]]" by (simp add: msgs_of_def demo_cuts_def)
  have "\<not> m_retain_flag (fixed_header_decode 0x30)" by (simp add: fixed_header_decode_def fix_retain_def)
  then have d: "can_deliver 2 notified_broker (Message 0x30 [65] 7 [9])"
    unfolding can_deliver.simps w(1) using notified_broker_ok(4,10) by auto
  then have d: "\<forall>m\<in>set (msgs_of demo_cuts). can_deliver 2 notified_broker m" unfolding m by (simp del: can_deliver.simps(1))
  have f: "filter is_message (msgs_of demo_cuts) = [Message 0x30 [65] 7 [9]]" unfolding m by simp
  have r: "concat (map (reply [65]) (msgs_of demo_cuts)) = subscribe_packet [65] @ [0x40, 2, 0, 7]"
    unfolding m by (simp add: hi_byte_def lo_byte_def)
  have n: "length demo_cuts = 2" by (simp add: demo_cuts_def)
  obtain lt' pt' c' w1 w2 where 1: "svc_rounds ?env 2 0 0 (demo_client, notified_broker) = Some (True, lt', pt', c', w1)"
      "w_sent c' 1 = w_sent demo_client 1 @ concat (map (reply [65]) (msgs_of demo_cuts))"
      "CPollerNotifyFd_handle_input 2 (Read [1]) 6 w1 = Some (0, w2)"
      "\<forall>h. h \<noteq> 6 \<longrightarrow> w_sent w2 h = w_sent notified_broker h @
        concat (map (\<lambda>m. concat (replicate (copies 2 notified_broker h (topic_of m)) (wire m))) (filter is_message (msgs_of demo_cuts)))"
    using bridge_delivers_in_order [OF demo_client_ok(1) feeds [folded demo_client_ok(2)] cuts _ notified_broker_ok(1-3) d, of 0 "[1]"]
    unfolding n demo_client_ok(3,5) by auto
  have "w_sent w2 7 = [0x30, 6, 0, 1, 65, 0, 7, 9]" using 1(4) [rule_format, of 7] unfolding f notified_broker_ok(8) by (simp add: w(1) notified_broker_ok(12) del: wire.simps)
  moreover have "w_sent c' 1 = subscribe_packet [65] @ [0x40, 2, 0, 7]" using 1(2) unfolding r demo_client_ok(4) by simp
  ultimately show ?thesis using 1(1,3) by blast
qed

end
