(* ===== verification/Bridge_Reconnect.thy ===== *)
theory Bridge_Reconnect
  imports Bridge_Client
begin

text \<open>
  How the bridge keeps its connection (\<^verbatim>\<open>src/mqtt_server/tcp_client.cpp\<close>): attempts to connect that fail are repeated
  with growing pauses, a parent that is silent is asked for a sign of life and then left, and whatever the parent
  and the kernel do, the client object stays well-formed and no read leaves its buffer.
\<close>

subsection \<open>Attempts to connect\<close>

text \<open>The pause after the attempt number \<open>k\<close>: 1, 2, 4, 8, 16 seconds and again from 1.\<close>

definition pause :: "nat \<Rightarrow> u32" where
  "pause k = 2 ^ (k mod 5)"

lemma mod_5_cases:
  fixes k :: nat
  obtains "k mod 5 = 0" | "k mod 5 = 1" | "k mod 5 = 2" | "k mod 5 = 3" | "k mod 5 = 4"
  by linarith

lemma pause_next: "(if 32 \<le> pause k * 2 then 1 else pause k * 2) = pause (Suc k)"
  by (rule mod_5_cases [of k]) (simp_all add: pause_def mod_Suc)

lemma pause_small: "unat (pause k) \<le> 16" "pause 0 = 1"
  by (rule mod_5_cases [of k]) (simp_all add: pause_def)

text \<open>The answers of the environment from the call \<open>i\<close> on: \<open>n\<close> attempts to connect to the address fail while the client is
  to run.\<close>

definition refuses :: "client_env \<Rightarrow> csock_address option \<Rightarrow> nat \<Rightarrow> nat \<Rightarrow> bool" where
  "refuses env addr i n \<longleftrightarrow> (\<forall>k<n. \<not> e_connect env addr (i + 2 * k) \<and> e_running env (i + 2 * k + 1))"

lemma refuses_Suc: "refuses env addr i (Suc n) \<longleftrightarrow> \<not> e_connect env addr i \<and> e_running env (Suc i) \<and> refuses env addr (i + 2) n"
  by (simp add: refuses_def All_less_Suc2)

lemma connect_loop_attempts:
  assumes "refuses env (tc_server_addr c) (tc_tick c) n"
  shows "connect_loop env (pause j) c =
    connect_loop env (pause (j + n)) (c\<lparr>tc_slept := tc_slept c @ map pause [j..<j + n], tc_tick := tc_tick c + 2 * n\<rparr>)"
  using assms
proof (induction n arbitrary: j c)
  case (Suc n)
  let ?c = "c\<lparr>tc_tick := tc_tick c + 2, tc_slept := tc_slept c @ [pause j]\<rparr>"
  have "connect_loop env (pause j) c = connect_loop env (pause (Suc j)) ?c"
    using Suc.prems by (subst connect_loop.simps) (simp add: ask_def Let_def pause_next refuses_Suc)
  moreover have "[j..<j + Suc n] = j # [Suc j..<Suc j + n]" by (simp add: upt_conv_Cons del: upt_Suc)
  ultimately show ?case using Suc.IH [of ?c "Suc j"] Suc.prems by (simp add: refuses_Suc del: upt_Suc)
qed simp

text \<open>The kernel takes whatever is written to an open socket, up to 220 bytes at a time; the descriptor is valid or not there.\<close>

definition ready :: "client_world \<Rightarrow> bool" where
  "ready c \<longleftrightarrow> (tc_client_socket c = INVALID_SOCKET \<or> 0 \<le> tc_client_socket c) \<and> (\<forall>i. \<exists>k\<ge>220. w_writes c i = Wrote k) \<and>
     length (tc_str_client_id c) < 200"

definition goodbye :: "client_world \<Rightarrow> bytes" where
  "goodbye c = (if tc_client_socket c = INVALID_SOCKET then [] else [0xE0, 0])"

text \<open>The old connection is closed.\<close>

lemma leave_parent:
  assumes "ready c"
  shows "\<exists>c'. (if tc_client_socket c \<noteq> INVALID_SOCKET then do {
                (_, c) \<leftarrow> send_disconnect_msg c;
                Some (c\<lparr>tc_client_socket := INVALID_SOCKET\<rparr>)
              } else Some c) = Some (c'\<lparr>tc_client_socket := INVALID_SOCKET\<rparr>) \<and> answered (goodbye c) c c'"
proof (cases "tc_client_socket c = INVALID_SOCKET")
  case True
  then have "c\<lparr>tc_client_socket := INVALID_SOCKET\<rparr> = c" by simp
  then show ?thesis using True answered_nil [of c] by (metis goodbye_def)
next
  case False
  then show ?thesis using assms send_msgs_whole(3) [of c] by (auto simp: ready_def uplink_def goodbye_def)
qed

lemma TCPClient_connect_attempts:
  assumes "ready c" "0 \<le> e_socket env (tc_tick c)" "refuses env (tc_server_addr c) (Suc (tc_tick c)) n" "e_connect env (tc_server_addr c) (Suc (tc_tick c) + 2 * n)"
  shows "\<exists>c'. TCPClient_connect env c = Some (0, c') \<and> tc_slept c' = tc_slept c @ map pause [0..<n] \<and> tc_tick c' = tc_tick c + 2 * n + 2 \<and>
    tc_session c' = Suc (tc_session c) \<and> tc_cur_buf_pos c' = 0 \<and> tc_client_socket c' = e_socket env (tc_tick c) \<and>
    w_sent c' = (w_sent c)(tc_session c := w_sent c (tc_session c) @ goodbye c,
      Suc (tc_session c) := w_sent c (Suc (tc_session c)) @ connect_packet (tc_str_client_id c)) \<and>
    tc_recv_buffer c' = tc_recv_buffer c \<and> w_writes c' = w_writes c \<and> w_errno c' = w_errno c \<and> tc_str_topic_name c' = tc_str_topic_name c \<and>
    tc_str_client_id c' = tc_str_client_id c"
proof -
  obtain c1 where 1: "(if tc_client_socket c \<noteq> INVALID_SOCKET then do { (_, c) \<leftarrow> send_disconnect_msg c; Some (c\<lparr>tc_client_socket := INVALID_SOCKET\<rparr>) }
        else Some c) = Some (c1\<lparr>tc_client_socket := INVALID_SOCKET\<rparr>)" "answered (goodbye c) c c1"
    using leave_parent [OF assms(1)] by blast
  let ?fd = "e_socket env (tc_tick c)"
  let ?c2 = "c1\<lparr>tc_tick := Suc (tc_tick c), tc_client_socket := ?fd, tc_session := Suc (tc_session c)\<rparr>"
  let ?c3 = "?c2\<lparr>tc_slept := tc_slept c @ map pause [0..<n], tc_tick := tc_tick c + 2 * n + 2\<rparr>"
  note a = 1(2) [unfolded answered_def]
  have "connect_loop env 1 ?c2 = Some (True, ?c3)"
    using connect_loop_attempts [of env ?c2 n 0] assms(3,4) a pause_small(2)
    by (simp add: connect_loop.simps [of _ "pause n"] ask_def del: upt_Suc)
  moreover have "uplink 220 ?c3" "length (tc_str_client_id ?c3) < 200" using assms(1,2) a by (auto simp: uplink_def ready_def)
  then obtain c4 where 4: "send_connect_msg ?c3 = Some (0, c4)" "answered (connect_packet (tc_str_client_id ?c3)) ?c3 c4"
    using send_msgs_whole(5) by blast
  ultimately have "TCPClient_connect env c = Some (0, c4\<lparr>tc_cur_buf_pos := 0\<rparr>)"
    unfolding TCPClient_connect_def 1(1) using assms(2) a by (simp add: ask_def)
  then show ?thesis using 4(2) a by (auto simp: answered_def)
qed

subsection \<open>A silent parent\<close>

text \<open>From the call \<open>i\<close> on, \<open>n\<close> reads time out while the client is to run, all within five minutes of \<open>lt\<close>.\<close>

definition silent :: "client_env \<Rightarrow> nat \<Rightarrow> u32 \<Rightarrow> nat \<Rightarrow> bool" where
  "silent env i lt n \<longleftrightarrow> (\<forall>k<n. e_running env (i + 3 * k) \<and> e_time env (i + 3 * k + 1) - lt \<le> 300 \<and> e_read env (i + 3 * k + 2) = Read_error EAGAIN)"

lemma silent_Suc:
  "silent env i lt (Suc n) \<longleftrightarrow> e_running env i \<and> e_time env (Suc i) - lt \<le> 300 \<and> e_read env (i + 2) = Read_error EAGAIN \<and> silent env (i + 3) lt n"
  by (simp add: silent_def All_less_Suc2 ac_simps)

lemma svc_input_silent:
  assumes "connected l c" "e_read env (tc_tick c) = Read_error EAGAIN"
  shows "\<exists>c'. svc_input env lt pt (c, w) = Some (True, lt, pt + 1, c', w) \<and> answered [0xC0, 0] (c\<lparr>tc_tick := Suc (tc_tick c), w_errno := EAGAIN\<rparr>) c'"
proof -
  let ?c = "c\<lparr>tc_tick := Suc (tc_tick c), w_errno := EAGAIN\<rparr>"
  have c: "\<not> 4096 \<le> tc_cur_buf_pos c" "0 \<le> tc_client_socket c" "uplink 220 ?c"
    using assms(1) by (simp_all add: connected_def uplink_def word_le_nat_alt)
  obtain c' where c': "send_pingreq_msg ?c = Some (0, c')" "answered [0xC0, 0] ?c c'" using send_msgs_whole(2) [OF c(3)] by blast
  have "tc_read env c = (None, ?c)" using c(2) assms(2) by (cases c) (simp add: tc_read_def ask_def)
  then show ?thesis using c(1) c' by (simp add: svc_input_def MAX_BUF_SIZE_def blocking_def)
qed

lemma answered_connected:
  assumes "answered bs c c'" "connected l c"
  shows "connected l c'"
  using assms answered_uplink [OF assms(1)] by (auto simp: connected_def answered_def)

lemma svc_rounds_silent:
  assumes "connected l c" "silent env (tc_tick c) lt n" "unat pt + n \<le> 6"
  shows "\<exists>c'. svc_rounds env n lt pt (c, w) = Some (True, lt, pt + of_nat n, c', w) \<and> connected l c' \<and> tc_tick c' = tc_tick c + 3 * n \<and>
    tc_session c' = tc_session c \<and> tc_str_client_id c' = tc_str_client_id c \<and> tc_slept c' = tc_slept c \<and> w_writes c' = w_writes c \<and>
    tc_client_socket c' = tc_client_socket c \<and> tc_str_topic_name c' = tc_str_topic_name c \<and> tc_server_addr c' = tc_server_addr c \<and>
    w_sent c' = (w_sent c)(tc_session c := w_sent c (tc_session c) @ concat (replicate n [0xC0, 0]))"
  using assms
proof (induction n arbitrary: c pt)
  case (Suc n)
  let ?c = "c\<lparr>tc_tick := tc_tick c + 2\<rparr>"
  have con: "connected l ?c" using Suc.prems(1) by (simp add: connected_def uplink_def)
  obtain c1 where 1: "svc_input env lt pt (?c, w) = Some (True, lt, pt + 1, c1, w)" "answered [0xC0, 0] (?c\<lparr>tc_tick := Suc (tc_tick c + 2), w_errno := EAGAIN\<rparr>) c1"
    using svc_input_silent [OF con, of env lt pt w] Suc.prems(2) by (auto simp: silent_Suc)
  have pt: "\<not> pt > 5" "unat (pt + 1) = unat pt + 1" using Suc.prems(3) by (simp_all add: word_less_nat_alt unat_add_u32)
  have "svc_round env lt pt (c, w) = Some (True, lt, pt + 1, c1, w)"
    using 1(1) pt(1) Suc.prems(2) by (simp add: svc_round_def ask_def silent_Suc not_less [symmetric])
  moreover have "connected l c1" using answered_connected [OF 1(2), of l] con by (simp add: connected_def uplink_def)
  moreover have a: "tc_tick c1 = tc_tick c + 3" "tc_session c1 = tc_session c" "tc_str_client_id c1 = tc_str_client_id c" "tc_slept c1 = tc_slept c"
      "w_writes c1 = w_writes c" "tc_client_socket c1 = tc_client_socket c" "tc_str_topic_name c1 = tc_str_topic_name c" "tc_server_addr c1 = tc_server_addr c"
      "w_sent c1 = (w_sent c)(tc_session c := w_sent c (tc_session c) @ [0xC0, 0])"
    using 1(2) by (simp_all add: answered_def)
  moreover have "silent env (tc_tick c1) lt n" using Suc.prems(2) a(1) by (simp add: silent_Suc)
  ultimately show ?case
    using Suc.IH [of c1 "pt + 1"] Suc.prems(3) pt(2) by (auto simp: add.assoc fun_eq_iff)
qed simp

text \<open>The answers of the kernel when the client then connects again: \<open>n\<close> attempts fail, the next one succeeds.\<close>

definition accepts_after :: "client_env \<Rightarrow> csock_address option \<Rightarrow> nat \<Rightarrow> nat \<Rightarrow> bool" where
  "accepts_after env addr i n \<longleftrightarrow> 0 \<le> e_socket env i \<and> refuses env addr (Suc i) n \<and> e_connect env addr (Suc i + 2 * n)"

text \<open>
  C15. A parent that does not answer is left: as long as reads time out, the client sends one PINGREQ per read; after the
  sixth it sends DISCONNECT, opens a new socket, tries to connect with pauses of 1, 2, 4, 8 and 16 seconds (and again
  from 1) until the parent accepts, and sends CONNECT there; it then waits for the answer with an empty buffer.
\<close>

theorem silent_parent_is_left:
  assumes "connected l c" "length (tc_str_client_id c) < 200" "silent env (tc_tick c) lt 6" "e_running env (tc_tick c + 18)"
    and "accepts_after env (tc_server_addr c) (tc_tick c + 20) n" "e_read env (tc_tick c + 2 * n + 22) = Read [0x20, 2, a, b]" "notifier h w"
  shows "\<exists>lt' c' w'. svc_rounds env 7 lt 0 (c, w) = Some (True, lt', 0, c', w') \<and> connected [] c' \<and> tc_session c' = Suc (tc_session c) \<and>
    tc_slept c' = tc_slept c @ map (\<lambda>k. 2 ^ (k mod 5)) [0..<n] \<and> m_notify_deque w' = m_notify_deque w \<and>
    w_sent c' (tc_session c) = w_sent c (tc_session c) @ concat (replicate 6 [0xC0, 0]) @ [0xE0, 0] \<and>
    w_sent c' (Suc (tc_session c)) = w_sent c (Suc (tc_session c)) @ connect_packet (tc_str_client_id c) @ subscribe_packet (tc_str_topic_name c)"
proof -
  obtain c1 where 1: "svc_rounds env 6 lt 0 (c, w) = Some (True, lt, 6, c1, w)" "connected l c1" "tc_tick c1 = tc_tick c + 18"
      "tc_session c1 = tc_session c" "tc_str_client_id c1 = tc_str_client_id c" "tc_slept c1 = tc_slept c" "tc_str_topic_name c1 = tc_str_topic_name c"
      "w_sent c1 = (w_sent c)(tc_session c := w_sent c (tc_session c) @ concat (replicate 6 [0xC0, 0]))" "tc_server_addr c1 = tc_server_addr c"
    using svc_rounds_silent [OF assms(1,3), of 0 w] by auto
  let ?c2 = "c1\<lparr>tc_tick := tc_tick c + 20\<rparr>"
  have r: "ready ?c2" "goodbye ?c2 = [0xE0, 0]" using 1(2,5) assms(2) by (auto simp: ready_def goodbye_def connected_def uplink_def INVALID_SOCKET_def)
  obtain c3 where 3: "TCPClient_connect env ?c2 = Some (0, c3)" "tc_slept c3 = tc_slept c @ map pause [0..<n]" "tc_tick c3 = tc_tick c + 2 * n + 22"
      "tc_session c3 = Suc (tc_session c)" "tc_cur_buf_pos c3 = 0" "tc_client_socket c3 = e_socket env (tc_tick c + 20)"
      "w_sent c3 = (w_sent c1)(tc_session c := w_sent c1 (tc_session c) @ [0xE0, 0],
         Suc (tc_session c) := w_sent c1 (Suc (tc_session c)) @ connect_packet (tc_str_client_id c))"
      "tc_recv_buffer c3 = tc_recv_buffer c1" "w_writes c3 = w_writes c1" "tc_str_topic_name c3 = tc_str_topic_name c"
    using TCPClient_connect_attempts [OF r(1), of env n] r(2) assms(5) 1(4-7,9) by (auto simp: accepts_after_def)
  have con: "connected [] c3" using 1(2) 3(5-10) assms(5) by (auto simp: connected_def uplink_def accepts_after_def 1(7))
  have "cuts [] [([0x20, 2, a, b], [Connack a b], [])]" by (simp add: frame_def rl_enc_one partial_packet_def)
  from svc_input_segment [OF con assms(7) _ this, of env lt 0] obtain c4 w4 where
    4: "svc_input env lt 0 (c3, w) = Some (True, e_time env (tc_tick c3 + 1), 0, c4, w4)" "connected [] c4" "tc_session c4 = tc_session c3"
      "tc_slept c4 = tc_slept c3" "w_sent c4 = (w_sent c3)(tc_session c3 := w_sent c3 (tc_session c3) @ subscribe_packet (tc_str_topic_name c3))"
      "passed_on h [] w w4"
    using assms(6) 3(3) by auto
  have "svc_round env lt 6 (c1, w) = svc_input env lt 0 (c3, w)"
    using 3(1) assms(4) 1(3) by (simp add: svc_round_def ask_def on_connect_def add.commute [of 20])
  then have "svc_rounds env 7 lt 0 (c, w) = Some (True, e_time env (tc_tick c3 + 1), 0, c4, w4)"
    using svc_rounds_add [OF 1(1), of 1] 4(1) by (simp add: numeral_eq_Suc)
  then show ?thesis
    using 1 3 4 by (auto simp: pause_def [abs_def] passed_on_def)
qed

text \<open>A parent that stays silent, refuses one attempt and then accepts.\<close>

theorem silent_parent_is_left_witness:
  "\<exists>lt' c' w'. svc_rounds \<lparr>e_socket = (\<lambda>_. 9), e_connect = (\<lambda>_ i. i \<noteq> 21), e_running = (\<lambda>_. True), e_time = (\<lambda>_. 0),
        e_read = (\<lambda>i. if i = 24 then Read [0x20, 2, 0, 0] else Read_error EAGAIN)\<rparr> 7 0 0 (demo_client, notified_broker) = Some (True, lt', 0, c', w') \<and>
     tc_slept c' = [1] \<and> w_sent c' 1 = [0xC0, 0, 0xC0, 0, 0xC0, 0, 0xC0, 0, 0xC0, 0, 0xC0, 0, 0xE0, 0] \<and>
     w_sent c' 2 = connect_packet [66] @ subscribe_packet [65]"
proof -
  let ?env = "\<lparr>e_socket = (\<lambda>_. 9), e_connect = (\<lambda>_ i. i \<noteq> 21), e_running = (\<lambda>_. True), e_time = (\<lambda>_. 0),
        e_read = (\<lambda>i. if i = 24 then Read [0x20, 2, 0, 0] else Read_error EAGAIN)\<rparr>"
  have c: "tc_str_client_id demo_client = [66]" "tc_slept demo_client = []" by (simp_all add: demo_client_def)
  have s: "silent ?env 0 0 6" by (simp add: silent_def)
  have a: "accepts_after ?env (tc_server_addr demo_client) 20 1" by (simp add: accepts_after_def refuses_def)
  have r: "concat (replicate 6 [0xC0, 0]) = ([0xC0, 0, 0xC0, 0, 0xC0, 0, 0xC0, 0, 0xC0, 0, 0xC0, 0] :: bytes)" by (simp add: numeral_eq_Suc)
  show ?thesis
    using silent_parent_is_left [of "[]" demo_client ?env 0 1 0 0 6 notified_broker, OF demo_client_ok(1)] s a notified_broker_ok(1) c
    unfolding demo_client_ok(2-5) r by (simp add: numeral_2_eq_2) blast
qed

subsection \<open>The client object stays well-formed\<close>

text \<open>The buffer has its size, and the position of the next byte is in it or at its end.\<close>

definition client_wf :: "client_world \<Rightarrow> bool" where
  "client_wf c \<longleftrightarrow> length (tc_recv_buffer c) = MAX_BUF_SIZE \<and> unat (tc_cur_buf_pos c) \<le> MAX_BUF_SIZE"

lemma client_wf_updates [simp]:
  "client_wf (c\<lparr>tc_tick := i\<rparr>) = client_wf c" "client_wf (c\<lparr>tc_slept := l\<rparr>) = client_wf c" "client_wf (c\<lparr>tc_session := n\<rparr>) = client_wf c"
  "client_wf (c\<lparr>tc_client_socket := fd\<rparr>) = client_wf c" "client_wf (c\<lparr>tc_topic_qos := q\<rparr>) = client_wf c" "client_wf (c\<lparr>w_errno := e\<rparr>) = client_wf c"
  "client_wf c \<Longrightarrow> client_wf (c\<lparr>tc_cur_buf_pos := 0\<rparr>)"
  by (simp_all add: client_wf_def)

lemma send_encoded_wf:
  assumes J: "client_wf c" and Q: "\<And>r c'. client_wf c' \<Longrightarrow> Q (r, c')"
  shows "wp (send_encoded res c) Q"
proof -
  have "client_wf c'" if "write_n_loop fd h buf len c = Some (ok, c')" for fd h buf len ok c'
    using write_n_loop_frame [OF that] J by (cases c; cases c') (simp add: client_wf_def)
  then have wr: "wp (write_n_loop fd h buf len c) Q'" if "\<And>r c'. client_wf c' \<Longrightarrow> Q' (r, c')" for fd h buf len Q'
    using that by (auto simp: wp_def)
  show ?thesis
    using J by (auto simp: send_encoded_def tc_write_n_def intro!: Q wr wpI [of "mem_read b i n" for b i n] wpI [of res])
qed

lemma send_wf:
  assumes J: "client_wf c" and Q: "\<And>r c'. client_wf c' \<Longrightarrow> Q (r, c')"
  shows "wp (send_connect_msg c) Q" "wp (send_pingreq_msg c) Q" "wp (send_disconnect_msg c) Q" "wp (send_pub_ack_msg i c) Q" "wp (send_subscribe_msg i c) Q"
  using J by (auto simp: send_connect_msg_def send_pingreq_msg_def send_disconnect_msg_def send_pub_ack_msg_def send_subscribe_msg_def Let_def
      intro!: send_encoded_wf Q)

lemma connect_loop_wf:
  assumes J: "client_wf c" and Q: "\<And>r c'. client_wf c' \<Longrightarrow> Q (r, c')"
  shows "wp (connect_loop env t c) Q"
proof -
  have "client_wf c \<longrightarrow> client_wf (snd y)" if "connect_loop env t c = Some y" for y
  proof (rule connect_loop.raw_induct [where P = "\<lambda>env t c y. client_wf c \<longrightarrow> client_wf (snd y)", OF _ that], goal_cases)
    case (1 f env t c y)
    have f: "wp (f env t c) Q" if "client_wf c" "\<And>r c'. client_wf c' \<Longrightarrow> Q (r, c')" for t c Q
      using 1(1) that by (fastforce simp: wp_def)
    show ?case
      by (rule impI, rule wpD [where Q = "\<lambda>y. client_wf (snd y)", OF _ 1(2)]) (auto simp: ask_def Let_def intro!: f)
  qed
  then show ?thesis using J Q by (force simp: wp_def)
qed

lemma TCPClient_connect_wf:
  assumes J: "client_wf c" and Q: "\<And>r c'. client_wf c' \<Longrightarrow> Q (r, c')"
  shows "wp (TCPClient_connect env c) Q"
  using J by (auto simp: TCPClient_connect_def ask_def Let_def intro!: Q send_wf connect_loop_wf)

lemma on_connect_wf:
  assumes J: "client_wf (fst s)" and Q: "\<And>r s'. client_wf (fst s') \<Longrightarrow> Q (r, s')"
  shows "wp (on_connect env s) Q"
  using J by (auto simp: on_connect_def intro!: Q TCPClient_connect_wf)

lemma tc_process_at_wf:
  assumes J: "client_wf (fst s)" and Q: "\<And>r s'. client_wf (fst s') \<Longrightarrow> Q (r, s')"
  shows "wp (tc_process_at off len s) Q"
  using J by (cases s) (auto simp: tc_process_at_def tc_process_mqtt_def split: MqttType.split
      intro!: Q send_wf wpI [of "mem_get b i" for b i] wpI [of "CMqttPublish_decode m" for m] wpI [of "bridge_mbuf b n i w" for b n i w]
        wpI [of "poller_notify f a w" for f a w])

lemma wp_mem_copy: "(\<And>d. length d = length buf \<Longrightarrow> Q d) \<Longrightarrow> wp (mem_copy buf i vs) Q"
  using mem_copy_length by (auto simp: wp_def)

lemma tc_process_loop_wf:
  assumes J: "client_wf (fst s)" and len: "unat len \<le> MAX_BUF_SIZE" and Q: "\<And>r s'. client_wf (fst s') \<Longrightarrow> Q (r, s')"
  shows "wp (tc_process_loop off len s) Q"
proof -
  let ?P = "\<lambda>off len (s :: bridge) y. client_wf (fst s) \<and> unat len \<le> MAX_BUF_SIZE \<longrightarrow> client_wf (fst (snd y))"
  have "?P off len s y" if "tc_process_loop off len s = Some y" for y
  proof (rule tc_process_loop.raw_induct [where P = ?P, OF _ that], goal_cases)
    case (1 f off len s y)
    have d: "off < len \<Longrightarrow> unat (len - off) \<le> unat len" by (simp add: unat_sub_u32 word_less_nat_alt word_le_nat_alt)
    have f: "wp (f off len s) Q" if "client_wf (fst s)" "unat len \<le> MAX_BUF_SIZE" "\<And>r s'. client_wf (fst s') \<Longrightarrow> Q (r, s')" for off s Q
      using 1(1) that by (fastforce simp: wp_def)
    show ?case
      by (rule impI, rule wpD [where Q = "\<lambda>y. client_wf (fst (snd y))", OF _ 1(2)])
        (use d in \<open>auto simp: Let_def intro!: tc_process_at_wf f wp_mem_copy wpI [of "remain_length b n" for b n] wpI [of "mem_read b i n" for b i n];
          simp add: client_wf_def\<close>)
  qed
  then show ?thesis using J len Q by (force simp: wp_def)
qed

lemma tc_read_wf:
  assumes "tc_read env c = (rd, c')" "client_wf c"
  shows "client_wf c'" "tc_cur_buf_pos c' = tc_cur_buf_pos c" "rd = Some bs \<Longrightarrow> length bs \<le> MAX_BUF_SIZE - unat (tc_cur_buf_pos c)"
  using assms by (auto simp: tc_read_def ask_def unat_sub_u32 word_le_nat_alt client_wf_def MAX_BUF_SIZE_def split: if_splits read_res.splits)

lemma svc_input_wf:
  assumes J: "client_wf (fst s)" and Q: "\<And>go lt pt s'. client_wf (fst s') \<Longrightarrow> Q (go, lt, pt, s')"
  shows "wp (svc_input env lt pt s) Q"
proof -
  obtain rd c where rd: "tc_read env (fst s) = (rd, c)" by fastforce
  note c = tc_read_wf [OF rd J]
  have pos: "client_wf (c\<lparr>tc_tick := i, tc_recv_buffer := d, tc_cur_buf_pos := tc_cur_buf_pos c + of_nat (length bs)\<rparr>)"
      "unat (tc_cur_buf_pos c + of_nat (length bs)) \<le> MAX_BUF_SIZE"
    if "rd = Some bs" "length d = length (tc_recv_buffer c)" for i d bs
  proof -
    have "unat (tc_cur_buf_pos c) + length bs \<le> MAX_BUF_SIZE" using c that(1) by (auto simp: client_wf_def)
    then show "unat (tc_cur_buf_pos c + of_nat (length bs)) \<le> MAX_BUF_SIZE" by (simp add: unat_add_u32 MAX_BUF_SIZE_def)
    then show "client_wf (c\<lparr>tc_tick := i, tc_recv_buffer := d, tc_cur_buf_pos := tc_cur_buf_pos c + of_nat (length bs)\<rparr>)"
      using c(1) that(2) by (simp add: client_wf_def)
  qed
  show ?thesis
    using J c(1) pos(1) [of "x # xs" for x xs] pos(2) [of "x # xs" for x xs]
    by (auto simp: svc_input_def rd ask_def tc_process_def Let_def split: option.split list.split
        intro!: Q send_wf on_connect_wf wp_mem_copy tc_process_loop_wf)
qed

lemma svc_round_wf:
  assumes J: "client_wf (fst s)" and Q: "\<And>go lt pt s'. client_wf (fst s') \<Longrightarrow> Q (go, lt, pt, s')"
  shows "wp (svc_round env lt pt s) Q"
  using J by (auto simp: svc_round_def ask_def Let_def intro!: Q on_connect_wf svc_input_wf)

lemma tc_read_fits:
  assumes "tc_read env c = (Some bs, c')" "client_wf c"
  shows "unat (tc_cur_buf_pos c) + length bs \<le> MAX_BUF_SIZE"
    "mem_copy (tc_recv_buffer c') (unat (tc_cur_buf_pos c')) bs =
       Some (take (unat (tc_cur_buf_pos c)) (tc_recv_buffer c) @ bs @ drop (unat (tc_cur_buf_pos c) + length bs) (tc_recv_buffer c))"
proof -
  show le: "unat (tc_cur_buf_pos c) + length bs \<le> MAX_BUF_SIZE"
    using tc_read_wf(3) [OF assms refl] assms(2) unfolding client_wf_def by linarith
  have "tc_recv_buffer c' = tc_recv_buffer c" using assms(1) by (auto simp: tc_read_def ask_def split: if_splits read_res.splits)
  then show "mem_copy (tc_recv_buffer c') (unat (tc_cur_buf_pos c')) bs =
       Some (take (unat (tc_cur_buf_pos c)) (tc_recv_buffer c) @ bs @ drop (unat (tc_cur_buf_pos c) + length bs) (tc_recv_buffer c))"
    using le tc_read_wf(2) [OF assms] assms(2) by (simp add: mem_copy_def client_wf_def)
qed

text \<open>
  C20. No read of the bridge client leaves its receive buffer. Whatever the parent sends and the kernel answers, after
  any number of rounds the buffer has its 4096 bytes and the position is not beyond its end; and then, however many
  bytes the kernel has, those that the next read takes fit: they are stored behind the ones that are kept, which stay
  as they are, and the bytes after them stay too.
\<close>

theorem client_reads_stay_inside:
  assumes "client_wf c" "svc_rounds env n lt pt (c, w) = Some (go, lt', pt', c', w')"
  shows "client_wf c' \<and> (\<forall>env' bs c''. tc_read env' c' = (Some bs, c'') \<longrightarrow>
    unat (tc_cur_buf_pos c') + length bs \<le> 4096 \<and>
    mem_copy (tc_recv_buffer c'') (unat (tc_cur_buf_pos c'')) bs =
      Some (take (unat (tc_cur_buf_pos c')) (tc_recv_buffer c') @ bs @ drop (unat (tc_cur_buf_pos c') + length bs) (tc_recv_buffer c')))"
proof -
  have "wp (svc_rounds env n lt pt s) (\<lambda>(go, lt, pt, s'). client_wf (fst s'))" if "client_wf (fst s)" for s
    using that by (induction n arbitrary: lt pt s) (auto intro!: svc_round_wf)
  from wpD [OF this [of "(c, w)"] assms(2)] assms(1) have "client_wf c'" by simp
  then show ?thesis using tc_read_fits by (auto simp: MAX_BUF_SIZE_def)
qed

text \<open>After six rounds without an answer a read of 5000 bytes is cut to the buffer.\<close>

theorem client_reads_stay_inside_witness:
  "\<exists>go lt' pt' c' w' bs c''. svc_rounds (demo_env (\<lambda>_. Read_error EAGAIN)) 6 0 0 (demo_client, notified_broker) = Some (go, lt', pt', c', w') \<and>
     tc_read (demo_env (\<lambda>_. Read (replicate 5000 1))) c' = (Some bs, c'') \<and> unat (tc_cur_buf_pos c') + length bs \<le> 4096 \<and>
     mem_copy (tc_recv_buffer c'') (unat (tc_cur_buf_pos c'')) bs \<noteq> None"
proof -
  let ?env = "demo_env (\<lambda>_. Read (replicate 5000 1))"
  have "silent (demo_env (\<lambda>_. Read_error EAGAIN)) (tc_tick demo_client) 0 6" by (simp add: silent_def demo_env_def)
  then obtain go lt' pt' c' w' where 1: "connected [] c'"
    "svc_rounds (demo_env (\<lambda>_. Read_error EAGAIN)) 6 0 0 (demo_client, notified_broker) = Some (go, lt', pt', c', w')"
    using svc_rounds_silent [OF demo_client_ok(1), of "demo_env (\<lambda>_. Read_error EAGAIN)" 0 6 0 notified_broker] by auto
  have "\<exists>bs c''. tc_read ?env c' = (Some bs, c'')" using 1(1) by (simp add: tc_read_def ask_def demo_env_def connected_def uplink_def)
  then obtain bs c'' where 2: "tc_read ?env c' = (Some bs, c'')" by blast
  have "client_wf demo_client" by (simp add: client_wf_def demo_client_def MAX_BUF_SIZE_def)
  from client_reads_stay_inside [OF this 1(2)] 2 show ?thesis using 1(2) by blast
qed

end
