(* ===== verification/Tinyxml.thy ===== *)
theory Tinyxml
  imports Str_Tools
begin

unbundle bit_operations_syntax

text \<open>
  The XML parser that reads the configuration: \<^verbatim>\<open>src/common/tinyxml2.cpp\<close> and \<^verbatim>\<open>include/common/tinyxml2.h\<close>, from
  \<^verbatim>\<open>XMLDocument::LoadFile\<close> down to the characters.

  A \<^verbatim>\<open>char *\<close> into the buffer of the document is the list of the bytes up to the terminating zero, so \<^verbatim>\<open>*p == 0\<close> is
  \<open>p = []\<close>; a null pointer is \<^const>\<open>None\<close>. A \<^verbatim>\<open>StrPair\<close> holds two pointers into the buffer and is converted when its string is
  asked for; it then writes only between its own pointers and at the end one. The strings of a document do not overlap
  and parsing has passed them, so that their values are computed here when they are parsed. Linked lists of nodes and
  attributes are lists; node memory is not modelled.

  \<^verbatim>\<open>XMLNode::ParseDeep\<close> and \<^verbatim>\<open>XMLElement::ParseDeep\<close> call each other; the recursion is a \<^theory_text>\<open>partial_function\<close>, and it is
  a theorem that it ends on every input.
\<close>

subsection \<open>XMLUtil\<close>

definition IsWhiteSpace :: "u8 \<Rightarrow> bool" where
  "IsWhiteSpace c \<longleftrightarrow> c AND 0x80 = 0 \<and> isspace c"

definition SkipWhiteSpace :: "bytes \<Rightarrow> bytes" where
  "SkipWhiteSpace p = dropWhile IsWhiteSpace p"

definition is_alpha :: "u8 \<Rightarrow> bool" where
  "is_alpha c \<longleftrightarrow> 65 \<le> c \<and> c \<le> 90 \<or> 97 \<le> c \<and> c \<le> 122"

definition IsNameStartChar :: "u8 \<Rightarrow> bool" where
  "IsNameStartChar c \<longleftrightarrow> c \<ge> 128 \<or> is_alpha c \<or> c = 58 \<or> c = 95"

definition IsNameChar :: "u8 \<Rightarrow> bool" where
  "IsNameChar c \<longleftrightarrow> IsNameStartChar c \<or> is_digit c \<or> c = 46 \<or> c = 45"

text \<open>\<^verbatim>\<open>StringEqual(p, q, strlen(q))\<close> and \<^verbatim>\<open>strncmp\<close> with the length of the pattern.\<close>

definition starts_with :: "bytes \<Rightarrow> bytes \<Rightarrow> bool" where
  "starts_with q p \<longleftrightarrow> take (length q) p = q"

definition ReadBOM :: "bytes \<Rightarrow> bool \<times> bytes" where
  "ReadBOM p = (if starts_with [0xEF, 0xBB, 0xBF] p then (True, drop 3 p) else (False, p))"

text \<open>The bytes are written from the last to the first.\<close>

definition ConvertUTF32ToUTF8 :: "u64 \<Rightarrow> bytes" where
  "ConvertUTF32ToUTF8 input =
     (let tail = (\<lambda>x :: u64. ucast ((x OR 0x80) AND 0xBF) :: u8) in
      if input < 0x80 then [ucast (input OR 0)]
      else if input < 0x800 then [ucast (drop_bit 6 input OR 0xC0), tail input]
      else if input < 0x10000 then [ucast (drop_bit 12 input OR 0xE0), tail (drop_bit 6 input), tail input]
      else if input < 0x200000 then
        [ucast (drop_bit 18 input OR 0xF0), tail (drop_bit 12 input), tail (drop_bit 6 input), tail input]
      else [])"

definition hex_digit :: "u8 \<Rightarrow> u32 option" where
  "hex_digit c =
     (if 48 \<le> c \<and> c \<le> 57 then Some (ucast (c - 48))
      else if 97 \<le> c \<and> c \<le> 102 then Some (ucast (c - 97 + 10))
      else if 65 \<le> c \<and> c \<le> 70 then Some (ucast (c - 65 + 10))
      else None)"

definition dec_digit :: "u8 \<Rightarrow> u32 option" where
  "dec_digit c = (if 48 \<le> c \<and> c \<le> 57 then Some (ucast (c - 48)) else None)"

text \<open>The loops over the digits, from the last one on; \<^verbatim>\<open>mult\<close> has 32 bits and \<^verbatim>\<open>ucs\<close> has 64.\<close>

fun ref_digits :: "(u8 \<Rightarrow> u32 option) \<Rightarrow> u32 \<Rightarrow> bytes \<Rightarrow> u32 \<Rightarrow> u64 \<Rightarrow> u64 option" where
  "ref_digits digit base [] mult ucs = Some ucs"
| "ref_digits digit base (c # cs) mult ucs =
     (case digit c of None \<Rightarrow> None | Some d \<Rightarrow> ref_digits digit base cs (mult * base) (ucs + ucast (mult * d)))"

text \<open>\<open>p\<close> begins with an ampersand and a number sign. The digits end, read backwards, at the first \<^verbatim>\<open>x\<close> or number sign.\<close>

definition GetCharacterRef :: "bytes \<Rightarrow> (bytes \<times> bytes) option" where
  "GetCharacterRef p =
     (case drop 2 p of
        [] \<Rightarrow> Some ([], drop 1 p)
      | x # r \<Rightarrow>
          (let hex = (x = 120); q = (if hex then r else x # r) in
           if 59 \<notin> set q then None
           else
             let digits = takeWhile (\<lambda>c. c \<noteq> (if hex then 120 else 35)) (rev (takeWhile (\<lambda>c. c \<noteq> 59) q)) in
             map_option (\<lambda>ucs. (ConvertUTF32ToUTF8 ucs, tl (dropWhile (\<lambda>c. c \<noteq> 59) q)))
               (ref_digits (if hex then hex_digit else dec_digit) (if hex then 16 else 10) digits 1 0)))"

subsection \<open>StrPair\<close>

text \<open>The text before the first occurrence of the end tag, and what follows the tag.\<close>

fun ParseText :: "bytes \<Rightarrow> bytes \<Rightarrow> (bytes \<times> bytes) option" where
  "ParseText endTag [] = None"
| "ParseText endTag (c # p) =
     (if starts_with endTag (c # p) then Some ([], drop (length endTag) (c # p))
      else map_option (apfst (Cons c)) (ParseText endTag p))"

definition ParseName :: "bytes \<Rightarrow> (cstring \<times> bytes) option" where
  "ParseName p =
     (case p of
        [] \<Rightarrow> None
      | c # q \<Rightarrow> if IsNameStartChar c then Some (c # takeWhile IsNameChar q, dropWhile IsNameChar q) else None)"

definition entities :: "(bytes \<times> u8) list" where
  "entities = [(cstr ''quot'', 34), (cstr ''amp'', 38), (cstr ''apos'', 39), (cstr ''lt'', 60), (cstr ''gt'', 62)]"

definition find_entity :: "bytes \<Rightarrow> (bytes \<times> u8) option" where
  "find_entity p = find (\<lambda>(pattern, _). starts_with (pattern @ [59]) p) entities"

text \<open>
  The loop of \<^verbatim>\<open>GetStr\<close> with its read pointer \<open>p\<close>; \<open>out\<close> is what is written so far, in place over \<open>text\<close>. For an ampersand
  that begins no entity the write pointer moves on without a write: the byte there is still the one of \<open>text\<close>.
\<close>

definition GetStr_step :: "bool \<Rightarrow> bytes \<Rightarrow> bytes \<Rightarrow> bytes \<Rightarrow> bytes \<times> bytes" where
  "GetStr_step ent text p out =
     (case p of
        [] \<Rightarrow> ([], out)
      | c # q \<Rightarrow>
          if c = 13 then (if starts_with [10] q then tl q else q, out @ [10])
          else if c = 10 then (if starts_with [13] q then tl q else q, out @ [10])
          else if ent \<and> c = 38 then
            if starts_with [35] q then
              (case GetCharacterRef p of None \<Rightarrow> (q, out @ [c]) | Some (value, adjusted) \<Rightarrow> (adjusted, out @ value))
            else
              (case find_entity q of
                 Some (pattern, value) \<Rightarrow> (drop (length pattern + 1) q, out @ [value])
               | None \<Rightarrow> (q, out @ [text ! length out]))
          else (q, out @ [c]))"

lemma ref_shorter:
  assumes "GetCharacterRef p = Some (v, r)" "p \<noteq> []"
  shows "length r < length p"
proof -
  have d: "length (dropWhile (\<lambda>c. c \<noteq> 59) xs) \<le> length xs" for xs :: bytes by (rule length_dropWhile_le)
  show ?thesis
  proof (cases "drop 2 p")
    case Nil
    then show ?thesis using assms by (auto simp: GetCharacterRef_def)
  next
    case (Cons x q)
    then have "length p = Suc (Suc (Suc (length q)))" using length_drop [of 2 p] by simp
    then show ?thesis using assms(1) Cons d [of q] by (auto simp: GetCharacterRef_def Let_def split: if_splits)
  qed
qed

lemma step_shorter: "p \<noteq> [] \<Longrightarrow> length (fst (GetStr_step ent text p out)) < length p"
  by (auto simp: GetStr_step_def ref_shorter split: list.splits option.splits dest: ref_shorter)

function GetStr_loop :: "bool \<Rightarrow> bytes \<Rightarrow> bytes \<Rightarrow> bytes \<Rightarrow> bytes" where
  "GetStr_loop ent text p out =
     (if p = [] then out else GetStr_loop ent text (fst (GetStr_step ent text p out)) (snd (GetStr_step ent text p out)))"
  by auto
termination
  by (relation "measure (\<lambda>(ent, text, p, out). length p)") (simp_all add: step_shorter split_beta)

declare GetStr_loop.simps [simp del]

function collapse_loop :: "bytes \<Rightarrow> bytes" where
  "collapse_loop [] = []"
| "collapse_loop (c # p) =
     (if IsWhiteSpace c then (case SkipWhiteSpace p of [] \<Rightarrow> [] | d # q \<Rightarrow> 32 # d # collapse_loop q)
      else c # collapse_loop p)"
  by pat_completeness auto
termination
proof (relation "measure length", simp_all)
  fix p q :: bytes and d
  assume "SkipWhiteSpace p = d # q"
  then show "length q < Suc (length p)" using length_dropWhile_le [of IsWhiteSpace p] by (simp add: SkipWhiteSpace_def)
qed

definition CollapseWhitespace :: "bytes \<Rightarrow> bytes" where
  "CollapseWhitespace s = collapse_loop (SkipWhiteSpace s)"

text \<open>
  The value of a string with the flags for newline normalisation and, if \<open>ent\<close>, for entities. A reference to the
  character 0 ends the string.
\<close>

definition GetStr :: "bool \<Rightarrow> bool \<Rightarrow> bytes \<Rightarrow> cstring" where
  "GetStr ent collapse text =
     (let s = takeWhile (\<lambda>c. c \<noteq> 0) (GetStr_loop ent text text []) in if collapse then CollapseWhitespace s else s)"

subsection \<open>Nodes\<close>

text \<open>The tree. An element has a name, attributes and children; a text may come from a CDATA section.\<close>

datatype xml_node =
    XMLElement cstring "(cstring \<times> cstring) list" "xml_node list"
  | XMLText cstring bool
  | XMLComment cstring
  | XMLDeclaration cstring
  | XMLUnknown cstring

datatype XMLError = XML_NO_ERROR | XML_NO_ATTRIBUTE | XML_WRONG_ATTRIBUTE_TYPE | XML_ERROR_FILE_NOT_FOUND
  | XML_ERROR_FILE_COULD_NOT_BE_OPENED | XML_ERROR_FILE_READ_ERROR | XML_ERROR_ELEMENT_MISMATCH | XML_ERROR_PARSING_ELEMENT
  | XML_ERROR_PARSING_ATTRIBUTE | XML_ERROR_IDENTIFYING_TAG | XML_ERROR_PARSING_TEXT | XML_ERROR_PARSING_CDATA
  | XML_ERROR_PARSING_COMMENT | XML_ERROR_PARSING_DECLARATION | XML_ERROR_PARSING_UNKNOWN | XML_ERROR_EMPTY_DOCUMENT
  | XML_ERROR_MISMATCHED_ELEMENT | XML_ERROR_PARSING | XML_CAN_NOT_CONVERT_TEXT | XML_NO_TEXT_NODE

text \<open>The options of a document: whether entities are processed and white space is collapsed.\<close>

record xml_options =
  processEntities :: bool
  collapse :: bool

text \<open>A null pointer as the result of parsing: the error that was set, if any.\<close>

type_synonym 'a parsed = "XMLError option + 'a \<times> bytes"

definition parsed_text :: "bytes \<Rightarrow> XMLError \<Rightarrow> (bytes \<Rightarrow> xml_node) \<Rightarrow> bytes \<Rightarrow> xml_node parsed" where
  "parsed_text endTag e node p =
     (case ParseText endTag p of None \<Rightarrow> Inl (Some e) | Some (text, p) \<Rightarrow> Inr (node text, p))"

definition XMLComment_ParseDeep :: "bytes \<Rightarrow> xml_node parsed" where
  "XMLComment_ParseDeep = parsed_text (cstr ''-->'') XML_ERROR_PARSING_COMMENT (\<lambda>t. XMLComment (GetStr False False t))"

definition XMLDeclaration_ParseDeep :: "bytes \<Rightarrow> xml_node parsed" where
  "XMLDeclaration_ParseDeep = parsed_text (cstr ''?>'') XML_ERROR_PARSING_DECLARATION (\<lambda>t. XMLDeclaration (GetStr False False t))"

definition XMLUnknown_ParseDeep :: "bytes \<Rightarrow> xml_node parsed" where
  "XMLUnknown_ParseDeep = parsed_text [62] XML_ERROR_PARSING_UNKNOWN (\<lambda>t. XMLUnknown (GetStr False False t))"

text \<open>A text ends before the next tag. A document that ends with the opening bracket gives a null pointer without an error.\<close>

definition XMLText_ParseDeep :: "xml_options \<Rightarrow> bool \<Rightarrow> bytes \<Rightarrow> xml_node parsed" where
  "XMLText_ParseDeep opt cdata p =
     (if cdata then parsed_text (cstr '']]>'') XML_ERROR_PARSING_CDATA (\<lambda>t. XMLText (GetStr False False t) True) p
      else
        case ParseText [60] p of
          None \<Rightarrow> Inl (Some XML_ERROR_PARSING_TEXT)
        | Some (t, q) \<Rightarrow>
            if q = [] then Inl None else Inr (XMLText (GetStr (processEntities opt) (collapse opt) t) False, 60 # q))"

definition XMLAttribute_ParseDeep :: "bool \<Rightarrow> bytes \<Rightarrow> ((cstring \<times> cstring) \<times> bytes) option" where
  "XMLAttribute_ParseDeep ent p =
     do {
       (name, p1) \<leftarrow> ParseName p;
       (case SkipWhiteSpace p1 of
          [] \<Rightarrow> None
        | c # p2 \<Rightarrow>
            if c \<noteq> 61 then None
            else
              (case SkipWhiteSpace p2 of
                 [] \<Rightarrow> None
               | q # p3 \<Rightarrow>
                   if q \<noteq> 34 \<and> q \<noteq> 39 then None
                   else do { (v, p4) \<leftarrow> ParseText [q] p3; Some ((name, GetStr ent False v), p4) }))
     }"

lemma ParseText_shorter: "ParseText e p = Some (t, r) \<Longrightarrow> e \<noteq> [] \<Longrightarrow> length r < length p"
  by (induction p arbitrary: t) (auto split: if_splits)

lemma dropWhile_shorter: "length (dropWhile P xs) \<le> length xs" "length (SkipWhiteSpace xs) \<le> length xs"
  by (simp_all add: length_dropWhile_le SkipWhiteSpace_def)

lemma ParseName_shorter: "ParseName p = Some (n, r) \<Longrightarrow> length r < length p"
  by (auto simp: ParseName_def le_imp_less_Suc dropWhile_shorter split: list.splits if_splits)

lemma attribute_shorter:
  assumes "XMLAttribute_ParseDeep ent p = Some (a, r)"
  shows "length r < length p"
proof -
  obtain n p1 c p2 q p3 v where *: "ParseName p = Some (n, p1)" "SkipWhiteSpace p1 = c # p2" "SkipWhiteSpace p2 = q # p3"
      "ParseText [q] p3 = Some (v, r)"
    using assms by (auto simp: XMLAttribute_ParseDeep_def split: bind_splits list.splits if_splits)
  have "length r < length p3" using ParseText_shorter [OF *(4)] by simp
  then show ?thesis
    using ParseName_shorter [OF *(1)] dropWhile_shorter(2) [of p1] dropWhile_shorter(2) [of p2] *(2,3) by simp
qed

text \<open>\<^verbatim>\<open>_closingType\<close>. The name of a closing tag is parsed like that of an opening one, attributes included.\<close>

datatype closing_type = OPEN | CLOSED | CLOSING

function ParseAttributes :: "bool \<Rightarrow> (cstring \<times> cstring) list \<Rightarrow> bytes \<Rightarrow> XMLError + (cstring \<times> cstring) list \<times> bool \<times> bytes" where
  "ParseAttributes ent attrs p =
     (case SkipWhiteSpace p of
        [] \<Rightarrow> Inl XML_ERROR_PARSING_ELEMENT
      | c # q \<Rightarrow>
          if IsNameStartChar c then
            (case XMLAttribute_ParseDeep ent (c # q) of
               None \<Rightarrow> Inl XML_ERROR_PARSING_ATTRIBUTE
             | Some ((name, v), r) \<Rightarrow>
                 if name \<in> fst ` set attrs then Inl XML_ERROR_PARSING_ATTRIBUTE else ParseAttributes ent (attrs @ [(name, v)]) r)
          else if c = 62 then Inr (attrs, False, q)
          else if c = 47 \<and> starts_with [62] q then Inr (attrs, True, tl q)
          else Inl XML_ERROR_PARSING_ELEMENT)"
  by auto
termination
proof (relation "measure (\<lambda>(ent, attrs, p). length p)", simp, goal_cases)
  case (1 ent attrs p c q a nv r name v)
  then have "length r < length (c # q)" using attribute_shorter [of ent "c # q" "(name, v)" r] by simp
  also have "length (c # q) \<le> length p" using dropWhile_shorter(2) [of p] 1(1) by simp
  finally show ?case by simp
qed

declare ParseAttributes.simps [simp del]

definition ParseTag :: "xml_options \<Rightarrow> bytes \<Rightarrow> (cstring \<times> (cstring \<times> cstring) list \<times> closing_type) parsed" where
  "ParseTag opt p =
     (let p = SkipWhiteSpace p; closing = starts_with [47] p; p = (if closing then tl p else p) in
      case ParseName p of
        None \<Rightarrow> Inl None
      | Some (name, p) \<Rightarrow>
          (case ParseAttributes (processEntities opt) [] p of
             Inl e \<Rightarrow> Inl (Some e)
           | Inr (attrs, closed, p) \<Rightarrow> Inr ((name, attrs, if closed then CLOSED else if closing then CLOSING else OPEN), p)))"

subsection \<open>XMLDocument\<close>

datatype xml_kind = K_DECLARATION | K_COMMENT | K_CDATA | K_UNKNOWN | K_ELEMENT | K_TEXT

definition Identify :: "bytes \<Rightarrow> (xml_kind \<times> bytes) option" where
  "Identify start =
     (let p = SkipWhiteSpace start in
      if p = [] then None
      else if starts_with (cstr ''<?'') p then Some (K_DECLARATION, drop 2 p)
      else if starts_with (cstr ''<!--'') p then Some (K_COMMENT, drop 4 p)
      else if starts_with (cstr ''<![CDATA['') p then Some (K_CDATA, drop 9 p)
      else if starts_with (cstr ''<!'') p then Some (K_UNKNOWN, drop 2 p)
      else if starts_with [60] p then Some (K_ELEMENT, drop 1 p)
      else Some (K_TEXT, start))"

definition leaf_ParseDeep :: "xml_options \<Rightarrow> xml_kind \<Rightarrow> bytes \<Rightarrow> xml_node parsed" where
  "leaf_ParseDeep opt k =
     (case k of
        K_DECLARATION \<Rightarrow> XMLDeclaration_ParseDeep
      | K_COMMENT \<Rightarrow> XMLComment_ParseDeep
      | K_CDATA \<Rightarrow> XMLText_ParseDeep opt True
      | K_UNKNOWN \<Rightarrow> XMLUnknown_ParseDeep
      | _ \<Rightarrow> XMLText_ParseDeep opt False)"

text \<open>How the parsing of children ends: with the input, with a closing tag, which the parent gets, or with an error.\<close>

datatype parse_end = End_input | End_tag cstring bytes | End_error XMLError

definition parse_error :: "XMLError option \<Rightarrow> parse_end" where
  "parse_error e = End_error (case e of None \<Rightarrow> XML_ERROR_PARSING | Some e \<Rightarrow> e)"

text \<open>
  \<^verbatim>\<open>XMLNode::ParseDeep\<close> with \<^verbatim>\<open>XMLElement::ParseDeep\<close> in it: \<open>nodes\<close> are the children so far. A declaration is refused if the
  document has children; \<open>outer\<close> tells this inside of an element, and is \<^const>\<open>None\<close> for the document itself.
\<close>

partial_function (option) ParseDeep :: "xml_options \<Rightarrow> bool option \<Rightarrow> xml_node list \<Rightarrow> bytes \<Rightarrow> (xml_node list \<times> parse_end) option" where
  "ParseDeep opt outer nodes p =
     (let no_children = (case outer of None \<Rightarrow> nodes = [] | Some b \<Rightarrow> b) in
      case Identify p of
        None \<Rightarrow> Some (nodes, End_input)
      | Some (K_ELEMENT, p) \<Rightarrow>
          (case ParseTag opt p of
             Inl e \<Rightarrow> Some (nodes, parse_error e)
           | Inr ((name, attrs, CLOSING), p) \<Rightarrow> Some (nodes, End_tag name p)
           | Inr ((name, attrs, CLOSED), p) \<Rightarrow> ParseDeep opt outer (nodes @ [XMLElement name attrs []]) p
           | Inr ((name, attrs, OPEN), p) \<Rightarrow>
               if p = [] then Some (nodes, End_error XML_ERROR_MISMATCHED_ELEMENT)
               else do {
                 (children, e) \<leftarrow> ParseDeep opt (Some no_children) [] p;
                 (case e of
                    End_input \<Rightarrow> Some (nodes, parse_error None)
                  | End_error e \<Rightarrow> Some (nodes, parse_error (Some e))
                  | End_tag endTag p \<Rightarrow>
                      if endTag = name then ParseDeep opt outer (nodes @ [XMLElement name attrs children]) p
                      else Some (nodes, End_error XML_ERROR_MISMATCHED_ELEMENT))
               })
      | Some (k, p) \<Rightarrow>
          (case leaf_ParseDeep opt k p of
             Inl e \<Rightarrow> Some (nodes, parse_error e)
           | Inr (node, p) \<Rightarrow>
               if k = K_DECLARATION \<and> \<not> no_children then Some (nodes, End_error XML_ERROR_PARSING_DECLARATION)
               else ParseDeep opt outer (nodes @ [node]) p))"

record xml_document =
  doc_options :: xml_options
  doc_children :: "xml_node list"
  doc_errorID :: XMLError
  doc_writeBOM :: bool

definition XMLDocument :: xml_document where
  "XMLDocument = \<lparr>doc_options = \<lparr>processEntities = True, collapse = False\<rparr>, doc_children = [], doc_errorID = XML_NO_ERROR, doc_writeBOM = False\<rparr>"

definition Clear :: "xml_document \<Rightarrow> xml_document" where
  "Clear d = d\<lparr>doc_children := [], doc_errorID := XML_NO_ERROR\<rparr>"

definition SetError :: "XMLError \<Rightarrow> xml_document \<Rightarrow> xml_document" where
  "SetError e d = d\<lparr>doc_errorID := e\<rparr>"

text \<open>The document ignores the pointer that a closing tag at its level returns.\<close>

definition Parse_buffer :: "bytes \<Rightarrow> xml_document \<Rightarrow> xml_document option" where
  "Parse_buffer charBuffer d =
     (let (bom, p) = ReadBOM (SkipWhiteSpace (takeWhile (\<lambda>c. c \<noteq> 0) charBuffer)); d = d\<lparr>doc_writeBOM := bom\<rparr> in
      if p = [] then Some (SetError XML_ERROR_EMPTY_DOCUMENT d)
      else do {
        (nodes, e) \<leftarrow> ParseDeep (doc_options d) None [] p;
        let d = d\<lparr>doc_children := nodes\<rparr>;
        Some (case e of End_error e \<Rightarrow> SetError e d | _ \<Rightarrow> d)
      })"

text \<open>A file that cannot be opened, one that cannot be read, and one with its contents.\<close>

datatype xml_file = No_file | Unreadable | File bytes

definition LoadFile :: "xml_file \<Rightarrow> xml_document \<Rightarrow> xml_document option" where
  "LoadFile f d =
     (let d = Clear d in
      case f of
        No_file \<Rightarrow> Some (SetError XML_ERROR_FILE_NOT_FOUND d)
      | Unreadable \<Rightarrow> Some (SetError XML_ERROR_FILE_READ_ERROR d)
      | File bs \<Rightarrow> if bs = [] then Some (SetError XML_ERROR_EMPTY_DOCUMENT d) else Parse_buffer bs d)"

text \<open>\<^verbatim>\<open>Parse(p, len)\<close>, where \<open>p\<close> may be null: with the length -1 the string is taken up to its zero. On errors the children are deleted.\<close>

definition Parse :: "bytes option \<Rightarrow> int \<Rightarrow> xml_document \<Rightarrow> xml_document option" where
  "Parse p len d =
     (let d = Clear d in
      case p of
        None \<Rightarrow> Some (SetError XML_ERROR_EMPTY_DOCUMENT d)
      | Some p \<Rightarrow> do {
          c \<leftarrow> (if len = 0 then Some 0 else mem_get p 0);
          if len = 0 \<or> c = 0 then Some (SetError XML_ERROR_EMPTY_DOCUMENT d)
          else do {
            buf \<leftarrow> (if len = -1 then if 0 \<in> set p then Some (takeWhile (\<lambda>c. c \<noteq> 0) p) else None else mem_read p 0 (nat len));
            d \<leftarrow> Parse_buffer buf d;
            Some (if doc_errorID d \<noteq> XML_NO_ERROR then d\<lparr>doc_children := []\<rparr> else d)
          }
        })"

text \<open>The functions that the configuration walks the tree with, on the children of a node.\<close>

fun FirstChildElement :: "cstring \<Rightarrow> xml_node list \<Rightarrow> xml_node list option" where
  "FirstChildElement name [] = None"
| "FirstChildElement name (XMLElement n attrs children # nodes) = (if n = name then Some children else FirstChildElement name nodes)"
| "FirstChildElement name (_ # nodes) = FirstChildElement name nodes"

fun GetText :: "xml_node list \<Rightarrow> cstring option" where
  "GetText (XMLText text cdata # nodes) = Some text"
| "GetText _ = None"

end
