(* ===== verification/Tinyxml_Read.thy ===== *)
theory Tinyxml_Read
  imports Tinyxml
begin

text \<open>
  What the XML parser does with documents: it ends on every input; every document of the grammar \<open>document\<close> is read to its
  tree; strings without special characters are read as they are; and what it does with input that is not XML.
\<close>

subsection \<open>Progress\<close>

lemma starts_with_append [simp]: "starts_with e (e @ r)"
  by (simp add: starts_with_def)

lemma starts_with_Cons [simp]: "starts_with (c # e) (d # p) \<longleftrightarrow> c = d \<and> starts_with e p" "starts_with [] p" "\<not> starts_with (c # e) []"
  by (auto simp: starts_with_def)

lemma starts_with_append2: "starts_with e p \<Longrightarrow> starts_with e (p @ r)"
  by (metis append.assoc append_take_drop_id starts_with_append starts_with_def)

lemma starts_with_short: "starts_with e (p @ r) \<Longrightarrow> length e \<le> length p \<Longrightarrow> starts_with e p"
  by (simp add: starts_with_def)

lemma not_space [simp]: "\<not> IsWhiteSpace 60" "\<not> IsWhiteSpace 62" "\<not> IsWhiteSpace 47" "\<not> IsWhiteSpace 61" "\<not> IsWhiteSpace 34" "\<not> IsWhiteSpace 39"
  by (simp_all add: IsWhiteSpace_def isspace_def)

lemma skip_head: "SkipWhiteSpace p = c # q \<Longrightarrow> \<not> IsWhiteSpace c"
  by (metis SkipWhiteSpace_def hd_dropWhile list.distinct(1) list.sel(1))

lemma Identify_shorter:
  assumes "Identify p = Some (k, q)" "k \<noteq> K_TEXT"
  shows "length q < length p"
proof -
  have "length q < length (SkipWhiteSpace p)" using assms by (auto simp: Identify_def Let_def split: if_splits)
  then show ?thesis using dropWhile_shorter(2) [of p] by simp
qed

lemma Identify_text: "Identify p = Some (K_TEXT, q) \<Longrightarrow> q = p \<and> p \<noteq> [] \<and> hd p \<noteq> 60"
  by (cases p) (auto simp: Identify_def SkipWhiteSpace_def Let_def split: if_splits)

lemma parsed_text_shorter: "parsed_text e x f p = Inr (n, r) \<Longrightarrow> e \<noteq> [] \<Longrightarrow> length r < length p"
  by (auto simp: parsed_text_def split: option.splits dest: ParseText_shorter)

lemma leaf_shorter:
  assumes "Identify p = Some (k, q)" "k \<noteq> K_ELEMENT" "leaf_ParseDeep opt k q = Inr (n, r)"
  shows "length r < length p"
proof (cases "k = K_TEXT")
  case True
  then have q: "q = p" "p \<noteq> []" "hd p \<noteq> 60" using assms(1) Identify_text by auto
  obtain t s where s: "ParseText [60] p = Some (t, s)" "r = 60 # s"
    using assms(3) True q by (auto simp: leaf_ParseDeep_def XMLText_ParseDeep_def split: option.splits if_splits)
  then show ?thesis
    using q ParseText_shorter [of "[60]" "tl p"] by (cases p) auto
next
  case False
  then have "length r < length q"
    using assms(2,3) by (cases k) (auto simp: leaf_ParseDeep_def XMLDeclaration_ParseDeep_def XMLComment_ParseDeep_def XMLUnknown_ParseDeep_def
        XMLText_ParseDeep_def cstr_def dest: parsed_text_shorter)
  then show ?thesis using Identify_shorter [OF assms(1) False] by simp
qed

lemma ParseAttributes_shorter: "ParseAttributes ent attrs p = Inr (as, closed, r) \<Longrightarrow> length r < length p"
proof (induction ent attrs p rule: ParseAttributes.induct)
  case (1 ent attrs p)
  obtain c q where cq: "SkipWhiteSpace p = c # q"
    using 1(2) by (subst (asm) ParseAttributes.simps) (auto split: list.splits)
  have len: "length (c # q) \<le> length p" using dropWhile_shorter(2) [of p] cq by simp
  show ?case
  proof (cases "IsNameStartChar c")
    case True
    then obtain n v s where s: "XMLAttribute_ParseDeep ent (c # q) = Some ((n, v), s)" "n \<notin> fst ` set attrs"
        "ParseAttributes ent (attrs @ [(n, v)]) s = Inr (as, closed, r)"
      using 1(2) cq by (subst (asm) ParseAttributes.simps) (auto split: option.splits if_splits)
    have "length r < length s" using 1(1) [OF cq True s(1) refl refl s(2,3)] .
    then show ?thesis using attribute_shorter [OF s(1)] len by simp
  next
    case False
    then show ?thesis using 1(2) cq len by (subst (asm) ParseAttributes.simps) (auto split: if_splits)
  qed
qed

lemma ParseTag_shorter: "ParseTag opt p = Inr (x, r) \<Longrightarrow> length r < length p"
proof -
  assume a: "ParseTag opt p = Inr (x, r)"
  let ?p = "if starts_with [47] (SkipWhiteSpace p) then tl (SkipWhiteSpace p) else SkipWhiteSpace p"
  obtain n q as c where "ParseName ?p = Some (n, q)" "ParseAttributes (processEntities opt) [] q = Inr (as, c, r)"
    using a unfolding ParseTag_def Let_def by (auto split: option.splits sum.splits prod.splits)
  then have "length r < length ?p" using ParseAttributes_shorter ParseName_shorter by fastforce
  moreover have "length ?p \<le> length p" using dropWhile_shorter(2) [of p] by auto
  ultimately show ?thesis by simp
qed

declare ParseDeep.simps [code]

subsection \<open>Steps of the parser\<close>

abbreviation no_children :: "bool option \<Rightarrow> xml_node list \<Rightarrow> bool" where
  "no_children outer nodes \<equiv> (case outer of None \<Rightarrow> nodes = [] | Some b \<Rightarrow> b)"

lemma parse_end: "Identify p = None \<Longrightarrow> ParseDeep opt outer nodes p = Some (nodes, End_input)"
  by (subst ParseDeep.simps) simp

lemma parse_leaf:
  assumes "Identify p = Some (k, q)" "k \<noteq> K_ELEMENT"
  shows "ParseDeep opt outer nodes p =
    (case leaf_ParseDeep opt k q of
       Inl e \<Rightarrow> Some (nodes, parse_error e)
     | Inr (node, r) \<Rightarrow>
         if k = K_DECLARATION \<and> \<not> no_children outer nodes then Some (nodes, End_error XML_ERROR_PARSING_DECLARATION)
         else ParseDeep opt outer (nodes @ [node]) r)"
  using assms by (subst ParseDeep.simps) (cases k; simp split: sum.splits)

lemma parse_tag:
  assumes "Identify p = Some (K_ELEMENT, q)"
  shows "ParseTag opt q = Inl e \<Longrightarrow> ParseDeep opt outer nodes p = Some (nodes, parse_error e)"
    "ParseTag opt q = Inr ((name, attrs, CLOSING), r) \<Longrightarrow> ParseDeep opt outer nodes p = Some (nodes, End_tag name r)"
    "ParseTag opt q = Inr ((name, attrs, CLOSED), r) \<Longrightarrow> ParseDeep opt outer nodes p = ParseDeep opt outer (nodes @ [XMLElement name attrs []]) r"
    "ParseTag opt q = Inr ((name, attrs, OPEN), []) \<Longrightarrow> ParseDeep opt outer nodes p = Some (nodes, End_error XML_ERROR_MISMATCHED_ELEMENT)"
    "ParseTag opt q = Inr ((name, attrs, OPEN), r) \<Longrightarrow> r \<noteq> [] \<Longrightarrow> ParseDeep opt (Some (no_children outer nodes)) [] r = Some (children, e') \<Longrightarrow>
      ParseDeep opt outer nodes p =
        (case e' of
           End_input \<Rightarrow> Some (nodes, parse_error None)
         | End_error x \<Rightarrow> Some (nodes, parse_error (Some x))
         | End_tag n s \<Rightarrow>
             if n = name then ParseDeep opt outer (nodes @ [XMLElement name attrs children]) s
             else Some (nodes, End_error XML_ERROR_MISMATCHED_ELEMENT))"
  using assms by (subst ParseDeep.simps, simp)+

lemma parse_total:
  "\<exists>ns e. ParseDeep opt outer nodes p = Some (ns, e) \<and> (\<forall>n r. e = End_tag n r \<longrightarrow> length r < length p)"
proof (induction "length p" arbitrary: p outer nodes rule: less_induct)
  case less
  consider "Identify p = None" | k q where "Identify p = Some (k, q)" "k \<noteq> K_ELEMENT" | q where "Identify p = Some (K_ELEMENT, q)"
    by (metis option.exhaust prod.exhaust)
  then show ?case
  proof cases
    case 1
    then show ?thesis by (simp add: parse_end)
  next
    case (2 k q)
    show ?thesis
    proof (cases "leaf_ParseDeep opt k q")
      case (Inl e)
      then show ?thesis using parse_leaf [OF 2] by (simp add: parse_error_def)
    next
      case (Inr x)
      obtain node r where x: "x = (node, r)" by (cases x)
      have "length r < length p" using leaf_shorter [OF 2] Inr x by simp
      then show ?thesis using less [of r outer "nodes @ [node]"] parse_leaf [OF 2, of opt outer nodes] Inr x by fastforce
    qed
  next
    case (3 q)
    note t = parse_tag [OF 3, of opt]
    show ?thesis
    proof (cases "ParseTag opt q")
      case (Inl e)
      then show ?thesis using t(1) by (simp add: parse_error_def)
    next
      case (Inr x)
      obtain name attrs c r where x: "x = ((name, attrs, c), r)" by (metis prod.collapse)
      have r: "length r < length p" using ParseTag_shorter [of opt q] Inr x Identify_shorter [OF 3] by fastforce
      show ?thesis
      proof (cases c)
        case OPEN
        show ?thesis
        proof (cases "r = []")
          case True
          then show ?thesis using t(4) Inr x OPEN by simp
        next
          case False
          obtain ch e where ch: "ParseDeep opt (Some (no_children outer nodes)) [] r = Some (ch, e)" "\<And>n s. e = End_tag n s \<Longrightarrow> length s < length r"
            using less [OF r] by blast
          show ?thesis
          proof (cases e)
            case (End_tag n s)
            then have "length s < length p" using ch(2) r by fastforce
            then show ?thesis
              using less [of s outer "nodes @ [XMLElement name attrs ch]"] t(5) [OF _ False ch(1)] Inr x OPEN End_tag by (cases "n = name") fastforce+
          qed (use t(5) [OF _ False ch(1)] Inr x OPEN in \<open>simp_all add: parse_error_def\<close>)
        qed
      next
        case CLOSED
        then show ?thesis using t(3) Inr x less [OF r] r by fastforce
      next
        case CLOSING
        then show ?thesis using t(2) Inr x r by simp
      qed
    qed
  qed
qed

lemma Parse_buffer_total: "\<exists>d'. Parse_buffer bs d = Some d'"
proof -
  obtain bom p where p: "ReadBOM (SkipWhiteSpace (takeWhile (\<lambda>c. c \<noteq> 0) bs)) = (bom, p)" by fastforce
  obtain ns e where "ParseDeep (doc_options d) None [] p = Some (ns, e)" using parse_total by blast
  then show ?thesis using p by (simp add: Parse_buffer_def Let_def)
qed

subsection \<open>The grammar\<close>

text \<open>White space, names, texts between tags, and texts before an end mark, which is not met earlier.\<close>

definition blank :: "bytes \<Rightarrow> bool" where
  "blank w \<longleftrightarrow> (\<forall>c\<in>set w. IsWhiteSpace c)"

definition xml_name :: "bytes \<Rightarrow> bool" where
  "xml_name n \<longleftrightarrow> n \<noteq> [] \<and> IsNameStartChar (hd n) \<and> (\<forall>c\<in>set n. IsNameChar c)"

definition char_data :: "bytes \<Rightarrow> bool" where
  "char_data t \<longleftrightarrow> 60 \<notin> set t \<and> \<not> blank t"

definition until :: "bytes \<Rightarrow> bytes \<Rightarrow> bool" where
  "until e t \<longleftrightarrow> ParseText e (t @ e) = Some (t, [])"

inductive attributes :: "bool \<Rightarrow> (cstring \<times> cstring) list \<Rightarrow> bytes \<Rightarrow> bool" for ent where
  no_attribute: "blank w \<Longrightarrow> attributes ent [] w"
| attribute: "blank w \<Longrightarrow> w \<noteq> [] \<Longrightarrow> xml_name n \<Longrightarrow> blank w1 \<Longrightarrow> blank w2 \<Longrightarrow> q = 34 \<or> q = 39 \<Longrightarrow> q \<notin> set v \<Longrightarrow> attributes ent as bs \<Longrightarrow>
    attributes ent ((n, GetStr ent False v) # as) (w @ n @ w1 @ 61 # w2 @ q # v @ q # bs)"

text \<open>The contents of an element (\<open>inner\<close>) or of a document. A text is followed by a tag.\<close>

inductive content :: "xml_options \<Rightarrow> bool \<Rightarrow> xml_node list \<Rightarrow> bytes \<Rightarrow> bool" for opt where
  no_node: "blank w \<Longrightarrow> content opt inner [] w"
| last_text: "char_data t \<Longrightarrow> content opt True [XMLText (GetStr (processEntities opt) (collapse opt) t) False] t"
| text_node: "char_data t \<Longrightarrow> content opt inner ns (60 # bs) \<Longrightarrow>
    content opt inner (XMLText (GetStr (processEntities opt) (collapse opt) t) False # ns) (t @ 60 # bs)"
| comment_node: "blank w \<Longrightarrow> until (cstr ''-->'') c \<Longrightarrow> content opt inner ns bs \<Longrightarrow>
    content opt inner (XMLComment (GetStr False False c) # ns) (w @ cstr ''<!--'' @ c @ cstr ''-->'' @ bs)"
| cdata_node: "blank w \<Longrightarrow> until (cstr '']]>'') c \<Longrightarrow> content opt inner ns bs \<Longrightarrow>
    content opt inner (XMLText (GetStr False False c) True # ns) (w @ cstr ''<![CDATA['' @ c @ cstr '']]>'' @ bs)"
| empty_element: "blank w \<Longrightarrow> xml_name n \<Longrightarrow> attributes (processEntities opt) as a \<Longrightarrow> distinct (map fst as) \<Longrightarrow> content opt inner ns bs \<Longrightarrow>
    content opt inner (XMLElement n as [] # ns) (w @ 60 # n @ a @ 47 # 62 # bs)"
| element: "blank w \<Longrightarrow> xml_name n \<Longrightarrow> attributes (processEntities opt) as a \<Longrightarrow> distinct (map fst as) \<Longrightarrow> content opt True ch c \<Longrightarrow> blank w' \<Longrightarrow>
    content opt inner ns bs \<Longrightarrow> content opt inner (XMLElement n as ch # ns) (w @ 60 # n @ a @ 62 # c @ 60 # 47 # n @ w' @ 62 # bs)"

definition document :: "xml_options \<Rightarrow> xml_node list \<Rightarrow> bytes \<Rightarrow> bool" where
  "document opt ns bs \<longleftrightarrow> content opt False ns bs \<or>
     (\<exists>d ms cs. until (cstr ''?>'') d \<and> content opt False ms cs \<and> ns = XMLDeclaration (GetStr False False d) # ms \<and> bs = cstr ''<?'' @ d @ cstr ''?>'' @ cs)"

subsection \<open>The parts of a document\<close>

lemma ParseText_long: "ParseText e p = Some (t, r) \<Longrightarrow> length e \<le> length p"
proof (induction p arbitrary: t)
  case (Cons c p)
  then show ?case
  proof (cases "starts_with e (c # p)")
    case True
    then show ?thesis by (metis length_take min.absorb_iff2 min.commute starts_with_def)
  next
    case False
    then show ?thesis using Cons by auto
  qed
qed simp

lemma ParseText_append: "ParseText e p = Some (t, q) \<Longrightarrow> ParseText e (p @ r) = Some (t, q @ r)"
proof (induction p arbitrary: t)
  case (Cons c p)
  have long: "length e \<le> length (c # p)" using ParseText_long [OF Cons.prems] .
  then have "starts_with e (c # p @ r) = starts_with e (c # p)" using starts_with_append2 [of e "c # p" r] starts_with_short [of e "c # p" r] by auto
  moreover have "drop (length e) (c # p @ r) = drop (length e) (c # p) @ r" using long drop_append [of "length e" "c # p" r] by simp
  ultimately show ?case using Cons by (auto split: if_splits simp del: drop_append)
qed simp

lemma until_text: "until e t \<Longrightarrow> ParseText e (t @ e @ r) = Some (t, r)"
  unfolding until_def using ParseText_append [of e "t @ e" t "[]" r] by simp

lemma ParseText_char: "q \<notin> set v \<Longrightarrow> ParseText [q] (v @ q # r) = Some (v, r)"
  by (induction v) auto

lemma blank_append [simp]: "blank (c # w) \<longleftrightarrow> IsWhiteSpace c \<and> blank w" "blank []"
  by (auto simp: blank_def)

lemma skip_blank: "blank w \<Longrightarrow> SkipWhiteSpace (w @ p) = SkipWhiteSpace p"
  by (simp add: blank_def SkipWhiteSpace_def)

lemma skip_stop: "\<not> IsWhiteSpace c \<Longrightarrow> SkipWhiteSpace (c # p) = c # p"
  by (simp add: SkipWhiteSpace_def)

lemma space_no_name: "IsWhiteSpace c \<Longrightarrow> \<not> IsNameChar c" "\<not> IsNameChar 61" "\<not> IsNameChar 62" "\<not> IsNameChar 47"
proof -
  show "\<not> IsNameChar c" if "IsWhiteSpace c"
  proof -
    have "isspace c" using that by (simp add: IsWhiteSpace_def)
    then have "c \<in> {9, 10, 11, 12, 13, 32}" by (rule isspace_set)
    then show ?thesis by (auto simp: IsNameChar_def IsNameStartChar_def is_alpha_def is_digit_def)
  qed
qed (simp_all add: IsNameChar_def IsNameStartChar_def is_alpha_def is_digit_def)

lemma name_char_no_space: "IsNameStartChar c \<Longrightarrow> \<not> IsWhiteSpace c"
  using space_no_name(1) by (auto simp: IsNameChar_def)

lemma ParseName_name: "xml_name n \<Longrightarrow> \<not> IsNameChar c \<Longrightarrow> ParseName (n @ c # r) = Some (n, c # r)"
  by (cases n) (auto simp: ParseName_def xml_name_def takeWhile_append dropWhile_append)

lemma parse_attributes:
  assumes "attributes ent as bs" "distinct (map fst as)" "fst ` set as \<inter> fst ` set acc = {}"
  shows "ParseAttributes ent acc (bs @ 62 # r) = Inr (acc @ as, False, r)" "ParseAttributes ent acc (bs @ 47 # 62 # r) = Inr (acc @ as, True, r)"
proof -
  have t: "\<not> IsNameStartChar 62" "\<not> IsNameStartChar 47" using space_no_name by (auto simp: IsNameChar_def)
  have step: "ParseAttributes ent acc ((w @ n @ w1 @ 61 # w2 @ q # v @ q # bs) @ e) = ParseAttributes ent (acc @ [(n, GetStr ent False v)]) (bs @ e)"
    if "blank w" "xml_name n" "blank w1" "blank w2" "q = 34 \<or> q = 39" "q \<notin> set v" "n \<notin> fst ` set acc" for w n w1 w2 q v bs acc e
  proof -
    note a = that
    obtain c m where n: "n = c # m" "IsNameStartChar c" using a(2) by (cases n) (auto simp: xml_name_def)
    have s: "SkipWhiteSpace (w @ n @ z) = c # m @ z" for z using n name_char_no_space skip_blank [OF a(1)] skip_stop by simp
    obtain d z where d: "w1 @ 61 # w2 @ q # v @ q # bs @ e = d # z" "\<not> IsNameChar d"
      using a(3) space_no_name(1,2) by (cases w1) auto
    have nm: "ParseName (c # m @ w1 @ 61 # w2 @ q # v @ q # bs @ e) = Some (n, w1 @ 61 # w2 @ q # v @ q # bs @ e)"
      using ParseName_name [OF a(2) d(2), of z] n unfolding d(1) by simp
    have sp: "SkipWhiteSpace (w1 @ 61 # x) = 61 # x" "SkipWhiteSpace (w2 @ q # x) = q # x" for x
      using a(3-5) skip_blank skip_stop by auto
    have pt: "ParseText [q] (v @ q # x) = Some (v, x)" for x using a(6) by (rule ParseText_char)
    have "XMLAttribute_ParseDeep ent (c # m @ w1 @ 61 # w2 @ q # v @ q # bs @ e) = Some ((n, GetStr ent False v), bs @ e)"
      using a(5) unfolding XMLAttribute_ParseDeep_def nm by (auto simp: sp pt)
    then show ?thesis
      using n a(7) by (subst ParseAttributes.simps) (simp add: s [unfolded n(1), simplified])
  qed
  show "ParseAttributes ent acc (bs @ 62 # r) = Inr (acc @ as, False, r)"
    using assms
  proof (induction arbitrary: acc rule: attributes.induct)
    case (no_attribute w)
    then show ?case using t by (subst ParseAttributes.simps) (simp add: skip_blank skip_stop)
  next
    case (attribute w n w1 w2 q v as bs)
    then show ?case using step [of w n w1 w2 q v acc bs "62 # r"] attribute.IH [of "acc @ [(n, GetStr ent False v)]"] by auto
  qed
  show "ParseAttributes ent acc (bs @ 47 # 62 # r) = Inr (acc @ as, True, r)"
    using assms
  proof (induction arbitrary: acc rule: attributes.induct)
    case (no_attribute w)
    then show ?case using t by (subst ParseAttributes.simps) (simp add: skip_blank skip_stop)
  next
    case (attribute w n w1 w2 q v as bs)
    then show ?case using step [of w n w1 w2 q v acc bs "47 # 62 # r"] attribute.IH [of "acc @ [(n, GetStr ent False v)]"] by auto
  qed
qed

lemma ParseTag_open:
  assumes "xml_name n" "attributes (processEntities opt) as a" "distinct (map fst as)"
  shows "ParseTag opt (n @ a @ 62 # r) = Inr ((n, as, OPEN), r)" "ParseTag opt (n @ a @ 47 # 62 # r) = Inr ((n, as, CLOSED), r)"
proof -
  obtain c m where n: "n = c # m" "IsNameStartChar c" using assms(1) by (cases n) (auto simp: xml_name_def)
  have c: "\<not> IsWhiteSpace c" "c \<noteq> 47" using n(2) name_char_no_space space_no_name(4) by (auto simp: IsNameChar_def)
  have s: "SkipWhiteSpace (n @ p) = n @ p" "\<not> starts_with [47] (n @ p)" for p using n c by (simp_all add: SkipWhiteSpace_def)
  have "\<exists>d z. a @ e # p = d # z \<and> \<not> IsNameChar d" if "\<not> IsNameChar e" for e p
    using assms(2) that space_no_name(1) by (cases rule: attributes.cases) (auto simp: blank_def neq_Nil_conv, metis append_Cons append_Nil list.exhaust list.set_intros(1))
  then have nm: "ParseName (n @ a @ e # p) = Some (n, a @ e # p)" if "\<not> IsNameChar e" for e p
    using ParseName_name [OF assms(1)] that by metis
  show "ParseTag opt (n @ a @ 62 # r) = Inr ((n, as, OPEN), r)" "ParseTag opt (n @ a @ 47 # 62 # r) = Inr ((n, as, CLOSED), r)"
    using s nm [of 62] nm [of 47] space_no_name parse_attributes [OF assms(2,3), of "[]"] by (simp_all add: ParseTag_def Let_def)
qed

lemma ParseTag_close:
  assumes "xml_name n" "blank w"
  shows "ParseTag opt (47 # n @ w @ 62 # r) = Inr ((n, [], CLOSING), r)"
proof -
  have "\<exists>d z. w @ 62 # r = d # z \<and> \<not> IsNameChar d" using assms(2) space_no_name by (cases w) auto
  then have "ParseName (n @ w @ 62 # r) = Some (n, w @ 62 # r)" using ParseName_name [OF assms(1)] by metis
  then show ?thesis
    using parse_attributes(1) [of "processEntities opt" "[]" w "[]" r] assms(2) no_attribute by (simp add: ParseTag_def Let_def skip_stop)
qed

lemma Identify_blank: "blank w \<Longrightarrow> Identify w = None" "blank w \<Longrightarrow> Identify (w @ 60 # p) = Identify (60 # p)"
  by (auto simp: Identify_def Let_def skip_blank skip_stop blank_def SkipWhiteSpace_def)

lemma Identify_tag: "IsNameStartChar c \<or> c = 47 \<Longrightarrow> Identify (60 # c # p) = Some (K_ELEMENT, c # p)"
proof -
  assume "IsNameStartChar c \<or> c = 47"
  then have "c \<noteq> 63" "c \<noteq> 33" by (auto simp: IsNameStartChar_def is_alpha_def)
  then show ?thesis by (simp add: Identify_def Let_def skip_stop cstr_def of_char_def)
qed

lemma Identify_marks:
  "Identify (cstr ''<?'' @ p) = Some (K_DECLARATION, p)" "Identify (cstr ''<!--'' @ p) = Some (K_COMMENT, p)"
  "Identify (cstr ''<![CDATA['' @ p) = Some (K_CDATA, p)"
  by (simp_all add: Identify_def Let_def skip_stop cstr_def of_char_def)

lemma Identify_char_data: "char_data t \<Longrightarrow> Identify (t @ p) = Some (K_TEXT, t @ p)"
proof -
  assume t: "char_data t"
  then have "SkipWhiteSpace (t @ p) = SkipWhiteSpace t @ p" "SkipWhiteSpace t \<noteq> []"
    by (auto simp: char_data_def blank_def SkipWhiteSpace_def dropWhile_append)
  moreover have "c \<noteq> 60" if "SkipWhiteSpace t = c # q" for c q
    using t that set_dropWhileD [of c IsWhiteSpace t] by (auto simp: char_data_def SkipWhiteSpace_def)
  ultimately show ?thesis
    by (cases "SkipWhiteSpace t") (auto simp: Identify_def Let_def cstr_def of_char_def)
qed

subsection \<open>Documents are read\<close>

text \<open>What follows the contents: nothing, or the closing tag of the element.\<close>

inductive closes_with :: "bool \<Rightarrow> bytes \<Rightarrow> parse_end \<Rightarrow> bool" where
  "closes_with False [] End_input"
| "xml_name n \<Longrightarrow> blank w \<Longrightarrow> closes_with True (60 # 47 # n @ w @ 62 # r) (End_tag n r)"

lemma closes_parse: "closes_with inner p e \<Longrightarrow> blank w \<Longrightarrow> ParseDeep opt outer nodes (w @ p) = Some (nodes, e)"
proof (induction rule: closes_with.induct)
  case 1
  then show ?case by (simp add: parse_end Identify_blank)
next
  case (2 n w' r)
  then show ?case using parse_tag(2) [of "w @ 60 # 47 # n @ w' @ 62 # r"] ParseTag_close Identify_tag [of 47] Identify_blank(2) by simp
qed

lemma closes_nonempty: "closes_with True p e \<Longrightarrow> \<exists>q. p = 60 # q \<and> q \<noteq> []"
  by (auto elim: closes_with.cases)

lemma content_parse:
  "content opt inner ns bs \<Longrightarrow> closes_with inner p e \<Longrightarrow> ParseDeep opt outer nodes (bs @ p) = Some (nodes @ ns, e)"
proof (induction arbitrary: nodes p e outer rule: content.induct)
  case (no_node w)
  then show ?case using closes_parse by simp
next
  case (last_text t)
  obtain q where q: "p = 60 # q" "q \<noteq> []" using closes_nonempty [OF last_text.prems] by blast
  have "60 \<notin> set t" using last_text.hyps by (simp add: char_data_def)
  then have "leaf_ParseDeep opt K_TEXT (t @ p) = Inr (XMLText (GetStr (processEntities opt) (collapse opt) t) False, p)"
    using q by (simp add: leaf_ParseDeep_def XMLText_ParseDeep_def ParseText_char)
  then show ?case
    using parse_leaf [OF Identify_char_data [OF last_text.hyps]] closes_parse [OF last_text.prems, of "[]"] by simp
next
  case (text_node t inner ns bs)
  have ne: "bs @ p \<noteq> []"
  proof
    assume "bs @ p = []"
    then have "ParseDeep opt outer nodes [60] = Some (nodes @ ns, e)" "p = []" using text_node.IH [OF text_node.prems, of outer nodes] by simp_all
    moreover have "ParseDeep opt outer nodes [60] = Some (nodes, parse_error None)"
      using parse_tag(1) [of "[60]" "[]" opt] by (simp add: Identify_def skip_stop cstr_def of_char_def ParseTag_def SkipWhiteSpace_def ParseName_def)
    ultimately show False using text_node.prems by (auto simp: parse_error_def elim: closes_with.cases)
  qed
  have "60 \<notin> set t" using text_node.hyps(1) by (simp add: char_data_def)
  then have "leaf_ParseDeep opt K_TEXT (t @ 60 # bs @ p) = Inr (XMLText (GetStr (processEntities opt) (collapse opt) t) False, 60 # bs @ p)"
    using ne by (simp add: leaf_ParseDeep_def XMLText_ParseDeep_def ParseText_char)
  then show ?case
    using parse_leaf [OF Identify_char_data [OF text_node.hyps(1)]] text_node.IH [OF text_node.prems] by simp
next
  case (comment_node w c inner ns bs)
  have "Identify (w @ cstr ''<!--'' @ q) = Some (K_COMMENT, q)" for q
    using Identify_blank(2) [OF comment_node.hyps(1)] Identify_marks(2) [of q] by (simp add: cstr_def of_char_def)
  then show ?case
    using parse_leaf [of "w @ cstr ''<!--'' @ c @ cstr ''-->'' @ bs @ p" K_COMMENT "c @ cstr ''-->'' @ bs @ p"] until_text [OF comment_node.hyps(2), of "bs @ p"]
      comment_node.IH [OF comment_node.prems] by (simp add: leaf_ParseDeep_def XMLComment_ParseDeep_def parsed_text_def)
next
  case (cdata_node w c inner ns bs)
  have "Identify (w @ cstr ''<![CDATA['' @ q) = Some (K_CDATA, q)" for q
    using Identify_blank(2) [OF cdata_node.hyps(1)] Identify_marks(3) [of q] by (simp add: cstr_def of_char_def)
  then show ?case
    using parse_leaf [of "w @ cstr ''<![CDATA['' @ c @ cstr '']]>'' @ bs @ p" K_CDATA "c @ cstr '']]>'' @ bs @ p"] until_text [OF cdata_node.hyps(2), of "bs @ p"]
      cdata_node.IH [OF cdata_node.prems] by (simp add: leaf_ParseDeep_def XMLText_ParseDeep_def parsed_text_def)
next
  case (empty_element w n as a inner ns bs)
  have "Identify (w @ 60 # n @ q) = Some (K_ELEMENT, n @ q)" for q
    using Identify_blank(2) [OF empty_element.hyps(1)] Identify_tag empty_element.hyps(2) by (cases n) (auto simp: xml_name_def)
  then show ?case
    using parse_tag(3) ParseTag_open(2) [OF empty_element.hyps(2-4), of "bs @ p"] empty_element.IH [OF empty_element.prems] by simp
next
  case (element w n as a ch c w' inner ns bs)
  let ?r = "c @ 60 # 47 # n @ w' @ 62 # bs @ p"
  have "Identify (w @ 60 # n @ q) = Some (K_ELEMENT, n @ q)" for q
    using Identify_blank(2) [OF element.hyps(1)] Identify_tag element.hyps(2) by (cases n) (auto simp: xml_name_def)
  moreover have "closes_with True (60 # 47 # n @ w' @ 62 # bs @ p) (End_tag n (bs @ p))" using element.hyps(2,6) by (rule closes_with.intros(2))
  then have "ParseDeep opt (Some (no_children outer nodes)) [] ?r = Some (ch, End_tag n (bs @ p))" using element.IH(1) by simp
  ultimately show ?case
    using parse_tag(5) [of "w @ 60 # n @ a @ 62 # ?r" "n @ a @ 62 # ?r"] ParseTag_open(1) [OF element.hyps(2-4), of ?r] element.IH(2) [OF element.prems] by simp
qed

lemma document_parse: "document opt ns bs \<Longrightarrow> ParseDeep opt None [] bs = Some (ns, End_input)"
proof -
  assume "document opt ns bs"
  then consider "content opt False ns bs"
    | d ms cs where "until (cstr ''?>'') d" "content opt False ms cs" "ns = XMLDeclaration (GetStr False False d) # ms" "bs = cstr ''<?'' @ d @ cstr ''?>'' @ cs"
    unfolding document_def by blast
  then show ?thesis
  proof cases
    case 1
    then show ?thesis using content_parse [OF 1 closes_with.intros(1), of None "[]"] by simp
  next
    case 2
    have "leaf_ParseDeep opt K_DECLARATION (d @ cstr ''?>'' @ cs) = Inr (XMLDeclaration (GetStr False False d), cs)"
      using until_text [OF 2(1), of cs] by (simp add: leaf_ParseDeep_def XMLDeclaration_ParseDeep_def parsed_text_def)
    then show ?thesis
      using parse_leaf [OF Identify_marks(1), of opt None "[]"] content_parse [OF 2(2) closes_with.intros(1), of None "[XMLDeclaration (GetStr False False d)]"] 2(3,4) by simp
  qed
qed

text \<open>White space before the first tag does not matter.\<close>

lemma parse_skip:
  assumes "SkipWhiteSpace p = 60 # q"
  shows "ParseDeep opt outer nodes (SkipWhiteSpace p) = ParseDeep opt outer nodes p"
proof -
  have i: "Identify (SkipWhiteSpace p) = Identify p" using assms by (simp add: Identify_def Let_def skip_stop)
  show ?thesis unfolding ParseDeep.simps [of opt outer nodes "SkipWhiteSpace p"] ParseDeep.simps [of opt outer nodes p] i ..
qed

definition BOM :: bytes where "BOM = [0xEF, 0xBB, 0xBF]"

lemma Parse_buffer_doc:
  assumes "ParseDeep (doc_options d) None [] bs = Some (ns, e)" "SkipWhiteSpace bs = 60 # q" "0 \<notin> set bs" "b = [] \<or> b = BOM"
  shows "Parse_buffer (b @ bs) d =
    Some ((case e of End_error x \<Rightarrow> SetError x | _ \<Rightarrow> id) (d\<lparr>doc_writeBOM := b \<noteq> [], doc_children := ns\<rparr>))"
proof -
  have "b @ bs \<noteq> []" "0 \<notin> set (b @ bs)" using assms(2-4) by (auto simp: SkipWhiteSpace_def BOM_def)
  then have tw: "takeWhile (\<lambda>c. c \<noteq> 0) (b @ bs) = b @ bs" by (metis (mono_tags, lifting) takeWhile_eq_all_conv)
  have bom: "ReadBOM (SkipWhiteSpace (b @ bs)) = (b \<noteq> [], if b = [] then SkipWhiteSpace bs else bs)"
    using assms(2,4) by (auto simp: ReadBOM_def BOM_def SkipWhiteSpace_def IsWhiteSpace_def isspace_def)
  have p: "ParseDeep (doc_options d) None [] (if b = [] then SkipWhiteSpace bs else bs) = Some (ns, e)" "bs \<noteq> []" "SkipWhiteSpace bs \<noteq> []"
    using parse_skip [OF assms(2)] assms(1,2) by (auto simp: SkipWhiteSpace_def)
  show ?thesis unfolding Parse_buffer_def tw bom using p by (auto simp: Let_def split: parse_end.splits)
qed

lemma LoadFile_document:
  assumes "document (doc_options d) ns bs" "SkipWhiteSpace bs = 60 # q" "0 \<notin> set bs" "b = [] \<or> b = BOM"
  shows "LoadFile (File (b @ bs)) d = Some ((Clear d)\<lparr>doc_writeBOM := b \<noteq> [], doc_children := ns\<rparr>)"
proof -
  have o: "doc_options (Clear d) = doc_options d" by (simp add: Clear_def)
  have "b @ bs \<noteq> []" using assms(2) by (auto simp: SkipWhiteSpace_def)
  then show ?thesis
    using Parse_buffer_doc [of "Clear d" bs ns End_input q b] document_parse [OF assms(1)] assms(2-4) o by (auto simp: LoadFile_def Let_def)
qed

subsection \<open>Strings\<close>

lemma GetStr_plain_loop: "13 \<notin> set p \<Longrightarrow> ent \<longrightarrow> 38 \<notin> set p \<Longrightarrow> GetStr_loop ent text p out = out @ p"
proof (induction p arbitrary: out)
  case (Cons c p)
  then have "GetStr_step ent text (c # p) out = (p, out @ [c])" by (cases p) (auto simp: GetStr_step_def)
  then show ?case using Cons by (subst GetStr_loop.simps) simp
qed (simp add: GetStr_loop.simps)

text \<open>A string without carriage returns, zeros and, where they are replaced, ampersands is taken as it stands.\<close>

lemma GetStr_plain: "13 \<notin> set t \<Longrightarrow> 0 \<notin> set t \<Longrightarrow> ent \<longrightarrow> 38 \<notin> set t \<Longrightarrow> GetStr ent False t = t"
  by (simp add: GetStr_def GetStr_plain_loop) metis

subsection \<open>Properties\<close>

text \<open>
  C31. The XML parser returns on every file: the recursion over nested elements ends, with the tree or with an error.
\<close>

theorem load_file_returns: "\<exists>d'. LoadFile f d = Some d'"
  using Parse_buffer_total by (cases f) (auto simp: LoadFile_def Let_def)

text \<open>
  C19. Every document of the grammar is read to its tree: a declaration, elements with attributes and contents, texts,
  comments and CDATA sections, with white space where XML allows it, and with a byte order mark in front or without.
\<close>

theorem document_is_read:
  assumes "document (doc_options d) ns bs" "SkipWhiteSpace bs = 60 # q" "0 \<notin> set bs" "b = [] \<or> b = BOM"
  shows "LoadFile (File (b @ bs)) d = Some ((Clear d)\<lparr>doc_writeBOM := b \<noteq> [], doc_children := ns\<rparr>)"
  using assms by (rule LoadFile_document)

theorem document_is_read_witness:
  "map_option doc_children (LoadFile (File (cstr ''<a b=\"1\">x &lt; y<c/></a>'')) XMLDocument) =
     Some [XMLElement (cstr ''a'') [(cstr ''b'', cstr ''1'')] [XMLText (cstr ''x < y'') False, XMLElement (cstr ''c'') [] []]]"
proof -
  let ?o = "doc_options XMLDocument"
  have o: "processEntities ?o" "\<not> collapse ?o" by (simp_all add: XMLDocument_def)
  have g: "GetStr True False (cstr ''x &lt; y'') = cstr ''x < y''" "GetStr True False (cstr ''1'') = cstr ''1''" by code_simp+
  have n: "xml_name (cstr ''a'')" "xml_name (cstr ''b'')" "xml_name (cstr ''c'')" "char_data (cstr ''x &lt; y'')" by code_simp+
  have b: "blank []" "blank [32]" by code_simp+
  have at: "attributes True [(cstr ''b'', cstr ''1'')] ([32] @ cstr ''b'' @ [] @ 61 # [] @ 34 # cstr ''1'' @ 34 # [])"
    using attribute [OF b(2) _ n(2) b(1) b(1) _ _ no_attribute [OF b(1)], of 34 "cstr ''1''" True] g(2) by (simp add: cstr_def of_char_def)
  have c: "content ?o True [XMLElement (cstr ''c'') [] []] ([] @ 60 # cstr ''c'' @ [] @ 47 # 62 # [])"
    by (rule empty_element [OF b(1) n(3) no_attribute [OF b(1)] _ no_node [OF b(1)]]) simp
  have t: "content ?o True [XMLText (cstr ''x < y'') False, XMLElement (cstr ''c'') [] []] (cstr ''x &lt; y'' @ 60 # (cstr ''c'' @ [] @ 47 # 62 # []))"
    using text_node [OF n(4), of ?o True] c o g(1) by simp
  have "content ?o False [XMLElement (cstr ''a'') [(cstr ''b'', cstr ''1'')] [XMLText (cstr ''x < y'') False, XMLElement (cstr ''c'') [] []]]
      ([] @ 60 # cstr ''a'' @ ([32] @ cstr ''b'' @ [] @ 61 # [] @ 34 # cstr ''1'' @ 34 # []) @ 62 # (cstr ''x &lt; y'' @ 60 # (cstr ''c'' @ [] @ 47 # 62 # [])) @
        60 # 47 # cstr ''a'' @ [] @ 62 # [])"
    by (rule element [OF b(1) n(1) _ _ t b(1) no_node [OF b(1)]]) (use at o in simp_all)
  then have "document ?o [XMLElement (cstr ''a'') [(cstr ''b'', cstr ''1'')] [XMLText (cstr ''x < y'') False, XMLElement (cstr ''c'') [] []]]
      (cstr ''<a b=\"1\">x &lt; y<c/></a>'')"
    by (simp add: document_def cstr_def of_char_def)
  from document_is_read [OF this, of _ "[]"] show ?thesis
    by (simp add: cstr_def of_char_def SkipWhiteSpace_def)
qed

lemma content_inner: "content opt inner ns bs \<Longrightarrow> content opt True ns bs"
  by (induction rule: content.induct) (auto intro: content.intros)

text \<open>
  A closing tag for which there is no open element ends the document without an error: whatever follows it, be it
  XML or not, is left out.
\<close>

theorem stray_closing_tag_ends_document:
  assumes "content (doc_options d) False ns bs" "SkipWhiteSpace bs = 60 # q" "0 \<notin> set bs" "xml_name n" "0 \<notin> set n" "0 \<notin> set junk"
  shows "LoadFile (File (bs @ 60 # 47 # n @ 62 # junk)) d = Some ((Clear d)\<lparr>doc_writeBOM := False, doc_children := ns\<rparr>)"
proof -
  have skip: "SkipWhiteSpace (bs @ z) = 60 # q @ z" for z
    using assms(2) by (metis SkipWhiteSpace_def append_Cons dropWhile_append dropWhile_eq_Nil_conv list.distinct(1))
  have "ParseDeep (doc_options d) None [] (bs @ 60 # 47 # n @ [] @ 62 # junk) = Some ([] @ ns, End_tag n junk)"
    by (rule content_parse [OF content_inner [OF assms(1)] closes_with.intros(2) [OF assms(4)]]) simp
  then show ?thesis
    using Parse_buffer_doc [of "Clear d" "bs @ 60 # 47 # n @ 62 # junk" ns "End_tag n junk" _ "[]"] skip assms(3,5,6)
    by (auto simp: LoadFile_def Let_def Clear_def)
qed

theorem stray_closing_tag_ends_document_witness:
  "map_option doc_children (LoadFile (File (cstr ''<a/></b><c>no XML'')) XMLDocument) = Some [XMLElement (cstr ''a'') [] []] \<and>
   map_option doc_errorID (LoadFile (File (cstr ''<a/></b><c>no XML'')) XMLDocument) = Some XML_NO_ERROR"
proof -
  have n: "xml_name (cstr ''a'')" "xml_name (cstr ''b'')" "blank []" by code_simp+
  have "content (doc_options XMLDocument) False [XMLElement (cstr ''a'') [] []] ([] @ 60 # cstr ''a'' @ [] @ 47 # 62 # [])"
    by (rule empty_element [OF n(3,1) no_attribute [OF n(3)] _ no_node [OF n(3)]]) simp
  from stray_closing_tag_ends_document [OF this _ _ n(2), of _ "cstr ''<c>no XML''"] show ?thesis
    by (simp add: cstr_def of_char_def SkipWhiteSpace_def Clear_def XMLDocument_def)
qed

text \<open>
  An ampersand that begins no entity is kept only as long as nothing before it in the string was replaced: behind a
  replaced entity the byte that stood at the place of writing comes instead.
\<close>

lemma unknown_entity_after_known:
  "GetStr True False (cstr ''a & b'') = cstr ''a & b''" "GetStr True False (cstr ''&lt;&b'') = cstr ''<lb''"
  by code_simp+

text \<open>A reference to a character is replaced by its UTF-8 code; one to the character 0 ends the string.\<close>

lemma character_references:
  "GetStr True False (cstr ''&#65;&#x4e2d;.'') = [65, 0xE4, 0xB8, 0xAD, 46]" "GetStr True False (cstr ''a&#0;b'') = cstr ''a''"
  by code_simp+

text \<open>
  The file \<^verbatim>\<open>conf/all.xml\<close>, in the part where a start tag stands for an end tag: the inner element is closed by the wrong tag.
\<close>

lemma all_xml_refused:
  "map_option doc_errorID (LoadFile (File (cstr ''<m><data_dir>./<data_dir></m>'')) XMLDocument) = Some XML_ERROR_MISMATCHED_ELEMENT"
  by code_simp

end
