(* ===== verification/Xml_Config.thy ===== *)
theory Xml_Config
  imports Tinyxml_Read
begin

text \<open>
  The configuration: \<^verbatim>\<open>src/mqtt_server/xml_config.cpp\<close>, over the XML parser. The file system is an argument \<open>fs\<close>, which gives
  the file of a name. A pointer to an element is the list of its children, and a call through a null pointer is \<^const>\<open>None\<close>,
  as is a string that is assigned a null pointer.
\<close>

subsection \<open>CXMLConfig\<close>

record cxml_config =
  cfg_file_name :: cstring
  cfg_log_conf_name :: cstring
  cfg_server_listen_ip :: cstring
  cfg_parent_server_ip :: cstring
  cfg_parent_user_name :: cstring
  cfg_parent_topic_name :: cstring
  cfg_db_file_name :: cstring
  cfg_data_dir :: cstring
  cfg_server_listen_port :: u16
  cfg_parent_server_port :: u16
  cfg_parent_keep_alive :: u16
  cfg_thread_number :: u32
  cfg_flush_interval :: u32
  cfg_idle_timeout :: u32
  cfg_mqtt_bridge :: u8
  cfg_http_server_ip :: cstring
  cfg_http_server_port :: u16

definition read_node_text :: "xml_node list option \<Rightarrow> cstring \<Rightarrow> (int \<times> cstring) option" where
  "read_node_text element name =
     do {
       nodes \<leftarrow> element;
       case FirstChildElement name nodes of
         None \<Rightarrow> Some (-1, [])
       | Some node \<Rightarrow> do { str_value \<leftarrow> GetText node; Some (if str_value = [] then -1 else 0, str_value) }
     }"

text \<open>
  The macro \<^verbatim>\<open>ERROR_RETURN(this->read_node_text(...), -1)\<close>, for a member of the configuration, which is overwritten in
  any case, and for a number.
\<close>

definition read_member ::
  "xml_node list option \<Rightarrow> cstring \<Rightarrow> (cstring \<Rightarrow> cxml_config \<Rightarrow> cxml_config) \<Rightarrow> cxml_config \<Rightarrow> (cxml_config \<Rightarrow> (int \<times> cxml_config) option) \<Rightarrow> (int \<times> cxml_config) option" where
  "read_member element name assign c k = do { (r, s) \<leftarrow> read_node_text element name; let c = assign s c; if r < 0 then Some (-1, c) else k c }"

definition read_number ::
  "xml_node list option \<Rightarrow> cstring \<Rightarrow> cxml_config \<Rightarrow> (int \<Rightarrow> (int \<times> cxml_config) option) \<Rightarrow> (int \<times> cxml_config) option" where
  "read_number element name c k = do { (r, s) \<leftarrow> read_node_text element name; if r < 0 then Some (-1, c) else do { v \<leftarrow> atoi s; k v } }"

text \<open>The sections of the file.\<close>

definition open_mqtt_server :: "xml_node list option \<Rightarrow> cxml_config \<Rightarrow> (cxml_config \<Rightarrow> (int \<times> cxml_config) option) \<Rightarrow> (int \<times> cxml_config) option" where
  "open_mqtt_server mqtt_server c k =
     (if mqtt_server = None then Some (-1, c)
      else
        read_member mqtt_server (cstr ''ip'') (\<lambda>s. cfg_server_listen_ip_update (\<lambda>_. s)) c (\<lambda>c.
        read_number mqtt_server (cstr ''port'') c (\<lambda>port.
        let c = c\<lparr>cfg_server_listen_port := of_int port\<rparr> in
        read_member mqtt_server (cstr ''db_file_name'') (\<lambda>s. cfg_db_file_name_update (\<lambda>_. s)) c (\<lambda>c.
        read_number mqtt_server (cstr ''db_flush_interval'') c (\<lambda>v.
        let c = c\<lparr>cfg_flush_interval := if of_int v \<le> (0 :: u32) then 5 * 60 else of_int v\<rparr> in
        read_number mqtt_server (cstr ''max_idle_timeout'') c (\<lambda>v.
        let c = c\<lparr>cfg_idle_timeout := if of_int v \<le> (0 :: u32) then 300 else of_int v\<rparr> in
        read_member mqtt_server (cstr ''data_dir'') (\<lambda>s. cfg_data_dir_update (\<lambda>_. s)) c k))))))"

text \<open>The test for a missing section compares the pointer of the section before, which is not null here.\<close>

definition open_parent :: "xml_node list option \<Rightarrow> cxml_config \<Rightarrow> (cxml_config \<Rightarrow> (int \<times> cxml_config) option) \<Rightarrow> (int \<times> cxml_config) option" where
  "open_parent parent_mqtt_server c k =
     read_member parent_mqtt_server (cstr ''ip'') (\<lambda>s. cfg_parent_server_ip_update (\<lambda>_. s)) c (\<lambda>c.
     read_number parent_mqtt_server (cstr ''port'') c (\<lambda>port.
     let c = c\<lparr>cfg_parent_server_port := of_int port\<rparr> in
     read_member parent_mqtt_server (cstr ''user_name'') (\<lambda>s. cfg_parent_user_name_update (\<lambda>_. s)) c (\<lambda>c.
     read_member parent_mqtt_server (cstr ''topic_name'') (\<lambda>s. cfg_parent_topic_name_update (\<lambda>_. s)) c (\<lambda>c.
     read_number parent_mqtt_server (cstr ''keep_alive'') c (\<lambda>v.
     k (c\<lparr>cfg_parent_keep_alive := if of_int v \<le> (0 :: u16) then 60 else of_int v\<rparr>))))))"

definition open_http :: "xml_node list option \<Rightarrow> cxml_config \<Rightarrow> (int \<times> cxml_config) option" where
  "open_http http_server c =
     read_member http_server (cstr ''ip'') (\<lambda>s. cfg_http_server_ip_update (\<lambda>_. s)) c (\<lambda>c.
     read_number http_server (cstr ''port'') c (\<lambda>port. Some (0, c\<lparr>cfg_http_server_port := of_int port\<rparr>)))"

definition open_modes :: "xml_node list \<Rightarrow> cxml_config \<Rightarrow> (int \<times> cxml_config) option" where
  "open_modes doc c =
     do {
       bridge \<leftarrow> FirstChildElement (cstr ''mqtt_bridge'') doc;
       tmp \<leftarrow> GetText bridge;
       if tmp = [] then Some (-1, c)
       else do {
         v \<leftarrow> atoi tmp;
         let c = c\<lparr>cfg_mqtt_bridge := of_int v\<rparr>;
         let http = (\<lambda>c. if cfg_mqtt_bridge c \<ge> 1 then open_http (FirstChildElement (cstr ''http_server'') doc) c else Some (0, c));
         if cfg_mqtt_bridge c = 0 \<or> cfg_mqtt_bridge c = 3
         then open_parent (FirstChildElement (cstr ''parent_mqtt_server'') doc) c http
         else http c
       }
     }"

definition open_document :: "xml_node list \<Rightarrow> cxml_config \<Rightarrow> (int \<times> cxml_config) option" where
  "open_document doc c =
     (case FirstChildElement (cstr ''global'') doc of
        None \<Rightarrow> Some (-1, c)
      | Some global \<Rightarrow>
          (case FirstChildElement (cstr ''log4cplus_conf'') global of
             None \<Rightarrow> Some (-1, c)
           | Some node \<Rightarrow> do {
               log_conf_name \<leftarrow> GetText node;
               let c = c\<lparr>cfg_log_conf_name := log_conf_name\<rparr>;
               read_number (Some global) (cstr ''thread_num'') c (\<lambda>v.
               let c = c\<lparr>cfg_thread_number := of_int v\<rparr> in
               open_mqtt_server (FirstChildElement (cstr ''mqtt_server'') doc) c (open_modes doc))
             }))"

definition CXMLConfig_open :: "(cstring \<Rightarrow> xml_file) \<Rightarrow> cxml_config \<Rightarrow> (int \<times> cxml_config) option" where
  "CXMLConfig_open fs c =
     (if cfg_file_name c = [] then Some (-1, c)
      else do {
        doc \<leftarrow> LoadFile (fs (cfg_file_name c)) XMLDocument;
        if doc_errorID doc \<noteq> XML_NO_ERROR then Some (-1, c) else open_document (doc_children doc) c
      })"

definition CXMLConfig_open_file :: "(cstring \<Rightarrow> xml_file) \<Rightarrow> cstring \<Rightarrow> cxml_config \<Rightarrow> (int \<times> cxml_config) option" where
  "CXMLConfig_open_file fs file_name c = CXMLConfig_open fs (c\<lparr>cfg_file_name := file_name\<rparr>)"

subsection \<open>Documents that describe a configuration\<close>

text \<open>The file is an XML text of the document.\<close>

definition xml_text :: "xml_node list \<Rightarrow> xml_file \<Rightarrow> bool" where
  "xml_text doc f \<longleftrightarrow> (\<exists>b bs q. f = File (b @ bs) \<and> document (doc_options XMLDocument) doc bs \<and> SkipWhiteSpace bs = 60 # q \<and> 0 \<notin> set bs \<and> (b = [] \<or> b = BOM))"

lemma open_xml_text:
  assumes "cfg_file_name c \<noteq> []" "xml_text doc (fs (cfg_file_name c))"
  shows "CXMLConfig_open fs c = open_document doc c"
proof -
  obtain b bs q where f: "fs (cfg_file_name c) = File (b @ bs)" "document (doc_options XMLDocument) doc bs" "SkipWhiteSpace bs = 60 # q" "0 \<notin> set bs"
      "b = [] \<or> b = BOM"
    using assms(2) by (auto simp: xml_text_def)
  show ?thesis using LoadFile_document [OF f(2-5)] assms(1) f(1) by (simp add: CXMLConfig_open_def Clear_def XMLDocument_def)
qed

text \<open>The section \<open>sec\<close> of the document has an entry \<open>name\<close> with the text \<open>s\<close>.\<close>

definition entry :: "xml_node list \<Rightarrow> cstring \<Rightarrow> cstring \<Rightarrow> cstring option" where
  "entry doc sec name = do { el \<leftarrow> FirstChildElement sec doc; node \<leftarrow> FirstChildElement name el; GetText node }"

definition says :: "xml_node list \<Rightarrow> cstring \<Rightarrow> cstring \<Rightarrow> cstring \<Rightarrow> bool" where
  "says doc sec name s \<longleftrightarrow> entry doc sec name = Some s \<and> s \<noteq> []"

definition says_number :: "xml_node list \<Rightarrow> cstring \<Rightarrow> cstring \<Rightarrow> int \<Rightarrow> bool" where
  "says_number doc sec name v \<longleftrightarrow> says doc sec name (print_int v) \<and> - 2147483648 \<le> v \<and> v < 2147483648"

lemma read_entry:
  assumes "entry doc sec name \<noteq> None"
  shows "read_node_text (FirstChildElement sec doc) name = Some (if the (entry doc sec name) = [] then -1 else 0, the (entry doc sec name))"
  using assms by (auto simp: entry_def read_node_text_def bind_eq_Some_conv)

lemmas reads = read_member_def read_number_def read_entry says_def says_number_def atoi_print_int

definition describes_server :: "xml_node list \<Rightarrow> cxml_config \<Rightarrow> bool" where
  "describes_server doc g \<longleftrightarrow>
     says doc (cstr ''mqtt_server'') (cstr ''ip'') (cfg_server_listen_ip g) \<and> says_number doc (cstr ''mqtt_server'') (cstr ''port'') (uint (cfg_server_listen_port g)) \<and>
     says doc (cstr ''mqtt_server'') (cstr ''db_file_name'') (cfg_db_file_name g) \<and>
     says_number doc (cstr ''mqtt_server'') (cstr ''db_flush_interval'') (uint (cfg_flush_interval g)) \<and> cfg_flush_interval g \<noteq> 0 \<and>
     says_number doc (cstr ''mqtt_server'') (cstr ''max_idle_timeout'') (uint (cfg_idle_timeout g)) \<and> cfg_idle_timeout g \<noteq> 0 \<and>
     says doc (cstr ''mqtt_server'') (cstr ''data_dir'') (cfg_data_dir g)"

definition describes_parent :: "xml_node list \<Rightarrow> cxml_config \<Rightarrow> bool" where
  "describes_parent doc g \<longleftrightarrow>
     says doc (cstr ''parent_mqtt_server'') (cstr ''ip'') (cfg_parent_server_ip g) \<and>
     says_number doc (cstr ''parent_mqtt_server'') (cstr ''port'') (uint (cfg_parent_server_port g)) \<and>
     says doc (cstr ''parent_mqtt_server'') (cstr ''user_name'') (cfg_parent_user_name g) \<and>
     says doc (cstr ''parent_mqtt_server'') (cstr ''topic_name'') (cfg_parent_topic_name g) \<and>
     says_number doc (cstr ''parent_mqtt_server'') (cstr ''keep_alive'') (uint (cfg_parent_keep_alive g)) \<and> cfg_parent_keep_alive g \<noteq> 0"

definition describes_http :: "xml_node list \<Rightarrow> cxml_config \<Rightarrow> bool" where
  "describes_http doc g \<longleftrightarrow>
     says doc (cstr ''http_server'') (cstr ''ip'') (cfg_http_server_ip g) \<and> says_number doc (cstr ''http_server'') (cstr ''port'') (uint (cfg_http_server_port g))"

definition describes_global :: "xml_node list \<Rightarrow> cxml_config \<Rightarrow> bool" where
  "describes_global doc g \<longleftrightarrow>
     says doc (cstr ''global'') (cstr ''log4cplus_conf'') (cfg_log_conf_name g) \<and> says_number doc (cstr ''global'') (cstr ''thread_num'') (uint (cfg_thread_number g))"

definition describes_mode :: "xml_node list \<Rightarrow> u8 \<Rightarrow> bool" where
  "describes_mode doc mode \<longleftrightarrow> FirstChildElement (cstr ''mqtt_bridge'') doc \<bind> GetText = Some (print_int (uint mode))"

text \<open>The members a section sets.\<close>

definition set_server :: "cxml_config \<Rightarrow> cxml_config \<Rightarrow> cxml_config" where
  "set_server g c = c\<lparr>cfg_server_listen_ip := cfg_server_listen_ip g, cfg_server_listen_port := cfg_server_listen_port g, cfg_db_file_name := cfg_db_file_name g,
     cfg_flush_interval := cfg_flush_interval g, cfg_idle_timeout := cfg_idle_timeout g, cfg_data_dir := cfg_data_dir g\<rparr>"

definition set_parent :: "cxml_config \<Rightarrow> cxml_config \<Rightarrow> cxml_config" where
  "set_parent g c = c\<lparr>cfg_parent_server_ip := cfg_parent_server_ip g, cfg_parent_server_port := cfg_parent_server_port g,
     cfg_parent_user_name := cfg_parent_user_name g, cfg_parent_topic_name := cfg_parent_topic_name g, cfg_parent_keep_alive := cfg_parent_keep_alive g\<rparr>"

definition set_http :: "cxml_config \<Rightarrow> cxml_config \<Rightarrow> cxml_config" where
  "set_http g c = c\<lparr>cfg_http_server_ip := cfg_http_server_ip g, cfg_http_server_port := cfg_http_server_port g\<rparr>"

lemma open_mqtt_server_described:
  assumes "describes_server doc g"
  shows "open_mqtt_server (FirstChildElement (cstr ''mqtt_server'') doc) c k = k (set_server g c)"
proof -
  have "FirstChildElement (cstr ''mqtt_server'') doc \<noteq> None"
    using assms by (auto simp: describes_server_def says_def entry_def bind_eq_Some_conv)
  then show ?thesis
    using assms by (simp add: describes_server_def open_mqtt_server_def reads Let_def set_server_def del: not_None_eq)
qed

lemma open_parent_described: "describes_parent doc g \<Longrightarrow> open_parent (FirstChildElement (cstr ''parent_mqtt_server'') doc) c k = k (set_parent g c)"
  by (simp add: describes_parent_def open_parent_def reads Let_def set_parent_def)

lemma open_http_described: "describes_http doc g \<Longrightarrow> open_http (FirstChildElement (cstr ''http_server'') doc) c = Some (0, set_http g c)"
  by (simp add: describes_http_def open_http_def reads set_http_def)

lemma print_int_nonempty: "print_int v \<noteq> []"
  using decimal.simps by (simp add: print_int_def)

lemma open_start:
  assumes "cfg_file_name c \<noteq> []" "xml_text doc (fs (cfg_file_name c))" "describes_global doc g" "describes_server doc g"
  shows "CXMLConfig_open fs c = open_modes doc (set_server g (c\<lparr>cfg_log_conf_name := cfg_log_conf_name g, cfg_thread_number := cfg_thread_number g\<rparr>))"
proof -
  obtain global node where n: "FirstChildElement (cstr ''global'') doc = Some global" "FirstChildElement (cstr ''log4cplus_conf'') global = Some node"
      "GetText node = Some (cfg_log_conf_name g)"
    using assms(3) by (auto simp: describes_global_def says_def entry_def bind_eq_Some_conv)
  have t: "read_number (Some global) (cstr ''thread_num'') c k = k (uint (cfg_thread_number g))" for c k
    using assms(3) n(1) unfolding n(1) [symmetric] by (simp add: describes_global_def reads)
  show ?thesis
    unfolding open_xml_text [where c = c and fs = fs, OF assms(1,2)] using n by (simp add: open_document_def t open_mqtt_server_described [OF assms(4)])
qed

lemma open_modes_described:
  assumes "describes_mode doc mode"
  shows "open_modes doc c =
    (let c = c\<lparr>cfg_mqtt_bridge := mode\<rparr>;
         http = (\<lambda>c. if cfg_mqtt_bridge c \<ge> 1 then open_http (FirstChildElement (cstr ''http_server'') doc) c else Some (0, c))
     in if mode = 0 \<or> mode = 3 then open_parent (FirstChildElement (cstr ''parent_mqtt_server'') doc) c http else http c)"
proof -
  have "uint mode < 256" using uint_lt2p [of mode] by simp
  then have "atoi (print_int (uint mode)) = Some (uint mode)" using uint_ge_0 [of mode] by (intro atoi_print_int) linarith+
  moreover obtain b where "FirstChildElement (cstr ''mqtt_bridge'') doc = Some b" "GetText b = Some (print_int (uint mode))"
    using assms by (auto simp: describes_mode_def bind_eq_Some_conv)
  ultimately show ?thesis using print_int_nonempty by (simp add: open_modes_def)
qed

lemma config_described:
  assumes "cfg_file_name c \<noteq> []" "xml_text doc (fs (cfg_file_name c))" "describes_global doc g" "describes_server doc g"
    and "describes_mode doc (cfg_mqtt_bridge g)"
    and "cfg_mqtt_bridge g = 0 \<or> cfg_mqtt_bridge g = 3 \<Longrightarrow> describes_parent doc g" "1 \<le> cfg_mqtt_bridge g \<Longrightarrow> describes_http doc g"
  shows "CXMLConfig_open fs c =
    Some (0, (if 1 \<le> cfg_mqtt_bridge g then set_http g else id) ((if cfg_mqtt_bridge g = 0 \<or> cfg_mqtt_bridge g = 3 then set_parent g else id)
      ((set_server g (c\<lparr>cfg_log_conf_name := cfg_log_conf_name g, cfg_thread_number := cfg_thread_number g\<rparr>))\<lparr>cfg_mqtt_bridge := cfg_mqtt_bridge g\<rparr>)))"
proof -
  note h = open_http_described [OF assms(7)] and p = open_parent_described [OF assms(6)]
  have m: "cfg_mqtt_bridge (set_parent g c) = cfg_mqtt_bridge c" for c by (simp add: set_parent_def)
  show ?thesis
    unfolding open_start [of c _ fs, OF assms(1-4)] open_modes_described [OF assms(5)] Let_def
    by (cases "cfg_mqtt_bridge g = 0 \<or> cfg_mqtt_bridge g = 3"; cases "1 \<le> cfg_mqtt_bridge g") (simp_all add: h p m)
qed

text \<open>
  C17. The configuration is what the file says, from its bytes to the members: if the file is an XML text of a document in
  which the sections that the mode of the broker needs are there, with texts and with numbers in the range of the
  types, \<^verbatim>\<open>open\<close> succeeds and sets exactly their members, wherever the entries stand in their sections and whatever else
  is in the file; the others keep their values.
\<close>

theorem config_is_read:
  assumes "cfg_file_name c \<noteq> []" "xml_text doc (fs (cfg_file_name c))" "describes_global doc g" "describes_server doc g"
    and "describes_mode doc (cfg_mqtt_bridge g)"
    and "cfg_mqtt_bridge g = 0 \<or> cfg_mqtt_bridge g = 3 \<Longrightarrow> describes_parent doc g" "1 \<le> cfg_mqtt_bridge g \<Longrightarrow> describes_http doc g"
  shows "CXMLConfig_open fs c =
    Some (0, (if 1 \<le> cfg_mqtt_bridge g then set_http g else id) ((if cfg_mqtt_bridge g = 0 \<or> cfg_mqtt_bridge g = 3 then set_parent g else id)
      ((set_server g (c\<lparr>cfg_log_conf_name := cfg_log_conf_name g, cfg_thread_number := cfg_thread_number g\<rparr>))\<lparr>cfg_mqtt_bridge := cfg_mqtt_bridge g\<rparr>)))"
  using assms by (rule config_described)

text \<open>The file \<^verbatim>\<open>conf/mqtt_server.xml\<close> of the repository, and what it says.\<close>

definition conf_lines :: "bytes list" where
  "conf_lines =
     [cstr ''<?xml version=\"1.0\"?>'',
      cstr ''<global>'',
      9 # cstr ''<thread_num>1</thread_num>'',
      9 # cstr ''<log4cplus_conf>log4cplus_debug.properties</log4cplus_conf>'',
      cstr ''</global>'',
      [],
      cstr ''<mqtt_server>'',
      9 # cstr ''<ip>0.0.0.0</ip>'',
      9 # cstr ''<port>5060</port>'',
      9 # cstr ''<db_file_name>dup.db</db_file_name>'',
      9 # cstr ''<db_flush_interval>30</db_flush_interval>'',
      9 # cstr ''<max_idle_timeout>300</max_idle_timeout>'',
      9 # cstr ''<data_dir>./data</data_dir>'',
      cstr ''</mqtt_server>'',
      [],
      cstr ''<mqtt_bridge>0</mqtt_bridge>  <!-- bridge will ingore parent server -->'',
      [],
      cstr ''<parent_mqtt_server>'',
      9 # cstr ''<ip>10.1.16.130</ip>'',
      9 # cstr ''<port>1883</port>'',
      9 # cstr ''<user_name>diwh</user_name>'',
      9 # cstr ''<topic_name>topic_name</topic_name>'',
      9 # cstr ''<keep_alive>60</keep_alive>'',
      cstr ''</parent_mqtt_server>'']"

definition text_of :: "bytes list \<Rightarrow> bytes" where
  "text_of lines = concat (map (\<lambda>line. line @ [10]) lines)"

definition elem :: "string \<Rightarrow> cstring \<Rightarrow> xml_node" where
  "elem name text = XMLElement (cstr name) [] [XMLText text False]"

definition conf_mqtt_server :: "xml_node list" where
  "conf_mqtt_server =
     [XMLDeclaration (cstr ''xml version=\"1.0\"''),
      XMLElement (cstr ''global'') [] [elem ''thread_num'' (print_int 1), elem ''log4cplus_conf'' (cstr ''log4cplus_debug.properties'')],
      XMLElement (cstr ''mqtt_server'') [] [elem ''ip'' (cstr ''0.0.0.0''), elem ''port'' (print_int 5060), elem ''db_file_name'' (cstr ''dup.db''),
        elem ''db_flush_interval'' (print_int 30), elem ''max_idle_timeout'' (print_int 300), elem ''data_dir'' (cstr ''./data'')],
      elem ''mqtt_bridge'' (print_int 0), XMLComment (cstr '' bridge will ingore parent server ''),
      XMLElement (cstr ''parent_mqtt_server'') [] [elem ''ip'' (cstr ''10.1.16.130''), elem ''port'' (print_int 1883), elem ''user_name'' (cstr ''diwh''),
        elem ''topic_name'' (cstr ''topic_name''), elem ''keep_alive'' (print_int 60)]]"

text \<open>Sections of entries with plain texts, as the file has them.\<close>

definition entry_ok :: "bytes \<times> string \<times> bytes \<Rightarrow> bool" where
  "entry_ok e = (case e of (w, n, t) \<Rightarrow> blank w \<and> xml_name (cstr n) \<and> char_data t \<and> 13 \<notin> set t \<and> 0 \<notin> set t \<and> 38 \<notin> set t)"

definition entry_text :: "bytes \<times> string \<times> bytes \<Rightarrow> bytes" where
  "entry_text e = (case e of (w, n, t) \<Rightarrow> w @ 60 # cstr n @ 62 # t @ 60 # 47 # cstr n @ [62])"

lemma entries_content:
  assumes "list_all entry_ok es" "content opt inner ns bs" "\<not> collapse opt"
  shows "content opt inner (map (\<lambda>(w, n, t). elem n t) es @ ns) (concat (map entry_text es) @ bs)"
  using assms(1)
proof (induction es)
  case (Cons e es)
  obtain w n t where e: "e = (w, n, t)" by (cases e)
  have ok: "blank w" "xml_name (cstr n)" "char_data t" "13 \<notin> set t" "0 \<notin> set t" "38 \<notin> set t" using Cons.prems by (simp_all add: e entry_ok_def)
  have "content opt True [XMLText t False] t" using last_text [OF ok(3), of opt] GetStr_plain [OF ok(4,5)] ok(6) assms(3) by simp
  from element [OF ok(1,2) no_attribute _ this _ Cons.IH, of "[]" "[]"] Cons.prems show ?case by (simp add: e entry_text_def elem_def)
qed (simp add: assms(2))

lemma section_content:
  assumes "blank w" "xml_name (cstr n)" "list_all entry_ok es" "blank w'" "content opt inner ns bs" "\<not> collapse opt"
  shows "content opt inner (XMLElement (cstr n) [] (map (\<lambda>(w, n, t). elem n t) es) # ns)
    (w @ 60 # cstr n @ 62 # (concat (map entry_text es) @ w') @ 60 # 47 # cstr n @ 62 # bs)"
  using element [OF assms(1,2) no_attribute _ entries_content [OF assms(3) no_node [OF assms(4)] assms(6)] _ assms(5), of "[]" "[]"] by simp

lemma conf_numbers: "print_int 1 = cstr ''1''" "print_int 5060 = cstr ''5060''" "print_int 30 = cstr ''30''" "print_int 300 = cstr ''300''" "print_int 0 = cstr ''0''"
  "print_int 1883 = cstr ''1883''" "print_int 60 = cstr ''60''"
  by (simp_all add: print_int_def decimal.simps cstr_def of_char_def)

lemma conf_front:
  assumes "content (doc_options XMLDocument) False ns (10 # bs)"
  shows "document (doc_options XMLDocument) (butlast conf_mqtt_server @ ns) (text_of (take 16 conf_lines) @ bs)"
proof -
  let ?o = "doc_options XMLDocument"
  have o: "\<not> collapse ?o" by (simp add: XMLDocument_def)
  let ?s1 = "[([10, 9], ''thread_num'', cstr ''1''), ([10, 9], ''log4cplus_conf'', cstr ''log4cplus_debug.properties'')]"
  let ?s2 = "[([10, 9], ''ip'', cstr ''0.0.0.0''), ([10, 9], ''port'', cstr ''5060''), ([10, 9], ''db_file_name'', cstr ''dup.db''),
      ([10, 9], ''db_flush_interval'', cstr ''30''), ([10, 9], ''max_idle_timeout'', cstr ''300''), ([10, 9], ''data_dir'', cstr ''./data'')]"
  let ?b = "([10, 10], ''mqtt_bridge'', cstr ''0'')"
  have ok: "list_all entry_ok ?s1" "list_all entry_ok ?s2" "list_all entry_ok [?b]" by code_simp+
  have n: "xml_name (cstr ''global'')" "xml_name (cstr ''mqtt_server'')" by code_simp+
  have w: "blank [10]" "blank [10, 10]" "blank [32, 32]" by code_simp+
  have u: "until (cstr ''-->'') (cstr '' bridge will ingore parent server '')" "until (cstr ''?>'') (cstr ''xml version=\"1.0\"'')" by code_simp+
  have g: "GetStr False False (cstr '' bridge will ingore parent server '') = cstr '' bridge will ingore parent server ''"
    "GetStr False False (cstr ''xml version=\"1.0\"'') = cstr ''xml version=\"1.0\"''"
    by (rule GetStr_plain; simp add: cstr_def of_char_def)+
  note c = section_content [OF w(1) n(1) ok(1) w(1) section_content [OF w(2) n(2) ok(2) w(1) entries_content [OF ok(3) comment_node [OF w(3) u(1) assms] o] o] o]
  show ?thesis
    unfolding document_def
    by (intro disjI2 exI conjI, rule u(2), rule c)
      (simp_all add: g conf_mqtt_server_def elem_def conf_numbers, simp add: text_of_def conf_lines_def entry_text_def cstr_def of_char_def)
qed

lemma conf_parent: "content (doc_options XMLDocument) False [last conf_mqtt_server] (10 # text_of (drop 16 conf_lines))"
proof -
  let ?s3 = "[([10, 9], ''ip'', cstr ''10.1.16.130''), ([10, 9], ''port'', cstr ''1883''), ([10, 9], ''user_name'', cstr ''diwh''),
      ([10, 9], ''topic_name'', cstr ''topic_name''), ([10, 9], ''keep_alive'', cstr ''60'')]"
  have o: "\<not> collapse (doc_options XMLDocument)" by (simp add: XMLDocument_def)
  have ok: "list_all entry_ok ?s3" "xml_name (cstr ''parent_mqtt_server'')" "blank [10]" "blank [10, 10]" by code_simp+
  from section_content [OF ok(4,2,1,3) no_node [OF ok(3)] o, of False] show ?thesis
    by (simp add: conf_mqtt_server_def elem_def conf_numbers) (simp add: text_of_def conf_lines_def entry_text_def cstr_def of_char_def)
qed

lemma conf_text: "xml_text conf_mqtt_server (File (text_of conf_lines))" "xml_text (butlast conf_mqtt_server) (File (text_of (take 16 conf_lines)))"
proof -
  have s: "SkipWhiteSpace (text_of (take 16 conf_lines) @ z) = 60 # tl (text_of (take 16 conf_lines)) @ z" for z
  proof -
    have "text_of (take 16 conf_lines) \<noteq> []" "hd (text_of (take 16 conf_lines)) = 60" by code_simp+
    then show ?thesis by (cases "text_of (take 16 conf_lines)") (simp_all add: skip_stop)
  qed
  have z: "0 \<notin> set (text_of conf_lines)" by code_simp
  have t: "text_of (take 16 conf_lines) @ text_of (drop 16 conf_lines) = text_of conf_lines"
    unfolding text_of_def by (metis append_take_drop_id concat_append map_append)
  have d: "document (doc_options XMLDocument) conf_mqtt_server (text_of conf_lines)"
    using conf_front [OF conf_parent] unfolding t by (simp add: conf_mqtt_server_def)
  show "xml_text conf_mqtt_server (File (text_of conf_lines))" unfolding xml_text_def using d z s [of "text_of (drop 16 conf_lines)"] unfolding t by force
  have "content (doc_options XMLDocument) False [] (10 # [])" by (rule no_node) (simp add: IsWhiteSpace_def isspace_def)
  from conf_front [OF this] have d: "document (doc_options XMLDocument) (butlast conf_mqtt_server) (text_of (take 16 conf_lines))" by simp
  have "0 \<notin> set (text_of (take 16 conf_lines))" using z t by (metis Un_iff set_append)
  then show "xml_text (butlast conf_mqtt_server) (File (text_of (take 16 conf_lines)))" unfolding xml_text_def using d s [of "[]"] by force
qed

definition conf_values :: "cxml_config \<Rightarrow> cxml_config" where
  "conf_values c = c\<lparr>cfg_log_conf_name := cstr ''log4cplus_debug.properties'', cfg_server_listen_ip := cstr ''0.0.0.0'', cfg_parent_server_ip := cstr ''10.1.16.130'',
     cfg_parent_user_name := cstr ''diwh'', cfg_parent_topic_name := cstr ''topic_name'', cfg_db_file_name := cstr ''dup.db'', cfg_data_dir := cstr ''./data'',
     cfg_server_listen_port := 5060, cfg_parent_server_port := 1883, cfg_parent_keep_alive := 60, cfg_thread_number := 1, cfg_flush_interval := 30,
     cfg_idle_timeout := 300, cfg_mqtt_bridge := 0\<rparr>"

definition blank_config :: cxml_config where
  "blank_config = \<lparr>cfg_file_name = [65], cfg_log_conf_name = [], cfg_server_listen_ip = [], cfg_parent_server_ip = [], cfg_parent_user_name = [],
     cfg_parent_topic_name = [], cfg_db_file_name = [], cfg_data_dir = [], cfg_server_listen_port = 0, cfg_parent_server_port = 0, cfg_parent_keep_alive = 0,
     cfg_thread_number = 0, cfg_flush_interval = 0, cfg_idle_timeout = 0, cfg_mqtt_bridge = 0, cfg_http_server_ip = [], cfg_http_server_port = 0\<rparr>"

lemma conf_described:
  "describes_global conf_mqtt_server (conf_values c)" "describes_mode conf_mqtt_server 0" "describes_server conf_mqtt_server (conf_values c)" "describes_parent conf_mqtt_server (conf_values c)"
  using print_int_nonempty
  by (simp_all add: describes_global_def describes_mode_def describes_server_def describes_parent_def conf_mqtt_server_def conf_values_def says_def says_number_def entry_def
      elem_def cstr_def of_char_def)

theorem config_is_read_witness:
  "\<exists>c'. CXMLConfig_open (\<lambda>_. File (text_of conf_lines)) blank_config = Some (0, c') \<and> cfg_server_listen_port c' = 5060 \<and>
     cfg_parent_topic_name c' = cstr ''topic_name'' \<and> cfg_flush_interval c' = 30 \<and> cfg_mqtt_bridge c' = 0"
proof -
  let ?g = "conf_values blank_config"
  have b: "cfg_file_name blank_config \<noteq> []" "cfg_mqtt_bridge ?g = 0" "describes_mode conf_mqtt_server (cfg_mqtt_bridge ?g)"
    using conf_described(2) by (simp_all add: blank_config_def conf_values_def)
  have "CXMLConfig_open (\<lambda>_. File (text_of conf_lines)) blank_config = Some (0, set_parent ?g ((set_server ?g
      (blank_config\<lparr>cfg_log_conf_name := cfg_log_conf_name ?g, cfg_thread_number := cfg_thread_number ?g\<rparr>))\<lparr>cfg_mqtt_bridge := 0\<rparr>))"
    using config_is_read [of blank_config _ "\<lambda>_. File (text_of conf_lines)", OF b(1) conf_text(1) conf_described(1,3) b(3) conf_described(4)] by (simp add: b(2))
  then show ?thesis by (simp add: set_parent_def set_server_def conf_values_def)
qed

text \<open>
  C35. What is missing in the file can crash the start instead of being reported: the entry for the bridge mode, the text
  of an element, the section for the parent in the modes 0 and 3, and the section for the HTTP server in the modes
  from 1 on but 3, which needs both.
\<close>

theorem config_faults:
  assumes "cfg_file_name c \<noteq> []" "xml_text doc (fs (cfg_file_name c))" "describes_global doc g" "describes_server doc g"
  shows "FirstChildElement (cstr ''mqtt_bridge'') doc = None \<or> FirstChildElement (cstr ''mqtt_bridge'') doc = Some [] \<or>
      describes_mode doc mode \<and> (mode = 0 \<or> mode = 3) \<and> FirstChildElement (cstr ''parent_mqtt_server'') doc = None \<or>
      describes_mode doc mode \<and> 1 \<le> mode \<and> mode \<noteq> 3 \<and> FirstChildElement (cstr ''http_server'') doc = None \<Longrightarrow>
    CXMLConfig_open fs c = None"
proof -
  have "open_parent None c k = None" "open_http None c = None" for c k
    by (simp_all add: open_parent_def open_http_def read_member_def read_node_text_def)
  moreover have "\<not> (1 :: u8) \<le> 0" by simp
  ultimately show "CXMLConfig_open fs c = None"
    if "FirstChildElement (cstr ''mqtt_bridge'') doc = None \<or> FirstChildElement (cstr ''mqtt_bridge'') doc = Some [] \<or>
      describes_mode doc mode \<and> (mode = 0 \<or> mode = 3) \<and> FirstChildElement (cstr ''parent_mqtt_server'') doc = None \<or>
      describes_mode doc mode \<and> 1 \<le> mode \<and> mode \<noteq> 3 \<and> FirstChildElement (cstr ''http_server'') doc = None"
    using that unfolding open_start [of c _ fs, OF assms] by (auto simp: open_modes_described Let_def) (auto simp: open_modes_def)
qed

text \<open>The file \<^verbatim>\<open>conf/mqtt_server.xml\<close> without its last section.\<close>

theorem config_faults_witness:
  "CXMLConfig_open (\<lambda>_. File (text_of (take 16 conf_lines))) blank_config = None"
proof (rule config_faults [where mode = 0])
  show "describes_global (butlast conf_mqtt_server) (conf_values blank_config)" "describes_server (butlast conf_mqtt_server) (conf_values blank_config)"
    using conf_described(1,3) [of blank_config]
    by (simp_all add: describes_global_def describes_server_def conf_mqtt_server_def says_def says_number_def entry_def elem_def cstr_def of_char_def)
qed (use conf_text(2) in \<open>simp_all add: blank_config_def conf_mqtt_server_def describes_mode_def elem_def cstr_def of_char_def\<close>)

end
