(* ===== verification/Timer_File.thy ===== *)
theory Timer_File
  imports Str_Tools
begin

text \<open>
  The files the broker writes its statistics and its client records to: \<^verbatim>\<open>src/common/timer_file.cpp\<close> (a log file that is
  exchanged for a new one by number of lines, by size and by the hour) and \<^verbatim>\<open>include/common/thread_record.hpp\<close> (the
  thread that takes the records from a queue).

  The C library is an argument: \<open>l_localtime\<close> is the calendar of the time zone, \<open>l_time\<close> the clock, \<open>l_fopen\<close> and \<open>l_fwrite\<close>
  say whether a file can be opened and how much of a block can be written; each answer depends on the number
  \<open>l_tick\<close> of calls before it. Files are opened to append, so a write goes to the end of the file.
\<close>

subsection \<open>Calendar times as text\<close>

record tm =
  tm_sec :: int
  tm_min :: int
  tm_hour :: int
  tm_mday :: int
  tm_mon :: int
  tm_year :: int
  tm_yday :: int

text \<open>The conversion \<^verbatim>\<open>%0nd\<close>.\<close>

definition zero_padded :: "nat \<Rightarrow> int \<Rightarrow> cstring" where
  "zero_padded n v =
     (let s = decimal (nat \<bar>v\<bar>); sign = (if v < 0 then [45] else [])
      in sign @ replicate (n - length sign - length s) 48 @ s)"

definition is_same_hour :: "(int \<Rightarrow> tm) \<Rightarrow> int \<Rightarrow> int \<Rightarrow> bool" where
  "is_same_hour localtime t1 t2 =
     (let tm1 = localtime t1; tm2 = localtime t2
      in tm_year tm1 = tm_year tm2 \<and> tm_yday tm1 = tm_yday tm2 \<and> tm_hour tm1 = tm_hour tm2)"

text \<open>\<^verbatim>\<open>strftime\<close> gives 0 when the text and its zero byte do not fit.\<close>

definition format_time :: "(int \<Rightarrow> tm) \<Rightarrow> u32 \<Rightarrow> cstring" where
  "format_time localtime time =
     (let t = localtime (int (unat time));
          s = print_int (tm_year t + 1900) @ cstr ''-'' @ zero_padded 2 (tm_mon t + 1) @ cstr ''-'' @ zero_padded 2 (tm_mday t) @ cstr '' '' @
              zero_padded 2 (tm_hour t) @ cstr '':'' @ zero_padded 2 (tm_min t) @ cstr '':'' @ zero_padded 2 (tm_sec t)
      in if length s < 64 then s else [])"

subsection \<open>CTimerFileInfo\<close>

record ctimer_file_info =
  m_file_prefix :: cstring
  m_file_suffix :: cstring
  m_file_dir :: cstring
  m_file_max_size :: u32
  m_file_max_line :: u32
  m_file_start_seq :: u32

definition CTimerFileInfo :: ctimer_file_info where
  "CTimerFileInfo = \<lparr>m_file_prefix = cstr ''rec'', m_file_suffix = cstr ''log'', m_file_dir = cstr ''./'', m_file_max_size = 10 * 1024 * 1024,
     m_file_max_line = 100000, m_file_start_seq = 0\<rparr>"

definition format_date :: "(int \<Rightarrow> tm) \<Rightarrow> int \<Rightarrow> cstring" where
  "format_date localtime tm_value =
     (let t = localtime tm_value
      in snprintf 256 (zero_padded 4 (tm_year t + 1900) @ cstr ''_'' @ zero_padded 2 (tm_mon t + 1) @ cstr ''_'' @ zero_padded 2 (tm_mday t) @ cstr ''_'' @
           zero_padded 2 (tm_hour t) @ cstr ''_'' @ zero_padded 2 (tm_min t) @ cstr ''_'' @ zero_padded 2 (tm_sec t)))"

definition check_tm :: "(int \<Rightarrow> tm) \<Rightarrow> int \<Rightarrow> int \<Rightarrow> bool" where
  "check_tm localtime t1 t2 = is_same_hour localtime t1 t2"

subsection \<open>CTimerFile\<close>

record log_env =
  l_localtime :: "int \<Rightarrow> tm"
  l_time :: "nat \<Rightarrow> int"
  l_fopen :: "nat \<Rightarrow> bool"
  l_fwrite :: "nat \<Rightarrow> nat"

record ctimer_file =
  l_files :: "cstring \<rightharpoonup> bytes"
  l_tick :: nat
  tf_info :: ctimer_file_info
  tf_cur_file_line :: u32
  tf_file_seq :: u32
  tf_last_write_time :: int
  tf_file_name :: cstring
  tf_file_stream :: "cstring option"

definition answer :: "(nat \<Rightarrow> 'v) \<Rightarrow> ctimer_file \<Rightarrow> 'v \<times> ctimer_file" where
  "answer f t = (f (l_tick t), t\<lparr>l_tick := Suc (l_tick t)\<rparr>)"

definition file_bytes :: "ctimer_file \<Rightarrow> cstring \<Rightarrow> bytes" where
  "file_bytes t n = (case l_files t n of None \<Rightarrow> [] | Some f \<Rightarrow> f)"

definition CTimerFile :: "log_env \<Rightarrow> ctimer_file_info \<Rightarrow> (cstring \<rightharpoonup> bytes) \<Rightarrow> ctimer_file" where
  "CTimerFile env info files =
     \<lparr>l_files = files, l_tick = 1, tf_info = info, tf_cur_file_line = 0, tf_file_seq = m_file_start_seq info,
      tf_last_write_time = l_time env 0, tf_file_name = [], tf_file_stream = None\<rparr>"

definition CTimerFile_close :: "ctimer_file \<Rightarrow> ctimer_file" where
  "CTimerFile_close t = t\<lparr>tf_file_stream := None\<rparr>"

definition gen_file_name :: "log_env \<Rightarrow> ctimer_file \<Rightarrow> ctimer_file" where
  "gen_file_name env t =
     (let (now, t) = answer (l_time env) t
      in t\<lparr>tf_file_name := snprintf 256 (m_file_dir (tf_info t) @ cstr ''/'' @ m_file_prefix (tf_info t) @ cstr ''_'' @
             format_date (l_localtime env) now @ cstr ''_'' @ zero_padded 4 (int (unat (tf_file_seq t mod 10000))) @ cstr ''.'' @ m_file_suffix (tf_info t)),
           tf_file_seq := tf_file_seq t + 1\<rparr>)"

definition create_file :: "log_env \<Rightarrow> ctimer_file \<Rightarrow> int \<times> ctimer_file" where
  "create_file env t =
     (let t = gen_file_name env t; (ok, t) = answer (l_fopen env) t
      in if ok then (0, t\<lparr>tf_file_stream := Some (tf_file_name t), l_files := (l_files t)(tf_file_name t \<mapsto> file_bytes t (tf_file_name t))\<rparr>)
         else (-1, t\<lparr>tf_file_stream := None\<rparr>))"

text \<open>The three tests for a new file; a null stream cannot be positioned.\<close>

definition file_full :: "log_env \<Rightarrow> ctimer_file \<Rightarrow> (bool \<times> ctimer_file) option" where
  "file_full env t =
     (if tf_cur_file_line t \<ge> m_file_max_line (tf_info t) then Some (True, t)
      else do {
        n \<leftarrow> tf_file_stream t;
        if length (file_bytes t n) \<ge> unat (m_file_max_size (tf_info t)) then Some (True, t)
        else let (now, t) = answer (l_time env) t in Some (\<not> check_tm (l_localtime env) now (tf_last_write_time t), t)
      })"

definition check_file :: "log_env \<Rightarrow> ctimer_file \<Rightarrow> (int \<times> ctimer_file) option" where
  "check_file env t =
     (let (r, t) = (if tf_file_stream t = None then create_file env t else (0, t))
      in if r = -1 then Some (-1, t)
         else do {
           (full, t) \<leftarrow> file_full env t;
           if full then Some (create_file env (t\<lparr>tf_file_stream := None, tf_cur_file_line := 0\<rparr>)) else Some (0, t)
         })"

definition write_data :: "log_env \<Rightarrow> bytes \<Rightarrow> ctimer_file \<Rightarrow> (int \<times> ctimer_file) option" where
  "write_data env data t =
     do {
       (r, t) \<leftarrow> check_file env t;
       if r = -1 then Some (-1, t)
       else do {
         n \<leftarrow> tf_file_stream t;
         let (room, t) = answer (l_fwrite env) t;
         let t = t\<lparr>l_files := (l_files t)(n \<mapsto> file_bytes t n @ take room data)\<rparr>;
         if room < length data then Some (-1, t)
         else let (now, t) = answer (l_time env) t
           in Some (0, t\<lparr>tf_cur_file_line := tf_cur_file_line t + 1, tf_last_write_time := now\<rparr>)
       }
     }"

text \<open>A sequence of records; the results are not looked at, as in the thread below.\<close>

fun write_all :: "log_env \<Rightarrow> bytes list \<Rightarrow> ctimer_file \<Rightarrow> ctimer_file option" where
  "write_all env [] t = Some t"
| "write_all env (r # rs) t = do { (_, t) \<leftarrow> write_data env r t; write_all env rs t }"

subsection \<open>Where the records are\<close>

text \<open>A file that is not open has no lines. Files can be opened, and blocks of \<open>n\<close> bytes are written whole.\<close>

definition tf_wf :: "ctimer_file \<Rightarrow> bool" where
  "tf_wf t \<longleftrightarrow> (tf_file_stream t = None \<longrightarrow> tf_cur_file_line t = 0)"

definition roomy :: "log_env \<Rightarrow> nat \<Rightarrow> bool" where
  "roomy env n \<longleftrightarrow> (\<forall>i. l_fopen env i \<and> n \<le> l_fwrite env i)"

lemma file_bytes_upd: "file_bytes (t\<lparr>l_files := (l_files t)(n \<mapsto> f)\<rparr>) = (file_bytes t)(n := f)"
  "file_bytes (t\<lparr>l_tick := i\<rparr>) = file_bytes t" "file_bytes (t\<lparr>tf_cur_file_line := l\<rparr>) = file_bytes t"
  "file_bytes (t\<lparr>tf_last_write_time := x\<rparr>) = file_bytes t" "file_bytes (t\<lparr>tf_file_stream := st\<rparr>) = file_bytes t"
  "file_bytes (t\<lparr>tf_file_name := nm\<rparr>) = file_bytes t" "file_bytes (t\<lparr>tf_file_seq := q\<rparr>) = file_bytes t"
  by (auto simp: file_bytes_def fun_eq_iff)

lemma create_file_ok:
  assumes "\<forall>i. l_fopen env i"
  shows "\<exists>n t'. create_file env t = (0, t') \<and> tf_file_stream t' = Some n \<and> file_bytes t' = file_bytes t \<and> tf_info t' = tf_info t \<and>
    tf_cur_file_line t' = tf_cur_file_line t \<and> tf_last_write_time t' = tf_last_write_time t"
proof -
  define t1 where "t1 = gen_file_name env t"
  have t1: "file_bytes t1 = file_bytes t" "tf_info t1 = tf_info t" "tf_cur_file_line t1 = tf_cur_file_line t" "tf_last_write_time t1 = tf_last_write_time t"
    by (simp_all add: t1_def gen_file_name_def answer_def Let_def file_bytes_upd)
  let ?t2 = "t1\<lparr>l_tick := Suc (l_tick t1)\<rparr>" let ?n = "tf_file_name t1"
  have "create_file env t = (0, ?t2\<lparr>tf_file_stream := Some ?n, l_files := (l_files ?t2)(?n \<mapsto> file_bytes ?t2 ?n)\<rparr>)"
    using assms by (simp add: create_file_def answer_def t1_def [symmetric] Let_def)
  moreover have "file_bytes (?t2\<lparr>tf_file_stream := Some ?n, l_files := (l_files ?t2)(?n \<mapsto> file_bytes ?t2 ?n)\<rparr>) = file_bytes t"
    using t1(1) by (auto simp: file_bytes_def fun_eq_iff)
  ultimately show ?thesis using t1 by simp
qed

lemma file_full_ok:
  assumes "tf_file_stream t = Some n"
  shows "\<exists>full t'. file_full env t = Some (full, t') \<and> tf_file_stream t' = Some n \<and> file_bytes t' = file_bytes t \<and> tf_info t' = tf_info t \<and>
    tf_cur_file_line t' = tf_cur_file_line t \<and>
    (\<not> full \<longrightarrow> tf_cur_file_line t < m_file_max_line (tf_info t) \<and> length (file_bytes t n) < unat (m_file_max_size (tf_info t)))"
proof (cases "m_file_max_line (tf_info t) \<le> tf_cur_file_line t \<or> unat (m_file_max_size (tf_info t)) \<le> length (file_bytes t n)")
  case True
  then have "file_full env t = Some (True, t)" using assms by (auto simp: file_full_def)
  then show ?thesis using assms by auto
next
  case False
  then show ?thesis using assms by (auto simp: file_full_def answer_def file_bytes_upd not_le)
qed

text \<open>What the next record finds: a new file, or the one that is open, with room for a line.\<close>

lemma check_file_ok:
  assumes "\<forall>i. l_fopen env i" "tf_wf t"
  shows "\<exists>n t'. check_file env t = Some (0, t') \<and> tf_file_stream t' = Some n \<and> file_bytes t' = file_bytes t \<and> tf_info t' = tf_info t \<and>
    (tf_cur_file_line t' = 0 \<or> tf_file_stream t = Some n \<and> tf_cur_file_line t' = tf_cur_file_line t \<and>
       tf_cur_file_line t < m_file_max_line (tf_info t) \<and> length (file_bytes t n) < unat (m_file_max_size (tf_info t)))"
proof -
  define t1 where "t1 = snd (if tf_file_stream t = None then create_file env t else (0, t))"
  have t1: "(if tf_file_stream t = None then create_file env t else (0, t)) = (0, t1)" "file_bytes t1 = file_bytes t" "tf_info t1 = tf_info t"
      "tf_cur_file_line t1 = tf_cur_file_line t" "tf_file_stream t1 \<noteq> None" "tf_file_stream t \<noteq> None \<Longrightarrow> t1 = t"
    using create_file_ok [OF assms(1), of t] by (auto simp: t1_def)
  obtain n where n: "tf_file_stream t1 = Some n" using t1(5) by blast
  obtain full t2 where 2: "file_full env t1 = Some (full, t2)" "tf_file_stream t2 = Some n" "file_bytes t2 = file_bytes t" "tf_info t2 = tf_info t"
      "tf_cur_file_line t2 = tf_cur_file_line t"
      "\<not> full \<Longrightarrow> tf_cur_file_line t < m_file_max_line (tf_info t) \<and> length (file_bytes t n) < unat (m_file_max_size (tf_info t))"
    using file_full_ok [OF n, of env] t1(2-4) by auto
  show ?thesis
  proof (cases full)
    case True
    then show ?thesis
      using create_file_ok [OF assms(1), of "t2\<lparr>tf_file_stream := None, tf_cur_file_line := 0\<rparr>"] 2 t1(1)
      by (auto simp: check_file_def file_bytes_upd)
  next
    case False
    then show ?thesis
      using 2 t1(1,6) n assms(2) by (auto simp: check_file_def tf_wf_def)
  qed
qed

lemma write_data_ok:
  assumes "roomy env (length r)" "tf_wf t"
  shows "\<exists>n t'. write_data env r t = Some (0, t') \<and> tf_wf t' \<and> tf_file_stream t' = Some n \<and> file_bytes t' = (file_bytes t)(n := file_bytes t n @ r) \<and>
    tf_info t' = tf_info t \<and>
    (tf_cur_file_line t' = 1 \<or> tf_file_stream t = Some n \<and> unat (tf_cur_file_line t') = Suc (unat (tf_cur_file_line t)) \<and>
       tf_cur_file_line t < m_file_max_line (tf_info t) \<and> length (file_bytes t n) < unat (m_file_max_size (tf_info t)))"
proof -
  have f: "\<forall>i. l_fopen env i" "\<And>i. \<not> l_fwrite env i < length r" "\<And>i. take (l_fwrite env i) r = r" using assms(1) by (simp_all add: roomy_def not_less)
  obtain n t1 where 1: "check_file env t = Some (0, t1)" "tf_file_stream t1 = Some n" "file_bytes t1 = file_bytes t" "tf_info t1 = tf_info t"
      "tf_cur_file_line t1 = 0 \<or> tf_file_stream t = Some n \<and> tf_cur_file_line t1 = tf_cur_file_line t \<and>
       tf_cur_file_line t < m_file_max_line (tf_info t) \<and> length (file_bytes t n) < unat (m_file_max_size (tf_info t))"
    using check_file_ok [OF f(1) assms(2)] by blast
  let ?t2 = "t1\<lparr>l_tick := Suc (Suc (l_tick t1)), l_files := (l_files t1)(n \<mapsto> file_bytes t1 n @ r)\<rparr>"
  let ?t' = "?t2\<lparr>tf_cur_file_line := tf_cur_file_line t1 + 1, tf_last_write_time := l_time env (Suc (l_tick t1))\<rparr>"
  have "write_data env r t = Some (0, ?t')"
    using 1(1,2) f(2,3) by (simp add: write_data_def answer_def file_bytes_upd Let_def)
  moreover have "file_bytes ?t' = (file_bytes t)(n := file_bytes t n @ r)" using 1(3) by (auto simp: file_bytes_def fun_eq_iff)
  moreover have "tf_cur_file_line t < m_file_max_line (tf_info t) \<Longrightarrow> unat (tf_cur_file_line t + 1) = Suc (unat (tf_cur_file_line t))"
    using unat_lt_2p32 [of "m_file_max_line (tf_info t)"] by (simp add: unat_add_u32 word_less_nat_alt)
  ultimately show ?thesis using 1 by (auto simp: tf_wf_def)
qed

text \<open>
  The abstract log: a list of segments, one per file that was opened for records, with its name and its records. A
  segment has no more records than the limit of lines says, and gets a second one only while it is below the limit of
  bytes.
\<close>

type_synonym segment = "cstring \<times> bytes list"

definition segment_ok :: "ctimer_file_info \<Rightarrow> bytes list \<Rightarrow> bool" where
  "segment_ok info rs \<longleftrightarrow> rs \<noteq> [] \<and> (1 < length rs \<longrightarrow> length rs \<le> unat (m_file_max_line info) \<and> length (concat (butlast rs)) < unat (m_file_max_size info))"

definition logged :: "segment list \<Rightarrow> cstring \<Rightarrow> bytes" where
  "logged segs m = concat (concat (map snd (filter (\<lambda>s. fst s = m) segs)))"

lemma logged_simps [simp]: "logged [] m = []" "logged ((n, rs) # segs) m = (if n = m then concat rs else []) @ logged segs m"
  by (simp_all add: logged_def)

lemma write_all_segments:
  assumes "\<forall>r\<in>set rs. roomy env (length r)" "tf_wf t" "tf_file_stream t = Some n" "cur \<noteq> []" "segment_ok (tf_info t) cur"
    and "unat (tf_cur_file_line t) = length cur" "length (concat cur) \<le> length (file_bytes t n)"
  shows "\<exists>fit segs t'. write_all env rs t = Some t' \<and> tf_wf t' \<and> rs = fit @ concat (map snd segs) \<and> segment_ok (tf_info t) (cur @ fit) \<and>
    (\<forall>s\<in>set segs. segment_ok (tf_info t) (snd s)) \<and> (\<forall>m. file_bytes t' m = file_bytes t m @ logged ((n, fit) # segs) m)"
  using assms
proof (induction rs arbitrary: t n cur)
  case Nil
  then show ?case by (intro exI [of _ "[]"] exI [of _ t]) simp
next
  case (Cons r rs)
  obtain n1 t1 where 1: "write_data env r t = Some (0, t1)" "tf_wf t1" "tf_file_stream t1 = Some n1"
      "file_bytes t1 = (file_bytes t)(n1 := file_bytes t n1 @ r)" "tf_info t1 = tf_info t"
      "tf_cur_file_line t1 = 1 \<or> tf_file_stream t = Some n1 \<and> unat (tf_cur_file_line t1) = Suc (unat (tf_cur_file_line t)) \<and>
       tf_cur_file_line t < m_file_max_line (tf_info t) \<and> length (file_bytes t n1) < unat (m_file_max_size (tf_info t))"
    using write_data_ok [of env r t] Cons.prems(1,2) by auto
  show ?case
  proof (cases "tf_cur_file_line t1 = 1")
    case True
    obtain fit segs t' where 2: "write_all env rs t1 = Some t'" "tf_wf t'" "rs = fit @ concat (map snd segs)" "segment_ok (tf_info t) ([r] @ fit)"
        "\<forall>s\<in>set segs. segment_ok (tf_info t) (snd s)" "\<forall>m. file_bytes t' m = file_bytes t1 m @ logged ((n1, fit) # segs) m"
      using Cons.IH [OF _ 1(2,3), of "[r]"] Cons.prems(1) True 1(4,5) by (auto simp: segment_ok_def)
    show ?thesis
      using 1 2 by (intro exI [of _ "[]"] exI [of _ "(n1, r # fit) # segs"] exI [of _ t']) (use Cons.prems(5) in auto)
  next
    case False
    then have n: "n1 = n" "unat (tf_cur_file_line t1) = length (cur @ [r])" "tf_cur_file_line t < m_file_max_line (tf_info t)"
        "length (file_bytes t n) < unat (m_file_max_size (tf_info t))"
      using 1(6) Cons.prems(3,6) by auto
    have "segment_ok (tf_info t) (cur @ [r])"
      using Cons.prems(4,6,7) n(3,4) by (simp add: segment_ok_def butlast_append word_less_nat_alt)
    then obtain fit segs t' where 2: "write_all env rs t1 = Some t'" "tf_wf t'" "rs = fit @ concat (map snd segs)" "segment_ok (tf_info t) ((cur @ [r]) @ fit)"
        "\<forall>s\<in>set segs. segment_ok (tf_info t) (snd s)" "\<forall>m. file_bytes t' m = file_bytes t1 m @ logged ((n, fit) # segs) m"
      using Cons.IH [OF _ 1(2), of n "cur @ [r]"] Cons.prems(1,7) 1(3,4,5) n(1,2) by auto
    show ?thesis
      using 1 2 n(1) by (intro exI [of _ "r # fit"] exI [of _ segs] exI [of _ t']) auto
  qed
qed

lemma write_all_log:
  assumes "\<forall>r\<in>set rs. roomy env (length r)" "tf_wf t" "tf_cur_file_line t = 0"
  shows "\<exists>segs t'. write_all env rs t = Some t' \<and> tf_wf t' \<and> concat (map snd segs) = rs \<and> (\<forall>s\<in>set segs. segment_ok (tf_info t) (snd s)) \<and>
    (\<forall>m. file_bytes t' m = file_bytes t m @ logged segs m)"
proof (cases rs)
  case Nil
  then show ?thesis using assms(2) by (intro exI [of _ "[]"]) simp
next
  case (Cons r rest)
  obtain n t1 where 1: "write_data env r t = Some (0, t1)" "tf_wf t1" "tf_file_stream t1 = Some n"
      "file_bytes t1 = (file_bytes t)(n := file_bytes t n @ r)" "tf_info t1 = tf_info t" "unat (tf_cur_file_line t1) = 1"
    using write_data_ok [of env r t] assms Cons by auto
  obtain fit segs t' where 2: "write_all env rest t1 = Some t'" "tf_wf t'" "rest = fit @ concat (map snd segs)" "segment_ok (tf_info t) ([r] @ fit)"
      "\<forall>s\<in>set segs. segment_ok (tf_info t) (snd s)" "\<forall>m. file_bytes t' m = file_bytes t1 m @ logged ((n, fit) # segs) m"
    using write_all_segments [OF _ 1(2,3), of rest env "[r]"] assms(1) Cons 1(4-6) by (auto simp: segment_ok_def)
  show ?thesis
    using 1 2 Cons by (intro exI [of _ "(n, r # fit) # segs"] exI [of _ t']) auto
qed

end
