(* ===== verification/Record_Thread.thy ===== *)
theory Record_Thread
  imports Timer_File
begin

text \<open>
  The threads that write the records (\<^verbatim>\<open>include/common/thread_record.hpp\<close>): the broker's thread puts records into a queue,
  the thread takes them out and writes them to a log file, until it is told to stop. The queue is the vendored
  \<^verbatim>\<open>moodycamel::ReaderWriterQueue\<close>, a queue for one producer and one consumer; it is a list here, which the theory
  \<open>Record_Queue\<close> refines to the queue itself.

  The two threads are interleaved: a run is a sequence of events, each a call of \<^verbatim>\<open>put_msg\<close> or \<^verbatim>\<open>stop\<close>, or one step of \<^verbatim>\<open>svc\<close>.
  The position of \<^verbatim>\<open>svc\<close> is part of the state.
\<close>

subsection \<open>CRecordThread\<close>

datatype rec_pc = Draining | Testing | Sleeping | Ended

record rec_thread =
  rt_queue :: "bytes list option"
  rt_timer_file :: ctimer_file
  rt_delete_queue :: bool
  rt_running_flag :: bool
  rt_pc :: rec_pc

text \<open>\<^verbatim>\<open>open\<close>, with the queue it is given or one of its own.\<close>

definition CRecordThread_open :: "log_env \<Rightarrow> ctimer_file_info \<Rightarrow> (cstring \<rightharpoonup> bytes) \<Rightarrow> bytes list option \<Rightarrow> rec_thread" where
  "CRecordThread_open env info files queue =
     \<lparr>rt_queue = Some (case queue of None \<Rightarrow> [] | Some q \<Rightarrow> q), rt_timer_file = CTimerFile env info files, rt_delete_queue = (queue = None),
      rt_running_flag = True, rt_pc = Draining\<rparr>"

definition put_msg :: "bytes \<Rightarrow> rec_thread \<Rightarrow> rec_thread option" where
  "put_msg msg s = do { q \<leftarrow> rt_queue s; Some (s\<lparr>rt_queue := Some (q @ [msg])\<rparr>) }"

definition thread_stop :: "rec_thread \<Rightarrow> rec_thread" where
  "thread_stop s = s\<lparr>rt_running_flag := False\<rparr>"

text \<open>The steps of \<^verbatim>\<open>svc\<close>: a record is taken and written, the queue is found empty, the flag is tested, the thread sleeps.\<close>

definition rec_svc :: "log_env \<Rightarrow> rec_thread \<Rightarrow> rec_thread option" where
  "rec_svc env s =
     (case rt_pc s of
        Draining \<Rightarrow> do {
          q \<leftarrow> rt_queue s;
          case q of
            [] \<Rightarrow> Some (s\<lparr>rt_pc := Testing\<rparr>)
          | str # q \<Rightarrow> do {
              (_, f) \<leftarrow> write_data env str (rt_timer_file s);
              Some (s\<lparr>rt_queue := Some q, rt_timer_file := f\<rparr>)
            }
        }
      | Testing \<Rightarrow>
          Some (if \<not> rt_running_flag s
                then s\<lparr>rt_queue := if rt_delete_queue s then None else rt_queue s, rt_timer_file := CTimerFile_close (rt_timer_file s), rt_pc := Ended\<rparr>
                else s\<lparr>rt_pc := Sleeping\<rparr>)
      | Sleeping \<Rightarrow> Some (s\<lparr>rt_pc := Draining\<rparr>)
      | Ended \<Rightarrow> None)"

subsection \<open>Runs of the two threads\<close>

datatype rec_event = Put bytes | Stop | Svc

fun rec_step :: "log_env \<Rightarrow> rec_event \<Rightarrow> rec_thread \<Rightarrow> rec_thread option" where
  "rec_step env (Put r) s = put_msg r s"
| "rec_step env Stop s = Some (thread_stop s)"
| "rec_step env Svc s = rec_svc env s"

inductive rec_runs :: "log_env \<Rightarrow> rec_thread \<Rightarrow> rec_event list \<Rightarrow> rec_thread \<Rightarrow> bool" for env s where
  start: "rec_runs env s [] s"
| step: "rec_runs env s es s' \<Longrightarrow> rec_step env e s' = Some s'' \<Longrightarrow> rec_runs env s (es @ [e]) s''"

fun put_records :: "rec_event list \<Rightarrow> bytes list" where
  "put_records [] = []"
| "put_records (Put r # es) = r # put_records es"
| "put_records (_ # es) = put_records es"

lemma put_records_append [simp]: "put_records (es @ fs) = put_records es @ put_records fs"
  by (induction es rule: put_records.induct) simp_all

lemma put_records_svc [simp]: "put_records (replicate n Svc) = []"
  by (induction n) simp_all

lemma write_all_append: "write_all env (rs @ ss) t = write_all env rs t \<bind> write_all env ss"
  by (induction rs arbitrary: t) (simp_all add: case_prod_unfold)

text \<open>The records that were put are those written so far, in order, followed by those in the queue.\<close>

definition rec_inv :: "log_env \<Rightarrow> ctimer_file \<Rightarrow> bytes list \<Rightarrow> rec_thread \<Rightarrow> bool" where
  "rec_inv env f0 rs s \<longleftrightarrow> (\<exists>ws left f. rs = ws @ left \<and> write_all env ws f0 = Some f \<and>
     (if rt_pc s = Ended then rt_timer_file s = CTimerFile_close f else rt_queue s = Some left \<and> rt_timer_file s = f))"

lemma rec_svc_inv:
  assumes "rec_inv env f0 rs s" "rec_svc env s = Some s'"
  shows "rec_inv env f0 rs s'"
proof -
  obtain ws left f where i: "rs = ws @ left" "write_all env ws f0 = Some f"
      "if rt_pc s = Ended then rt_timer_file s = CTimerFile_close f else rt_queue s = Some left \<and> rt_timer_file s = f"
    using assms(1) by (auto simp: rec_inv_def)
  show ?thesis
  proof (cases "rt_pc s = Draining \<and> left \<noteq> []")
    case True
    then obtain r q where q: "left = r # q" by (cases left) auto
    then obtain x f' where "write_data env r f = Some (x, f')" "s' = s\<lparr>rt_queue := Some q, rt_timer_file := f'\<rparr>"
      using assms(2) i(3) True by (auto simp: rec_svc_def bind_eq_Some_conv)
    then show ?thesis
      using i(1,2) True q unfolding rec_inv_def by (intro exI [of _ "ws @ [r]"] exI [of _ q] exI [of _ f']) (simp add: write_all_append)
  next
    case False
    then show ?thesis
      using assms(2) i unfolding rec_inv_def
      by (intro exI [of _ ws] exI [of _ left] exI [of _ f]) (auto simp: rec_svc_def split: rec_pc.splits if_splits)
  qed
qed

lemma rec_runs_inv:
  assumes "rec_runs env s0 es s" "rt_queue s0 = Some []" "rt_pc s0 = Draining"
  shows "rec_inv env (rt_timer_file s0) (put_records es) s"
  using assms
proof (induction rule: rec_runs.induct)
  case start
  then show ?case by (simp add: rec_inv_def)
next
  case (step es s' e s'')
  then show ?case
  proof (cases e)
    case (Put r)
    then show ?thesis using step by (fastforce simp: rec_inv_def put_msg_def bind_eq_Some_conv split: if_splits)
  next
    case Stop
    have "rec_inv env (rt_timer_file s0) (put_records es) (thread_stop s') = rec_inv env (rt_timer_file s0) (put_records es) s'"
      by (simp add: rec_inv_def thread_stop_def)
    then show ?thesis using step Stop by auto
  next
    case Svc
    then show ?thesis using step rec_svc_inv by simp
  qed
qed

subsection \<open>Properties\<close>

lemma open_ok: "rt_queue (CRecordThread_open env info files None) = Some []" "rt_pc (CRecordThread_open env info files None) = Draining"
  "rt_running_flag (CRecordThread_open env info files None)" "tf_wf (CTimerFile env info files)" "tf_cur_file_line (CTimerFile env info files) = 0"
  "rt_timer_file (CRecordThread_open env info files None) = CTimerFile env info files" "tf_info (CTimerFile env info files) = info"
  "file_bytes (CTimerFile env info files) m = (case files m of None \<Rightarrow> [] | Some f \<Rightarrow> f)"
  by (simp_all add: CRecordThread_open_def CTimerFile_def tf_wf_def file_bytes_def)

lemma rec_runs_trans: "rec_runs env s' es' s'' \<Longrightarrow> rec_runs env s es s' \<Longrightarrow> rec_runs env s (es @ es') s''"
  by (induction rule: rec_runs.induct) (simp, metis append_assoc rec_runs.step)

lemma rec_svc_flag: "rec_svc env s = Some s' \<Longrightarrow> rt_running_flag s' = rt_running_flag s \<and> (rt_pc s' = Ended \<longrightarrow> \<not> rt_running_flag s)"
  by (cases "the (rt_queue s)") (auto simp: rec_svc_def bind_eq_Some_conv split: rec_pc.splits if_splits)

lemma rec_runs_flag:
  assumes "rec_runs env s0 es s" "rt_running_flag s0" "rt_pc s0 = Draining"
  shows "rt_running_flag s = (Stop \<notin> set es) \<and> (rt_pc s = Ended \<longrightarrow> \<not> rt_running_flag s)"
  using assms
proof (induction rule: rec_runs.induct)
  case (step es s' e s'')
  then show ?case
    by (cases e) (auto simp: put_msg_def thread_stop_def bind_eq_Some_conv dest: rec_svc_flag)
qed simp

text \<open>As long as the thread runs, the steps of \<^verbatim>\<open>svc\<close> alone empty the queue.\<close>

lemma drain:
  assumes "rt_pc s = Draining" "rt_queue s = Some q" "tf_wf (rt_timer_file s)" "\<forall>r\<in>set q. roomy env (length r)"
  shows "\<exists>s'. rec_runs env s (replicate (length q) Svc) s' \<and> rt_pc s' = Draining \<and> rt_queue s' = Some []"
  using assms
proof (induction q arbitrary: s)
  case Nil
  then show ?case using rec_runs.start by auto
next
  case (Cons r q)
  obtain f where f: "write_data env r (rt_timer_file s) = Some (0, f)" "tf_wf f"
    using write_data_ok [of env r "rt_timer_file s"] Cons.prems(3,4) by auto
  let ?s = "s\<lparr>rt_queue := Some q, rt_timer_file := f\<rparr>"
  have "rec_runs env s ([] @ [Svc]) ?s"
    by (rule rec_runs.step [OF rec_runs.start]) (use f Cons.prems(1,2) in \<open>simp add: rec_svc_def\<close>)
  moreover obtain s' where "rec_runs env ?s (replicate (length q) Svc) s'" "rt_pc s' = Draining" "rt_queue s' = Some []"
    using Cons.IH [of ?s] Cons.prems(1,4) f(2) by auto
  ultimately show ?case using rec_runs_trans [of env ?s] by fastforce
qed

lemma wake_up:
  assumes "rt_running_flag s" "rt_pc s \<noteq> Ended"
  shows "\<exists>k s'. rec_runs env s (replicate k Svc) s' \<and> rt_pc s' = Draining \<and> rt_queue s' = rt_queue s \<and> rt_timer_file s' = rt_timer_file s"
proof -
  have one: "rec_runs env s' (replicate 1 Svc) (s'\<lparr>rt_pc := Draining\<rparr>)" if "rt_pc s' = Sleeping" for s'
    using rec_runs.step [OF rec_runs.start, of env Svc s'] that by (simp add: rec_svc_def)
  show ?thesis
  proof (cases "rt_pc s")
    case Draining
    then show ?thesis using rec_runs.start by (metis replicate_0)
  next
    case Testing
    then have "rec_runs env s (replicate 1 Svc) (s\<lparr>rt_pc := Sleeping\<rparr>)"
      using rec_runs.step [OF rec_runs.start, of env Svc s] assms(1) by (simp add: rec_svc_def)
    then have "rec_runs env s (replicate 2 Svc) (s\<lparr>rt_pc := Draining\<rparr>)"
      using rec_runs_trans [OF one, of "s\<lparr>rt_pc := Sleeping\<rparr>"] by (fastforce simp: numeral_2_eq_2)
    then show ?thesis by fastforce
  next
    case Sleeping
    then show ?thesis using one by fastforce
  qed (use assms(2) in simp)
qed

text \<open>
  C12. Records are neither lost nor repeated nor reordered while the record thread runs: whatever the interleaving of the
  two threads, what was put so far is what the files have got, in order, followed by the queue; and the thread's own
  steps then bring everything into the files. The files are a log of segments: each record is written whole to one
  file, a file gets no more records than the limit of lines allows, and no second one beyond the limit of bytes.
\<close>

theorem records_reach_the_files:
  assumes "rec_runs env (CRecordThread_open env info files None) es s" "rt_running_flag s" "\<forall>r\<in>set (put_records es). roomy env (length r)"
  shows "\<exists>ws left. put_records es = ws @ left \<and> rt_queue s = Some left \<and>
    (\<exists>segs. concat (map snd segs) = ws \<and> (\<forall>g\<in>set segs. segment_ok info (snd g)) \<and>
      (\<forall>m. file_bytes (rt_timer_file s) m = (case files m of None \<Rightarrow> [] | Some f \<Rightarrow> f) @ logged segs m)) \<and>
    (\<exists>k s'. rec_runs env (CRecordThread_open env info files None) (es @ replicate k Svc) s' \<and> rt_queue s' = Some [] \<and>
      (\<exists>segs. concat (map snd segs) = put_records es \<and> (\<forall>g\<in>set segs. segment_ok info (snd g)) \<and>
        (\<forall>m. file_bytes (rt_timer_file s') m = (case files m of None \<Rightarrow> [] | Some f \<Rightarrow> f) @ logged segs m)))"
proof -
  have log: "\<exists>ws left. put_records es' = ws @ left \<and> rt_queue s' = Some left \<and> tf_wf (rt_timer_file s') \<and>
      (\<exists>segs. concat (map snd segs) = ws \<and> (\<forall>g\<in>set segs. segment_ok info (snd g)) \<and>
        (\<forall>m. file_bytes (rt_timer_file s') m = (case files m of None \<Rightarrow> [] | Some f \<Rightarrow> f) @ logged segs m))"
    if run: "rec_runs env (CRecordThread_open env info files None) es' s'" and pc': "rt_pc s' \<noteq> Ended" and ps: "put_records es' = put_records es" for es' s'
  proof -
    obtain ws left where w: "put_records es = ws @ left" "write_all env ws (CTimerFile env info files) = Some (rt_timer_file s')" "rt_queue s' = Some left"
      using rec_runs_inv [OF run] open_ok(1,2,6) pc' ps unfolding rec_inv_def by auto
    then show ?thesis
      using write_all_log [of ws env "CTimerFile env info files"] assms(3) open_ok(4,5,7,8) ps by auto
  qed
  have pc: "rt_pc s \<noteq> Ended" using rec_runs_flag [OF assms(1)] assms(2) open_ok by blast
  obtain ws left where 1: "put_records es = ws @ left" "rt_queue s = Some left" "tf_wf (rt_timer_file s)" using log [OF assms(1) pc refl] by blast
  obtain k s1 where 2: "rec_runs env s (replicate k Svc) s1" "rt_pc s1 = Draining" "rt_queue s1 = Some left" "rt_timer_file s1 = rt_timer_file s"
    using wake_up [OF assms(2) pc] 1(2) by metis
  obtain s2 where 3: "rec_runs env s1 (replicate (length left) Svc) s2" "rt_pc s2 = Draining" "rt_queue s2 = Some []"
    using drain [OF 2(2,3)] 1(1,3) 2(4) assms(3) by auto
  have p: "put_records (es @ replicate (k + length left) Svc) = put_records es" by simp
  have "rec_runs env (CRecordThread_open env info files None) (es @ replicate (k + length left) Svc) s2"
    using rec_runs_trans [OF 3(1) rec_runs_trans [OF 2(1) assms(1)]] by (simp add: replicate_add)
  then show ?thesis using log [OF assms(1) pc refl] log [OF _ _ p] 3(2,3) by fastforce
qed

text \<open>Three records come while the thread is at work; files take two lines.\<close>

definition demo_log_env :: log_env where
  "demo_log_env = \<lparr>l_localtime = (\<lambda>_. \<lparr>tm_sec = 0, tm_min = 0, tm_hour = 0, tm_mday = 1, tm_mon = 0, tm_year = 70, tm_yday = 0\<rparr>), l_time = (\<lambda>_. 0),
     l_fopen = (\<lambda>_. True), l_fwrite = (\<lambda>_. 100)\<rparr>"

definition demo_info :: ctimer_file_info where
  "demo_info = CTimerFileInfo\<lparr>m_file_max_line := 2\<rparr>"

text \<open>Runs can be computed.\<close>

fun rec_exec :: "log_env \<Rightarrow> rec_event list \<Rightarrow> rec_thread \<Rightarrow> rec_thread option" where
  "rec_exec env [] s = Some s"
| "rec_exec env (e # es) s = rec_step env e s \<bind> rec_exec env es"

lemma rec_exec_runs: "rec_exec env es s = Some s' \<Longrightarrow> rec_runs env s es s'"
proof (induction es arbitrary: s)
  case (Cons e es)
  then show ?case
    using rec_runs_trans rec_runs.step [OF rec_runs.start, of env e s] by (fastforce simp: bind_eq_Some_conv)
qed (simp add: rec_runs.start)

theorem records_reach_the_files_witness:
  "\<exists>s k s'. rec_runs demo_log_env (CRecordThread_open demo_log_env demo_info Map.empty None) [Put [1], Svc, Put [2], Svc, Put [3]] s \<and>
     rec_runs demo_log_env (CRecordThread_open demo_log_env demo_info Map.empty None) ([Put [1], Svc, Put [2], Svc, Put [3]] @ replicate k Svc) s' \<and>
     (\<exists>segs. concat (map snd segs) = [[1], [2], [3]] \<and> (\<forall>g\<in>set segs. segment_ok demo_info (snd g)) \<and>
       (\<forall>m. file_bytes (rt_timer_file s') m = logged segs m))"
proof -
  let ?s0 = "CRecordThread_open demo_log_env demo_info Map.empty None"
  let ?es = "[Put [1], Svc, Put [2], Svc, Put [3]]"
  have w: "roomy demo_log_env (length [x :: u8])" for x by (simp add: roomy_def demo_log_env_def)
  obtain f1 where 1: "write_data demo_log_env [1] (CTimerFile demo_log_env demo_info Map.empty) = Some (0, f1)" "tf_wf f1"
    using write_data_ok [OF w [of 1] open_ok(4)] by blast
  obtain f2 where 2: "write_data demo_log_env [2] f1 = Some (0, f2)" using write_data_ok [OF w [of 2] 1(2)] by blast
  obtain s where run: "rec_runs demo_log_env ?s0 ?es s" "rt_running_flag s"
  proof
    show "rec_runs demo_log_env ?s0 ?es (?s0\<lparr>rt_queue := Some [[3]], rt_timer_file := f2\<rparr>)"
      by (rule rec_exec_runs) (use 1(1) 2 in \<open>simp add: put_msg_def rec_svc_def CRecordThread_open_def\<close>)
  qed (simp add: CRecordThread_open_def)
  have "\<forall>r\<in>set (put_records ?es). roomy demo_log_env (length r)" using w by simp
  from records_reach_the_files [OF run this] run(1) show ?thesis by auto
qed

text \<open>
  C22. The record thread does not end unless \<^verbatim>\<open>stop\<close> is called, whatever is put and however long it runs. No code of the broker
  calls it, and the destructor of the thread object, which runs when the process exits, waits for the end: after a
  signal the sessions are saved, but the process does not terminate.
\<close>

theorem record_thread_never_ends:
  "rec_runs env (CRecordThread_open env info files None) es s \<Longrightarrow> Stop \<notin> set es \<Longrightarrow> rt_pc s \<noteq> Ended"
  using rec_runs_flag open_ok(2,3) by blast

theorem record_thread_never_ends_witness:
  "\<exists>s. rec_runs demo_log_env (CRecordThread_open demo_log_env demo_info Map.empty None) [Svc, Svc, Svc] s \<and> rt_pc s \<noteq> Ended"
proof -
  let ?s0 = "CRecordThread_open demo_log_env demo_info Map.empty None"
  have "rec_runs demo_log_env ?s0 [Svc, Svc, Svc] ?s0"
    by (rule rec_exec_runs) (simp add: rec_svc_def CRecordThread_open_def)
  then show ?thesis using record_thread_never_ends [of demo_log_env demo_info Map.empty "[Svc, Svc, Svc]" ?s0] by auto
qed

text \<open>
  A record that is put before \<^verbatim>\<open>stop\<close> can be lost: when it comes between the last look at the queue and the test of the flag.
\<close>

theorem record_lost_at_stop:
  "\<exists>s. rec_runs env (CRecordThread_open env info files None) [Svc, Put r, Stop, Svc] s \<and> rt_pc s = Ended \<and> rt_queue s = None \<and>
     l_files (rt_timer_file s) = files"
proof -
  let ?s0 = "CRecordThread_open env info files None"
  let ?fin = "?s0\<lparr>rt_queue := None, rt_timer_file := CTimerFile_close (CTimerFile env info files), rt_running_flag := False, rt_pc := Ended\<rparr>"
  have "rec_runs env ?s0 [Svc, Put r, Stop, Svc] ?fin"
    by (rule rec_exec_runs) (simp add: rec_svc_def put_msg_def thread_stop_def CRecordThread_open_def)
  then show ?thesis by (intro exI [of _ ?fin]) (simp add: CTimerFile_close_def CTimerFile_def)
qed

end
