(* ===== verification/Records.thy ===== *)
theory Records
  imports Session Record_Thread
begin

text \<open>
  The text of the records: the line of the statistics of a message (\<^verbatim>\<open>CMsgStatMgr::flush\<close> in
  \<^verbatim>\<open>src/common/msg_mem_store.cpp\<close>) and the line about a client that is gone (\<^verbatim>\<open>CTMqttClientContext::flush\<close> in
  \<^verbatim>\<open>include/mqtt_server/mqtt_context.hpp\<close>). Fields are divided by commas, lines end with a newline.
\<close>

subsection \<open>The lines\<close>

definition stat_text :: "(int \<Rightarrow> tm) \<Rightarrow> stat_line \<Rightarrow> cstring" where
  "stat_text localtime l =
     (case l of (msg_id, pub_start, pub_end, now, online, offline, ack) \<Rightarrow>
        decimal (unat msg_id) @ cstr '','' @ format_time localtime (of_int pub_start) @ cstr '','' @ format_time localtime (of_int pub_end) @ cstr '','' @
        format_time localtime (of_int now) @ cstr '','' @ decimal (unat online) @ cstr '','' @ decimal (unat offline) @ cstr '','' @
        decimal (unat ack) @ [10])"

text \<open>Members of the context that were never set print what is in memory: \<open>junk\<close>.\<close>

definition member :: "'v \<Rightarrow> 'v option \<Rightarrow> 'v" where
  "member junk m = (case m of None \<Rightarrow> junk | Some v \<Rightarrow> v)"

definition client_text :: "(int \<Rightarrow> tm) \<Rightarrow> u32 \<Rightarrow> ctmqtt_client_context \<Rightarrow> cstring" where
  "client_text localtime junk x =
     (let time = (\<lambda>t. format_time localtime (of_int (member (int (unat junk)) t)))
      in ctx_client_id x @ cstr '','' @ ctx_user_name x @ cstr '','' @ decimal (if member True (ctx_clean_session x) then 1 else 0) @ cstr '','' @
         ctx_remote_addr x @ cstr '','' @ time (ctx_accept_time x) @ cstr '','' @ time (ctx_connect_time x) @ cstr '','' @
         time (ctx_discon_time x) @ cstr '','' @ time (ctx_close_time x) @ cstr '','' @ decimal (length (ctx_send_msg_queue x)) @ cstr '','' @
         time (ctx_last_msg_time x) @ cstr '','' @ time (ctx_last_pub_time x) @ cstr '','' @
         decimal (unat (member (ucast junk) (ctx_last_pub_msg_id x))) @ cstr '','' @
         concat (map (\<lambda>t. m_topic_name t @ cstr ''|'') (ctx_subcribe_topics x)) @ [10])"

subsection \<open>Numbers and times contain no separator\<close>

definition unseparated :: "u8 \<Rightarrow> bool" where
  "unseparated c \<longleftrightarrow> c \<noteq> 44 \<and> c \<noteq> 10"

lemma decimal_plain: "list_all unseparated (decimal n)"
  using decimal_digits by (fastforce simp: is_digit_def unseparated_def list_all_iff)

lemma plain_chars [simp]: "unseparated 45" "unseparated 32" "unseparated 58" "unseparated 48"
  by (simp_all add: unseparated_def)

lemma number_plain: "list_all unseparated (zero_padded n v)" "list_all unseparated (print_int v)"
proof -
  have "list_all unseparated (replicate k 48)" for k by (simp add: list_all_iff)
  then show "list_all unseparated (zero_padded n v)" using decimal_plain by (simp add: zero_padded_def Let_def)
qed (simp add: print_int_def decimal_plain)

lemma format_time_plain: "list_all unseparated (format_time localtime t)"
  using number_plain by (simp add: format_time_def Let_def cstr_def of_char_def)

subsection \<open>Reading the files back\<close>

definition stat_fields :: "(int \<Rightarrow> tm) \<Rightarrow> stat_line \<Rightarrow> cstring list" where
  "stat_fields localtime l =
     (case l of (msg_id, pub_start, pub_end, now, online, offline, ack) \<Rightarrow>
        [decimal (unat msg_id), format_time localtime (of_int pub_start), format_time localtime (of_int pub_end), format_time localtime (of_int now),
         decimal (unat online), decimal (unat offline), decimal (unat ack)])"

lemma stat_text_join: "stat_text localtime l = join 44 (stat_fields localtime l) @ [10]"
  by (cases l) (simp add: stat_text_def stat_fields_def cstr_def of_char_def)

lemma stat_fields_plain: "\<forall>f\<in>set (stat_fields localtime l). \<forall>c\<in>set f. unseparated c"
  using decimal_plain format_time_plain by (cases l) (simp add: stat_fields_def list_all_iff)

lemma join_subset: "set (join d ps) \<subseteq> insert d (\<Union>(set ` set ps))"
  by (induction d ps rule: join.induct) auto

lemma segments_lines:
  "\<forall>l\<in>set ls. 10 \<notin> set (f l) \<Longrightarrow> segments [10] (concat (map (\<lambda>l. f l @ [10]) ls)) = map f ls @ [[]]"
  by (induction ls) (simp_all add: segments_app)

text \<open>
  The statistics file can be read back: dividing the text that a flush puts into the record file at newlines and
  commas gives exactly the fields of the messages that were due, one line each and in the order of the table, and the
  digits of an id give the id.
\<close>

theorem statistics_can_be_read_back:
  "map (segments [44]) (butlast (segments [10] (concat (map (stat_text localtime) (fst (stat_flush now tab)))))) =
     map (\<lambda>s. stat_fields localtime (stat_record now s)) (filter (stat_due now) tab) \<and>
   digits_val 0 (hd (stat_fields localtime (stat_record now s))) = unat (st_msg_id s)"
proof -
  have "10 \<notin> set (join 44 (stat_fields localtime l))" for l
    using join_subset [of 44 "stat_fields localtime l"] stat_fields_plain [of localtime l] by (fastforce simp: unseparated_def)
  then have "segments [10] (concat (map (stat_text localtime) ls)) = map (\<lambda>l. join 44 (stat_fields localtime l)) ls @ [[]]" for ls
    using segments_lines [of ls "\<lambda>l. join 44 (stat_fields localtime l)"] by (simp add: stat_text_join [abs_def])
  moreover have "segments [44] (join 44 (stat_fields localtime l)) = stat_fields localtime l" for l
    using stat_fields_plain [of localtime l] by (intro segments_join) (auto simp: unseparated_def stat_fields_def split: prod.split)
  ultimately have "map (segments [44]) (butlast (segments [10] (concat (map (stat_text localtime) ls)))) = map (stat_fields localtime) ls" for ls
    by simp
  then show ?thesis
    by (simp add: stat_flush_eq comp_def del: map_map) (simp add: stat_fields_def stat_record_def digits_val_decimal)
qed

text \<open>
  A client chooses the text of its own record: an id with a newline makes two lines of it.
\<close>

lemma client_record_forged:
  assumes "ctx_client_id x = a @ [10] @ b"
  shows "\<exists>t. client_text localtime junk x = a @ [10] @ b @ [44] @ t"
  using assms by (simp add: client_text_def Let_def cstr_def of_char_def)

end
