(* ===== verification/Broker_Main.thy ===== *)
theory Broker_Main
  imports Http_Server Bridge_Reconnect Xml_Config Records
begin

text \<open>
  The start and the end of the process: \<^verbatim>\<open>src/mqtt_broker/main.cpp\<close>. The options select the configuration, the
  configuration selects the threads: the two record threads always, the bridge client in the modes 0 and 3, the HTTP
  server in the modes from 1 on. Then the broker is opened and runs in the main thread.

  What \<^verbatim>\<open>getopt_long\<close> returns is a list of options. The objects before their construction (with the kernel they live in)
  and the results of system calls are in \<open>main_env\<close>; a listening socket is a function of the address.
\<close>

subsection \<open>Options\<close>

datatype main_option = Conf_file cstring | Other_option

text \<open>Any other option prints the usage and exits, which is \<^const>\<open>None\<close> here.\<close>

fun main_options :: "main_option list \<Rightarrow> cstring \<Rightarrow> cstring option" where
  "main_options [] conf_file_name = Some conf_file_name"
| "main_options (Conf_file optarg # opts) conf_file_name = main_options opts optarg"
| "main_options (Other_option # opts) conf_file_name = None"

subsection \<open>Threads\<close>

record main_env =
  me_log :: log_env
  me_files :: "cstring \<rightharpoonup> bytes"
  me_client :: client_world
  me_http_listen :: "csock_address \<Rightarrow> int option"
  me_http_accepts :: "nat \<Rightarrow> int \<times> cstring \<times> cstring \<times> u32"
  me_http :: http_world
  me_peer :: cstring
  me_mask :: u32
  me_timers :: ctimer_wheel_mgr
  me_disk :: disk
  me_open :: open_env
  me_order :: "u64 list"
  me_accepts :: "nat \<Rightarrow> int \<times> cstring \<times> u32"
  me_broker :: broker

record broker_process =
  bp_msg_record :: rec_thread
  bp_client_record :: rec_thread
  bp_client :: "client_world option"
  bp_http :: "http_server option"
  bp_handlers :: server_handlers
  bp_server :: server

definition record_file_info :: "cstring \<Rightarrow> cstring \<Rightarrow> ctimer_file_info" where
  "record_file_info data_dir prefix =
     CTimerFileInfo\<lparr>m_file_prefix := prefix, m_file_suffix := cstr ''log'', m_file_dir := data_dir, m_file_max_size := 1024 * 1024,
       m_file_max_line := 10000, m_file_start_seq := 0\<rparr>"

text \<open>
  If the HTTP server cannot be opened, \<^verbatim>\<open>main\<close> returns, and the destructor of the server object joins a thread that was
  never started: the exception ends the process, which is \<^const>\<open>None\<close>.
\<close>

definition main_client :: "main_env \<Rightarrow> cxml_config \<Rightarrow> client_world" where
  "main_client e c =
     TCPClient_open (cfg_parent_server_ip c, cfg_parent_server_port c)
       (TCPClient (cfg_parent_topic_name c) (cfg_parent_user_name c) (me_client e))"

definition main_http :: "main_env \<Rightarrow> cxml_config \<Rightarrow> (int \<times> http_server) option" where
  "main_http e c =
     HttpServer_open (me_http_listen e) (me_peer e)
       (HttpServer (cfg_http_server_port c) (me_mask e) (me_http_accepts e) (me_timers e) (me_http e) (me_broker e))"

text \<open>The server is constructed and opened; whatever \<^verbatim>\<open>open\<close> returns, its loop is run then.\<close>

definition main_open :: "main_env \<Rightarrow> cxml_config \<Rightarrow> (int \<times> server_handlers \<times> server) option" where
  "main_open e c =
     do {
       let server_addr = (cfg_server_listen_ip c, cfg_server_listen_port c);
       let (hs, server) = TCPServer (me_mask e) (CPersist (cfg_db_file_name c) (me_files e) (me_disk e) (cfg_idle_timeout c) (me_broker e))
             (me_timers e) (uint (cfg_mqtt_bridge c)) (me_order e) (me_accepts e);
       (r, server) \<leftarrow> TCPServer_open (me_open e) server_addr (cfg_flush_interval c) hs server;
       Some (r, hs, server)
     }"

definition main_threads :: "main_env \<Rightarrow> cxml_config \<Rightarrow> broker_process option" where
  "main_threads e c =
     do {
       let records = (\<lambda>prefix. CRecordThread_open (me_log e) (record_file_info (cfg_data_dir c) prefix) (me_files e) None);
       let mode = cfg_mqtt_bridge c;
       let client = (if mode = 0 \<or> mode = 3 then Some (main_client e c) else None);
       http \<leftarrow> (if mode \<ge> 1 then do { (r, s) \<leftarrow> main_http e c; if r = -1 then None else Some (Some s) } else Some None);
       (_, hs, server) \<leftarrow> main_open e c;
       Some \<lparr>bp_msg_record = records (cstr ''msg''), bp_client_record = records (cstr ''client''), bp_client = client, bp_http = http,
             bp_handlers = hs, bp_server = server\<rparr>
     }"

text \<open>Options, configuration and threads; -1 is the value \<^verbatim>\<open>main\<close> returns when the configuration cannot be read.\<close>

definition main_start ::
  "main_option list \<Rightarrow> (cstring \<Rightarrow> xml_file) \<Rightarrow> cxml_config \<Rightarrow> main_env \<Rightarrow> (int \<times> cxml_config \<times> broker_process option) option" where
  "main_start opts fs c e =
     do {
       conf_file_name \<leftarrow> main_options opts (cstr ''setting.xml'');
       (r, c) \<leftarrow> CXMLConfig_open_file fs conf_file_name c;
       if r < 0 then Some (-1, c, None)
       else do { p \<leftarrow> main_threads e c; Some (0, c, Some p) }
     }"

text \<open>The loop of the broker, which ends with a signal.\<close>

definition main_server :: "loop_env \<Rightarrow> broker_process \<Rightarrow> (int \<times> broker_process) option" where
  "main_server env p = do { (_, s) \<leftarrow> TCPServer_loop env (bp_server p); Some (0, p\<lparr>bp_server := s\<rparr>) }"

subsection \<open>Properties\<close>

lemma main_open_values:
  assumes "main_open e g = Some (r, h, s)"
  shows "s_server_address s = Some (cfg_server_listen_ip g, cfg_server_listen_port g)" "r = 0 \<Longrightarrow> s_timer s = Some (cfg_flush_interval g, cfg_flush_interval g)"
    "m_file_name (s_persist s) = cfg_db_file_name g" "cfg_max_idle_timeout (s_persist s) = cfg_idle_timeout g" "s_bridge s = uint (cfg_mqtt_bridge g)"
  using assms by (auto simp: main_open_def TCPServer_def CPersist_def Let_def bind_eq_Some_conv dest!: TCPServer_open_values)

text \<open>
  C16. The broker starts what its configuration says. With an option for the file and a file whose XML text describes a
  configuration, the server is opened at the address and port of the server section, with its database file, its idle
  time and the bridge mode, and, if it can be opened, with a timer of its flush interval; the bridge client is started in
  the modes 0 and 3 with the address, the port, the topic and the client id of the parent section; the HTTP server is
  started in the modes from 1 on at the port of its section, on all interfaces: the address of that section is not
  used; and both record threads run on files in the data directory. It is assumed that the HTTP server can be opened where
  the mode asks for it (otherwise the process is terminated), and that opening the server, with whatever result,
  does not meet undefined behaviour.
\<close>

theorem main_starts_the_configuration:
  assumes "f \<noteq> []" "xml_text doc (fs f)" "describes_global doc g" "describes_server doc g" "describes_mode doc (cfg_mqtt_bridge g)"
    and "cfg_mqtt_bridge g = 0 \<or> cfg_mqtt_bridge g = 3 \<Longrightarrow> describes_parent doc g" "1 \<le> cfg_mqtt_bridge g \<Longrightarrow> describes_http doc g"
    and "1 \<le> cfg_mqtt_bridge g \<Longrightarrow> main_http e g = Some (0, hs)" "main_open e g = Some (r, h, s)"
  shows "\<exists>c' p. main_start [Conf_file f] fs c e = Some (0, c', Some p) \<and>
    bp_server p = s \<and> s_server_address s = Some (cfg_server_listen_ip g, cfg_server_listen_port g) \<and>
    (r = 0 \<longrightarrow> s_timer s = Some (cfg_flush_interval g, cfg_flush_interval g)) \<and>
    m_file_name (s_persist s) = cfg_db_file_name g \<and> cfg_max_idle_timeout (s_persist s) = cfg_idle_timeout g \<and>
    s_bridge s = uint (cfg_mqtt_bridge g) \<and>
    map_option (\<lambda>x. (tc_server_addr x, tc_str_topic_name x, tc_str_client_id x)) (bp_client p) =
      (if cfg_mqtt_bridge g = 0 \<or> cfg_mqtt_bridge g = 3
       then Some (Some (cfg_parent_server_ip g, cfg_parent_server_port g), cfg_parent_topic_name g, cfg_parent_user_name g) else None) \<and>
    bp_http p = (if 1 \<le> cfg_mqtt_bridge g then Some hs else None) \<and>
    (1 \<le> cfg_mqtt_bridge g \<longrightarrow> hs_server_address hs = Some (cstr ''0.0.0.0'', cfg_http_server_port g)) \<and>
    rt_running_flag (bp_msg_record p) \<and> rt_running_flag (bp_client_record p) \<and>
    m_file_dir (tf_info (rt_timer_file (bp_msg_record p))) = cfg_data_dir g \<and> m_file_dir (tf_info (rt_timer_file (bp_client_record p))) = cfg_data_dir g"
proof -
  let ?c = "c\<lparr>cfg_file_name := f\<rparr>"
  define c' where "c' = (if 1 \<le> cfg_mqtt_bridge g then set_http g else id) ((if cfg_mqtt_bridge g = 0 \<or> cfg_mqtt_bridge g = 3 then set_parent g else id)
      ((set_server g (?c\<lparr>cfg_log_conf_name := cfg_log_conf_name g, cfg_thread_number := cfg_thread_number g\<rparr>))\<lparr>cfg_mqtt_bridge := cfg_mqtt_bridge g\<rparr>))"
  have o: "CXMLConfig_open_file fs f c = Some (0, c')"
    using config_described [of ?c doc fs, OF _ _ assms(3-7)] assms(1,2) by (simp add: CXMLConfig_open_file_def c'_def)
  have v: "cfg_mqtt_bridge c' = cfg_mqtt_bridge g" "cfg_db_file_name c' = cfg_db_file_name g" "cfg_idle_timeout c' = cfg_idle_timeout g" "cfg_data_dir c' = cfg_data_dir g"
      "cfg_server_listen_ip c' = cfg_server_listen_ip g" "cfg_server_listen_port c' = cfg_server_listen_port g" "cfg_flush_interval c' = cfg_flush_interval g"
    by (auto simp: c'_def set_http_def set_parent_def set_server_def)
  have server: "main_open e c' = Some (r, h, s)" using assms(9) by (simp add: main_open_def v)
  have http: "1 \<le> cfg_mqtt_bridge g \<Longrightarrow> main_http e c' = Some (0, hs)" using assms(8) by (simp add: main_http_def c'_def set_http_def)
  have client: "cfg_mqtt_bridge g = 0 \<or> cfg_mqtt_bridge g = 3 \<Longrightarrow> main_client e c' = main_client e g"
    by (auto simp: main_client_def c'_def set_http_def set_parent_def)
  have addr: "1 \<le> cfg_mqtt_bridge g \<Longrightarrow> hs_server_address hs = Some (cstr ''0.0.0.0'', cfg_http_server_port g)"
    using assms(8) by (auto simp: main_http_def HttpServer_open_def HttpServer_def CSockAddress_port_def Let_def bind_eq_Some_conv split: if_splits)
  show ?thesis
    using o v(1,4) server http client addr main_open_values [OF assms(9)]
    by (simp add: main_start_def main_threads_def CRecordThread_open_def CTimerFile_def record_file_info_def main_client_def TCPClient_def TCPClient_open_def Let_def)
qed

text \<open>The broker with the file \<^verbatim>\<open>conf/mqtt_server.xml\<close>.\<close>

definition demo_main_env :: main_env where
  "demo_main_env = \<lparr>me_log = demo_log_env, me_files = Map.empty, me_client = demo_client, me_http_listen = (\<lambda>_. Some 10), me_http_accepts = (\<lambda>_. (11, [], [], 2)),
     me_http = fresh_http, me_peer = [], me_mask = 2, me_timers = CTimerWheelMgr 400, me_disk = (0, \<lambda>_. 0),
     me_open = \<lparr>e_listen = (\<lambda>_. Some 20), e_eventfd = 21, e_mask_ok = True, e_signalfd = 22, e_timerfd = 23, e_settime_ok = (\<lambda>_ _. True), e_peer = []\<rparr>, me_order = [], me_accepts = (\<lambda>_. (-1, [], 0)),
     me_broker = two_subscribers\<lparr>m_handlers := Map.empty, m_map_event_handlers := [], m_epoll := Map.empty, m_contexts := Map.empty, m_topic_mgr := []\<rparr>\<rparr>"

lemma demo_main_opens: "\<exists>h s. main_open demo_main_env (conf_values blank_config) = Some (0, h, s)"
  by (simp add: main_open_def demo_main_env_def TCPServer_def CPersist_def TCPServer_open_def restore_def restore_with_def on_broker_def set_broker_def
        Acceptor_open_def CPollerNotifyFd_open_def CSigHandler_open_def CTimerHandler_open_def CEventHandler_open_def CEventHandler_def
        upd_handler_def add_event_def epoll_ctl_def regist_notify_def two_subscribers_def Let_def)

theorem main_starts_the_configuration_witness:
  "\<exists>c' p. main_start [Conf_file (cstr ''mqtt_server.xml'')] (\<lambda>_. File (text_of conf_lines)) blank_config demo_main_env = Some (0, c', Some p) \<and>
     m_file_name (s_persist (bp_server p)) = cstr ''dup.db'' \<and> bp_http p = None \<and>
     s_server_address (bp_server p) = Some (cstr ''0.0.0.0'', 5060) \<and> s_timer (bp_server p) = Some (30, 30) \<and>
     map_option (\<lambda>x. (tc_server_addr x, tc_str_topic_name x)) (bp_client p) = Some (Some (cstr ''10.1.16.130'', 1883), cstr ''topic_name'')"
proof -
  let ?g = "conf_values blank_config"
  have b: "cfg_mqtt_bridge ?g = 0" "describes_mode conf_mqtt_server (cfg_mqtt_bridge ?g)" "cstr ''mqtt_server.xml'' \<noteq> []" "cfg_db_file_name ?g = cstr ''dup.db''"
      "cfg_parent_topic_name ?g = cstr ''topic_name''" "cfg_parent_server_ip ?g = cstr ''10.1.16.130''" "cfg_parent_server_port ?g = 1883"
      "cfg_server_listen_ip ?g = cstr ''0.0.0.0''" "cfg_server_listen_port ?g = 5060" "cfg_flush_interval ?g = 30"
    using conf_described(2) by (simp_all add: conf_values_def cstr_def)
  have h: "1 \<le> cfg_mqtt_bridge ?g \<Longrightarrow> describes_http conf_mqtt_server ?g" by (simp add: b(1))
  obtain w s where s: "main_open demo_main_env ?g = Some (0, w, s)" using demo_main_opens by blast
  have "1 \<le> cfg_mqtt_bridge ?g \<Longrightarrow> main_http demo_main_env ?g = Some (0, undefined)" by (simp add: b(1))
  from main_starts_the_configuration [of _ _ "\<lambda>_. File (text_of conf_lines)", OF b(3) conf_text(1) conf_described(1,3) b(2) conf_described(4) h this s, of blank_config]
  show ?thesis by (auto simp: b)
qed

end
