(* ===== verification/Persist.thy ===== *)
theory Persist
  imports Restart
begin

text \<open>
  The former database of the broker, \<^verbatim>\<open>src/mqtt_server/persist.cpp\<close>: the chunks of \<open>Chunk_File\<close> with bodies
  of plain numbers and strings. The server uses \<open>Persist_Msg_Pack\<close> in its place. The class keeps the chunk in a static
  buffer of one megabyte and reads it through pointers; a pointer is the rest of the buffer, and a read
  behind its end has no defined result. A read behind the end of the chunk finds the bytes of the chunks before.

  The last part shows what this format can hold: one session with one topic comes back, a second
  session makes the file unreadable, and of several topics the second half is lost.
\<close>

subsection \<open>Writing\<close>

definition write_len_buf :: "bytes \<Rightarrow> u32 \<Rightarrow> persist_world \<Rightarrow> (int \<times> persist_world) option" where
  "write_len_buf buf len p =
     error_return (persist_write (le_bytes 4 (unat len)) p) (\<lambda>p. do {
       out \<leftarrow> mem_read buf 0 (unat len);
       error_return (persist_write out p) (\<lambda>p. Some (0, p))
     })"

definition write_str :: "cstring \<Rightarrow> persist_world \<Rightarrow> (int \<times> persist_world) option" where
  "write_str str p = write_len_buf str (of_nat (length str)) p"

definition write_uint8 :: "u8 \<Rightarrow> persist_world \<Rightarrow> (int \<times> persist_world) option" where
  "write_uint8 v p = error_return (persist_write [v] p) (\<lambda>p. Some (0, p))"

definition write_uint64 :: "u64 \<Rightarrow> persist_world \<Rightarrow> (int \<times> persist_world) option" where
  "write_uint64 v p = error_return (persist_write (le_bytes 8 (unat v)) p) (\<lambda>p. Some (0, p))"

definition write_uint :: "u32 \<Rightarrow> persist_world \<Rightarrow> (int \<times> persist_world) option" where
  "write_uint v p = error_return (persist_write (le_bytes 4 (unat v)) p) (\<lambda>p. Some (4, p))"

definition cp_store_db_info :: "persist_world \<Rightarrow> (int \<times> persist_world) option" where
  "cp_store_db_info p =
     (let last_msg_id = m_last_msg_id (mem_store p) in
      error_return (write_chunk_info 1 8 p) (\<lambda>p.
      error_return (persist_write (le_bytes 8 (unat last_msg_id)) p) (\<lambda>p. Some (0, p))))"

fun cp_store_msgs :: "(u64 \<times> addr) list \<Rightarrow> persist_world \<Rightarrow> (int \<times> persist_world) option" where
  "cp_store_msgs [] p = Some (0, p)"
| "cp_store_msgs ((msg_id, a) # it) p =
     do {
       b \<leftarrow> heap (w_broker p) a;
       let buf_len = mbuf_length b;
       let chunk_len = 8 + buf_len + 4;
       error_return (write_chunk_info 2 chunk_len p) (\<lambda>p.
       error_return (write_uint64 msg_id p) (\<lambda>p.
       error_return (write_len_buf (read_ptr b) buf_len p) (cp_store_msgs it)))
     }"

definition cp_store_db_msg :: "u64 list \<Rightarrow> persist_world \<Rightarrow> (int \<times> persist_world) option" where
  "cp_store_db_msg ord p =
     cp_store_msgs (List.map_filter (\<lambda>i. map_option (Pair i) (m_msg_db (mem_store p) i)) ord) p"

text \<open>The loops over the topics and the message ids of a client count the length of the chunk. What the
  function does behind the loop is the argument \<open>k\<close>.\<close>

fun cp_store_topics :: "ctopic list \<Rightarrow> u32 \<Rightarrow> (u32 \<Rightarrow> persist_world \<Rightarrow> (int \<times> persist_world) option) \<Rightarrow> persist_world \<Rightarrow> (int \<times> persist_world) option" where
  "cp_store_topics [] chunk_len k p = k chunk_len p"
| "cp_store_topics (t # it) chunk_len k p =
     (let chunk_len = chunk_len + of_nat (length (m_topic_name t)) + 4 in
      error_return (write_str (m_topic_name t) p) (\<lambda>p.
      let chunk_len = chunk_len + 1 in
      error_return (write_uint8 (m_topic_qos t) p) (cp_store_topics it chunk_len k)))"

fun cp_store_ids :: "u64 list \<Rightarrow> u32 \<Rightarrow> (u32 \<Rightarrow> persist_world \<Rightarrow> (int \<times> persist_world) option) \<Rightarrow> persist_world \<Rightarrow> (int \<times> persist_world) option" where
  "cp_store_ids [] chunk_len k p = k chunk_len p"
| "cp_store_ids (msg_id # it) chunk_len k p =
     (let chunk_len = chunk_len + 8 in error_return (write_uint64 msg_id p) (cp_store_ids it chunk_len k))"

text \<open>The function \<^verbatim>\<open>fseek\<close> empties the buffer first; if the disk has no room for it, it fails, which is not looked at.\<close>

definition persist_fseek :: "nat \<Rightarrow> persist_world \<Rightarrow> persist_world" where
  "persist_fseek offset p = (if w_room p < length (file_of p) then p else p\<lparr>m_db_file := Some offset\<rparr>)"

text \<open>The variable \<open>chunk_len\<close> is declared before the loop over the clients and not reset in it.\<close>

fun cp_store_clients :: "(cstring \<times> ctxid) list \<Rightarrow> u32 \<Rightarrow> persist_world \<Rightarrow> (int \<times> persist_world) option" where
  "cp_store_clients [] chunk_len p = Some (0, p)"
| "cp_store_clients ((client_id, c) # it) chunk_len p =
     do {
       x \<leftarrow> m_contexts (w_broker p) c;
       clean \<leftarrow> ctx_clean_session x;
       if clean then cp_store_clients it chunk_len p
       else do {
         chunk_offset \<leftarrow> m_db_file p;
         error_return (write_chunk_info 3 chunk_len p) (\<lambda>p.
         let chunk_len = chunk_len + of_nat (length client_id) + 4 in
         error_return (write_str client_id p) (\<lambda>p.
         let topics = ctx_subcribe_topics x; chunk_len = chunk_len + 4 in
         error_return (write_uint (of_nat (length topics)) p) (
         cp_store_topics topics chunk_len (\<lambda>chunk_len p.
         let msgs = ctx_send_msg_ids x; chunk_len = chunk_len + 4 in
         error_return (write_uint (of_nat (length msgs)) p) (
         cp_store_ids msgs chunk_len (\<lambda>chunk_len p. do {
           last_offset \<leftarrow> m_db_file p;
           error_return (write_chunk_info 3 chunk_len (persist_fseek chunk_offset p)) (\<lambda>p.
             cp_store_clients it chunk_len (persist_fseek last_offset p))
         }))))))
       }
     }"

definition cp_store_client_info :: "persist_world \<Rightarrow> (int \<times> persist_world) option" where
  "cp_store_client_info p = cp_store_clients (m_client_msg (w_broker p)) 0 p"

fun cp_store_retains :: "(cstring \<times> ctopic_node) list \<Rightarrow> persist_world \<Rightarrow> (int \<times> persist_world) option" where
  "cp_store_retains [] p = Some (0, p)"
| "cp_store_retains ((topic_name, n) # it) p =
     (case m_retian_msg_buf n of
        None \<Rightarrow> cp_store_retains it p
      | Some a \<Rightarrow> do {
          b \<leftarrow> heap (w_broker p) a;
          if mbuf_length b \<le> 0 then cp_store_retains it p
          else
            let chunk_len = of_nat (length topic_name) + 4 + 8 + (mbuf_length b + 4) in
            error_return (write_chunk_info 4 chunk_len p) (\<lambda>p.
            error_return (write_str topic_name p) (\<lambda>p.
            error_return (write_uint64 (m_mbuf_msg_id b) p) (\<lambda>p.
            error_return (write_len_buf (read_ptr b) (mbuf_length b) p) (cp_store_retains it))))
        })"

definition cp_store_retain_msg :: "persist_world \<Rightarrow> (int \<times> persist_world) option" where
  "cp_store_retain_msg p = cp_store_retains (m_topic_mgr (w_broker p)) p"

text \<open>The static variable that is compared with the time of the last change is never assigned.\<close>

definition cp_store :: "u64 list \<Rightarrow> bool \<Rightarrow> persist_world \<Rightarrow> (int \<times> persist_world) option" where
  "cp_store ord force_flush p =
     (if \<not> force_flush \<and> m_last_update_time (mem_store p) \<le> last_db_update_time p then Some (0, p)
      else
        let (r, p) = open_wb p in
        if r = -1 then Some (-1, p)
        else
          error_return (cp_store_db_info p) (\<lambda>p.
          error_return (cp_store_db_msg ord p) (\<lambda>p.
          error_return (cp_store_client_info p) (\<lambda>p.
          error_return (cp_store_retain_msg p) (\<lambda>p. Some (0, persist_close p))))))"

subsection \<open>Reading\<close>

definition get_uint32 :: "bytes \<Rightarrow> (u32 \<times> bytes) option" where
  "get_uint32 buf = do { v \<leftarrow> mem_read buf 0 4; Some (of_nat (le_val v), drop 4 buf) }"

definition get_uint64 :: "bytes \<Rightarrow> (u64 \<times> bytes) option" where
  "get_uint64 buf = do { v \<leftarrow> mem_read buf 0 8; Some (of_nat (le_val v), drop 8 buf) }"

definition get_str :: "u32 \<Rightarrow> bytes \<Rightarrow> (cstring \<times> bytes) option" where
  "get_str n buf = do { v \<leftarrow> mem_read buf 0 (unat n); Some (v, drop (unat n) buf) }"

definition cp_restore_db_info :: "bytes \<Rightarrow> nat \<Rightarrow> persist_world \<Rightarrow> (int \<times> persist_world) option" where
  "cp_restore_db_info buf len p =
     (if len \<noteq> 8 then Some (-1, p)
      else do {
        (last_msg_id, _) \<leftarrow> get_uint64 buf;
        let w = w_broker p;
        Some (0, p\<lparr>w_broker := w\<lparr>m_mem := (m_mem w)\<lparr>w_store := set_last_msg_id last_msg_id (w_store (m_mem w))\<rparr>\<rparr>\<rparr>)
      })"

text \<open>A buffer with \<open>buf_len\<close> bytes of the chunk.\<close>

definition cp_make_mbuf :: "bytes \<Rightarrow> u32 \<Rightarrow> u64 \<Rightarrow> broker \<Rightarrow> (addr \<times> broker) option" where
  "cp_make_mbuf buf buf_len msg_id w =
     do {
       let (a, w) = make_mbuf buf_len w;
       (_, w) \<leftarrow> mbuf_call a (mbuf_copy buf (to_int buf_len)) w;
       Some (a, upd_mbuf a (set_msg_id msg_id) w)
     }"

definition cp_restore_db_msg :: "bytes \<Rightarrow> nat \<Rightarrow> persist_world \<Rightarrow> (int \<times> persist_world) option" where
  "cp_restore_db_msg buf len p =
     do {
       (msg_id, buf) \<leftarrow> get_uint64 buf;
       (buf_len, buf) \<leftarrow> get_uint32 buf;
       if unat buf_len + 12 \<noteq> len then Some (-1, p)
       else do {
         (a, w) \<leftarrow> cp_make_mbuf buf buf_len msg_id (w_broker p);
         mem \<leftarrow> regist_mem_store (of_int (w_now w)) True a (m_mem w);
         p \<leftarrow> tmp_put msg_id a (p\<lparr>w_broker := w\<lparr>m_mem := mem\<rparr>\<rparr>);
         Some (0, p)
       }
     }"

lemma get_uint32_less: "get_uint32 buf = Some (v, buf') \<Longrightarrow> length buf' < length buf"
  by (auto simp: get_uint32_def mem_read_def split: if_splits)

lemma get_str_le: "get_str n buf = Some (v, buf') \<Longrightarrow> length buf' \<le> length buf"
  by (auto simp: get_str_def mem_read_def split: if_splits)

text \<open>The counter is incremented at the beginning of the loop body and again behind it.\<close>

function cp_restore_topics :: "u32 \<Rightarrow> u32 \<Rightarrow> nat \<Rightarrow> bytes \<Rightarrow> ctopic list \<Rightarrow> ctxid \<Rightarrow> broker \<Rightarrow> (int \<times> bytes \<times> ctopic list \<times> broker) option" where
  "cp_restore_topics i topic_num len buf sub_topics c w =
     (if i < topic_num then
        do {
          let i = i + 1;
          (topic_name_len, buf) \<leftarrow> get_uint32 buf;
          if unat topic_name_len > len then Some (-1, buf, sub_topics, w)
          else do {
            (topic_name, buf) \<leftarrow> get_str topic_name_len buf;
            topic_qos \<leftarrow> mem_get buf 0;
            (_, w) \<leftarrow> add_client_context handle_close topic_name c w;
            cp_restore_topics (i + 1) topic_num len (drop 1 buf) (sub_topics @ [CTopic topic_name topic_qos]) c w
          }
        }
      else Some (0, buf, sub_topics, w))"
  by pat_completeness auto
termination
  by (relation "measure (\<lambda>(i, n, len, buf, _). length buf)") (auto dest!: get_uint32_less get_str_le)

declare cp_restore_topics.simps [simp del]

fun cp_restore_ids :: "nat \<Rightarrow> bytes \<Rightarrow> (u64 \<rightharpoonup> addr) \<Rightarrow> ctxid \<Rightarrow> broker \<Rightarrow> broker option" where
  "cp_restore_ids 0 buf tmp c w = Some w"
| "cp_restore_ids (Suc n) buf tmp c w =
     do {
       (msg_id, buf) \<leftarrow> get_uint64 buf;
       cp_restore_ids n buf tmp c (case tmp msg_id of None \<Rightarrow> w | Some a \<Rightarrow> upd_ctx c (add_send_msg a) w)
     }"

definition cp_restore_client_info :: "bytes \<Rightarrow> nat \<Rightarrow> persist_world \<Rightarrow> (int \<times> persist_world) option" where
  "cp_restore_client_info buf len p =
     do {
       (client_id_len, buf) \<leftarrow> get_uint32 buf;
       (client_id, buf) \<leftarrow> get_str client_id_len buf;
       let (c, w) = make_context None (w_broker p);
       let w = upd_ctx c (ctx_client_id_update (\<lambda>_. client_id)) w;
       (topic_num, buf) \<leftarrow> get_uint32 buf;
       (res, buf, sub_topics, w) \<leftarrow> cp_restore_topics 0 topic_num len buf [] c w;
       let w = upd_ctx c (add_subcribe_topics sub_topics) w;
       (msgs_num, buf) \<leftarrow> get_uint32 buf;
       w \<leftarrow> cp_restore_ids (unat msgs_num) buf (map_of (m_tmp_msg_db p)) c w;
       let (_, w) = add_client_id client_id c w;
       Some (res, p\<lparr>w_broker := w\<rparr>)
     }"

definition cp_restore_retain_msg :: "bytes \<Rightarrow> nat \<Rightarrow> persist_world \<Rightarrow> (int \<times> persist_world) option" where
  "cp_restore_retain_msg chunk_buf len p =
     do {
       (topic_name_len, buf) \<leftarrow> get_uint32 chunk_buf;
       if unat topic_name_len > len then Some (-1, p)
       else do {
         (topic_name, buf) \<leftarrow> get_str topic_name_len buf;
         (msg_id, buf) \<leftarrow> get_uint64 buf;
         (buf_len, buf) \<leftarrow> get_uint32 buf;
         if int (unat buf_len) \<noteq> int len - int (length chunk_buf - length buf) then Some (-1, p)
         else if buf_len = 0 then Some (0, p)
         else do {
           (a, w) \<leftarrow> cp_make_mbuf buf buf_len msg_id (w_broker p);
           let w = (case map_of (m_topic_mgr w) topic_name of None \<Rightarrow> w | Some n \<Rightarrow> set_topic topic_name (update_retain_msg a n) w);
           Some (0, p\<lparr>w_broker := w\<rparr>)
         }
       }
     }"

definition cp_restore_chunk :: chunk_handler where
  "cp_restore_chunk chunk_type chunk_len buf p =
     (if chunk_type = 1 then cp_restore_db_info buf chunk_len p
      else if chunk_type = 2 then cp_restore_db_msg buf chunk_len p
      else if chunk_type = 3 then cp_restore_client_info buf chunk_len p
      else if chunk_type = 4 then cp_restore_retain_msg buf chunk_len p
      else Some (-1, p))"

definition cp_restore :: "persist_world \<Rightarrow> (int \<times> persist_world) option" where
  "cp_restore = restore_with cp_restore_chunk"

subsection \<open>The file that is written\<close>

text \<open>With room on the disk every write appends to the file, except for the header of a client, which is
  written over when the length is known.\<close>

definition appended :: "bytes \<Rightarrow> persist_world \<Rightarrow> persist_world" where
  "appended bs p = p\<lparr>w_files := (w_files p)(m_file_name p \<mapsto> file_of p @ bs), m_db_file := Some (length (file_of p @ bs))\<rparr>"

lemma appended_simps [simp]:
  "file_of (appended bs p) = file_of p @ bs" "m_file_name (appended bs p) = m_file_name p" "w_broker (appended bs p) = w_broker p"
  "w_disk (appended bs p) = w_disk p" "m_db_file (appended bs p) = Some (length (file_of p) + length bs)"
  "w_files (appended bs p) (m_file_name p) = Some (file_of p @ bs)" "at_end (appended bs p)"
  "appended cs (appended bs p) = appended (bs @ cs) p"
  by (simp_all add: appended_def at_end_def file_of_def)

lemma appended_Nil: "at_end p \<Longrightarrow> appended [] p = p"
  by (cases p) (auto simp: appended_def at_end_def file_of_def)

lemma error_return_Some [simp]: "error_return (Some (r, q)) k = (if r < 0 then Some (-1, q) else k q)"
  by (simp add: error_return_def)

lemma write_appends [simp]:
  "at_end p \<Longrightarrow> length (file_of p) + length bs \<le> w_room p \<Longrightarrow> persist_write bs p = Some (0, appended bs p)"
  by (auto simp: persist_write_def at_end_def appended_def set_file_def Let_def)

lemma fseek_moves [simp]: "length (file_of p) \<le> w_room p \<Longrightarrow> persist_fseek off p = p\<lparr>m_db_file := Some off\<rparr>"
  by (simp add: persist_fseek_def)

definition header :: "u8 \<Rightarrow> u32 \<Rightarrow> bytes" where
  "header ty len = 0xEE # ty # le_bytes 4 (unat len)"

lemma length_header [simp]: "length (header ty len) = 6"
  by (simp add: header_def)

lemma header_appends [simp]:
  "at_end p \<Longrightarrow> length (file_of p) + 6 \<le> w_room p \<Longrightarrow> write_chunk_info ty len p = Some (0, appended (header ty len) p)"
  by (simp add: write_chunk_info_def header_def)

definition str_bytes :: "cstring \<Rightarrow> bytes" where
  "str_bytes s = le_bytes 4 (length s) @ s"

lemma length_str_bytes [simp]: "length (str_bytes s) = length s + 4"
  by (simp add: str_bytes_def)

lemma str_appends [simp]:
  "at_end p \<Longrightarrow> length (file_of p) + length s + 4 \<le> w_room p \<Longrightarrow> length s < 2 ^ 32 \<Longrightarrow> write_str s p = Some (0, appended (str_bytes s) p)"
  by (simp add: write_str_def write_len_buf_def mem_read_def str_bytes_def)

lemma len_buf_appends:
  assumes "at_end p" "mbuf_wf b" "length (file_of p) + length (mbuf_contents b) + 4 \<le> w_room p"
  shows "write_len_buf (read_ptr b) (mbuf_length b) p = Some (0, appended (str_bytes (mbuf_contents b)) p)"
proof -
  have "mem_read (read_ptr b) 0 (unat (mbuf_length b)) = Some (mbuf_contents b)"
    using assms(2) by (auto simp: mbuf_length_contents length_mbuf_contents mem_read_def read_ptr_def mbuf_contents_def mbuf_wf_def mbuf_word)
  then show ?thesis using assms by (simp add: write_len_buf_def mbuf_length_contents str_bytes_def)
qed

lemma uint_appends [simp]:
  "at_end p \<Longrightarrow> length (file_of p) + 1 \<le> w_room p \<Longrightarrow> write_uint8 v p = Some (0, appended [v] p)"
  "at_end p \<Longrightarrow> length (file_of p) + 8 \<le> w_room p \<Longrightarrow> write_uint64 i p = Some (0, appended (le_bytes 8 (unat i)) p)"
  "at_end p \<Longrightarrow> length (file_of p) + 4 \<le> w_room p \<Longrightarrow> write_uint n p = Some (4, appended (le_bytes 4 (unat n)) p)"
  by (simp_all add: write_uint8_def write_uint64_def write_uint_def)

definition topic_bytes :: "ctopic \<Rightarrow> bytes" where
  "topic_bytes t = str_bytes (m_topic_name t) @ [m_topic_qos t]"

definition topics_bytes :: "ctopic list \<Rightarrow> bytes" where
  "topics_bytes ts = concat (map topic_bytes ts)"

definition ids_bytes :: "u64 list \<Rightarrow> bytes" where
  "ids_bytes is = concat (map (\<lambda>i. le_bytes 8 (unat i)) is)"

lemma list_bytes_simps [simp]:
  "topics_bytes [] = []" "topics_bytes (t # ts) = topic_bytes t @ topics_bytes ts" "topics_bytes (ts @ ts') = topics_bytes ts @ topics_bytes ts'"
  "ids_bytes [] = []" "ids_bytes (i # is) = le_bytes 8 (unat i) @ ids_bytes is" "length (topic_bytes t) = length (m_topic_name t) + 5"
  by (simp_all add: topics_bytes_def ids_bytes_def topic_bytes_def)

text \<open>The body of a client: its id, the number of topics and the topics, the number of messages and their ids.\<close>

definition client_body :: "ctmqtt_client_context \<Rightarrow> bytes" where
  "client_body x = str_bytes (ctx_client_id x) @ le_bytes 4 (length (ctx_subcribe_topics x)) @ topics_bytes (ctx_subcribe_topics x) @
     le_bytes 4 (length (ctx_send_msg_ids x)) @ ids_bytes (ctx_send_msg_ids x)"

lemma topics_append:
  assumes "at_end p" "length (file_of p) + length (topics_bytes ts) \<le> w_room p" "\<forall>t \<in> set ts. length (m_topic_name t) < 2 ^ 32"
  shows "cp_store_topics ts n k p = k (n + of_nat (length (topics_bytes ts))) (appended (topics_bytes ts) p)"
  using assms
proof (induction ts arbitrary: n p)
  case (Cons t ts)
  then show ?case by (simp add: topic_bytes_def algebra_simps)
qed (simp add: appended_Nil)

lemma ids_append:
  assumes "at_end p" "length (file_of p) + length (ids_bytes is) \<le> w_room p"
  shows "cp_store_ids is n k p = k (n + of_nat (length (ids_bytes is))) (appended (ids_bytes is) p)"
  using assms
proof (induction "is" arbitrary: n p)
  case (Cons i "is")
  then show ?case by (simp add: algebra_simps)
qed (simp add: appended_Nil)

text \<open>Writing over the header of the last chunk.\<close>

lemma persist_write_over:
  assumes "file_of p = pre @ old @ post" "m_db_file p = Some (length pre)" "length bs = length old" "length (file_of p) \<le> w_room p"
  shows "persist_write bs p = Some (0, p\<lparr>w_files := (w_files p)(m_file_name p \<mapsto> pre @ bs @ post), m_db_file := Some (length pre + length bs)\<rparr>)"
  using assms by (auto simp: persist_write_def set_file_def Let_def)

lemma header_over:
  assumes "m_db_file p = Some (length (file_of p))" "length (file_of p) + 6 + length body \<le> w_room p"
  shows "write_chunk_info ty n' ((appended (header ty n @ body) p)\<lparr>m_db_file := Some (length (file_of p))\<rparr>) =
    Some (0, (appended (header ty n' @ body) p)\<lparr>m_db_file := Some (length (file_of p) + 6)\<rparr>)"
proof -
  let ?f = "file_of p" let ?l = "le_bytes 4 (unat n)" let ?l' = "le_bytes 4 (unat n')"
  let ?p = "\<lambda>d f. (appended (header ty n @ body) p)\<lparr>w_files := (w_files p)(m_file_name p \<mapsto> f), m_db_file := Some d\<rparr>"
  have 0: "(appended (header ty n @ body) p)\<lparr>m_db_file := Some (length ?f)\<rparr> = ?p (length ?f) (?f @ header ty n @ body)"
    by (simp add: appended_def)
  have f: "file_of (?p d g) = g" "m_db_file (?p d g) = Some d" "w_disk (?p d g) = w_disk p" for d g by (simp_all add: file_of_def appended_def)
  have 1: "persist_write bs (?p d g) = Some (0, ?p (d + length bs) (pre @ bs @ post))"
    if "g = pre @ old @ post" "d = length pre" "length bs = length old" "length g \<le> w_room p" for bs d g pre old post
    using persist_write_over [of "?p d g" pre old post bs] that f by (simp add: appended_def)
  have "write_chunk_info ty n' (?p (length ?f) (?f @ header ty n @ body)) = Some (0, ?p (length ?f + 6) (?f @ header ty n' @ body))"
    unfolding write_chunk_info_def
    using 1 [of _ ?f "[0xEE]" "ty # ?l @ body" "length ?f" "[0xEE]"] 1 [of _ "?f @ [0xEE]" "[ty]" "?l @ body" "length ?f + 1" "[ty]"]
      1 [of _ "?f @ [0xEE, ty]" ?l body "length ?f + 2" ?l']
      assms(2) by (simp add: header_def)
  then show ?thesis unfolding 0 by (simp add: appended_def)
qed

fun clients_image :: "u32 \<Rightarrow> ctmqtt_client_context list \<Rightarrow> bytes" where
  "clients_image n [] = []"
| "clients_image n (x # xs) =
     (let n = n + of_nat (length (client_body x)) in header 3 n @ client_body x @ clients_image n xs)"

definition names_short :: "ctmqtt_client_context \<Rightarrow> bool" where
  "names_short x \<longleftrightarrow> length (ctx_client_id x) < 2 ^ 32 \<and> list_all (\<lambda>t. length (m_topic_name t) < 2 ^ 32) (ctx_subcribe_topics x) \<and>
     length (ctx_subcribe_topics x) < 2 ^ 32 \<and> length (ctx_send_msg_ids x) < 2 ^ 32"

definition old_client_ok :: "broker \<Rightarrow> cstring \<times> ctxid \<Rightarrow> bool" where
  "old_client_ok w ic \<longleftrightarrow>
     (case m_contexts w (snd ic) of None \<Rightarrow> False | Some x \<Rightarrow> ctx_clean_session x \<noteq> None \<and> ctx_client_id x = fst ic \<and> names_short x)"

definition old_clients :: "broker \<Rightarrow> (cstring \<times> ctxid) list \<Rightarrow> ctmqtt_client_context list" where
  "old_clients w ics = map (\<lambda>ic. the (m_contexts w (snd ic))) (filter (persistent w) ics)"

lemma client_appends:
  fixes n :: u32
  assumes "at_end p" "m_contexts (w_broker p) c = Some x" "ctx_clean_session x = Some False" "ctx_client_id x = i" "names_short x"
    and "length (file_of p) + length (client_body x) + 6 \<le> w_room p"
  defines "n' \<equiv> n + of_nat (length (client_body x))"
  shows "cp_store_clients ((i, c) # it) n p = cp_store_clients it n' (appended (header 3 n' @ client_body x) p)"
proof -
  let ?ts = "ctx_subcribe_topics x" let ?is = "ctx_send_msg_ids x" let ?a = "length (file_of p)"
  have len: "length (client_body x) = length i + 12 + length (topics_bytes ?ts) + length (ids_bytes ?is)"
    using assms(4) by (simp add: client_body_def)
  have off: "m_db_file p = Some ?a" using assms(1) by (simp add: at_end_def)
  have sum: "12 + (n + (of_nat (length i) + of_nat (length (topics_bytes ?ts)))) + of_nat (length (ids_bytes ?is)) = n'"
    by (simp add: n'_def len algebra_simps)
  have last: "(appended (header 3 n' @ client_body x) p)\<lparr>m_db_file := Some (?a + (18 + (length i + (length (topics_bytes ?ts) + length (ids_bytes ?is)))))\<rparr> =
      appended (header 3 n' @ client_body x) p"
    by (simp add: appended_def len)
  have body: "str_bytes i @ le_bytes 4 (length ?ts) @ topics_bytes ?ts @ le_bytes 4 (length ?is) @ ids_bytes ?is = client_body x"
    using assms(4) by (simp add: client_body_def)
  show ?thesis
    using assms(1-6) off len header_over [OF off, where ty = 3 and n' = n' and n = n and body = "client_body x"]
    by (simp add: names_short_def list_all_iff topics_append ids_append sum body last Let_def)
qed

lemma clients_append:
  assumes "at_end p" "list_all (old_client_ok (w_broker p)) ics" "length (file_of p) + length (clients_image n (old_clients (w_broker p) ics)) \<le> w_room p"
  shows "cp_store_clients ics n p = Some (0, appended (clients_image n (old_clients (w_broker p) ics)) p)"
  using assms
proof (induction ics arbitrary: n p)
  case Nil
  then show ?case by (simp add: old_clients_def appended_Nil)
next
  case (Cons ic ics)
  let ?w = "w_broker p"
  obtain i c where ic: "ic = (i, c)" by fastforce
  obtain x where x: "m_contexts ?w c = Some x" "ctx_clean_session x \<noteq> None" "ctx_client_id x = i" "names_short x"
    using Cons.prems(2) by (auto simp: ic old_client_ok_def split: option.splits)
  show ?case
  proof (cases "ctx_clean_session x = Some True")
    case True
    then have "old_clients ?w (ic # ics) = old_clients ?w ics" using x(1) by (simp add: old_clients_def persistent_def ic)
    then show ?thesis using Cons True x(1) by (simp add: ic)
  next
    case False
    then have f: "ctx_clean_session x = Some False" using x(2) by auto
    then have cl: "old_clients ?w (ic # ics) = x # old_clients ?w ics" using x(1) by (simp add: old_clients_def persistent_def ic)
    then show ?thesis
      using Cons.prems x(1,3,4) f client_appends [OF Cons.prems(1) x(1) f x(3,4), where n = n and it = ics]
        Cons.IH [of "appended (header 3 n' @ client_body x) p" n' for n']
      by (simp add: ic Let_def)
  qed
qed

definition msg_body :: "u64 \<times> cmbuf \<Rightarrow> bytes" where
  "msg_body ib = le_bytes 8 (unat (fst ib)) @ str_bytes (mbuf_contents (snd ib))"

definition retain_body :: "cstring \<times> cmbuf \<Rightarrow> bytes" where
  "retain_body tb = str_bytes (fst tb) @ msg_body (m_mbuf_msg_id (snd tb), snd tb)"

lemma length_bodies [simp]:
  "length (msg_body ib) = length (mbuf_contents (snd ib)) + 12"
  "length (retain_body tb) = length (fst tb) + length (mbuf_contents (snd tb)) + 16"
  by (simp_all add: msg_body_def retain_body_def)

lemma chunk_header: "length body < 2 ^ 32 \<Longrightarrow> chunk ty body = header ty (of_nat (length body)) @ body"
  by (simp add: chunk_def header_def)

lemma mbuf_length_of: "mbuf_wf b \<Longrightarrow> mbuf_length b = of_nat (length (mbuf_contents b))"
  by (simp add: of_nat_unat flip: mbuf_length_contents)

lemma msgs_append:
  assumes "at_end p" "\<forall>(i, a) \<in> set ias. \<exists>b. heap (w_broker p) a = Some b \<and> mbuf_wf b"
    and "length (file_of p) + length (concat (map (\<lambda>(i, a). chunk 2 (msg_body (i, the (heap (w_broker p) a)))) ias)) \<le> w_room p"
  shows "cp_store_msgs ias p = Some (0, appended (concat (map (\<lambda>(i, a). chunk 2 (msg_body (i, the (heap (w_broker p) a)))) ias)) p)"
  using assms
proof (induction ias arbitrary: p)
  case Nil
  then show ?case by (simp add: appended_Nil)
next
  case (Cons ia ias)
  obtain i a where ia: "ia = (i, a)" by fastforce
  obtain b where b: "heap (w_broker p) a = Some b" "mbuf_wf b" using Cons.prems(2) by (auto simp: ia)
  have ch: "header 2 (12 + mbuf_length b) @ msg_body (i, b) = chunk 2 (msg_body (i, b))"
    using wf_contents_less [OF b(2)] by (subst chunk_header) (simp_all add: mbuf_length_of [OF b(2)] algebra_simps)
  show ?case
    using Cons.prems b Cons.IH [of "appended (chunk 2 (msg_body (i, b))) p"]
    by (simp add: ia len_buf_appends ch [unfolded msg_body_def, simplified] msg_body_def)
qed

lemma retains_append:
  assumes "at_end p" "retained_bufs (heap (w_broker p)) tm = Some tbs" "list_all (mbuf_wf \<circ> snd) tbs"
    and "list_all (\<lambda>tb. length (retain_body tb) < 2 ^ 32) tbs" "length (file_of p) + length (concat (map (\<lambda>tb. chunk 4 (retain_body tb)) tbs)) \<le> w_room p"
  shows "cp_store_retains tm p = Some (0, appended (concat (map (\<lambda>tb. chunk 4 (retain_body tb)) tbs)) p)"
  using assms
proof (induction tm arbitrary: p tbs)
  case Nil
  then show ?case by (simp add: appended_Nil)
next
  case (Cons tn tm)
  obtain t n where tn: "tn = (t, n)" by fastforce
  show ?case
  proof (cases "m_retian_msg_buf n")
    case None
    then show ?thesis using Cons by (simp add: tn)
  next
    case (Some a)
    then obtain b bs where b: "heap (w_broker p) a = Some b" "retained_bufs (heap (w_broker p)) tm = Some bs"
      "tbs = (if mbuf_length b \<le> 0 then bs else (t, b) # bs)"
      using Cons.prems(2) by (auto simp: tn split: bind_splits)
    show ?thesis
    proof (cases "mbuf_length b \<le> 0")
      case True
      then show ?thesis using Cons Some b by (simp add: tn)
    next
      case False
      then have wf: "mbuf_wf b" "length t + length (mbuf_contents b) + 16 < 2 ^ 32" using Cons.prems(3,4) b(3) by simp_all
      have ch: "header 4 (16 + (of_nat (length t) + mbuf_length b)) @ retain_body (t, b) = chunk 4 (retain_body (t, b))"
        using wf(2) by (subst chunk_header) (simp_all add: mbuf_length_of [OF wf(1)] algebra_simps)
      show ?thesis
        using Cons.prems False Some b wf Cons.IH [of "appended (chunk 4 (retain_body (t, b))) p" bs]
        by (simp add: tn len_buf_appends ch [unfolded msg_body_def retain_body_def, simplified] msg_body_def retain_body_def)
    qed
  qed
qed

subsection \<open>Reading the chunks\<close>

lemma get_uint32_bytes [simp]: "n < 2 ^ 32 \<Longrightarrow> get_uint32 (le_bytes 4 n @ rest) = Some (of_nat n, rest)"
  by (simp add: get_uint32_def mem_read_def le_val_le_bytes)

lemma get_uint64_bytes [simp]: "get_uint64 (le_bytes 8 (unat i) @ rest) = Some (i, rest)"
  using unsigned_less [of i, where ?'a = nat] by (simp add: get_uint64_def mem_read_def le_val_le_bytes of_nat_unat)

lemma get_str_bytes [simp]: "length s < 2 ^ 32 \<Longrightarrow> get_str (of_nat (length s)) (s @ rest) = Some (s, rest)"
  by (simp add: get_str_def mem_read_def)

lemma restore_ids_all: "cp_restore_ids (length is) (ids_bytes is @ rest) tmp c w = Some (restore_queue tmp is c w)"
  by (induction "is" arbitrary: w) (auto split: option.split)

lemma restore_ids_some:
  "8 * n \<le> length buf \<Longrightarrow> \<exists>is. length is = n \<and> cp_restore_ids n buf tmp c w = Some (restore_queue tmp is c w)"
proof (induction n arbitrary: buf w)
  case (Suc n)
  obtain i where i: "get_uint64 buf = Some (i, drop 8 buf)" using Suc.prems by (simp add: get_uint64_def mem_read_def)
  obtain "is" where "length is = n" "cp_restore_ids n (drop 8 buf) tmp c (case tmp i of None \<Rightarrow> w | Some a \<Rightarrow> upd_ctx c (add_send_msg a) w) =
      Some (restore_queue tmp is c (case tmp i of None \<Rightarrow> w | Some a \<Rightarrow> upd_ctx c (add_send_msg a) w))"
    using Suc.IH [of "drop 8 buf" "case tmp i of None \<Rightarrow> w | Some a \<Rightarrow> upd_ctx c (add_send_msg a) w"] Suc.prems by fastforce
  then show ?case using i by (intro exI [of _ "i # is"]) (auto split: option.split)
qed simp

lemma add_client_context_off_line:
  "m_contexts w c = Some x \<Longrightarrow> ctx_mqtt_connection x = None \<Longrightarrow>
     \<exists>r. add_client_context hc t c w = Some (r, subscribe_all [t] c w)"
  by (auto simp: add_client_context_def subscribe_all_def Let_def split: option.split)

lemma subscribe_all_contexts [simp]: "m_contexts (subscribe_all ts c w) = m_contexts w"
  using subscribe_all_keeps [of ts c w] by auto

text \<open>The loop reads half of the topics: it runs while the counter, which goes up by two, is below their number.\<close>

lemma restore_topics_run:
  assumes "j + 2 * length ts = n \<or> j + 2 * length ts = n + 1" "n + 2 < 2 ^ 32" "m_contexts w c = Some x" "ctx_mqtt_connection x = None"
    and "\<forall>t \<in> set ts. length (m_topic_name t) < 2 ^ 32 \<and> length (m_topic_name t) \<le> len"
  shows "cp_restore_topics (of_nat j) (of_nat n) len (topics_bytes ts @ rest) acc c w =
    Some (0, rest, acc @ ts, subscribe_all (map m_topic_name ts) c w)"
  using assms
proof (induction ts arbitrary: j acc w)
  case Nil
  then have "n \<le> j" "j < 2 ^ 32" by auto
  then have "\<not> (of_nat j :: u32) < of_nat n" by (simp add: word_less_nat_alt)
  then show ?case by (simp add: cp_restore_topics.simps subscribe_all_def)
next
  case (Cons t ts)
  let ?w = "subscribe_all [m_topic_name t] c w"
  have j: "(of_nat j :: u32) < of_nat n" using Cons.prems(1,2) by (auto simp: word_less_nat_alt)
  have s: "(of_nat j :: u32) + 1 + 1 = of_nat (j + 2)" by simp
  have t: "CTopic (m_topic_name t) (m_topic_qos t) = t" by (simp add: CTopic_def)
  obtain r where r: "add_client_context handle_close (m_topic_name t) c w = Some (r, ?w)"
    using add_client_context_off_line [OF Cons.prems(3,4)] by blast
  have IH: "cp_restore_topics (of_nat (j + 2)) (of_nat n) len (topics_bytes ts @ rest) (acc @ [t]) c ?w =
      Some (0, rest, (acc @ [t]) @ ts, subscribe_all (map m_topic_name ts) c ?w)"
    using Cons.prems by (intro Cons.IH) auto
  have sub: "subscribe_all (map m_topic_name ts) c ?w = subscribe_all (map m_topic_name (t # ts)) c w" by (simp add: subscribe_all_def)
  have name: "unat (of_nat (length (m_topic_name t)) :: u32) = length (m_topic_name t)" using Cons.prems(5) by simp
  show ?case
    unfolding cp_restore_topics.simps [of "of_nat j"]
    using j Cons.prems(5) r IH name
    by (simp add: topic_bytes_def str_bytes_def mem_get_def t s [symmetric] sub)
qed

text \<open>The session that comes back, with the topics and the message ids that were read.\<close>

definition old_session :: "(u64 \<rightharpoonup> addr) \<Rightarrow> cstring \<Rightarrow> ctopic list \<Rightarrow> u64 list \<Rightarrow> broker \<Rightarrow> broker" where
  "old_session tmp i ts is w =
     (let c = w_next_ctx w;
          w = w\<lparr>m_contexts := (m_contexts w)(c \<mapsto> (CTMqttClientContext None)\<lparr>ctx_client_id := i\<rparr>), w_next_ctx := Suc c\<rparr>;
          w = restore_queue tmp is c (upd_ctx c (add_subcribe_topics ts) (subscribe_all (map m_topic_name ts) c w))
      in snd (add_client_id i c w))"

lemma topic_in_body: "t \<in> set (ctx_subcribe_topics x) \<Longrightarrow> length (m_topic_name t) \<le> length (client_body x)"
proof -
  assume "t \<in> set (ctx_subcribe_topics x)"
  then obtain a b where "ctx_subcribe_topics x = a @ t # b" by (auto simp: in_set_conv_decomp)
  then show ?thesis by (simp add: client_body_def)
qed

lemma client_prefix:
  assumes "names_short x" "length (ctx_subcribe_topics x) + 2 < 2 ^ 32"
  defines "ts \<equiv> take ((length (ctx_subcribe_topics x) + 1) div 2) (ctx_subcribe_topics x)"
  shows "cp_restore_client_info (client_body x @ old) (length (client_body x)) p =
    do {
      (msgs_num, buf) \<leftarrow> get_uint32 (topics_bytes (drop (length ts) (ctx_subcribe_topics x)) @ le_bytes 4 (length (ctx_send_msg_ids x)) @
        ids_bytes (ctx_send_msg_ids x) @ old);
      let c = w_next_ctx (w_broker p);
      let w = (w_broker p)\<lparr>m_contexts := (m_contexts (w_broker p))(c \<mapsto> (CTMqttClientContext None)\<lparr>ctx_client_id := ctx_client_id x\<rparr>), w_next_ctx := Suc c\<rparr>;
      w \<leftarrow> cp_restore_ids (unat msgs_num) buf (map_of (m_tmp_msg_db p)) c (upd_ctx c (add_subcribe_topics ts) (subscribe_all (map m_topic_name ts) c w));
      Some (0, p\<lparr>w_broker := snd (add_client_id (ctx_client_id x) c w)\<rparr>)
    }"
proof -
  let ?all = "ctx_subcribe_topics x" let ?n = "length ?all" let ?c = "w_next_ctx (w_broker p)"
  let ?w = "(w_broker p)\<lparr>m_contexts := (m_contexts (w_broker p))(?c \<mapsto> (CTMqttClientContext None)\<lparr>ctx_client_id := ctx_client_id x\<rparr>), w_next_ctx := Suc ?c\<rparr>"
  let ?rest = "topics_bytes (drop (length ts) ?all) @ le_bytes 4 (length (ctx_send_msg_ids x)) @ ids_bytes (ctx_send_msg_ids x) @ old"
  have all: "ts @ drop (length ts) ?all = ?all" "set ts \<subseteq> set ?all" by (auto simp: ts_def dest: in_set_takeD)
  have n: "0 + 2 * length ts = ?n \<or> 0 + 2 * length ts = ?n + 1" by (auto simp: ts_def)
  have body: "client_body x @ old = le_bytes 4 (length (ctx_client_id x)) @ ctx_client_id x @ le_bytes 4 ?n @ topics_bytes ts @ ?rest"
    unfolding client_body_def by (subst (2) all(1) [symmetric]) (simp add: str_bytes_def)
  have short: "length (ctx_client_id x) < 2 ^ 32" "\<forall>t \<in> set ts. length (m_topic_name t) < 2 ^ 32 \<and> length (m_topic_name t) \<le> length (client_body x)"
    using assms(1) all(2) topic_in_body [of _ x] by (auto simp: names_short_def list_all_iff)
  have "m_contexts ?w ?c = Some ((CTMqttClientContext None)\<lparr>ctx_client_id := ctx_client_id x\<rparr>)" by simp
  moreover have "ctx_mqtt_connection ((CTMqttClientContext None)\<lparr>ctx_client_id := ctx_client_id x\<rparr>) = None"
    by (simp add: CTMqttClientContext_def)
  ultimately have loop: "cp_restore_topics (of_nat 0) (of_nat ?n) (length (client_body x)) (topics_bytes ts @ ?rest) [] ?c ?w =
      Some (0, ?rest, [] @ ts, subscribe_all (map m_topic_name ts) ?c ?w)"
    by (intro restore_topics_run [OF n assms(2) _ _ short(2)])
  have w: "upd_ctx ?c (ctx_client_id_update (\<lambda>_. ctx_client_id x)) ((w_broker p)\<lparr>m_contexts := (m_contexts (w_broker p))(?c \<mapsto> CTMqttClientContext None), w_next_ctx := Suc ?c\<rparr>) = ?w"
    by (simp add: upd_ctx_def)
  show ?thesis
    unfolding body cp_restore_client_info_def
    using short(1) assms(2) loop w by (simp add: make_context_def split_def Let_def)
qed

text \<open>A client with at most one topic is read completely; of more topics, only the first half.\<close>

lemma client_whole:
  assumes "names_short x" "length (ctx_subcribe_topics x) \<le> 1"
  shows "cp_restore_client_info (client_body x @ old) (length (client_body x)) p =
    Some (0, p\<lparr>w_broker := old_session (map_of (m_tmp_msg_db p)) (ctx_client_id x) (ctx_subcribe_topics x) (ctx_send_msg_ids x) (w_broker p)\<rparr>)"
proof -
  have "take ((length (ctx_subcribe_topics x) + 1) div 2) (ctx_subcribe_topics x) = ctx_subcribe_topics x"
    using assms(2) by (cases "ctx_subcribe_topics x") auto
  then show ?thesis
    using client_prefix [OF assms(1), of old p] assms
    by (simp add: names_short_def restore_ids_all old_session_def Let_def)
qed

lemma client_half:
  assumes "names_short x" "length (ctx_subcribe_topics x) = n" "1 < n" "n + 2 < 2 ^ 32"
    and "length (client_body x) + 8 * length (m_topic_name (ctx_subcribe_topics x ! ((n + 1) div 2))) \<le> length (client_body x @ old)"
  shows "\<exists>is. length is = length (m_topic_name (ctx_subcribe_topics x ! ((n + 1) div 2))) \<and>
    cp_restore_client_info (client_body x @ old) (length (client_body x)) p =
    Some (0, p\<lparr>w_broker := old_session (map_of (m_tmp_msg_db p)) (ctx_client_id x) (take ((n + 1) div 2) (ctx_subcribe_topics x)) is (w_broker p)\<rparr>)"
proof -
  let ?h = "(n + 1) div 2" let ?all = "ctx_subcribe_topics x"
  let ?t = "?all ! ?h" let ?c = "w_next_ctx (w_broker p)"
  have h: "?h < length ?all" using assms(2,3) by auto
  have d: "drop ?h ?all = ?t # drop (Suc ?h) ?all" using Cons_nth_drop_Suc [OF h] by simp
  let ?buf = "m_topic_name ?t @ m_topic_qos ?t # topics_bytes (drop (Suc ?h) ?all) @ le_bytes 4 (length (ctx_send_msg_ids x)) @
    ids_bytes (ctx_send_msg_ids x) @ old"
  have t: "length (m_topic_name ?t) < 2 ^ 32" using assms(1) h by (simp add: names_short_def list_all_length)
  have g: "get_uint32 (topics_bytes (drop ?h ?all) @ le_bytes 4 (length (ctx_send_msg_ids x)) @ ids_bytes (ctx_send_msg_ids x) @ old) =
      Some (of_nat (length (m_topic_name ?t)), ?buf)"
    unfolding d using t by (simp add: topic_bytes_def str_bytes_def)
  have room: "8 * length (m_topic_name ?t) \<le> length ?buf" using assms(5) by simp
  note ids = restore_ids_some [OF room, of "map_of (m_tmp_msg_db p)" ?c]
  show ?thesis
    using client_prefix [OF assms(1), of old p] assms(2,4) h g t
      ids [of "upd_ctx ?c (add_subcribe_topics (take ?h ?all)) (subscribe_all (map m_topic_name (take ?h ?all)) ?c
        ((w_broker p)\<lparr>m_contexts := (m_contexts (w_broker p))(?c \<mapsto> (CTMqttClientContext None)\<lparr>ctx_client_id := ctx_client_id x\<rparr>), w_next_ctx := Suc ?c\<rparr>))"]
    by (auto simp: old_session_def Let_def min_def)
qed

subsection \<open>The chunks as items\<close>

datatype old_item =
    Old_info u64
  | Old_msg cmbuf
  | Old_client ctmqtt_client_context
  | Old_retain cstring cmbuf

fun old_type :: "old_item \<Rightarrow> u8" where
  "old_type (Old_info i) = 1"
| "old_type (Old_msg b) = 2"
| "old_type (Old_client x) = 3"
| "old_type (Old_retain t b) = 4"

fun old_body :: "old_item \<Rightarrow> bytes" where
  "old_body (Old_info i) = le_bytes 8 (unat i)"
| "old_body (Old_msg b) = msg_body (m_mbuf_msg_id b, b)"
| "old_body (Old_client x) = client_body x"
| "old_body (Old_retain t b) = retain_body (t, b)"

fun old_valid :: "old_item \<Rightarrow> persist_world \<Rightarrow> bool" where
  "old_valid (Old_info i) p = True"
| "old_valid (Old_msg b) p = (mbuf_wf b \<and> m_mbuf_msg_id b \<noteq> 0 \<and> map_of (m_tmp_msg_db p) (m_mbuf_msg_id b) = None)"
| "old_valid (Old_client x) p = (names_short x \<and> length (ctx_subcribe_topics x) \<le> 1)"
| "old_valid (Old_retain t b) p = (mbuf_wf b \<and> mbuf_contents b \<noteq> [])"

definition old_ok :: "old_item \<Rightarrow> persist_world \<Rightarrow> bool" where
  "old_ok it p \<longleftrightarrow> old_valid it p \<and> length (old_body it) \<le> 1048576"

definition apply_last_id :: "u64 \<Rightarrow> persist_world \<Rightarrow> persist_world" where
  "apply_last_id i p =
     (let w = w_broker p in p\<lparr>w_broker := w\<lparr>m_mem := (m_mem w)\<lparr>w_store := set_last_msg_id i (w_store (m_mem w))\<rparr>\<rparr>\<rparr>)"

fun apply_old :: "old_item \<Rightarrow> persist_world \<Rightarrow> persist_world" where
  "apply_old (Old_info i) p = apply_last_id i p"
| "apply_old (Old_msg b) p = apply_msg b p"
| "apply_old (Old_client x) p =
     p\<lparr>w_broker := old_session (map_of (m_tmp_msg_db p)) (ctx_client_id x) (ctx_subcribe_topics x) (ctx_send_msg_ids x) (w_broker p)\<rparr>"
| "apply_old (Old_retain t b) p = p\<lparr>w_broker := apply_retain t b (w_broker p)\<rparr>"

lemma cp_make_mbuf_restored:
  assumes "mbuf_wf b"
  shows "cp_make_mbuf (mbuf_contents b @ rest) (of_nat (length (mbuf_contents b))) (m_mbuf_msg_id b) w =
    Some (w_next_addr w, add_buf (restored_mbuf (w_now w) b) w)"
proof -
  have n: "length (mbuf_contents b) < 2147483648" using wf_contents_less [OF assms] .
  then have "mbuf_copy (mbuf_contents b @ rest) (int (length (mbuf_contents b))) (CMbuf (replicate (length (mbuf_contents b)) (w_junk w)) (of_int (w_now w))) =
      Some (0, (restored_mbuf (w_now w) b)\<lparr>m_mbuf_msg_id := 0\<rparr>)"
    by (simp add: mbuf_copy_def CMbuf_def mem_read_def mem_copy_def restored_mbuf_def)
  then show ?thesis
    using n by (simp add: cp_make_mbuf_def make_mbuf_def mbuf_call_def heap_def upd_mbuf_def add_buf_def Let_def to_int_small set_msg_id_def)
      (simp add: restored_mbuf_def)
qed

lemma restore_old_msg:
  assumes "old_ok (Old_msg b) p"
  shows "cp_restore_db_msg (old_body (Old_msg b) @ old) (length (old_body (Old_msg b))) p = Some (0, apply_msg b p)"
proof -
  have b: "mbuf_wf b" "map_of (m_tmp_msg_db p) (m_mbuf_msg_id b) = None" "m_mbuf_msg_id b \<noteq> 0" using assms by (simp_all add: old_ok_def)
  show ?thesis
    using b wf_contents_less [OF b(1)] cp_make_mbuf_restored [OF b(1), of old "w_broker p"]
    by (simp add: cp_restore_db_msg_def msg_body_def str_bytes_def add_buf_def heap_def restored_mbuf_def apply_msg_def regist_mem_store_def
        tmp_put_def Let_def)
qed

lemma restore_old_retain:
  assumes "old_ok (Old_retain t b) p"
  shows "cp_restore_retain_msg (old_body (Old_retain t b) @ old) (length (old_body (Old_retain t b))) p = Some (0, p\<lparr>w_broker := apply_retain t b (w_broker p)\<rparr>)"
proof -
  let ?n = "length (mbuf_contents b)"
  have b: "mbuf_wf b" "0 < ?n" "length t + ?n + 16 \<le> 1048576" using assms by (simp_all add: old_ok_def)
  have nz: "(of_nat ?n :: u32) \<noteq> 0"
  proof
    assume "(of_nat ?n :: u32) = 0"
    then have "unat (of_nat ?n :: u32) = 0" by simp
    then show False using b by simp
  qed
  show ?thesis
    using b nz cp_make_mbuf_restored [OF b(1), of old "w_broker p"]
    by (simp add: cp_restore_retain_msg_def retain_body_def msg_body_def str_bytes_def apply_retain_def Let_def split: option.split)
qed

lemma restore_old_chunk:
  assumes "old_ok it p"
  shows "cp_restore_chunk (old_type it) (length (old_body it)) (old_body it @ old) p = Some (0, apply_old it p)"
proof (cases it)
  case (Old_info i)
  then show ?thesis by (simp add: cp_restore_chunk_def cp_restore_db_info_def apply_last_id_def Let_def)
next
  case (Old_msg b)
  then show ?thesis using assms restore_old_msg by (simp add: cp_restore_chunk_def)
next
  case (Old_client x)
  then show ?thesis using assms client_whole [of x] by (simp add: cp_restore_chunk_def old_ok_def)
next
  case (Old_retain t b)
  then show ?thesis using assms restore_old_retain by (simp add: cp_restore_chunk_def)
qed

interpretation plain: chunk_reader cp_restore_chunk old_type old_body old_ok apply_old
proof
  show "old_ok it p \<Longrightarrow> cp_restore_chunk (old_type it) (length (old_body it)) (old_body it @ old) p = Some (0, apply_old it p)" for it p old
    by (rule restore_old_chunk)
  show "old_ok it p \<Longrightarrow> length (old_body it) \<le> 1048576" for it p by (simp add: old_ok_def)
  show "old_ok it p \<Longrightarrow> old_ok it (p\<lparr>w_chunk_buf := buf\<rparr>)" for it p buf by (cases it) (simp_all add: old_ok_def)
  show "apply_old it (p\<lparr>w_chunk_buf := buf\<rparr>) = (apply_old it p)\<lparr>w_chunk_buf := buf\<rparr>" for it p buf
    by (cases it) (simp_all add: apply_last_id_def apply_msg_def Let_def)
qed

subsection \<open>A whole file\<close>

definition old_chunks :: "old_item list \<Rightarrow> bytes" where
  "old_chunks its = concat (map (\<lambda>it. chunk (old_type it) (old_body it)) its)"

definition old_retained :: "broker \<Rightarrow> (cstring \<times> cmbuf) list" where
  "old_retained w = the (retained_bufs (heap w) (m_topic_mgr w))"

definition old_image :: "u64 list \<Rightarrow> broker \<Rightarrow> bytes" where
  "old_image ord w = old_chunks (Old_info (m_last_msg_id (w_store (m_mem w))) # map Old_msg (saved_msgs ord w)) @
     clients_image 0 (session_contexts w) @ old_chunks (map (\<lambda>(t, b). Old_retain t b) (old_retained w))"

text \<open>A broker whose state can be stored: pointers are live, buffers are well-formed and no longer than can
  be read back, and the numbers of 32 bits can say how long the strings and lists are.\<close>

definition old_storable :: "u64 list \<Rightarrow> broker \<Rightarrow> bool" where
  "old_storable ord w \<longleftrightarrow>
     list_all (\<lambda>a. case heap w a of None \<Rightarrow> False | Some b \<Rightarrow> mbuf_wf b) (List.map_filter (m_msg_db (w_store (m_mem w))) ord) \<and>
     list_all (\<lambda>b. length (old_body (Old_msg b)) \<le> 1048576) (saved_msgs ord w) \<and>
     list_all (old_client_ok w) (m_client_msg w) \<and> list_all (\<lambda>x. length (client_body x) \<le> 1048576) (session_contexts w) \<and>
     retained_bufs (heap w) (m_topic_mgr w) \<noteq> None \<and> list_all (mbuf_wf \<circ> snd) (old_retained w) \<and>
     list_all (\<lambda>tb. length (retain_body tb) \<le> 1048576) (old_retained w)"

lemma old_chunks_simps [simp]:
  "old_chunks [] = []" "old_chunks (it # its) = chunk (old_type it) (old_body it) @ old_chunks its" "old_chunks (xs @ ys) = old_chunks xs @ old_chunks ys"
  by (simp_all add: old_chunks_def)

text \<open>The messages are stored under their own ids.\<close>

lemma stored_msgs_chunks:
  assumes "store_inv (m_mem w)"
  shows "concat (map (\<lambda>(i, a). chunk 2 (msg_body (i, the (heap w a)))) (List.map_filter (\<lambda>i. map_option (Pair i) (m_msg_db (w_store (m_mem w)) i)) ord)) =
    old_chunks (map Old_msg (saved_msgs ord w))"
proof (induction ord)
  case (Cons i ord)
  let ?db = "m_msg_db (w_store (m_mem w))"
  show ?case
  proof (cases "?db i")
    case (Some a)
    then have "m_mbuf_msg_id (the (heap w a)) = i"
      using assms store_ok_live [of "heap w" ?db _ i a] by (fastforce simp: store_inv_def heap_def)
    then show ?thesis using Cons Some by (simp add: saved_msgs_def)
  qed (use Cons in \<open>simp add: saved_msgs_def\<close>)
qed (simp add: saved_msgs_def)

lemma cp_store_writes:
  assumes "old_storable ord (w_broker p)" "store_inv (m_mem (w_broker p))" "w_fopen_ok p" "length (old_image ord (w_broker p)) \<le> w_room p"
  shows "\<exists>p1. cp_store ord True p = Some (0, p1) \<and> w_files p1 (m_file_name p) = Some (old_image ord (w_broker p))"
proof -
  let ?w = "w_broker p" let ?i = "m_last_msg_id (w_store (m_mem ?w))"
  let ?p = "p\<lparr>m_db_file := Some 0, w_files := (w_files p)(m_file_name p \<mapsto> [])\<rparr>"
  let ?a = "chunk 1 (le_bytes 8 (unat ?i))" let ?b = "old_chunks (map Old_msg (saved_msgs ord ?w))"
  let ?c = "clients_image 0 (session_contexts ?w)" let ?d = "old_chunks (map (\<lambda>(t, b). Old_retain t b) (old_retained ?w))"
  have img: "old_image ord ?w = ?a @ ?b @ ?c @ ?d" by (simp add: old_image_def)
  have e: "at_end ?p" "file_of ?p = []" by (simp_all add: at_end_def file_of_def)
  have room: "length ?a + (length ?b + (length ?c + length ?d)) \<le> w_room p" using assms(4) unfolding img by simp
  have a: "cp_store_db_info ?p = Some (0, appended ?a ?p)"
    using e room by (simp add: cp_store_db_info_def chunk_header Let_def)
  have b: "cp_store_db_msg ord q = Some (0, appended ?b q)" if "at_end q" "w_broker q = ?w" "length (file_of q) + length ?b \<le> w_room q" for q
  proof -
    let ?ias = "List.map_filter (\<lambda>i. map_option (Pair i) (m_msg_db (w_store (m_mem ?w)) i)) ord"
    have "\<forall>(i, a) \<in> set ?ias. \<exists>b. heap ?w a = Some b \<and> mbuf_wf b"
      using assms(1) by (fastforce simp: old_storable_def list_all_iff List.map_filter_def split: option.splits)
    then show ?thesis
      using that msgs_append [of q ?ias] by (simp add: cp_store_db_msg_def stored_msgs_chunks [OF assms(2)])
  qed
  have c: "cp_store_client_info q = Some (0, appended ?c q)" if "at_end q" "w_broker q = ?w" "length (file_of q) + length ?c \<le> w_room q" for q
    using that assms(1) clients_append [of q "m_client_msg ?w" 0]
    by (simp add: cp_store_client_info_def old_storable_def old_clients_def session_contexts_def)
  have d: "cp_store_retain_msg q = Some (0, appended ?d q)" if "at_end q" "w_broker q = ?w" "length (file_of q) + length ?d \<le> w_room q" for q
  proof -
    have eq: "?d = concat (map (\<lambda>tb. chunk 4 (retain_body tb)) (old_retained ?w))"
      by (simp add: old_chunks_def o_def split_def)
    have "list_all (\<lambda>tb. length (retain_body tb) < 2 ^ 32) (old_retained ?w)"
      using assms(1) by (auto simp: old_storable_def list_all_iff)
    moreover have "retained_bufs (heap ?w) (m_topic_mgr ?w) = Some (old_retained ?w)" "list_all (mbuf_wf \<circ> snd) (old_retained ?w)"
      using assms(1) by (auto simp: old_storable_def old_retained_def)
    ultimately show ?thesis
      using that retains_append [of q "m_topic_mgr ?w" "old_retained ?w"] by (simp add: cp_store_retain_msg_def eq)
  qed
  have "cp_store ord True p = Some (0, persist_close (appended (?a @ ?b @ ?c @ ?d) ?p))"
    using assms(3) room e(2) by (simp add: cp_store_def open_wb_def a b c d)
  then show ?thesis unfolding img using room e(2) by (auto simp: persist_close_def)
qed

subsection \<open>A session after the restart\<close>

lemma old_session_step:
  assumes "map_of (m_client_msg w) i = None"
  defines "c \<equiv> w_next_ctx w"
  shows "m_mem (old_session tmp i ts is w) = m_mem w" "w_next_addr (old_session tmp i ts is w) = w_next_addr w" "w_now (old_session tmp i ts is w) = w_now w"
    and "m_client_msg (old_session tmp i ts is w) = m_client_msg w @ [(i, c)]"
    and "m_contexts (old_session tmp i ts is w) = (m_contexts w)(c \<mapsto> (CTMqttClientContext None)\<lparr>ctx_client_id := i,
      ctx_subcribe_topics := add_topics ts [], ctx_send_msg_queue := List.map_filter tmp is\<rparr>)"
    and "t \<in> set ts \<Longrightarrow> subscribed (old_session tmp i ts is w) (m_topic_name t) c"
proof -
  let ?ts = "map m_topic_name ts"
  let ?w1 = "w\<lparr>m_contexts := (m_contexts w)(c \<mapsto> (CTMqttClientContext None)\<lparr>ctx_client_id := i\<rparr>), w_next_ctx := Suc c\<rparr>"
  obtain tm where tm: "subscribe_all ?ts c ?w1 = ?w1\<lparr>m_topic_mgr := tm\<rparr>" using subscribe_all_keeps by blast
  have sub: "subscribed (?w1\<lparr>m_topic_mgr := tm\<rparr>) (m_topic_name t) c" if "t \<in> set ts"
    using subscribe_all_enters [of "m_topic_name t" ?ts c ?w1] that by (simp add: tm)
  have s: "old_session tmp i ts is w = snd (add_client_id i c (upd_ctx c (\<lambda>x. x\<lparr>ctx_send_msg_queue := ctx_send_msg_queue x @ List.map_filter tmp is\<rparr>)
      (upd_ctx c (add_subcribe_topics ts) (?w1\<lparr>m_topic_mgr := tm\<rparr>))))"
    using tm by (simp add: old_session_def restore_queue_eq Let_def c_def)
  show "m_mem (old_session tmp i ts is w) = m_mem w" "w_next_addr (old_session tmp i ts is w) = w_next_addr w" "w_now (old_session tmp i ts is w) = w_now w"
    "m_client_msg (old_session tmp i ts is w) = m_client_msg w @ [(i, c)]"
    "m_contexts (old_session tmp i ts is w) = (m_contexts w)(c \<mapsto> (CTMqttClientContext None)\<lparr>ctx_client_id := i,
      ctx_subcribe_topics := add_topics ts [], ctx_send_msg_queue := List.map_filter tmp is\<rparr>)"
    using assms(1) by (simp_all add: s add_client_id_def upd_ctx_def add_subcribe_topics_def CTMqttClientContext_def)
  show "subscribed (old_session tmp i ts is w) (m_topic_name t) c" if "t \<in> set ts"
    using sub [OF that] assms(1) by (simp add: s add_client_id_def upd_ctx_def subscribed_def)
qed

text \<open>
  A session in this format: its name, its topics, and the messages of its list of ids as far as they are
  registered. The list is the one that \<open>prepare_store\<close> made last; this class does not bring it up to date.
\<close>

definition old_session_kept :: "broker \<Rightarrow> ctmqtt_client_context \<Rightarrow> broker \<Rightarrow> bool" where
  "old_session_kept w x w' \<longleftrightarrow>
     (\<exists>c y. map_of (m_client_msg w') (ctx_client_id x) = Some c \<and> m_contexts w' c = Some y \<and> ctx_client_id y = ctx_client_id x \<and>
        ctx_mqtt_connection y = None \<and> ctx_subcribe_topics y = ctx_subcribe_topics x \<and>
        map (contents w') (ctx_send_msg_queue y) = map (contents w) (List.map_filter (m_msg_db (w_store (m_mem w))) (ctx_send_msg_ids x)) \<and>
        (\<forall>t \<in> set (ctx_subcribe_topics x). subscribed w' (m_topic_name t) c))"

lemma old_all_ok_msgs:
  assumes "tmp_inv p" "\<forall>b \<in> set bs. mbuf_wf b \<and> m_mbuf_msg_id b \<noteq> 0 \<and> length (old_body (Old_msg b)) \<le> 1048576"
    and "distinct (map m_mbuf_msg_id bs)" "\<forall>b \<in> set bs. map_of (m_tmp_msg_db p) (m_mbuf_msg_id b) = None"
  shows "plain.all_ok (map Old_msg bs) p"
  using assms
proof (induction bs arbitrary: p)
  case (Cons b bs)
  have b: "mbuf_wf b" "m_mbuf_msg_id b \<noteq> 0" "map_of (m_tmp_msg_db p) (m_mbuf_msg_id b) = None" "old_ok (Old_msg b) p"
    using Cons.prems by (auto simp: old_ok_def)
  have "\<forall>d \<in> set bs. map_of (m_tmp_msg_db (apply_msg b p)) (m_mbuf_msg_id d) = None"
    using Cons.prems(3,4) by (auto simp: apply_msg_step [OF b(1-3)] map_add_def rev_image_eqI split: option.splits)
  then show ?case
    using Cons.IH [of "apply_msg b p"] Cons.prems apply_msg_inv [OF Cons.prems(1) b(1-3)] b(4) by auto
qed simp

lemma fold_old_msgs: "fold apply_old (map Old_msg bs) p = fold apply_msg bs p"
  by (induction bs arbitrary: p) simp_all

lemma fold_old_retains: "fold apply_old (map (\<lambda>(t, b). Old_retain t b) tbs) p = p\<lparr>w_broker := fold (\<lambda>(t, b). apply_retain t b) tbs (w_broker p)\<rparr>"
  by (induction tbs arbitrary: p) auto

lemma old_all_ok_retains:
  "\<forall>(t, b) \<in> set tbs. mbuf_wf b \<and> mbuf_contents b \<noteq> [] \<and> length (retain_body (t, b)) \<le> 1048576 \<Longrightarrow>
     plain.all_ok (map (\<lambda>(t, b). Old_retain t b) tbs) p"
  by (induction tbs arbitrary: p) (auto simp: old_ok_def)

text \<open>The beginning of the file: the last id and the messages.\<close>

definition old_head :: "u64 list \<Rightarrow> broker \<Rightarrow> old_item list" where
  "old_head ord w = Old_info (m_last_msg_id (w_store (m_mem w))) # map Old_msg (saved_msgs ord w)"

lemma old_head_read:
  assumes "old_storable ord w" "store_inv (m_mem w)" "distinct ord" "no_clients (w_broker p)" "m_tmp_msg_db p = []"
  defines "q \<equiv> fold apply_old (old_head ord w) p"
  shows "plain.all_ok (old_head ord w) p" "tmp_inv q" "\<forall>b \<in> set (saved_msgs ord w). msg_restored b q" "m_client_msg (w_broker q) = []"
    and "m_last_msg_id (mem_store q) = m_last_msg_id (w_store (m_mem w))" "map fst (m_tmp_msg_db q) = map m_mbuf_msg_id (saved_msgs ord w)"
proof -
  let ?p = "apply_last_id (m_last_msg_id (w_store (m_mem w))) p" let ?bs = "saved_msgs ord w"
  have q: "q = fold apply_msg ?bs ?p" by (simp add: q_def old_head_def fold_old_msgs)
  have p: "tmp_inv ?p" "m_tmp_msg_db ?p = []" "m_client_msg (w_broker ?p) = []" "m_last_msg_id (mem_store ?p) = m_last_msg_id (w_store (m_mem w))"
    using assms(4,5) by (simp_all add: apply_last_id_def Let_def tmp_inv_def no_clients_def set_last_msg_id_def)
  have wf: "\<forall>b \<in> set ?bs. mbuf_wf b \<and> m_mbuf_msg_id b \<noteq> 0 \<and> length (old_body (Old_msg b)) \<le> 1048576"
  proof
    fix b assume b: "b \<in> set ?bs"
    then have "mbuf_wf b" using assms(1) by (fastforce simp: old_storable_def list_all_iff saved_msgs_def split: option.splits)
    then show "mbuf_wf b \<and> m_mbuf_msg_id b \<noteq> 0 \<and> length (old_body (Old_msg b)) \<le> 1048576"
      using b assms(1) saved_msgs_ids(2) [OF assms(2,3)] by (simp add: old_storable_def list_all_iff)
  qed
  note f = msgs_fold [OF p(1), of ?bs] saved_msgs_ids(1) [OF assms(2,3)]
  show "plain.all_ok (old_head ord w) p"
    using old_all_ok_msgs [OF p(1) wf] f(2) p(2) by (simp add: old_head_def old_ok_def)
  show "tmp_inv q" "\<forall>b \<in> set ?bs. msg_restored b q" "m_client_msg (w_broker q) = []"
    "m_last_msg_id (mem_store q) = m_last_msg_id (w_store (m_mem w))" "map fst (m_tmp_msg_db q) = map m_mbuf_msg_id ?bs"
    using f wf p by (simp_all add: q Let_def same_sessions_def)
qed

text \<open>The messages of a list of ids, in the table and in the broker that stored them.\<close>

lemma old_queue:
  assumes "store_inv (m_mem w)" "distinct ord" "\<forall>b \<in> set (saved_msgs ord w). msg_restored b q"
    and "map fst (m_tmp_msg_db q) = map m_mbuf_msg_id (saved_msgs ord w)" "set is \<subseteq> set ord"
  shows "map (contents (w_broker q)) (List.map_filter (map_of (m_tmp_msg_db q)) is) = map (contents w) (List.map_filter (m_msg_db (w_store (m_mem w))) is)"
  using assms(5)
proof (induction "is")
  case (Cons i "is")
  let ?db = "m_msg_db (w_store (m_mem w))" let ?tmp = "map_of (m_tmp_msg_db q)"
  have ok: "store_ok (heap w) ?db (m_last_msg_id (w_store (m_mem w)))" using assms(1) by (simp add: store_inv_def heap_def)
  show ?case
  proof (cases "?db i")
    case None
    have "i \<noteq> m_mbuf_msg_id b" if b: "b \<in> set (saved_msgs ord w)" for b
    proof -
      obtain j a where "?db j = Some a" "b = the (heap w a)" using b by (auto simp: saved_msgs_def List.map_filter_def)
      then show ?thesis using store_ok_live [OF ok, of j a] None by auto
    qed
    then have "?tmp i = None" unfolding map_of_eq_None_iff by (metis (no_types, opaque_lifting) assms(4) imageE list.set_map)
    then show ?thesis using None Cons by simp
  next
    case (Some a)
    obtain b where b: "heap w a = Some b" "registered b" "m_mbuf_msg_id b = i" using store_ok_live [OF ok Some] by blast
    then have "b \<in> set (saved_msgs ord w)" using saved_msgs_ids(3) [OF assms(1,2) b(1,2)] Cons.prems by simp
    then obtain a' b' where "?tmp i = Some a'" "heap (w_broker q) a' = Some b'" "mbuf_contents b' = mbuf_contents b"
      using assms(3) b(3) by (auto simp: msg_restored_def)
    then show ?thesis using Some Cons b(1) by (simp add: contents_def)
  qed
qed simp

lemma short_clients:
  assumes "old_storable ord w" "x \<in> set (session_contexts w)"
  shows "names_short x" "length (client_body x) \<le> 1048576"
proof -
  obtain ic where ic: "ic \<in> set (m_client_msg w)" "x = the (m_contexts w (snd ic))" using assms(2) by (auto simp: session_contexts_def)
  then have "old_client_ok w ic" using assms(1) by (simp add: old_storable_def list_all_iff)
  then show "names_short x" using ic(2) by (auto simp: old_client_ok_def split: option.splits)
  show "length (client_body x) \<le> 1048576" using assms by (simp add: old_storable_def list_all_iff)
qed

lemma old_retained_ok:
  assumes "old_storable ord w" "(t, b) \<in> set (old_retained w)"
  shows "mbuf_wf b" "mbuf_contents b \<noteq> []" "length (retain_body (t, b)) \<le> 1048576"
proof -
  obtain tbs where tbs: "retained_bufs (heap w) (m_topic_mgr w) = Some tbs" "old_retained w = tbs"
    using assms(1) by (auto simp: old_storable_def old_retained_def)
  have nz: "retained_bufs h tm = Some tbs \<Longrightarrow> (t, b) \<in> set tbs \<Longrightarrow> mbuf_length b \<noteq> 0" for h tm tbs
    by (induction tm arbitrary: tbs) (force split: option.splits bind_splits if_splits)+
  show wf: "mbuf_wf b" "length (retain_body (t, b)) \<le> 1048576" using assms by (auto simp: old_storable_def list_all_iff)
  show "mbuf_contents b \<noteq> []"
    using nz [OF tbs(1)] assms(2) mbuf_length_of [OF wf(1)] by (auto simp: tbs(2))
qed

lemma old_image_one:
  assumes "old_storable ord w" "length (session_contexts w) \<le> 1"
  shows "old_image ord w = old_chunks (old_head ord w @ map Old_client (session_contexts w) @ map (\<lambda>(t, b). Old_retain t b) (old_retained w))"
proof (cases "session_contexts w")
  case (Cons x xs)
  then have "length (client_body x) < 2 ^ 32" using short_clients(2) [OF assms(1), of x] by simp
  then show ?thesis using Cons assms(2) by (simp add: old_image_def old_head_def chunk_header Let_def)
qed (simp add: old_image_def old_head_def)

text \<open>The session stays as it is when the table is cleared: its messages have an owner.\<close>

lemma old_session_keptI:
  assumes c: "map_of (m_client_msg w3) (ctx_client_id x) = Some c" "m_contexts w3 c = Some ((CTMqttClientContext None)\<lparr>ctx_client_id := ctx_client_id x,
      ctx_subcribe_topics := ctx_subcribe_topics x, ctx_send_msg_queue := as\<rparr>)"
    and subs: "\<forall>t \<in> set (ctx_subcribe_topics x). subscribed w3 (m_topic_name t) c"
    and queue: "map (contents w3) as = map (contents w) (List.map_filter (m_msg_db (w_store (m_mem w))) (ctx_send_msg_ids x))"
    and mem: "\<And>a. buf_owned a w3 \<Longrightarrow> w_heap mem a = heap w3 a"
  shows "old_session_kept w x (w3\<lparr>m_mem := mem\<rparr>)"
proof -
  have lc: "c \<in> set (live_contexts w3)" using map_of_SomeD [OF c(1)] by (auto simp: live_contexts_def intro: rev_image_eqI)
  have "buf_owned a w3" if "a \<in> set as" for a
    unfolding buf_owned_def using that c(2) by (intro disjI1 bexI [OF _ lc]) simp
  then have "map (contents (w3\<lparr>m_mem := mem\<rparr>)) as = map (contents w3) as"
    using mem by (auto simp: contents_def heap_def)
  then show ?thesis
    using c subs queue unfolding old_session_kept_def by (intro exI [of _ c] exI) (auto simp: subscribed_def CTMqttClientContext_def)
qed

text \<open>The middle of the file: at most one session.\<close>

lemma old_client_read:
  assumes "names_short x" "length (client_body x) \<le> 1048576" "length (ctx_subcribe_topics x) \<le> 1" "m_client_msg (w_broker q) = []" "tmp_inv q"
  defines "r \<equiv> apply_old (Old_client x) q" and "c \<equiv> w_next_ctx (w_broker q)"
  shows "old_ok (Old_client x) q" "m_client_msg (w_broker r) = [(ctx_client_id x, c)]" "m_mem (w_broker r) = m_mem (w_broker q)"
    and "w_next_addr (w_broker r) = w_next_addr (w_broker q)" "m_tmp_msg_db r = m_tmp_msg_db q"
    and "m_contexts (w_broker r) c = Some ((CTMqttClientContext None)\<lparr>ctx_client_id := ctx_client_id x, ctx_subcribe_topics := ctx_subcribe_topics x,
      ctx_send_msg_queue := List.map_filter (map_of (m_tmp_msg_db q)) (ctx_send_msg_ids x)\<rparr>)"
    and "\<forall>t \<in> set (ctx_subcribe_topics x). subscribed (w_broker r) (m_topic_name t) c"
    and "\<forall>a \<in> set (List.map_filter (map_of (m_tmp_msg_db q)) (ctx_send_msg_ids x)). a < w_next_addr (w_broker q)"
proof -
  have t: "add_topics (ctx_subcribe_topics x) [] = ctx_subcribe_topics x" using assms(3) by (cases "ctx_subcribe_topics x") auto
  have n: "map_of (m_client_msg (w_broker q)) (ctx_client_id x) = None" using assms(4) by simp
  note step = old_session_step [OF n]
  show "old_ok (Old_client x) q" "m_tmp_msg_db r = m_tmp_msg_db q" using assms(1-3) by (simp_all add: old_ok_def r_def)
  show "m_client_msg (w_broker r) = [(ctx_client_id x, c)]" "m_mem (w_broker r) = m_mem (w_broker q)"
    "w_next_addr (w_broker r) = w_next_addr (w_broker q)"
    "m_contexts (w_broker r) c = Some ((CTMqttClientContext None)\<lparr>ctx_client_id := ctx_client_id x, ctx_subcribe_topics := ctx_subcribe_topics x,
      ctx_send_msg_queue := List.map_filter (map_of (m_tmp_msg_db q)) (ctx_send_msg_ids x)\<rparr>)"
    using assms(4) by (simp_all add: r_def c_def step t)
  show "\<forall>t \<in> set (ctx_subcribe_topics x). subscribed (w_broker r) (m_topic_name t) c"
    unfolding r_def c_def by (auto intro: step(6))
  show "\<forall>a \<in> set (List.map_filter (map_of (m_tmp_msg_db q)) (ctx_send_msg_ids x)). a < w_next_addr (w_broker q)"
    using assms(5) by (auto simp: tmp_inv_def List.map_filter_def dest!: map_of_SomeD)
qed

lemma old_one_client:
  assumes "length xs \<le> 1" "\<forall>x \<in> set xs. names_short x \<and> length (client_body x) \<le> 1048576 \<and> length (ctx_subcribe_topics x) \<le> 1"
    and "m_client_msg (w_broker q) = []" "tmp_inv q"
  defines "r \<equiv> fold apply_old (map Old_client xs) q" and "c \<equiv> w_next_ctx (w_broker q)"
  shows "plain.all_ok (map Old_client xs) q" "m_mem (w_broker r) = m_mem (w_broker q)" "w_next_addr (w_broker r) = w_next_addr (w_broker q)"
    and "m_tmp_msg_db r = m_tmp_msg_db q" "m_client_msg (w_broker r) = map (\<lambda>x. (ctx_client_id x, c)) xs"
    and "\<forall>x \<in> set xs. m_contexts (w_broker r) c = Some ((CTMqttClientContext None)\<lparr>ctx_client_id := ctx_client_id x, ctx_subcribe_topics := ctx_subcribe_topics x,
      ctx_send_msg_queue := List.map_filter (map_of (m_tmp_msg_db q)) (ctx_send_msg_ids x)\<rparr>)"
    and "\<forall>x \<in> set xs. \<forall>t \<in> set (ctx_subcribe_topics x). subscribed (w_broker r) (m_topic_name t) c"
proof -
  consider "xs = []" | x where "xs = [x]" using assms(1) by (cases xs) auto
  then have "plain.all_ok (map Old_client xs) q \<and> m_mem (w_broker r) = m_mem (w_broker q) \<and> w_next_addr (w_broker r) = w_next_addr (w_broker q) \<and>
    m_tmp_msg_db r = m_tmp_msg_db q \<and> m_client_msg (w_broker r) = map (\<lambda>x. (ctx_client_id x, c)) xs \<and>
    (\<forall>x \<in> set xs. m_contexts (w_broker r) c = Some ((CTMqttClientContext None)\<lparr>ctx_client_id := ctx_client_id x, ctx_subcribe_topics := ctx_subcribe_topics x,
      ctx_send_msg_queue := List.map_filter (map_of (m_tmp_msg_db q)) (ctx_send_msg_ids x)\<rparr>)) \<and>
    (\<forall>x \<in> set xs. \<forall>t \<in> set (ctx_subcribe_topics x). subscribed (w_broker r) (m_topic_name t) c)"
  proof cases
    case 2
    then show ?thesis using assms(2,3,4) old_client_read [of x q] by (simp add: r_def c_def)
  qed (use assms(3) in \<open>simp add: r_def\<close>)
  then show "plain.all_ok (map Old_client xs) q" "m_mem (w_broker r) = m_mem (w_broker q)" "w_next_addr (w_broker r) = w_next_addr (w_broker q)"
    "m_tmp_msg_db r = m_tmp_msg_db q" "m_client_msg (w_broker r) = map (\<lambda>x. (ctx_client_id x, c)) xs"
    "\<forall>x \<in> set xs. m_contexts (w_broker r) c = Some ((CTMqttClientContext None)\<lparr>ctx_client_id := ctx_client_id x, ctx_subcribe_topics := ctx_subcribe_topics x,
      ctx_send_msg_queue := List.map_filter (map_of (m_tmp_msg_db q)) (ctx_send_msg_ids x)\<rparr>)"
    "\<forall>x \<in> set xs. \<forall>t \<in> set (ctx_subcribe_topics x). subscribed (w_broker r) (m_topic_name t) c"
    by blast+
qed

text \<open>All of it, before the table is cleared.\<close>

definition old_items :: "u64 list \<Rightarrow> broker \<Rightarrow> old_item list" where
  "old_items ord w = old_head ord w @ map Old_client (session_contexts w) @ map (\<lambda>(t, b). Old_retain t b) (old_retained w)"

definition one_session :: "u64 list \<Rightarrow> broker \<Rightarrow> bool" where
  "one_session ord w \<longleftrightarrow> length (session_contexts w) \<le> 1 \<and>
     list_all (\<lambda>x. length (ctx_subcribe_topics x) \<le> 1 \<and> set (ctx_send_msg_ids x) \<subseteq> set ord) (session_contexts w)"

definition old_back :: "broker \<Rightarrow> ctmqtt_client_context \<Rightarrow> broker \<Rightarrow> bool" where
  "old_back w x w3 \<longleftrightarrow>
     (\<exists>c as. map_of (m_client_msg w3) (ctx_client_id x) = Some c \<and> m_contexts w3 c = Some ((CTMqttClientContext None)\<lparr>ctx_client_id := ctx_client_id x,
        ctx_subcribe_topics := ctx_subcribe_topics x, ctx_send_msg_queue := as\<rparr>) \<and>
        map (contents w3) as = map (contents w) (List.map_filter (m_msg_db (w_store (m_mem w))) (ctx_send_msg_ids x)) \<and>
        (\<forall>t \<in> set (ctx_subcribe_topics x). subscribed w3 (m_topic_name t) c \<and>
           (\<forall>b. (m_topic_name t, b) \<in> set (old_retained w) \<longrightarrow> retained_as (m_topic_name t) b w3)))"

lemma old_items_read:
  assumes st: "old_storable ord w" and inv: "store_inv (m_mem w)" "distinct ord" "distinct (map fst (m_topic_mgr w))"
    and p: "no_clients (w_broker p)" "m_tmp_msg_db p = []" and one: "one_session ord w"
  defines "q \<equiv> fold apply_old (old_items ord w) p"
  shows "plain.all_ok (old_items ord w) p" "tmp_inv q" "m_last_msg_id (mem_store q) = m_last_msg_id (w_store (m_mem w))"
    and "fst ` set (m_client_msg (w_broker q)) = ctx_client_id ` set (session_contexts w)"
    and "\<forall>x \<in> set (session_contexts w). old_back w x (w_broker q)"
proof -
  let ?tbs = "old_retained w" let ?xs = "session_contexts w"
  define q1 where "q1 = fold apply_old (old_head ord w) p"
  define q2 where "q2 = fold apply_old (map Old_client ?xs) q1"
  let ?w1 = "w_broker q1" let ?w2 = "w_broker q2" let ?w3 = "w_broker q" let ?c = "w_next_ctx ?w1"
  have q: "q = q2\<lparr>w_broker := fold (\<lambda>(t, b). apply_retain t b) ?tbs ?w2\<rparr>" by (simp add: q_def q2_def q1_def old_items_def fold_old_retains)
  note Q1 = old_head_read [OF st inv(1,2) p, folded q1_def]
  have xs: "length ?xs \<le> 1" "\<forall>x \<in> set ?xs. names_short x \<and> length (client_body x) \<le> 1048576 \<and> length (ctx_subcribe_topics x) \<le> 1"
    "\<forall>x \<in> set ?xs. set (ctx_send_msg_ids x) \<subseteq> set ord"
    using one short_clients [OF st] by (auto simp: one_session_def list_all_iff)
  note Q2 = old_one_client [OF xs(1,2) Q1(4,2), folded q2_def]
  have tb: "\<forall>(t, b) \<in> set ?tbs. mbuf_wf b" "distinct (map fst ?tbs)"
    using old_retained_ok(1) [OF st] st retained_bufs_keys [OF _ inv(3)] by (auto simp: old_storable_def old_retained_def)
  have Q3: "same_sessions ?w2 ?w3" "subscribed ?w3 = subscribed ?w2" "w_store (m_mem ?w3) = w_store (m_mem ?w2)" "w_next_addr ?w2 \<le> w_next_addr ?w3"
    "\<forall>a < w_next_addr ?w2. heap ?w3 a = heap ?w2 a" "\<forall>(t, b) \<in> set ?tbs. map_of (m_topic_mgr ?w2) t \<noteq> None \<longrightarrow> retained_as t b ?w3"
    using retains_phase [OF tb, of ?w2] by (simp_all add: q Let_def)
  have hp: "heap ?w3 a = heap ?w1 a" if "a < w_next_addr ?w1" for a using Q3(5) that Q2(2,3) by (simp add: heap_def)
  have tmp: "m_tmp_msg_db q = m_tmp_msg_db q1" using Q2(4) by (simp add: q)
  show "tmp_inv q" using Q1(2) hp Q2(3) Q3(4) unfolding tmp_inv_def tmp by fastforce
  have "plain.all_ok (map (\<lambda>(t, b). Old_retain t b) ?tbs) q2"
    using old_retained_ok [OF st] by (intro old_all_ok_retains) auto
  then show "plain.all_ok (old_items ord w) p" using Q1(1) Q2(1) by (simp add: old_items_def plain.all_ok_append q1_def q2_def)
  show "m_last_msg_id (mem_store q) = m_last_msg_id (w_store (m_mem w))" using Q1(5) Q2(2) Q3(3) by simp
  show "fst ` set (m_client_msg ?w3) = ctx_client_id ` set ?xs" using Q2(5) Q3(1) by (simp add: same_sessions_def image_image)
  show "\<forall>x \<in> set ?xs. old_back w x ?w3"
  proof
    fix x assume x: "x \<in> set ?xs"
    let ?as = "List.map_filter (map_of (m_tmp_msg_db q1)) (ctx_send_msg_ids x)"
    have "\<forall>a \<in> set ?as. a < w_next_addr ?w1" using Q1(2) by (auto simp: tmp_inv_def List.map_filter_def dest!: map_of_SomeD)
    then have "map (contents ?w3) ?as = map (contents ?w1) ?as" using hp by (auto simp: contents_def)
    moreover have "?xs = [x]" using x xs(1) by (cases ?xs) auto
    moreover have "retained_as (m_topic_name t) b ?w3" if "t \<in> set (ctx_subcribe_topics x)" "(m_topic_name t, b) \<in> set ?tbs" for t b
      using Q3(6) Q2(7) x that by (fastforce simp: subscribed_def)
    ultimately show "old_back w x ?w3"
      using x xs(3) Q2(5-7) Q3(1,2) old_queue [OF inv(1,2) Q1(3,6), of "ctx_send_msg_ids x"]
      unfolding old_back_def by (intro exI [of _ ?c] exI [of _ ?as]) (simp add: same_sessions_def)
  qed
qed

lemma old_back_kept:
  assumes "old_back w x w3" "\<And>a. buf_owned a w3 \<Longrightarrow> w_heap mem a = heap w3 a"
  shows "old_session_kept w x (w3\<lparr>m_mem := mem\<rparr>)"
  using assms old_session_keptI unfolding old_back_def by metis

subsection \<open>What the format can hold\<close>

text \<open>
  C39. The former database keeps one session with one topic. A broker with at most one session that is not
  clean, and that has at most one topic, stores its state and ends; a new one restores it from the file: the
  session is there under its client id, off line, with its topic and registered for it, and with the
  registered messages of its list of ids in their order and with their contents; the topic has its retained
  message; there are no other clients and the message ids continue where they ended.
\<close>

theorem old_format_keeps_one_session:
  assumes "old_storable ord (w_broker p)" "sound_sessions ord (w_broker p)" "one_session ord (w_broker p)" "w_fopen_ok p"
    and "length (old_image ord (w_broker p)) \<le> w_room p" "no_clients w0"
  shows "\<exists>p1 p2. cp_store ord True p = Some (0, p1) \<and>
    cp_restore (CPersist (m_file_name p) (w_files p1) room idle w0) = Some (0, p2) \<and>
    (\<forall>x \<in> set (session_contexts (w_broker p)). old_session_kept (w_broker p) x (w_broker p2) \<and>
       (\<forall>t \<in> set (ctx_subcribe_topics x). retained_kept (w_broker p) (m_topic_name t) (w_broker p2))) \<and>
    fst ` set (m_client_msg (w_broker p2)) = ctx_client_id ` set (session_contexts (w_broker p)) \<and>
    m_last_msg_id (mem_store p2) = m_last_msg_id (mem_store p)"
proof -
  let ?w = "w_broker p"
  have inv: "store_inv (m_mem ?w)" "distinct ord" "distinct (map fst (m_topic_mgr ?w))" using assms(2) by (simp_all add: sound_sessions_def)
  obtain p1 where p1: "cp_store ord True p = Some (0, p1)" "w_files p1 (m_file_name p) = Some (old_image ord ?w)"
    using cp_store_writes [OF assms(1) inv(1) assms(4,5)] by blast
  let ?r = "CPersist (m_file_name p) (w_files p1) room idle w0" let ?open = "?r\<lparr>m_db_file := Some 0\<rparr>"
  define q where "q = fold apply_old (old_items ord ?w) ?open"
  have r: "no_clients (w_broker ?open)" "m_tmp_msg_db ?open = []" "w_fopen_ok ?r" "w_files ?r (m_file_name ?r) = Some (old_image ord ?w)"
    using assms(6) p1(2) by (simp_all add: CPersist_def)
  note Q = old_items_read [OF assms(1) inv r(1,2) assms(3), folded q_def]
  have img: "old_image ord ?w = concat (map plain.item_chunk (old_items ord ?w))"
    using old_image_one [OF assms(1)] assms(3) by (simp add: one_session_def old_items_def old_chunks_def plain.item_chunk_def [abs_def])
  obtain buf where loop: "restore_loop cp_restore_chunk (old_image ord ?w) 0 ?open = Some (0, q\<lparr>w_chunk_buf := buf\<rparr>)"
    using plain.reads_file [OF Q(1)] unfolding img q_def by blast
  have ne: "old_image ord ?w \<noteq> []" by (simp add: old_image_def chunk_def)
  obtain p2 mem where p2: "cp_restore ?r = Some (0, p2)" "w_broker p2 = (w_broker q)\<lparr>m_mem := mem\<rparr>"
    "m_last_msg_id (w_store mem) = m_last_msg_id (mem_store q)" "\<forall>a. buf_owned a (w_broker q) \<longrightarrow> w_heap mem a = heap (w_broker q) a"
    using restore_clears [OF r(4) ne r(3) loop] Q(2) unfolding cp_restore_def by (auto simp: tmp_inv_def)
  have tb: "retained_bufs (heap ?w) (m_topic_mgr ?w) = Some (old_retained ?w)"
    using assms(1) by (auto simp: old_storable_def old_retained_def)
  have "old_session_kept ?w x (w_broker p2)" if "x \<in> set (session_contexts ?w)" for x
    unfolding p2(2) by (rule old_back_kept) (use Q(5) that p2(4) in auto)
  moreover have "retained_kept ?w (m_topic_name t) (w_broker p2)" if "x \<in> set (session_contexts ?w)" "t \<in> set (ctx_subcribe_topics x)" for x t
    unfolding p2(2) by (intro retained_keptI [OF tb] retained_as_mem) (use Q(5) that p2(4) in \<open>auto simp: old_back_def\<close>)
  ultimately show ?thesis
    using p1(1) p2 Q(3,4) by (intro exI [of _ p1] exI [of _ p2]) simp
qed

lemma demo_old_storable:
  "old_storable [7] demo_broker" "one_session [7] demo_broker" "length (old_image [7] demo_broker) \<le> 10000"
proof -
  have s: "session_contexts demo_broker = [demo_context]" "saved_msgs [7] demo_broker = [demo_msg]" "old_retained demo_broker = [(cstr ''t'', demo_retained)]"
    by (simp_all add: session_contexts_def saved_msgs_def old_retained_def demo_parts) (simp add: demo_retained_def CMbuf_def mbuf_length_def)
  have x: "ctx_client_id demo_context = cstr ''c''" "ctx_subcribe_topics demo_context = [CTopic (cstr ''t'') 1]" "ctx_send_msg_ids demo_context = []"
    "ctx_clean_session demo_context = Some False"
    by (simp_all add: demo_context_def CTMqttClientContext_def)
  have c: "length (mbuf_contents demo_msg) = 3" "length (mbuf_contents demo_retained) = 2" "length (client_body demo_context) = 19"
    by (simp_all add: demo_msg_def demo_retained_def CMbuf_def mbuf_contents_def client_body_def x CTopic_def cstr_def)
  show "old_storable [7] demo_broker"
    using c by (simp add: old_storable_def s demo_parts old_client_ok_def x names_short_def CTopic_def cstr_def)
  show "one_session [7] demo_broker" by (simp add: one_session_def s x)
  show "length (old_image [7] demo_broker) \<le> 10000" using c by (simp add: old_image_def s Let_def cstr_def)
qed

theorem old_format_keeps_one_session_witness:
  "\<exists>p1 p2. cp_store [7] True demo_persist = Some (0, p1) \<and>
    cp_restore (CPersist (cstr ''db'') (w_files p1) (0, \<lambda>_. 0) 300 (demo_broker\<lparr>m_client_msg := [], m_topic_mgr := []\<rparr>)) = Some (0, p2) \<and>
    old_session_kept demo_broker demo_context (w_broker p2) \<and> retained_kept demo_broker (cstr ''t'') (w_broker p2)"
proof -
  have w: "w_broker demo_persist = demo_broker" "w_fopen_ok demo_persist" "w_room demo_persist = 10000" "m_file_name demo_persist = cstr ''db''"
    by (simp_all add: demo_persist_def CPersist_def)
  have "no_clients (demo_broker\<lparr>m_client_msg := [], m_topic_mgr := []\<rparr>)" by (simp add: no_clients_def)
  moreover have "session_contexts demo_broker = [demo_context]" by (simp add: session_contexts_def demo_parts)
  moreover have "map m_topic_name (ctx_subcribe_topics demo_context) = [cstr ''t'']" by (simp add: demo_context_def CTopic_def)
  ultimately show ?thesis
    using old_format_keeps_one_session [of "[7]" demo_persist "demo_broker\<lparr>m_client_msg := [], m_topic_mgr := []\<rparr>" "(0, \<lambda>_. 0)" 300] demo_storable(2) demo_old_storable
    by (auto simp: w)
qed

text \<open>A chunk whose header claims more bytes than follow ends the loop.\<close>

lemma restore_loop_short:
  assumes "length body < unat n"
  shows "\<exists>buf. restore_loop h (header ty n @ body) res p = Some (-1, p\<lparr>w_chunk_buf := buf\<rparr>)"
proof -
  have "le_val (le_bytes 4 (unat n)) = unat n" using unsigned_less [of n, where ?'a = nat] by (simp add: le_val_le_bytes)
  then show ?thesis
    using assms by (intro exI [of _ "if 1048576 < unat n then w_chunk_buf p else body @ drop (length body) (w_chunk_buf p)"])
      (simp add: header_def Let_def)
qed

text \<open>
  A second session is lost. The length in the header of a client's chunk includes the clients before it,
  since it is not reset. With two sessions that are not clean and no retained message, the file is
  stored without an error, but restoring it ends with -1, and only the first of the two sessions is there.
\<close>

theorem old_format_second_session_lost:
  assumes "old_storable ord (w_broker p)" "sound_sessions ord (w_broker p)" "w_fopen_ok p"
    and "session_contexts (w_broker p) = [x, y]" "length (ctx_subcribe_topics x) \<le> 1" "old_retained (w_broker p) = []"
    and "length (old_image ord (w_broker p)) \<le> w_room p" "no_clients w0"
  shows "\<exists>p1 p2. cp_store ord True p = Some (0, p1) \<and>
    cp_restore (CPersist (m_file_name p) (w_files p1) room idle w0) = Some (-1, p2) \<and>
    map fst (m_client_msg (w_broker p2)) = [ctx_client_id x]"
proof -
  let ?w = "w_broker p" let ?n = "of_nat (length (client_body x)) + of_nat (length (client_body y)) :: u32"
  have inv: "store_inv (m_mem ?w)" "distinct ord" using assms(2) by (simp_all add: sound_sessions_def)
  obtain p1 where p1: "cp_store ord True p = Some (0, p1)" "w_files p1 (m_file_name p) = Some (old_image ord ?w)"
    using cp_store_writes [OF assms(1) inv(1) assms(3,7)] by blast
  let ?r = "CPersist (m_file_name p) (w_files p1) room idle w0" let ?open = "?r\<lparr>m_db_file := Some 0\<rparr>"
  let ?its = "old_head ord ?w @ [Old_client x]"
  define q where "q = fold apply_old (old_head ord ?w) ?open"
  have r: "no_clients (w_broker ?open)" "m_tmp_msg_db ?open = []" "w_fopen_ok ?r" "w_files ?r (m_file_name ?r) = Some (old_image ord ?w)"
    using assms(8) p1(2) by (simp_all add: CPersist_def)
  note Q = old_head_read [OF assms(1) inv r(1,2), folded q_def]
  have sh: "names_short x" "length (client_body x) \<le> 1048576" "length (client_body y) \<le> 1048576"
    using short_clients [OF assms(1)] assms(4) by simp_all
  note C = old_client_read [OF sh(1,2) assms(5) Q(4,2)]
  have img: "old_image ord ?w = concat (map plain.item_chunk ?its) @ header 3 ?n @ client_body y"
    using assms(4,6) sh by (simp add: old_image_def old_head_def plain.item_chunk_def [abs_def] old_chunks_def chunk_header Let_def)
  have "unat ?n = length (client_body x) + length (client_body y)"
    using sh(2,3) by (simp flip: of_nat_add)
  then have "length (client_body y) < unat ?n" by (simp add: client_body_def)
  note short = restore_loop_short [OF this]
  have "plain.all_ok ?its ?open" using Q(1) C(1) by (simp add: plain.all_ok_append q_def)
  then obtain old where "restore_loop cp_restore_chunk (old_image ord ?w) 0 ?open =
      restore_loop cp_restore_chunk (header 3 ?n @ client_body y) 0 ((apply_old (Old_client x) q)\<lparr>w_chunk_buf := old\<rparr>)"
    using plain.reads_items [of ?its ?open "header 3 ?n @ client_body y" 0] unfolding img by (auto simp: q_def)
  then obtain buf where loop: "restore_loop cp_restore_chunk (old_image ord ?w) 0 ?open = Some (-1, (apply_old (Old_client x) q)\<lparr>w_chunk_buf := buf\<rparr>)"
    using short [of cp_restore_chunk 3 0 "(apply_old (Old_client x) q)\<lparr>w_chunk_buf := old\<rparr>"] by auto
  have tmp: "tmp_inv ((apply_old (Old_client x) q)\<lparr>w_chunk_buf := buf\<rparr>)"
    using Q(2) C(3,4,5) by (simp add: tmp_inv_def heap_def)
  have ne: "old_image ord ?w \<noteq> []" by (simp add: old_image_def chunk_def)
  show ?thesis
    using restore_clears [OF r(4) ne r(3) loop tmp] p1(1) C(2) unfolding cp_restore_def by fastforce
qed

definition demo_two :: broker where
  "demo_two = demo_broker\<lparr>m_contexts := [0 \<mapsto> demo_context, 1 \<mapsto> demo_context\<lparr>ctx_client_id := cstr ''d''\<rparr>],
     m_client_msg := [(cstr ''c'', 0), (cstr ''d'', 1)], m_topic_mgr := []\<rparr>"

theorem old_format_second_session_lost_witness:
  "\<exists>p1 p2. cp_store [7] True (demo_persist\<lparr>w_broker := demo_two\<rparr>) = Some (0, p1) \<and>
    cp_restore (CPersist (cstr ''db'') (w_files p1) (0, \<lambda>_. 0) 300 (demo_broker\<lparr>m_client_msg := [], m_topic_mgr := []\<rparr>)) = Some (-1, p2) \<and>
    map fst (m_client_msg (w_broker p2)) = [cstr ''c'']"
proof -
  let ?y = "demo_context\<lparr>ctx_client_id := cstr ''d''\<rparr>"
  have x: "ctx_client_id demo_context = cstr ''c''" "ctx_subcribe_topics demo_context = [CTopic (cstr ''t'') 1]" "ctx_send_msg_ids demo_context = []"
    "ctx_clean_session demo_context = Some False" "ctx_send_msg_queue demo_context = [1]" "times_ok demo_context"
    by (simp_all add: demo_context_def CTMqttClientContext_def times_ok_def)
  have h: "heap demo_two = heap demo_broker" "m_mem demo_two = m_mem demo_broker" "m_contexts demo_two = [0 \<mapsto> demo_context, 1 \<mapsto> ?y]"
    "m_client_msg demo_two = [(cstr ''c'', 0), (cstr ''d'', 1)]" "m_topic_mgr demo_two = []" by (simp_all add: demo_two_def heap_def)
  have s: "session_contexts demo_two = [demo_context, ?y]" "saved_msgs [7] demo_two = [demo_msg]" "old_retained demo_two = []"
    by (simp_all add: session_contexts_def saved_msgs_def old_retained_def h demo_parts persistent_def x)
  have c: "length (mbuf_contents demo_msg) = 3" "length (client_body demo_context) = 19" "length (client_body ?y) = 19"
    by (simp_all add: demo_msg_def CMbuf_def mbuf_contents_def client_body_def x CTopic_def cstr_def)
  have st: "old_storable [7] demo_two"
    using c by (simp add: old_storable_def s h demo_parts old_client_ok_def x names_short_def CTopic_def cstr_def)
  have "store_inv (m_mem demo_broker)" using demo_storable(2) by (simp add: sound_sessions_def demo_persist_def CPersist_def)
  then have so: "sound_sessions [7] demo_two"
    using x(6) by (simp add: sound_sessions_def h sound_client_def demo_parts x times_ok_def cstr_def)
  have sz: "length (old_image [7] demo_two) \<le> 10000" using c by (simp add: old_image_def s Let_def)
  have w: "w_fopen_ok demo_persist" "w_room demo_persist = 10000" "m_file_name demo_persist = cstr ''db''"
    by (simp_all add: demo_persist_def CPersist_def)
  show ?thesis
    using old_format_second_session_lost [of "[7]" "demo_persist\<lparr>w_broker := demo_two\<rparr>" demo_context ?y "demo_broker\<lparr>m_client_msg := [], m_topic_mgr := []\<rparr>" "(0, \<lambda>_. 0)" 300]
      st so s sz by (simp add: w x no_clients_def)
qed

text \<open>Of the topics of a session the first half is restored, and the number of messages is the length of the
  name of the topic behind it.\<close>

lemma old_format_half_the_topics:
  assumes "names_short x" "length (ctx_subcribe_topics x) = n" "1 < n" "n + 2 < 2 ^ 32" "map_of (m_client_msg (w_broker p)) (ctx_client_id x) = None"
    and "length (client_body x) + 8 * length (m_topic_name (ctx_subcribe_topics x ! ((n + 1) div 2))) \<le> length (client_body x @ old)"
  shows "\<exists>p' y. cp_restore_client_info (client_body x @ old) (length (client_body x)) p = Some (0, p') \<and>
    m_contexts (w_broker p') (w_next_ctx (w_broker p)) = Some y \<and>
    ctx_subcribe_topics y = add_topics (take ((n + 1) div 2) (ctx_subcribe_topics x)) []"
proof -
  obtain "is" where "cp_restore_client_info (client_body x @ old) (length (client_body x)) p =
      Some (0, p\<lparr>w_broker := old_session (map_of (m_tmp_msg_db p)) (ctx_client_id x) (take ((n + 1) div 2) (ctx_subcribe_topics x)) is (w_broker p)\<rparr>)"
    using client_half [OF assms(1-4,6)] by blast
  then show ?thesis by (simp add: old_session_step(5) [OF assms(5)])
qed

end
