(* ===== verification/Rw_Queue.thy ===== *)
theory Rw_Queue
  imports Mqtt_Prelude
begin

text \<open>
  The lock-free queue of the record threads (\<^verbatim>\<open>include/common/readerwriterqueue.h\<close>, class \<^verbatim>\<open>moodycamel::ReaderWriterQueue\<close>): one thread
  puts elements in, one takes them out. The queue is a ring of blocks, each a circular buffer of a power of two many slots.
  The producer owns the tails (\<^verbatim>\<open>tailBlock\<close>, and \<^verbatim>\<open>tail\<close>, \<^verbatim>\<open>localFront\<close>, \<^verbatim>\<open>next\<close> of a block), the consumer the fronts (\<^verbatim>\<open>frontBlock\<close>, and \<^verbatim>\<open>front\<close>,
  \<^verbatim>\<open>localTail\<close> of a block); each reads the other's.

  A call is a sequence of steps, each with at most one access to what both threads use: a variable the other thread
  writes is read, a variable the other thread reads is written, or the object in a slot is made or taken. The threads are
  interleaved between any two steps, and each step sees all the writes before it; the fences of the code are there to
  give it this. A block is a position in the list of all blocks made so far (none is ever freed before the queue is); a
  slot is \<^const>\<open>None\<close> when it holds no object. A failed assertion, a null pointer that is followed, or an object that is taken from
  a slot without one gives \<^const>\<open>None\<close>.
\<close>

subsection \<open>Blocks and the queue\<close>

record 'a block =
  b_front :: u64
  b_localTail :: u64
  b_tail :: u64
  b_localFront :: u64
  b_next :: "nat option"
  b_data :: "'a option list"
  b_sizeMask :: u64

text \<open>\<^verbatim>\<open>make_block\<close>, when there is memory, with the constructor of \<^verbatim>\<open>Block\<close>.\<close>

definition make_block :: "u64 \<Rightarrow> 'a block" where
  "make_block capacity =
     \<lparr>b_front = 0, b_localTail = 0, b_tail = 0, b_localFront = 0, b_next = None, b_data = replicate (unat capacity) None, b_sizeMask = capacity - 1\<rparr>"

record 'a rwq =
  rq_blocks :: "'a block list"
  rq_frontBlock :: nat
  rq_tailBlock :: nat
  rq_largestBlockSize :: u64
  rq_enqueuing :: bool
  rq_dequeuing :: bool

definition get_block :: "'a rwq \<Rightarrow> nat \<Rightarrow> 'a block option" where
  "get_block q p = (if p < length (rq_blocks q) then Some (rq_blocks q ! p) else None)"

definition upd_block :: "nat \<Rightarrow> ('a block \<Rightarrow> 'a block) \<Rightarrow> 'a rwq \<Rightarrow> 'a rwq" where
  "upd_block p f q = q\<lparr>rq_blocks := (rq_blocks q)[p := f (rq_blocks q ! p)]\<rparr>"

definition slot :: "'a block \<Rightarrow> u64 \<Rightarrow> 'a option" where
  "slot b i = (if unat i < length (b_data b) then b_data b ! unat i else None)"

definition put_slot :: "u64 \<Rightarrow> 'a option \<Rightarrow> 'a block \<Rightarrow> 'a block" where
  "put_slot i v b = b\<lparr>b_data := (b_data b)[unat i := v]\<rparr>"

text \<open>The object of a slot is made, and taken out and destroyed.\<close>

definition construct :: "u64 \<Rightarrow> 'a \<Rightarrow> 'a block \<Rightarrow> 'a block option" where
  "construct i x b = (if unat i < length (b_data b) then Some (put_slot i (Some x) b) else None)"

definition take_out :: "u64 \<Rightarrow> 'a block \<Rightarrow> ('a \<times> 'a block) option" where
  "take_out i b = do { x \<leftarrow> slot b i; Some (x, put_slot i None b) }"

text \<open>The index after \<open>i\<close> in a block.\<close>

definition inc :: "'a block \<Rightarrow> u64 \<Rightarrow> u64" where
  "inc b i = (i + 1) AND b_sizeMask b"

definition ceilToPow2 :: "u64 \<Rightarrow> u64" where
  "ceilToPow2 x =
     (let x = x - 1;
          x = x OR drop_bit 1 x;
          x = x OR drop_bit 2 x;
          x = x OR drop_bit 4 x;
          x = fold (\<lambda>i x. x OR drop_bit (push_bit 3 i) x) [1, 2, 4] x
      in x + 1)"

text \<open>The blocks the constructor makes: each is linked behind the one before and back to the first.\<close>

primrec initial_blocks :: "(nat \<Rightarrow> bool) \<Rightarrow> u64 \<Rightarrow> nat \<Rightarrow> 'a block list option" where
  "initial_blocks mem sz 0 = Some []"
| "initial_blocks mem sz (Suc i) = do {
     bs \<leftarrow> initial_blocks mem sz i;
     if \<not> mem i then None
     else let bs = (if i = 0 then bs else bs[i - 1 := (bs ! (i - 1))\<lparr>b_next := Some i\<rparr>])
          in Some (bs @ [(make_block sz)\<lparr>b_next := Some 0\<rparr>])
   }"

text \<open>The constructor. \<open>mx\<close> is the template's \<^verbatim>\<open>MAX_BLOCK_SIZE\<close>, \<open>mem\<close> tells which allocation succeeds.\<close>

definition ReaderWriterQueue :: "u64 \<Rightarrow> (nat \<Rightarrow> bool) \<Rightarrow> u64 \<Rightarrow> 'a rwq option" where
  "ReaderWriterQueue mx mem maxSize =
     (if \<not> 0 < maxSize \<or> mx \<noteq> ceilToPow2 mx \<or> \<not> 2 \<le> mx then None
      else let largest = ceilToPow2 (maxSize + 1);
               big = (mx * 2 < largest);
               initialBlockCount = (if big then (maxSize + mx * 2 - 3) div (mx - 1) else 1);
               largest = (if big then mx else largest)
           in do {
             bs \<leftarrow> initial_blocks mem largest (unat initialBlockCount);
             Some \<lparr>rq_blocks = bs, rq_frontBlock = 0, rq_tailBlock = 0, rq_largestBlockSize = largest, rq_enqueuing = False, rq_dequeuing = False\<rparr>
           })"

subsection \<open>The producer: inner_enqueue\<close>

text \<open>
  Where a call stands, with the local variables it still uses: the next step reads \<^verbatim>\<open>front\<close> of the tail block, makes the
  object there, stores \<^verbatim>\<open>tail\<close>; reads \<^verbatim>\<open>frontBlock\<close>; reads \<^verbatim>\<open>front\<close> of the next block, makes the object there, stores its \<^verbatim>\<open>tail\<close>;
  allocates a block, links it; stores \<^verbatim>\<open>tailBlock\<close>.
\<close>

datatype 'a enq_pc =
    Enq_Idle
  | Enq_Front bool 'a nat u64 u64
  | Enq_Construct 'a nat u64 u64
  | Enq_Tail 'a nat u64
  | Enq_Next bool 'a nat
  | Enq_NextFront 'a nat
  | Enq_NextConstruct 'a nat u64
  | Enq_NextTail 'a nat u64
  | Enq_Alloc 'a nat
  | Enq_Link 'a nat nat
  | Enq_TailBlock 'a nat
  | Enq_Return bool

definition enq_return :: "bool \<Rightarrow> 'a rwq \<Rightarrow> 'a enq_pc \<times> 'a rwq" where
  "enq_return r q = (Enq_Return r, q\<lparr>rq_enqueuing := False\<rparr>)"

text \<open>The call, up to its first look at the consumer's variables: only the producer's own are read.\<close>

definition inner_enqueue :: "bool \<Rightarrow> 'a \<Rightarrow> 'a rwq \<Rightarrow> ('a enq_pc \<times> 'a rwq) option" where
  "inner_enqueue canAlloc x q =
     (if rq_enqueuing q then None
      else do {
        let q = q\<lparr>rq_enqueuing := True\<rparr>;
        let tb = rq_tailBlock q;
        b \<leftarrow> get_block q tb;
        let blockTail = b_tail b;
        let nextBlockTail = inc b blockTail;
        Some (if nextBlockTail \<noteq> b_localFront b then Enq_Construct x tb blockTail nextBlockTail
              else Enq_Front canAlloc x tb blockTail nextBlockTail, q)
      })"

fun enq_step :: "u64 \<Rightarrow> bool \<Rightarrow> 'a enq_pc \<Rightarrow> 'a rwq \<Rightarrow> ('a enq_pc \<times> 'a rwq) option" where
  "enq_step mx ok (Enq_Front canAlloc x tb blockTail nextBlockTail) q = do {
     b \<leftarrow> get_block q tb;
     Some (if nextBlockTail \<noteq> b_front b then Enq_Construct x tb blockTail nextBlockTail else Enq_Next canAlloc x tb,
           upd_block tb (b_localFront_update (\<lambda>_. b_front b)) q)
   }"
| "enq_step mx ok (Enq_Construct x tb blockTail nextBlockTail) q = do {
     b \<leftarrow> get_block q tb \<bind> construct blockTail x;
     Some (Enq_Tail x tb nextBlockTail, upd_block tb (\<lambda>_. b) q)
   }"
| "enq_step mx ok (Enq_Tail x tb nextBlockTail) q =
     Some (enq_return True (upd_block tb (b_tail_update (\<lambda>_. nextBlockTail)) q))"
| "enq_step mx ok (Enq_Next canAlloc x tb) q = do {
     b \<leftarrow> get_block q tb;
     if b_next b \<noteq> Some (rq_frontBlock q) then do { nb \<leftarrow> b_next b; Some (Enq_NextFront x nb, q) }
     else if canAlloc then Some (Enq_Alloc x tb, q)
     else Some (enq_return False q)
   }"
| "enq_step mx ok (Enq_NextFront x nb) q = do {
     b \<leftarrow> get_block q nb;
     if b_front b \<noteq> b_tail b then None
     else Some (Enq_NextConstruct x nb (b_tail b), upd_block nb (b_localFront_update (\<lambda>_. b_front b)) q)
   }"
| "enq_step mx ok (Enq_NextConstruct x nb nextBlockTail) q = do {
     b \<leftarrow> get_block q nb \<bind> construct nextBlockTail x;
     Some (Enq_NextTail x nb (inc b nextBlockTail), upd_block nb (\<lambda>_. b) q)
   }"
| "enq_step mx ok (Enq_NextTail x nb t) q = Some (Enq_TailBlock x nb, upd_block nb (b_tail_update (\<lambda>_. t)) q)"
| "enq_step mx ok (Enq_Alloc x tb) q =
     (let newBlockSize = (if mx \<le> rq_largestBlockSize q then rq_largestBlockSize q else rq_largestBlockSize q * 2)
      in if \<not> ok then Some (enq_return False q)
         else do {
           b \<leftarrow> get_block q tb;
           newBlock \<leftarrow> construct 0 x (make_block newBlockSize);
           let newBlock = newBlock\<lparr>b_tail := 1, b_localTail := 1, b_next := b_next b\<rparr>;
           Some (Enq_Link x tb (length (rq_blocks q)), q\<lparr>rq_blocks := rq_blocks q @ [newBlock], rq_largestBlockSize := newBlockSize\<rparr>)
         })"
| "enq_step mx ok (Enq_Link x tb nb) q = Some (Enq_TailBlock x nb, upd_block tb (b_next_update (\<lambda>_. Some nb)) q)"
| "enq_step mx ok (Enq_TailBlock x nb) q = Some (enq_return True (q\<lparr>rq_tailBlock := nb\<rparr>))"
| "enq_step mx ok Enq_Idle q = None"
| "enq_step mx ok (Enq_Return r) q = None"

subsection \<open>The consumer: try_dequeue, pop and peek\<close>

datatype deq_op = Try_dequeue | Pop | Peek

text \<open>
  The next step reads \<^verbatim>\<open>tail\<close> of the front block, reads \<^verbatim>\<open>tailBlock\<close>, reads \<^verbatim>\<open>tail\<close> again, reads \<^verbatim>\<open>next\<close>, reads \<^verbatim>\<open>tail\<close> of the next block,
  stores \<^verbatim>\<open>frontBlock\<close>; takes the object, stores \<^verbatim>\<open>front\<close>.
\<close>

datatype 'a deq_pc =
    Deq_Idle
  | Deq_Tail deq_op nat u64
  | Deq_TailBlock deq_op nat
  | Deq_Again deq_op
  | Deq_Next deq_op nat
  | Deq_NextTail deq_op nat u64
  | Deq_FrontBlock deq_op nat u64
  | Deq_Take deq_op nat u64
  | Deq_Front deq_op nat u64 'a
  | Deq_Return deq_op "'a option"

definition deq_return :: "deq_op \<Rightarrow> 'a option \<Rightarrow> 'a rwq \<Rightarrow> 'a deq_pc \<times> 'a rwq" where
  "deq_return op r q = (Deq_Return op r, q\<lparr>rq_dequeuing := False\<rparr>)"

definition deq_start :: "deq_op \<Rightarrow> 'a rwq \<Rightarrow> ('a deq_pc \<times> 'a rwq) option" where
  "deq_start op q =
     (if rq_dequeuing q then None
      else do {
        let q = q\<lparr>rq_dequeuing := True\<rparr>;
        let fb = rq_frontBlock q;
        b \<leftarrow> get_block q fb;
        let blockFront = b_front b;
        Some (if blockFront \<noteq> b_localTail b then Deq_Take op fb blockFront else Deq_Tail op fb blockFront, q)
      })"

fun deq_step :: "'a deq_pc \<Rightarrow> 'a rwq \<Rightarrow> ('a deq_pc \<times> 'a rwq) option" where
  "deq_step (Deq_Tail op fb blockFront) q = do {
     b \<leftarrow> get_block q fb;
     Some (if blockFront \<noteq> b_tail b then Deq_Take op fb blockFront else Deq_TailBlock op fb,
           upd_block fb (b_localTail_update (\<lambda>_. b_tail b)) q)
   }"
| "deq_step (Deq_TailBlock op fb) q =
     Some (if fb \<noteq> rq_tailBlock q then (Deq_Again op, q) else deq_return op None q)"
| "deq_step (Deq_Again op) q = do {
     let fb = rq_frontBlock q;
     b \<leftarrow> get_block q fb;
     Some (if b_front b \<noteq> b_tail b then Deq_Take op fb (b_front b) else Deq_Next op fb,
           upd_block fb (b_localTail_update (\<lambda>_. b_tail b)) q)
   }"
| "deq_step (Deq_Next op fb) q = do {
     b \<leftarrow> get_block q fb;
     nb \<leftarrow> b_next b;
     b' \<leftarrow> get_block q nb;
     Some (Deq_NextTail op nb (b_front b'), q)
   }"
| "deq_step (Deq_NextTail op nb nextBlockFront) q = do {
     b \<leftarrow> get_block q nb;
     if nextBlockFront = b_tail b then None
     else if op = Peek then do { x \<leftarrow> slot b nextBlockFront; Some (deq_return op (Some x) q) }
     else Some (Deq_FrontBlock op nb nextBlockFront, upd_block nb (b_localTail_update (\<lambda>_. b_tail b)) q)
   }"
| "deq_step (Deq_FrontBlock op nb nextBlockFront) q = Some (Deq_Take op nb nextBlockFront, q\<lparr>rq_frontBlock := nb\<rparr>)"
| "deq_step (Deq_Take op fb blockFront) q = do {
     b \<leftarrow> get_block q fb;
     (x, b') \<leftarrow> take_out blockFront b;
     Some (if op = Peek then deq_return op (Some x) q else (Deq_Front op fb (inc b blockFront) x, upd_block fb (\<lambda>_. b') q))
   }"
| "deq_step (Deq_Front op fb blockFront x) q =
     Some (deq_return op (Some x) (upd_block fb (b_front_update (\<lambda>_. blockFront)) q))"
| "deq_step Deq_Idle q = None"
| "deq_step (Deq_Return op r) q = None"

subsection \<open>Whole calls\<close>

text \<open>Each step of a call brings it closer to its end, whatever it finds.\<close>

fun enq_rank :: "'a enq_pc \<Rightarrow> nat" where
  "enq_rank (Enq_Front a x tb t n) = 6"
| "enq_rank (Enq_Next a x tb) = 5"
| "enq_rank (Enq_NextFront x nb) = 4"
| "enq_rank (Enq_NextConstruct x nb t) = 3"
| "enq_rank (Enq_NextTail x nb t) = 2"
| "enq_rank (Enq_Alloc x tb) = 3"
| "enq_rank (Enq_Link x tb nb) = 2"
| "enq_rank (Enq_TailBlock x nb) = 1"
| "enq_rank (Enq_Construct x tb t n) = 2"
| "enq_rank (Enq_Tail x tb n) = 1"
| "enq_rank _ = 0"

fun deq_rank :: "'a deq_pc \<Rightarrow> nat" where
  "deq_rank (Deq_Tail op fb i) = 8"
| "deq_rank (Deq_TailBlock op fb) = 7"
| "deq_rank (Deq_Again op) = 6"
| "deq_rank (Deq_Next op fb) = 5"
| "deq_rank (Deq_NextTail op nb i) = 4"
| "deq_rank (Deq_FrontBlock op nb i) = 3"
| "deq_rank (Deq_Take op fb i) = 2"
| "deq_rank (Deq_Front op fb i x) = 1"
| "deq_rank _ = 0"

lemma enq_step_rank: "enq_step mx ok pc q = Some (pc', q') \<Longrightarrow> enq_rank pc' < enq_rank pc"
  by (induction mx ok pc q rule: enq_step.induct) (auto simp: enq_return_def bind_eq_Some_conv Let_def split: if_splits)

lemma deq_step_rank: "deq_step pc q = Some (pc', q') \<Longrightarrow> deq_rank pc' < deq_rank pc"
  by (induction pc q rule: deq_step.induct) (auto simp: deq_return_def bind_eq_Some_conv Let_def split: if_splits)

text \<open>The calls as the only thread at work runs them.\<close>

function enq_run :: "u64 \<Rightarrow> bool \<Rightarrow> 'a enq_pc \<Rightarrow> 'a rwq \<Rightarrow> (bool \<times> 'a rwq) option" where
  "enq_run mx ok pc q = (case pc of Enq_Return r \<Rightarrow> Some (r, q) | _ \<Rightarrow> do { (pc', q') \<leftarrow> enq_step mx ok pc q; enq_run mx ok pc' q' })"
  by pat_completeness auto
termination by (relation "measure (\<lambda>(mx, ok, pc, q). enq_rank pc)") (auto simp del: enq_step.simps enq_rank.simps dest!: enq_step_rank)

function deq_run :: "'a deq_pc \<Rightarrow> 'a rwq \<Rightarrow> ('a option \<times> 'a rwq) option" where
  "deq_run pc q = (case pc of Deq_Return op r \<Rightarrow> Some (r, q) | _ \<Rightarrow> do { (pc', q') \<leftarrow> deq_step pc q; deq_run pc' q' })"
  by pat_completeness auto
termination by (relation "measure (\<lambda>(pc, q). deq_rank pc)") (auto simp del: deq_step.simps deq_rank.simps dest!: deq_step_rank)

declare enq_run.simps [simp del] deq_run.simps [simp del]

definition try_enqueue :: "u64 \<Rightarrow> 'a \<Rightarrow> 'a rwq \<Rightarrow> (bool \<times> 'a rwq) option" where
  "try_enqueue mx x q = do { (pc, q) \<leftarrow> inner_enqueue False x q; enq_run mx False pc q }"

definition enqueue :: "u64 \<Rightarrow> bool \<Rightarrow> 'a \<Rightarrow> 'a rwq \<Rightarrow> (bool \<times> 'a rwq) option" where
  "enqueue mx ok x q = do { (pc, q) \<leftarrow> inner_enqueue True x q; enq_run mx ok pc q }"

definition try_dequeue :: "'a rwq \<Rightarrow> ('a option \<times> 'a rwq) option" where
  "try_dequeue q = do { (pc, q) \<leftarrow> deq_start Try_dequeue q; deq_run pc q }"

definition pop :: "'a rwq \<Rightarrow> (bool \<times> 'a rwq) option" where
  "pop q = do { (pc, q) \<leftarrow> deq_start Pop q; (r, q) \<leftarrow> deq_run pc q; Some (r \<noteq> None, q) }"

definition peek :: "'a rwq \<Rightarrow> ('a option \<times> 'a rwq) option" where
  "peek q = do { (pc, q) \<leftarrow> deq_start Peek q; deq_run pc q }"

text \<open>\<^verbatim>\<open>size_approx\<close> goes around the ring; so does the destructor, which destroys the objects that are left and frees the blocks.\<close>

partial_function (option) size_loop :: "'a rwq \<Rightarrow> nat \<Rightarrow> u64 \<Rightarrow> u64 option" where
  "size_loop q p result = do {
     b \<leftarrow> get_block q p;
     let result = result + ((b_tail b - b_front b) AND b_sizeMask b);
     p' \<leftarrow> b_next b;
     if p' \<noteq> rq_frontBlock q then size_loop q p' result else Some result
   }"

definition size_approx :: "'a rwq \<Rightarrow> u64 option" where
  "size_approx q = size_loop q (rq_frontBlock q) 0"

partial_function (option) destroy_slots :: "'a block \<Rightarrow> u64 \<Rightarrow> 'a list option" where
  "destroy_slots b i = (if i = b_tail b then Some []
     else do { x \<leftarrow> slot b i; xs \<leftarrow> destroy_slots b (inc b i); Some (x # xs) })"

partial_function (option) free_loop :: "'a rwq \<Rightarrow> nat \<Rightarrow> ('a list \<times> nat list) option" where
  "free_loop q p = do {
     b \<leftarrow> get_block q p;
     xs \<leftarrow> destroy_slots b (b_front b);
     p' \<leftarrow> b_next b;
     if p' \<noteq> rq_frontBlock q then do { (ys, ps) \<leftarrow> free_loop q p'; Some (xs @ ys, p # ps) } else Some (xs, [p])
   }"

text \<open>The destructor, by what it destroys and frees.\<close>

definition delete_queue :: "'a rwq \<Rightarrow> ('a list \<times> nat list) option" where
  "delete_queue q = free_loop q (rq_frontBlock q)"

subsection \<open>One block\<close>

text \<open>
  A block at work, seen as a queue: \<open>xs\<close> are its elements; \<open>held\<close> says that the object of the first has been taken but \<^verbatim>\<open>front\<close> not
  stored yet, \<open>wr\<close> is an object behind the last that has been made but whose \<^verbatim>\<open>tail\<close> is not stored yet. The indices count modulo
  the number of slots; the counters behind them only grow, and what a thread knows of the other's is never ahead of it.
\<close>

definition blk_at :: "nat \<Rightarrow> nat \<Rightarrow> nat \<Rightarrow> nat \<Rightarrow> 'a block \<Rightarrow> 'a list \<Rightarrow> bool \<Rightarrow> 'a option \<Rightarrow> bool" where
  "blk_at k F LF LT b xs held wr \<longleftrightarrow>
     1 \<le> k \<and> k < 64 \<and> unat (b_sizeMask b) = 2 ^ k - 1 \<and> length (b_data b) = 2 ^ k \<and>
     unat (b_front b) = F mod 2 ^ k \<and> unat (b_tail b) = (F + length xs) mod 2 ^ k \<and>
     unat (b_localFront b) = LF mod 2 ^ k \<and> unat (b_localTail b) = LT mod 2 ^ k \<and>
     LF \<le> F \<and> F \<le> LT \<and> LT \<le> F + length xs \<and> F + length xs < LF + 2 ^ k \<and> (held \<longrightarrow> xs \<noteq> []) \<and>
     (\<forall>i<2 ^ k. b_data b ! ((F + i) mod 2 ^ k) =
        (if i < length xs then if i = 0 \<and> held then None else Some (xs ! i) else if i = length xs then wr else None))"

definition blk_ok :: "'a block \<Rightarrow> 'a list \<Rightarrow> bool \<Rightarrow> 'a option \<Rightarrow> bool" where
  "blk_ok b xs held wr \<longleftrightarrow> (\<exists>k F LF LT. blk_at k F LF LT b xs held wr)"

lemma sizeMask_mask: "unat (b_sizeMask b) = 2 ^ k - 1 \<Longrightarrow> b_sizeMask b = mask k"
  by (drule arg_cong [of _ _ "of_nat :: nat \<Rightarrow> u64"]) (simp add: of_nat_unat mask_eq_exp_minus_1)

lemma unat_inc:
  assumes "unat (b_sizeMask b) = 2 ^ k - 1" "k < 64"
  shows "unat (inc b i) = Suc (unat i) mod 2 ^ k"
proof -
  have "b_sizeMask b = mask k" using assms(1) by (rule sizeMask_mask)
  then have "unat (inc b i) = take_bit k (unat (i + 1))" by (simp add: inc_def unsigned_take_bit_eq flip: take_bit_eq_mask)
  also have "\<dots> = Suc (unat i) mod 2 ^ 64 mod 2 ^ k" by (simp add: unat_word_ariths take_bit_eq_mod)
  also have "\<dots> = Suc (unat i) mod 2 ^ k" using assms(2) by (intro mod_mod_cancel le_imp_power_dvd) simp
  finally show ?thesis .
qed

lemma mod_eq_near: "a \<le> b \<Longrightarrow> b < a + n \<Longrightarrow> (a mod n = b mod n) = (a = (b :: nat))"
proof -
  assume a: "a \<le> b" "b < a + n"
  have "(b mod n = a mod n) = (n dvd b - a)" using a(1) by (rule mod_eq_dvd_iff_nat)
  also have "\<dots> = (b = a)" using a by (auto dest: dvd_imp_le)
  finally show ?thesis by auto
qed

lemma blk_at_tests:
  assumes "blk_at k F LF LT b xs held wr"
  shows "(b_front b = b_localTail b) = (F = LT)" "(b_front b = b_tail b) = (xs = [])"
    "(inc b (b_tail b) = b_localFront b) = (F + length xs + 1 = LF + 2 ^ k)" "(inc b (b_tail b) = b_front b) = (length xs + 1 = 2 ^ k)"
proof -
  note b = assms [unfolded blk_at_def]
  show "(b_front b = b_localTail b) = (F = LT)"
    using b mod_eq_near [of F LT "2 ^ k"] by (simp add: word_unat_eq_iff)
  show "(b_front b = b_tail b) = (xs = [])"
    using b mod_eq_near [of F "F + length xs" "2 ^ k"] by (simp add: word_unat_eq_iff)
  have i: "unat (inc b (b_tail b)) = (F + length xs + 1) mod 2 ^ k" using b by (simp add: unat_inc mod_Suc_eq)
  show "(inc b (b_tail b) = b_localFront b) = (F + length xs + 1 = LF + 2 ^ k)"
    using b i mod_eq_near [of "F + length xs + 1" "LF + 2 ^ k" "2 ^ k"] by (simp add: word_unat_eq_iff)
  show "(inc b (b_tail b) = b_front b) = (length xs + 1 = 2 ^ k)"
    using b i mod_eq_near [of "F + length xs + 1" "F + 2 ^ k" "2 ^ k"] by (simp add: word_unat_eq_iff)
qed

lemma blk_at_slot:
  assumes "blk_at k F LF LT b xs held wr"
  shows "slot b (b_front b) = (case xs of [] \<Rightarrow> wr | x # _ \<Rightarrow> if held then None else Some x)" "slot b (b_tail b) = wr"
proof -
  note b = assms [unfolded blk_at_def]
  have d: "b_data b ! ((F + i) mod 2 ^ k) =
     (if i < length xs then if i = 0 \<and> held then None else Some (xs ! i) else if i = length xs then wr else None)" if "i < 2 ^ k" for i
    using b that by blast
  show "slot b (b_front b) = (case xs of [] \<Rightarrow> wr | x # _ \<Rightarrow> if held then None else Some x)"
    using b d [of 0] by (cases xs) (simp_all add: slot_def)
  show "slot b (b_tail b) = wr"
    using b d [of "length xs"] by (simp add: slot_def)
qed

text \<open>What the threads do to a block: the shadows are brought up to date, an object is taken and given up, an object is made and published.\<close>

lemma blk_ok_localTail:
  assumes "blk_ok b xs held wr"
  shows "blk_ok (b\<lparr>b_localTail := b_tail b\<rparr>) xs held wr"
proof -
  obtain k F LF LT where b: "blk_at k F LF LT b xs held wr" using assms by (auto simp: blk_ok_def)
  then have "blk_at k F LF (F + length xs) (b\<lparr>b_localTail := b_tail b\<rparr>) xs held wr" by (simp add: blk_at_def)
  then show ?thesis by (auto simp: blk_ok_def)
qed

lemma blk_ok_localFront:
  assumes "blk_ok b xs held wr"
  shows "blk_ok (b\<lparr>b_localFront := b_front b\<rparr>) xs held wr"
proof -
  obtain k F LF LT where b: "blk_at k F LF LT b xs held wr" using assms by (auto simp: blk_ok_def)
  then have "blk_at k F F LT (b\<lparr>b_localFront := b_front b\<rparr>) xs held wr" by (simp add: blk_at_def)
  then show ?thesis by (auto simp: blk_ok_def)
qed

lemma blk_ok_take:
  assumes "blk_ok b xs False wr" "xs \<noteq> []"
  shows "take_out (b_front b) b = Some (hd xs, put_slot (b_front b) None b)" "blk_ok (put_slot (b_front b) None b) xs True wr"
proof -
  obtain k F LF LT where b: "blk_at k F LF LT b xs False wr" using assms(1) by (auto simp: blk_ok_def)
  then show "take_out (b_front b) b = Some (hd xs, put_slot (b_front b) None b)"
    using assms(2) blk_at_slot(1) [OF b] by (cases xs) (simp_all add: take_out_def)
  have "(F mod 2 ^ k = (F + i) mod 2 ^ k) = (i = 0)" if "i < 2 ^ k" for i
    using mod_eq_near [of F "F + i" "2 ^ k"] that by simp
  then have "blk_at k F LF LT (put_slot (b_front b) None b) xs True wr"
    using b assms(2) by (auto simp: blk_at_def put_slot_def nth_list_update)
  then show "blk_ok (put_slot (b_front b) None b) xs True wr" by (auto simp: blk_ok_def)
qed

lemma blk_ok_front:
  assumes "blk_ok b xs True wr" "b_front b \<noteq> b_localTail b"
  shows "blk_ok (b\<lparr>b_front := inc b (b_front b)\<rparr>) (tl xs) False wr"
proof -
  obtain k F LF LT where b: "blk_at k F LF LT b xs True wr" using assms(1) by (auto simp: blk_ok_def)
  note b' = b [unfolded blk_at_def]
  obtain x ys where xs: "xs = x # ys" using b' by (cases xs) auto
  have "F < LT" using blk_at_tests(1) [OF b] assms(2) b' by simp
  moreover have "b_data b ! ((F + 1 + i) mod 2 ^ k) = (if i < length ys then Some (ys ! i) else if i = length ys then wr else None)" if "i < 2 ^ k" for i
  proof (cases "i + 1 < 2 ^ k")
    case True
    then show ?thesis using b' xs by (auto dest: spec [of _ "i + 1"])
  next
    case False
    then have "i + 1 = 2 ^ k" using that by simp
    then have "(F + 1 + i) mod 2 ^ k = F mod 2 ^ k" by (metis add.assoc add.commute mod_add_self2)
    then show ?thesis using b' xs \<open>i + 1 = 2 ^ k\<close> by (auto dest: spec [of _ 0])
  qed
  ultimately have "blk_at k (F + 1) LF LT (b\<lparr>b_front := inc b (b_front b)\<rparr>) (tl xs) False wr"
    using b' xs by (simp add: blk_at_def unat_inc mod_Suc_eq)
  then show ?thesis by (auto simp: blk_ok_def)
qed

lemma blk_ok_construct:
  assumes "blk_ok b xs held None"
  shows "construct (b_tail b) x b = Some (put_slot (b_tail b) (Some x) b)" "blk_ok (put_slot (b_tail b) (Some x) b) xs held (Some x)"
proof -
  obtain k F LF LT where b: "blk_at k F LF LT b xs held None" using assms(1) by (auto simp: blk_ok_def)
  then show "construct (b_tail b) x b = Some (put_slot (b_tail b) (Some x) b)" by (simp add: blk_at_def construct_def)
  have "((F + length xs) mod 2 ^ k = (F + i) mod 2 ^ k) = (i = length xs)" if "i < 2 ^ k" for i
    using mod_eq_near [of "F + i" "F + length xs" "2 ^ k"] mod_eq_near [of "F + length xs" "F + i" "2 ^ k"] that b
    by (cases "i \<le> length xs") (auto simp: blk_at_def)
  then have "blk_at k F LF LT (put_slot (b_tail b) (Some x) b) xs held (Some x)"
    using b by (auto simp: blk_at_def put_slot_def nth_list_update)
  then show "blk_ok (put_slot (b_tail b) (Some x) b) xs held (Some x)" by (auto simp: blk_ok_def)
qed

lemma blk_ok_tail:
  assumes "blk_ok b xs held (Some x)" "inc b (b_tail b) \<noteq> b_localFront b"
  shows "blk_ok (b\<lparr>b_tail := inc b (b_tail b)\<rparr>) (xs @ [x]) held None"
proof -
  obtain k F LF LT where b: "blk_at k F LF LT b xs held (Some x)" using assms(1) by (auto simp: blk_ok_def)
  have "F + length xs + 1 < LF + 2 ^ k" using blk_at_tests(3) [OF b] assms(2) b by (simp add: blk_at_def)
  then have "blk_at k F LF LT (b\<lparr>b_tail := inc b (b_tail b)\<rparr>) (xs @ [x]) held None"
    using b by (auto simp: blk_at_def unat_inc mod_Suc_eq nth_append)
  then show ?thesis by (auto simp: blk_ok_def)
qed

lemma blk_ok_tests:
  assumes "blk_ok b xs held wr"
  shows "(b_front b = b_tail b) = (xs = [])" "b_front b \<noteq> b_localTail b \<Longrightarrow> xs \<noteq> []" "xs = [] \<Longrightarrow> inc b (b_tail b) \<noteq> b_front b"
proof -
  obtain k F LF LT where b: "blk_at k F LF LT b xs held wr" using assms by (auto simp: blk_ok_def)
  show "(b_front b = b_tail b) = (xs = [])" by (rule blk_at_tests(2) [OF b])
  show "b_front b \<noteq> b_localTail b \<Longrightarrow> xs \<noteq> []" using blk_at_tests(1) [OF b] b by (auto simp: blk_at_def)
  have "(2 :: nat) ^ k \<ge> 2" using b self_le_power [of "2::nat" k] by (simp add: blk_at_def)
  then show "xs = [] \<Longrightarrow> inc b (b_tail b) \<noteq> b_front b" using blk_at_tests(4) [OF b] by auto
qed

end
