(* ===== verification/Rw_Queue_Inv.thy ===== *)
theory Rw_Queue_Inv
  imports Rw_Queue
begin

text \<open>
  The two threads of the lock-free queue, interleaved step by step, and the invariant they keep: the ring of blocks in order
  from the front block to the tail block and back, the elements of each block, and what the local variables of a call in
  progress still say after the other thread has moved. Every step of either thread can be taken and keeps the invariant
  (\<open>rw_step_inv\<close>); the constructor establishes it (\<open>constructor_ok\<close>).
\<close>

subsection \<open>Runs of the two threads\<close>

text \<open>
  The queue and the two calls in progress. The history has the elements whose \<^verbatim>\<open>enqueue\<close> returned true, those that \<^verbatim>\<open>try_dequeue\<close> and
  \<^verbatim>\<open>pop\<close> took, and how many had been enqueued when the consumer's last call began.
\<close>

record 'a rw_sys =
  sq :: "'a rwq"
  s_enq :: "'a enq_pc"
  s_deq :: "'a deq_pc"
  h_enqueued :: "'a list"
  h_dequeued :: "'a list"
  h_before :: nat

datatype 'a rw_event = Enqueue bool 'a | Produce bool | Dequeue deq_op | Consume

fun enq_busy :: "'a enq_pc \<Rightarrow> bool" where
  "enq_busy Enq_Idle = False"
| "enq_busy (Enq_Return r) = False"
| "enq_busy _ = True"

fun deq_busy :: "'a deq_pc \<Rightarrow> bool" where
  "deq_busy Deq_Idle = False"
| "deq_busy (Deq_Return op r) = False"
| "deq_busy _ = True"

text \<open>The element that a store of \<^verbatim>\<open>tail\<close> or \<^verbatim>\<open>tailBlock\<close> puts into the queue, and the one that a call has taken.\<close>

fun enqueued_by :: "'a enq_pc \<Rightarrow> 'a list" where
  "enqueued_by (Enq_Tail x tb t) = [x]"
| "enqueued_by (Enq_TailBlock x nb) = [x]"
| "enqueued_by _ = []"

fun dequeued_by :: "'a deq_pc \<Rightarrow> 'a list" where
  "dequeued_by (Deq_Front op fb i x) = [x]"
| "dequeued_by _ = []"

fun rw_enabled :: "'a rw_event \<Rightarrow> 'a rw_sys \<Rightarrow> bool" where
  "rw_enabled (Enqueue canAlloc x) s = (\<not> enq_busy (s_enq s))"
| "rw_enabled (Produce ok) s = enq_busy (s_enq s)"
| "rw_enabled (Dequeue op) s = (\<not> deq_busy (s_deq s))"
| "rw_enabled Consume s = deq_busy (s_deq s)"

fun rw_step :: "u64 \<Rightarrow> 'a rw_event \<Rightarrow> 'a rw_sys \<Rightarrow> 'a rw_sys option" where
  "rw_step mx (Enqueue canAlloc x) s = do {
     (pc, q) \<leftarrow> inner_enqueue canAlloc x (sq s);
     Some (s\<lparr>sq := q, s_enq := pc\<rparr>)
   }"
| "rw_step mx (Produce ok) s = do {
     (pc, q) \<leftarrow> enq_step mx ok (s_enq s) (sq s);
     Some (s\<lparr>sq := q, s_enq := pc, h_enqueued := h_enqueued s @ enqueued_by (s_enq s)\<rparr>)
   }"
| "rw_step mx (Dequeue op) s = do {
     (pc, q) \<leftarrow> deq_start op (sq s);
     Some (s\<lparr>sq := q, s_deq := pc, h_before := length (h_enqueued s)\<rparr>)
   }"
| "rw_step mx Consume s = do {
     (pc, q) \<leftarrow> deq_step (s_deq s) (sq s);
     Some (s\<lparr>sq := q, s_deq := pc, h_dequeued := h_dequeued s @ dequeued_by (s_deq s)\<rparr>)
   }"

inductive rw_runs :: "u64 \<Rightarrow> 'a rw_sys \<Rightarrow> 'a rw_event list \<Rightarrow> 'a rw_sys \<Rightarrow> bool" for mx s where
  start: "rw_runs mx s [] s"
| step: "rw_runs mx s es s' \<Longrightarrow> rw_enabled e s' \<Longrightarrow> rw_step mx e s' = Some s'' \<Longrightarrow> rw_runs mx s (es @ [e]) s''"

definition rw_init :: "'a rwq \<Rightarrow> 'a rw_sys" where
  "rw_init q = \<lparr>sq = q, s_enq = Enq_Idle, s_deq = Deq_Idle, h_enqueued = [], h_dequeued = [], h_before = 0\<rparr>"

subsection \<open>The invariant\<close>

text \<open>The ring: from the front block to the tail block (\<open>fs\<close>), and from there back (\<open>rs\<close>).\<close>

primrec chain :: "(nat \<Rightarrow> nat option) \<Rightarrow> nat list \<Rightarrow> nat \<Rightarrow> bool" where
  "chain nx [] r = True"
| "chain nx (p # ps) r = (nx p = Some (hd (ps @ [r])) \<and> chain nx ps r)"

lemma chain_append [simp]: "chain nx (ps @ qs) r = (chain nx ps (hd (qs @ [r])) \<and> chain nx qs r)"
  by (induction ps) (auto simp: hd_append)

lemma chain_upd [simp]: "p \<notin> set ps \<Longrightarrow> chain (nx(p := v)) ps r = chain nx ps r"
  by (induction ps) auto

definition next_of :: "'a rwq \<Rightarrow> nat \<Rightarrow> nat option" where
  "next_of q p = b_next (rq_blocks q ! p)"

definition ring_ok :: "'a rwq \<Rightarrow> nat list \<Rightarrow> nat list \<Rightarrow> bool" where
  "ring_ok q fs rs \<longleftrightarrow> fs \<noteq> [] \<and> hd fs = rq_frontBlock q \<and> last fs = rq_tailBlock q \<and> distinct (fs @ rs) \<and>
     set (fs @ rs) \<subseteq> {..<length (rq_blocks q)} \<and> chain (next_of q) (fs @ rs) (rq_frontBlock q)"

text \<open>The contents of the blocks: what the threads are about to give up or to publish, and a new block not yet reached.\<close>

fun holding :: "'a deq_pc \<Rightarrow> nat option" where
  "holding (Deq_Front op fb i x) = Some fb"
| "holding _ = None"

fun constructed :: "'a enq_pc \<Rightarrow> nat \<Rightarrow> 'a option" where
  "constructed (Enq_Tail x tb t) p = (if p = tb then Some x else None)"
| "constructed (Enq_NextTail x nb t) p = (if p = nb then Some x else None)"
| "constructed _ p = None"

fun pending :: "'a enq_pc \<Rightarrow> nat \<Rightarrow> 'a list" where
  "pending (Enq_TailBlock x nb) p = (if p = nb then [x] else [])"
| "pending _ p = []"

fun linking :: "'a enq_pc \<Rightarrow> nat set" where
  "linking (Enq_Link x tb nb) = {nb}"
| "linking _ = {}"

definition blocks_ok :: "'a rwq \<Rightarrow> (nat \<Rightarrow> 'a list) \<Rightarrow> nat option \<Rightarrow> (nat \<Rightarrow> 'a option) \<Rightarrow> bool" where
  "blocks_ok q X hp wr \<longleftrightarrow> (\<forall>p<length (rq_blocks q). blk_ok (rq_blocks q ! p) (X p) (hp = Some p) (wr p))"

text \<open>What the local variables of the calls say.\<close>

fun enq_ok :: "'a rwq \<Rightarrow> nat list \<Rightarrow> nat list \<Rightarrow> (nat \<Rightarrow> 'a list) \<Rightarrow> 'a enq_pc \<Rightarrow> bool" where
  "enq_ok q fs rs X (Enq_Front a x tb bt nbt) =
     (tb = rq_tailBlock q \<and> bt = b_tail (rq_blocks q ! tb) \<and> nbt = inc (rq_blocks q ! tb) bt)"
| "enq_ok q fs rs X (Enq_Construct x tb bt nbt) =
     (tb = rq_tailBlock q \<and> bt = b_tail (rq_blocks q ! tb) \<and> nbt = inc (rq_blocks q ! tb) bt \<and> nbt \<noteq> b_localFront (rq_blocks q ! tb))"
| "enq_ok q fs rs X (Enq_Tail x tb nbt) =
     (tb = rq_tailBlock q \<and> nbt = inc (rq_blocks q ! tb) (b_tail (rq_blocks q ! tb)) \<and> nbt \<noteq> b_localFront (rq_blocks q ! tb))"
| "enq_ok q fs rs X (Enq_Next a x tb) = (tb = rq_tailBlock q)"
| "enq_ok q fs rs X (Enq_NextFront x nb) = (rs \<noteq> [] \<and> nb = hd rs)"
| "enq_ok q fs rs X (Enq_NextConstruct x nb bt) =
     (rs \<noteq> [] \<and> nb = hd rs \<and> bt = b_tail (rq_blocks q ! nb) \<and> b_localFront (rq_blocks q ! nb) = b_front (rq_blocks q ! nb))"
| "enq_ok q fs rs X (Enq_NextTail x nb t) =
     (rs \<noteq> [] \<and> nb = hd rs \<and> t = inc (rq_blocks q ! nb) (b_tail (rq_blocks q ! nb)) \<and> b_localFront (rq_blocks q ! nb) = b_front (rq_blocks q ! nb))"
| "enq_ok q fs rs X (Enq_Alloc x tb) = (tb = rq_tailBlock q)"
| "enq_ok q fs rs X (Enq_Link x tb nb) =
     (tb = rq_tailBlock q \<and> nb < length (rq_blocks q) \<and> nb \<notin> set (fs @ rs) \<and> next_of q nb = next_of q tb \<and> X nb = [x])"
| "enq_ok q fs rs X (Enq_TailBlock x nb) = (rs \<noteq> [] \<and> nb = hd rs)"
| "enq_ok q fs rs X _ = True"

fun deq_ok :: "'a rwq \<Rightarrow> nat list \<Rightarrow> (nat \<Rightarrow> 'a list) \<Rightarrow> nat \<Rightarrow> 'a list \<Rightarrow> 'a deq_pc \<Rightarrow> bool" where
  "deq_ok q fs X n ds (Deq_Tail op fb bf) = (fb = rq_frontBlock q \<and> bf = b_front (rq_blocks q ! fb))"
| "deq_ok q fs X n ds (Deq_TailBlock op fb) = (fb = rq_frontBlock q \<and> (rq_tailBlock q = fb \<longrightarrow> n \<le> length ds))"
| "deq_ok q fs X n ds (Deq_Again op) = (rq_tailBlock q \<noteq> rq_frontBlock q)"
| "deq_ok q fs X n ds (Deq_Next op fb) = (fb = rq_frontBlock q \<and> rq_tailBlock q \<noteq> rq_frontBlock q \<and> X fb = [])"
| "deq_ok q fs X n ds (Deq_NextTail op nb nf) =
     (rq_tailBlock q \<noteq> rq_frontBlock q \<and> X (rq_frontBlock q) = [] \<and> nb = hd (tl fs) \<and> nf = b_front (rq_blocks q ! nb))"
| "deq_ok q fs X n ds (Deq_FrontBlock op nb nf) =
     (rq_tailBlock q \<noteq> rq_frontBlock q \<and> X (rq_frontBlock q) = [] \<and> nb = hd (tl fs) \<and> nf = b_front (rq_blocks q ! nb) \<and>
      nf \<noteq> b_localTail (rq_blocks q ! nb))"
| "deq_ok q fs X n ds (Deq_Take op fb bf) = (fb = rq_frontBlock q \<and> bf = b_front (rq_blocks q ! fb) \<and> bf \<noteq> b_localTail (rq_blocks q ! fb))"
| "deq_ok q fs X n ds (Deq_Front op fb nf x) =
     (fb = rq_frontBlock q \<and> nf = inc (rq_blocks q ! fb) (b_front (rq_blocks q ! fb)) \<and> b_front (rq_blocks q ! fb) \<noteq> b_localTail (rq_blocks q ! fb) \<and>
      X fb \<noteq> [] \<and> x = hd (X fb) \<and> op \<noteq> Peek)"
| "deq_ok q fs X n ds (Deq_Return op None) = (n \<le> length ds)"
| "deq_ok q fs X n ds (Deq_Return op (Some x)) =
     (if op = Peek then concat (map X fs) \<noteq> [] \<and> x = hd (concat (map X fs)) else ds \<noteq> [] \<and> x = last ds)"
| "deq_ok q fs X n ds Deq_Idle = True"

definition rw_at :: "'a rw_sys \<Rightarrow> nat list \<Rightarrow> nat list \<Rightarrow> (nat \<Rightarrow> 'a list) \<Rightarrow> bool" where
  "rw_at s fs rs X \<longleftrightarrow>
     ring_ok (sq s) fs rs \<and> blocks_ok (sq s) X (holding (s_deq s)) (constructed (s_enq s)) \<and>
     (\<forall>p\<in>set (tl fs). X p \<noteq> []) \<and> (\<forall>p\<in>set rs. X p = pending (s_enq s) p) \<and>
     h_enqueued s = h_dequeued s @ concat (map X fs) \<and> h_before s \<le> length (h_enqueued s) \<and>
     enq_ok (sq s) fs rs X (s_enq s) \<and> deq_ok (sq s) fs X (h_before s) (h_dequeued s) (s_deq s) \<and>
     rq_enqueuing (sq s) = enq_busy (s_enq s) \<and> rq_dequeuing (sq s) = deq_busy (s_deq s) \<and>
     (\<exists>k\<ge>1. unat (rq_largestBlockSize (sq s)) = 2 ^ k) \<and> set (fs @ rs) \<union> linking (s_enq s) = {..<length (rq_blocks (sq s))}"

lemma upd_block_simps [simp]:
  "rq_frontBlock (upd_block p f q) = rq_frontBlock q" "rq_tailBlock (upd_block p f q) = rq_tailBlock q"
  "rq_largestBlockSize (upd_block p f q) = rq_largestBlockSize q" "rq_enqueuing (upd_block p f q) = rq_enqueuing q"
  "rq_dequeuing (upd_block p f q) = rq_dequeuing q" "length (rq_blocks (upd_block p f q)) = length (rq_blocks q)"
  by (simp_all add: upd_block_def)

lemma upd_block_nth: "p < length (rq_blocks q) \<Longrightarrow> rq_blocks (upd_block p f q) ! r = (if r = p then f (rq_blocks q ! p) else rq_blocks q ! r)"
  by (simp add: upd_block_def nth_list_update)

lemma next_of_upd:
  assumes "p < length (rq_blocks q)"
  shows "next_of (upd_block p f q) = (next_of q)(p := b_next (f (rq_blocks q ! p)))"
  using assms by (simp add: next_of_def upd_block_nth fun_eq_iff)

lemma next_of_same:
  assumes "p < length (rq_blocks q)" "b_next (f (rq_blocks q ! p)) = b_next (rq_blocks q ! p)"
  shows "next_of (upd_block p f q) = next_of q"
  using assms by (auto simp: next_of_upd next_of_def fun_eq_iff)

lemma ring_ok_upd:
  assumes "ring_ok q fs rs" "p < length (rq_blocks q)" "b_next (f (rq_blocks q ! p)) = b_next (rq_blocks q ! p)"
  shows "ring_ok (upd_block p f q) fs rs"
  using assms by (simp add: ring_ok_def next_of_same)

lemma blocks_ok_upd:
  assumes "blocks_ok q X hp wr" "p < length (rq_blocks q)" "blk_ok (f (rq_blocks q ! p)) (X' p) (hp' = Some p) (wr' p)"
    "\<And>r. r \<noteq> p \<Longrightarrow> X' r = X r \<and> (hp' = Some r) = (hp = Some r) \<and> wr' r = wr r"
  shows "blocks_ok (upd_block p f q) X' hp' wr'"
  using assms by (auto simp: blocks_ok_def upd_block_nth)

lemma ring_ok_blocks:
  assumes "ring_ok q fs rs"
  shows "rq_frontBlock q < length (rq_blocks q)" "rq_tailBlock q < length (rq_blocks q)" "rs \<noteq> [] \<Longrightarrow> hd rs < length (rq_blocks q)"
    "rq_frontBlock q \<in> set fs" "rq_tailBlock q \<in> set fs" "rs \<noteq> [] \<Longrightarrow> hd rs \<notin> set fs" "next_of q (rq_tailBlock q) = Some (hd (rs @ [rq_frontBlock q]))"
    "rq_tailBlock q \<noteq> rq_frontBlock q \<Longrightarrow> \<exists>f g gs. fs = f # g # gs" "rq_tailBlock q = rq_frontBlock q \<Longrightarrow> fs = [rq_frontBlock q]"
proof -
  have r: "fs \<noteq> []" "hd fs = rq_frontBlock q" "last fs = rq_tailBlock q" "distinct (fs @ rs)" "set (fs @ rs) \<subseteq> {..<length (rq_blocks q)}"
      "chain (next_of q) (fs @ rs) (rq_frontBlock q)"
    using assms unfolding ring_ok_def by blast+
  show f: "rq_frontBlock q \<in> set fs" "rq_tailBlock q \<in> set fs" using r(1) by (simp_all flip: r(2,3))
  have h: "rs \<noteq> [] \<Longrightarrow> hd rs \<in> set rs" by simp
  show "rq_frontBlock q < length (rq_blocks q)" "rq_tailBlock q < length (rq_blocks q)" "rs \<noteq> [] \<Longrightarrow> hd rs < length (rq_blocks q)"
    using f h r(5) by (auto simp: subset_iff)
  show "rs \<noteq> [] \<Longrightarrow> hd rs \<notin> set fs" using h r(4) by auto
  obtain gs where "fs = gs @ [rq_tailBlock q]" using r(1,3) append_butlast_last_id by metis
  then show "next_of q (rq_tailBlock q) = Some (hd (rs @ [rq_frontBlock q]))" using r(6) by simp
  show "rq_tailBlock q \<noteq> rq_frontBlock q \<Longrightarrow> \<exists>f g gs. fs = f # g # gs" using r(1-3) by (cases fs; cases "tl fs") auto
  show "rq_tailBlock q = rq_frontBlock q \<Longrightarrow> fs = [rq_frontBlock q]" using r(1-4) by (cases fs; cases "tl fs") (auto split: if_splits dest: last_in_set)
qed

text \<open>What the producer may do under the consumer, and the consumer under the producer.\<close>

lemma deq_ok_stable:
  assumes "deq_ok q fs X n ds pc" "ring_ok q fs rs" "rq_frontBlock q' = rq_frontBlock q"
    "\<And>p. p \<in> set fs \<Longrightarrow> b_front (rq_blocks q' ! p) = b_front (rq_blocks q ! p) \<and> b_localTail (rq_blocks q' ! p) = b_localTail (rq_blocks q ! p) \<and>
       b_sizeMask (rq_blocks q' ! p) = b_sizeMask (rq_blocks q ! p)"
    "rq_tailBlock q \<noteq> rq_frontBlock q \<Longrightarrow>
       rq_tailBlock q' \<noteq> rq_frontBlock q \<and> X' (rq_frontBlock q) = X (rq_frontBlock q) \<and> hd (tl fs') = hd (tl fs)"
    "X (rq_frontBlock q) \<noteq> [] \<Longrightarrow> X' (rq_frontBlock q) \<noteq> [] \<and> hd (X' (rq_frontBlock q)) = hd (X (rq_frontBlock q))"
    "concat (map X fs) \<noteq> [] \<Longrightarrow> concat (map X' fs') \<noteq> [] \<and> hd (concat (map X' fs')) = hd (concat (map X fs))"
  shows "deq_ok q' fs' X' n ds pc"
proof -
  have "hd (tl fs) \<in> set fs" if "rq_tailBlock q \<noteq> rq_frontBlock q" using ring_ok_blocks(8) [OF assms(2) that] by auto
  with assms ring_ok_blocks(4) [OF assms(2)] show ?thesis
    by (induction q fs X n ds pc rule: deq_ok.induct) (simp_all add: inc_def del: concat_eq_Nil_conv, metis)
qed

lemma enq_ok_stable:
  assumes "enq_ok q fs rs X pc" "rq_tailBlock q' = rq_tailBlock q" "length (rq_blocks q') = length (rq_blocks q)"
    "\<And>p. b_tail (rq_blocks q' ! p) = b_tail (rq_blocks q ! p) \<and> b_localFront (rq_blocks q' ! p) = b_localFront (rq_blocks q ! p) \<and>
       b_next (rq_blocks q' ! p) = b_next (rq_blocks q ! p) \<and> b_sizeMask (rq_blocks q' ! p) = b_sizeMask (rq_blocks q ! p)"
    "rs \<noteq> [] \<Longrightarrow> rs' \<noteq> [] \<and> hd rs' = hd rs \<and> b_front (rq_blocks q' ! hd rs) = b_front (rq_blocks q ! hd rs)"
    "set (fs' @ rs') = set (fs @ rs)" "\<And>p. p \<notin> set (fs @ rs) \<Longrightarrow> X' p = X p"
  shows "enq_ok q' fs' rs' X' pc"
  using assms by (cases pc) (simp_all add: inc_def next_of_def del: set_append)

text \<open>The step of the producer in each position. The rest of the state does not matter to it.\<close>

lemma rw_at_pieces:
  assumes "rw_at s fs rs X"
  shows "ring_ok (sq s) fs rs" "blocks_ok (sq s) X (holding (s_deq s)) (constructed (s_enq s))" "\<And>p. p \<in> set (tl fs) \<Longrightarrow> X p \<noteq> []"
    "\<And>p. p \<in> set rs \<Longrightarrow> X p = pending (s_enq s) p" "h_enqueued s = h_dequeued s @ concat (map X fs)"
    "h_before s \<le> length (h_enqueued s)" "enq_ok (sq s) fs rs X (s_enq s)" "deq_ok (sq s) fs X (h_before s) (h_dequeued s) (s_deq s)"
    "rq_enqueuing (sq s) = enq_busy (s_enq s)" "rq_dequeuing (sq s) = deq_busy (s_deq s)" "\<exists>k\<ge>1. unat (rq_largestBlockSize (sq s)) = 2 ^ k"
    "set (fs @ rs) \<union> linking (s_enq s) = {..<length (rq_blocks (sq s))}"
  using assms unfolding rw_at_def by blast+

lemma get_block_ok [simp]: "p < length (rq_blocks q) \<Longrightarrow> get_block q p = Some (rq_blocks q ! p)"
  by (simp add: get_block_def)

text \<open>A step of the producer that leaves the ring as it is: one block is written, in the fields the producer owns.\<close>

lemma rw_at_produce:
  assumes "rw_at s fs rs X" "p < length (rq_blocks (sq s))" "blk_ok (f (rq_blocks (sq s) ! p)) xs (holding (s_deq s) = Some p) (constructed pc p)"
    "b_front (f (rq_blocks (sq s) ! p)) = b_front (rq_blocks (sq s) ! p)" "b_localTail (f (rq_blocks (sq s) ! p)) = b_localTail (rq_blocks (sq s) ! p)"
    "b_sizeMask (f (rq_blocks (sq s) ! p)) = b_sizeMask (rq_blocks (sq s) ! p)" "b_next (f (rq_blocks (sq s) ! p)) = b_next (rq_blocks (sq s) ! p)"
    "\<And>r. r \<noteq> p \<Longrightarrow> constructed pc r = constructed (s_enq s) r" "\<And>r. r \<in> set rs \<Longrightarrow> (X(p := xs)) r = pending pc r"
    "p = rq_tailBlock (sq s) \<and> (\<exists>ys. xs = X p @ ys \<and> hs = ys) \<or> p \<in> set rs \<and> hs = []"
    "enq_ok (upd_block p f (sq s)) fs rs (X(p := xs)) pc"
    "q = (upd_block p f (sq s))\<lparr>rq_enqueuing := enq_busy pc\<rparr>" "linking pc = linking (s_enq s)"
  shows "rw_at (s\<lparr>sq := q, s_enq := pc, h_enqueued := h_enqueued s @ hs\<rparr>) fs rs (X(p := xs))"
proof -
  note r = rw_at_pieces [OF assms(1)]
  note b = ring_ok_blocks [OF r(1)]
  have ring: "ring_ok q fs rs" using ring_ok_upd [where f = f, OF r(1) assms(2,7)] unfolding assms(12) ring_ok_def by (simp add: next_of_def [abs_def])
  have blocks: "blocks_ok q (X(p := xs)) (holding (s_deq s)) (constructed pc)"
    using blocks_ok_upd [where f = f, OF r(2) assms(2), of "X(p := xs)" "holding (s_deq s)" "constructed pc"] assms(3,8)
    unfolding assms(12) by (simp add: blocks_ok_def)
  have d: "distinct fs" "set fs \<inter> set rs = {}" "last fs = rq_tailBlock (sq s)" "fs \<noteq> []" using r(1) by (auto simp: ring_ok_def)
  obtain gs where fs: "fs = gs @ [rq_tailBlock (sq s)]" using d(3,4) append_butlast_last_id by metis
  have c: "concat (map (X(p := xs)) fs) = concat (map X fs) @ hs"
    using assms(10)
  proof
    assume p: "p = rq_tailBlock (sq s) \<and> (\<exists>ys. xs = X p @ ys \<and> hs = ys)"
    then have "p \<notin> set gs" using d(1) fs by auto
    then show ?thesis using p fs by auto
  next
    assume "p \<in> set rs \<and> hs = []"
    then have "p \<notin> set fs" using d(2) by auto
    then show ?thesis using \<open>p \<in> set rs \<and> hs = []\<close> by simp
  qed
  have n: "(X(p := xs)) r \<noteq> []" if "r \<in> set (tl fs)" for r
    using r(3) [OF that] assms(10) d(2) that by (auto dest: list.set_sel(2) [OF d(4)])
  have "deq_ok q fs (X(p := xs)) (h_before s) (h_dequeued s) (s_deq s)"
  proof (rule deq_ok_stable [OF r(8) r(1)])
    show "concat (map (X(p := xs)) fs) \<noteq> [] \<and> hd (concat (map (X(p := xs)) fs)) = hd (concat (map X fs))" if "concat (map X fs) \<noteq> []"
      using c that by (metis append_is_Nil_conv hd_append2)
    have f: "rq_frontBlock (sq s) \<noteq> p \<or> p = rq_tailBlock (sq s)" using assms(10) b(4) d(2) by auto
    show "(X(p := xs)) (rq_frontBlock (sq s)) \<noteq> [] \<and> hd ((X(p := xs)) (rq_frontBlock (sq s))) = hd (X (rq_frontBlock (sq s)))"
      if "X (rq_frontBlock (sq s)) \<noteq> []" using assms(10) that b(4) d(2) by auto
    show "rq_tailBlock q \<noteq> rq_frontBlock (sq s) \<and> (X(p := xs)) (rq_frontBlock (sq s)) = X (rq_frontBlock (sq s)) \<and> hd (tl fs) = hd (tl fs)"
      if "rq_tailBlock (sq s) \<noteq> rq_frontBlock (sq s)" using f that assms(12) by auto
  qed (use assms(2,4-6,12) in \<open>auto simp: upd_block_nth\<close>)
  moreover have "enq_ok q fs rs (X(p := xs)) pc"
    using assms(11) unfolding assms(12) by (cases pc) (simp_all add: next_of_def)
  ultimately show ?thesis
    using ring blocks n assms(9,12,13) r(5,6,10,11,12) c unfolding rw_at_def by simp
qed

lemma upd_block_id [simp]: "upd_block p (\<lambda>b. b) q = q"
  by (simp add: upd_block_def)

lemma flag_idem [simp]: "rq_enqueuing q \<Longrightarrow> q\<lparr>rq_enqueuing := True\<rparr> = q" "rq_dequeuing q \<Longrightarrow> q\<lparr>rq_dequeuing := True\<rparr> = q"
  by (cases q; simp)+

lemma rw_at_blk: "rw_at s fs rs X \<Longrightarrow> p < length (rq_blocks (sq s)) \<Longrightarrow>
    blk_ok (rq_blocks (sq s) ! p) (X p) (holding (s_deq s) = Some p) (constructed (s_enq s) p)"
  using rw_at_pieces(2) [of s fs rs X] by (simp add: blocks_ok_def)

text \<open>A step of the producer's that only goes on.\<close>

lemma rw_at_produce_skip:
  assumes "rw_at s fs rs X" "constructed pc = constructed (s_enq s)" "pending pc = pending (s_enq s)" "enq_ok (sq s) fs rs X pc" "linking pc = linking (s_enq s)"
  shows "rw_at (s\<lparr>sq := (sq s)\<lparr>rq_enqueuing := enq_busy pc\<rparr>, s_enq := pc\<rparr>) fs rs X"
proof -
  note r = rw_at_pieces [OF assms(1)]
  have "rw_at (s\<lparr>sq := (sq s)\<lparr>rq_enqueuing := enq_busy pc\<rparr>, s_enq := pc, h_enqueued := h_enqueued s @ []\<rparr>) fs rs
      (X(rq_tailBlock (sq s) := X (rq_tailBlock (sq s))))"
  proof (rule rw_at_produce [OF assms(1) ring_ok_blocks(2) [OF r(1)], where f = "\<lambda>b. b"])
    show "blk_ok (rq_blocks (sq s) ! rq_tailBlock (sq s)) (X (rq_tailBlock (sq s))) (holding (s_deq s) = Some (rq_tailBlock (sq s)))
        (constructed pc (rq_tailBlock (sq s)))"
      using rw_at_blk [OF assms(1) ring_ok_blocks(2) [OF r(1)]] assms(2) by simp
  qed (use assms r in simp_all)
  then show ?thesis by simp
qed

lemma enqueue_at:
  assumes "rw_at s fs rs X" "\<not> enq_busy (s_enq s)"
  shows "\<exists>s'. rw_step mx (Enqueue a x) s = Some s' \<and> rw_at s' fs rs X"
proof -
  note r = rw_at_pieces [OF assms(1)]
  let ?tb = "rq_tailBlock (sq s)"
  let ?b = "rq_blocks (sq s) ! ?tb"
  let ?pc = "if inc ?b (b_tail ?b) \<noteq> b_localFront ?b then Enq_Construct x ?tb (b_tail ?b) (inc ?b (b_tail ?b)) else Enq_Front a x ?tb (b_tail ?b) (inc ?b (b_tail ?b))"
  have "rw_at (s\<lparr>sq := (sq s)\<lparr>rq_enqueuing := enq_busy ?pc\<rparr>, s_enq := ?pc\<rparr>) fs rs X"
    by (rule rw_at_produce_skip [OF assms(1)]) (use assms(2) in \<open>auto simp: fun_eq_iff elim: enq_busy.elims\<close>)
  moreover have "rw_step mx (Enqueue a x) s = Some (s\<lparr>sq := (sq s)\<lparr>rq_enqueuing := enq_busy ?pc\<rparr>, s_enq := ?pc\<rparr>)"
    using r(9) assms(2) ring_ok_blocks(2) [OF r(1)] by (simp add: inner_enqueue_def get_block_def Let_def)
  ultimately show ?thesis by blast
qed

text \<open>A step of a call that only writes one block: the new state is that of the code.\<close>

lemma produced:
  assumes "rw_at (s\<lparr>sq := (upd_block p f (sq s))\<lparr>rq_enqueuing := enq_busy pc\<rparr>, s_enq := pc, h_enqueued := h_enqueued s @ enqueued_by (s_enq s)\<rparr>) fs rs X"
    "enq_step mx ok (s_enq s) (sq s) = Some (if enq_busy pc then (pc, upd_block p f (sq s)) else enq_return True (upd_block p f (sq s)))"
    "rq_enqueuing (sq s)" "\<not> enq_busy pc \<Longrightarrow> pc = Enq_Return True"
  shows "\<exists>s'. rw_step mx (Produce ok) s = Some s' \<and> rw_at s' fs rs X"
  using assms by (cases "enq_busy pc") (auto simp: enq_return_def)

lemma produce_front:
  assumes "rw_at s fs rs X" "s_enq s = Enq_Front a x tb bt nbt"
  shows "\<exists>s'. rw_step mx (Produce ok) s = Some s' \<and> rw_at s' fs rs (X(tb := X tb))"
proof -
  note r = rw_at_pieces [OF assms(1)]
  let ?b = "rq_blocks (sq s) ! tb"
  have tb: "tb = rq_tailBlock (sq s)" "tb < length (rq_blocks (sq s))" "nbt = inc ?b bt" "bt = b_tail ?b"
    using r(7) assms(2) ring_ok_blocks(2) [OF r(1)] by simp_all
  let ?pc = "if nbt \<noteq> b_front ?b then Enq_Construct x tb bt nbt else Enq_Next a x tb"
  let ?f = "b_localFront_update (\<lambda>_. b_front ?b)"
  have b: "blk_ok (?f ?b) (X tb) (holding (s_deq s) = Some tb) None"
    using blk_ok_localFront [OF rw_at_blk [OF assms(1) tb(2)]] assms(2) by simp
  show ?thesis
  proof (rule produced [where f = ?f and pc = ?pc, OF rw_at_produce [OF assms(1) tb(2), where f = ?f]])
    show "enq_ok (upd_block tb ?f (sq s)) fs rs (X(tb := X tb)) ?pc"
      using tb by (simp add: upd_block_nth inc_def)
  qed (use assms(2) r(4,9) tb b in \<open>auto split: if_splits\<close>)
qed

lemma produce_construct:
  assumes "rw_at s fs rs X" "s_enq s = Enq_Construct x tb bt nbt"
  shows "\<exists>s'. rw_step mx (Produce ok) s = Some s' \<and> rw_at s' fs rs (X(tb := X tb))"
proof -
  note r = rw_at_pieces [OF assms(1)]
  let ?b = "rq_blocks (sq s) ! tb"
  have tb: "tb = rq_tailBlock (sq s)" "tb < length (rq_blocks (sq s))" "nbt = inc ?b bt" "bt = b_tail ?b" "nbt \<noteq> b_localFront ?b"
    using r(7) assms(2) ring_ok_blocks(2) [OF r(1)] by auto
  let ?f = "\<lambda>_. put_slot bt (Some x) ?b"
  have "blk_ok ?b (X tb) (holding (s_deq s) = Some tb) None" using rw_at_blk [OF assms(1) tb(2)] assms(2) by simp
  note b = blk_ok_construct [OF this, of x, folded tb(4)]
  show ?thesis
  proof (rule produced [where f = ?f and pc = "Enq_Tail x tb nbt", OF rw_at_produce [OF assms(1) tb(2), where f = ?f]])
    show "enq_ok (upd_block tb ?f (sq s)) fs rs (X(tb := X tb)) (Enq_Tail x tb nbt)"
      using tb by (simp add: upd_block_nth inc_def put_slot_def)
  qed (use assms(2) r(4,9) tb(1,2) b in \<open>auto simp: put_slot_def\<close>)
qed

lemma produce_tail:
  assumes "rw_at s fs rs X" "s_enq s = Enq_Tail x tb nbt"
  shows "\<exists>s'. rw_step mx (Produce ok) s = Some s' \<and> rw_at s' fs rs (X(tb := X tb @ [x]))"
proof -
  note r = rw_at_pieces [OF assms(1)]
  let ?b = "rq_blocks (sq s) ! tb"
  have tb: "tb = rq_tailBlock (sq s)" "tb < length (rq_blocks (sq s))" "nbt = inc ?b (b_tail ?b)" "nbt \<noteq> b_localFront ?b" "tb \<notin> set rs"
    using r(7) assms(2) ring_ok_blocks(2,5) [OF r(1)] r(1) by (auto simp: ring_ok_def)
  let ?f = "b_tail_update (\<lambda>_. nbt)"
  have "blk_ok ?b (X tb) (holding (s_deq s) = Some tb) (Some x)" using rw_at_blk [OF assms(1) tb(2)] assms(2) by simp
  note b = blk_ok_tail [OF this, folded tb(3), OF tb(4)]
  show ?thesis
  proof (rule produced [where f = ?f and pc = "Enq_Return True", OF rw_at_produce [OF assms(1) tb(2), where f = ?f]])
    show "(X(tb := X tb @ [x])) p = pending (Enq_Return True) p" if "p \<in> set rs" for p
      using r(4) [OF that] assms(2) that tb(5) by auto
  qed (use assms(2) r(9) tb(1,2) b in \<open>auto\<close>)
qed

lemma produce_next_front:
  assumes "rw_at s fs rs X" "s_enq s = Enq_NextFront x nb"
  shows "\<exists>s'. rw_step mx (Produce ok) s = Some s' \<and> rw_at s' fs rs (X(nb := X nb))"
proof -
  note r = rw_at_pieces [OF assms(1)]
  let ?b = "rq_blocks (sq s) ! nb"
  have nb: "nb \<in> set rs" "rs \<noteq> []" "nb = hd rs" "nb < length (rq_blocks (sq s))" "X nb = []"
    using r(4,7) assms(2) ring_ok_blocks(3) [OF r(1)] by auto
  let ?f = "b_localFront_update (\<lambda>_. b_front ?b)"
  have b: "blk_ok ?b (X nb) (holding (s_deq s) = Some nb) None" using rw_at_blk [OF assms(1) nb(4)] assms(2) by simp
  have e: "b_front ?b = b_tail ?b" using blk_ok_tests(1) [OF b] nb(5) by simp
  show ?thesis
  proof (rule produced [where f = ?f and pc = "Enq_NextConstruct x nb (b_tail ?b)", OF rw_at_produce [OF assms(1) nb(4), where f = ?f]])
    show "enq_ok (upd_block nb ?f (sq s)) fs rs (X(nb := X nb)) (Enq_NextConstruct x nb (b_tail ?b))"
      using nb(2-4) e by (simp add: upd_block_nth)
  qed (use assms(2) r(4,9) nb(1,4) e blk_ok_localFront [OF b] in \<open>auto\<close>)
qed

lemma produce_next_construct:
  assumes "rw_at s fs rs X" "s_enq s = Enq_NextConstruct x nb bt"
  shows "\<exists>s'. rw_step mx (Produce ok) s = Some s' \<and> rw_at s' fs rs (X(nb := X nb))"
proof -
  note r = rw_at_pieces [OF assms(1)]
  let ?b = "rq_blocks (sq s) ! nb"
  have nb: "nb \<in> set rs" "rs \<noteq> []" "nb = hd rs" "nb < length (rq_blocks (sq s))" "bt = b_tail ?b" "b_localFront ?b = b_front ?b"
    using r(7) assms(2) ring_ok_blocks(3) [OF r(1)] by auto
  let ?f = "\<lambda>_. put_slot bt (Some x) ?b"
  have "blk_ok ?b (X nb) (holding (s_deq s) = Some nb) None" using rw_at_blk [OF assms(1) nb(4)] assms(2) by simp
  note b = blk_ok_construct [OF this, of x, folded nb(5)]
  show ?thesis
  proof (rule produced [where f = ?f and pc = "Enq_NextTail x nb (inc ?b bt)", OF rw_at_produce [OF assms(1) nb(4), where f = ?f]])
    show "enq_ok (upd_block nb ?f (sq s)) fs rs (X(nb := X nb)) (Enq_NextTail x nb (inc ?b bt))"
      using nb(2-6) by (simp add: upd_block_nth inc_def put_slot_def)
  qed (use assms(2) r(4,9) nb(1,4) b in \<open>auto simp: put_slot_def inc_def\<close>)
qed

lemma produce_next_tail:
  assumes "rw_at s fs rs X" "s_enq s = Enq_NextTail x nb t"
  shows "\<exists>s'. rw_step mx (Produce ok) s = Some s' \<and> rw_at s' fs rs (X(nb := X nb @ [x]))"
proof -
  note r = rw_at_pieces [OF assms(1)]
  let ?b = "rq_blocks (sq s) ! nb"
  have nb: "nb \<in> set rs" "rs \<noteq> []" "nb = hd rs" "nb < length (rq_blocks (sq s))" "t = inc ?b (b_tail ?b)" "b_localFront ?b = b_front ?b" "X nb = []"
    using r(4,7) assms(2) ring_ok_blocks(3) [OF r(1)] by auto
  let ?f = "b_tail_update (\<lambda>_. t)"
  have b: "blk_ok ?b (X nb) (holding (s_deq s) = Some nb) (Some x)" using rw_at_blk [OF assms(1) nb(4)] assms(2) by simp
  have "t \<noteq> b_localFront ?b" using blk_ok_tests(3) [OF b nb(7)] nb(5,6) by simp
  note b = blk_ok_tail [OF b, folded nb(5), OF this]
  show ?thesis
  proof (rule produced [where f = ?f and pc = "Enq_TailBlock x nb", OF rw_at_produce [OF assms(1) nb(4), where f = ?f]])
    show "enq_ok (upd_block nb ?f (sq s)) fs rs (X(nb := X nb @ [x])) (Enq_TailBlock x nb)" using nb(2,3) by simp
  qed (use assms(2) r(4,9) nb(1,4,7) b in \<open>auto\<close>)
qed

lemma produce_next:
  assumes "rw_at s fs rs X" "s_enq s = Enq_Next a x tb"
  shows "\<exists>s'. rw_step mx (Produce ok) s = Some s' \<and> rw_at s' fs rs X"
proof -
  note r = rw_at_pieces [OF assms(1)]
  have tb: "tb = rq_tailBlock (sq s)" "tb < length (rq_blocks (sq s))"
    using r(7) assms(2) ring_ok_blocks(2) [OF r(1)] by simp_all
  have n: "b_next (rq_blocks (sq s) ! tb) = Some (hd (rs @ [rq_frontBlock (sq s)]))"
    using ring_ok_blocks(7) [OF r(1)] tb(1) by (simp add: next_of_def)
  have f: "rs \<noteq> [] \<Longrightarrow> hd rs \<noteq> rq_frontBlock (sq s)" using ring_ok_blocks(4,6) [OF r(1)] by auto
  let ?pc = "if rs \<noteq> [] then Enq_NextFront x (hd rs) else if a then Enq_Alloc x tb else Enq_Return False"
  have "rw_at (s\<lparr>sq := (sq s)\<lparr>rq_enqueuing := enq_busy ?pc\<rparr>, s_enq := ?pc\<rparr>) fs rs X"
    by (rule rw_at_produce_skip [OF assms(1)]) (use assms(2) tb(1) in \<open>auto simp: fun_eq_iff\<close>)
  moreover have "rw_step mx (Produce ok) s = Some (s\<lparr>sq := (sq s)\<lparr>rq_enqueuing := enq_busy ?pc\<rparr>, s_enq := ?pc\<rparr>)"
    using assms(2) tb n f r(9) by (auto simp: enq_return_def)
  ultimately show ?thesis by blast
qed

lemma unat_lt_2p64: "unat (w :: u64) < 2 ^ 64"
  using unsigned_less [of w] by simp

lemma power_lt_2p64: "unat (w :: u64) = 2 ^ k \<Longrightarrow> (2 :: nat) ^ k < 2 ^ 64"
  using unat_lt_2p64 [of w] by simp

text \<open>A new block, with its first element.\<close>

lemma new_block:
  assumes "unat n = 2 ^ k" "1 \<le> k"
  shows "construct 0 x (make_block n) = Some (put_slot 0 (Some x) (make_block n))"
    "blk_ok ((put_slot 0 (Some x) (make_block n))\<lparr>b_tail := 1, b_localTail := 1, b_next := p\<rparr>) [x] False None"
proof -
  have k: "k < 64" using power_lt_2p64 [OF assms(1)] by (simp only: power_strict_increasing_iff)
  have two: "(2 :: nat) \<le> 2 ^ k" using self_le_power [of "2 :: nat" k] assms(2) by simp
  have "unat (n - 1) = 2 ^ k - 1" using assms(1) by (subst unat_sub) (simp_all add: word_le_nat_alt)
  then have "blk_at k 0 0 1 ((put_slot 0 (Some x) (make_block n))\<lparr>b_tail := 1, b_localTail := 1, b_next := p\<rparr>) [x] False None"
    using assms k two by (auto simp: blk_at_def make_block_def put_slot_def nth_list_update)
  then show "blk_ok ((put_slot 0 (Some x) (make_block n))\<lparr>b_tail := 1, b_localTail := 1, b_next := p\<rparr>) [x] False None"
    by (auto simp: blk_ok_def)
  show "construct 0 x (make_block n) = Some (put_slot 0 (Some x) (make_block n))"
    using assms by (simp add: construct_def make_block_def)
qed

lemma new_size:
  assumes "unat mx = 2 ^ m" "unat largest = 2 ^ k" "1 \<le> k"
  shows "\<exists>j\<ge>1. unat (if mx \<le> largest then largest else largest * 2 :: u64) = 2 ^ j"
proof (cases "mx \<le> largest")
  case False
  then have "k < m" using assms(1,2) by (simp add: word_le_nat_alt not_le)
  then have "(2 :: nat) ^ Suc k \<le> 2 ^ m" by (intro power_increasing) simp_all
  also have "\<dots> < 2 ^ 64" by (rule power_lt_2p64 [OF assms(1)])
  finally have "unat (largest * 2) = 2 ^ Suc k" using assms(2) by (simp add: unat_word_ariths mult.commute)
  then show ?thesis using False by (intro exI [of _ "Suc k"]) simp
qed (use assms in auto)

lemma chain_cong: "(\<And>p. p \<in> set ps \<Longrightarrow> nx p = ny p) \<Longrightarrow> chain nx ps r = chain ny ps r"
  by (induction ps) auto

lemma produce_alloc:
  assumes "rw_at s fs rs X" "s_enq s = Enq_Alloc x tb" "unat mx = 2 ^ m"
  shows "\<exists>s' X'. rw_step mx (Produce ok) s = Some s' \<and> rw_at s' fs rs X'"
proof (cases ok)
  case False
  have "rw_at (s\<lparr>sq := (sq s)\<lparr>rq_enqueuing := enq_busy (Enq_Return False :: 'a enq_pc)\<rparr>, s_enq := Enq_Return False\<rparr>) fs rs X"
    by (rule rw_at_produce_skip [OF assms(1)]) (use assms(2) in \<open>auto simp: fun_eq_iff\<close>)
  then show ?thesis using assms(2) False by (auto simp: enq_return_def)
next
  case True
  note r = rw_at_pieces [OF assms(1)]
  let ?q = "sq s"
  let ?nb = "length (rq_blocks ?q)"
  have tb: "tb = rq_tailBlock ?q" "tb < ?nb" using r(7) assms(2) ring_ok_blocks(2) [OF r(1)] by simp_all
  define n where "n = (if mx \<le> rq_largestBlockSize ?q then rq_largestBlockSize ?q else rq_largestBlockSize ?q * 2)"
  obtain k where k: "unat n = 2 ^ k" "1 \<le> k" using new_size [OF assms(3)] r(11) unfolding n_def by blast
  define b where "b = (put_slot 0 (Some x) (make_block n))\<lparr>b_tail := 1, b_localTail := 1, b_next := b_next (rq_blocks ?q ! tb)\<rparr>"
  define q' where "q' = ?q\<lparr>rq_blocks := rq_blocks ?q @ [b], rq_largestBlockSize := n\<rparr>"
  have bs: "rq_blocks q' ! p = rq_blocks ?q ! p" if "p < ?nb" for p using that by (simp add: q'_def nth_append)
  have b': "rq_blocks q' ! ?nb = b" "length (rq_blocks q') = Suc ?nb" by (simp_all add: q'_def)
  have in_ring: "p < ?nb" if "p \<in> set (fs @ rs)" for p using r(1) that unfolding ring_ok_def by blast
  then have out: "?nb \<notin> set fs" "?nb \<notin> set rs" by (metis Un_iff less_irrefl set_append)+
  let ?X = "X(?nb := [x])"
  have nx: "next_of q' p = next_of ?q p" if "p \<in> set (fs @ rs)" for p using bs [OF in_ring [OF that]] by (simp add: next_of_def)
  have "chain (next_of q') (fs @ rs) (rq_frontBlock ?q)"
    using r(1) chain_cong [of "fs @ rs" "next_of q'" "next_of ?q"] nx unfolding ring_ok_def by blast
  then have ring: "ring_ok q' fs rs" using r(1) unfolding ring_ok_def by (auto simp: q'_def)
  have "rq_frontBlock ?q \<noteq> ?nb" using ring_ok_blocks(1) [OF r(1)] by simp
  then have X: "concat (map ?X fs) = concat (map X fs)" "?X (rq_frontBlock ?q) = X (rq_frontBlock ?q)" using out by auto
  have blocks: "blocks_ok q' ?X (holding (s_deq s)) (constructed (Enq_Link x tb ?nb))"
  proof -
    have "holding (s_deq s) \<noteq> Some ?nb" using r(8) ring_ok_blocks(1) [OF r(1)] by (cases "s_deq s") auto
    then show ?thesis
      using rw_at_blk [OF assms(1)] new_block(2) [OF k, where x = x and p = "b_next (rq_blocks ?q ! tb)"] bs b' assms(2)
      by (auto simp: blocks_ok_def less_Suc_eq b_def)
  qed
  have "deq_ok q' fs ?X (h_before s) (h_dequeued s) (s_deq s)"
    by (rule deq_ok_stable [OF r(8) r(1)]) (use X bs in_ring out in \<open>auto simp: q'_def\<close>)
  moreover have "\<forall>p\<in>set (tl fs). ?X p \<noteq> []" "\<forall>p\<in>set rs. ?X p = []" using r(3,4) out assms(2) by auto
  moreover have "enq_ok q' fs rs ?X (Enq_Link x tb ?nb)"
    using tb out bs b' by (simp add: next_of_def b_def q'_def)
  ultimately have "rw_at (s\<lparr>sq := q', s_enq := Enq_Link x tb ?nb, h_enqueued := h_enqueued s @ []\<rparr>) fs rs ?X"
    using ring blocks r(5,6,9,10,12) k assms(2) X(1) unfolding rw_at_def by (simp add: q'_def lessThan_Suc)
  moreover have "rw_step mx (Produce ok) s = Some (s\<lparr>sq := q', s_enq := Enq_Link x tb ?nb, h_enqueued := h_enqueued s @ []\<rparr>)"
    using True assms(2) tb new_block(1) [OF k, of x] by (simp add: q'_def b_def Let_def flip: n_def)
  ultimately show ?thesis by blast
qed

lemma produce_link:
  assumes "rw_at s fs rs X" "s_enq s = Enq_Link x tb nb"
  shows "\<exists>s'. rw_step mx (Produce ok) s = Some s' \<and> rw_at s' fs (nb # rs) X"
proof -
  note r = rw_at_pieces [OF assms(1)]
  let ?q = "sq s"
  let ?q' = "upd_block tb (b_next_update (\<lambda>_. Some nb)) ?q"
  have tb: "tb = rq_tailBlock ?q" "tb < length (rq_blocks ?q)" "nb < length (rq_blocks ?q)" "nb \<notin> set (fs @ rs)" "next_of ?q nb = next_of ?q tb" "X nb = [x]"
    using r(7) assms(2) ring_ok_blocks(2) [OF r(1)] by auto
  obtain gs where fs: "fs = gs @ [tb]" using r(1) tb(1) append_butlast_last_id unfolding ring_ok_def by metis
  have ch: "chain (next_of ?q) (fs @ rs) (rq_frontBlock ?q)" "distinct (fs @ rs)" using r(1) unfolding ring_ok_def by blast+
  have nx: "next_of ?q' = (next_of ?q)(tb := Some nb)" using next_of_upd [OF tb(2)] by simp
  have "ring_ok ?q' fs (nb # rs)"
    using r(1) ch tb ring_ok_blocks(7) [OF r(1)] fs unfolding ring_ok_def nx by auto
  moreover have "blocks_ok ?q' X (holding (s_deq s)) (constructed (Enq_TailBlock x nb))"
  proof (rule blocks_ok_upd [OF r(2) tb(2)])
    have "blk_at k F LF LT (b\<lparr>b_next := p\<rparr>) xs h w = blk_at k F LF LT b xs h w" for k F LF LT b p xs h and w :: "'a option"
      by (simp add: blk_at_def)
    then show "blk_ok ((rq_blocks ?q ! tb)\<lparr>b_next := Some nb\<rparr>) (X tb) (holding (s_deq s) = Some tb) (constructed (Enq_TailBlock x nb) tb)"
      using rw_at_blk [OF assms(1) tb(2)] assms(2) by (simp add: blk_ok_def)
  qed (use assms(2) in simp)
  moreover have "deq_ok ?q' fs X (h_before s) (h_dequeued s) (s_deq s)"
    by (rule deq_ok_stable [OF r(8) r(1)]) (use tb(2) in \<open>auto simp: upd_block_nth\<close>)
  moreover have "\<forall>p\<in>set (nb # rs). X p = pending (Enq_TailBlock x nb) p" using r(4) tb(4,6) assms(2) by auto
  ultimately have "rw_at (s\<lparr>sq := ?q', s_enq := Enq_TailBlock x nb, h_enqueued := h_enqueued s @ []\<rparr>) fs (nb # rs) X"
    using r(3,5,6,9,10,11,12) assms(2) unfolding rw_at_def by simp
  then show ?thesis using assms(2) by auto
qed

lemma produce_tail_block:
  assumes "rw_at s fs rs X" "s_enq s = Enq_TailBlock x nb"
  shows "\<exists>s'. rw_step mx (Produce ok) s = Some s' \<and> rw_at s' (fs @ [nb]) (tl rs) X"
proof -
  note r = rw_at_pieces [OF assms(1)]
  let ?q = "sq s"
  let ?q' = "?q\<lparr>rq_tailBlock := nb, rq_enqueuing := False\<rparr>"
  obtain qs where rs: "rs = nb # qs" using r(7) assms(2) by (cases rs) auto
  have ne: "fs \<noteq> []" using r(1) unfolding ring_ok_def by blast
  have nx: "next_of ?q' = next_of ?q" by (simp add: next_of_def fun_eq_iff)
  have X: "X nb = [x]" "\<forall>p\<in>set qs. X p = []" using r(1,4) assms(2) rs by (auto simp: ring_ok_def)
  have "ring_ok ?q' (fs @ [nb]) qs" using r(1) rs unfolding ring_ok_def nx by auto
  moreover have "blocks_ok ?q' X (holding (s_deq s)) (constructed (Enq_Return True))" using r(2) assms(2) by (simp add: blocks_ok_def)
  moreover have "deq_ok ?q' (fs @ [nb]) X (h_before s) (h_dequeued s) (s_deq s)"
  proof (rule deq_ok_stable [OF r(8) r(1)])
    assume a: "rq_tailBlock ?q \<noteq> rq_frontBlock ?q"
    then show "rq_tailBlock ?q' \<noteq> rq_frontBlock ?q \<and> X (rq_frontBlock ?q) = X (rq_frontBlock ?q) \<and> hd (tl (fs @ [nb])) = hd (tl fs)"
      using ring_ok_blocks(4,6,8) [OF r(1)] rs by auto
  next
    assume "concat (map X fs) \<noteq> []"
    then show "concat (map X (fs @ [nb])) \<noteq> [] \<and> hd (concat (map X (fs @ [nb]))) = hd (concat (map X fs))" by auto
  qed auto
  moreover have "\<forall>p\<in>set (tl (fs @ [nb])). X p \<noteq> []" using r(3) X(1) ne by auto
  ultimately have "rw_at (s\<lparr>sq := ?q', s_enq := Enq_Return True, h_enqueued := h_enqueued s @ [x]\<rparr>) (fs @ [nb]) (tl rs) X"
    using r(5,6,10,11,12) X rs assms(2) unfolding rw_at_def by simp
  then show ?thesis using assms(2) by (auto simp: enq_return_def)
qed

lemma produce_at:
  assumes "rw_at s fs rs X" "enq_busy (s_enq s)" "unat mx = 2 ^ m"
  shows "\<exists>s' fs' rs' X'. rw_step mx (Produce ok) s = Some s' \<and> rw_at s' fs' rs' X'"
proof (cases "s_enq s")
  case Enq_Idle
  then show ?thesis using assms(2) by simp
next
  case (Enq_Return b)
  then show ?thesis using assms(2) by simp
qed (meson produce_front produce_construct produce_tail produce_next produce_next_front produce_next_construct produce_next_tail produce_alloc
      produce_link produce_tail_block assms)+

text \<open>A step of the consumer that leaves the ring as it is.\<close>

lemma rw_at_consume:
  assumes "rw_at s fs rs X" "p \<in> set fs" "blk_ok (f (rq_blocks (sq s) ! p)) xs (holding pc = Some p) (constructed (s_enq s) p)"
    "b_tail (f (rq_blocks (sq s) ! p)) = b_tail (rq_blocks (sq s) ! p)" "b_localFront (f (rq_blocks (sq s) ! p)) = b_localFront (rq_blocks (sq s) ! p)"
    "b_sizeMask (f (rq_blocks (sq s) ! p)) = b_sizeMask (rq_blocks (sq s) ! p)" "b_next (f (rq_blocks (sq s) ! p)) = b_next (rq_blocks (sq s) ! p)"
    "\<And>r. r \<noteq> p \<Longrightarrow> (holding pc = Some r) = (holding (s_deq s) = Some r)"
    "X p = ds @ xs" "p = rq_frontBlock (sq s) \<or> ds = []"
    "deq_ok (upd_block p f (sq s)) fs (X(p := xs)) (h_before s) (h_dequeued s @ ds) pc"
    "q = (upd_block p f (sq s))\<lparr>rq_dequeuing := deq_busy pc\<rparr>"
  shows "rw_at (s\<lparr>sq := q, s_deq := pc, h_dequeued := h_dequeued s @ ds\<rparr>) fs rs (X(p := xs))"
proof -
  note r = rw_at_pieces [OF assms(1)]
  have p: "p < length (rq_blocks (sq s))" "p \<notin> set rs" using r(1) assms(2) by (auto simp: ring_ok_def)
  have ring: "ring_ok q fs rs"
    using ring_ok_upd [where f = f, OF r(1) p(1) assms(7)] unfolding assms(12) ring_ok_def by (simp add: next_of_def [abs_def])
  have blocks: "blocks_ok q (X(p := xs)) (holding pc) (constructed (s_enq s))"
    using blocks_ok_upd [where f = f, OF r(2) p(1), of "X(p := xs)" "holding pc" "constructed (s_enq s)"] assms(3,8)
    unfolding assms(12) by (simp add: blocks_ok_def)
  obtain gs where fs: "fs = rq_frontBlock (sq s) # gs" "rq_frontBlock (sq s) \<notin> set gs" using r(1) by (cases fs) (auto simp: ring_ok_def)
  have c: "concat (map X fs) = ds @ concat (map (X(p := xs)) fs)"
  proof (cases "ds = []")
    case True
    then have "X(p := xs) = X" using assms(9) by (simp add: fun_eq_iff)
    then show ?thesis using True by simp
  qed (use assms(9,10) fs in auto)
  have n: "(X(p := xs)) r \<noteq> []" if "r \<in> set (tl fs)" for r
    using r(3) [OF that] assms(9,10) fs that by (cases "ds = []") auto
  have e: "enq_ok q fs rs (X(p := xs)) (s_enq s)"
    by (rule enq_ok_stable [OF r(7)]) (use assms(2,4-7,12) p ring_ok_blocks(6) [OF r(1)] in \<open>auto simp: upd_block_nth\<close>)
  have d: "deq_ok q fs (X(p := xs)) (h_before s) (h_dequeued s @ ds) pc"
    using assms(11) unfolding assms(12) by (cases pc; cases "s_deq s") (auto split: option.splits elim: deq_ok.elims)
  show ?thesis
    using ring blocks n r(4-6,9,11,12) p(2) c e d assms(12) unfolding rw_at_def by auto
qed

lemma rw_at_consume_skip:
  assumes "rw_at s fs rs X" "holding pc = holding (s_deq s)" "deq_ok (sq s) fs X (h_before s) (h_dequeued s) pc"
  shows "rw_at (s\<lparr>sq := (sq s)\<lparr>rq_dequeuing := deq_busy pc\<rparr>, s_deq := pc, h_dequeued := h_dequeued s @ []\<rparr>) fs rs X"
proof -
  let ?f = "rq_frontBlock (sq s)"
  note r = rw_at_pieces [OF assms(1)]
  have "rw_at (s\<lparr>sq := (sq s)\<lparr>rq_dequeuing := deq_busy pc\<rparr>, s_deq := pc, h_dequeued := h_dequeued s @ []\<rparr>) fs rs (X(?f := X ?f))"
    by (rule rw_at_consume [where f = "\<lambda>b. b", OF assms(1) ring_ok_blocks(4) [OF r(1)]])
      (use assms(2,3) rw_at_blk [OF assms(1) ring_ok_blocks(1) [OF r(1)]] in simp_all)
  then show ?thesis by simp
qed

lemma dequeue_at:
  fixes s :: "'a rw_sys"
  assumes "rw_at s fs rs X" "\<not> deq_busy (s_deq s)"
  shows "\<exists>s'. rw_step mx (Dequeue op) s = Some s' \<and> rw_at s' fs rs X"
proof -
  note r = rw_at_pieces [OF assms(1)]
  let ?n = "s\<lparr>s_deq := Deq_Idle, h_before := length (h_enqueued s)\<rparr>"
  let ?b = "rq_blocks (sq s) ! rq_frontBlock (sq s)"
  let ?pc = "if b_front ?b \<noteq> b_localTail ?b then Deq_Take op (rq_frontBlock (sq s)) (b_front ?b) else Deq_Tail op (rq_frontBlock (sq s)) (b_front ?b) :: 'a deq_pc"
  have h: "holding (s_deq s) = None" using assms(2) by (cases "s_deq s") auto
  then have "rw_at ?n fs rs X" using assms unfolding rw_at_def by simp
  then have "rw_at (?n\<lparr>sq := (sq ?n)\<lparr>rq_dequeuing := deq_busy ?pc\<rparr>, s_deq := ?pc, h_dequeued := h_dequeued ?n @ []\<rparr>) fs rs X"
    by (rule rw_at_consume_skip [where s = ?n and pc = ?pc]) auto
  then show ?thesis
    using r(10) assms(2) ring_ok_blocks(1) [OF r(1)] by (cases s) (auto simp: deq_start_def get_block_def Let_def)
qed

lemma consumed:
  assumes "rw_at (s\<lparr>sq := q, s_deq := pc, h_dequeued := h_dequeued s @ dequeued_by (s_deq s)\<rparr>) fs rs X" "deq_step (s_deq s) (sq s) = Some (pc, q)"
  shows "\<exists>s'. rw_step mx Consume s = Some s' \<and> rw_at s' fs rs X"
  using assms by auto

lemma consume_tail:
  assumes "rw_at s fs rs X" "s_deq s = Deq_Tail op fb bf"
  shows "\<exists>s'. rw_step mx Consume s = Some s' \<and> rw_at s' fs rs (X(fb := X fb))"
proof -
  note r = rw_at_pieces [OF assms(1)]
  let ?b = "rq_blocks (sq s) ! fb"
  have fb: "fb = rq_frontBlock (sq s)" "fb < length (rq_blocks (sq s))" "bf = b_front ?b" "fb \<in> set fs"
    using r(8) assms(2) ring_ok_blocks(1,4) [OF r(1)] by auto
  let ?pc = "if bf \<noteq> b_tail ?b then Deq_Take op fb bf else Deq_TailBlock op fb"
  let ?f = "b_localTail_update (\<lambda>_. b_tail ?b)"
  have b: "blk_ok ?b (X fb) False (constructed (s_enq s) fb)" using rw_at_blk [OF assms(1) fb(2)] assms(2) by simp
  have e: "h_before s \<le> length (h_dequeued s)" if "bf = b_tail ?b" "rq_tailBlock (sq s) = fb"
    using r(5,6) ring_ok_blocks(9) [OF r(1)] that fb(1,3) blk_ok_tests(1) [OF b] by simp
  show ?thesis
  proof (rule consumed [OF rw_at_consume [where f = ?f and pc = ?pc, OF assms(1) fb(4)]])
    show "deq_ok (upd_block fb ?f (sq s)) fs (X(fb := X fb)) (h_before s) (h_dequeued s @ dequeued_by (s_deq s)) ?pc"
      using fb e assms(2) by (auto simp: upd_block_nth)
  qed (use assms(2) r(10) fb b blk_ok_localTail [OF b] in auto)
qed

lemma consume_again:
  assumes "rw_at s fs rs X" "s_deq s = Deq_Again op"
  shows "\<exists>s'. rw_step mx Consume s = Some s' \<and> rw_at s' fs rs (X(rq_frontBlock (sq s) := X (rq_frontBlock (sq s))))"
proof -
  note r = rw_at_pieces [OF assms(1)]
  let ?fb = "rq_frontBlock (sq s)"
  let ?b = "rq_blocks (sq s) ! ?fb"
  have fb: "?fb < length (rq_blocks (sq s))" "?fb \<in> set fs" "rq_tailBlock (sq s) \<noteq> ?fb"
    using r(8) assms(2) ring_ok_blocks(1,4) [OF r(1)] by auto
  let ?pc = "if b_front ?b \<noteq> b_tail ?b then Deq_Take op ?fb (b_front ?b) else Deq_Next op ?fb"
  let ?f = "b_localTail_update (\<lambda>_. b_tail ?b)"
  have b: "blk_ok ?b (X ?fb) False (constructed (s_enq s) ?fb)" using rw_at_blk [OF assms(1) fb(1)] assms(2) by simp
  show ?thesis
  proof (rule consumed [OF rw_at_consume [where f = ?f and pc = ?pc, OF assms(1) fb(2)]])
    show "deq_ok (upd_block ?fb ?f (sq s)) fs (X(?fb := X ?fb)) (h_before s) (h_dequeued s @ dequeued_by (s_deq s)) ?pc"
      using fb blk_ok_tests(1) [OF b] assms(2) by (auto simp: upd_block_nth)
  qed (use assms(2) r(10) fb b blk_ok_localTail [OF b] in \<open>auto simp: Let_def\<close>)
qed

lemma consume_tail_block:
  assumes "rw_at s fs rs X" "s_deq s = Deq_TailBlock op fb"
  shows "\<exists>s'. rw_step mx Consume s = Some s' \<and> rw_at s' fs rs X"
proof -
  note r = rw_at_pieces [OF assms(1)]
  let ?pc = "if fb \<noteq> rq_tailBlock (sq s) then Deq_Again op else Deq_Return op None"
  have "deq_step (s_deq s) (sq s) = Some (?pc, (sq s)\<lparr>rq_dequeuing := deq_busy ?pc\<rparr>)"
    using assms(2) r(10) by (auto simp: deq_return_def)
  then show ?thesis
    using consumed [where s = s and q = "(sq s)\<lparr>rq_dequeuing := deq_busy ?pc\<rparr>" and pc = ?pc, of fs rs X] rw_at_consume_skip [OF assms(1), of ?pc] r(8) assms(2)
    by auto
qed

lemma front_next:
  assumes "rw_at s fs rs X" "rq_tailBlock (sq s) \<noteq> rq_frontBlock (sq s)"
  shows "\<exists>gs. fs = rq_frontBlock (sq s) # hd (tl fs) # gs" "hd (tl fs) \<in> set fs" "hd (tl fs) < length (rq_blocks (sq s))" "hd (tl fs) \<noteq> rq_frontBlock (sq s)"
    "b_next (rq_blocks (sq s) ! rq_frontBlock (sq s)) = Some (hd (tl fs))" "X (hd (tl fs)) \<noteq> []"
proof -
  note r = rw_at_pieces [OF assms(1)]
  obtain f g gs where fs: "fs = f # g # gs" using ring_ok_blocks(8) [OF r(1) assms(2)] by blast
  have "chain (next_of (sq s)) (fs @ rs) (rq_frontBlock (sq s))" "f = rq_frontBlock (sq s)" "distinct fs" "set fs \<subseteq> {..<length (rq_blocks (sq s))}"
    using r(1) fs by (auto simp: ring_ok_def)
  then show "\<exists>gs. fs = rq_frontBlock (sq s) # hd (tl fs) # gs" "hd (tl fs) \<in> set fs" "hd (tl fs) < length (rq_blocks (sq s))" "hd (tl fs) \<noteq> rq_frontBlock (sq s)"
    "b_next (rq_blocks (sq s) ! rq_frontBlock (sq s)) = Some (hd (tl fs))" "X (hd (tl fs)) \<noteq> []"
    using fs r(3) by (auto simp: next_of_def)
qed

lemma consume_next:
  fixes s :: "'a rw_sys"
  assumes "rw_at s fs rs X" "s_deq s = Deq_Next op fb"
  shows "\<exists>s'. rw_step mx Consume s = Some s' \<and> rw_at s' fs rs X"
proof -
  note r = rw_at_pieces [OF assms(1)]
  have fb: "fb = rq_frontBlock (sq s)" "rq_tailBlock (sq s) \<noteq> rq_frontBlock (sq s)" "X fb = []" using r(8) assms(2) by auto
  note n = front_next [OF assms(1) fb(2)]
  let ?pc = "Deq_NextTail op (hd (tl fs)) (b_front (rq_blocks (sq s) ! hd (tl fs))) :: 'a deq_pc"
  have "deq_step (s_deq s) (sq s) = Some (?pc, (sq s)\<lparr>rq_dequeuing := deq_busy ?pc\<rparr>)"
    using assms(2) r(10) fb n(3,5) ring_ok_blocks(1) [OF r(1)] by simp
  moreover have "rw_at (s\<lparr>sq := (sq s)\<lparr>rq_dequeuing := deq_busy ?pc\<rparr>, s_deq := ?pc, h_dequeued := h_dequeued s @ []\<rparr>) fs rs X"
    by (rule rw_at_consume_skip [OF assms(1)]) (use assms(2) fb in auto)
  ultimately show ?thesis using assms(2) by auto
qed

lemma concat_front: "fs = f # g # gs \<Longrightarrow> X f = [] \<Longrightarrow> X g \<noteq> [] \<Longrightarrow> concat (map X fs) \<noteq> [] \<and> hd (concat (map X fs)) = hd (X g)"
  by simp

lemma consume_next_tail:
  assumes "rw_at s fs rs X" "s_deq s = Deq_NextTail op nb nf"
  shows "\<exists>s'. rw_step mx Consume s = Some s' \<and> rw_at s' fs rs (X(nb := X nb))"
proof -
  note r = rw_at_pieces [OF assms(1)]
  let ?b = "rq_blocks (sq s) ! nb"
  have nb: "nb = hd (tl fs)" "rq_tailBlock (sq s) \<noteq> rq_frontBlock (sq s)" "X (rq_frontBlock (sq s)) = []" "nf = b_front ?b" using r(8) assms(2) by auto
  note n = front_next [OF assms(1) nb(2), folded nb(1)]
  have b: "blk_ok ?b (X nb) False (constructed (s_enq s) nb)" using rw_at_blk [OF assms(1) n(3)] assms(2) by simp
  have ne: "nf \<noteq> b_tail ?b" using blk_ok_tests(1) [OF b] n(6) nb(4) by simp
  show ?thesis
  proof (cases "op = Peek")
    case True
    obtain gs where gs: "fs = rq_frontBlock (sq s) # nb # gs" using n(1) by blast
    have x: "slot ?b nf = Some (hd (X nb))" using blk_ok_take(1) [OF b n(6)] nb(4) by (auto simp: take_out_def bind_eq_Some_conv)
    let ?pc = "Deq_Return op (Some (hd (X nb)))"
    have "rw_at (s\<lparr>sq := (sq s)\<lparr>rq_dequeuing := deq_busy ?pc\<rparr>, s_deq := ?pc, h_dequeued := h_dequeued s @ []\<rparr>) fs rs X"
      by (rule rw_at_consume_skip [OF assms(1)]) (use assms(2) True concat_front [OF gs nb(3) n(6)] in auto)
    then show ?thesis using assms(2) True n(3) ne x by (auto simp: deq_return_def)
  next
    case False
    let ?f = "b_localTail_update (\<lambda>_. b_tail ?b)"
    let ?pc = "Deq_FrontBlock op nb nf"
    show ?thesis
    proof (rule consumed [OF rw_at_consume [where f = ?f and pc = ?pc, OF assms(1) n(2)]])
      show "deq_ok (upd_block nb ?f (sq s)) fs (X(nb := X nb)) (h_before s) (h_dequeued s @ dequeued_by (s_deq s)) ?pc"
        using nb n(3) ne assms(2) by (auto simp: upd_block_nth)
    qed (use assms(2) r(10) n(3) False ne blk_ok_localTail [OF b] in auto)
  qed
qed

lemma consume_take:
  assumes "rw_at s fs rs X" "s_deq s = Deq_Take op fb bf"
  shows "\<exists>s'. rw_step mx Consume s = Some s' \<and> rw_at s' fs rs (X(fb := X fb))"
proof -
  note r = rw_at_pieces [OF assms(1)]
  let ?b = "rq_blocks (sq s) ! fb"
  have fb: "fb = rq_frontBlock (sq s)" "fb < length (rq_blocks (sq s))" "bf = b_front ?b" "bf \<noteq> b_localTail ?b" "fb \<in> set fs"
    using r(8) assms(2) ring_ok_blocks(1,4) [OF r(1)] by auto
  have b: "blk_ok ?b (X fb) False (constructed (s_enq s) fb)" using rw_at_blk [OF assms(1) fb(2)] assms(2) by simp
  have ne: "X fb \<noteq> []" using blk_ok_tests(2) [OF b] fb(3,4) by simp
  note t = blk_ok_take [OF b ne, folded fb(3)]
  show ?thesis
  proof (cases "op = Peek")
    case True
    let ?pc = "Deq_Return op (Some (hd (X fb)))"
    have "concat (map X fs) \<noteq> [] \<and> hd (concat (map X fs)) = hd (X fb)"
      using r(1) ne fb(1) by (cases fs) (auto simp: ring_ok_def)
    then have "rw_at (s\<lparr>sq := (sq s)\<lparr>rq_dequeuing := deq_busy ?pc\<rparr>, s_deq := ?pc, h_dequeued := h_dequeued s @ []\<rparr>) fs rs X"
      by (intro rw_at_consume_skip [OF assms(1)]) (use assms(2) True in auto)
    then show ?thesis using assms(2) True fb(2) t(1) by (auto simp: deq_return_def)
  next
    case False
    let ?f = "\<lambda>_. put_slot bf None ?b"
    let ?pc = "Deq_Front op fb (inc ?b bf) (hd (X fb))"
    show ?thesis
    proof (rule consumed [OF rw_at_consume [where f = ?f and pc = ?pc, OF assms(1) fb(5)]])
      show "deq_ok (upd_block fb ?f (sq s)) fs (X(fb := X fb)) (h_before s) (h_dequeued s @ dequeued_by (s_deq s)) ?pc"
        using fb False ne by (simp add: upd_block_nth put_slot_def inc_def)
    qed (use assms(2) r(10) fb(1,2) False t in \<open>auto simp: put_slot_def\<close>)
  qed
qed

lemma consume_front:
  assumes "rw_at s fs rs X" "s_deq s = Deq_Front op fb nf x"
  shows "\<exists>s'. rw_step mx Consume s = Some s' \<and> rw_at s' fs rs (X(fb := tl (X fb)))"
proof -
  note r = rw_at_pieces [OF assms(1)]
  let ?b = "rq_blocks (sq s) ! fb"
  have fb: "fb = rq_frontBlock (sq s)" "fb < length (rq_blocks (sq s))" "nf = inc ?b (b_front ?b)" "b_front ?b \<noteq> b_localTail ?b" "fb \<in> set fs"
      "X fb = [x] @ tl (X fb)" "op \<noteq> Peek"
    using r(8) assms(2) ring_ok_blocks(1,4) [OF r(1)] by auto
  have b: "blk_ok ?b (X fb) True (constructed (s_enq s) fb)" using rw_at_blk [OF assms(1) fb(2)] assms(2) by simp
  let ?f = "b_front_update (\<lambda>_. nf)"
  show ?thesis
  proof (rule consumed [OF rw_at_consume [where f = ?f and pc = "Deq_Return op (Some x)", OF assms(1) fb(5)]])
    show "blk_ok (?f ?b) (tl (X fb)) (holding (Deq_Return op (Some x)) = Some fb) (constructed (s_enq s) fb)"
      using blk_ok_front [OF b fb(4)] fb(3) by simp
    show "X fb = dequeued_by (s_deq s) @ tl (X fb)" using fb(6) assms(2) by simp
  qed (use assms(2) r(10) fb(1,7) in \<open>auto simp: deq_return_def\<close>)
qed

lemma consume_front_block:
  assumes "rw_at s fs rs X" "s_deq s = Deq_FrontBlock op nb nf"
  shows "\<exists>s'. rw_step mx Consume s = Some s' \<and> rw_at s' (tl fs) (rs @ [rq_frontBlock (sq s)]) X"
proof -
  note r = rw_at_pieces [OF assms(1)]
  let ?q = "sq s"
  let ?q' = "?q\<lparr>rq_frontBlock := nb\<rparr>"
  have nb: "nb = hd (tl fs)" "rq_tailBlock ?q \<noteq> rq_frontBlock ?q" "X (rq_frontBlock ?q) = []" "nf = b_front (rq_blocks ?q ! nb)"
      "nf \<noteq> b_localTail (rq_blocks ?q ! nb)"
    using r(8) assms(2) by auto
  obtain gs where fs: "fs = rq_frontBlock ?q # nb # gs" using front_next(1) [OF assms(1) nb(2)] nb(1) by blast
  have nx: "next_of ?q' = next_of ?q" by (simp add: next_of_def fun_eq_iff)
  have "ring_ok ?q' (tl fs) (rs @ [rq_frontBlock ?q])" using r(1) fs unfolding ring_ok_def nx by (auto simp: hd_append)
  moreover have "blocks_ok ?q' X (holding (Deq_Take op nb nf)) (constructed (s_enq s))" using r(2) assms(2) by (simp add: blocks_ok_def)
  moreover have "enq_ok ?q' (tl fs) (rs @ [rq_frontBlock ?q]) X (s_enq s)"
    by (rule enq_ok_stable [OF r(7)]) (use fs in auto)
  moreover have "pending (s_enq s) (rq_frontBlock ?q) = []"
    using r(7) ring_ok_blocks(4,6) [OF r(1)] by (cases "s_enq s") auto
  then have "\<forall>p\<in>set (rs @ [rq_frontBlock ?q]). X p = pending (s_enq s) p" using r(4) nb(3) by auto
  moreover have "\<forall>p\<in>set (tl (tl fs)). X p \<noteq> []" using r(3) fs by auto
  ultimately have "rw_at (s\<lparr>sq := ?q', s_deq := Deq_Take op nb nf, h_dequeued := h_dequeued s @ []\<rparr>) (tl fs) (rs @ [rq_frontBlock ?q]) X"
    using r(5,6,9,10,11,12) nb(3-5) fs assms(2) unfolding rw_at_def by (simp add: insert_commute)
  then show ?thesis using assms(2) by auto
qed

lemma consume_at:
  assumes "rw_at s fs rs X" "deq_busy (s_deq s)"
  shows "\<exists>s' fs' rs' X'. rw_step mx Consume s = Some s' \<and> rw_at s' fs' rs' X'"
proof (cases "s_deq s")
  case Deq_Idle
  then show ?thesis using assms(2) by simp
next
  case (Deq_Return op r)
  then show ?thesis using assms(2) by simp
qed (meson consume_tail consume_tail_block consume_again consume_next consume_next_tail consume_front_block consume_take consume_front assms)+

definition rw_inv :: "'a rw_sys \<Rightarrow> bool" where
  "rw_inv s \<longleftrightarrow> (\<exists>fs rs X. rw_at s fs rs X)"

text \<open>Every step that can be taken succeeds and keeps the invariant.\<close>

lemma rw_step_inv:
  assumes "rw_inv s" "rw_enabled e s" "unat mx = 2 ^ m"
  shows "\<exists>s'. rw_step mx e s = Some s' \<and> rw_inv s'"
proof (cases e)
  case (Enqueue a x)
  then show ?thesis using assms enqueue_at [of s _ _ _ mx a x] by (simp only: rw_inv_def rw_enabled.simps) blast
next
  case (Produce ok)
  then show ?thesis using assms produce_at [OF _ _ assms(3), of s _ _ _ ok] by (simp only: rw_inv_def rw_enabled.simps) blast
next
  case (Dequeue op)
  then show ?thesis using assms dequeue_at [of s _ _ _ mx op] by (simp only: rw_inv_def rw_enabled.simps) blast
next
  case Consume
  then show ?thesis using assms consume_at [of s _ _ _ mx] by (simp only: rw_inv_def rw_enabled.simps) blast
qed

lemma rw_runs_inv:
  assumes "rw_runs mx s es s'" "rw_inv s" "unat mx = 2 ^ m"
  shows "rw_inv s'"
  using assms
proof (induction rule: rw_runs.induct)
  case (step es s' e s'')
  then show ?case using rw_step_inv [of s' e mx m] by auto
qed

subsection \<open>The constructor\<close>

lemma smear:
  fixes y z :: u64
  assumes "\<And>j. bit z j = (\<exists>d<m. bit y (j + d))"
  shows "bit (z OR drop_bit m z) j = (\<exists>d<2 * m. bit y (j + d))"
proof -
  have "(\<exists>d<2 * m. bit y (j + d)) = ((\<exists>d<m. bit y (j + d)) \<or> (\<exists>d<m. bit y (m + j + d)))" (is "?l = ?r")
  proof
    assume ?l
    then obtain d where d: "d < 2 * m" "bit y (j + d)" by blast
    show ?r
    proof (cases "d < m")
      case False
      then have "d - m < m \<and> bit y (m + j + (d - m))" using d by (simp add: ac_simps)
      then show ?thesis by blast
    qed (use d in blast)
  next
    assume ?r
    then show ?l
    proof
      assume "\<exists>d<m. bit y (m + j + d)"
      then obtain d where "d < m" "bit y (m + j + d)" by blast
      then show ?l by (intro exI [of _ "m + d"]) (simp add: ac_simps)
    qed (auto, metis mult_2 trans_less_add1)
  qed
  then show ?thesis by (simp add: bit_or_iff bit_drop_bit_eq assms)
qed

text \<open>All the bits below the highest are set.\<close>

lemma ceilToPow2_bits: "bit (ceilToPow2 x - 1) j = (\<exists>i\<ge>j. bit (x - 1) i)"
proof -
  let ?y = "x - 1"
  define y1 where "y1 = ?y OR drop_bit 1 ?y"
  define y2 where "y2 = y1 OR drop_bit 2 y1"
  define y4 where "y4 = y2 OR drop_bit 4 y2"
  define y8 where "y8 = y4 OR drop_bit 8 y4"
  define y16 where "y16 = y8 OR drop_bit 16 y8"
  define y32 where "y32 = y16 OR drop_bit 32 y16"
  have "bit ?y j = (\<exists>d<1. bit ?y (j + d))" for j by simp
  from smear [of ?y 1, OF this] have "bit y1 j = (\<exists>d<2. bit ?y (j + d))" for j by (simp only: y1_def mult_1_right)
  from smear [OF this] have "bit y2 j = (\<exists>d<4. bit ?y (j + d))" for j by (simp add: y2_def)
  from smear [OF this] have "bit y4 j = (\<exists>d<8. bit ?y (j + d))" for j by (simp add: y4_def)
  from smear [OF this] have "bit y8 j = (\<exists>d<16. bit ?y (j + d))" for j by (simp add: y8_def)
  from smear [OF this] have "bit y16 j = (\<exists>d<32. bit ?y (j + d))" for j by (simp add: y16_def)
  from smear [OF this] have "bit y32 j = (\<exists>d<64. bit ?y (j + d))" for j by (simp add: y32_def)
  moreover have "ceilToPow2 x - 1 = y32"
    by (simp add: ceilToPow2_def Let_def y1_def y2_def y4_def y8_def y16_def y32_def push_bit_eq_mult)
  moreover have "(\<exists>d<64. bit ?y (j + d)) = (\<exists>i\<ge>j. bit ?y i)"
  proof -
    have "i - j < 64" if "bit ?y i" for i using bit_imp_le_length [OF that] by simp
    then show ?thesis by (metis le_add1 le_add_diff_inverse)
  qed
  ultimately show ?thesis by simp
qed

text \<open>The result is the least power of two that is not below the argument.\<close>

lemma ceilToPow2_ok:
  assumes "0 < unat x" "unat x \<le> 2 ^ 63"
  shows "\<exists>k\<le>63. unat (ceilToPow2 x) = 2 ^ k \<and> unat x \<le> 2 ^ k \<and> (\<forall>j. unat x \<le> 2 ^ j \<longrightarrow> k \<le> j)"
proof -
  have y: "unat (x - 1) = unat x - 1" using assms(1) by (subst unat_sub) (simp_all add: word_le_nat_alt)
  define k where "k = (LEAST k. unat x \<le> 2 ^ k)"
  have k: "unat x \<le> 2 ^ k" "k \<le> 63" unfolding k_def by (rule LeastI [of _ 63], rule assms(2)) (rule Least_le, rule assms(2))
  have least: "k \<le> j" if "unat x \<le> 2 ^ j" for j unfolding k_def using that by (rule Least_le)
  have "bit (x - 1) i \<Longrightarrow> i < k" for i
  proof -
    assume "bit (x - 1) i"
    then have "bit (unat (x - 1)) i" by (simp add: bit_unsigned_iff)
    then have "2 ^ i \<le> unat (x - 1)" by (metis bit_iff_odd div_less even_zero linorder_not_le)
    then have "(2 :: nat) ^ i < 2 ^ k" using y k(1) assms(1) by linarith
    then show ?thesis by simp
  qed
  moreover have "bit (x - 1) (k - 1)" if "0 < k"
  proof -
    have "\<not> unat x \<le> 2 ^ (k - 1)" using least [of "k - 1"] that by auto
    then have "2 ^ (k - 1) \<le> unat (x - 1)" "unat (x - 1) < 2 * 2 ^ (k - 1)" using y k(1) assms(1) that by (auto simp flip: power_Suc)
    then have "unat (x - 1) div 2 ^ (k - 1) = 1" by (intro div_nat_eqI) simp_all
    then have "bit (unat (x - 1)) (k - 1)" by (simp add: bit_iff_odd)
    then show ?thesis by (simp add: bit_unsigned_iff)
  qed
  ultimately have "bit (ceilToPow2 x - 1) j = (j < k)" for j
    unfolding ceilToPow2_bits by (metis Suc_pred' bot_nat_0.not_eq_extremum le_less_trans less_Suc_eq_le not_less_zero)
  then have "ceilToPow2 x - 1 = mask k" using k(2) by (intro bit_word_eqI) (simp add: bit_mask_iff)
  then have c: "ceilToPow2 x = 2 ^ k" by (simp add: mask_eq_exp_minus_1 diff_eq_eq)
  have "(2 :: nat) ^ k < 2 ^ 64" using k(2) by (intro power_strict_increasing) simp_all
  then have "unat (of_nat (2 ^ k) :: u64) = 2 ^ k" by (simp only: unat_of_nat len_num1 len_bit0 len_bit1) simp
  then have "unat (2 ^ k :: u64) = 2 ^ k" by simp
  then show ?thesis using c k least by auto
qed

lemma initial_blocks_ok:
  assumes "\<forall>i<n. mem i"
  shows "initial_blocks mem sz n = Some (map (\<lambda>i. (make_block sz)\<lparr>b_next := Some (if Suc i = n then 0 else Suc i)\<rparr>) [0..<n])"
  using assms
proof (induction n)
  case (Suc n)
  then show ?case by (auto simp: Let_def nth_append nth_list_update simp del: upt_Suc intro!: nth_equalityI)
qed simp

lemma chain_upt:
  assumes "\<And>i. i < n \<Longrightarrow> nx i = Some (if Suc i = n then 0 else Suc i)"
  shows "a \<le> n \<Longrightarrow> chain nx [a..<n] 0"
proof (induction "n - a" arbitrary: a)
  case (Suc d)
  then have a: "a < n" by simp
  have "hd ([Suc a..<n] @ [0]) = (if Suc a = n then 0 else Suc a)" using a by (simp add: hd_append)
  then show ?case using Suc.hyps(1) [of "Suc a"] Suc.hyps(2) assms [OF a] a by (simp add: upt_conv_Cons [OF a])
qed simp

lemma empty_block:
  assumes "unat n = 2 ^ k" "1 \<le> k"
  shows "blk_ok ((make_block n)\<lparr>b_next := p\<rparr>) [] False None"
proof -
  have k: "k < 64" using power_lt_2p64 [OF assms(1)] by (simp only: power_strict_increasing_iff)
  have "unat (n - 1) = 2 ^ k - 1" using assms(1) by (subst unat_sub) (simp_all add: word_le_nat_alt)
  then have "blk_at k 0 0 0 ((make_block n)\<lparr>b_next := p\<rparr>) [] False None"
    using assms k by (auto simp: blk_at_def make_block_def)
  then show ?thesis by (auto simp: blk_ok_def)
qed

lemma constructed_inv:
  assumes "initial_blocks mem sz n = Some bs" "\<forall>i<n. mem i" "1 \<le> n" "unat sz = 2 ^ k" "1 \<le> k"
  shows "rw_inv (rw_init \<lparr>rq_blocks = bs, rq_frontBlock = 0, rq_tailBlock = 0, rq_largestBlockSize = sz, rq_enqueuing = False, rq_dequeuing = False\<rparr>)"
proof -
  let ?q = "\<lparr>rq_blocks = bs, rq_frontBlock = 0, rq_tailBlock = 0, rq_largestBlockSize = sz, rq_enqueuing = False, rq_dequeuing = False\<rparr>"
  have bs: "bs = map (\<lambda>i. (make_block sz)\<lparr>b_next := Some (if Suc i = n then 0 else Suc i)\<rparr>) [0..<n]"
    using trans [OF sym [OF assms(1)] initial_blocks_ok [OF assms(2)]] by simp
  have "chain (next_of ?q) [0..<n] 0" by (rule chain_upt) (simp_all add: next_of_def bs)
  then have "chain (next_of ?q) ([0] @ [1..<n]) 0" using assms(3) by (simp add: upt_conv_Cons)
  then have "ring_ok ?q [0] [1..<n]" using assms(3) unfolding ring_ok_def by (auto simp: bs)
  moreover have "blocks_ok ?q (\<lambda>_. []) None (\<lambda>_. None)"
    by (simp add: blocks_ok_def bs empty_block [OF assms(4,5)])
  ultimately have "rw_at (rw_init ?q) [0] [1..<n] (\<lambda>_. [])"
    using assms(3-5) by (auto simp: rw_at_def rw_init_def blocks_ok_def bs)
  then show ?thesis unfolding rw_inv_def by blast
qed

text \<open>With memory at hand, the constructor returns a queue that is in order.\<close>

definition rwq_sizes_ok :: "u64 \<Rightarrow> u64 \<Rightarrow> bool" where
  "rwq_sizes_ok mx maxSize \<longleftrightarrow> mx = ceilToPow2 mx \<and> 2 \<le> mx \<and> mx \<le> 2 ^ 61 \<and> 0 < maxSize \<and> maxSize < 2 ^ 62"

lemma max_block_size:
  assumes "rwq_sizes_ok mx maxSize"
  shows "\<exists>m\<ge>1. unat mx = 2 ^ m"
proof -
  have "unat mx \<ge> 2" "unat mx \<le> 2 ^ 61" using assms by (simp_all add: rwq_sizes_ok_def word_le_nat_alt)
  then obtain m where "unat (ceilToPow2 mx) = 2 ^ m" using ceilToPow2_ok [of mx] by force
  then have m: "unat mx = 2 ^ m" using assms by (simp add: rwq_sizes_ok_def)
  then have "m \<noteq> 0" using \<open>unat mx \<ge> 2\<close> by (intro notI) simp
  then show ?thesis using m by (intro exI [of _ m]) simp
qed

lemma constructor_ok:
  assumes "rwq_sizes_ok mx maxSize" "\<forall>i. mem i"
  shows "\<exists>q :: 'a rwq. ReaderWriterQueue mx mem maxSize = Some q \<and> rw_inv (rw_init q)"
proof -
  have mx: "2 \<le> unat mx" "unat mx \<le> 2 ^ 61" and ms: "0 < unat maxSize" "unat maxSize < 2 ^ 62" and g: "mx = ceilToPow2 mx" "2 \<le> mx" "0 < maxSize"
    using assms(1) by (simp_all add: rwq_sizes_ok_def word_le_nat_alt word_less_nat_alt)
  let ?l = "ceilToPow2 (maxSize + 1)"
  have "unat (maxSize + 1) = unat maxSize + 1" using ms by (simp add: unat_word_ariths)
  then obtain k where k: "unat ?l = 2 ^ k" "unat maxSize + 1 \<le> 2 ^ k" using ceilToPow2_ok [of "maxSize + 1"] ms by auto
  have k1: "1 \<le> k" using k(2) ms(1) by (cases k) auto
  obtain m where m: "unat mx = 2 ^ m" "1 \<le> m" using max_block_size [OF assms(1)] by auto
  let ?c = "if mx * 2 < ?l then (maxSize + mx * 2 - 3) div (mx - 1) else 1"
  let ?s = "if mx * 2 < ?l then mx else ?l"
  obtain j where j: "unat ?s = 2 ^ j" "1 \<le> j" using k m k1 by (cases "mx * 2 < ?l") auto
  have c: "1 \<le> unat ?c"
  proof (cases "mx * 2 < ?l")
    case True
    have "unat (mx * 2) = unat mx * 2" using mx by (simp add: unat_word_ariths)
    then have "unat (maxSize + mx * 2) = unat maxSize + unat mx * 2" using mx ms by (simp add: unat_word_ariths)
    then have n: "unat (maxSize + mx * 2 - 3) = unat maxSize + unat mx * 2 - 3" using mx ms by (subst unat_sub) (simp_all add: word_le_nat_alt)
    have "unat (mx - 1) = unat mx - 1" using mx by (subst unat_sub) (simp_all add: word_le_nat_alt)
    then have "unat ((maxSize + mx * 2 - 3) div (mx - 1)) = (unat maxSize + unat mx * 2 - 3) div (unat mx - 1)" using n by (simp add: unat_div)
    also have "\<dots> \<ge> 1" using mx ms by (simp add: Suc_le_eq div_greater_zero_iff)
    finally show ?thesis using True by simp
  qed simp
  obtain bs :: "'a block list" where bs: "initial_blocks mem ?s (unat ?c) = Some bs" using initial_blocks_ok assms(2) by blast
  then have "ReaderWriterQueue mx mem maxSize =
      Some \<lparr>rq_blocks = bs, rq_frontBlock = 0, rq_tailBlock = 0, rq_largestBlockSize = ?s, rq_enqueuing = False, rq_dequeuing = False\<rparr>"
    using g unfolding ReaderWriterQueue_def by (auto simp: Let_def)
  then show ?thesis using constructed_inv [OF bs _ c j] assms(2) by blast
qed

end
