(* ===== verification/Rw_Queue_Fifo.thy ===== *)
theory Rw_Queue_Fifo
  imports Rw_Queue_Inv
begin

text \<open>
  What the users of the lock-free queue get: under every interleaving of the two threads it is a first-in first-out queue, no
  step fails, a call never waits for the other thread, and \<^verbatim>\<open>try_dequeue\<close> finds what was there when it was called
  (\<open>queue_is_a_fifo\<close>). A thread that has the queue to itself sees a list (\<open>alone_a_list\<close>).
\<close>

subsection \<open>Any constructed queue\<close>

lemma initial_blocks_mem: "initial_blocks mem sz n = Some bs \<Longrightarrow> initial_blocks (\<lambda>_. True) sz n = Some bs"
  by (induction n arbitrary: bs) (auto simp: bind_eq_Some_conv split: if_splits)

lemma constructor_inv:
  fixes q :: "'a rwq"
  assumes "ReaderWriterQueue mx mem maxSize = Some q" "mx \<le> 2 ^ 61" "maxSize < 2 ^ 62"
  shows "rw_inv (rw_init q)" "\<exists>m. unat mx = 2 ^ m"
proof -
  have s: "rwq_sizes_ok mx maxSize" using assms by (auto simp: ReaderWriterQueue_def rwq_sizes_ok_def split: if_splits)
  have "ReaderWriterQueue mx (\<lambda>_. True) maxSize = Some q"
    using assms(1) by (auto simp: ReaderWriterQueue_def Let_def bind_eq_Some_conv dest: initial_blocks_mem split: if_splits)
  moreover obtain q' :: "'a rwq" where "ReaderWriterQueue mx (\<lambda>_. True) maxSize = Some q'" "rw_inv (rw_init q')" using constructor_ok [OF s, of "\<lambda>_. True"] by auto
  ultimately show "rw_inv (rw_init q)" by simp
  show "\<exists>m. unat mx = 2 ^ m" using max_block_size [OF s] by blast
qed

lemma rw_runs_trans: "rw_runs mx s' es' s'' \<Longrightarrow> rw_runs mx s es s' \<Longrightarrow> rw_runs mx s (es @ es') s''"
  by (induction rule: rw_runs.induct) (simp, metis append_assoc rw_runs.step)

lemma rw_runs_Cons: "rw_enabled e s \<Longrightarrow> rw_step mx e s = Some s' \<Longrightarrow> rw_runs mx s' es s'' \<Longrightarrow> rw_runs mx s (e # es) s''"
  using rw_runs_trans [of mx s' es s'' s "[e]"] rw_runs.step [OF rw_runs.start, of e s mx s'] by simp

subsection \<open>Calls end\<close>

fun enq_elem :: "'a enq_pc \<Rightarrow> 'a list" where
  "enq_elem (Enq_Front a x tb t n) = [x]"
| "enq_elem (Enq_Next a x tb) = [x]"
| "enq_elem (Enq_NextFront x nb) = [x]"
| "enq_elem (Enq_NextConstruct x nb t) = [x]"
| "enq_elem (Enq_NextTail x nb t) = [x]"
| "enq_elem (Enq_Alloc x tb) = [x]"
| "enq_elem (Enq_Link x tb nb) = [x]"
| "enq_elem (Enq_TailBlock x nb) = [x]"
| "enq_elem (Enq_Construct x tb t n) = [x]"
| "enq_elem (Enq_Tail x tb n) = [x]"
| "enq_elem _ = []"

fun enq_can :: "'a enq_pc \<Rightarrow> bool" where
  "enq_can (Enq_Front a x tb t n) = a"
| "enq_can (Enq_Next a x tb) = a"
| "enq_can _ = True"

fun deq_op_of :: "'a deq_pc \<Rightarrow> deq_op" where
  "deq_op_of (Deq_Tail op fb i) = op"
| "deq_op_of (Deq_TailBlock op fb) = op"
| "deq_op_of (Deq_Again op) = op"
| "deq_op_of (Deq_Next op fb) = op"
| "deq_op_of (Deq_NextTail op nb i) = op"
| "deq_op_of (Deq_FrontBlock op nb i) = op"
| "deq_op_of (Deq_Take op fb i) = op"
| "deq_op_of (Deq_Front op fb i x) = op"
| "deq_op_of (Deq_Return op r) = op"
| "deq_op_of Deq_Idle = Try_dequeue"

lemma enq_step_result:
  assumes "enq_step mx ok pc q = Some (pc', q')"
  shows "case pc' of
      Enq_Return r \<Rightarrow> enqueued_by pc = (if r then enq_elem pc else []) \<and> (r \<or> \<not> ok \<or> \<not> enq_can pc)
    | Enq_Idle \<Rightarrow> False
    | _ \<Rightarrow> enq_elem pc' = enq_elem pc \<and> enqueued_by pc = [] \<and> (enq_can pc \<longrightarrow> enq_can pc')"
  using assms
proof (cases pc)
  case (Enq_Alloc x tb)
  then show ?thesis using assms by (cases ok) (auto simp: enq_return_def bind_eq_Some_conv Let_def)
qed (auto simp: enq_return_def bind_eq_Some_conv split: if_split_asm)

lemma deq_step_result:
  assumes "deq_step pc q = Some (pc', q')" "\<And>fb i x. pc \<noteq> Deq_Front Peek fb i x"
  shows "deq_op_of pc' = deq_op_of pc \<and> (if deq_busy pc' then dequeued_by pc = []
    else \<exists>r. pc' = Deq_Return (deq_op_of pc) r \<and> dequeued_by pc = (if deq_op_of pc = Peek then [] else case r of None \<Rightarrow> [] | Some x \<Rightarrow> [x]))"
  using assms
  by (induction pc q rule: deq_step.induct) (auto simp: deq_return_def bind_eq_Some_conv take_out_def Let_def split: if_splits)

lemma enq_run_step: "enq_busy pc \<Longrightarrow> enq_run mx ok pc q = enq_step mx ok pc q \<bind> (\<lambda>(pc', q'). enq_run mx ok pc' q')"
  by (subst enq_run.simps, cases pc) (simp_all del: enq_step.simps)

lemma deq_run_step: "deq_busy pc \<Longrightarrow> deq_run pc q = deq_step pc q \<bind> (\<lambda>(pc', q'). deq_run pc' q')"
  by (subst deq_run.simps, cases pc) (simp_all del: deq_step.simps)

lemma run_return: "enq_run mx ok (Enq_Return b) q = Some (b, q)" "deq_run (Deq_Return op r) q = Some (r, q)"
  by (subst enq_run.simps deq_run.simps; simp)+

lemma no_peek_front: "rw_inv s \<Longrightarrow> s_deq s \<noteq> Deq_Front Peek fb i x"
  by (auto simp: rw_inv_def rw_at_def)

lemma produce_completes:
  assumes "rw_inv s" "enq_busy (s_enq s)" "unat mx = 2 ^ m"
  shows "\<exists>n s' r. rw_runs mx s (replicate n (Produce ok)) s' \<and> enq_run mx ok (s_enq s) (sq s) = Some (r, sq s') \<and> rw_inv s' \<and> s_enq s' = Enq_Return r \<and>
    s_deq s' = s_deq s \<and> h_before s' = h_before s \<and> h_dequeued s' = h_dequeued s \<and>
    h_enqueued s' = h_enqueued s @ (if r then enq_elem (s_enq s) else []) \<and> (r \<or> \<not> ok \<or> \<not> enq_can (s_enq s))"
  using assms(1,2)
proof (induction "enq_rank (s_enq s)" arbitrary: s rule: less_induct)
  case less
  have en: "rw_enabled (Produce ok) s" using less.prems(2) by simp
  obtain s1 where s1: "rw_step mx (Produce ok) s = Some s1" "rw_inv s1" using rw_step_inv [OF less.prems(1) en assms(3)] by blast
  obtain pc q where pc: "enq_step mx ok (s_enq s) (sq s) = Some (pc, q)"
      and s1': "s1 = s\<lparr>sq := q, s_enq := pc, h_enqueued := h_enqueued s @ enqueued_by (s_enq s)\<rparr>"
    using s1(1) by (auto simp: bind_eq_Some_conv)
  have run: "enq_run mx ok (s_enq s) (sq s) = enq_run mx ok pc q"
    using pc by (simp add: enq_run_step [OF less.prems(2)] del: enq_step.simps)
  have res: "if enq_busy pc then enq_elem pc = enq_elem (s_enq s) \<and> enqueued_by (s_enq s) = [] \<and> (enq_can (s_enq s) \<longrightarrow> enq_can pc)
      else \<exists>r. pc = Enq_Return r \<and> enqueued_by (s_enq s) = (if r then enq_elem (s_enq s) else []) \<and> (r \<or> \<not> ok \<or> \<not> enq_can (s_enq s))"
    using enq_step_result [OF pc] by (cases pc) simp_all
  show ?case
  proof (cases "enq_busy pc")
    case True
    obtain n s' r where ih: "rw_runs mx s1 (replicate n (Produce ok)) s'" "enq_run mx ok pc q = Some (r, sq s')" "rw_inv s'" "s_enq s' = Enq_Return r"
        "s_deq s' = s_deq s" "h_before s' = h_before s" "h_dequeued s' = h_dequeued s" "h_enqueued s' = h_enqueued s @ (if r then enq_elem pc else [])"
        "r \<or> \<not> ok \<or> \<not> enq_can pc"
      using less.hyps [of s1] s1(2) enq_step_rank [OF pc] True res unfolding s1' by auto
    then show ?thesis
      using rw_runs_Cons [OF en s1(1) ih(1)] run True res by (intro exI [of _ "Suc n"] exI [of _ s'] exI [of _ r]) auto
  next
    case False
    then obtain r where r: "pc = Enq_Return r" "enqueued_by (s_enq s) = (if r then enq_elem (s_enq s) else [])" "r \<or> \<not> ok \<or> \<not> enq_can (s_enq s)"
      using res by auto
    then have "enq_run mx ok (s_enq s) (sq s) = Some (r, sq s1)" using run by (simp add: s1' run_return)
    then show ?thesis
      using rw_runs_Cons [OF en s1(1) rw_runs.start] r s1(2) by (intro exI [of _ "Suc 0"] exI [of _ s1] exI [of _ r]) (simp add: s1')
  qed
qed

lemma consume_completes:
  assumes "rw_inv s" "deq_busy (s_deq s)" "unat mx = 2 ^ m"
  shows "\<exists>n s' r. rw_runs mx s (replicate n Consume) s' \<and> deq_run (s_deq s) (sq s) = Some (r, sq s') \<and> rw_inv s' \<and>
    s_deq s' = Deq_Return (deq_op_of (s_deq s)) r \<and> s_enq s' = s_enq s \<and> h_before s' = h_before s \<and> h_enqueued s' = h_enqueued s \<and>
    h_dequeued s' = h_dequeued s @ (if deq_op_of (s_deq s) = Peek then [] else case r of None \<Rightarrow> [] | Some x \<Rightarrow> [x])"
  using assms(1,2)
proof (induction "deq_rank (s_deq s)" arbitrary: s rule: less_induct)
  case less
  have en: "rw_enabled Consume s" using less.prems(2) by simp
  obtain s1 where s1: "rw_step mx Consume s = Some s1" "rw_inv s1" using rw_step_inv [OF less.prems(1) en assms(3)] by blast
  obtain pc q where pc: "deq_step (s_deq s) (sq s) = Some (pc, q)"
      and s1': "s1 = s\<lparr>sq := q, s_deq := pc, h_dequeued := h_dequeued s @ dequeued_by (s_deq s)\<rparr>"
    using s1(1) by (auto simp: bind_eq_Some_conv)
  have run: "deq_run (s_deq s) (sq s) = deq_run pc q"
    using pc by (simp add: deq_run_step [OF less.prems(2)] del: deq_step.simps)
  note res = deq_step_result [OF pc no_peek_front [OF less.prems(1)]]
  show ?case
  proof (cases "deq_busy pc")
    case True
    obtain n s' r where ih: "rw_runs mx s1 (replicate n Consume) s'" "deq_run pc q = Some (r, sq s')" "rw_inv s'"
        "s_deq s' = Deq_Return (deq_op_of pc) r" "s_enq s' = s_enq s" "h_before s' = h_before s" "h_enqueued s' = h_enqueued s"
        "h_dequeued s' = h_dequeued s @ (if deq_op_of pc = Peek then [] else case r of None \<Rightarrow> [] | Some x \<Rightarrow> [x])"
      using less.hyps [of s1] s1(2) deq_step_rank [OF pc] True res unfolding s1' by auto
    then show ?thesis
      using rw_runs_Cons [OF en s1(1) ih(1)] run res by (intro exI [of _ "Suc n"] exI [of _ s'] exI [of _ r]) auto
  next
    case False
    then obtain r where r: "pc = Deq_Return (deq_op_of (s_deq s)) r"
        "dequeued_by (s_deq s) = (if deq_op_of (s_deq s) = Peek then [] else case r of None \<Rightarrow> [] | Some x \<Rightarrow> [x])"
      using res by auto
    then have "deq_run (s_deq s) (sq s) = Some (r, sq s1)" using run by (simp add: s1' run_return)
    then show ?thesis
      using rw_runs_Cons [OF en s1(1) rw_runs.start] r s1(2) by (intro exI [of _ "Suc 0"] exI [of _ s1] exI [of _ r]) (simp add: s1')
  qed
qed

subsection \<open>A queue at rest\<close>

text \<open>No call is in progress and the elements are \<open>xs\<close>.\<close>

definition rwq_holds :: "'a rwq \<Rightarrow> 'a list \<Rightarrow> bool" where
  "rwq_holds q xs \<longleftrightarrow> rw_inv \<lparr>sq = q, s_enq = Enq_Idle, s_deq = Deq_Idle, h_enqueued = xs, h_dequeued = [], h_before = 0\<rparr>"

lemma at_rest:
  assumes "rw_inv s" "\<not> enq_busy (s_enq s)" "\<not> deq_busy (s_deq s)" "h_enqueued s = h_dequeued s @ xs"
  shows "rwq_holds (sq s) xs"
proof -
  obtain fs rs X where a: "rw_at s fs rs X" using assms(1) by (auto simp: rw_inv_def)
  have "holding (s_deq s) = None" "constructed (s_enq s) = constructed Enq_Idle" "pending (s_enq s) = pending Enq_Idle" "linking (s_enq s) = {}"
    using assms(2,3) by (cases "s_deq s"; cases "s_enq s"; auto simp: fun_eq_iff)+
  then have "rw_at \<lparr>sq = sq s, s_enq = Enq_Idle, s_deq = Deq_Idle, h_enqueued = xs, h_dequeued = [], h_before = 0\<rparr> fs rs X"
    using a assms unfolding rw_at_def by simp
  then show ?thesis unfolding rwq_holds_def rw_inv_def by blast
qed

lemma enqueue_alone:
  assumes "rwq_holds q xs" "unat mx = 2 ^ m"
  shows "\<exists>r q'. inner_enqueue a x q \<bind> (\<lambda>(pc, q). enq_run mx ok pc q) = Some (r, q') \<and> rwq_holds q' (if r then xs @ [x] else xs) \<and> (r \<or> \<not> ok \<or> \<not> a)"
proof -
  let ?s = "\<lparr>sq = q, s_enq = Enq_Idle, s_deq = Deq_Idle, h_enqueued = xs, h_dequeued = [], h_before = 0\<rparr>"
  obtain s where s: "rw_step mx (Enqueue a x) ?s = Some s" "rw_inv s"
    using rw_step_inv [OF assms(1) [unfolded rwq_holds_def] _ assms(2), of "Enqueue a x"] by auto
  then obtain pc q0 where pc: "inner_enqueue a x q = Some (pc, q0)" and s': "s = ?s\<lparr>sq := q0, s_enq := pc\<rparr>" by (auto simp: bind_eq_Some_conv)
  have e: "enq_busy pc" "enq_elem pc = [x]" "enq_can pc \<or> \<not> a" using pc by (auto simp: inner_enqueue_def Let_def bind_eq_Some_conv split: if_splits)
  obtain s2 r where 2: "enq_run mx ok pc q0 = Some (r, sq s2)" "rw_inv s2" "s_enq s2 = Enq_Return r" "s_deq s2 = Deq_Idle" "h_dequeued s2 = []"
      "h_enqueued s2 = xs @ (if r then [x] else [])" "r \<or> \<not> ok \<or> \<not> a"
    using produce_completes [OF s(2) _ assms(2), of ok] e by (auto simp: s')
  then show ?thesis using at_rest [OF 2(2), of "xs @ (if r then [x] else [])"] pc by auto
qed

lemma dequeue_alone:
  assumes "rwq_holds q xs"
  shows "\<exists>q'. deq_start op q \<bind> (\<lambda>(pc, q). deq_run pc q) = Some (case xs of [] \<Rightarrow> None | x # _ \<Rightarrow> Some x, q') \<and>
    rwq_holds q' (if op = Peek then xs else tl xs)"
proof -
  let ?s = "\<lparr>sq = q, s_enq = Enq_Idle, s_deq = Deq_Idle, h_enqueued = xs, h_dequeued = [], h_before = 0\<rparr>"
  have one: "unat (1 :: u64) = 2 ^ 0" by simp
  obtain s where s: "rw_step 1 (Dequeue op) ?s = Some s" "rw_inv s"
    using rw_step_inv [OF assms [unfolded rwq_holds_def] _ one, of "Dequeue op"] by auto
  then obtain pc q0 where pc: "deq_start op q = Some (pc, q0)" and s': "s = ?s\<lparr>sq := q0, s_deq := pc, h_before := length xs\<rparr>" by (auto simp: bind_eq_Some_conv)
  have e: "deq_busy pc" "deq_op_of pc = op" using pc by (auto simp: deq_start_def Let_def bind_eq_Some_conv split: if_splits)
  obtain s2 r where 2: "deq_run pc q0 = Some (r, sq s2)" "rw_inv s2" "s_deq s2 = Deq_Return op r" "s_enq s2 = Enq_Idle" "h_before s2 = length xs"
      "h_enqueued s2 = xs" "h_dequeued s2 = (if op = Peek then [] else case r of None \<Rightarrow> [] | Some x \<Rightarrow> [x])"
    using consume_completes [OF s(2) _ one] e by (auto simp: s')
  obtain fs rs X where a: "rw_at s2 fs rs X" using 2(2) by (auto simp: rw_inv_def)
  have x: "xs = h_dequeued s2 @ concat (map X fs)" "deq_ok (sq s2) fs X (length xs) (h_dequeued s2) (Deq_Return op r)"
    using rw_at_pieces(5,8) [OF a] 2(3,5,6) by simp_all
  have "r = (case xs of [] \<Rightarrow> None | x # _ \<Rightarrow> Some x)"
  proof (cases r)
    case None
    then have "xs = []" using x(2) 2(7) by (auto split: if_splits)
    then show ?thesis using None by simp
  next
    case (Some y)
    have "xs \<noteq> [] \<and> y = hd xs"
    proof (cases "op = Peek")
      case True
      then show ?thesis using x 2(7) Some by (simp del: concat_eq_Nil_conv)
    qed (use x 2(7) Some in simp)
    then show ?thesis using Some by (cases xs) auto
  qed
  moreover have "xs = h_dequeued s2 @ (if op = Peek then xs else tl xs)"
    unfolding 2(7) calculation by (cases xs) auto
  ultimately show ?thesis using at_rest [OF 2(2), of "if op = Peek then xs else tl xs"] 2(1,3,4,6) pc by auto
qed

text \<open>Around the ring.\<close>

lemma rwq_holds_ring:
  assumes "rwq_holds q xs"
  shows "\<exists>fs rs X. ring_ok q fs rs \<and> (\<forall>p<length (rq_blocks q). blk_ok (rq_blocks q ! p) (X p) False None) \<and>
    xs = concat (map X (fs @ rs)) \<and> set (fs @ rs) = {..<length (rq_blocks q)}"
proof -
  obtain fs rs X where "rw_at \<lparr>sq = q, s_enq = Enq_Idle, s_deq = Deq_Idle, h_enqueued = xs, h_dequeued = [], h_before = 0\<rparr> fs rs X"
    using assms unfolding rwq_holds_def rw_inv_def by blast
  note r = rw_at_pieces [OF this]
  have "concat (map X rs) = []" using r(4) by simp
  then have "xs = concat (map X (fs @ rs))" using r(5) by simp
  then show ?thesis using r(1,2,12) by (intro exI [of _ fs] exI [of _ rs] exI [of _ X]) (simp add: blocks_ok_def)
qed

lemma block_count:
  assumes "blk_ok b xs held wr"
  shows "(b_tail b - b_front b) AND b_sizeMask b = of_nat (length xs)"
proof -
  obtain k F LF LT where b: "blk_at k F LF LT b xs held wr" using assms by (auto simp: blk_ok_def)
  note b = b [unfolded blk_at_def]
  let ?n = "2 ^ k :: int"
  have "b_sizeMask b = mask k" using b by (intro sizeMask_mask) simp
  then have "uint ((b_tail b - b_front b) AND b_sizeMask b) = uint (b_tail b - b_front b) mod ?n"
    by (simp add: unsigned_take_bit_eq flip: take_bit_eq_mask take_bit_eq_mod)
  also have "\<dots> = (uint (b_tail b) - uint (b_front b)) mod 2 ^ 64 mod ?n" by (simp add: uint_word_ariths)
  also have "\<dots> = (uint (b_tail b) - uint (b_front b)) mod ?n" using b by (intro mod_mod_cancel le_imp_power_dvd) simp
  also have "\<dots> = (int ((F + length xs) mod 2 ^ k) - int (F mod 2 ^ k)) mod ?n" using b by (simp add: uint_nat)
  also have "\<dots> = int (length xs) mod ?n" by (simp add: zmod_int mod_diff_eq)
  also have "\<dots> = int (length xs)" using b by (intro mod_pos_pos_trivial) (simp_all flip: of_nat_power)
  finally show ?thesis by (metis of_int_of_nat_eq word_of_int_uint)
qed

lemma destroy_slots_ok:
  assumes "blk_at k F LF LT b xs False None" "i \<le> length xs" "unat w = (F + i) mod 2 ^ k"
  shows "destroy_slots b w = Some (drop i xs)"
  using assms(2,3)
proof (induction "length xs - i" arbitrary: i w)
  case 0
  then have "w = b_tail b" using assms(1) by (simp add: blk_at_def word_unat_eq_iff)
  then show ?case using 0 by (subst destroy_slots.simps) simp
next
  case (Suc d)
  note b = assms(1) [unfolded blk_at_def]
  have i: "i < length xs" using Suc.hyps(2) by simp
  then have i: "i < length xs" "i < 2 ^ k" using b by (simp, elim conjE, linarith)
  have "w \<noteq> b_tail b" using b i mod_eq_near [of "F + i" "F + length xs" "2 ^ k"] Suc.prems(2) by (simp add: word_unat_eq_iff)
  moreover have "slot b w = Some (xs ! i)" using b i Suc.prems(2) by (simp add: slot_def)
  moreover have "destroy_slots b (inc b w) = Some (drop (Suc i) xs)"
    by (rule Suc.hyps(1)) (use Suc.hyps(2) i b Suc.prems(2) in \<open>simp_all add: unat_inc mod_Suc_eq\<close>)
  ultimately show ?case using i by (subst destroy_slots.simps) (simp add: Cons_nth_drop_Suc)
qed

lemma around_the_ring:
  assumes "chain (next_of q) ps (rq_frontBlock q)" "ps \<noteq> []" "rq_frontBlock q \<notin> set (tl ps)" "set ps \<subseteq> {..<length (rq_blocks q)}"
    "\<And>p. p < length (rq_blocks q) \<Longrightarrow> blk_ok (rq_blocks q ! p) (X p) False None"
  shows "size_loop q (hd ps) n = Some (n + of_nat (length (concat (map X ps))))" "free_loop q (hd ps) = Some (concat (map X ps), ps)"
proof -
  have "size_loop q (hd ps) n = Some (n + of_nat (length (concat (map X ps)))) \<and> free_loop q (hd ps) = Some (concat (map X ps), ps)"
    using assms(1-4)
  proof (induction ps arbitrary: n)
    case (Cons p ps)
    have p: "p < length (rq_blocks q)" "b_next (rq_blocks q ! p) = Some (hd (ps @ [rq_frontBlock q]))" using Cons.prems by (auto simp: next_of_def)
    obtain k F LF LT where b: "blk_at k F LF LT (rq_blocks q ! p) (X p) False None" using assms(5) [OF p(1)] by (auto simp: blk_ok_def)
    have d: "destroy_slots (rq_blocks q ! p) (b_front (rq_blocks q ! p)) = Some (X p)"
      using destroy_slots_ok [OF b, of 0] b by (simp add: blk_at_def)
    show ?case
    proof (cases "ps = []")
      case True
      then show ?thesis using p d block_count [OF assms(5) [OF p(1)]]
        by (subst size_loop.simps, subst free_loop.simps) (simp add: get_block_def Let_def)
    next
      case False
      then have "hd ps \<noteq> rq_frontBlock q" "rq_frontBlock q \<notin> set (tl ps)" using Cons.prems(3) by (auto dest: list.set_sel)
      then show ?thesis
        using False Cons.IH Cons.prems(1,4) p d block_count [OF assms(5) [OF p(1)]]
        by (subst size_loop.simps, subst free_loop.simps) (simp add: get_block_def Let_def ac_simps)
    qed
  qed simp
  then show "size_loop q (hd ps) n = Some (n + of_nat (length (concat (map X ps))))" "free_loop q (hd ps) = Some (concat (map X ps), ps)" by blast+
qed

lemma ring_alone:
  assumes "rwq_holds q xs"
  shows "size_approx q = Some (of_nat (length xs))" "\<exists>ps. delete_queue q = Some (xs, ps) \<and> distinct ps \<and> set ps = {..<length (rq_blocks q)}"
proof -
  obtain fs rs X where r: "ring_ok q fs rs" "\<And>p. p < length (rq_blocks q) \<Longrightarrow> blk_ok (rq_blocks q ! p) (X p) False None"
      "xs = concat (map X (fs @ rs))" "set (fs @ rs) = {..<length (rq_blocks q)}"
    using rwq_holds_ring [OF assms] by metis
  have h: "hd (fs @ rs) = rq_frontBlock q" "distinct (fs @ rs)" "fs @ rs \<noteq> []" "chain (next_of q) (fs @ rs) (rq_frontBlock q)"
    using r(1) by (auto simp: ring_ok_def)
  have t: "rq_frontBlock q \<notin> set (tl (fs @ rs))" using h by (metis distinct.simps(2) list.collapse)
  have "set (fs @ rs) \<subseteq> {..<length (rq_blocks q)}" using r(4) by blast
  note a = around_the_ring [OF h(4,3) t this r(2), unfolded h(1)]
  show "size_approx q = Some (of_nat (length xs))" using a(1) [of 0] r(3) by (simp add: size_approx_def)
  show "\<exists>ps. delete_queue q = Some (xs, ps) \<and> distinct ps \<and> set ps = {..<length (rq_blocks q)}"
    using a(2) r(3,4) h(2) by (simp add: delete_queue_def)
qed

subsection \<open>Properties\<close>

text \<open>No call takes more than a few steps of its own thread: the steps between two calls are bounded, whatever the other thread does.\<close>

definition produce_steps :: "'a rw_event list \<Rightarrow> nat" where
  "produce_steps es = length (filter (\<lambda>e. case e of Produce ok \<Rightarrow> True | _ \<Rightarrow> False) es)"

definition consume_steps :: "'a rw_event list \<Rightarrow> nat" where
  "consume_steps es = length (filter (\<lambda>e. case e of Consume \<Rightarrow> True | _ \<Rightarrow> False) es)"

lemma steps_bounded:
  assumes "rw_runs mx s es s'"
  shows "\<forall>a x. Enqueue a x \<notin> set es \<Longrightarrow> produce_steps es + enq_rank (s_enq s') \<le> enq_rank (s_enq s)"
    "\<forall>op. Dequeue op \<notin> set es \<Longrightarrow> consume_steps es + deq_rank (s_deq s') \<le> deq_rank (s_deq s)"
proof -
  have "(\<forall>a x. Enqueue a x \<notin> set es) \<longrightarrow> produce_steps es + enq_rank (s_enq s') \<le> enq_rank (s_enq s)"
    using assms
  proof (induction rule: rw_runs.induct)
    case (step es s' e s'')
    then show ?case
      by (cases e) (auto simp: produce_steps_def bind_eq_Some_conv simp del: enq_step.simps deq_step.simps enq_rank.simps dest!: enq_step_rank)
  qed (simp add: produce_steps_def)
  moreover have "(\<forall>op. Dequeue op \<notin> set es) \<longrightarrow> consume_steps es + deq_rank (s_deq s') \<le> deq_rank (s_deq s)"
    using assms
  proof (induction rule: rw_runs.induct)
    case (step es s' e s'')
    then show ?case
      by (cases e) (auto simp: consume_steps_def bind_eq_Some_conv simp del: enq_step.simps deq_step.simps deq_rank.simps dest!: deq_step_rank)
  qed (simp add: consume_steps_def)
  ultimately show "\<forall>a x. Enqueue a x \<notin> set es \<Longrightarrow> produce_steps es + enq_rank (s_enq s') \<le> enq_rank (s_enq s)"
    "\<forall>op. Dequeue op \<notin> set es \<Longrightarrow> consume_steps es + deq_rank (s_deq s') \<le> deq_rank (s_deq s)" by blast+
qed

lemma rank_bound: "enq_rank pc \<le> 6" "deq_rank pc' \<le> 8"
  by (cases pc; simp) (cases pc'; simp)

text \<open>
  C13. The lock-free queue is a first-in first-out queue under every interleaving of its two threads: what \<^verbatim>\<open>try_dequeue\<close> and \<^verbatim>\<open>pop\<close>
  have taken is the beginning of what was enqueued, in order. No step of either thread fails: no assertion of the
  code is violated, no null pointer followed, no object taken from a slot that has none. \<^verbatim>\<open>try_dequeue\<close> returns false only if
  everything enqueued before its call has been taken; otherwise it returns what it took, and \<^verbatim>\<open>peek\<close> the next element. A call
  never waits for the other thread: it ends within six steps of the producer, eight of the consumer.
\<close>

theorem queue_is_a_fifo:
  assumes "ReaderWriterQueue mx mem maxSize = Some q" "mx \<le> 2 ^ 61" "maxSize < 2 ^ 62" "rw_runs mx (rw_init q) es s"
  shows "\<exists>left. h_enqueued s = h_dequeued s @ left \<and>
    (\<forall>e. rw_enabled e s \<longrightarrow> rw_step mx e s \<noteq> None) \<and>
    (\<forall>op. s_deq s = Deq_Return op None \<longrightarrow> h_before s \<le> length (h_dequeued s)) \<and>
    (\<forall>x. s_deq s = Deq_Return Peek (Some x) \<longrightarrow> left \<noteq> [] \<and> x = hd left) \<and>
    (\<forall>op x. s_deq s = Deq_Return op (Some x) \<and> op \<noteq> Peek \<longrightarrow> h_dequeued s \<noteq> [] \<and> x = last (h_dequeued s)) \<and>
    (\<forall>fs s'. rw_runs mx s fs s' \<longrightarrow>
      ((\<forall>a x. Enqueue a x \<notin> set fs) \<longrightarrow> produce_steps fs \<le> 6) \<and> ((\<forall>op. Dequeue op \<notin> set fs) \<longrightarrow> consume_steps fs \<le> 8))"
proof -
  obtain m where m: "unat mx = 2 ^ m" using constructor_inv(2) [OF assms(1-3)] by blast
  have i: "rw_inv s" using rw_runs_inv [OF assms(4) constructor_inv(1) [OF assms(1-3)] m] .
  then obtain fs rs X where a: "rw_at s fs rs X" by (auto simp: rw_inv_def)
  note r = rw_at_pieces(5,8) [OF a]
  have "rw_step mx e s \<noteq> None" if "rw_enabled e s" for e using rw_step_inv [OF i that m] by auto
  moreover have "h_before s \<le> length (h_dequeued s)" if "s_deq s = Deq_Return op None" for op using r(2) that by simp
  moreover have "concat (map X fs) \<noteq> [] \<and> x = hd (concat (map X fs))" if "s_deq s = Deq_Return Peek (Some x)" for x
    using r(2) that by (simp del: concat_eq_Nil_conv)
  moreover have "h_dequeued s \<noteq> [] \<and> x = last (h_dequeued s)" if "s_deq s = Deq_Return op (Some x) \<and> op \<noteq> Peek" for op x
    using r(2) that by simp
  moreover have "produce_steps gs \<le> 6" if "rw_runs mx s gs s'" "\<forall>a x. Enqueue a x \<notin> set gs" for gs s'
    using steps_bounded(1) [OF that] rank_bound(1) [of "s_enq s"] by simp
  moreover have "consume_steps gs \<le> 8" if "rw_runs mx s gs s'" "\<forall>op. Dequeue op \<notin> set gs" for gs s'
    using steps_bounded(2) [OF that] rank_bound(2) [of "s_deq s"] by simp
  ultimately show ?thesis by (intro exI [of _ "concat (map X fs)"] conjI allI impI) (rule r(1), blast+)
qed

text \<open>
  Blocks of two slots hold one element each. The second element needs a new block; while it is made, the consumer takes the
  first one and looks for more.
\<close>

fun rw_exec :: "u64 \<Rightarrow> 'a rw_event list \<Rightarrow> 'a rw_sys \<Rightarrow> 'a rw_sys option" where
  "rw_exec mx [] s = Some s"
| "rw_exec mx (e # es) s = (if rw_enabled e s then rw_step mx e s \<bind> rw_exec mx es else None)"

lemma rw_exec_runs: "rw_exec mx es s = Some s' \<Longrightarrow> rw_runs mx s es s'"
proof (induction es arbitrary: s)
  case (Cons e es)
  then obtain s1 where "rw_enabled e s" "rw_step mx e s = Some s1" "rw_exec mx es s1 = Some s'"
    by (auto simp: bind_eq_Some_conv simp del: rw_step.simps rw_enabled.simps split: if_splits)
  then show ?case using rw_runs_Cons Cons.IH by blast
qed (simp add: rw_runs.start)

definition demo_queue :: "nat rwq" where
  "demo_queue = the (ReaderWriterQueue 2 (\<lambda>_. True) 1)"

definition demo_events :: "nat rw_event list" where
  "demo_events = [Enqueue True 5, Produce True, Produce True, Enqueue True 6, Produce True, Produce True, Dequeue Try_dequeue, Consume, Produce True,
     Consume, Consume, Dequeue Try_dequeue, Produce True, Consume, Consume, Produce True]"

lemma demo_queue: "ReaderWriterQueue 2 (\<lambda>_. True) 1 = Some demo_queue"
  unfolding demo_queue_def by code_simp

lemma demo_run: "map_option (\<lambda>s. (h_enqueued s, h_dequeued s, s_deq s)) (rw_exec 2 demo_events (rw_init demo_queue)) = Some ([5, 6], [5], Deq_Return Try_dequeue None)"
  unfolding demo_queue_def by code_simp

theorem queue_is_a_fifo_witness:
  "ReaderWriterQueue 2 (\<lambda>_. True) 1 = Some demo_queue \<and>
    (\<exists>s left. rw_runs 2 (rw_init demo_queue) demo_events s \<and> h_enqueued s = h_dequeued s @ left \<and> left = [6] \<and> h_before s \<le> 1)"
proof -
  obtain s where s: "rw_exec 2 demo_events (rw_init demo_queue) = Some s" "h_enqueued s = [5, 6]" "h_dequeued s = [5]" "s_deq s = Deq_Return Try_dequeue None"
    using demo_run by auto
  have b: "(2 :: u64) \<le> 2 ^ 61" "(1 :: u64) < 2 ^ 62" by simp_all
  show ?thesis
    using queue_is_a_fifo [OF demo_queue b rw_exec_runs [OF s(1)]] rw_exec_runs [OF s(1)] demo_queue s(2-4) by auto
qed

text \<open>
  A thread that has the queue to itself sees a list: \<^verbatim>\<open>enqueue\<close> appends its argument, and fails only when there is no memory for
  a new block; \<^verbatim>\<open>try_dequeue\<close> and \<^verbatim>\<open>pop\<close> take the first element, \<^verbatim>\<open>peek\<close> shows it; \<^verbatim>\<open>size_approx\<close> is the length; the destructor
  destroys every element that is left once, in order, and frees every block once.
\<close>

theorem alone_a_list:
  assumes "rwq_holds q xs" "unat mx = 2 ^ m"
  shows "(\<exists>r q'. enqueue mx ok x q = Some (r, q') \<and> rwq_holds q' (if r then xs @ [x] else xs) \<and> (ok \<longrightarrow> r)) \<and>
    (\<exists>r q'. try_enqueue mx x q = Some (r, q') \<and> rwq_holds q' (if r then xs @ [x] else xs)) \<and>
    (\<exists>q'. try_dequeue q = Some (case xs of [] \<Rightarrow> None | x # _ \<Rightarrow> Some x, q') \<and> rwq_holds q' (tl xs)) \<and>
    (\<exists>q'. pop q = Some (xs \<noteq> [], q') \<and> rwq_holds q' (tl xs)) \<and>
    (\<exists>q'. peek q = Some (case xs of [] \<Rightarrow> None | x # _ \<Rightarrow> Some x, q') \<and> rwq_holds q' xs) \<and>
    size_approx q = Some (of_nat (length xs)) \<and>
    (\<exists>ps. delete_queue q = Some (xs, ps) \<and> distinct ps \<and> set ps = {..<length (rq_blocks q)})"
proof (intro conjI)
  show "\<exists>r q'. enqueue mx ok x q = Some (r, q') \<and> rwq_holds q' (if r then xs @ [x] else xs) \<and> (ok \<longrightarrow> r)"
    using enqueue_alone [OF assms, of True x ok] unfolding enqueue_def by blast
  show "\<exists>r q'. try_enqueue mx x q = Some (r, q') \<and> rwq_holds q' (if r then xs @ [x] else xs)"
    using enqueue_alone [OF assms, of False x False] by (auto simp: try_enqueue_def)
  show "\<exists>q'. try_dequeue q = Some (case xs of [] \<Rightarrow> None | x # _ \<Rightarrow> Some x, q') \<and> rwq_holds q' (tl xs)"
    using dequeue_alone [OF assms(1), of Try_dequeue] by (simp add: try_dequeue_def)
  show "\<exists>q'. pop q = Some (xs \<noteq> [], q') \<and> rwq_holds q' (tl xs)"
    using dequeue_alone [OF assms(1), of Pop] by (cases xs) (auto simp: pop_def bind_eq_Some_conv)
  show "\<exists>q'. peek q = Some (case xs of [] \<Rightarrow> None | x # _ \<Rightarrow> Some x, q') \<and> rwq_holds q' xs"
    using dequeue_alone [OF assms(1), of Peek] by (simp add: peek_def)
qed (use ring_alone [OF assms(1)] in auto)

theorem alone_a_list_witness:
  "\<exists>q'. try_dequeue demo_queue = Some (None, q') \<and> rwq_holds q' []"
proof -
  have "rw_inv (rw_init demo_queue)" using constructor_inv(1) [OF demo_queue] by simp
  then have "rwq_holds demo_queue []" by (simp add: rwq_holds_def rw_init_def)
  then show ?thesis using alone_a_list [of demo_queue "[]" 2 1] by simp
qed

end
