(* ===== verification/Record_Queue.thy ===== *)
theory Record_Queue
  imports Record_Thread Rw_Queue_Fifo
begin

text \<open>
  The record thread with its lock-free queue: \<^verbatim>\<open>put_msg\<close> and \<^verbatim>\<open>svc\<close> of \<^verbatim>\<open>include/common/thread_record.hpp\<close> over \<open>Rw_Queue\<close>, where a
  call of the queue is interleaved with the other thread step by step. Every run of it is one of \<open>Record_Thread\<close>, where the queue
  is a list and its operations are atomic (\<open>record_thread_refined\<close>).
\<close>

subsection \<open>The two threads over the lock-free queue\<close>

datatype svc_pc = Svc_Call | Svc_Dequeue | Svc_Write bytes | Svc_Test | Svc_Sleep | Svc_End

record rec_sys =
  rs_queue :: "bytes rw_sys"
  rs_deleted :: bool
  rs_timer_file :: ctimer_file
  rs_delete_queue :: bool
  rs_running_flag :: bool
  rs_pc :: svc_pc

text \<open>\<^verbatim>\<open>MAX_BLOCK_SIZE\<close> and the size of the queue that \<^verbatim>\<open>open\<close> makes.\<close>

definition MAX_BLOCK_SIZE :: u64 where
  "MAX_BLOCK_SIZE = 512"

definition record_queue_size :: u64 where
  "record_queue_size = 1000000"

definition rec_sys_open :: "log_env \<Rightarrow> ctimer_file_info \<Rightarrow> (cstring \<rightharpoonup> bytes) \<Rightarrow> (nat \<Rightarrow> bool) \<Rightarrow> bytes rwq option \<Rightarrow> rec_sys option" where
  "rec_sys_open env info files mem queue = do {
     q \<leftarrow> (case queue of None \<Rightarrow> ReaderWriterQueue MAX_BLOCK_SIZE mem record_queue_size | Some q \<Rightarrow> Some q);
     Some \<lparr>rs_queue = rw_init q, rs_deleted = False, rs_timer_file = CTimerFile env info files, rs_delete_queue = (queue = None),
       rs_running_flag = True, rs_pc = Svc_Call\<rparr>
   }"

text \<open>A step of the calling thread: \<^verbatim>\<open>put_msg\<close> calls \<^verbatim>\<open>enqueue\<close> and returns 0, whatever \<^verbatim>\<open>enqueue\<close> returns.\<close>

datatype rs_event = RPut bytes | RProduce bool | RStop | RSvc

definition put_step :: "bytes rw_event \<Rightarrow> rec_sys \<Rightarrow> rec_sys option" where
  "put_step e s = (if rs_deleted s then None else do { q \<leftarrow> rw_step MAX_BLOCK_SIZE e (rs_queue s); Some (s\<lparr>rs_queue := q\<rparr>) })"

text \<open>A step of \<^verbatim>\<open>svc\<close>.\<close>

fun svc_step :: "log_env \<Rightarrow> svc_pc \<Rightarrow> rec_sys \<Rightarrow> rec_sys option" where
  "svc_step env Svc_Call s = do {
     q \<leftarrow> rw_step MAX_BLOCK_SIZE (Dequeue Try_dequeue) (rs_queue s);
     Some (s\<lparr>rs_queue := q, rs_pc := Svc_Dequeue\<rparr>)
   }"
| "svc_step env Svc_Dequeue s = do {
     q \<leftarrow> rw_step MAX_BLOCK_SIZE Consume (rs_queue s);
     Some (s\<lparr>rs_queue := q, rs_pc := (case s_deq q of Deq_Return op (Some str) \<Rightarrow> Svc_Write str | Deq_Return op None \<Rightarrow> Svc_Test | _ \<Rightarrow> Svc_Dequeue)\<rparr>)
   }"
| "svc_step env (Svc_Write str) s = do {
     (_, f) \<leftarrow> write_data env str (rs_timer_file s);
     Some (s\<lparr>rs_timer_file := f, rs_pc := Svc_Call\<rparr>)
   }"
| "svc_step env Svc_Test s =
     (if \<not> rs_running_flag s then do {
        _ \<leftarrow> (if rs_delete_queue s then delete_queue (sq (rs_queue s)) else Some ([], []));
        Some (s\<lparr>rs_deleted := rs_delete_queue s, rs_timer_file := CTimerFile_close (rs_timer_file s), rs_pc := Svc_End\<rparr>)
      }
      else Some (s\<lparr>rs_pc := Svc_Sleep\<rparr>))"
| "svc_step env Svc_Sleep s = Some (s\<lparr>rs_pc := Svc_Call\<rparr>)"
| "svc_step env Svc_End s = None"

fun rs_enabled :: "rs_event \<Rightarrow> rec_sys \<Rightarrow> bool" where
  "rs_enabled (RPut r) s = (\<not> enq_busy (s_enq (rs_queue s)))"
| "rs_enabled (RProduce ok) s = enq_busy (s_enq (rs_queue s))"
| "rs_enabled RStop s = True"
| "rs_enabled RSvc s = (rs_pc s \<noteq> Svc_End)"

fun rs_step :: "log_env \<Rightarrow> rs_event \<Rightarrow> rec_sys \<Rightarrow> rec_sys option" where
  "rs_step env (RPut r) s = put_step (Enqueue True r) s"
| "rs_step env (RProduce ok) s = put_step (Produce ok) s"
| "rs_step env RStop s = Some (s\<lparr>rs_running_flag := False\<rparr>)"
| "rs_step env RSvc s = svc_step env (rs_pc s) s"

inductive rs_runs :: "log_env \<Rightarrow> rec_sys \<Rightarrow> rs_event list \<Rightarrow> rec_sys \<Rightarrow> bool" for env s where
  start: "rs_runs env s [] s"
| step: "rs_runs env s es s' \<Longrightarrow> rs_enabled e s' \<Longrightarrow> rs_step env e s' = Some s'' \<Longrightarrow> rs_runs env s (es @ [e]) s''"

subsection \<open>The abstract run\<close>

fun abs_pc :: "svc_pc \<Rightarrow> rec_pc" where
  "abs_pc Svc_Call = Draining"
| "abs_pc Svc_Dequeue = Draining"
| "abs_pc (Svc_Write str) = Draining"
| "abs_pc Svc_Test = Testing"
| "abs_pc Svc_Sleep = Sleeping"
| "abs_pc Svc_End = Ended"

text \<open>The record that \<^verbatim>\<open>svc\<close> has in hand.\<close>

fun in_hand :: "svc_pc \<Rightarrow> bytes list" where
  "in_hand (Svc_Write str) = [str]"
| "in_hand _ = []"

definition rs_abs :: "rec_sys \<Rightarrow> rec_thread" where
  "rs_abs d = \<lparr>rt_queue = (if rs_deleted d then None else Some (in_hand (rs_pc d) @ drop (length (h_dequeued (rs_queue d))) (h_enqueued (rs_queue d)))),
     rt_timer_file = rs_timer_file d, rt_delete_queue = rs_delete_queue d, rt_running_flag = rs_running_flag d, rt_pc = abs_pc (rs_pc d)\<rparr>"

lemma other_thread_first:
  assumes "rec_runs env s es s'" "Svc \<notin> set es" "rt_pc s = Draining" "rt_queue s = Some []"
  shows "rec_runs env s (Svc # es) (s'\<lparr>rt_pc := Testing\<rparr>)"
  using assms
proof (induction rule: rec_runs.induct)
  case start
  then show ?case using rec_runs.step [OF rec_runs.start, of env Svc s] by (simp add: rec_svc_def)
next
  case (step es s1 e s2)
  have "rec_step env e (s1\<lparr>rt_pc := Testing\<rparr>) = Some (s2\<lparr>rt_pc := Testing\<rparr>)"
    using step.hyps(2) step.prems(1) by (cases e) (auto simp: put_msg_def thread_stop_def bind_eq_Some_conv)
  then show ?case using rec_runs.step [of env s "Svc # es" "s1\<lparr>rt_pc := Testing\<rparr>" e] step by auto
qed

text \<open>
  While a call of \<^verbatim>\<open>try_dequeue\<close> is in progress, the abstract run is known up to its start: should the call find nothing, the
  abstract thread looks at its queue there.
\<close>

definition call_start :: "log_env \<Rightarrow> rec_thread \<Rightarrow> rec_event list \<Rightarrow> rec_sys \<Rightarrow> bool" where
  "call_start env s0 es d \<longleftrightarrow> (\<exists>es1 es2 s1 left. es = es1 @ es2 \<and> rec_runs env s0 es1 s1 \<and> rec_runs env s1 es2 (rs_abs d) \<and> Svc \<notin> set es2 \<and>
     rt_pc s1 = Draining \<and> rt_queue s1 = Some left \<and> put_records es1 = h_dequeued (rs_queue d) @ left \<and> length (put_records es1) = h_before (rs_queue d))"

definition rs_inv :: "log_env \<Rightarrow> rec_thread \<Rightarrow> rec_event list \<Rightarrow> rec_sys \<Rightarrow> bool" where
  "rs_inv env s0 es d \<longleftrightarrow> rec_runs env s0 es (rs_abs d) \<and> put_records es = h_enqueued (rs_queue d) \<and> rw_inv (rs_queue d) \<and>
     (deq_busy (s_deq (rs_queue d)) = (rs_pc d = Svc_Dequeue)) \<and> (rs_deleted d \<longrightarrow> rs_pc d = Svc_End) \<and>
     (rs_pc d = Svc_Dequeue \<longrightarrow> deq_op_of (s_deq (rs_queue d)) = Try_dequeue \<and> call_start env s0 es d)"

lemma max_block_power: "unat MAX_BLOCK_SIZE = 2 ^ 9"
  by (simp add: MAX_BLOCK_SIZE_def)

lemma rw_inv_prefix: "rw_inv s \<Longrightarrow> \<exists>left. h_enqueued s = h_dequeued s @ left"
  by (auto simp: rw_inv_def rw_at_def)

lemma deq_return_facts:
  assumes "rw_inv s" "s_deq s = Deq_Return Try_dequeue r"
  shows "r = None \<Longrightarrow> h_before s \<le> length (h_dequeued s)" "r = Some x \<Longrightarrow> \<exists>ds. h_dequeued s = ds @ [x]"
proof -
  obtain fs rs X where "rw_at s fs rs X" using assms(1) by (auto simp: rw_inv_def)
  note d = rw_at_pieces(8) [OF this]
  show "r = None \<Longrightarrow> h_before s \<le> length (h_dequeued s)" using d assms(2) by simp
  show "r = Some x \<Longrightarrow> \<exists>ds. h_dequeued s = ds @ [x]" using d assms(2) by (auto intro: append_butlast_last_id [symmetric])
qed

lemma rec_runs_one: "rec_step env e s = Some s' \<Longrightarrow> rec_runs env s [e] s'"
  using rec_runs.step [OF rec_runs.start, of env e s s'] by simp

lemma enqueued_by_cases: "enqueued_by pc = [] \<or> (\<exists>x. enqueued_by pc = [x])"
  by (cases pc) simp_all

text \<open>The producer's steps: the abstract record is put when the call takes effect.\<close>

lemma put_step_inv:
  assumes "rs_inv env s0 es d" "put_step e d = Some d'" "e = Enqueue True r \<or> e = Produce ok" "rw_enabled e (rs_queue d)"
  shows "\<exists>es'. rs_inv env s0 es' d'"
proof -
  let ?q = "rs_queue d"
  have i: "rec_runs env s0 es (rs_abs d)" "put_records es = h_enqueued ?q" "rw_inv ?q" "deq_busy (s_deq ?q) = (rs_pc d = Svc_Dequeue)"
      "rs_deleted d \<Longrightarrow> rs_pc d = Svc_End" "rs_pc d = Svc_Dequeue \<Longrightarrow> deq_op_of (s_deq ?q) = Try_dequeue \<and> call_start env s0 es d"
    using assms(1) by (auto simp: rs_inv_def)
  obtain q where q: "rw_step MAX_BLOCK_SIZE e ?q = Some q" "d' = d\<lparr>rs_queue := q\<rparr>" "\<not> rs_deleted d"
    using assms(2) by (auto simp: put_step_def bind_eq_Some_conv split: if_splits)
  have q': "rw_inv q" using rw_step_inv [OF i(3) assms(4) max_block_power] q(1) by auto
  have same: "s_deq q = s_deq ?q" "h_dequeued q = h_dequeued ?q" "h_before q = h_before ?q"
    using q(1) assms(3) by (auto simp: bind_eq_Some_conv)
  obtain left where left: "h_enqueued ?q = h_dequeued ?q @ left" using rw_inv_prefix [OF i(3)] by blast
  show ?thesis
  proof (cases "h_enqueued q = h_enqueued ?q")
    case True
    then have "rs_abs d' = rs_abs d" using q(2) same by (simp add: rs_abs_def)
    then have "rs_inv env s0 es d'" using i True same q(2) q' by (auto simp: rs_inv_def call_start_def)
    then show ?thesis by blast
  next
    case False
    then obtain x where x: "h_enqueued q = h_enqueued ?q @ [x]"
      using q(1) assms(3) enqueued_by_cases [of "s_enq ?q"] by (auto simp: bind_eq_Some_conv)
    have st: "rec_step env (Put x) (rs_abs d) = Some (rs_abs d')"
      using q(2,3) same x left by (simp add: rs_abs_def put_msg_def)
    have "call_start env s0 (es @ [Put x]) d'" if call: "rs_pc d = Svc_Dequeue"
    proof -
      obtain es1 es2 s1 ls where c: "es = es1 @ es2" "rec_runs env s0 es1 s1" "rec_runs env s1 es2 (rs_abs d)" "Svc \<notin> set es2"
          "rt_pc s1 = Draining" "rt_queue s1 = Some ls" "put_records es1 = h_dequeued ?q @ ls" "length (put_records es1) = h_before ?q"
        using i(6) [OF call] by (auto simp: call_start_def)
      have "rec_runs env s1 (es2 @ [Put x]) (rs_abs d')" by (rule rec_runs.step [OF c(3) st])
      then show ?thesis
        unfolding call_start_def using c same q(2)
        by (intro exI [of _ es1] exI [of _ "es2 @ [Put x]"] exI [of _ s1] exI [of _ ls]) simp
    qed
    then have "rs_inv env s0 (es @ [Put x]) d'"
      using rec_runs.step [OF i(1) st] i(2,4-6) x same q(2) q' by (auto simp: rs_inv_def)
    then show ?thesis by blast
  qed
qed

text \<open>The consumer's steps in a call of \<^verbatim>\<open>try_dequeue\<close>.\<close>

lemma svc_dequeue_inv:
  assumes "rs_inv env s0 es d" "svc_step env Svc_Dequeue d = Some d'" "rs_pc d = Svc_Dequeue"
  shows "\<exists>es'. rs_inv env s0 es' d'"
proof -
  let ?q = "rs_queue d"
  have i: "rec_runs env s0 es (rs_abs d)" "put_records es = h_enqueued ?q" "rw_inv ?q" "deq_busy (s_deq ?q)"
      "\<not> rs_deleted d" "deq_op_of (s_deq ?q) = Try_dequeue" "call_start env s0 es d"
    using assms(1,3) by (auto simp: rs_inv_def)
  obtain q where q: "rw_step MAX_BLOCK_SIZE Consume ?q = Some q"
      "d' = d\<lparr>rs_queue := q, rs_pc := (case s_deq q of Deq_Return op (Some str) \<Rightarrow> Svc_Write str | Deq_Return op None \<Rightarrow> Svc_Test | _ \<Rightarrow> Svc_Dequeue)\<rparr>"
    using assms(2) by (auto simp: bind_eq_Some_conv)
  have q': "rw_inv q" using rw_step_inv [OF i(3) _ max_block_power, of Consume] i(4) q(1) by auto
  obtain pc w where pc: "deq_step (s_deq ?q) (sq ?q) = Some (pc, w)" "q = ?q\<lparr>sq := w, s_deq := pc, h_dequeued := h_dequeued ?q @ dequeued_by (s_deq ?q)\<rparr>"
    using q(1) by (auto simp: bind_eq_Some_conv)
  note res = deq_step_result [OF pc(1) no_peek_front [OF i(3)]]
  obtain left where left: "h_enqueued q = h_dequeued q @ left" using rw_inv_prefix [OF q'] by blast
  show ?thesis
  proof (cases "deq_busy pc")
    case True
    then have "(case pc of Deq_Return op (Some str) \<Rightarrow> Svc_Write str | Deq_Return op None \<Rightarrow> Svc_Test | _ \<Rightarrow> Svc_Dequeue) = Svc_Dequeue" by (cases pc) simp_all
    then have d': "d' = d\<lparr>rs_queue := q\<rparr>" "h_dequeued q = h_dequeued ?q" using q(2) pc(2) assms(3) res True by (auto intro: rec_sys.equality)
    then have "rs_abs d' = rs_abs d" using pc(2) by (simp add: rs_abs_def)
    then have "rs_inv env s0 es d'" using i d' pc(2) q' True res assms(3) by (auto simp: rs_inv_def call_start_def)
    then show ?thesis by blast
  next
    case False
    then obtain r where r: "pc = Deq_Return Try_dequeue r" "dequeued_by (s_deq ?q) = (case r of None \<Rightarrow> [] | Some x \<Rightarrow> [x])"
      using res i(6) by auto
    have sd: "s_deq q = Deq_Return Try_dequeue r" using pc(2) r(1) by simp
    show ?thesis
    proof (cases r)
      case (Some x)
      then have "rs_abs d' = rs_abs d" using q(2) pc(2) r left assms(3) by (simp add: rs_abs_def)
      then have "rs_inv env s0 es d'" using i q(2) pc(2) q' r Some by (simp add: rs_inv_def)
      then show ?thesis by blast
    next
      case None
      obtain es1 es2 s1 ls where c: "es = es1 @ es2" "rec_runs env s0 es1 s1" "rec_runs env s1 es2 (rs_abs d)" "Svc \<notin> set es2"
          "rt_pc s1 = Draining" "rt_queue s1 = Some ls" "put_records es1 = h_dequeued ?q @ ls" "length (put_records es1) = h_before ?q"
        using i(7) by (auto simp: call_start_def)
      have "ls = []" using deq_return_facts(1) [OF q' sd None] c(7,8) pc(2) r(2) None by (cases ls) simp_all
      then have "rec_runs env s1 (Svc # es2) ((rs_abs d)\<lparr>rt_pc := Testing\<rparr>)" using other_thread_first [OF c(3-5)] c(6) by simp
      moreover have "(rs_abs d)\<lparr>rt_pc := Testing\<rparr> = rs_abs d'" using q(2) pc(2) r None assms(3) by (simp add: rs_abs_def)
      ultimately have "rec_runs env s0 (es1 @ Svc # es2) (rs_abs d')" using rec_runs_trans [OF _ c(2)] by simp
      then have "rs_inv env s0 (es1 @ Svc # es2) d'" using i(2,5) c(1) q(2) pc(2) q' r None by (simp add: rs_inv_def)
      then show ?thesis by blast
    qed
  qed
qed

lemma call_start_step:
  assumes "call_start env s0 es d" "rec_step env e (rs_abs d) = Some (rs_abs d')" "e \<noteq> Svc" "rs_queue d' = rs_queue d" "put_records [e] = []"
  shows "call_start env s0 (es @ [e]) d'"
proof -
  obtain es1 es2 s1 ls where c: "es = es1 @ es2" "rec_runs env s0 es1 s1" "rec_runs env s1 es2 (rs_abs d)" "Svc \<notin> set es2"
      "rt_pc s1 = Draining" "rt_queue s1 = Some ls" "put_records es1 = h_dequeued (rs_queue d) @ ls" "length (put_records es1) = h_before (rs_queue d)"
    using assms(1) by (auto simp: call_start_def)
  show ?thesis
    unfolding call_start_def using c assms(3,4) rec_runs.step [OF c(3) assms(2)]
    by (intro exI [of _ es1] exI [of _ "es2 @ [e]"] exI [of _ s1] exI [of _ ls]) simp
qed

lemma svc_step_inv:
  assumes "rs_inv env s0 es d" "svc_step env (rs_pc d) d = Some d'"
  shows "\<exists>es'. rs_inv env s0 es' d'"
proof -
  let ?q = "rs_queue d"
  have i: "rec_runs env s0 es (rs_abs d)" "put_records es = h_enqueued ?q" "rw_inv ?q" "deq_busy (s_deq ?q) = (rs_pc d = Svc_Dequeue)"
      "rs_deleted d \<Longrightarrow> rs_pc d = Svc_End"
    using assms(1) by (auto simp: rs_inv_def)
  have svc: ?thesis if "rec_svc env (rs_abs d) = Some (rs_abs d')" "rs_queue d' = ?q" "rs_pc d \<noteq> Svc_Dequeue" "rs_pc d' \<noteq> Svc_Dequeue" "rs_deleted d' \<longrightarrow> rs_pc d' = Svc_End"
  proof -
    have "rec_runs env s0 (es @ [Svc]) (rs_abs d')" by (rule rec_runs.step [OF i(1)]) (simp add: that(1))
    then have "rs_inv env s0 (es @ [Svc]) d'" using i(2-4) that by (simp add: rs_inv_def)
    then show ?thesis by blast
  qed
  show ?thesis
  proof (cases "rs_pc d")
    case Svc_Call
    then obtain q where q: "rw_step MAX_BLOCK_SIZE (Dequeue Try_dequeue) ?q = Some q" "d' = d\<lparr>rs_queue := q, rs_pc := Svc_Dequeue\<rparr>"
      using assms(2) by (auto simp: bind_eq_Some_conv)
    have q': "rw_inv q" using rw_step_inv [OF i(3) _ max_block_power, of "Dequeue Try_dequeue"] i(4) q(1) Svc_Call by auto
    have h: "h_enqueued q = h_enqueued ?q" "h_dequeued q = h_dequeued ?q" "h_before q = length (h_enqueued ?q)" "deq_busy (s_deq q)" "deq_op_of (s_deq q) = Try_dequeue"
      using q(1) by (auto simp: bind_eq_Some_conv deq_start_def Let_def split: if_splits)
    have ab: "rs_abs d' = rs_abs d" using q(2) h Svc_Call by (simp add: rs_abs_def)
    obtain left where left: "h_enqueued ?q = h_dequeued ?q @ left" using rw_inv_prefix [OF i(3)] by blast
    have "\<not> rs_deleted d" using i(5) Svc_Call by auto
    then have "rt_queue (rs_abs d) = Some left" "rt_pc (rs_abs d) = Draining" using left Svc_Call by (simp_all add: rs_abs_def)
    then have "call_start env s0 es d'"
      unfolding call_start_def ab using i(1,2) q(2) h left rec_runs.start [of env "rs_abs d"]
      by (intro exI [of _ es] exI [of _ "[]"] exI [of _ "rs_abs d"] exI [of _ left]) simp
    then have "rs_inv env s0 es d'" using i(1,2) q' q(2) h ab \<open>\<not> rs_deleted d\<close> unfolding rs_inv_def by simp
    then show ?thesis by blast
  next
    case Svc_Dequeue
    then show ?thesis using svc_dequeue_inv [OF assms(1)] assms(2) by simp
  next
    case (Svc_Write str)
    then obtain x f where f: "write_data env str (rs_timer_file d) = Some (x, f)" "d' = d\<lparr>rs_timer_file := f, rs_pc := Svc_Call\<rparr>"
      using assms(2) by (auto simp: bind_eq_Some_conv)
    show ?thesis by (rule svc) (use f Svc_Write i(5) in \<open>auto simp: rec_svc_def rs_abs_def\<close>)
  next
    case Svc_Test
    show ?thesis by (rule svc) (use assms(2) Svc_Test i(5) in \<open>auto simp: rec_svc_def rs_abs_def bind_eq_Some_conv split: if_splits\<close>)
  next
    case Svc_Sleep
    show ?thesis by (rule svc) (use assms(2) Svc_Sleep i(5) in \<open>auto simp: rec_svc_def rs_abs_def\<close>)
  next
    case Svc_End
    then show ?thesis using assms(2) by simp
  qed
qed

lemma rs_step_inv:
  assumes "rs_inv env s0 es d" "rs_enabled e d" "rs_step env e d = Some d'"
  shows "\<exists>es'. rs_inv env s0 es' d'"
proof (cases e)
  case (RPut r)
  then show ?thesis using put_step_inv [OF assms(1), of "Enqueue True r" d' r] assms(2,3) by simp
next
  case (RProduce ok)
  then show ?thesis using put_step_inv [OF assms(1), of "Produce ok" d' _ ok] assms(2,3) by simp
next
  case RStop
  then have d': "d' = d\<lparr>rs_running_flag := False\<rparr>" using assms(3) by simp
  have st: "rec_step env Stop (rs_abs d) = Some (rs_abs d')" by (simp add: d' rs_abs_def thread_stop_def)
  have "rec_runs env s0 (es @ [Stop]) (rs_abs d')" by (rule rec_runs.step [OF _ st]) (use assms(1) in \<open>simp add: rs_inv_def\<close>)
  then have "rs_inv env s0 (es @ [Stop]) d'"
    using assms(1) call_start_step [of env s0 es d Stop d'] st by (simp add: rs_inv_def d')
  then show ?thesis by blast
next
  case RSvc
  then show ?thesis using svc_step_inv [OF assms(1)] assms(3) by simp
qed

lemma open_inv:
  assumes "rec_sys_open env info files mem None = Some d"
  shows "rs_inv env (CRecordThread_open env info files None) [] d" "s_enq (rs_queue d) = Enq_Idle" "h_enqueued (rs_queue d) = []" "rs_running_flag d"
proof -
  obtain q where q: "ReaderWriterQueue MAX_BLOCK_SIZE mem record_queue_size = Some q"
      "d = \<lparr>rs_queue = rw_init q, rs_deleted = False, rs_timer_file = CTimerFile env info files, rs_delete_queue = True, rs_running_flag = True, rs_pc = Svc_Call\<rparr>"
    using assms by (auto simp: rec_sys_open_def bind_eq_Some_conv)
  have "rw_inv (rw_init q)" by (rule constructor_inv(1) [OF q(1)]) (simp_all add: MAX_BLOCK_SIZE_def record_queue_size_def)
  moreover have "rs_abs d = CRecordThread_open env info files None" by (simp add: q(2) rs_abs_def CRecordThread_open_def rw_init_def)
  ultimately show "rs_inv env (CRecordThread_open env info files None) [] d"
    using rec_runs.start by (simp add: rs_inv_def q(2) rw_init_def)
  show "s_enq (rs_queue d) = Enq_Idle" "h_enqueued (rs_queue d) = []" "rs_running_flag d" by (simp_all add: q(2) rw_init_def)
qed

lemma rs_runs_inv:
  assumes "rs_runs env d0 es d" "rec_sys_open env info files mem None = Some d0"
  shows "\<exists>es'. rs_inv env (CRecordThread_open env info files None) es' d"
  using assms
proof (induction rule: rs_runs.induct)
  case start
  then show ?case using open_inv(1) by blast
next
  case (step es d e d')
  then show ?case using rs_step_inv by blast
qed

lemma rs_runs_trans: "rs_runs env s' es' s'' \<Longrightarrow> rs_runs env s es s' \<Longrightarrow> rs_runs env s (es @ es') s''"
  by (induction rule: rs_runs.induct) (simp, metis append_assoc rs_runs.step)

lemma rs_runs_Cons: "rs_enabled e s \<Longrightarrow> rs_step env e s = Some s' \<Longrightarrow> rs_runs env s' es s'' \<Longrightarrow> rs_runs env s (e # es) s''"
  using rs_runs_trans [of env s' es s'' s "[e]"] rs_runs.step [OF rs_runs.start, of e s env s'] by simp

text \<open>The records that were put, and what became of them.\<close>

fun rputs :: "rs_event list \<Rightarrow> bytes list" where
  "rputs [] = []"
| "rputs (RPut r # es) = r # rputs es"
| "rputs (_ # es) = rputs es"

lemma rputs_append [simp]: "rputs (es @ fs) = rputs es @ rputs fs"
  by (induction es rule: rputs.induct) simp_all

definition puts_ok :: "rs_event list \<Rightarrow> bytes rw_sys \<Rightarrow> bool" where
  "puts_ok es q \<longleftrightarrow> enq_can (s_enq q) \<and> set (h_enqueued q @ enq_elem (s_enq q)) \<subseteq> set (rputs es) \<and>
     (RProduce False \<notin> set es \<longrightarrow> rputs es = h_enqueued q @ enq_elem (s_enq q))"

lemma enq_elem_idle: "\<not> enq_busy pc \<Longrightarrow> enq_elem pc = []"
  by (cases pc) simp_all

lemma rs_runs_puts:
  assumes "rs_runs env d0 es d" "s_enq (rs_queue d0) = Enq_Idle" "h_enqueued (rs_queue d0) = []"
  shows "puts_ok es (rs_queue d)"
  using assms
proof (induction rule: rs_runs.induct)
  case (step es d e d')
  have ih: "puts_ok es (rs_queue d)" using step by simp
  let ?q = "rs_queue d"
  show ?case
  proof (cases e)
    case (RPut r)
    then obtain q where q: "rw_step MAX_BLOCK_SIZE (Enqueue True r) ?q = Some q" "d' = d\<lparr>rs_queue := q\<rparr>"
      using step.hyps(3) by (auto simp: put_step_def bind_eq_Some_conv split: if_splits)
    then have "h_enqueued q = h_enqueued ?q" "enq_elem (s_enq q) = [r]" "enq_can (s_enq q)"
      by (auto simp: bind_eq_Some_conv inner_enqueue_def Let_def split: if_splits)
    then show ?thesis using ih enq_elem_idle [of "s_enq ?q"] step.hyps(2) RPut q(2) by (auto simp: puts_ok_def)
  next
    case (RProduce ok)
    then obtain q where q: "rw_step MAX_BLOCK_SIZE (Produce ok) ?q = Some q" "d' = d\<lparr>rs_queue := q\<rparr>"
      using step.hyps(3) by (auto simp: put_step_def simp del: rw_step.simps split: if_splits bind_splits)
    then obtain pc w where pc: "enq_step MAX_BLOCK_SIZE ok (s_enq ?q) (sq ?q) = Some (pc, w)" "s_enq q = pc" "h_enqueued q = h_enqueued ?q @ enqueued_by (s_enq ?q)"
      by (auto simp: bind_eq_Some_conv simp del: enq_step.simps)
    show ?thesis using enq_step_result [OF pc(1)] pc(2,3) ih RProduce q(2) by (cases pc) (auto simp: puts_ok_def split: if_splits)
  next
    case RStop
    then show ?thesis using ih step.hyps(3) by (auto simp: puts_ok_def)
  next
    case RSvc
    have "s_enq (rs_queue d') = s_enq ?q \<and> h_enqueued (rs_queue d') = h_enqueued ?q"
      using step.hyps(3) RSvc by (cases "rs_pc d") (auto simp: bind_eq_Some_conv simp del: deq_step.simps split: if_splits)
    then show ?thesis using ih RSvc by (simp add: puts_ok_def)
  qed
qed (simp add: puts_ok_def)

text \<open>While the thread is not told to stop, every step succeeds.\<close>

lemma running:
  assumes "rs_inv env (CRecordThread_open env info files None) es d" "rs_running_flag d"
  shows "rs_pc d \<noteq> Svc_End" "\<not> rs_deleted d"
proof -
  have "rec_runs env (CRecordThread_open env info files None) es (rs_abs d)" using assms(1) by (simp add: rs_inv_def)
  from rec_runs_flag [OF this open_ok(3,2)] assms(2) have "abs_pc (rs_pc d) \<noteq> Ended" by (auto simp: rs_abs_def)
  then show "rs_pc d \<noteq> Svc_End" by auto
  then show "\<not> rs_deleted d" using assms(1) by (auto simp: rs_inv_def)
qed

lemma files_wf:
  assumes "rs_inv env (CRecordThread_open env info files None) es d" "rs_running_flag d" "\<forall>r\<in>set (h_enqueued (rs_queue d)). roomy env (length r)"
  shows "tf_wf (rs_timer_file d)"
proof -
  have r: "rec_runs env (CRecordThread_open env info files None) es (rs_abs d)" "put_records es = h_enqueued (rs_queue d)" using assms(1) by (simp_all add: rs_inv_def)
  have "rt_pc (rs_abs d) \<noteq> Ended" using running(1) [OF assms(1,2)] by (cases "rs_pc d") (simp_all add: rs_abs_def)
  then obtain ws left where "put_records es = ws @ left" "write_all env ws (CTimerFile env info files) = Some (rs_timer_file d)"
    using rec_runs_inv [OF r(1) open_ok(1,2)] open_ok(6) unfolding rec_inv_def by (auto simp: rs_abs_def)
  then show ?thesis using write_all_log [of ws env "CTimerFile env info files"] assms(3) r(2) open_ok(4,5) by auto
qed

lemma rs_step_ok:
  assumes "rs_inv env (CRecordThread_open env info files None) es d" "rs_running_flag d" "\<forall>r\<in>set (h_enqueued (rs_queue d)). roomy env (length r)" "rs_enabled e d"
  shows "rs_step env e d \<noteq> None"
proof -
  have i: "rw_inv (rs_queue d)" "deq_busy (s_deq (rs_queue d)) = (rs_pc d = Svc_Dequeue)" "\<not> rs_deleted d" "rs_pc d \<noteq> Svc_End"
      and r: "rec_runs env (CRecordThread_open env info files None) es (rs_abs d)"
    using assms(1) running [OF assms(1,2)] by (simp_all add: rs_inv_def)
  have q: "rw_step MAX_BLOCK_SIZE f (rs_queue d) \<noteq> None" if "rw_enabled f (rs_queue d)" for f using rw_step_inv [OF i(1) that max_block_power] by auto
  have w: "write_data env str (rs_timer_file d) \<noteq> None" if "rs_pc d = Svc_Write str" for str
  proof -
    have "Svc_Write str = rs_pc d" using that by simp
    then have "str \<in> set (the (rt_queue (rs_abs d)))" using i(3) by (simp add: rs_abs_def flip: \<open>Svc_Write str = rs_pc d\<close>)
    moreover have "set (the (rt_queue (rs_abs d))) \<subseteq> set (put_records es)"
      using rec_runs_inv [OF r open_ok(1,2)] that i(4) unfolding rec_inv_def by (auto simp: rs_abs_def)
    ultimately have "roomy env (length str)" using assms(1,3) by (auto simp: rs_inv_def)
    then show ?thesis using write_data_ok [OF _ files_wf [OF assms(1-3)]] by blast
  qed
  show ?thesis
  proof (cases e)
    case (RPut r)
    then show ?thesis using q [of "Enqueue True r"] assms(4) i(3) by (auto simp: put_step_def simp del: rw_step.simps)
  next
    case (RProduce ok)
    then show ?thesis using q [of "Produce ok"] assms(4) i(3) by (auto simp: put_step_def simp del: rw_step.simps)
  next
    case RSvc
    then show ?thesis
      using q [of "Dequeue Try_dequeue"] q [of Consume] w i(2,4) assms(2) by (cases "rs_pc d") (auto simp del: rw_step.simps)
  qed simp
qed

subsection \<open>The threads come to an end of their work\<close>

lemma svc_frame:
  assumes "svc_step env (rs_pc d) d = Some d'" "rs_running_flag d"
  shows "s_enq (rs_queue d') = s_enq (rs_queue d)" "h_enqueued (rs_queue d') = h_enqueued (rs_queue d)" "rs_running_flag d'"
  using assms by (cases "rs_pc d"; auto simp: bind_eq_Some_conv simp del: deq_step.simps)+

definition unread :: "rec_sys \<Rightarrow> bytes list" where
  "unread d = drop (length (h_dequeued (rs_queue d))) (h_enqueued (rs_queue d))"

text \<open>A call that began before the last record was put may end without it; the next one does not.\<close>

definition svc_work :: "rec_sys \<Rightarrow> nat" where
  "svc_work d = 40 * length (unread d) +
     (case rs_pc d of Svc_Call \<Rightarrow> 10
      | Svc_Dequeue \<Rightarrow> 1 + deq_rank (s_deq (rs_queue d)) + (if h_before (rs_queue d) < length (h_enqueued (rs_queue d)) then 20 else 0)
      | Svc_Write str \<Rightarrow> 15 | Svc_Test \<Rightarrow> 12 | Svc_Sleep \<Rightarrow> 11 | Svc_End \<Rightarrow> 0)"

lemma svc_dequeue_work:
  assumes "rs_inv env s0 es d" "rs_pc d = Svc_Dequeue" "svc_step env Svc_Dequeue d = Some d'"
  shows "rs_pc d' = Svc_Test \<and> unread d' = [] \<or> svc_work d' < svc_work d"
proof -
  let ?q = "rs_queue d"
  have i: "rw_inv ?q" "deq_busy (s_deq ?q)" "deq_op_of (s_deq ?q) = Try_dequeue" using assms(1,2) by (simp_all add: rs_inv_def)
  obtain q where q: "rw_step MAX_BLOCK_SIZE Consume ?q = Some q"
      "d' = d\<lparr>rs_queue := q, rs_pc := (case s_deq q of Deq_Return op (Some str) \<Rightarrow> Svc_Write str | Deq_Return op None \<Rightarrow> Svc_Test | _ \<Rightarrow> Svc_Dequeue)\<rparr>"
    using assms(3) by (auto simp: bind_eq_Some_conv)
  have q': "rw_inv q" using rw_step_inv [OF i(1) _ max_block_power, of Consume] i(2) q(1) by auto
  obtain pc w where pc: "deq_step (s_deq ?q) (sq ?q) = Some (pc, w)" "q = ?q\<lparr>sq := w, s_deq := pc, h_dequeued := h_dequeued ?q @ dequeued_by (s_deq ?q)\<rparr>"
    using q(1) by (auto simp: bind_eq_Some_conv)
  note res = deq_step_result [OF pc(1) no_peek_front [OF i(1)]] and rank = deq_step_rank [OF pc(1)]
  show ?thesis
  proof (cases "deq_busy pc")
    case True
    then have "rs_pc d' = Svc_Dequeue" "dequeued_by (s_deq ?q) = []" using q(2) pc(2) res by (cases pc; simp)+
    then show ?thesis using rank q(2) pc(2) assms(2) by (simp add: svc_work_def unread_def)
  next
    case False
    then obtain r where r: "pc = Deq_Return Try_dequeue r" "dequeued_by (s_deq ?q) = (case r of None \<Rightarrow> [] | Some x \<Rightarrow> [x])"
      using res i(3) by auto
    show ?thesis
    proof (cases r)
      case (Some x)
      obtain left where "h_enqueued q = h_dequeued q @ left" using rw_inv_prefix [OF q'] by blast
      then have "length (unread d) = Suc (length (unread d'))" using q(2) pc(2) r Some by (simp add: unread_def)
      then show ?thesis using q(2) pc(2) r Some assms(2) by (simp add: svc_work_def)
    next
      case None
      have "h_before q \<le> length (h_dequeued q)" using deq_return_facts(1) [OF q'] pc(2) r(1) None by simp
      then have "unread d' \<noteq> [] \<longrightarrow> h_before ?q < length (h_enqueued ?q)" using q(2) pc(2) r None by (simp add: unread_def)
      then show ?thesis using q(2) pc(2) r None assms(2) rank by (auto simp: svc_work_def unread_def)
    qed
  qed
qed

lemma svc_step_work:
  assumes "rs_inv env s0 es d" "rs_running_flag d" "svc_step env (rs_pc d) d = Some d'"
  shows "rs_pc d' = Svc_Test \<and> unread d' = [] \<or> svc_work d' < svc_work d"
proof (cases "rs_pc d")
  case Svc_Call
  then obtain q where q: "rw_step MAX_BLOCK_SIZE (Dequeue Try_dequeue) (rs_queue d) = Some q" "d' = d\<lparr>rs_queue := q, rs_pc := Svc_Dequeue\<rparr>"
    using assms(3) by (auto simp: bind_eq_Some_conv)
  then have "h_before q = length (h_enqueued q)" "h_enqueued q = h_enqueued (rs_queue d)" "h_dequeued q = h_dequeued (rs_queue d)"
    by (auto simp: bind_eq_Some_conv)
  then show ?thesis using q(2) Svc_Call rank_bound(2) [of "s_deq q"] by (simp add: svc_work_def unread_def)
next
  case Svc_Dequeue
  then show ?thesis using svc_dequeue_work [OF assms(1)] assms(3) by simp
qed (use assms(2,3) in \<open>auto simp: svc_work_def unread_def bind_eq_Some_conv\<close>)

lemma svc_drains:
  assumes "rs_inv env (CRecordThread_open env info files None) es d" "rs_running_flag d" "\<forall>r\<in>set (h_enqueued (rs_queue d)). roomy env (length r)"
  shows "\<exists>n d' es'. rs_runs env d (replicate n RSvc) d' \<and> rs_inv env (CRecordThread_open env info files None) es' d' \<and> rs_pc d' = Svc_Test \<and> unread d' = [] \<and>
    h_enqueued (rs_queue d') = h_enqueued (rs_queue d) \<and> rs_running_flag d'"
  using assms
proof (induction "svc_work d" arbitrary: d es rule: less_induct)
  case less
  show ?case
  proof (cases "rs_pc d = Svc_Test \<and> unread d = []")
    case True
    then show ?thesis using less.prems rs_runs.start [of env d] by (intro exI [of _ 0] exI [of _ d] exI [of _ es]) simp
  next
    case False
    have en: "rs_enabled RSvc d" using running(1) [OF less.prems(1,2)] by simp
    obtain d1 where d1: "svc_step env (rs_pc d) d = Some d1" using rs_step_ok [OF less.prems en] by auto
    obtain es1 where 1: "rs_inv env (CRecordThread_open env info files None) es1 d1" using svc_step_inv [OF less.prems(1) d1] by blast
    note f = svc_frame [OF d1 less.prems(2)]
    obtain n d' es' where "rs_runs env d1 (replicate n RSvc) d'" "rs_inv env (CRecordThread_open env info files None) es' d'" "rs_pc d' = Svc_Test" "unread d' = []"
        "h_enqueued (rs_queue d') = h_enqueued (rs_queue d)" "rs_running_flag d'"
    proof (cases "rs_pc d1 = Svc_Test \<and> unread d1 = []")
      case True
      then show ?thesis using that [of 0 d1 es1] 1 f rs_runs.start by simp
    next
      case False
      then have "svc_work d1 < svc_work d" using svc_step_work [OF less.prems(1,2) d1] by blast
      from less.hyps [OF this 1 f(3)] show ?thesis using that less.prems(3) f(2) by auto
    qed
    then show ?thesis
      using rs_runs_Cons [OF en, of env d1] d1 by (intro exI [of _ "Suc n"] exI [of _ d'] exI [of _ es']) simp
  qed
qed

lemma put_completes:
  assumes "rs_inv env (CRecordThread_open env info files None) es d" "rs_running_flag d"
    "\<forall>r\<in>set (h_enqueued (rs_queue d) @ enq_elem (s_enq (rs_queue d))). roomy env (length r)" "enq_can (s_enq (rs_queue d))"
  shows "\<exists>n d' es'. rs_runs env d (replicate n (RProduce True)) d' \<and> rs_inv env (CRecordThread_open env info files None) es' d' \<and>
    h_enqueued (rs_queue d') = h_enqueued (rs_queue d) @ enq_elem (s_enq (rs_queue d)) \<and> rs_running_flag d'"
  using assms
proof (induction "enq_rank (s_enq (rs_queue d))" arbitrary: d es rule: less_induct)
  case less
  let ?q = "rs_queue d"
  show ?case
  proof (cases "enq_busy (s_enq ?q)")
    case False
    then show ?thesis using less.prems enq_elem_idle rs_runs.start [of env d] by (intro exI [of _ 0] exI [of _ d] exI [of _ es]) simp
  next
    case True
    then have en: "rs_enabled (RProduce True) d" by simp
    obtain d1 where d1: "rs_step env (RProduce True) d = Some d1" using rs_step_ok [OF less.prems(1,2) _ en] less.prems(3) by auto
    obtain es1 where 1: "rs_inv env (CRecordThread_open env info files None) es1 d1" using rs_step_inv [OF less.prems(1) en d1] by blast
    obtain q where q: "rw_step MAX_BLOCK_SIZE (Produce True) ?q = Some q" "d1 = d\<lparr>rs_queue := q\<rparr>"
      using d1 by (auto simp: put_step_def simp del: rw_step.simps split: if_splits bind_splits)
    then obtain pc w where pc: "enq_step MAX_BLOCK_SIZE True (s_enq ?q) (sq ?q) = Some (pc, w)" "s_enq q = pc" "h_enqueued q = h_enqueued ?q @ enqueued_by (s_enq ?q)"
      by (auto simp: bind_eq_Some_conv simp del: enq_step.simps)
    have e: "h_enqueued q @ enq_elem pc = h_enqueued ?q @ enq_elem (s_enq ?q)" "enq_can pc"
      using enq_step_result [OF pc(1)] pc(3) less.prems(4) by (cases pc; simp)+
    obtain n d' es' where "rs_runs env d1 (replicate n (RProduce True)) d'" "rs_inv env (CRecordThread_open env info files None) es' d'"
        "h_enqueued (rs_queue d') = h_enqueued q @ enq_elem pc" "rs_running_flag d'"
      using less.hyps [of d1 es1] enq_step_rank [OF pc(1)] 1 less.prems(2,3) e pc(2) q(2) by auto
    then show ?thesis
      using rs_runs_Cons [OF en d1] e(1) by (intro exI [of _ "Suc n"] exI [of _ d'] exI [of _ es']) simp
  qed
qed

text \<open>
  C14. The record thread with its lock-free queue does what the abstract one does, whose queue is a list: whatever the
  interleaving of the steps of the two threads, its state is one of the abstract thread after the same records. Without
  a call of \<^verbatim>\<open>stop\<close> no step fails; if memory does not run out, the records that took effect are those that were put, but for
  the one that is being put; and from every state the two threads' own steps bring it and all others into the files.
\<close>

theorem record_thread_refined:
  assumes "rec_sys_open env info files mem None = Some d0" "rs_runs env d0 es d" "rs_running_flag d" "\<forall>r\<in>set (rputs es). roomy env (length r)"
  shows "(\<exists>es'. rec_runs env (CRecordThread_open env info files None) es' (rs_abs d) \<and> put_records es' = h_enqueued (rs_queue d)) \<and>
    (RProduce False \<notin> set es \<longrightarrow> rputs es = h_enqueued (rs_queue d) @ enq_elem (s_enq (rs_queue d))) \<and>
    (\<forall>e. rs_enabled e d \<longrightarrow> rs_step env e d \<noteq> None) \<and>
    (\<exists>m n d' es'. rs_runs env d0 (es @ replicate m (RProduce True) @ replicate n RSvc) d' \<and>
      rec_runs env (CRecordThread_open env info files None) es' (rs_abs d') \<and> rt_queue (rs_abs d') = Some [] \<and>
      put_records es' = h_enqueued (rs_queue d) @ enq_elem (s_enq (rs_queue d)))"
proof (intro conjI)
  obtain es' where i: "rs_inv env (CRecordThread_open env info files None) es' d" using rs_runs_inv [OF assms(2,1)] by blast
  have p: "puts_ok es (rs_queue d)" using rs_runs_puts [OF assms(2)] open_inv(2,3) [OF assms(1)] by simp
  then have room: "\<forall>r\<in>set (h_enqueued (rs_queue d) @ enq_elem (s_enq (rs_queue d))). roomy env (length r)" using assms(4) by (auto simp: puts_ok_def)
  show "\<exists>es'. rec_runs env (CRecordThread_open env info files None) es' (rs_abs d) \<and> put_records es' = h_enqueued (rs_queue d)"
    using i by (auto simp: rs_inv_def)
  show "RProduce False \<notin> set es \<longrightarrow> rputs es = h_enqueued (rs_queue d) @ enq_elem (s_enq (rs_queue d))" using p by (simp add: puts_ok_def)
  show "\<forall>e. rs_enabled e d \<longrightarrow> rs_step env e d \<noteq> None" using rs_step_ok [OF i assms(3)] room by auto
  obtain m d1 es1 where 1: "rs_runs env d (replicate m (RProduce True)) d1" "rs_inv env (CRecordThread_open env info files None) es1 d1"
      "h_enqueued (rs_queue d1) = h_enqueued (rs_queue d) @ enq_elem (s_enq (rs_queue d))" "rs_running_flag d1"
    using put_completes [OF i assms(3) room] p by (auto simp: puts_ok_def)
  obtain n d2 es2 where 2: "rs_runs env d1 (replicate n RSvc) d2" "rs_inv env (CRecordThread_open env info files None) es2 d2" "rs_pc d2 = Svc_Test" "unread d2 = []"
      "h_enqueued (rs_queue d2) = h_enqueued (rs_queue d1)" "rs_running_flag d2"
    using svc_drains [OF 1(2,4)] 1(3) room by auto
  have "rs_runs env d0 (es @ replicate m (RProduce True) @ replicate n RSvc) d2"
    using rs_runs_trans [OF rs_runs_trans [OF 2(1) 1(1)] assms(2)] by simp
  moreover have "rt_queue (rs_abs d2) = Some []" using 2(3,4) running(2) [OF 2(2,6)] by (simp add: rs_abs_def unread_def)
  ultimately show "\<exists>m n d' es'. rs_runs env d0 (es @ replicate m (RProduce True) @ replicate n RSvc) d' \<and>
      rec_runs env (CRecordThread_open env info files None) es' (rs_abs d') \<and> rt_queue (rs_abs d') = Some [] \<and>
      put_records es' = h_enqueued (rs_queue d) @ enq_elem (s_enq (rs_queue d))"
    using 2(2,5) 1(3) unfolding rs_inv_def by metis
qed

text \<open>One record is being put when the thread starts.\<close>

theorem record_thread_refined_witness:
  "\<exists>d0 d m n d' es'. rec_sys_open demo_log_env demo_info Map.empty (\<lambda>_. True) None = Some d0 \<and> rs_runs demo_log_env d0 [RPut [7]] d \<and>
     rs_runs demo_log_env d0 ([RPut [7]] @ replicate m (RProduce True) @ replicate n RSvc) d' \<and>
     rec_runs demo_log_env (CRecordThread_open demo_log_env demo_info Map.empty None) es' (rs_abs d') \<and> rt_queue (rs_abs d') = Some [] \<and> put_records es' = [[7]]"
proof -
  have "rwq_sizes_ok MAX_BLOCK_SIZE record_queue_size" unfolding rwq_sizes_ok_def MAX_BLOCK_SIZE_def record_queue_size_def by code_simp
  then obtain q :: "bytes rwq" where "ReaderWriterQueue MAX_BLOCK_SIZE (\<lambda>_. True) record_queue_size = Some q"
    using constructor_ok [of MAX_BLOCK_SIZE record_queue_size "\<lambda>_. True"] by blast
  then obtain d0 where d0: "rec_sys_open demo_log_env demo_info Map.empty (\<lambda>_. True) None = Some d0" by (simp add: rec_sys_open_def)
  note o = open_inv [OF d0]
  have en: "rs_enabled (RPut [7]) d0" using o(2) by simp
  obtain d where d: "rs_step demo_log_env (RPut [7]) d0 = Some d" using rs_step_ok [OF o(1,4) _ en] o(3) by auto
  have run: "rs_runs demo_log_env d0 [RPut [7]] d" using rs_runs_Cons [OF en d rs_runs.start] .
  have f: "rs_running_flag d" "h_enqueued (rs_queue d) = []" using d o(3,4) by (auto simp: put_step_def bind_eq_Some_conv split: if_splits)
  have room: "\<forall>r\<in>set (rputs [RPut [7]]). roomy demo_log_env (length r)" by (simp add: roomy_def demo_log_env_def)
  have e: "enq_elem (s_enq (rs_queue d)) = [[7]]" using record_thread_refined [OF d0 run f(1) room] f(2) by simp
  from record_thread_refined [OF d0 run f(1) room] show ?thesis unfolding f(2) e using d0 run by auto
qed

end
