(* ===== verification/Reactor_Client.thy ===== *)
theory Reactor_Client
  imports Event_Handler Timer_Mgr
begin

unbundle bit_operations_syntax

text \<open>
  The client class of the reactor library: \<^verbatim>\<open>include/reactor/tcp_client.hpp\<close> and \<^verbatim>\<open>src/reactor/tcp_client.cpp\<close>. It
  connects without blocking, is told by the reactor that its socket can be written, and tries again from a timer.

  The world of the handlers is extended by the members of the client objects (\<open>rc_clients\<close>), the timer wheel of the
  reactor, the handler each timer event calls (\<open>rc_user\<close>), the address \<open>rc_next\<close> of the next event that \<^verbatim>\<open>new\<close>
  creates, and the answers of \<^verbatim>\<open>socket\<close> and \<^verbatim>\<open>connect\<close>, which depend on the number \<open>rc_tries\<close> of attempts before.
  The answer of \<^verbatim>\<open>connect\<close> is 0 or an error number.

  The wheel records the events that fire in its trace; \<open>handle_timeout\<close> of their handlers is called behind the run of
  the wheel. This is the same because the function leaves the timers alone (lemma \<open>timeout_keeps_timers\<close>).
\<close>

subsection \<open>The client objects\<close>

datatype CONNECT_STATUS = CLIENT_UNCONNECTED | CLIENT_CONNECTING | CLIENT_CONNECTED

record ctcp_client =
  m_cur_pos :: "u32 option"
  m_server_addr :: "csock_address option"
  m_client_status :: CONNECT_STATUS
  m_timer_id :: int
  m_timeout_value :: int
  m_timer_id_data :: int
  m_timeout_value_data :: int

record reactor_world = ev_world +
  rc_clients :: "hid \<rightharpoonup> ctcp_client"
  rc_timers :: ctimer_wheel_mgr
  rc_user :: "nid \<rightharpoonup> hid"
  rc_next :: nid
  rc_socket :: "nat \<Rightarrow> int"
  rc_connect :: "nat \<Rightarrow> csock_address option \<Rightarrow> int"
  rc_tries :: nat

definition EINPROGRESS :: int where "EINPROGRESS = 115"

definition ETIMEDOUT :: int where "ETIMEDOUT = 110"

definition upd_client :: "hid \<Rightarrow> (ctcp_client \<Rightarrow> ctcp_client) \<Rightarrow> reactor_world \<Rightarrow> reactor_world" where
  "upd_client h f w = w\<lparr>rc_clients := (rc_clients w)(h := map_option f (rc_clients w h))\<rparr>"

text \<open>The constructors: the first has no address, the others have one. The position in the buffer is not set.\<close>

definition new_client :: "csock_address option \<Rightarrow> ctcp_client" where
  "new_client a =
     \<lparr>m_cur_pos = None, m_server_addr = a, m_client_status = CLIENT_UNCONNECTED, m_timer_id = 0, m_timeout_value = 8,
      m_timer_id_data = 0, m_timeout_value_data = 60\<rparr>"

definition CTCPClient :: "hid \<Rightarrow> csock_address option \<Rightarrow> u32 \<Rightarrow> bool \<Rightarrow> u32 \<Rightarrow> reactor_world \<Rightarrow> reactor_world" where
  "CTCPClient h a mask0 reactor now w =
     w\<lparr>m_handlers := (m_handlers w)(h \<mapsto> CEventHandler mask0 reactor now), rc_clients := (rc_clients w)(h \<mapsto> new_client a)\<rparr>"

definition CTCPClient_open :: "hid \<Rightarrow> reactor_world \<Rightarrow> int \<times> reactor_world" where
  "CTCPClient_open h w = (0, w)"

subsection \<open>Timers of the reactor\<close>

definition regist_timer :: "hid \<Rightarrow> int \<Rightarrow> int \<Rightarrow> reactor_world \<Rightarrow> (int \<times> reactor_world) option" where
  "regist_timer h period repeat w =
     do {
       (i, t) \<leftarrow> add_timer (rc_next w) period repeat (rc_timers w);
       Some (i, w\<lparr>rc_timers := t, rc_user := (rc_user w)(rc_next w \<mapsto> h), rc_next := Suc (rc_next w)\<rparr>)
     }"

definition unregist_timer :: "int \<Rightarrow> reactor_world \<Rightarrow> (int \<times> reactor_world) option" where
  "unregist_timer i w = do { (r, t) \<leftarrow> del_timer i (rc_timers w); Some (r, w\<lparr>rc_timers := t\<rparr>) }"

definition delete_client :: "hid \<Rightarrow> reactor_world \<Rightarrow> reactor_world option" where
  "delete_client h w =
     do {
       c \<leftarrow> rc_clients w h;
       hd \<leftarrow> m_handlers w h;
       (_, w) \<leftarrow> (if m_timer_id c \<noteq> 0 then if m_reactor_ptr hd then unregist_timer (m_timer_id c) w else None else Some (0, w));
       Some ((delete_handler h w)\<lparr>rc_clients := (rc_clients w)(h := None)\<rparr>)
     }"

subsection \<open>Connecting\<close>

text \<open>"Hello", whose zero byte is not sent.\<close>

definition hello_msg :: bytes where "hello_msg = [72, 101, 108, 108, 111, 0]"

definition hello :: "hid \<Rightarrow> reactor_world \<Rightarrow> reactor_world option" where
  "hello h w = do { (_, w) \<leftarrow> write_n h hello_msg 5 w; Some w }"

text \<open>The answers of the kernel. A failing call sets \<^verbatim>\<open>errno\<close>; the error of \<^verbatim>\<open>socket\<close> is only logged.\<close>

definition os_socket :: "reactor_world \<Rightarrow> int" where
  "os_socket w = rc_socket w (rc_tries w)"

definition os_connect :: "csock_address option \<Rightarrow> reactor_world \<Rightarrow> int \<times> reactor_world" where
  "os_connect a w = (let e = rc_connect w (rc_tries w) a in if e = 0 then (0, w) else (-1, w\<lparr>w_errno := e\<rparr>))"

definition next_try :: "int \<times> reactor_world \<Rightarrow> int \<times> reactor_world" where
  "next_try r = (fst r, (snd r)\<lparr>rc_tries := Suc (rc_tries (snd r))\<rparr>)"

text \<open>The branch of a connection that is not made at once, and the whole function.\<close>

definition connect_later :: "hid \<Rightarrow> reactor_world \<Rightarrow> reactor_world option" where
  "connect_later h w =
     do {
       hd \<leftarrow> m_handlers w h;
       let my_errno = w_errno w;
       (_, w) \<leftarrow> (if my_errno = EINPROGRESS \<or> my_errno = EWOULDBLOCK
                  then if m_reactor_ptr hd then add_event h (EVENT_READ OR EVENT_WRITE OR EVENT_ERROR) w else None
                  else Some (0, w));
       c \<leftarrow> rc_clients w h;
       if m_timer_id c = 0 then
         if m_reactor_ptr hd then do {
           (i, w) \<leftarrow> regist_timer h (m_timeout_value c) 0 w;
           Some (upd_client h (m_timer_id_update (\<lambda>_. i)) w)
         } else None
       else Some w
     }"

definition connect :: "hid \<Rightarrow> reactor_world \<Rightarrow> (int \<times> reactor_world) option" where
  "connect h w =
     do {
       _ \<leftarrow> m_handlers w h;
       c \<leftarrow> rc_clients w h;
       let fd = os_socket w;
       let w = upd_handler h (m_sock_handle_update (\<lambda>_. fd)) w;
       if fd < 0 then Some (next_try (-1, w))
       else do {
         let w = upd_client h (m_client_status_update (\<lambda>_. CLIENT_CONNECTING)) w;
         let (res, w) = next_try (os_connect (m_server_addr c) w);
         if res < 0 then do { w \<leftarrow> connect_later h w; Some (0, w) }
         else do {
           w \<leftarrow> hello h (upd_client h (m_client_status_update (\<lambda>_. CLIENT_CONNECTED)) w);
           Some (0, upd_client h (m_cur_pos_update (\<lambda>_. Some 0)) w)
         }
       }
     }"

definition connect_to :: "cstring \<Rightarrow> u16 \<Rightarrow> hid \<Rightarrow> reactor_world \<Rightarrow> (int \<times> reactor_world) option" where
  "connect_to ip port h w = connect h (upd_client h (m_server_addr_update (\<lambda>_. Some (ip, port))) w)"

subsection \<open>Events and timeouts\<close>

definition CTCPClient_handle_input :: "read_res \<Rightarrow> hid \<Rightarrow> reactor_world \<Rightarrow> (int \<times> reactor_world) option" where
  "CTCPClient_handle_input rd h w =
     do {
       hd \<leftarrow> m_handlers w h;
       if m_sock_handle hd < 0 then Some (-1, w\<lparr>w_errno := EBADF\<rparr>)
       else case rd of
         Read_error e \<Rightarrow> Some (-1, w\<lparr>w_errno := e\<rparr>)
       | Read bs \<Rightarrow> Some (if bs = [] then -1 else 0, w)
     }"

definition handle_timeout :: "hid \<Rightarrow> reactor_world \<Rightarrow> (int \<times> reactor_world) option" where
  "handle_timeout h w =
     do {
       c \<leftarrow> rc_clients w h;
       if m_client_status c \<noteq> CLIENT_CONNECTED then do { (_, w) \<leftarrow> connect h w; Some (0, w) } else Some (0, w)
     }"

definition CTCPClient_handle_close :: "hid \<Rightarrow> reactor_world \<Rightarrow> (int \<times> reactor_world) option" where
  "CTCPClient_handle_close h w =
     do {
       _ \<leftarrow> rc_clients w h;
       (_, w) \<leftarrow> CEventHandler_close h w;
       Some (0, upd_client h (m_client_status_update (\<lambda>_. CLIENT_UNCONNECTED)) w)
     }"

definition CTCPClient_handle_output :: "hid \<Rightarrow> reactor_world \<Rightarrow> (int \<times> reactor_world) option" where
  "CTCPClient_handle_output h w =
     do {
       c \<leftarrow> rc_clients w h;
       hd \<leftarrow> m_handlers w h;
       case m_client_status c of
         CLIENT_CONNECTING \<Rightarrow>
           if m_reactor_ptr hd then do {
             (_, w) \<leftarrow> mod_event h EVENT_READ (upd_client h (m_client_status_update (\<lambda>_. CLIENT_CONNECTED)) w);
             w \<leftarrow> hello h w;
             Some (0, w)
           } else None
       | CLIENT_CONNECTED \<Rightarrow> do { (_, w) \<leftarrow> handle_output CTCPClient_handle_close h w; Some (0, w) }
       | CLIENT_UNCONNECTED \<Rightarrow> Some (0, w)
     }"

definition client_dispatch :: "poll_event \<Rightarrow> reactor_world \<Rightarrow> reactor_world option" where
  "client_dispatch =
     dispatch (\<lambda>w h. rc_clients w h \<noteq> None \<and> m_handlers w h \<noteq> None) CTCPClient_handle_input CTCPClient_handle_output CTCPClient_handle_close"

text \<open>A round of the reactor: events, then the timer wheel, whose events call their handlers.\<close>

fun call_timeouts :: "nid list \<Rightarrow> reactor_world \<Rightarrow> reactor_world option" where
  "call_timeouts [] w = Some w"
| "call_timeouts (n # ns) w = do { h \<leftarrow> rc_user w n; (_, w) \<leftarrow> handle_timeout h w; call_timeouts ns w }"

definition run_timers :: "u32 \<Rightarrow> reactor_world \<Rightarrow> reactor_world option" where
  "run_timers now w =
     do {
       (_, t) \<leftarrow> update_timer now (rc_timers w);
       call_timeouts (drop (length (fired (m_timer_mgr (rc_timers w)))) (fired (m_timer_mgr t))) (w\<lparr>rc_timers := t\<rparr>)
     }"

definition client_loop_once :: "u32 \<Rightarrow> int + poll_event list \<Rightarrow> reactor_world \<Rightarrow> (bool \<times> reactor_world) option" where
  "client_loop_once now result w =
     do {
       (ok, w) \<leftarrow> poller_run m_running_flag (\<lambda>e w. w\<lparr>w_errno := e\<rparr>) client_dispatch result w;
       if ok then do { w \<leftarrow> run_timers now w; Some (True, w) } else Some (False, w)
     }"

subsection \<open>What leaves the timers alone\<close>

lemma upd_client_simps [simp]:
  "rc_clients (upd_client h f w) h = map_option f (rc_clients w h)" "k \<noteq> h \<Longrightarrow> rc_clients (upd_client h f w) k = rc_clients w k"
  "rc_timers (upd_client h f w) = rc_timers w" "rc_user (upd_client h f w) = rc_user w" "rc_next (upd_client h f w) = rc_next w"
  "rc_socket (upd_client h f w) = rc_socket w" "rc_connect (upd_client h f w) = rc_connect w" "rc_tries (upd_client h f w) = rc_tries w"
  "m_handlers (upd_client h f w) = m_handlers w" "m_epoll (upd_client h f w) = m_epoll w" "w_errno (upd_client h f w) = w_errno w"
  "m_map_event_handlers (upd_client h f w) = m_map_event_handlers w" "w_sent (upd_client h f w) = w_sent w"
  "w_writes (upd_client h f w) = w_writes w" "w_calls (upd_client h f w) = w_calls w" "m_mem (upd_client h f w) = m_mem w"
  by (simp_all add: upd_client_def)

text \<open>The timers as the clients and the wheel have them.\<close>

definition timer_view :: "reactor_world \<Rightarrow> ctimer_wheel_mgr \<times> (nid \<rightharpoonup> hid) \<times> nid \<times> (hid \<Rightarrow> int option)" where
  "timer_view w = (rc_timers w, rc_user w, rc_next w, \<lambda>h. map_option m_timer_id (rc_clients w h))"

lemma more_timer_view: "ev_world.more w' = ev_world.more w \<Longrightarrow> timer_view w' = timer_view w"
  by (cases w; cases w') (simp add: timer_view_def)

lemma upd_handler_timer_view [simp]: "timer_view (upd_handler h f w) = timer_view w"
  by (rule more_timer_view) simp

lemma upd_client_timer_view: "(\<And>c. m_timer_id (f c) = m_timer_id c) \<Longrightarrow> timer_view (upd_client h f w) = timer_view w"
  by (auto simp: timer_view_def upd_client_def option.map_comp comp_def fun_eq_iff)

lemma epoll_ctl_more: "epoll_ctl op fd ev w = (r, w') \<Longrightarrow> ev_world.more w' = ev_world.more w"
  by (auto simp: epoll_ctl_def split: if_splits)

lemma registration_more:
  "add_event h ev w = Some (r, w') \<Longrightarrow> ev_world.more w' = ev_world.more w"
  "del_event h w = Some (r, w') \<Longrightarrow> ev_world.more w' = ev_world.more w"
  "mod_event h ev w = Some (r, w') \<Longrightarrow> ev_world.more w' = ev_world.more w"
  by (auto simp: add_event_def del_event_def mod_event_def Let_def split: bind_splits prod.splits if_splits option.splits dest!: epoll_ctl_more)

lemma close_more: "CEventHandler_close h w = Some (r, w') \<Longrightarrow> ev_world.more w' = ev_world.more w"
  by (auto simp: CEventHandler_close_def CSockBase_close_def os_close_def split: bind_splits if_splits dest!: registration_more)

lemma hello_more: "hello h w = Some w' \<Longrightarrow> ev_world.more w' = ev_world.more w"
  by (auto simp: hello_def write_n_def split: bind_splits dest!: write_n_loop_frame)

lemma send_more: "send h a w = Some (n, e, w') \<Longrightarrow> ev_world.more w' = ev_world.more w"
  by (auto simp: send_def Let_def upd_mbuf_def split: bind_splits prod.splits if_splits dest!: os_write_frame)

lemma schedule_more:
  "schedule_write h w = Some (r, w') \<Longrightarrow> ev_world.more w' = ev_world.more w"
  "cancel_schedule_write h w = Some (r, w') \<Longrightarrow> ev_world.more w' = ev_world.more w"
  by (auto simp: schedule_write_def cancel_schedule_write_def Let_def split: bind_splits if_splits dest!: registration_more)

lemma handle_close_view: "CTCPClient_handle_close h w = Some (r, w') \<Longrightarrow> timer_view w' = timer_view w"
  by (auto simp: CTCPClient_handle_close_def upd_client_timer_view split: bind_splits dest!: close_more more_timer_view)

lemma nonblk_send_view: "nonblk_send CTCPClient_handle_close h a w = Some (r, w') \<Longrightarrow> timer_view w' = timer_view w"
  by (auto simp: nonblk_send_def split: bind_splits if_splits dest!: handle_close_view send_more schedule_more more_timer_view)

lemma handle_output_view: "handle_output CTCPClient_handle_close h w = Some (r, w') \<Longrightarrow> timer_view w' = timer_view w"
  by (auto simp: handle_output_def split: bind_splits if_splits list.splits dest!: nonblk_send_view schedule_more more_timer_view)

lemma client_output_view: "CTCPClient_handle_output h w = Some (r, w') \<Longrightarrow> timer_view w' = timer_view w"
  by (auto simp: CTCPClient_handle_output_def upd_client_timer_view split: bind_splits if_splits CONNECT_STATUS.splits
      dest!: handle_output_view hello_more registration_more more_timer_view)

lemma client_input_view: "CTCPClient_handle_input rd h w = Some (r, w') \<Longrightarrow> timer_view w' = timer_view w"
  by (auto simp: CTCPClient_handle_input_def timer_view_def split: bind_splits if_splits read_res.splits)

lemma client_dispatch_view: "client_dispatch e w = Some w' \<Longrightarrow> timer_view w' = timer_view w"
  by (auto simp: client_dispatch_def dispatch_def split: prod.splits option.splits bind_splits if_splits
      dest!: client_output_view client_input_view handle_close_view)

text \<open>Only a client that has no timer makes one when it connects.\<close>

type_synonym timers = "ctimer_wheel_mgr \<times> (nid \<rightharpoonup> hid) \<times> nid \<times> (hid \<Rightarrow> int option)"

fun makes_timer :: "hid \<Rightarrow> timers \<Rightarrow> timers \<Rightarrow> bool" where
  "makes_timer h (t, u, n, ids) v' \<longleftrightarrow>
     ids h = Some 0 \<and> (\<exists>p i t'. add_timer n p 0 t = Some (i, t') \<and> v' = (t', u(n \<mapsto> h), Suc n, ids(h \<mapsto> i)))"

lemma regist_timer_view:
  assumes "rc_clients w h = Some c" "m_timer_id c = 0" "regist_timer h p 0 w = Some (i, w1)"
  shows "makes_timer h (timer_view w) (timer_view (upd_client h (m_timer_id_update (\<lambda>_. i)) w1))"
proof -
  obtain t where t: "add_timer (rc_next w) p 0 (rc_timers w) = Some (i, t)"
      "w1 = w\<lparr>rc_timers := t, rc_user := (rc_user w)(rc_next w \<mapsto> h), rc_next := Suc (rc_next w)\<rparr>"
    using assms(3) by (auto simp: regist_timer_def split: bind_splits)
  then have "timer_view (upd_client h (m_timer_id_update (\<lambda>_. i)) w1) =
      (t, (rc_user w)(rc_next w \<mapsto> h), Suc (rc_next w), (\<lambda>k. map_option m_timer_id (rc_clients w k))(h \<mapsto> i))"
    using assms(1) by (auto simp: timer_view_def upd_client_def fun_eq_iff)
  then show ?thesis using assms t(1) by (auto simp: timer_view_def)
qed

lemma connect_later_view:
  assumes "connect_later h w = Some w'"
  shows "timer_view w' = timer_view w \<or> makes_timer h (timer_view w) (timer_view w')"
proof -
  obtain w1 c where 1: "timer_view w1 = timer_view w" "rc_clients w1 h = Some c"
      "w' = w1 \<or> m_timer_id c = 0 \<and> (\<exists>i w2. regist_timer h (m_timeout_value c) 0 w1 = Some (i, w2) \<and> w' = upd_client h (m_timer_id_update (\<lambda>_. i)) w2)"
    using assms by (auto simp: connect_later_def Let_def split: bind_splits if_splits dest!: registration_more more_timer_view)
  then show ?thesis using regist_timer_view [OF 1(2)] by (metis (no_types, lifting))
qed

lemma connect_view:
  assumes "connect h w = Some (r, w')"
  shows "timer_view w' = timer_view w \<or> makes_timer h (timer_view w) (timer_view w')"
proof -
  let ?fd = "os_socket w"
  let ?w1 = "upd_handler h (m_sock_handle_update (\<lambda>_. ?fd)) w"
  let ?w2 = "upd_client h (m_client_status_update (\<lambda>_. CLIENT_CONNECTING)) ?w1"
  obtain c where c: "rc_clients w h = Some c" using assms by (auto simp: connect_def split: bind_splits)
  obtain res w3 where 3: "next_try (os_connect (m_server_addr c) ?w2) = (res, w3)" by fastforce
  have tv: "timer_view (w\<lparr>rc_tries := k\<rparr>) = timer_view w" "timer_view (w\<lparr>w_errno := e\<rparr>) = timer_view w" for k e w
    by (simp_all add: timer_view_def)
  have v3: "timer_view w3 = timer_view w"
    using 3 by (auto simp: next_try_def os_connect_def Let_def tv upd_client_timer_view split: if_splits)
  consider "w' = snd (next_try (-1, ?w1))" | "connect_later h w3 = Some w'"
    | w4 where "hello h (upd_client h (m_client_status_update (\<lambda>_. CLIENT_CONNECTED)) w3) = Some w4" "w' = upd_client h (m_cur_pos_update (\<lambda>_. Some 0)) w4"
    using assms c 3 by (auto simp: connect_def Let_def split: bind_splits if_splits)
  then show ?thesis
  proof cases
    case 1
    then show ?thesis by (simp add: next_try_def tv)
  next
    case 2
    then show ?thesis using connect_later_view v3 by fastforce
  next
    case 3
    then show ?thesis using more_timer_view [OF hello_more [OF 3(1)]] v3 by (simp add: upd_client_timer_view)
  qed
qed

text \<open>The function a timer calls leaves the timers alone: its client has a timer.\<close>

lemma timeout_keeps_timers:
  assumes "handle_timeout h w = Some (r, w')" "\<forall>c. rc_clients w h = Some c \<longrightarrow> m_timer_id c \<noteq> 0"
  shows "timer_view w' = timer_view w"
proof -
  have "\<not> makes_timer h (timer_view w) (timer_view w')" using assms(2) by (auto simp: timer_view_def)
  then show ?thesis using assms(1) by (auto simp: handle_timeout_def split: bind_splits if_splits dest!: connect_view)
qed

text \<open>
  The invariant: a client has at most one timer, which calls this client, and knows whether it has one; no timer
  calls an object that is not there.
\<close>

fun one_timer_each :: "timers \<Rightarrow> bool" where
  "one_timer_each (t, u, n, ids) \<longleftrightarrow> 0 \<le> m_last_timer_id t \<and> (\<forall>k\<ge>n. u k = None) \<and> (\<forall>k h. u k = Some h \<longrightarrow> ids h \<noteq> None \<and> ids h \<noteq> Some 0) \<and>
     (\<forall>k k' h. u k = Some h \<longrightarrow> u k' = Some h \<longrightarrow> k = k') \<and> (\<forall>h i. ids h = Some i \<longrightarrow> i \<noteq> 0 \<longrightarrow> (\<exists>k. u k = Some h))"

declare one_timer_each.simps [simp del]

lemmas one_timer = one_timer_each.simps

lemma makes_timer_one:
  assumes "makes_timer h v v'" "one_timer_each v"
  shows "one_timer_each v'"
proof -
  obtain t u n ids where v: "v = (t, u, n, ids)" by (cases v)
  obtain p i t' where 1: "ids h = Some 0" "add_timer n p 0 t = Some (i, t')" "v' = (t', u(n \<mapsto> h), Suc n, ids(h \<mapsto> i))"
    using assms(1) by (auto simp: v)
  have i: "m_last_timer_id t' = i" "i = m_last_timer_id t + 1"
    using 1(2) by (auto simp: add_timer_def split: bind_splits if_splits)
  then have "\<forall>k. u k \<noteq> Some h" "0 < i" using assms(2) 1(1) by (auto simp: v one_timer)
  moreover have "\<exists>k. k \<noteq> n \<and> u k = Some g" if "ids g = Some j" "j \<noteq> 0" for g j
    using assms(2) that unfolding v one_timer_each.simps by (metis option.distinct(1) order_refl)
  ultimately show ?thesis using assms(2) i(1) by (auto simp: v 1(3) one_timer) blast
qed

lemma one_timer_wheel: "m_last_timer_id t' = m_last_timer_id t \<Longrightarrow> one_timer_each (t', v) = one_timer_each (t, v)"
  by (cases v) (simp add: one_timer)

lemma one_timer_new: "one_timer_each (t, u, n, ids) \<Longrightarrow> ids h = None \<Longrightarrow> one_timer_each (t, u, n, ids(h \<mapsto> 0))"
  by (simp add: one_timer; metis option.distinct(1))

lemma timer_view_wheel: "timer_view (w\<lparr>rc_timers := t\<rparr>) = (t, snd (timer_view w))" "timer_view w = (rc_timers w, snd (timer_view w))"
  by (simp_all add: timer_view_def)

lemma timeouts_keep_timers:
  "call_timeouts ns w = Some w' \<Longrightarrow> one_timer_each (timer_view w) \<Longrightarrow> timer_view w' = timer_view w"
proof (induction ns arbitrary: w)
  case (Cons n ns)
  obtain h r w1 where 1: "rc_user w n = Some h" "handle_timeout h w = Some (r, w1)" "call_timeouts ns w1 = Some w'"
    using Cons.prems(1) by (auto split: bind_splits)
  have "\<forall>c. rc_clients w h = Some c \<longrightarrow> m_timer_id c \<noteq> 0" using Cons.prems(2) 1(1) by (force simp: timer_view_def one_timer)
  then have "timer_view w1 = timer_view w" using 1(2) by (rule timeout_keeps_timers [rotated])
  then show ?case using Cons.IH [OF 1(3)] Cons.prems(2) by simp
qed simp

subsection \<open>A session\<close>

definition client_at :: "hid \<Rightarrow> CONNECT_STATUS \<Rightarrow> int \<Rightarrow> reactor_world \<Rightarrow> bool" where
  "client_at h st fd w \<longleftrightarrow> (\<exists>c hd. rc_clients w h = Some c \<and> m_handlers w h = Some hd \<and> m_reactor_ptr hd \<and> m_client_status c = st \<and> m_sock_handle hd = fd)"

definition free_socket :: "int \<Rightarrow> reactor_world \<Rightarrow> bool" where
  "free_socket fd w \<longleftrightarrow> 0 \<le> fd \<and> m_epoll w fd = None \<and> map_of (m_map_event_handlers w) fd = None"

text \<open>The answers of the kernel to the next calls, which the handlers do not change.\<close>

definition answers :: "reactor_world \<Rightarrow> (nat \<Rightarrow> int) \<times> (nat \<Rightarrow> csock_address option \<Rightarrow> int) \<times> (nat \<Rightarrow> write_res)" where
  "answers w = (rc_socket w, rc_connect w, w_writes w)"

lemma connect_starts:
  assumes "client_at h st fd0 w" "os_socket w = fd" "free_socket fd w" "\<forall>a. rc_connect w (rc_tries w) a = EINPROGRESS"
    and "\<forall>c. rc_clients w h = Some c \<longrightarrow> m_timer_id c \<noteq> 0 \<or> (\<exists>i t. 0 < i \<and> add_timer (rc_next w) (m_timeout_value c) 0 (rc_timers w) = Some (i, t))"
  shows "\<exists>w'. connect h w = Some (0, w') \<and> client_at h CLIENT_CONNECTING fd w' \<and>
    m_epoll w' = (m_epoll w)(fd \<mapsto> (EPOLLIN OR EPOLLOUT OR EPOLLERR, h)) \<and> m_map_event_handlers w' = m_map_event_handlers w @ [(fd, h)] \<and>
    w_sent w' = w_sent w \<and> rc_tries w' = Suc (rc_tries w) \<and> answers w' = answers w \<and>
    (\<forall>c. rc_clients w' h = Some c \<longrightarrow> m_timer_id c \<noteq> 0)"
proof -
  obtain c hd where c: "rc_clients w h = Some c" "m_handlers w h = Some hd" "m_reactor_ptr hd" using assms(1) by (auto simp: client_at_def)
  have fd: "\<not> fd < 0" using assms(3) by (simp add: free_socket_def)
  have mask: "convert_event_mask (EVENT_READ OR EVENT_WRITE OR EVENT_ERROR) = EPOLLIN OR EPOLLOUT OR EPOLLERR"
    by (simp add: convert_event_mask_def event_defs)
  show ?thesis
  proof (cases "m_timer_id c = 0")
    case True
    then obtain i t where "0 < i" "add_timer (rc_next w) (m_timeout_value c) 0 (rc_timers w) = Some (i, t)" using assms(5) c(1) by auto
    then show ?thesis
      using assms(2-4) c fd True mask
      by (cases w) (auto simp: connect_def connect_later_def next_try_def os_connect_def os_socket_def add_event_def epoll_ctl_def regist_timer_def
          Let_def EINPROGRESS_def upd_handler_def upd_client_def client_at_def free_socket_def answers_def)
  next
    case False
    then show ?thesis
      using assms(2-4) c fd mask
      by (cases w) (auto simp: connect_def connect_later_def next_try_def os_connect_def os_socket_def add_event_def epoll_ctl_def
          Let_def EINPROGRESS_def upd_handler_def upd_client_def client_at_def free_socket_def answers_def)
  qed
qed

text \<open>A timer can be made if the wheel is in order and the object is new.\<close>

lemma add_timer_ready:
  assumes "mgr_inv (m_timer_mgr t)" "nodes (m_timer_mgr t) n = None" "0 \<le> m_last_timer_id t" "m_last_timer_id t < 0x7FFFFFFF"
    and "unat (of_int (p * 1000) :: u32) + unat (interval (m_timer_mgr t)) < 4294967296"
  shows "\<exists>i t'. 0 < i \<and> add_timer n p r t = Some (i, t')"
proof -
  let ?m = "itimer_evt_init n True (m_timer_mgr t)"
  let ?e = "\<lparr>evt_period = 0, evt_slap = 0, evt_repeat = 0, evt_running = False, evt_callback = True, evt_mgr = False\<rparr>"
  have e: "evts ?m n = Some ?e" by (simp add: itimer_evt_init_def set_evt_def)
  obtain x where x: "nodes ?m n = Some x" "node_state x = ITIMER_NODE_STATE_OK" by (simp add: itimer_evt_init_def itimer_node_init_def set_evt_def)
  have "n \<notin> linked (m_timer_mgr t)" using assms(1,2) linked_node by (fastforce simp: mgr_inv_def)
  then have inv: "mgr_inv ?m"
    using assms(1) by (auto simp: mgr_inv_def itimer_evt_init_def itimer_node_init_def set_evt_def wheel_inv_def links_def placed_def linked_def)
  have iv: "interval ?m = interval (m_timer_mgr t)" by (simp add: itimer_evt_init_def itimer_node_init_def set_evt_def)
  have "evt_mgr ?e = False" by simp
  then obtain d where "itimer_evt_start n (of_int (p * 1000)) r ?m = Some d"
    using evt_start_schedules [OF inv e _ x, of "of_int (p * 1000)" r] assms(5) iv by auto
  then show ?thesis using assms(3,4) by (simp add: add_timer_def)
qed

lemma writable_says_hello:
  assumes "client_at h CLIENT_CONNECTING fd w" "0 \<le> fd" "m_epoll w fd = Some e" "\<forall>i. \<exists>k\<ge>5. w_writes w i = Wrote k"
  shows "\<exists>w'. client_dispatch (EPOLLOUT, Some h, rd) w = Some w' \<and> client_at h CLIENT_CONNECTED fd w' \<and>
    m_epoll w' = (m_epoll w)(fd \<mapsto> (EPOLLIN, h)) \<and> m_map_event_handlers w' = m_map_event_handlers w \<and>
    w_sent w' = (w_sent w)(h := w_sent w h @ take 5 hello_msg) \<and> rc_tries w' = rc_tries w \<and> answers w' = answers w"
proof -
  obtain c hd where c: "rc_clients w h = Some c" "m_handlers w h = Some hd" "m_reactor_ptr hd" "m_client_status c = CLIENT_CONNECTING" "m_sock_handle hd = fd"
    using assms(1) by (auto simp: client_at_def)
  obtain w1 where w1: "mod_event h EVENT_READ (upd_client h (m_client_status_update (\<lambda>_. CLIENT_CONNECTED)) w) = Some (0, w1)"
      "client_at h CLIENT_CONNECTED fd w1" "m_epoll w1 = (m_epoll w)(fd \<mapsto> (EPOLLIN, h))" "m_map_event_handlers w1 = m_map_event_handlers w"
      "w_sent w1 = w_sent w" "rc_tries w1 = rc_tries w" "answers w1 = answers w" "w_writes w1 = w_writes w"
    using assms(2,3) c by (cases w) (auto simp: mod_event_def epoll_ctl_def upd_client_def upd_handler_def client_at_def answers_def convert_event_mask_def event_defs)
  obtain k where k: "w_writes w1 (w_calls w1) = Wrote k" "5 \<le> k" using assms(4) w1(8) by metis
  obtain hd1 where hd1: "m_handlers w1 h = Some hd1" "m_sock_handle hd1 = fd" using w1(2) by (auto simp: client_at_def)
  have "write_n_loop fd h hello_msg 5 w1 = Some (True, w1\<lparr>w_calls := Suc (w_calls w1), w_sent := (w_sent w1)(h := w_sent w1 h @ take 5 hello_msg)\<rparr>)"
    using write_n_loop_whole(1) [of fd w1 k "take 5 hello_msg" h "drop 5 hello_msg"] assms(2) k by (simp add: hello_msg_def eval_nat_numeral)
  then have "hello h w1 = Some (w1\<lparr>w_calls := Suc (w_calls w1), w_sent := (w_sent w1)(h := w_sent w1 h @ take 5 hello_msg)\<rparr>)"
    using hd1 by (simp add: hello_def write_n_def mem_read_def hello_msg_def)
  then show ?thesis
    using c w1 by (simp add: client_dispatch_def dispatch_def event_defs CTCPClient_handle_output_def client_at_def answers_def)
qed

lemma dispatch_fault:
  assumes "client_at h st fd w" "ev AND (EPOLLHUP OR EPOLLERR) \<noteq> 0"
  shows "client_dispatch (ev, Some h, rd) w = do { (_, w) \<leftarrow> CTCPClient_handle_close h w; Some w }"
  using assms by (auto simp: client_at_def client_dispatch_def dispatch_def)

lemma fault_closes:
  assumes "client_at h st fd w" "0 \<le> fd" "m_epoll w fd = Some e" "ev AND (EPOLLHUP OR EPOLLERR) \<noteq> 0"
  shows "\<exists>w'. client_dispatch (ev, Some h, rd) w = Some w' \<and> client_at h CLIENT_UNCONNECTED INVALID_SOCKET w' \<and>
    m_epoll w' = (m_epoll w)(fd := None) \<and> m_map_event_handlers w' = filter (\<lambda>(s, _). s \<noteq> fd) (m_map_event_handlers w) \<and>
    w_sent w' = w_sent w \<and> rc_tries w' = rc_tries w \<and> answers w' = answers w"
  unfolding dispatch_fault [OF assms(1,4)] using assms(1-3)
  by (cases w) (auto simp: client_at_def CTCPClient_handle_close_def CEventHandler_close_def del_event_def epoll_ctl_def
      CSockBase_close_def os_close_def upd_client_def upd_handler_def answers_def INVALID_SOCKET_def Let_def)

lemma fault_without_socket:
  assumes "client_at h st INVALID_SOCKET w" "ev AND (EPOLLHUP OR EPOLLERR) \<noteq> 0"
  shows "\<exists>w'. client_dispatch (ev, Some h, rd) w = Some w' \<and> client_at h CLIENT_UNCONNECTED INVALID_SOCKET w' \<and> m_epoll w' = m_epoll w"
  unfolding dispatch_fault [OF assms] using assms(1)
  by (cases w) (auto simp: client_at_def CTCPClient_handle_close_def CEventHandler_close_def del_event_def epoll_ctl_def
      CSockBase_close_def upd_client_def upd_handler_def INVALID_SOCKET_def Let_def)

lemma map_of_filter_other: "map_of (filter (\<lambda>(s, _). s \<noteq> fd) m) fd = None" "map_of m k = None \<Longrightarrow> map_of (filter (\<lambda>(s, _). s \<noteq> fd) m) k = None"
  by (induction m) auto

text \<open>The timer of a client that is not connected starts an attempt on a new socket.\<close>

lemma timeout_starts:
  assumes "client_at h st fd0 w" "st \<noteq> CLIENT_CONNECTED" "one_timer_each (timer_view w)" "rc_user w n = Some h" "os_socket w = fd" "free_socket fd w"
    and "\<forall>a. rc_connect w (rc_tries w) a = EINPROGRESS"
  shows "\<exists>w'. call_timeouts [n] w = Some w' \<and> timer_view w' = timer_view w \<and> client_at h CLIENT_CONNECTING fd w' \<and>
    m_epoll w' = (m_epoll w)(fd \<mapsto> (EPOLLIN OR EPOLLOUT OR EPOLLERR, h)) \<and> m_map_event_handlers w' = m_map_event_handlers w @ [(fd, h)] \<and>
    w_sent w' = w_sent w \<and> rc_tries w' = Suc (rc_tries w) \<and> answers w' = answers w"
proof -
  obtain c where c: "rc_clients w h = Some c" "m_client_status c = st" using assms(1) by (auto simp: client_at_def)
  have "\<forall>c. rc_clients w h = Some c \<longrightarrow> m_timer_id c \<noteq> 0" using assms(3,4) by (force simp: timer_view_def one_timer)
  then obtain w' where w': "connect h w = Some (0, w')" "client_at h CLIENT_CONNECTING fd w'"
      "m_epoll w' = (m_epoll w)(fd \<mapsto> (EPOLLIN OR EPOLLOUT OR EPOLLERR, h))" "m_map_event_handlers w' = m_map_event_handlers w @ [(fd, h)]"
      "w_sent w' = w_sent w" "rc_tries w' = Suc (rc_tries w)" "answers w' = answers w"
    using connect_starts [OF assms(1,5,6,7)] by blast
  then have "call_timeouts [n] w = Some w'" using c assms(2,4) by (simp add: handle_timeout_def)
  then show ?thesis using w' timeouts_keep_timers [OF _ assms(3)] by blast
qed

subsection \<open>Properties\<close>

text \<open>What a client that is to connect relies on: it has its timer or can make one, and the kernel is about to give it sockets.\<close>

definition may_connect :: "hid \<Rightarrow> reactor_world \<Rightarrow> bool" where
  "may_connect h w \<longleftrightarrow> (\<exists>st fd. client_at h st fd w) \<and> one_timer_each (timer_view w) \<and> mgr_inv (m_timer_mgr (rc_timers w)) \<and>
     nodes (m_timer_mgr (rc_timers w)) (rc_next w) = None \<and> m_last_timer_id (rc_timers w) < 0x7FFFFFFF \<and>
     (\<forall>c. rc_clients w h = Some c \<longrightarrow> unat (of_int (m_timeout_value c * 1000) :: u32) + unat (interval (m_timer_mgr (rc_timers w))) < 4294967296) \<and>
     (\<forall>k a. rc_connect w k a = EINPROGRESS)"

lemma may_connect_starts:
  assumes "may_connect h w" "os_socket w = fd" "free_socket fd w"
  shows "\<exists>w' n. connect h w = Some (0, w') \<and> client_at h CLIENT_CONNECTING fd w' \<and> one_timer_each (timer_view w') \<and> rc_user w' n = Some h \<and>
    m_epoll w' = (m_epoll w)(fd \<mapsto> (EPOLLIN OR EPOLLOUT OR EPOLLERR, h)) \<and> m_map_event_handlers w' = m_map_event_handlers w @ [(fd, h)] \<and>
    w_sent w' = w_sent w \<and> rc_tries w' = Suc (rc_tries w) \<and> answers w' = answers w"
proof -
  obtain st fd0 where at: "client_at h st fd0 w" using assms(1) by (auto simp: may_connect_def)
  have "0 \<le> m_last_timer_id (rc_timers w)" using assms(1) by (simp add: may_connect_def timer_view_def one_timer)
  then have t: "\<forall>c. rc_clients w h = Some c \<longrightarrow> m_timer_id c \<noteq> 0 \<or> (\<exists>i t. 0 < i \<and> add_timer (rc_next w) (m_timeout_value c) 0 (rc_timers w) = Some (i, t))"
    using assms(1) add_timer_ready by (auto simp: may_connect_def)
  obtain w' where w': "connect h w = Some (0, w')" "client_at h CLIENT_CONNECTING fd w'"
      "m_epoll w' = (m_epoll w)(fd \<mapsto> (EPOLLIN OR EPOLLOUT OR EPOLLERR, h))" "m_map_event_handlers w' = m_map_event_handlers w @ [(fd, h)]"
      "w_sent w' = w_sent w" "rc_tries w' = Suc (rc_tries w)" "answers w' = answers w" "\<forall>c. rc_clients w' h = Some c \<longrightarrow> m_timer_id c \<noteq> 0"
    using connect_starts [OF at assms(2,3) _ t] assms(1) by (auto simp: may_connect_def)
  have one: "one_timer_each (timer_view w')" using connect_view [OF w'(1)] makes_timer_one assms(1) unfolding may_connect_def by metis
  moreover have "\<exists>n. rc_user w' n = Some h" using one w'(2,8) by (force simp: timer_view_def client_at_def one_timer)
  ultimately show ?thesis using w' by blast
qed

text \<open>What can happen in the thread of the reactor.\<close>

inductive client_run :: "reactor_world \<Rightarrow> reactor_world \<Rightarrow> bool" for w where
  run_start: "client_run w w"
| run_new: "client_run w v \<Longrightarrow> rc_clients v h = None \<Longrightarrow> client_run w (CTCPClient h a mask0 r now v)"
| run_connect: "client_run w v \<Longrightarrow> connect h v = Some (res, v') \<Longrightarrow> client_run w v'"
| run_connect_to: "client_run w v \<Longrightarrow> connect_to ip port h v = Some (res, v') \<Longrightarrow> client_run w v'"
| run_round: "client_run w v \<Longrightarrow> client_loop_once now result v = Some (ok, v') \<Longrightarrow> client_run w v'"

lemma poll_events_view: "poll_events client_dispatch es w = Some w' \<Longrightarrow> timer_view w' = timer_view w"
  by (induction es arbitrary: w) (auto split: bind_splits dest!: client_dispatch_view)

lemma loop_once_one:
  assumes "client_loop_once now result w = Some (ok, w')" "one_timer_each (timer_view w)"
  shows "one_timer_each (timer_view w')"
proof -
  obtain w1 where 1: "poller_run m_running_flag (\<lambda>e w. w\<lparr>w_errno := e\<rparr>) client_dispatch result w = Some (ok, w1)"
      "if ok then run_timers now w1 = Some w' else w' = w1"
    using assms(1) by (auto simp: client_loop_once_def split: bind_splits if_splits)
  have v1: "timer_view w1 = timer_view w"
    using 1(1) by (auto simp: poller_run_def timer_view_def split: if_splits sum.splits bind_splits dest!: poll_events_view [unfolded timer_view_def])
  show ?thesis
  proof (cases ok)
    case True
    then obtain t where t: "update_timer now (rc_timers w1) = Some (0, t)"
        "call_timeouts (drop (length (fired (m_timer_mgr (rc_timers w1)))) (fired (m_timer_mgr t))) (w1\<lparr>rc_timers := t\<rparr>) = Some w'"
      using 1(2) by (auto simp: run_timers_def update_timer_def split: bind_splits)
    have "m_last_timer_id t = m_last_timer_id (rc_timers w1)" using t(1) by (auto simp: update_timer_def split: bind_splits)
    then have "one_timer_each (timer_view (w1\<lparr>rc_timers := t\<rparr>))" using assms(2) v1 one_timer_wheel timer_view_wheel by metis
    then show ?thesis using timeouts_keep_timers [OF t(2)] by simp
  next
    case False
    then show ?thesis using 1(2) v1 assms(2) by simp
  qed
qed

lemma connect_one: "connect h v = Some (res, v') \<Longrightarrow> one_timer_each (timer_view v) \<Longrightarrow> one_timer_each (timer_view v')"
  using connect_view makes_timer_one by metis

text \<open>
  However often the clients connect, lose their connections and are called by their timers, every client has at most
  one timer, and no timer calls an object that does not exist.
\<close>

theorem one_timer_per_client:
  assumes "client_run w w'" "one_timer_each (timer_view w)"
  shows "one_timer_each (timer_view w')"
  using assms
proof (induction rule: client_run.induct)
  case (run_new v h a mask0 r now)
  have "timer_view (CTCPClient h a mask0 r now v) =
      (rc_timers v, rc_user v, rc_next v, (\<lambda>k. map_option m_timer_id (rc_clients v k))(h \<mapsto> 0))"
    by (auto simp: timer_view_def CTCPClient_def new_client_def)
  then show ?case
    using one_timer_new [of "rc_timers v" "rc_user v" "rc_next v" "\<lambda>k. map_option m_timer_id (rc_clients v k)" h] run_new.IH run_new.prems run_new.hyps(2)
    unfolding timer_view_def by simp
next
  case (run_connect_to v ip port h res v')
  then show ?case using connect_one by (auto simp: connect_to_def upd_client_timer_view)
qed (auto intro: connect_one loop_once_one)

text \<open>
  C21. A client of the reactor connects and connects again: \<^verbatim>\<open>connect\<close> registers the socket and a timer and returns; when the
  socket can be written the client is connected, says hello and from then on waits for input only; when the connection
  fails the socket is closed and unregistered; the next call of the timer starts an attempt on a new socket, which
  may have the number of the old one, and when that can be written the client is connected and says hello once more.
\<close>

theorem client_connects_again:
  assumes "may_connect h w" "rc_socket w (rc_tries w) = fd" "rc_socket w (Suc (rc_tries w)) = fd'" "free_socket fd w" "free_socket fd' w"
    and "\<forall>i. \<exists>k\<ge>5. w_writes w i = Wrote k" "ev AND (EPOLLHUP OR EPOLLERR) \<noteq> 0"
  shows "\<exists>w1 w2 w3 w4 w5 n. connect h w = Some (0, w1) \<and> rc_user w1 n = Some h \<and> client_at h CLIENT_CONNECTING fd w1 \<and>
    client_dispatch (EPOLLOUT, Some h, rd) w1 = Some w2 \<and> client_at h CLIENT_CONNECTED fd w2 \<and> m_epoll w2 fd = Some (EPOLLIN, h) \<and>
    w_sent w2 h = w_sent w h @ take 5 hello_msg \<and>
    client_dispatch (ev, Some h, rd) w2 = Some w3 \<and> client_at h CLIENT_UNCONNECTED INVALID_SOCKET w3 \<and> m_epoll w3 = m_epoll w \<and>
    call_timeouts [n] w3 = Some w4 \<and> client_at h CLIENT_CONNECTING fd' w4 \<and>
    client_dispatch (EPOLLOUT, Some h, rd) w4 = Some w5 \<and> client_at h CLIENT_CONNECTED fd' w5 \<and> m_epoll w5 = (m_epoll w)(fd' \<mapsto> (EPOLLIN, h)) \<and>
    w_sent w5 h = w_sent w h @ take 5 hello_msg @ take 5 hello_msg"
proof -
  note fd = assms(4,5) [unfolded free_socket_def]
  obtain w1 n where 1: "connect h w = Some (0, w1)" "client_at h CLIENT_CONNECTING fd w1" "one_timer_each (timer_view w1)" "rc_user w1 n = Some h"
      "m_epoll w1 = (m_epoll w)(fd \<mapsto> (EPOLLIN OR EPOLLOUT OR EPOLLERR, h))" "m_map_event_handlers w1 = m_map_event_handlers w @ [(fd, h)]"
      "w_sent w1 = w_sent w" "rc_tries w1 = Suc (rc_tries w)" "answers w1 = answers w"
    using may_connect_starts [OF assms(1) _ assms(4)] assms(2) by (auto simp: os_socket_def)
  obtain w2 where 2: "client_dispatch (EPOLLOUT, Some h, rd) w1 = Some w2" "client_at h CLIENT_CONNECTED fd w2" "m_epoll w2 = (m_epoll w1)(fd \<mapsto> (EPOLLIN, h))"
      "m_map_event_handlers w2 = m_map_event_handlers w1" "w_sent w2 = (w_sent w1)(h := w_sent w1 h @ take 5 hello_msg)" "rc_tries w2 = rc_tries w1" "answers w2 = answers w1"
    using writable_says_hello [OF 1(2), of _ rd] 1(5,9) fd(1) assms(6) by (simp add: answers_def) blast
  obtain w3 where 3: "client_dispatch (ev, Some h, rd) w2 = Some w3" "client_at h CLIENT_UNCONNECTED INVALID_SOCKET w3" "m_epoll w3 = (m_epoll w2)(fd := None)"
      "m_map_event_handlers w3 = filter (\<lambda>(s, _). s \<noteq> fd) (m_map_event_handlers w2)" "w_sent w3 = w_sent w2" "rc_tries w3 = rc_tries w2" "answers w3 = answers w2"
    using fault_closes [OF 2(2) _ _ assms(7), of _ rd] 2(3) fd(1) by simp blast
  have v3: "timer_view w3 = timer_view w1" using client_dispatch_view [OF 2(1)] client_dispatch_view [OF 3(1)] by simp
  then have u3: "one_timer_each (timer_view w3)" "rc_user w3 n = Some h" using 1(3,4) by (simp_all add: timer_view_def)
  have e3: "m_epoll w3 = m_epoll w" using 1(5) 2(3) 3(3) fd(1) by (simp add: fun_upd_idem)
  have free: "free_socket fd' w3"
    using e3 fd 1(6) 2(4) 3(4) map_of_filter_other(2) [of "m_map_event_handlers w" fd' fd] by (auto simp: free_socket_def map_add_def)
  obtain w4 where 4: "call_timeouts [n] w3 = Some w4" "client_at h CLIENT_CONNECTING fd' w4" "m_epoll w4 = (m_epoll w3)(fd' \<mapsto> (EPOLLIN OR EPOLLOUT OR EPOLLERR, h))"
      "w_sent w4 = w_sent w3" "answers w4 = answers w3"
    using timeout_starts [OF 3(2) _ u3 _ free] 1(8,9) 2(6,7) 3(6,7) assms(1,3) by (simp add: os_socket_def answers_def may_connect_def) blast
  obtain w5 where 5: "client_dispatch (EPOLLOUT, Some h, rd) w4 = Some w5" "client_at h CLIENT_CONNECTED fd' w5" "m_epoll w5 = (m_epoll w4)(fd' \<mapsto> (EPOLLIN, h))"
      "w_sent w5 = (w_sent w4)(h := w_sent w4 h @ take 5 hello_msg)"
    using writable_says_hello [OF 4(2), of _ rd] 4(3,5) 1(9) 2(7) 3(7) fd(2) assms(6) by (simp add: answers_def) blast
  show ?thesis
    using 1 2 3 4 5 e3 by (intro exI [of _ w1] exI [of _ w2] exI [of _ w3] exI [of _ w4] exI [of _ w5] exI [of _ n]) simp
qed

text \<open>A reactor with one client, which has not connected yet.\<close>

definition demo_reactor :: "(nat \<Rightarrow> int) \<Rightarrow> reactor_world" where
  "demo_reactor fds =
     CTCPClient 1 (Some ([49], 9090)) 0 True 0
       \<lparr>m_mem = \<lparr>w_heap = Map.empty, w_store = CMsgMemStore 0\<rparr>, m_handlers = Map.empty, m_map_event_handlers = [], m_running_flag = True,
        m_notify_writer = None, m_notify_deque = [], m_epoll = Map.empty, w_errno = 0, w_writes = (\<lambda>_. Wrote 9), w_calls = 0, w_sent = (\<lambda>_. []),
        rc_clients = Map.empty, rc_timers = CTimerWheelMgr 100, rc_user = Map.empty, rc_next = 0, rc_socket = fds, rc_connect = (\<lambda>_ _. EINPROGRESS), rc_tries = 0\<rparr>"

lemma demo_reactor_ok:
  "may_connect 1 (demo_reactor fds)" "w_sent (demo_reactor fds) = (\<lambda>_. [])" "w_writes (demo_reactor fds) = (\<lambda>_. Wrote 9)"
  "rc_tries (demo_reactor fds) = 0" "rc_socket (demo_reactor fds) = fds" "0 \<le> fd \<Longrightarrow> free_socket fd (demo_reactor fds)"
  "m_epoll (demo_reactor fds) = Map.empty"
proof -
  have "mgr_inv (m_timer_mgr (CTimerWheelMgr 100))" using mgr_init_inv [of 1] by (simp add: CTimerWheelMgr_def)
  then show "may_connect 1 (demo_reactor fds)"
    by (simp add: may_connect_def demo_reactor_def client_at_def CTCPClient_def CEventHandler_def new_client_def timer_view_def CTimerWheelMgr_def
        itimer_mgr_init_def itimer_core_init_def one_timer)
qed (simp_all add: demo_reactor_def CTCPClient_def free_socket_def)

theorem client_connects_again_witness:
  "\<exists>w1 w2 w3 w4 w5 n. connect 1 (demo_reactor (\<lambda>_. 7)) = Some (0, w1) \<and> client_dispatch (EPOLLOUT, Some 1, Read []) w1 = Some w2 \<and>
     client_dispatch (EPOLLHUP, Some 1, Read []) w2 = Some w3 \<and> call_timeouts [n] w3 = Some w4 \<and>
     client_dispatch (EPOLLOUT, Some 1, Read []) w4 = Some w5 \<and> client_at 1 CLIENT_CONNECTED 7 w5 \<and>
     w_sent w5 1 = [72, 101, 108, 108, 111, 72, 101, 108, 108, 111]"
proof -
  have "take 5 hello_msg @ take 5 hello_msg = [72, 101, 108, 108, 111, 72, 101, 108, 108, 111]" by (simp add: hello_msg_def)
  moreover have "\<forall>i :: nat. \<exists>k\<ge>5. Wrote 9 = Wrote k" by simp
  moreover have "EPOLLHUP AND (EPOLLHUP OR EPOLLERR) \<noteq> 0" by (simp add: event_defs)
  ultimately show ?thesis
    using client_connects_again [OF demo_reactor_ok(1), of "\<lambda>_. 7" 7 7 EPOLLHUP "Read []"] demo_reactor_ok
    by (simp only: append_Nil) fastforce
qed

text \<open>
  A client whose timer comes before its connection is made takes a new socket and forgets the old one, which stays
  open and registered with the same object: a fault of the old connection is then taken for one of the new. It closes
  the new socket, and the old one stays registered, however often its fault is reported.
\<close>

theorem old_socket_closes_new_one:
  assumes "may_connect h w" "rc_socket w (rc_tries w) = fd" "rc_socket w (Suc (rc_tries w)) = fd'" "free_socket fd w" "free_socket fd' w" "fd \<noteq> fd'"
    and "ev AND (EPOLLHUP OR EPOLLERR) \<noteq> 0"
  shows "\<exists>w1 w2 w3 n m. connect h w = Some (0, w1) \<and> rc_user w1 n = Some h \<and> m_epoll w1 fd = Some (m, h) \<and>
    call_timeouts [n] w1 = Some w2 \<and> client_at h CLIENT_CONNECTING fd' w2 \<and> m_epoll w2 fd = Some (m, h) \<and> m_epoll w2 fd' = Some (m, h) \<and>
    client_dispatch (ev, Some h, rd) w2 = Some w3 \<and> client_at h CLIENT_UNCONNECTED INVALID_SOCKET w3 \<and> m_epoll w3 fd' = None \<and>
    (\<forall>k. \<exists>w4. poll_events client_dispatch (replicate k (ev, Some h, rd)) w3 = Some w4 \<and> m_epoll w4 fd = Some (m, h) \<and>
       client_at h CLIENT_UNCONNECTED INVALID_SOCKET w4)"
proof -
  note fd = assms(4,5) [unfolded free_socket_def]
  let ?m = "EPOLLIN OR EPOLLOUT OR EPOLLERR"
  obtain w1 n where 1: "connect h w = Some (0, w1)" "client_at h CLIENT_CONNECTING fd w1" "one_timer_each (timer_view w1)" "rc_user w1 n = Some h"
      "m_epoll w1 = (m_epoll w)(fd \<mapsto> (?m, h))" "m_map_event_handlers w1 = m_map_event_handlers w @ [(fd, h)]"
      "rc_tries w1 = Suc (rc_tries w)" "answers w1 = answers w"
    using may_connect_starts [OF assms(1) _ assms(4)] assms(2) by (auto simp: os_socket_def)
  have free: "free_socket fd' w1" using 1(5,6) fd assms(6) by (auto simp: free_socket_def map_add_def)
  obtain w2 where 2: "call_timeouts [n] w1 = Some w2" "client_at h CLIENT_CONNECTING fd' w2" "m_epoll w2 = (m_epoll w1)(fd' \<mapsto> (?m, h))"
    using timeout_starts [OF 1(2) _ 1(3,4) _ free] 1(7,8) assms(1,3) by (auto simp: os_socket_def answers_def may_connect_def)
  obtain w3 where 3: "client_dispatch (ev, Some h, rd) w2 = Some w3" "client_at h CLIENT_UNCONNECTED INVALID_SOCKET w3" "m_epoll w3 = (m_epoll w2)(fd' := None)"
    using fault_closes [OF 2(2) _ _ assms(7), of _ rd] 2(3) fd(2) by simp blast
  have again: "\<exists>w4. poll_events client_dispatch (replicate k (ev, Some h, rd)) v = Some w4 \<and> m_epoll w4 = m_epoll v \<and>
      client_at h CLIENT_UNCONNECTED INVALID_SOCKET w4" if "client_at h CLIENT_UNCONNECTED INVALID_SOCKET v" for k v
    using that
  proof (induction k arbitrary: v)
    case (Suc k)
    obtain v1 where "client_dispatch (ev, Some h, rd) v = Some v1" "client_at h CLIENT_UNCONNECTED INVALID_SOCKET v1" "m_epoll v1 = m_epoll v"
      using fault_without_socket [OF Suc.prems assms(7)] by blast
    then show ?case using Suc.IH [of v1] by simp
  qed simp
  have "\<exists>w4. poll_events client_dispatch (replicate k (ev, Some h, rd)) w3 = Some w4 \<and> m_epoll w4 fd = Some (?m, h) \<and>
      client_at h CLIENT_UNCONNECTED INVALID_SOCKET w4" for k
    using again [OF 3(2), of k] 1(5) 2(3) 3(3) assms(6) by auto
  then show ?thesis
    using 1(1,4,5) 2 3 assms(6) by (intro exI [of _ w1] exI [of _ w2] exI [of _ w3] exI [of _ n] exI [of _ ?m]) simp
qed

theorem old_socket_closes_new_one_witness:
  "\<exists>w1 w2 w3 n m. connect 1 (demo_reactor (\<lambda>k. int k + 7)) = Some (0, w1) \<and> call_timeouts [n] w1 = Some w2 \<and>
     client_at 1 CLIENT_CONNECTING 8 w2 \<and> m_epoll w2 7 = Some (m, 1) \<and> client_dispatch (EPOLLERR, Some 1, Read []) w2 = Some w3 \<and>
     client_at 1 CLIENT_UNCONNECTED INVALID_SOCKET w3 \<and> m_epoll w3 8 = None"
proof -
  let ?w = "demo_reactor (\<lambda>k. int k + 7)"
  have ev: "EPOLLERR AND (EPOLLHUP OR EPOLLERR) \<noteq> 0" by (simp add: event_defs)
  have s: "rc_socket ?w (rc_tries ?w) = 7" "rc_socket ?w (Suc (rc_tries ?w)) = 8" "free_socket 7 ?w" "free_socket 8 ?w" "(7 :: int) \<noteq> 8"
    using demo_reactor_ok(4-6) by simp_all
  show ?thesis using old_socket_closes_new_one [OF demo_reactor_ok(1) s ev, of "Read []"] by (elim exE conjE) (intro exI conjI)
qed

text \<open>
  A connection that is made at once is not registered with the reactor, and no timer is made for it: the client says
  hello, but nothing the server sends and no loss of the connection is ever reported to it.
\<close>

theorem immediate_connection_unregistered:
  assumes "client_at h st fd0 w" "rc_socket w (rc_tries w) = fd" "0 \<le> fd" "\<forall>a. rc_connect w (rc_tries w) a = 0" "\<forall>i. \<exists>k\<ge>5. w_writes w i = Wrote k"
  shows "\<exists>w'. connect h w = Some (0, w') \<and> client_at h CLIENT_CONNECTED fd w' \<and> m_epoll w' = m_epoll w \<and> timer_view w' = timer_view w"
proof -
  obtain c hd where c: "rc_clients w h = Some c" "m_handlers w h = Some hd" "m_reactor_ptr hd" using assms(1) by (auto simp: client_at_def)
  let ?w1 = "upd_client h (m_client_status_update (\<lambda>_. CLIENT_CONNECTING)) (upd_handler h (m_sock_handle_update (\<lambda>_. fd)) w)"
  let ?w2 = "upd_client h (m_client_status_update (\<lambda>_. CLIENT_CONNECTED)) (?w1\<lparr>rc_tries := Suc (rc_tries w)\<rparr>)"
  obtain k where k: "w_writes w (w_calls w) = Wrote k" "5 \<le> k" using assms(5) by blast
  let ?w3 = "?w2\<lparr>w_calls := Suc (w_calls w), w_sent := (w_sent w)(h := w_sent w h @ take 5 hello_msg)\<rparr>"
  have "write_n_loop fd h hello_msg 5 ?w2 = Some (True, ?w3)"
    using write_n_loop_whole(1) [of fd ?w2 k "take 5 hello_msg" h "drop 5 hello_msg"] assms(3) k by (simp add: hello_msg_def eval_nat_numeral upd_handler_def)
  then have "hello h ?w2 = Some ?w3" using c by (simp add: hello_def write_n_def mem_read_def hello_msg_def)
  then have "connect h w = Some (0, upd_client h (m_cur_pos_update (\<lambda>_. Some 0)) ?w3)"
    using c assms(2-4) by (simp add: connect_def os_socket_def os_connect_def next_try_def upd_handler_def [of _ _ w])
  moreover have "timer_view ?w3 = timer_view ?w2" "timer_view (?w1\<lparr>rc_tries := Suc (rc_tries w)\<rparr>) = timer_view ?w1"
    "timer_view (w\<lparr>m_handlers := f\<rparr>) = timer_view w" for f by (simp_all add: timer_view_def)
  ultimately show ?thesis using c by (simp add: client_at_def upd_client_timer_view upd_handler_def [of _ _ w])
qed

end
