(* ===== verification/Tinyxml_Print.thy ===== *)
theory Tinyxml_Print
  imports Tinyxml_Read
begin

text \<open>
  The printer of the XML library, \<^verbatim>\<open>XMLPrinter\<close> of \<^verbatim>\<open>src/common/tinyxml2.cpp\<close> with \<^verbatim>\<open>Accept\<close> of the nodes and
  \<^verbatim>\<open>XMLDocument::SaveFile\<close>, and that a document printed in compact mode is read back as it was. What is printed is
  collected in \<open>pr_buffer\<close>; the file is taken to accept it. The stack of names cannot be empty when an element is closed,
  else the result is \<^const>\<open>None\<close>.
\<close>

subsection \<open>XMLPrinter\<close>

record xml_printer =
  pr_buffer :: bytes
  pr_stack :: "cstring list"
  pr_elementJustOpened :: bool
  pr_firstElement :: bool
  pr_depth :: int
  pr_textDepth :: int
  pr_processEntities :: bool
  pr_compactMode :: bool

definition XMLPrinter :: "bool \<Rightarrow> int \<Rightarrow> xml_printer" where
  "XMLPrinter compact depth =
     \<lparr>pr_buffer = [], pr_stack = [], pr_elementJustOpened = False, pr_firstElement = True, pr_depth = depth, pr_textDepth = -1,
      pr_processEntities = True, pr_compactMode = compact\<rparr>"

definition Print :: "bytes \<Rightarrow> xml_printer \<Rightarrow> xml_printer" where
  "Print s pr = pr\<lparr>pr_buffer := pr_buffer pr @ s\<rparr>"

definition PrintSpace :: "int \<Rightarrow> xml_printer \<Rightarrow> xml_printer" where
  "PrintSpace depth pr = Print (concat (replicate (nat depth) (cstr ''    ''))) pr"

text \<open>The tables of the characters that are printed as entities, of which those from 64 on are never looked up.\<close>

definition entityFlag :: "bool \<Rightarrow> u8 \<Rightarrow> bool" where
  "entityFlag restricted c \<longleftrightarrow> (if restricted then c \<in> {38, 60, 62} else c \<in> set (map snd entities))"

definition entity_pattern :: "u8 \<Rightarrow> bytes" where
  "entity_pattern c = (case find (\<lambda>(_, v). v = c) entities of Some (pattern, _) \<Rightarrow> 38 # pattern @ [59] | None \<Rightarrow> [])"

text \<open>\<open>run\<close> is the text from the pointer \<^verbatim>\<open>p\<close> to the pointer \<^verbatim>\<open>q\<close>, which has not been printed.\<close>

fun PrintString_loop :: "bool \<Rightarrow> bytes \<Rightarrow> bytes \<Rightarrow> xml_printer \<Rightarrow> xml_printer" where
  "PrintString_loop restricted run [] pr = (if run \<noteq> [] then Print run pr else pr)"
| "PrintString_loop restricted run (c # q) pr =
     (if 0 < c \<and> c < 64 \<and> entityFlag restricted c then PrintString_loop restricted [] q (Print (entity_pattern c) (Print run pr))
      else PrintString_loop restricted (run @ [c]) q pr)"

definition PrintString :: "cstring \<Rightarrow> bool \<Rightarrow> xml_printer \<Rightarrow> xml_printer" where
  "PrintString p restricted pr = (if pr_processEntities pr then PrintString_loop restricted [] p pr else Print p pr)"

definition SealElementIfJustOpened :: "xml_printer \<Rightarrow> xml_printer" where
  "SealElementIfJustOpened pr = (if \<not> pr_elementJustOpened pr then pr else Print [62] (pr\<lparr>pr_elementJustOpened := False\<rparr>))"

definition OpenElement :: "cstring \<Rightarrow> bool \<Rightarrow> xml_printer \<Rightarrow> xml_printer" where
  "OpenElement name compactMode pr =
     (let pr = SealElementIfJustOpened pr;
          pr = pr\<lparr>pr_stack := name # pr_stack pr\<rparr>;
          pr = (if pr_textDepth pr < 0 \<and> \<not> pr_firstElement pr \<and> \<not> compactMode then Print [10] pr else pr);
          pr = (if \<not> compactMode then PrintSpace (pr_depth pr) pr else pr);
          pr = Print (60 # name) pr
      in pr\<lparr>pr_elementJustOpened := True, pr_firstElement := False, pr_depth := pr_depth pr + 1\<rparr>)"

definition PushAttribute :: "cstring \<Rightarrow> cstring \<Rightarrow> xml_printer \<Rightarrow> xml_printer" where
  "PushAttribute name v pr = Print [34] (PrintString v False (Print (32 # name @ [61, 34]) pr))"

definition CloseElement :: "bool \<Rightarrow> xml_printer \<Rightarrow> xml_printer option" where
  "CloseElement compactMode pr =
     (case pr_stack pr of
        [] \<Rightarrow> None
      | name # stack \<Rightarrow>
          let pr = pr\<lparr>pr_depth := pr_depth pr - 1, pr_stack := stack\<rparr>;
              pr = (if pr_elementJustOpened pr then Print [47, 62] pr
                    else Print (60 # 47 # name @ [62])
                      (if pr_textDepth pr < 0 \<and> \<not> compactMode then PrintSpace (pr_depth pr) (Print [10] pr) else pr));
              pr = (if pr_textDepth pr = pr_depth pr then pr\<lparr>pr_textDepth := -1\<rparr> else pr);
              pr = (if pr_depth pr = 0 \<and> \<not> compactMode then Print [10] pr else pr)
          in Some (pr\<lparr>pr_elementJustOpened := False\<rparr>))"

definition PushText :: "cstring \<Rightarrow> bool \<Rightarrow> xml_printer \<Rightarrow> xml_printer" where
  "PushText text cdata pr =
     (let pr = SealElementIfJustOpened (pr\<lparr>pr_textDepth := pr_depth pr - 1\<rparr>)
      in if cdata then Print (cstr ''<![CDATA['' @ text @ cstr '']]>'') pr else PrintString text True pr)"

definition push_markup :: "bytes \<Rightarrow> xml_printer \<Rightarrow> xml_printer" where
  "push_markup text pr =
     (let pr = SealElementIfJustOpened pr;
          pr = (if pr_textDepth pr < 0 \<and> \<not> pr_firstElement pr \<and> \<not> pr_compactMode pr then PrintSpace (pr_depth pr) (Print [10] pr) else pr)
      in Print text (pr\<lparr>pr_firstElement := False\<rparr>))"

definition PushComment :: "cstring \<Rightarrow> xml_printer \<Rightarrow> xml_printer" where
  "PushComment comment = push_markup (cstr ''<!--'' @ comment @ cstr ''-->'')"

definition PushDeclaration :: "cstring \<Rightarrow> xml_printer \<Rightarrow> xml_printer" where
  "PushDeclaration v = push_markup (cstr ''<?'' @ v @ cstr ''?>'')"

definition PushUnknown :: "cstring \<Rightarrow> xml_printer \<Rightarrow> xml_printer" where
  "PushUnknown v = push_markup (cstr ''<!'' @ v @ cstr ''>'')"

definition PushHeader :: "bool \<Rightarrow> bool \<Rightarrow> xml_printer \<Rightarrow> xml_printer" where
  "PushHeader writeBOM writeDec pr =
     (let pr = (if writeBOM then Print BOM pr else pr) in if writeDec then PushDeclaration (cstr ''xml version=\"1.0\"'') pr else pr)"

subsection \<open>Visiting the tree\<close>

definition VisitEnter_element :: "cstring \<Rightarrow> (cstring \<times> cstring) list \<Rightarrow> xml_printer \<Rightarrow> xml_printer" where
  "VisitEnter_element name attrs pr = fold (\<lambda>(n, v). PushAttribute n v) attrs (OpenElement name (pr_compactMode pr) pr)"

fun Accept :: "xml_node \<Rightarrow> xml_printer \<Rightarrow> xml_printer option" and Accept_nodes :: "xml_node list \<Rightarrow> xml_printer \<Rightarrow> xml_printer option" where
  "Accept (XMLElement name attrs children) pr =
     do { pr \<leftarrow> Accept_nodes children (VisitEnter_element name attrs pr); CloseElement (pr_compactMode pr) pr }"
| "Accept (XMLText v cdata) pr = Some (PushText v cdata pr)"
| "Accept (XMLComment v) pr = Some (PushComment v pr)"
| "Accept (XMLDeclaration v) pr = Some (PushDeclaration v pr)"
| "Accept (XMLUnknown v) pr = Some (PushUnknown v pr)"
| "Accept_nodes [] pr = Some pr"
| "Accept_nodes (n # ns) pr = do { pr \<leftarrow> Accept n pr; Accept_nodes ns pr }"

definition Accept_document :: "xml_document \<Rightarrow> xml_printer \<Rightarrow> xml_printer option" where
  "Accept_document d pr =
     (let pr = pr\<lparr>pr_processEntities := processEntities (doc_options d)\<rparr>
      in Accept_nodes (doc_children d) (if doc_writeBOM d then PushHeader True False pr else pr))"

text \<open>The contents of the file after \<^verbatim>\<open>SaveFile\<close>, and the document.\<close>

definition SaveFile :: "bool \<Rightarrow> xml_document \<Rightarrow> (bytes \<times> xml_document) option" where
  "SaveFile compact d =
     do { pr \<leftarrow> Accept_document d (XMLPrinter compact 0); Some (pr_buffer pr, SetError XML_NO_ERROR d) }"

subsection \<open>What is printed in compact mode\<close>

definition escape :: "bool \<Rightarrow> cstring \<Rightarrow> bytes" where
  "escape restricted s = concat (map (\<lambda>c. if 0 < c \<and> c < 64 \<and> entityFlag restricted c then entity_pattern c else [c]) s)"

fun render :: "xml_node \<Rightarrow> bytes" and renders :: "xml_node list \<Rightarrow> bytes" where
  "render (XMLElement name attrs children) =
     60 # name @ concat (map (\<lambda>(n, v). 32 # n @ 61 # 34 # escape False v @ [34]) attrs) @
     (if children = [] then [47, 62] else 62 # renders children @ 60 # 47 # name @ [62])"
| "render (XMLText v cdata) = (if cdata then cstr ''<![CDATA['' @ v @ cstr '']]>'' else escape True v)"
| "render (XMLComment v) = cstr ''<!--'' @ v @ cstr ''-->''"
| "render (XMLDeclaration v) = cstr ''<?'' @ v @ cstr ''?>''"
| "render (XMLUnknown v) = cstr ''<!'' @ v @ cstr ''>''"
| "renders [] = []"
| "renders (n # ns) = render n @ renders ns"

lemma Print_simps [simp]:
  "pr_buffer (Print s pr) = pr_buffer pr @ s" "Print t (Print s pr) = Print (s @ t) pr" "Print [] pr = pr"
  "pr_processEntities (Print s pr) = pr_processEntities pr" "pr_compactMode (Print s pr) = pr_compactMode pr"
  "pr_stack (Print s pr) = pr_stack pr" "pr_depth (Print s pr) = pr_depth pr" "pr_elementJustOpened (Print s pr) = pr_elementJustOpened pr"
  by (simp_all add: Print_def)

lemma PrintString_loop_escape: "PrintString_loop r run p pr = Print (run @ escape r p) pr"
  by (induction r run p pr rule: PrintString_loop.induct) (auto simp: escape_def)

lemma PrintString_escape: "pr_processEntities pr \<Longrightarrow> PrintString p r pr = Print (escape r p) pr"
  by (simp add: PrintString_def PrintString_loop_escape)

text \<open>The printer after something was printed: the buffer is longer, and the tag before is sealed.\<close>

definition printed :: "bytes \<Rightarrow> bool \<Rightarrow> xml_printer \<Rightarrow> xml_printer \<Rightarrow> bool" where
  "printed s opened pr pr' \<longleftrightarrow> pr_buffer pr' = pr_buffer pr @ s \<and> pr_elementJustOpened pr' = opened \<and> pr_stack pr' = pr_stack pr \<and>
     pr_depth pr' = pr_depth pr \<and> pr_processEntities pr' = pr_processEntities pr \<and> pr_compactMode pr' = pr_compactMode pr"

lemma push_attributes:
  "pr_processEntities pr \<Longrightarrow> fold (\<lambda>(n, v). PushAttribute n v) attrs pr = Print (concat (map (\<lambda>(n, v). 32 # n @ 61 # 34 # escape False v @ [34]) attrs)) pr"
  by (induction attrs arbitrary: pr) (auto simp: PushAttribute_def PrintString_escape)

lemma accept_printed:
  "pr_compactMode pr \<Longrightarrow> pr_processEntities pr \<Longrightarrow>
     \<exists>pr'. Accept n pr = Some pr' \<and> printed ((if pr_elementJustOpened pr then [62] else []) @ render n) False pr pr'"
  "pr_compactMode pr \<Longrightarrow> pr_processEntities pr \<Longrightarrow>
     \<exists>pr'. Accept_nodes ns pr = Some pr' \<and>
       printed ((if pr_elementJustOpened pr \<and> ns \<noteq> [] then [62] else []) @ renders ns) (pr_elementJustOpened pr \<and> ns = []) pr pr'"
proof (induction n pr and ns pr rule: Accept_Accept_nodes.induct)
  case (1 name attrs children pr)
  let ?o = "VisitEnter_element name attrs pr"
  have o: "pr_compactMode ?o" "pr_processEntities ?o" "pr_elementJustOpened ?o" "pr_stack ?o = name # pr_stack pr" "pr_depth ?o = pr_depth pr + 1"
      "pr_buffer ?o = pr_buffer pr @ (if pr_elementJustOpened pr then [62] else []) @ 60 # name @ concat (map (\<lambda>(n, v). 32 # n @ 61 # 34 # escape False v @ [34]) attrs)"
    using "1.prems" by (auto simp: VisitEnter_element_def push_attributes OpenElement_def SealElementIfJustOpened_def Let_def)
  obtain pr1 where "Accept_nodes children ?o = Some pr1"
      "printed ((if children \<noteq> [] then [62] else []) @ renders children) (children = []) ?o pr1"
    using "1.IH" o(1-3) by auto
  then show ?case
    using o "1.prems" by (auto simp: CloseElement_def Let_def printed_def)
next
  case (2 v cdata pr)
  then show ?case by (auto simp: PushText_def SealElementIfJustOpened_def PrintString_escape Let_def printed_def)
next
  case (7 n ns pr)
  obtain pr1 where 1: "Accept n pr = Some pr1" "printed ((if pr_elementJustOpened pr then [62] else []) @ render n) False pr pr1"
    using 7 by blast
  then have "pr_compactMode pr1" "pr_processEntities pr1" using "7.prems" by (auto simp: printed_def)
  then obtain pr2 where "Accept_nodes ns pr1 = Some pr2" "printed (renders ns) False pr1 pr2"
    using "7.IH"(2) [OF 1(1)] 1(2) by (auto simp: printed_def)
  then show ?case using 1 by (auto simp: printed_def)
qed (auto simp: PushComment_def PushDeclaration_def PushUnknown_def push_markup_def SealElementIfJustOpened_def Let_def printed_def)

lemma SaveFile_compact:
  assumes "processEntities (doc_options d)"
  shows "SaveFile True d = Some ((if doc_writeBOM d then BOM else []) @ renders (doc_children d), SetError XML_NO_ERROR d)"
proof -
  let ?pr = "(XMLPrinter True 0)\<lparr>pr_processEntities := True\<rparr>"
  let ?p = "if doc_writeBOM d then PushHeader True False ?pr else ?pr"
  have p: "pr_compactMode ?p" "pr_processEntities ?p" "pr_buffer ?p = (if doc_writeBOM d then BOM else [])" "\<not> pr_elementJustOpened ?p"
    by (auto simp: PushHeader_def XMLPrinter_def)
  from accept_printed(2) [OF p(1,2), of "doc_children d"] p(3,4) assms show ?thesis
    by (auto simp: SaveFile_def Accept_document_def printed_def)
qed

subsection \<open>Escaped strings\<close>

text \<open>A string that can be printed and read back: without zeros, and without the carriage returns that are normalised.\<close>

definition readable_string :: "cstring \<Rightarrow> bool" where
  "readable_string s \<longleftrightarrow> 0 \<notin> set s \<and> 13 \<notin> set s"

definition is_entity :: "u8 \<Rightarrow> bool" where
  "is_entity c \<longleftrightarrow> c \<in> {34, 38, 39, 60, 62}"

lemma entityFlag_chars: "entityFlag r c \<Longrightarrow> is_entity c" "entityFlag r 38" "entityFlag True 60" "entityFlag False 34"
  by (auto simp: entityFlag_def entities_def is_entity_def split: if_splits)

lemma entity_pattern_chars:
  assumes "is_entity c"
  shows "entity_pattern c \<noteq> [] \<and> hd (entity_pattern c) = 38 \<and> 0 \<notin> set (entity_pattern c) \<and> 13 \<notin> set (entity_pattern c) \<and> 34 \<notin> set (entity_pattern c) \<and>
    60 \<notin> set (entity_pattern c)"
  using assms by (auto simp: is_entity_def entity_pattern_def entities_def cstr_def of_char_def)

text \<open>How a character is printed.\<close>

definition escape_char :: "bool \<Rightarrow> u8 \<Rightarrow> bytes" where
  "escape_char r c = (if 0 < c \<and> c < 64 \<and> entityFlag r c then entity_pattern c else [c])"

lemma escape_Cons: "escape r (c # s) = escape_char r c @ escape r s" "escape r [] = []"
  by (simp_all add: escape_def escape_char_def)

lemma escape_char_cases:
  obtains "escape_char r c = entity_pattern c" "is_entity c" | "escape_char r c = [c]" "c \<noteq> 38" "r \<longrightarrow> c \<noteq> 60" "\<not> r \<longrightarrow> c \<noteq> 34"
proof (cases "0 < c \<and> c < 64 \<and> entityFlag r c")
  case True
  then show ?thesis using that(1) entityFlag_chars(1) [of r c] by (simp add: escape_char_def)
next
  case False
  then have "c \<noteq> 38" "r \<longrightarrow> c \<noteq> 60" "\<not> r \<longrightarrow> c \<noteq> 34" by (cases r; auto simp: entityFlag_def entities_def)+
  then show ?thesis using that(2) False by (simp add: escape_char_def)
qed

lemma entity_step:
  assumes "is_entity c"
  shows "GetStr_step True text (entity_pattern c @ q) out = (q, out @ [c])"
  using assms by (auto simp: is_entity_def GetStr_step_def entity_pattern_def entities_def find_entity_def cstr_def of_char_def)

lemma escape_no_return: "13 \<notin> set s \<Longrightarrow> 13 \<notin> set (escape r s)"
proof (induction s)
  case (Cons c s)
  then show ?case by (cases rule: escape_char_cases [of r c]) (auto simp: escape_Cons dest: entity_pattern_chars)
qed (simp add: escape_Cons)

lemma unescape_loop:
  assumes "13 \<notin> set s"
  shows "GetStr_loop True text (escape r s) out = out @ s"
  using assms
proof (induction s arbitrary: out)
  case (Cons c s)
  have "\<not> starts_with [13] (escape r s)" using escape_no_return [of s r] Cons.prems by (cases "escape r s") auto
  then have "GetStr_step True text (escape_char r c @ escape r s) out = (escape r s, out @ [c])"
    using entity_step Cons.prems by (cases rule: escape_char_cases [of r c]) (auto simp: GetStr_step_def)
  moreover have "escape_char r c \<noteq> []" by (cases rule: escape_char_cases [of r c]) (auto dest: entity_pattern_chars)
  ultimately show ?case using Cons by (subst GetStr_loop.simps) (simp add: escape_Cons)
qed (simp add: escape_Cons GetStr_loop.simps)

lemma unescape: "readable_string s \<Longrightarrow> GetStr True False (escape r s) = s"
  by (simp add: readable_string_def GetStr_def unescape_loop) metis

lemma escape_chars: "60 \<notin> set (escape True s)" "34 \<notin> set (escape False s)" "0 \<notin> set s \<Longrightarrow> 0 \<notin> set (escape r s)"
proof (induction s)
  case (Cons c s)
  {
    case 1
    show ?case using Cons(1) by (cases rule: escape_char_cases [of True c]) (auto simp: escape_Cons dest: entity_pattern_chars)
  next
    case 2
    show ?case using Cons(2) by (cases rule: escape_char_cases [of False c]) (auto simp: escape_Cons dest: entity_pattern_chars)
  next
    case 3
    then show ?case using Cons(3) by (cases rule: escape_char_cases [of r c]) (auto simp: escape_Cons dest: entity_pattern_chars)
  }
qed (simp_all add: escape_Cons)

lemma escape_blank: "\<not> blank s \<Longrightarrow> \<not> blank (escape r s)"
proof (induction s)
  case (Cons c s)
  have "\<not> IsWhiteSpace 38" by (simp add: IsWhiteSpace_def isspace_def)
  then have "blank (entity_pattern c @ p) \<Longrightarrow> \<not> is_entity c" for p
    using entity_pattern_chars [of c] by (cases "entity_pattern c") auto
  then show ?case using Cons by (cases rule: escape_char_cases [of r c]) (auto simp: escape_Cons)
qed simp

subsection \<open>Reading back\<close>

text \<open>
  The trees that can be read back: names and strings that XML can have, texts that are not only white space, no two
  texts in a row, no attribute twice.
\<close>

fun plain_text :: "xml_node \<Rightarrow> bool" where
  "plain_text (XMLText v cdata) = (\<not> cdata)"
| "plain_text _ = False"

fun printable :: "xml_node \<Rightarrow> bool" and printables :: "xml_node list \<Rightarrow> bool" where
  "printable (XMLElement n attrs children) \<longleftrightarrow> xml_name n \<and> distinct (map fst attrs) \<and> (\<forall>(a, v)\<in>set attrs. xml_name a \<and> readable_string v) \<and> printables children"
| "printable (XMLText v cdata) \<longleftrightarrow> readable_string v \<and> (if cdata then until (cstr '']]>'') v else \<not> blank v)"
| "printable (XMLComment v) \<longleftrightarrow> readable_string v \<and> until (cstr ''-->'') v"
| "printable _ = False"
| "printables [] = True"
| "printables (n # ns) \<longleftrightarrow> printable n \<and> printables ns \<and> (plain_text n \<longrightarrow> ns = [] \<or> \<not> plain_text (hd ns))"

lemma name_no_zero: "xml_name n \<Longrightarrow> 0 \<notin> set n"
  by (auto simp: xml_name_def IsNameChar_def IsNameStartChar_def is_alpha_def is_digit_def)

lemma readable_plain: "readable_string v \<Longrightarrow> GetStr False False v = v"
  by (simp add: readable_string_def GetStr_plain)

lemma render_starts: "printable n \<Longrightarrow> \<not> plain_text n \<Longrightarrow> \<exists>bs. render n = 60 # bs"
  by (cases n) (auto simp: cstr_def of_char_def)

lemma attributes_render:
  "\<forall>(a, v)\<in>set attrs. xml_name a \<and> readable_string v \<Longrightarrow> attributes True attrs (concat (map (\<lambda>(n, v). 32 # n @ 61 # 34 # escape False v @ [34]) attrs))"
proof (induction attrs)
  case (Cons av attrs)
  obtain a v where av: "av = (a, v)" by (cases av)
  have "blank [32]" by (simp add: IsWhiteSpace_def isspace_def)
  from attribute [OF this _ _ _ _ _ _ Cons.IH, of a "[]" "[]" 34 "escape False v"] show ?case
    using Cons.prems unescape escape_chars(2) by (auto simp: av)
qed (simp add: no_attribute)

lemma content_render:
  assumes "processEntities opt" "\<not> collapse opt"
  shows "printable n \<Longrightarrow> plain_text n \<and> inner \<and> ns = [] \<and> bs = [] \<or> plain_text n \<and> (\<exists>cs. bs = 60 # cs) \<or> \<not> plain_text n \<Longrightarrow>
      content opt inner ns bs \<Longrightarrow> content opt inner (n # ns) (render n @ bs)"
    "printables ms \<Longrightarrow> inner \<or> \<not> list_ex plain_text ms \<Longrightarrow> content opt inner ms (renders ms)"
proof (induction n and ms arbitrary: inner ns bs and inner rule: render_renders.induct)
  case (1 name attrs children)
  have e: "processEntities opt = True" "blank []" using assms by simp_all
  note at = attributes_render [of attrs, folded e(1)]
  show ?case
  proof (cases "children = []")
    case True
    then show ?thesis using empty_element [OF e(2) _ at _ "1.prems"(3), of name] "1.prems"(1) by simp
  next
    case False
    have "content opt True children (renders children)" using "1.IH" [OF False] "1.prems"(1) by simp
    from element [OF e(2) _ at _ this e(2) "1.prems"(3), of name] show ?thesis using False "1.prems"(1) by simp
  qed
next
  case (2 v cdata)
  show ?case
  proof (cases cdata)
    case True
    then show ?thesis using cdata_node [of "[]" v opt inner ns bs] "2.prems" readable_plain by simp
  next
    case False
    have c: "char_data (escape True v)" "GetStr (processEntities opt) (collapse opt) (escape True v) = v"
      using "2.prems"(1) False unescape escape_chars(1) escape_blank assms by (auto simp: char_data_def)
    show ?thesis
    proof (cases "bs = []")
      case True
      then show ?thesis using last_text [OF c(1), of opt] c(2) "2.prems"(2) False by auto
    next
      case bs: False
      then obtain cs where "bs = 60 # cs" using "2.prems"(2) False by auto
      then show ?thesis using text_node [OF c(1), of opt inner ns cs] c(2) "2.prems"(3) False by simp
    qed
  qed
next
  case (3 v)
  then show ?case using comment_node [of "[]" v opt inner ns bs] readable_plain by simp
next
  case 6
  then show ?case using no_node [of "[]" opt inner] by simp
next
  case (7 n ns)
  have c: "content opt inner ns (renders ns)" using "7.IH"(2) "7.prems" by auto
  have "plain_text n \<and> inner \<and> ns = [] \<and> renders ns = [] \<or> plain_text n \<and> (\<exists>cs. renders ns = 60 # cs) \<or> \<not> plain_text n"
  proof (cases ns)
    case (Cons m ms)
    then have "plain_text n \<Longrightarrow> \<exists>cs. render m = 60 # cs" using "7.prems"(1) render_starts by auto
    then show ?thesis using Cons by auto
  qed (use "7.prems" in auto)
  then show ?case using "7.IH"(1) [OF _ _ c] "7.prems"(1) by simp
qed auto

lemma render_no_zero: "printable n \<Longrightarrow> 0 \<notin> set (render n)" "printables ns \<Longrightarrow> 0 \<notin> set (renders ns)"
proof (induction n and ns rule: render_renders.induct)
  case (1 name attrs children)
  have "0 \<notin> set (escape False v)" if "(n, v) \<in> set attrs" for n v
    using "1.prems" that escape_chars(3) by (fastforce simp: readable_string_def)
  moreover have "0 \<notin> set n" if "(n, v) \<in> set attrs" for n v using "1.prems" that name_no_zero by fastforce
  ultimately show ?case using 1 name_no_zero by (auto split: prod.splits)
qed (auto simp: cstr_def of_char_def readable_string_def escape_chars(3))

subsection \<open>Properties\<close>

text \<open>
  C18. What the printer writes in compact mode the parser reads back: a document of elements, texts, CDATA and comments
  with an optional declaration and byte order mark is after \<^verbatim>\<open>SaveFile\<close> and \<^verbatim>\<open>LoadFile\<close> what it was. The document has
  entities on and white space kept, no error, and is not empty; its trees are \<open>printables\<close>: names are XML names, the
  attributes of an element are different, no string has a zero or a carriage return, no text consists of white space
  only or stands next to another text or outside the elements, CDATA, comments and the declaration do not have their own
  end mark in them, and there is no DOCTYPE or other unknown node. (A text of white space, for one, is dropped by the parser.)
\<close>

theorem save_load_roundtrip:
  assumes "doc_options d = \<lparr>processEntities = True, collapse = False\<rparr>" "doc_errorID d = XML_NO_ERROR"
    and "doc_children d = map XMLDeclaration vs @ ns" "length vs \<le> 1" "\<forall>v\<in>set vs. readable_string v \<and> until (cstr ''?>'') v"
    and "printables ns" "\<not> list_ex plain_text ns" "doc_children d \<noteq> []"
  shows "\<exists>bs. SaveFile True d = Some (bs, d) \<and> LoadFile (File bs) (d\<lparr>doc_children := old, doc_errorID := e, doc_writeBOM := b\<rparr>) = Some d"
proof -
  let ?bs = "renders (doc_children d)" and ?b = "if doc_writeBOM d then BOM else []" and ?o = "doc_options d"
  have save: "SaveFile True d = Some (?b @ ?bs, d)" using SaveFile_compact [of d] assms(1,2) by (cases d) (simp add: SetError_def)
  have c: "content ?o False ns (renders ns)" by (rule content_render(2)) (use assms(1,6,7) in simp_all)
  have z: "0 \<notin> set (renders ns)" using render_no_zero(2) [OF assms(6)] .
  have doc: "document ?o (doc_children d) ?bs" "\<exists>q. ?bs = 60 # q" "0 \<notin> set ?bs"
  proof -
    consider "vs = []" | v where "vs = [v]" using assms(4) by (cases vs) auto
    then have "document ?o (doc_children d) ?bs \<and> (\<exists>q. ?bs = 60 # q) \<and> 0 \<notin> set ?bs"
    proof cases
      case 1
      have "\<exists>q. renders ns = 60 # q" using 1 assms(3,6-8) render_starts [of "hd ns"] by (cases ns) auto
      then show ?thesis using 1 c z assms(3) by (simp add: document_def)
    next
      case (2 v)
      have v: "readable_string v" "until (cstr ''?>'') v" using 2 assms(5) by simp_all
      have "document ?o (doc_children d) (cstr ''<?'' @ v @ cstr ''?>'' @ renders ns)"
        unfolding document_def using c v(2) readable_plain [OF v(1)] 2 assms(3) by fastforce
      moreover have "?bs = cstr ''<?'' @ v @ cstr ''?>'' @ renders ns" using 2 assms(3) by simp
      ultimately show ?thesis using z v(1) by (simp add: cstr_def of_char_def readable_string_def)
    qed
    then show "document ?o (doc_children d) ?bs" "\<exists>q. ?bs = 60 # q" "0 \<notin> set ?bs" by auto
  qed
  obtain q where q: "SkipWhiteSpace ?bs = 60 # q" using doc(2) by (auto simp: skip_stop)
  let ?d = "d\<lparr>doc_children := old, doc_errorID := e, doc_writeBOM := b\<rparr>"
  have "LoadFile (File (?b @ ?bs)) ?d = Some ((Clear ?d)\<lparr>doc_writeBOM := ?b \<noteq> [], doc_children := doc_children d\<rparr>)"
    by (rule LoadFile_document [OF _ q doc(3)]) (use doc(1) in simp_all)
  also have "(Clear ?d)\<lparr>doc_writeBOM := ?b \<noteq> [], doc_children := doc_children d\<rparr> = d" using assms(2) by (cases d) (simp add: Clear_def BOM_def)
  finally show ?thesis using save by blast
qed

definition demo_document :: xml_document where
  "demo_document = XMLDocument\<lparr>doc_children := [XMLDeclaration (cstr ''xml''), XMLElement (cstr ''a'') [(cstr ''b'', cstr ''1<2'')] [XMLText (cstr ''x & y'') False, XMLComment (cstr ''c'')]]\<rparr>"

theorem save_load_roundtrip_witness:
  "\<exists>bs. SaveFile True demo_document = Some (bs, demo_document) \<and> LoadFile (File bs) XMLDocument = Some demo_document"
proof -
  let ?ns = "[XMLElement (cstr ''a'') [(cstr ''b'', cstr ''1<2'')] [XMLText (cstr ''x & y'') False, XMLComment (cstr ''c'')]]"
  have p: "printables ?ns" "\<not> list_ex plain_text ?ns" "\<forall>v\<in>set [cstr ''xml'']. readable_string v \<and> until (cstr ''?>'') v" by code_simp+
  have d: "doc_options demo_document = \<lparr>processEntities = True, collapse = False\<rparr>" "doc_errorID demo_document = XML_NO_ERROR"
      "doc_children demo_document = map XMLDeclaration [cstr ''xml''] @ ?ns" "doc_children demo_document \<noteq> []"
    by (simp_all add: demo_document_def XMLDocument_def)
  have "demo_document\<lparr>doc_children := [], doc_errorID := XML_NO_ERROR, doc_writeBOM := False\<rparr> = XMLDocument"
    by (simp add: demo_document_def XMLDocument_def)
  then show ?thesis using save_load_roundtrip [OF d(1-3) _ p(3,1,2) d(4), where old = "[]" and e = XML_NO_ERROR and b = False] by simp
qed

text \<open>
  Without compact mode, what is printed behind a text in the same element is indented, and the blanks become part of the text.
\<close>

lemma pretty_print_changes_text:
  "map_option fst (SaveFile False (XMLDocument\<lparr>doc_children := [XMLElement (cstr ''a'') [] [XMLText (cstr ''x'') False, XMLElement (cstr ''b'') [] []]]\<rparr>)) =
     Some (cstr ''<a>x    <b/></a>'' @ [10])"
  by code_simp

end
