(* ===== verification/Spec2Isabelle.thy ===== *)
theory Spec2Isabelle
  imports Broker_Main Persist Record_Queue Reactor_Client Tinyxml_Print
begin

text \<open>
  A verification library for the MQTT broker \<^verbatim>\<open>mqtt_server\<close>: a server in C++ that speaks MQTT 3.1 over TCP, takes
  messages over HTTP as well, and keeps its sessions in a database file. Paths are relative to the root of the
  repository.

  \<^bold>\<open>The program.\<close> One thread runs a reactor: \<^verbatim>\<open>CReactor::run_event_loop\<close> waits in \<^verbatim>\<open>epoll\<close> and calls the virtual
  functions \<^verbatim>\<open>handle_input\<close>, \<^verbatim>\<open>handle_output\<close> and \<^verbatim>\<open>handle_close\<close> of handler objects. The acceptor creates a
  \<^verbatim>\<open>CMqttConnection\<close> per client; a connection splits its byte stream into packets, decodes them with the classes of
  \<^verbatim>\<open>mqttc++\<close> and acts on the shared state: client contexts, the map of client ids, and the topics with their
  subscribers and retained messages. A published message is a reference counted \<^verbatim>\<open>CMbuf\<close> that is queued in the
  context and in the send queue of every subscriber. A second thread serves HTTP; a request becomes a PUBLISH packet
  that the broker's thread receives through a notification descriptor. A third one is a client of a parent broker and
  hands on what it receives in the same way. Two threads write records about messages and clients to rotating files.
  A timer handler saves the sessions periodically, a signal handler ends the loop, and the sessions are saved once more.

  \<^bold>\<open>Theories.\<close>
  \<^item> \<open>Mqtt_Prelude\<close>: words for the integer types of the source, byte buffers whose accesses are \<^const>\<open>None\<close> out of
    range, the partial correctness predicate \<open>wp\<close> for operations in the option monad, shared lemmas, and the
    collections \<open>mem_simps\<close>, \<open>pkt_simps\<close>, \<open>msg_defs\<close> and \<open>wp_rules\<close>.
  \<^item> \<open>Mqtt_Pkt\<close> (\<^verbatim>\<open>src/mqttc++/mqtt_pkt.cpp\<close>): the cursor \<^verbatim>\<open>CMqttPkt\<close> and \<^verbatim>\<open>remain_length\<close>. The remaining length is
    characterised (value, framing of the stream, round trip); reads never leave the window. The locale \<open>pkt_field\<close>
    is the contract of a field, interpreted for bytes, shorts and strings.
  \<^item> \<open>Mqtt_Msg\<close> (\<^verbatim>\<open>src/mqttc++/mqtt_msg.cpp\<close>, \<^verbatim>\<open>include/mqttc++/mqtt_msg.hpp\<close>): all control packets. Decoding CONNECT
    agrees with a reference grammar, encoding and decoding are inverse for CONNECT, PUBLISH and SUBSCRIBE, the
    answers have the bytes of the protocol, no decoder leaves its buffer. Decoding is right for bodies below 16384
    bytes, since \<^verbatim>\<open>remain_length\<close> is wrong for a length of three bytes or more.
  \<^item> \<open>Mbuf\<close> (\<^verbatim>\<open>src/common/mbuf.cpp\<close>, \<^verbatim>\<open>msg_mem_store.cpp\<close>, \<^verbatim>\<open>include/common/mem_pool.hpp\<close>): message buffers refine a
    byte queue (locale \<open>byte_queue\<close>); the message store never points to a destroyed buffer (step relation
    \<open>store_step\<close>, invariant by rule induction); the statistics.
  \<^item> \<open>Itimer\<close>, \<open>Timer_Mgr\<close> (\<^verbatim>\<open>src/reactor/itimer.cpp\<close>, \<^verbatim>\<open>timer_wheel_mgr.cpp\<close>): the hierarchical timer wheel. Its invariant
    ties slots to expiry times; a tick collects exactly the nodes that are due. The locale \<open>timer_callback\<close> is the
    contract of callbacks, interpreted for the event callback, and gives that the manager's loop ends and does exactly
    the ticks that are due (\<open>mgr_ticks\<close>).
  \<^item> \<open>Event_Handler\<close> (\<^verbatim>\<open>src/reactor/event_handler.cpp\<close>, \<^verbatim>\<open>poller_epoll.cpp\<close>): handlers, their send queue and the
    poller. The locale \<open>closing_handler\<close> is the contract between the send path and the class whose \<^verbatim>\<open>handle_close\<close> it
    calls; under it the send queue is a byte stream in order as long as writes succeed, interpreted for the base class and
    for connections.
  \<^item> \<open>Session\<close> (\<^verbatim>\<open>include/mqtt_server/mqtt_context.hpp\<close>, \<^verbatim>\<open>src/mqtt_server/client_db_id.cpp\<close>, \<^verbatim>\<open>subscriber_mgr.cpp\<close>):
    contexts, subscriptions, publishing, retained messages. The locale \<open>broker_frame\<close> lists what a property must be
    stable under so that no operation of the broker breaks it.
  \<^item> \<open>Mqtt_Connection\<close> (\<^verbatim>\<open>src/mqtt_server/mqtt_connection.cpp\<close>, \<^verbatim>\<open>acceptor.cpp\<close>): the message handlers. The step
    relation \<open>broker_step\<close> has the inputs of the broker; no context points to a deleted connection in any state
    reachable without a repeated CONNECT (locale \<open>conn_frame\<close>, which extends \<open>broker_frame\<close>), and faults the code
    has outside of that.
  \<^item> \<open>Packet_Stream\<close>: the packet loop, which connections and the bridge client have in the same form (locale
    \<open>packet_loop\<close>, interpreted for both), handles in every call exactly the packets that are complete and keeps the beginning of the next.
  \<^item> \<open>Msgpack\<close> (\<^verbatim>\<open>include/msgpack\<close>), \<open>Chunk_File\<close>, \<open>Persist_Msg_Pack\<close>, \<open>Restart\<close>
    (\<^verbatim>\<open>src/mqtt_server/persist_msg_pack.cpp\<close>): the MessagePack state machine and packer with their round trip, the
    chunks of the database file (locale \<open>chunk_reader\<close>), the contents of the chunks, and the contract of the whole:
    persistent sessions survive a restart. A file is written through the buffer of the standard library: the disk
    takes \<open>w_room\<close> bytes, and \<open>w_stdio n\<close> of the first \<open>n\<close> bytes may still be in the buffer. The unpacker has the default
    limits of sizes and depth, 2 to the power 32 minus 1, which its 32 bit counters cannot exceed; they are left out.
  \<^item> \<open>Persist\<close> (\<^verbatim>\<open>src/mqtt_server/persist.cpp\<close>): the former database, which the server no longer uses, as a second
    interpretation of the locale \<open>chunk_reader\<close>. It keeps one session with one topic; a second session makes the file
    unreadable, and of several topics only the first half comes back.
  \<^item> \<open>Str_Tools\<close> (\<^verbatim>\<open>src/common/str_tools.cpp\<close>), \<open>Notify\<close> (\<^verbatim>\<open>src/mqtt_server/poller_notify.cpp\<close>), \<open>Http\<close>
    (\<^verbatim>\<open>src/http_server/http_connection.cpp\<close>): string functions, the notification queue, and the HTTP entry, up to the
    lemma that a request reaches its audience: in the bridge mode 0 the clients of its topic, in the others, the only
    ones with an HTTP server, the clients of all topics (\<open>audience\<close>, \<open>copies\<close>).
  \<^item> \<open>Server\<close> (\<^verbatim>\<open>src/mqtt_server/tcp_server.cpp\<close>, \<^verbatim>\<open>timer_handler.cpp\<close>, \<^verbatim>\<open>src/reactor/reactor.cpp\<close>, \<^verbatim>\<open>sig_handler.cpp\<close>,
    \<^verbatim>\<open>include/reactor/sock_address.hpp\<close>): the composition with the address the server listens at and its flush interval, and that a signal ends the loop and saves the sessions, because no
    handler can take the request back (locale \<open>any_frame\<close>).
  \<^item> \<open>Http_Server\<close> (\<^verbatim>\<open>src/http_server/http_server.cpp\<close>, \<^verbatim>\<open>http_acceptor.cpp\<close>): the HTTP thread with its own reactor; a client is
    served from its connection to the delivery of its message.
  \<^item> \<open>Bridge_Client\<close>, \<open>Bridge_Reconnect\<close> (\<^verbatim>\<open>src/mqtt_server/tcp_client.cpp\<close>): the client of the parent broker. Its messages are
    answered, handed on and delivered in order; a silent parent is left and connected to again with growing pauses;
    no read leaves the receive buffer.
  \<^item> \<open>Timer_File\<close>, \<open>Record_Thread\<close>, \<open>Records\<close> (\<^verbatim>\<open>src/common/timer_file.cpp\<close>, \<^verbatim>\<open>include/common/thread_record.hpp\<close>): the record
    files. An interleaving of the two threads is a run of the step relation \<open>rec_runs\<close>; the files refine a log of
    segments that respects the limits of lines and bytes; the statistics can be read back from their text.
  \<^item> \<open>Rw_Queue\<close>, \<open>Rw_Queue_Inv\<close>, \<open>Rw_Queue_Fifo\<close>, \<open>Record_Queue\<close> (\<^verbatim>\<open>include/common/readerwriterqueue.h\<close>): the lock-free queue between the two
    threads of a record file, at the grain of its accesses to shared memory. The invariant of its ring of blocks is kept
    by every interleaving (\<open>rw_step_inv\<close>); it is a first-in first-out queue, and the record thread over it refines the one
    whose queue is a list.
  \<^item> \<open>Reactor_Client\<close> (\<^verbatim>\<open>src/reactor/tcp_client.cpp\<close>): the non-blocking client of the reactor library, over handlers, poller and
    timer wheel. It connects, and connects again from its timer, of which it has one; a timer that comes too early
    leaves it with two sockets.
  \<^item> \<open>Tinyxml\<close>, \<open>Tinyxml_Read\<close>, \<open>Tinyxml_Print\<close> (\<^verbatim>\<open>src/common/tinyxml2.cpp\<close>, \<^verbatim>\<open>include/common/tinyxml2.h\<close>): the XML library,
    from the bytes of a file to the tree and back. The parser returns on every input and reads every document of a
    grammar to its tree; a document saved in compact mode is read back as it was; where the parser takes what it
    should refuse.
  \<^item> \<open>Xml_Config\<close>, \<open>Broker_Main\<close> (\<^verbatim>\<open>src/mqtt_server/xml_config.cpp\<close>, \<^verbatim>\<open>src/mqtt_broker/main.cpp\<close>): the configuration is what the
    bytes of the file say, and the process starts what the configuration says, with its addresses, ports and intervals.

  \<^bold>\<open>Conventions.\<close> Operations return the C++ return code with the new state in the option monad; \<^const>\<open>None\<close> is undefined
  behaviour, a failed assertion, an uncaught exception or a loop that does not end. Integers keep their width:
  \<^verbatim>\<open>uint8_t\<close> to \<^verbatim>\<open>uint64_t\<close> are words, and \<^verbatim>\<open>int\<close> is \<^typ>\<open>int\<close> where its values are return codes and lengths of buffers
  that stay far from its limits. Objects that are shared (handlers, contexts, buffers) are named by numbers in
  maps of the state. Virtual functions and the results of system calls are arguments: \<open>w_writes\<close> has the outcome of
  every \<^verbatim>\<open>write\<close>, an event of the poller carries the result of the \<^verbatim>\<open>read\<close> it leads to, the clock is in the state, the outcome of
  \<^verbatim>\<open>connect\<close> and \<^verbatim>\<open>listen\<close> depends on the address. Hash
  containers are lists in iteration order, or maps with the iteration order as an argument.

  \<^bold>\<open>Loops.\<close> Loops that end on every input are total functions with a measure. Those that may not end in the code are
  \<^theory_text>\<open>partial_function (option)\<close>, without fuel; where they end, that is a theorem: the unpacker and the XML parser on every input, the timer
  manager when its clock is not about to wrap, the notification loop on a queue of decodable messages, the event loop
  after a signal, the loop that connects to the parent once an attempt succeeds. The rounds of the bridge client are
  counted (\<open>svc_rounds\<close>), since its loop is meant to run as long as the process.

  \<^bold>\<open>Not modelled.\<close> Logging; data races: the steps of threads are interleaved, each seeing the writes before it, and where a
  thread hands something to the broker its handlers run one after the other; reclaiming of contexts and of buffers outside the message store;
  an earlier HTTP server (\<^verbatim>\<open>src/http\<close>), the C packet code
  (\<^verbatim>\<open>src/mqtt\<close>), tests, tools and benchmarks, which the broker does not run; vendored code but for the part of
  MessagePack the database file uses, the lock-free queue of the record threads, and reading and printing of the XML
  library: its functions to edit a tree and to query numbers are not used by the program.
\<close>

end
